(* ===== verification/Dk_Prelude.thy ===== *)
theory Dk_Prelude
  imports Main "HOL-Library.Word"
begin

text \<open>
  Shared vocabulary of the development: the C integer types of the sources, the errno values the
  code returns, and the power-of-two masks that the ring buffer and the data map index with. The
  lemmas on masks are collected in \<open>mask_simps\<close>, those on byte lists that stand for memory in
  \<open>mem_simps\<close>; the component theories hand both to the simplifier.
\<close>

unbundle bit_operations_syntax

named_theorems mask_simps "index masks of power-of-two buffers"
named_theorems mem_simps "reading and writing byte lists"

section \<open>C types and errno\<close>

type_synonym u8 = "8 word"
type_synonym u16 = "16 word"
type_synonym u32 = "32 word"
type_synonym u64 = "64 word"
type_synonym bytes = "u8 list"

text \<open>Signed C integers are \<open>int\<close>; a store into a narrower type is a two's complement truncation.\<close>

abbreviation to_int32 :: "int \<Rightarrow> int" where
  "to_int32 \<equiv> signed_take_bit 31"

abbreviation to_int64 :: "int \<Rightarrow> int" where
  "to_int64 \<equiv> signed_take_bit 63"

abbreviation INT64_MAX :: int where "INT64_MAX \<equiv> 9223372036854775807"
abbreviation INT64_MIN :: int where "INT64_MIN \<equiv> -9223372036854775808"
abbreviation UINT64_MAX :: u64 where "UINT64_MAX \<equiv> 18446744073709551615"
abbreviation UINT32_MAX_nat :: nat where "UINT32_MAX_nat \<equiv> 4294967295"
abbreviation UINT64_MAX_nat :: nat where "UINT64_MAX_nat \<equiv> 18446744073709551615"

abbreviation EPERM :: int where "EPERM \<equiv> 1"
abbreviation ENOENT :: int where "ENOENT \<equiv> 2"
abbreviation ENOMEM :: int where "ENOMEM \<equiv> 12"
abbreviation EEXIST :: int where "EEXIST \<equiv> 17"
abbreviation EINVAL :: int where "EINVAL \<equiv> 22"
abbreviation ENOSYS :: int where "ENOSYS \<equiv> 38"
abbreviation ETIME :: int where "ETIME \<equiv> 62"
abbreviation ENOBUFS :: int where "ENOBUFS \<equiv> 105"
abbreviation ECANCELED :: int where "ECANCELED \<equiv> 125"

section \<open>Powers of two and masks\<close>

text \<open>The C test \<open>(x & (x - 1)) == 0\<close>, which zero passes too.\<close>

definition pow2_test :: "u64 \<Rightarrow> bool" where
  "pow2_test x \<longleftrightarrow> x AND (x - 1) = 0"

lemma and_minus_one_nat_pow2:
  "0 < n \<Longrightarrow> (n::nat) AND (n - 1) = 0 \<Longrightarrow> \<exists>k. n = 2 ^ k"
proof (induction n rule: less_induct)
  case (less n)
  show ?case
  proof (cases "even n")
    case True
    then obtain m where m: "n = 2 * m" by (elim evenE)
    with less.prems have pos: "0 < m" by simp
    have half: "(n - Suc 0) div 2 = m - Suc 0" "n div 2 = m"
      using m pos by auto
    have "n AND (n - 1) = 2 * (m AND (m - 1))"
      by (subst and_nat_rec) (simp add: half True)
    with less.prems have "m AND (m - 1) = 0" by simp
    with less.IH [of m] m pos obtain k where "m = 2 ^ k" by auto
    with m have "n = 2 ^ Suc k" by simp
    then show ?thesis by blast
  next
    case False
    then obtain m where m: "n = 2 * m + 1" by (elim oddE)
    have "n AND (n - 1) = 2 * (m AND m)"
      by (subst and_nat_rec) (simp add: m)
    with less.prems m have "n = 2 ^ 0" by simp
    then show ?thesis by blast
  qed
qed

lemma pow2_test_iff: "x \<noteq> 0 \<Longrightarrow> pow2_test x \<longleftrightarrow> (\<exists>k < 64. unat x = 2 ^ k)"
proof
  assume x: "x \<noteq> 0" and p: "pow2_test x"
  have m1: "unat (x - 1) = unat x - 1" using x by (simp add: unat_minus_one)
  have "unat x AND (unat x - 1) = 0"
    using p unfolding pow2_test_def by (metis m1 unsigned_and_eq unsigned_0)
  moreover have "0 < unat x" using x by (simp add: unat_gt_0)
  ultimately obtain k where k: "unat x = 2 ^ k" using and_minus_one_nat_pow2 by blast
  have "unat x < 2 ^ 64" using unsigned_less [of x] by simp
  with k have "(2::nat) ^ k < 2 ^ 64" by simp
  then have "k < 64" by (rule power_less_imp_less_exp [rotated]) simp
  with k show "\<exists>k < 64. unat x = 2 ^ k" by blast
next
  assume x: "x \<noteq> 0" and "\<exists>k < 64. unat x = 2 ^ k"
  then obtain k where k: "unat x = 2 ^ k" by blast
  have m1: "unat (x - 1) = unat x - 1" using x by (simp add: unat_minus_one)
  have "unat (x AND (x - 1)) = 2 ^ k AND (2 ^ k - 1 :: nat)"
    by (simp add: unsigned_and_eq m1 k)
  also have "\<dots> = take_bit k (2 ^ k)"
    by (simp add: take_bit_eq_mask mask_eq_exp_minus_1)
  also have "\<dots> = 0" by simp
  finally show "pow2_test x" by (simp add: pow2_test_def unsigned_eq_0_iff)
qed

text \<open>Masking with \<open>size - 1\<close> is the remainder modulo a power-of-two size.\<close>

lemma unat_and_minus_one [mask_simps]:
  assumes "unat b = 2 ^ k"
  shows "unat ((x::u64) AND (b - 1)) = unat x mod unat b"
proof -
  have "b \<noteq> 0" using assms by auto
  then have m1: "unat (b - 1) = 2 ^ k - 1" using assms by (simp add: unat_minus_one)
  have "unat (x AND (b - 1)) = unat x AND (2 ^ k - 1)"
    by (simp add: unsigned_and_eq m1)
  also have "\<dots> = take_bit k (unat x)"
    by (simp add: take_bit_eq_mask mask_eq_exp_minus_1)
  finally show ?thesis by (simp add: take_bit_eq_mod assms)
qed

lemma pow2_dvd_word_range:
  assumes "unat (b::u64) = 2 ^ k"
  shows "unat b dvd 2 ^ 64"
proof -
  have "unat b < 2 ^ 64" using unsigned_less [of b] by simp
  with assms have "(2::nat) ^ k < 2 ^ 64" by simp
  then have "k < 64" by (rule power_less_imp_less_exp [rotated]) simp
  then show ?thesis by (simp only: assms le_imp_power_dvd less_imp_le)
qed

text \<open>
  Reducing modulo \<open>2 ^ 64\<close> first does not change the remainder modulo a size that divides it:
  the free-running 64-bit indices may wrap.
\<close>

lemma mod_size_of_wrapped [mask_simps]:
  "b dvd (2::nat) ^ 64 \<Longrightarrow> (a mod 2 ^ 64) mod b = a mod b"
  by (rule mod_mod_cancel)

lemma unat_add_mod_size:
  "unat (b::u64) dvd 2 ^ 64 \<Longrightarrow> unat ((x::u64) + y) mod unat b = (unat x + unat y) mod unat b"
  by (simp add: unat_word_ariths mod_mod_cancel)

lemma unat_u64_less: "unat (x::u64) < 2 ^ 64"
  using unsigned_less [of x] by simp

end
