(* ===== verification/Spin_Lock.thy ===== *)
theory Spin_Lock
  imports Dk_Prelude
begin

text \<open>
  The cross-process spin lock of \<open>so/spinlock.h\<close>. The lock is one \<open>long\<close> of the shared
  memory: 0 when free, the thread id of its holder otherwise. Three views of it are given:
  the operations on the word (\<open>cas\<close>, \<open>try_lock\<close>, \<open>unlock\<close>, \<open>check_consistency\<close>), the
  loop of \<open>SpinLock::lock\<close> over the values its compare-and-swap observes, and the
  interleavings of any number of threads as a step relation, on which mutual exclusion is
  an invariant. The locale \<open>lock_contract\<close> is what the clients of the lock rely on.
\<close>

section \<open>Outcomes of calls that may not return\<close>

text \<open>
  \<open>Blocked\<close>: the caller is still spinning; \<open>Fault\<close>: an access outside a mapping or a trap;
  \<open>Aborted\<close>: a failed \<open>assert\<close>.
\<close>

datatype 'a outcome = Done 'a | Blocked | Fault | Aborted

definition bind_outcome :: "'a outcome \<Rightarrow> ('a \<Rightarrow> 'b outcome) \<Rightarrow> 'b outcome" where
  "bind_outcome m f = (case m of Done x \<Rightarrow> f x | Blocked \<Rightarrow> Blocked | Fault \<Rightarrow> Fault | Aborted \<Rightarrow> Aborted)"

lemma bind_outcome_simps [simp]:
  "bind_outcome (Done x) f = f x"
  "bind_outcome Blocked f = Blocked"
  "bind_outcome Fault f = Fault"
  "bind_outcome Aborted f = Aborted"
  by (simp_all add: bind_outcome_def)

lemma bind_outcome_Done_iff:
  "bind_outcome m f = Done y \<longleftrightarrow> (\<exists>x. m = Done x \<and> f x = Done y)"
  by (cases m) simp_all

section \<open>The lock word\<close>

text \<open>Thread ids as \<open>gettid\<close> returns them.\<close>

definition valid_tid :: "int \<Rightarrow> bool" where
  "valid_tid t \<longleftrightarrow> 0 < t \<and> t < 2 ^ 31"

text \<open>\<open>__sync_val_compare_and_swap\<close>: the old value, and the word afterwards.\<close>

definition cas :: "int \<Rightarrow> int \<Rightarrow> int \<Rightarrow> int \<times> int" where
  "cas w old new = (w, if w = old then new else w)"

definition try_lock :: "int \<Rightarrow> int \<Rightarrow> bool \<times> int" where
  "try_lock tid w = (w = 0, if w = 0 then tid else w)"

text \<open>\<open>unlock\<close> releases only a lock that the caller holds.\<close>

definition unlock_word :: "int \<Rightarrow> int \<Rightarrow> int" where
  "unlock_word tid w = (if tid \<noteq> w then w else 0)"

text \<open>
  \<open>SpinLock::unlock\<close> with the assertion that follows the release: the lock was taken less than
  five seconds ago.
\<close>

definition unlock :: "int \<Rightarrow> int \<Rightarrow> int \<Rightarrow> int \<Rightarrow> int outcome" where
  "unlock tid m_time now w =
     (if tid \<noteq> w then Done w
      else if now - m_time < 5 then Done 0 else Aborted)"

text \<open>
  \<open>check_consistency\<close> reads the word twice; \<open>kill_ok pid\<close> is \<open>kill(pid, 0) == 0\<close>.
\<close>

definition check_consistency :: "(int \<Rightarrow> bool) \<Rightarrow> int \<Rightarrow> int \<Rightarrow> bool" where
  "check_consistency kill_ok w1 w2 =
     (let pid_occupy = to_int32 w1
      in if pid_occupy = 0 then True
         else if kill_ok pid_occupy then True
         else w2 = 0)"

section \<open>The loop of lock()\<close>

record spin =
  m_time :: int
  last_pid_occupy :: int
  print_warning :: bool

text \<open>The body of the loop, for the holder it saw and the two clock readings it takes.\<close>

definition lock_body :: "spin \<Rightarrow> int \<Rightarrow> int \<Rightarrow> int \<Rightarrow> spin" where
  "lock_body st pid_occupy t1 t2 =
     (let st1 = (if pid_occupy \<noteq> last_pid_occupy st
                 then st\<lparr>last_pid_occupy := pid_occupy, m_time := t1\<rparr> else st)
      in if t2 - m_time st1 > 4 \<and> \<not> print_warning st1
         then st1\<lparr>print_warning := True\<rparr> else st1)"

datatype lock_result = Acquired int spin | Spinning spin

text \<open>
  One observation per iteration: the word that the compare-and-swap meets and the clock readings
  of the body. The observations are what the other threads and the clock decide.
\<close>

fun lock_loop :: "int \<Rightarrow> spin \<Rightarrow> (int \<times> int \<times> int) list \<Rightarrow> lock_result" where
  "lock_loop tid st [] = Spinning st"
| "lock_loop tid st ((w, t1, t2) # obs) =
     (let (old, w') = cas w 0 tid; pid_occupy = to_int32 old
      in if pid_occupy = 0 then Acquired w' st
         else lock_loop tid (lock_body st pid_occupy t1 t2) obs)"

definition lock :: "int \<Rightarrow> int \<Rightarrow> (int \<times> int \<times> int) list \<Rightarrow> lock_result" where
  "lock tid now obs =
     lock_loop tid \<lparr>m_time = now, last_pid_occupy = 0, print_warning = False\<rparr> obs"

text \<open>A word that only the operations of this file wrote: free, or a thread id.\<close>

definition sane_word :: "int \<Rightarrow> bool" where
  "sane_word w \<longleftrightarrow> w = 0 \<or> valid_tid w"

lemma to_int32_id: "- (2 ^ 31) \<le> x \<Longrightarrow> x < 2 ^ 31 \<Longrightarrow> to_int32 x = x"
  by (simp add: signed_take_bit_int_eq_self)

lemma sane_word_to_int32 [simp]: "sane_word w \<Longrightarrow> to_int32 w = w"
  by (auto simp: sane_word_def valid_tid_def intro: to_int32_id)

lemma valid_tid_sane [simp]: "valid_tid t \<Longrightarrow> sane_word t" "valid_tid t \<Longrightarrow> t \<noteq> 0" "sane_word 0"
  by (auto simp: sane_word_def valid_tid_def)

text \<open>On sane words the loop leaves exactly at its first observation of a free lock, holding it.\<close>

lemma lock_loop_acquires:
  assumes "\<forall>w \<in> set (map fst pre). sane_word w \<and> w \<noteq> 0"
  shows "\<exists>st'. lock_loop tid st (pre @ (0, t1, t2) # post) = Acquired tid st'"
  using assms
proof (induction pre arbitrary: st)
  case Nil
  then show ?case by (simp add: cas_def)
next
  case (Cons x pre)
  obtain w a b where x: "x = (w, a, b)" by (cases x)
  with Cons show ?case by (simp add: cas_def)
qed

lemma lock_loop_spins:
  "\<forall>w \<in> set (map fst obs). sane_word w \<and> w \<noteq> 0 \<Longrightarrow> \<exists>st'. lock_loop tid st obs = Spinning st'"
  by (induction tid st obs rule: lock_loop.induct) (auto simp: cas_def)

text \<open>
  The warning is only about a holder that was first seen more than four seconds before.
\<close>

definition warn_justified :: "spin \<Rightarrow> int \<Rightarrow> int \<Rightarrow> bool" where
  "warn_justified st pid_occupy t2 \<longleftrightarrow> pid_occupy = last_pid_occupy st \<and> t2 - m_time st > 4"

lemma lock_body_warns:
  assumes "\<not> print_warning st" and "print_warning (lock_body st p t1 t2)" and "t2 - t1 \<le> 4"
  shows "warn_justified st p t2"
  using assms by (auto simp: lock_body_def warn_justified_def Let_def split: if_splits)

section \<open>What clients rely on\<close>

text \<open>
  \<open>held\<close> gives the holder of a lock state, if any. An attempt changes a free lock into one held
  by the caller and leaves a held one alone; a release by anyone but the holder has no effect.
\<close>

datatype 't attempt = Try 't | Release 't

locale lock_contract =
  fixes tryl :: "'t \<Rightarrow> 'w \<Rightarrow> bool \<times> 'w"
    and rel :: "'t \<Rightarrow> 'w \<Rightarrow> 'w"
    and held :: "'w \<Rightarrow> 't option"
    and vt :: "'t \<Rightarrow> bool"
  assumes try_free: "held w = None \<Longrightarrow> vt t \<Longrightarrow> fst (tryl t w) \<and> held (snd (tryl t w)) = Some t"
    and try_held: "held w = Some u \<Longrightarrow> tryl t w = (False, w)"
    and rel_own: "held w = Some t \<Longrightarrow> held (rel t w) = None"
    and rel_other: "held w = Some u \<Longrightarrow> u \<noteq> t \<Longrightarrow> rel t w = w"
begin

primrec attempt_eff :: "'t attempt \<Rightarrow> 'w \<Rightarrow> 'w" where
  "attempt_eff (Try t) w = snd (tryl t w)"
| "attempt_eff (Release t) w = rel t w"

text \<open>Nothing the others do takes the lock away from its holder.\<close>

lemma holder_keeps:
  assumes "held w = Some u" and "\<forall>a \<in> set as. a \<noteq> Release u"
  shows "fold attempt_eff as w = w"
  using assms
proof (induction as)
  case Nil
  then show ?case by simp
next
  case (Cons a as)
  then have "attempt_eff a w = w"
    by (cases a) (auto simp: try_held intro: rel_other)
  with Cons show ?case by simp
qed

text \<open>A critical section: take the free lock, let the others try, release it; it is free again.\<close>

lemma section_frees:
  assumes "held w = None" and "vt t" and "\<forall>a \<in> set as. a \<noteq> Release t"
  shows "held (rel t (fold attempt_eff as (snd (tryl t w)))) = None"
  using try_free [OF assms(1,2)] assms(3) by (simp add: holder_keeps rel_own)

end

definition held_by :: "int \<Rightarrow> int option" where
  "held_by w = (if w = 0 then None else Some w)"

interpretation spin: lock_contract try_lock unlock_word held_by valid_tid
  by unfold_locales (auto simp: try_lock_def unlock_word_def held_by_def split: if_splits)

section \<open>Critical sections as calls\<close>

text \<open>
  \<open>SpinLockGuard\<close> and the \<open>lock(); ... unlock();\<close> pairs: the body runs with the word set to the
  caller; \<open>t0\<close> is the clock at \<open>lock\<close>, \<open>t1\<close> at \<open>unlock\<close>. A held lock keeps the caller spinning.
\<close>

definition with_lock ::
  "int \<Rightarrow> int \<Rightarrow> int \<Rightarrow> int \<Rightarrow> (int \<Rightarrow> 'a outcome) \<Rightarrow> ('a \<times> int) outcome" where
  "with_lock tid t0 t1 w body =
     (case lock tid t0 [(w, t0, t0)] of
        Spinning st \<Rightarrow> Blocked
      | Acquired w' st \<Rightarrow>
          bind_outcome (body w') (\<lambda>r. bind_outcome (unlock tid (m_time st) t1 w') (\<lambda>w''. Done (r, w''))))"

lemma with_lock_free:
  assumes "valid_tid tid" and "t1 - t0 < 5"
  shows "with_lock tid t0 t1 0 body = bind_outcome (body tid) (\<lambda>r. Done (r, 0))"
  using assms by (simp add: with_lock_def lock_def cas_def unlock_def cong: outcome.case_cong)

lemma with_lock_held:
  "sane_word w \<Longrightarrow> w \<noteq> 0 \<Longrightarrow> with_lock tid t0 t1 w body = Blocked"
  by (simp add: with_lock_def lock_def cas_def)

section \<open>Interleavings\<close>

datatype lpc = Idle | Spin | Crit | Dead

record lsys =
  lword :: int
  pcs :: "int \<Rightarrow> lpc"

definition init_lsys :: lsys where
  "init_lsys = \<lparr>lword = 0, pcs = (\<lambda>_. Idle)\<rparr>"

text \<open>
  One rule per access to the word: entering \<open>lock()\<close>, a compare-and-swap that succeeds or fails,
  \<open>try_lock\<close>, \<open>unlock\<close> by a thread in its section or by any other, and the death of a thread,
  which leaves the word as it is.
\<close>

inductive lock_step :: "lsys \<Rightarrow> lsys \<Rightarrow> bool" where
  call: "valid_tid t \<Longrightarrow> pcs s t = Idle \<Longrightarrow> lock_step s (s\<lparr>pcs := (pcs s)(t := Spin)\<rparr>)"
| cas_ok: "pcs s t = Spin \<Longrightarrow> cas (lword s) 0 t = (old, w') \<Longrightarrow> to_int32 old = 0 \<Longrightarrow>
     lock_step s (s\<lparr>lword := w', pcs := (pcs s)(t := Crit)\<rparr>)"
| cas_fail: "pcs s t = Spin \<Longrightarrow> cas (lword s) 0 t = (old, w') \<Longrightarrow> to_int32 old \<noteq> 0 \<Longrightarrow>
     lock_step s (s\<lparr>lword := w'\<rparr>)"
| try_ok: "valid_tid t \<Longrightarrow> pcs s t = Idle \<Longrightarrow> try_lock t (lword s) = (True, w') \<Longrightarrow>
     lock_step s (s\<lparr>lword := w', pcs := (pcs s)(t := Crit)\<rparr>)"
| try_fail: "pcs s t \<noteq> Dead \<Longrightarrow> try_lock t (lword s) = (False, w') \<Longrightarrow>
     lock_step s (s\<lparr>lword := w'\<rparr>)"
| unlock_own: "pcs s t = Crit \<Longrightarrow>
     lock_step s (s\<lparr>lword := unlock_word t (lword s), pcs := (pcs s)(t := Idle)\<rparr>)"
| unlock_stray: "pcs s t = Idle \<Longrightarrow> valid_tid t \<Longrightarrow> lock_step s (s\<lparr>lword := unlock_word t (lword s)\<rparr>)"
| die: "valid_tid t \<Longrightarrow> lock_step s (s\<lparr>pcs := (pcs s)(t := Dead)\<rparr>)"

inductive lock_reach :: "lsys \<Rightarrow> bool" where
  init: "lock_reach init_lsys"
| step: "lock_reach s \<Longrightarrow> lock_step s s' \<Longrightarrow> lock_reach s'"

inductive_cases lock_stepE: "lock_step s s'"

text \<open>The strengthened invariant: the word is sane and names every thread inside its section.\<close>

definition lock_inv :: "lsys \<Rightarrow> bool" where
  "lock_inv s \<longleftrightarrow> sane_word (lword s) \<and> (\<forall>t. pcs s t = Crit \<longrightarrow> t = lword s \<and> valid_tid t)
     \<and> (\<forall>t. pcs s t = Spin \<longrightarrow> valid_tid t)
     \<and> (lword s \<noteq> 0 \<longrightarrow> pcs s (lword s) \<in> {Crit, Dead})"

lemma lock_invD:
  assumes "lock_inv s"
  shows "sane_word (lword s)" "pcs s t = Crit \<Longrightarrow> t = lword s \<and> valid_tid t"
    "pcs s t = Spin \<Longrightarrow> valid_tid t"
  using assms unfolding lock_inv_def by blast+

lemma lock_invI:
  "sane_word (lword s) \<Longrightarrow> (\<And>t. pcs s t = Crit \<Longrightarrow> t = lword s \<and> valid_tid t) \<Longrightarrow>
   (\<And>t. pcs s t = Spin \<Longrightarrow> valid_tid t) \<Longrightarrow>
   (lword s \<noteq> 0 \<Longrightarrow> pcs s (lword s) = Crit \<or> pcs s (lword s) = Dead) \<Longrightarrow> lock_inv s"
  unfolding lock_inv_def by blast

lemma lock_inv_free: "lock_inv s \<Longrightarrow> lword s = 0 \<Longrightarrow> pcs s t \<noteq> Crit"
  unfolding lock_inv_def using valid_tid_sane(2) by metis

lemma lock_inv_holder: "lock_inv s \<Longrightarrow> lword s \<noteq> 0 \<Longrightarrow> pcs s (lword s) = Crit \<or> pcs s (lword s) = Dead"
  unfolding lock_inv_def by blast

lemma lock_inv_take:
  assumes "lock_inv s" "lword s = 0" "valid_tid t"
  shows "lock_inv (s\<lparr>lword := t, pcs := (pcs s)(t := Crit)\<rparr>)"
  using assms(1,3) lock_inv_free [OF assms(1,2)] by (auto simp: lock_inv_def)

lemma lock_inv_only_holder:
  "lock_inv s \<Longrightarrow> pcs s t = Crit \<Longrightarrow> pcs s u = Crit \<Longrightarrow> t = u"
  unfolding lock_inv_def by metis

lemma lock_step_inv: "lock_step s s' \<Longrightarrow> lock_inv s \<Longrightarrow> lock_inv s'"
proof (induction rule: lock_step.induct)
  case (call t s)
  then have "lword s \<noteq> t" using lock_inv_holder [of s] valid_tid_sane(2) [of t] by auto
  with call show ?case by (simp add: lock_inv_def)
next
  case (cas_ok s t old w')
  then have "lword s = 0" "w' = t" "valid_tid t" by (auto simp: lock_inv_def cas_def)
  with cas_ok show ?case by (simp add: lock_inv_take)
next
  case (cas_fail s t old w')
  then have "w' = lword s" by (auto simp: cas_def)
  with cas_fail show ?case by simp
next
  case (try_ok t s w')
  then have "lword s = 0" "w' = t" by (auto simp: try_lock_def split: if_splits)
  with try_ok show ?case by (simp add: lock_inv_take)
next
  case (try_fail s t w')
  then have "w' = lword s" by (auto simp: try_lock_def)
  with try_fail show ?case by simp
next
  case (unlock_own s t)
  then have t: "lword s = t" and spin: "\<And>u. pcs s u = Spin \<Longrightarrow> valid_tid u"
    unfolding lock_inv_def by blast+
  have "pcs s u \<noteq> Crit" if "u \<noteq> t" for u
    using lock_inv_only_holder [OF unlock_own(2,1), of u] that by blast
  with t spin show ?case by (simp add: lock_inv_def unlock_word_def)
next
  case (unlock_stray s t)
  then have "t \<noteq> lword s" using lock_inv_holder [of s] by auto
  with unlock_stray show ?case by (simp add: unlock_word_def)
next
  case (die t s)
  show ?case
    by (rule lock_invI)
      (simp_all add: lock_invD [OF die(2)] lock_inv_holder [OF die(2)] split: if_splits)
qed

lemma lock_reach_inv: "lock_reach s \<Longrightarrow> lock_inv s"
proof (induction rule: lock_reach.induct)
  case init
  show ?case by (simp add: lock_inv_def init_lsys_def)
next
  case (step s s')
  then show ?case by (blast intro: lock_step_inv)
qed

section \<open>Properties\<close>

text \<open>C3: Mutual exclusion across all interleavings of any number of threads, threads that die
  and stray unlocks included: a thread inside its critical section is the one whose id is in the
  lock word, and no other thread is inside.\<close>

theorem spin_mutual_exclusion:
  assumes "lock_reach s" and "pcs s t = Crit"
  shows "lword s = t \<and> (\<forall>u. pcs s u = Crit \<longrightarrow> u = t)"
  using lock_reach_inv [OF assms(1)] assms(2) lock_invD(2) lock_inv_only_holder by blast

theorem spin_mutual_exclusion_witness:
  "\<exists>s. lock_reach s \<and> pcs s 7 = Crit \<and> lword s = 7 \<and> (\<forall>u. pcs s u = Crit \<longrightarrow> u = 7)"
proof -
  let ?s = "init_lsys\<lparr>lword := 7, pcs := (pcs init_lsys)(7 := Crit)\<rparr>"
  have "lock_step init_lsys ?s"
    by (rule lock_step.try_ok) (simp_all add: valid_tid_def init_lsys_def try_lock_def)
  then have r: "lock_reach ?s" by (rule lock_reach.step [OF lock_reach.init])
  have "pcs ?s 7 = Crit" by simp
  with spin_mutual_exclusion [OF r, of 7] r show ?thesis by blast
qed

text \<open>C10: \<open>lock()\<close> returns exactly when one of its compare-and-swaps meets a free lock, and then
  the word holds the caller's id; otherwise the caller is still spinning.\<close>

theorem lock_returns_iff_free:
  assumes "\<forall>w \<in> set (map fst obs). sane_word w"
  shows "((\<exists>st. lock tid now obs = Acquired tid st) \<longleftrightarrow> 0 \<in> set (map fst obs))
     \<and> ((\<exists>st. lock tid now obs = Spinning st) \<longleftrightarrow> 0 \<notin> set (map fst obs))"
proof (cases "0 \<in> set (map fst obs)")
  case True
  then have "\<exists>x \<in> set obs. fst x = 0" by force
  then obtain pre x post where x: "obs = pre @ x # post" "fst x = 0" "\<forall>y \<in> set pre. fst y \<noteq> 0"
    by (rule split_list_first_propE)
  then have "\<exists>st. lock tid now obs = Acquired tid st"
    using assms lock_loop_acquires [of pre tid] by (cases x) (fastforce simp: lock_def)
  with True show ?thesis by auto
next
  case False
  then have "\<exists>st. lock tid now obs = Spinning st"
    unfolding lock_def using assms by (intro lock_loop_spins) metis
  with False show ?thesis by auto
qed

theorem lock_returns_iff_free_witness:
  "(\<exists>st. lock 42 0 [(7, 1, 1), (0, 2, 2)] = Acquired 42 st) \<and> (\<exists>st. lock 42 0 [(7, 1, 1)] = Spinning st)"
  using lock_returns_iff_free [of "[(7, 1, 1), (0, 2, 2)]" 42 0] lock_returns_iff_free [of "[(7, 1, 1)]" 42 0]
  by (simp add: sane_word_def valid_tid_def)

text \<open>While a thread holds the lock, no sequence of \<open>try_lock\<close> calls by anyone and \<open>unlock\<close>
  calls by other threads changes the lock word, and after the holder's own \<open>unlock\<close> the lock is
  free.\<close>

theorem lock_held_until_release:
  assumes "valid_tid t" and "\<forall>a \<in> set as. a \<noteq> Release t"
  shows "fold spin.attempt_eff as t = t \<and> unlock_word t (fold spin.attempt_eff as (snd (try_lock t 0))) = 0"
  using spin.holder_keeps [of t t as] spin.section_frees [of 0 t as] assms
  by (auto simp: held_by_def split: if_splits)

theorem lock_held_until_release_witness:
  "fold spin.attempt_eff [Try 8, Release 9] 7 = 7
     \<and> unlock_word 7 (fold spin.attempt_eff [Try 8, Release 9] (snd (try_lock 7 0))) = 0"
  using lock_held_until_release [of 7 "[Try 8, Release 9]"] by (simp add: valid_tid_def)

section \<open>The assertion of unlock\<close>

text \<open>
  \<open>m_time\<close> is set before and during the wait but not when the lock is taken, so the assertion of
  \<open>unlock\<close> counts the time spent waiting: here thread 42 waits from 0 to 5 for thread 7, holds the
  lock for one second, and aborts.
\<close>

lemma unlock_counts_waiting:
  "\<exists>st. lock 42 0 [(7, 0, 0), (7, 4, 4), (0, 5, 5)] = Acquired 42 st \<and> unlock 42 (m_time st) 6 42 = Aborted"
  by (simp add: lock_def lock_body_def cas_def unlock_def signed_take_bit_int_eq_self)

end
