(* ===== verification/Mirror_Memory.thy ===== *)
theory Mirror_Memory
  imports Spin_Lock
begin

text \<open>
  \<open>MirrorMemory\<close> of \<open>so/shm.cpp\<close>: a shared segment of \<open>bsz\<close> bytes attached twice, back to back,
  so that an access that starts in the first copy and runs past its end continues at the
  beginning of the segment. The first half models the constructor and the destructor over the
  results of the system calls they make; the second half is the memory itself, a list that is
  read and written through offsets below twice its length.
\<close>

section \<open>Construction and release\<close>

text \<open>System calls: \<open>Inl\<close> is a failure with its errno. Addresses are 64-bit words.\<close>

record mm_sys =
  getpagesize :: u64
  sys_mmap :: "u64 \<Rightarrow> int + u64"
  sys_shmget :: "int \<Rightarrow> u64 \<Rightarrow> int + int"
  sys_shmat :: "int \<Rightarrow> u64 \<Rightarrow> int + u64"

datatype mm_call = Shmdt u64 | Munmap u64 u64 | ShmRmid int

record MirrorMemory =
  mm_addr :: u64
  mm_bsz :: u64
  mm_shmid :: int

abbreviation nullptr :: u64 where "nullptr \<equiv> 0"
abbreviation MAP_FAILED :: u64 where "MAP_FAILED \<equiv> -1"

text \<open>The \<open>err\<close> label: what is released for the three local pointers.\<close>

definition mm_err :: "u64 \<Rightarrow> u64 \<Rightarrow> u64 \<Rightarrow> u64 \<Rightarrow> mm_call list" where
  "mm_err bsz addr addr_mirror addr_mmap =
     (if addr \<noteq> -1 then [Shmdt addr] else []) @
     (if addr_mirror \<noteq> -1 then [Shmdt addr_mirror] else []) @
     (if addr_mmap \<noteq> MAP_FAILED then [Munmap addr_mmap (bsz * 2)] else [])"

datatype mm_fail = BadSize | MmapFailed | ShmgetFailed | ShmatFailed | MirrorFailed

definition MirrorMemory_new ::
  "mm_sys \<Rightarrow> u64 \<Rightarrow> int \<Rightarrow> mm_call list \<times> (mm_fail + MirrorMemory)" where
  "MirrorMemory_new sys bsz key =
     (if bsz mod getpagesize sys \<noteq> 0 \<or> bsz AND (bsz - 1) \<noteq> 0
      then (mm_err bsz nullptr nullptr nullptr, Inl BadSize)
      else case sys_mmap sys (bsz * 2) of
        Inl e \<Rightarrow> (mm_err bsz nullptr nullptr MAP_FAILED, Inl MmapFailed)
      | Inr addr_mmap \<Rightarrow>
        (case sys_shmget sys key bsz of
          Inl e \<Rightarrow> (mm_err bsz nullptr nullptr addr_mmap, Inl ShmgetFailed)
        | Inr shmid \<Rightarrow>
          (case sys_shmat sys shmid addr_mmap of
            Inl e \<Rightarrow> (mm_err bsz (-1) nullptr addr_mmap, Inl ShmatFailed)
          | Inr addr \<Rightarrow>
            (case sys_shmat sys shmid (addr_mmap + bsz) of
              Inl e \<Rightarrow> (mm_err bsz addr (-1) addr_mmap, Inl MirrorFailed)
            | Inr addr_mirror \<Rightarrow>
                ([], Inr \<lparr>mm_addr = addr, mm_bsz = bsz, mm_shmid = shmid\<rparr>)))))"

text \<open>
  The destructor; \<open>nattch shmid\<close> is the attach count that \<open>shmctl(IPC_STAT)\<close> reports, if it
  succeeds.
\<close>

definition MirrorMemory_delete :: "(int \<Rightarrow> nat option) \<Rightarrow> MirrorMemory \<Rightarrow> mm_call list" where
  "MirrorMemory_delete nattch m =
     (if mm_addr m \<noteq> nullptr
      then Munmap (mm_addr m) (mm_bsz m * 2) #
           (if nattch (mm_shmid m) = Some 0 then [ShmRmid (mm_shmid m)] else [])
      else [])"

definition getaddr :: "MirrorMemory \<Rightarrow> u64" where
  "getaddr m = mm_addr m"

definition getmirror :: "MirrorMemory \<Rightarrow> u64" where
  "getmirror m = mm_addr m + mm_bsz m"

text \<open>Documented behaviour of \<open>shmat\<close> with \<open>SHM_REMAP\<close> at a given address, and of \<open>mmap\<close>.\<close>

definition remap_in_place :: "mm_sys \<Rightarrow> bool" where
  "remap_in_place sys \<longleftrightarrow> (\<forall>i a b. sys_shmat sys i a = Inr b \<longrightarrow> b = a)"

definition mmap_not_failed :: "mm_sys \<Rightarrow> bool" where
  "mmap_not_failed sys \<longleftrightarrow> (\<forall>n a. sys_mmap sys n = Inr a \<longrightarrow> a \<noteq> MAP_FAILED)"

lemma MirrorMemory_new_Inr:
  assumes "MirrorMemory_new sys bsz key = (cs, Inr m)"
  obtains a where "bsz mod getpagesize sys = 0" "pow2_test bsz" "cs = []"
    "sys_mmap sys (bsz * 2) = Inr a" "sys_shmat sys (mm_shmid m) a = Inr (mm_addr m)"
    "sys_shmat sys (mm_shmid m) (a + bsz) \<noteq> Inl e" "mm_bsz m = bsz"
  using assms
  by (auto simp: MirrorMemory_new_def pow2_test_def split: if_splits sum.splits)

lemma MirrorMemory_new_Inl_unmaps:
  assumes "MirrorMemory_new sys bsz key = (cs, Inl f)" and "mmap_not_failed sys"
    and "f \<noteq> BadSize" and "sys_mmap sys (bsz * 2) = Inr a"
  shows "Munmap a (bsz * 2) \<in> set cs"
  using assms
  by (auto simp: MirrorMemory_new_def mm_err_def mmap_not_failed_def split: if_splits sum.splits)

section \<open>The doubly mapped memory\<close>

text \<open>
  \<open>mem\<close> is the segment; offset \<open>off\<close> of the double mapping names its element
  \<open>off mod length mem\<close>. Stores and loads that leave the double mapping fault.
\<close>

primrec store_wrap :: "'a list \<Rightarrow> nat \<Rightarrow> 'a list \<Rightarrow> 'a list" where
  "store_wrap mem off [] = mem"
| "store_wrap mem off (x # xs) = store_wrap (mem[off mod length mem := x]) (Suc off) xs"

definition load_wrap :: "'a list \<Rightarrow> nat \<Rightarrow> nat \<Rightarrow> 'a list" where
  "load_wrap mem off n = map (\<lambda>i. mem ! ((off + i) mod length mem)) [0..<n]"

text \<open>
  \<open>memcpy(mem + off, src, n)\<close> and \<open>memcpy(dst, mem + off, n)\<close>; reading past the source
  object is a fault as well.
\<close>

definition memcpy_in :: "'a list \<Rightarrow> nat \<Rightarrow> 'a list \<Rightarrow> nat \<Rightarrow> 'a list outcome" where
  "memcpy_in mem off src n =
     (if n \<le> length src \<and> off + n \<le> 2 * length mem
      then Done (store_wrap mem off (take n src)) else Fault)"

definition memcpy_out :: "'a list \<Rightarrow> nat \<Rightarrow> nat \<Rightarrow> 'a list outcome" where
  "memcpy_out mem off n =
     (if off + n \<le> 2 * length mem then Done (load_wrap mem off n) else Fault)"

lemma length_store_wrap [simp]: "length (store_wrap mem off xs) = length mem"
  by (induction xs arbitrary: mem off) simp_all

lemma length_load_wrap [simp]: "length (load_wrap mem off n) = n"
  by (simp add: load_wrap_def)

lemma nth_load_wrap [simp]: "i < n \<Longrightarrow> load_wrap mem off n ! i = mem ! ((off + i) mod length mem)"
  by (simp add: load_wrap_def)

lemma load_wrap_0 [simp]: "load_wrap mem off 0 = []"
  by (simp add: load_wrap_def)

lemma load_wrap_add [mem_simps]:
  "load_wrap mem off (n + m) = load_wrap mem off n @ load_wrap mem (off + n) m"
  by (rule nth_equalityI) (simp_all add: nth_append add.assoc)

lemma load_wrap_mod [mem_simps]: "load_wrap mem (off mod length mem) n = load_wrap mem off n"
  by (simp add: load_wrap_def mod_add_left_eq)

lemma take_load_wrap [mem_simps]: "m \<le> n \<Longrightarrow> take m (load_wrap mem off n) = load_wrap mem off m"
  by (rule nth_equalityI) simp_all

lemma drop_load_wrap [mem_simps]: "m \<le> n \<Longrightarrow> drop m (load_wrap mem off n) = load_wrap mem (off + m) (n - m)"
  by (rule nth_equalityI) (simp_all add: add.assoc)

lemma store_wrap_mod [mem_simps]: "store_wrap mem (off mod length mem) xs = store_wrap mem off xs"
proof (induction xs arbitrary: mem off)
  case Nil
  then show ?case by simp
next
  case (Cons x xs)
  let ?m = "mem[off mod length mem := x]"
  have "store_wrap ?m (Suc (off mod length mem)) xs = store_wrap ?m (Suc (off mod length mem) mod length ?m) xs"
    by (rule Cons.IH [symmetric])
  also have "\<dots> = store_wrap ?m (Suc off mod length ?m) xs" by (simp add: mod_Suc_eq)
  also have "\<dots> = store_wrap ?m (Suc off) xs" by (rule Cons.IH)
  finally show ?case by simp
qed

text \<open>Two offsets less than one length apart name different elements.\<close>

lemma offsets_distinct:
  assumes "(a::nat) mod n = b mod n" "a \<le> b" "b < a + n"
  shows "a = b"
proof -
  have "n dvd b - a" using assms(1,2) mod_eq_dvd_iff_nat [of a b n] by simp
  moreover have "b - a < n" using assms(2,3) by simp
  ultimately show ?thesis using assms(2) by (auto dest: nat_dvd_not_less)
qed

lemma store_wrap_other:
  assumes "\<And>j. j < length xs \<Longrightarrow> (off + j) mod length mem \<noteq> i"
  shows "store_wrap mem off xs ! i = mem ! i"
  using assms
proof (induction xs arbitrary: mem off)
  case Nil
  then show ?case by simp
next
  case (Cons x xs)
  have "(Suc off + j) mod length (mem[off mod length mem := x]) \<noteq> i" if "j < length xs" for j
    using Cons.prems [of "Suc j"] that by simp
  then have "store_wrap mem off (x # xs) ! i = mem[off mod length mem := x] ! i"
    by (simp add: Cons.IH)
  also have "\<dots> = mem ! i" using Cons.prems [of 0] by simp
  finally show ?case .
qed

text \<open>What a store of at most one length wrote is what a load at the same offset returns.\<close>

lemma load_store_same [mem_simps]:
  assumes "length xs \<le> length mem"
  shows "load_wrap (store_wrap mem off xs) off (length xs) = xs"
  using assms
proof (induction xs arbitrary: mem off)
  case Nil
  then show ?case by simp
next
  case (Cons x xs)
  let ?m = "mem[off mod length mem := x]" and ?n = "length mem"
  have pos: "0 < ?n" using Cons.prems by auto
  have hd: "store_wrap ?m (Suc off) xs ! (off mod ?n) = x"
  proof -
    have "(Suc off + j) mod length ?m \<noteq> off mod ?n" if "j < length xs" for j
      using offsets_distinct [of off ?n "Suc off + j"] that Cons.prems by auto
    then have "store_wrap ?m (Suc off) xs ! (off mod ?n) = ?m ! (off mod ?n)"
      by (rule store_wrap_other)
    then show ?thesis using pos by simp
  qed
  have "load_wrap (store_wrap ?m (Suc off) xs) off (1 + length xs)
        = load_wrap (store_wrap ?m (Suc off) xs) off 1
          @ load_wrap (store_wrap ?m (Suc off) xs) (off + 1) (length xs)"
    by (rule load_wrap_add)
  also have "load_wrap (store_wrap ?m (Suc off) xs) off 1 = [x]"
    by (simp add: load_wrap_def hd)
  also have "load_wrap (store_wrap ?m (Suc off) xs) (off + 1) (length xs) = xs"
    using Cons.IH [of ?m "Suc off"] Cons.prems by simp
  finally show ?case by simp
qed

text \<open>A load that ends where the store begins is not affected, as long as both fit in one length.\<close>

lemma load_store_before [mem_simps]:
  assumes "n + length xs \<le> length mem"
  shows "load_wrap (store_wrap mem (off + n) xs) off n = load_wrap mem off n"
proof (rule nth_equalityI)
  fix i assume "i < length (load_wrap (store_wrap mem (off + n) xs) off n)"
  then have i: "i < n" by simp
  have "(off + n + j) mod length mem \<noteq> (off + i) mod length mem" if "j < length xs" for j
    using offsets_distinct [of "off + i" "length mem" "off + n + j"] i that assms by auto
  then have "store_wrap mem (off + n) xs ! ((off + i) mod length mem) = mem ! ((off + i) mod length mem)"
    by (rule store_wrap_other)
  with i show "load_wrap (store_wrap mem (off + n) xs) off n ! i = load_wrap mem off n ! i" by simp
qed simp

section \<open>Properties\<close>

text \<open>C11: A mirror memory that is constructed has a size that is a multiple of the page size and
  a power of two, its second copy starts exactly where the first one ends, and nothing was
  released. When the construction fails after the address range was reserved, the whole
  reserved range is unmapped again.\<close>

theorem MirrorMemory_new_correct:
  assumes "remap_in_place sys" "mmap_not_failed sys" "b \<noteq> 0"
  shows "case MirrorMemory_new sys b key of
      (cs, Inr m) \<Rightarrow> cs = [] \<and> b mod getpagesize sys = 0 \<and> (\<exists>k. unat b = 2 ^ k) \<and> mm_bsz m = b
        \<and> (\<exists>a. sys_mmap sys (b * 2) = Inr a \<and> getaddr m = a \<and> getmirror m = a + b
             \<and> sys_shmat sys (mm_shmid m) (a + b) = Inr (getmirror m))
    | (cs, Inl f) \<Rightarrow> f = BadSize \<or> (\<forall>a. sys_mmap sys (b * 2) = Inr a \<longrightarrow> Munmap a (b * 2) \<in> set cs)"
proof -
  obtain cs r where e: "MirrorMemory_new sys b key = (cs, r)" by fastforce
  show ?thesis
  proof (cases r)
    case (Inl f)
    with e show ?thesis using MirrorMemory_new_Inl_unmaps [OF _ assms(2)] by auto
  next
    case (Inr m)
    have ex: "\<exists>y. sys_shmat sys i a = Inr y" if "\<And>e. sys_shmat sys i a \<noteq> Inl e" for i a
      using that by (cases "sys_shmat sys i a") auto
    obtain a where a: "sys_mmap sys (b * 2) = Inr a" "sys_shmat sys (mm_shmid m) a = Inr (mm_addr m)"
      "\<And>e. sys_shmat sys (mm_shmid m) (a + b) \<noteq> Inl e"
      "b mod getpagesize sys = 0" "pow2_test b" "cs = []" "mm_bsz m = b"
      using e Inr by (auto simp: MirrorMemory_new_def pow2_test_def split: if_splits sum.splits)
    have "mm_addr m = a" using a(2) assms(1) by (auto simp: remap_in_place_def)
    moreover obtain y where "sys_shmat sys (mm_shmid m) (a + b) = Inr y" using ex a(3) by blast
    moreover from this have "y = a + b" using assms(1) by (auto simp: remap_in_place_def)
    ultimately show ?thesis
      using a e Inr pow2_test_iff assms(3) by (auto simp: getaddr_def getmirror_def)
  qed
qed

definition ex_mm_sys :: mm_sys where
  "ex_mm_sys = \<lparr>getpagesize = 4096, sys_mmap = (\<lambda>n. Inr 65536), sys_shmget = (\<lambda>k n. Inr 5),
     sys_shmat = (\<lambda>i a. Inr a)\<rparr>"

theorem MirrorMemory_new_correct_witness:
  "case MirrorMemory_new ex_mm_sys 8192 9 of
      (cs, Inr m) \<Rightarrow> getaddr m = 65536 \<and> getmirror m = 73728
    | (cs, Inl f) \<Rightarrow> False"
  using MirrorMemory_new_correct [of ex_mm_sys 8192 9]
  by (simp add: ex_mm_sys_def remap_in_place_def mmap_not_failed_def MirrorMemory_new_def)

end
