(* ===== verification/Ring_Buffer.thy ===== *)
theory Ring_Buffer
  imports Mirror_Memory
begin

text \<open>
  The cross-process byte ring of \<open>so/ring-buffer.cpp\<close> (\<open>RING_BUF_TYPE_NORMAL\<close>): two free-running
  64-bit indices in the shared memory and a mirror-mapped buffer whose size is a power of two.
  \<open>write\<close> and \<open>read\<close> are translated with their 64-bit arithmetic, their critical section and
  the mapping they copy through; they refine a bounded first-in first-out queue
  (locale \<open>bounded_fifo\<close>), also across the wrap-around of the indices.
\<close>

section \<open>Bounded queues\<close>

datatype ('c, 'a) fifo_op = Wr 'c "'a list" | Rd 'c nat

text \<open>
  A run of a queue by several callers: what its writes accepted, what its reads delivered, and
  the final state.
\<close>

primrec fifo_run ::
  "('c \<Rightarrow> 's \<Rightarrow> 'a list \<Rightarrow> (nat \<times> 's) outcome) \<Rightarrow> ('c \<Rightarrow> 's \<Rightarrow> nat \<Rightarrow> ('a list \<times> 's) outcome) \<Rightarrow>
   ('c, 'a) fifo_op list \<Rightarrow> 's \<Rightarrow> ('a list \<times> 'a list \<times> 's) outcome" where
  "fifo_run wr rd [] s = Done ([], [], s)"
| "fifo_run wr rd (x # xs) s =
     (case x of
        Wr c ys \<Rightarrow> bind_outcome (wr c s ys) (\<lambda>(n, s').
          bind_outcome (fifo_run wr rd xs s') (\<lambda>(ins, outs, s''). Done (take n ys @ ins, outs, s'')))
      | Rd c k \<Rightarrow> bind_outcome (rd c s k) (\<lambda>(ys, s').
          bind_outcome (fifo_run wr rd xs s') (\<lambda>(ins, outs, s''). Done (ins, ys @ outs, s''))))"

primrec op_size :: "('c, 'a) fifo_op \<Rightarrow> nat" where
  "op_size (Wr c ys) = length ys"
| "op_size (Rd c k) = k"

primrec op_caller :: "('c, 'a) fifo_op \<Rightarrow> 'c" where
  "op_caller (Wr c ys) = c"
| "op_caller (Rd c k) = c"

locale bounded_fifo =
  fixes wr :: "'c \<Rightarrow> 's \<Rightarrow> 'a list \<Rightarrow> (nat \<times> 's) outcome"
    and rd :: "'c \<Rightarrow> 's \<Rightarrow> nat \<Rightarrow> ('a list \<times> 's) outcome"
    and cont :: "'s \<Rightarrow> 'a list"
    and cap :: "'s \<Rightarrow> nat"
    and inv :: "'s \<Rightarrow> bool"
    and vc :: "'c \<Rightarrow> bool"
    and lim :: nat
  assumes wr_ok: "inv s \<Longrightarrow> vc c \<Longrightarrow> length ys < lim \<Longrightarrow>
      \<exists>s'. wr c s ys = Done (min (length ys) (cap s - length (cont s)), s') \<and> inv s' \<and> cap s' = cap s
        \<and> cont s' = cont s @ take (cap s - length (cont s)) ys"
    and rd_ok: "inv s \<Longrightarrow> vc c \<Longrightarrow> k < lim \<Longrightarrow>
      \<exists>s'. rd c s k = Done (take k (cont s), s') \<and> inv s' \<and> cap s' = cap s \<and> cont s' = drop k (cont s)"
    and within: "inv s \<Longrightarrow> length (cont s) \<le> cap s"
begin

text \<open>
  No byte is lost, duplicated or reordered: what was in the queue followed by what the writes
  accepted is what the reads delivered followed by what is left.
\<close>

lemma fifo_order:
  assumes "inv s" and "\<forall>x \<in> set xs. op_size x < lim \<and> vc (op_caller x)"
  shows "\<exists>ins outs s'. fifo_run wr rd xs s = Done (ins, outs, s')
           \<and> cont s @ ins = outs @ cont s' \<and> length (cont s') \<le> cap s"
proof -
  have "\<exists>ins outs s'. fifo_run wr rd xs s = Done (ins, outs, s')
           \<and> cont s @ ins = outs @ cont s' \<and> inv s' \<and> cap s' = cap s"
    using assms
  proof (induction xs arbitrary: s)
    case Nil
    then show ?case by simp
  next
    case (Cons x xs)
    show ?case
    proof (cases x)
      case (Wr c ys)
      with Cons.prems wr_ok [of s c ys] obtain s' where
        s': "wr c s ys = Done (min (length ys) (cap s - length (cont s)), s')" "inv s'"
          "cap s' = cap s" "cont s' = cont s @ take (cap s - length (cont s)) ys"
        by auto
      from Cons.IH [OF s'(2)] Cons.prems obtain ins outs s'' where
        "fifo_run wr rd xs s' = Done (ins, outs, s'')" "cont s' @ ins = outs @ cont s''"
        "inv s''" "cap s'' = cap s'"
        by auto
      moreover have "take (min (length ys) (cap s - length (cont s))) ys = take (cap s - length (cont s)) ys"
        by (simp add: min_def)
      ultimately show ?thesis using s' Wr by simp
    next
      case (Rd c k)
      with Cons.prems rd_ok [of s c k] obtain s' where
        s': "rd c s k = Done (take k (cont s), s')" "inv s'" "cap s' = cap s" "cont s' = drop k (cont s)"
        by auto
      from Cons.IH [OF s'(2)] Cons.prems obtain ins outs s'' where
        r: "fifo_run wr rd xs s' = Done (ins, outs, s'')" "cont s' @ ins = outs @ cont s''"
        "inv s''" "cap s'' = cap s'"
        by auto
      have "cont s @ ins = take k (cont s) @ cont s' @ ins" by (simp add: s'(4))
      with r s' Rd show ?thesis by simp
    qed
  qed
  then show ?thesis using within by metis
qed

end

section \<open>The ring of ring-buffer.cpp\<close>

record ring =
  bsz :: u64
  comsumer_index :: u64
  producer_index :: u64
  rdata :: bytes
  ring_lock :: int

text \<open>The thread that calls and the clock at \<open>lock\<close> and \<open>unlock\<close>.\<close>

record caller =
  c_tid :: int
  c_t0 :: int
  c_t1 :: int

definition write_body :: "ring \<Rightarrow> bytes \<Rightarrow> u64 \<Rightarrow> (u64 \<times> ring) outcome" where
  "write_body rb src dsz =
     (let wri = producer_index rb; rdi = comsumer_index rb; usz = wri - rdi;
          dsz' = (if usz + dsz > bsz rb then bsz rb - usz else dsz)
      in if bsz rb = 0 then Fault
         else let off = wri mod bsz rb
           in bind_outcome (memcpy_in (rdata rb) (unat off) src (unat dsz'))
                (\<lambda>d. Done (dsz', rb\<lparr>rdata := d, producer_index := wri + dsz'\<rparr>)))"

definition read_body :: "ring \<Rightarrow> u64 \<Rightarrow> (bytes \<times> ring) outcome" where
  "read_body rb dsz =
     (let wri = producer_index rb; rdi = comsumer_index rb; usz = wri - rdi;
          dsz' = (if usz < dsz then usz else dsz);
          off = rdi AND (bsz rb - 1)
      in bind_outcome (memcpy_out (rdata rb) (unat off) (unat dsz'))
           (\<lambda>d. Done (d, rb\<lparr>comsumer_index := rdi + dsz'\<rparr>)))"

text \<open>\<open>RingBuffer::write\<close> and \<open>RingBuffer::read\<close>: the bodies inside the critical section.\<close>

definition rb_write :: "caller \<Rightarrow> ring \<Rightarrow> bytes \<Rightarrow> u64 \<Rightarrow> (u64 \<times> ring) outcome" where
  "rb_write c rb src dsz =
     bind_outcome
       (with_lock (c_tid c) (c_t0 c) (c_t1 c) (ring_lock rb)
          (\<lambda>w. write_body (rb\<lparr>ring_lock := w\<rparr>) src dsz))
       (\<lambda>((n, rb'), w). Done (n, rb'\<lparr>ring_lock := w\<rparr>))"

definition rb_read :: "caller \<Rightarrow> ring \<Rightarrow> u64 \<Rightarrow> (bytes \<times> ring) outcome" where
  "rb_read c rb dsz =
     bind_outcome
       (with_lock (c_tid c) (c_t0 c) (c_t1 c) (ring_lock rb)
          (\<lambda>w. read_body (rb\<lparr>ring_lock := w\<rparr>) dsz))
       (\<lambda>((d, rb'), w). Done (d, rb'\<lparr>ring_lock := w\<rparr>))"

text \<open>The size of the buffer is a power of two of at most half the address space.\<close>

definition ring_size_ok :: "u64 \<Rightarrow> bool" where
  "ring_size_ok b \<longleftrightarrow> b \<noteq> 0 \<and> pow2_test b \<and> unat b \<le> 2 ^ 62"

definition ring_inv :: "ring \<Rightarrow> bool" where
  "ring_inv rb \<longleftrightarrow> ring_size_ok (bsz rb) \<and> length (rdata rb) = unat (bsz rb)
     \<and> unat (producer_index rb - comsumer_index rb) \<le> unat (bsz rb)"

definition ring_contents :: "ring \<Rightarrow> bytes" where
  "ring_contents rb =
     load_wrap (rdata rb) (unat (comsumer_index rb)) (unat (producer_index rb - comsumer_index rb))"

lemma ring_size_okE:
  assumes "ring_size_ok b"
  obtains k where "unat b = 2 ^ k" "unat b dvd 2 ^ 64" "0 < unat b" "unat b \<le> 2 ^ 62"
  using assms pow2_test_iff [of b] pow2_dvd_word_range [of b]
  by (auto simp: ring_size_ok_def unat_gt_0)

lemma length_ring_contents [simp]:
  "length (ring_contents rb) = unat (producer_index rb - comsumer_index rb)"
  by (simp add: ring_contents_def)

lemma unat_sub_le: "(b::u64) \<le> a \<Longrightarrow> unat (a - b) = unat a - unat b"
  by (simp add: unat_sub)

text \<open>The producer's place is the consumer's place plus the used size, modulo the buffer.\<close>

lemma producer_place:
  assumes "ring_inv rb"
  shows "unat (producer_index rb) mod length (rdata rb)
         = (unat (comsumer_index rb) + length (ring_contents rb)) mod length (rdata rb)"
proof -
  from assms obtain k where k: "unat (bsz rb) = 2 ^ k" "unat (bsz rb) dvd 2 ^ 64"
    by (auto simp: ring_inv_def elim: ring_size_okE)
  have "unat (producer_index rb) = unat (comsumer_index rb + (producer_index rb - comsumer_index rb))"
    by simp
  then have "unat (producer_index rb) mod unat (bsz rb)
      = (unat (comsumer_index rb) + unat (producer_index rb - comsumer_index rb)) mod unat (bsz rb)"
    using unat_add_mod_size [OF k(2)] by metis
  with assms show ?thesis by (simp add: ring_inv_def)
qed

section \<open>write\<close>

definition room :: "ring \<Rightarrow> nat" where
  "room rb = unat (bsz rb) - length (ring_contents rb)"

lemma write_clamp:
  assumes "ring_inv rb" and "unat dsz < 2 ^ 63"
  shows "unat (let usz = producer_index rb - comsumer_index rb
               in if usz + dsz > bsz rb then bsz rb - usz else dsz) = min (unat dsz) (room rb)"
proof -
  let ?u = "producer_index rb - comsumer_index rb"
  from assms(1) have u: "unat ?u \<le> unat (bsz rb)" and b: "unat (bsz rb) \<le> 2 ^ 62"
    by (auto simp: ring_inv_def ring_size_ok_def)
  have sum: "unat (?u + dsz) = unat ?u + unat dsz"
    using u b assms(2) by (subst unat_add_lem [THEN iffD1]) simp_all
  have "?u \<le> bsz rb" using u by (simp add: word_le_nat_alt)
  then have "unat (bsz rb - ?u) = room rb" by (simp add: unat_sub_le room_def)
  with sum u show ?thesis
    by (auto simp: Let_def word_less_nat_alt room_def min_def)
qed

lemma ring_off:
  assumes "ring_inv rb"
  shows "unat (x mod bsz rb) = unat x mod length (rdata rb)"
    and "unat (x AND (bsz rb - 1)) = unat x mod length (rdata rb)"
  using assms by (auto simp: ring_inv_def unat_mod unat_and_minus_one elim!: ring_size_okE)

lemma load_store_append:
  assumes "n + length xs \<le> length mem"
  shows "load_wrap (store_wrap mem (off + n) xs) off (n + length xs) = load_wrap mem off n @ xs"
  using assms by (simp add: load_wrap_add load_store_before load_store_same)

lemma write_body_ok:
  assumes inv: "ring_inv rb" and len: "unat dsz \<le> length src" and lim: "unat dsz < 2 ^ 63"
  shows "\<exists>n rb'. write_body rb src dsz = Done (n, rb') \<and> unat n = min (unat dsz) (room rb)
     \<and> ring_inv rb' \<and> bsz rb' = bsz rb \<and> ring_lock rb' = ring_lock rb
     \<and> ring_contents rb' = ring_contents rb @ take (unat n) src"
proof -
  let ?u = "producer_index rb - comsumer_index rb" and ?N = "length (rdata rb)"
  define n where "n = (if ?u + dsz > bsz rb then bsz rb - ?u else dsz)"
  define xs where "xs = take (unat n) src"
  have n: "unat n = min (unat dsz) (room rb)"
    using write_clamp [OF inv lim] by (simp add: n_def Let_def)
  have b: "bsz rb \<noteq> 0" "?N = unat (bsz rb)" "unat ?u \<le> ?N"
    using inv by (auto simp: ring_inv_def ring_size_ok_def)
  have nle: "unat n \<le> length src" using n len by simp
  then have lxs: "length xs = unat n" by (simp add: xs_def)
  have fit: "unat ?u + length xs \<le> ?N" using n b lxs by (simp add: room_def)
  have off: "unat (producer_index rb mod bsz rb) = unat (producer_index rb) mod ?N"
    by (rule ring_off [OF inv])
  have "unat (producer_index rb) mod ?N < ?N"
    using b(1,2) by (simp add: unat_gt_0)
  then have "unat (producer_index rb mod bsz rb) + unat n \<le> 2 * ?N"
    using off fit lxs by simp
  then have mc: "memcpy_in (rdata rb) (unat (producer_index rb mod bsz rb)) src (unat n)
      = Done (store_wrap (rdata rb) (unat (comsumer_index rb) + unat ?u) xs)"
    using nle off producer_place [OF inv]
    by (simp add: memcpy_in_def xs_def store_wrap_mod)
  define rb' where "rb' = rb\<lparr>rdata := store_wrap (rdata rb) (unat (comsumer_index rb) + unat ?u) xs,
    producer_index := producer_index rb + n\<rparr>"
  have run: "write_body rb src dsz = Done (n, rb')"
    using mc b(1) by (simp add: write_body_def Let_def n_def [symmetric] rb'_def)
  have grow: "unat (producer_index rb + n - comsumer_index rb) = unat ?u + length xs"
  proof -
    have "unat ?u + unat n < 2 ^ 64"
      using fit lxs b(2) unat_u64_less [of "bsz rb"] by simp
    then have "unat (?u + n) = unat ?u + unat n"
      by (subst unat_add_lem [THEN iffD1]) simp_all
    then show ?thesis by (simp add: lxs algebra_simps)
  qed
  have "ring_contents rb' = ring_contents rb @ xs"
    using fit by (simp add: ring_contents_def rb'_def grow load_store_append)
  moreover have "ring_inv rb'"
    using inv fit b by (simp add: ring_inv_def rb'_def grow)
  ultimately show ?thesis
    using run n by (simp add: rb'_def xs_def)
qed

section \<open>read\<close>

lemma read_body_ok:
  assumes inv: "ring_inv rb"
  shows "\<exists>rb'. read_body rb dsz = Done (take (unat dsz) (ring_contents rb), rb')
     \<and> ring_inv rb' \<and> bsz rb' = bsz rb \<and> ring_lock rb' = ring_lock rb
     \<and> ring_contents rb' = drop (unat dsz) (ring_contents rb)"
proof -
  let ?u = "producer_index rb - comsumer_index rb" and ?N = "length (rdata rb)"
  define n where "n = (if ?u < dsz then ?u else dsz)"
  have n: "unat n = min (unat dsz) (unat ?u)"
    by (auto simp: n_def word_less_nat_alt min_def)
  have b: "?N = unat (bsz rb)" "unat ?u \<le> ?N" "0 < ?N"
    using inv by (auto simp: ring_inv_def ring_size_ok_def unat_gt_0)
  have off: "unat (comsumer_index rb AND (bsz rb - 1)) = unat (comsumer_index rb) mod ?N"
    by (rule ring_off [OF inv])
  have "unat (comsumer_index rb) mod ?N < ?N" using b(3) by simp
  then have "unat (comsumer_index rb AND (bsz rb - 1)) + unat n \<le> 2 * ?N"
    using off n b(2) by simp
  then have mc: "memcpy_out (rdata rb) (unat (comsumer_index rb AND (bsz rb - 1))) (unat n)
      = Done (load_wrap (rdata rb) (unat (comsumer_index rb)) (unat n))"
    using off by (simp add: memcpy_out_def load_wrap_mod)
  define rb' where "rb' = rb\<lparr>comsumer_index := comsumer_index rb + n\<rparr>"
  have run: "read_body rb dsz = Done (load_wrap (rdata rb) (unat (comsumer_index rb)) (unat n), rb')"
    using mc by (simp add: read_body_def Let_def n_def [symmetric] rb'_def)
  have le: "n \<le> ?u" using n by (simp add: word_le_nat_alt)
  have left: "unat (producer_index rb - (comsumer_index rb + n)) = unat ?u - unat n"
    using unat_sub_le [OF le] by (simp add: algebra_simps)
  have shift: "load_wrap (rdata rb) (unat (comsumer_index rb + n)) m
      = load_wrap (rdata rb) (unat (comsumer_index rb) + unat n) m" for m
  proof -
    obtain k where "unat (bsz rb) dvd 2 ^ 64"
      using inv by (auto simp: ring_inv_def elim: ring_size_okE)
    then have "unat (comsumer_index rb + n) mod ?N = (unat (comsumer_index rb) + unat n) mod ?N"
      using unat_add_mod_size b(1) by simp
    then show ?thesis by (metis load_wrap_mod)
  qed
  have "take (unat dsz) (ring_contents rb) = load_wrap (rdata rb) (unat (comsumer_index rb)) (unat n)"
    by (cases "unat dsz \<le> unat ?u") (simp_all add: ring_contents_def n take_load_wrap)
  moreover have "drop (unat dsz) (ring_contents rb) = ring_contents rb'"
    by (cases "unat dsz \<le> unat ?u") (simp_all add: ring_contents_def rb'_def left shift n drop_load_wrap)
  moreover have "ring_inv rb'" using inv by (auto simp: ring_inv_def rb'_def left)
  ultimately show ?thesis using run by (simp add: rb'_def)
qed

section \<open>The calls, with their critical section\<close>

definition valid_caller :: "caller \<Rightarrow> bool" where
  "valid_caller c \<longleftrightarrow> valid_tid (c_tid c) \<and> c_t1 c - c_t0 c < 5"

text \<open>The calls at the sizes of a queue of bytes: the whole source buffer is offered.\<close>

definition rb_wr :: "caller \<Rightarrow> ring \<Rightarrow> bytes \<Rightarrow> (nat \<times> ring) outcome" where
  "rb_wr c rb src = bind_outcome (rb_write c rb src (of_nat (length src))) (\<lambda>(n, rb'). Done (unat n, rb'))"

definition rb_rd :: "caller \<Rightarrow> ring \<Rightarrow> nat \<Rightarrow> (bytes \<times> ring) outcome" where
  "rb_rd c rb k = rb_read c rb (of_nat k)"

definition ring_ready :: "ring \<Rightarrow> bool" where
  "ring_ready rb \<longleftrightarrow> ring_inv rb \<and> ring_lock rb = 0"

lemma ring_inv_lock [simp]: "ring_inv (rb\<lparr>ring_lock := w\<rparr>) = ring_inv rb"
  "ring_contents (rb\<lparr>ring_lock := w\<rparr>) = ring_contents rb" "room (rb\<lparr>ring_lock := w\<rparr>) = room rb"
  by (simp_all add: ring_inv_def ring_contents_def room_def)

lemma rb_write_ok:
  assumes "ring_ready rb" "valid_caller c" "unat dsz \<le> length src" "unat dsz < 2 ^ 63"
  shows "\<exists>n rb'. rb_write c rb src dsz = Done (n, rb') \<and> unat n = min (unat dsz) (room rb)
     \<and> ring_ready rb' \<and> bsz rb' = bsz rb
     \<and> ring_contents rb' = ring_contents rb @ take (unat n) src"
proof -
  from assms(1) have l: "ring_lock rb = 0" and i: "ring_inv (rb\<lparr>ring_lock := c_tid c\<rparr>)"
    by (simp_all add: ring_ready_def)
  obtain n rb' where w: "write_body (rb\<lparr>ring_lock := c_tid c\<rparr>) src dsz = Done (n, rb')"
    and r: "unat n = min (unat dsz) (room rb)" "ring_inv rb'" "bsz rb' = bsz rb"
      "ring_contents rb' = ring_contents rb @ take (unat n) src"
    using write_body_ok [OF i assms(3,4)] by auto
  have "rb_write c rb src dsz = Done (n, rb'\<lparr>ring_lock := 0\<rparr>)"
    using assms(2) w by (simp add: rb_write_def with_lock_free valid_caller_def l)
  with r show ?thesis by (auto simp: ring_ready_def)
qed

lemma rb_read_ok:
  assumes "ring_ready rb" "valid_caller c"
  shows "\<exists>rb'. rb_read c rb dsz = Done (take (unat dsz) (ring_contents rb), rb')
     \<and> ring_ready rb' \<and> bsz rb' = bsz rb \<and> ring_contents rb' = drop (unat dsz) (ring_contents rb)"
proof -
  from assms(1) have l: "ring_lock rb = 0" and i: "ring_inv (rb\<lparr>ring_lock := c_tid c\<rparr>)"
    by (simp_all add: ring_ready_def)
  obtain rb' where w: "read_body (rb\<lparr>ring_lock := c_tid c\<rparr>) dsz = Done (take (unat dsz) (ring_contents rb), rb')"
    and r: "ring_inv rb'" "bsz rb' = bsz rb" "ring_contents rb' = drop (unat dsz) (ring_contents rb)"
    using read_body_ok [OF i, of dsz] by auto
  have "rb_read c rb dsz = Done (take (unat dsz) (ring_contents rb), rb'\<lparr>ring_lock := 0\<rparr>)"
    using assms(2) w by (simp add: rb_read_def with_lock_free valid_caller_def l)
  with r show ?thesis by (auto simp: ring_ready_def)
qed

lemma unat_of_nat_63: "n < 2 ^ 63 \<Longrightarrow> unat (of_nat n :: u64) = n"
  by (simp add: unsigned_of_nat take_bit_nat_eq_self)

interpretation rbq: bounded_fifo rb_wr rb_rd ring_contents "\<lambda>rb. unat (bsz rb)" ring_ready valid_caller "2 ^ 63"
proof unfold_locales
  fix rb c and ys :: bytes
  assume a: "ring_ready rb" "valid_caller c" "length ys < 2 ^ 63"
  let ?d = "of_nat (length ys) :: u64"
  have d: "unat ?d = length ys" by (rule unat_of_nat_63 [OF a(3)])
  obtain n rb' where r: "rb_write c rb ys ?d = Done (n, rb')" "unat n = min (length ys) (room rb)"
    "ring_ready rb'" "bsz rb' = bsz rb" "ring_contents rb' = ring_contents rb @ take (unat n) ys"
    using rb_write_ok [OF a(1,2), of ?d ys] a(3) d by auto
  moreover have "take (min (length ys) (room rb)) ys = take (room rb) ys" by (simp add: min_def)
  ultimately show "\<exists>rb'. rb_wr c rb ys
        = Done (min (length ys) (unat (bsz rb) - length (ring_contents rb)), rb') \<and> ring_ready rb'
      \<and> unat (bsz rb') = unat (bsz rb)
      \<and> ring_contents rb' = ring_contents rb @ take (unat (bsz rb) - length (ring_contents rb)) ys"
    by (simp add: rb_wr_def room_def)
next
  fix rb c and k :: nat
  assume a: "ring_ready rb" "valid_caller c" "k < 2 ^ 63"
  show "\<exists>rb'. rb_rd c rb k = Done (take k (ring_contents rb), rb') \<and> ring_ready rb'
      \<and> unat (bsz rb') = unat (bsz rb) \<and> ring_contents rb' = drop k (ring_contents rb)"
    using rb_read_ok [OF a(1,2), of "of_nat k"] unat_of_nat_63 [OF a(3)] by (auto simp: rb_rd_def)
next
  fix rb assume "ring_ready rb"
  then show "length (ring_contents rb) \<le> unat (bsz rb)" by (simp add: ring_ready_def ring_inv_def)
qed

section \<open>Properties\<close>

text \<open>\<open>write\<close> on a ring whose lock is free accepts as many of the offered bytes as there is
  room for, appends exactly those to the contents, reports their number, and leaves the lock free
  and the ring well formed, also when the indices wrap around.\<close>

theorem write_appends:
  assumes "ring_ready rb" "valid_caller c" "unat dsz \<le> length src" "unat dsz < 2 ^ 63"
  shows "\<exists>n rb'. rb_write c rb src dsz = Done (n, rb')
     \<and> unat n = min (unat dsz) (unat (bsz rb) - length (ring_contents rb))
     \<and> ring_ready rb' \<and> bsz rb' = bsz rb
     \<and> ring_contents rb' = ring_contents rb @ take (unat n) src"
  using rb_write_ok [OF assms] by (simp add: room_def)

definition ex_ring :: ring where
  "ex_ring = \<lparr>bsz = 4, comsumer_index = UINT64_MAX, producer_index = 1, rdata = [2, 0, 0, 1], ring_lock = 0\<rparr>"

definition ex_caller :: caller where
  "ex_caller = \<lparr>c_tid = 42, c_t0 = 0, c_t1 = 1\<rparr>"

lemma ex_ring_ready: "ring_ready ex_ring" "valid_caller ex_caller" "ring_contents ex_ring = [1, 2]"
  by (simp_all add: ex_ring_def ex_caller_def ring_ready_def ring_inv_def ring_size_ok_def pow2_test_def
      valid_caller_def valid_tid_def ring_contents_def load_wrap_def upt_rec)

theorem write_appends_witness:
  "\<exists>n rb'. rb_write ex_caller ex_ring [3, 4, 5] 3 = Done (n, rb') \<and> unat n = 2
     \<and> ring_contents rb' = [1, 2, 3, 4]"
  using write_appends [OF ex_ring_ready(1,2), of 3 "[3, 4, 5]"] ex_ring_ready(3)
  by (auto simp: ex_ring_def)

text \<open>\<open>read\<close> returns the oldest bytes of the contents, as many as asked for or as there are,
  removes exactly those, and leaves the lock free and the ring well formed.\<close>

theorem read_takes_oldest:
  assumes "ring_ready rb" "valid_caller c"
  shows "\<exists>rb'. rb_read c rb dsz = Done (take (unat dsz) (ring_contents rb), rb')
     \<and> ring_ready rb' \<and> bsz rb' = bsz rb \<and> ring_contents rb' = drop (unat dsz) (ring_contents rb)"
  using rb_read_ok [OF assms] .

theorem read_takes_oldest_witness:
  "\<exists>rb'. rb_read ex_caller ex_ring 1 = Done ([1], rb') \<and> ring_contents rb' = [2]"
  using read_takes_oldest [OF ex_ring_ready(1,2), of 1] ex_ring_ready(3) by auto

text \<open>C2: In every sequence of writes and reads, by whatever threads, no byte is lost, duplicated
  or reordered: the initial contents followed by what the writes accepted equals what the reads
  returned followed by the final contents, which never exceed the size of the buffer.\<close>

theorem ring_fifo_order:
  assumes "ring_ready rb" and "\<forall>x \<in> set xs. op_size x < 2 ^ 63 \<and> valid_caller (op_caller x)"
  shows "\<exists>ins outs rb'. fifo_run rb_wr rb_rd xs rb = Done (ins, outs, rb')
     \<and> ring_contents rb @ ins = outs @ ring_contents rb' \<and> length (ring_contents rb') \<le> unat (bsz rb)"
  by (rule rbq.fifo_order [OF assms])

theorem ring_fifo_order_witness:
  "\<exists>ins outs rb'. fifo_run rb_wr rb_rd [Wr ex_caller [3, 4, 5], Rd ex_caller 3] ex_ring = Done (ins, outs, rb')
     \<and> [1, 2] @ ins = outs @ ring_contents rb' \<and> length (ring_contents rb') \<le> 4"
  using ring_fifo_order [OF ex_ring_ready(1), of "[Wr ex_caller [3, 4, 5], Rd ex_caller 3]"] ex_ring_ready(2,3)
  by (simp add: ex_ring_def)

end
