(* ===== verification/Bpf_Ring.thy ===== *)
theory Bpf_Ring
  imports Ring_Buffer
begin

text \<open>
  The consumer side of a BPF ring buffer map (\<open>RingBuffer\<close> with \<open>RING_BUF_TYPE_BPF\<close>):
  \<open>roundup_len\<close>, \<open>buf\<close> and the polling loop of \<open>so/ring-buffer.cpp\<close>. The kernel writes records,
  each an eight byte header with a length word followed by the sample; \<open>poll\<close> hands the finished
  samples to a callback and moves the consumer index behind them. The specification is a list
  of records laid out in the ring.
\<close>

section \<open>Record lengths\<close>

abbreviation BPF_RINGBUF_BUSY_BIT :: u32 where "BPF_RINGBUF_BUSY_BIT \<equiv> 0x80000000"
abbreviation BPF_RINGBUF_DISCARD_BIT :: u32 where "BPF_RINGBUF_DISCARD_BIT \<equiv> 0x40000000"

text \<open>C division of signed integers truncates towards zero.\<close>

definition c_div :: "int \<Rightarrow> int \<Rightarrow> int" where
  "c_div a b = sgn a * sgn b * (\<bar>a\<bar> div \<bar>b\<bar>)"

text \<open>
  \<open>roundup_len\<close> on a 32-bit signed \<open>int\<close>: the two flag bits are shifted out and the value shifted
  back arithmetically.
\<close>

definition roundup_len :: "u32 \<Rightarrow> int" where
  "roundup_len len =
     (let l1 = push_bit 2 len;
          l2 = signed_drop_bit 2 l1;
          l3 = l2 + 8
      in c_div (sint (l3 + 7)) 8 * 8)"

definition is_busy :: "u32 \<Rightarrow> bool" where
  "is_busy len \<longleftrightarrow> len AND BPF_RINGBUF_BUSY_BIT \<noteq> 0"

definition is_discarded :: "u32 \<Rightarrow> bool" where
  "is_discarded len \<longleftrightarrow> len AND BPF_RINGBUF_DISCARD_BIT \<noteq> 0"

section \<open>buf and poll\<close>

datatype ring_type = RING_BUF_TYPE_BPF | RING_BUF_TYPE_NORMAL

text \<open>\<open>RingBuffer::buf\<close>: the offset into the mapping that the returned pointer has.\<close>

definition buf :: "ring_type \<Rightarrow> u64 \<Rightarrow> u64 \<Rightarrow> u64" where
  "buf type b idx =
     (let idx' = (if type = RING_BUF_TYPE_BPF then idx + 8 else idx) in idx' AND (b - 1))"

text \<open>
  The loop of \<open>poll\<close>. \<open>prods\<close> are the values the producer index has at the successive loop tests
  (the kernel moves it), \<open>hdr off\<close> the length word at an offset of the mapping, \<open>cb cons off len\<close>
  the callback, which also sees the consumer index. Without a further test the call is still
  running.
\<close>

type_synonym 'c sample_fn = "u64 \<Rightarrow> nat \<Rightarrow> u32 \<Rightarrow> 'c \<Rightarrow> int \<times> 'c"

fun poll_loop ::
  "u64 \<Rightarrow> (nat \<Rightarrow> u32) \<Rightarrow> 'c sample_fn \<Rightarrow> u64 list \<Rightarrow> u64 \<Rightarrow> u64 \<Rightarrow> 'c \<Rightarrow> int \<Rightarrow> (int \<times> u64 \<times> 'c) outcome"
where
  "poll_loop b hdr cb [] rci cons ctx cnt = Blocked"
| "poll_loop b hdr cb (p # ps) rci cons ctx cnt =
     (if rci < p then
        let off = unat (rci AND (b - 1)); len = hdr off
        in if is_busy len then Done (cnt, cons, ctx)
           else let rci' = rci + of_int (roundup_len len)
             in if \<not> is_discarded len then
                  (case cb cons (off + 8) len ctx of (err, ctx') \<Rightarrow>
                     if err < 0 then Done (err, cons, ctx')
                     else poll_loop b hdr cb ps rci' rci' ctx' (cnt + 1))
                else poll_loop b hdr cb ps rci' rci' ctx cnt
      else Done (cnt, cons, ctx))"

text \<open>The result of \<open>epoll_wait\<close>: an error, no event, or an event on a descriptor.\<close>

datatype epoll_res = EpErr int | EpNone | EpFd int

record bring =
  b_type :: ring_type
  b_bsz :: u64
  b_map_fd :: int
  b_cons :: u64

text \<open>\<open>RingBuffer::poll\<close>; \<open>prods\<close> starts with the value that the assertion reads.\<close>

definition poll ::
  "bring \<Rightarrow> epoll_res \<Rightarrow> (nat \<Rightarrow> u32) \<Rightarrow> 'c sample_fn \<Rightarrow> u64 \<Rightarrow> u64 list \<Rightarrow> 'c \<Rightarrow>
   (int \<times> bring \<times> 'c) outcome" where
  "poll rb ev hdr cb prod0 prods ctx =
     (if b_type rb \<noteq> RING_BUF_TYPE_BPF then Done (- EINVAL, rb, ctx)
      else case ev of
        EpErr e \<Rightarrow> Done (- e, rb, ctx)
      | EpNone \<Rightarrow> Done (0, rb, ctx)
      | EpFd fd \<Rightarrow>
          (if fd \<noteq> b_map_fd rb then Done (-1, rb, ctx)
           else if prod0 < b_cons rb then Aborted
           else bind_outcome (poll_loop (b_bsz rb) hdr cb prods (b_cons rb) (b_cons rb) ctx 0)
                  (\<lambda>(r, cons, ctx'). Done (r, rb\<lparr>b_cons := cons\<rparr>, ctx'))))"

section \<open>roundup_len on the lengths a ring can hold\<close>

definition payload :: "u32 \<Rightarrow> nat" where
  "payload len = unat len mod 2 ^ 30"

text \<open>The space a record takes: header and sample, in multiples of eight.\<close>

definition rec_space :: "nat \<Rightarrow> nat" where
  "rec_space n = 8 * ((n + 8 + 7) div 8)"

lemma rec_space_pos: "8 \<le> rec_space n"
  by (simp add: rec_space_def)

lemma rec_space_bound: "n < 2 ^ 29 \<Longrightarrow> rec_space n < 2 ^ 30"
  by (simp add: rec_space_def)

lemma roundup_len_eq:
  assumes "payload len < 2 ^ 29"
  shows "roundup_len len = int (rec_space (payload len))"
proof -
  let ?p = "payload len"
  have u1: "uint (push_bit 2 len) = int (4 * ?p)"
  proof -
    have "uint (push_bit 2 len) = take_bit 32 (4 * uint len)"
      by (simp add: push_bit_eq_mult uint_word_ariths take_bit_eq_mod mult.commute)
    also have "\<dots> = 4 * (uint len mod 2 ^ 30)"
      by (simp add: take_bit_eq_mod mult_mod_right)
    finally show ?thesis
      by (simp add: payload_def unsigned_of_nat zmod_int flip: uint_nat)
  qed
  have s1: "sint (push_bit 2 len) = int (4 * ?p)"
  proof -
    have "sint (push_bit 2 len) = signed_take_bit 31 (uint (push_bit 2 len))"
      by (simp add: sint_uint)
    with u1 assms show ?thesis by (simp add: signed_take_bit_int_eq_self)
  qed
  have s2: "sint (signed_drop_bit 2 (push_bit 2 len)) = int ?p"
    by (simp add: sint_signed_drop_bit_eq s1 drop_bit_eq_div)
  have "signed_drop_bit 2 (push_bit 2 len) = word_of_int (int ?p)"
    using s2 by (metis scast_eq scast_id)
  then have "signed_drop_bit 2 (push_bit 2 len) + 8 + 7 = word_of_int (int ?p + 15)"
    by simp
  then have "sint (signed_drop_bit 2 (push_bit 2 len) + 8 + 7) = sint (word_of_int (int ?p + 15) :: u32)"
    by (rule arg_cong)
  also have "\<dots> = signed_take_bit 31 (int ?p + 15)"
    by (simp only: signed_of_int len_num1 len_bit0) simp
  also have "\<dots> = int ?p + 15" using assms by (simp add: signed_take_bit_int_eq_self)
  finally have "sint (signed_drop_bit 2 (push_bit 2 len) + 8 + 7) = int ?p + 15" .
  then show ?thesis
    by (simp add: roundup_len_def Let_def c_div_def rec_space_def zdiv_int)
qed

section \<open>Specification: records in a ring\<close>

text \<open>A record as the kernel leaves it: the length of its sample, and whether it was discarded.\<close>

datatype krec = KRec (rec_len: nat) (rec_discarded: bool)

definition rec_word :: "krec \<Rightarrow> u32" where
  "rec_word r = of_nat (rec_len r + (if rec_discarded r then 2 ^ 30 else 0))"

definition rec_ok :: "krec \<Rightarrow> bool" where
  "rec_ok r \<longleftrightarrow> rec_len r < 2 ^ 29"

text \<open>\<open>laid_out b hdr pos rs\<close>: the headers of \<open>rs\<close> stand one after the other from position \<open>pos\<close>.\<close>

primrec laid_out :: "nat \<Rightarrow> (nat \<Rightarrow> u32) \<Rightarrow> nat \<Rightarrow> krec list \<Rightarrow> bool" where
  "laid_out b hdr pos [] = True"
| "laid_out b hdr pos (r # rs) =
     (rec_ok r \<and> hdr (pos mod b) = rec_word r \<and> laid_out b hdr (pos + rec_space (rec_len r)) rs)"

primrec recs_space :: "krec list \<Rightarrow> nat" where
  "recs_space [] = 0"
| "recs_space (r # rs) = rec_space (rec_len r) + recs_space rs"

text \<open>
  Delivery of a list of records: the callback runs on those not discarded, with the position of
  the record as the consumer index, until it reports an error.
\<close>

primrec deliver ::
  "nat \<Rightarrow> 'c sample_fn \<Rightarrow> nat \<Rightarrow> krec list \<Rightarrow> 'c \<Rightarrow> int \<Rightarrow> int \<times> nat \<times> 'c" where
  "deliver b cb pos [] ctx cnt = (cnt, pos, ctx)"
| "deliver b cb pos (r # rs) ctx cnt =
     (if rec_discarded r then deliver b cb (pos + rec_space (rec_len r)) rs ctx cnt
      else case cb (of_nat pos) (pos mod b + 8) (rec_word r) ctx of (err, ctx') \<Rightarrow>
        if err < 0 then (err, pos, ctx')
        else deliver b cb (pos + rec_space (rec_len r)) rs ctx' (cnt + 1))"

lemma unat_rec_word:
  assumes "rec_ok r"
  shows "unat (rec_word r) = rec_len r + (if rec_discarded r then 2 ^ 30 else 0)"
proof -
  have "rec_len r + (if rec_discarded r then 2 ^ 30 else 0) < 2 ^ 32"
    using assms by (simp add: rec_ok_def)
  then show ?thesis
    unfolding rec_word_def by (simp only: unat_of_nat) (simp only: len_num1 len_bit0 mod_less mult_1_right mult_2 numeral_plus_numeral semiring_norm)
qed

lemma payload_rec_word: "rec_ok r \<Longrightarrow> payload (rec_word r) = rec_len r"
  by (auto simp: payload_def unat_rec_word rec_ok_def)

lemma word_and_bit: "(w::u32) AND 2 ^ n \<noteq> 0 \<longleftrightarrow> odd (unat w div 2 ^ n)" if "n < 32"
proof -
  have "w AND 2 ^ n \<noteq> 0 \<longleftrightarrow> bit w n" by (simp add: and_exp_eq_0_iff_not_bit)
  also have "\<dots> \<longleftrightarrow> bit (unat w) n" using that by (simp add: bit_unsigned_iff)
  also have "\<dots> \<longleftrightarrow> odd (unat w div 2 ^ n)" by (simp add: bit_iff_odd)
  finally show ?thesis .
qed

lemma rec_word_flags:
  assumes "rec_ok r"
  shows "\<not> is_busy (rec_word r)" "is_discarded (rec_word r) = rec_discarded r"
proof -
  have "is_busy w \<longleftrightarrow> odd (unat w div 2 ^ 31)" "is_discarded w \<longleftrightarrow> odd (unat w div 2 ^ 30)" for w
    using word_and_bit [of 31 w] word_and_bit [of 30 w] by (simp_all add: is_busy_def is_discarded_def)
  then show "\<not> is_busy (rec_word r)" "is_discarded (rec_word r) = rec_discarded r"
    using assms by (auto simp: unat_rec_word rec_ok_def div_add_self2)
qed

lemmas rec_word_simps = rec_word_flags payload_rec_word roundup_len_eq

lemma advance_pos:
  assumes "rec_ok r" and "pos + rec_space (rec_len r) < 2 ^ 64"
  shows "(of_nat pos :: u64) + of_int (roundup_len (rec_word r)) = of_nat (pos + rec_space (rec_len r))"
  using assms by (simp add: roundup_len_eq payload_rec_word rec_ok_def)

lemma of_nat_less_u64: "a < 2 ^ 64 \<Longrightarrow> b < 2 ^ 64 \<Longrightarrow> (of_nat a :: u64) < of_nat b \<longleftrightarrow> a < b"
  by (simp add: word_less_nat_alt unsigned_of_nat take_bit_nat_eq_self)

lemma hdr_place:
  assumes "unat b = 2 ^ k" "pos < 2 ^ 64"
  shows "unat ((of_nat pos :: u64) AND (b - 1)) = pos mod unat b"
  using assms by (simp add: unat_and_minus_one unsigned_of_nat take_bit_nat_eq_self)

text \<open>
  What ends a batch: the producer index has been reached, or the next record is still being
  written.
\<close>

definition batch_end :: "nat \<Rightarrow> (nat \<Rightarrow> u32) \<Rightarrow> nat \<Rightarrow> nat \<Rightarrow> bool" where
  "batch_end b hdr prd pos \<longleftrightarrow> pos = prd \<or> (pos < prd \<and> is_busy (hdr (pos mod b)))"

lemma poll_loop_delivers:
  assumes "unat b = 2 ^ k" and "laid_out (unat b) hdr pos rs"
    and "batch_end (unat b) hdr prd (pos + recs_space rs)" and "prd < 2 ^ 64"
    and "length rs < n"
  shows "poll_loop b hdr cb (replicate n (of_nat prd)) (of_nat pos) (of_nat pos) ctx cnt
     = (case deliver (unat b) cb pos rs ctx cnt of (r, cons, ctx') \<Rightarrow> Done (r, of_nat cons, ctx'))"
  using assms
proof (induction rs arbitrary: pos ctx cnt n)
  case Nil
  then obtain m where n: "n = Suc m" by (cases n) auto
  have "pos < 2 ^ 64" using Nil.prems(3,4) by (auto simp: batch_end_def)
  with Nil.prems n show ?case
    by (auto simp: batch_end_def of_nat_less_u64 hdr_place)
next
  case (Cons r rs)
  let ?pos = "pos + rec_space (rec_len r)"
  obtain m where n: "n = Suc m" using Cons.prems(5) by (cases n) auto
  have ok: "rec_ok r" and hd: "hdr (pos mod unat b) = rec_word r"
    and lo: "laid_out (unat b) hdr ?pos rs"
    using Cons.prems(2) by simp_all
  have le: "?pos + recs_space rs \<le> prd"
    using Cons.prems(3) by (auto simp: batch_end_def add.assoc)
  then have bnd: "pos < prd" "pos < 2 ^ 64" "?pos < 2 ^ 64"
    using rec_space_pos [of "rec_len r"] Cons.prems(4) by simp_all
  have be: "batch_end (unat b) hdr prd (?pos + recs_space rs)"
    using Cons.prems(3) by (simp add: add.assoc)
  have IH: "poll_loop b hdr cb (replicate m (of_nat prd)) (of_nat ?pos) (of_nat ?pos) c i
     = (case deliver (unat b) cb ?pos rs c i of (r, cons, ctx') \<Rightarrow> Done (r, of_nat cons, ctx'))" for c i
    using Cons.IH [OF Cons.prems(1) lo be Cons.prems(4)] Cons.prems(5) n by simp
  have adv: "(of_nat pos :: u64) + of_int (roundup_len (rec_word r)) = of_nat ?pos"
    by (rule advance_pos [OF ok bnd(3)])
  have off: "unat ((of_nat pos :: u64) AND (b - 1)) = pos mod unat b"
    by (rule hdr_place [OF Cons.prems(1) bnd(2)])
  have lt: "(of_nat pos :: u64) < of_nat prd"
    using of_nat_less_u64 [OF bnd(2) Cons.prems(4)] bnd(1) by simp
  show ?case
    unfolding n replicate_Suc poll_loop.simps Let_def off hd adv IH
    using lt rec_word_flags [OF ok] by (simp split: prod.split)
qed

section \<open>Properties\<close>

text \<open>For every length word of a record below half a gigabyte, whatever its flag bits,
  \<open>roundup_len\<close> is the space of the record in the ring: header and sample, rounded up to eight
  bytes.\<close>

theorem roundup_len_correct:
  assumes "payload len < 2 ^ 29"
  shows "roundup_len len = int (rec_space (payload len)) \<and> 8 dvd roundup_len len
     \<and> int (payload len) + 8 \<le> roundup_len len \<and> roundup_len len < int (payload len) + 16"
proof -
  have r: "roundup_len len = int (rec_space (payload len))" by (rule roundup_len_eq [OF assms])
  have "8 dvd rec_space (payload len)" "payload len + 8 \<le> rec_space (payload len)"
    "rec_space (payload len) < payload len + 16"
    unfolding rec_space_def by (simp, presburger, presburger)
  then show ?thesis unfolding r by (auto simp: int_dvd_int_iff [symmetric] simp del: int_dvd_int_iff)
qed

theorem roundup_len_correct_witness: "roundup_len 0x40000005 = 16"
  using roundup_len_correct [of "0x40000005"] by (simp add: payload_def rec_space_def)

text \<open>C8: One \<open>poll\<close> hands the callback exactly the finished, not discarded records between the
  consumer and the producer position, in order and up to the first error, and leaves the consumer
  index behind the last record handled; it ends at the producer position or at a record that is
  still being written.\<close>

theorem poll_delivers:
  assumes "b_type rb = RING_BUF_TYPE_BPF" "unat (b_bsz rb) = 2 ^ k" "b_cons rb = of_nat pos"
    and "laid_out (unat (b_bsz rb)) hdr pos rs"
    and be: "batch_end (unat (b_bsz rb)) hdr prd (pos + recs_space rs)" and p: "prd < 2 ^ 64"
    and "length rs < n"
  shows "poll rb (EpFd (b_map_fd rb)) hdr cb (of_nat prd) (replicate n (of_nat prd)) ctx
     = (case deliver (unat (b_bsz rb)) cb pos rs ctx 0 of
          (r, cons, ctx') \<Rightarrow> Done (r, rb\<lparr>b_cons := of_nat cons\<rparr>, ctx'))"
proof -
  have "pos \<le> prd" using be by (auto simp: batch_end_def)
  then have "\<not> (of_nat prd :: u64) < of_nat pos" using p by (simp add: of_nat_less_u64)
  with assms show ?thesis
    by (simp add: poll_def poll_loop_delivers [OF assms(2,4-7)] split: prod.split)
qed

theorem poll_delivers_witness:
  "poll \<lparr>b_type = RING_BUF_TYPE_BPF, b_bsz = 64, b_map_fd = 7, b_cons = 8\<rparr> (EpFd 7)
     (\<lambda>off. if off = 8 then 5 else if off = 24 then 0x40000001 else BPF_RINGBUF_BUSY_BIT)
     (\<lambda>cons off len seen. (0, seen @ [(cons, off, len)])) 48 (replicate 3 48) []
   = Done (1, \<lparr>b_type = RING_BUF_TYPE_BPF, b_bsz = 64, b_map_fd = 7, b_cons = 40\<rparr>, [(8, 16, 5)])"
  using poll_delivers [of "\<lparr>b_type = RING_BUF_TYPE_BPF, b_bsz = 64, b_map_fd = 7, b_cons = 8\<rparr>" 6 8
      "\<lambda>off. if off = 8 then 5 else if off = 24 then 0x40000001 else BPF_RINGBUF_BUSY_BIT"
      "[KRec 5 False, KRec 1 True]" 48 3 "\<lambda>cons off len seen. (0, seen @ [(cons, off, len)])" "[]"]
  by (simp add: rec_ok_def rec_word_def rec_space_def batch_end_def is_busy_def)

end
