(* ===== verification/Data_Map.thy ===== *)
theory Data_Map
  imports Bpf_Ring
begin

text \<open>
  The index of captured process data, \<open>so/data-map.cpp\<close>: a ring of \<open>AddrEntry\<close> records in a
  mirror-mapped table, each pointing at a message in the BPF ring buffer. Captured messages are
  pushed by the polling callback; \<open>update\<close> closes a batch with one marker per data type, whose
  \<open>dsz\<close> is the distance back to the start of the batch; \<open>unsafe_find\<close> searches from the newest
  entry to the oldest. The abstract view is the log of all pushed entries.
\<close>

section \<open>Sizes\<close>

abbreviation BPF_RB_MAX_ENTRY :: u64 where "BPF_RB_MAX_ENTRY \<equiv> 300000"
abbreviation sizeof_AddrEntry :: u64 where "sizeof_AddrEntry \<equiv> 32"

definition round_up :: "u64 \<Rightarrow> u64 \<Rightarrow> u64" where
  "round_up value alignment = (value + alignment - 1) AND NOT (alignment - 1)"

text \<open>The loop \<open>while (pow2 < ent_sz) pow2 <<= 1\<close>, with fuel; \<open>None\<close> means it is still running.\<close>

fun grow_pow2 :: "nat \<Rightarrow> u64 \<Rightarrow> u64 \<Rightarrow> u64 option" where
  "grow_pow2 0 p target = None"
| "grow_pow2 (Suc n) p target = (if p < target then grow_pow2 n (push_bit 1 p) target else Some p)"

text \<open>
  The sizes the constructor computes: the bytes of the table and the number of its entries. The
  fuel 64 covers every shift of a 64-bit word.
\<close>

definition table_size :: "u64 \<Rightarrow> u64 option" where
  "table_size page_size = grow_pow2 64 page_size (round_up (BPF_RB_MAX_ENTRY * sizeof_AddrEntry) page_size)"

definition table_entries :: "u64 \<Rightarrow> u64 option" where
  "table_entries page_size = map_option (\<lambda>ent_sz. ent_sz div sizeof_AddrEntry) (table_size page_size)"

lemma round_up_pow2:
  assumes a: "unat a = 2 ^ k" and ov: "unat v + unat a \<le> 2 ^ 64"
  shows "unat (round_up v a) = (unat v + unat a - 1) div unat a * unat a"
proof -
  have a0: "a \<noteq> 0" using a by auto
  have pos: "0 < unat a" using a by simp
  let ?s = "v + a - 1"
  have s: "unat ?s = unat v + unat a - 1"
  proof -
    have "unat (a - 1) = unat a - 1" using a0 by (simp add: unat_minus_one)
    then have "unat (v + (a - 1)) = unat v + (unat a - 1)"
      using ov pos by (subst unat_add_lem [THEN iffD1]) simp_all
    then show ?thesis using pos by (simp add: algebra_simps)
  qed
  have split: "?s AND NOT (a - 1) = ?s - (?s AND (a - 1))"
  proof -
    have "?s - (?s AND (a - 1)) = ?s AND NOT (?s AND (a - 1))"
      by (rule disjunctive_diff) (simp add: bit_and_iff)
    also have "\<dots> = ?s AND NOT (a - 1)"
      by (rule bit_eqI) (auto simp: bit_simps)
    finally show ?thesis by simp
  qed
  have m: "unat (?s AND (a - 1)) = unat ?s mod unat a" by (rule unat_and_minus_one [OF a])
  then have "(?s AND (a - 1)) \<le> ?s" by (simp add: word_le_nat_alt)
  then have "unat (round_up v a) = unat ?s - unat ?s mod unat a"
    by (simp add: round_up_def split unat_sub_le m)
  then show ?thesis by (simp add: s minus_mod_eq_div_mult)
qed

lemma grow_pow2_result:
  assumes "unat p = 2 ^ k" "k \<le> 63" "unat t \<le> 2 ^ 63" "63 - k < n"
  shows "\<exists>j r. grow_pow2 n p t = Some r \<and> unat r = 2 ^ j \<and> k \<le> j \<and> j \<le> 63 \<and> unat t \<le> unat r
     \<and> (j = k \<or> unat r < 2 * unat t)"
  using assms
proof (induction n arbitrary: p k)
  case 0
  then show ?case by simp
next
  case (Suc n)
  show ?case
  proof (cases "p < t")
    case True
    then have lt: "(2::nat) ^ k < unat t" using Suc.prems(1) by (simp add: word_less_nat_alt)
    then have "(2::nat) ^ k < 2 ^ 63" using Suc.prems(3) by simp
    then have k: "k < 63" by (rule power_less_imp_less_exp [rotated]) simp
    have fuel: "63 - Suc k < n" using Suc.prems(4) k by simp
    have "(2::nat) ^ Suc k \<le> 2 ^ 63" using k by (intro power_increasing) simp_all
    then have two: "unat (push_bit 1 p) = 2 ^ Suc k"
      using Suc.prems(1) by (simp add: unat_word_ariths)
    have "\<exists>j r. grow_pow2 n (push_bit 1 p) t = Some r \<and> unat r = 2 ^ j \<and> Suc k \<le> j \<and> j \<le> 63
        \<and> unat t \<le> unat r \<and> (j = Suc k \<or> unat r < 2 * unat t)"
      by (rule Suc.IH [OF two _ Suc.prems(3) fuel]) (use k in simp)
    then obtain j r where g: "grow_pow2 n (push_bit 1 p) t = Some r" "unat r = 2 ^ j" "Suc k \<le> j" "j \<le> 63"
      "unat t \<le> unat r" "j = Suc k \<or> unat r < 2 * unat t"
      by blast
    have "unat r < 2 * unat t" using g(2,6) lt by auto
    moreover have "grow_pow2 (Suc n) p t = Some r" using True g(1) by simp
    ultimately show ?thesis using g(2-5) by (intro exI [of _ j] exI [of _ r]) simp
  next
    case False
    with Suc.prems show ?thesis by (auto simp: word_less_nat_alt)
  qed
qed

section \<open>Keys\<close>

definition MK_KEY :: "int \<Rightarrow> u32 \<Rightarrow> u64" where
  "MK_KEY pid dt = push_bit 32 (of_int pid) + ucast dt"

definition KEY_PID :: "u64 \<Rightarrow> u64" where
  "KEY_PID key = drop_bit 32 key"

definition KEY_DT :: "u64 \<Rightarrow> u32" where
  "KEY_DT key = ucast (key AND 0xFFFFFFFF)"

lemma unat_MK_KEY:
  assumes "0 \<le> pid" "pid < 2 ^ 32"
  shows "unat (MK_KEY pid dt) = nat pid * 2 ^ 32 + unat dt"
proof -
  have d: "unat dt < 2 ^ 32" using unsigned_less [of dt] by simp
  have p: "unat (of_int pid :: u64) = nat pid"
    using assms by (simp add: unsigned_of_int take_bit_int_eq_self)
  have pb: "unat (push_bit 32 (of_int pid :: u64)) = nat pid * 2 ^ 32"
  proof -
    have "nat pid < 2 ^ 32" using assms by simp
    then have "nat pid * 2 ^ 32 < (2::nat) ^ 64" by simp
    then show ?thesis by (simp add: push_bit_eq_mult unat_word_ariths p)
  qed
  have u: "unat (ucast dt :: u64) = unat dt"
    using d by (simp add: unsigned_ucast_eq take_bit_nat_eq_self)
  have "nat pid < 2 ^ 32" using assms by simp
  then have "nat pid * 2 ^ 32 + unat dt < 2 ^ 64" using d by simp
  then show ?thesis by (simp add: MK_KEY_def unat_word_ariths pb u)
qed

lemma KEY_PID_MK_KEY: "0 \<le> pid \<Longrightarrow> pid < 2 ^ 32 \<Longrightarrow> unat (KEY_PID (MK_KEY pid dt)) = nat pid"
proof -
  assume p: "0 \<le> pid" "pid < 2 ^ 32"
  have d: "unat dt < 2 ^ 32" using unsigned_less [of dt] by simp
  have "unat (KEY_PID (MK_KEY pid dt)) = (nat pid * 2 ^ 32 + unat dt) div 2 ^ 32"
    by (simp add: KEY_PID_def drop_bit_eq_div unat_div unat_MK_KEY [OF p])
  with d show ?thesis by simp
qed

lemma KEY_DT_MK_KEY: "KEY_DT (MK_KEY pid dt) = dt"
proof (rule unsigned_word_eqI)
  let ?k = "MK_KEY pid dt"
  have d: "unat dt < 2 ^ 32" using unsigned_less [of dt] by simp
  have u: "unat (ucast dt :: u64) = unat dt"
    using d by (simp add: unsigned_ucast_eq take_bit_nat_eq_self)
  have "unat (?k AND 0xFFFFFFFF) = unat ?k mod 2 ^ 32"
    using unat_and_minus_one [of "0x100000000" 32 ?k] by simp
  then have "unat (KEY_DT ?k) = unat ?k mod 2 ^ 32 mod 2 ^ 32"
    by (simp add: KEY_DT_def unsigned_ucast_eq take_bit_eq_mod)
  also have "\<dots> = (unat (push_bit 32 (of_int pid :: u64)) + unat dt) mod 2 ^ 32"
    by (simp add: MK_KEY_def unat_word_ariths u mod_mod_cancel)
  also have "\<dots> = (unat (of_int pid :: u64) * 2 ^ 32 + unat dt) mod 2 ^ 32"
    by (simp add: push_bit_eq_mult unat_word_ariths mod_mod_cancel mod_add_left_eq [symmetric]
        del: mod_add_left_eq)
  finally show "unat (KEY_DT ?k) = unat dt" using d by simp
qed

section \<open>The table\<close>

record AddrEntry =
  ent_data_idx :: u64
  ent_hash :: u64
  ent_time :: u64
  ent_dsz :: u64

definition zero_entry :: AddrEntry where
  "zero_entry = \<lparr>ent_data_idx = 0, ent_hash = 0, ent_time = 0, ent_dsz = 0\<rparr>"

record datamap =
  m_entrys :: "AddrEntry list"
  m_ent_cnt :: u64
  m_idx :: u64
  dm_lock :: int

definition TIME_ns :: "u64 \<Rightarrow> u64 \<Rightarrow> u64" where
  "TIME_ns tv_sec tv_nsec = (tv_sec AND 0xffffffff) * 1000000000 + tv_nsec"

text \<open>\<open>m_entrys[i]\<close> through the double mapping of the table.\<close>

definition entry_at :: "datamap \<Rightarrow> nat \<Rightarrow> AddrEntry outcome" where
  "entry_at dm i =
     (if i < 2 * length (m_entrys dm) then Done (m_entrys dm ! (i mod length (m_entrys dm))) else Fault)"

text \<open>\<open>assert(m_lock->try_lock() == false)\<close>.\<close>

definition assert_locked :: "int \<Rightarrow> datamap \<Rightarrow> datamap outcome" where
  "assert_locked tid dm =
     (case try_lock tid (dm_lock dm) of (got, w) \<Rightarrow> if got then Aborted else Done (dm\<lparr>dm_lock := w\<rparr>))"

text \<open>
  \<open>DataMap::push\<close>; \<open>now\<close> is \<open>TIME_ns\<close> of the clock it reads. The running index is a \<open>long\<close>, kept here by its bits: the increment
  of its greatest value is undefined, which is a fault of the model.
\<close>

abbreviation LONG_MAX :: u64 where "LONG_MAX \<equiv> 0x7FFFFFFFFFFFFFFF"

definition push :: "int \<Rightarrow> u64 \<Rightarrow> u64 \<Rightarrow> u64 \<Rightarrow> u64 \<Rightarrow> datamap \<Rightarrow> datamap outcome" where
  "push tid now bpf_idx hash dsz dm0 =
     bind_outcome (assert_locked tid dm0) (\<lambda>dm.
       let idx = m_idx dm AND (m_ent_cnt dm - 1);
           e = \<lparr>ent_data_idx = bpf_idx, ent_hash = hash, ent_time = now, ent_dsz = dsz\<rparr>
       in if m_idx dm = LONG_MAX then Fault
          else if unat idx < 2 * length (m_entrys dm)
          then Done (dm\<lparr>m_idx := m_idx dm + 1,
                   m_entrys := (m_entrys dm)[unat idx mod length (m_entrys dm) := e]\<rparr>)
          else Fault)"

definition get_round_idx :: "datamap \<Rightarrow> u64" where
  "get_round_idx dm = m_idx dm AND (m_ent_cnt dm - 1)"

text \<open>What the BPF ring shows: its size, its producer index, and the message at an offset.\<close>

record bview =
  v_bsz :: u64
  v_prod :: u64
  v_msg :: "u64 \<Rightarrow> bytes"

definition msg_of :: "bview \<Rightarrow> AddrEntry \<Rightarrow> bytes" where
  "msg_of v e = v_msg v (buf RING_BUF_TYPE_BPF (v_bsz v) (ent_data_idx e))"

type_synonym 'u user_cb = "(bytes \<Rightarrow> 'u \<Rightarrow> int \<times> 'u) option"

text \<open>
  The loop of \<open>sub_iterator\<close> over the table indices \<open>is\<close>; a copy to a position other than the end of
  what was copied so far would be outside the buffer.
\<close>

fun sub_loop ::
  "datamap \<Rightarrow> bview \<Rightarrow> 'u user_cb \<Rightarrow> bool \<Rightarrow> u32 \<Rightarrow> nat list \<Rightarrow> u64 \<Rightarrow> int \<Rightarrow> bytes \<Rightarrow> 'u \<Rightarrow>
   (int \<times> bytes \<times> 'u) outcome" where
  "sub_loop dm v cb has_buf dt [] bz ret out ctx = Done (ret, out, ctx)"
| "sub_loop dm v cb has_buf dt (i # is) bz ret out ctx =
     bind_outcome (entry_at dm i) (\<lambda>e.
       if KEY_DT (ent_hash e) \<noteq> dt then sub_loop dm v cb has_buf dt is bz ret out ctx
       else let msg = msg_of v e; dsz = of_nat (length msg); ret' = to_int32 (ret + int (length msg))
         in if has_buf then
              (if unat bz < length msg then Done (- ENOBUFS, out, ctx)
               else if ret \<noteq> int (length out) then Fault
               else sub_loop dm v cb has_buf dt is (bz - dsz) ret' (out @ msg) ctx)
            else case cb of
              None \<Rightarrow> sub_loop dm v cb has_buf dt is (bz - dsz) ret' out ctx
            | Some f \<Rightarrow>
                (case f msg ctx of (r, ctx') \<Rightarrow>
                   if r \<noteq> 0 then Done (r, out, ctx')
                   else sub_loop dm v cb has_buf dt is (bz - dsz) ret' out ctx'))"

definition sub_iterator ::
  "datamap \<Rightarrow> bview \<Rightarrow> 'u user_cb \<Rightarrow> u64 \<Rightarrow> bool \<Rightarrow> u64 \<Rightarrow> 'u \<Rightarrow> (int \<times> bytes \<times> 'u) outcome" where
  "sub_iterator dm v cb si has_buf bz ctx =
     (let idx = (si AND (m_ent_cnt dm - 1)) + m_ent_cnt dm
      in bind_outcome (entry_at dm (unat idx)) (\<lambda>e.
           let st = idx - ent_dsz e
           in sub_loop dm v cb has_buf (KEY_DT (ent_hash e)) [unat st..<unat idx] bz 0 [] ctx))"

text \<open>
  The loop of \<open>unsafe_find(hash, ...)\<close>: \<open>n\<close> entries of the window starting at \<open>sidx\<close> are still to be
  looked at, newest first.
\<close>

fun find_scan ::
  "datamap \<Rightarrow> bview \<Rightarrow> 'u user_cb \<Rightarrow> u64 \<Rightarrow> u64 \<Rightarrow> u64 \<Rightarrow> bool \<Rightarrow> u64 \<Rightarrow> nat \<Rightarrow> nat \<Rightarrow> 'u \<Rightarrow>
   (int \<times> bytes \<times> 'u) outcome" where
  "find_scan dm v cb hash lifetime now has_buf bz sidx 0 ctx = Done (- ENOENT, [], ctx)"
| "find_scan dm v cb hash lifetime now has_buf bz sidx (Suc n) ctx =
     bind_outcome (entry_at dm (sidx + n)) (\<lambda>e.
       if ent_data_idx e + v_bsz v < v_prod v then Done (- ENOENT, [], ctx)
       else if ent_hash e \<noteq> hash
         then find_scan dm v cb hash lifetime now has_buf bz sidx n ctx
       else if ent_time e + lifetime < now then Done (- ETIME, [], ctx)
       else if KEY_PID hash = 0 then sub_iterator dm v cb (of_nat (sidx + n)) has_buf bz ctx
       else let msg = msg_of v e
         in if unat bz < length msg then Done (- ENOBUFS, [], ctx)
            else if \<not> has_buf \<and> msg \<noteq> [] then Fault
            else Done (to_int32 (int (length msg)), msg, ctx))"

definition unsafe_find ::
  "int \<Rightarrow> datamap \<Rightarrow> bview \<Rightarrow> 'u user_cb \<Rightarrow> u64 \<Rightarrow> u64 \<Rightarrow> u64 \<Rightarrow> bool \<Rightarrow> u64 \<Rightarrow> 'u \<Rightarrow>
   (int \<times> bytes \<times> 'u) outcome" where
  "unsafe_find tid dm v cb hash lifetime now has_buf bz ctx =
     bind_outcome (assert_locked tid dm) (\<lambda>dm.
       find_scan dm v cb hash (lifetime * 1000000) now has_buf bz
         (unat (get_round_idx dm)) (unat (m_ent_cnt dm)) ctx)"

section \<open>The log behind the table\<close>

text \<open>
  The table after the pushes in \<open>log\<close>: the window that starts at \<open>m_idx\<close> holds the most recent
  entries, oldest first, padded with the zero entries of a fresh table.
\<close>

definition recent :: "nat \<Rightarrow> AddrEntry list \<Rightarrow> AddrEntry list" where
  "recent cnt log = drop (length log) (replicate cnt zero_entry @ log)"

definition table_repr :: "datamap \<Rightarrow> AddrEntry list \<Rightarrow> bool" where
  "table_repr dm log \<longleftrightarrow>
     (\<exists>k < 62. unat (m_ent_cnt dm) = 2 ^ k) \<and> length (m_entrys dm) = unat (m_ent_cnt dm)
     \<and> m_idx dm = of_nat (length log)
     \<and> load_wrap (m_entrys dm) (length log) (unat (m_ent_cnt dm)) = recent (unat (m_ent_cnt dm)) log"

lemma length_recent [simp]: "length (recent cnt log) = cnt"
  by (simp add: recent_def)

lemma nth_recent: "n < cnt \<Longrightarrow> recent cnt log ! n = (replicate cnt zero_entry @ log) ! (length log + n)"
  unfolding recent_def by (rule nth_drop) simp

lemma recent_snoc: "recent cnt (log @ [e]) = drop 1 (recent cnt log @ [e])"
proof -
  let ?a = "replicate cnt zero_entry @ log"
  have "drop (length log) ?a @ [e] = drop (length log) (?a @ [e])"
    by (subst drop_append) simp
  then have "drop 1 (recent cnt log @ [e]) = drop (Suc (length log)) (?a @ [e])"
    by (simp only: recent_def drop_drop) simp
  then show ?thesis by (simp add: recent_def)
qed

lemma table_reprE:
  assumes "table_repr dm log"
  obtains k where "unat (m_ent_cnt dm) = 2 ^ k" "k < 62" "unat (m_ent_cnt dm) dvd 2 ^ 64"
    "0 < length (m_entrys dm)" "length (m_entrys dm) = unat (m_ent_cnt dm)"
  using assms pow2_dvd_word_range [of "m_ent_cnt dm"] by (auto simp: table_repr_def)

lemma round_idx_place:
  assumes "table_repr dm log"
  shows "unat (m_idx dm AND (m_ent_cnt dm - 1)) = length log mod length (m_entrys dm)"
proof -
  from assms obtain k where k: "unat (m_ent_cnt dm) = 2 ^ k" "unat (m_ent_cnt dm) dvd 2 ^ 64"
    "length (m_entrys dm) = unat (m_ent_cnt dm)" by (elim table_reprE)
  have "unat (m_idx dm AND (m_ent_cnt dm - 1)) = unat (m_idx dm) mod unat (m_ent_cnt dm)"
    by (rule unat_and_minus_one [OF k(1)])
  also have "\<dots> = (length log mod 2 ^ 64) mod unat (m_ent_cnt dm)"
    using assms by (simp add: table_repr_def unsigned_of_nat take_bit_eq_mod)
  also have "\<dots> = length log mod length (m_entrys dm)"
    using mod_size_of_wrapped [OF k(2)] k(3) by simp
  finally show ?thesis .
qed

text \<open>Writing the oldest slot moves the window by one entry.\<close>

lemma window_push:
  assumes "0 < length mem"
  shows "load_wrap (mem[n mod length mem := e]) (Suc n) (length mem)
         = drop 1 (load_wrap mem n (length mem) @ [e])"
proof -
  have "load_wrap (mem[n mod length mem := e]) (Suc n) (length mem)
      = drop 1 (load_wrap (store_wrap mem (n + length mem) [e]) n (length mem + 1))"
    using drop_load_wrap [of 1 "length mem + 1" "mem[n mod length mem := e]" n] by simp
  also have "\<dots> = drop 1 (load_wrap mem n (length mem) @ [e])"
  proof (cases "length mem")
    case 0
    with assms show ?thesis by simp
  next
    case (Suc m)
    have l: "load_wrap (store_wrap mem (n + length mem) [e]) (Suc n) m = load_wrap mem (Suc n) m"
      using load_store_before [of m "[e]" mem "Suc n"] Suc by simp
    have "load_wrap (store_wrap mem (n + length mem) [e]) (n + Suc m) 1 = [e]"
      using load_store_same [of "[e]" mem "n + Suc m"] Suc by simp
    with l show ?thesis
      using drop_load_wrap [of 1 "Suc (Suc m)" "store_wrap mem (n + length mem) [e]" n]
        drop_load_wrap [of 1 "Suc m" mem n]
        load_wrap_add [of "store_wrap mem (n + length mem) [e]" "Suc n" m 1] Suc
      by simp
  qed
  finally show ?thesis .
qed

lemma index_defined:
  assumes "table_repr dm log" "Suc (length log) < 2 ^ 63"
  shows "m_idx dm \<noteq> LONG_MAX"
proof
  assume "m_idx dm = LONG_MAX"
  then have "unat (of_nat (length log) :: u64) = 2 ^ 63 - 1" using assms(1) by (simp add: table_repr_def)
  moreover have "unat (of_nat (length log) :: u64) = length log" using assms(2) by (simp add: unsigned_of_nat take_bit_nat_eq_self)
  ultimately show False using assms(2) by simp
qed

lemma push_repr:
  assumes r: "table_repr dm log" and l: "sane_word (dm_lock dm)" "dm_lock dm \<noteq> 0" and d: "Suc (length log) < 2 ^ 63"
  shows "\<exists>dm'. push tid now bpf_idx hash dsz dm = Done dm' \<and> dm_lock dm' = dm_lock dm
    \<and> m_ent_cnt dm' = m_ent_cnt dm
    \<and> table_repr dm' (log @ [\<lparr>ent_data_idx = bpf_idx, ent_hash = hash, ent_time = now, ent_dsz = dsz\<rparr>])"
proof -
  from r obtain k where k: "unat (m_ent_cnt dm) = 2 ^ k" "k < 62"
    "0 < length (m_entrys dm)" "length (m_entrys dm) = unat (m_ent_cnt dm)" by (elim table_reprE)
  define e where "e = \<lparr>ent_data_idx = bpf_idx, ent_hash = hash, ent_time = now, ent_dsz = dsz\<rparr>"
  let ?N = "length (m_entrys dm)"
  define dm' where "dm' = dm\<lparr>m_idx := m_idx dm + 1, m_entrys := (m_entrys dm)[length log mod ?N := e]\<rparr>"
  have "length log mod ?N < 2 * ?N" using mod_less_divisor [OF k(3), of "length log"] by linarith
  then have run: "push tid now bpf_idx hash dsz dm = Done dm'"
    using l round_idx_place [OF r] index_defined [OF r d]
    by (simp add: push_def assert_locked_def try_lock_def Let_def dm'_def e_def)
  have "load_wrap (m_entrys dm') (Suc (length log)) ?N
      = drop 1 (load_wrap (m_entrys dm) (length log) ?N @ [e])"
    unfolding dm'_def using window_push [OF k(3), of "length log" e] by simp
  also have "\<dots> = recent ?N (log @ [e])"
    using r k(3,4) by (simp add: table_repr_def recent_snoc)
  finally have "table_repr dm' (log @ [e])"
    using r k(1,2,4) by (auto simp: table_repr_def dm'_def)
  with run show ?thesis by (simp add: dm'_def e_def)
qed

section \<open>Searching the log\<close>

text \<open>The search as a function of the entries, newest first; a hit counts the entries that are older.\<close>

datatype verdict = NoEntry | Stale | Hit nat AddrEntry

fun search :: "bview \<Rightarrow> u64 \<Rightarrow> u64 \<Rightarrow> u64 \<Rightarrow> AddrEntry list \<Rightarrow> verdict" where
  "search v hash life now [] = NoEntry"
| "search v hash life now (e # es) =
     (if ent_data_idx e + v_bsz v < v_prod v then NoEntry
      else if ent_hash e \<noteq> hash then search v hash life now es
      else if ent_time e + life < now then Stale
      else Hit (length es) e)"

text \<open>What \<open>unsafe_find\<close> answers for a verdict on the window that starts at \<open>sidx\<close>.\<close>

definition answer ::
  "datamap \<Rightarrow> bview \<Rightarrow> 'u user_cb \<Rightarrow> u64 \<Rightarrow> bool \<Rightarrow> u64 \<Rightarrow> nat \<Rightarrow> 'u \<Rightarrow> verdict \<Rightarrow> (int \<times> bytes \<times> 'u) outcome"
where
  "answer dm v cb hash has_buf bz sidx ctx r =
     (case r of
        NoEntry \<Rightarrow> Done (- ENOENT, [], ctx)
      | Stale \<Rightarrow> Done (- ETIME, [], ctx)
      | Hit n e \<Rightarrow>
          if KEY_PID hash = 0 then sub_iterator dm v cb (of_nat (sidx + n)) has_buf bz ctx
          else let msg = msg_of v e
            in if unat bz < length msg then Done (- ENOBUFS, [], ctx)
               else if \<not> has_buf \<and> msg \<noteq> [] then Fault
               else Done (to_int32 (int (length msg)), msg, ctx))"

lemma find_scan_search:
  assumes "sidx < length (m_entrys dm)" "n \<le> length (m_entrys dm)"
  shows "find_scan dm v cb hash life now has_buf bz sidx n ctx
     = answer dm v cb hash has_buf bz sidx ctx
         (search v hash life now (rev (load_wrap (m_entrys dm) sidx n)))"
  using assms(2)
proof (induction n)
  case 0
  then show ?case by (simp add: answer_def)
next
  case (Suc n)
  let ?e = "m_entrys dm ! ((sidx + n) mod length (m_entrys dm))"
  have "sidx + n < 2 * length (m_entrys dm)" using assms(1) Suc.prems by simp
  then have e: "entry_at dm (sidx + n) = Done ?e" by (simp add: entry_at_def)
  have w: "rev (load_wrap (m_entrys dm) sidx (Suc n)) = ?e # rev (load_wrap (m_entrys dm) sidx n)"
    using load_wrap_add [of "m_entrys dm" sidx n 1] by (simp add: load_wrap_def)
  show ?case
    unfolding w find_scan.simps search.simps e bind_outcome_simps
    using Suc by (simp add: answer_def Let_def)
qed

lemma unsafe_find_search:
  assumes r: "table_repr dm log" and l: "sane_word (dm_lock dm)" "dm_lock dm \<noteq> 0"
  shows "unsafe_find tid dm v cb hash lifetime now has_buf bz ctx
     = answer dm v cb hash has_buf bz (length log mod length (m_entrys dm)) ctx
         (search v hash (lifetime * 1000000) now (rev (recent (length (m_entrys dm)) log)))"
proof -
  from r have k: "0 < length (m_entrys dm)" "length (m_entrys dm) = unat (m_ent_cnt dm)"
    by (auto elim: table_reprE)
  have "load_wrap (m_entrys dm) (length log mod length (m_entrys dm)) (length (m_entrys dm))
      = recent (length (m_entrys dm)) log"
    using r k(2) load_wrap_mod [of "m_entrys dm" "length log"] by (simp add: table_repr_def)
  then show ?thesis
    using l k(1) round_idx_place [OF r]
    by (simp add: unsafe_find_def assert_locked_def try_lock_def get_round_idx_def
        find_scan_search flip: k(2))
qed

lemma search_skips:
  assumes "\<forall>e \<in> set es. \<not> ent_data_idx e + v_bsz v < v_prod v \<and> ent_hash e \<noteq> hash"
  shows "search v hash life now (es @ fs) = search v hash life now fs"
  using assms by (induction es) auto

text \<open>An entry of the log that has not been overwritten is found at its place in the table.\<close>

lemma entry_of_log:
  assumes r: "table_repr dm log" and j: "j < length log" "length log \<le> j + length (m_entrys dm)"
  shows "m_entrys dm ! (j mod length (m_entrys dm)) = log ! j"
proof -
  let ?N = "length (m_entrys dm)" and ?L = "length log"
  have N: "unat (m_ent_cnt dm) = ?N" using r by (simp add: table_repr_def)
  define n where "n = j + ?N - ?L"
  have n: "n < ?N" "?L + n = j + ?N" using j by (simp_all add: n_def)
  have "load_wrap (m_entrys dm) ?L ?N ! n = recent ?N log ! n"
    using r N by (simp add: table_repr_def)
  then have "m_entrys dm ! ((j + ?N) mod ?N) = (replicate ?N zero_entry @ log) ! (?L + n)"
    using n by (simp add: nth_recent)
  then show ?thesis using n(2) by (simp add: nth_append)
qed

section \<open>Properties\<close>

text \<open>The constructor's sizes: for every page size that is a power of two of at least 32 bytes
  and below 2 to the 62 the growing loop ends, the table is a power of two of at least the rounded-up
  size of 300000 entries and a multiple of the page size, and the number of entries is a power of
  two that holds them all.\<close>

theorem table_size_correct:
  assumes "unat pg = 2 ^ k" "5 \<le> k" "k < 62"
  shows "\<exists>sz cnt j. table_size pg = Some sz \<and> table_entries pg = Some cnt \<and> unat sz = 2 ^ j \<and> k \<le> j
     \<and> unat cnt * 32 = unat sz \<and> unat cnt = 2 ^ (j - 5) \<and> 300000 \<le> unat cnt"
proof -
  let ?t = "round_up (BPF_RB_MAX_ENTRY * sizeof_AddrEntry) pg"
  have "(2::nat) ^ k \<le> 2 ^ 61" using assms(3) by (intro power_increasing) simp_all
  then have pg: "unat pg \<le> 2 ^ 61" "0 < unat pg" using assms(1) by simp_all
  have t: "unat ?t = (9600000 + unat pg - 1) div unat pg * unat pg"
    using round_up_pow2 [OF assms(1), of "BPF_RB_MAX_ENTRY * sizeof_AddrEntry"] pg by simp
  have "unat ?t \<le> 9600000 + unat pg - 1" unfolding t by (rule div_times_less_eq_dividend)
  then have le: "unat ?t \<le> 2 ^ 63" using pg by simp
  have "9600000 + unat pg - 1 < unat ?t + unat pg"
    unfolding t using div_mod_decomp [of "9600000 + unat pg - 1" "unat pg"] mod_less_divisor [OF pg(2)]
    by (metis add_less_cancel_left)
  then have ge: "9600000 \<le> unat ?t" using pg(2) by linarith
  obtain j r where g: "grow_pow2 64 pg ?t = Some r" "unat r = 2 ^ j" "k \<le> j" "unat ?t \<le> unat r"
  proof -
    have "k \<le> 63" "63 - k < 64" using assms(3) by linarith+
    from grow_pow2_result [OF assms(1) this(1) le this(2)] that show thesis by blast
  qed
  have j: "(2::nat) ^ j = 2 ^ (j - 5) * 32"
    using g(3) assms(2) power_add [of "2::nat" "j - 5" 5] by simp
  have "unat (r div sizeof_AddrEntry) = 2 ^ (j - 5)" using g(2) j by (simp add: unat_div)
  moreover have "300000 \<le> (2::nat) ^ (j - 5)" using g(2,4) ge j by simp
  ultimately show ?thesis
    using g(1-3) j by (intro exI [of _ r] exI [of _ "r div sizeof_AddrEntry"] exI [of _ j])
      (simp add: table_size_def table_entries_def)
qed

theorem table_size_correct_witness:
  "\<exists>cnt j. table_entries 4096 = Some cnt \<and> unat cnt = 2 ^ j \<and> 300000 \<le> unat cnt"
  using table_size_correct [of 4096 12] by auto

text \<open>A key made from a process id and a data type gives both back, for every type and every
  process id of 32 bits, so that different pairs have different keys.\<close>

theorem key_roundtrip:
  assumes "0 \<le> pid" "pid < 2 ^ 32"
  shows "unat (KEY_PID (MK_KEY pid dt)) = nat pid \<and> KEY_DT (MK_KEY pid dt) = dt"
  using KEY_PID_MK_KEY [OF assms] KEY_DT_MK_KEY by blast

theorem key_roundtrip_witness: "unat (KEY_PID (MK_KEY 4711 3)) = 4711 \<and> KEY_DT (MK_KEY 4711 3) = 3"
  using key_roundtrip [of 4711 3] by simp

text \<open>C7: Under the lock, \<open>push\<close> appends one entry to the log that the table stands for, as long as the running index, a
  signed 64-bit number, is below its maximum: the table shows the most recent entries, the oldest one is overwritten, and neither
  the lock nor the size changes, also when the place in the table wraps around. At the maximum, after \<open>2^63 - 1\<close> entries, the
  increment is undefined.\<close>

theorem push_appends:
  assumes "table_repr dm log" "sane_word (dm_lock dm)" "dm_lock dm \<noteq> 0"
  shows "(Suc (length log) < 2 ^ 63 \<longrightarrow> (\<exists>dm'. push tid now bpf_idx hash dsz dm = Done dm' \<and> dm_lock dm' = dm_lock dm
      \<and> m_ent_cnt dm' = m_ent_cnt dm
      \<and> table_repr dm' (log @ [\<lparr>ent_data_idx = bpf_idx, ent_hash = hash, ent_time = now, ent_dsz = dsz\<rparr>])))
    \<and> (length log = 2 ^ 63 - 1 \<longrightarrow> push tid now bpf_idx hash dsz dm = Fault)"
proof (intro conjI impI)
  show "\<exists>dm'. push tid now bpf_idx hash dsz dm = Done dm' \<and> dm_lock dm' = dm_lock dm \<and> m_ent_cnt dm' = m_ent_cnt dm
      \<and> table_repr dm' (log @ [\<lparr>ent_data_idx = bpf_idx, ent_hash = hash, ent_time = now, ent_dsz = dsz\<rparr>])"
    if "Suc (length log) < 2 ^ 63" using push_repr [OF assms that] .
  show "push tid now bpf_idx hash dsz dm = Fault" if "length log = 2 ^ 63 - 1"
  proof -
    have "m_idx dm = of_nat (2 ^ 63 - 1)" using assms(1) unfolding table_repr_def that [symmetric] by blast
    then have "m_idx dm = LONG_MAX" by simp
    then show ?thesis using assms(2,3) by (simp add: push_def assert_locked_def try_lock_def Let_def)
  qed
qed

definition ex_small :: datamap where
  "ex_small = \<lparr>m_entrys = replicate 2 zero_entry, m_ent_cnt = 2, m_idx = 0, dm_lock = 42\<rparr>"

lemma ex_small_repr: "table_repr ex_small []" "sane_word (dm_lock ex_small)" "dm_lock ex_small \<noteq> 0"
proof -
  have "load_wrap (m_entrys ex_small) 0 2 = recent 2 []"
    by (simp add: ex_small_def load_wrap_def recent_def numeral_2_eq_2)
  then show "table_repr ex_small []" by (auto simp: table_repr_def ex_small_def intro: exI [of _ 1])
qed (simp_all add: ex_small_def sane_word_def valid_tid_def)

theorem push_appends_witness:
  "\<exists>dm'. push 42 9 16 7 3 ex_small = Done dm'
     \<and> table_repr dm' [\<lparr>ent_data_idx = 16, ent_hash = 7, ent_time = 9, ent_dsz = 3\<rparr>]"
  using push_appends [OF ex_small_repr, of 42 9 16 7 3] by auto

text \<open>C6: Under the lock, \<open>unsafe_find\<close> answers as a search of the log from the newest entry to
  the oldest: it stops at the first entry whose data the ring has overwritten, returns ETIME for
  a matching entry that is too old, and otherwise the data of the newest match; it never reads
  outside the table.\<close>

theorem unsafe_find_refines_search:
  assumes "table_repr dm log" "sane_word (dm_lock dm)" "dm_lock dm \<noteq> 0"
  shows "unsafe_find tid dm v cb hash lifetime now has_buf bz ctx
     = answer dm v cb hash has_buf bz (length log mod length (m_entrys dm)) ctx
         (search v hash (lifetime * 1000000) now (rev (recent (length (m_entrys dm)) log)))"
  by (rule unsafe_find_search [OF assms])

theorem unsafe_find_refines_search_witness:
  "unsafe_find 42 ex_small \<lparr>v_bsz = 64, v_prod = 0, v_msg = (\<lambda>off. [])\<rparr> None 7 1 0 True 8 () = Done (- ENOENT, [], ())"
proof -
  have "recent 2 [] = [zero_entry, zero_entry]" by (simp add: recent_def numeral_2_eq_2)
  moreover have "length (m_entrys ex_small) = 2" by (simp add: ex_small_def)
  ultimately show ?thesis
    using unsafe_find_refines_search [OF ex_small_repr,
      of 42 "\<lparr>v_bsz = 64, v_prod = 0, v_msg = (\<lambda>off. [])\<rparr>" None 7 1 0 True 8 "()"]
    by (simp add: zero_entry_def answer_def)
qed

end
