(* ===== verification/Data_Update.thy ===== *)
theory Data_Update
  imports Data_Map
begin

text \<open>
  Refreshing the data map (\<open>handle_event\<close>, \<open>update\<close> and \<open>find\<close> of \<open>so/data-map.cpp\<close>): the BPF iterator
  is run, the ring is drained into the table, and one marker per data type closes the batch. The
  main result is that a query for all processes answers with exactly the messages of its type
  that the batch captured, in the order of capture.
\<close>

section \<open>Reading a batch back\<close>

definition selected :: "u32 \<Rightarrow> AddrEntry list \<Rightarrow> AddrEntry list" where
  "selected dt es = filter (\<lambda>e. KEY_DT (ent_hash e) = dt) es"

definition batch_bytes :: "bview \<Rightarrow> u32 \<Rightarrow> AddrEntry list \<Rightarrow> bytes" where
  "batch_bytes v dt es = concat (map (msg_of v) (selected dt es))"

lemma batch_bytes_simps [simp]:
  "batch_bytes v dt [] = []"
  "batch_bytes v dt (e # es) =
     (if KEY_DT (ent_hash e) = dt then msg_of v e @ batch_bytes v dt es else batch_bytes v dt es)"
  by (simp_all add: batch_bytes_def selected_def)

lemma sub_loop_copies:
  assumes "map (entry_at dm) is = map Done es" and "length (batch_bytes v dt es) \<le> unat bz"
    and "length out + length (batch_bytes v dt es) < 2 ^ 31"
  shows "sub_loop dm v cb True dt is bz (int (length out)) out ctx
     = Done (int (length out + length (batch_bytes v dt es)), out @ batch_bytes v dt es, ctx)"
  using assms
proof (induction es arbitrary: "is" bz out)
  case Nil
  then show ?case by simp
next
  case (Cons e es)
  then obtain i js where i: "is = i # js" "entry_at dm i = Done e" "map (entry_at dm) js = map Done es"
    by auto
  show ?case
  proof (cases "KEY_DT (ent_hash e) = dt")
    case True
    let ?m = "msg_of v e"
    have len: "length ?m \<le> unat bz" "length (batch_bytes v dt es) \<le> unat bz - length ?m"
      "length out + (length ?m + length (batch_bytes v dt es)) < 2 ^ 31"
      using Cons.prems(2,3) True by auto
    have nat: "unat (of_nat (length ?m) :: u64) = length ?m"
      using len(3) by (intro unat_of_nat_63) simp
    have le: "(of_nat (length ?m) :: u64) \<le> bz" using len(1) nat by (simp add: word_le_nat_alt)
    have sub: "unat (bz - of_nat (length ?m)) = unat bz - length ?m"
      using unat_sub_le [OF le] nat by simp
    have ret: "to_int32 (int (length out) + int (length ?m)) = int (length (out @ ?m))"
      using len(3) by (simp add: to_int32_id)
    have "sub_loop dm v cb True dt js (bz - of_nat (length ?m)) (int (length (out @ ?m))) (out @ ?m) ctx
        = Done (int (length (out @ ?m) + length (batch_bytes v dt es)), (out @ ?m) @ batch_bytes v dt es, ctx)"
      using len sub by (intro Cons.IH [OF i(3)]) simp_all
    then show ?thesis using True i len(1) ret by (simp add: Let_def not_less add.assoc)
  next
    case False
    with Cons i show ?thesis by simp
  qed
qed

text \<open>Callback mode: the callback sees the selected messages in order until it objects.\<close>

primrec feed :: "(bytes \<Rightarrow> 'u \<Rightarrow> int \<times> 'u) \<Rightarrow> bytes list \<Rightarrow> 'u \<Rightarrow> (int \<times> 'u) + 'u" where
  "feed f [] ctx = Inr ctx"
| "feed f (m # ms) ctx = (case f m ctx of (r, ctx') \<Rightarrow> if r \<noteq> 0 then Inl (r, ctx') else feed f ms ctx')"

lemma sub_loop_feeds:
  assumes "map (entry_at dm) is = map Done es"
    and "ret + length (batch_bytes v dt es) < 2 ^ 31"
  shows "sub_loop dm v (Some f) False dt is bz (int ret) [] ctx
     = (case feed f (map (msg_of v) (selected dt es)) ctx of
          Inl (r, ctx') \<Rightarrow> Done (r, [], ctx')
        | Inr ctx' \<Rightarrow> Done (int (ret + length (batch_bytes v dt es)), [], ctx'))"
  using assms
proof (induction es arbitrary: "is" bz ret ctx)
  case Nil
  then show ?case by (simp add: selected_def)
next
  case (Cons e es)
  then obtain i js where i: "is = i # js" "entry_at dm i = Done e" "map (entry_at dm) js = map Done es"
    by auto
  show ?case
  proof (cases "KEY_DT (ent_hash e) = dt")
    case True
    obtain r c where fm: "f (msg_of v e) ctx = (r, c)" by fastforce
    have b: "ret + length (msg_of v e) + length (batch_bytes v dt es) < 2 ^ 31"
      using Cons.prems(2) True by simp
    then have "to_int32 (int ret + int (length (msg_of v e))) = int (ret + length (msg_of v e))"
      by (simp add: to_int32_id)
    moreover have "map (msg_of v) (selected dt (e # es)) = msg_of v e # map (msg_of v) (selected dt es)"
      using True by (simp add: selected_def)
    moreover have "length (batch_bytes v dt (e # es)) = length (msg_of v e) + length (batch_bytes v dt es)"
      using True by simp
    moreover have "sub_loop dm v (Some f) False dt js (bz - of_nat (length (msg_of v e)))
        (int (ret + length (msg_of v e))) [] c = (case feed f (map (msg_of v) (selected dt es)) c of
          Inl (r, ctx') \<Rightarrow> Done (r, [], ctx')
        | Inr ctx' \<Rightarrow> Done (int (ret + length (batch_bytes v dt (e # es))), [], ctx'))"
      using Cons.IH [OF i(3) b] by (simp only: calculation(3) add.assoc)
    ultimately show ?thesis using True i fm by (simp add: Let_def split: sum.split prod.split)
  next
    case False
    then have "selected dt (e # es) = selected dt es" "batch_bytes v dt (e # es) = batch_bytes v dt es"
      by (simp_all add: selected_def)
    moreover have "sub_loop dm v (Some f) False dt is bz (int ret) [] ctx
        = sub_loop dm v (Some f) False dt js bz (int ret) [] ctx"
      using False i by simp
    ultimately show ?thesis using Cons.IH [OF i(3)] Cons.prems(2) by (simp only:)
  qed
qed

text \<open>
  \<open>sub_iterator\<close> on the entry with log index \<open>p\<close> runs over the \<open>dsz\<close> entries before it, as long as
  none of them has been overwritten.
\<close>

lemma sub_iterator_log:
  assumes r: "table_repr dm log" and p: "p < length log"
    and d: "unat (ent_dsz (log ! p)) \<le> p"
    and w: "length log \<le> p - unat (ent_dsz (log ! p)) + length (m_entrys dm)"
    and si: "unat si mod length (m_entrys dm) = p mod length (m_entrys dm)"
  shows "\<exists>is. map (entry_at dm) is = map Done (take (unat (ent_dsz (log ! p))) (drop (p - unat (ent_dsz (log ! p))) log))
    \<and> sub_iterator dm v cb si hb bz ctx
      = sub_loop dm v cb hb (KEY_DT (ent_hash (log ! p))) is bz 0 [] ctx"
proof -
  let ?N = "length (m_entrys dm)" and ?d = "unat (ent_dsz (log ! p))"
  from r obtain k where k: "unat (m_ent_cnt dm) = 2 ^ k" "k < 62" "0 < ?N" "?N = unat (m_ent_cnt dm)"
    by (elim table_reprE)
  define idx where "idx = (si AND (m_ent_cnt dm - 1)) + m_ent_cnt dm"
  have "(2::nat) ^ k \<le> 2 ^ 62" using k(2) by (intro power_increasing) simp_all
  then have N: "?N \<le> 2 ^ 62" using k by simp
  have m: "unat (si AND (m_ent_cnt dm - 1)) = p mod ?N"
    using unat_and_minus_one [OF k(1), of si] si k(4) by simp
  have pm: "p mod ?N < ?N" using k(3) by simp
  have idx: "unat idx = p mod ?N + ?N"
    unfolding idx_def using m pm N k(4) by (subst unat_add_lem [THEN iffD1]) simp_all
  have mk: "entry_at dm (unat idx) = Done (log ! p)"
    using entry_of_log [OF r p] w d pm idx by (simp add: entry_at_def)
  have dN: "?d \<le> ?N" using w p d by simp
  then have "ent_dsz (log ! p) \<le> idx" by (simp add: word_le_nat_alt idx)
  then have st: "unat (idx - ent_dsz (log ! p)) = p mod ?N + ?N - ?d"
    using unat_sub_le idx by simp
  define js where "js = [unat (idx - ent_dsz (log ! p))..<unat idx]"
  have "map (entry_at dm) js = map Done (take ?d (drop (p - ?d) log))"
  proof (rule nth_equalityI)
    show "length (map (entry_at dm) js) = length (map Done (take ?d (drop (p - ?d) log)))"
    proof -
      have "min (length log - (p - ?d)) ?d = ?d" using d p by simp
      then show ?thesis using d dN by (simp add: js_def st idx min.commute)
    qed
  next
    fix i assume "i < length (map (entry_at dm) js)"
    then have i: "i < ?d" using dN by (simp add: js_def st idx)
    have j: "p - ?d + i < length log" "length log \<le> p - ?d + i + ?N" using i p w d by simp_all
    have "(p mod ?N + ?N - ?d + i) mod ?N = (p - ?d + i) mod ?N"
    proof -
      have "p = p div ?N * ?N + p mod ?N" by simp
      then have "(p mod ?N + ?N - ?d + i) + p div ?N * ?N = (p - ?d + i) + 1 * ?N" using d dN by linarith
      then show ?thesis by (metis mod_mult_self1)
    qed
    then have "entry_at dm (p mod ?N + ?N - ?d + i) = Done (log ! (p - ?d + i))"
      using entry_of_log [OF r j] i pm dN by (simp add: entry_at_def)
    then show "map (entry_at dm) js ! i = map Done (take ?d (drop (p - ?d) log)) ! i"
      using i d p dN by (simp add: js_def st idx)
  qed
  moreover have "sub_iterator dm v cb si hb bz ctx
      = sub_loop dm v cb hb (KEY_DT (ent_hash (log ! p))) js bz 0 [] ctx"
    by (simp add: sub_iterator_def Let_def idx_def [symmetric] mk js_def)
  ultimately show ?thesis by blast
qed

section \<open>Filling the table\<close>

datatype DataType =
    PROC_PID_IO
  | PROC_PID_STAT
  | PROC_PID_traffic
  | PROC_PID_STATM
  | PROC_PID_SCHEDSTAT
  | PROC_PID_FD
  | PROC_PID_STATUS
  | PROC_PID_NS
  | PROC_PID_LOGINUID
  | PROC_PID_sock

text \<open>
  \<open>handle_event\<close>, the callback of the BPF ring: \<open>dh off\<close> are the \<open>pid\<close> and the \<open>type\<close> of the
  \<open>DataHdr\<close> at an offset, \<open>clk i\<close> is the clock at the push with number \<open>i\<close>. A failed assertion ends
  the process, so nothing is delivered after it.
\<close>

definition handle_event ::
  "int \<Rightarrow> (u64 \<Rightarrow> u64) \<Rightarrow> (nat \<Rightarrow> int \<times> u32) \<Rightarrow> datamap outcome sample_fn" where
  "handle_event tid clk dh idx off data_sz st =
     (case bind_outcome st (assert_locked tid) of
        Done dm \<Rightarrow>
          (let key = (case dh off of (pid, type) \<Rightarrow> MK_KEY pid type)
           in case push tid (clk (m_idx dm)) idx key (ucast data_sz) dm of
                Done dm' \<Rightarrow> (0, Done dm')
              | stuck \<Rightarrow> (-1, stuck))
      | stuck \<Rightarrow> (-1, stuck))"

text \<open>What one call of \<open>poll(0)\<close> meets.\<close>

record poll_in =
  pi_ev :: epoll_res
  pi_hdr :: "nat \<Rightarrow> u32"
  pi_hd :: "nat \<Rightarrow> int \<times> u32"
  pi_prod0 :: u64
  pi_prods :: "u64 list"

text \<open>The loop \<open>while ((err = m_bpf_rb->poll(0)) > 0)\<close>.\<close>

fun drain ::
  "int \<Rightarrow> (u64 \<Rightarrow> u64) \<Rightarrow> poll_in list \<Rightarrow> bring \<Rightarrow> datamap \<Rightarrow> (int \<times> bring \<times> datamap) outcome" where
  "drain tid clk [] rb dm = Blocked"
| "drain tid clk (pi # ins) rb dm =
     bind_outcome
       (poll rb (pi_ev pi) (pi_hdr pi) (handle_event tid clk (pi_hd pi)) (pi_prod0 pi) (pi_prods pi) (Done dm))
       (\<lambda>(err, rb', st). bind_outcome st (\<lambda>dm'.
          if 0 < err then drain tid clk ins rb' dm' else Done (err, rb', dm')))"

definition marker_types :: "DataType list" where
  "marker_types =
     [PROC_PID_IO, PROC_PID_STAT, PROC_PID_traffic, PROC_PID_STATM, PROC_PID_SCHEDSTAT,
      PROC_PID_FD, PROC_PID_STATUS, PROC_PID_NS, PROC_PID_LOGINUID]"

text \<open>\<open>dtv\<close> gives the numbers of the enumeration \<open>DataType\<close>.\<close>

primrec push_markers ::
  "int \<Rightarrow> (u64 \<Rightarrow> u64) \<Rightarrow> (DataType \<Rightarrow> u32) \<Rightarrow> u64 \<Rightarrow> DataType list \<Rightarrow> u64 \<Rightarrow> datamap \<Rightarrow> datamap outcome"
where
  "push_markers tid clk dtv bpf_idx [] dsz dm = Done dm"
| "push_markers tid clk dtv bpf_idx (t # ts) dsz dm =
     bind_outcome (push tid (clk (m_idx dm)) bpf_idx (ucast (dtv t)) dsz dm)
       (push_markers tid clk dtv bpf_idx ts (dsz + 1))"

text \<open>
  \<open>DataMap::update\<close>. \<open>fd\<close> is the descriptor of the task iterator. Reading the iterator and
  \<open>dump_task_file\<close> make the kernel fill the BPF ring; \<open>ins\<close> is what the polls then meet.
\<close>

definition update ::
  "int \<Rightarrow> (u64 \<Rightarrow> u64) \<Rightarrow> (DataType \<Rightarrow> u32) \<Rightarrow> int \<Rightarrow> poll_in list \<Rightarrow> bring \<Rightarrow> datamap \<Rightarrow>
   (int \<times> bring \<times> datamap) outcome" where
  "update tid clk dtv fd ins rb dm0 =
     (let sidx = m_idx dm0
      in bind_outcome (assert_locked tid dm0) (\<lambda>dm.
           if fd < 0 then Done (-1, rb, dm)
           else bind_outcome (drain tid clk ins rb dm) (\<lambda>(err, rb', dm').
             bind_outcome (push_markers tid clk dtv (b_cons rb') marker_types (m_idx dm' - sidx) dm')
               (\<lambda>dm''. Done (0, rb', dm'')))))"

definition async_update :: "DataType \<Rightarrow> int" where
  "async_update dt = 0"

text \<open>
  \<open>DataMap::find\<close>: under the lock, search, and on a miss refresh and search again. \<open>v1\<close>, \<open>now1\<close> and
  \<open>v2\<close>, \<open>now2\<close> are the ring and the clock at the two searches.
\<close>

definition find ::
  "int \<Rightarrow> int \<Rightarrow> int \<Rightarrow> (u64 \<Rightarrow> u64) \<Rightarrow> (DataType \<Rightarrow> u32) \<Rightarrow> int \<Rightarrow> poll_in list \<Rightarrow>
   bview \<Rightarrow> u64 \<Rightarrow> bview \<Rightarrow> u64 \<Rightarrow> 'u user_cb \<Rightarrow> u64 \<Rightarrow> u64 \<Rightarrow> bool \<Rightarrow> u64 \<Rightarrow>
   bring \<Rightarrow> datamap \<Rightarrow> 'u \<Rightarrow> ((int \<times> bytes \<times> 'u \<times> bring \<times> datamap) \<times> int) outcome" where
  "find tid t0 t1 clk dtv fd ins v1 now1 v2 now2 cb hash lifetime has_buf bz rb dm ctx =
     with_lock tid t0 t1 (dm_lock dm) (\<lambda>w.
       bind_outcome (unsafe_find tid (dm\<lparr>dm_lock := w\<rparr>) v1 cb hash lifetime now1 has_buf bz ctx)
         (\<lambda>(ret, out, ctx').
           if 0 < ret then Done (ret, out, ctx', rb, dm\<lparr>dm_lock := w\<rparr>)
           else bind_outcome (update tid clk dtv fd ins rb (dm\<lparr>dm_lock := w\<rparr>)) (\<lambda>(r, rb', dm').
             if r \<noteq> 0 then Done (r, out, ctx', rb', dm')
             else bind_outcome (unsafe_find tid dm' v2 cb hash lifetime now2 has_buf bz ctx')
               (\<lambda>(ret', out', ctx''). Done (ret', out', ctx'', rb', dm')))))"

section \<open>The log of a batch\<close>

text \<open>The entries that a run of records leaves in the log, numbered from \<open>i\<close>.\<close>

primrec captured ::
  "nat \<Rightarrow> (u64 \<Rightarrow> u64) \<Rightarrow> (nat \<Rightarrow> int \<times> u32) \<Rightarrow> nat \<Rightarrow> nat \<Rightarrow> krec list \<Rightarrow> AddrEntry list" where
  "captured b clk dh i pos [] = []"
| "captured b clk dh i pos (r # rs) =
     (if rec_discarded r then captured b clk dh i (pos + rec_space (rec_len r)) rs
      else \<lparr>ent_data_idx = of_nat pos,
             ent_hash = (case dh (pos mod b + 8) of (pid, type) \<Rightarrow> MK_KEY pid type),
             ent_time = clk (of_nat i), ent_dsz = ucast (rec_word r)\<rparr>
           # captured b clk dh (Suc i) (pos + rec_space (rec_len r)) rs)"

definition locked :: "datamap \<Rightarrow> bool" where
  "locked dm \<longleftrightarrow> sane_word (dm_lock dm) \<and> dm_lock dm \<noteq> 0"

lemma assert_locked_ok: "locked dm \<Longrightarrow> assert_locked tid dm = Done dm"
  by (simp add: locked_def assert_locked_def try_lock_def)

lemma push_log:
  assumes "table_repr dm log" and "locked dm" and "Suc (length log) < 2 ^ 63"
  obtains dm' where "push tid (clk (m_idx dm)) bpf_idx hash dsz dm = Done dm'" "locked dm'"
    "dm_lock dm' = dm_lock dm" "m_ent_cnt dm' = m_ent_cnt dm"
    "table_repr dm' (log @ [\<lparr>ent_data_idx = bpf_idx, ent_hash = hash,
        ent_time = clk (of_nat (length log)), ent_dsz = dsz\<rparr>])"
proof -
  have "m_idx dm = of_nat (length log)" using assms(1) by (simp add: table_repr_def)
  then show ?thesis
    using push_repr [OF assms(1), of tid "clk (m_idx dm)" bpf_idx hash dsz] assms(2,3) that
    by (auto simp: locked_def)
qed

lemma deliver_log:
  assumes "table_repr dm log" and "locked dm" and "length (log @ captured b clk dh (length log) pos rs) < 2 ^ 63"
  shows "\<exists>dm'. deliver b (handle_event tid clk dh) pos rs (Done dm) cnt
      = (cnt + int (length (captured b clk dh (length log) pos rs)), pos + recs_space rs, Done dm')
    \<and> locked dm' \<and> dm_lock dm' = dm_lock dm \<and> m_ent_cnt dm' = m_ent_cnt dm
    \<and> table_repr dm' (log @ captured b clk dh (length log) pos rs)"
  using assms
proof (induction rs arbitrary: pos dm log cnt)
  case Nil
  then show ?case by simp
next
  case (Cons r rs)
  let ?pos = "pos + rec_space (rec_len r)"
  show ?case
  proof (cases "rec_discarded r")
    case True
    with Cons.IH [OF Cons.prems(1,2), of ?pos cnt] Cons.prems(3) show ?thesis by (simp add: add.assoc)
  next
    case False
    define key where "key = (case dh (pos mod b + 8) of (pid, type) \<Rightarrow> MK_KEY pid type)"
    let ?e = "\<lparr>ent_data_idx = of_nat pos, ent_hash = key, ent_time = clk (of_nat (length log)),
      ent_dsz = ucast (rec_word r)\<rparr>"
    have room: "Suc (length log) < 2 ^ 63" using Cons.prems(3) False by simp
    obtain dm1 where p: "push tid (clk (m_idx dm)) (of_nat pos) key (ucast (rec_word r)) dm = Done dm1"
      "locked dm1" "dm_lock dm1 = dm_lock dm" "m_ent_cnt dm1 = m_ent_cnt dm" "table_repr dm1 (log @ [?e])"
      using push_log [OF Cons.prems(1,2) room] by metis
    have "handle_event tid clk dh (of_nat pos) (pos mod b + 8) (rec_word r) (Done dm) = (0, Done dm1)"
      using p(1) Cons.prems(2) by (simp add: handle_event_def assert_locked_ok key_def Let_def)
    with Cons.IH [OF p(5,2), of ?pos "cnt + 1"] p(3,4) False Cons.prems(3) show ?thesis
      by (simp add: key_def add.assoc)
  qed
qed

text \<open>A poll that finds the records \<open>rs\<close> at the consumer position \<open>pos\<close>, with enough loop tests.\<close>

definition round_of :: "nat \<Rightarrow> int \<Rightarrow> nat \<Rightarrow> krec list \<Rightarrow> poll_in \<Rightarrow> bool" where
  "round_of b mfd pos rs pi \<longleftrightarrow>
     pi_ev pi = EpFd mfd \<and> laid_out b (pi_hdr pi) pos rs
     \<and> batch_end b (pi_hdr pi) (unat (pi_prod0 pi)) (pos + recs_space rs)
     \<and> pi_prods pi = replicate (length (pi_prods pi)) (pi_prod0 pi) \<and> length rs < length (pi_prods pi)"

text \<open>
  The polls of one drain: each of them but the last finds finished records, and the last one finds
  no event.
\<close>

fun rounds_ok :: "nat \<Rightarrow> int \<Rightarrow> nat \<Rightarrow> krec list list \<Rightarrow> poll_in list \<Rightarrow> bool" where
  "rounds_ok b mfd pos rss [] = False"
| "rounds_ok b mfd pos [] (pi # ins) = (pi_ev pi = EpNone)"
| "rounds_ok b mfd pos (rs # rss) (pi # ins) =
     (round_of b mfd pos rs pi \<and> (\<exists>r \<in> set rs. \<not> rec_discarded r)
      \<and> rounds_ok b mfd (pos + recs_space rs) rss ins)"

fun all_captured ::
  "nat \<Rightarrow> (u64 \<Rightarrow> u64) \<Rightarrow> nat \<Rightarrow> nat \<Rightarrow> krec list list \<Rightarrow> poll_in list \<Rightarrow> AddrEntry list" where
  "all_captured b clk i pos (rs # rss) (pi # ins) =
     (let es = captured b clk (pi_hd pi) i pos rs
      in es @ all_captured b clk (i + length es) (pos + recs_space rs) rss ins)"
| "all_captured b clk i pos rss ins = []"

lemma captured_nonempty: "\<exists>r \<in> set rs. \<not> rec_discarded r \<Longrightarrow> captured b clk dh i pos rs \<noteq> []"
  by (induction rs arbitrary: i pos) auto

lemma poll_round:
  assumes b: "b_type rb = RING_BUF_TYPE_BPF" "unat (b_bsz rb) = 2 ^ k" "b_cons rb = of_nat pos"
    and ro: "round_of (unat (b_bsz rb)) (b_map_fd rb) pos rs pi"
  shows "poll rb (pi_ev pi) (pi_hdr pi) cb (pi_prod0 pi) (pi_prods pi) ctx
     = (case deliver (unat (b_bsz rb)) cb pos rs ctx 0 of
          (r, cons, ctx') \<Rightarrow> Done (r, rb\<lparr>b_cons := of_nat cons\<rparr>, ctx'))"
proof -
  let ?p = "unat (pi_prod0 pi)"
  have r: "pi_ev pi = EpFd (b_map_fd rb)" "laid_out (unat (b_bsz rb)) (pi_hdr pi) pos rs"
    "batch_end (unat (b_bsz rb)) (pi_hdr pi) ?p (pos + recs_space rs)"
    "pi_prods pi = replicate (length (pi_prods pi)) (of_nat ?p)" "length rs < length (pi_prods pi)"
    using ro by (simp_all add: round_of_def)
  have p: "?p < 2 ^ 64" using unsigned_less [of "pi_prod0 pi"] by simp
  have "pos \<le> ?p" using r(3) by (auto simp: batch_end_def)
  then have le: "\<not> pi_prod0 pi < b_cons rb"
    using p b(3) by (simp add: word_less_nat_alt unsigned_of_nat take_bit_nat_eq_self)
  have "poll_loop (b_bsz rb) (pi_hdr pi) cb (pi_prods pi) (of_nat pos) (of_nat pos) ctx 0
      = (case deliver (unat (b_bsz rb)) cb pos rs ctx 0 of (r, cons, ctx') \<Rightarrow> Done (r, of_nat cons, ctx'))"
    using poll_loop_delivers [OF b(2) r(2,3) p r(5), of cb ctx 0] by (simp only: r(4) [symmetric])
  with b r(1) le show ?thesis by (simp add: poll_def split: prod.split)
qed

lemma drain_log:
  assumes "table_repr dm log" and "locked dm"
    and "b_type rb = RING_BUF_TYPE_BPF" "unat (b_bsz rb) = 2 ^ k" "b_cons rb = of_nat pos"
    and "rounds_ok (unat (b_bsz rb)) (b_map_fd rb) pos rss ins"
    and "length (log @ all_captured (unat (b_bsz rb)) clk (length log) pos rss ins) < 2 ^ 63"
  shows "\<exists>dm'. drain tid clk ins rb dm
      = Done (0, rb\<lparr>b_cons := of_nat (pos + sum_list (map recs_space rss))\<rparr>, dm')
    \<and> locked dm' \<and> dm_lock dm' = dm_lock dm \<and> m_ent_cnt dm' = m_ent_cnt dm
    \<and> table_repr dm' (log @ all_captured (unat (b_bsz rb)) clk (length log) pos rss ins)"
  using assms
proof (induction rss arbitrary: ins rb dm log pos)
  case Nil
  then show ?case by (cases ins) (auto simp: poll_def)
next
  case (Cons rs rss)
  let ?b = "unat (b_bsz rb)" and ?pos = "pos + recs_space rs"
  obtain pi js where ins: "ins = pi # js" and ro: "round_of ?b (b_map_fd rb) pos rs pi"
    and ne: "\<exists>r \<in> set rs. \<not> rec_discarded r" and rest: "rounds_ok ?b (b_map_fd rb) ?pos rss js"
    using Cons.prems(6) by (cases ins) auto
  let ?es = "captured ?b clk (pi_hd pi) (length log) pos rs"
  obtain dm1 where d: "deliver ?b (handle_event tid clk (pi_hd pi)) pos rs (Done dm) 0
      = (int (length ?es), ?pos, Done dm1)"
    "locked dm1" "dm_lock dm1 = dm_lock dm" "m_ent_cnt dm1 = m_ent_cnt dm" "table_repr dm1 (log @ ?es)"
    using deliver_log [OF Cons.prems(1,2), of ?b clk "pi_hd pi" pos rs tid 0] Cons.prems(7) by (auto simp: ins Let_def)
  have pl: "poll rb (pi_ev pi) (pi_hdr pi) (handle_event tid clk (pi_hd pi)) (pi_prod0 pi) (pi_prods pi) (Done dm)
      = Done (int (length ?es), rb\<lparr>b_cons := of_nat ?pos\<rparr>, Done dm1)"
    unfolding poll_round [OF Cons.prems(3-5) ro] d(1) by simp
  have "0 < length ?es" using captured_nonempty [OF ne] by simp
  then have step: "drain tid clk ins rb dm = drain tid clk js (rb\<lparr>b_cons := of_nat ?pos\<rparr>) dm1"
    unfolding ins drain.simps pl by simp
  show ?case
    unfolding step
    using Cons.IH [of dm1 "log @ ?es" "rb\<lparr>b_cons := of_nat ?pos\<rparr>" ?pos js] d Cons.prems(3,4,7) rest ins
    by (auto simp: Let_def add.assoc)
qed

text \<open>The markers that close a batch.\<close>

primrec markers ::
  "(u64 \<Rightarrow> u64) \<Rightarrow> (DataType \<Rightarrow> u32) \<Rightarrow> u64 \<Rightarrow> nat \<Rightarrow> nat \<Rightarrow> DataType list \<Rightarrow> AddrEntry list" where
  "markers clk dtv bpf_idx i dsz [] = []"
| "markers clk dtv bpf_idx i dsz (t # ts) =
     \<lparr>ent_data_idx = bpf_idx, ent_hash = ucast (dtv t), ent_time = clk (of_nat i), ent_dsz = of_nat dsz\<rparr>
     # markers clk dtv bpf_idx (Suc i) (Suc dsz) ts"

lemma length_markers [simp]: "length (markers clk dtv bi i d ts) = length ts"
  by (induction ts arbitrary: i d) simp_all

lemma nth_markers:
  "n < length ts \<Longrightarrow> markers clk dtv bi i d ts ! n =
     \<lparr>ent_data_idx = bi, ent_hash = ucast (dtv (ts ! n)), ent_time = clk (of_nat (i + n)), ent_dsz = of_nat (d + n)\<rparr>"
  by (induction ts arbitrary: i d n) (auto simp: nth_Cons ac_simps split: nat.split)

lemma push_markers_log:
  assumes "table_repr dm log" and "locked dm" and "length log + length ts < 2 ^ 63"
  shows "\<exists>dm'. push_markers tid clk dtv bi ts (of_nat d) dm = Done dm'
    \<and> locked dm' \<and> dm_lock dm' = dm_lock dm \<and> m_ent_cnt dm' = m_ent_cnt dm
    \<and> table_repr dm' (log @ markers clk dtv bi (length log) d ts)"
  using assms
proof (induction ts arbitrary: d dm log)
  case Nil
  then show ?case by simp
next
  case (Cons t ts)
  let ?e = "\<lparr>ent_data_idx = bi, ent_hash = ucast (dtv t), ent_time = clk (of_nat (length log)), ent_dsz = of_nat d\<rparr>"
  have room: "Suc (length log) < 2 ^ 63" using Cons.prems(3) by simp
  obtain dm1 where p: "push tid (clk (m_idx dm)) bi (ucast (dtv t)) (of_nat d) dm = Done dm1"
    "locked dm1" "dm_lock dm1 = dm_lock dm" "m_ent_cnt dm1 = m_ent_cnt dm" "table_repr dm1 (log @ [?e])"
    using push_log [OF Cons.prems(1,2) room] by metis
  with Cons.IH [OF p(5,2), of "Suc d"] Cons.prems(3) show ?case by (simp add: add.commute)
qed

text \<open>The whole of \<open>update\<close>: the log grows by what was captured and by the markers.\<close>

lemma update_log:
  assumes "table_repr dm log" and "locked dm" and "0 \<le> fd"
    and "b_type rb = RING_BUF_TYPE_BPF" "unat (b_bsz rb) = 2 ^ k" "b_cons rb = of_nat pos"
    and "rounds_ok (unat (b_bsz rb)) (b_map_fd rb) pos rss ins"
    and es: "es = all_captured (unat (b_bsz rb)) clk (length log) pos rss ins"
    and ci: "ci = of_nat (pos + sum_list (map recs_space rss))"
    and fits: "length (log @ es) + 9 < 2 ^ 63"
  shows "\<exists>dm'. update tid clk dtv fd ins rb dm = Done (0, rb\<lparr>b_cons := ci\<rparr>, dm')
    \<and> locked dm' \<and> dm_lock dm' = dm_lock dm \<and> m_ent_cnt dm' = m_ent_cnt dm
    \<and> table_repr dm' (log @ es @ markers clk dtv ci (length (log @ es)) (length es) marker_types)"
proof -
  obtain dm1 where d: "drain tid clk ins rb dm = Done (0, rb\<lparr>b_cons := ci\<rparr>, dm1)"
    "locked dm1" "dm_lock dm1 = dm_lock dm" "m_ent_cnt dm1 = m_ent_cnt dm" "table_repr dm1 (log @ es)"
    using drain_log [OF assms(1,2,4-7), of clk tid] fits unfolding es ci by auto
  have n: "m_idx dm1 - m_idx dm = of_nat (length es)"
    using d(5) assms(1) by (simp add: table_repr_def)
  have room: "length (log @ es) + length marker_types < 2 ^ 63" using fits by (simp add: marker_types_def)
  obtain dm2 where "push_markers tid clk dtv ci marker_types (of_nat (length es)) dm1 = Done dm2"
    "locked dm2" "dm_lock dm2 = dm_lock dm1" "m_ent_cnt dm2 = m_ent_cnt dm1"
    "table_repr dm2 ((log @ es) @ markers clk dtv ci (length (log @ es)) (length es) marker_types)"
    using push_markers_log [OF d(5,2) room] by blast
  then show ?thesis
    using assms(2,3) d n by (simp add: update_def Let_def assert_locked_ok)
qed

section \<open>Queries for all processes\<close>

lemma recent_append: "length xs \<le> N \<Longrightarrow> recent N (log @ xs) = drop (length xs) (recent N log) @ xs"
proof -
  assume xs: "length xs \<le> N"
  then have "length log - N + (length xs - (N - length log)) = length log + length xs - N" by simp
  with xs show ?thesis by (simp add: recent_def add.commute)
qed

lemma key_all [simp]: "KEY_PID (ucast (dt :: u32)) = 0" "KEY_DT (ucast (dt :: u32)) = dt"
proof -
  have e: "MK_KEY 0 dt = ucast dt" by (simp add: MK_KEY_def)
  have "unat (KEY_PID (MK_KEY 0 dt)) = 0" using KEY_PID_MK_KEY [of 0 dt] by simp
  then show "KEY_PID (ucast dt) = 0" by (simp add: e unat_eq_0)
  show "KEY_DT (ucast dt) = dt" using KEY_DT_MK_KEY [of 0 dt] by (simp add: e)
qed

lemma ucast_key_inj: "(ucast (a :: u32) :: u64) = ucast b \<Longrightarrow> a = b"
  using key_all(2) by metis

lemma distinct_marker_types: "distinct marker_types" "length marker_types = 9"
  by (simp_all add: marker_types_def)

text \<open>The newest marker of a type is the first entry that the search meets.\<close>

lemma search_marker:
  assumes n: "n < length ts" and d: "distinct ts" "inj dtv"
    and v: "\<not> ci + v_bsz v < v_prod v" and f: "\<not> clk (of_nat (i + n)) + life < now"
  shows "search v (ucast (dtv (ts ! n))) life now (rev (pre @ markers clk dtv ci i k ts))
     = Hit (length pre + n) (markers clk dtv ci i k ts ! n)"
proof -
  let ?ms = "markers clk dtv ci i k ts"
  have sp: "?ms = take n ?ms @ ?ms ! n # drop (Suc n) ?ms" using n by (simp add: id_take_nth_drop)
  have skip: "\<forall>e \<in> set (rev (drop (Suc n) ?ms)).
      \<not> ent_data_idx e + v_bsz v < v_prod v \<and> ent_hash e \<noteq> ucast (dtv (ts ! n))"
  proof
    fix e assume "e \<in> set (rev (drop (Suc n) ?ms))"
    then obtain j where j: "j < length ts" "n < j" "e = ?ms ! j"
      by (auto simp: in_set_conv_nth less_diff_conv add.commute)
    then have "ts ! j \<noteq> ts ! n" using d(1) n by (simp add: nth_eq_iff_index_eq)
    then have "dtv (ts ! j) \<noteq> dtv (ts ! n)" using d(2) by (simp add: inj_eq)
    with j v show "\<not> ent_data_idx e + v_bsz v < v_prod v \<and> ent_hash e \<noteq> ucast (dtv (ts ! n))"
      by (auto simp: nth_markers dest: ucast_key_inj)
  qed
  have "rev (pre @ ?ms) = rev (drop (Suc n) ?ms) @ ?ms ! n # rev (pre @ take n ?ms)"
    by (subst sp) simp
  then have "search v (ucast (dtv (ts ! n))) life now (rev (pre @ ?ms))
      = search v (ucast (dtv (ts ! n))) life now (?ms ! n # rev (pre @ take n ?ms))"
    by (simp only: search_skips [OF skip])
  also have "\<dots> = Hit (length pre + n) (?ms ! n)" using n v f by (simp add: nth_markers)
  finally show ?thesis .
qed

text \<open>A query after a refresh runs over the entries of the batch, the other markers aside.\<close>

lemma query_batch:
  assumes r: "table_repr dm (log @ es @ ms)" and lk: "locked dm"
    and ms: "ms = markers clk dtv ci (length (log @ es)) (length es) marker_types"
    and n: "n < 9" and dv: "inj dtv" and fit: "length es + 9 \<le> length (m_entrys dm)"
    and v: "\<not> ci + v_bsz v < v_prod v"
    and f: "\<not> clk (of_nat (length (log @ es) + n)) + life * 1000000 < now"
  shows "\<exists>is. map (entry_at dm) is = map Done (es @ take n ms)
    \<and> unsafe_find tid dm v cb (ucast (dtv (marker_types ! n))) life now hb bz ctx
      = sub_loop dm v cb hb (dtv (marker_types ! n)) is bz 0 [] ctx"
proof -
  let ?L = "log @ es @ ms" and ?N = "length (m_entrys dm)" and ?t = "dtv (marker_types ! n)"
  let ?p = "length (log @ es) + n"
  from r obtain k where k: "unat (m_ent_cnt dm) = 2 ^ k" "k < 62" "0 < ?N" "?N = unat (m_ent_cnt dm)"
    by (elim table_reprE)
  have "(2::nat) ^ k \<le> 2 ^ 62" using k(2) by (intro power_increasing) simp_all
  then have N: "?N \<le> 2 ^ 62" using k by simp
  have n': "n < length marker_types" using n distinct_marker_types by simp
  have lm: "length ms = 9" by (simp add: ms distinct_marker_types)
  define pre where "pre = drop 9 (recent ?N (log @ es))"
  have pre: "recent ?N ?L = pre @ ms" "length pre = ?N - 9"
    using recent_append [of ms ?N "log @ es"] fit lm by (simp_all add: pre_def)
  have mn: "?L ! ?p = ms ! n" using n lm by (simp add: nth_append)
  have mk: "ent_hash (ms ! n) = ucast ?t" "ent_dsz (ms ! n) = of_nat (length es + n)"
    using n' by (simp_all add: ms nth_markers)
  have dsz: "unat (ent_dsz (ms ! n)) = length es + n"
    unfolding mk(2) using fit N n by (intro unat_of_nat_63) simp
  define si where "si = (of_nat (length ?L mod ?N + (length pre + n)) :: u64)"
  have hit: "unsafe_find tid dm v cb (ucast ?t) life now hb bz ctx
      = sub_iterator dm v cb si hb bz ctx"
  proof -
    have "search v (ucast ?t) (life * 1000000) now (rev (recent ?N ?L)) = Hit (length pre + n) (ms ! n)"
      unfolding pre(1) unfolding ms by (rule search_marker [OF n' distinct_marker_types(1) dv v]) (rule f)
    then show ?thesis
      using unsafe_find_search [OF r, of tid v cb "ucast ?t" life now hb bz ctx] lk
      by (simp add: locked_def answer_def si_def)
  qed
  have si: "unat si mod ?N = ?p mod ?N"
  proof -
    have "length ?L mod ?N < ?N" using k(3) by simp
    then have "length ?L mod ?N + (length pre + n) < 2 ^ 63"
      using pre(2) n fit N by simp
    then have "unat si = length ?L mod ?N + (length pre + n)"
      unfolding si_def by (rule unat_of_nat_63)
    then have "unat si mod ?N = (length ?L + (length pre + n)) mod ?N" by (simp add: mod_add_left_eq)
    moreover have "length ?L + (length pre + n) = ?p + ?N" using pre(2) lm fit by simp
    ultimately show ?thesis by (simp only: mod_add_self2)
  qed
  have "\<exists>is. map (entry_at dm) is = map Done (take (length es + n) (drop (length log) ?L))
    \<and> sub_iterator dm v cb si hb bz ctx = sub_loop dm v cb hb ?t is bz 0 [] ctx"
  proof -
    have p: "?p < length ?L" using n lm by simp
    have d: "unat (ent_dsz (?L ! ?p)) = length es + n" "ent_hash (?L ! ?p) = ucast ?t"
      by (simp_all only: mn dsz mk(1))
    have bk: "?p - (length es + n) = length log" by simp
    show ?thesis
      using sub_iterator_log [OF r p, of si v cb hb bz ctx] fit lm si
      unfolding d bk key_all by simp
  qed
  moreover have "take (length es + n) (drop (length log) ?L) = es @ take n ms" by simp
  ultimately show ?thesis by (simp only: hit)
qed

lemma batch_bytes_append: "batch_bytes v dt (xs @ ys) = batch_bytes v dt xs @ batch_bytes v dt ys"
  by (simp add: batch_bytes_def selected_def)

lemma batch_bytes_other: "\<forall>e \<in> set es. KEY_DT (ent_hash e) \<noteq> dt \<Longrightarrow> batch_bytes v dt es = []"
  by (simp add: batch_bytes_def selected_def)

lemma earlier_markers:
  assumes "n < length ts" "distinct ts" "inj dtv"
  shows "\<forall>e \<in> set (take n (markers clk dtv ci i k ts)). KEY_DT (ent_hash e) \<noteq> dtv (ts ! n)"
proof
  fix e assume "e \<in> set (take n (markers clk dtv ci i k ts))"
  then obtain j where j: "j < n" "e = markers clk dtv ci i k ts ! j"
    using assms(1) by (auto simp: in_set_conv_nth)
  then have "ts ! j \<noteq> ts ! n" using assms by (simp add: nth_eq_iff_index_eq)
  then show "KEY_DT (ent_hash e) \<noteq> dtv (ts ! n)" using assms j by (simp add: nth_markers inj_eq)
qed

text \<open>
  The caller's first search missed, so \<open>find\<close> refreshes the table and answers from the new batch.
\<close>

lemma find_refreshes:
  assumes lk: "valid_tid tid" "t1 - t0 < 5" "dm_lock dm = 0"
    and miss: "unsafe_find tid (dm\<lparr>dm_lock := tid\<rparr>) v1 cb hash life now1 hb bz ctx = Done (r, out, ctx)"
      "r \<le> 0"
    and up: "update tid clk dtv fd ins rb (dm\<lparr>dm_lock := tid\<rparr>) = Done (0, rb', dm')"
    and hit: "unsafe_find tid dm' v2 cb hash life now2 hb bz ctx = Done res"
  shows "find tid t0 t1 clk dtv fd ins v1 now1 v2 now2 cb hash life hb bz rb dm ctx
     = (case res of (ret, out, ctx') \<Rightarrow> Done ((ret, out, ctx', rb', dm'), 0))"
  unfolding find_def lk(3) with_lock_free [OF lk(1,2)] miss(1) bind_outcome_simps
  using miss(2) up hit by (simp split: prod.split)

section \<open>Looking up a ring position\<close>

lemma c_div_two: "l \<le> r \<Longrightarrow> l \<le> c_div (l + r) 2 \<and> c_div (l + r) 2 \<le> r"
  by (auto simp: c_div_def sgn_if abs_if)

text \<open>
  The binary search of \<open>unsafe_find(bpf_idx)\<close> over the table indices \<open>l\<close> to \<open>r\<close>, on \<open>long\<close> values;
  \<open>None\<close> stands for \<open>ULONG_MAX\<close>.
\<close>

function bsearch :: "(int \<Rightarrow> u64) \<Rightarrow> u64 \<Rightarrow> int \<Rightarrow> int \<Rightarrow> int option" where
  "bsearch d bpf_idx l r =
     (if l \<le> r then
        let i = c_div (l + r) 2
        in if d i = bpf_idx then Some i
           else if d i < bpf_idx then bsearch d bpf_idx (i + 1) r
           else bsearch d bpf_idx l (i - 1)
      else None)"
  by pat_completeness auto

termination
  by (relation "measure (\<lambda>(d, b, l, r). nat (r - l + 1))") (use c_div_two in force)+

declare bsearch.simps [simp del]

lemma bsearch_sound: "bsearch d b l r = Some i \<Longrightarrow> d i = b \<and> l \<le> i \<and> i \<le> r"
proof (induction d b l r rule: bsearch.induct)
  case (1 d b l r)
  let ?i = "c_div (l + r) 2"
  from "1.prems" have lr: "l \<le> r" by (auto simp: bsearch.simps [of d b l r] split: if_splits)
  with "1.prems" consider "d ?i = b" "i = ?i" | "d ?i \<noteq> b" "d ?i < b" "bsearch d b (?i + 1) r = Some i"
    | "d ?i \<noteq> b" "\<not> d ?i < b" "bsearch d b l (?i - 1) = Some i"
    by (auto simp: bsearch.simps [of d b l r] Let_def split: if_splits)
  then show ?case
    using c_div_two [OF lr] "1.IH"(1) [OF lr refl] "1.IH"(2) [OF lr refl] lr by cases auto
qed

lemma bsearch_complete:
  assumes "\<And>x y. l \<le> x \<Longrightarrow> x < y \<Longrightarrow> y \<le> r \<Longrightarrow> d x \<le> d y"
    and "bsearch d b l r = None" and "l \<le> j" "j \<le> r"
  shows "d j \<noteq> b"
  using assms
proof (induction d b l r rule: bsearch.induct)
  case (1 d b l r)
  let ?i = "c_div (l + r) 2"
  have lr: "l \<le> r" using "1.prems"(3,4) by simp
  have i: "l \<le> ?i" "?i \<le> r" using c_div_two [OF lr] by simp_all
  have ne: "d ?i \<noteq> b" using "1.prems"(2) lr by (auto simp: bsearch.simps [of d b l r] Let_def)
  show ?case
  proof (cases "d ?i < b")
    case True
    then have n: "bsearch d b (?i + 1) r = None"
      using "1.prems"(2) lr ne by (simp add: bsearch.simps [of d b l r] Let_def)
    show ?thesis
    proof (cases "j \<le> ?i")
      case True
      then have "d j \<le> d ?i" using "1.prems"(1) [of j ?i] "1.prems"(3) i by (cases "j = ?i") auto
      with \<open>d ?i < b\<close> show ?thesis by auto
    next
      case False
      then show ?thesis
        using "1.IH"(1) [OF lr refl ne \<open>d ?i < b\<close> _ n] "1.prems"(1,4) i by auto
    qed
  next
    case False
    then have n: "bsearch d b l (?i - 1) = None"
      using "1.prems"(2) lr ne by (simp add: bsearch.simps [of d b l r] Let_def)
    have gt: "b < d ?i" using False ne by auto
    show ?thesis
    proof (cases "?i \<le> j")
      case True
      then have "d ?i \<le> d j" using "1.prems"(1) [of ?i j] "1.prems"(4) i by (cases "j = ?i") auto
      with gt show ?thesis by auto
    next
      case j: False
      then show ?thesis
        using "1.IH"(2) [OF lr refl ne False _ n] "1.prems"(1,3) i by auto
    qed
  qed
qed

definition unsafe_find_idx :: "datamap \<Rightarrow> u64 \<Rightarrow> int option" where
  "unsafe_find_idx dm bpf_idx =
     (let idx = int (unat (get_round_idx dm))
      in bsearch (\<lambda>i. ent_data_idx (m_entrys dm ! (nat i mod length (m_entrys dm)))) bpf_idx
           idx (idx + int (unat (m_ent_cnt dm)) - 1))"

text \<open>\<open>list_all_entrys\<close>: the lines it prints, as index and entry.\<close>

definition list_all_entrys ::
  "int \<Rightarrow> int \<Rightarrow> int \<Rightarrow> datamap \<Rightarrow> ((nat \<times> AddrEntry) list \<times> int) outcome" where
  "list_all_entrys tid t0 t1 dm =
     with_lock tid t0 t1 (dm_lock dm) (\<lambda>w.
       let sidx = unat (get_round_idx dm);
           at = (\<lambda>i. m_entrys dm ! (i mod length (m_entrys dm)))
       in Done (map (\<lambda>i. (i, at i))
            (filter (\<lambda>i. ent_hash (at i) \<noteq> 0) [sidx..<sidx + unat (m_ent_cnt dm)])))"

lemma query_batch_buffer:
  assumes "table_repr dm (log @ es @ ms)" and "locked dm"
    and ms: "ms = markers clk dtv ci (length (log @ es)) (length es) marker_types"
    and n: "n < 9" and dv: "inj dtv" and "length es + 9 \<le> length (m_entrys dm)"
    and "\<not> ci + v_bsz v < v_prod v"
    and "\<not> clk (of_nat (length (log @ es) + n)) + life * 1000000 < now"
    and bytes: "bs = batch_bytes v (dtv (marker_types ! n)) es" "length bs \<le> unat bz" "length bs < 2 ^ 31"
  shows "unsafe_find tid dm v cb (ucast (dtv (marker_types ! n))) life now True bz ctx
    = Done (int (length bs), bs, ctx)"
proof -
  have n': "n < length marker_types" using n distinct_marker_types by simp
  have "batch_bytes v (dtv (marker_types ! n)) (take n ms) = []"
    unfolding ms by (intro batch_bytes_other earlier_markers n' dv distinct_marker_types)
  then have b: "batch_bytes v (dtv (marker_types ! n)) (es @ take n ms) = bs"
    by (simp add: batch_bytes_append bytes(1))
  obtain "is" where i: "map (entry_at dm) is = map Done (es @ take n ms)"
    "unsafe_find tid dm v cb (ucast (dtv (marker_types ! n))) life now True bz ctx
      = sub_loop dm v cb True (dtv (marker_types ! n)) is bz 0 [] ctx"
    using query_batch [OF assms(1-8), of tid cb True bz ctx] by blast
  show ?thesis using sub_loop_copies [OF i(1), of v "dtv (marker_types ! n)" bz "[]" cb ctx] bytes(2,3)
    unfolding i(2) b by simp
qed

section \<open>Properties\<close>

text \<open>C1: A query for one data type of all processes whose first search misses (nothing stored,
  or only stale data) refreshes the table and returns exactly the messages of that type which the
  new batch captured, in the order of capture, and leaves the lock free and the table in the
  state the log of captured entries and batch markers describes. The batch has to fit the table
  and the caller's buffer, the ring must not have lapped the batch, the batch has to be
  younger than the lifetime, and the signed running index must not overflow.\<close>

theorem find_returns_batch:
  assumes lk: "valid_tid tid" "t1 - t0 < 5" "dm_lock dm = 0"
    and tab: "table_repr dm log" "length es + 9 \<le> length (m_entrys dm)" "length (log @ es) + 9 < 2 ^ 63"
    and rb: "b_type rb = RING_BUF_TYPE_BPF" "unat (b_bsz rb) = 2 ^ k" "b_cons rb = of_nat pos"
    and run: "0 \<le> fd" "rounds_ok (unat (b_bsz rb)) (b_map_fd rb) pos rss ins"
      "es = all_captured (unat (b_bsz rb)) clk (length log) pos rss ins"
      "ci = of_nat (pos + sum_list (map recs_space rss))"
    and miss: "unsafe_find tid (dm\<lparr>dm_lock := tid\<rparr>) v1 cb (ucast (dtv (marker_types ! n))) life now1 True bz ctx
        = Done (r, out, ctx)" "r \<le> 0"
    and q: "n < 9" "inj dtv" "v_prod v2 \<le> ci + v_bsz v2"
      "now2 \<le> clk (of_nat (length (log @ es) + n)) + life * 1000000"
    and bs: "bs = batch_bytes v2 (dtv (marker_types ! n)) es" "length bs \<le> unat bz" "length bs < 2 ^ 31"
  shows "\<exists>dm'. find tid t0 t1 clk dtv fd ins v1 now1 v2 now2 cb (ucast (dtv (marker_types ! n))) life True bz rb dm ctx
      = Done ((int (length bs), bs, ctx, rb\<lparr>b_cons := ci\<rparr>, dm'), 0)
    \<and> table_repr dm' (log @ es @ markers clk dtv ci (length (log @ es)) (length es) marker_types)"
proof -
  let ?dm = "dm\<lparr>dm_lock := tid\<rparr>"
  have t: "table_repr ?dm log" "locked ?dm"
    using tab(1) lk(1) by (auto simp: table_repr_def locked_def sane_word_def valid_tid_def)
  obtain dm' where u: "update tid clk dtv fd ins rb ?dm = Done (0, rb\<lparr>b_cons := ci\<rparr>, dm')" "locked dm'"
    "m_ent_cnt dm' = m_ent_cnt dm"
    "table_repr dm' (log @ es @ markers clk dtv ci (length (log @ es)) (length es) marker_types)"
    using update_log [OF t run(1) rb run(2) run(3,4) tab(3), of tid dtv] by auto
  have "length (m_entrys dm') = length (m_entrys dm)"
    using u(3,4) tab(1) by (simp add: table_repr_def)
  then have "unsafe_find tid dm' v2 cb (ucast (dtv (marker_types ! n))) life now2 True bz ctx
      = Done (int (length bs), bs, ctx)"
    using query_batch_buffer [OF u(4,2) refl q(1,2) _ _ _ bs] tab(2) q(3,4) by (simp add: not_less)
  then show ?thesis using find_refreshes [OF lk miss u(1)] u(4) by auto
qed

text \<open>Within the lifetime of a batch the same query is answered from the table: whatever the
  task iterator and the ring would do, they are not asked, and table and ring stay as they are.\<close>

theorem find_cached:
  assumes lk: "valid_tid tid" "t1 - t0 < 5" "dm_lock dm = 0"
    and tab: "table_repr dm (log @ es @ markers clk dtv ci (length (log @ es)) (length es) marker_types)"
      "length es + 9 \<le> length (m_entrys dm)"
    and q: "n < 9" "inj dtv" "v_prod v \<le> ci + v_bsz v"
      "now \<le> clk (of_nat (length (log @ es) + n)) + life * 1000000"
    and bs: "bs = batch_bytes v (dtv (marker_types ! n)) es" "length bs \<le> unat bz" "length bs < 2 ^ 31"
      "bs \<noteq> []"
  shows "find tid t0 t1 clk' dtv fd ins v now v2 now2 cb (ucast (dtv (marker_types ! n))) life True bz rb dm ctx
      = Done ((int (length bs), bs, ctx, rb, dm\<lparr>dm_lock := tid\<rparr>), 0)"
proof -
  let ?dm = "dm\<lparr>dm_lock := tid\<rparr>"
  have t: "table_repr ?dm (log @ es @ markers clk dtv ci (length (log @ es)) (length es) marker_types)"
    "locked ?dm" "length es + 9 \<le> length (m_entrys ?dm)"
    using tab lk(1) by (auto simp: table_repr_def locked_def sane_word_def valid_tid_def)
  have "unsafe_find tid ?dm v cb (ucast (dtv (marker_types ! n))) life now True bz ctx
      = Done (int (length bs), bs, ctx)"
    using query_batch_buffer [OF t(1,2) refl q(1,2) t(3) _ _ bs(1-3)] q(3,4) by (simp add: not_less)
  then show ?thesis using bs(4) lk(3) by (simp add: find_def with_lock_free [OF lk(1,2)])
qed

text \<open>In callback mode a query for all processes hands the caller's function exactly the
  captured messages of the queried type, in order, and stops at the first non-zero result, which
  it returns; without one it returns the number of bytes delivered.\<close>

theorem unsafe_find_callback:
  assumes "table_repr dm (log @ es @ ms)" and "locked dm"
    and ms: "ms = markers clk dtv ci (length (log @ es)) (length es) marker_types"
    and n: "n < 9" and dv: "inj dtv" and "length es + 9 \<le> length (m_entrys dm)"
    and "v_prod v \<le> ci + v_bsz v"
    and "now \<le> clk (of_nat (length (log @ es) + n)) + life * 1000000"
    and dt: "dt = dtv (marker_types ! n)" and len: "length (batch_bytes v dt es) < 2 ^ 31"
  shows "unsafe_find tid dm v (Some f) (ucast dt) life now False bz ctx
    = (case feed f (map (msg_of v) (selected dt es)) ctx of
         Inl (r, ctx') \<Rightarrow> Done (r, [], ctx')
       | Inr ctx' \<Rightarrow> Done (int (length (batch_bytes v dt es)), [], ctx'))"
proof -
  have n': "n < length marker_types" using n distinct_marker_types by simp
  have "selected dt (take n ms) = []"
    using earlier_markers [OF n' distinct_marker_types(1) dv, of clk ci "length (log @ es)" "length es"]
    by (auto simp: selected_def dt ms)
  then have s: "selected dt (es @ take n ms) = selected dt es" by (simp add: selected_def)
  then have b: "batch_bytes v dt (es @ take n ms) = batch_bytes v dt es" by (simp add: batch_bytes_def)
  obtain "is" where i: "map (entry_at dm) is = map Done (es @ take n ms)"
    "unsafe_find tid dm v (Some f) (ucast dt) life now False bz ctx
      = sub_loop dm v (Some f) False dt is bz 0 [] ctx"
    using query_batch [OF assms(1-6), of v life now tid "Some f" False bz ctx] assms(7,8) dt
    by (auto simp: not_less)
  show ?thesis using sub_loop_feeds [OF i(1), of 0 v dt f bz ctx] len
    unfolding i(2) b s add_0 by simp
qed

subsection \<open>A concrete batch\<close>

text \<open>Two STAT messages of the processes 5 and 6 are captured into a table of sixteen entries.\<close>

primrec ex_dtv :: "DataType \<Rightarrow> u32" where
  "ex_dtv PROC_PID_IO = 1"
| "ex_dtv PROC_PID_STAT = 2"
| "ex_dtv PROC_PID_traffic = 3"
| "ex_dtv PROC_PID_STATM = 4"
| "ex_dtv PROC_PID_SCHEDSTAT = 5"
| "ex_dtv PROC_PID_FD = 6"
| "ex_dtv PROC_PID_STATUS = 7"
| "ex_dtv PROC_PID_NS = 8"
| "ex_dtv PROC_PID_LOGINUID = 9"
| "ex_dtv PROC_PID_sock = 10"

lemma inj_ex_dtv: "inj ex_dtv"
proof (rule injI)
  fix x y assume "ex_dtv x = ex_dtv y"
  then show "x = y" by (cases x; cases y) simp_all
qed

definition ex_table :: datamap where
  "ex_table = \<lparr>m_entrys = replicate 16 zero_entry, m_ent_cnt = 16, m_idx = 0, dm_lock = 0\<rparr>"

definition ex_bring :: bring where
  "ex_bring = \<lparr>b_type = RING_BUF_TYPE_BPF, b_bsz = 4096, b_map_fd = 7, b_cons = 0\<rparr>"

definition ex_rounds :: "poll_in list" where
  "ex_rounds =
     [\<lparr>pi_ev = EpFd 7, pi_hdr = (\<lambda>off. if off = 0 then 48 else if off = 56 then 40 else BPF_RINGBUF_BUSY_BIT),
       pi_hd = (\<lambda>off. if off = 8 then (5, 2) else (6, 2)), pi_prod0 = 104, pi_prods = [104, 104, 104]\<rparr>,
      \<lparr>pi_ev = EpNone, pi_hdr = (\<lambda>off. 0), pi_hd = (\<lambda>off. (0, 0)), pi_prod0 = 104, pi_prods = []\<rparr>]"

definition ex_view :: "u64 \<Rightarrow> bview" where
  "ex_view prd = \<lparr>v_bsz = 4096, v_prod = prd, v_msg = (\<lambda>off. if off = 8 then [1, 2, 3] else [4, 5])\<rparr>"

lemma ex_table_repr: "table_repr ex_table []"
  by (auto simp: table_repr_def ex_table_def recent_def load_wrap_def intro!: nth_equalityI exI [of _ 4])

lemma ex_rounds_ok: "rounds_ok 4096 7 0 [[KRec 48 False, KRec 40 False]] ex_rounds"
  by (simp add: ex_rounds_def round_of_def rec_ok_def rec_space_def rec_word_def batch_end_def)

definition ex_batch :: "AddrEntry list" where
  "ex_batch =
     [\<lparr>ent_data_idx = 0, ent_hash = MK_KEY 5 2, ent_time = 1000, ent_dsz = 48\<rparr>,
      \<lparr>ent_data_idx = 56, ent_hash = MK_KEY 6 2, ent_time = 1000, ent_dsz = 40\<rparr>]"

lemma ex_batch_length: "length ex_batch = 2"
  by (simp add: ex_batch_def)

lemma ex_captured:
  "all_captured 4096 (\<lambda>i. 1000) 0 0 [[KRec 48 False, KRec 40 False]] ex_rounds = ex_batch"
  by (simp add: ex_rounds_def ex_batch_def rec_space_def rec_word_def)

lemma ex_bytes: "batch_bytes (ex_view prd) 2 ex_batch = [1, 2, 3, 4, 5]"
  by (simp add: ex_batch_def KEY_DT_MK_KEY msg_of_def buf_def ex_view_def)

lemma ex_miss: "unsafe_find 42 (ex_table\<lparr>dm_lock := 42\<rparr>) (ex_view 0) None 2 1 1000 True 64 () = Done (- ENOENT, [], ())"
proof -
  let ?dm = "ex_table\<lparr>dm_lock := 42\<rparr>"
  have r: "table_repr ?dm []" using ex_table_repr by (simp add: table_repr_def)
  have "search (ex_view 0) 2 1000000 1000 (replicate 16 zero_entry @ []) = search (ex_view 0) 2 1000000 1000 []"
    by (rule search_skips) (simp add: ex_view_def zero_entry_def)
  then show ?thesis
    using unsafe_find_search [OF r, of 42 "ex_view 0" None 2 1 1000 True 64 "()"]
    by (simp add: sane_word_def valid_tid_def recent_def ex_table_def answer_def)
qed

theorem find_returns_batch_witness:
  "\<exists>dm'. find 42 0 0 (\<lambda>i. 1000) ex_dtv 3 ex_rounds (ex_view 0) 1000 (ex_view 104) 1000 None 2 1 True 64
      ex_bring ex_table () = Done ((5, [1, 2, 3, 4, 5], (), ex_bring\<lparr>b_cons := 104\<rparr>, dm'), 0)"
  using find_returns_batch [of 42 0 0 ex_table "[]" ex_batch ex_bring 12 0 3
      "[[KRec 48 False, KRec 40 False]]" ex_rounds "\<lambda>i. 1000" 104 "ex_view 0" None ex_dtv 1 1 1000 64 "()"
      "- ENOENT" "[]" "ex_view 104" 1000 "[1, 2, 3, 4, 5]"]
    ex_table_repr ex_rounds_ok ex_captured ex_bytes ex_miss inj_ex_dtv
  by (auto simp: ex_bring_def valid_tid_def rec_space_def marker_types_def ex_batch_def ex_table_def ex_view_def)

lemma ex_updated:
  "\<exists>dm. locked dm \<and> length (m_entrys dm) = 16
     \<and> table_repr dm ([] @ ex_batch @ markers (\<lambda>i. 1000) ex_dtv 104 (length ([] @ ex_batch)) (length ex_batch) marker_types)"
proof -
  have "table_repr (ex_table\<lparr>dm_lock := 42\<rparr>) []" "locked (ex_table\<lparr>dm_lock := 42\<rparr>)"
    using ex_table_repr by (simp_all add: table_repr_def locked_def sane_word_def valid_tid_def)
  from update_log [OF this, of 3 ex_bring 12 0 "[[KRec 48 False, KRec 40 False]]" ex_rounds ex_batch "\<lambda>i. 1000" 104 42 ex_dtv]
    ex_rounds_ok ex_captured ex_batch_length
  obtain dm where "locked dm" "m_ent_cnt dm = 16"
    "table_repr dm ([] @ ex_batch @ markers (\<lambda>i. 1000) ex_dtv 104 (length ([] @ ex_batch)) (length ex_batch) marker_types)"
    by (auto simp: ex_bring_def ex_table_def rec_space_def)
  moreover from this have "length (m_entrys dm) = 16" by (simp add: table_repr_def)
  ultimately show ?thesis by blast
qed

theorem find_cached_witness:
  "\<exists>dm. find 42 0 0 (\<lambda>i. 7) ex_dtv (-1) [] (ex_view 104) 1000 (ex_view 104) 1000 None 2 1 True 64 ex_bring dm ()
      = Done ((5, [1, 2, 3, 4, 5], (), ex_bring, dm\<lparr>dm_lock := 42\<rparr>), 0)"
proof -
  obtain dm where dm: "length (m_entrys dm) = 16"
    "table_repr dm ([] @ ex_batch @ markers (\<lambda>i. 1000) ex_dtv 104 (length ([] @ ex_batch)) (length ex_batch) marker_types)"
    using ex_updated by blast
  let ?dm = "dm\<lparr>dm_lock := 0\<rparr>"
  have t: "table_repr ?dm ([] @ ex_batch @ markers (\<lambda>i. 1000) ex_dtv 104 (length ([] @ ex_batch)) (length ex_batch) marker_types)"
    using dm(2) by (simp add: table_repr_def)
  have "find 42 0 0 (\<lambda>i. 7) ex_dtv (-1) [] (ex_view 104) 1000 (ex_view 104) 1000 None
      (ucast (ex_dtv (marker_types ! 1))) 1 True 64 ex_bring ?dm ()
      = Done ((int (length [1::u8, 2, 3, 4, 5]), [1, 2, 3, 4, 5], (), ex_bring, ?dm\<lparr>dm_lock := 42\<rparr>), 0)"
    by (rule find_cached [OF _ _ _ t])
      (use dm(1) inj_ex_dtv ex_bytes in \<open>simp_all add: valid_tid_def ex_batch_def ex_view_def marker_types_def\<close>)
  then show ?thesis by (intro exI [of _ ?dm]) (simp add: marker_types_def)
qed

theorem unsafe_find_callback_witness:
  "\<exists>dm. unsafe_find 42 dm (ex_view 104) (Some (\<lambda>m seen. (0, seen @ [m]))) 2 1 1000 False 0 []
      = Done (5, [], [[1, 2, 3], [4, 5]])"
proof -
  obtain dm where dm: "locked dm" "length (m_entrys dm) = 16"
    "table_repr dm ([] @ ex_batch @ markers (\<lambda>i. 1000) ex_dtv 104 (length ([] @ ex_batch)) (length ex_batch) marker_types)"
    using ex_updated by blast
  have sel: "map (msg_of (ex_view 104)) (selected 2 ex_batch) = [[1, 2, 3], [4, 5]]"
    by (simp add: selected_def ex_batch_def KEY_DT_MK_KEY msg_of_def buf_def ex_view_def)
  have "unsafe_find 42 dm (ex_view 104) (Some (\<lambda>m seen. (0, seen @ [m]))) (ucast (2::u32)) 1 1000 False 0 []
      = (case feed (\<lambda>m seen. (0, seen @ [m])) (map (msg_of (ex_view 104)) (selected 2 ex_batch)) [] of
         Inl (r, ctx') \<Rightarrow> Done (r, [], ctx')
       | Inr ctx' \<Rightarrow> Done (int (length (batch_bytes (ex_view 104) 2 ex_batch)), [], ctx'))"
    by (rule unsafe_find_callback [OF dm(3,1) refl, of 1])
      (use dm(2) inj_ex_dtv ex_bytes in \<open>simp_all add: ex_batch_def ex_view_def marker_types_def\<close>)
  then show ?thesis unfolding sel by (intro exI [of _ dm]) (simp add: ex_bytes)
qed

lemma window_covers:
  fixes s N j :: nat
  assumes "j < N"
  obtains i where "s \<le> i" "i < s + N" "i mod N = j"
proof -
  define q r where "q = s div N" and "r = s mod N"
  have s: "s = q * N + r" and m: "r < N" using assms by (simp_all add: q_def r_def)
  define i where "i = (if r \<le> j then q * N + j else q * N + N + j)"
  have "s \<le> i" "i < s + N" unfolding i_def s using m assms by auto
  moreover have "i mod N = j" unfolding i_def using assms by (simp add: add.assoc)
  ultimately show ?thesis by (rule that)
qed

lemma bsearch_window:
  fixes mem :: "AddrEntry list"
  assumes ord: "sorted (map ent_data_idx (load_wrap mem s (length mem)))"
    and none: "bsearch (\<lambda>i. ent_data_idx (mem ! (nat i mod length mem))) b (int s) (int s + int (length mem) - 1) = None"
    and e: "e \<in> set mem"
  shows "ent_data_idx e \<noteq> b"
proof -
  let ?N = "length mem" and ?d = "\<lambda>i. ent_data_idx (mem ! (nat i mod length mem))"
  have mono: "?d x \<le> ?d y" if "int s \<le> x" "x < y" "y \<le> int s + int ?N - 1" for x y
  proof -
    have xy: "nat x - s \<le> nat y - s" "nat x - s < ?N" "nat y - s < ?N"
      "s + (nat x - s) = nat x" "s + (nat y - s) = nat y"
      using that by linarith+
    then have "map ent_data_idx (load_wrap mem s ?N) ! (nat x - s) \<le> map ent_data_idx (load_wrap mem s ?N) ! (nat y - s)"
      by (intro sorted_nth_mono [OF ord]) (simp_all add: load_wrap_def)
    with xy show ?thesis by (simp add: load_wrap_def)
  qed
  from e obtain j where j: "j < ?N" "e = mem ! j" by (auto simp: in_set_conv_nth)
  then obtain i where i: "s \<le> i" "i < s + ?N" "i mod ?N = j" using window_covers by blast
  have "?d (int i) \<noteq> b"
    by (rule bsearch_complete [of "int s" "int s + int ?N - 1" ?d, OF mono none]) (use i in auto)
  with i j show ?thesis by simp
qed

text \<open>The lookup of a ring position is right in both directions on a table whose entries are
  ordered by ring position: an index it returns lies in the window and holds that position, and
  when it reports none, no entry of the window holds it. The search always ends.\<close>

theorem unsafe_find_idx_correct:
  assumes cnt: "0 < length (m_entrys dm)" "unat (m_ent_cnt dm) = length (m_entrys dm)"
    and ord: "sorted (map ent_data_idx (load_wrap (m_entrys dm) (unat (get_round_idx dm)) (length (m_entrys dm))))"
  shows "case unsafe_find_idx dm b of
      Some i \<Rightarrow> int (unat (get_round_idx dm)) \<le> i \<and> i < int (unat (get_round_idx dm)) + int (length (m_entrys dm))
        \<and> ent_data_idx (m_entrys dm ! (nat i mod length (m_entrys dm))) = b
    | None \<Rightarrow> \<forall>e \<in> set (m_entrys dm). ent_data_idx e \<noteq> b"
proof -
  let ?N = "length (m_entrys dm)" and ?s = "unat (get_round_idx dm)"
  let ?d = "\<lambda>i. ent_data_idx (m_entrys dm ! (nat i mod ?N))"
  have run: "unsafe_find_idx dm b = bsearch ?d b (int ?s) (int ?s + int ?N - 1)"
    unfolding unsafe_find_idx_def Let_def cnt(2) ..
  show ?thesis
  proof (cases "unsafe_find_idx dm b")
    case (Some i)
    then show ?thesis using bsearch_sound [of ?d b "int ?s" "int ?s + int ?N - 1" i] run by simp
  next
    case None
    then show ?thesis using bsearch_window [OF ord] run by (auto simp del: of_nat_unat)
  qed
qed

theorem unsafe_find_idx_correct_witness:
  "case unsafe_find_idx \<lparr>m_entrys = [zero_entry\<lparr>ent_data_idx := 3\<rparr>, zero_entry\<lparr>ent_data_idx := 1\<rparr>],
        m_ent_cnt = 2, m_idx = 1, dm_lock = 0\<rparr> 3 of
      Some i \<Rightarrow> 1 \<le> i \<and> i < 3
    | None \<Rightarrow> False"
  using unsafe_find_idx_correct [of "\<lparr>m_entrys = [zero_entry\<lparr>ent_data_idx := 3\<rparr>, zero_entry\<lparr>ent_data_idx := 1\<rparr>],
        m_ent_cnt = 2, m_idx = 1, dm_lock = 0\<rparr>" 3]
  by (simp add: get_round_idx_def load_wrap_def upt_rec split: option.splits)

end
