(* ===== verification/Shared_Memory.thy ===== *)
theory Shared_Memory
  imports Spin_Lock
begin

text \<open>
  The control block \<open>SharedMemory\<close> of \<open>so/shm.cpp\<close>, which every process that uses the library
  attaches: its creation with the race of several creators, its validation and repair, and the
  per-process reference count behind \<open>operator new\<close> and \<open>operator delete\<close>. The System V
  calls are results given by the environment of a call; what the process keeps is a record.
\<close>

section \<open>The shared block and the process state\<close>

record SharedMemory =
  version :: int
  bpf_lock :: int
  bpf_ref_cnt :: int
  ring_buffer_lock :: int
  ring_buffer_ref_cnt :: int
  rdi :: u64
  wri :: u64
  data_map_lock :: int
  data_map_idx :: int
  data_map_ref_cnt :: int

abbreviation VERSION :: int where "VERSION \<equiv> 1311768467294899695"
abbreviation shm_size :: u64 where "shm_size \<equiv> 1048576"

text \<open>The block after \<open>memset(shm_ctl, 0, shm_size)\<close>.\<close>

definition zero_shm :: SharedMemory where
  "zero_shm = \<lparr>version = 0, bpf_lock = 0, bpf_ref_cnt = 0, ring_buffer_lock = 0,
     ring_buffer_ref_cnt = 0, rdi = 0, wri = 0, data_map_lock = 0, data_map_idx = 0,
     data_map_ref_cnt = 0\<rparr>"

text \<open>The pointer \<open>shm_ctl\<close>: null, the \<open>(void *)-1\<close> of a failed \<open>shmat\<close>, or a mapping.\<close>

datatype shm_ptr = NullPtr | BadPtr | Mapped

datatype shm_call = ShmDetach | ShmRemove int

record shm_proc =
  shm_id :: int
  shm_ctl :: shm_ptr
  lock_obj :: int
  proc_ref_cnt :: int
  seg :: SharedMemory
  shm_calls :: "shm_call list"

definition init_proc :: shm_proc where
  "init_proc = \<lparr>shm_id = -1, shm_ctl = NullPtr, lock_obj = 0, proc_ref_cnt = 0, seg = zero_shm,
     shm_calls = []\<rparr>"

text \<open>What the kernel and the other processes answer during one call.\<close>

datatype get_res = GetOk int | GetErr int

record shm_env =
  gets :: "(get_res \<times> get_res) list" \<comment> \<open>per pass of the retry loop: plain \<open>shmget\<close>, exclusive create\<close>
  stat_ds :: "int + (u64 \<times> int)" \<comment> \<open>\<open>IPC_STAT\<close>: segment size and owner\<close>
  attach :: "int + SharedMemory" \<comment> \<open>\<open>shmat\<close>: the block as it is found\<close>
  reread :: SharedMemory \<comment> \<open>the block when a lock word is read again\<close>
  kill_ok :: "int \<Rightarrow> bool"
  ver_reads :: "nat \<Rightarrow> int" \<comment> \<open>the version word at each read of the waiting loop\<close>
  nattch :: "nat option" \<comment> \<open>attach count that \<open>cleanup\<close> sees after its detach\<close>

section \<open>Operations\<close>

definition block_consistent :: "shm_env \<Rightarrow> SharedMemory \<Rightarrow> bool" where
  "block_consistent env b \<longleftrightarrow>
     check_consistency (kill_ok env) (data_map_lock b) (data_map_lock (reread env)) \<and>
     check_consistency (kill_ok env) (ring_buffer_lock b) (ring_buffer_lock (reread env)) \<and>
     check_consistency (kill_ok env) (bpf_lock b) (bpf_lock (reread env))"

text \<open>\<open>SharedMemory::cleanup\<close>.\<close>

definition cleanup :: "shm_env \<Rightarrow> shm_proc \<Rightarrow> shm_proc" where
  "cleanup env st =
     (let st1 = st\<lparr>proc_ref_cnt := proc_ref_cnt st - 1\<rparr>
      in if proc_ref_cnt st1 > 0 then st1
         else let st2 = st1\<lparr>proc_ref_cnt := 0\<rparr>
           in if shm_ctl st2 = NullPtr then st2
              else let st3 = st2\<lparr>shm_calls := shm_calls st2 @ [ShmDetach], shm_ctl := NullPtr\<rparr>
                in case nattch env of
                     None \<Rightarrow> st3
                   | Some n \<Rightarrow> (if n = 0
                       then st3\<lparr>shm_calls := shm_calls st3 @ [ShmRemove (shm_id st3)], shm_id := -1\<rparr>
                       else st3))"

datatype shm_get = Got int bool | GetFailed int | GetThrown int | StillRetrying

text \<open>
  The retry loop: look the segment up; when it does not exist create it exclusively; when another
  process won that race, look it up again.
\<close>

fun shm_acquire :: "bool \<Rightarrow> (get_res \<times> get_res) list \<Rightarrow> shm_get" where
  "shm_acquire created [] = (if created then GetFailed ECANCELED else StillRetrying)"
| "shm_acquire created ((plain, create) # rest) =
     (if created then GetFailed ECANCELED
      else case plain of
        GetOk i \<Rightarrow> Got i False
      | GetErr e \<Rightarrow>
          (if e \<noteq> ENOENT then GetFailed e
           else case create of
             GetOk i \<Rightarrow> Got i True
           | GetErr e' \<Rightarrow> (if e' = EEXIST then shm_acquire created rest else GetThrown e')))"

text \<open>
  The waiting loop \<open>while (*version != VERSION && timeout-- > 0) usleep(100)\<close>, from its \<open>i\<close>-th
  read on; the result is the value of \<open>timeout\<close> when it ends.
\<close>

fun wait_version :: "(nat \<Rightarrow> int) \<Rightarrow> nat \<Rightarrow> nat \<Rightarrow> int" where
  "wait_version reads i 0 = (if reads i = VERSION then 0 else -1)"
| "wait_version reads i (Suc t) =
     (if reads i = VERSION then int (Suc t) else wait_version reads (Suc i) t)"

datatype shm_result = ShmOk | ShmThrow int

definition shm_fail :: "shm_env \<Rightarrow> int \<Rightarrow> shm_proc \<Rightarrow> shm_result \<times> shm_proc" where
  "shm_fail env e st = (ShmThrow e, cleanup env st)"

text \<open>From the attached block to the end of \<open>operator new\<close>.\<close>

definition shm_validate :: "shm_env \<Rightarrow> bool \<Rightarrow> SharedMemory \<Rightarrow> shm_proc \<Rightarrow> shm_result \<times> shm_proc" where
  "shm_validate env created b st =
     (let ok = block_consistent env b;
          created' = (created \<or> \<not> ok);
          b' = (if ok then b else zero_shm)
      in if created' then (ShmOk, st\<lparr>seg := b'\<lparr>version := VERSION\<rparr>, proc_ref_cnt := 1\<rparr>)
         else if wait_version (ver_reads env) 0 100 \<le> 0 then shm_fail env ETIME (st\<lparr>seg := b'\<rparr>)
         else (ShmOk, st\<lparr>seg := b', proc_ref_cnt := 1\<rparr>))"

text \<open>The whole body. A caller that loses the race in every pass so far is still retrying, so the call does not return.\<close>

definition shm_new_body :: "shm_env \<Rightarrow> shm_proc \<Rightarrow> (shm_result \<times> shm_proc) outcome" where
  "shm_new_body env st =
     (if proc_ref_cnt st > 0 then Done (ShmOk, st\<lparr>proc_ref_cnt := proc_ref_cnt st + 1\<rparr>)
      else case shm_acquire False (gets env) of
        StillRetrying \<Rightarrow> Blocked
      | GetThrown e \<Rightarrow> Done (ShmThrow e, st\<lparr>shm_id := -1\<rparr>)
      | GetFailed e \<Rightarrow> Done (shm_fail env e (st\<lparr>shm_id := -1\<rparr>))
      | Got i created \<Rightarrow>
          (let st1 = st\<lparr>shm_id := i\<rparr>
           in Done (case stat_ds env of
             Inl e \<Rightarrow> shm_fail env e st1
           | Inr (sz, uid) \<Rightarrow>
               (if sz \<noteq> shm_size \<or> uid \<noteq> 0 then shm_fail env EEXIST st1
                else case attach env of
                  Inl e \<Rightarrow> shm_fail env e (st1\<lparr>shm_ctl := BadPtr\<rparr>)
                | Inr b \<Rightarrow> shm_validate env created b (st1\<lparr>shm_ctl := Mapped\<rparr>)))))"

text \<open>\<open>operator new\<close> and \<open>operator delete\<close>, inside the process lock.\<close>

definition SharedMemory_new ::
  "int \<Rightarrow> int \<Rightarrow> int \<Rightarrow> shm_env \<Rightarrow> shm_proc \<Rightarrow> (shm_result \<times> shm_proc) outcome" where
  "SharedMemory_new tid t0 t1 env st =
     bind_outcome (with_lock tid t0 t1 (lock_obj st) (\<lambda>w. shm_new_body env (st\<lparr>lock_obj := w\<rparr>)))
       (\<lambda>((r, st'), w). Done (r, st'\<lparr>lock_obj := w\<rparr>))"

definition SharedMemory_delete ::
  "int \<Rightarrow> int \<Rightarrow> int \<Rightarrow> shm_env \<Rightarrow> shm_proc \<Rightarrow> shm_proc outcome" where
  "SharedMemory_delete tid t0 t1 env st =
     bind_outcome (with_lock tid t0 t1 (lock_obj st) (\<lambda>w. Done (cleanup env (st\<lparr>lock_obj := w\<rparr>))))
       (\<lambda>(st', w). Done (st'\<lparr>lock_obj := w\<rparr>))"

section \<open>The retry loop and the waiting loop\<close>

lemma shm_acquire_not_canceled: "shm_acquire False xs = GetFailed e \<Longrightarrow> e = ECANCELED \<Longrightarrow>
    \<exists>p c. (p, c) \<in> set xs \<and> p = GetErr ECANCELED"
proof (induction "False" xs rule: shm_acquire.induct)
  case 1
  then show ?case by simp
next
  case (2 plain create rest)
  then show ?case
    by (fastforce split: get_res.splits if_splits)
qed

text \<open>A pass ends the loop unless the segment vanished and another process created it again.\<close>

definition lost_race :: "get_res \<times> get_res \<Rightarrow> bool" where
  "lost_race p \<longleftrightarrow> p = (GetErr ENOENT, GetErr EEXIST)"

lemma shm_acquire_pending_iff: "shm_acquire False xs = StillRetrying \<longleftrightarrow> (\<forall>p \<in> set xs. lost_race p)"
  by (induction "False" xs rule: shm_acquire.induct)
    (auto simp: lost_race_def split: get_res.splits if_splits)

lemma shm_acquire_first:
  "(\<forall>p \<in> set xs. lost_race p) \<Longrightarrow> shm_acquire False (xs @ ys) = shm_acquire False ys"
  by (induction xs) (auto simp: lost_race_def)

lemma wait_version_pos_iff: "0 < wait_version reads i t \<longleftrightarrow> (\<exists>j < t. reads (i + j) = VERSION)"
proof (induction reads i t rule: wait_version.induct)
  case (1 reads i)
  then show ?case by simp
next
  case (2 reads i t)
  show ?case
  proof (cases "reads i = VERSION")
    case True
    then show ?thesis by (auto intro: exI [of _ 0])
  next
    case False
    have "(\<exists>j < Suc t. reads (i + j) = VERSION) \<longleftrightarrow> (\<exists>j < t. reads (Suc i + j) = VERSION)"
      (is "?l = ?r")
    proof
      assume ?l
      then obtain j where "j < Suc t" "reads (i + j) = VERSION" by blast
      with False show ?r by (cases j) auto
    next
      assume ?r
      then obtain j where "j < t" "reads (Suc i + j) = VERSION" by blast
      then show ?l by (intro exI [of _ "Suc j"]) simp
    qed
    with 2 [OF False] False show ?thesis by simp
  qed
qed

section \<open>The reference count\<close>

text \<open>
  Between calls the process lock is free, the block is mapped exactly while the count is positive,
  and a failed attach leaves no pointer behind.
\<close>

definition shm_inv :: "shm_proc \<Rightarrow> bool" where
  "shm_inv st \<longleftrightarrow> 0 \<le> proc_ref_cnt st \<and> shm_ctl st \<noteq> BadPtr
     \<and> (0 < proc_ref_cnt st \<longleftrightarrow> shm_ctl st = Mapped)"

lemma shm_inv_lock [simp]: "shm_inv (st\<lparr>lock_obj := w\<rparr>) = shm_inv st"
  by (simp add: shm_inv_def)

lemma cleanup_lock [simp]: "lock_obj (cleanup env st) = lock_obj st"
  by (simp add: cleanup_def Let_def split: option.splits)

lemma cleanup_ref [simp]: "proc_ref_cnt (cleanup env st) = max 0 (proc_ref_cnt st - 1)"
  by (auto simp: cleanup_def Let_def split: option.splits)

lemma cleanup_ctl: "shm_ctl (cleanup env st) = (if proc_ref_cnt st > 1 then shm_ctl st else NullPtr)"
  by (auto simp: cleanup_def Let_def split: option.splits)

lemma cleanup_inv: "shm_inv st \<or> proc_ref_cnt st = 0 \<Longrightarrow> shm_inv (cleanup env st)"
  by (auto simp: shm_inv_def cleanup_ctl)

text \<open>A call blocks exactly if it needs the segment and loses every race for it.\<close>

lemma shm_new_body_blocked:
  "shm_new_body env st = Blocked \<longleftrightarrow> proc_ref_cnt st \<le> 0 \<and> (\<forall>p \<in> set (gets env). lost_race p)"
  by (auto simp: shm_new_body_def Let_def shm_acquire_pending_iff [symmetric] split: shm_get.splits)

lemma shm_new_body_returns:
  assumes "\<exists>p \<in> set (gets env). \<not> lost_race p"
  obtains r st' where "shm_new_body env st = Done (r, st')"
proof -
  have "shm_acquire False (gets env) \<noteq> StillRetrying" using assms by (auto simp: shm_acquire_pending_iff)
  then have "\<exists>x. shm_new_body env st = Done x" by (auto simp: shm_new_body_def Let_def split: shm_get.splits)
  then show thesis using that by auto
qed

lemma shm_new_body_inv:
  assumes "shm_inv st" "shm_new_body env st = Done (r, st')"
  shows "shm_inv st'"
proof (cases "proc_ref_cnt st > 0")
  case True
  with assms show ?thesis by (auto simp: shm_new_body_def shm_inv_def)
next
  case False
  with assms(1) have z: "proc_ref_cnt st = 0" "shm_ctl st = NullPtr"
    by (auto simp: shm_inv_def intro: shm_ptr.exhaust [of "shm_ctl st"])
  show ?thesis
    using z assms(2) by (auto simp: shm_new_body_def shm_validate_def shm_fail_def Let_def shm_inv_def cleanup_ctl
        split: shm_get.splits sum.splits prod.splits if_splits)
qed

lemma shm_new_body_ref:
  assumes "shm_inv st" and "shm_new_body env st = Done (r, st')"
  shows "proc_ref_cnt st' = (if r = ShmOk then proc_ref_cnt st + 1 else proc_ref_cnt st)
    \<and> lock_obj st' = lock_obj st"
proof (cases "proc_ref_cnt st > 0")
  case True
  with assms(2) show ?thesis by (auto simp: shm_new_body_def)
next
  case False
  with assms(1) have "proc_ref_cnt st = 0" by (simp add: shm_inv_def)
  with assms(2) show ?thesis
    by (auto simp: shm_new_body_def shm_validate_def shm_fail_def Let_def
        split: shm_get.splits sum.splits prod.splits if_splits)
qed

section \<open>Histories of a process\<close>

datatype shm_op = OpNew int int int shm_env | OpDelete int int int shm_env

text \<open>Each entry of the result is what the call returned; a delete returns nothing.\<close>

fun shm_run :: "shm_op list \<Rightarrow> shm_proc \<Rightarrow> (shm_result list \<times> shm_proc) outcome" where
  "shm_run [] st = Done ([], st)"
| "shm_run (OpNew tid t0 t1 env # ops) st =
     bind_outcome (SharedMemory_new tid t0 t1 env st) (\<lambda>(r, st').
       bind_outcome (shm_run ops st') (\<lambda>(rs, st''). Done (r # rs, st'')))"
| "shm_run (OpDelete tid t0 t1 env # ops) st =
     bind_outcome (SharedMemory_delete tid t0 t1 env st) (\<lambda>st'.
       bind_outcome (shm_run ops st') (\<lambda>(rs, st''). Done (ShmOk # rs, st'')))"

text \<open>The count a history should leave: successful news minus deletes, never below zero.\<close>

fun live_refs :: "int \<Rightarrow> shm_op list \<Rightarrow> shm_result list \<Rightarrow> int" where
  "live_refs n (OpNew tid t0 t1 env # ops) (r # rs) = live_refs (if r = ShmOk then n + 1 else n) ops rs"
| "live_refs n (OpDelete tid t0 t1 env # ops) (r # rs) = live_refs (max 0 (n - 1)) ops rs"
| "live_refs n _ _ = n"

text \<open>
  What a call needs to return: a thread that exists, fewer than five seconds under the lock (more fail an assertion in
  \<open>unlock\<close>), and for \<open>new\<close> some pass of the retry loop in which the race is not lost.
\<close>

primrec op_timely :: "shm_op \<Rightarrow> bool" where
  "op_timely (OpNew tid t0 t1 env) = (valid_tid tid \<and> t1 - t0 < 5 \<and> (\<exists>p \<in> set (gets env). \<not> lost_race p))"
| "op_timely (OpDelete tid t0 t1 env) = (valid_tid tid \<and> t1 - t0 < 5)"

lemma SharedMemory_new_ok:
  assumes "shm_inv st" "lock_obj st = 0" "valid_tid tid" "t1 - t0 < 5" "\<exists>p \<in> set (gets env). \<not> lost_race p"
  shows "\<exists>r st'. SharedMemory_new tid t0 t1 env st = Done (r, st') \<and> shm_inv st' \<and> lock_obj st' = 0
     \<and> proc_ref_cnt st' = (if r = ShmOk then proc_ref_cnt st + 1 else proc_ref_cnt st)"
proof -
  let ?s = "st\<lparr>lock_obj := tid\<rparr>"
  obtain r st' where b: "shm_new_body env ?s = Done (r, st')" using assms(5) by (rule shm_new_body_returns)
  have "shm_inv st'" using shm_new_body_inv [OF _ b] assms(1) by simp
  moreover have "proc_ref_cnt st' = (if r = ShmOk then proc_ref_cnt st + 1 else proc_ref_cnt st)"
    using shm_new_body_ref [OF _ b] assms(1) by simp
  ultimately show ?thesis
    using assms(2-4) b by (simp add: SharedMemory_new_def with_lock_free)
qed

lemma SharedMemory_delete_ok:
  assumes "shm_inv st" "lock_obj st = 0" "valid_tid tid" "t1 - t0 < 5"
  shows "\<exists>st'. SharedMemory_delete tid t0 t1 env st = Done st' \<and> shm_inv st' \<and> lock_obj st' = 0
     \<and> proc_ref_cnt st' = max 0 (proc_ref_cnt st - 1)"
  using assms by (simp add: SharedMemory_delete_def with_lock_free cleanup_inv)

lemma shm_run_ok:
  assumes "\<forall>x \<in> set ops. op_timely x" and "shm_inv st" and "lock_obj st = 0"
  shows "\<exists>rs st'. shm_run ops st = Done (rs, st') \<and> shm_inv st' \<and> lock_obj st' = 0
     \<and> proc_ref_cnt st' = live_refs (proc_ref_cnt st) ops rs"
  using assms
proof (induction ops arbitrary: st)
  case Nil
  then show ?case by simp
next
  case (Cons x ops)
  show ?case
  proof (cases x)
    case (OpNew tid t0 t1 env)
    with Cons.prems obtain r s1 where s1: "SharedMemory_new tid t0 t1 env st = Done (r, s1)"
      "shm_inv s1" "lock_obj s1 = 0"
      "proc_ref_cnt s1 = (if r = ShmOk then proc_ref_cnt st + 1 else proc_ref_cnt st)"
      using SharedMemory_new_ok [of st tid t1 t0 env] by auto
    with Cons.IH [of s1] Cons.prems(1) OpNew show ?thesis by fastforce
  next
    case (OpDelete tid t0 t1 env)
    with Cons.prems obtain s1 where s1: "SharedMemory_delete tid t0 t1 env st = Done s1"
      "shm_inv s1" "lock_obj s1 = 0" "proc_ref_cnt s1 = max 0 (proc_ref_cnt st - 1)"
      using SharedMemory_delete_ok [of st tid t1 t0 env] by auto
    with Cons.IH [of s1] Cons.prems(1) OpDelete show ?thesis by fastforce
  qed
qed

section \<open>Properties\<close>

text \<open>C4: Over every history of \<open>new\<close> and \<open>delete\<close> calls in a process, with any answers of the system calls as long as
  each \<open>new\<close> has a pass of its retry loop in which another process does not create the segment first, and calls of existing
  threads that hold the process lock for less than five seconds: each call returns, the reference count is the number of
  successful news minus deletes, the block is mapped exactly while that count is positive, and the process lock is free between
  calls. A \<open>new\<close> that loses the race in every pass does not return.\<close>

theorem shm_refcount_history:
  assumes "\<forall>x \<in> set ops. op_timely x"
  shows "\<exists>rs st'. shm_run ops init_proc = Done (rs, st') \<and> lock_obj st' = 0
     \<and> proc_ref_cnt st' = live_refs 0 ops rs \<and> (shm_ctl st' = Mapped \<longleftrightarrow> 0 < live_refs 0 ops rs)
     \<and> (\<forall>tid t0 t1 env. valid_tid tid \<and> live_refs 0 ops rs \<le> 0 \<and> (\<forall>p \<in> set (gets env). lost_race p)
         \<longrightarrow> SharedMemory_new tid t0 t1 env st' = Blocked)"
proof -
  have "shm_inv init_proc" "lock_obj init_proc = 0" "proc_ref_cnt init_proc = 0"
    by (simp_all add: shm_inv_def init_proc_def)
  with shm_run_ok [OF assms] obtain rs st' where *: "shm_run ops init_proc = Done (rs, st')" "shm_inv st'" "lock_obj st' = 0"
    "proc_ref_cnt st' = live_refs 0 ops rs" by metis
  have "SharedMemory_new tid t0 t1 env st' = Blocked"
    if "valid_tid tid" "live_refs 0 ops rs \<le> 0" "\<forall>p \<in> set (gets env). lost_race p" for tid t0 t1 env
  proof -
    have "shm_new_body env (st'\<lparr>lock_obj := tid\<rparr>) = Blocked" using that(2,3) *(4) by (simp add: shm_new_body_blocked)
    then show ?thesis using that(1) *(3) by (simp add: SharedMemory_new_def with_lock_def lock_def cas_def)
  qed
  with * show ?thesis unfolding shm_inv_def by metis
qed

definition ex_env :: shm_env where
  "ex_env = \<lparr>gets = [(GetErr ENOENT, GetErr EEXIST), (GetOk 3, GetErr EEXIST)], stat_ds = Inr (shm_size, 0),
     attach = Inr zero_shm, reread = zero_shm, kill_ok = (\<lambda>p. False),
     ver_reads = (\<lambda>i. if i < 5 then 0 else VERSION), nattch = Some 0\<rparr>"

theorem shm_refcount_history_witness:
  "\<exists>rs st'. shm_run [OpNew 42 0 0 ex_env, OpDelete 42 0 0 ex_env] init_proc = Done (rs, st') \<and> lock_obj st' = 0"
  using shm_refcount_history [of "[OpNew 42 0 0 ex_env, OpDelete 42 0 0 ex_env]"] by (auto simp: valid_tid_def ex_env_def lost_race_def)

text \<open>C9: A process that finds an existing, consistent block accepts it exactly when its
  initialisation became visible at one of the first hundred reads of the version word; otherwise
  it fails with ETIME and detaches the block again.\<close>

theorem shm_waits_for_initialisation:
  assumes "proc_ref_cnt st = 0" "shm_acquire False (gets env) = Got i False"
    "stat_ds env = Inr (shm_size, 0)" "attach env = Inr b" "block_consistent env b"
  shows "if \<exists>j < 100. ver_reads env j = VERSION
     then shm_new_body env st = Done (ShmOk, st\<lparr>shm_id := i, shm_ctl := Mapped, seg := b, proc_ref_cnt := 1\<rparr>)
     else \<exists>st'. shm_new_body env st = Done (ShmThrow ETIME, st') \<and> shm_ctl st' = NullPtr \<and> proc_ref_cnt st' = 0
       \<and> ShmDetach \<in> set (shm_calls st')"
proof -
  have w: "wait_version (ver_reads env) 0 100 \<le> 0 \<longleftrightarrow> \<not> (\<exists>j < 100. ver_reads env j = VERSION)"
    using wait_version_pos_iff [of "ver_reads env" 0 100] by (simp add: not_less [symmetric])
  show ?thesis
    using assms
    by (simp add: shm_new_body_def shm_validate_def shm_fail_def cleanup_def Let_def w split: option.splits)
qed

theorem shm_waits_for_initialisation_witness:
  "shm_new_body ex_env init_proc
     = Done (ShmOk, init_proc\<lparr>shm_id := 3, shm_ctl := Mapped, seg := zero_shm, proc_ref_cnt := 1\<rparr>)"
proof -
  have "\<exists>j < 100. ver_reads ex_env j = VERSION" by (rule exI [of _ 5]) (simp add: ex_env_def)
  then show ?thesis
    using shm_waits_for_initialisation [of init_proc ex_env 3 zero_shm]
    by (simp add: ex_env_def init_proc_def block_consistent_def check_consistency_def zero_shm_def)
qed

text \<open>A block in which a lock is held by a process that no longer exists, and stays held when
  it is read again, is reset: the caller gets a zeroed block, with the version set, in which every
  lock is free, whatever the other fields were.\<close>

theorem shm_repairs_dead_lock:
  assumes "proc_ref_cnt st = 0" "shm_acquire False (gets env) = Got i created"
    "stat_ds env = Inr (shm_size, 0)" "attach env = Inr b"
    and dead: "w \<in> {data_map_lock, ring_buffer_lock, bpf_lock}" "to_int32 (w b) \<noteq> 0"
      "\<not> kill_ok env (to_int32 (w b))" "w (reread env) \<noteq> 0"
  shows "\<exists>st'. shm_new_body env st = Done (ShmOk, st') \<and> seg st' = zero_shm\<lparr>version := VERSION\<rparr>
     \<and> proc_ref_cnt st' = 1 \<and> shm_ctl st' = Mapped"
proof -
  have "\<not> block_consistent env b"
    using dead by (auto simp: block_consistent_def check_consistency_def)
  with assms(1-4) show ?thesis
    by (simp add: shm_new_body_def shm_validate_def Let_def)
qed

theorem shm_repairs_dead_lock_witness:
  "\<exists>st'. shm_new_body (ex_env\<lparr>attach := Inr (zero_shm\<lparr>bpf_lock := 99\<rparr>), reread := zero_shm\<lparr>bpf_lock := 99\<rparr>\<rparr>) init_proc
     = Done (ShmOk, st') \<and> seg st' = zero_shm\<lparr>version := VERSION\<rparr>"
  using shm_repairs_dead_lock [of init_proc
      "ex_env\<lparr>attach := Inr (zero_shm\<lparr>bpf_lock := 99\<rparr>), reread := zero_shm\<lparr>bpf_lock := 99\<rparr>\<rparr>" 3 False
      "zero_shm\<lparr>bpf_lock := 99\<rparr>" bpf_lock]
  by (auto simp: ex_env_def init_proc_def zero_shm_def to_int32_id)

end
