(* ===== verification/Ring_Setup.thy ===== *)
theory Ring_Setup
  imports Bpf_Ring
begin

text \<open>
  Construction and destruction of \<open>RingBuffer\<close> (\<open>so/ring-buffer.cpp\<close>): both constructors release
  through the destructor what they had acquired when a later step fails. The state of an object is
  a record, the calls that release something are a list.
\<close>

record ring_obj =
  o_type :: ring_type
  o_bsz :: u64
  o_page :: u64
  o_cons :: u64
  o_prod :: u64
  o_data :: u64
  o_epoll :: int
  o_map_fd :: int
  o_shm :: bool
  o_lock :: bool
  o_mirror :: "MirrorMemory option"

datatype ring_call = RMunmap u64 u64 | RClose int | RDeleteLock | RDeleteMirror MirrorMemory | RDeleteShm

text \<open>\<open>RingBuffer::~RingBuffer\<close>: the calls it makes.\<close>

definition RingBuffer_delete :: "ring_obj \<Rightarrow> ring_call list" where
  "RingBuffer_delete ob =
     (if o_type ob = RING_BUF_TYPE_NORMAL
      then (if o_lock ob then [RDeleteLock] else [])
         @ (case o_mirror ob of None \<Rightarrow> [] | Some m \<Rightarrow> [RDeleteMirror m])
         @ (if o_shm ob then [RDeleteShm] else [])
      else (if 0 < o_cons ob then [RMunmap (o_cons ob) (o_page ob)] else [])
         @ (if 0 < o_prod ob then [RMunmap (o_prod ob) (o_page ob + 2 * o_bsz ob)] else [])
         @ (if 0 < o_epoll ob then [RClose (o_epoll ob)] else []))"

text \<open>The system calls of the BPF constructor; \<open>Inl\<close> is an errno.\<close>

record bpf_ring_env =
  e_page :: u64
  e_epoll_create :: "int + int"
  e_map_info :: "int + (bool \<times> u32)" \<comment> \<open>is a ring buffer map, \<open>max_entries\<close>\<close>
  e_mmap_cons :: "int + u64"
  e_mmap_prod :: "int + u64"
  e_epoll_add :: "int option"

definition blank_bpf :: "u64 \<Rightarrow> int \<Rightarrow> ring_obj" where
  "blank_bpf pg fd = \<lparr>o_type = RING_BUF_TYPE_BPF, o_bsz = 0, o_page = pg, o_cons = 0, o_prod = 0, o_data = 0,
     o_epoll = -1, o_map_fd = fd, o_shm = False, o_lock = False, o_mirror = None\<rparr>"

text \<open>\<open>RingBuffer::RingBuffer(int map_fd, ...)\<close>: the calls made to release, and an errno or the object.\<close>

definition RingBuffer_new_bpf :: "bpf_ring_env \<Rightarrow> int \<Rightarrow> ring_call list \<times> (int + ring_obj)" where
  "RingBuffer_new_bpf env map_fd =
     (let o0 = blank_bpf (e_page env) map_fd;
          fail = (\<lambda>e ob. (RingBuffer_delete ob, Inl e))
      in case e_epoll_create env of
        Inl e \<Rightarrow> fail e o0
      | Inr ep \<Rightarrow>
        (let o1 = o0\<lparr>o_epoll := ep\<rparr>
         in case e_map_info env of
           Inl e \<Rightarrow> fail e o1
         | Inr (is_ring, n) \<Rightarrow>
           (if \<not> is_ring then fail EINVAL o1
            else let o2 = o1\<lparr>o_bsz := ucast n\<rparr>
              in case e_mmap_cons env of
                Inl e \<Rightarrow> fail e (o2\<lparr>o_cons := MAP_FAILED\<rparr>)
              | Inr c \<Rightarrow>
                (let o3 = o2\<lparr>o_cons := c\<rparr>
                 in case e_mmap_prod env of
                   Inl e \<Rightarrow> fail e (o3\<lparr>o_prod := MAP_FAILED\<rparr>)
                 | Inr p \<Rightarrow>
                   (let o4 = o3\<lparr>o_prod := p, o_data := p + e_page env\<rparr>
                    in case e_epoll_add env of
                      Some e \<Rightarrow> fail e o4
                    | None \<Rightarrow> ([], Inr o4))))))"

text \<open>
  \<open>RingBuffer::RingBuffer(size_t bsz)\<close>. \<open>shm_ok\<close> is whether \<open>new SharedMemory\<close> returns; \<open>c0\<close> and
  \<open>p0\<close> are the indeterminate values of the two index pointers, which this constructor does not
  initialise, and the type is still 0 until the control block is attached. The key of the mirror
  memory is a 32-bit \<open>key_t\<close>.
\<close>

definition blank_normal :: "u64 \<Rightarrow> u64 \<Rightarrow> u64 \<Rightarrow> ring_obj" where
  "blank_normal pg c0 p0 = \<lparr>o_type = RING_BUF_TYPE_BPF, o_bsz = 0, o_page = pg, o_cons = c0, o_prod = p0,
     o_data = 0, o_epoll = 0, o_map_fd = 0, o_shm = False, o_lock = False, o_mirror = None\<rparr>"

definition RingBuffer_new_normal ::
  "bool \<Rightarrow> mm_sys \<Rightarrow> u64 \<Rightarrow> u64 \<Rightarrow> u64 \<Rightarrow> u64 \<Rightarrow> ring_call list \<times> mm_call list \<times> ring_obj option" where
  "RingBuffer_new_normal shm_ok sys pg c0 p0 b =
     (if \<not> shm_ok then (RingBuffer_delete (blank_normal pg c0 p0), [], None)
      else let o1 = (blank_normal pg c0 p0)\<lparr>o_shm := True, o_lock := True, o_type := RING_BUF_TYPE_NORMAL\<rparr>;
               key = to_int32 (305419896 + int (unat b))
        in case MirrorMemory_new sys b key of
          (cs, Inl f) \<Rightarrow> (RingBuffer_delete o1, cs, None)
        | (cs, Inr m) \<Rightarrow> ([], cs, Some (o1\<lparr>o_mirror := Some m, o_data := getaddr m, o_bsz := b\<rparr>)))"

text \<open>What an object built by the BPF constructor owns.\<close>

definition acquired :: "bpf_ring_env \<Rightarrow> ring_call set" where
  "acquired env =
     (case e_epoll_create env of Inl e \<Rightarrow> {} | Inr ep \<Rightarrow> {RClose ep})
     \<union> (case (e_epoll_create env, e_map_info env, e_mmap_cons env) of
          (Inr ep, Inr (True, n), Inr c) \<Rightarrow> {RMunmap c (e_page env)} | _ \<Rightarrow> {})
     \<union> (case (e_epoll_create env, e_map_info env, e_mmap_cons env, e_mmap_prod env) of
          (Inr ep, Inr (True, n), Inr c, Inr p) \<Rightarrow> {RMunmap p (e_page env + 2 * ucast n)} | _ \<Rightarrow> {})"

text \<open>Documented: \<open>mmap\<close> does not return a null mapping here, and descriptors are positive.\<close>

definition env_ok :: "bpf_ring_env \<Rightarrow> bool" where
  "env_ok env \<longleftrightarrow> (\<forall>ep. e_epoll_create env = Inr ep \<longrightarrow> 0 < ep)
     \<and> (\<forall>c. e_mmap_cons env = Inr c \<longrightarrow> 0 < c) \<and> (\<forall>p. e_mmap_prod env = Inr p \<longrightarrow> 0 < p)"

section \<open>Properties\<close>

text \<open>When the constructor of a BPF ring fails, at whatever step, everything it had acquired
  (epoll descriptor, both mappings) is released again; when it succeeds, nothing is released and
  destroying the object releases exactly what was acquired.\<close>

theorem bpf_ring_no_leak:
  assumes "env_ok env"
  shows "case RingBuffer_new_bpf env fd of
      (cs, Inl e) \<Rightarrow> acquired env \<subseteq> set cs
    | (cs, Inr ob) \<Rightarrow> cs = [] \<and> set (RingBuffer_delete ob) = acquired env"
  using assms
  by (auto simp: RingBuffer_new_bpf_def RingBuffer_delete_def blank_bpf_def acquired_def env_ok_def Let_def
      split: sum.split option.split prod.split)

definition ex_ring_env :: bpf_ring_env where
  "ex_ring_env = \<lparr>e_page = 4096, e_epoll_create = Inr 6, e_map_info = Inr (True, 65536),
     e_mmap_cons = Inr 81920, e_mmap_prod = Inl ENOMEM, e_epoll_add = None\<rparr>"

theorem bpf_ring_no_leak_witness:
  "{RClose 6, RMunmap 81920 4096} \<subseteq> set (fst (RingBuffer_new_bpf ex_ring_env 5))
     \<and> snd (RingBuffer_new_bpf ex_ring_env 5) = Inl ENOMEM"
proof -
  have "env_ok ex_ring_env" by (simp add: env_ok_def ex_ring_env_def)
  moreover have "snd (RingBuffer_new_bpf ex_ring_env 5) = Inl ENOMEM"
    by (simp add: RingBuffer_new_bpf_def ex_ring_env_def Let_def)
  moreover have "acquired ex_ring_env = {RClose 6, RMunmap 81920 4096}"
    by (auto simp: acquired_def ex_ring_env_def)
  ultimately show ?thesis
    using bpf_ring_no_leak [of ex_ring_env 5] by (auto split: prod.splits)
qed

text \<open>
  The other constructor: when attaching the control block fails, the type of the object is still
  that of a BPF ring, so the destructor unmaps whatever the uninitialised pointers hold.
\<close>

lemma normal_ring_unmaps_garbage:
  "0 < c0 \<Longrightarrow> RMunmap c0 pg \<in> set (fst (RingBuffer_new_normal False sys pg c0 p0 b))"
  by (simp add: RingBuffer_new_normal_def RingBuffer_delete_def blank_normal_def)

text \<open>When the mirror memory cannot be built, lock and control block are released, and nothing else.\<close>

lemma normal_ring_mirror_fails:
  assumes "MirrorMemory_new sys b (to_int32 (305419896 + int (unat b))) = (cs, Inl f)"
  shows "RingBuffer_new_normal True sys pg c0 p0 b = ([RDeleteLock, RDeleteShm], cs, None)"
  using assms by (simp add: RingBuffer_new_normal_def RingBuffer_delete_def blank_normal_def Let_def)

end
