(* ===== verification/C_Strings.thy ===== *)
theory C_Strings
  imports Dk_Prelude
begin

text \<open>
  The functions of the C and C++ libraries that the parsers of the sources call: character
  classes, \<open>std::getline\<close>, \<open>fgets\<close>, extraction of a word with \<open>operator>>\<close>, and the number scanners
  \<open>strtol\<close> and \<open>strtoul\<close> in base ten and the hexadecimal digits. Strings are lists of characters without the final NUL.
\<close>

section \<open>Characters\<close>

definition is_space :: "char \<Rightarrow> bool" where
  "is_space c \<longleftrightarrow> c = CHR '' '' \<or> c = CHR 0x09 \<or> c = CHR 0x0A \<or> c = CHR 0x0B \<or> c = CHR 0x0C \<or> c = CHR 0x0D"

definition is_digit :: "char \<Rightarrow> bool" where
  "is_digit c \<longleftrightarrow> 48 \<le> (of_char c :: nat) \<and> (of_char c :: nat) \<le> 57"

definition digit_val :: "char \<Rightarrow> nat" where
  "digit_val c = of_char c - 48"

definition to_lower :: "char \<Rightarrow> char" where
  "to_lower c = (if 65 \<le> (of_char c :: nat) \<and> (of_char c :: nat) \<le> 90 then char_of (of_char c + 32 :: nat) else c)"

abbreviation NL :: char where "NL \<equiv> CHR 0x0A"

section \<open>Lines and words\<close>

text \<open>\<open>while (std::getline(in, line))\<close>: a last line without a newline counts if it is not empty.\<close>

fun getlines_from :: "string \<Rightarrow> string \<Rightarrow> string list" where
  "getlines_from cur [] = (if cur = [] then [] else [cur])"
| "getlines_from cur (c # s) = (if c = NL then cur # getlines_from [] s else getlines_from (cur @ [c]) s)"

definition getlines :: "string \<Rightarrow> string list" where
  "getlines s = getlines_from [] s"

text \<open>\<open>ss >> word\<close>: skip white space, then take characters up to the next white space.\<close>

definition read_word :: "string \<Rightarrow> (string \<times> string) option" where
  "read_word s =
     (let t = dropWhile is_space s; w = takeWhile (\<lambda>c. \<not> is_space c) t
      in if w = [] then None else Some (w, dropWhile (\<lambda>c. \<not> is_space c) t))"

text \<open>A word: not empty and free of white space.\<close>

definition is_word :: "string \<Rightarrow> bool" where
  "is_word w \<longleftrightarrow> w \<noteq> [] \<and> (\<forall>c \<in> set w. \<not> is_space c)"

lemma is_space_simps [simp]: "is_space CHR '' ''" "is_space NL" "is_space CHR 0x09"
  by (simp_all add: is_space_def)

lemma read_word_word: "read_word s = Some (w, r) \<Longrightarrow> is_word w"
  by (auto simp: read_word_def is_word_def Let_def split: if_splits dest: set_takeWhileD)

lemma is_word_head: "is_word w \<Longrightarrow> \<exists>c cs. w = c # cs \<and> \<not> is_space c"
  by (cases w) (auto simp: is_word_def)

lemma read_word_exact:
  assumes "is_word w" and "r = [] \<or> is_space (hd r)"
  shows "read_word (w @ r) = Some (w, r)"
proof -
  have nosp: "\<forall>c \<in> set w. \<not> is_space c" and ne: "w \<noteq> []" using assms(1) by (auto simp: is_word_def)
  have d: "dropWhile is_space (w @ r) = w @ r"
    using is_word_head [OF assms(1)] by auto
  have t: "takeWhile (\<lambda>c. \<not> is_space c) (w @ r) = w" "dropWhile (\<lambda>c. \<not> is_space c) (w @ r) = r"
    using nosp assms(2) by (cases r; simp add: takeWhile_append2 dropWhile_append2)+
  show ?thesis using d t ne by (simp add: read_word_def Let_def)
qed

lemma read_word_skip: "is_space c \<Longrightarrow> read_word (c # s) = read_word s"
  by (simp add: read_word_def)

lemma getlines_from_line: "NL \<notin> set l \<Longrightarrow> getlines_from cur (l @ NL # s) = (cur @ l) # getlines_from [] s"
  by (induction l arbitrary: cur) auto

lemma getlines_Nil [simp]: "getlines [] = []"
  by (simp add: getlines_def)

lemma getlines_line: "NL \<notin> set l \<Longrightarrow> getlines (l @ NL # s) = l # getlines s"
  by (simp add: getlines_def getlines_from_line)

section \<open>Numbers\<close>

primrec digits_val :: "nat \<Rightarrow> string \<Rightarrow> nat" where
  "digits_val acc [] = acc"
| "digits_val acc (c # cs) = digits_val (acc * 10 + digit_val c) cs"

text \<open>
  What \<open>strtol\<close> and \<open>strtoul\<close> share: white space, an optional sign and the digits. Without a digit
  nothing is converted and \<open>endptr\<close> is the start of the string.
\<close>

definition scan_number :: "string \<Rightarrow> (bool \<times> nat \<times> string) option" where
  "scan_number s =
     (let t = dropWhile is_space s;
          neg = (t \<noteq> [] \<and> hd t = CHR ''-'');
          u = (if t \<noteq> [] \<and> (hd t = CHR ''-'' \<or> hd t = CHR ''+'') then tl t else t);
          ds = takeWhile is_digit u
      in if ds = [] then None else Some (neg, digits_val 0 ds, dropWhile is_digit u))"

text \<open>\<open>strtol(s, &end, 10)\<close>: value, rest of the string, and whether \<open>errno\<close> is set to ERANGE.\<close>

definition strtol10 :: "string \<Rightarrow> int \<times> string \<times> bool" where
  "strtol10 s =
     (case scan_number s of
        None \<Rightarrow> (0, s, False)
      | Some (neg, n, r) \<Rightarrow>
          (let v = (if neg then - int n else int n)
           in if v > INT64_MAX then (INT64_MAX, r, True)
              else if v < INT64_MIN then (INT64_MIN, r, True)
              else (v, r, False)))"

text \<open>\<open>atoi\<close>: \<open>strtol\<close> cut to 32 bits.\<close>

definition atoi :: "string \<Rightarrow> int" where
  "atoi s = (case strtol10 s of (v, r, erange) \<Rightarrow> to_int32 v)"

text \<open>\<open>strtoul(s, &end, 10)\<close>: a minus sign negates the value in the unsigned type.\<close>

definition strtoul10 :: "string \<Rightarrow> u64 \<times> string \<times> bool" where
  "strtoul10 s =
     (case scan_number s of
        None \<Rightarrow> (0, s, False)
      | Some (neg, n, r) \<Rightarrow>
          (if n > UINT64_MAX_nat then (UINT64_MAX, r, True)
           else (if neg then - of_nat n else of_nat n, r, False)))"

definition digit_char :: "nat \<Rightarrow> char" where
  "digit_char d = char_of (48 + d)"

text \<open>Decimal notation, as \<open>%lu\<close> prints it.\<close>

fun show_nat :: "nat \<Rightarrow> string" where
  "show_nat n = (if n < 10 then [digit_char n] else show_nat (n div 10) @ [digit_char (n mod 10)])"

declare show_nat.simps [simp del]

text \<open>\<open>%d\<close>.\<close>

definition show_int :: "int \<Rightarrow> string" where
  "show_int i = (if i < 0 then CHR ''-'' # show_nat (nat (- i)) else show_nat (nat i))"

definition hex_char :: "nat \<Rightarrow> char" where
  "hex_char d = (if d < 10 then digit_char d else char_of (87 + d))"

text \<open>\<open>%x\<close>.\<close>

fun show_hex :: "nat \<Rightarrow> string" where
  "show_hex n = (if n < 16 then [hex_char n] else show_hex (n div 16) @ [hex_char (n mod 16)])"

declare show_hex.simps [simp del]

lemma digit_char_simps [simp]:
  assumes "d < 10"
  shows "is_digit (digit_char d)" "digit_val (digit_char d) = d" "\<not> is_space (digit_char d)"
    "digit_char d \<noteq> CHR ''-''" "digit_char d \<noteq> CHR ''+''"
proof -
  have o: "of_char (digit_char d) = 48 + d" using assms by (simp add: digit_char_def)
  then show "is_digit (digit_char d)" "digit_val (digit_char d) = d" using assms
    by (simp_all add: is_digit_def digit_val_def)
  have "of_char (digit_char d) \<noteq> (of_char c :: nat)" if "of_char c < (48::nat)" for c using o that by simp
  then have ne: "digit_char d \<noteq> c" if "of_char c < (48::nat)" for c using that by metis
  show "\<not> is_space (digit_char d)" "digit_char d \<noteq> CHR ''-''" "digit_char d \<noteq> CHR ''+''"
    using ne by (auto simp: is_space_def)
qed

lemma digits_val_append: "digits_val acc (xs @ ys) = digits_val (digits_val acc xs) ys"
  by (induction xs arbitrary: acc) simp_all

lemma show_nat_props: "show_nat n \<noteq> [] \<and> (\<forall>c \<in> set (show_nat n). is_digit c) \<and> digits_val 0 (show_nat n) = n
    \<and> (\<exists>d < 10. hd (show_nat n) = digit_char d)"
proof (induction n rule: show_nat.induct)
  case (1 n)
  show ?case
  proof (cases "n < 10")
    case True
    then show ?thesis by (auto simp: show_nat.simps [of n])
  next
    case False
    with 1 show ?thesis by (auto simp: show_nat.simps [of n] digits_val_append)
  qed
qed

lemma scan_show_nat:
  assumes "r = [] \<or> \<not> is_digit (hd r)"
  shows "scan_number (show_nat n @ r) = Some (False, n, r)"
proof -
  have p: "show_nat n \<noteq> []" "\<forall>c \<in> set (show_nat n). is_digit c" "digits_val 0 (show_nat n) = n"
    using show_nat_props [of n] by auto
  obtain d where d: "d < 10" "hd (show_nat n) = digit_char d" using show_nat_props [of n] by auto
  obtain cs where cs: "show_nat n = digit_char d # cs" using p(1) d(2) by (cases "show_nat n") auto
  have t: "takeWhile is_digit (show_nat n @ r) = show_nat n" "dropWhile is_digit (show_nat n @ r) = r"
    using p(2) assms by (cases r; simp add: takeWhile_append2 dropWhile_append2)+
  have "dropWhile is_space (show_nat n @ r) = show_nat n @ r" using cs d(1) by simp
  moreover have "hd (show_nat n @ r) \<noteq> CHR ''-''" "hd (show_nat n @ r) \<noteq> CHR ''+''" using cs d(1) by simp_all
  ultimately show ?thesis using t p(1,3) by (simp add: scan_number_def Let_def)
qed

section \<open>Hexadecimal digits\<close>

definition is_hex :: "char \<Rightarrow> bool" where
  "is_hex c \<longleftrightarrow> is_digit c \<or> (let n = of_char (to_lower c) in (97::nat) \<le> n \<and> n \<le> 102)"

definition hex_val :: "char \<Rightarrow> nat" where
  "hex_val c = (if is_digit c then digit_val c else of_char (to_lower c) - 87)"

primrec hexs_val :: "nat \<Rightarrow> string \<Rightarrow> nat" where
  "hexs_val acc [] = acc"
| "hexs_val acc (c # cs) = hexs_val (acc * 16 + hex_val c) cs"

lemma hex_char_simps:
  assumes "d < 16"
  shows "is_hex (hex_char d)" "hex_val (hex_char d) = d" "\<not> is_space (hex_char d)"
    "to_lower (hex_char d) \<noteq> CHR ''x''" "hex_char d \<noteq> CHR ''-''" "hex_char d \<noteq> CHR ''+''"
proof -
  have code: "of_char (hex_char d) = (if d < 10 then 48 + d else 87 + d)"
    using assms by (simp add: hex_char_def digit_char_def)
  then have low: "to_lower (hex_char d) = hex_char d" using assms by (simp add: to_lower_def)
  have dig: "is_digit (hex_char d) = (d < 10)" using code assms by (simp add: is_digit_def)
  show "is_hex (hex_char d)" "hex_val (hex_char d) = d"
    using code low dig assms by (simp_all add: is_hex_def hex_val_def digit_val_def Let_def)
  have ne: "hex_char d \<noteq> c" if "of_char c \<notin> {48..<58::nat}" "of_char c \<notin> {97..<103::nat}" for c
  proof
    assume "hex_char d = c"
    then show False using that code assms by (auto split: if_split_asm)
  qed
  show "\<not> is_space (hex_char d)" using ne by (auto simp: is_space_def)
  show "to_lower (hex_char d) \<noteq> CHR ''x''" using ne low by simp
  show "hex_char d \<noteq> CHR ''-''" "hex_char d \<noteq> CHR ''+''" using ne by simp_all
qed

lemma hexs_val_append: "hexs_val acc (xs @ ys) = hexs_val (hexs_val acc xs) ys"
  by (induction xs arbitrary: acc) simp_all

definition hex_digits :: "string \<Rightarrow> bool" where
  "hex_digits s \<longleftrightarrow> s \<noteq> [] \<and> (\<forall>c \<in> set s. \<exists>d < 16. c = hex_char d)"

lemma show_hex_props: "hex_digits (show_hex n) \<and> hexs_val 0 (show_hex n) = n"
proof (induction n rule: show_hex.induct)
  case (1 n)
  show ?case
  proof (cases "n < 16")
    case True
    then show ?thesis by (auto simp: show_hex.simps [of n] hex_digits_def hex_char_simps)
  next
    case False
    have "\<exists>d < 16. hex_char (n mod 16) = hex_char d" by (intro exI [of _ "n mod 16"]) simp
    with 1 False show ?thesis
      by (auto simp: show_hex.simps [of n] hexs_val_append hex_digits_def hex_char_simps)
  qed
qed

section \<open>Lines into a buffer\<close>

abbreviation NUL :: char where "NUL \<equiv> CHR 0x00"

text \<open>\<open>fgets\<close> with a buffer of \<open>n + 1\<close> bytes: up to and with the newline, at most \<open>n\<close> characters.\<close>

fun fgets_chunks :: "nat \<Rightarrow> string \<Rightarrow> string \<Rightarrow> string list" where
  "fgets_chunks n cur [] = (if cur = [] then [] else [cur])"
| "fgets_chunks n cur (c # s) =
     (if c = NL \<or> length cur + 1 = n then (cur @ [c]) # fgets_chunks n [] s else fgets_chunks n (cur @ [c]) s)"

lemma fgets_line:
  assumes "NL \<notin> set l" "length cur + length l + 1 \<le> n"
  shows "fgets_chunks n cur (l @ NL # t) = (cur @ l @ [NL]) # fgets_chunks n [] t"
  using assms by (induction l arbitrary: cur) auto

end
