(* ===== verification/Bpf_Manager.thy ===== *)
theory Bpf_Manager
  imports Shared_Memory C_Strings
begin

text \<open>
  The owner of the BPF program that fills the ring, \<open>so/bpf-manager.cpp\<close>. The first process loads
  the program and pins its maps, programs and links under one directory, the others attach to the
  pinned objects; a count in the shared block says how many users there are, and the last one
  removes the directory. libbpf and the kernel are parameters.
\<close>

abbreviation PIN_PATH :: string where "PIN_PATH \<equiv> ''/sys/fs/bpf/dkapture''"

section \<open>Finding the pinned objects\<close>

text \<open>What one pass of the loop over map ids meets.\<close>

datatype fd_probe = FdErr int | InfoErr int int | InfoName int string
datatype map_probe = NextErr int | NextId u32 fd_probe

text \<open>The loop of \<open>bpf_find_map\<close>: result, id of the map found, descriptors closed on the way.\<close>

fun find_map_loop :: "string \<Rightarrow> map_probe list \<Rightarrow> int list \<Rightarrow> (int \<times> u32 option \<times> int list) outcome" where
  "find_map_loop nm [] closed = Blocked"
| "find_map_loop nm (NextErr e # ps) closed = Done (- e, None, closed)"
| "find_map_loop nm (NextId i (FdErr e) # ps) closed =
     (if e = ENOENT then find_map_loop nm ps closed else Done (- e, None, closed))"
| "find_map_loop nm (NextId i (InfoErr fd e) # ps) closed = Done (- e, None, closed @ [fd])"
| "find_map_loop nm (NextId i (InfoName fd n) # ps) closed =
     (if n = nm then Done (fd, Some i, closed) else find_map_loop nm ps (closed @ [fd]))"

definition bpf_find_map ::
  "(string \<Rightarrow> bool) \<Rightarrow> map_probe list \<Rightarrow> string \<Rightarrow> (int \<times> u32 option \<times> int list) outcome" where
  "bpf_find_map exists probes nm =
     (if \<not> exists (PIN_PATH @ ''/map-'' @ nm) then Done (- ENOENT, None, [])
      else find_map_loop nm probes [])"

definition bpf_find_iter :: "(string \<Rightarrow> bool) \<Rightarrow> string \<Rightarrow> string" where
  "bpf_find_iter exists nm =
     (let path = PIN_PATH @ ''/link-'' @ nm in if \<not> exists path then [] else path)"

section \<open>Pinning\<close>

text \<open>
  The pinned paths are a list; \<open>pin path\<close> is libbpf's answer, 0 or an error. \<open>bpf_pin_links\<close> over
  the programs of the skeleton, each with its name and whether it has a link.
\<close>

definition unpin :: "string \<Rightarrow> string list \<Rightarrow> string list" where
  "unpin path fs = filter (\<lambda>f. f \<noteq> path) fs"

fun pin_links_loop ::
  "(string \<Rightarrow> int) \<Rightarrow> string \<Rightarrow> (string \<times> bool) list \<Rightarrow> string list \<Rightarrow> string list \<Rightarrow> int \<times> string list" where
  "pin_links_loop pin dir [] links fs = (0, fs)"
| "pin_links_loop pin dir ((nm, has_link) # ps) links fs =
     (if \<not> has_link then pin_links_loop pin dir ps links fs
      else let path = dir @ ''/link-'' @ nm; err = pin path
        in if err \<noteq> 0 then (err, fold unpin links fs)
           else pin_links_loop pin dir ps (links @ [path]) (path # fs))"

definition bpf_pin_links ::
  "(string \<Rightarrow> int) \<Rightarrow> string \<Rightarrow> (string \<times> bool) list \<Rightarrow> string list \<Rightarrow> int \<times> string list" where
  "bpf_pin_links pin dir progs fs = pin_links_loop pin dir progs [] fs"

text \<open>
  \<open>bpf_pin_programs\<close>: each program with its name, whether it is loaded automatically and whether it
  has a descriptor. On an error the programs before the failing one are unpinned, last first, also
  those that were skipped.
\<close>

type_synonym bprog = "string \<times> bool \<times> bool"

fun pin_programs_loop ::
  "(string \<Rightarrow> int) \<Rightarrow> string \<Rightarrow> bprog list \<Rightarrow> bprog list \<Rightarrow> string list \<Rightarrow> int \<times> string list" where
  "pin_programs_loop pin path [] before fs = (0, fs)"
| "pin_programs_loop pin path ((nm, autoload, has_fd) # ps) before fs =
     (if \<not> autoload \<and> \<not> has_fd then pin_programs_loop pin path ps ((nm, autoload, has_fd) # before) fs
      else let f = path @ ''/'' @ nm; err = pin f
        in if err \<noteq> 0 then (err, fold (\<lambda>p. unpin (path @ ''/'' @ fst p)) before fs)
           else pin_programs_loop pin path ps ((nm, autoload, has_fd) # before) (f # fs))"

definition bpf_pin_programs ::
  "(string \<Rightarrow> int) \<Rightarrow> string \<Rightarrow> bprog list \<Rightarrow> string list \<Rightarrow> int \<times> string list" where
  "bpf_pin_programs pin path progs fs = pin_programs_loop pin path progs [] fs"

section \<open>Construction and destruction\<close>

text \<open>The state all processes share: the pin directory, the user count and the lock word.\<close>

record bpf_shared =
  pin_dir :: "string list"
  ref_cnt :: int
  bm_lock :: int

text \<open>A manager object: the descriptor of the ring map, its own object or a path to the iterator.\<close>

record bpf_mgr =
  mg_map_fd :: int
  mg_own :: bool
  mg_iter_path :: string
  mg_dump_path :: string

text \<open>
  What the kernel and libbpf answer: the map ids, loading (whether an object is returned),
  attaching, pinning the maps (error, or the paths that are pinned), pinning a path, the
  descriptor of the ring map, the errno left by \<open>access\<close>.
\<close>

record bpf_env =
  be_probes :: "map_probe list"
  be_load :: bool
  be_attach :: int
  be_pin_maps :: "int + string list"
  be_pin :: "string \<Rightarrow> int"
  be_progs :: "bprog list"
  be_links :: "(string \<times> bool) list"
  be_map_fd :: int

text \<open>The critical section of the constructor: an error code or the object.\<close>

definition bm_attach :: "int \<Rightarrow> bpf_shared \<Rightarrow> (int + bpf_mgr) \<times> bpf_shared" where
  "bm_attach fd s =
     (let p = bpf_find_iter (\<lambda>f. f \<in> set (pin_dir s)) ''dump_task''
      in if p = [] then (Inl ENOENT, s)
         else (Inr \<lparr>mg_map_fd = fd, mg_own = False, mg_iter_path = p, mg_dump_path = []\<rparr>,
               s\<lparr>ref_cnt := ref_cnt s + 1\<rparr>))"

definition bm_create :: "bpf_env \<Rightarrow> bpf_shared \<Rightarrow> (int + bpf_mgr) \<times> bpf_shared" where
  "bm_create env s =
     (if \<not> be_load env then (Inl 0, s)
      else if be_attach env \<noteq> 0 then (Inl (- be_attach env), s)
      else case be_pin_maps env of
        Inl e \<Rightarrow> (Inl (- e), s)
      | Inr ms \<Rightarrow>
        (case bpf_pin_programs (be_pin env) PIN_PATH (be_progs env) (ms @ pin_dir s) of (e1, fs1) \<Rightarrow>
           if e1 \<noteq> 0 then (Inl (- e1), s\<lparr>pin_dir := fs1\<rparr>)
           else case bpf_pin_links (be_pin env) PIN_PATH (be_links env) fs1 of (e2, fs2) \<Rightarrow>
             if e2 \<noteq> 0 \<or> be_map_fd env < 0 then (Inl 0, s\<lparr>pin_dir := fs2\<rparr>)
             else (Inr \<lparr>mg_map_fd = be_map_fd env, mg_own = True, mg_iter_path = [], mg_dump_path = []\<rparr>,
                   s\<lparr>pin_dir := fs2, ref_cnt := ref_cnt s + 1\<rparr>)))"

definition bm_new_body :: "bpf_env \<Rightarrow> bpf_shared \<Rightarrow> ((int + bpf_mgr) \<times> bpf_shared) outcome" where
  "bm_new_body env s =
     bind_outcome (bpf_find_map (\<lambda>f. f \<in> set (pin_dir s)) (be_probes env) ''dk_shared_mem'')
       (\<lambda>(fd, i, closed). Done (if 0 \<le> fd then bm_attach fd s else bm_create env s))"

text \<open>\<open>BPFManager::BPFManager\<close>, once the shared block is there.\<close>

definition BPFManager_new ::
  "int \<Rightarrow> int \<Rightarrow> int \<Rightarrow> bpf_env \<Rightarrow> bpf_shared \<Rightarrow> ((int + bpf_mgr) \<times> bpf_shared) outcome" where
  "BPFManager_new tid t0 t1 env s =
     bind_outcome (with_lock tid t0 t1 (bm_lock s) (\<lambda>w. bm_new_body env (s\<lparr>bm_lock := w\<rparr>)))
       (\<lambda>((r, s'), w). Done (r, s'\<lparr>bm_lock := w\<rparr>))"

text \<open>
  \<open>BPFManager::~BPFManager\<close>: detaching and closing concern the object itself. \<open>rm\<close> is \<open>None\<close> if the pin directory cannot
  be opened, and otherwise says of each entry whether \<open>unlink\<close> removes it; errors are not looked at.
\<close>

definition bm_release :: "(string \<Rightarrow> bool) option \<Rightarrow> bpf_shared \<Rightarrow> bpf_shared" where
  "bm_release rm s =
     (let n = ref_cnt s - 1
      in if n \<le> 0 then s\<lparr>ref_cnt := 0,
             pin_dir := (case rm of None \<Rightarrow> pin_dir s | Some unlink \<Rightarrow> filter (\<lambda>f. \<not> unlink f) (pin_dir s))\<rparr>
         else s\<lparr>ref_cnt := n\<rparr>)"

definition BPFManager_delete :: "int \<Rightarrow> int \<Rightarrow> int \<Rightarrow> (string \<Rightarrow> bool) option \<Rightarrow> bpf_shared \<Rightarrow> bpf_shared outcome" where
  "BPFManager_delete tid t0 t1 rm s =
     bind_outcome (with_lock tid t0 t1 (bm_lock s) (\<lambda>w. Done (bm_release rm (s\<lparr>bm_lock := w\<rparr>))))
       (\<lambda>(s', w). Done (s'\<lparr>bm_lock := w\<rparr>))"

text \<open>
  \<open>dump_task_file\<close>: \<open>iter_fd\<close> is the iterator of the own object, \<open>open_path\<close> opening a path, \<open>reads\<close>
  the results of the reads that make the iterator run; it returns 0 unless there is no descriptor.
\<close>

fun run_reads :: "int list \<Rightarrow> int outcome" where
  "run_reads [] = Blocked"
| "run_reads (n # ns) = (if 0 < n then run_reads ns else Done n)"

definition dump_task_file :: "int \<Rightarrow> (string \<Rightarrow> int) \<Rightarrow> int list \<Rightarrow> bpf_mgr \<Rightarrow> int outcome" where
  "dump_task_file iter_fd open_path reads m =
     (let fd = (if mg_own m then iter_fd else open_path (mg_dump_path m))
      in if fd < 0 then Done (-1) else bind_outcome (run_reads reads) (\<lambda>r. Done 0))"

section \<open>Lemmas\<close>

lemma set_fold_unpin: "set (fold unpin ps fs) = set fs - set ps"
  by (induction ps arbitrary: fs) (auto simp: unpin_def)

lemma fold_unpin_append:
  assumes "set ps \<inter> set fs = {}"
  shows "fold unpin ps (xs @ fs) = fold unpin ps xs @ fs"
  using assms
proof (induction ps arbitrary: xs)
  case Nil
  then show ?case by simp
next
  case (Cons p ps)
  then have "filter (\<lambda>f. f \<noteq> p) fs = fs" by (auto simp: filter_id_conv)
  with Cons show ?case by (simp add: unpin_def)
qed

lemma fold_unpin_all: "set xs \<subseteq> set ps \<Longrightarrow> fold unpin ps xs = []"
  using set_fold_unpin [of ps xs] by (metis Diff_eq_empty_iff set_empty)

text \<open>The paths that are pinned for a list of links.\<close>

definition link_paths :: "string \<Rightarrow> (string \<times> bool) list \<Rightarrow> string list" where
  "link_paths dir ps = map (\<lambda>p. dir @ ''/link-'' @ fst p) (filter snd ps)"

lemma pin_links_loop_spec:
  assumes "set links \<inter> set fs = {}" and "set (link_paths dir ps) \<inter> set fs = {}"
    and "\<forall>f \<in> set xs. f \<in> set links"
  shows "pin_links_loop pin dir ps links (xs @ fs) =
     (case List.find (\<lambda>f. pin f \<noteq> 0) (link_paths dir ps) of
        None \<Rightarrow> (0, rev (link_paths dir ps) @ xs @ fs)
      | Some f \<Rightarrow> (pin f, fs))"
  using assms
proof (induction ps arbitrary: links xs)
  case Nil
  then show ?case by (simp add: link_paths_def)
next
  case (Cons p ps)
  obtain nm hl where p: "p = (nm, hl)" by (cases p)
  let ?f = "dir @ ''/link-'' @ nm"
  show ?case
  proof (cases hl)
    case False
    then have "link_paths dir (p # ps) = link_paths dir ps" using p by (simp add: link_paths_def)
    with False Cons p show ?thesis by (simp cong: option.case_cong)
  next
    case True
    have lp: "link_paths dir (p # ps) = ?f # link_paths dir ps" using True p by (simp add: link_paths_def)
    have ff: "?f \<notin> set fs" "set (link_paths dir ps) \<inter> set fs = {}" using Cons.prems(2) lp by auto
    show ?thesis
    proof (cases "pin ?f = 0")
      case False
      have "fold unpin links (xs @ fs) = fs"
        using fold_unpin_append [OF Cons.prems(1)] fold_unpin_all [of xs links] Cons.prems(3) by auto
      with False True p lp show ?thesis by simp
    next
      case pin0: True
      have "pin_links_loop pin dir ps (links @ [?f]) ((?f # xs) @ fs) =
         (case List.find (\<lambda>f. pin f \<noteq> 0) (link_paths dir ps) of
            None \<Rightarrow> (0, rev (link_paths dir ps) @ (?f # xs) @ fs) | Some f \<Rightarrow> (pin f, fs))"
        using Cons.prems ff by (intro Cons.IH) auto
      with pin0 True p lp show ?thesis by (auto cong: option.case_cong)
    qed
  qed
qed

text \<open>The same for programs.\<close>

definition prog_paths :: "string \<Rightarrow> bprog list \<Rightarrow> string list" where
  "prog_paths path ps = map (\<lambda>p. path @ ''/'' @ fst p) (filter (\<lambda>(nm, autoload, has_fd). autoload \<or> has_fd) ps)"

lemma fold_unpin_progs:
  "fold (\<lambda>p. unpin (path @ CHR ''/'' # fst p)) before fs = fold unpin (map (\<lambda>p. path @ CHR ''/'' # fst p) before) fs"
  by (simp add: fold_map comp_def)

lemma pin_programs_loop_spec:
  assumes "set (map (\<lambda>p. path @ ''/'' @ fst p) (before @ ps)) \<inter> set fs = {}"
    and "\<forall>f \<in> set xs. f \<in> set (map (\<lambda>p. path @ ''/'' @ fst p) before)"
  shows "pin_programs_loop pin path ps before (xs @ fs) =
     (case List.find (\<lambda>f. pin f \<noteq> 0) (prog_paths path ps) of
        None \<Rightarrow> (0, rev (prog_paths path ps) @ xs @ fs)
      | Some f \<Rightarrow> (pin f, fs))"
  using assms
proof (induction ps arbitrary: before xs)
  case Nil
  then show ?case by (simp add: prog_paths_def)
next
  case (Cons p ps)
  obtain nm al hf where p: "p = (nm, al, hf)" by (cases p)
  let ?f = "path @ ''/'' @ nm" and ?b = "map (\<lambda>p. path @ ''/'' @ fst p) before"
  show ?case
  proof (cases "al \<or> hf")
    case False
    have "pin_programs_loop pin path ps (p # before) (xs @ fs) =
       (case List.find (\<lambda>f. pin f \<noteq> 0) (prog_paths path ps) of
          None \<Rightarrow> (0, rev (prog_paths path ps) @ xs @ fs) | Some f \<Rightarrow> (pin f, fs))"
      using Cons.prems p by (intro Cons.IH) auto
    moreover have "prog_paths path (p # ps) = prog_paths path ps" using False p by (simp add: prog_paths_def)
    ultimately show ?thesis using False p by (simp cong: option.case_cong)
  next
    case True
    have lp: "prog_paths path (p # ps) = ?f # prog_paths path ps" using True p by (simp add: prog_paths_def)
    show ?thesis
    proof (cases "pin ?f = 0")
      case False
      have d: "set ?b \<inter> set fs = {}" using Cons.prems(1) by auto
      have "fold unpin ?b (xs @ fs) = fs"
        using fold_unpin_append [OF d] fold_unpin_all [of xs ?b] Cons.prems(2) by auto
      with False True p lp show ?thesis by (auto simp: fold_unpin_progs)
    next
      case pin0: True
      have "pin_programs_loop pin path ps (p # before) ((?f # xs) @ fs) =
         (case List.find (\<lambda>f. pin f \<noteq> 0) (prog_paths path ps) of
            None \<Rightarrow> (0, rev (prog_paths path ps) @ (?f # xs) @ fs) | Some f \<Rightarrow> (pin f, fs))"
        using Cons.prems p by (intro Cons.IH) auto
      with pin0 True p lp show ?thesis by (auto cong: option.case_cong)
    qed
  qed
qed

section \<open>Users of the program\<close>

text \<open>
  A history of constructions and destructions by any processes; the result lists for each
  construction whether it succeeded.
\<close>

datatype bm_op = BNew int int int bpf_env | BDel int int int "(string \<Rightarrow> bool) option"

fun bm_run :: "bm_op list \<Rightarrow> bpf_shared \<Rightarrow> (bool list \<times> bpf_shared) outcome" where
  "bm_run [] s = Done ([], s)"
| "bm_run (BNew tid t0 t1 env # xs) s =
     bind_outcome (BPFManager_new tid t0 t1 env s) (\<lambda>(r, s').
       bind_outcome (bm_run xs s') (\<lambda>(rs, s''). Done ((\<not> isl r) # rs, s'')))"
| "bm_run (BDel tid t0 t1 rm # xs) s =
     bind_outcome (BPFManager_delete tid t0 t1 rm s) (\<lambda>s'.
       bind_outcome (bm_run xs s') (\<lambda>(rs, s''). Done (True # rs, s'')))"

fun bm_users :: "int \<Rightarrow> bm_op list \<Rightarrow> bool list \<Rightarrow> int" where
  "bm_users n (BNew tid t0 t1 env # xs) (r # rs) = bm_users (if r then n + 1 else n) xs rs"
| "bm_users n (BDel tid t0 t1 rm # xs) (r # rs) = bm_users (max 0 (n - 1)) xs rs"
| "bm_users n xs rs = n"

text \<open>The calls are timely and the kernel's list of map ids ends.\<close>

definition probes_end :: "map_probe list \<Rightarrow> bool" where
  "probes_end ps \<longleftrightarrow> (\<exists>e. NextErr e \<in> set ps)"

fun bm_timely :: "bm_op \<Rightarrow> bool" where
  "bm_timely (BNew tid t0 t1 env) = (valid_tid tid \<and> t1 - t0 < 5 \<and> probes_end (be_probes env))"
| "bm_timely (BDel tid t0 t1 rm) = (valid_tid tid \<and> t1 - t0 < 5)"

lemma find_map_loop_ends: "probes_end ps \<Longrightarrow> \<exists>r. find_map_loop nm ps closed = Done r"
  by (induction nm ps closed rule: find_map_loop.induct) (auto simp: probes_end_def)

lemma bpf_find_map_ends: "probes_end ps \<Longrightarrow> \<exists>fd i cl. bpf_find_map ex ps nm = Done (fd, i, cl)"
  using find_map_loop_ends [of ps nm "[]"] by (auto simp: bpf_find_map_def)

lemma bm_body_ref:
  "bm_attach fd s = (r, s') \<or> bm_create env s = (r, s') \<Longrightarrow>
     ref_cnt s' = (if (\<not> isl r) then ref_cnt s + 1 else ref_cnt s) \<and> bm_lock s' = bm_lock s"
  by (auto simp: bm_attach_def bm_create_def Let_def split: if_splits sum.splits prod.splits)

lemma BPFManager_new_ok:
  assumes "valid_tid tid" "t1 - t0 < 5" "probes_end (be_probes env)" "bm_lock s = 0"
  shows "\<exists>r s'. BPFManager_new tid t0 t1 env s = Done (r, s') \<and> bm_lock s' = 0
     \<and> ref_cnt s' = (if (\<not> isl r) then ref_cnt s + 1 else ref_cnt s)"
proof -
  let ?s = "s\<lparr>bm_lock := tid\<rparr>"
  obtain fd i cl where f: "bpf_find_map (\<lambda>f. f \<in> set (pin_dir ?s)) (be_probes env) ''dk_shared_mem'' = Done (fd, i, cl)"
    using bpf_find_map_ends [OF assms(3)] by blast
  obtain r s' where b: "(if 0 \<le> fd then bm_attach fd ?s else bm_create env ?s) = (r, s')" by fastforce
  then have "ref_cnt s' = (if (\<not> isl r) then ref_cnt s + 1 else ref_cnt s)"
    using bm_body_ref [of fd ?s r s' env] by (auto split: if_splits)
  moreover have "bm_new_body env ?s = Done (r, s')" using b by (simp only: bm_new_body_def f bind_outcome_simps prod.case)
  ultimately show ?thesis using assms by (simp add: BPFManager_new_def with_lock_free)
qed

lemma BPFManager_delete_ok:
  assumes "valid_tid tid" "t1 - t0 < 5" "bm_lock s = 0"
  shows "\<exists>s'. BPFManager_delete tid t0 t1 rm s = Done s' \<and> bm_lock s' = 0 \<and> ref_cnt s' = max 0 (ref_cnt s - 1)
     \<and> pin_dir s' = (case rm of Some unlink \<Rightarrow> if ref_cnt s \<le> 1 then filter (\<lambda>f. \<not> unlink f) (pin_dir s) else pin_dir s | None \<Rightarrow> pin_dir s)"
  using assms by (auto simp: BPFManager_delete_def with_lock_free bm_release_def Let_def split: option.split)

section \<open>Properties\<close>

text \<open>C14: Pinning the links of a program is all or nothing: when libbpf accepts every pin, all
  existing links are pinned; at the first refusal its error is returned and the pin directory is
  exactly as before.\<close>

theorem pin_links_all_or_nothing:
  assumes "set (link_paths dir progs) \<inter> set fs = {}"
  shows "bpf_pin_links pin dir progs fs =
     (case List.find (\<lambda>f. pin f \<noteq> 0) (link_paths dir progs) of
        None \<Rightarrow> (0, rev (link_paths dir progs) @ fs)
      | Some f \<Rightarrow> (pin f, fs))"
  using pin_links_loop_spec [of "[]" fs dir progs "[]" pin] assms
  by (simp add: bpf_pin_links_def cong: option.case_cong)

theorem pin_links_all_or_nothing_witness:
  "bpf_pin_links (\<lambda>f. if f = ''d/link-b'' then - EPERM else 0) ''d'' [(''a'', True), (''x'', False), (''b'', True)] [''m'']
     = (- EPERM, [''m''])"
  using pin_links_all_or_nothing [of "''d''" "[(''a'', True), (''x'', False), (''b'', True)]" "[''m'']"
      "\<lambda>f. if f = ''d/link-b'' then - EPERM else 0"]
  by (simp add: link_paths_def)

text \<open>Pinning the programs is all or nothing as well: at the first refusal the programs pinned
  before are unpinned, and the pin directory is exactly as before.\<close>

theorem pin_programs_all_or_nothing:
  assumes "set (map (\<lambda>p. path @ ''/'' @ fst p) progs) \<inter> set fs = {}"
  shows "bpf_pin_programs pin path progs fs =
     (case List.find (\<lambda>f. pin f \<noteq> 0) (prog_paths path progs) of
        None \<Rightarrow> (0, rev (prog_paths path progs) @ fs)
      | Some f \<Rightarrow> (pin f, fs))"
  using pin_programs_loop_spec [of path "[]" progs fs "[]" pin] assms
  by (simp add: bpf_pin_programs_def cong: option.case_cong)

theorem pin_programs_all_or_nothing_witness:
  "bpf_pin_programs (\<lambda>f. if f = ''d/b'' then - EPERM else 0) ''d'' [(''a'', True, True), (''b'', False, True)] [''m'']
     = (- EPERM, [''m''])"
  using pin_programs_all_or_nothing [of "''d''" "[(''a'', True, True), (''b'', False, True)]" "[''m'']"
      "\<lambda>f. if f = ''d/b'' then - EPERM else 0"]
  by (simp add: prog_paths_def)

text \<open>C13: Over every history of managers created and destroyed by any processes the count in the
  shared block is the number of live managers, every call returns and releases the lock.\<close>

theorem bpf_user_count:
  assumes "\<forall>x \<in> set xs. bm_timely x" and "bm_lock s = 0" and "0 \<le> ref_cnt s"
  shows "\<exists>rs s'. bm_run xs s = Done (rs, s') \<and> bm_lock s' = 0 \<and> ref_cnt s' = bm_users (ref_cnt s) xs rs
     \<and> 0 \<le> ref_cnt s'"
  using assms
proof (induction xs arbitrary: s)
  case Nil
  then show ?case by simp
next
  case (Cons x xs)
  show ?case
  proof (cases x)
    case (BNew tid t0 t1 env)
    with Cons.prems obtain r s1 where s1: "BPFManager_new tid t0 t1 env s = Done (r, s1)" "bm_lock s1 = 0"
      "ref_cnt s1 = (if (\<not> isl r) then ref_cnt s + 1 else ref_cnt s)"
      using BPFManager_new_ok [of tid t1 t0 env s] by auto
    have "0 \<le> ref_cnt s1" using s1(3) Cons.prems(3) by simp
    from Cons.IH [OF _ s1(2) this] Cons.prems(1) obtain rs s2 where
      "bm_run xs s1 = Done (rs, s2)" "bm_lock s2 = 0" "ref_cnt s2 = bm_users (ref_cnt s1) xs rs" "0 \<le> ref_cnt s2"
      by auto
    with s1 BNew show ?thesis by simp
  next
    case (BDel tid t0 t1 rm)
    with Cons.prems obtain s1 where s1: "BPFManager_delete tid t0 t1 rm s = Done s1" "bm_lock s1 = 0"
      "ref_cnt s1 = max 0 (ref_cnt s - 1)"
      using BPFManager_delete_ok [of tid t1 t0 s rm] by auto
    have "0 \<le> ref_cnt s1" using s1(3) by simp
    from Cons.IH [OF _ s1(2) this] Cons.prems(1) obtain rs s2 where
      "bm_run xs s1 = Done (rs, s2)" "bm_lock s2 = 0" "ref_cnt s2 = bm_users (ref_cnt s1) xs rs" "0 \<le> ref_cnt s2"
      by auto
    with s1 BDel show ?thesis by simp
  qed
qed

definition ex_bpf_env :: bpf_env where
  "ex_bpf_env = \<lparr>be_probes = [NextErr ENOENT], be_load = True, be_attach = 0,
     be_pin_maps = Inr [PIN_PATH @ ''/dk_shared_mem''], be_pin = (\<lambda>f. 0),
     be_progs = [(''dump_task'', True, True)], be_links = [(''dump_task'', True)], be_map_fd = 7\<rparr>"

theorem bpf_user_count_witness:
  "\<exists>rs s'. bm_run [BNew 42 0 0 ex_bpf_env, BDel 42 1 1 (Some (\<lambda>f. True))] \<lparr>pin_dir = [], ref_cnt = 0, bm_lock = 0\<rparr> = Done (rs, s')
     \<and> ref_cnt s' = 0"
proof -
  obtain rs s' where r: "bm_run [BNew 42 0 0 ex_bpf_env, BDel 42 1 1 (Some (\<lambda>f. True))] \<lparr>pin_dir = [], ref_cnt = 0, bm_lock = 0\<rparr> = Done (rs, s')"
    "ref_cnt s' = bm_users 0 [BNew 42 0 0 ex_bpf_env, BDel 42 1 1 (Some (\<lambda>f. True))] rs" "0 \<le> ref_cnt s'"
    using bpf_user_count [of "[BNew 42 0 0 ex_bpf_env, BDel 42 1 1 (Some (\<lambda>f. True))]" "\<lparr>pin_dir = [], ref_cnt = 0, bm_lock = 0\<rparr>"]
    by (auto simp: valid_tid_def probes_end_def ex_bpf_env_def)
  from r(1) have "length rs = 2"
    by (auto simp: bind_outcome_Done_iff)
  then obtain a b where "rs = [a, b]" by (auto simp: numeral_2_eq_2 length_Suc_conv)
  with r show ?thesis by auto
qed

text \<open>
  A manager that attached to pinned objects has no path for the file iterator, since nothing sets
  \<open>m_dump_task_file\<close>: opening the empty path fails, and so does \<open>dump_task_file\<close>.
\<close>

lemma attached_dump_fails:
  assumes "bm_attach fd s = (Inr m, s')" and "open_path [] < 0"
  shows "dump_task_file iter_fd open_path reads m = Done (-1)"
  using assms by (auto simp: bm_attach_def dump_task_file_def Let_def split: if_splits)

text \<open>Every descriptor that the search for a map opened is closed, except the one it returns.\<close>

fun probe_fd :: "map_probe \<Rightarrow> int list" where
  "probe_fd (NextId i (InfoErr fd e)) = [fd]"
| "probe_fd (NextId i (InfoName fd n)) = [fd]"
| "probe_fd p = []"

lemma find_map_loop_fds:
  "find_map_loop nm ps closed = Done (r, i, cl) \<Longrightarrow>
     \<exists>qs. (\<exists>rest. ps = qs @ rest) \<and> closed @ concat (map probe_fd qs) = cl @ (if i = None then [] else [r])"
proof (induction nm ps closed rule: find_map_loop.induct)
  case (3 nm j e ps closed)
  show ?case
  proof (cases "e = ENOENT")
    case True
    with 3 obtain qs rest where "ps = qs @ rest"
      "closed @ concat (map probe_fd qs) = cl @ (if i = None then [] else [r])" by auto
    then show ?thesis by (intro exI [of _ "NextId j (FdErr e) # qs"]) auto
  next
    case False
    with 3 show ?thesis by (intro exI [of _ "[]"]) auto
  qed
next
  case (5 nm j fd n ps closed)
  show ?case
  proof (cases "n = nm")
    case True
    with 5 show ?thesis by (intro exI [of _ "[NextId j (InfoName fd n)]"]) auto
  next
    case False
    with 5 obtain qs rest where "ps = qs @ rest"
      "(closed @ [fd]) @ concat (map probe_fd qs) = cl @ (if i = None then [] else [r])" by auto
    then show ?thesis by (intro exI [of _ "NextId j (InfoName fd n) # qs"]) auto
  qed
next
  case (2 nm e ps closed)
  then show ?case by (intro exI [of _ "[]"]) auto
next
  case (4 nm j fd e ps closed)
  then show ?case by (intro exI [of _ "[NextId j (InfoErr fd e)]"]) auto
qed simp

end
