(* ===== verification/Pin_Registry.thy ===== *)
theory Pin_Registry
  imports C_Strings
begin

text \<open>
  The registry of shared pinned maps, \<open>so/pin-registry.cpp\<close>: a text file with one line
  \<open>name path\<close> per map, read and rewritten as a whole under a file lock. The locale
  \<open>name_table\<close> is the contract of a table of names; the text of the registry file with the
  code's own read and write routines is an instance of it, for any text at all.
\<close>

section \<open>Tables of names\<close>

datatype ('k, 'v) tab_op = Ins 'k 'v | Del 'k

locale name_table =
  fixes ins :: "'k \<Rightarrow> 'v \<Rightarrow> 's \<Rightarrow> 's"
    and del :: "'k \<Rightarrow> 's \<Rightarrow> 's"
    and look :: "'s \<Rightarrow> 'k \<Rightarrow> 'v option"
    and okk :: "'k \<Rightarrow> bool"
    and okv :: "'v \<Rightarrow> bool"
  assumes look_ins: "okk k \<Longrightarrow> okv v \<Longrightarrow> look (ins k v s) = (look s)(k \<mapsto> v)"
    and look_del: "look (del k s) = (look s)(k := None)"
begin

primrec tab_eff :: "('k, 'v) tab_op \<Rightarrow> 's \<Rightarrow> 's" where
  "tab_eff (Ins k v) s = ins k v s"
| "tab_eff (Del k) s = del k s"

primrec map_eff :: "('k, 'v) tab_op \<Rightarrow> ('k \<rightharpoonup> 'v) \<Rightarrow> ('k \<rightharpoonup> 'v)" where
  "map_eff (Ins k v) m = m(k \<mapsto> v)"
| "map_eff (Del k) m = m(k := None)"

primrec op_ok :: "('k, 'v) tab_op \<Rightarrow> bool" where
  "op_ok (Ins k v) = (okk k \<and> okv v)"
| "op_ok (Del k) = True"

text \<open>A history of insertions and deletions behaves as on a finite map.\<close>

lemma look_history: "\<forall>x \<in> set xs. op_ok x \<Longrightarrow> look (fold tab_eff xs s) = fold map_eff xs (look s)"
proof (induction xs arbitrary: s)
  case Nil
  then show ?case by simp
next
  case (Cons x xs)
  then have "look (tab_eff x s) = map_eff x (look s)" by (cases x) (simp_all add: look_ins look_del)
  with Cons show ?case by simp
qed

end

section \<open>The text of the registry\<close>

type_synonym entry = "string \<times> string"

text \<open>The lines of \<open>read_all\<close> that yield an entry.\<close>

definition parse_line :: "string \<Rightarrow> entry option" where
  "parse_line line =
     (case read_word line of
        None \<Rightarrow> None
      | Some (name, r) \<Rightarrow> (case read_word r of None \<Rightarrow> None | Some (path, r') \<Rightarrow> Some (name, path)))"

definition read_text :: "string \<Rightarrow> entry list" where
  "read_text t = List.map_filter parse_line (getlines t)"

definition read_all :: "string option \<Rightarrow> entry list" where
  "read_all file = (case file of None \<Rightarrow> [] | Some t \<Rightarrow> read_text t)"

definition entry_line :: "entry \<Rightarrow> string" where
  "entry_line e = fst e @ '' '' @ snd e @ [NL]"

text \<open>
  \<open>write_all\<close> on the registry file: \<open>op\<close> is the errno of a failed \<open>open\<close>, \<open>wr i line\<close> the result of
  the \<open>i\<close>-th \<open>write\<close>, an errno or the number of bytes written, which the code does not compare
  with the size of the line.
\<close>

fun write_lines :: "(nat \<Rightarrow> string \<Rightarrow> int + nat) \<Rightarrow> nat \<Rightarrow> entry list \<Rightarrow> string \<Rightarrow> int \<times> string" where
  "write_lines wr i [] done_text = (0, done_text)"
| "write_lines wr i (e # es) done_text =
     (case wr i (entry_line e) of
        Inl err \<Rightarrow> (- err, done_text)
      | Inr n \<Rightarrow> write_lines wr (Suc i) es (done_text @ take n (entry_line e)))"

definition write_all ::
  "int option \<Rightarrow> (nat \<Rightarrow> string \<Rightarrow> int + nat) \<Rightarrow> entry list \<Rightarrow> string option \<Rightarrow> int \<times> string option" where
  "write_all op wr es file =
     (case file of
        None \<Rightarrow> (- ENOENT, None)
      | Some t \<Rightarrow>
          (case op of
             Some err \<Rightarrow> (- err, Some t)
           | None \<Rightarrow> (case write_lines wr 0 es [] of (r, t') \<Rightarrow> (r, Some t'))))"

text \<open>The loops over the entries in \<open>register_map\<close>, \<open>remove_entry\<close> and \<open>lookup\<close>.\<close>

fun set_entry :: "string \<Rightarrow> string \<Rightarrow> entry list \<Rightarrow> entry list" where
  "set_entry name path [] = [(name, path)]"
| "set_entry name path (e # es) = (if fst e = name then (name, path) # es else e # set_entry name path es)"

fun erase_entries :: "string \<Rightarrow> entry list \<Rightarrow> entry list" where
  "erase_entries name [] = []"
| "erase_entries name (e # es) = (if fst e = name then erase_entries name es else e # erase_entries name es)"

fun find_entry :: "string \<Rightarrow> entry list \<Rightarrow> string" where
  "find_entry name [] = []"
| "find_entry name (e # es) = (if fst e = name then snd e else find_entry name es)"

section \<open>Operations\<close>

text \<open>What the operating system answers during one call.\<close>

record reg_sys =
  can_create :: bool \<comment> \<open>\<open>ensure_registry_files\<close> can create a missing file\<close>
  lock_res :: int \<comment> \<open>\<open>lock_fd\<close>: a descriptor or a negative errno\<close>
  open_err :: "int option" \<comment> \<open>opening the registry for writing\<close>
  write_res :: "nat \<Rightarrow> string \<Rightarrow> int + nat"
  path_exists :: "string \<Rightarrow> bool" \<comment> \<open>\<open>access(path, F_OK) == 0\<close>\<close>
  map_pin :: "string \<Rightarrow> int" \<comment> \<open>\<open>bpf_map__pin\<close> on this path\<close>

text \<open>The state: the registry file, if it exists, and the paths pinned by calls.\<close>

record reg_state =
  reg_file :: "string option"
  pinned :: "string list"

definition ensure_registry_files :: "reg_sys \<Rightarrow> reg_state \<Rightarrow> reg_state" where
  "ensure_registry_files sys st =
     (if reg_file st = None \<and> can_create sys then st\<lparr>reg_file := Some []\<rparr> else st)"

definition lock_fd :: "reg_sys \<Rightarrow> reg_state \<Rightarrow> int \<times> reg_state" where
  "lock_fd sys st = (lock_res sys, ensure_registry_files sys st)"

text \<open>Null pointers are \<open>None\<close>.\<close>

definition register_map ::
  "reg_sys \<Rightarrow> string option \<Rightarrow> bool \<Rightarrow> string option \<Rightarrow> reg_state \<Rightarrow> int \<times> reg_state" where
  "register_map sys name map_ok pin_path st0 =
     (case (name, pin_path) of
        (Some nm, Some path) \<Rightarrow>
          (if \<not> map_ok then (- EINVAL, st0)
           else let st1 = ensure_registry_files sys st0;
                    err = (if path_exists sys path then 0 else map_pin sys path);
                    st2 = (if path_exists sys path \<or> err \<noteq> 0 then st1 else st1\<lparr>pinned := path # pinned st1\<rparr>)
             in if err \<noteq> 0 then (err, st2)
                else case lock_fd sys st2 of (fd, st3) \<Rightarrow>
                  if fd < 0 then (fd, st3)
                  else case write_all (open_err sys) (write_res sys)
                              (set_entry nm path (read_all (reg_file st3))) (reg_file st3) of
                    (r, f) \<Rightarrow> (r, st3\<lparr>reg_file := f\<rparr>))
      | _ \<Rightarrow> (- EINVAL, st0))"

definition lookup :: "reg_sys \<Rightarrow> string option \<Rightarrow> reg_state \<Rightarrow> string \<times> reg_state" where
  "lookup sys name st0 =
     (case name of
        None \<Rightarrow> ([], st0)
      | Some nm \<Rightarrow>
          (case lock_fd sys (ensure_registry_files sys st0) of (fd, st) \<Rightarrow>
             if fd < 0 then ([], st) else (find_entry nm (read_all (reg_file st)), st)))"

definition remove_entry :: "reg_sys \<Rightarrow> string option \<Rightarrow> reg_state \<Rightarrow> int \<times> reg_state" where
  "remove_entry sys name st0 =
     (case name of
        None \<Rightarrow> (- EINVAL, st0)
      | Some nm \<Rightarrow>
          (case lock_fd sys st0 of (fd, st) \<Rightarrow>
             if fd < 0 then (fd, st)
             else case write_all (open_err sys) (write_res sys)
                         (erase_entries nm (read_all (reg_file st))) (reg_file st) of
               (r, f) \<Rightarrow> (r, st\<lparr>reg_file := f\<rparr>)))"

definition registry_list :: "reg_sys \<Rightarrow> reg_state \<Rightarrow> entry list \<times> reg_state" where
  "registry_list sys st0 =
     (case lock_fd sys st0 of (fd, st) \<Rightarrow> if fd < 0 then ([], st) else (read_all (reg_file st), st))"

section \<open>Reading back what was written\<close>

definition reg_text :: "entry list \<Rightarrow> string" where
  "reg_text es = concat (map entry_line es)"

definition word_entry :: "entry \<Rightarrow> bool" where
  "word_entry e \<longleftrightarrow> is_word (fst e) \<and> is_word (snd e)"

lemma parse_entry_line:
  assumes "word_entry e"
  shows "parse_line (fst e @ CHR '' '' # snd e) = Some e"
proof -
  have w: "is_word (fst e)" "is_word (snd e)" using assms by (simp_all add: word_entry_def)
  have "read_word (fst e @ '' '' @ snd e) = Some (fst e, '' '' @ snd e)"
    by (rule read_word_exact [OF w(1)]) simp
  then have "read_word (fst e @ CHR '' '' # snd e) = Some (fst e, CHR '' '' # snd e)" by simp
  moreover have "read_word (CHR '' '' # snd e) = Some (snd e, [])"
    using read_word_exact [OF w(2), of "[]"] by (simp add: read_word_skip)
  ultimately show ?thesis by (simp add: parse_line_def)
qed

lemma read_reg_text: "\<forall>e \<in> set es. word_entry e \<Longrightarrow> read_text (reg_text es) = es"
proof (induction es)
  case Nil
  then show ?case by (simp add: read_text_def reg_text_def List.map_filter_def)
next
  case (Cons e es)
  let ?l = "fst e @ '' '' @ snd e"
  have "NL \<notin> set ?l" using Cons.prems by (auto simp: word_entry_def is_word_def)
  then have "getlines (reg_text (e # es)) = ?l # getlines (reg_text es)"
    using getlines_line [of ?l "reg_text es"] by (simp add: reg_text_def entry_line_def)
  moreover have "parse_line ?l = Some e" using parse_entry_line [of e] Cons.prems by simp
  ultimately show ?case using Cons by (simp add: read_text_def List.map_filter_def)
qed

text \<open>Whatever a registry file contains, what is read from it are words.\<close>

lemma parse_line_words: "parse_line l = Some e \<Longrightarrow> word_entry e"
  unfolding parse_line_def word_entry_def
  by (auto split: option.splits) (metis read_word_word)+

lemma read_text_words: "e \<in> set (read_text t) \<Longrightarrow> word_entry e"
  by (auto simp: read_text_def List.map_filter_def intro: parse_line_words)

lemma write_lines_complete:
  "\<forall>i l. wr i l = Inr (length l) \<Longrightarrow> write_lines wr i es t = (0, t @ reg_text es)"
  by (induction es arbitrary: i t) (simp_all add: reg_text_def)

section \<open>The file as a table\<close>

definition reg_ins :: "string \<Rightarrow> string \<Rightarrow> string \<Rightarrow> string" where
  "reg_ins name path t = reg_text (set_entry name path (read_text t))"

definition reg_del :: "string \<Rightarrow> string \<Rightarrow> string" where
  "reg_del name t = reg_text (erase_entries name (read_text t))"

definition reg_look :: "string \<Rightarrow> string \<Rightarrow> string option" where
  "reg_look t = map_of (read_text t)"

lemma set_set_entry: "e \<in> set (set_entry n p es) \<Longrightarrow> e = (n, p) \<or> e \<in> set es"
  by (induction es) (auto split: if_splits)

lemma erase_filter: "erase_entries n es = filter (\<lambda>e. fst e \<noteq> n) es"
  by (induction es) simp_all

lemma map_of_set_entry: "map_of (set_entry n p es) = (map_of es)(n \<mapsto> p)"
  by (induction es) (auto simp: fun_eq_iff)

lemma map_of_erase: "map_of (erase_entries n es) = (map_of es)(n := None)"
  by (induction es) (auto simp: fun_eq_iff)

lemma find_entry_map_of: "find_entry n es = (case map_of es n of None \<Rightarrow> [] | Some p \<Rightarrow> p)"
  by (induction es) auto

interpretation reg: name_table reg_ins reg_del reg_look is_word is_word
proof unfold_locales
  fix n p t assume "is_word n" "is_word p"
  then have "\<forall>e \<in> set (set_entry n p (read_text t)). word_entry e"
    using set_set_entry read_text_words by (fastforce simp: word_entry_def)
  then show "reg_look (reg_ins n p t) = (reg_look t)(n \<mapsto> p)"
    by (simp add: reg_look_def reg_ins_def read_reg_text map_of_set_entry)
next
  fix n t
  have "\<forall>e \<in> set (erase_entries n (read_text t)). word_entry e"
    using read_text_words by (auto simp: erase_filter)
  then show "reg_look (reg_del n t) = (reg_look t)(n := None)"
    by (simp add: reg_look_def reg_del_def read_reg_text map_of_erase)
qed

section \<open>The operations on a working system\<close>

definition sys_ok :: "reg_sys \<Rightarrow> bool" where
  "sys_ok sys \<longleftrightarrow> can_create sys \<and> 0 \<le> lock_res sys \<and> open_err sys = None
     \<and> (\<forall>i l. write_res sys i l = Inr (length l))"

definition file_text :: "reg_state \<Rightarrow> string" where
  "file_text st = (case reg_file st of None \<Rightarrow> [] | Some t \<Rightarrow> t)"

lemma read_text_Nil [simp]: "read_text [] = []"
  by (simp add: read_text_def List.map_filter_def)

lemma ensured:
  assumes "sys_ok sys"
  shows "reg_file (ensure_registry_files sys st) = Some (file_text st)"
    "pinned (ensure_registry_files sys st) = pinned st"
    "ensure_registry_files sys (ensure_registry_files sys st) = ensure_registry_files sys st"
  using assms by (cases "reg_file st"; simp add: ensure_registry_files_def sys_ok_def file_text_def)+

lemma write_all_ok:
  assumes "sys_ok sys"
  shows "write_all (open_err sys) (write_res sys) es (Some t) = (0, Some (reg_text es))"
  using assms write_lines_complete [of "write_res sys" 0 es "[]"] by (simp add: sys_ok_def write_all_def)

lemma sys_ok_lock: "sys_ok sys \<Longrightarrow> \<not> lock_res sys < 0"
  by (simp add: sys_ok_def)

lemma file_text_same [simp]:
  "file_text (st\<lparr>pinned := ps\<rparr>) = file_text st" "file_text (ensure_registry_files sys st) = file_text st"
  by (simp_all add: file_text_def ensure_registry_files_def)

lemma register_map_ok:
  assumes "sys_ok sys" and "path_exists sys p \<or> map_pin sys p = 0"
  shows "\<exists>st'. register_map sys (Some n) True (Some p) st = (0, st') \<and> reg_file st' = Some (reg_ins n p (file_text st))"
  using assms(2) sys_ok_lock [OF assms(1)]
  by (auto simp: register_map_def lock_fd_def Let_def read_all_def ensured [OF assms(1)]
      write_all_ok [OF assms(1)] reg_ins_def)

lemma remove_entry_ok:
  assumes "sys_ok sys"
  shows "\<exists>st'. remove_entry sys (Some n) st = (0, st') \<and> reg_file st' = Some (reg_del n (file_text st))"
  using sys_ok_lock [OF assms]
  by (simp add: remove_entry_def lock_fd_def read_all_def ensured [OF assms] write_all_ok [OF assms] reg_del_def)

lemma lookup_ok:
  assumes "sys_ok sys"
  shows "fst (lookup sys (Some n) st) = (case reg_look (file_text st) n of None \<Rightarrow> [] | Some p \<Rightarrow> p)"
  using assms ensured [OF assms]
  by (simp add: lookup_def lock_fd_def read_all_def reg_look_def find_entry_map_of sys_ok_def)

text \<open>A history of calls.\<close>

primrec reg_call :: "reg_sys \<Rightarrow> (string, string) tab_op \<Rightarrow> reg_state \<Rightarrow> int \<times> reg_state" where
  "reg_call sys (Ins n p) st = register_map sys (Some n) True (Some p) st"
| "reg_call sys (Del n) st = remove_entry sys (Some n) st"

primrec reg_history :: "reg_sys \<Rightarrow> (string, string) tab_op list \<Rightarrow> reg_state \<Rightarrow> int list \<times> reg_state" where
  "reg_history sys [] st = ([], st)"
| "reg_history sys (x # xs) st =
     (case reg_call sys x st of (r, st') \<Rightarrow> (case reg_history sys xs st' of (rs, st'') \<Rightarrow> (r # rs, st'')))"

definition call_ok :: "reg_sys \<Rightarrow> (string, string) tab_op \<Rightarrow> bool" where
  "call_ok sys x = (case x of Ins n p \<Rightarrow> is_word n \<and> is_word p \<and> (path_exists sys p \<or> map_pin sys p = 0) | Del n \<Rightarrow> True)"

lemma reg_call_ok:
  assumes "sys_ok sys" and "call_ok sys x"
  shows "\<exists>st'. reg_call sys x st = (0, st') \<and> file_text st' = reg.tab_eff x (file_text st)"
proof (cases x)
  case (Ins n p)
  with assms obtain st' where "register_map sys (Some n) True (Some p) st = (0, st')"
    "reg_file st' = Some (reg_ins n p (file_text st))"
    using register_map_ok [of sys p n st] by (auto simp: call_ok_def)
  with Ins show ?thesis by (simp add: file_text_def)
next
  case (Del n)
  with remove_entry_ok [OF assms(1), of n st] show ?thesis by (auto simp: file_text_def)
qed

lemma reg_history_ok:
  assumes "sys_ok sys" and "\<forall>x \<in> set xs. call_ok sys x"
  shows "\<exists>st'. reg_history sys xs st = (replicate (length xs) 0, st') \<and> file_text st' = fold reg.tab_eff xs (file_text st)"
  using assms(2)
proof (induction xs arbitrary: st)
  case Nil
  then show ?case by simp
next
  case (Cons x xs)
  then obtain s1 where s1: "reg_call sys x st = (0, s1)" "file_text s1 = reg.tab_eff x (file_text st)"
    using reg_call_ok [OF assms(1), of x st] by auto
  from Cons.IH [of s1] Cons.prems obtain s2 where
    "reg_history sys xs s1 = (replicate (length xs) 0, s2)" "file_text s2 = fold reg.tab_eff xs (file_text s1)"
    by auto
  with s1 show ?case by simp
qed

section \<open>Properties\<close>

text \<open>Round trip of the registry file: entries whose names and paths are non-empty and free of
  white space are read back by \<open>read_all\<close> exactly as \<open>write_all\<close> wrote them, whatever the file
  contained before.\<close>

theorem registry_roundtrip:
  assumes "\<forall>e \<in> set es. is_word (fst e) \<and> is_word (snd e)" and "\<forall>i l. wr i l = Inr (length l)"
  shows "\<exists>file. write_all None wr es (Some old) = (0, file) \<and> read_all file = es"
  using read_reg_text [of es] write_lines_complete [OF assms(2), of 0 es "[]"] assms(1)
  by (simp add: write_all_def read_all_def word_entry_def)

theorem registry_roundtrip_witness:
  "\<exists>file. write_all None (\<lambda>i l. Inr (length l)) [(''m'', ''/p''), (''n'', ''/q'')] (Some ''junk'') = (0, file)
     \<and> read_all file = [(''m'', ''/p''), (''n'', ''/q'')]"
  using registry_roundtrip [of "[(''m'', ''/p''), (''n'', ''/q'')]" "\<lambda>i l. Inr (length l)" "''junk''"]
  by (simp add: is_word_def is_space_def)

text \<open>C5: On a system whose file operations succeed, every history of \<open>register_map\<close> and
  \<open>remove_entry\<close> calls, in which each registered name and path is non-empty and free of white space and each map is pinned
  already or can be pinned, succeeds, and afterwards \<open>lookup\<close> returns for each name the path it was
  last registered with, by these calls or else by the first line for it in the file as it was, and the empty string for a name
  that was removed or has neither. The registry file may hold any text at the beginning.\<close>

theorem registry_lookup_history:
  assumes "sys_ok sys" and "\<forall>x \<in> set xs. call_ok sys x"
  shows "\<exists>st'. reg_history sys xs st = (replicate (length xs) 0, st')
     \<and> (\<forall>n. fst (lookup sys (Some n) st')
          = (case fold reg.map_eff xs (map_of (read_text (file_text st))) n of None \<Rightarrow> [] | Some p \<Rightarrow> p))"
proof -
  obtain st' where h: "reg_history sys xs st = (replicate (length xs) 0, st')"
    "file_text st' = fold reg.tab_eff xs (file_text st)"
    using reg_history_ok [OF assms] by blast
  have "\<forall>x \<in> set xs. reg.op_ok x"
  proof
    fix x assume "x \<in> set xs"
    then have "call_ok sys x" using assms(2) by blast
    then show "reg.op_ok x" by (cases x) (simp_all add: call_ok_def)
  qed
  then have "reg_look (file_text st') = fold reg.map_eff xs (map_of (read_text (file_text st)))"
    unfolding h(2) by (simp only: reg.look_history) (simp only: reg_look_def)
  with h(1) show ?thesis by (simp add: lookup_ok [OF assms(1)])
qed

definition ex_sys :: reg_sys where
  "ex_sys = \<lparr>can_create = True, lock_res = 5, open_err = None, write_res = (\<lambda>i l. Inr (length l)),
     path_exists = (\<lambda>p. False), map_pin = (\<lambda>p. 0)\<rparr>"

theorem registry_lookup_history_witness:
  "\<exists>st'. reg_history ex_sys [Ins ''m'' ''/a'', Ins ''n'' ''/b'', Ins ''m'' ''/c'', Del ''n''] \<lparr>reg_file = None, pinned = []\<rparr>
       = ([0, 0, 0, 0], st')
     \<and> fst (lookup ex_sys (Some ''m'') st') = ''/c'' \<and> fst (lookup ex_sys (Some ''n'') st') = []"
proof -
  have "sys_ok ex_sys" by (simp add: sys_ok_def ex_sys_def)
  moreover have "\<forall>x \<in> set [Ins ''m'' ''/a'', Ins ''n'' ''/b'', Ins ''m'' ''/c'', Del ''n'']. call_ok ex_sys x"
    by (simp add: call_ok_def ex_sys_def is_word_def is_space_def)
  ultimately show ?thesis
    using registry_lookup_history [of ex_sys "[Ins ''m'' ''/a'', Ins ''n'' ''/b'', Ins ''m'' ''/c'', Del ''n'']"
        "\<lparr>reg_file = None, pinned = []\<rparr>"]
    by (auto simp: numeral_eq_Suc)
qed

text \<open>Without the condition on white space this fails: a name with a blank is registered with success and not found again.\<close>

lemma registry_blank_lost:
  "register_map ex_sys (Some ''a b'') True (Some ''/p'') \<lparr>reg_file = Some [], pinned = []\<rparr>
     = (0, \<lparr>reg_file = Some (''a b /p'' @ [NL]), pinned = [''/p'']\<rparr>)"
  "fst (lookup ex_sys (Some ''a b'') \<lparr>reg_file = Some (''a b /p'' @ [NL]), pinned = [''/p'']\<rparr>) = []"
  "fst (lookup ex_sys (Some ''a'') \<lparr>reg_file = Some (''a b /p'' @ [NL]), pinned = [''/p'']\<rparr>) = ''b''"
  by (simp_all add: register_map_def lookup_def ex_sys_def ensure_registry_files_def lock_fd_def read_all_def read_text_def getlines_def
      parse_line_def read_word_def is_space_def write_all_def entry_line_def List.map_filter_def Let_def)

end
