(* ===== verification/Bpf_Linker.thy ===== *)
theory Bpf_Linker
  imports Pin_Registry
begin

text \<open>
  Sharing of maps between tools, \<open>so/bpf-linker.cpp\<close>: \<open>bpf_linker_pin_shared\<close> pins a map and
  registers it, \<open>bpf_linker_resolve_extern\<close> binds the maps of an object that is about to be loaded
  to registered ones. libbpf's calls are parameters.
\<close>

abbreviation PIN_DIR :: string where "PIN_DIR \<equiv> ''/sys/fs/bpf/dkapture/''"

text \<open>
  \<open>obj_get\<close> is \<open>bpf_obj_get\<close> on a path (an errno or a descriptor), \<open>reuse_fd\<close> is
  \<open>bpf_map__reuse_fd\<close> on a map name and a descriptor, \<open>mkdir_err\<close> the errno of \<open>mkdir\<close>, if any.
\<close>

record link_sys =
  obj_get :: "string \<Rightarrow> int + int"
  reuse_fd :: "string \<Rightarrow> int \<Rightarrow> int"
  mkdir_err :: "int option"

text \<open>
  The loop over the maps of an object, each given by its name if it has one. The result has the
  bindings made so far, as pairs of map name and pin path.
\<close>

fun resolve_maps ::
  "reg_sys \<Rightarrow> link_sys \<Rightarrow> string option list \<Rightarrow> reg_state \<Rightarrow> entry list \<Rightarrow> int \<times> reg_state \<times> entry list" where
  "resolve_maps rs ls [] st bound = (0, st, bound)"
| "resolve_maps rs ls (None # ms) st bound = resolve_maps rs ls ms st bound"
| "resolve_maps rs ls (Some nm # ms) st bound =
     (case lookup rs (Some nm) st of (pin_path, st1) \<Rightarrow>
        if pin_path = [] then resolve_maps rs ls ms st1 bound
        else case obj_get ls pin_path of
          Inl e \<Rightarrow>
            (if e = ENOENT then
               (case remove_entry rs (Some nm) st1 of (r, st2) \<Rightarrow> resolve_maps rs ls ms st2 bound)
             else (- e, st1, bound))
        | Inr fd \<Rightarrow>
            (let err = reuse_fd ls nm fd
             in if err \<noteq> 0 then (err, st1, bound)
                else resolve_maps rs ls ms st1 (bound @ [(nm, pin_path)])))"

definition bpf_linker_resolve_extern ::
  "reg_sys \<Rightarrow> link_sys \<Rightarrow> string option list \<Rightarrow> reg_state \<Rightarrow> int \<times> reg_state \<times> entry list" where
  "bpf_linker_resolve_extern rs ls maps st = resolve_maps rs ls maps st []"

text \<open>\<open>bpf_linker_pin_shared\<close>; \<open>None\<close> is a null map, and its name may be null as well.\<close>

definition bpf_linker_pin_shared ::
  "reg_sys \<Rightarrow> link_sys \<Rightarrow> string option option \<Rightarrow> reg_state \<Rightarrow> int \<times> reg_state" where
  "bpf_linker_pin_shared rs ls bmap st =
     (case bmap of
        None \<Rightarrow> (- EINVAL, st)
      | Some None \<Rightarrow> (- EINVAL, st)
      | Some (Some nm) \<Rightarrow>
          (if nm = [] then (- EINVAL, st)
           else case mkdir_err ls of
             Some e \<Rightarrow> (if e \<noteq> EEXIST then (- e, st)
                        else register_map rs (Some nm) True (Some (PIN_DIR @ nm)) st)
           | None \<Rightarrow> register_map rs (Some nm) True (Some (PIN_DIR @ nm)) st))"

section \<open>What resolving does\<close>

text \<open>libbpf answers as documented: a pinned path opens or does not exist, and reuse succeeds.\<close>

definition link_ok :: "link_sys \<Rightarrow> bool" where
  "link_ok ls \<longleftrightarrow> (\<forall>p e. obj_get ls p = Inl e \<longrightarrow> e = ENOENT) \<and> (\<forall>n fd. reuse_fd ls n fd = 0)"

definition live :: "link_sys \<Rightarrow> string \<Rightarrow> bool" where
  "live ls p \<longleftrightarrow> (\<exists>fd. obj_get ls p = Inr fd)"

text \<open>The maps that should be bound: those registered with a path that still exists.\<close>

fun to_bind :: "link_sys \<Rightarrow> (string \<rightharpoonup> string) \<Rightarrow> string option list \<Rightarrow> entry list" where
  "to_bind ls m [] = []"
| "to_bind ls m (None # ms) = to_bind ls m ms"
| "to_bind ls m (Some nm # ms) =
     (case m nm of
        None \<Rightarrow> to_bind ls m ms
      | Some p \<Rightarrow> if live ls p then (nm, p) # to_bind ls m ms else to_bind ls m ms)"

text \<open>The registry afterwards: names of the object whose path is gone are forgotten.\<close>

definition purge :: "link_sys \<Rightarrow> string option list \<Rightarrow> (string \<rightharpoonup> string) \<Rightarrow> (string \<rightharpoonup> string)" where
  "purge ls ms m = (\<lambda>n. case m n of None \<Rightarrow> None | Some p \<Rightarrow> if Some n \<in> set ms \<and> \<not> live ls p then None else Some p)"

lemma reg_look_word: "reg_look t n = Some p \<Longrightarrow> p \<noteq> []"
  using read_text_words by (force simp: reg_look_def word_entry_def is_word_def dest: map_of_SomeD)

lemma lookup_state:
  assumes "sys_ok rs"
  shows "file_text (snd (lookup rs (Some n) st)) = file_text st"
  using sys_ok_lock [OF assms] ensured [OF assms] by (simp add: lookup_def lock_fd_def)

lemma remove_entry_look:
  assumes "sys_ok rs"
  shows "reg_look (file_text (snd (remove_entry rs (Some n) st))) = (reg_look (file_text st))(n := None)"
proof -
  obtain st' where "remove_entry rs (Some n) st = (0, st')" "reg_file st' = Some (reg_del n (file_text st))"
    using remove_entry_ok [OF assms] by blast
  then show ?thesis by (simp add: file_text_def reg.look_del)
qed

lemma to_bind_forget:
  assumes "m n = Some p" "\<not> live ls p"
  shows "to_bind ls (m(n := None)) ms = to_bind ls m ms"
proof (induction ms)
  case Nil
  then show ?case by simp
next
  case (Cons x ms)
  then show ?case using assms by (cases x) (auto split: option.splits)
qed

lemma purge_forget:
  assumes "m n = Some p" "\<not> live ls p"
  shows "purge ls ms (m(n := None)) = purge ls (Some n # ms) m"
  using assms by (auto simp: purge_def fun_eq_iff split: option.splits)

lemma purge_keep:
  "m n = None \<or> (\<exists>p. m n = Some p \<and> live ls p) \<Longrightarrow> purge ls (Some n # ms) m = purge ls ms m"
  by (auto simp: purge_def fun_eq_iff split: option.splits)

lemma resolve_maps_ok:
  assumes rs: "sys_ok rs" and ls: "link_ok ls"
  shows "\<exists>st'. resolve_maps rs ls ms st bound = (0, st', bound @ to_bind ls (reg_look (file_text st)) ms)
     \<and> reg_look (file_text st') = purge ls ms (reg_look (file_text st))"
proof (induction ms arbitrary: st bound)
  case Nil
  then show ?case by (auto simp: purge_def fun_eq_iff split: option.splits)
next
  case (Cons x ms)
  show ?case
  proof (cases x)
    case None
    moreover have "purge ls (None # ms) = purge ls ms" by (simp add: purge_def fun_eq_iff split: option.split)
    ultimately show ?thesis using Cons by simp
  next
    case (Some nm)
    let ?m = "reg_look (file_text st)"
    obtain p st1 where l: "lookup rs (Some nm) st = (p, st1)" by fastforce
    have f: "file_text st1 = file_text st" using lookup_state [OF rs, of nm st] l by simp
    have p: "p = (case ?m nm of None \<Rightarrow> [] | Some p \<Rightarrow> p)" using lookup_ok [OF rs, of nm st] l by simp
    show ?thesis
    proof (cases "?m nm")
      case None
      with Cons [of st1 bound] l f p \<open>x = Some nm\<close> show ?thesis by (simp add: purge_keep)
    next
      case (Some q)
      then have q: "p = q" "q \<noteq> []" using p reg_look_word by simp_all
      show ?thesis
      proof (cases "obj_get ls q")
        case (Inl e)
        then have e: "e = ENOENT" "\<not> live ls q" using ls by (auto simp: link_ok_def live_def)
        obtain r st2 where r: "remove_entry rs (Some nm) st1 = (r, st2)" by fastforce
        then have m2: "reg_look (file_text st2) = ?m(nm := None)"
          using remove_entry_look [OF rs, of nm st1] f by (simp only: snd_conv)
        have run: "resolve_maps rs ls (x # ms) st bound = resolve_maps rs ls ms st2 bound"
          using l q r Inl e \<open>x = Some nm\<close> by simp
        have skip: "to_bind ls ?m (x # ms) = to_bind ls ?m ms" using Some e(2) \<open>x = Some nm\<close> by simp
        show ?thesis
          unfolding run skip using Cons [of st2 bound]
          unfolding m2 to_bind_forget [of ?m, OF Some e(2)] purge_forget [of ?m, OF Some e(2)] \<open>x = Some nm\<close> .
      next
        case (Inr fd)
        then have "live ls q" "reuse_fd ls nm fd = 0" using ls by (auto simp: link_ok_def live_def)
        with Cons [of st1 "bound @ [(nm, q)]"] l f q Inr Some \<open>x = Some nm\<close> show ?thesis
          by (simp add: purge_keep)
      qed
    qed
  qed
qed

lemma pin_shared_ok:
  assumes "sys_ok rs" "is_word nm" "path_exists rs (PIN_DIR @ nm) \<or> map_pin rs (PIN_DIR @ nm) = 0"
    and "mkdir_err ls \<in> {None, Some EEXIST}"
  shows "\<exists>st1. bpf_linker_pin_shared rs ls (Some (Some nm)) st = (0, st1)
     \<and> reg_look (file_text st1) = (reg_look (file_text st))(nm \<mapsto> PIN_DIR @ nm)"
proof -
  have ne: "nm \<noteq> []" using assms(2) by (simp add: is_word_def)
  have w: "is_word (PIN_DIR @ nm)" using assms(2) by (auto simp: is_word_def is_space_def)
  obtain st1 where r: "register_map rs (Some nm) True (Some (PIN_DIR @ nm)) st = (0, st1)"
    "reg_file st1 = Some (reg_ins nm (PIN_DIR @ nm) (file_text st))"
    using register_map_ok [OF assms(1,3)] by blast
  then have "reg_look (file_text st1) = (reg_look (file_text st))(nm \<mapsto> PIN_DIR @ nm)"
    by (simp only: file_text_def option.case reg.look_ins [OF assms(2) w])
  moreover have "bpf_linker_pin_shared rs ls (Some (Some nm)) st = (0, st1)"
    using r(1) assms(4) ne by (auto simp: bpf_linker_pin_shared_def)
  ultimately show ?thesis by blast
qed

lemma to_bind_member:
  assumes "live ls p" "m nm = Some p"
  shows "Some nm \<in> set ms \<Longrightarrow> (nm, p) \<in> set (to_bind ls m ms)"
proof (induction ms)
  case Nil
  then show ?case by simp
next
  case (Cons x ms)
  then show ?case using assms by (cases x) (auto split: option.splits)
qed

lemma resolve_binds:
  assumes "sys_ok rs" "link_ok ls" "Some nm \<in> set ms" "live ls p" "reg_look (file_text st) nm = Some p"
  shows "\<exists>st' bound. bpf_linker_resolve_extern rs ls ms st = (0, st', bound) \<and> (nm, p) \<in> set bound"
  using resolve_maps_ok [OF assms(1,2), of ms st "[]"] to_bind_member [of ls p "reg_look (file_text st)", OF assms(4,5,3)]
  by (auto simp: bpf_linker_resolve_extern_def)

section \<open>Properties\<close>

text \<open>Resolving the maps of an object binds exactly those maps whose name is registered with a
  pin path that still exists, in the order of the object and each to the registered path; the
  registry forgets exactly the names of the object whose path is gone, and keeps everything
  else.\<close>

theorem resolve_extern_correct:
  assumes "sys_ok rs" "link_ok ls"
  shows "\<exists>st'. bpf_linker_resolve_extern rs ls ms st = (0, st', to_bind ls (reg_look (file_text st)) ms)
     \<and> reg_look (file_text st') = purge ls ms (reg_look (file_text st))"
  using resolve_maps_ok [OF assms, of ms st "[]"] by (simp add: bpf_linker_resolve_extern_def)

definition ex_links :: link_sys where
  "ex_links = \<lparr>obj_get = (\<lambda>p. if p = ''/gone'' then Inl ENOENT else Inr 9), reuse_fd = (\<lambda>n fd. 0),
     mkdir_err = Some EEXIST\<rparr>"

theorem resolve_extern_correct_witness:
  "\<exists>st'. bpf_linker_resolve_extern ex_sys ex_links [Some ''b'', None, Some ''a'', Some ''c'']
       \<lparr>reg_file = Some (''a /x'' @ [NL] @ ''b /gone'' @ [NL]), pinned = []\<rparr> = (0, st', [(''a'', ''/x'')])"
proof -
  have "sys_ok ex_sys" "link_ok ex_links" by (simp_all add: sys_ok_def ex_sys_def link_ok_def ex_links_def)
  then show ?thesis
    using resolve_extern_correct [of ex_sys ex_links "[Some ''b'', None, Some ''a'', Some ''c'']"
        "\<lparr>reg_file = Some (''a /x'' @ [NL] @ ''b /gone'' @ [NL]), pinned = []\<rparr>"]
    by (auto simp: reg_look_def file_text_def read_text_def getlines_def List.map_filter_def parse_line_def
        read_word_def is_space_def live_def ex_links_def)
qed

text \<open>A map shared by one tool is found by the next: after a successful
  \<open>bpf_linker_pin_shared\<close> an object that has a map of that name is bound to the pinned path.\<close>

theorem pin_then_resolve:
  assumes "sys_ok rs" "link_ok ls" "is_word nm"
    and "path_exists rs (PIN_DIR @ nm) \<or> map_pin rs (PIN_DIR @ nm) = 0"
    and "mkdir_err ls \<in> {None, Some EEXIST}" and "live ls (PIN_DIR @ nm)" and "Some nm \<in> set ms"
  shows "\<exists>st1 st2 bound. bpf_linker_pin_shared rs ls (Some (Some nm)) st = (0, st1)
     \<and> bpf_linker_resolve_extern rs ls ms st1 = (0, st2, bound) \<and> (nm, PIN_DIR @ nm) \<in> set bound"
proof -
  obtain st1 where "bpf_linker_pin_shared rs ls (Some (Some nm)) st = (0, st1)"
    "reg_look (file_text st1) = (reg_look (file_text st))(nm \<mapsto> PIN_DIR @ nm)"
    using pin_shared_ok [OF assms(1,3-5)] by blast
  moreover from this obtain st2 bound where "bpf_linker_resolve_extern rs ls ms st1 = (0, st2, bound)"
    "(nm, PIN_DIR @ nm) \<in> set bound"
    using resolve_binds [OF assms(1,2,7,6), of st1] by auto
  ultimately show ?thesis by blast
qed

theorem pin_then_resolve_witness:
  "\<exists>st1 st2 bound. bpf_linker_pin_shared ex_sys ex_links (Some (Some ''m'')) \<lparr>reg_file = None, pinned = []\<rparr> = (0, st1)
     \<and> bpf_linker_resolve_extern ex_sys ex_links [Some ''m''] st1 = (0, st2, bound)
     \<and> (''m'', PIN_DIR @ ''m'') \<in> set bound"
  by (rule pin_then_resolve)
    (simp_all add: sys_ok_def ex_sys_def link_ok_def ex_links_def is_word_def is_space_def live_def)

end
