(* ===== verification/Dkapture_Api.thy ===== *)
theory Dkapture_Api
  imports Data_Update C_Strings
begin

text \<open>
  The interface of the library, \<open>so/dkapture.cpp\<close>, and the log levels of \<open>so/log.cpp\<close>: opening and
  closing, the lifetime of captured data, paths of the form \<open>/proc/<pid>/<file>\<close>, the overloads of
  \<open>read\<close> on top of \<open>DataMap::find\<close>, and the watch functions. The overloads rely on the data map
  only through the locale \<open>data_source\<close>, which \<open>find\<close> is shown to implement.
\<close>

section \<open>Log levels\<close>

datatype log_level = LOG_ERROR | LOG_WARN | LOG_INFO | LOG_DEBUG | LOG_MAX

primrec level_num :: "log_level \<Rightarrow> int" where
  "level_num LOG_ERROR = 0"
| "level_num LOG_WARN = 1"
| "level_num LOG_INFO = 2"
| "level_num LOG_DEBUG = 3"
| "level_num LOG_MAX = 4"

definition set_level :: "int \<Rightarrow> int" where
  "set_level level = (if level < level_num LOG_ERROR \<or> level > level_num LOG_MAX then level_num LOG_WARN else level)"

text \<open>Whether a message of a kind is printed at a level; errors always are.\<close>

definition log_prints :: "int \<Rightarrow> log_level \<Rightarrow> bool" where
  "log_prints level kind =
     (case kind of
        LOG_INFO \<Rightarrow> \<not> level < level_num LOG_INFO
      | LOG_DEBUG \<Rightarrow> \<not> level < level_num LOG_DEBUG
      | LOG_WARN \<Rightarrow> \<not> level < level_num LOG_WARN
      | _ \<Rightarrow> True)"

section \<open>Opening and closing\<close>

record 'm dk_obj =
  m_datamap :: "'m option"
  m_lifetime :: u64
  m_level :: int

definition dk_new :: "'m dk_obj" where
  "dk_new = \<lparr>m_datamap = None, m_lifetime = 10, m_level = level_num LOG_INFO\<rparr>"

text \<open>What \<open>new DataMap()\<close> does: a \<open>system_error\<close> with a code, another exception, or a map.\<close>

datatype 'm dm_ctor = CtorSysErr int | CtorOther | CtorOk 'm

definition dk_close :: "'m dk_obj \<Rightarrow> int \<times> 'm dk_obj" where
  "dk_close d = (0, d\<lparr>m_datamap := None\<rparr>)"

definition dk_open :: "int \<Rightarrow> int \<Rightarrow> 'm dm_ctor \<Rightarrow> 'm dk_obj \<Rightarrow> int \<times> 'm dk_obj" where
  "dk_open uid lvl ctor d0 =
     (let d = d0\<lparr>m_level := set_level lvl\<rparr>
      in if uid \<noteq> 0 then (- EPERM, d)
         else if m_datamap d \<noteq> None then (- EEXIST, d)
         else case ctor of
           CtorSysErr e \<Rightarrow> (- e, snd (dk_close d))
         | CtorOther \<Rightarrow> (- ENOMEM, snd (dk_close d))
         | CtorOk m \<Rightarrow> (0, d\<lparr>m_datamap := Some m\<rparr>))"

definition lifetime :: "u64 \<Rightarrow> 'm dk_obj \<Rightarrow> u64 \<times> 'm dk_obj" where
  "lifetime ms d =
     (if ms = UINT64_MAX then (m_lifetime d, d)
      else let ms' = (if 3600 * 1000 < ms then 3600 * 1000 else ms)
        in (m_lifetime d, d\<lparr>m_lifetime := ms'\<rparr>))"

section \<open>Paths\<close>

text \<open>The file names and the types they select, in the order of the comparisons.\<close>

definition proc_files :: "(string \<times> DataType) list" where
  "proc_files =
     [(''io'', PROC_PID_IO), (''stat'', PROC_PID_STAT), (''statm'', PROC_PID_STATM),
      (''traffic'', PROC_PID_traffic), (''status'', PROC_PID_STATUS), (''schedstat'', PROC_PID_SCHEDSTAT),
      (''fd'', PROC_PID_FD), (''ns'', PROC_PID_NS), (''loginuid'', PROC_PID_LOGINUID)]"

text \<open>
  \<open>parse_path\<close>: the value returned, and the type if it was set. \<open>end == &path[i]\<close> compares
  positions in the string, which are given by the length of what is left.
\<close>

definition parse_path :: "string \<Rightarrow> int \<times> DataType option" where
  "parse_path path =
     (if take 6 path \<noteq> ''/proc/'' then (- EINVAL, None)
      else let p = drop 6 path;
               tail = dropWhile (\<lambda>c. c \<noteq> CHR ''/'') p
        in case strtol10 p of (v, rest, ov) \<Rightarrow>
             let pid = to_int32 v
             in if length rest = length tail \<and> tail \<noteq> []
                then case map_of proc_files (tl tail) of
                       Some dt \<Rightarrow> (pid, Some dt)
                     | None \<Rightarrow> (- ENOSYS, None)
                else (- ENOSYS, None))"

section \<open>read\<close>

text \<open>
  A source of data as the overloads use it: for a key, whether there is a buffer, and its size, the
  result, the bytes that are put into the buffer, and the state afterwards.
\<close>

type_synonym 's source = "u64 \<Rightarrow> bool \<Rightarrow> u64 \<Rightarrow> 's \<Rightarrow> (int \<times> bytes \<times> 's) outcome"

definition read_one :: "'s source \<Rightarrow> (DataType \<Rightarrow> u32) \<Rightarrow> DataType \<Rightarrow> int \<Rightarrow> bool \<Rightarrow> u64 \<Rightarrow> 's \<Rightarrow> (int \<times> bytes \<times> 's) outcome" where
  "read_one src dtv dt pid has_buf bz s = src (MK_KEY pid (dtv dt)) has_buf bz s"

text \<open>
  \<open>read(dts, pid, buf, bsz)\<close>: what a successful call delivers is placed after what is there; a call
  that fails is skipped. The value returned is \<open>bsz\<close>, from which the sizes were subtracted.
\<close>

fun read_dts :: "'s source \<Rightarrow> (DataType \<Rightarrow> u32) \<Rightarrow> DataType list \<Rightarrow> int \<Rightarrow> u64 \<Rightarrow> 's \<Rightarrow> (int \<times> bytes \<times> 's) outcome" where
  "read_dts src dtv [] pid bz s = Done (sint bz, [], s)"
| "read_dts src dtv (dt # dts) pid bz s =
     bind_outcome (read_one src dtv dt pid True bz s) (\<lambda>(ret, out, s').
       if ret < 0 then read_dts src dtv dts pid bz s'
       else bind_outcome (read_dts src dtv dts pid (bz - of_int ret) s') (\<lambda>(r, outs, s'').
         Done (r, out @ outs, s'')))"

text \<open>\<open>read(path, buf, bsz)\<close>; a null path or buffer is \<open>None\<close> or \<open>False\<close>.\<close>

definition read_path :: "'s source \<Rightarrow> (DataType \<Rightarrow> u32) \<Rightarrow> string option \<Rightarrow> bool \<Rightarrow> u64 \<Rightarrow> 's \<Rightarrow> (int \<times> bytes \<times> 's) outcome" where
  "read_path src dtv path has_buf bz s =
     (case path of
        None \<Rightarrow> Done (- EINVAL, [], s)
      | Some p \<Rightarrow>
          (if \<not> has_buf \<or> bz = 0 then Done (- EINVAL, [], s)
           else case parse_path p of
             (pid, None) \<Rightarrow> Done (pid, [], s)
           | (pid, Some dt) \<Rightarrow> if pid < 0 then Done (pid, [], s) else read_one src dtv dt pid True bz s))"

fun read_paths :: "'s source \<Rightarrow> (DataType \<Rightarrow> u32) \<Rightarrow> string list \<Rightarrow> u64 \<Rightarrow> 's \<Rightarrow> (int \<times> bytes \<times> 's) outcome" where
  "read_paths src dtv [] bz s = Done (sint bz, [], s)"
| "read_paths src dtv (p # ps) bz s =
     bind_outcome (read_path src dtv (Some p) True bz s) (\<lambda>(ret, out, s').
       if ret < 0 then read_paths src dtv ps bz s'
       else bind_outcome (read_paths src dtv ps (bz - of_int ret) s') (\<lambda>(r, outs, s'').
         Done (r, out @ outs, s'')))"

text \<open>
  \<open>read(dt, pids, buf, bsz)\<close> with its assertion that a result fits; \<open>dsz\<close> is the size at the start.
\<close>

fun read_pids_loop ::
  "'s source \<Rightarrow> (DataType \<Rightarrow> u32) \<Rightarrow> DataType \<Rightarrow> int list \<Rightarrow> u64 \<Rightarrow> u64 \<Rightarrow> 's \<Rightarrow> (int \<times> bytes \<times> 's) outcome" where
  "read_pids_loop src dtv dt [] dsz bz s = Done (sint (dsz - bz), [], s)"
| "read_pids_loop src dtv dt (pid # pids) dsz bz s =
     bind_outcome (read_one src dtv dt pid True bz s) (\<lambda>(ret, out, s').
       if ret \<le> 0 then read_pids_loop src dtv dt pids dsz bz s'
       else if bz < of_int ret then Aborted
       else bind_outcome (read_pids_loop src dtv dt pids dsz (bz - of_int ret) s') (\<lambda>(r, outs, s'').
         Done (r, out @ outs, s'')))"

definition read_pids ::
  "'s source \<Rightarrow> (DataType \<Rightarrow> u32) \<Rightarrow> DataType \<Rightarrow> int list \<Rightarrow> u64 \<Rightarrow> 's \<Rightarrow> (int \<times> bytes \<times> 's) outcome" where
  "read_pids src dtv dt pids bz s = read_pids_loop src dtv dt pids bz bz s"

section \<open>The data map as a source\<close>

text \<open>What one call of \<open>find\<close> meets, and the state between calls.\<close>

record find_env =
  fe_tid :: int
  fe_t0 :: int
  fe_t1 :: int
  fe_clk :: "u64 \<Rightarrow> u64"
  fe_fd :: int
  fe_ins :: "poll_in list"
  fe_v1 :: bview
  fe_now1 :: u64
  fe_v2 :: bview
  fe_now2 :: u64

record 'u dk_state =
  dk_envs :: "find_env list"
  dk_ring :: bring
  dk_map :: datamap
  dk_ctx :: 'u
  dk_cb :: "'u user_cb"

definition dm_find :: "(DataType \<Rightarrow> u32) \<Rightarrow> u64 \<Rightarrow> 'u dk_state source" where
  "dm_find dtv life key has_buf bz st =
     (case dk_envs st of
        [] \<Rightarrow> Blocked
      | e # es \<Rightarrow>
          bind_outcome
            (find (fe_tid e) (fe_t0 e) (fe_t1 e) (fe_clk e) dtv (fe_fd e) (fe_ins e) (fe_v1 e) (fe_now1 e)
               (fe_v2 e) (fe_now2 e) (dk_cb st) key life has_buf bz (dk_ring st) (dk_map st) (dk_ctx st))
            (\<lambda>((ret, out, ctx, rb, dm), w).
               Done (ret, out, st\<lparr>dk_envs := es, dk_ring := rb, dk_map := dm\<lparr>dm_lock := w\<rparr>, dk_ctx := ctx\<rparr>)))"

text \<open>
  \<open>read(dt, cb, ctx)\<close>: the callback is installed for one query of all processes; sockets go to
  \<open>lsock_query\<close>, which is a parameter.
\<close>

definition read_cb ::
  "('u dk_state \<Rightarrow> (int \<times> 'u dk_state) outcome) \<Rightarrow> (DataType \<Rightarrow> u32) \<Rightarrow> u64 \<Rightarrow> DataType \<Rightarrow>
   (bytes \<Rightarrow> 'u \<Rightarrow> int \<times> 'u) \<Rightarrow> 'u dk_state \<Rightarrow> (int \<times> 'u dk_state) outcome" where
  "read_cb lsock_query dtv life dt f st =
     (if dt = PROC_PID_sock then lsock_query st
      else bind_outcome (read_one (dm_find dtv life) dtv dt 0 False 0 (st\<lparr>dk_cb := Some f\<rparr>))
             (\<lambda>(ret, out, st'). Done (ret, st'\<lparr>dk_cb := None\<rparr>)))"

fun read_dts_cb ::
  "('u dk_state \<Rightarrow> (int \<times> 'u dk_state) outcome) \<Rightarrow> (DataType \<Rightarrow> u32) \<Rightarrow> u64 \<Rightarrow> DataType list \<Rightarrow>
   (bytes \<Rightarrow> 'u \<Rightarrow> int \<times> 'u) \<Rightarrow> int \<Rightarrow> 'u dk_state \<Rightarrow> (int \<times> 'u dk_state) outcome" where
  "read_dts_cb lsock_query dtv life [] f tot st = Done (tot, st)"
| "read_dts_cb lsock_query dtv life (dt # dts) f tot st =
     bind_outcome (read_cb lsock_query dtv life dt f st) (\<lambda>(rsz, st').
       read_dts_cb lsock_query dtv life dts f (if rsz \<le> 0 then tot else tot + rsz) st')"

fun read_paths_cb ::
  "('u dk_state \<Rightarrow> (int \<times> 'u dk_state) outcome) \<Rightarrow> (DataType \<Rightarrow> u32) \<Rightarrow> u64 \<Rightarrow> string list \<Rightarrow>
   (bytes \<Rightarrow> 'u \<Rightarrow> int \<times> 'u) \<Rightarrow> int \<Rightarrow> 'u dk_state \<Rightarrow> (int \<times> 'u dk_state) outcome" where
  "read_paths_cb lsock_query dtv life [] f tot st = Done (tot, st)"
| "read_paths_cb lsock_query dtv life (p # ps) f tot st =
     (case parse_path p of
        (pid, Some dt) \<Rightarrow>
          (if pid < 0 then read_paths_cb lsock_query dtv life ps f tot st
           else bind_outcome (read_cb lsock_query dtv life dt f st) (\<lambda>(rsz, st').
             read_paths_cb lsock_query dtv life ps f (if rsz \<le> 0 then tot else tot + rsz) st'))
      | (pid, None) \<Rightarrow> read_paths_cb lsock_query dtv life ps f tot st)"

section \<open>Watching\<close>

text \<open>The observers that the watch functions start and stop, with their command line.\<close>

datatype watch_call =
    TraceFileDeinit | TraceFileInit "string list"
  | MountsnoopDeinit | MountsnoopInit "string list"
  | IrqsnoopDeinit | IrqsnoopInit "string list"
  | KmemleakStop | KmemleakStart "string list"

definition file_watch :: "string option \<Rightarrow> bool \<Rightarrow> watch_call" where
  "file_watch path has_cb =
     (if \<not> has_cb then TraceFileDeinit
      else case path of
        None \<Rightarrow> TraceFileInit [''dkapture'']
      | Some p \<Rightarrow> if p = [] then TraceFileInit [''dkapture''] else TraceFileInit [''dkapture'', ''-p'', p])"

definition fs_watch :: "string option \<Rightarrow> bool \<Rightarrow> watch_call" where
  "fs_watch path has_cb =
     (if \<not> has_cb then MountsnoopDeinit
      else case path of
        None \<Rightarrow> MountsnoopInit [''dkapture'']
      | Some p \<Rightarrow> if p = [] then MountsnoopInit [''dkapture''] else TraceFileInit [''dkapture'', ''-p'', p])"

definition irq_watch :: "bool \<Rightarrow> watch_call" where
  "irq_watch has_cb = (if \<not> has_cb then IrqsnoopDeinit else IrqsnoopInit [''dkapture''])"

definition kmemleak_scan_start :: "int \<Rightarrow> watch_call" where
  "kmemleak_scan_start pid = KmemleakStart [''dkapture'', ''-p'', show_int pid]"

definition kmemleak_scan_stop :: watch_call where
  "kmemleak_scan_stop = KmemleakStop"

section \<open>What the overloads rely on\<close>

text \<open>
  One query after the other: each gets what is left of the buffer, and what a successful query
  delivers is taken off it.
\<close>

primrec serve :: "'s source \<Rightarrow> u64 list \<Rightarrow> nat \<Rightarrow> 's \<Rightarrow> (bytes list \<times> 's) outcome" where
  "serve src [] b s = Done ([], s)"
| "serve src (k # ks) b s =
     bind_outcome (src k True (of_nat b) s) (\<lambda>(r, out, s').
       let d = (if 0 < r then out else [])
       in bind_outcome (serve src ks (b - length d) s') (\<lambda>(ds, s''). Done (d # ds, s'')))"

lemma bind_outcome_assoc: "bind_outcome (bind_outcome m f) g = bind_outcome m (\<lambda>x. bind_outcome (f x) g)"
  by (cases m) simp_all

lemma sint_of_small: "unat (w :: u64) < 2 ^ 63 \<Longrightarrow> sint w = int (unat w)"
proof -
  assume "unat w < 2 ^ 63"
  then have "int (unat w) < int (2 ^ 63)" by (simp only: of_nat_less_iff)
  then have "uint w < 2 ^ 63" by (simp only: of_nat_unat of_nat_power of_nat_numeral)
  moreover have "0 \<le> uint w" by simp
  ultimately have "signed_take_bit 63 (uint w) = uint w" by (intro signed_take_bit_int_eq_self) linarith+
  then show ?thesis by (simp add: sint_uint)
qed

locale data_source =
  fixes src :: "'s source"
  assumes src_len: "unat bz < 2 ^ 31 \<Longrightarrow> src key True bz s = Done (r, out, s') \<Longrightarrow> 0 \<le> r \<Longrightarrow>
      r = int (length out) \<and> length out \<le> unat bz"
begin

lemma sub_ret:
  assumes "unat bz < 2 ^ 31" "src key True bz s = Done (r, out, s')" "0 \<le> r"
  shows "unat (bz - of_int r) = unat bz - length out" "r = int (length out)" "length out \<le> unat bz"
    "\<not> bz < of_int r"
proof -
  show l: "r = int (length out)" "length out \<le> unat bz" using src_len [OF assms] by simp_all
  have n: "unat (of_nat (length out) :: u64) = length out"
    using l(2) assms(1) by (intro unat_of_nat_63) simp
  then show "\<not> bz < of_int r" using l by (simp add: word_less_nat_alt)
  then show "unat (bz - of_int r) = unat bz - length out" using l n by (simp add: unat_sub_le not_less)
qed

lemma serve_bound:
  assumes "b < 2 ^ 31" "serve src ks b s = Done (ds, s')"
  shows "length (concat ds) \<le> b"
  using assms
proof (induction ks arbitrary: b s ds)
  case Nil
  then show ?case by auto
next
  case (Cons k ks)
  have u: "unat (of_nat b :: u64) = b" using Cons.prems(1) by (intro unat_of_nat_63) simp
  from Cons.prems(2) obtain r out s1 where 1: "src k True (of_nat b) s = Done (r, out, s1)"
    by (auto simp: bind_outcome_Done_iff)
  define d where "d = (if 0 < r then out else [])"
  have d: "length d \<le> b" using src_len [OF _ 1] u Cons.prems(1) by (auto simp: d_def)
  from Cons.prems(2) 1 obtain es where "serve src ks (b - length d) s1 = Done (es, s')" "ds = d # es"
    by (auto simp: bind_outcome_Done_iff Let_def d_def)
  with Cons.IH [of "b - length d"] Cons.prems(1) d show ?case by fastforce
qed

text \<open>Several processes: the result is the number of bytes placed, and the assertion never fails.\<close>

lemma read_pids_loop_serve:
  assumes "unat dsz < 2 ^ 31" "unat bz \<le> unat dsz"
  shows "read_pids_loop src dtv dt pids dsz bz s
    = bind_outcome (serve src (map (\<lambda>pid. MK_KEY pid (dtv dt)) pids) (unat bz) s)
        (\<lambda>(ds, s'). Done (int (unat dsz - unat bz) + int (length (concat ds)), concat ds, s'))"
  using assms(2)
proof (induction pids arbitrary: bz s)
  case Nil
  then have "unat (dsz - bz) = unat dsz - unat bz" by (simp add: unat_sub_le word_le_nat_alt)
  moreover have "sint (dsz - bz) = int (unat (dsz - bz))"
    using calculation assms(1) by (intro sint_of_small) simp
  ultimately show ?case by simp
next
  case (Cons pid pids)
  let ?q = "src (MK_KEY pid (dtv dt)) True bz s"
  have bz: "unat bz < 2 ^ 31" using Cons.prems assms(1) by simp
  show ?case
  proof (cases ?q)
    case (Done x)
    obtain r out s1 where x: "x = (r, out, s1)" by (cases x)
    show ?thesis
    proof (cases "0 < r")
      case False
      with Done x Cons.IH [OF Cons.prems, of s1] show ?thesis
        by (simp add: read_one_def bind_outcome_assoc Let_def case_prod_beta)
    next
      case True
      then have sr: "unat (bz - of_int r) = unat bz - length out" "length out \<le> unat bz" "\<not> bz < of_int r"
        using sub_ret [OF bz Done [unfolded x]] by simp_all
      have le: "unat (bz - of_int r) \<le> unat dsz" using sr(1) Cons.prems by simp
      have e: "int (unat dsz - (unat bz - length out)) = int (unat dsz - unat bz) + int (length out)"
        using sr(2) Cons.prems by simp
      show ?thesis
        using True Done x sr(3) Cons.IH [OF le, of s1]
        by (simp add: read_one_def bind_outcome_assoc Let_def case_prod_beta sr(1) e add.assoc)
    qed
  qed (simp_all add: read_one_def)
qed

text \<open>Several types: the result is what is left of the buffer.\<close>

lemma read_dts_serve:
  assumes "unat bz < 2 ^ 31"
  shows "read_dts src dtv dts pid bz s
    = bind_outcome (serve src (map (\<lambda>dt. MK_KEY pid (dtv dt)) dts) (unat bz) s)
        (\<lambda>(ds, s'). Done (int (unat bz) - int (length (concat ds)), concat ds, s'))"
  using assms
proof (induction dts arbitrary: bz s)
  case Nil
  then show ?case using sint_of_small [of bz] by simp
next
  case (Cons dt dts)
  let ?q = "src (MK_KEY pid (dtv dt)) True bz s"
  show ?case
  proof (cases ?q)
    case (Done x)
    obtain r out s1 where x: "x = (r, out, s1)" by (cases x)
    consider "r < 0" | "r = 0" | "0 < r" by linarith
    then show ?thesis
    proof cases
      case 1
      with Done x Cons.IH [OF Cons.prems, of s1] show ?thesis
        by (simp add: read_one_def bind_outcome_assoc Let_def case_prod_beta)
    next
      case 2
      then have "out = []" using sub_ret(2) [OF Cons.prems Done [unfolded x]] by simp
      with 2 Done x Cons.IH [OF Cons.prems, of s1] show ?thesis
        by (simp add: read_one_def bind_outcome_assoc Let_def case_prod_beta)
    next
      case 3
      then have sr: "unat (bz - of_int r) = unat bz - length out" "length out \<le> unat bz"
        using sub_ret [OF Cons.prems Done [unfolded x]] by simp_all
      have lt: "unat (bz - of_int r) < 2 ^ 31" using sr(1) Cons.prems by simp
      have e: "int (unat bz - length out) = int (unat bz) - int (length out)"
        using sr(2) by (rule of_nat_diff)
      show ?thesis
        using 3 Done x Cons.IH [OF lt, of s1]
        by (simp add: read_one_def bind_outcome_assoc Let_def case_prod_beta sr(1) e diff_diff_eq)
    qed
  qed (simp_all add: read_one_def)
qed

end

section \<open>find as a data source\<close>

lemma sub_loop_len:
  assumes "sub_loop dm v cb True dt is bz (int (length out)) out ctx = Done (r, out', ctx')"
    and "unat bz + length out < 2 ^ 31" "0 \<le> r"
  shows "r = int (length out') \<and> length out' \<le> unat bz + length out"
  using assms
proof (induction "is" arbitrary: bz out)
  case Nil
  then show ?case by auto
next
  case (Cons i js)
  from Cons.prems(1) obtain e where e: "entry_at dm i = Done e" by (auto simp: bind_outcome_Done_iff)
  let ?m = "msg_of v e"
  consider "KEY_DT (ent_hash e) \<noteq> dt" | "KEY_DT (ent_hash e) = dt" "unat bz < length ?m"
    | "KEY_DT (ent_hash e) = dt" "length ?m \<le> unat bz" by linarith
  then show ?case
  proof cases
    case 3
    have n: "unat (of_nat (length ?m) :: u64) = length ?m"
      using 3 Cons.prems(2) by (intro unat_of_nat_63) simp
    then have "(of_nat (length ?m) :: u64) \<le> bz" using 3 by (simp add: word_le_nat_alt)
    then have sub: "unat (bz - of_nat (length ?m)) = unat bz - length ?m" using unat_sub_le n by simp
    have ret: "to_int32 (int (length out) + int (length ?m)) = int (length (out @ ?m))"
      using 3 Cons.prems(2) by (simp add: to_int32_id)
    have "sub_loop dm v cb True dt js (bz - of_nat (length ?m)) (int (length (out @ ?m))) (out @ ?m) ctx
        = Done (r, out', ctx')"
      using Cons.prems(1) e 3 ret by (simp add: Let_def)
    then have "r = int (length out') \<and> length out' \<le> unat (bz - of_nat (length ?m)) + length (out @ ?m)"
      using Cons.prems(2,3) sub 3 by (intro Cons.IH) simp_all
    then show ?thesis using sub 3 by simp
  qed (use Cons e in \<open>auto simp: Let_def\<close>)
qed

lemma find_scan_len:
  assumes "find_scan dm v cb hash life now True bz sidx n ctx = Done (r, out, ctx')"
    and "unat bz < 2 ^ 31" "0 \<le> r"
  shows "r = int (length out) \<and> length out \<le> unat bz"
  using assms(1)
proof (induction n)
  case 0
  then show ?case using assms(3) by auto
next
  case (Suc n)
  from Suc.prems obtain e where e: "entry_at dm (sidx + n) = Done e" by (auto simp: bind_outcome_Done_iff)
  have sub: "r = int (length out) \<and> length out \<le> unat bz"
    if "sub_iterator dm v cb si True bz ctx = Done (r, out, ctx')" for si
    using that sub_loop_len [of dm v cb _ _ bz "[]" ctx r out ctx'] assms(2,3)
    by (auto simp: sub_iterator_def Let_def bind_outcome_Done_iff)
  have t: "to_int32 (int (length (msg_of v e))) = int (length (msg_of v e))" if "length (msg_of v e) \<le> unat bz"
    using that assms(2) by (intro to_int32_id) simp_all
  show ?case using Suc e assms(3) sub t by (auto simp: Let_def not_less split: if_splits)
qed

lemma with_lock_Done: "with_lock tid t0 t1 w body = Done (x, w') \<Longrightarrow> \<exists>u. body u = Done x"
  by (auto simp: with_lock_def bind_outcome_Done_iff split: lock_result.splits)

lemma update_ret: "update tid clk dtv fd ins rb dm = Done (r, rb', dm') \<Longrightarrow> r = 0 \<or> r = -1"
  by (auto simp: update_def Let_def bind_outcome_Done_iff split: if_splits)

lemma unsafe_find_len:
  assumes "unsafe_find tid dm v cb hash life now True bz ctx = Done (r, out, ctx')"
    and "unat bz < 2 ^ 31" "0 \<le> r"
  shows "r = int (length out) \<and> length out \<le> unat bz"
proof -
  from assms(1) obtain dm' where "find_scan dm' v cb hash (life * 1000000) now True bz
      (unat (get_round_idx dm')) (unat (m_ent_cnt dm')) ctx = Done (r, out, ctx')"
    by (auto simp: unsafe_find_def bind_outcome_Done_iff)
  then show ?thesis by (rule find_scan_len [OF _ assms(2,3)])
qed

interpretation dms: data_source "dm_find dtv life" for dtv life
proof unfold_locales
  fix bz key r out and s s' :: "'u dk_state"
  assume a: "unat bz < 2 ^ 31" "dm_find dtv life key True bz s = Done (r, out, s')" "0 \<le> r"
  from a(2) obtain e es ctx rb dm w where "dk_envs s = e # es"
    and f: "find (fe_tid e) (fe_t0 e) (fe_t1 e) (fe_clk e) dtv (fe_fd e) (fe_ins e) (fe_v1 e) (fe_now1 e)
        (fe_v2 e) (fe_now2 e) (dk_cb s) key life True bz (dk_ring s) (dk_map s) (dk_ctx s)
        = Done ((r, out, ctx, rb, dm), w)"
    by (auto simp: dm_find_def bind_outcome_Done_iff split: list.splits)
  from with_lock_Done [OF f [unfolded find_def]] obtain u where u:
    "bind_outcome (unsafe_find (fe_tid e) (dk_map s\<lparr>dm_lock := u\<rparr>) (fe_v1 e) (dk_cb s) key life (fe_now1 e) True bz (dk_ctx s))
       (\<lambda>(ret, out, ctx').
           if 0 < ret then Done (ret, out, ctx', dk_ring s, dk_map s\<lparr>dm_lock := u\<rparr>)
           else bind_outcome (update (fe_tid e) (fe_clk e) dtv (fe_fd e) (fe_ins e) (dk_ring s) (dk_map s\<lparr>dm_lock := u\<rparr>)) (\<lambda>(r, rb', dm').
             if r \<noteq> 0 then Done (r, out, ctx', rb', dm')
             else bind_outcome (unsafe_find (fe_tid e) dm' (fe_v2 e) (dk_cb s) key life (fe_now2 e) True bz ctx')
               (\<lambda>(ret', out', ctx''). Done (ret', out', ctx'', rb', dm')))) = Done (r, out, ctx, rb, dm)"
    by blast
  show "r = int (length out) \<and> length out \<le> unat bz"
  proof -
    from u obtain r1 o1 c1 where 1: "unsafe_find (fe_tid e) (dk_map s\<lparr>dm_lock := u\<rparr>) (fe_v1 e) (dk_cb s) key life
        (fe_now1 e) True bz (dk_ctx s) = Done (r1, o1, c1)"
      by (auto simp: bind_outcome_Done_iff)
    show ?thesis
    proof (cases "0 < r1")
      case True
      with u 1 have "r1 = r" "o1 = out" by simp_all
      with unsafe_find_len [OF 1 a(1)] a(3) show ?thesis by simp
    next
      case False
      with u 1 obtain r2 rb2 dm2 where 2: "update (fe_tid e) (fe_clk e) dtv (fe_fd e) (fe_ins e) (dk_ring s)
          (dk_map s\<lparr>dm_lock := u\<rparr>) = Done (r2, rb2, dm2)"
        by (auto simp: bind_outcome_Done_iff)
      have "r2 = 0" using update_ret [OF 2] u 1 2 False a(3) by auto
      with u 1 2 False obtain c3 where "unsafe_find (fe_tid e) dm2 (fe_v2 e) (dk_cb s) key life (fe_now2 e) True bz c1
          = Done (r, out, c3)"
        by (auto simp: bind_outcome_Done_iff)
      from unsafe_find_len [OF this a(1,3)] show ?thesis .
    qed
  qed
qed

section \<open>Paths and lifetimes\<close>

lemma no_slash_in_digits: "is_digit c \<Longrightarrow> c \<noteq> CHR ''/''"
  by (auto simp: is_digit_def)

lemma parse_path_proc:
  assumes "n < 2 ^ 31" "map_of proc_files f = Some dt"
  shows "parse_path (''/proc/'' @ show_nat n @ ''/'' @ f) = (int n, Some dt)"
proof -
  let ?p = "show_nat n @ ''/'' @ f"
  have ds: "\<forall>c \<in> set (show_nat n). c \<noteq> CHR ''/''" using show_nat_props [of n] no_slash_in_digits by blast
  have tail: "dropWhile (\<lambda>c. c \<noteq> CHR ''/'') ?p = ''/'' @ f"
    using ds by (simp add: dropWhile_append2)
  have "\<not> is_digit (CHR ''/'')" using no_slash_in_digits by blast
  then have "scan_number ?p = Some (False, n, ''/'' @ f)" by (intro scan_show_nat) simp
  then have "strtol10 ?p = (int n, ''/'' @ f, False)" using assms(1) by (simp add: strtol10_def)
  moreover have "to_int32 (int n) = int n" using assms(1) by (intro to_int32_id) simp_all
  ultimately show ?thesis using tail assms(2) by (simp add: parse_path_def Let_def)
qed

lemma parse_path_shape:
  assumes "parse_path path = (pid, Some dt)"
  shows "\<exists>a f. path = ''/proc/'' @ a @ ''/'' @ f \<and> CHR ''/'' \<notin> set a \<and> map_of proc_files f = Some dt"
proof -
  define p where "p = drop 6 path"
  define tail where "tail = dropWhile (\<lambda>c. c \<noteq> CHR ''/'') p"
  have t: "take 6 path = ''/proc/''" "tail \<noteq> []" "map_of proc_files (tl tail) = Some dt"
    using assms unfolding parse_path_def p_def tail_def
    by (auto simp: Let_def split: if_splits prod.splits option.splits)
  have "hd tail = CHR ''/''" using t(2) hd_dropWhile [of "\<lambda>c. c \<noteq> CHR ''/''" p] unfolding tail_def by blast
  then have "tail = ''/'' @ tl tail" using t(2) by (cases tail) auto
  moreover have "p = takeWhile (\<lambda>c. c \<noteq> CHR ''/'') p @ tail" by (simp add: tail_def)
  moreover have "path = ''/proc/'' @ p" using t(1) append_take_drop_id [of 6 path] unfolding p_def by metis
  moreover have "CHR ''/'' \<notin> set (takeWhile (\<lambda>c. c \<noteq> CHR ''/'') p)" by (auto dest: set_takeWhileD)
  ultimately show ?thesis using t(3) by metis
qed

lemma lifetime_bound: "m_lifetime d \<le> 3600000 \<Longrightarrow> m_lifetime (snd (lifetime ms d)) \<le> 3600000"
  by (auto simp: lifetime_def Let_def not_less)

lemma lifetimes_bound: "m_lifetime d \<le> 3600000 \<Longrightarrow> m_lifetime (fold (\<lambda>ms d. snd (lifetime ms d)) mss d) \<le> 3600000"
  by (induction mss arbitrary: d) (simp_all add: lifetime_bound)

section \<open>Properties\<close>

text \<open>Paths: \<open>/proc/<pid>/<file>\<close> with a decimal process id below 2 to the 31 and one of the nine
  file names selects that process and the type of the file, and every path that is accepted
  starts with \<open>/proc/\<close>, has one component in the place of the process id, and ends in one of these
  names.\<close>

theorem parse_path_correct:
  "(\<forall>n f dt. n < 2 ^ 31 \<and> map_of proc_files f = Some dt \<longrightarrow>
      parse_path (''/proc/'' @ show_nat n @ ''/'' @ f) = (int n, Some dt))
   \<and> (\<forall>path pid dt. parse_path path = (pid, Some dt) \<longrightarrow>
        (\<exists>a f. path = ''/proc/'' @ a @ ''/'' @ f \<and> CHR ''/'' \<notin> set a \<and> map_of proc_files f = Some dt))"
  using parse_path_proc parse_path_shape by blast

theorem parse_path_correct_witness:
  "parse_path (''/proc/'' @ show_nat 4711 @ ''/'' @ ''statm'') = (4711, Some PROC_PID_STATM)"
proof -
  have "map_of proc_files ''statm'' = Some PROC_PID_STATM" by (simp add: proc_files_def)
  moreover have "(4711::nat) < 2 ^ 31" by simp
  ultimately have "parse_path (''/proc/'' @ show_nat 4711 @ ''/'' @ ''statm'') = (int 4711, Some PROC_PID_STATM)"
    using parse_path_correct by blast
  then show ?thesis by simp
qed

text \<open>Reading one type for several processes behaves, in every case, as one query after the
  other on what is left of the buffer: the result is the number of bytes placed, which is at most
  the size of the buffer, queries that fail are skipped, and the call's own assertion never
  fails.\<close>

theorem read_pids_serves:
  assumes "unat bz < 2 ^ 31"
  shows "read_pids (dm_find dtv life) dtv dt pids bz s
      = bind_outcome (serve (dm_find dtv life) (map (\<lambda>pid. MK_KEY pid (dtv dt)) pids) (unat bz) s)
          (\<lambda>(ds, s'). Done (int (length (concat ds)), concat ds, s'))
    \<and> (\<forall>ds s'. serve (dm_find dtv life) (map (\<lambda>pid. MK_KEY pid (dtv dt)) pids) (unat bz) s = Done (ds, s')
         \<longrightarrow> length (concat ds) \<le> unat bz)"
  using dms.read_pids_loop_serve [OF assms order_refl, of dtv life dtv dt pids s]
    dms.serve_bound [OF assms, of dtv life _ s] by (auto simp: read_pids_def)

definition ex_state :: "unit dk_state" where
  "ex_state = \<lparr>dk_envs = [\<lparr>fe_tid = 42, fe_t0 = 0, fe_t1 = 0, fe_clk = (\<lambda>i. 1000), fe_fd = 3, fe_ins = ex_rounds,
       fe_v1 = ex_view 0, fe_now1 = 1000, fe_v2 = ex_view 104, fe_now2 = 1000\<rparr>],
     dk_ring = ex_bring, dk_map = ex_table, dk_ctx = (), dk_cb = None\<rparr>"

theorem read_pids_serves_witness:
  "read_pids (dm_find ex_dtv 1) ex_dtv PROC_PID_STAT [5] 64 ex_state
     = bind_outcome (serve (dm_find ex_dtv 1) [MK_KEY 5 2] 64 ex_state)
         (\<lambda>(ds, s'). Done (int (length (concat ds)), concat ds, s'))"
  using read_pids_serves [of 64 ex_dtv 1 PROC_PID_STAT "[5]" ex_state] by simp

text \<open>Reading several types for one process makes the same queries, but its result is the
  number of bytes of the buffer that are left, not the number that were placed in it.\<close>

theorem read_dts_returns_rest:
  assumes "unat bz < 2 ^ 31"
  shows "read_dts (dm_find dtv life) dtv dts pid bz s
      = bind_outcome (serve (dm_find dtv life) (map (\<lambda>dt. MK_KEY pid (dtv dt)) dts) (unat bz) s)
          (\<lambda>(ds, s'). Done (int (unat bz) - int (length (concat ds)), concat ds, s'))"
  by (rule dms.read_dts_serve [OF assms])

theorem read_dts_returns_rest_witness:
  "read_dts (dm_find ex_dtv 1) ex_dtv [PROC_PID_STAT] 0 64 ex_state
     = bind_outcome (serve (dm_find ex_dtv 1) [MK_KEY 0 2] 64 ex_state)
         (\<lambda>(ds, s'). Done (64 - int (length (concat ds)), concat ds, s'))"
  using read_dts_returns_rest [of 64 ex_dtv 1 "[PROC_PID_STAT]" 0 ex_state] by simp

text \<open>Whatever sequence of lifetimes a caller sets, the lifetime in force is at most one hour,
  so that its conversion to nanoseconds in the data map does not wrap around.\<close>

theorem lifetime_never_wraps:
  "unat (m_lifetime (fold (\<lambda>ms d. snd (lifetime ms d)) mss (dk_new :: unit dk_obj))) \<le> 3600000
   \<and> unat (m_lifetime (fold (\<lambda>ms d. snd (lifetime ms d)) mss (dk_new :: unit dk_obj)) * 1000000)
       = unat (m_lifetime (fold (\<lambda>ms d. snd (lifetime ms d)) mss (dk_new :: unit dk_obj))) * 1000000"
proof -
  let ?l = "m_lifetime (fold (\<lambda>ms d. snd (lifetime ms d)) mss (dk_new :: unit dk_obj))"
  have "?l \<le> 3600000" by (rule lifetimes_bound) (simp add: dk_new_def)
  then have l: "unat ?l \<le> 3600000" by (simp add: word_le_nat_alt)
  moreover from l have "unat (?l * 1000000) = unat ?l * 1000000" by (simp add: unat_word_ariths)
  ultimately show ?thesis by simp
qed

end
