(* ===== verification/Frtp_Policy.thy ===== *)
theory Frtp_Policy
  imports C_Strings Spin_Lock
begin

text \<open>
  The user-space half of the file protection tool, \<open>policy/frtp.cpp\<close>: command line options, the
  policy file and its rules, the expansion of a directory rule over the tree below it, loading the
  rules into the kernel's map, and the messages about denied accesses. The file system, libbpf and
  \<open>getopt_long\<close> are parameters; \<open>sscanf\<close> and \<open>fgets\<close> are modelled for the formats used.
\<close>

section \<open>Targets and rules\<close>

abbreviation FMODE_READ :: u32 where "FMODE_READ \<equiv> 1"
abbreviation FMODE_WRITE :: u32 where "FMODE_WRITE \<equiv> 2"
abbreviation FMODE_EXEC :: u32 where "FMODE_EXEC \<equiv> 32"

text \<open>\<open>gnu_dev_major\<close> and \<open>gnu_dev_minor\<close> of a 64-bit device number.\<close>

definition gnu_dev_major :: "u64 \<Rightarrow> u32" where
  "gnu_dev_major d = ucast (drop_bit 8 d AND 0xfff) OR ucast (drop_bit 32 d AND 0xfffff000)"

definition gnu_dev_minor :: "u64 \<Rightarrow> u32" where
  "gnu_dev_minor d = ucast (d AND 0xff) OR ucast (drop_bit 12 d AND 0xffffff00)"

definition dev_old2new :: "u64 \<Rightarrow> u32" where
  "dev_old2new old = push_bit 20 (gnu_dev_major old AND 0xfff) OR (gnu_dev_minor old AND 0xfffff)"

datatype Target = Target (tgt_dev: u32) (tgt_ino: u64)

text \<open>The order of the sources, by device and then by inode.\<close>

instantiation Target :: linorder
begin

definition less_Target :: "Target \<Rightarrow> Target \<Rightarrow> bool" where
  "less_Target a b = (if tgt_dev a \<noteq> tgt_dev b then tgt_dev a < tgt_dev b else tgt_ino a < tgt_ino b)"

definition less_eq_Target :: "Target \<Rightarrow> Target \<Rightarrow> bool" where
  "less_eq_Target a b = (a = b \<or> a < b)"

instance
proof
  fix x y z :: Target
  show "x < y \<longleftrightarrow> x \<le> y \<and> \<not> y \<le> x"
    by (auto simp: less_eq_Target_def less_Target_def split: if_splits)
  show "x \<le> x" by (simp add: less_eq_Target_def)
  show "x \<le> y \<Longrightarrow> y \<le> z \<Longrightarrow> x \<le> z"
    by (auto simp: less_eq_Target_def less_Target_def split: if_splits)
  show "x \<le> y \<Longrightarrow> y \<le> x \<Longrightarrow> x = y"
    by (auto simp: less_eq_Target_def less_Target_def split: if_splits)
  show "x \<le> y \<or> y \<le> x"
    by (auto simp: less_eq_Target_def less_Target_def intro: Target.expand)
qed

end

text \<open>
  A rule: the 4096 bytes of the union, which hold either \<open>not_pid\<close> and \<open>pid\<close> or the path of the
  process, the forbidden actions and the target.
\<close>

record Rule =
  r_union :: bytes
  r_act :: u32
  r_target :: Target

definition le32 :: "bytes \<Rightarrow> nat \<Rightarrow> u32" where
  "le32 bs off = ucast (bs ! off) OR push_bit 8 (ucast (bs ! (off + 1)))
     OR push_bit 16 (ucast (bs ! (off + 2))) OR push_bit 24 (ucast (bs ! (off + 3)))"

definition bytes32 :: "u32 \<Rightarrow> bytes" where
  "bytes32 w = [ucast w, ucast (drop_bit 8 w), ucast (drop_bit 16 w), ucast (drop_bit 24 w)]"

definition rule_not_pid :: "Rule \<Rightarrow> u32" where
  "rule_not_pid r = le32 (r_union r) 0"

definition rule_pid :: "Rule \<Rightarrow> int" where
  "rule_pid r = sint (le32 (r_union r) 4)"

definition char_byte :: "char \<Rightarrow> u8" where
  "char_byte c = of_nat (of_char c)"

text \<open>The rule after \<open>{0}\<close>, and the two ways of filling the union.\<close>

definition zero_rule :: Rule where
  "zero_rule = \<lparr>r_union = replicate 4096 0, r_act = 0, r_target = Target 0 0\<rparr>"

definition rule_for_process :: "string \<Rightarrow> Rule" where
  "rule_for_process identifier =
     zero_rule\<lparr>r_union := take 4095 (map char_byte identifier) @ replicate (4096 - min 4095 (length identifier)) 0\<rparr>"

definition rule_for_pid :: "int \<Rightarrow> Rule" where
  "rule_for_pid pid = zero_rule\<lparr>r_union := bytes32 0 @ bytes32 (of_int pid) @ replicate 4088 0\<rparr>"

section \<open>Options\<close>

datatype has_arg = no_argument | required_argument | optional_argument | bad_argument

text \<open>\<open>long_opt2short_opt\<close>; an impossible value ends the program.\<close>

fun long_opt2short_opt :: "(char \<times> has_arg) list \<Rightarrow> string outcome" where
  "long_opt2short_opt [] = Done []"
| "long_opt2short_opt ((val, arg) # os) =
     (case arg of
        no_argument \<Rightarrow> bind_outcome (long_opt2short_opt os) (\<lambda>r. Done (val # r))
      | required_argument \<Rightarrow> bind_outcome (long_opt2short_opt os) (\<lambda>r. Done (val # '':'' @ r))
      | optional_argument \<Rightarrow> bind_outcome (long_opt2short_opt os) (\<lambda>r. Done (val # ''::'' @ r))
      | bad_argument \<Rightarrow> Aborted)"

definition frtp_lopts :: "(char \<times> has_arg) list" where
  "frtp_lopts = [(CHR ''p'', required_argument), (CHR ''h'', no_argument)]"

text \<open>
  \<open>parse_args\<close> over the options that \<open>getopt_long\<close> yields, each with its argument; the result is the
  code and the policy file.
\<close>

fun parse_args :: "(char \<times> string) list \<Rightarrow> string option \<Rightarrow> int \<times> string option" where
  "parse_args [] policy_file =
     (0, case policy_file of None \<Rightarrow> Some ''/etc/dkapture/policy/frtp.pol'' | Some f \<Rightarrow> Some f)"
| "parse_args ((opt, optarg) # os) policy_file =
     (if opt = CHR ''p'' then parse_args os (Some optarg)
      else if opt = CHR ''h'' then (1, policy_file)
      else (-1, policy_file))"

definition act2str :: "u32 \<Rightarrow> string" where
  "act2str act =
     (let s = (if act AND FMODE_READ \<noteq> 0 then ''read/'' else [])
            @ (if act AND FMODE_WRITE \<noteq> 0 then ''write/'' else [])
            @ (if act AND FMODE_EXEC \<noteq> 0 then ''exec/'' else [])
      in if s \<noteq> [] then butlast s else s)"

section \<open>The file system\<close>

datatype fkind = Regular | Directory | SymLink | OtherKind

text \<open>
  \<open>fs_access\<close> is whether \<open>access(path, F_OK)\<close> succeeds; \<open>fs_stat\<close> follows links and gives kind, device and inode; \<open>fs_lstat\<close> does not follow them;
  \<open>fs_list\<close> is what \<open>readdir\<close> yields for a directory that can be opened.
\<close>

record fsys =
  fs_access :: "string \<Rightarrow> bool"
  fs_stat :: "string \<Rightarrow> (fkind \<times> u64 \<times> u64) option"
  fs_lstat :: "string \<Rightarrow> fkind option"
  fs_list :: "string \<Rightarrow> string list option"

type_synonym path_map = "Target \<rightharpoonup> string"

text \<open>\<open>path2target\<close>: on a failure the target stays as it was.\<close>

definition path2target :: "fsys \<Rightarrow> string \<Rightarrow> Target \<Rightarrow> path_map \<Rightarrow> int \<times> Target \<times> path_map" where
  "path2target fs path t tm =
     (if \<not> fs_access fs path then (-1, t, tm)
      else case fs_stat fs path of
        None \<Rightarrow> (-1, t, tm)
      | Some (k, d, i) \<Rightarrow> let t' = Target (dev_old2new d) i in (0, t', tm(t' \<mapsto> path)))"

text \<open>\<open>snprintf(full_path, PATH_MAX, "%s/%s", ...)\<close>.\<close>

definition join_dir :: "string \<Rightarrow> string \<Rightarrow> string" where
  "join_dir dir nm = take 4095 (dir @ ''/'' @ nm)"

text \<open>The loop over the entries: \<open>.\<close> and \<open>..\<close> and what \<open>lstat\<close> does not find are skipped, and a directory is entered.\<close>

definition sub_dirs :: "fsys \<Rightarrow> string \<Rightarrow> string list \<Rightarrow> string list" where
  "sub_dirs fs dir es =
     map (join_dir dir) (filter (\<lambda>e. e \<noteq> ''.'' \<and> e \<noteq> ''..'' \<and> fs_lstat fs (join_dir dir e) = Some Directory) es)"

text \<open>
  \<open>add_directories_recursively\<close>; the fuel bounds the nesting, and a walk that is deeper has not
  returned.
\<close>

fun add_directories :: "nat \<Rightarrow> fsys \<Rightarrow> Rule \<Rightarrow> string list \<Rightarrow> Rule list \<times> path_map \<Rightarrow> (Rule list \<times> path_map) outcome" where
  "add_directories n fs base [] st = Done st"
| "add_directories 0 fs base (d # ds) st = Blocked"
| "add_directories (Suc n) fs base (d # ds) st =
     (case st of (rules, tm) \<Rightarrow>
        case path2target fs d (r_target base) tm of (r, t, tm') \<Rightarrow>
          let st' = (rules @ [base\<lparr>r_target := t\<rparr>], tm')
          in bind_outcome
               (case fs_list fs d of None \<Rightarrow> Done st' | Some es \<Rightarrow> add_directories n fs base (sub_dirs fs d es) st')
               (\<lambda>st''. add_directories (Suc n) fs base ds st''))"

definition add_directories_recursively ::
  "nat \<Rightarrow> fsys \<Rightarrow> string \<Rightarrow> Rule \<Rightarrow> Rule list \<times> path_map \<Rightarrow> (Rule list \<times> path_map) outcome" where
  "add_directories_recursively n fs dir base st = add_directories n fs base [dir] st"

section \<open>The policy file\<close>

text \<open>\<open>fgets(line, 8192, file)\<close>: a chunk ends after a newline or after 8191 characters.\<close>

fun fgets_from :: "nat \<Rightarrow> string \<Rightarrow> string \<Rightarrow> string list" where
  "fgets_from n cur [] = (if cur = [] then [] else [cur])"
| "fgets_from 0 cur (c # s) = (cur @ [c]) # fgets_from 8190 [] s"
| "fgets_from (Suc n) cur (c # s) =
     (if c = NL then (cur @ [c]) # fgets_from 8190 [] s else fgets_from n (cur @ [c]) s)"

definition fgets_lines :: "string \<Rightarrow> string list" where
  "fgets_lines s = fgets_from 8190 [] s"

text \<open>\<open>%Ns\<close>: white space is skipped, then one to \<open>N\<close> other characters are taken.\<close>

definition scan_s :: "nat \<Rightarrow> string \<Rightarrow> (string \<times> string) option" where
  "scan_s n s =
     (let t = dropWhile is_space s; w = take n (takeWhile (\<lambda>c. \<not> is_space c) t)
      in if w = [] then None else Some (w, drop (length w) t))"

text \<open>\<open>%20[^=]\<close>: one to twenty characters other than the equals sign.\<close>

definition scan_not_eq :: "string \<Rightarrow> (string \<times> string) option" where
  "scan_not_eq s =
     (let w = take 20 (takeWhile (\<lambda>c. c \<noteq> CHR ''='') s) in if w = [] then None else Some (w, drop (length w) s))"

text \<open>The whole format \<open>"forbid %20[^=]=%4095s %20s %4095s"\<close>; \<open>None\<close> when not all four are assigned.\<close>

definition scan_policy :: "string \<Rightarrow> (string \<times> string \<times> string \<times> string) option" where
  "scan_policy line =
     (if take 6 line \<noteq> ''forbid'' then None
      else case scan_not_eq (dropWhile is_space (drop 6 line)) of
        None \<Rightarrow> None
      | Some (type, r1) \<Rightarrow>
        (if r1 = [] \<or> hd r1 \<noteq> CHR ''='' then None
         else case scan_s 4095 (tl r1) of
           None \<Rightarrow> None
         | Some (ident, r2) \<Rightarrow>
           (case scan_s 20 r2 of
              None \<Rightarrow> None
            | Some (action, r3) \<Rightarrow>
              (case scan_s 4095 r3 of None \<Rightarrow> None | Some (path, r4) \<Rightarrow> Some (type, ident, action, path)))))"

definition policy_subject :: "string \<Rightarrow> string \<Rightarrow> Rule option" where
  "policy_subject type ident =
     (if type = ''proc'' then
        (if ident = [] \<or> hd ident \<noteq> CHR ''/'' then None else Some (rule_for_process ident))
      else if type = ''pid'' then
        (case strtol10 ident of (v, rest, ov) \<Rightarrow>
           let pid = to_int32 v in if rest \<noteq> [] \<or> pid < 0 then None else Some (rule_for_pid pid))
      else None)"

definition policy_action :: "string \<Rightarrow> u32 option" where
  "policy_action action =
     (if action = ''r'' then Some FMODE_READ
      else if action = ''w'' then Some FMODE_WRITE
      else if action = ''rw'' then Some (FMODE_READ OR FMODE_WRITE)
      else None)"

text \<open>The target path without its directory mark, and whether it had one.\<close>

definition policy_target :: "string \<Rightarrow> (string \<times> bool) option" where
  "policy_target path =
     (if path = [] \<or> hd path \<noteq> CHR ''/'' then None
      else if 2 \<le> length path \<and> drop (length path - 2) path = ''/*'' then Some (take (length path - 2) path, True)
      else if 1 < length path \<and> last path = CHR ''/'' then Some (butlast path, True)
      else Some (path, False))"

text \<open>One line of the file.\<close>

definition policy_line :: "nat \<Rightarrow> fsys \<Rightarrow> string \<Rightarrow> Rule list \<times> path_map \<Rightarrow> (Rule list \<times> path_map) outcome" where
  "policy_line n fs line st =
     (if line \<noteq> [] \<and> hd line = CHR ''#'' then Done st
      else case scan_policy line of
        None \<Rightarrow> Done st
      | Some (type, ident, action, path) \<Rightarrow>
        (case policy_subject type ident of
           None \<Rightarrow> Done st
         | Some rule0 \<Rightarrow>
           (case policy_action action of
              None \<Rightarrow> Done st
            | Some act \<Rightarrow>
              (let rule = rule0\<lparr>r_act := act\<rparr>
               in case policy_target path of
                 None \<Rightarrow> Done st
               | Some (tp, is_dir) \<Rightarrow>
                 (case fs_stat fs tp of
                    None \<Rightarrow> Done st
                  | Some (k, d, i) \<Rightarrow>
                    (if is_dir then
                       (if k = Directory then add_directories_recursively n fs tp rule st else Done st)
                     else if k = Regular then
                       (case st of (rules, tm) \<Rightarrow>
                          case path2target fs tp (r_target rule) tm of (r, t, tm') \<Rightarrow>
                            Done (rules @ [rule\<lparr>r_target := t\<rparr>], tm'))
                     else Done st))))))"

fun policy_lines :: "nat \<Rightarrow> fsys \<Rightarrow> string list \<Rightarrow> Rule list \<times> path_map \<Rightarrow> (Rule list \<times> path_map) outcome" where
  "policy_lines n fs [] st = Done st"
| "policy_lines n fs (l # ls) st = bind_outcome (policy_line n fs l st) (policy_lines n fs ls)"

text \<open>\<open>parse_policy_file\<close>; \<open>None\<close> is a file that cannot be opened.\<close>

definition parse_policy_file ::
  "nat \<Rightarrow> fsys \<Rightarrow> string option \<Rightarrow> Rule list \<times> path_map \<Rightarrow> (int \<times> Rule list \<times> path_map) outcome" where
  "parse_policy_file n fs file st =
     (case file of
        None \<Rightarrow> Done (-1, st)
      | Some text \<Rightarrow> bind_outcome (policy_lines n fs (fgets_lines text) st) (\<lambda>st'. Done (0, st')))"

section \<open>Loading and reporting\<close>

text \<open>\<open>load_rules\<close> into the kernel's map; \<open>upd key\<close> is whether the update of that key succeeds.\<close>

fun load_rules_from :: "(u32 \<Rightarrow> bool) \<Rightarrow> u32 \<Rightarrow> Rule list \<Rightarrow> (u32 \<rightharpoonup> Rule) \<Rightarrow> int \<times> (u32 \<rightharpoonup> Rule)" where
  "load_rules_from upd key [] m = (0, m)"
| "load_rules_from upd key (r # rs) m =
     (let key' = key + 1
      in if \<not> upd key' then (-1, m) else load_rules_from upd key' rs (m(key' \<mapsto> r)))"

definition load_rules :: "(u32 \<Rightarrow> bool) \<Rightarrow> Rule list \<Rightarrow> (u32 \<rightharpoonup> Rule) \<Rightarrow> int \<times> (u32 \<rightharpoonup> Rule)" where
  "load_rules upd rs m = load_rules_from upd 0 rs m"

text \<open>
  \<open>handle_event\<close>: the target path that is printed, and the map of paths, into which \<open>operator[]\<close>
  puts an empty string for an unknown target.
\<close>

definition frtp_handle_event :: "Target \<Rightarrow> string \<Rightarrow> path_map \<Rightarrow> string \<times> path_map" where
  "frtp_handle_event t fname tm =
     (let base = (case tm t of None \<Rightarrow> [] | Some p \<Rightarrow> p);
          tm' = (if tm t = None then tm(t \<mapsto> []) else tm);
          path = base @ (if fname \<noteq> [] then ''/'' @ fname else [])
      in (if path \<noteq> [] then path else ''<no matched>'', tm'))"

text \<open>
  The order of the steps of \<open>main\<close>, with the results of libbpf's calls and of the steps; the value is
  the exit status.
\<close>

definition frtp_main :: "int \<Rightarrow> int \<Rightarrow> bool \<Rightarrow> int \<Rightarrow> int \<Rightarrow> int \<Rightarrow> bool \<Rightarrow> int \<Rightarrow> int \<Rightarrow> int" where
  "frtp_main args_ret signal_ret loaded filter_fd log_fd attach_ret has_rb policy_ret load_ret =
     (if args_ret \<noteq> 0 then args_ret
      else if signal_ret < 0 then signal_ret
      else if \<not> loaded then -1
      else if filter_fd < 0 then signal_ret
      else if log_fd < 0 then signal_ret
      else if attach_ret \<noteq> 0 then -1
      else if \<not> has_rb then -1
      else if policy_ret \<noteq> 0 then policy_ret
      else load_ret)"

section \<open>The union of a rule\<close>

lemma le32_bytes32: "le32 (bytes32 w @ bs) 0 = w"
proof (rule bit_word_eqI)
  fix n assume "n < LENGTH(32)"
  then consider "n < 8" | "8 \<le> n" "n < 16" | "16 \<le> n" "n < 24" | "24 \<le> n" "n < 32" by fastforce
  then show "bit (le32 (bytes32 w @ bs) 0) n = bit w n"
    by cases (auto simp: le32_def bytes32_def bit_simps)
qed

lemma le32_append: "length as = k \<Longrightarrow> le32 (as @ bs) (k + off) = le32 bs off"
  by (simp add: le32_def nth_append)

lemma le32_low_bit: "bit (bs ! 0) 0 \<Longrightarrow> le32 bs 0 \<noteq> 0"
proof -
  assume "bit (bs ! 0) 0"
  then have "bit (le32 bs 0) 0" by (simp add: le32_def bit_simps)
  then show ?thesis by auto
qed

lemma rule_for_pid_fields:
  assumes "0 \<le> pid" "pid < 2 ^ 31"
  shows "rule_not_pid (rule_for_pid pid) = 0" "rule_pid (rule_for_pid pid) = pid"
    "length (r_union (rule_for_pid pid)) = 4096"
proof -
  show "rule_not_pid (rule_for_pid pid) = 0"
    by (simp add: rule_not_pid_def rule_for_pid_def le32_bytes32)
  have "le32 (bytes32 0 @ bytes32 (of_int pid) @ replicate 4088 0) (4 + 0) = of_int pid"
    by (subst le32_append) (simp_all add: bytes32_def [of 0] le32_bytes32)
  moreover have "sint (of_int pid :: u32) = pid"
    using assms by (simp add: signed_of_int signed_take_bit_int_eq_self)
  ultimately show "rule_pid (rule_for_pid pid) = pid"
    by (simp add: rule_pid_def rule_for_pid_def)
  show "length (r_union (rule_for_pid pid)) = 4096" by (simp add: rule_for_pid_def bytes32_def)
qed

lemma rule_for_process_fields:
  assumes "ident \<noteq> []" "hd ident = CHR ''/''"
  shows "rule_not_pid (rule_for_process ident) \<noteq> 0" "r_union (rule_for_process ident) ! 0 = char_byte (CHR ''/'')"
    "length (r_union (rule_for_process ident)) = 4096"
proof -
  obtain cs where c: "ident = CHR ''/'' # cs" using assms by (cases ident) auto
  have "r_union (rule_for_process ident) = char_byte (CHR ''/'') # take 4094 (map char_byte cs)
      @ replicate (4096 - min 4095 (length ident)) 0"
    by (simp add: rule_for_process_def c)
  then show h: "r_union (rule_for_process ident) ! 0 = char_byte (CHR ''/'')" by simp
  have "bit (char_byte (CHR ''/'')) 0" by (simp add: char_byte_def)
  then show "rule_not_pid (rule_for_process ident) \<noteq> 0"
    unfolding rule_not_pid_def by (intro le32_low_bit) (simp only: h)
  show "length (r_union (rule_for_process ident)) = 4096" by (simp add: rule_for_process_def min_def)
qed

text \<open>
  A well-formed rule: the union can be read in exactly one way, and only reading and writing are
  forbidden.
\<close>

definition wf_rule :: "Rule \<Rightarrow> bool" where
  "wf_rule r \<longleftrightarrow> length (r_union r) = 4096 \<and> r_act r \<in> {1, 2, 3}
     \<and> (if rule_not_pid r = 0 then 0 \<le> rule_pid r else r_union r ! 0 = char_byte (CHR ''/''))"

lemma wf_rule_target [simp]: "wf_rule (r\<lparr>r_target := t\<rparr>) = wf_rule r"
  by (simp add: wf_rule_def rule_not_pid_def rule_pid_def)

lemma policy_subject_wf:
  assumes "policy_subject type ident = Some r" "act \<in> {1, 2, 3}"
  shows "wf_rule (r\<lparr>r_act := act\<rparr>)"
proof (cases "type = ''proc''")
  case True
  then have i: "ident \<noteq> []" "hd ident = CHR ''/''" "r = rule_for_process ident"
    using assms(1) by (auto simp: policy_subject_def split: if_splits)
  with rule_for_process_fields [OF i(1,2)] assms(2) show ?thesis
    by (simp add: wf_rule_def rule_not_pid_def rule_pid_def)
next
  case False
  then obtain v rest ov where s: "strtol10 ident = (v, rest, ov)" "0 \<le> to_int32 v" "r = rule_for_pid (to_int32 v)"
    using assms(1) by (auto simp: policy_subject_def Let_def not_less split: if_splits prod.splits)
  have "to_int32 v < 2 ^ 31" using signed_take_bit_int_less_exp [of 31 v] by simp
  from rule_for_pid_fields [OF s(2) this] s(3) assms(2) s(2) show ?thesis
    by (simp add: wf_rule_def rule_not_pid_def rule_pid_def)
qed

lemma policy_action_range: "policy_action a = Some act \<Longrightarrow> act \<in> {1, 2, 3}"
  by (auto simp: policy_action_def split: if_splits)

text \<open>A walk appends copies of the base rule with other targets.\<close>

lemma add_directories_extends:
  "add_directories n fs base ds st = Done st' \<Longrightarrow>
     \<exists>ts. fst st' = fst st @ map (\<lambda>t. base\<lparr>r_target := t\<rparr>) ts"
proof (induction n arbitrary: ds st st')
  case 0
  then show ?case by (cases ds) auto
next
  case (Suc n)
  note outer = Suc.IH
  from Suc.prems show ?case
  proof (induction ds arbitrary: st)
    case Nil
    then show ?case by simp
  next
    case (Cons d ds)
    obtain rules tm where st: "st = (rules, tm)" by (cases st)
    obtain r t tm1 where p: "path2target fs d (r_target base) tm = (r, t, tm1)"
      by (cases "path2target fs d (r_target base) tm")
    let ?st = "(rules @ [base\<lparr>r_target := t\<rparr>], tm1)"
    from Cons.prems st p obtain st2 where
      mid: "(case fs_list fs d of None \<Rightarrow> Done ?st | Some es \<Rightarrow> add_directories n fs base (sub_dirs fs d es) ?st) = Done st2"
      and rest: "add_directories (Suc n) fs base ds st2 = Done st'"
      by (auto simp: bind_outcome_Done_iff Let_def)
    have "\<exists>ts. fst st2 = fst ?st @ map (\<lambda>t. base\<lparr>r_target := t\<rparr>) ts"
    proof (cases "fs_list fs d")
      case None
      with mid show ?thesis by auto
    next
      case (Some es)
      with mid have "add_directories n fs base (sub_dirs fs d es) ?st = Done st2" by simp
      from outer [OF this] show ?thesis .
    qed
    then obtain ts where ts: "fst st2 = (rules @ [base\<lparr>r_target := t\<rparr>]) @ map (\<lambda>t. base\<lparr>r_target := t\<rparr>) ts"
      by auto
    obtain us where us: "fst st' = fst st2 @ map (\<lambda>t. base\<lparr>r_target := t\<rparr>) us" using Cons.IH [OF rest] by blast
    have "fst st' = fst st @ map (\<lambda>t. base\<lparr>r_target := t\<rparr>) (t # ts @ us)" by (simp add: us ts st)
    then show ?case by blast
  qed
qed

lemma add_directories_wf:
  assumes "add_directories n fs base ds st = Done st'" "wf_rule base" "\<forall>r \<in> set (fst st). wf_rule r"
  shows "\<forall>r \<in> set (fst st'). wf_rule r"
  using add_directories_extends [OF assms(1)] assms(2,3) by auto

lemma policy_line_wf:
  assumes "policy_line n fs line st = Done st'" "\<forall>r \<in> set (fst st). wf_rule r"
  shows "\<forall>r \<in> set (fst st'). wf_rule r"
proof (cases "st' = st")
  case True
  with assms(2) show ?thesis by simp
next
  case False
  then obtain type ident action path rule0 act tp is_dir k d i where
    s: "policy_subject type ident = Some rule0" "policy_action action = Some act"
    and run: "(if is_dir then
         (if k = Directory then add_directories_recursively n fs tp (rule0\<lparr>r_act := act\<rparr>) st else Done st)
       else if k = Regular then
         (case st of (rules, tm) \<Rightarrow>
            case path2target fs tp (r_target (rule0\<lparr>r_act := act\<rparr>)) tm of (r, t, tm') \<Rightarrow>
              Done (rules @ [rule0\<lparr>r_act := act, r_target := t\<rparr>], tm'))
       else Done st) = Done st'"
    using assms(1)
    by (auto simp: policy_line_def Let_def split: if_splits option.splits prod.splits)
  have w: "wf_rule (rule0\<lparr>r_act := act\<rparr>)"
    by (rule policy_subject_wf [OF s(1) policy_action_range [OF s(2)]])
  show ?thesis
  proof (cases is_dir)
    case True
    with run False have "add_directories n fs (rule0\<lparr>r_act := act\<rparr>) [tp] st = Done st'"
      by (auto simp: add_directories_recursively_def split: if_splits)
    from add_directories_wf [OF this w assms(2)] show ?thesis .
  next
    case nd: False
    have w': "wf_rule (rule0\<lparr>r_act := act, r_target := t\<rparr>)" for t using w by simp
    show ?thesis using run nd False assms(2) w' by (auto split: if_splits prod.splits)
  qed
qed

lemma policy_lines_wf:
  "policy_lines n fs ls st = Done st' \<Longrightarrow> \<forall>r \<in> set (fst st). wf_rule r \<Longrightarrow> \<forall>r \<in> set (fst st'). wf_rule r"
proof (induction ls arbitrary: st)
  case Nil
  then show ?case by simp
next
  case (Cons l ls)
  then obtain st1 where s: "policy_line n fs l st = Done st1" "policy_lines n fs ls st1 = Done st'"
    by (auto simp: bind_outcome_Done_iff)
  from Cons.IH [OF s(2) policy_line_wf [OF s(1) Cons.prems(2)]] show ?case .
qed

section \<open>Directory trees\<close>

text \<open>
  A part of the file system as it is, independent of any program: an entry has a name and is a folder with entries, or something
  else; \<open>Other nm None\<close> is a name whose file has gone when it is looked at.
\<close>

datatype fnode = Other (nname: string) "fkind option" | Folder (nname: string) "fnode list"

fun node_kind :: "fnode \<Rightarrow> fkind option" where
  "node_kind (Other nm k) = k"
| "node_kind (Folder nm ts) = Some Directory"

fun depth :: "fnode \<Rightarrow> nat" where
  "depth (Other nm k) = 0"
| "depth (Folder nm ts) = Suc (foldr max (map depth ts) 0)"

text \<open>The paths of the folders, a folder before those in it.\<close>

fun folders :: "string \<Rightarrow> fnode \<Rightarrow> string list" where
  "folders p (Other nm k) = []"
| "folders p (Folder nm ts) = p # concat (map (\<lambda>t. folders (p @ ''/'' @ nname t) t) ts)"

text \<open>
  The calls answer for what is at path \<open>p\<close> as documented: \<open>readdir\<close> gives the names in the folder, and \<open>.\<close> and \<open>..\<close> somewhere
  among them (nothing for a folder that cannot be opened, whose entries are then not visible), and \<open>lstat\<close> gives the kind of each
  entry. Paths are shorter than \<open>PATH_MAX\<close>.
\<close>

fun answers_as :: "fsys \<Rightarrow> string \<Rightarrow> fnode \<Rightarrow> bool" where
  "answers_as fs p (Other nm k) = (k \<noteq> Some Directory)"
| "answers_as fs p (Folder nm ts) =
     ((case fs_list fs p of None \<Rightarrow> ts = [] | Some ns \<Rightarrow> removeAll ''..'' (removeAll ''.'' ns) = map nname ts)
      \<and> list_all (\<lambda>t. length (p @ ''/'' @ nname t) < 4096 \<and> fs_lstat fs (p @ ''/'' @ nname t) = node_kind t
          \<and> answers_as fs (p @ ''/'' @ nname t) t) ts)"

definition dir_target :: "fsys \<Rightarrow> Rule \<Rightarrow> string \<Rightarrow> Target" where
  "dir_target fs base d =
     (if \<not> fs_access fs d then r_target base
      else case fs_stat fs d of None \<Rightarrow> r_target base | Some (k, dv, i) \<Rightarrow> Target (dev_old2new dv) i)"

definition note_dir :: "fsys \<Rightarrow> string \<Rightarrow> path_map \<Rightarrow> path_map" where
  "note_dir fs d tm =
     (if \<not> fs_access fs d then tm
      else case fs_stat fs d of None \<Rightarrow> tm | Some (k, dv, i) \<Rightarrow> tm(Target (dev_old2new dv) i \<mapsto> d))"

lemma path2target_dir:
  "\<exists>r. path2target fs d (r_target base) tm = (r, dir_target fs base d, note_dir fs d tm)"
  by (auto simp: path2target_def dir_target_def note_dir_def Let_def split: option.split prod.split)

lemma depth_kid: "t \<in> set ts \<Longrightarrow> depth t \<le> foldr max (map depth ts) 0"
  by (induction ts) (auto simp: le_max_iff_disj)

text \<open>The loop enters exactly the folders among the entries.\<close>

definition is_folder :: "fnode \<Rightarrow> bool" where
  "is_folder t \<longleftrightarrow> (case t of Folder nm ts \<Rightarrow> True | Other nm k \<Rightarrow> False)"

lemma is_folder_simps [simp]: "is_folder (Folder nm ts)" "\<not> is_folder (Other nm k)"
  by (simp_all add: is_folder_def)

lemma join_dir_short: "length (p @ ''/'' @ nm) < 4096 \<Longrightarrow> join_dir p nm = p @ ''/'' @ nm"
  by (simp add: join_dir_def)

lemma sub_dirs_folders:
  assumes "removeAll ''..'' (removeAll ''.'' ns) = map nname ts"
    and "\<forall>t \<in> set ts. length (p @ ''/'' @ nname t) < 4096 \<and> fs_lstat fs (p @ ''/'' @ nname t) = node_kind t
          \<and> answers_as fs (p @ ''/'' @ nname t) t"
  shows "sub_dirs fs p ns = map (\<lambda>t. p @ ''/'' @ nname t) (filter is_folder ts)"
proof -
  have kind: "fs_lstat fs (join_dir p (nname t)) = Some Directory \<longleftrightarrow> is_folder t" if "t \<in> set ts" for t
    using assms(2) that by (cases t) (auto simp: join_dir_short)
  have "sub_dirs fs p ns = map (join_dir p) (filter (\<lambda>e. fs_lstat fs (join_dir p e) = Some Directory) (removeAll ''..'' (removeAll ''.'' ns)))"
    by (simp add: sub_dirs_def removeAll_filter_not_eq conj_ac) (metis (mono_tags, lifting))
  also have "\<dots> = map (\<lambda>t. join_dir p (nname t)) (filter is_folder ts)"
    unfolding assms(1) by (simp add: filter_map comp_def kind cong: filter_cong)
  also have "\<dots> = map (\<lambda>t. p @ ''/'' @ nname t) (filter is_folder ts)" using assms(2) by (auto simp: join_dir_short)
  finally show ?thesis .
qed

lemma folders_filter: "concat (map (\<lambda>t. folders (f t) t) (filter is_folder ts)) = concat (map (\<lambda>t. folders (f t) t) ts)"
proof (induction ts)
  case (Cons t ts)
  then show ?case by (cases t) simp_all
qed simp

lemma add_directories_tree:
  assumes "\<forall>(p, t) \<in> set ps. is_folder t \<and> answers_as fs p t \<and> depth t \<le> n"
  shows "add_directories n fs base (map fst ps) (rules, tm)
    = Done (rules @ map (\<lambda>d. base\<lparr>r_target := dir_target fs base d\<rparr>) (concat (map (\<lambda>(p, t). folders p t) ps)),
            fold (note_dir fs) (concat (map (\<lambda>(p, t). folders p t) ps)) tm)"
  using assms
proof (induction n arbitrary: ps rules tm)
  case 0
  have "ps = []"
  proof (cases ps)
    case (Cons q qs)
    with 0 show ?thesis by (cases q; cases "snd q") auto
  qed simp
  then show ?case by simp
next
  case (Suc n)
  note outer = Suc.IH
  from Suc.prems show ?case
  proof (induction ps arbitrary: rules tm)
    case Nil
    then show ?case by simp
  next
    case (Cons q ps)
    obtain d t where q: "q = (d, t)" by (cases q)
    then obtain nm us where t: "t = Folder nm us" using Cons.prems by (cases t) auto
    let ?us = "map (\<lambda>u. (d @ ''/'' @ nname u, u)) (filter is_folder us)"
    have a: "answers_as fs d (Folder nm us)" "depth (Folder nm us) \<le> Suc n" using Cons.prems q t by auto
    then have us: "\<forall>(p, u) \<in> set ?us. is_folder u \<and> answers_as fs p u \<and> depth u \<le> n"
      using depth_kid [of _ us] by (fastforce simp: list_all_iff)
    have fo: "concat (map (\<lambda>(p, t). folders p t) ?us) = concat (map (\<lambda>u. folders (d @ ''/'' @ nname u) u) us)"
      using folders_filter [of "\<lambda>u. d @ ''/'' @ nname u" us] by (simp add: comp_def)
    obtain r where p: "path2target fs d (r_target base) tm = (r, dir_target fs base d, note_dir fs d tm)"
      using path2target_dir by blast
    let ?st = "(rules @ [base\<lparr>r_target := dir_target fs base d\<rparr>], note_dir fs d tm)"
    have "(case fs_list fs d of None \<Rightarrow> Done ?st | Some es \<Rightarrow> add_directories n fs base (sub_dirs fs d es) ?st)
        = Done (fst ?st @ map (\<lambda>d. base\<lparr>r_target := dir_target fs base d\<rparr>) (concat (map (\<lambda>(p, t). folders p t) ?us)),
                fold (note_dir fs) (concat (map (\<lambda>(p, t). folders p t) ?us)) (note_dir fs d tm))"
    proof (cases "fs_list fs d")
      case None
      with a(1) have "us = []" by simp
      with None show ?thesis by simp
    next
      case (Some es)
      with a(1) have "sub_dirs fs d es = map fst ?us" using sub_dirs_folders [of es us d fs] by (simp add: list_all_iff comp_def)
      with Some outer [OF us, of "fst ?st" "note_dir fs d tm"] show ?thesis by simp
    qed
    with p q t fo Cons.IH Cons.prems show ?case by (simp add: Let_def)
  qed
qed

section \<open>Scanning a line\<close>

lemma scan_s_exact:
  assumes "is_word w" "length w \<le> n" "r = [] \<or> is_space (hd r)"
  shows "scan_s n (w @ r) = Some (w, r)" "scan_s n (CHR '' '' # w @ r) = Some (w, r)"
proof -
  have ne: "w \<noteq> []" and nosp: "\<forall>c \<in> set w. \<not> is_space c" using assms(1) by (auto simp: is_word_def)
  have d: "dropWhile is_space (w @ r) = w @ r" using is_word_head [OF assms(1)] by auto
  have t: "takeWhile (\<lambda>c. \<not> is_space c) (w @ r) = w"
    using nosp assms(3) by (cases r) (simp_all add: takeWhile_append2)
  have "0 < n" using ne assms(2) by (cases w) auto
  then show "scan_s n (w @ r) = Some (w, r)" using d t ne assms(2) by (simp add: scan_s_def Let_def)
  then show "scan_s n (CHR '' '' # w @ r) = Some (w, r)" by (simp add: scan_s_def)
qed

lemma scan_not_eq_exact:
  assumes "w \<noteq> []" "length w \<le> 20" "CHR ''='' \<notin> set w"
  shows "scan_not_eq (w @ CHR ''='' # r) = Some (w, CHR ''='' # r)"
proof -
  have "takeWhile (\<lambda>c. c \<noteq> CHR ''='') (w @ CHR ''='' # r) = w"
    using assms(3) by (subst takeWhile_append2) auto
  with assms show ?thesis by (simp add: scan_not_eq_def Let_def)
qed

lemma scan_policy_exact:
  assumes "is_word type" "length type \<le> 20" "CHR ''='' \<notin> set type" "is_word ident" "length ident \<le> 4095"
    "is_word action" "length action \<le> 20" "is_word path" "length path \<le> 4095"
  shows "scan_policy (''forbid '' @ type @ ''='' @ ident @ '' '' @ action @ '' '' @ path @ [NL])
    = Some (type, ident, action, path)"
proof -
  let ?r1 = "CHR ''='' # ident @ CHR '' '' # action @ CHR '' '' # path @ [NL]"
  have ty: "dropWhile is_space (CHR '' '' # type @ ?r1) = type @ ?r1" using is_word_head [OF assms(1)] by auto
  have 1: "scan_not_eq (type @ ?r1) = Some (type, ?r1)"
    using assms(1-3) by (intro scan_not_eq_exact) (auto simp: is_word_def)
  have 2: "scan_s 4095 (ident @ CHR '' '' # action @ CHR '' '' # path @ [NL])
      = Some (ident, CHR '' '' # action @ CHR '' '' # path @ [NL])"
    using assms(4,5) by (intro scan_s_exact) simp_all
  have 3: "scan_s 20 (CHR '' '' # action @ CHR '' '' # path @ [NL]) = Some (action, CHR '' '' # path @ [NL])"
    using assms(6,7) by (intro scan_s_exact) simp_all
  have 4: "scan_s 4095 (CHR '' '' # path @ [NL]) = Some (path, [NL])"
    using assms(8,9) by (intro scan_s_exact) simp_all
  show ?thesis using ty 1 2 3 4 by (simp add: scan_policy_def)
qed

lemma load_rules_from_spec:
  assumes "unat key + length rs < 2 ^ 32" "load_rules_from upd key rs m = (c, m')"
  shows "\<exists>j \<le> length rs. c = (if j = length rs then 0 else -1)
    \<and> (\<forall>k. m' k = (if unat key < unat k \<and> unat k \<le> unat key + j then Some (rs ! (unat k - unat key - 1)) else m k))
    \<and> (\<forall>i < j. upd (key + of_nat (Suc i))) \<and> (j < length rs \<longrightarrow> \<not> upd (key + of_nat (Suc j)))"
  using assms
proof (induction rs arbitrary: key m)
  case Nil
  then show ?case by auto
next
  case (Cons r rs)
  have k1: "unat (key + 1) = unat key + 1"
    using Cons.prems(1) by (simp add: unat_word_ariths)
  show ?case
  proof (cases "upd (key + 1)")
    case False
    with Cons.prems(2) show ?thesis by (intro exI [of _ 0]) auto
  next
    case True
    have b: "unat (key + 1) + length rs < 2 ^ 32" using Cons.prems(1) k1 by simp
    have run: "load_rules_from upd (key + 1) rs (m(key + 1 \<mapsto> r)) = (c, m')"
      using Cons.prems(2) True by (simp add: Let_def)
    obtain j where j: "j \<le> length rs" "c = (if j = length rs then 0 else -1)"
      "\<forall>k. m' k = (if unat (key + 1) < unat k \<and> unat k \<le> unat (key + 1) + j
          then Some (rs ! (unat k - unat (key + 1) - 1)) else (m(key + 1 \<mapsto> r)) k)"
      "\<forall>i < j. upd (key + 1 + of_nat (Suc i))" "j < length rs \<longrightarrow> \<not> upd (key + 1 + of_nat (Suc j))"
      using Cons.IH [OF b run] by blast
    have m: "m' k = (if unat key < unat k \<and> unat k \<le> unat key + Suc j then Some ((r # rs) ! (unat k - unat key - 1)) else m k)" for k
    proof (cases "k = key + 1")
      case True
      with j(3) k1 show ?thesis by simp
    next
      case False
      then have "unat k \<noteq> unat key + 1" using k1 by (metis word_unat_eq_iff)
      then have "unat (key + 1) < unat k \<and> unat k \<le> unat (key + 1) + j
          \<longleftrightarrow> unat key < unat k \<and> unat k \<le> unat key + Suc j" using k1 by linarith
      moreover have "(r # rs) ! (unat k - unat key - 1) = rs ! (unat k - unat (key + 1) - 1)"
        if "unat (key + 1) < unat k" using that k1 by (simp add: nth_Cons')
      ultimately show ?thesis using j(3) False by auto
    qed
    have u: "\<forall>i < Suc j. upd (key + of_nat (Suc i))"
      using j(4) True by (auto simp: less_Suc_eq_0_disj add.assoc)
    show ?thesis
      using j(1,2,5) m u by (intro exI [of _ "Suc j"]) (auto simp: add.assoc)
  qed
qed

section \<open>Properties\<close>

text \<open>C16: Whatever the policy file and the file system contain, every rule that the parser produces
  is well formed: it forbids reading, writing or both, and its union reads in exactly one way, as a
  non-negative process id when the first word is zero and otherwise as a path that starts with a
  slash.\<close>

theorem policy_rules_well_formed:
  assumes "parse_policy_file n fs file ([], tm) = Done (c, rules, tm')"
  shows "(\<forall>r \<in> set rules. wf_rule r) \<and> (c = 0 \<longleftrightarrow> file \<noteq> None)"
  using assms policy_lines_wf [of n fs _ "([], tm)" "(rules, tm')"]
  by (auto simp: parse_policy_file_def bind_outcome_Done_iff split: option.splits)

definition ex_fs :: fsys where
  "ex_fs = \<lparr>fs_access = (\<lambda>p. True), fs_stat = (\<lambda>p. if p = ''/d'' \<or> p = ''/d/s'' then Some (Directory, 2049, 7) else if p = ''/f'' then Some (Regular, 2049, 9) else None),
     fs_lstat = (\<lambda>p. if p = ''/d/s'' then Some Directory else Some Regular),
     fs_list = (\<lambda>p. if p = ''/d'' then Some [''.'', ''..'', ''s'', ''x''] else if p = ''/d/s'' then Some [''.'', ''..''] else None)\<rparr>"

lemma fgets_from_line: "NL \<notin> set l \<Longrightarrow> length l \<le> n \<Longrightarrow> fgets_from n cur (l @ [NL]) = [cur @ l @ [NL]]"
proof (induction l arbitrary: n cur)
  case Nil
  then show ?case by (cases n) simp_all
next
  case (Cons c l)
  then obtain m where "n = Suc m" by (cases n) auto
  with Cons show ?case by auto
qed

lemma fgets_lines_line: "NL \<notin> set l \<Longrightarrow> length l \<le> 8190 \<Longrightarrow> fgets_lines (l @ [NL]) = [l @ [NL]]"
  by (simp add: fgets_lines_def fgets_from_line)

theorem policy_rules_well_formed_witness:
  "\<exists>rules tm'. parse_policy_file 5 ex_fs (Some (''forbid proc=/bin/x rw /f'' @ [NL])) ([], Map.empty) = Done (0, rules, tm')
     \<and> length rules = 1 \<and> (\<forall>r \<in> set rules. wf_rule r)"
proof -
  let ?l = "''forbid proc=/bin/x rw /f''"
  have f: "fgets_lines (?l @ [NL]) = [?l @ [NL]]" by (rule fgets_lines_line) simp_all
  have "scan_policy (''forbid '' @ ''proc'' @ ''='' @ ''/bin/x'' @ '' '' @ ''rw'' @ '' '' @ ''/f'' @ [NL])
      = Some (''proc'', ''/bin/x'', ''rw'', ''/f'')"
    by (rule scan_policy_exact) (simp_all add: is_word_def is_space_def)
  then have sc: "scan_policy (?l @ [NL]) = Some (''proc'', ''/bin/x'', ''rw'', ''/f'')" by simp
  have h: "hd (?l @ [NL]) \<noteq> CHR ''#''" by simp
  have "\<exists>rules tm'. policy_line 5 ex_fs (?l @ [NL]) ([], Map.empty) = Done (rules, tm') \<and> length rules = 1"
  proof -
    have st: "policy_subject ''proc'' ''/bin/x'' = Some (rule_for_process ''/bin/x'')"
      by (simp add: policy_subject_def)
    have act: "policy_action ''rw'' = Some (FMODE_READ OR FMODE_WRITE)" by (simp add: policy_action_def)
    have tgt: "policy_target ''/f'' = Some (''/f'', False)" by (simp add: policy_target_def)
    have fs: "fs_stat ex_fs ''/f'' = Some (Regular, 2049, 9)" by (simp add: ex_fs_def)
    show ?thesis
      unfolding policy_line_def sc option.case prod.case st act tgt fs Let_def path2target_def
      using h by (simp add: ex_fs_def del: or_numerals)
  qed
  then obtain rules tm' where "parse_policy_file 5 ex_fs (Some (?l @ [NL])) ([], Map.empty) = Done (0, rules, tm')"
    "length rules = 1"
    unfolding parse_policy_file_def option.case f by auto
  with policy_rules_well_formed show ?thesis by blast
qed

text \<open>A policy line written with four fields of admissible length is read back field by field.\<close>

theorem policy_line_roundtrip:
  assumes "type \<in> {''proc'', ''pid''}" "is_word ident" "length ident \<le> 4095"
    "action \<in> {''r'', ''w'', ''rw''}" "is_word path" "length path \<le> 4095"
  shows "scan_policy (''forbid '' @ type @ ''='' @ ident @ '' '' @ action @ '' '' @ path @ [NL])
    = Some (type, ident, action, path)"
proof -
  have "is_word ''proc''" "is_word ''pid''" "is_word ''r''" "is_word ''w''" "is_word ''rw''"
    by (simp_all add: is_word_def is_space_def)
  with assms(1,4) have "is_word type" "length type \<le> 20" "CHR ''='' \<notin> set type" "is_word action" "length action \<le> 20"
    by auto
  with assms show ?thesis by (intro scan_policy_exact)
qed

theorem policy_line_roundtrip_witness:
  "scan_policy (''forbid '' @ ''pid'' @ ''='' @ ''31693'' @ '' '' @ ''w'' @ '' '' @ ''/root/*'' @ [NL])
    = Some (''pid'', ''31693'', ''w'', ''/root/*'')"
  by (rule policy_line_roundtrip) (simp_all add: is_word_def is_space_def)

text \<open>C15: A directory rule reaches exactly the directories at and below its target, parents before children: if the file system
  calls answer as some tree of files does (links, other files, entries that vanish and directories that cannot be opened included)
  and all paths are shorter than \<open>PATH_MAX\<close>, then with fuel for the depth of the tree the walk returns, each directory gets one
  rule with the subject and the actions of the line and the directory as its target, and each is recorded for later messages; a
  directory that cannot be looked up keeps the target of the template and is not recorded.\<close>

theorem directory_rule_covers_tree:
  assumes "answers_as fs dir (Folder nm ts)" "depth (Folder nm ts) \<le> n"
  shows "add_directories_recursively n fs dir base (rules, tm)
    = Done (rules @ map (\<lambda>d. base\<lparr>r_target := dir_target fs base d\<rparr>) (folders dir (Folder nm ts)),
            fold (note_dir fs) (folders dir (Folder nm ts)) tm)"
  using add_directories_tree [of "[(dir, Folder nm ts)]" fs n base rules tm] assms by (simp add: add_directories_recursively_def)

theorem directory_rule_covers_tree_witness:
  "add_directories_recursively 2 ex_fs ''/d'' zero_rule ([], Map.empty)
    = Done (map (\<lambda>d. zero_rule\<lparr>r_target := dir_target ex_fs zero_rule d\<rparr>) [''/d'', ''/d/s''],
        fold (note_dir ex_fs) [''/d'', ''/d/s''] Map.empty)"
  using directory_rule_covers_tree [of ex_fs "''/d''" "''d''" "[Folder ''s'' [], Other ''x'' (Some Regular)]" 2 zero_rule "[]" Map.empty]
  by (simp add: ex_fs_def)

text \<open>Loading puts the rules under the keys 1, 2, 3, and so on, in their order, and leaves the
  other keys alone; at the first update that fails it stops and reports the failure, with exactly
  the rules before it loaded.\<close>

theorem load_rules_prefix:
  assumes "length rs < 2 ^ 32"
  shows "\<exists>j \<le> length rs. fst (load_rules upd rs m) = (if j = length rs then 0 else -1)
    \<and> (\<forall>k. snd (load_rules upd rs m) k = (if 0 < unat k \<and> unat k \<le> j then Some (rs ! (unat k - 1)) else m k))
    \<and> (\<forall>i < j. upd (of_nat (Suc i))) \<and> (j < length rs \<longrightarrow> \<not> upd (of_nat (Suc j)))"
proof -
  obtain c m' where r: "load_rules_from upd 0 rs m = (c, m')" by fastforce
  then have l: "fst (load_rules upd rs m) = c" "snd (load_rules upd rs m) = m'" by (simp_all add: load_rules_def)
  have "unat (0 :: u32) + length rs < 2 ^ 32" using assms by simp
  from load_rules_from_spec [OF this r] show ?thesis
    unfolding l unat_0 add_0 diff_zero .
qed

theorem load_rules_prefix_witness:
  "\<exists>j \<le> 2. fst (load_rules (\<lambda>k. k \<noteq> 2) [zero_rule, zero_rule] Map.empty) = (if j = 2 then 0 else -1)
    \<and> (j < 2 \<longrightarrow> \<not> (of_nat (Suc j) :: u32) \<noteq> 2)"
  using load_rules_prefix [of "[zero_rule, zero_rule]" "\<lambda>k. k \<noteq> 2" Map.empty] by fastforce

text \<open>When a map of the loaded program is missing, the program ends with status 0.\<close>

lemma missing_map_exit_status:
  "loaded \<Longrightarrow> filter_fd < 0 \<or> log_fd < 0 \<Longrightarrow> frtp_main 0 0 loaded filter_fd log_fd att rb pol ld = 0"
  by (auto simp: frtp_main_def)

text \<open>The pattern \<open>/*\<close> for the root directory leaves an empty path, which does not exist.\<close>

lemma root_pattern_empty: "policy_target ''/*'' = Some ([], True)"
  by (simp add: policy_target_def)

end
