(* ===== verification/Net_Cgroup.thy ===== *)
theory Net_Cgroup
  imports C_Strings Complex_Main
begin

text \<open>
  The first half of \<open>filter/net-limit.cpp\<close>: text helpers (\<open>trim\<close>, \<open>decode_mountinfo_path\<close>,
  \<open>join_path\<close>, the number parsers, \<open>shell_quote\<close>) and the functions that find or create the cgroup of
  a target. The file system, \<open>/proc\<close> and the floating point of the C library are parameters.
\<close>

section \<open>Text\<close>

definition trim :: "string \<Rightarrow> string" where
  "trim s = rev (dropWhile is_space (rev (dropWhile is_space s)))"

text \<open>A backslash and three digits stand for one character; the cast to \<open>char\<close> truncates the value.\<close>

fun decode_mountinfo_path :: "string \<Rightarrow> string" where
  "decode_mountinfo_path (c # d1 # d2 # d3 # s) =
     (if c = CHR 0x5C \<and> is_digit d1 \<and> is_digit d2 \<and> is_digit d3
      then char_of (digit_val d1 * 64 + digit_val d2 * 8 + digit_val d3) # decode_mountinfo_path s
      else c # decode_mountinfo_path (d1 # d2 # d3 # s))"
| "decode_mountinfo_path (c # s) = c # decode_mountinfo_path s"
| "decode_mountinfo_path [] = []"

text \<open>\<open>line.find(pat)\<close>: the text before and after the first occurrence.\<close>

fun split_first :: "string \<Rightarrow> string \<Rightarrow> (string \<times> string) option" where
  "split_first pat s =
     (if take (length pat) s = pat then Some ([], drop (length pat) s)
      else case s of [] \<Rightarrow> None
        | c # r \<Rightarrow> (case split_first pat r of None \<Rightarrow> None | Some (a, b) \<Rightarrow> Some (c # a, b)))"

declare split_first.simps [simp del]

text \<open>The last of \<open>n\<close> words read from a stream.\<close>

fun nth_word :: "nat \<Rightarrow> string \<Rightarrow> string option" where
  "nth_word 0 s = None"
| "nth_word (Suc n) s =
     (case read_word s of None \<Rightarrow> None | Some (w, r) \<Rightarrow> if n = 0 then Some w else nth_word n r)"

text \<open>\<open>get_cgroup2_mount\<close> over the lines of \<open>/proc/self/mountinfo\<close>.\<close>

fun cgroup2_mount_in :: "string list \<Rightarrow> string option" where
  "cgroup2_mount_in [] = None"
| "cgroup2_mount_in (line # ls) =
     (case split_first '' - '' line of
        None \<Rightarrow> cgroup2_mount_in ls
      | Some (pre, post) \<Rightarrow>
          (if (case read_word post of None \<Rightarrow> [] | Some (w, r) \<Rightarrow> w) \<noteq> ''cgroup2'' then cgroup2_mount_in ls
           else case nth_word 5 pre of None \<Rightarrow> None | Some field \<Rightarrow> Some (decode_mountinfo_path field)))"

definition get_cgroup2_mount :: "string \<Rightarrow> string option" where
  "get_cgroup2_mount mountinfo = cgroup2_mount_in (getlines mountinfo)"

definition join_path :: "string \<Rightarrow> string \<Rightarrow> string" where
  "join_path base sub =
     (if sub = [] \<or> sub = ''/'' then base
      else if base = [] \<or> base = ''/'' then ''/'' @ sub
      else if last base = CHR ''/'' then base @ (if hd sub = CHR ''/'' then tl sub else sub)
      else base @ ''/'' @ (if hd sub = CHR ''/'' then tl sub else sub))"

text \<open>\<open>cgroup_path_from_pid\<close> over the lines of \<open>/proc/PID/cgroup\<close>: the line without controllers.\<close>

fun cgroup_path_in :: "string list \<Rightarrow> string option" where
  "cgroup_path_in [] = None"
| "cgroup_path_in (line # ls) =
     (case split_first '':'' line of
        None \<Rightarrow> cgroup_path_in ls
      | Some (a, r1) \<Rightarrow>
        (case split_first '':'' r1 of
           None \<Rightarrow> cgroup_path_in ls
         | Some (controllers, path) \<Rightarrow> if controllers \<noteq> [] then cgroup_path_in ls else Some path))"

definition cgroup_path_from_pid :: "(u32 \<Rightarrow> string) \<Rightarrow> u32 \<Rightarrow> string option" where
  "cgroup_path_from_pid proc_cgroup pid = cgroup_path_in (getlines (proc_cgroup pid))"

section \<open>Numbers\<close>

definition parse_u32 :: "string \<Rightarrow> u32 option" where
  "parse_u32 s =
     (case scan_number s of
        None \<Rightarrow> None
      | Some _ \<Rightarrow>
        (case strtoul10 s of (v, rest, erange) \<Rightarrow>
           if erange \<or> rest \<noteq> [] \<or> v > 4294967295 then None else Some (ucast v)))"

definition parse_u64 :: "string \<Rightarrow> u64 option" where
  "parse_u64 s =
     (case scan_number s of
        None \<Rightarrow> None
      | Some _ \<Rightarrow> (case strtoul10 s of (v, rest, erange) \<Rightarrow> if erange \<or> rest \<noteq> [] then None else Some v))"

text \<open>
  Doubles: \<open>fp_strtod\<close> gives the (finite) value read, the rest of the string and whether \<open>errno\<close> was
  set; \<open>fp_round\<close> rounds the exact result of an operation; \<open>fp_u64\<close> is the conversion to
  \<open>uint64_t\<close>.
\<close>

record fpu =
  fp_strtod :: "string \<Rightarrow> rat \<times> string \<times> bool"
  fp_round :: "rat \<Rightarrow> rat"
  fp_u64 :: "rat \<Rightarrow> u64"

definition fmul :: "fpu \<Rightarrow> rat \<Rightarrow> rat \<Rightarrow> rat" where
  "fmul f a b = fp_round f (a * b)"

definition fdiv :: "fpu \<Rightarrow> rat \<Rightarrow> rat \<Rightarrow> rat" where
  "fdiv f a b = fp_round f (a / b)"

text \<open>The scaling of \<open>parse_size\<close> by the unit; \<open>None\<close> for an unknown one.\<close>

definition scale_size :: "fpu \<Rightarrow> string \<Rightarrow> rat \<Rightarrow> rat option" where
  "scale_size f unit n =
     (if unit \<in> set ['''', ''b'', ''byte'', ''bytes''] then Some n
      else if unit \<in> set [''k'', ''kb''] then Some (fmul f n 1024)
      else if unit \<in> set [''m'', ''mb''] then Some (fmul f (fmul f n 1024) 1024)
      else if unit \<in> set [''g'', ''gb''] then Some (fmul f (fmul f (fmul f n 1024) 1024) 1024)
      else if unit \<in> set [''kbit'', ''kbits'', ''kbit/s'', ''kbps''] then Some (fdiv f (fmul f n 1000) 8)
      else if unit \<in> set [''mbit'', ''mbits'', ''mbit/s'', ''mbps'']
        then Some (fdiv f (fmul f (fmul f n 1000) 1000) 8)
      else if unit \<in> set [''gbit'', ''gbits'', ''gbit/s'', ''gbps'']
        then Some (fdiv f (fmul f (fmul f (fmul f n 1000) 1000) 1000) 8)
      else None)"

text \<open>\<open>parse_size\<close>: whether it succeeds, and what \<open>*value\<close>, which held \<open>old\<close>, has then.\<close>

definition parse_size :: "fpu \<Rightarrow> string \<Rightarrow> u64 \<Rightarrow> bool \<times> u64" where
  "parse_size f text old =
     (let s = trim text
      in if s = [] then (False, old)
         else case fp_strtod f s of (number, rest, err) \<Rightarrow>
           if err \<or> rest = s \<or> number < 0 then (False, old)
           else case scale_size f (map to_lower (trim rest)) number of
             None \<Rightarrow> (False, old)
           | Some x \<Rightarrow> (fp_u64 f x > 0, fp_u64 f x))"

definition shell_quote :: "string \<Rightarrow> string" where
  "shell_quote s =
     CHR 0x27 # concat (map (\<lambda>c. if c = CHR 0x27 then [CHR 0x27, CHR 0x5C, CHR 0x27, CHR 0x27] else [c]) s) @ [CHR 0x27]"

section \<open>Cgroups of targets\<close>

text \<open>
  What the functions ask of the system: the text of \<open>/proc/self/mountinfo\<close>, the inode of a directory
  that \<open>mkdir\<close> creates (or a failure), and whether \<open>cgroup.procs\<close> opens and takes a write.
\<close>

record cg_sys =
  mountinfo :: string
  mkdir_ino :: "string \<Rightarrow> u64 option"
  procs_open :: "string \<Rightarrow> bool"
  procs_accept :: "string \<Rightarrow> string \<Rightarrow> bool"

text \<open>
  The state: what \<open>stat\<close> says of a path (whether it is a directory, and its inode), the processes
  moved so far, and \<open>g_last_tgid_cgroup_path\<close>.
\<close>

record cg_state =
  nodes :: "string \<Rightarrow> (bool \<times> u64) option"
  moved :: "(string \<times> string) list"
  g_last_tgid_cgroup_path :: string

definition resolve_cgroup_path :: "cg_sys \<Rightarrow> string \<Rightarrow> cg_state \<Rightarrow> string option" where
  "resolve_cgroup_path sys input st =
     (case get_cgroup2_mount (mountinfo sys) of
        None \<Rightarrow> None
      | Some mount \<Rightarrow>
        (let resolved =
           (if input = [] \<or> input = ''auto'' then mount
            else if take (length mount) input = mount \<and>
                 (length input = length mount \<or> input ! length mount = CHR ''/'') then input
            else join_path mount input)
         in case nodes st resolved of
              None \<Rightarrow> None
            | Some (is_dir, ino) \<Rightarrow> if \<not> is_dir then None else Some resolved))"

definition cgroup_id_from_path :: "cg_sys \<Rightarrow> string \<Rightarrow> cg_state \<Rightarrow> u64 option" where
  "cgroup_id_from_path sys input st =
     (case resolve_cgroup_path sys input st of
        None \<Rightarrow> None
      | Some resolved \<Rightarrow> (case nodes st resolved of None \<Rightarrow> None | Some (is_dir, ino) \<Rightarrow> Some ino))"

definition ensure_dir :: "cg_sys \<Rightarrow> string \<Rightarrow> cg_state \<Rightarrow> bool \<times> cg_state" where
  "ensure_dir sys path st =
     (case nodes st path of
        Some (is_dir, ino) \<Rightarrow> (is_dir, st)
      | None \<Rightarrow>
        (case mkdir_ino sys path of
           None \<Rightarrow> (False, st)
         | Some ino \<Rightarrow> (True, st\<lparr>nodes := (nodes st)(path \<mapsto> (True, ino))\<rparr>)))"

definition move_pid_to_cgroup :: "cg_sys \<Rightarrow> u32 \<Rightarrow> string \<Rightarrow> cg_state \<Rightarrow> bool \<times> cg_state" where
  "move_pid_to_cgroup sys pid cgroup_path st =
     (let procs = join_path cgroup_path ''cgroup.procs''; txt = show_nat (unat pid)
      in if \<not> procs_open sys procs then (False, st)
         else if \<not> procs_accept sys procs txt then (False, st)
         else (True, st\<lparr>moved := moved st @ [(procs, txt)]\<rparr>))"

definition tgid_path_below :: "string \<Rightarrow> u32 \<Rightarrow> string" where
  "tgid_path_below mount pid =
     join_path (join_path mount ''dkapture-net-limit'') (''tgid-'' @ show_nat (unat pid))"

definition tgid_cgroup_path :: "cg_sys \<Rightarrow> u32 \<Rightarrow> string option" where
  "tgid_cgroup_path sys pid =
     (case get_cgroup2_mount (mountinfo sys) of None \<Rightarrow> None | Some mount \<Rightarrow> Some (tgid_path_below mount pid))"

text \<open>\<open>prepare_tgid_cgroup\<close>: the cgroup id and the path, or a failure.\<close>

definition prepare_tgid_cgroup :: "cg_sys \<Rightarrow> u32 \<Rightarrow> cg_state \<Rightarrow> (u64 \<times> string) option \<times> cg_state" where
  "prepare_tgid_cgroup sys pid st =
     (case get_cgroup2_mount (mountinfo sys) of
        None \<Rightarrow> (None, st)
      | Some mount \<Rightarrow>
        (let path = tgid_path_below mount pid
         in case ensure_dir sys (join_path mount ''dkapture-net-limit'') st of (ok1, st1) \<Rightarrow>
            if \<not> ok1 then (None, st1)
            else case ensure_dir sys path st1 of (ok2, st2) \<Rightarrow>
              if \<not> ok2 then (None, st2)
              else case move_pid_to_cgroup sys pid path st2 of (ok3, st3) \<Rightarrow>
                if \<not> ok3 then (None, st3)
                else case nodes st3 path of
                  None \<Rightarrow> (None, st3)
                | Some (is_dir, ino) \<Rightarrow> (Some (ino, path), st3\<lparr>g_last_tgid_cgroup_path := path\<rparr>)))"

definition tgid_cgroup_id :: "cg_sys \<Rightarrow> u32 \<Rightarrow> cg_state \<Rightarrow> u64 option" where
  "tgid_cgroup_id sys pid st =
     (case tgid_cgroup_path sys pid of
        None \<Rightarrow> None
      | Some path \<Rightarrow> (case nodes st path of None \<Rightarrow> None | Some (is_dir, ino) \<Rightarrow> Some ino))"

definition cleanup_tgid_cgroup :: "(string \<Rightarrow> bool) \<Rightarrow> cg_state \<Rightarrow> cg_state" where
  "cleanup_tgid_cgroup rmdir_ok st =
     (if g_last_tgid_cgroup_path st \<noteq> [] \<and> rmdir_ok (g_last_tgid_cgroup_path st)
      then st\<lparr>nodes := (nodes st)(g_last_tgid_cgroup_path st := None)\<rparr> else st)"

section \<open>Lemmas on text\<close>

lemma trim_space_free: "is_word w \<Longrightarrow> trim w = w"
proof -
  have d: "dropWhile is_space v = v" if "is_word v" for v using is_word_head [OF that] by auto
  assume w: "is_word w"
  then have "is_word (rev w)" by (simp add: is_word_def)
  then show ?thesis by (simp add: trim_def d w)
qed

lemma parse_u64_show: "unat v \<le> UINT64_MAX_nat \<Longrightarrow> parse_u64 (show_nat (unat v)) = Some v"
  using scan_show_nat [of "[]" "unat v"] by (simp add: parse_u64_def strtoul10_def)

text \<open>How the kernel prints a path there (\<open>proc(5)\<close>): space, tab, newline and backslash in octal.\<close>

definition octal3 :: "char \<Rightarrow> string" where
  "octal3 c = (let n = of_char c :: nat in [digit_char (n div 64), digit_char (n div 8 mod 8), digit_char (n mod 8)])"

definition mangle_char :: "char \<Rightarrow> string" where
  "mangle_char c = (if c \<in> {CHR '' '', CHR 0x09, NL, CHR 0x5C} then CHR 0x5C # octal3 c else [c])"

definition mangle :: "string \<Rightarrow> string" where
  "mangle p = concat (map mangle_char p)"

lemma decode_plain: "c \<noteq> CHR 0x5C \<Longrightarrow> decode_mountinfo_path (c # s) = c # decode_mountinfo_path s"
  by (cases s rule: decode_mountinfo_path.cases) (auto split: list.splits)

lemma octal_value: "(n::nat) div 64 * 64 + n div 8 mod 8 * 8 + n mod 8 = n"
proof -
  have "n div 8 div 8 = n div 64" by (simp add: div_mult2_eq [symmetric])
  moreover have "n div 8 div 8 * 8 + n div 8 mod 8 = n div 8" by simp
  moreover have "n div 8 * 8 + n mod 8 = n" by simp
  ultimately show ?thesis by linarith
qed

lemma decode_octal: "decode_mountinfo_path (CHR 0x5C # octal3 c @ s) = c # decode_mountinfo_path s"
proof -
  let ?n = "of_char c :: nat"
  have "?n < 10 * 64" using nat_of_char_less_256 [of c] by linarith
  then have "?n div 64 < 10" by (rule less_mult_imp_div_less)
  then have b: "?n div 64 < 10" "?n div 8 mod 8 < 10" "?n mod 8 < 10" by simp_all
  have "?n div 64 * 64 + ?n div 8 mod 8 * 8 + ?n mod 8 = ?n" by (rule octal_value)
  then show ?thesis using b by (simp add: octal3_def Let_def)
qed

lemma decode_mangle: "decode_mountinfo_path (mangle p) = p"
  by (induction p) (simp_all add: mangle_def mangle_char_def decode_plain decode_octal)

text \<open>Words separated by single spaces.\<close>

fun spaced :: "string list \<Rightarrow> string" where
  "spaced [] = []"
| "spaced (w # ws) = CHR '' '' # w @ spaced ws"

lemma split_first_Cons:
  assumes "c \<noteq> p"
  shows "split_first (p # ps) (c # s) = (case split_first (p # ps) s of None \<Rightarrow> None | Some (a, b) \<Rightarrow> Some (c # a, b))"
  using assms by (subst split_first.simps) simp

lemma split_first_word:
  assumes "\<forall>c \<in> set w. \<not> is_space c"
  shows "split_first '' - '' (w @ r) = (case split_first '' - '' r of None \<Rightarrow> None | Some (a, b) \<Rightarrow> Some (w @ a, b))"
  using assms
proof (induction w)
  case Nil
  then show ?case by (simp split: option.split)
next
  case (Cons c w)
  then have "c \<noteq> CHR '' ''" by auto
  with Cons show ?case by (simp add: split_first_Cons split: option.split)
qed

lemma split_first_spaced:
  assumes "\<forall>w \<in> set ws. is_word w \<and> w \<noteq> ''-''"
  shows "split_first '' - '' (spaced ws @ '' - '' @ post) = Some (spaced ws, post)"
  using assms
proof (induction ws)
  case Nil
  then show ?case by (subst split_first.simps) simp
next
  case (Cons w ws)
  let ?r = "spaced ws @ '' - '' @ post"
  have w: "is_word w" "w \<noteq> ''-''" using Cons.prems by auto
  obtain c cs where c: "w = c # cs" using is_word_head [OF w(1)] by blast
  have no: "take 3 (CHR '' '' # w @ ?r) \<noteq> '' - ''"
    using w c by (cases cs) (auto simp: is_word_def numeral_3_eq_3 numeral_2_eq_2)
  have "split_first '' - '' (w @ ?r) = Some (w @ spaced ws, post)"
    using split_first_word [of w ?r] w(1) Cons by (simp add: is_word_def)
  then show ?case using no by (subst split_first.simps) (simp add: numeral_3_eq_3 numeral_2_eq_2)
qed

lemma nth_word_spaced:
  assumes "\<forall>w \<in> set ws. is_word w" "n < length ws"
  shows "nth_word (Suc n) (spaced ws) = Some (ws ! n)"
  using assms
proof (induction ws arbitrary: n)
  case Nil
  then show ?case by simp
next
  case (Cons w ws)
  have "spaced ws = [] \<or> is_space (hd (spaced ws))" by (cases ws) simp_all
  then have "read_word (spaced (w # ws)) = Some (w, spaced ws)"
    using Cons.prems by (simp add: read_word_skip read_word_exact)
  with Cons show ?case by (cases n) simp_all
qed

section \<open>The mount table\<close>

text \<open>
  A line of \<open>/proc/self/mountinfo\<close> as \<open>proc(5)\<close> documents it: three fields, the root and the mount
  point, options and optional fields, a hyphen, the type of the file system, and the rest.
\<close>

record mnt =
  m_head :: "string list"
  m_root :: string
  m_point :: string
  m_opts :: "string list"
  m_type :: string
  m_rest :: string

definition mnt_fields :: "mnt \<Rightarrow> string list" where
  "mnt_fields m = m_head m @ [mangle (m_root m), mangle (m_point m)] @ m_opts m"

definition mnt_line :: "mnt \<Rightarrow> string" where
  "mnt_line m = tl (spaced (mnt_fields m)) @ '' - '' @ m_type m @ '' '' @ m_rest m"

text \<open>Paths are absolute and free of the control characters that the kernel does not escape.\<close>

definition path_ok :: "string \<Rightarrow> bool" where
  "path_ok p \<longleftrightarrow> p \<noteq> [] \<and> hd p = CHR ''/'' \<and> (\<forall>c \<in> {CHR 0x0B, CHR 0x0C, CHR 0x0D}. c \<notin> set p)"

definition mnt_ok :: "mnt \<Rightarrow> bool" where
  "mnt_ok m \<longleftrightarrow> length (m_head m) = 3 \<and> (\<forall>w \<in> set (m_head m @ m_opts m). is_word w \<and> w \<noteq> ''-'')
     \<and> path_ok (m_root m) \<and> path_ok (m_point m) \<and> is_word (m_type m) \<and> NL \<notin> set (m_rest m)"

lemma octal3_no_space: "\<forall>d \<in> set (octal3 c). \<not> is_space d"
proof -
  let ?n = "of_char c :: nat"
  have "?n < 10 * 64" using nat_of_char_less_256 [of c] by linarith
  then have "?n div 64 < 10" by (rule less_mult_imp_div_less)
  then show ?thesis by (simp add: octal3_def Let_def)
qed

lemma mangle_word:
  assumes "path_ok p"
  shows "is_word (mangle p) \<and> mangle p \<noteq> ''-''"
proof -
  obtain q where p: "p = CHR ''/'' # q" using assms by (cases p) (auto simp: path_ok_def)
  have bs: "\<not> is_space CHR 0x5C" by (simp add: is_space_def)
  have sp: "\<not> is_space d" if d: "d \<in> set (mangle_char c)"
    and c: "c \<in> set p" for c d
  proof (cases "c \<in> {CHR '' '', CHR 0x09, NL, CHR 0x5C}")
    case True
    then show ?thesis using d octal3_no_space [of c] bs by (auto simp: mangle_char_def)
  next
    case False
    moreover have "c \<notin> {CHR 0x0B, CHR 0x0C, CHR 0x0D}" using assms c by (auto simp: path_ok_def)
    ultimately show ?thesis using d by (simp add: is_space_def mangle_char_def)
  qed
  have "mangle p = CHR ''/'' # mangle q" using p by (simp add: mangle_def mangle_char_def)
  moreover have "\<forall>d \<in> set (mangle p). \<not> is_space d" using sp unfolding mangle_def by auto
  ultimately show ?thesis by (simp add: is_word_def)
qed

lemma nth_word_skip: "is_space c \<Longrightarrow> nth_word n (c # s) = nth_word n s"
  by (cases n) (simp_all add: read_word_skip)

lemma mnt_fields_ok:
  assumes "mnt_ok m"
  shows "\<forall>w \<in> set (mnt_fields m). is_word w \<and> w \<noteq> ''-''" "4 < length (mnt_fields m)"
    "mnt_fields m ! 4 = mangle (m_point m)"
  using assms mangle_word by (auto simp: mnt_ok_def mnt_fields_def nth_append)

lemma mnt_line_parts:
  assumes "mnt_ok m"
  shows "split_first '' - '' (mnt_line m) = Some (tl (spaced (mnt_fields m)), m_type m @ '' '' @ m_rest m)"
    and "read_word (m_type m @ '' '' @ m_rest m) = Some (m_type m, '' '' @ m_rest m)"
    and "nth_word 5 (tl (spaced (mnt_fields m))) = Some (mangle (m_point m))"
    and "NL \<notin> set (mnt_line m)"
proof -
  note ok = mnt_fields_ok [OF assms]
  obtain w ws where f: "mnt_fields m = w # ws" using ok(2) by (cases "mnt_fields m") auto
  show "split_first '' - '' (mnt_line m) = Some (tl (spaced (mnt_fields m)), m_type m @ '' '' @ m_rest m)"
    using split_first_word [of w "spaced ws @ '' - '' @ m_type m @ '' '' @ m_rest m"] ok(1) f
      split_first_spaced [of ws "m_type m @ '' '' @ m_rest m"]
    by (simp add: mnt_line_def is_word_def)
  show "read_word (m_type m @ '' '' @ m_rest m) = Some (m_type m, '' '' @ m_rest m)"
    using assms by (simp add: mnt_ok_def read_word_exact)
  have "nth_word (Suc 4) (spaced (mnt_fields m)) = Some (mangle (m_point m))"
    using nth_word_spaced [of "mnt_fields m" 4] ok by simp
  moreover have "spaced (mnt_fields m) = CHR '' '' # tl (spaced (mnt_fields m))" using f by simp
  ultimately show "nth_word 5 (tl (spaced (mnt_fields m))) = Some (mangle (m_point m))"
    using nth_word_skip [of "CHR '' ''" 5 "tl (spaced (mnt_fields m))"] by simp
  have word_nl: "NL \<notin> set v" if "is_word v" for v using that is_space_simps(2) unfolding is_word_def by blast
  have sp: "NL \<notin> set (spaced vs)" if "\<forall>v \<in> set vs. is_word v" for vs
    using that by (induction vs) (auto simp: word_nl)
  show "NL \<notin> set (mnt_line m)"
    using sp [of ws] ok(1) f assms word_nl by (auto simp: mnt_line_def mnt_ok_def)
qed

section \<open>Properties\<close>

text \<open>Whatever mounts the kernel lists in \<open>/proc/self/mountinfo\<close>, \<open>get_cgroup2_mount\<close> gives the
  mount point of the first cgroup2 file system, with its blanks and backslashes unescaped, and
  fails if there is none.\<close>

theorem get_cgroup2_mount_correct:
  assumes "\<forall>m \<in> set ms. mnt_ok m"
  shows "get_cgroup2_mount (concat (map (\<lambda>m. mnt_line m @ [NL]) ms))
     = map_option m_point (List.find (\<lambda>m. m_type m = ''cgroup2'') ms)"
  using assms
proof (induction ms)
  case Nil
  then show ?case by (simp add: get_cgroup2_mount_def)
next
  case (Cons m ms)
  then have ok: "mnt_ok m" by simp
  note p = mnt_line_parts [OF ok]
  have "getlines (concat (map (\<lambda>m. mnt_line m @ [NL]) (m # ms)))
      = mnt_line m # getlines (concat (map (\<lambda>m. mnt_line m @ [NL]) ms))"
    using getlines_line [OF p(4)] by simp
  then show ?case using Cons p(1-3) unfolding get_cgroup2_mount_def by (simp add: decode_mangle)
qed

definition ex_mnt :: "string \<Rightarrow> string \<Rightarrow> mnt" where
  "ex_mnt type point = \<lparr>m_head = [''36'', ''35'', ''0:30''], m_root = ''/'', m_point = point,
     m_opts = [''rw'', ''shared:9''], m_type = type, m_rest = ''none rw''\<rparr>"

theorem get_cgroup2_mount_correct_witness:
  "get_cgroup2_mount (concat (map (\<lambda>m. mnt_line m @ [NL]) [ex_mnt ''tmpfs'' ''/run'', ex_mnt ''cgroup2'' ''/my cg'']))
     = Some ''/my cg''"
  using get_cgroup2_mount_correct [of "[ex_mnt ''tmpfs'' ''/run'', ex_mnt ''cgroup2'' ''/my cg'']"]
  by (simp add: ex_mnt_def mnt_ok_def path_ok_def is_word_def is_space_def)

end
