(* ===== verification/Net_Limit.thy ===== *)
theory Net_Limit
  imports Net_Cgroup Bpf_Linker
begin

text \<open>
  The second half of \<open>filter/net-limit.cpp\<close>: the rules for cgroups in the pinned maps, the traffic
  classes that \<open>tc\<close> is asked for, and the commands load, add, del, list and stats. The kernel's maps
  are modelled by their contents; the order in which \<open>bpf_map_get_next_key\<close> enumerates them, libbpf,
  \<open>getopt_long\<close> and \<open>system\<close> are parameters.
\<close>

section \<open>Data\<close>

abbreviation NET_LIMIT_SCOPE_CGROUP :: u32 where "NET_LIMIT_SCOPE_CGROUP \<equiv> 2"
abbreviation NET_LIMIT_EGRESS :: u32 where "NET_LIMIT_EGRESS \<equiv> 1"
abbreviation NET_LIMIT_INGRESS :: u32 where "NET_LIMIT_INGRESS \<equiv> 2"

record limit_rule =
  rate_bps :: u64
  burst_bytes :: u64
  rule_direction :: u32
  rule_pad :: u32

record bucket_key =
  key_scope :: u32
  key_direction :: u32
  key_id :: u64

record limit_stats =
  pass_bytes :: u64
  drop_bytes :: u64
  pass_packets :: u64
  drop_packets :: u64

record shape_rule =
  shape_classid_of :: u32
  shape_direction :: u32

datatype held = CgroupFd | Skeleton | IngressLink | EgressHook

text \<open>
  The state of the tool and of the kernel objects it works on: the cgroups, the registry of shared
  maps, the pinned maps (\<open>None\<close> where \<open>bpf_obj_get\<close> fails), the rule map of the loaded object, the
  commands run, and the resources held.
\<close>

record nl_state =
  cg :: cg_state
  registry :: reg_state
  cgroup_rules :: "(u64 \<rightharpoonup> limit_rule) option"
  buckets :: "(bucket_key \<rightharpoonup> bytes) option"
  stats :: "(bucket_key \<rightharpoonup> limit_stats) option"
  shape_rules :: "(bucket_key \<rightharpoonup> shape_rule) option"
  skel_rules :: "u64 \<rightharpoonup> limit_rule"
  cmds :: "string list"
  holding :: "held list"

text \<open>The system: \<open>cmd_exit\<close> is the exit status of a command that \<open>system\<close> runs to its end.\<close>

record nl_sys =
  cgs :: cg_sys
  fp :: fpu
  regs :: reg_sys
  links :: link_sys
  uid_root :: bool
  getopt_long :: "string \<Rightarrow> nat \<Rightarrow> string list \<Rightarrow> (char \<times> string) list"
  cmd_exit :: "string \<Rightarrow> int option"
  rmdir_ok :: "string \<Rightarrow> bool"
  rule_update_ok :: bool
  shape_update_ok :: bool
  next_rule :: "(u64 \<Rightarrow> bool) \<Rightarrow> u64 option \<Rightarrow> u64 option"
  next_bucket :: "(bucket_key \<Rightarrow> bool) \<Rightarrow> bucket_key option \<Rightarrow> bucket_key option"
  next_stat :: "(bucket_key \<Rightarrow> bool) \<Rightarrow> bucket_key option \<Rightarrow> bucket_key option"
  next_shape :: "(bucket_key \<Rightarrow> bool) \<Rightarrow> bucket_key option \<Rightarrow> bucket_key option"
  if_nametoindex :: "string \<Rightarrow> int"
  open_dir_ok :: "string \<Rightarrow> bool"
  skel_open :: bool
  skel_maps :: "string option list"
  skel_load :: int
  attach_cgroup_ok :: bool
  hook_create :: int
  tc_attach :: int

section \<open>Rules and traffic classes\<close>

definition direction_name :: "u32 \<Rightarrow> string" where
  "direction_name d =
     (if d = NET_LIMIT_EGRESS then ''egress''
      else if d = NET_LIMIT_INGRESS then ''ingress''
      else if d = NET_LIMIT_EGRESS OR NET_LIMIT_INGRESS then ''both''
      else ''unknown'')"

text \<open>\<open>update_cgroup_rule_map\<close> with a null skeleton, on the pinned map, and on the loaded object.\<close>

definition update_pinned_rule :: "nl_sys \<Rightarrow> u64 \<Rightarrow> limit_rule \<Rightarrow> nl_state \<Rightarrow> int \<times> nl_state" where
  "update_pinned_rule sys cgid rule st =
     (case cgroup_rules st of
        None \<Rightarrow> (-1, st)
      | Some m \<Rightarrow>
          if \<not> rule_update_ok sys then (-1, st)
          else (0, st\<lparr>cgroup_rules := Some (m(cgid \<mapsto> rule))\<rparr>))"

definition update_skel_rule :: "nl_sys \<Rightarrow> u64 \<Rightarrow> limit_rule \<Rightarrow> nl_state \<Rightarrow> int \<times> nl_state" where
  "update_skel_rule sys cgid rule st =
     (if \<not> rule_update_ok sys then (-1, st) else (0, st\<lparr>skel_rules := (skel_rules st)(cgid \<mapsto> rule)\<rparr>))"

definition shape_classid :: "u32 \<Rightarrow> u32" where
  "shape_classid minor = push_bit 16 1 OR minor"

definition shape_classid_text :: "u32 \<Rightarrow> string" where
  "shape_classid_text classid =
     show_hex (unat (drop_bit 16 classid)) @ '':'' @ show_hex (unat (classid AND 0xffff))"

definition run_cmd :: "nl_sys \<Rightarrow> string \<Rightarrow> nl_state \<Rightarrow> bool \<times> nl_state" where
  "run_cmd sys cmd st = (cmd_exit sys cmd = Some 0, st\<lparr>cmds := cmds st @ [cmd]\<rparr>)"

definition shape_update_rule :: "nl_sys \<Rightarrow> u64 \<Rightarrow> shape_rule \<Rightarrow> nl_state \<Rightarrow> int \<times> nl_state" where
  "shape_update_rule sys cgid rule st =
     (case shape_rules st of
        None \<Rightarrow> (-1, st)
      | Some m \<Rightarrow>
          if \<not> shape_update_ok sys then (-1, st)
          else (0, st\<lparr>shape_rules := Some (m(\<lparr>key_scope = NET_LIMIT_SCOPE_CGROUP,
                   key_direction = shape_direction rule, key_id = cgid\<rparr> \<mapsto> rule))\<rparr>))"

definition shape_delete_rule :: "u64 \<Rightarrow> u32 \<Rightarrow> nl_state \<Rightarrow> int \<times> nl_state" where
  "shape_delete_rule cgid dir st =
     (case shape_rules st of
        None \<Rightarrow> (-1, st)
      | Some m \<Rightarrow> (0, st\<lparr>shape_rules := Some (m(\<lparr>key_scope = NET_LIMIT_SCOPE_CGROUP,
                       key_direction = dir, key_id = cgid\<rparr> := None))\<rparr>))"

definition shape_setup_htb :: "nl_sys \<Rightarrow> string \<Rightarrow> nl_state \<Rightarrow> bool \<times> nl_state" where
  "shape_setup_htb sys dev st =
     (case run_cmd sys (''tc qdisc replace dev '' @ shell_quote dev @ '' root handle 1: htb default ffff'') st of
        (ok, st1) \<Rightarrow>
          if \<not> ok then (False, st1)
          else run_cmd sys (''tc class replace dev '' @ shell_quote dev
                 @ '' parent 1: classid 1:ffff htb rate 100gbit ceil 100gbit'') st1)"

text \<open>The rate as \<open>tc\<close> takes it: \<open>10mbit/s\<close> loses the suffix.\<close>

definition tc_rate_of :: "nl_sys \<Rightarrow> string \<Rightarrow> string" where
  "tc_rate_of sys rate =
     (let tc_rate = trim rate;
          unit = map to_lower (trim (fst (snd (fp_strtod (fp sys) tc_rate))))
      in if unit \<in> set [''kbit/s'', ''mbit/s'', ''gbit/s''] then take (length tc_rate - 2) tc_rate else tc_rate)"

definition add_class_cmd :: "string \<Rightarrow> u32 \<Rightarrow> string \<Rightarrow> string" where
  "add_class_cmd dev classid tc_rate =
     ''tc class replace dev '' @ shell_quote dev @ '' parent '' @ (show_nat (unat (drop_bit 16 classid)) @ '':'')
       @ '' classid '' @ shape_classid_text classid @ '' htb rate '' @ shell_quote tc_rate
       @ '' ceil '' @ shell_quote tc_rate"

definition shape_add_class :: "nl_sys \<Rightarrow> string \<Rightarrow> u32 \<Rightarrow> string \<Rightarrow> nl_state \<Rightarrow> bool \<times> nl_state" where
  "shape_add_class sys dev classid rate st = run_cmd sys (add_class_cmd dev classid (tc_rate_of sys rate)) st"

definition shape_del_class :: "nl_sys \<Rightarrow> string \<Rightarrow> u32 \<Rightarrow> nl_state \<Rightarrow> bool \<times> nl_state" where
  "shape_del_class sys dev classid st =
     run_cmd sys (''tc class del dev '' @ shell_quote dev @ '' classid '' @ shape_classid_text classid) st"

definition shape_show_classes :: "nl_sys \<Rightarrow> string \<Rightarrow> nl_state \<Rightarrow> bool \<times> nl_state" where
  "shape_show_classes sys dev st = run_cmd sys (''tc -s class show dev '' @ shell_quote dev) st"

definition top_has_flag :: "string list \<Rightarrow> string \<Rightarrow> bool" where
  "top_has_flag argv flag \<longleftrightarrow> flag \<in> set (drop 2 argv)"

text \<open>\<open>shape_argv\<close>, where the allocation succeeds: the hidden word \<open>shape\<close> comes after the program's name.\<close>

definition shape_argv :: "string list \<Rightarrow> string list" where
  "shape_argv argv = take 1 argv @ [''shape''] @ drop 1 argv"

section \<open>Options\<close>

text \<open>What the loops over the options of a target collect.\<close>

record tgt_opts =
  o_pid :: u32
  o_cgpath :: string
  o_cgid :: u64
  o_has_tgid :: bool
  o_has_cgid :: bool
  o_has_cgpath :: bool
  o_has_rate :: bool
  o_rate :: u64
  o_burst :: u64
  o_dev :: string
  o_rate_text :: string
  o_attach_root :: string
  o_pin :: bool

definition no_opts :: tgt_opts where
  "no_opts = \<lparr>o_pid = 0, o_cgpath = [], o_cgid = 0, o_has_tgid = False, o_has_cgid = False,
     o_has_cgpath = False, o_has_rate = False, o_rate = 0, o_burst = 0, o_dev = ''lo'', o_rate_text = [],
     o_attach_root = ''auto'', o_pin = False\<rparr>"

text \<open>
  The cases that the loops share; the first component is the value with which the function returns
  at once, if it does, \<open>bad\<close> being the one for an error.
\<close>

definition opt_pid :: "int \<Rightarrow> string \<Rightarrow> tgt_opts \<Rightarrow> int option \<times> tgt_opts" where
  "opt_pid bad a p =
     (case parse_u32 a of
        None \<Rightarrow> (Some bad, p)
      | Some v \<Rightarrow> if v = 0 then (Some bad, p\<lparr>o_pid := v\<rparr>) else (None, p\<lparr>o_pid := v, o_has_tgid := True\<rparr>))"

definition opt_cgid :: "int \<Rightarrow> string \<Rightarrow> tgt_opts \<Rightarrow> int option \<times> tgt_opts" where
  "opt_cgid bad a p =
     (case parse_u64 a of
        None \<Rightarrow> (Some bad, p)
      | Some v \<Rightarrow> if v = 0 then (Some bad, p\<lparr>o_cgid := v\<rparr>) else (None, p\<lparr>o_cgid := v, o_has_cgid := True\<rparr>))"

definition opt_rate :: "fpu \<Rightarrow> int \<Rightarrow> string \<Rightarrow> tgt_opts \<Rightarrow> int option \<times> tgt_opts" where
  "opt_rate f bad a p =
     (case parse_size f a (o_rate p) of (ok, v) \<Rightarrow>
        if ok then (None, p\<lparr>o_rate := v, o_has_rate := True\<rparr>) else (Some bad, p\<lparr>o_rate := v\<rparr>))"

definition opt_burst :: "fpu \<Rightarrow> int \<Rightarrow> string \<Rightarrow> tgt_opts \<Rightarrow> int option \<times> tgt_opts" where
  "opt_burst f bad a p =
     (case parse_size f a (o_burst p) of (ok, v) \<Rightarrow>
        if ok then (None, p\<lparr>o_burst := v\<rparr>) else (Some bad, p\<lparr>o_burst := v\<rparr>))"

text \<open>One turn of the loop of \<open>parse_target_options\<close>, \<open>parse_shape_target_options\<close> and \<open>do_load\<close>.\<close>

definition target_case :: "nl_sys \<Rightarrow> bool \<Rightarrow> char \<Rightarrow> string \<Rightarrow> tgt_opts \<Rightarrow> int option \<times> tgt_opts" where
  "target_case sys need_rule opt a p =
     (if opt = CHR ''t'' \<or> opt = CHR ''p'' then opt_pid (-1) a p
      else if opt = CHR ''c'' then (None, p\<lparr>o_cgpath := a, o_has_cgpath := True\<rparr>)
      else if opt = CHR ''C'' then opt_cgid (-1) a p
      else if opt = CHR ''r'' then (if \<not> need_rule then (Some (-1), p) else opt_rate (fp sys) (-1) a p)
      else if opt = CHR ''B'' then (if \<not> need_rule then (Some (-1), p) else opt_burst (fp sys) (-1) a p)
      else if opt = CHR ''i'' then (None, p)
      else if opt = CHR ''h'' then (Some 0, p)
      else (Some (-1), p))"

definition shape_target_case :: "char \<Rightarrow> string \<Rightarrow> tgt_opts \<Rightarrow> int option \<times> tgt_opts" where
  "shape_target_case opt a p =
     (if opt = CHR ''t'' \<or> opt = CHR ''p'' then opt_pid (-1) a p
      else if opt = CHR ''c'' then (None, p\<lparr>o_cgpath := a, o_has_cgpath := True\<rparr>)
      else if opt = CHR ''C'' then opt_cgid (-1) a p
      else if opt = CHR ''r'' then (None, p\<lparr>o_rate_text := a, o_has_rate := True\<rparr>)
      else if opt = CHR ''d'' then (None, p\<lparr>o_dev := a\<rparr>)
      else if opt = CHR ''e'' then (None, p)
      else if opt = CHR ''h'' then (Some 0, p)
      else (Some (-1), p))"

definition load_case :: "nl_sys \<Rightarrow> char \<Rightarrow> string \<Rightarrow> tgt_opts \<Rightarrow> int option \<times> tgt_opts" where
  "load_case sys opt a p =
     (if opt = CHR ''a'' then (None, p\<lparr>o_attach_root := a\<rparr>)
      else if opt = CHR ''t'' \<or> opt = CHR ''P'' then opt_pid 1 a p
      else if opt = CHR ''c'' then (None, p\<lparr>o_cgpath := a, o_has_cgpath := True\<rparr>)
      else if opt = CHR ''C'' then opt_cgid 1 a p
      else if opt = CHR ''r'' then opt_rate (fp sys) 1 a p
      else if opt = CHR ''B'' then opt_burst (fp sys) 1 a p
      else if opt = CHR ''i'' then (None, p)
      else if opt = CHR ''p'' then (None, p\<lparr>o_pin := True\<rparr>)
      else if opt = CHR ''h'' then (Some 0, p)
      else (Some 1, p))"

text \<open>The loops over \<open>dev\<close> in \<open>do_shape_load\<close> (where help falls through) and \<open>do_shape_stats\<close>.\<close>

definition dev_case :: "int \<Rightarrow> char \<Rightarrow> string \<Rightarrow> tgt_opts \<Rightarrow> int option \<times> tgt_opts" where
  "dev_case help opt a p =
     (if opt = CHR ''d'' then (None, p\<lparr>o_dev := a\<rparr>)
      else if opt = CHR ''e'' then (None, p)
      else if opt = CHR ''h'' then (Some help, p)
      else (Some 1, p))"

fun opt_loop :: "(char \<Rightarrow> string \<Rightarrow> tgt_opts \<Rightarrow> int option \<times> tgt_opts) \<Rightarrow> (char \<times> string) list \<Rightarrow> tgt_opts
    \<Rightarrow> int option \<times> tgt_opts" where
  "opt_loop f [] p = (None, p)"
| "opt_loop f ((opt, a) # os) p =
     (case f opt a p of (None, p') \<Rightarrow> opt_loop f os p' | (Some r, p') \<Rightarrow> (Some r, p'))"

definition count_targets :: "tgt_opts \<Rightarrow> nat" where
  "count_targets p = of_bool (o_has_tgid p) + of_bool (o_has_cgpath p) + of_bool (o_has_cgid p)"

text \<open>
  The end that \<open>parse_target_options\<close> and \<open>parse_shape_target_options\<close> share: the target is turned into
  a cgroup id. The result is whether it succeeded.
\<close>

definition resolve_target :: "nl_sys \<Rightarrow> bool \<Rightarrow> tgt_opts \<Rightarrow> nl_state \<Rightarrow> bool \<times> tgt_opts \<times> nl_state" where
  "resolve_target sys move_tgid p st =
     (if o_has_tgid p \<and> move_tgid then
        (if nodes (cg st) (''/proc/'' @ show_nat (unat (o_pid p))) = None then (False, p, st)
         else if \<not> uid_root sys then (False, p, st)
         else case prepare_tgid_cgroup (cgs sys) (o_pid p) (cg st) of
           (None, c) \<Rightarrow> (False, p, st\<lparr>cg := c\<rparr>)
         | (Some (ino, path), c) \<Rightarrow> (True, p\<lparr>o_cgid := ino\<rparr>, st\<lparr>cg := c\<rparr>))
      else if o_has_tgid p then
        (case tgid_cgroup_id (cgs sys) (o_pid p) (cg st) of
           None \<Rightarrow> (False, p, st)
         | Some ino \<Rightarrow> (True, p\<lparr>o_cgid := ino\<rparr>, st))
      else if o_has_cgpath p then
        (case cgroup_id_from_path (cgs sys) (o_cgpath p) (cg st) of
           None \<Rightarrow> (False, p, st)
         | Some ino \<Rightarrow> (True, p\<lparr>o_cgid := ino\<rparr>, st))
      else (True, p, st))"

text \<open>The rule that \<open>parse_target_options\<close> leaves when it succeeds, and before its last step.\<close>

definition partial_rule :: "tgt_opts \<Rightarrow> limit_rule" where
  "partial_rule p = \<lparr>rate_bps = o_rate p, burst_bytes = o_burst p, rule_direction = 0, rule_pad = 0\<rparr>"

definition full_rule :: "tgt_opts \<Rightarrow> limit_rule" where
  "full_rule p = \<lparr>rate_bps = o_rate p,
     burst_bytes = (if o_burst p = 0 \<and> o_rate p > 0 then o_rate p else o_burst p),
     rule_direction = NET_LIMIT_INGRESS, rule_pad = 0\<rparr>"

definition parse_target_options ::
  "nl_sys \<Rightarrow> string list \<Rightarrow> bool \<Rightarrow> bool \<Rightarrow> nl_state \<Rightarrow> int \<times> u64 \<times> limit_rule \<times> nl_state" where
  "parse_target_options sys argv move_tgid need_rule st =
     (case opt_loop (target_case sys need_rule) (getopt_long sys ''t:p:c:C:r:B:ih'' 2 argv) no_opts of
        (Some r, p) \<Rightarrow> (r, o_cgid p, partial_rule p, st)
      | (None, p) \<Rightarrow>
          if count_targets p \<noteq> 1 then (-1, o_cgid p, partial_rule p, st)
          else if need_rule \<and> \<not> o_has_rate p then (-1, o_cgid p, partial_rule p, st)
          else case resolve_target sys move_tgid p st of (ok, p', st') \<Rightarrow>
            if \<not> ok then (-1, o_cgid p', partial_rule p', st')
            else (2, o_cgid p', full_rule p', st'))"

definition parse_shape_target_options ::
  "nl_sys \<Rightarrow> string list \<Rightarrow> bool \<Rightarrow> bool \<Rightarrow> nl_state \<Rightarrow> int \<times> tgt_opts \<times> nl_state" where
  "parse_shape_target_options sys argv move_tgid need_rate st =
     (case opt_loop shape_target_case (getopt_long sys ''t:p:c:C:r:d:eh'' 3 argv) no_opts of
        (Some r, p) \<Rightarrow> (r, p, st)
      | (None, p) \<Rightarrow>
          if count_targets p \<noteq> 1 then (-1, p, st)
          else if need_rate \<and> \<not> o_has_rate p then (-1, p, st)
          else case resolve_target sys move_tgid p st of (ok, p', st') \<Rightarrow>
            if \<not> ok then (-1, p', st') else (2, p', st'))"

section \<open>The commands add, del, list and stats\<close>

text \<open>The class of a cgroup: the low 16 bits of its id, or 10 where they are reserved.\<close>

definition class_of_cgroup :: "u64 \<Rightarrow> u32" where
  "class_of_cgroup cgid =
     (let classid = shape_classid (ucast (cgid AND 0xffff))
      in if classid AND 0xffff = 0 \<or> classid AND 0xffff = 0xffff then shape_classid 10 else classid)"

definition do_shape_add :: "nl_sys \<Rightarrow> string list \<Rightarrow> nl_state \<Rightarrow> int \<times> nl_state" where
  "do_shape_add sys argv st =
     (case parse_shape_target_options sys argv True True st of (scope, p, st1) \<Rightarrow>
        if scope < 0 then (1, st1)
        else
          let rule = \<lparr>shape_classid_of = class_of_cgroup (o_cgid p), shape_direction = NET_LIMIT_EGRESS\<rparr>
          in case shape_add_class sys (o_dev p) (shape_classid_of rule) (o_rate_text p) st1 of (ok, st2) \<Rightarrow>
            if \<not> ok then (1, st2)
            else case shape_update_rule sys (o_cgid p) rule st2 of (r, st3) \<Rightarrow> (if r = 0 then 0 else 1, st3))"

definition do_shape_del :: "nl_sys \<Rightarrow> string list \<Rightarrow> nl_state \<Rightarrow> int \<times> nl_state" where
  "do_shape_del sys argv st =
     (case parse_shape_target_options sys argv False False st of (scope, p, st1) \<Rightarrow>
        if scope < 0 then (1, st1)
        else case shape_delete_rule (o_cgid p) NET_LIMIT_EGRESS st1 of (r, st2) \<Rightarrow>
          case shape_del_class sys (o_dev p) (class_of_cgroup (o_cgid p)) st2 of (ok, st3) \<Rightarrow> (0, st3))"

text \<open>
  The loops over a map: \<open>nxt present (Some k)\<close> is the key after \<open>k\<close> among those present, \<open>None\<close> at the
  end. The key after the current one is asked for before the current one is deleted.
\<close>

partial_function (option) list_loop ::
  "(('k \<Rightarrow> bool) \<Rightarrow> 'k option \<Rightarrow> 'k option) \<Rightarrow> ('k \<Rightarrow> 'v option) \<Rightarrow> 'k option \<Rightarrow> ('k \<times> 'v) list \<Rightarrow> ('k \<times> 'v) list option" where
  "list_loop nxt m cur acc =
     (case cur of
        None \<Rightarrow> Some acc
      | Some k \<Rightarrow> list_loop nxt m (nxt (\<lambda>x. m x \<noteq> None) (Some k))
                    (acc @ (case m k of None \<Rightarrow> [] | Some v \<Rightarrow> [(k, v)])))"

partial_function (option) delete_loop ::
  "(('k \<Rightarrow> bool) \<Rightarrow> 'k option \<Rightarrow> 'k option) \<Rightarrow> ('k \<Rightarrow> bool) \<Rightarrow> ('k \<Rightarrow> 'v option) \<Rightarrow> 'k option \<Rightarrow> ('k \<Rightarrow> 'v option) option" where
  "delete_loop nxt hit m cur =
     (case cur of
        None \<Rightarrow> Some m
      | Some k \<Rightarrow> delete_loop nxt hit (if hit k then m(k := None) else m) (nxt (\<lambda>x. m x \<noteq> None) (Some k)))"

definition list_map :: "(('k \<Rightarrow> bool) \<Rightarrow> 'k option \<Rightarrow> 'k option) \<Rightarrow> ('k \<Rightarrow> 'v option) \<Rightarrow> ('k \<times> 'v) list option" where
  "list_map nxt m = list_loop nxt m (nxt (\<lambda>x. m x \<noteq> None) None) []"

definition delete_matching ::
  "(('k \<Rightarrow> bool) \<Rightarrow> 'k option \<Rightarrow> 'k option) \<Rightarrow> ('k \<Rightarrow> bool) \<Rightarrow> ('k \<Rightarrow> 'v option) \<Rightarrow> ('k \<Rightarrow> 'v option) option" where
  "delete_matching nxt hit m = delete_loop nxt hit m (nxt (\<lambda>x. m x \<noteq> None) None)"

text \<open>A loop that does not end gives \<open>None\<close>; a map that cannot be opened is left alone.\<close>

definition delete_stats_for_target :: "nl_sys \<Rightarrow> u32 \<Rightarrow> u64 \<Rightarrow> nl_state \<Rightarrow> nl_state option" where
  "delete_stats_for_target sys sc ino st =
     (case stats st of
        None \<Rightarrow> Some st
      | Some m \<Rightarrow>
          (case delete_matching (next_stat sys) (\<lambda>k. key_scope k = sc \<and> key_id k = ino) m of
             None \<Rightarrow> None
           | Some m' \<Rightarrow> Some (st\<lparr>stats := Some m'\<rparr>)))"

definition delete_buckets_for_target :: "nl_sys \<Rightarrow> u32 \<Rightarrow> u64 \<Rightarrow> nl_state \<Rightarrow> nl_state option" where
  "delete_buckets_for_target sys sc ino st =
     (case buckets st of
        None \<Rightarrow> Some st
      | Some m \<Rightarrow>
          (case delete_matching (next_bucket sys) (\<lambda>k. key_scope k = sc \<and> key_id k = ino) m of
             None \<Rightarrow> None
           | Some m' \<Rightarrow> Some (st\<lparr>buckets := Some m'\<rparr>)))"

definition do_add :: "nl_sys \<Rightarrow> string list \<Rightarrow> nl_state \<Rightarrow> int \<times> nl_state" where
  "do_add sys argv st =
     (if top_has_flag argv ''--egress'' then do_shape_add sys (shape_argv argv) st
      else case parse_target_options sys argv True True st of (scope, cgid, rule, st1) \<Rightarrow>
        case update_pinned_rule sys cgid rule st1 of (r, st2) \<Rightarrow> (if r \<noteq> 0 then 1 else 0, st2))"

definition do_del :: "nl_sys \<Rightarrow> string list \<Rightarrow> nl_state \<Rightarrow> (int \<times> nl_state) option" where
  "do_del sys argv st =
     (if top_has_flag argv ''--egress'' then Some (do_shape_del sys (shape_argv argv) st)
      else case parse_target_options sys argv False False st of (scope, cgid, rule, st1) \<Rightarrow>
        if scope < 0 then Some (1, st1)
        else case cgroup_rules st1 of
          None \<Rightarrow> Some (1, st1)
        | Some m \<Rightarrow>
            (case delete_buckets_for_target sys NET_LIMIT_SCOPE_CGROUP cgid
                    (st1\<lparr>cgroup_rules := Some (m(cgid := None))\<rparr>) of
               None \<Rightarrow> None
             | Some st2 \<Rightarrow>
               (case delete_stats_for_target sys NET_LIMIT_SCOPE_CGROUP cgid st2 of
                  None \<Rightarrow> None
                | Some st3 \<Rightarrow> Some (0, st3))))"

text \<open>What \<open>list\<close> prints: the rules of the map, in its order; for egress, the shape rules.\<close>

datatype listing = RuleList "(u64 \<times> limit_rule) list" | ShapeList "(bucket_key \<times> shape_rule) list"
  | StatList "(bucket_key \<times> limit_stats) list" | NoList

definition list_rule_map :: "nl_sys \<Rightarrow> (u64 \<Rightarrow> limit_rule option) \<Rightarrow> (u64 \<times> limit_rule) list option" where
  "list_rule_map sys m = list_map (next_rule sys) m"

definition do_shape_list :: "nl_sys \<Rightarrow> nl_state \<Rightarrow> (int \<times> listing) option" where
  "do_shape_list sys st =
     (case shape_rules st of
        None \<Rightarrow> Some (1, NoList)
      | Some m \<Rightarrow> (case list_map (next_shape sys) m of None \<Rightarrow> None | Some es \<Rightarrow> Some (0, ShapeList es)))"

definition do_list :: "nl_sys \<Rightarrow> string list \<Rightarrow> nl_state \<Rightarrow> (int \<times> listing) option" where
  "do_list sys argv st =
     (if top_has_flag argv ''--egress'' then do_shape_list sys st
      else case cgroup_rules st of
        None \<Rightarrow> Some (1, NoList)
      | Some m \<Rightarrow> (case list_rule_map sys m of None \<Rightarrow> None | Some es \<Rightarrow> Some (0, RuleList es)))"

definition do_shape_stats :: "nl_sys \<Rightarrow> string list \<Rightarrow> nl_state \<Rightarrow> int \<times> nl_state" where
  "do_shape_stats sys argv st =
     (case opt_loop (dev_case 0) (getopt_long sys ''d:eh'' 3 argv) no_opts of
        (Some r, p) \<Rightarrow> (r, st)
      | (None, p) \<Rightarrow> (case shape_show_classes sys (o_dev p) st of (ok, st1) \<Rightarrow> (if ok then 0 else 1, st1)))"

definition do_stats :: "nl_sys \<Rightarrow> string list \<Rightarrow> nl_state \<Rightarrow> ((int \<times> listing) \<times> nl_state) option" where
  "do_stats sys argv st =
     (if top_has_flag argv ''--egress'' then
        (case do_shape_stats sys (shape_argv argv) st of (r, st1) \<Rightarrow> Some ((r, NoList), st1))
      else case stats st of
        None \<Rightarrow> Some ((1, NoList), st)
      | Some m \<Rightarrow> (case list_map (next_stat sys) m of None \<Rightarrow> None | Some es \<Rightarrow> Some ((0, StatList es), st)))"

section \<open>The command load\<close>

fun pin_maps :: "nl_sys \<Rightarrow> string list \<Rightarrow> nl_state \<Rightarrow> int \<times> nl_state" where
  "pin_maps sys [] st = (0, st)"
| "pin_maps sys (n # ns) st =
     (case bpf_linker_pin_shared (regs sys) (links sys) (Some (Some n)) (registry st) of (err, r) \<Rightarrow>
        if err \<noteq> 0 then (err, st\<lparr>registry := r\<rparr>) else pin_maps sys ns (st\<lparr>registry := r\<rparr>))"

abbreviation shared_maps :: "string list" where
  "shared_maps \<equiv> [''cgroup_rules'', ''buckets'', ''stats'', ''shape_rules'']"

definition hold :: "held \<Rightarrow> nl_state \<Rightarrow> nl_state" where
  "hold h st = st\<lparr>holding := h # holding st\<rparr>"

definition drop_held :: "held \<Rightarrow> nl_state \<Rightarrow> nl_state" where
  "drop_held h st = st\<lparr>holding := remove1 h (holding st)\<rparr>"

text \<open>The labels \<open>out\<close> of \<open>do_shape_load\<close> and \<open>do_load\<close>; the flags tell what was acquired.\<close>

definition shape_load_out :: "int \<Rightarrow> bool \<Rightarrow> nl_state \<Rightarrow> int \<times> nl_state" where
  "shape_load_out err attached st =
     (let st1 = (if attached then drop_held EgressHook st else st) in (err, drop_held Skeleton st1))"

definition do_shape_load :: "nl_sys \<Rightarrow> string list \<Rightarrow> nl_state \<Rightarrow> int \<times> nl_state" where
  "do_shape_load sys argv st =
     (case opt_loop (dev_case 1) (getopt_long sys ''d:eh'' 3 argv) no_opts of
        (Some r, p) \<Rightarrow> (r, st)
      | (None, p) \<Rightarrow>
          if \<not> uid_root sys then (1, st)
          else if if_nametoindex sys (o_dev p) = 0 then (1, st)
          else case shape_setup_htb sys (o_dev p) st of (ok, st1) \<Rightarrow>
            if \<not> ok then (1, st1)
            else if \<not> skel_open sys then (1, st1)
            else case bpf_linker_resolve_extern (regs sys) (links sys) (skel_maps sys) (registry st1) of (err, r, b) \<Rightarrow>
              let st2 = hold Skeleton (st1\<lparr>registry := r\<rparr>)
              in if err \<noteq> 0 then shape_load_out err False st2
                 else if skel_load sys \<noteq> 0 then shape_load_out err False st2
                 else case pin_maps sys shared_maps st2 of (err, st3) \<Rightarrow>
                   if err \<noteq> 0 then shape_load_out err False st3
                   else if hook_create sys \<noteq> 0 \<and> hook_create sys \<noteq> - EEXIST then shape_load_out err False st3
                   else if tc_attach sys \<noteq> 0 \<and> tc_attach sys \<noteq> - EEXIST then shape_load_out err False st3
                   else shape_load_out 0 True (hold EgressHook st3))"

definition load_out :: "nl_sys \<Rightarrow> int \<Rightarrow> bool \<Rightarrow> bool \<Rightarrow> nl_state \<Rightarrow> int \<times> nl_state" where
  "load_out sys err linked opened st =
     (let st1 = st\<lparr>cg := cleanup_tgid_cgroup (rmdir_ok sys) (cg st)\<rparr>;
          st2 = (if linked then drop_held IngressLink st1 else st1);
          st3 = (if opened then drop_held Skeleton st2 else st2)
      in (err, drop_held CgroupFd st3))"

text \<open>\<open>do_load\<close> from the attached directory on.\<close>

definition load_object :: "nl_sys \<Rightarrow> tgt_opts \<Rightarrow> nl_state \<Rightarrow> int \<times> nl_state" where
  "load_object sys p st =
     (if \<not> skel_open sys then load_out sys 1 False False st
      else case (if o_pin p
                 then bpf_linker_resolve_extern (regs sys) (links sys) (skel_maps sys) (registry st)
                 else (1, registry st, [])) of (err, r, b) \<Rightarrow>
        let st1 = hold Skeleton (st\<lparr>registry := r\<rparr>)
        in if o_pin p \<and> err \<noteq> 0 then load_out sys err False True st1
           else if skel_load sys \<noteq> 0 then load_out sys err False True st1
           else case (if o_pin p then pin_maps sys shared_maps st1 else (err, st1)) of (err, st2) \<Rightarrow>
             if o_pin p \<and> err \<noteq> 0 then load_out sys err False True st2
             else if \<not> attach_cgroup_ok sys then load_out sys err False True st2
             else case (if o_has_rate p then update_skel_rule sys (o_cgid p) (full_rule p) (hold IngressLink st2)
                        else (0, hold IngressLink st2)) of (rc, st3) \<Rightarrow>
               if rc \<noteq> 0 then load_out sys err True True st3
               else load_out sys 0 True True st3)"

definition do_load :: "nl_sys \<Rightarrow> string list \<Rightarrow> nl_state \<Rightarrow> int \<times> nl_state" where
  "do_load sys argv st =
     (if top_has_flag argv ''--egress'' then do_shape_load sys (shape_argv argv) st
      else case opt_loop (load_case sys) (getopt_long sys ''a:t:P:c:C:r:B:iph'' 2 argv) no_opts of
        (Some r, p) \<Rightarrow> (r, st)
      | (None, p) \<Rightarrow>
          if count_targets p > 1 then (1, st)
          else if o_has_rate p \<noteq> (o_has_tgid p \<or> o_has_cgpath p \<or> o_has_cgid p) then (1, st)
          else case (if o_has_cgpath p then cgroup_id_from_path (cgs sys) (o_cgpath p) (cg st)
                     else Some (o_cgid p)) of
            None \<Rightarrow> (1, st)
          | Some cgid \<Rightarrow>
              if \<not> uid_root sys then (1, st)
              else case (if o_has_tgid p then prepare_tgid_cgroup (cgs sys) (o_pid p) (cg st)
                         else (Some (cgid, []), cg st)) of
                (None, c) \<Rightarrow> (1, st\<lparr>cg := c\<rparr>)
              | (Some (cgid', path), c) \<Rightarrow>
                  (case resolve_cgroup_path (cgs sys) (o_attach_root p) c of
                     None \<Rightarrow> (1, st\<lparr>cg := c\<rparr>)
                   | Some attach_path \<Rightarrow>
                       if \<not> open_dir_ok sys attach_path then (1, st\<lparr>cg := c\<rparr>)
                       else load_object sys (p\<lparr>o_cgid := cgid'\<rparr>) (hold CgroupFd (st\<lparr>cg := c\<rparr>))))"

text \<open>\<open>main\<close>; \<open>argv\<close> has the program's name first.\<close>

definition net_limit_main :: "nl_sys \<Rightarrow> string list \<Rightarrow> nl_state \<Rightarrow> ((int \<times> listing) \<times> nl_state) option" where
  "net_limit_main sys argv st =
     (if length argv < 2 then Some ((1, NoList), st)
      else
        let cmd = argv ! 1
        in if cmd = ''load'' then (case do_load sys argv st of (r, st1) \<Rightarrow> Some ((r, NoList), st1))
           else if cmd = ''add'' then (case do_add sys argv st of (r, st1) \<Rightarrow> Some ((r, NoList), st1))
           else if cmd = ''del'' then
             (case do_del sys argv st of None \<Rightarrow> None | Some (r, st1) \<Rightarrow> Some ((r, NoList), st1))
           else if cmd = ''list'' then (case do_list sys argv st of None \<Rightarrow> None | Some l \<Rightarrow> Some (l, st))
           else if cmd = ''stats'' then do_stats sys argv st
           else if cmd = ''help'' then Some ((0, NoList), st)
           else Some ((1, NoList), st))"

section \<open>Walking a map\<close>

fun first :: "'a list \<Rightarrow> 'a option" where
  "first [] = None"
| "first (x # xs) = Some x"

text \<open>
  What \<open>bpf_map_get_next_key\<close> promises: the keys have an order \<open>ks\<close>; a null key gives the first, a
  present one the next, and deleting keys does not change the order of the others.
\<close>

definition iterates :: "(('k \<Rightarrow> bool) \<Rightarrow> 'k option \<Rightarrow> 'k option) \<Rightarrow> ('k \<Rightarrow> 'v option) \<Rightarrow> 'k list \<Rightarrow> bool" where
  "iterates nxt m ks \<longleftrightarrow> distinct ks \<and> set ks = dom m \<and>
     (\<forall>Q. (\<forall>k. Q k \<longrightarrow> k \<in> dom m) \<longrightarrow>
        nxt Q None = first (filter Q ks) \<and>
        (\<forall>pre k post. ks = pre @ k # post \<and> Q k \<longrightarrow> nxt Q (Some k) = first (filter Q post)))"

lemma iterates_next:
  assumes "iterates nxt m (pre @ k # post)" "\<And>x. Q x \<Longrightarrow> x \<in> dom m" "Q k"
  shows "nxt Q (Some k) = first (filter Q post)"
  using assms unfolding iterates_def by blast

lemma delete_loop_ok:
  assumes it: "iterates nxt m0 (pre @ ks)"
    and m: "\<forall>k. m k = (if k \<in> set pre \<and> hit k then None else m0 k)"
  shows "delete_loop nxt hit m (first ks) = Some (\<lambda>k. if hit k then None else m0 k)"
  using assms
proof (induction ks arbitrary: pre m)
  case Nil
  have "m = (\<lambda>k. if hit k then None else m0 k)"
  proof
    fix k
    have "k \<notin> set pre \<Longrightarrow> m0 k = None" using Nil(1) by (auto simp: iterates_def)
    with Nil(2) show "m k = (if hit k then None else m0 k)" by auto
  qed
  then show ?case by (simp add: delete_loop.simps)
next
  case (Cons k ks)
  let ?Q = "\<lambda>x. m x \<noteq> None"
  have dist: "distinct (pre @ k # ks)" and dom: "set (pre @ k # ks) = dom m0" using Cons.prems(1) by (auto simp: iterates_def)
  have sub: "\<forall>x. ?Q x \<longrightarrow> x \<in> dom m0" using Cons.prems(2) by (auto split: if_splits)
  have rest: "m x = m0 x \<and> m x \<noteq> None" if "x \<in> set (k # ks)" for x
  proof -
    have "x \<notin> set pre" using that dist by auto
    moreover have "x \<in> dom m0" using that dom by auto
    ultimately show ?thesis using Cons.prems(2) by auto
  qed
  then have f: "filter ?Q ks = ks" by (metis (mono_tags, lifting) filter_True list.set_intros(2))
  have n: "nxt ?Q (Some k) = first ks"
    using iterates_next [OF Cons.prems(1), of ?Q] sub rest [of k] f by auto
  let ?m = "if hit k then m(k := None) else m"
  have "delete_loop nxt hit ?m (first ks) = Some (\<lambda>k. if hit k then None else m0 k)"
  proof (rule Cons.IH [of "pre @ [k]"])
    show "iterates nxt m0 ((pre @ [k]) @ ks)" using Cons.prems(1) by simp
    show "\<forall>x. ?m x = (if x \<in> set (pre @ [k]) \<and> hit x then None else m0 x)" using Cons.prems(2) by auto
  qed
  then show ?case using n by (subst delete_loop.simps) simp
qed

lemma delete_matching_ok:
  assumes "iterates nxt m ks"
  shows "delete_matching nxt hit m = Some (\<lambda>k. if hit k then None else m k)"
proof -
  have "filter (\<lambda>x. m x \<noteq> None) ks = ks" using assms by (intro filter_True) (auto simp: iterates_def)
  moreover have "nxt (\<lambda>x. m x \<noteq> None) None = first (filter (\<lambda>x. m x \<noteq> None) ks)"
    using assms by (auto simp: iterates_def)
  ultimately show ?thesis using delete_loop_ok [of nxt m "[]" ks m hit] assms by (simp add: delete_matching_def)
qed

lemma list_loop_ok:
  assumes "iterates nxt m (pre @ ks)"
  shows "list_loop nxt m (first ks) acc = Some (acc @ map (\<lambda>k. (k, the (m k))) ks)"
  using assms
proof (induction ks arbitrary: pre acc)
  case Nil
  then show ?case by (simp add: list_loop.simps)
next
  case (Cons k ks)
  let ?Q = "\<lambda>x. m x \<noteq> None"
  have dom: "set (pre @ k # ks) = dom m" using Cons.prems by (auto simp: iterates_def)
  then have "filter ?Q ks = ks" by (intro filter_True) auto
  moreover obtain v where v: "m k = Some v" using dom by auto
  ultimately have n: "nxt ?Q (Some k) = first ks"
    using iterates_next [OF Cons.prems, of ?Q] by auto
  have "list_loop nxt m (first ks) (acc @ [(k, v)]) = Some ((acc @ [(k, v)]) @ map (\<lambda>k. (k, the (m k))) ks)"
    using Cons.IH [of "pre @ [k]"] Cons.prems by simp
  then show ?case using n v by (subst list_loop.simps) simp
qed

text \<open>Listing a map shows every entry once.\<close>

lemma list_map_ok:
  assumes "iterates nxt m ks"
  shows "list_map nxt m = Some (map (\<lambda>k. (k, the (m k))) ks)"
proof -
  have "filter (\<lambda>x. m x \<noteq> None) ks = ks" using assms by (intro filter_True) (auto simp: iterates_def)
  moreover have "nxt (\<lambda>x. m x \<noteq> None) None = first (filter (\<lambda>x. m x \<noteq> None) ks)"
    using assms by (auto simp: iterates_def)
  ultimately show ?thesis using list_loop_ok [of nxt m "[]" ks "[]"] assms by (simp add: list_map_def)
qed

text \<open>An enumeration that follows a fixed list satisfies the contract.\<close>

definition listed_next :: "'k list \<Rightarrow> ('k \<Rightarrow> bool) \<Rightarrow> 'k option \<Rightarrow> 'k option" where
  "listed_next ks Q cur =
     (case cur of None \<Rightarrow> first (filter Q ks) | Some k \<Rightarrow> first (filter Q (tl (dropWhile (\<lambda>x. x \<noteq> k) ks))))"

lemma dropWhile_to: "k \<notin> set pre \<Longrightarrow> dropWhile (\<lambda>x. x \<noteq> k) (pre @ k # post) = k # post"
  by (induction pre) auto

lemma listed_next_iterates:
  assumes "distinct ks" "set ks = dom m"
  shows "iterates (listed_next ks) m ks"
  using assms by (auto simp: iterates_def listed_next_def dropWhile_to)

section \<open>The shell\<close>

text \<open>
  How the shell splits a command into words, for single quotes, backslashes, blanks and characters
  without a special meaning; any other character would be interpreted and gives \<open>None\<close>.
\<close>

definition plain :: "char \<Rightarrow> bool" where
  "plain c \<longleftrightarrow> (let n = of_char c :: nat in 48 \<le> n \<and> n \<le> 58 \<or> 65 \<le> n \<and> n \<le> 90 \<or> 97 \<le> n \<and> n \<le> 122 \<or> 45 \<le> n \<and> n \<le> 47)"

definition grow :: "string option \<Rightarrow> string \<Rightarrow> string" where
  "grow cur w = (case cur of None \<Rightarrow> w | Some v \<Rightarrow> v @ w)"

fun sh_split :: "bool \<Rightarrow> string option \<Rightarrow> string \<Rightarrow> string list option" where
  "sh_split q cur [] = (if q then None else case cur of None \<Rightarrow> Some [] | Some w \<Rightarrow> Some [w])"
| "sh_split q cur (c # s) =
     (if q then
        (if c = CHR 0x27 then sh_split False cur s else sh_split True (Some (grow cur [c])) s)
      else if c = CHR 0x27 then sh_split True (Some (grow cur [])) s
      else if c = CHR '' '' then
        (case cur of
           None \<Rightarrow> sh_split False None s
         | Some w \<Rightarrow> (case sh_split False None s of None \<Rightarrow> None | Some ws \<Rightarrow> Some (w # ws)))
      else if c = CHR 0x5C then
        (case s of [] \<Rightarrow> None | d # s' \<Rightarrow> sh_split False (Some (grow cur [d])) s')
      else if plain c then sh_split False (Some (grow cur [c])) s
      else None)"

abbreviation sh_words :: "string \<Rightarrow> string list option" where
  "sh_words s \<equiv> sh_split False None s"

definition quote_char :: "char \<Rightarrow> string" where
  "quote_char c = (if c = CHR 0x27 then [CHR 0x27, CHR 0x5C, CHR 0x27, CHR 0x27] else [c])"

lemma shell_quote_alt: "shell_quote s = CHR 0x27 # concat (map quote_char s) @ [CHR 0x27]"
  by (simp add: shell_quote_def quote_char_def [abs_def])

lemma sh_quoted: "sh_split True (Some w) (concat (map quote_char s) @ CHR 0x27 # r) = sh_split False (Some (w @ s)) r"
proof (induction s arbitrary: w)
  case Nil
  then show ?case by simp
next
  case (Cons c s)
  have "sh_split True (Some w) (quote_char c @ t) = sh_split True (Some (w @ [c])) t" for t
    by (simp add: quote_char_def grow_def)
  then show ?case using Cons [of "w @ [c]"] by simp
qed

lemma sh_shell_quote: "sh_split False cur (shell_quote s @ r) = sh_split False (Some (grow cur s)) r"
  using sh_quoted [of "grow cur []" s r] by (simp add: shell_quote_alt grow_def split: option.splits)

lemma plain_not_special: "plain c \<Longrightarrow> c \<noteq> CHR 0x27 \<and> c \<noteq> CHR '' '' \<and> c \<noteq> CHR 0x5C"
  by (auto simp: plain_def)

lemma sh_plain: "\<forall>c \<in> set w. plain c \<Longrightarrow> sh_split False (Some v) (w @ r) = sh_split False (Some (v @ w)) r"
  by (induction w arbitrary: v) (auto simp: grow_def dest: plain_not_special)

lemma sh_plain_None:
  assumes "\<forall>c \<in> set w. plain c" "w \<noteq> []"
  shows "sh_split False None (w @ r) = sh_split False (Some w) r"
proof -
  obtain c cs where w: "w = c # cs" using assms(2) by (cases w) auto
  have "sh_split False None (w @ r) = sh_split False (Some [c]) (cs @ r)"
    using assms(1) plain_not_special [of c] w by (simp add: grow_def)
  then show ?thesis using sh_plain [of cs "[c]" r] assms(1) w by simp
qed

lemma hex_char_plain: "d < 16 \<Longrightarrow> plain (hex_char d)"
  by (auto simp: hex_char_def plain_def digit_char_def Let_def)

lemma show_hex_plain: "show_hex n \<noteq> [] \<and> (\<forall>c \<in> set (show_hex n). plain c)"
proof (induction n rule: show_hex.induct)
  case (1 n)
  then show ?case by (cases "n < 16") (auto simp: show_hex.simps [of n] hex_char_plain)
qed

lemma digit_plain: "is_digit c \<Longrightarrow> plain c"
  by (auto simp: is_digit_def plain_def)

lemma sh_show:
  "sh_split False None (show_nat n @ r) = sh_split False (Some (show_nat n)) r"
  "sh_split False None (show_hex n @ r) = sh_split False (Some (show_hex n)) r"
  "sh_split False (Some v) (show_hex n @ r) = sh_split False (Some (v @ show_hex n)) r"
  using show_nat_props [of n] show_hex_plain [of n] digit_plain by (simp_all add: sh_plain_None sh_plain)

lemma sh_show_end: "sh_split False (Some v) (show_hex n) = Some [v @ show_hex n]"
  using sh_show(3) [of v n "[]"] by simp

lemma sh_shell_quote_end: "sh_split False cur (shell_quote s) = Some [grow cur s]"
  using sh_shell_quote [of cur s "[]"] by simp

lemmas sh_simps = sh_show sh_show_end sh_shell_quote sh_shell_quote_end plain_def grow_def

section \<open>What the steps keep\<close>

lemma pin_maps_holding: "holding (snd (pin_maps sys ns st)) = holding st"
  by (induction ns arbitrary: st) (simp_all split: prod.split)

lemma pin_maps_ok:
  assumes "sys_ok (regs sys)" "mkdir_err (links sys) \<in> {None, Some EEXIST}"
    and "\<forall>n \<in> set ns. is_word n \<and> (path_exists (regs sys) (PIN_DIR @ n) \<or> map_pin (regs sys) (PIN_DIR @ n) = 0)"
  shows "\<exists>st'. pin_maps sys ns st = (0, st') \<and> (\<forall>n. reg_look (file_text (registry st')) n
      = (if n \<in> set ns then Some (PIN_DIR @ n) else reg_look (file_text (registry st)) n))"
  using assms(3)
proof (induction ns arbitrary: st)
  case Nil
  then show ?case by simp
next
  case (Cons n ns)
  obtain r where r: "bpf_linker_pin_shared (regs sys) (links sys) (Some (Some n)) (registry st) = (0, r)"
    "reg_look (file_text r) = (reg_look (file_text (registry st)))(n \<mapsto> PIN_DIR @ n)"
    using pin_shared_ok [OF assms(1) _ _ assms(2), of n "registry st"] Cons.prems by auto
  obtain st' where st': "pin_maps sys ns (st\<lparr>registry := r\<rparr>) = (0, st')"
    "\<forall>k. reg_look (file_text (registry st')) k = (if k \<in> set ns then Some (PIN_DIR @ k) else reg_look (file_text r) k)"
    using Cons.IH [of "st\<lparr>registry := r\<rparr>"] Cons.prems by auto
  show ?case using r st' by (intro exI [of _ st']) (simp del: append_Cons append_Nil)
qed

lemma shape_setup_htb_holding: "holding (snd (shape_setup_htb sys dev st)) = holding st"
  by (simp add: shape_setup_htb_def run_cmd_def)

lemma load_out_holding:
  "holding (snd (load_out sys err linked opened st))
     = remove1 CgroupFd ((if opened then remove1 Skeleton else id) ((if linked then remove1 IngressLink else id) (holding st)))"
  by (simp add: load_out_def drop_held_def Let_def)

lemma shape_load_out_holding:
  "holding (snd (shape_load_out err attached st)) = remove1 Skeleton ((if attached then remove1 EgressHook else id) (holding st))"
  by (simp add: shape_load_out_def drop_held_def Let_def)

lemma update_skel_rule_holding: "holding (snd (update_skel_rule sys cgid rule st)) = holding st"
  by (simp add: update_skel_rule_def)

lemma hold_holding [simp]: "holding (hold h st) = h # holding st"
  by (simp add: hold_def)

lemma do_shape_load_holding: "holding (snd (do_shape_load sys argv st)) = holding st"
proof -
  have p: "holding st3 = holding st2" if "pin_maps sys ns st2 = (e, st3)" for ns st2 e st3
    using pin_maps_holding [of sys ns st2] that by simp
  have h: "holding st1 = holding st" if "shape_setup_htb sys dev st = (ok, st1)" for dev ok st1
    using shape_setup_htb_holding [of sys dev st] that by simp
  show ?thesis
    by (auto simp: do_shape_load_def shape_load_out_holding Let_def split: prod.split option.split dest!: p h)
qed

lemma load_object_holding: "holding st = CgroupFd # hs \<Longrightarrow> holding (snd (load_object sys p st)) = hs"
proof -
  assume st: "holding st = CgroupFd # hs"
  have q: "holding st3 = holding st2" if "pin_maps sys ns st2 = (e, st3)" for ns st2 e st3
    using pin_maps_holding [of sys ns st2] that by simp
  have u: "holding st3 = holding st2" if "update_skel_rule sys c r st2 = (e, st3)" for c r st2 e st3
    using update_skel_rule_holding [of sys c r st2] that by simp
  show ?thesis
    by (auto simp: load_object_def load_out_holding Let_def st split: prod.split if_splits dest!: q u)
qed

section \<open>Properties of the commands\<close>

text \<open>C18: The command for \<open>tc\<close> that creates a traffic class is split by the shell into exactly the
  intended words, whatever characters the device name and the rate of the user contain.\<close>

theorem add_class_words:
  "sh_words (add_class_cmd dev classid rate) =
     Some [''tc'', ''class'', ''replace'', ''dev'', dev, ''parent'', show_nat (unat (drop_bit 16 classid)) @ '':'',
       ''classid'', shape_classid_text classid, ''htb'', ''rate'', rate, ''ceil'', rate]"
  by (simp add: add_class_cmd_def shape_classid_text_def sh_simps)

text \<open>However \<open>net-limit load\<close> ends, with an error at any step or after its signal, it has released
  every descriptor, skeleton, link and hook that it acquired.\<close>

theorem do_load_releases: "holding (snd (do_load sys argv st)) = holding st"
  by (auto simp: do_load_def do_shape_load_holding split: prod.split option.split intro!: load_object_holding)

text \<open>C17: \<open>net-limit del\<close> without \<open>--egress\<close>, on a target that its options name and with the three maps
  pinned, removes the rule of the target's cgroup, and of the buckets and statistics exactly the entries
  of that cgroup, in both directions; all other entries stay, the walks over the maps end although
  entries are deleted under way, and the command succeeds. The kernel is taken to enumerate the keys of
  a map as documented, each once; with \<open>--egress\<close> another command runs, which leaves buckets and
  statistics alone (\<open>del_egress_keeps_counters\<close>).\<close>

theorem do_del_removes_target:
  assumes "\<not> top_has_flag argv ''--egress''"
    and "parse_target_options sys argv False False st = (2, cgid, rule, st1)"
    and "cgroup_rules st1 = Some m" "buckets st1 = Some b" "stats st1 = Some t"
    and "iterates (next_bucket sys) b bks" "iterates (next_stat sys) t sks"
  shows "do_del sys argv st = Some (0, st1\<lparr>cgroup_rules := Some (m(cgid := None)),
     buckets := Some (\<lambda>k. if key_scope k = NET_LIMIT_SCOPE_CGROUP \<and> key_id k = cgid then None else b k),
     stats := Some (\<lambda>k. if key_scope k = NET_LIMIT_SCOPE_CGROUP \<and> key_id k = cgid then None else t k)\<rparr>)"
  using assms delete_matching_ok [OF assms(6)] delete_matching_ok [OF assms(7)]
  by (simp add: do_del_def delete_buckets_for_target_def delete_stats_for_target_def)

definition ex_key :: "u32 \<Rightarrow> u64 \<Rightarrow> bucket_key" where
  "ex_key dir ino = \<lparr>key_scope = 2, key_direction = dir, key_id = ino\<rparr>"

definition ex_nl :: nl_sys where
  "ex_nl = \<lparr>cgs = \<lparr>mountinfo = [], mkdir_ino = (\<lambda>p. None), procs_open = (\<lambda>p. False), procs_accept = (\<lambda>p t. False)\<rparr>,
     fp = \<lparr>fp_strtod = (\<lambda>s. (0, s, False)), fp_round = (\<lambda>x. x), fp_u64 = (\<lambda>x. 0)\<rparr>,
     regs = ex_sys, links = ex_links, uid_root = True,
     getopt_long = (\<lambda>os i argv. if argv ! 1 = ''del'' then [(CHR ''C'', ''7'')] else [(CHR ''p'', [])]),
     cmd_exit = (\<lambda>c. Some 0), rmdir_ok = (\<lambda>p. True), rule_update_ok = True, shape_update_ok = True,
     next_rule = listed_next [7, 9], next_bucket = listed_next [ex_key 1 7, ex_key 2 9, ex_key 2 7],
     next_stat = listed_next [ex_key 2 7], next_shape = listed_next [], if_nametoindex = (\<lambda>d. 1),
     open_dir_ok = (\<lambda>p. True), skel_open = True, skel_maps = [], skel_load = - EINVAL,
     attach_cgroup_ok = True, hook_create = 0, tc_attach = 0\<rparr>"

definition ex_rule :: limit_rule where
  "ex_rule = \<lparr>rate_bps = 1000, burst_bytes = 1000, rule_direction = 2, rule_pad = 0\<rparr>"

definition ex_nl_state :: nl_state where
  "ex_nl_state = \<lparr>cg = \<lparr>nodes = (\<lambda>p. None), moved = [], g_last_tgid_cgroup_path = []\<rparr>,
     registry = \<lparr>reg_file = None, pinned = []\<rparr>,
     cgroup_rules = Some [7 \<mapsto> ex_rule, 9 \<mapsto> ex_rule],
     buckets = Some [ex_key 1 7 \<mapsto> [], ex_key 2 9 \<mapsto> [], ex_key 2 7 \<mapsto> []],
     stats = Some [ex_key 2 7 \<mapsto> \<lparr>pass_bytes = 1, drop_bytes = 0, pass_packets = 1, drop_packets = 0\<rparr>],
     shape_rules = Some Map.empty, skel_rules = Map.empty, cmds = [], holding = []\<rparr>"

theorem do_del_removes_target_witness:
  "\<exists>st2. do_del ex_nl [''net-limit'', ''del'', ''-C'', ''7''] ex_nl_state = Some (0, st2)
     \<and> map_option (\<lambda>m. m 7) (cgroup_rules st2) = Some None
     \<and> map_option (\<lambda>m. (m (ex_key 1 7), m (ex_key 2 9))) (buckets st2) = Some (None, Some [])"
proof -
  have p: "parse_target_options ex_nl [''net-limit'', ''del'', ''-C'', ''7''] False False ex_nl_state
      = (2, 7, full_rule (no_opts\<lparr>o_cgid := 7, o_has_cgid := True\<rparr>), ex_nl_state)"
    by (simp add: parse_target_options_def ex_nl_def target_case_def opt_cgid_def parse_u64_def strtoul10_def
        scan_number_def is_space_def is_digit_def digit_val_def Let_def count_targets_def no_opts_def
        resolve_target_def full_rule_def)
  have b: "iterates (next_bucket ex_nl) [ex_key 1 7 \<mapsto> [], ex_key 2 9 \<mapsto> [], ex_key 2 7 \<mapsto> []] [ex_key 1 7, ex_key 2 9, ex_key 2 7]"
    unfolding ex_nl_def nl_sys.simps by (rule listed_next_iterates) (auto simp: ex_key_def)
  have t: "iterates (next_stat ex_nl) [ex_key 2 7 \<mapsto> \<lparr>pass_bytes = 1, drop_bytes = 0, pass_packets = 1, drop_packets = 0\<rparr>] [ex_key 2 7]"
    unfolding ex_nl_def nl_sys.simps by (rule listed_next_iterates) auto
  have f: "\<not> top_has_flag [''net-limit'', ''del'', ''-C'', ''7''] ''--egress''" by (simp add: top_has_flag_def)
  show ?thesis
    using do_del_removes_target [OF f p _ _ _ b t] by (simp add: ex_nl_state_def ex_key_def)
qed

section \<open>Where the exit status or the check misleads\<close>

text \<open>
  \<open>do_add\<close> goes on after its usage message: without any valid option it installs an empty rule for
  cgroup 0 and reports success.
\<close>

lemma do_add_after_usage:
  assumes "\<not> top_has_flag argv ''--egress''" "getopt_long sys ''t:p:c:C:r:B:ih'' 2 argv = []"
    and "cgroup_rules st = Some m" "rule_update_ok sys"
  shows "do_add sys argv st = (0, st\<lparr>cgroup_rules := Some (m(0 \<mapsto>
     \<lparr>rate_bps = 0, burst_bytes = 0, rule_direction = 0, rule_pad = 0\<rparr>))\<rparr>)"
  using assms by (simp add: do_add_def parse_target_options_def count_targets_def no_opts_def
      partial_rule_def update_pinned_rule_def)

text \<open>
  \<open>err\<close> is 0 once the external maps are resolved, so that \<open>load --pin\<close> exits with 0 when the object
  cannot be loaded.
\<close>

lemma load_failure_exit_zero:
  assumes "skel_open sys" "o_pin p" "skel_load sys \<noteq> 0"
    and "bpf_linker_resolve_extern (regs sys) (links sys) (skel_maps sys) (registry st) = (0, r, b)"
  shows "fst (load_object sys p st) = 0"
  using assms by (simp add: load_object_def load_out_def Let_def)

text \<open>
  \<open>del --egress\<close> removes a rule of the shaping map and a class of the device; the limiting rules, the
  buckets and the statistics of the target stay as they were, whatever the target is.
\<close>

lemma resolve_target_maps:
  "resolve_target sys mv p st = (ok, p', st1) \<Longrightarrow>
     cgroup_rules st1 = cgroup_rules st \<and> buckets st1 = buckets st \<and> stats st1 = stats st"
  by (auto simp: resolve_target_def split: if_splits option.splits prod.splits)

lemma parse_shape_target_options_maps:
  "parse_shape_target_options sys argv mv nr st = (r, p, st1) \<Longrightarrow>
     cgroup_rules st1 = cgroup_rules st \<and> buckets st1 = buckets st \<and> stats st1 = stats st"
  by (auto simp: parse_shape_target_options_def split: if_splits option.splits prod.splits dest: resolve_target_maps)

lemma del_egress_keeps_counters:
  assumes "top_has_flag argv ''--egress''"
  shows "\<exists>r st1. do_del sys argv st = Some (r, st1) \<and> cgroup_rules st1 = cgroup_rules st
     \<and> buckets st1 = buckets st \<and> stats st1 = stats st"
proof -
  obtain r p st1 where p: "parse_shape_target_options sys (shape_argv argv) False False st = (r, p, st1)"
    by (metis prod_cases3)
  show ?thesis
    using assms p parse_shape_target_options_maps [OF p]
    by (simp add: do_del_def do_shape_del_def shape_delete_rule_def shape_del_class_def run_cmd_def split: option.split)
qed

text \<open>Cgroups whose ids agree in the low 16 bits share a class, and so do all reserved ones and 10.\<close>

lemma class_of_cgroup_shared: "class_of_cgroup 0x10005 = class_of_cgroup 5" "class_of_cgroup 0x1ffff = class_of_cgroup 10"
  by (simp_all add: class_of_cgroup_def shape_classid_def)

end
