(* ===== verification/Inet_Text.thy ===== *)
theory Inet_Text
  imports C_Strings
begin

text \<open>
  Addresses as text: \<open>inet_pton(AF_INET, ...)\<close>, which takes exactly four decimal fields without
  leading zeros, and \<open>inet_ntoa\<close>. An address in host byte order is the 32-bit word of its four bytes,
  first byte most significant; \<open>ntohl(addr.s_addr)\<close> and \<open>htonl\<close> convert to and from it.
\<close>

section \<open>Comparison without case\<close>

text \<open>\<open>strcasecmp(a, b) == 0\<close> and \<open>strncasecmp(a, b, n) == 0\<close>.\<close>

definition eq_nocase :: "string \<Rightarrow> string \<Rightarrow> bool" where
  "eq_nocase a b \<longleftrightarrow> map to_lower a = map to_lower b"

definition prefix_nocase :: "string \<Rightarrow> string \<Rightarrow> bool" where
  "prefix_nocase a b \<longleftrightarrow> map to_lower (take (length b) a) = map to_lower b"

lemma eq_nocase_length: "eq_nocase a b \<Longrightarrow> length a = length b"
  unfolding eq_nocase_def by (metis length_map)

section \<open>Parsing\<close>

text \<open>The fields finished so far, the value of the current field if it has a digit, and the input.\<close>

fun pton4_from :: "nat list \<Rightarrow> nat option \<Rightarrow> string \<Rightarrow> nat list option" where
  "pton4_from ds cur [] =
     (case cur of None \<Rightarrow> None | Some n \<Rightarrow> if length ds = 3 then Some (ds @ [n]) else None)"
| "pton4_from ds cur (c # s) =
     (if is_digit c then
        (case cur of
           None \<Rightarrow> pton4_from ds (Some (digit_val c)) s
         | Some n \<Rightarrow> if n = 0 \<or> n * 10 + digit_val c > 255 then None else pton4_from ds (Some (n * 10 + digit_val c)) s)
      else if c = CHR ''.'' then
        (case cur of None \<Rightarrow> None | Some n \<Rightarrow> if length ds = 3 then None else pton4_from (ds @ [n]) None s)
      else None)"

definition inet_pton4 :: "string \<Rightarrow> nat list option" where
  "inet_pton4 s = pton4_from [] None s"

text \<open>The address in host byte order, from and to its four bytes.\<close>

definition ip_of_octets :: "nat list \<Rightarrow> u32" where
  "ip_of_octets ds = of_nat (ds ! 0 * 2 ^ 24 + ds ! 1 * 2 ^ 16 + ds ! 2 * 2 ^ 8 + ds ! 3)"

definition ip_octets :: "u32 \<Rightarrow> nat list" where
  "ip_octets w = [unat w div 2 ^ 24, unat w div 2 ^ 16 mod 256, unat w div 2 ^ 8 mod 256, unat w mod 256]"

definition inet_ntoa :: "u32 \<Rightarrow> string" where
  "inet_ntoa w = (case ip_octets w of [a, b, c, d] \<Rightarrow>
     show_nat a @ ''.'' @ show_nat b @ ''.'' @ show_nat c @ ''.'' @ show_nat d)"

section \<open>Round trip\<close>

lemma pton4_from_digits:
  assumes "n < 256"
  shows "pton4_from ds None (show_nat n @ r) = pton4_from ds (Some n) r"
  using assms
proof (induction n arbitrary: r rule: show_nat.induct)
  case (1 n)
  show ?case
  proof (cases "n < 10")
    case True
    then show ?thesis by (simp add: show_nat.simps [of n])
  next
    case False
    have d: "n mod 10 < 10" by simp
    have "pton4_from ds None (show_nat (n div 10) @ digit_char (n mod 10) # r)
        = pton4_from ds (Some (n div 10)) (digit_char (n mod 10) # r)"
      using 1 False by simp
    moreover have "n div 10 \<noteq> 0" "n div 10 * 10 + n mod 10 = n" using False by auto
    ultimately show ?thesis using 1(2) False by (simp add: show_nat.simps [of n] digit_char_simps [OF d])
  qed
qed

lemma not_digit_dot: "\<not> is_digit CHR ''.''"
  by (simp add: is_digit_def)

lemma pton4_dotted:
  assumes "a < 256" "b < 256" "c < 256" "d < 256"
  shows "inet_pton4 (show_nat a @ ''.'' @ show_nat b @ ''.'' @ show_nat c @ ''.'' @ show_nat d) = Some [a, b, c, d]"
  using pton4_from_digits [OF assms(4), of "[a, b, c]" "[]"]
  by (simp add: inet_pton4_def pton4_from_digits assms not_digit_dot)

text \<open>Conversely, what is accepted has four fields below 256.\<close>

lemma pton4_from_range:
  "pton4_from ds cur s = Some xs \<Longrightarrow> \<forall>x \<in> set ds. x < 256 \<Longrightarrow> (\<And>n. cur = Some n \<Longrightarrow> n < 256)
    \<Longrightarrow> length xs = 4 \<and> (\<forall>x \<in> set xs. x < 256)"
proof (induction ds cur s rule: pton4_from.induct)
  case (1 ds cur)
  then show ?case by (auto split: option.splits if_splits)
next
  case (2 ds cur c s)
  have "is_digit c \<Longrightarrow> digit_val c < 256" unfolding is_digit_def digit_val_def by linarith
  with 2 show ?case by (auto split: option.splits if_splits)
qed

lemma octet_value: "(n::nat) div 16777216 * 16777216 + n div 65536 mod 256 * 65536 + n div 256 mod 256 * 256 + n mod 256 = n"
proof -
  have d: "n div 256 div 256 = n div 65536" "n div 65536 div 256 = n div 16777216"
    by (simp_all add: div_mult2_eq [symmetric])
  have "n div 65536 div 256 * 256 + n div 65536 mod 256 = n div 65536"
    "n div 256 div 256 * 256 + n div 256 mod 256 = n div 256" "n div 256 * 256 + n mod 256 = n"
    by (rule div_mult_mod_eq)+
  then show ?thesis unfolding d by linarith
qed

lemma ip_octets_range: "a \<in> set (ip_octets w) \<Longrightarrow> a < 256"
proof -
  assume a: "a \<in> set (ip_octets w)"
  have "unat w < 256 * 2 ^ 24" using unsigned_less [of w] by simp
  then have "unat w div 2 ^ 24 < 256" by (rule less_mult_imp_div_less)
  with a show ?thesis by (auto simp: ip_octets_def)
qed

lemma ip_of_octets_inverse: "ip_of_octets (ip_octets w) = w"
  using octet_value [of "unat w"] by (simp add: ip_of_octets_def ip_octets_def)

lemma pton4_ntoa: "inet_pton4 (inet_ntoa w) = Some (ip_octets w)"
proof -
  obtain a b c d where o4: "ip_octets w = [a, b, c, d]" by (simp add: ip_octets_def)
  then have "a < 256" "b < 256" "c < 256" "d < 256" using ip_octets_range [of _ w] by simp_all
  then show ?thesis using pton4_dotted [of a b c d] o4 by (simp add: inet_ntoa_def)
qed

lemma show_nat_length: "n < 1000 \<Longrightarrow> length (show_nat n) \<le> 3"
  by (subst show_nat.simps, subst show_nat.simps, subst show_nat.simps) auto

lemma inet_ntoa_length: "length (inet_ntoa w) \<le> 15"
proof -
  obtain a b c d where o4: "ip_octets w = [a, b, c, d]" by (simp add: ip_octets_def)
  then have "a < 1000" "b < 1000" "c < 1000" "d < 1000" using ip_octets_range [of _ w] by force+
  then have "length (show_nat a) \<le> 3" "length (show_nat b) \<le> 3" "length (show_nat c) \<le> 3" "length (show_nat d) \<le> 3"
    by (simp_all add: show_nat_length)
  then show ?thesis by (simp add: inet_ntoa_def o4)
qed

lemma inet_ntoa_not_Nil: "inet_ntoa w \<noteq> []"
  by (simp add: inet_ntoa_def ip_octets_def)

end
