(* ===== verification/Tc_Common.thy ===== *)
theory Tc_Common
  imports Inet_Text Spin_Lock
begin

text \<open>
  What the traffic control tools \<open>filter/tc-ip.cpp\<close>, \<open>tc-if.cpp\<close>, \<open>tc-process.cpp\<close> and \<open>tc-cgroup.cpp\<close>
  have in common, each with its own copy: the conversion of numbers and rates, the log of the last
  hundred errors, the retry loop, and the bookkeeping of the resources their \<open>main\<close> functions acquire.
\<close>

section \<open>Numbers and rates\<close>

abbreviation EINTR :: int where "EINTR \<equiv> 4"

text \<open>
  \<open>safe_str_to_int\<close> for an unsigned type: whether it succeeds, and the value of \<open>*result\<close>, which held
  \<open>old\<close>. The minimum is not tested, and the value is stored before the rest of the string is
  looked at.
\<close>

definition str_to_unsigned :: "u64 \<Rightarrow> string \<Rightarrow> u64 \<Rightarrow> bool \<times> u64" where
  "str_to_unsigned max_val str old =
     (case strtoul10 str of (val, endptr, erange) \<Rightarrow>
        if erange \<or> val > max_val then (False, old) else (endptr = [], val))"

text \<open>The copy for a signed type, and the copies that refuse the empty string first.\<close>

definition str_to_signed :: "int \<Rightarrow> int \<Rightarrow> string \<Rightarrow> int \<Rightarrow> bool \<times> int" where
  "str_to_signed min_val max_val str old =
     (case strtol10 str of (val, endptr, erange) \<Rightarrow>
        if erange \<or> val < min_val \<or> val > max_val then (False, old) else (endptr = [], val))"

definition nonempty_to_unsigned :: "u64 \<Rightarrow> string \<Rightarrow> u64 \<Rightarrow> bool \<times> u64" where
  "nonempty_to_unsigned max_val str old = (if str = [] then (False, old) else str_to_unsigned max_val str old)"

text \<open>The suffixes K, M and G; the products wrap.\<close>

definition scale_rate :: "u64 \<Rightarrow> u64 \<Rightarrow> string \<Rightarrow> u64" where
  "scale_rate dflt val endptr =
     (if endptr = [] then val
      else if eq_nocase endptr ''K'' then val * 1024
      else if eq_nocase endptr ''M'' then val * 1024 * 1024
      else if eq_nocase endptr ''G'' then val * 1024 * 1024 * 1024
      else dflt)"

text \<open>\<open>parse_bandwidth\<close> of \<open>tc-ip.cpp\<close> and \<open>tc-if.cpp\<close>, of \<open>tc-process.cpp\<close>, and of \<open>tc-cgroup.cpp\<close>.\<close>

abbreviation TC_DEFAULT_RATE :: u64 where "TC_DEFAULT_RATE \<equiv> 1000000"
abbreviation PROC_DEFAULT_RATE :: u64 where "PROC_DEFAULT_RATE \<equiv> 5242880"

definition tc_parse_bandwidth :: "string option \<Rightarrow> u64" where
  "tc_parse_bandwidth str =
     (case str of
        None \<Rightarrow> TC_DEFAULT_RATE
      | Some s \<Rightarrow>
          if s = [] then TC_DEFAULT_RATE
          else case strtoul10 s of (val, endptr, erange) \<Rightarrow> scale_rate TC_DEFAULT_RATE val endptr)"

definition proc_parse_bandwidth :: "string option \<Rightarrow> u64" where
  "proc_parse_bandwidth str =
     (case str of
        None \<Rightarrow> PROC_DEFAULT_RATE
      | Some s \<Rightarrow> (case strtoul10 s of (val, endptr, erange) \<Rightarrow> scale_rate PROC_DEFAULT_RATE val endptr))"

definition cgroup_parse_bandwidth :: "string option \<Rightarrow> u64" where
  "cgroup_parse_bandwidth str =
     (case str of
        None \<Rightarrow> PROC_DEFAULT_RATE
      | Some s \<Rightarrow>
          (case strtoul10 s of (val, endptr, erange) \<Rightarrow>
             if erange \<or> val = 0 then PROC_DEFAULT_RATE else scale_rate PROC_DEFAULT_RATE val endptr))"

section \<open>The error log\<close>

datatype ErrorCode = SUCCESS | NULL_POINTER | INVALID_PARAMETER | MEMORY_ALLOCATION_FAILED
  | FILE_OPERATION_FAILED | NETWORK_OPERATION_FAILED | BPF_OPERATION_FAILED | TC_OPERATION_FAILED
  | TIMEOUT_ERROR | PERMISSION_DENIED | RESOURCE_UNAVAILABLE | UNKNOWN_ERROR

record ErrorInfo =
  ei_code :: ErrorCode
  ei_message :: string
  ei_function :: string
  ei_file :: string
  ei_line :: int

record ErrorHandler =
  error_log :: "ErrorInfo list"
  error_count :: nat

text \<open>\<open>strncpy(field, s ? s : "", 255)\<close> and a final NUL.\<close>

definition bounded_copy :: "string option \<Rightarrow> string" where
  "bounded_copy s = (case s of None \<Rightarrow> [] | Some t \<Rightarrow> take 255 t)"

definition error_info_init :: "ErrorCode \<Rightarrow> string option \<Rightarrow> string option \<Rightarrow> string option \<Rightarrow> int \<Rightarrow> ErrorInfo" where
  "error_info_init code msg func file line =
     \<lparr>ei_code = code, ei_message = bounded_copy msg, ei_function = bounded_copy func,
      ei_file = bounded_copy file, ei_line = line\<rparr>"

definition error_handler_init :: "ErrorHandler option \<Rightarrow> ErrorHandler option" where
  "error_handler_init h = map_option (\<lambda>h. h\<lparr>error_count := 0\<rparr>) h"

definition error_handler_clear_error_log :: "ErrorHandler option \<Rightarrow> ErrorHandler option" where
  "error_handler_clear_error_log h = map_option (\<lambda>h. h\<lparr>error_count := 0\<rparr>) h"

definition error_handler_cleanup :: "ErrorHandler option \<Rightarrow> ErrorHandler option" where
  "error_handler_cleanup h = h"

text \<open>The loop that moves the entries down by one place.\<close>

definition shift_log :: "ErrorInfo list \<Rightarrow> ErrorInfo list" where
  "shift_log es = fold (\<lambda>i l. l[i := l ! (i + 1)]) [0..<99] es"

definition log_entry :: "ErrorHandler \<Rightarrow> ErrorInfo \<Rightarrow> ErrorHandler" where
  "log_entry h e =
     (if error_count h < 100
      then h\<lparr>error_log := (error_log h)[error_count h := e], error_count := error_count h + 1\<rparr>
      else h\<lparr>error_log := (shift_log (error_log h))[99 := e]\<rparr>)"

definition error_handler_log_error :: "ErrorHandler option \<Rightarrow> ErrorInfo option \<Rightarrow> ErrorHandler option" where
  "error_handler_log_error h e =
     (case (h, e) of (Some h', Some e') \<Rightarrow> Some (log_entry h' e') | _ \<Rightarrow> h)"

definition error_handler_get_error_count :: "ErrorHandler option \<Rightarrow> nat" where
  "error_handler_get_error_count h = (case h of None \<Rightarrow> 0 | Some h' \<Rightarrow> error_count h')"

text \<open>\<open>log_error\<close>; \<open>file\<close> and \<open>line\<close> are those of the copy.\<close>

definition tc_log_error :: "string \<Rightarrow> int \<Rightarrow> ErrorCode \<Rightarrow> string \<Rightarrow> ErrorHandler \<Rightarrow> ErrorHandler" where
  "tc_log_error file line code msg h = log_entry h (error_info_init code (Some msg) (Some ''log_error'') (Some file) line)"

section \<open>Retrying\<close>

datatype ('e, 'a) retried = Returned 'a | Rethrown 'e | Exceeded

text \<open>
  \<open>retry_operation\<close>: \<open>rs\<close> is what the calls of the function give, an exception or a value; \<open>None\<close> means
  that a call has not come back. The result has the sleeping times.
\<close>

fun retry_from :: "nat \<Rightarrow> nat \<Rightarrow> nat \<Rightarrow> ('e + 'a) list \<Rightarrow> (('e, 'a) retried \<times> nat list) option" where
  "retry_from attempt max_retries delay [] = (if attempt < max_retries then None else Some (Exceeded, []))"
| "retry_from attempt max_retries delay (r # rs) =
     (if \<not> attempt < max_retries then Some (Exceeded, [])
      else case r of
        Inr v \<Rightarrow> Some (Returned v, [])
      | Inl e \<Rightarrow>
          if attempt + 1 \<ge> max_retries then Some (Rethrown e, [])
          else case retry_from (attempt + 1) max_retries (if delay * 2 > 1000 then 1000 else delay * 2) rs of
            None \<Rightarrow> None
          | Some (res, sleeps) \<Rightarrow> Some (res, delay # sleeps))"

definition retry_operation :: "nat \<Rightarrow> ('e + 'a) list \<Rightarrow> (('e, 'a) retried \<times> nat list) option" where
  "retry_operation max_retries rs = retry_from 0 max_retries 100 rs"

section \<open>Strings with a context\<close>

record SafeString =
  ss_str :: "string option"
  ss_context :: "string option"

text \<open>\<open>safe_string_create\<close>; \<open>ok\<close> is whether \<open>malloc\<close> succeeds.\<close>

definition safe_string_create :: "bool \<Rightarrow> string option \<Rightarrow> string option \<Rightarrow> SafeString option" where
  "safe_string_create ok str ctx =
     (if ok then Some \<lparr>ss_str = str, ss_context = Some (case ctx of None \<Rightarrow> [] | Some c \<Rightarrow> c)\<rparr> else None)"

definition safe_string_is_valid :: "SafeString option \<Rightarrow> bool" where
  "safe_string_is_valid s = (case s of None \<Rightarrow> False | Some t \<Rightarrow> ss_str t \<noteq> None)"

definition safe_string_length :: "SafeString option \<Rightarrow> nat" where
  "safe_string_length s =
     (case s of None \<Rightarrow> 0 | Some t \<Rightarrow> (case ss_str t of None \<Rightarrow> 0 | Some x \<Rightarrow> length x))"

definition safe_string_c_str :: "SafeString option \<Rightarrow> string option" where
  "safe_string_c_str s = (case s of None \<Rightarrow> None | Some t \<Rightarrow> ss_str t)"

definition safe_string_context :: "SafeString option \<Rightarrow> string option" where
  "safe_string_context s = (case s of None \<Rightarrow> None | Some t \<Rightarrow> ss_context t)"

section \<open>Resources and the polling loop\<close>

text \<open>What a \<open>main\<close> acquires and gives back, in order.\<close>

datatype 'r res_event = Acq 'r | Rel 'r

definition balance :: "'r \<Rightarrow> 'r res_event list \<Rightarrow> int" where
  "balance r tr = int (count_list tr (Acq r)) - int (count_list tr (Rel r))"

text \<open>
  \<open>while (running) { err = ring_buffer__poll(...); ... }\<close>, over the results of the polls until a signal
  clears \<open>running\<close>; the value is \<open>err\<close> after the loop, \<open>None\<close> while it has no value.
\<close>

fun poll_events :: "int list \<Rightarrow> int option \<Rightarrow> int option" where
  "poll_events [] err = err"
| "poll_events (r # rs) err =
     (if r = - EINTR then poll_events rs (Some r) else if r < 0 then Some r else poll_events rs (Some r))"

section \<open>Lemmas on the log\<close>

lemma shift_prefix:
  "n < length es \<Longrightarrow> fold (\<lambda>i l. l[i := l ! (i + 1)]) [0..<n] es = take n (tl es) @ drop n es"
proof (induction n)
  case 0
  then show ?case by simp
next
  case (Suc n)
  let ?p = "take n (tl es) @ drop n es"
  have len: "length (take n (tl es)) = n" using Suc.prems by simp
  have at: "?p ! (n + 1) = es ! (n + 1)" using len Suc.prems by (simp add: nth_append)
  have "?p[n := es ! (n + 1)] = take n (tl es) @ (drop n es)[0 := es ! (n + 1)]"
    using len by (simp add: list_update_append)
  also have "\<dots> = take (Suc n) (tl es) @ drop (Suc n) es"
    using Suc.prems by (cases es; simp add: take_Suc_conv_app_nth Cons_nth_drop_Suc [symmetric])
  finally show ?case using Suc at by simp
qed

lemma shift_log_eq:
  assumes "length es = 100"
  shows "(shift_log es)[99 := e] = tl es @ [e]"
proof -
  have "shift_log es = take 99 (tl es) @ drop 99 es"
    unfolding shift_log_def using assms by (simp only: shift_prefix)
  moreover have "take 99 (tl es) = tl es" "drop 99 es = [es ! 99]" "length (tl es) = 99"
    using assms Cons_nth_drop_Suc [of 99 es] by simp_all
  ultimately show ?thesis by (simp add: list_update_append)
qed

text \<open>The entries in use, oldest first.\<close>

definition log_entries :: "ErrorHandler \<Rightarrow> ErrorInfo list" where
  "log_entries h = take (error_count h) (error_log h)"

definition log_ok :: "ErrorHandler \<Rightarrow> bool" where
  "log_ok h \<longleftrightarrow> length (error_log h) = 100 \<and> error_count h \<le> 100"

text \<open>The last \<open>n\<close> elements.\<close>

definition latest :: "nat \<Rightarrow> 'a list \<Rightarrow> 'a list" where
  "latest n xs = drop (length xs - n) xs"

lemma latest_append: "latest n (latest n xs @ ys) = latest n (xs @ ys)"
proof (cases "length xs \<le> n")
  case True
  then show ?thesis by (simp add: latest_def)
next
  case False
  then have "length ys + length xs - n = length ys + (length xs - n)" by simp
  with False show ?thesis by (simp add: latest_def add.commute)
qed

lemma log_entry_refines:
  assumes "log_ok h"
  shows "log_ok (log_entry h e)" "log_entries (log_entry h e) = latest 100 (log_entries h @ [e])"
proof -
  have len: "length (error_log h) = 100" "error_count h \<le> 100" using assms by (simp_all add: log_ok_def)
  show "log_ok (log_entry h e)" using len by (simp add: log_ok_def log_entry_def shift_log_eq)
  show "log_entries (log_entry h e) = latest 100 (log_entries h @ [e])"
  proof (cases "error_count h < 100")
    case True
    then have "take (error_count h + 1) ((error_log h)[error_count h := e]) = log_entries h @ [e]"
      using len by (simp add: log_entries_def take_Suc_conv_app_nth)
    moreover have "length (log_entries h @ [e]) \<le> 100" using True len by (simp add: log_entries_def)
    ultimately show ?thesis using True by (simp add: log_entry_def log_entries_def latest_def)
  next
    case False
    then have "log_entries h = error_log h" using len by (simp add: log_entries_def)
    then show ?thesis
      using False len by (simp add: log_entry_def log_entries_def shift_log_eq latest_def drop_Suc)
  qed
qed

lemma log_entry_fold:
  assumes "log_ok h"
  shows "log_ok (fold (\<lambda>e h. log_entry h e) es h)
    \<and> log_entries (fold (\<lambda>e h. log_entry h e) es h) = latest 100 (log_entries h @ es)"
  using assms
proof (induction es arbitrary: h)
  case Nil
  then show ?case by (simp add: log_ok_def log_entries_def latest_def)
next
  case (Cons e es)
  note r = log_entry_refines [OF Cons.prems, of e]
  have "latest 100 (latest 100 (log_entries h @ [e]) @ es) = latest 100 (log_entries h @ e # es)"
    using latest_append [of 100 "log_entries h @ [e]" es] by simp
  with Cons.IH [OF r(1)] r(2) show ?case by simp
qed

section \<open>Lemmas on numbers\<close>

lemma strtoul10_show:
  assumes "n \<le> UINT64_MAX_nat" "r = [] \<or> \<not> is_digit (hd r)"
  shows "strtoul10 (show_nat n @ r) = (of_nat n, r, False)"
  using scan_show_nat [OF assms(2), of n] assms(1) by (simp add: strtoul10_def)

lemma strtoul10_show_only: "n \<le> UINT64_MAX_nat \<Longrightarrow> strtoul10 (show_nat n) = (of_nat n, [], False)"
  using strtoul10_show [of n "[]"] by simp

lemma show_nat_not_Nil [simp]: "show_nat n \<noteq> []"
  using show_nat_props [of n] by simp

lemma str_to_unsigned_bound: "str_to_unsigned m s old = (True, v) \<Longrightarrow> v \<le> m"
  by (auto simp: str_to_unsigned_def split: prod.splits if_splits)

lemma str_to_unsigned_show:
  assumes "n \<le> unat m"
  shows "str_to_unsigned m (show_nat n) old = (True, of_nat n)"
proof -
  have "n \<le> UINT64_MAX_nat" using assms unat_u64_less [of m] by simp
  moreover have "unat (of_nat n :: u64) = n" using calculation by (simp add: unat_of_nat take_bit_nat_eq_self)
  ultimately show ?thesis using assms by (simp add: str_to_unsigned_def strtoul10_show_only word_less_nat_alt)
qed

text \<open>The factor of a suffix.\<close>

definition rate_units :: "(string \<times> nat) list" where
  "rate_units = [([], 1), (''K'', 1024), (''k'', 1024), (''M'', 1024 ^ 2), (''m'', 1024 ^ 2), (''G'', 1024 ^ 3), (''g'', 1024 ^ 3)]"

lemma to_lower_letters [simp]:
  "to_lower CHR ''K'' = CHR ''k''" "to_lower CHR ''M'' = CHR ''m''" "to_lower CHR ''G'' = CHR ''g''"
  "to_lower CHR ''k'' = CHR ''k''" "to_lower CHR ''m'' = CHR ''m''" "to_lower CHR ''g'' = CHR ''g''"
  by code_simp+

lemma scale_rate_units:
  assumes "(u, f) \<in> set rate_units"
  shows "scale_rate d (of_nat n) u = of_nat (n * f)"
  using assms by (auto simp: rate_units_def scale_rate_def eq_nocase_def)

lemma rate_units_no_digit: "(u, f) \<in> set rate_units \<Longrightarrow> u = [] \<or> \<not> is_digit (hd u)"
  by (auto simp: rate_units_def is_digit_def)

section \<open>Properties\<close>

text \<open>C24: The error log keeps the latest hundred errors in order: after any sequence of reports its
  entries in use are the last hundred reported, whatever the array held before.\<close>

theorem error_log_keeps_latest:
  assumes "length (error_log h) = 100" "error_handler_init (Some h) = Some h0"
  shows "fold (\<lambda>e h. error_handler_log_error h (Some e)) es (Some h0) = Some (fold (\<lambda>e h. log_entry h e) es h0)
    \<and> log_entries (fold (\<lambda>e h. log_entry h e) es h0) = latest 100 es
    \<and> error_handler_get_error_count (Some (fold (\<lambda>e h. log_entry h e) es h0)) = min 100 (length es)"
proof -
  have h0: "log_ok h0" "log_entries h0 = []"
    using assms by (auto simp: error_handler_init_def log_ok_def log_entries_def)
  let ?h = "fold (\<lambda>e h. log_entry h e) es h0"
  have fin: "log_ok ?h" "log_entries ?h = latest 100 es" using log_entry_fold [OF h0(1), of es] h0(2) by simp_all
  have "error_count ?h = length (log_entries ?h)" using fin(1) by (simp add: log_ok_def log_entries_def)
  then have cnt: "error_count ?h = min 100 (length es)" using fin(2) by (simp add: latest_def)
  have "fold (\<lambda>e h. error_handler_log_error h (Some e)) es (Some h) = Some (fold (\<lambda>e h. log_entry h e) es h)" for h
    by (induction es arbitrary: h) (simp_all add: error_handler_log_error_def)
  then show ?thesis using fin(2) cnt by (simp add: error_handler_get_error_count_def)
qed

definition ex_info :: "int \<Rightarrow> ErrorInfo" where
  "ex_info n = error_info_init UNKNOWN_ERROR (Some ''x'') None None n"

theorem error_log_keeps_latest_witness:
  "\<exists>h. log_entries h = latest 100 (map ex_info [1..150]) \<and> error_handler_get_error_count (Some h) = 100"
proof -
  let ?h = "\<lparr>error_log = replicate 100 (ex_info 0), error_count = 7\<rparr>"
  have "length (error_log ?h) = 100" "error_handler_init (Some ?h) = Some (?h\<lparr>error_count := 0\<rparr>)"
    by (simp_all add: error_handler_init_def)
  from error_log_keeps_latest [OF this, of "map ex_info [1..150]"] show ?thesis by auto
qed

lemma retry_from_steps:
  assumes "a < m" "m \<le> a + length rs"
  shows "\<exists>res k. retry_from a m (min (100 * 2 ^ a) 1000) rs = Some (res, map (\<lambda>i. min (100 * 2 ^ i) 1000) [a..<a + k])
     \<and> a + k < m \<and> (\<forall>i < k. isl (rs ! i))
     \<and> (case rs ! k of Inr v \<Rightarrow> res = Returned v | Inl e \<Rightarrow> a + k = m - 1 \<and> res = Rethrown e)"
  using assms
proof (induction rs arbitrary: a)
  case Nil
  then show ?case by simp
next
  case (Cons r rs)
  have delay: "(if min (100 * 2 ^ a) 1000 * 2 > (1000::nat) then 1000 else min (100 * 2 ^ a) 1000 * 2) = min (100 * 2 ^ (a + 1)) (1000::nat)"
    for a :: nat
    by (cases "(1000::nat) \<le> 100 * 2 ^ a") simp_all
  show ?case
  proof (cases r)
    case (Inr v)
    then show ?thesis using Cons.prems by (intro exI [of _ "Returned v"] exI [of _ 0]) simp
  next
    case (Inl e)
    show ?thesis
    proof (cases "a + 1 \<ge> m")
      case True
      then show ?thesis using Cons.prems Inl by (intro exI [of _ "Rethrown e"] exI [of _ 0]) simp
    next
      case False
      then obtain res k where k: "retry_from (a + 1) m (min (100 * 2 ^ (a + 1)) 1000) rs
            = Some (res, map (\<lambda>i. min (100 * 2 ^ i) 1000) [a + 1..<a + 1 + k])"
          "a + 1 + k < m" "\<forall>i < k. isl (rs ! i)"
          "case rs ! k of Inr v \<Rightarrow> res = Returned v | Inl e \<Rightarrow> a + 1 + k = m - 1 \<and> res = Rethrown e"
        using Cons.IH [of "a + 1"] Cons.prems by auto
      have "retry_from a m (min (100 * 2 ^ a) 1000) (r # rs)
          = Some (res, map (\<lambda>i. min (100 * 2 ^ i) 1000) [a..<a + Suc k])"
        unfolding retry_from.simps delay k(1) using False Cons.prems Inl upt_conv_Cons [of a "a + Suc k"] by simp
      moreover have "\<forall>i < Suc k. isl ((r # rs) ! i)" using k(3) Inl by (auto simp: less_Suc_eq_0_disj)
      ultimately show ?thesis using k(2,4) by (intro exI [of _ res] exI [of _ "Suc k"]) (simp cong: sum.case_cong)
    qed
  qed
qed

text \<open>\<open>retry_operation\<close> calls the function until it succeeds, at most \<open>max_retries\<close> times: it
  returns the first success, or passes on the exception of the last call; before the next call it
  sleeps 100 ms, doubled each time and never more than a second.\<close>

theorem retry_operation_correct:
  assumes "0 < m" "m \<le> length rs"
  shows "\<exists>res k. retry_operation m rs = Some (res, map (\<lambda>i. min (100 * 2 ^ i) 1000) [0..<k])
     \<and> k < m \<and> (\<forall>i < k. isl (rs ! i))
     \<and> (case rs ! k of Inr v \<Rightarrow> res = Returned v | Inl e \<Rightarrow> k = m - 1 \<and> res = Rethrown e)"
  using retry_from_steps [of 0 m rs] assms
  unfolding retry_operation_def by (simp cong: sum.case_cong)

theorem retry_operation_correct_witness:
  "retry_operation 3 [Inl ''a'', Inr (7::nat), Inl ''b''] = Some (Returned 7, [100])"
proof -
  obtain res k where k: "retry_operation 3 [Inl ''a'', Inr (7::nat), Inl ''b''] = Some (res, map (\<lambda>i. min (100 * 2 ^ i) 1000) [0..<k])"
    "k < 3" "\<forall>i < k. isl ([Inl ''a'', Inr (7::nat), Inl ''b''] ! i)"
    "case [Inl ''a'', Inr (7::nat), Inl ''b''] ! k of Inr v \<Rightarrow> res = Returned v | Inl e \<Rightarrow> k = 3 - 1 \<and> res = Rethrown e"
    using retry_operation_correct [of 3 "[Inl ''a'', Inr (7::nat), Inl ''b'']"] by auto
  moreover have "k = 1"
  proof -
    have "k \<noteq> 0"
    proof
      assume "k = 0"
      then show False using k(4) by simp
    qed
    moreover have "\<not> 1 < k" using k(3) by auto
    ultimately show ?thesis by simp
  qed
  ultimately show ?thesis by simp
qed

text \<open>C25: The tools read a rate in the same way although they have their own parsers: a positive decimal
  number with or without a suffix K, M or G in either case gives the number times 1, 1024, 1048576 or
  1073741824, in all three versions of \<open>parse_bandwidth\<close>, as long as it fits in 64 bits. The code takes the
  value for bytes per second, the manuals of \<open>tc-if\<close> and \<open>tc-ip\<close> for bits per second; the theorem is about
  the number.\<close>

theorem parse_bandwidth_agree:
  assumes "(u, f) \<in> set rate_units" "0 < n" "n * f < 2 ^ 64"
  shows "tc_parse_bandwidth (Some (show_nat n @ u)) = of_nat (n * f)
    \<and> proc_parse_bandwidth (Some (show_nat n @ u)) = of_nat (n * f)
    \<and> cgroup_parse_bandwidth (Some (show_nat n @ u)) = of_nat (n * f)
    \<and> unat (of_nat (n * f) :: u64) = n * f"
proof -
  have f: "0 < f" using assms(1) by (auto simp: rate_units_def)
  then have "n \<le> n * f" by simp
  from le_less_trans [OF this assms(3)] have n: "n \<le> UINT64_MAX_nat" "n < 2 ^ 64" by simp_all
  have st: "strtoul10 (show_nat n @ u) = (of_nat n, u, False)"
    using strtoul10_show [OF n(1) rate_units_no_digit [OF assms(1)]] .
  have "unat (of_nat n :: u64) = n" using n(2) by (simp add: unat_of_nat take_bit_nat_eq_self)
  then have nz: "(of_nat n :: u64) \<noteq> 0" using assms(2) by auto
  have "unat (of_nat (n * f) :: u64) = n * f" 
    using assms(3) by (simp add: unat_of_nat del: of_nat_mult)
  then show ?thesis
    using st nz scale_rate_units [OF assms(1), of _ n]
    by (simp add: tc_parse_bandwidth_def proc_parse_bandwidth_def cgroup_parse_bandwidth_def del: of_nat_mult)
qed

theorem parse_bandwidth_agree_witness:
  "tc_parse_bandwidth (Some (show_nat 3 @ ''m'')) = 3145728 \<and> cgroup_parse_bandwidth (Some (show_nat 3 @ ''m'')) = 3145728"
  using parse_bandwidth_agree [of "''m''" "1024 ^ 2" 3] by (simp add: rate_units_def)

text \<open>Where they differ: zero, overflow and the empty string.\<close>

lemma parse_bandwidth_differ:
  "proc_parse_bandwidth (Some []) = 0" "tc_parse_bandwidth (Some []) = TC_DEFAULT_RATE"
  "cgroup_parse_bandwidth (Some ''0'') = PROC_DEFAULT_RATE" "proc_parse_bandwidth (Some ''0'') = 0"
  by (simp_all add: proc_parse_bandwidth_def tc_parse_bandwidth_def cgroup_parse_bandwidth_def strtoul10_def
      scan_number_def scale_rate_def is_space_def is_digit_def digit_val_def Let_def)

text \<open>A rate that does not fit wraps: 2 to the 34 gigabytes per second are no limit at all.\<close>

lemma parse_bandwidth_wraps: "tc_parse_bandwidth (Some (show_nat (2 ^ 34) @ ''G'')) = 0"
proof -
  have "strtoul10 (show_nat (2 ^ 34) @ ''G'') = (of_nat (2 ^ 34), ''G'', False)"
    by (rule strtoul10_show) (simp_all add: is_digit_def)
  moreover have "scale_rate TC_DEFAULT_RATE (of_nat (2 ^ 34)) ''G'' = of_nat (2 ^ 34 * 1024 ^ 3)"
    by (rule scale_rate_units) (simp add: rate_units_def)
  ultimately show ?thesis by (simp add: tc_parse_bandwidth_def)
qed

section \<open>Balance\<close>

lemma balance_simps [simp]:
  "balance r [] = 0"
  "balance r (Acq x # tr) = (if x = r then 1 else 0) + balance r tr"
  "balance r (Rel x # tr) = (if x = r then - 1 else 0) + balance r tr"
  by (simp_all add: balance_def)

lemma balance_append [simp]: "balance r (xs @ ys) = balance r xs + balance r ys"
  by (simp add: balance_def)

lemma poll_events_ok: "\<forall>r \<in> set rs. 0 \<le> r \<Longrightarrow> poll_events rs err = (if rs = [] then err else Some (last rs))"
  by (induction rs arbitrary: err) auto

section \<open>The options loop\<close>

text \<open>
  \<open>while ((opt = getopt_long(...)) > 0) switch (opt)\<close> over the options that \<open>getopt_long\<close> yields: a case
  either changes the rule or ends the program with a status or an exception.
\<close>

fun opt_fold :: "(char \<Rightarrow> string \<Rightarrow> 'r \<Rightarrow> 'e + 'r) \<Rightarrow> (char \<times> string) list \<Rightarrow> 'r \<Rightarrow> 'e + 'r" where
  "opt_fold f [] r = Inr r"
| "opt_fold f ((opt, optarg) # os) r =
     (case f opt optarg r of Inl c \<Rightarrow> Inl c | Inr r' \<Rightarrow> opt_fold f os r')"

text \<open>
  The two shapes most cases have: a chain of \<open>strcasecmp\<close> tests, each with the rule it makes, and a
  number up to a maximum. A failed case exits with -1.
\<close>

fun opt_choice :: "(string \<times> 'r) list \<Rightarrow> string \<Rightarrow> int + 'r" where
  "opt_choice [] optarg = Inl (- 1)"
| "opt_choice ((w, r) # ws) optarg = (if eq_nocase optarg w then Inr r else opt_choice ws optarg)"

definition opt_unsigned :: "u64 \<Rightarrow> string \<Rightarrow> (u64 \<Rightarrow> 'r) \<Rightarrow> int + 'r" where
  "opt_unsigned max_val optarg store =
     (case nonempty_to_unsigned max_val optarg 0 of (ok, v) \<Rightarrow> if ok then Inr (store v) else Inl (- 1))"

text \<open>\<open>safe_str_to_int\<close> without the test for an empty string, as a case of the loop.\<close>

definition opt_number :: "u64 \<Rightarrow> string \<Rightarrow> (u64 \<Rightarrow> 'r) \<Rightarrow> int + 'r" where
  "opt_number max_val optarg store =
     (case str_to_unsigned max_val optarg 0 of (ok, v) \<Rightarrow> if ok then Inr (store v) else Inl (- 1))"

text \<open>What every case keeps, the loop keeps.\<close>

locale option_cases =
  fixes handle :: "char \<Rightarrow> string \<Rightarrow> 'r \<Rightarrow> 'e + 'r"
    and ok :: "'r \<Rightarrow> bool"
  assumes handle_ok: "ok r \<Longrightarrow> handle opt optarg r = Inr r' \<Longrightarrow> ok r'"
begin

lemma loop_ok: "ok r \<Longrightarrow> opt_fold handle os r = Inr r' \<Longrightarrow> ok r'"
proof (induction os arbitrary: r)
  case Nil
  then show ?case by simp
next
  case (Cons x os)
  then show ?case by (cases x) (auto split: sum.splits intro: handle_ok)
qed

end

lemma opt_fold_append:
  "opt_fold f (os @ ps) r = (case opt_fold f os r of Inl c \<Rightarrow> Inl c | Inr r' \<Rightarrow> opt_fold f ps r')"
  by (induction os arbitrary: r) (auto split: sum.splits)


lemma nonempty_to_unsigned_bound: "nonempty_to_unsigned m s old = (True, v) \<Longrightarrow> v \<le> m"
  by (auto simp: nonempty_to_unsigned_def split: if_splits dest: str_to_unsigned_bound)

lemma nonempty_to_unsigned_show: "n \<le> unat m \<Longrightarrow> nonempty_to_unsigned m (show_nat n) old = (True, of_nat n)"
  by (simp add: nonempty_to_unsigned_def str_to_unsigned_show)

lemma opt_unsigned_stored: "opt_unsigned m s store = Inr r \<Longrightarrow> \<exists>v \<le> m. r = store v"
  by (auto simp: opt_unsigned_def split: prod.splits if_splits dest: nonempty_to_unsigned_bound)

lemma opt_unsigned_show: "n \<le> unat m \<Longrightarrow> opt_unsigned m (show_nat n) store = Inr (store (of_nat n))"
  by (simp add: opt_unsigned_def nonempty_to_unsigned_show)

lemma opt_choice_stored: "opt_choice ws s = Inr r \<Longrightarrow> r \<in> snd ` set ws"
  by (induction ws s rule: opt_choice.induct) (auto split: if_splits)

lemma ucast_u64_le: "(v::u64) \<le> 3600 \<Longrightarrow> (ucast v :: u32) \<le> 3600"
  by (simp add: word_le_nat_alt unsigned_ucast_eq take_bit_nat_eq_self)

lemma ucast_of_unat:
  "ucast (of_nat (unat a) :: u64) = (a::u32)" "ucast (of_nat (unat b) :: u64) = (b::u16)" "ucast (of_nat (unat c) :: u64) = (c::u8)"
  by (rule bit_word_eqI; simp add: bit_simps)+

lemma balance_releases [simp]: "balance x (map Rel xs) = - int (count_list xs x)"
  by (induction xs) simp_all

lemma opt_number_stored: "opt_number m s store = Inr r \<Longrightarrow> \<exists>v \<le> m. r = store v"
  by (auto simp: opt_number_def split: prod.splits if_splits dest: str_to_unsigned_bound)

lemma one_le_word: "t \<noteq> 0 \<longleftrightarrow> 1 \<le> (t::u32)"
  by (simp add: word_le_nat_alt Suc_le_eq unat_gt_0)

lemma u8_le_1: "g \<le> 1 \<longleftrightarrow> g = 0 \<or> g = (1::u8)"
proof -
  have "g \<le> 1 \<longleftrightarrow> unat g = 0 \<or> unat g = 1" by (auto simp: word_le_nat_alt)
  then show ?thesis by (metis unat_0 unat_1 word_unat_eq_iff)
qed

lemma u8_le_2: "k \<le> 2 \<longleftrightarrow> k = 0 \<or> k = 1 \<or> k = (2::u8)"
proof -
  have "k \<le> 2 \<longleftrightarrow> unat k = 0 \<or> unat k = 1 \<or> unat k = unat (2::u8)" by (auto simp: word_le_nat_alt)
  then show ?thesis by (metis unat_0 unat_1 word_unat_eq_iff)
qed

end
