(* ===== verification/Net_Filter_Parse.thy ===== *)
theory Net_Filter_Parse
  imports Frtp_Policy Tc_Common
begin

text \<open>
  The rule language of \<open>filter/net-filter.cpp\<close>: addresses and ports, single or as a range with two
  hyphens, protocol, actions and direction. \<open>inet_pton(AF_INET6, ...)\<close>, the byte swap \<open>ntoh16\<close> and
  the values of \<open>NM_DROP\<close>, \<open>NM_LOG\<close> and \<open>PKG_DIR_...\<close>, all of them outside the repository, are parameters.
  The structure \<open>Rule\<close> is also declared there; its fields are those that the code uses.
\<close>

section \<open>Rules\<close>

text \<open>The union of an address: four bytes in host order, or the sixteen bytes that \<open>ntoh16\<close> leaves.\<close>

datatype naddr = V4 u32 | V6 bytes

record nf_rule =
  ip_proto :: u8
  tl_proto :: u8
  sip :: naddr
  sip_end :: naddr
  dip :: naddr
  dip_end :: naddr
  sport :: u16
  sport_end :: u16
  dport :: u16
  dport_end :: u16
  rcomm :: string
  raction :: int
  pkg_dir :: int

record nf_consts =
  NM_DROP :: int
  NM_LOG :: int
  PKG_DIR_ANY :: int
  PKG_DIR_IN :: int
  PKG_DIR_OUT :: int
  pton6 :: "string \<Rightarrow> bytes option"
  ntoh16 :: "bytes \<Rightarrow> bytes"

abbreviation IPPROTO_ICMP :: u8 where "IPPROTO_ICMP \<equiv> 1"
abbreviation IPPROTO_ICMPV6 :: u8 where "IPPROTO_ICMPV6 \<equiv> 58"

section \<open>Ranges\<close>

text \<open>
  \<open>strtok\<close> with the delimiters of \<open>"--"\<close>, that is with a hyphen: the maximal runs without one.
\<close>

definition next_token :: "string \<Rightarrow> (string \<times> string) option" where
  "next_token s =
     (let t = dropWhile (\<lambda>c. c = CHR ''-'') s; w = takeWhile (\<lambda>c. c \<noteq> CHR ''-'') t
      in if w = [] then None else Some (w, drop (length w) t))"

text \<open>\<open>parse_area\<close>; a null token is passed on to \<open>strncpy\<close>, which is a fault.\<close>

definition parse_area :: "string \<Rightarrow> nat \<Rightarrow> (string \<times> string) outcome" where
  "parse_area str sz =
     (case next_token str of
        None \<Rightarrow> Fault
      | Some (t1, r) \<Rightarrow>
          (case next_token r of None \<Rightarrow> Fault | Some (t2, r2) \<Rightarrow> Done (take (sz - 1) t1, take (sz - 1) t2)))"

definition has_sub :: "string \<Rightarrow> string \<Rightarrow> bool" where
  "has_sub pat s \<longleftrightarrow> list_ex (\<lambda>i. take (length pat) (drop i s) = pat) [0..<length s + 1]"

text \<open>Steps that return -1, here \<open>None\<close>, end the parsing.\<close>

definition and_then :: "'a option outcome \<Rightarrow> ('a \<Rightarrow> 'b option outcome) \<Rightarrow> 'b option outcome" where
  "and_then m f = bind_outcome m (\<lambda>x. case x of None \<Rightarrow> Done None | Some y \<Rightarrow> f y)"

lemma and_then_simps [simp]:
  "and_then (Done (Some x)) f = f x" "and_then (Done None) f = Done None" "and_then Fault f = Fault"
  by (simp_all add: and_then_def)

lemma and_then_Some_iff: "and_then m f = Done (Some y) \<longleftrightarrow> (\<exists>x. m = Done (Some x) \<and> f x = Done (Some y))"
  by (auto simp: and_then_def bind_outcome_Done_iff split: option.splits)

definition one_ip :: "nf_consts \<Rightarrow> bool \<Rightarrow> string \<Rightarrow> naddr option" where
  "one_ip k is_ipv6 s =
     (if \<not> is_ipv6 then map_option (\<lambda>ds. V4 (ip_of_octets ds)) (inet_pton4 s)
      else map_option (\<lambda>b. V6 (ntoh16 k b)) (pton6 k s))"

definition parse_ip :: "nf_consts \<Rightarrow> bool \<Rightarrow> string \<Rightarrow> (naddr \<times> naddr) option outcome" where
  "parse_ip k is_ipv6 ip_str =
     (if has_sub ''--'' ip_str then
        bind_outcome (parse_area ip_str 40) (\<lambda>(b, e).
          and_then (Done (one_ip k is_ipv6 b)) (\<lambda>ips.
          and_then (Done (one_ip k is_ipv6 e)) (\<lambda>ipe. Done (Some (ips, ipe)))))
      else and_then (Done (one_ip k is_ipv6 ip_str)) (\<lambda>a. Done (Some (a, a))))"

text \<open>
  \<open>parse_port\<close>. The value is an \<open>int\<close>. That nothing was converted is noticed for the first port of a
  range only: the second test looks at the end of the first conversion, and for a single port two
  variables are compared that have no value, with the result \<open>junk\<close>.
\<close>

definition port_value :: "string \<Rightarrow> int" where
  "port_value s = (case strtol10 s of (v, r, erange) \<Rightarrow> to_int32 v)"

definition parse_port :: "bool \<Rightarrow> string \<Rightarrow> (u16 \<times> u16) option outcome" where
  "parse_port junk port_str =
     (if has_sub ''--'' port_str then
        bind_outcome (parse_area port_str 8) (\<lambda>(b, e).
          let n = port_value b
          in if n < 0 \<or> n > 65535 \<or> scan_number b = None then Done None
             else let m = port_value e in if m < 0 \<or> m > 65535 then Done None else Done (Some (of_int n, of_int m)))
      else
        let n = port_value port_str
        in if n < 0 \<or> n > 65535 \<or> junk then Done None else Done (Some (of_int n, of_int n)))"

section \<open>The parts of a rule\<close>

definition parse_proto :: "string \<Rightarrow> nf_rule \<Rightarrow> nf_rule option" where
  "parse_proto protocol r =
     (if eq_nocase protocol ''TCP'' then Some (r\<lparr>tl_proto := 6\<rparr>)
      else if eq_nocase protocol ''UDP'' then Some (r\<lparr>tl_proto := 17\<rparr>)
      else if eq_nocase protocol ''icmp'' then
        (if rcomm r \<noteq> [] then None else Some (r\<lparr>tl_proto := (if ip_proto r = 4 then IPPROTO_ICMP else IPPROTO_ICMPV6)\<rparr>))
      else None)"

definition parse_ip_pair :: "nf_consts \<Rightarrow> bool \<Rightarrow> string \<Rightarrow> string \<Rightarrow> string \<Rightarrow> string \<Rightarrow> string \<Rightarrow> nf_rule \<Rightarrow> nf_rule option outcome" where
  "parse_ip_pair k junk ip1 ip2 sp dp protocol r =
     (let is_ipv6 = (ip_proto r = 6)
      in and_then (parse_ip k is_ipv6 ip1) (\<lambda>(s, se).
         and_then (parse_ip k is_ipv6 ip2) (\<lambda>(d, de).
         and_then (parse_port junk sp) (\<lambda>(p, pe).
         and_then (parse_port junk dp) (\<lambda>(q, qe).
           Done (parse_proto protocol (r\<lparr>sip := s, sip_end := se, dip := d, dip_end := de,
             sport := p, sport_end := pe, dport := q, dport_end := qe\<rparr>)))))))"

definition parse_action :: "nf_consts \<Rightarrow> string \<Rightarrow> int" where
  "parse_action k act_str =
     (let act = '','' @ act_str @ '',''
      in (if has_sub '',drop,'' act then NM_DROP k else 0) OR (if has_sub '',log,'' act then NM_LOG k else 0))"

definition parse_pkg_dir :: "nf_consts \<Rightarrow> string \<Rightarrow> int" where
  "parse_pkg_dir k dir_str =
     (if dir_str = [] then PKG_DIR_ANY k
      else if prefix_nocase dir_str ''/in'' then PKG_DIR_IN k
      else if prefix_nocase dir_str ''/out'' then PKG_DIR_OUT k
      else PKG_DIR_ANY k)"

text \<open>\<open>sscanf\<close> with conversions \<open>%Ns\<close> only: the words read until one is missing.\<close>

fun scan_fields :: "nat list \<Rightarrow> string \<Rightarrow> string list" where
  "scan_fields [] s = []"
| "scan_fields (n # ns) s = (case scan_s n s of None \<Rightarrow> [] | Some (w, r) \<Rightarrow> w # scan_fields ns r)"

definition nf_rule_zero :: nf_rule where
  "nf_rule_zero = \<lparr>ip_proto = 0, tl_proto = 0, sip = V4 0, sip_end = V4 0, dip = V4 0, dip_end = V4 0, sport = 0, sport_end = 0,
     dport = 0, dport_end = 0, rcomm = [], raction = 0, pkg_dir = 0\<rparr>"

definition family_proto :: "string \<Rightarrow> u8 option" where
  "family_proto family =
     (if take 4 family = ''ipv4'' then Some 4 else if take 4 family = ''ipv6'' then Some 6 else None)"

definition parse_rule :: "nf_consts \<Rightarrow> bool \<Rightarrow> string \<Rightarrow> nf_rule option outcome" where
  "parse_rule k junk line =
     (let fs = scan_fields [9, 87, 87, 15, 15, 5, 31, 15] (dropWhile (\<lambda>c. c = CHR '' '') line)
      in if length fs < 7 then Done None
         else case family_proto (fs ! 0) of
           None \<Rightarrow> Done None
         | Some fam \<Rightarrow>
             parse_ip_pair k junk (fs ! 1) (fs ! 2) (fs ! 3) (fs ! 4) (fs ! 5)
               (nf_rule_zero\<lparr>ip_proto := fam, rcomm := (if length fs = 8 then fs ! 7 else []),
                  raction := parse_action k (fs ! 6), pkg_dir := parse_pkg_dir k (drop 4 (fs ! 0))\<rparr>))"

section \<open>Well-formed rules\<close>

fun addr_ok :: "u8 \<Rightarrow> naddr \<Rightarrow> bool" where
  "addr_ok p (V4 a) = (p = 4)"
| "addr_ok p (V6 b) = (p = 6)"

definition nf_rule_ok :: "nf_consts \<Rightarrow> nf_rule \<Rightarrow> bool" where
  "nf_rule_ok k r \<longleftrightarrow> ip_proto r \<in> {4, 6}
     \<and> addr_ok (ip_proto r) (sip r) \<and> addr_ok (ip_proto r) (sip_end r) \<and> addr_ok (ip_proto r) (dip r) \<and> addr_ok (ip_proto r) (dip_end r)
     \<and> tl_proto r \<in> {6, 17, IPPROTO_ICMP, IPPROTO_ICMPV6}
     \<and> (tl_proto r = IPPROTO_ICMP \<longrightarrow> ip_proto r = 4 \<and> rcomm r = []) \<and> (tl_proto r = IPPROTO_ICMPV6 \<longrightarrow> ip_proto r = 6 \<and> rcomm r = [])
     \<and> length (rcomm r) \<le> 15 \<and> pkg_dir r \<in> {PKG_DIR_ANY k, PKG_DIR_IN k, PKG_DIR_OUT k}"

lemma one_ip_ok: "one_ip k v6 s = Some a \<Longrightarrow> addr_ok (if v6 then 6 else 4) a"
  by (auto simp: one_ip_def split: if_splits)

lemma parse_ip_ok: "parse_ip k v6 s = Done (Some (a, b)) \<Longrightarrow> addr_ok (if v6 then 6 else 4) a \<and> addr_ok (if v6 then 6 else 4) b"
  by (auto simp: parse_ip_def bind_outcome_Done_iff and_then_Some_iff split: if_split_asm dest: one_ip_ok)

lemma scan_s_bound: "scan_s n s = Some (w, r) \<Longrightarrow> length w \<le> n \<and> is_word w"
  by (auto simp: scan_s_def Let_def is_word_def split: if_splits dest!: in_set_takeD set_takeWhileD)

lemma scan_fields_bound: "i < length (scan_fields ns s) \<Longrightarrow> length (scan_fields ns s ! i) \<le> ns ! i"
proof (induction ns s arbitrary: i rule: scan_fields.induct)
  case (1 s)
  then show ?case by simp
next
  case (2 n ns s)
  then show ?case by (cases i) (auto split: option.splits dest: scan_s_bound)
qed

lemma scan_fields_length: "length (scan_fields ns s) \<le> length ns"
  by (induction ns s rule: scan_fields.induct) (auto split: option.split)

lemma parse_proto_ok:
  assumes "parse_proto p r = Some r'"
  shows "tl_proto r' \<in> {6, 17, IPPROTO_ICMP, IPPROTO_ICMPV6} \<and> (tl_proto r' = IPPROTO_ICMP \<longrightarrow> ip_proto r = 4 \<and> rcomm r = [])
    \<and> (tl_proto r' = IPPROTO_ICMPV6 \<longrightarrow> ip_proto r \<noteq> 4 \<and> rcomm r = []) \<and> r' = r\<lparr>tl_proto := tl_proto r'\<rparr>"
  using assms by (auto simp: parse_proto_def split: if_splits)

lemma parse_pkg_dir_range: "parse_pkg_dir k s \<in> {PKG_DIR_ANY k, PKG_DIR_IN k, PKG_DIR_OUT k}"
  by (simp add: parse_pkg_dir_def)

lemma parse_ip_pair_ok:
  assumes "parse_ip_pair k junk a b c d p r = Done (Some r')" "ip_proto r \<in> {4, 6}" "length (rcomm r) \<le> 15"
    "pkg_dir r \<in> {PKG_DIR_ANY k, PKG_DIR_IN k, PKG_DIR_OUT k}"
  shows "nf_rule_ok k r'"
proof -
  obtain s se di de sp spe dp dpe where
    s: "parse_ip k (ip_proto r = 6) a = Done (Some (s, se))" and d: "parse_ip k (ip_proto r = 6) b = Done (Some (di, de))"
    and p: "parse_proto p (r\<lparr>sip := s, sip_end := se, dip := di, dip_end := de, sport := sp, sport_end := spe, dport := dp,
        dport_end := dpe\<rparr>) = Some r'"
    using assms(1) by (auto simp: parse_ip_pair_def and_then_Some_iff Let_def)
  have f: "(if ip_proto r = 6 then 6 else 4) = ip_proto r" using assms(2) by auto
  note a1 = parse_ip_ok [OF s, unfolded f] and a2 = parse_ip_ok [OF d, unfolded f] and q = parse_proto_ok [OF p]
  from q obtain x where r': "r' = r\<lparr>sip := s, sip_end := se, dip := di, dip_end := de, sport := sp, sport_end := spe, dport := dp,
        dport_end := dpe, tl_proto := x\<rparr>" by auto
  show ?thesis unfolding nf_rule_ok_def using a1 a2 q assms(2-4) by (auto simp: r')
qed

section \<open>Writing rules\<close>

definition spaced_words :: "string list \<Rightarrow> string" where
  "spaced_words ws = concat (map (Cons CHR '' '') ws)"

lemma spaced_start: "spaced_words ws = [] \<or> is_space (hd (spaced_words ws))"
  by (cases ws) (simp_all add: spaced_words_def)

lemma scan_fields_spaced_tail:
  assumes "length ws \<le> length ns" "\<forall>i < length ws. is_word (ws ! i) \<and> length (ws ! i) \<le> ns ! i"
    and "t = [] \<or> is_space (hd t)"
  shows "scan_fields ns (spaced_words ws @ t) = ws @ scan_fields (drop (length ws) ns) t"
  using assms(1,2)
proof (induction ws arbitrary: ns)
  case Nil
  then show ?case by (simp add: spaced_words_def)
next
  case (Cons w ws)
  obtain n ns' where ns: "ns = n # ns'" using Cons.prems(1) by (cases ns) auto
  have w: "is_word w" "length w \<le> n" using Cons.prems(2) [rule_format, of 0] ns by auto
  have "\<forall>i < length ws. is_word (ws ! i) \<and> length (ws ! i) \<le> ns' ! i"
    using Cons.prems(2) [rule_format, of "Suc _"] ns by auto
  then have "scan_fields ns' (spaced_words ws @ t) = ws @ scan_fields (drop (length ws) ns') t" using Cons.IH [of ns'] Cons.prems(1) ns by simp
  moreover have "spaced_words ws @ t = [] \<or> is_space (hd (spaced_words ws @ t))"
    using spaced_start [of ws] assms(3) by (cases "spaced_words ws") auto
  then have "scan_s n (CHR '' '' # w @ spaced_words ws @ t) = Some (w, spaced_words ws @ t)" using w by (intro scan_s_exact)
  ultimately show ?case by (simp add: ns spaced_words_def)
qed

lemma scan_fields_spaced:
  assumes "length ws \<le> length ns" "\<forall>i < length ws. is_word (ws ! i) \<and> length (ws ! i) \<le> ns ! i"
  shows "scan_fields ns (spaced_words ws) = ws"
proof -
  have "scan_fields ms [] = []" for ms by (cases ms) (simp_all add: scan_s_def)
  then show ?thesis using scan_fields_spaced_tail [OF assms, of "[]"] by simp
qed
text \<open>Text made of digits and dots, as numbers and addresses are.\<close>

definition digits_dots :: "string \<Rightarrow> bool" where
  "digits_dots s \<longleftrightarrow> s \<noteq> [] \<and> (\<forall>c \<in> set s. is_digit c \<or> c = CHR ''.'')"

lemma plain_chars: "is_digit c \<or> c = CHR ''.'' \<Longrightarrow> \<not> is_space c \<and> c \<noteq> CHR ''-''"
  by (auto simp: is_space_def is_digit_def)

lemma plain_show_nat: "digits_dots (show_nat n)"
  using show_nat_props [of n] by (simp add: digits_dots_def)

lemma plain_inet_ntoa: "digits_dots (inet_ntoa w)"
  using show_nat_props by (auto simp: digits_dots_def inet_ntoa_def ip_octets_def)

lemma plain_no_hyphen: "digits_dots s \<Longrightarrow> c \<in> set s \<Longrightarrow> c \<noteq> CHR ''-''"
  using plain_chars by (auto simp: digits_dots_def)

lemma next_token_plain:
  assumes "digits_dots x" "r = [] \<or> hd r = CHR ''-''"
  shows "next_token (x @ r) = Some (x, r)"
proof -
  obtain c cs where c: "x = c # cs" using assms(1) by (cases x) (auto simp: digits_dots_def)
  have "dropWhile (\<lambda>c. c = CHR ''-'') (x @ r) = x @ r" using plain_no_hyphen [OF assms(1)] c by simp
  moreover have "takeWhile (\<lambda>c. c \<noteq> CHR ''-'') (x @ r) = x"
    using plain_no_hyphen [OF assms(1)] assms(2) by (cases r) (simp_all add: takeWhile_append2)
  ultimately show ?thesis using c by (simp add: next_token_def Let_def)
qed

definition range_text :: "string \<Rightarrow> string \<Rightarrow> string" where
  "range_text x y = x @ ''--'' @ y"

lemma parse_area_range:
  assumes "digits_dots x" "digits_dots y" "length x < sz" "length y < sz"
  shows "parse_area (range_text x y) sz = Done (x, y)"
proof -
  have 1: "next_token (x @ ''--'' @ y) = Some (x, ''--'' @ y)" using assms(1) by (intro next_token_plain) simp_all
  have "next_token (''--'' @ y) = next_token y" by (simp add: next_token_def)
  also have "\<dots> = Some (y, [])" using next_token_plain [OF assms(2), of "[]"] by simp
  finally show ?thesis using 1 assms(3,4) by (simp add: parse_area_def range_text_def)
qed

lemma has_sub_append: "has_sub p (x @ p @ y)"
  by (auto simp: has_sub_def list_ex_iff intro!: bexI [of _ "length x"])

lemma is_word_range: "digits_dots x \<Longrightarrow> digits_dots y \<Longrightarrow> is_word (range_text x y)"
proof -
  have no: "digits_dots s \<Longrightarrow> c \<in> set s \<Longrightarrow> \<not> is_space c" for s c using plain_chars by (auto simp: digits_dots_def)
  have "\<not> is_space CHR ''-''" by (simp add: is_space_def)
  then show "digits_dots x \<Longrightarrow> digits_dots y \<Longrightarrow> is_word (range_text x y)" using no by (auto simp: is_word_def range_text_def)
qed

lemma parse_ip_range:
  "parse_ip k False (range_text (inet_ntoa a) (inet_ntoa b)) = Done (Some (V4 a, V4 b))"
proof -
  have "length (inet_ntoa w) < 40" for w using inet_ntoa_length [of w] by simp
  then have "parse_area (range_text (inet_ntoa a) (inet_ntoa b)) 40 = Done (inet_ntoa a, inet_ntoa b)"
    by (intro parse_area_range plain_inet_ntoa)
  moreover have "has_sub ''--'' (range_text (inet_ntoa a) (inet_ntoa b))" unfolding range_text_def by (rule has_sub_append)
  ultimately show ?thesis by (simp add: parse_ip_def one_ip_def pton4_ntoa ip_of_octets_inverse)
qed

lemma show_port:
  assumes "n < 65536"
  shows "length (show_nat n) \<le> 5" "port_value (show_nat n) = int n" "scan_number (show_nat n) = Some (False, n, [])"
proof -
  have n1: "n div 10 < 6554" "n div 10 div 10 < 656" "n div 10 div 10 < 1000" using assms by auto
  show "length (show_nat n) \<le> 5"
    using show_nat_length [OF n1(3)] by (subst show_nat.simps, subst show_nat.simps) auto
  show sc: "scan_number (show_nat n) = Some (False, n, [])" using scan_show_nat [of "[]" n] by simp
  have "to_int32 (int n) = int n" using assms by (intro signed_take_bit_int_eq_self) auto
  then show "port_value (show_nat n) = int n" using sc assms by (simp add: port_value_def strtol10_def)
qed

lemma parse_port_range:
  "parse_port junk (range_text (show_nat (unat p)) (show_nat (unat q))) = Done (Some (p, q))"
proof -
  have lt: "unat w < 65536" for w :: u16 using unsigned_less [of w, where ?'a = nat] by simp
  note p = show_port [OF lt [of p]] and q = show_port [OF lt [of q]]
  have "parse_area (range_text (show_nat (unat p)) (show_nat (unat q))) 8 = Done (show_nat (unat p), show_nat (unat q))"
    using p(1) q(1) by (intro parse_area_range plain_show_nat) simp_all
  moreover have "has_sub ''--'' (range_text (show_nat (unat p)) (show_nat (unat q)))" unfolding range_text_def by (rule has_sub_append)
  moreover have "int (unat w) \<le> 65535" for w :: u16 using lt [of w] by linarith
  ultimately show ?thesis using p(2,3) q(2,3) by (simp add: parse_port_def Let_def not_less)
qed

text \<open>A line for an IPv4 rule with ranges; the name of the process may be left out.\<close>

definition family_text :: "nf_consts \<Rightarrow> int \<Rightarrow> string" where
  "family_text k d = ''ipv4'' @ (if d = PKG_DIR_IN k then ''/in'' else if d = PKG_DIR_OUT k then ''/out'' else [])"

definition action_text :: "bool \<Rightarrow> bool \<Rightarrow> string" where
  "action_text drp lg = (if drp \<and> lg then ''drop,log'' else if drp then ''drop'' else if lg then ''log'' else ''none'')"

definition rule_words :: "nf_consts \<Rightarrow> nf_rule \<Rightarrow> u32 \<Rightarrow> u32 \<Rightarrow> u32 \<Rightarrow> u32 \<Rightarrow> bool \<Rightarrow> bool \<Rightarrow> string list" where
  "rule_words k r a b c d drp lg =
     [family_text k (pkg_dir r), range_text (inet_ntoa a) (inet_ntoa b), range_text (inet_ntoa c) (inet_ntoa d),
      range_text (show_nat (unat (sport r))) (show_nat (unat (sport_end r))),
      range_text (show_nat (unat (dport r))) (show_nat (unat (dport_end r))),
      (if tl_proto r = 6 then ''tcp'' else if tl_proto r = 17 then ''udp'' else ''icmp''), action_text drp lg]
     @ (if rcomm r = [] then [] else [rcomm r])"

lemma parse_action_text:
  "parse_action k (action_text drp lg) = (if drp then NM_DROP k else 0) OR (if lg then NM_LOG k else 0)"
proof -
  have "has_sub '',drop,'' '',drop,log,''" "has_sub '',log,'' '',drop,log,''" "has_sub '',drop,'' '',drop,''" "\<not> has_sub '',log,'' '',drop,''"
    "has_sub '',log,'' '',log,''" "\<not> has_sub '',drop,'' '',log,''" "\<not> has_sub '',drop,'' '',none,''" "\<not> has_sub '',log,'' '',none,''"
    by code_simp+
  then show ?thesis by (simp add: parse_action_def action_text_def Let_def)
qed

lemma parse_pkg_dir_text:
  assumes "pd \<in> {PKG_DIR_ANY k, PKG_DIR_IN k, PKG_DIR_OUT k}"
  shows "parse_pkg_dir k (drop 4 (family_text k pd)) = pd"
proof -
  have "prefix_nocase ''/in'' ''/in''" "\<not> prefix_nocase ''/out'' ''/in''" "prefix_nocase ''/out'' ''/out''" by code_simp+
  then show ?thesis using assms by (auto simp: parse_pkg_dir_def family_text_def)
qed

lemma proto_words:
  "eq_nocase ''tcp'' ''TCP''" "\<not> eq_nocase ''udp'' ''TCP''" "eq_nocase ''udp'' ''UDP''" "\<not> eq_nocase ''icmp'' ''TCP''"
  "\<not> eq_nocase ''icmp'' ''UDP''" "eq_nocase ''icmp'' ''icmp''"
  by code_simp+

lemma rule_words_ok:
  assumes "nf_rule_ok k r" "rcomm r = [] \<or> is_word (rcomm r)"
  shows "\<forall>i < length (rule_words k r a b c d drp lg). is_word (rule_words k r a b c d drp lg ! i)
    \<and> length (rule_words k r a b c d drp lg ! i) \<le> [9, 87, 87, 15, 15, 5, 31, 15] ! i"
proof -
  have lt: "unat w < 65536" for w :: u16 using unsigned_less [of w, where ?'a = nat] by simp
  have word: "is_word (family_text k (pkg_dir r))" "is_word (action_text drp lg)" "is_word ''tcp''" "is_word ''udp''" "is_word ''icmp''"
    by (auto simp: family_text_def action_text_def is_word_def is_space_def)
  have len: "length (range_text (inet_ntoa x) (inet_ntoa y)) \<le> 87" for x y
    using inet_ntoa_length [of x] inet_ntoa_length [of y] by (simp add: range_text_def)
  have plen: "length (range_text (show_nat (unat x)) (show_nat (unat y))) \<le> 15" for x y :: u16
    using show_port(1) [OF lt [of x]] show_port(1) [OF lt [of y]] by (simp add: range_text_def)
  have rest: "length (family_text k (pkg_dir r)) \<le> 9" "length (action_text drp lg) \<le> 31" "length (rcomm r) \<le> 15"
    using assms(1) by (simp_all add: family_text_def action_text_def nf_rule_ok_def)
  have "list_all2 (\<lambda>w n. is_word w \<and> length w \<le> n) (rule_words k r a b c d drp lg)
      (take (length (rule_words k r a b c d drp lg)) [9, 87, 87, 15, 15, 5, 31, 15])"
    using word len plen rest assms(2)
    by (auto simp: rule_words_def is_word_range plain_inet_ntoa plain_show_nat)
  then show ?thesis by (auto simp: list_all2_conv_all_nth)
qed

lemma scan_fields_skip: "scan_fields (n # ns) (dropWhile (\<lambda>c. c = CHR '' '') s) = scan_fields (n # ns) s"
  by (induction s) (auto simp: scan_s_def)

lemma parse_rule_written:
  assumes "nf_rule_ok k r" "rcomm r = [] \<or> is_word (rcomm r)"
    "sip r = V4 a" "sip_end r = V4 b" "dip r = V4 c" "dip_end r = V4 d"
    "raction r = (if drp then NM_DROP k else 0) OR (if lg then NM_LOG k else 0)"
  shows "parse_rule k junk (spaced_words (rule_words k r a b c d drp lg)) = Done (Some r)"
proof -
  let ?ws = "rule_words k r a b c d drp lg"
  have v4: "ip_proto r = 4" using assms(1,3) by (simp add: nf_rule_ok_def)
  have fields: "scan_fields [9, 87, 87, 15, 15, 5, 31, 15] (spaced_words ?ws) = ?ws"
    by (rule scan_fields_spaced [OF _ rule_words_ok [OF assms(1,2)]]) (simp add: rule_words_def)
  have fam: "family_proto (family_text k pd) = Some 4" for pd by (simp add: family_proto_def family_text_def)
  have len: "7 \<le> length ?ws" "length ?ws = 8 \<longleftrightarrow> rcomm r \<noteq> []" by (simp_all add: rule_words_def)
  let ?r = "nf_rule_zero\<lparr>ip_proto := 4, rcomm := rcomm r, raction := raction r, pkg_dir := pkg_dir r\<rparr>"
  have pd: "parse_pkg_dir k (drop 4 (family_text k (pkg_dir r))) = pkg_dir r"
    using parse_pkg_dir_text assms(1) by (simp add: nf_rule_ok_def)
  have "parse_rule k junk (spaced_words ?ws) = parse_ip_pair k junk (range_text (inet_ntoa a) (inet_ntoa b)) (range_text (inet_ntoa c) (inet_ntoa d))
      (range_text (show_nat (unat (sport r))) (show_nat (unat (sport_end r))))
      (range_text (show_nat (unat (dport r))) (show_nat (unat (dport_end r))))
      (if tl_proto r = 6 then ''tcp'' else if tl_proto r = 17 then ''udp'' else ''icmp'') ?r"
    unfolding parse_rule_def Let_def scan_fields_skip fields using fam pd assms(7)
    by (simp add: rule_words_def parse_action_text)
  also have "\<dots> = Done (Some r)"
    using assms(1,3-6) v4
    by (auto simp: parse_ip_pair_def parse_ip_range parse_port_range parse_proto_def proto_words nf_rule_zero_def nf_rule_ok_def)
  finally show ?thesis .
qed

definition ex_consts :: nf_consts where
  "ex_consts = \<lparr>NM_DROP = 1, NM_LOG = 2, PKG_DIR_ANY = 0, PKG_DIR_IN = 1, PKG_DIR_OUT = 2, pton6 = (\<lambda>_. None), ntoh16 = id\<rparr>"

definition ex_nf_rule :: nf_rule where
  "ex_nf_rule = \<lparr>ip_proto = 4, tl_proto = 6, sip = V4 167772161, sip_end = V4 167772415, dip = V4 0, dip_end = V4 4294967295,
     sport = 1024, sport_end = 65535, dport = 80, dport_end = 80, rcomm = ''curl'', raction = 3, pkg_dir = 2\<rparr>"

section \<open>Properties\<close>

lemma rule_parsed_ok:
  assumes "parse_rule k junk line = Done (Some r)"
  shows "nf_rule_ok k r"
proof -
  define fs where "fs = scan_fields [9, 87, 87, 15, 15, 5, 31, 15] (dropWhile (\<lambda>c. c = CHR '' '') line)"
  obtain fam where fam: "family_proto (fs ! 0) = Some fam" and
    run: "parse_ip_pair k junk (fs ! 1) (fs ! 2) (fs ! 3) (fs ! 4) (fs ! 5)
       (nf_rule_zero\<lparr>ip_proto := fam, rcomm := (if length fs = 8 then fs ! 7 else []),
          raction := parse_action k (fs ! 6), pkg_dir := parse_pkg_dir k (drop 4 (fs ! 0))\<rparr>) = Done (Some r)"
    using assms unfolding parse_rule_def Let_def fs_def [symmetric] by (auto split: if_split_asm option.split_asm)
  have "length (if length fs = 8 then fs ! 7 else []) \<le> 15"
    using scan_fields_bound [of 7 "[9, 87, 87, 15, 15, 5, 31, 15]" "dropWhile (\<lambda>c. c = CHR '' '') line"]
    unfolding fs_def [symmetric] by simp
  moreover have "fam \<in> {4, 6}" using fam by (auto simp: family_proto_def split: if_splits)
  ultimately show ?thesis using parse_ip_pair_ok [OF run] parse_pkg_dir_range [of k "drop 4 (fs ! 0)"] by simp
qed

text \<open>C20: A line that is accepted gives a well-formed rule: the family is 4 or 6 and all four addresses are
  of that family, the protocol is one of the four, ICMP of the right family and never together with a process
  name, the name fits its sixteen bytes and the direction is one of the three.\<close>

theorem parse_rule_ok:
  assumes "parse_rule k junk line = Done (Some r)"
  shows "nf_rule_ok k r"
  using assms by (rule rule_parsed_ok)

theorem parse_rule_ok_witness:
  "\<exists>r. parse_rule ex_consts False (spaced_words (rule_words ex_consts ex_nf_rule 167772161 167772415 0 4294967295 True True)) = Done (Some r)
     \<and> nf_rule_ok ex_consts r"
proof -
  have "parse_rule ex_consts False (spaced_words (rule_words ex_consts ex_nf_rule 167772161 167772415 0 4294967295 True True)) = Done (Some ex_nf_rule)"
    by (rule parse_rule_written) (simp_all add: nf_rule_ok_def ex_nf_rule_def ex_consts_def is_word_def is_space_def)
  then show ?thesis using parse_rule_ok by blast
qed

text \<open>C19: Writing and reading a rule are inverse for IPv4: a rule with any ranges of addresses and ports, any
  protocol that is allowed, any direction, any actions, and either no process name (as ICMP demands) or
  one of up to fifteen characters without white space, is read back as it was written. A name with a blank is cut at the blank
  (\<open>rule_name_cut\<close>).\<close>

theorem nf_rule_roundtrip:
  assumes "nf_rule_ok k r" "rcomm r = [] \<or> is_word (rcomm r)"
    "sip r = V4 a" "sip_end r = V4 b" "dip r = V4 c" "dip_end r = V4 d"
    "raction r = (if drp then NM_DROP k else 0) OR (if lg then NM_LOG k else 0)"
  shows "parse_rule k junk (spaced_words (rule_words k r a b c d drp lg)) = Done (Some r)"
  using assms by (rule parse_rule_written)

theorem nf_rule_roundtrip_witness:
  "parse_rule ex_consts False (spaced_words (rule_words ex_consts ex_nf_rule 167772161 167772415 0 4294967295 True True)) = Done (Some ex_nf_rule)"
  by (rule nf_rule_roundtrip) (simp_all add: nf_rule_ok_def ex_nf_rule_def ex_consts_def is_word_def is_space_def)

section \<open>Lines that should not be accepted\<close>

text \<open>
  A process name with a blank, as \<open>Web Content\<close>, is read up to the blank: the rule that is accepted is for
  another process.
\<close>

lemma rule_name_cut:
  assumes "nf_rule_ok k r" "rcomm r = w @ CHR '' '' # rest" "is_word w"
    "sip r = V4 a" "sip_end r = V4 b" "dip r = V4 c" "dip_end r = V4 d"
    "raction r = (if drp then NM_DROP k else 0) OR (if lg then NM_LOG k else 0)"
  shows "parse_rule k junk (spaced_words (rule_words k r a b c d drp lg)) = Done (Some (r\<lparr>rcomm := w\<rparr>))"
proof -
  let ?r = "r\<lparr>rcomm := w\<rparr>"
  let ?ns = "[9, 87, 87, 15, 15, 5, 31, 15] :: nat list"
  let ?ws = "rule_words k ?r a b c d drp lg"
  have ok: "nf_rule_ok k ?r" "w \<noteq> []" using assms(1-3) by (auto simp: nf_rule_ok_def is_word_def)
  have line: "spaced_words (rule_words k r a b c d drp lg) = spaced_words ?ws @ CHR '' '' # rest"
    using assms(2) ok(2) by (simp add: rule_words_def spaced_words_def)
  have len: "length ?ws = length ?ns" using ok(2) by (simp add: rule_words_def)
  have words: "\<forall>i < length ?ws. is_word (?ws ! i) \<and> length (?ws ! i) \<le> ?ns ! i"
    using rule_words_ok [OF ok(1)] assms(3) by simp
  have "scan_fields ?ns (spaced_words ?ws @ CHR '' '' # rest) = ?ws"
    using scan_fields_spaced_tail [OF _ words, of "CHR '' '' # rest"] len by simp
  moreover have "scan_fields ?ns (spaced_words ?ws) = ?ws" using scan_fields_spaced [OF _ words] len by simp
  ultimately have "parse_rule k junk (spaced_words (rule_words k r a b c d drp lg)) = parse_rule k junk (spaced_words ?ws)"
    unfolding parse_rule_def line scan_fields_skip by simp
  then show ?thesis using parse_rule_written [OF ok(1)] assms(3-8) by simp
qed

text \<open>A port above 65535 whose low 32 bits are a port is taken for that port.\<close>

lemma parse_port_truncates: "parse_port False (show_nat (2 ^ 32 + 80)) = Done (Some (80, 80))"
proof -
  have "scan_number (show_nat (2 ^ 32 + 80)) = Some (False, 2 ^ 32 + 80, [])" using scan_show_nat [of "[]" "2 ^ 32 + 80"] by simp
  then have v: "port_value (show_nat (2 ^ 32 + 80)) = 80" by (simp add: port_value_def strtol10_def)
  have "take 2 (drop i (show_nat n)) \<noteq> ''--''" for i n
  proof
    assume "take 2 (drop i (show_nat n)) = ''--''"
    then have "CHR ''-'' \<in> set (drop i (show_nat n))" by (metis in_set_takeD list.set_intros(1))
    then show False using plain_no_hyphen [OF plain_show_nat [of n]] by (metis in_set_dropD)
  qed
  then have "\<not> has_sub ''--'' (show_nat n)" for n by (auto simp: has_sub_def list_ex_iff numeral_2_eq_2)
  then show ?thesis by (simp only: parse_port_def v Let_def) simp
qed

text \<open>The end of a range of ports need not be a number, and the ends may be in the wrong order.\<close>

lemma parse_port_loose:
  "parse_port junk ''80--x'' = Done (Some (80, 0))" "parse_port junk (range_text (show_nat (unat (9::u16))) (show_nat (unat (3::u16)))) = Done (Some (9, 3))"
proof -
  have "has_sub ''--'' ''80--x''" "parse_area ''80--x'' 8 = Done (''80'', ''x'')" "port_value ''80'' = 80" "port_value ''x'' = 0"
    "scan_number ''80'' \<noteq> None"
    by code_simp+
  then show "parse_port junk ''80--x'' = Done (Some (80, 0))" by (simp add: parse_port_def)
  show "parse_port junk (range_text (show_nat (unat (9::u16))) (show_nat (unat (3::u16)))) = Done (Some (9, 3))" by (rule parse_port_range)
qed

text \<open>A range without a second end reads through a null pointer.\<close>

lemma parse_ip_open_range: "parse_ip k v6 ''10.0.0.1--'' = Fault" "parse_port junk ''80--'' = Fault"
proof -
  have "has_sub ''--'' ''10.0.0.1--''" "parse_area ''10.0.0.1--'' 40 = Fault" "has_sub ''--'' ''80--''" "parse_area ''80--'' 8 = Fault"
    by code_simp+
  then show "parse_ip k v6 ''10.0.0.1--'' = Fault" "parse_port junk ''80--'' = Fault" by (simp_all add: parse_ip_def parse_port_def)
qed

end
