(* ===== verification/Key_Walk.thy ===== *)
theory Key_Walk
  imports Main
begin

text \<open>
  Walking over a map of the kernel with \<open>bpf_map_get_next_key\<close>. A map is the list of its entries in the order in which that call
  yields them.
\<close>

text \<open>
  The call as it is documented: the key after the given one, the first key if the given one is not in the map, nothing after the
  last.
\<close>

fun after :: "'k \<Rightarrow> 'k list \<Rightarrow> 'k list" where
  "after k [] = []"
| "after k (x # xs) = (if x = k then xs else after k xs)"

definition next_key :: "'k list \<Rightarrow> 'k \<Rightarrow> 'k option" where
  "next_key ks k =
     (let rest = (if k \<in> set ks then after k ks else ks) in case rest of [] \<Rightarrow> None | x # _ \<Rightarrow> Some x)"

definition delete_key :: "'k \<Rightarrow> ('k \<times> 'v) list \<Rightarrow> ('k \<times> 'v) list" where
  "delete_key k m = filter (\<lambda>(x, r). x \<noteq> k) m"

lemma next_key_member: "next_key ks k = Some x \<Longrightarrow> x \<in> set ks"
proof -
  have "set (after k ks) \<subseteq> set ks" by (induction ks) auto
  then show "next_key ks k = Some x \<Longrightarrow> x \<in> set ks" by (auto simp: next_key_def Let_def split: if_splits list.splits)
qed

lemma delete_key_shorter: "x \<in> fst ` set m \<Longrightarrow> length (delete_key x m) < length m"
  unfolding delete_key_def by (auto intro!: length_filter_less)

lemma delete_key_gone: "x \<notin> fst ` set (delete_key x m)"
  by (auto simp: delete_key_def)

lemma next_key_absent: "k \<notin> set ks \<Longrightarrow> next_key ks k = (case ks of [] \<Rightarrow> None | x # _ \<Rightarrow> Some x)"
  by (simp add: next_key_def)

lemma delete_key_keys: "map fst (delete_key k m) = filter (\<lambda>x. x \<noteq> k) (map fst m)"
  by (induction m) (auto simp: delete_key_def)

lemma after_nonempty: "k \<in> set ks \<Longrightarrow> distinct ks \<Longrightarrow> after k ks = [] \<longleftrightarrow> last ks = k"
  by (induction ks) auto

lemma after_split: "k \<notin> set xs \<Longrightarrow> after k (xs @ k # ys) = ys"
  by (induction xs) auto

lemma next_key_split: "k \<notin> set xs \<Longrightarrow> next_key (xs @ k # ys) k = (case ys of [] \<Rightarrow> None | y # _ \<Rightarrow> Some y)"
  by (simp add: next_key_def after_split)

text \<open>The entries that a walk from some key visits: all of them, if the key is not in the map, and otherwise those behind it.\<close>

definition behind :: "'k \<Rightarrow> ('k \<times> 'v) list \<Rightarrow> ('k \<times> 'v) list" where
  "behind k m = (if k \<in> fst ` set m then tl (dropWhile (\<lambda>(x, r). x \<noteq> k) m) else m)"

lemma behind_absent [simp]: "k \<notin> fst ` set m \<Longrightarrow> behind k m = m"
  by (simp add: behind_def)

lemma behind_split: "k \<notin> fst ` set pre \<Longrightarrow> behind k (pre @ (k, r) # post) = post"
proof -
  assume "k \<notin> fst ` set pre"
  then have "\<forall>(x, r) \<in> set pre. x \<noteq> k" by force
  then have "dropWhile (\<lambda>(x, r). x \<noteq> k) (pre @ (k, r) # post) = (k, r) # post" by (induction pre) auto
  then show ?thesis by (simp add: behind_def)
qed

end
