(* ===== verification/Net_Filter.thy ===== *)
theory Net_Filter
  imports Net_Filter_Parse Key_Walk
begin

text \<open>
  \<open>filter/net-filter.cpp\<close> without its rule language: the rules in the kernel's map, the configuration,
  the acquisition and release of programs and links, and the main program. The kernel's map is
  the list of its entries in the order in which \<open>bpf_map_get_next_key\<close> yields them; that call, the
  other calls of libbpf, and the initial value of \<open>key_cnt\<close>, which the class declares outside the
  repository, are parameters. The two macros that print an address are a parameter as well.
\<close>

section \<open>The map of rules\<close>

type_synonym rule_map = "(u32 \<times> nf_rule) list"

record netfilter =
  nf_map :: rule_map
  key_cnt :: u32
  conf_enable :: bool
  conf_debug :: int
  conf_map :: "(bool \<times> int) option"
  loop_flag :: bool
  trace_fd :: int

text \<open>
  \<open>add_rule\<close>: \<open>BPF_NOEXIST\<close> refuses a key that is there; \<open>room\<close> is whether the map has room, \<open>pos\<close>
  where the entry comes in the order of keys. The result is an \<open>int\<close>.
\<close>

definition add_rule :: "bool \<Rightarrow> nat \<Rightarrow> nf_rule \<Rightarrow> netfilter \<Rightarrow> int \<times> netfilter" where
  "add_rule room pos r s =
     (if key_cnt s \<in> fst ` set (nf_map s) \<or> \<not> room then (- 1, s)
      else (sint (key_cnt s), s\<lparr>nf_map := take pos (nf_map s) @ (key_cnt s, r) # drop pos (nf_map s), key_cnt := key_cnt s + 1\<rparr>))"

text \<open>\<open>load_rules\<close> over the lines of the file; \<open>None\<close> is a fault in the parser.\<close>

fun load_lines :: "nf_consts \<Rightarrow> bool \<Rightarrow> bool \<Rightarrow> nat \<Rightarrow> string list \<Rightarrow> netfilter \<Rightarrow> (bool \<times> netfilter) outcome" where
  "load_lines k junk room pos [] s = Done (True, s)"
| "load_lines k junk room pos (l # ls) s =
     (if l \<noteq> [] \<and> (hd l = CHR ''#'' \<or> hd l = NL) then load_lines k junk room pos ls s
      else bind_outcome (parse_rule k junk l) (\<lambda>x.
        case x of
          None \<Rightarrow> load_lines k junk room pos ls s
        | Some r \<Rightarrow> (case add_rule room pos r s of (key, s') \<Rightarrow> if key < 0 then Done (False, s') else load_lines k junk room pos ls s')))"

definition nf_load_rules :: "nf_consts \<Rightarrow> bool \<Rightarrow> bool \<Rightarrow> nat \<Rightarrow> string list option \<Rightarrow> netfilter \<Rightarrow> (bool \<times> netfilter) outcome" where
  "nf_load_rules k junk room pos file s =
     (case file of None \<Rightarrow> Done (False, s) | Some ls \<Rightarrow> load_lines k junk room pos ls s)"

text \<open>\<open>update_rule\<close>: the key that is updated is \<open>key_cnt\<close>, not the argument; \<open>BPF_EXIST\<close> wants it to be there.\<close>

definition update_rule :: "u32 \<Rightarrow> nf_rule \<Rightarrow> netfilter \<Rightarrow> int \<times> netfilter" where
  "update_rule key r s =
     (if key_cnt s \<in> fst ` set (nf_map s)
      then (0, s\<lparr>nf_map := map (\<lambda>(x, old). if x = key_cnt s then (x, r) else (x, old)) (nf_map s)\<rparr>)
      else (- 1, s))"

definition del_rule :: "u32 \<Rightarrow> netfilter \<Rightarrow> netfilter" where
  "del_rule rule_id s = s\<lparr>nf_map := delete_key rule_id (nf_map s)\<rparr>"

text \<open>The loop of \<open>clear_rules\<close>; each turn removes an entry, so it ends.\<close>

function clear_from :: "u32 \<Rightarrow> rule_map \<Rightarrow> rule_map" where
  "clear_from key m =
     (case next_key (map fst m) key of None \<Rightarrow> m | Some nxt \<Rightarrow> clear_from nxt (delete_key nxt m))"
  by pat_completeness auto

termination
  by (relation "measure (\<lambda>(key, m). length m)") (auto dest!: next_key_member intro: delete_key_shorter simp: image_iff)

declare clear_from.simps [simp del]

definition clear_rules :: "netfilter \<Rightarrow> netfilter" where
  "clear_rules s = s\<lparr>nf_map := clear_from 0 (nf_map s)\<rparr>"

text \<open>The loop of \<open>dump_rules\<close>, with fuel; the keys visited in order. \<open>None\<close> is a loop that has not ended.\<close>

fun dump_from :: "nat \<Rightarrow> u32 \<Rightarrow> rule_map \<Rightarrow> (u32 \<times> nf_rule) list option" where
  "dump_from 0 key m = None"
| "dump_from (Suc n) key m =
     (case next_key (map fst m) key of
        None \<Rightarrow> Some []
      | Some nxt \<Rightarrow> (case dump_from n nxt m of None \<Rightarrow> None | Some rs \<Rightarrow> Some ((nxt, the (map_of m nxt)) # rs)))"

definition dump_rules :: "nat \<Rightarrow> netfilter \<Rightarrow> (u32 \<rightharpoonup> nf_rule) option" where
  "dump_rules n s = map_option map_of (dump_from n 0 (nf_map s))"

section \<open>Configuration and events\<close>

definition set_bpf_debug :: "bool \<Rightarrow> int \<Rightarrow> netfilter \<Rightarrow> netfilter" where
  "set_bpf_debug upd type s =
     (let s1 = s\<lparr>conf_debug := type\<rparr> in if upd then s1\<lparr>conf_map := Some (conf_enable s1, conf_debug s1)\<rparr> else s1)"

definition enable :: "bool \<Rightarrow> bool \<Rightarrow> netfilter \<Rightarrow> netfilter" where
  "enable upd state s =
     (let s1 = s\<lparr>conf_debug := (if state then 1 else 0)\<rparr>
      in if upd then s1\<lparr>conf_map := Some (conf_enable s1, conf_debug s1)\<rparr> else s1)"

text \<open>\<open>loop\<close>: how many polls fail and are followed by a pause, until \<open>exit\<close> clears the flag.\<close>

fun nf_loop :: "int list \<Rightarrow> nat" where
  "nf_loop [] = 0"
| "nf_loop (err # errs) = (if err < 0 \<and> err \<noteq> - EINTR then 1 else 0) + nf_loop errs"

definition nf_exit :: "netfilter \<Rightarrow> netfilter" where
  "nf_exit s = (let s1 = s\<lparr>loop_flag := False\<rparr> in if trace_fd s1 \<ge> 0 then s1\<lparr>trace_fd := - 1\<rparr> else s1)"

text \<open>\<open>handle_event\<close>: the callback is called if there is one and the size is at least \<open>sizeof(BpfData)\<close>.\<close>

definition nf_handle_event :: "nat \<Rightarrow> ('d \<Rightarrow> 'o) option \<Rightarrow> 'd \<Rightarrow> nat \<Rightarrow> 'o option" where
  "nf_handle_event bpf_data_sz log_cb d data_sz =
     (if data_sz < bpf_data_sz then None else map_option (\<lambda>f. f d) log_cb)"

section \<open>Resources\<close>

datatype nf_res = Obj | Rb | KLink nat | Fd nat

text \<open>The steps of \<open>init\<close> that can fail: a test, or the acquisition of something; \<open>lsm\<close> is false on LoongArch.\<close>

datatype nf_step = Check string | Get nf_res

definition init_steps :: "bool \<Rightarrow> nf_step list" where
  "init_steps lsm =
     [Check ''getuid'', Get Obj, Check ''load'', Check ''rules'', Check ''logs'', Check ''configs'', Get Rb,
      Get (KLink 0), Get (KLink 1), Get (KLink 2), Get (KLink 3), Get (KLink 4),
      Check ''netfilter_hook'', Get (Fd 0), Get (Fd 1), Get (Fd 2), Get (Fd 3)]
     @ (if lsm then [Check ''lsm_socket_sendmsg'', Get (Fd 4), Check ''lsm_socket_recvmsg'', Get (Fd 5)]
        else [Get (KLink 5), Get (KLink 6)])"

record nf_held =
  h_obj :: bool
  h_rb :: bool
  h_links :: "nat list"
  h_fds :: "nat list"

definition no_held :: nf_held where
  "no_held = \<lparr>h_obj = False, h_rb = False, h_links = [], h_fds = []\<rparr>"

fun nf_hold :: "nf_res \<Rightarrow> nf_held \<Rightarrow> nf_held" where
  "nf_hold Obj h = h\<lparr>h_obj := True\<rparr>"
| "nf_hold Rb h = h\<lparr>h_rb := True\<rparr>"
| "nf_hold (KLink i) h = h\<lparr>h_links := h_links h @ [i]\<rparr>"
| "nf_hold (Fd i) h = h\<lparr>h_fds := h_fds h @ [i]\<rparr>"

fun run_init :: "(nf_step \<Rightarrow> bool) \<Rightarrow> nf_step list \<Rightarrow> nf_held \<times> nf_res res_event list \<Rightarrow> bool \<times> nf_held \<times> nf_res res_event list" where
  "run_init ok [] st = (True, st)"
| "run_init ok (p # ps) (h, tr) =
     (if \<not> ok p then (False, (h, tr))
      else case p of Check w \<Rightarrow> run_init ok ps (h, tr) | Get x \<Rightarrow> run_init ok ps (nf_hold x h, tr @ [Acq x]))"

text \<open>\<open>deinit\<close>: the lists are emptied, the two pointers are not reset.\<close>

definition deinit :: "nf_held \<times> nf_res res_event list \<Rightarrow> nf_held \<times> nf_res res_event list" where
  "deinit st = (case st of (h, tr) \<Rightarrow>
     (h\<lparr>h_links := [], h_fds := []\<rparr>,
      tr @ map (\<lambda>i. Rel (Fd i)) (h_fds h) @ map (\<lambda>i. Rel (KLink i)) (h_links h)
         @ (if h_rb h then [Rel Rb] else []) @ (if h_obj h then [Rel Obj] else [])))"

definition nf_init :: "bool \<Rightarrow> (nf_step \<Rightarrow> bool) \<Rightarrow> int \<times> nf_held \<times> nf_res res_event list" where
  "nf_init lsm ok =
     (case run_init ok (init_steps lsm) (no_held, []) of (True, st) \<Rightarrow> (0, st) | (False, st) \<Rightarrow> (- 1, deinit st))"

section \<open>Printing and the main program\<close>

text \<open>\<open>proto_str\<close>; another value ends the program.\<close>

definition proto_str :: "u8 \<Rightarrow> string outcome" where
  "proto_str p =
     (if p = 17 then Done ''udp'' else if p = 6 then Done ''tcp''
      else if p = IPPROTO_ICMP \<or> p = IPPROTO_ICMPV6 then Done ''icmp'' else Aborted)"

definition dir_str :: "nf_consts \<Rightarrow> int \<Rightarrow> string outcome" where
  "dir_str k d =
     (if d = PKG_DIR_IN k then Done ''in'' else if d = PKG_DIR_OUT k then Done ''out''
      else if d = PKG_DIR_ANY k then Done ''any'' else Aborted)"

text \<open>\<open>print_rule\<close>: the lines, without the time that each begins with; \<open>ip\<close> prints an address.\<close>

definition print_rule :: "nf_consts \<Rightarrow> (naddr \<Rightarrow> string) \<Rightarrow> nf_rule \<Rightarrow> string list outcome" where
  "print_rule k ip r =
     (let ends = (\<lambda>tag a b p q. tag @ ip a @ ''-'' @ ip b @ '' : '' @ show_nat (unat p) @ ''-'' @ show_nat (unat q));
          act = (if raction r AND NM_DROP k \<noteq> 0 then ''drop,'' else []) @ (if raction r AND NM_LOG k \<noteq> 0 then ''log,'' else [])
      in bind_outcome (dir_str k (pkg_dir r)) (\<lambda>d. bind_outcome (proto_str (tl_proto r)) (\<lambda>p. Done
         [''============== rule =============='',
          ends ''src: '' (sip r) (sip_end r) (sport r) (sport_end r),
          (if ip_proto r = 4 then ends ''dst: '' (dip r) (dip_end r) (dport r) (dport_end r)
           else ends ''dst: '' (dip r) (dip_end r) (sport r) (sport_end r)),
          ''pkg_dir: '' @ d, ''proto: '' @ p, ''comm: '' @ rcomm r, ''action: '' @ butlast act])))"

record ip_tuple =
  t_ip_proto :: u8
  t_tl_proto :: u8
  t_sip :: naddr
  t_dip :: naddr
  t_sport :: u16
  t_dport :: u16
  t_comm :: string
  t_pkg_dir :: int

record nf_data =
  d_tuple :: ip_tuple
  d_timestamp :: u64
  d_pid :: int
  d_data_len :: int

text \<open>\<open>log_printer\<close>: for an incoming packet both ends are exchanged.\<close>

definition log_printer :: "nf_consts \<Rightarrow> (naddr \<Rightarrow> string) \<Rightarrow> nf_data \<Rightarrow> string outcome" where
  "log_printer k ip d =
     (let t = d_tuple d; inc = (t_pkg_dir t = PKG_DIR_IN k);
          t' = (if inc then t\<lparr>t_sport := t_dport t, t_dport := t_sport t, t_sip := t_dip t, t_dip := t_sip t\<rparr> else t)
      in bind_outcome (proto_str (t_tl_proto t')) (\<lambda>p. Done
         (show_nat (unat (d_timestamp d)) @ '' ('' @ t_comm t' @ '':'' @ show_int (d_pid d) @ '') '' @ p @ '' ''
          @ ip (t_sip t') @ '':'' @ show_nat (unat (t_sport t')) @ (if inc then '' <- '' else '' -> '')
          @ ip (t_dip t') @ '':'' @ show_nat (unat (t_dport t')) @ '' sz('' @ show_int (d_data_len d) @ '')'')))"

definition nf_lopts :: "(char \<times> has_arg) list" where
  "nf_lopts = [(CHR ''p'', required_argument), (CHR ''h'', no_argument), (CHR ''d'', optional_argument)]"

record nf_opts =
  poli_path :: string
  bpf_path :: string
  dbg_lvl :: int

text \<open>\<open>parse_args\<close>: the argument of \<open>-d\<close> is optional; \<open>debug_none\<close> is \<open>DEBUG_NONE\<close>.\<close>

definition nf_case :: "int \<Rightarrow> char \<Rightarrow> string option \<Rightarrow> nf_opts \<Rightarrow> int + nf_opts" where
  "nf_case debug_none opt optarg c =
     (if opt = CHR ''b'' then Inr (c\<lparr>bpf_path := (case optarg of Some a \<Rightarrow> a | None \<Rightarrow> [])\<rparr>)
      else if opt = CHR ''p'' then Inr (c\<lparr>poli_path := (case optarg of Some a \<Rightarrow> a | None \<Rightarrow> [])\<rparr>)
      else if opt = CHR ''h'' then Inl 0
      else if opt = CHR ''d'' then
        Inr (c\<lparr>dbg_lvl := (case optarg of None \<Rightarrow> debug_none | Some a \<Rightarrow> (case strtol10 a of (v, r, erange) \<Rightarrow> to_int32 v))\<rparr>)
      else Inl (- 1))"

fun nf_parse_args :: "int \<Rightarrow> (char \<times> string option) list \<Rightarrow> nf_opts \<Rightarrow> int + nf_opts" where
  "nf_parse_args debug_none [] c = Inr c"
| "nf_parse_args debug_none ((opt, optarg) # os) c =
     (case nf_case debug_none opt optarg c of Inl x \<Rightarrow> Inl x | Inr c' \<Rightarrow> nf_parse_args debug_none os c')"

text \<open>
  \<open>check_bpf_env\<close> over the lines of \<open>mountinfo\<close>: the fifth and the ninth word of the line of the security
  file system, then whether the list of modules names \<open>bpf\<close>. \<open>rd\<close> reads a file.
\<close>

fun securityfs_mount :: "string list \<Rightarrow> string" where
  "securityfs_mount [] = []"
| "securityfs_mount (l # ls) =
     (let w = length l + 1; fs = scan_fields [w, w, w, w, 4096, w, w, w, 16] l
      in if length fs = 9 \<and> fs ! 8 = ''securityfs'' then fs ! 4 @ ''/lsm'' else securityfs_mount ls)"

definition check_bpf_env :: "string list option \<Rightarrow> (string \<Rightarrow> string option) \<Rightarrow> bool" where
  "check_bpf_env mountinfo rd =
     (case mountinfo of
        None \<Rightarrow> False
      | Some ls \<Rightarrow> (case rd (securityfs_mount ls) of None \<Rightarrow> False | Some text \<Rightarrow> has_sub ''bpf'' (take 4095 text)))"

text \<open>
  \<open>main\<close> from the start of the filter on: the one rule it sets, the listing, the loop and the clearing. The
  result is the status, what was printed about the rules, the final state and the resources.
\<close>

definition nf_main_rule :: string where
  "nf_main_rule = ''ipv4 0.0.0.0 0.0.0.0 0 0 tcp log''"

record nf_env =
  ne_lsm :: bool
  ne_ok :: "nf_step \<Rightarrow> bool"
  ne_junk :: bool
  ne_room :: bool
  ne_conf_upd :: bool
  ne_ip :: "naddr \<Rightarrow> string"

definition nf_main :: "nf_consts \<Rightarrow> nf_env \<Rightarrow> nf_opts \<Rightarrow> netfilter
    \<Rightarrow> (int \<times> (u32 \<rightharpoonup> nf_rule) option \<times> netfilter \<times> nf_res res_event list) outcome" where
  "nf_main k e c s =
     (case nf_init (ne_lsm e) (ne_ok e) of (ret, st) \<Rightarrow>
        if ret \<noteq> 0 then Done (- 1, None, s, snd st)
        else bind_outcome (parse_rule k (ne_junk e) nf_main_rule) (\<lambda>x.
          case x of
            None \<Rightarrow> Done (- 1, None, s, snd st)
          | Some r \<Rightarrow>
              (case add_rule (ne_room e) 0 r s of (key, s1) \<Rightarrow>
                let shown = dump_rules (length (nf_map s1) + 1) s1;
                    s2 = clear_rules (set_bpf_debug (ne_conf_upd e) (dbg_lvl c) s1)
                in Done (0, shown, s2, snd (deinit st)))))"

section \<open>Clearing and listing\<close>

text \<open>Once the current key is not in the map, the loop goes on from the first entry and removes all.\<close>

lemma clear_from_absent: "key \<notin> fst ` set m \<Longrightarrow> clear_from key m = []"
proof (induction "length m" arbitrary: key m rule: less_induct)
  case less
  show ?case
  proof (cases m)
    case Nil
    then show ?thesis by (simp add: clear_from.simps next_key_def)
  next
    case (Cons e es)
    have nxt: "next_key (map fst m) key = Some (fst e)" using less.prems Cons by (simp add: next_key_absent)
    have "length (delete_key (fst e) m) < length m" using Cons by (intro delete_key_shorter) simp
    moreover have "fst e \<notin> fst ` set (delete_key (fst e) m)" by (auto simp: delete_key_def)
    ultimately have "clear_from (fst e) (delete_key (fst e) m) = []" using less.hyps by blast
    with nxt show ?thesis by (simp add: clear_from.simps [of key])
  qed
qed

lemma clear_from_zero:
  assumes "distinct (map fst m)"
  shows "clear_from 0 m = (if m \<noteq> [] \<and> fst (last m) = 0 then m else [])"
proof (cases "0 \<in> fst ` set m")
  case False
  then have "\<not> (m \<noteq> [] \<and> fst (last m) = 0)" by (metis image_iff last_in_set)
  then show ?thesis using clear_from_absent [OF False] by auto
next
  case True
  then have ne: "m \<noteq> []" by auto
  have in_keys: "0 \<in> set (map fst m)" using True by simp
  show ?thesis
  proof (cases "fst (last m) = 0")
    case True
    then have "after 0 (map fst m) = []" using after_nonempty [OF in_keys assms] ne by (simp add: last_map)
    then have "next_key (map fst m) 0 = None" using in_keys by (simp add: next_key_def)
    then show ?thesis using True ne by (simp add: clear_from.simps)
  next
    case False
    then obtain x xs where x: "after 0 (map fst m) = x # xs"
      using after_nonempty [OF in_keys assms] ne by (cases "after 0 (map fst m)") (auto simp: last_map)
    then have nxt: "next_key (map fst m) 0 = Some x" using in_keys by (simp add: next_key_def)
    have "x \<notin> fst ` set (delete_key x m)" by (auto simp: delete_key_def)
    then have "clear_from x (delete_key x m) = []" by (rule clear_from_absent)
    then show ?thesis using False nxt by (simp add: clear_from.simps [of 0])
  qed
qed

lemma dump_from_split:
  assumes "distinct (map fst m)" "m = pre @ (key, r) # post" "length post < n"
  shows "dump_from n key m = Some post"
  using assms(2,3)
proof (induction post arbitrary: pre key r n)
  case Nil
  then obtain n' where n: "n = Suc n'" by (cases n) auto
  have "key \<notin> set (map fst pre)" using assms(1) Nil by auto
  then have "next_key (map fst m) key = None" using Nil after_split [of key "map fst pre" "[]"] by (simp add: next_key_def)
  then show ?case by (simp add: n)
next
  case (Cons e post)
  obtain k r' where e: "e = (k, r')" by (cases e)
  obtain n' where n: "n = Suc n'" "length post < n'" using Cons.prems(2) by (cases n) auto
  have "key \<notin> set (map fst pre)" using assms(1) Cons.prems(1) by auto
  then have nxt: "next_key (map fst m) key = Some k"
    using Cons.prems(1) e after_split [of key "map fst pre" "k # map fst post"] by (simp add: next_key_def)
  have "m = (pre @ [(key, r)]) @ (k, r') # post" using Cons.prems(1) e by simp
  then have "dump_from n' k m = Some post" using Cons.IH n(2) by blast
  moreover have "map_of m k = Some r'" using assms(1) Cons.prems(1) e by (intro map_of_is_SomeI) auto
  ultimately show ?case using nxt n(1) e by simp
qed

lemma dump_from_zero:
  assumes "distinct (map fst m)"
  shows "dump_from (length m + 1) 0 m = Some (if 0 \<in> fst ` set m then tl (dropWhile (\<lambda>(k, r). k \<noteq> 0) m) else m)"
proof (cases "0 \<in> fst ` set m")
  case True
  then have e0: "\<exists>e \<in> set m. fst e = 0" by force
  define pre where "pre = takeWhile (\<lambda>(k, r). k \<noteq> 0) m"
  have "dropWhile (\<lambda>(k, r). k \<noteq> 0) m \<noteq> []" using e0 by (auto simp: dropWhile_eq_Nil_conv)
  then obtain e post where d: "dropWhile (\<lambda>(k, r). k \<noteq> 0) m = e # post" by (meson list.exhaust)
  have "fst e = 0" using hd_dropWhile [of "\<lambda>(k, r). k \<noteq> 0" m] d by (cases e) auto
  then obtain r where "e = (0, r)" by (cases e) auto
  then have m: "m = pre @ (0, r) # post" using takeWhile_dropWhile_id [of "\<lambda>(k, r). k \<noteq> 0" m] d by (simp add: pre_def)
  then have "length post < length m + 1" by simp
  from dump_from_split [OF assms m this] show ?thesis using True d by simp
next
  case False
  show ?thesis
  proof (cases m)
    case Nil
    then show ?thesis by (simp add: next_key_def)
  next
    case (Cons e es)
    obtain k r where e: "e = (k, r)" by (cases e)
    have "next_key (map fst m) 0 = Some k" using False Cons e by (simp add: next_key_absent)
    moreover have "dump_from (length m) k m = Some es" 
      using dump_from_split [OF assms, of "[]" k r es "length m"] Cons e by (simp del: dump_from.simps)
    moreover have "map_of m k = Some r" using Cons e by simp
    ultimately show ?thesis using False Cons e by simp
  qed
qed

section \<open>Properties\<close>

text \<open>C21: What clearing and listing the rules do, exactly: both start behind key 0. Clearing removes every
  rule, unless rule 0 comes last in the order of the map, when it removes none; listing shows every rule
  if there is no rule 0, and otherwise only those that come after it. Both loops end.\<close>

theorem clear_and_dump_exact:
  assumes "distinct (map fst (nf_map s))"
  shows "nf_map (clear_rules s) = (if nf_map s \<noteq> [] \<and> fst (last (nf_map s)) = 0 then nf_map s else [])
    \<and> dump_rules (length (nf_map s) + 1) s
      = Some (map_of (if 0 \<in> fst ` set (nf_map s) then tl (dropWhile (\<lambda>(k, r). k \<noteq> 0) (nf_map s)) else nf_map s))"
  using clear_from_zero [OF assms] dump_from_zero [OF assms] by (simp add: clear_rules_def dump_rules_def)

definition nf_start :: "u32 \<Rightarrow> netfilter" where
  "nf_start first = \<lparr>nf_map = [], key_cnt = first, conf_enable = True, conf_debug = 0, conf_map = None, loop_flag = False, trace_fd = - 1\<rparr>"

theorem clear_and_dump_exact_witness:
  "nf_map (clear_rules (snd (add_rule True 0 ex_nf_rule (nf_start 1)))) = []"
  using clear_and_dump_exact [of "snd (add_rule True 0 ex_nf_rule (nf_start 1))"] by (simp add: add_rule_def nf_start_def)

text \<open>If keys start at zero, the only rule of \<open>main\<close> is neither shown nor removed.\<close>

lemma first_rule_zero_stays:
  assumes "s = snd (add_rule True 0 r (nf_start 0))"
  shows "dump_rules 2 s = Some Map.empty" "clear_rules s = s"
  using clear_from_zero [of "nf_map s"] dump_from_zero [of "nf_map s"] assms
  by (simp_all add: add_rule_def nf_start_def clear_rules_def dump_rules_def numeral_2_eq_2)

text \<open>The keys in use are distinct and below the counter.\<close>

definition nf_inv :: "netfilter \<Rightarrow> bool" where
  "nf_inv s \<longleftrightarrow> distinct (map fst (nf_map s)) \<and> (\<forall>k \<in> fst ` set (nf_map s). k < key_cnt s)"

lemma add_rule_inv:
  assumes "nf_inv s" "unat (key_cnt s) + 1 < 2 ^ 32" "add_rule room pos r s = (key, s')"
  shows "nf_inv s'"
proof (cases "key_cnt s \<in> fst ` set (nf_map s) \<or> \<not> room")
  case True
  then show ?thesis using assms by (simp add: add_rule_def)
next
  case False
  then have s': "s' = s\<lparr>nf_map := take pos (nf_map s) @ (key_cnt s, r) # drop pos (nf_map s), key_cnt := key_cnt s + 1\<rparr>"
    using assms(3) by (simp add: add_rule_def)
  have lt: "key_cnt s < key_cnt s + 1" using assms(2) by (simp add: word_less_nat_alt unat_word_ariths)
  have "distinct (map fst (take pos (nf_map s)) @ map fst (drop pos (nf_map s)))"
    using assms(1) unfolding nf_inv_def by (metis append_take_drop_id map_append)
  moreover have keys: "fst ` set (take pos (nf_map s)) \<union> fst ` set (drop pos (nf_map s)) = fst ` set (nf_map s)"
    by (metis append_take_drop_id image_Un set_append)
  moreover have "\<forall>k \<in> fst ` set (nf_map s'). k < key_cnt s'"
  proof
    fix k assume "k \<in> fst ` set (nf_map s')"
    then have "k = key_cnt s \<or> k \<in> fst ` set (nf_map s)" using keys unfolding s' by auto
    then show "k < key_cnt s'" using assms(1) lt unfolding nf_inv_def s' by (auto intro: less_trans)
  qed
  ultimately show ?thesis using False unfolding nf_inv_def s' by auto
qed

lemma del_rule_inv: "nf_inv s \<Longrightarrow> nf_inv (del_rule k s)"
  by (auto simp: nf_inv_def del_rule_def delete_key_keys) (auto simp: delete_key_def)

text \<open>\<open>update_rule\<close> never updates anything: whichever rule it is given, it tries the key that the next new
  rule will get, which is never in the map, and returns -1.\<close>

theorem update_rule_never:
  assumes "nf_inv s"
  shows "update_rule key r s = (- 1, s)"
  using assms by (auto simp: nf_inv_def update_rule_def)

theorem update_rule_never_witness:
  "update_rule 1 ex_nf_rule (snd (add_rule True 0 ex_nf_rule (nf_start 1))) = (- 1, snd (add_rule True 0 ex_nf_rule (nf_start 1)))"
  by (rule update_rule_never) (simp add: nf_inv_def add_rule_def nf_start_def)

text \<open>Enabling changes the debug level and leaves the switch as it was.\<close>

lemma enable_sets_debug: "conf_enable (enable upd b s) = conf_enable s" "conf_debug (enable upd b s) = (if b then 1 else 0)"
  by (simp_all add: enable_def Let_def)

section \<open>Acquisition and release\<close>

definition held_of :: "nf_held \<Rightarrow> nf_res \<Rightarrow> int" where
  "held_of h x = (case x of Obj \<Rightarrow> if h_obj h then 1 else 0 | Rb \<Rightarrow> if h_rb h then 1 else 0
     | KLink i \<Rightarrow> int (count_list (h_links h) i) | Fd i \<Rightarrow> int (count_list (h_fds h) i))"

lemma balance_tagged:
  "balance (Fd i) (map (\<lambda>i. Rel (Fd i)) xs) = - int (count_list xs i)" "balance (KLink i) (map (\<lambda>i. Rel (KLink i)) xs) = - int (count_list xs i)"
  "balance (KLink i) (map (\<lambda>i. Rel (Fd i)) xs) = 0" "balance (Fd i) (map (\<lambda>i. Rel (KLink i)) xs) = 0"
  "balance Obj (map (\<lambda>i. Rel (Fd i)) xs) = 0" "balance Obj (map (\<lambda>i. Rel (KLink i)) xs) = 0"
  "balance Rb (map (\<lambda>i. Rel (Fd i)) xs) = 0" "balance Rb (map (\<lambda>i. Rel (KLink i)) xs) = 0"
  by (induction xs) simp_all

lemma deinit_balance: "balance x (snd (deinit (h, tr))) = balance x tr - held_of h x"
  by (cases x) (simp_all add: deinit_def held_of_def balance_tagged)

lemma hold_balance: "(x = Obj \<longrightarrow> \<not> h_obj h) \<Longrightarrow> (x = Rb \<longrightarrow> \<not> h_rb h) \<Longrightarrow> held_of (nf_hold x h) y = held_of h y + (if x = y then 1 else 0)"
  by (cases x; cases y) (auto simp: held_of_def)

text \<open>The object and the ring buffer are acquired once each.\<close>

definition once :: "nf_step list \<Rightarrow> nf_held \<Rightarrow> bool" where
  "once ps h \<longleftrightarrow> count_list ps (Get Obj) + (if h_obj h then 1 else 0) \<le> 1 \<and> count_list ps (Get Rb) + (if h_rb h then 1 else 0) \<le> 1"

lemma hold_flags: "h_obj (nf_hold x h) = (h_obj h \<or> x = Obj)" "h_rb (nf_hold x h) = (h_rb h \<or> x = Rb)"
  by (cases x; simp)+

lemma run_init_balance:
  "run_init ok ps (h, tr) = (b, (h', tr')) \<Longrightarrow> once ps h \<Longrightarrow> balance x tr' - held_of h' x = balance x tr - held_of h x"
proof (induction ps arbitrary: h tr)
  case Nil
  then show ?case by simp
next
  case (Cons p ps)
  show ?case
  proof (cases "ok p")
    case False
    then show ?thesis using Cons.prems by simp
  next
    case True
    show ?thesis
    proof (cases p)
      case (Check w)
      then show ?thesis using Cons True by (simp add: once_def)
    next
      case (Get y)
      have fresh: "y = Obj \<longrightarrow> \<not> h_obj h" "y = Rb \<longrightarrow> \<not> h_rb h" using Cons.prems(2) Get by (auto simp: once_def split: if_splits)
      have "once ps (nf_hold y h)" using Cons.prems(2) Get by (auto simp: once_def hold_flags split: if_splits)
      from Cons.IH [OF _ this] Cons.prems(1) True Get hold_balance [OF fresh, of x] show ?thesis by simp
    qed
  qed
qed

lemma init_releases:
  assumes "nf_init lsm ok = (ret, h, tr)"
  shows "ret = (if list_all ok (init_steps lsm) then 0 else - 1)
    \<and> (ret = 0 \<longrightarrow> balance x (snd (deinit (h, tr))) = 0) \<and> (ret \<noteq> 0 \<longrightarrow> balance x tr = 0)"
proof -
  obtain b h1 tr1 where r: "run_init ok (init_steps lsm) (no_held, []) = (b, (h1, tr1))" by (metis prod.exhaust)
  have "once (init_steps lsm) no_held" by (simp add: once_def init_steps_def no_held_def)
  then have bal: "balance x tr1 - held_of h1 x = 0"
    using run_init_balance [OF r, of x] by (simp add: held_of_def no_held_def split: nf_res.split)
  have "run_init ok ps st = (b, st') \<Longrightarrow> b \<longleftrightarrow> list_all ok ps" for ps st b st'
  proof (induction ps arbitrary: st)
    case (Cons p ps)
    then show ?case by (cases st; cases p) (auto split: if_splits)
  qed simp
  from this [OF r] have b: "b \<longleftrightarrow> list_all ok (init_steps lsm)" .
  obtain h2 tr2 where d: "deinit (h1, tr1) = (h2, tr2)" by fastforce
  have "balance x tr2 = 0" using deinit_balance [of x h1 tr1] bal d by simp
  then show ?thesis using assms r b d by (auto simp: nf_init_def split: bool.splits)
qed

text \<open>Starting the filter is all or nothing: if any of its steps fails, everything acquired before it is
  given back and -1 is returned; if none fails, stopping it gives everything back.\<close>

theorem nf_init_all_or_nothing:
  assumes "nf_init lsm ok = (ret, h, tr)"
  shows "ret = (if list_all ok (init_steps lsm) then 0 else - 1)
    \<and> (ret = 0 \<longrightarrow> balance x (snd (deinit (h, tr))) = 0) \<and> (ret \<noteq> 0 \<longrightarrow> balance x tr = 0)"
  using assms by (rule init_releases)

text \<open>Stopping it twice frees the object and the ring buffer twice.\<close>

lemma deinit_twice: "h_obj h \<Longrightarrow> balance Obj (snd (deinit (deinit (h, tr)))) = balance Obj tr - 2"
  by (simp add: deinit_def balance_tagged)

theorem nf_init_all_or_nothing_witness:
  "\<exists>h tr. nf_init True (\<lambda>p. p \<noteq> Get (Fd 2)) = (- 1, h, tr) \<and> balance (KLink 3) tr = 0"
proof -
  obtain ret h tr where i: "nf_init True (\<lambda>p. p \<noteq> Get (Fd 2)) = (ret, h, tr)" by (metis prod.exhaust)
  have "\<not> list_all (\<lambda>p. p \<noteq> Get (Fd 2)) (init_steps True)" by (simp add: init_steps_def)
  with nf_init_all_or_nothing [OF i, of "KLink 3"] i show ?thesis by auto
qed

section \<open>Printing accepted rules\<close>

text \<open>The branches of \<open>print_rule\<close> and \<open>proto_str\<close> that call \<open>abort\<close> are dead for every rule that the parser
  accepts.\<close>

theorem print_accepted_rule:
  assumes "parse_rule k junk line = Done (Some r)"
  shows "\<exists>ls. print_rule k ip r = Done ls \<and> length ls = 7"
proof -
  have ok: "nf_rule_ok k r" by (rule rule_parsed_ok [OF assms])
  have "\<exists>d. dir_str k (pkg_dir r) = Done d" using ok by (auto simp: nf_rule_ok_def dir_str_def)
  moreover have "\<exists>p. proto_str (tl_proto r) = Done p" using ok by (auto simp: nf_rule_ok_def proto_str_def)
  ultimately show ?thesis by (auto simp: print_rule_def Let_def)
qed

theorem print_accepted_rule_witness:
  "\<exists>ls. print_rule ex_consts (\<lambda>_. ''a'') ex_nf_rule = Done ls \<and> length ls = 7"
proof (rule print_accepted_rule)
  show "parse_rule ex_consts False (spaced_words (rule_words ex_consts ex_nf_rule 167772161 167772415 0 4294967295 True True)) = Done (Some ex_nf_rule)"
    by (rule parse_rule_written) (simp_all add: nf_rule_ok_def ex_nf_rule_def ex_consts_def is_word_def is_space_def)
qed

text \<open>The destination of an IPv6 rule is printed with the ports of the source.\<close>

lemma print_rule_v6_ports:
  assumes "ip_proto r \<noteq> 4" "print_rule k ip r = Done ls"
  shows "ls ! 2 = ''dst: '' @ ip (dip r) @ ''-'' @ ip (dip_end r) @ '' : '' @ show_nat (unat (sport r)) @ ''-'' @ show_nat (unat (sport_end r))"
  using assms by (auto simp: print_rule_def Let_def bind_outcome_Done_iff)

text \<open>\<open>main\<close> gives everything back, unless its own rule cannot be read.\<close>

lemma nf_main_releases:
  assumes "nf_main k e c s = Done (status, shown, s', tr)" "parse_rule k (ne_junk e) nf_main_rule \<noteq> Done None"
  shows "balance x tr = 0"
proof -
  obtain ret h tr0 where i: "nf_init (ne_lsm e) (ne_ok e) = (ret, h, tr0)" by (metis prod.exhaust)
  note bal = init_releases [OF i, of x]
  show ?thesis
  proof (cases "ret = 0")
    case False
    then show ?thesis using assms(1) i bal by (auto simp: nf_main_def)
  next
    case True
    then obtain r where "parse_rule k (ne_junk e) nf_main_rule = Done (Some r)"
      using assms i by (auto simp: nf_main_def bind_outcome_Done_iff split: option.splits)
    then show ?thesis using True assms(1) i bal by (auto simp: nf_main_def Let_def split: prod.splits)
  qed
qed

end
