(* ===== verification/Tc_Ip.thy ===== *)
theory Tc_Ip
  imports Tc_Common
begin

text \<open>
  \<open>filter/tc-ip.cpp\<close>: one rule on an address, a port and a protocol, read from the command line, put
  into the map \<open>traffic_rules\<close> and enforced by a program on two netfilter hooks. The options that
  \<open>getopt_long\<close> yields, the results of libbpf and of the system calls are parameters.
\<close>

section \<open>Rules and events\<close>

abbreviation EGRESS :: u8 where "EGRESS \<equiv> 1"
abbreviation INGRESS :: u8 where "INGRESS \<equiv> 0"
abbreviation RULE_TYPE_RATE_LIMIT :: u8 where "RULE_TYPE_RATE_LIMIT \<equiv> 0"
abbreviation RULE_TYPE_DROP :: u8 where "RULE_TYPE_DROP \<equiv> 1"
abbreviation RULE_TYPE_LOG :: u8 where "RULE_TYPE_LOG \<equiv> 2"
abbreviation IPPROTO_TCP :: u8 where "IPPROTO_TCP \<equiv> 6"
abbreviation IPPROTO_UDP :: u8 where "IPPROTO_UDP \<equiv> 17"

record ip_rule =
  target_ip :: u32
  target_port :: u16
  target_protocol :: u8
  rate_bps :: u64
  gress :: u8
  time_scale :: u32
  match_mask :: u32
  rule_type :: u8

definition ip_rule_zero :: ip_rule where
  "ip_rule_zero = \<lparr>target_ip = 0, target_port = 0, target_protocol = 0, rate_bps = 0, gress = 0,
     time_scale = 0, match_mask = 0, rule_type = 0\<rparr>"

record ip_event =
  sip :: u32
  dip :: u32
  sport :: u32
  dport :: u32
  protocol :: u32
  action :: u32
  bytes_sent :: u32
  bytes_dropped :: u32
  packets_sent :: u32
  packets_dropped :: u32
  timestamp :: u64
  event_type :: u8

section \<open>Options\<close>

definition parse_ip_address :: "string \<Rightarrow> u32 option" where
  "parse_ip_address str =
     (if length str = 0 then None
      else if length str > 15 then None
      else map_option ip_of_octets (inet_pton4 str))"

definition format_ip :: "u32 \<Rightarrow> string" where
  "format_ip ip = inet_ntoa ip"

definition parse_protocol :: "string \<Rightarrow> u8 option" where
  "parse_protocol str =
     (if length str = 0 then None
      else if eq_nocase str ''tcp'' then Some IPPROTO_TCP
      else if eq_nocase str ''udp'' then Some IPPROTO_UDP
      else if eq_nocase str ''any'' \<or> eq_nocase str ''*'' then Some 0
      else case nonempty_to_unsigned 255 str 0 of (ok, v) \<Rightarrow> if ok then Some (ucast v) else None)"

definition ip_opt_ip :: "string \<Rightarrow> ip_rule \<Rightarrow> int + ip_rule" where
  "ip_opt_ip optarg r =
     (if eq_nocase optarg ''any'' \<or> eq_nocase optarg ''*'' then Inr (r\<lparr>target_ip := 0\<rparr>)
      else case parse_ip_address optarg of None \<Rightarrow> Inl (- 1) | Some ip \<Rightarrow> Inr (r\<lparr>target_ip := ip\<rparr>))"

definition ip_opt_port :: "string \<Rightarrow> ip_rule \<Rightarrow> int + ip_rule" where
  "ip_opt_port optarg r =
     (if eq_nocase optarg ''any'' \<or> eq_nocase optarg ''*'' then Inr (r\<lparr>target_port := 0\<rparr>)
      else opt_unsigned 65535 optarg (\<lambda>v. r\<lparr>target_port := ucast v\<rparr>))"

definition ip_opt_protocol :: "string \<Rightarrow> ip_rule \<Rightarrow> int + ip_rule" where
  "ip_opt_protocol optarg r =
     (case parse_protocol optarg of None \<Rightarrow> Inl (- 1) | Some p \<Rightarrow> Inr (r\<lparr>target_protocol := p\<rparr>))"

definition ip_opt_rate :: "string \<Rightarrow> ip_rule \<Rightarrow> int + ip_rule" where
  "ip_opt_rate optarg r =
     (let v = tc_parse_bandwidth (Some optarg) in if v = 0 then Inl (- 1) else Inr (r\<lparr>rate_bps := v\<rparr>))"

definition ip_case :: "char \<Rightarrow> string \<Rightarrow> ip_rule \<Rightarrow> int + ip_rule" where
  "ip_case opt optarg r =
     (if opt = CHR ''i'' then ip_opt_ip optarg r
      else if opt = CHR ''p'' then ip_opt_port optarg r
      else if opt = CHR ''P'' then ip_opt_protocol optarg r
      else if opt = CHR ''r'' then ip_opt_rate optarg r
      else if opt = CHR ''d'' then
        opt_choice [(''egress'', r\<lparr>gress := EGRESS\<rparr>), (''ingress'', r\<lparr>gress := INGRESS\<rparr>)] optarg
      else if opt = CHR ''t'' then opt_unsigned 3600 optarg (\<lambda>v. r\<lparr>time_scale := ucast v\<rparr>)
      else if opt = CHR ''T'' then
        opt_choice [(''rate'', r\<lparr>rule_type := RULE_TYPE_RATE_LIMIT\<rparr>), (''drop'', r\<lparr>rule_type := RULE_TYPE_DROP\<rparr>),
                    (''log'', r\<lparr>rule_type := RULE_TYPE_LOG\<rparr>)] optarg
      else if opt = CHR ''D'' then Inr (r\<lparr>rule_type := RULE_TYPE_DROP\<rparr>)
      else if opt = CHR ''L'' then Inr (r\<lparr>rule_type := RULE_TYPE_LOG\<rparr>)
      else if opt = CHR ''h'' then Inl 0
      else Inl (- 1))"

text \<open>After the loop: the mask of the fields that are set, the rate and the time scale.\<close>

definition ip_mask :: "ip_rule \<Rightarrow> u32" where
  "ip_mask r = (if target_ip r \<noteq> 0 then 1 else 0) OR (if target_port r \<noteq> 0 then 2 else 0)
     OR (if target_protocol r \<noteq> 0 then 4 else 0)"

definition ip_finish :: "ip_rule \<Rightarrow> int + ip_rule" where
  "ip_finish r =
     (let r1 = r\<lparr>match_mask := ip_mask r\<rparr>;
          r2 = (if rule_type r1 = 0 \<and> rate_bps r1 > 0 then r1\<lparr>rule_type := RULE_TYPE_RATE_LIMIT\<rparr> else r1)
      in if rule_type r2 = RULE_TYPE_RATE_LIMIT \<and> rate_bps r2 = 0 then Inl (- 1)
         else Inr (if time_scale r2 = 0 then r2\<lparr>time_scale := 1\<rparr> else r2))"

text \<open>What is printed about the rule; \<open>mb\<close> prints a number of bytes as megabytes with two decimals.\<close>

definition ip_summary :: "(u64 \<Rightarrow> string) \<Rightarrow> ip_rule \<Rightarrow> string list" where
  "ip_summary mb r =
     (if match_mask r = 0 then [''Global traffic control (all traffic)'']
      else [''Match criteria:'',
            ''  IP: '' @ (if target_ip r \<noteq> 0 then format_ip (target_ip r) else ''any''),
            ''  Port: '' @ (if target_port r \<noteq> 0 then show_nat (unat (target_port r)) else ''any'')]
           @ (if target_protocol r \<noteq> 0
              then (''  Protocol: '' @ show_nat (unat (target_protocol r)))
                # (if target_protocol r = IPPROTO_TCP then ['' (TCP)'']
                   else if target_protocol r = IPPROTO_UDP then ['' (UDP)''] else [])
              else [''  Protocol: any'']))
     @ [''Rule type: '']
     @ (if rule_type r = RULE_TYPE_RATE_LIMIT
        then ''Rate limiting'' # (if rate_bps r > 0 then ['' ('' @ show_nat (unat (rate_bps r)) @ '' B/s)''] else [])
        else if rule_type r = RULE_TYPE_DROP then [''Drop'']
        else if rule_type r = RULE_TYPE_LOG then [''Log'']
        else [''Unknown''])
     @ [''Match direction: '' @ (if gress r \<noteq> 0 then ''EGRESS (destination)'' else ''INGRESS (source)'')]
     @ (if rule_type r = RULE_TYPE_RATE_LIMIT
        then [''Time scale: '' @ show_nat (unat (time_scale r)) @ '' seconds (max bucket capacity: ''
               @ mb (rate_bps r * ucast (time_scale r)) @ '' MB)'']
        else [])"

definition ip_parse_args :: "(char \<times> string) list \<Rightarrow> ip_rule \<Rightarrow> int + ip_rule" where
  "ip_parse_args os r = (case opt_fold ip_case os r of Inl c \<Rightarrow> Inl c | Inr r' \<Rightarrow> ip_finish r')"

section \<open>Events\<close>

text \<open>
  \<open>handle_traffic_event\<close>: the line it prints, if the size is that of the structure, 56 bytes with
  its padding.
\<close>

definition ip_handle_event :: "ip_event \<Rightarrow> nat \<Rightarrow> string option" where
  "ip_handle_event e data_sz =
     (if data_sz \<noteq> 56 then None
      else let line = (\<lambda>tag bytes. ''Traffic: '' @ format_ip (sip e) @ '':'' @ show_int (sint (sport e)) @ '' -> ''
                 @ format_ip (dip e) @ '':'' @ show_int (sint (dport e)) @ '' ['' @ tag @ ''] ''
                 @ show_nat (unat bytes) @ '' bytes'')
           in Some (if event_type e = 0 then line ''PASS'' (bytes_sent e)
                    else if event_type e = 1 then line ''DROP'' (bytes_dropped e)
                    else if event_type e = 2 then line ''RATE_LIMIT_DROP'' (bytes_dropped e)
                    else if event_type e = 3 then line ''LOG'' (bytes_sent e)
                    else line ''UNKNOWN'' (bytes_sent e)))"

section \<open>The program\<close>

datatype ip_res = Context | Skel | Fd int | Ring

text \<open>What the outside answers: libbpf, \<open>malloc\<close> and the system calls.\<close>

record ip_env =
  ie_uid :: int
  ie_opts :: "(char \<times> string) list"
  ie_skel :: bool
  ie_ctx :: bool
  ie_map :: bool
  ie_update :: int
  ie_ingress :: int
  ie_egress :: int
  ie_rb :: bool
  ie_polls :: "int list"
  ie_file :: string

text \<open>
  The variables of the program; \<open>None\<close> for \<open>st_err\<close> means that \<open>err\<close> has not been assigned, and
  \<open>st_rules\<close> is the content of the map \<open>traffic_rules\<close>.
\<close>

record ip_state =
  st_err :: "int option"
  st_ingress :: int
  st_egress :: int
  st_rb :: bool
  st_skel :: bool
  st_rules :: "u32 \<rightharpoonup> ip_rule"
  st_log :: ErrorHandler
  st_trace :: "ip_res res_event list"

definition ip_log :: "ip_env \<Rightarrow> ErrorCode \<Rightarrow> string \<Rightarrow> ip_state \<Rightarrow> ip_state" where
  "ip_log e code msg s = s\<lparr>st_log := tc_log_error (ie_file e) 856 code msg (st_log s)\<rparr>"

definition traced :: "ip_res res_event \<Rightarrow> ip_state \<Rightarrow> ip_state" where
  "traced ev s = s\<lparr>st_trace := st_trace s @ [ev]\<rparr>"

definition setup_traffic_rules :: "ip_env \<Rightarrow> ip_rule \<Rightarrow> ip_state \<Rightarrow> bool \<times> ip_state" where
  "setup_traffic_rules e r s =
     (let ctx = safe_string_create (ie_ctx e) (Some ''setup_traffic_rules'') (Some ''traffic control configuration'')
      in if \<not> safe_string_is_valid ctx
         then (False, ip_log e MEMORY_ALLOCATION_FAILED ''Failed to create context string for traffic rules setup'' s)
         else
           let s1 = traced (Acq Context) s in
           if \<not> ie_map e
           then (False, traced (Rel Context) (ip_log e BPF_OPERATION_FAILED ''Cannot find traffic_rules map'' s1))
           else if ie_update e \<noteq> 0
           then (False, traced (Rel Context)
                   (ip_log e BPF_OPERATION_FAILED (''Failed to set traffic control rules: '' @ show_int (ie_update e)) s1))
           else (True, traced (Rel Context) (s1\<lparr>st_rules := (st_rules s1)(0 \<mapsto> r)\<rparr>)))"

text \<open>From the loading of the program to the label \<open>cleanup\<close>.\<close>

definition ip_watch :: "ip_env \<Rightarrow> ip_state \<Rightarrow> ip_state" where
  "ip_watch e s =
     (if \<not> ie_rb e
      then (ip_log e BPF_OPERATION_FAILED ''Failed to create ring buffer'' s)\<lparr>st_err := Some (- 1)\<rparr>
      else
        let err = poll_events (ie_polls e) (st_err s);
            s1 = (traced (Acq Ring) s)\<lparr>st_rb := True, st_err := err\<rparr>
        in case err of
             Some v \<Rightarrow> if v < 0 \<and> v \<noteq> - EINTR
                       then ip_log e BPF_OPERATION_FAILED (''Ring buffer polling error: '' @ show_int v) s1 else s1
           | None \<Rightarrow> s1)"

definition ip_attach :: "ip_env \<Rightarrow> ip_state \<Rightarrow> ip_state" where
  "ip_attach e s =
     (let s1 = s\<lparr>st_ingress := ie_ingress e\<rparr>
      in if ie_ingress e < 0 then ip_log e NETWORK_OPERATION_FAILED ''Failed to attach netfilter ingress program'' s1
         else
           let s2 = (traced (Acq (Fd (ie_ingress e))) s1)\<lparr>st_egress := ie_egress e\<rparr>
           in if ie_egress e < 0
              then traced (Rel (Fd (ie_ingress e)))
                     (ip_log e NETWORK_OPERATION_FAILED ''Failed to attach netfilter egress program'' s2)
              else ip_watch e (traced (Acq (Fd (ie_egress e))) s2))"

definition ip_run :: "ip_env \<Rightarrow> ip_rule \<Rightarrow> ip_state \<Rightarrow> ip_state" where
  "ip_run e r s =
     (if \<not> ie_skel e then ip_log e BPF_OPERATION_FAILED ''Failed to open and load BPF skeleton'' s
      else
        let s1 = (traced (Acq Skel) s)\<lparr>st_skel := True\<rparr>
        in case setup_traffic_rules e r s1 of
             (False, s2) \<Rightarrow> ip_log e TC_OPERATION_FAILED ''Failed to setup traffic control rules'' s2
           | (True, s2) \<Rightarrow> ip_attach e s2)"

definition ip_cleanup :: "ip_state \<Rightarrow> ip_state" where
  "ip_cleanup s =
     (let s1 = (if st_ingress s \<ge> 0 then traced (Rel (Fd (st_ingress s))) s else s);
          s2 = (if st_egress s1 \<ge> 0 then traced (Rel (Fd (st_egress s1))) s1 else s1);
          s3 = (if st_rb s2 then traced (Rel Ring) s2 else s2);
          s4 = (if st_skel s3 then traced (Rel Skel) s3 else s3)
      in s4)"

definition ip_start :: "ErrorHandler \<Rightarrow> (u32 \<rightharpoonup> ip_rule) \<Rightarrow> ip_state" where
  "ip_start h m = \<lparr>st_err = None, st_ingress = - 1, st_egress = - 1, st_rb = False, st_skel = False,
     st_rules = m, st_log = h\<lparr>error_count := 0\<rparr>, st_trace = []\<rparr>"

text \<open>
  \<open>main\<close>: \<open>Inl\<close> is a status of \<open>exit\<close> or an early return; \<open>Inr\<close> has the returned value, \<open>None\<close> when it
  depends on a variable without a value, and the final state.
\<close>

definition ip_main :: "ip_env \<Rightarrow> ErrorHandler \<Rightarrow> (u32 \<rightharpoonup> ip_rule) \<Rightarrow> int + int option \<times> ip_state" where
  "ip_main e h m =
     (if ie_uid e \<noteq> 0 then Inl 1
      else case ip_parse_args (ie_opts e) ip_rule_zero of
        Inl c \<Rightarrow> Inl c
      | Inr r \<Rightarrow>
          let s = ip_cleanup (ip_run e r (ip_start h m))
          in Inr (map_option (\<lambda>v. if v < 0 then 1 else 0) (st_err s), s))"

section \<open>Rules that the command line can describe\<close>

definition ip_rule_ok :: "ip_rule \<Rightarrow> bool" where
  "ip_rule_ok r \<longleftrightarrow> 1 \<le> time_scale r \<and> time_scale r \<le> 3600 \<and> gress r \<le> 1 \<and> rule_type r \<le> 2
     \<and> (rule_type r = RULE_TYPE_RATE_LIMIT \<longrightarrow> rate_bps r \<noteq> 0) \<and> match_mask r = ip_mask r"

definition ip_partial_ok :: "ip_rule \<Rightarrow> bool" where
  "ip_partial_ok r \<longleftrightarrow> time_scale r \<le> 3600 \<and> gress r \<le> 1 \<and> rule_type r \<le> 2"

lemma ip_opt_others:
  "ip_opt_ip a r = Inr r' \<Longrightarrow> ip_partial_ok r' = ip_partial_ok r"
  "ip_opt_port a r = Inr r' \<Longrightarrow> ip_partial_ok r' = ip_partial_ok r"
  "ip_opt_protocol a r = Inr r' \<Longrightarrow> ip_partial_ok r' = ip_partial_ok r"
  "ip_opt_rate a r = Inr r' \<Longrightarrow> ip_partial_ok r' = ip_partial_ok r"
  by (auto simp: ip_opt_ip_def ip_opt_port_def ip_opt_protocol_def ip_opt_rate_def Let_def ip_partial_ok_def
      split: if_splits option.splits dest!: opt_unsigned_stored)

interpretation ip_options: option_cases ip_case ip_partial_ok
proof
  fix r opt optarg r'
  assume ok: "ip_partial_ok r" and h: "ip_case opt optarg r = Inr r'"
  have range: "g \<le> 1 \<Longrightarrow> ip_partial_ok (r\<lparr>gress := g\<rparr>)" "t \<le> 2 \<Longrightarrow> ip_partial_ok (r\<lparr>rule_type := t\<rparr>)"
    "v \<le> 3600 \<Longrightarrow> ip_partial_ok (r\<lparr>time_scale := ucast v\<rparr>)" for g t and v :: u64
    using ok by (simp_all add: ip_partial_ok_def ucast_u64_le)
  from h show "ip_partial_ok r'"
    unfolding ip_case_def
    by (auto simp: range ok split: if_split_asm dest: ip_opt_others dest!: opt_unsigned_stored)
qed

lemma ip_mask_other [simp]:
  "ip_mask (r\<lparr>match_mask := x\<rparr>) = ip_mask r" "ip_mask (r\<lparr>time_scale := t\<rparr>) = ip_mask r"
  "ip_mask (r\<lparr>rule_type := y\<rparr>) = ip_mask r"
  by (simp_all add: ip_mask_def)

lemma ip_finish_ok:
  assumes "ip_partial_ok r" "ip_finish r = Inr r'"
  shows "ip_rule_ok r'"
proof -
  have "1 \<le> t" if "t \<noteq> 0" for t :: u32 using that by (simp add: word_le_nat_alt Suc_le_eq unat_gt_0)
  with assms show ?thesis
    by (auto simp: ip_finish_def ip_partial_ok_def ip_rule_ok_def Let_def split: if_split_asm)
qed

text \<open>Options that describe a rule.\<close>

definition ip_rule_opts :: "ip_rule \<Rightarrow> (char \<times> string) list" where
  "ip_rule_opts r =
     [(CHR ''i'', format_ip (target_ip r)), (CHR ''p'', show_nat (unat (target_port r))),
      (CHR ''P'', show_nat (unat (target_protocol r)))]
     @ (if rate_bps r = 0 then [] else [(CHR ''r'', show_nat (unat (rate_bps r)))])
     @ [(CHR ''d'', if gress r = EGRESS then ''egress'' else ''ingress''),
        (CHR ''t'', show_nat (unat (time_scale r))),
        (CHR ''T'', if rule_type r = RULE_TYPE_RATE_LIMIT then ''rate'' else if rule_type r = RULE_TYPE_DROP then ''drop'' else ''log'')]"

lemma parse_format_ip: "parse_ip_address (format_ip w) = Some w"
  using inet_ntoa_length [of w] by (simp add: parse_ip_address_def format_ip_def pton4_ntoa ip_of_octets_inverse inet_ntoa_not_Nil)

lemma is_digit_to_lower: "is_digit (to_lower c) = is_digit c"
  unfolding to_lower_def is_digit_def by auto

lemma number_not_word:
  assumes "s \<noteq> []" "is_digit (hd s)" "w \<noteq> []" "\<not> is_digit (hd w)"
  shows "\<not> eq_nocase s w"
proof
  assume "eq_nocase s w"
  then have "to_lower (hd s) = to_lower (hd w)" using assms by (cases s; cases w; simp add: eq_nocase_def)
  then show False using assms(2,4) is_digit_to_lower by metis
qed

lemma show_nat_hd: "is_digit (hd (show_nat n))"
  using show_nat_props [of n] by auto

lemma number_words [simp]:
  "\<not> eq_nocase (show_nat n) ''any''" "\<not> eq_nocase (show_nat n) ''*''" "\<not> eq_nocase (show_nat n) ''tcp''"
  "\<not> eq_nocase (show_nat n) ''udp''" "\<not> eq_nocase (inet_ntoa w) ''any''" "\<not> eq_nocase (inet_ntoa w) ''*''"
proof -
  have h: "is_digit (hd (inet_ntoa w))" by (simp add: inet_ntoa_def ip_octets_def show_nat_hd)
  show "\<not> eq_nocase (show_nat n) ''any''" "\<not> eq_nocase (show_nat n) ''*''" "\<not> eq_nocase (show_nat n) ''tcp''"
    "\<not> eq_nocase (show_nat n) ''udp''" "\<not> eq_nocase (inet_ntoa w) ''any''" "\<not> eq_nocase (inet_ntoa w) ''*''"
    by (rule number_not_word; simp add: show_nat_hd inet_ntoa_not_Nil h; simp add: is_digit_def)+
qed

lemma parse_rate_show: "v \<noteq> 0 \<Longrightarrow> tc_parse_bandwidth (Some (show_nat (unat v))) = v"
  using unat_u64_less [of v] by (simp add: tc_parse_bandwidth_def strtoul10_show_only scale_rate_def)

lemma parse_protocol_show: "parse_protocol (show_nat (unat p)) = Some p"
proof -
  have "unat p < 256" using unsigned_less [of p, where ?'a = nat] by simp
  then show ?thesis by (simp add: parse_protocol_def nonempty_to_unsigned_show ucast_of_unat del: of_nat_unat)
qed

lemma ip_case_numbers:
  "ip_case CHR ''i'' (format_ip a) r = Inr (r\<lparr>target_ip := a\<rparr>)"
  "ip_case CHR ''p'' (show_nat (unat p)) r = Inr (r\<lparr>target_port := p\<rparr>)"
  "ip_case CHR ''P'' (show_nat (unat q)) r = Inr (r\<lparr>target_protocol := q\<rparr>)"
  "v \<noteq> 0 \<Longrightarrow> ip_case CHR ''r'' (show_nat (unat v)) r = Inr (r\<lparr>rate_bps := v\<rparr>)"
  "t \<le> 3600 \<Longrightarrow> ip_case CHR ''t'' (show_nat (unat t)) r = Inr (r\<lparr>time_scale := t\<rparr>)"
proof -
  show "ip_case CHR ''i'' (format_ip a) r = Inr (r\<lparr>target_ip := a\<rparr>)"
    using parse_format_ip [of a] by (simp add: ip_case_def ip_opt_ip_def format_ip_def)
  have "unat p < 65536" using unsigned_less [of p, where ?'a = nat] by simp
  then show "ip_case CHR ''p'' (show_nat (unat p)) r = Inr (r\<lparr>target_port := p\<rparr>)"
    by (simp add: ip_case_def ip_opt_port_def opt_unsigned_show ucast_of_unat del: of_nat_unat)
  show "ip_case CHR ''P'' (show_nat (unat q)) r = Inr (r\<lparr>target_protocol := q\<rparr>)"
    by (simp add: ip_case_def ip_opt_protocol_def parse_protocol_show)
  show "ip_case CHR ''r'' (show_nat (unat v)) r = Inr (r\<lparr>rate_bps := v\<rparr>)" if "v \<noteq> 0"
    using that by (simp add: ip_case_def ip_opt_rate_def parse_rate_show)
  show "ip_case CHR ''t'' (show_nat (unat t)) r = Inr (r\<lparr>time_scale := t\<rparr>)" if "t \<le> 3600"
    using that by (simp add: ip_case_def opt_unsigned_show ucast_of_unat word_le_nat_alt del: of_nat_unat)
qed

lemma eq_nocase_refl [simp]: "eq_nocase w w"
  by (simp add: eq_nocase_def)

lemma eq_nocase_words [simp]:
  "\<not> eq_nocase ''ingress'' ''egress''" "\<not> eq_nocase ''drop'' ''rate''" "\<not> eq_nocase ''log'' ''rate''" "\<not> eq_nocase ''log'' ''drop''"
  by code_simp+

lemma ip_case_words:
  "g \<le> 1 \<Longrightarrow> ip_case CHR ''d'' (if g = EGRESS then ''egress'' else ''ingress'') r = Inr (r\<lparr>gress := g\<rparr>)"
  "k \<le> 2 \<Longrightarrow> ip_case CHR ''T'' (if k = RULE_TYPE_RATE_LIMIT then ''rate'' else if k = RULE_TYPE_DROP then ''drop'' else ''log'') r
     = Inr (r\<lparr>rule_type := k\<rparr>)"
  by (auto simp: ip_case_def u8_le_1 u8_le_2)

lemma ip_mask_bits:
  "bit (ip_mask r) 0 \<longleftrightarrow> target_ip r \<noteq> 0" "bit (ip_mask r) (Suc 0) \<longleftrightarrow> target_port r \<noteq> 0" "bit (ip_mask r) 2 \<longleftrightarrow> target_protocol r \<noteq> 0"
  by (cases "target_ip r = 0"; cases "target_port r = 0"; cases "target_protocol r = 0"; simp add: ip_mask_def; code_simp?)+

section \<open>Properties\<close>

text \<open>Whatever the command line, a rule that \<open>parse_args\<close> accepts is well formed: direction and kind
  are among the values defined, the time scale is between a second and an hour, a rule that limits has a
  rate, and the mask names exactly the fields that are set.\<close>

theorem ip_parse_args_ok:
  assumes "ip_parse_args os ip_rule_zero = Inr r"
  shows "1 \<le> time_scale r \<and> time_scale r \<le> 3600 \<and> gress r \<in> {INGRESS, EGRESS}
    \<and> rule_type r \<in> {RULE_TYPE_RATE_LIMIT, RULE_TYPE_DROP, RULE_TYPE_LOG}
    \<and> (rule_type r = RULE_TYPE_RATE_LIMIT \<longrightarrow> rate_bps r \<noteq> 0)
    \<and> (bit (match_mask r) 0 \<longleftrightarrow> target_ip r \<noteq> 0) \<and> (bit (match_mask r) 1 \<longleftrightarrow> target_port r \<noteq> 0)
    \<and> (bit (match_mask r) 2 \<longleftrightarrow> target_protocol r \<noteq> 0)"
proof -
  obtain r0 where r0: "opt_fold ip_case os ip_rule_zero = Inr r0" "ip_finish r0 = Inr r"
    using assms by (auto simp: ip_parse_args_def split: sum.splits)
  have "ip_partial_ok ip_rule_zero" by (simp add: ip_partial_ok_def ip_rule_zero_def)
  then have ok: "ip_rule_ok r" using ip_finish_ok [OF ip_options.loop_ok [OF _ r0(1)] r0(2)] by simp
  then show ?thesis by (auto simp: ip_rule_ok_def ip_mask_bits u8_le_1 u8_le_2)
qed

theorem ip_parse_args_ok_witness:
  "\<exists>r. ip_parse_args [(CHR ''T'', ''drop'')] ip_rule_zero = Inr r \<and> time_scale r \<le> 3600 \<and> rule_type r = RULE_TYPE_DROP"
proof -
  let ?r = "ip_rule_zero\<lparr>rule_type := 1, time_scale := 1\<rparr>"
  have r: "ip_parse_args [(CHR ''T'', ''drop'')] ip_rule_zero = Inr ?r"
    by (simp add: ip_parse_args_def ip_case_def ip_finish_def ip_rule_zero_def ip_mask_def)
  from ip_parse_args_ok [OF this] show ?thesis using r by (auto simp: ip_rule_zero_def)
qed

text \<open>C22: Every well-formed rule can be given on the command line: written as options, with addresses,
  ports, protocols, rates and times in decimal, it is read back exactly.\<close>

theorem ip_rule_roundtrip:
  assumes "ip_rule_ok r"
  shows "ip_parse_args (ip_rule_opts r) ip_rule_zero = Inr r"
proof -
  note ok = assms [unfolded ip_rule_ok_def]
  have "opt_fold ip_case (ip_rule_opts r) ip_rule_zero = Inr (r\<lparr>match_mask := 0\<rparr>)"
    using ok by (simp add: ip_rule_opts_def ip_case_numbers ip_case_words ip_rule_zero_def)
  moreover have "ip_finish (r\<lparr>match_mask := 0\<rparr>) = Inr r" using ok by (auto simp: ip_finish_def Let_def)
  ultimately show ?thesis by (simp add: ip_parse_args_def)
qed

definition ex_ip_rule :: ip_rule where
  "ex_ip_rule = \<lparr>target_ip = 3232235777, target_port = 80, target_protocol = 6, rate_bps = 104857600, gress = 1,
     time_scale = 60, match_mask = 7, rule_type = 0\<rparr>"

theorem ip_rule_roundtrip_witness: "ip_parse_args (ip_rule_opts ex_ip_rule) ip_rule_zero = Inr ex_ip_rule"
  by (rule ip_rule_roundtrip) (simp add: ip_rule_ok_def ex_ip_rule_def ip_mask_def)

lemma traced_simps [simp]:
  "st_trace (traced ev s) = st_trace s @ [ev]" "st_ingress (traced ev s) = st_ingress s" "st_egress (traced ev s) = st_egress s"
  "st_rb (traced ev s) = st_rb s" "st_skel (traced ev s) = st_skel s" "st_err (traced ev s) = st_err s"
  "st_rules (traced ev s) = st_rules s" "st_log (traced ev s) = st_log s"
  by (simp_all add: traced_def)

lemma ip_log_simps [simp]:
  "st_trace (ip_log e c m s) = st_trace s" "st_ingress (ip_log e c m s) = st_ingress s" "st_egress (ip_log e c m s) = st_egress s"
  "st_rb (ip_log e c m s) = st_rb s" "st_skel (ip_log e c m s) = st_skel s" "st_err (ip_log e c m s) = st_err s"
  "st_rules (ip_log e c m s) = st_rules s"
  by (simp_all add: ip_log_def)

text \<open>What is held at the label \<open>cleanup\<close>, as the variables show it.\<close>

definition ip_held :: "ip_res \<Rightarrow> ip_state \<Rightarrow> int" where
  "ip_held x s = (case x of
       Context \<Rightarrow> 0
     | Skel \<Rightarrow> if st_skel s then 1 else 0
     | Ring \<Rightarrow> if st_rb s then 1 else 0
     | Fd n \<Rightarrow> (if 0 \<le> st_ingress s \<and> st_ingress s = n then 1 else 0) + (if 0 \<le> st_egress s \<and> st_egress s = n then 1 else 0))"

lemma ip_cleanup_balance: "balance x (st_trace (ip_cleanup s)) = balance x (st_trace s) - ip_held x s"
  by (cases x) (auto simp: ip_cleanup_def ip_held_def Let_def)

lemma setup_traffic_rules_keeps:
  "setup_traffic_rules e r s = (b, s') \<Longrightarrow>
    balance x (st_trace s') = balance x (st_trace s) \<and> st_ingress s' = st_ingress s \<and> st_egress s' = st_egress s
    \<and> st_rb s' = st_rb s \<and> st_skel s' = st_skel s \<and> st_err s' = st_err s
    \<and> st_rules s' = (if b then (st_rules s)(0 \<mapsto> r) else st_rules s) \<and> (b \<longrightarrow> st_log s' = st_log s)"
  by (auto simp: setup_traffic_rules_def Let_def split: if_splits)

lemma ip_watch_balance:
  "\<not> st_rb s \<Longrightarrow> balance x (st_trace (ip_watch e s)) - ip_held x (ip_watch e s) = balance x (st_trace s) - ip_held x s"
  by (cases x) (auto simp: ip_watch_def ip_held_def Let_def split: option.splits)

lemma ip_attach_balance:
  assumes "\<not> st_rb s" "st_ingress s = - 1" "st_egress s = - 1"
  shows "balance x (st_trace (ip_attach e s)) - ip_held x (ip_attach e s)
    = balance x (st_trace s) - ip_held x s - (if 0 \<le> ie_ingress e \<and> ie_egress e < 0 \<and> x = Fd (ie_ingress e) then 1 else 0)"
proof (cases "0 \<le> ie_ingress e \<and> 0 \<le> ie_egress e")
  case True
  let ?s = "traced (Acq (Fd (ie_egress e))) ((traced (Acq (Fd (ie_ingress e))) (s\<lparr>st_ingress := ie_ingress e\<rparr>))\<lparr>st_egress := ie_egress e\<rparr>)"
  have "ip_attach e s = ip_watch e ?s" using True by (simp add: ip_attach_def Let_def)
  moreover have "balance x (st_trace ?s) - ip_held x ?s = balance x (st_trace s) - ip_held x s"
    using assms True by (cases x) (simp_all add: ip_held_def)
  ultimately show ?thesis using ip_watch_balance [of ?s x e] assms(1) True by simp
next
  case False
  then show ?thesis using assms by (cases x) (auto simp: ip_attach_def ip_held_def Let_def)
qed

lemma ip_run_balance:
  "balance x (st_trace (ip_run e r (ip_start h m))) - ip_held x (ip_run e r (ip_start h m))
     = (if ie_skel e \<and> ie_ctx e \<and> ie_map e \<and> ie_update e = 0 \<and> 0 \<le> ie_ingress e \<and> ie_egress e < 0 \<and> x = Fd (ie_ingress e)
        then - 1 else 0)"
proof (cases "ie_skel e")
  case False
  then show ?thesis by (cases x) (simp_all add: ip_run_def ip_start_def ip_held_def)
next
  case True
  let ?s1 = "(traced (Acq Skel) (ip_start h m))\<lparr>st_skel := True\<rparr>"
  obtain b s2 where s2: "setup_traffic_rules e r ?s1 = (b, s2)" by (cases "setup_traffic_rules e r ?s1") auto
  have b: "b \<longleftrightarrow> ie_ctx e \<and> ie_map e \<and> ie_update e = 0"
    using s2 by (auto simp: setup_traffic_rules_def Let_def safe_string_create_def safe_string_is_valid_def split: if_splits)
  note k = setup_traffic_rules_keeps [OF s2]
  show ?thesis
  proof (cases b)
    case False
    then have "ip_run e r (ip_start h m) = ip_log e TC_OPERATION_FAILED ''Failed to setup traffic control rules'' s2"
      using True s2 by (simp add: ip_run_def Let_def)
    with k [of x] False b show ?thesis by (cases x) (auto simp: ip_held_def ip_start_def)
  next
    case b_true: True
    then have "ip_run e r (ip_start h m) = ip_attach e s2" using True s2 by (simp add: ip_run_def Let_def)
    with k [of x] b_true b True ip_attach_balance [of s2 x e] show ?thesis
      by (cases x) (simp_all add: ip_held_def ip_start_def)
  qed
qed

text \<open>Whatever happens on the way, \<open>main\<close> of \<open>tc-ip\<close> gives back the skeleton, the ring buffer, the
  context string and both netfilter links exactly once each, unless attaching the second link fails.\<close>

theorem ip_main_releases:
  assumes "ip_main e h m = Inr (status, s)" "0 \<le> ie_egress e"
  shows "balance x (st_trace s) = 0"
proof -
  obtain r where "s = ip_cleanup (ip_run e r (ip_start h m))"
    using assms(1) by (auto simp: ip_main_def Let_def split: if_splits sum.splits)
  then show ?thesis using ip_cleanup_balance [of x "ip_run e r (ip_start h m)"] ip_run_balance [of x e r h m] assms(2) by simp
qed

definition ex_ip_env :: ip_env where
  "ex_ip_env = \<lparr>ie_uid = 0, ie_opts = [(CHR ''T'', ''drop'')], ie_skel = True, ie_ctx = True, ie_map = True, ie_update = 0,
     ie_ingress = 5, ie_egress = 6, ie_rb = True, ie_polls = [2, 0], ie_file = ''tc-ip.cpp''\<rparr>"

definition ex_handler :: ErrorHandler where
  "ex_handler = \<lparr>error_log = replicate 100 (ex_info 0), error_count = 0\<rparr>"

theorem ip_main_releases_witness:
  "\<exists>status s. ip_main ex_ip_env ex_handler Map.empty = Inr (status, s) \<and> balance (Fd 5) (st_trace s) = 0 \<and> status = Some 0"
proof -
  obtain status s where m: "ip_main ex_ip_env ex_handler Map.empty = Inr (status, s)" and st: "status = Some 0"
    by (simp add: ip_main_def ex_ip_env_def ip_parse_args_def ip_case_def ip_finish_def ip_rule_zero_def ip_mask_def
        ip_run_def ip_start_def setup_traffic_rules_def safe_string_create_def safe_string_is_valid_def ip_attach_def
        ip_watch_def ip_cleanup_def Let_def traced_def)
  have "0 \<le> ie_egress ex_ip_env" by (simp add: ex_ip_env_def)
  from ip_main_releases [OF m this] show ?thesis using m st by blast
qed

text \<open>
  When the second link cannot be attached, the first is closed there and again at \<open>cleanup\<close>; and the
  program's status depends on \<open>err\<close>, which has no value then.
\<close>

lemma ip_main_double_close:
  assumes "ip_main e h m = Inr (status, s)" "ie_skel e" "ie_ctx e" "ie_map e" "ie_update e = 0"
    "0 \<le> ie_ingress e" "ie_egress e < 0"
  shows "balance (Fd (ie_ingress e)) (st_trace s) = - 1 \<and> status = None"
proof -
  obtain r where s: "s = ip_cleanup (ip_run e r (ip_start h m))" and status: "status = map_option (\<lambda>v. if v < 0 then 1 else 0) (st_err s)"
    using assms(1) by (auto simp: ip_main_def Let_def split: if_splits sum.splits)
  have "st_err s = None"
    using assms unfolding s by (simp add: ip_cleanup_def ip_run_def ip_attach_def setup_traffic_rules_def ip_start_def Let_def
        safe_string_create_def safe_string_is_valid_def)
  then show ?thesis
    using ip_cleanup_balance [of "Fd (ie_ingress e)" "ip_run e r (ip_start h m)"] ip_run_balance [of "Fd (ie_ingress e)" e r h m] assms s status
    by simp
qed

end
