(* ===== verification/Tc_Process.thy ===== *)
theory Tc_Process
  imports Tc_Common
begin

text \<open>
  \<open>filter/tc-process.cpp\<close>: a limit on the traffic of one process. The rule and the local address go into
  two maps, four probes and two netfilter links are attached, and events are printed until a signal
  arrives. The options that \<open>getopt_long\<close> yields, libbpf and the system calls are parameters; the text
  of a printed line is a value of \<open>proc_msg\<close>.
\<close>

section \<open>Rules and options\<close>

record ProcessRule =
  target_pid :: u32
  pr_rate_bps :: u64
  pr_gress :: u8
  pr_time_scale :: u32

definition process_rule_zero :: ProcessRule where
  "process_rule_zero = \<lparr>target_pid = 0, pr_rate_bps = 0, pr_gress = 0, pr_time_scale = 0\<rparr>"

definition proc_opt_rate :: "string \<Rightarrow> ProcessRule \<Rightarrow> int + ProcessRule" where
  "proc_opt_rate optarg r =
     (let v = proc_parse_bandwidth (Some optarg) in if v = 0 then Inl (- 1) else Inr (r\<lparr>pr_rate_bps := v\<rparr>))"

definition proc_case :: "char \<Rightarrow> string \<Rightarrow> ProcessRule \<Rightarrow> int + ProcessRule" where
  "proc_case opt optarg r =
     (if opt = CHR ''p'' then opt_number 2147483647 optarg (\<lambda>v. r\<lparr>target_pid := ucast v\<rparr>)
      else if opt = CHR ''r'' then proc_opt_rate optarg r
      else if opt = CHR ''d'' then opt_choice [(''egress'', r\<lparr>pr_gress := 1\<rparr>), (''ingress'', r\<lparr>pr_gress := 0\<rparr>)] optarg
      else if opt = CHR ''t'' then opt_number 3600 optarg (\<lambda>v. r\<lparr>pr_time_scale := ucast v\<rparr>)
      else if opt = CHR ''h'' then Inl 0
      else Inl (- 1))"

definition proc_finish :: "ProcessRule \<Rightarrow> int + ProcessRule" where
  "proc_finish r =
     (if target_pid r = 0 then Inl (- 1)
      else let r1 = (if pr_rate_bps r = 0 then r\<lparr>pr_rate_bps := PROC_DEFAULT_RATE\<rparr> else r)
           in Inr (if pr_time_scale r1 = 0 then r1\<lparr>pr_time_scale := 1\<rparr> else r1))"

definition proc_parse_args :: "(char \<times> string) list \<Rightarrow> ProcessRule \<Rightarrow> int + ProcessRule" where
  "proc_parse_args os r = (case opt_fold proc_case os r of Inl c \<Rightarrow> Inl c | Inr r' \<Rightarrow> proc_finish r')"

section \<open>Events\<close>

text \<open>The bytes of an address or a port in the other order, as \<open>ntohl\<close> and \<open>ntohs\<close> do on the targets.\<close>

definition ntohl :: "u32 \<Rightarrow> u32" where
  "ntohl w = ip_of_octets (rev (ip_octets w))"

definition ntohs :: "u16 \<Rightarrow> u16" where
  "ntohs w = push_bit 8 w OR drop_bit 8 w"

record proc_event =
  ev_pid :: u32
  ev_comm :: string
  ev_bytes_sent :: u32
  ev_bytes_dropped :: u32
  ev_packets_sent :: u32
  ev_packets_dropped :: u32
  ev_timestamp :: u64
  ev_flag :: u8
  ev_ip :: u32
  ev_port :: u16
  ev_protocol :: u8

datatype proc_msg =
    SocketMapped u32 string
  | PacketHeader
  | PacketParsed string u16 string
  | Dropped u32 string u32 u32
  | Sent u32 string u32 u32
  | Watched u32 string
  | IpAndPort u32 string string u16 u32
  | NetworkTuple u32 string string u16 string u32
  | UnknownEvent nat

definition protocol_name :: "u8 \<Rightarrow> string" where
  "protocol_name p =
     (if p = 6 then ''TCP'' else if p = 17 then ''UDP'' else if p = 1 then ''ICMP''
      else ''UNKNOWN('' @ show_nat (unat p) @ '')'')"

definition handle_process_map_event :: "proc_event \<Rightarrow> proc_msg list" where
  "handle_process_map_event e = [SocketMapped (ev_pid e) (ev_comm e)]"

definition handle_packet_parse_event :: "proc_event \<Rightarrow> proc_msg list" where
  "handle_packet_parse_event e =
     [PacketHeader, PacketParsed (inet_ntoa (ntohl (ev_ip e))) (ntohs (ev_port e)) (protocol_name (ev_protocol e))]"

definition handle_send_drop_event :: "proc_event \<Rightarrow> proc_msg list" where
  "handle_send_drop_event e =
     (if ev_bytes_dropped e > 0 then [Dropped (ev_pid e) (ev_comm e) (ev_bytes_dropped e) (ev_packets_dropped e)]
      else if ev_bytes_sent e > 0 then [Sent (ev_pid e) (ev_comm e) (ev_bytes_sent e) (ev_packets_sent e)]
      else [Watched (ev_pid e) (ev_comm e)])"

definition handle_network_tuple_event :: "proc_event \<Rightarrow> proc_msg list" where
  "handle_network_tuple_event e =
     [NetworkTuple (ev_pid e) (ev_comm e) (inet_ntoa (ntohl (ev_ip e))) (ntohs (ev_port e)) (protocol_name (ev_protocol e))
        (ev_bytes_sent e)]"

text \<open>\<open>handle_traffic_event\<close>; the structure has 64 bytes.\<close>

definition proc_handle_event :: "ProcessRule \<Rightarrow> proc_event \<Rightarrow> nat \<Rightarrow> proc_msg list" where
  "proc_handle_event rule e data_sz =
     (if data_sz \<noteq> 64 then []
      else if ev_flag e = 0 then handle_process_map_event e
      else if ev_flag e = 1 then handle_packet_parse_event e
      else if ev_flag e = 2 then handle_send_drop_event e
      else if ev_flag e = 3 then
        [IpAndPort (ev_pid e) (ev_comm e) (inet_ntoa (ntohl (ev_ip e))) (ntohs (ev_port e)) (pr_time_scale rule)]
      else if ev_flag e = 4 then handle_network_tuple_event e
      else [UnknownEvent (unat (ev_flag e))])"

section \<open>The program\<close>

datatype proc_res = ProcSkel | Recvmsg | Sendmsg | Connect | Listen | Link int | ProcRing | Socket

text \<open>
  What the outside answers. \<open>pe_sockname\<close> is the address that \<open>getsockname\<close> gives, in host order;
  \<open>pe_update\<close> is the result of the update of the map of rules, \<open>pe_update_ip\<close> that of the other map.
\<close>

record proc_env =
  pe_uid :: int
  pe_opts :: "(char \<times> string) list"
  pe_skel :: bool
  pe_attach :: "proc_res \<Rightarrow> bool"
  pe_map :: bool
  pe_update :: int
  pe_ip_map :: bool
  pe_socket :: int
  pe_connect :: int
  pe_sockname :: "u32 option"
  pe_update_ip :: int
  pe_ingress :: int
  pe_egress :: int
  pe_rb :: bool
  pe_polls :: "int list"

record proc_state =
  ps_err :: "int option"
  ps_links :: "proc_res list"
  ps_ingress :: int
  ps_egress :: int
  ps_rb :: bool
  ps_rules :: "u32 \<rightharpoonup> ProcessRule"
  ps_local_ip :: "u32 \<rightharpoonup> u32"
  ps_trace :: "proc_res res_event list"

definition ps_note :: "proc_res res_event list \<Rightarrow> proc_state \<Rightarrow> proc_state" where
  "ps_note evs s = s\<lparr>ps_trace := ps_trace s @ evs\<rparr>"

text \<open>The four calls of \<open>bpf_program__attach\<close>; the first failure goes to \<open>cleanup\<close>.\<close>

definition proc_probes :: "proc_res list" where
  "proc_probes = [Recvmsg, Sendmsg, Connect, Listen]"

fun attach_probes :: "proc_env \<Rightarrow> proc_res list \<Rightarrow> proc_state \<Rightarrow> bool \<times> proc_state" where
  "attach_probes e [] s = (True, s)"
| "attach_probes e (p # ps) s =
     (if \<not> pe_attach e p then (False, s)
      else attach_probes e ps (ps_note [Acq p] (s\<lparr>ps_links := ps_links s @ [p]\<rparr>)))"

definition setup_process_rules :: "proc_env \<Rightarrow> ProcessRule \<Rightarrow> proc_state \<Rightarrow> bool \<times> proc_state" where
  "setup_process_rules e r s =
     (if \<not> pe_map e then (False, s)
      else if pe_update e \<noteq> 0 then (False, s)
      else (True, s\<lparr>ps_rules := (ps_rules s)(0 \<mapsto> r)\<rparr>))"

definition get_local_ip_address :: "proc_env \<Rightarrow> string \<times> proc_res res_event list" where
  "get_local_ip_address e =
     (if pe_socket e < 0 then (''127.0.0.1'', [])
      else if pe_connect e < 0 then (''127.0.0.1'', [Acq Socket, Rel Socket])
      else case pe_sockname e of
        None \<Rightarrow> (''127.0.0.1'', [Acq Socket, Rel Socket])
      | Some a \<Rightarrow> (inet_ntoa a, [Acq Socket, Rel Socket]))"

text \<open>\<open>inet_addr\<close> on a dotted quad, in network order; all ones when it is none.\<close>

definition inet_addr :: "string \<Rightarrow> u32" where
  "inet_addr s = (case inet_pton4 s of Some ds \<Rightarrow> ntohl (ip_of_octets ds) | None \<Rightarrow> - 1)"

definition setup_local_ip_map :: "proc_env \<Rightarrow> proc_state \<Rightarrow> bool \<times> proc_state" where
  "setup_local_ip_map e s =
     (if \<not> pe_ip_map e then (False, s)
      else case get_local_ip_address e of (local_ip, evs) \<Rightarrow>
        let ip_addr = inet_addr local_ip; s1 = ps_note evs s
        in if pe_update_ip e \<noteq> 0 then (False, s1) else (True, s1\<lparr>ps_local_ip := (ps_local_ip s1)(0 \<mapsto> ip_addr)\<rparr>))"

definition proc_watch :: "proc_env \<Rightarrow> proc_state \<Rightarrow> proc_state" where
  "proc_watch e s =
     (if \<not> pe_rb e then s\<lparr>ps_err := Some (- 1)\<rparr>
      else ps_note [Acq ProcRing] (s\<lparr>ps_rb := True, ps_err := poll_events (pe_polls e) (ps_err s)\<rparr>))"

definition proc_attach :: "proc_env \<Rightarrow> proc_state \<Rightarrow> proc_state" where
  "proc_attach e s =
     (let s1 = s\<lparr>ps_ingress := pe_ingress e\<rparr>
      in if pe_ingress e < 0 then s1
         else
           let s2 = (ps_note [Acq (Link (pe_ingress e))] s1)\<lparr>ps_egress := pe_egress e\<rparr>
           in if pe_egress e < 0 then ps_note [Rel (Link (pe_ingress e))] s2
              else proc_watch e (ps_note [Acq (Link (pe_egress e))] s2))"

definition proc_run :: "proc_env \<Rightarrow> ProcessRule \<Rightarrow> proc_state \<Rightarrow> proc_state" where
  "proc_run e r s =
     (case attach_probes e proc_probes s of
        (False, s1) \<Rightarrow> s1
      | (True, s1) \<Rightarrow>
          (case setup_process_rules e r s1 of
             (False, s2) \<Rightarrow> s2
           | (True, s2) \<Rightarrow>
               (case setup_local_ip_map e s2 of
                  (False, s3) \<Rightarrow> s3
                | (True, s3) \<Rightarrow> proc_attach e s3)))"

definition proc_cleanup :: "proc_state \<Rightarrow> proc_state" where
  "proc_cleanup s =
     ps_note (map Rel (filter (\<lambda>p. p \<in> set (ps_links s)) proc_probes)
       @ (if ps_ingress s \<ge> 0 then [Rel (Link (ps_ingress s))] else [])
       @ (if ps_egress s \<ge> 0 then [Rel (Link (ps_egress s))] else [])
       @ (if ps_rb s then [Rel ProcRing] else [])
       @ [Rel ProcSkel]) s"

definition proc_start :: "(u32 \<rightharpoonup> ProcessRule) \<Rightarrow> (u32 \<rightharpoonup> u32) \<Rightarrow> proc_state" where
  "proc_start m l = \<lparr>ps_err = None, ps_links = [], ps_ingress = - 1, ps_egress = - 1, ps_rb = False,
     ps_rules = m, ps_local_ip = l, ps_trace = [Acq ProcSkel]\<rparr>"

definition proc_main :: "proc_env \<Rightarrow> (u32 \<rightharpoonup> ProcessRule) \<Rightarrow> (u32 \<rightharpoonup> u32) \<Rightarrow> int + int option \<times> proc_state" where
  "proc_main e m l =
     (if pe_uid e \<noteq> 0 then Inl 1
      else case proc_parse_args (pe_opts e) process_rule_zero of
        Inl c \<Rightarrow> Inl c
      | Inr r \<Rightarrow>
          if \<not> pe_skel e then Inl 1
          else let s = proc_cleanup (proc_run e r (proc_start m l)) in Inr (map_option uminus (ps_err s), s))"

section \<open>Lemmas\<close>

definition proc_rule_ok :: "ProcessRule \<Rightarrow> bool" where
  "proc_rule_ok r \<longleftrightarrow> 1 \<le> target_pid r \<and> target_pid r \<le> 2147483647 \<and> pr_rate_bps r \<noteq> 0 \<and> pr_gress r \<le> 1
     \<and> 1 \<le> pr_time_scale r \<and> pr_time_scale r \<le> 3600"

definition proc_partial_ok :: "ProcessRule \<Rightarrow> bool" where
  "proc_partial_ok r \<longleftrightarrow> target_pid r \<le> 2147483647 \<and> pr_gress r \<le> 1 \<and> pr_time_scale r \<le> 3600"

lemma ucast_u64_pid: "(v::u64) \<le> 2147483647 \<Longrightarrow> (ucast v :: u32) \<le> 2147483647"
  by (simp add: word_le_nat_alt unsigned_ucast_eq take_bit_nat_eq_self)

interpretation proc_options: option_cases proc_case proc_partial_ok
proof
  fix r opt optarg r'
  assume ok: "proc_partial_ok r" and h: "proc_case opt optarg r = Inr r'"
  have range: "g \<le> 1 \<Longrightarrow> proc_partial_ok (r\<lparr>pr_gress := g\<rparr>)" "v \<le> 3600 \<Longrightarrow> proc_partial_ok (r\<lparr>pr_time_scale := ucast v\<rparr>)"
    "v \<le> 2147483647 \<Longrightarrow> proc_partial_ok (r\<lparr>target_pid := ucast v\<rparr>)" for g and v :: u64
    using ok by (simp_all add: proc_partial_ok_def ucast_u64_le ucast_u64_pid)
  have rate: "proc_opt_rate optarg r = Inr r' \<Longrightarrow> proc_partial_ok r'"
    using ok by (auto simp: proc_opt_rate_def proc_partial_ok_def Let_def split: if_splits)
  from h show "proc_partial_ok r'"
    unfolding proc_case_def by (auto simp: range ok rate split: if_split_asm dest!: opt_number_stored)
qed

lemma proc_finish_ok: "proc_partial_ok r \<Longrightarrow> proc_finish r = Inr r' \<Longrightarrow> proc_rule_ok r'"
  by (auto simp: proc_finish_def proc_partial_ok_def proc_rule_ok_def Let_def one_le_word [symmetric] split: if_split_asm)

lemma inet_addr_ntoa: "inet_addr (inet_ntoa a) = ntohl a"
  by (simp add: inet_addr_def pton4_ntoa ip_of_octets_inverse)

lemma ps_note_simps [simp]:
  "ps_trace (ps_note evs s) = ps_trace s @ evs" "ps_ingress (ps_note evs s) = ps_ingress s" "ps_egress (ps_note evs s) = ps_egress s"
  "ps_rb (ps_note evs s) = ps_rb s" "ps_links (ps_note evs s) = ps_links s" "ps_err (ps_note evs s) = ps_err s"
  "ps_rules (ps_note evs s) = ps_rules s" "ps_local_ip (ps_note evs s) = ps_local_ip s"
  by (simp_all add: ps_note_def)

text \<open>What the variables show as held.\<close>

definition proc_held :: "proc_state \<Rightarrow> proc_res list" where
  "proc_held s = filter (\<lambda>p. p \<in> set (ps_links s)) proc_probes
     @ (if ps_ingress s \<ge> 0 then [Link (ps_ingress s)] else []) @ (if ps_egress s \<ge> 0 then [Link (ps_egress s)] else [])
     @ (if ps_rb s then [ProcRing] else []) @ [ProcSkel]"

definition proc_excess :: "proc_res \<Rightarrow> proc_state \<Rightarrow> int" where
  "proc_excess x s = balance x (ps_trace s) - int (count_list (proc_held s) x)"

lemma proc_cleanup_balance: "balance x (ps_trace (proc_cleanup s)) = proc_excess x s"
proof -
  have "ps_trace (proc_cleanup s) = ps_trace s @ map Rel (proc_held s)" by (simp add: proc_cleanup_def proc_held_def)
  then show ?thesis by (simp add: proc_excess_def)
qed

lemma attach_probe_excess:
  assumes "p \<in> set proc_probes" "p \<notin> set (ps_links s)"
  shows "proc_excess x (ps_note [Acq p] (s\<lparr>ps_links := ps_links s @ [p]\<rparr>)) = proc_excess x s"
  using assms by (auto simp: proc_excess_def proc_held_def proc_probes_def)

lemma attach_probes_excess:
  "attach_probes e ps s = (b, s') \<Longrightarrow> set ps \<subseteq> set proc_probes \<Longrightarrow> distinct ps \<Longrightarrow> set ps \<inter> set (ps_links s) = {}
    \<Longrightarrow> proc_excess x s' = proc_excess x s \<and> ps_ingress s' = ps_ingress s \<and> ps_egress s' = ps_egress s \<and> ps_rb s' = ps_rb s
      \<and> ps_err s' = ps_err s \<and> (b \<longleftrightarrow> (\<forall>p \<in> set ps. pe_attach e p))"
proof (induction e ps s rule: attach_probes.induct)
  case (1 e s)
  then show ?case by simp
next
  case (2 e p ps s)
  show ?case
  proof (cases "pe_attach e p")
    case True
    with 2 attach_probe_excess [of p s x] show ?thesis by auto
  next
    case False
    with 2 show ?thesis by auto
  qed
qed

lemma proc_excess_simps [simp]:
  "proc_excess x (s\<lparr>ps_rules := f\<rparr>) = proc_excess x s" "proc_excess x (s\<lparr>ps_local_ip := g\<rparr>) = proc_excess x s"
  "proc_excess x (ps_note evs s) = proc_excess x s + balance x evs"
  by (simp_all add: proc_excess_def proc_held_def)

lemma setup_maps_excess:
  "setup_process_rules e r s = (b, s') \<Longrightarrow> proc_excess x s' = proc_excess x s \<and> ps_ingress s' = ps_ingress s
     \<and> ps_egress s' = ps_egress s \<and> ps_rb s' = ps_rb s \<and> ps_err s' = ps_err s"
  "setup_local_ip_map e s = (b, s') \<Longrightarrow> proc_excess x s' = proc_excess x s \<and> ps_ingress s' = ps_ingress s
     \<and> ps_egress s' = ps_egress s \<and> ps_rb s' = ps_rb s \<and> ps_err s' = ps_err s"
proof -
  show "setup_process_rules e r s = (b, s') \<Longrightarrow> proc_excess x s' = proc_excess x s \<and> ps_ingress s' = ps_ingress s
     \<and> ps_egress s' = ps_egress s \<and> ps_rb s' = ps_rb s \<and> ps_err s' = ps_err s"
    by (auto simp: setup_process_rules_def split: if_split_asm)
  have bal: "get_local_ip_address e = (a, evs) \<Longrightarrow> balance x evs = 0" for a evs
    by (auto simp: get_local_ip_address_def split: if_split_asm option.split_asm)
  show "setup_local_ip_map e s = (b, s') \<Longrightarrow> proc_excess x s' = proc_excess x s \<and> ps_ingress s' = ps_ingress s
     \<and> ps_egress s' = ps_egress s \<and> ps_rb s' = ps_rb s \<and> ps_err s' = ps_err s"
    by (auto simp: setup_local_ip_map_def bal Let_def split: if_split_asm prod.split_asm)
qed

lemma proc_watch_excess: "\<not> ps_rb s \<Longrightarrow> proc_excess x (proc_watch e s) = proc_excess x s"
  by (simp add: proc_watch_def proc_excess_def proc_held_def)

lemma proc_attach_excess:
  assumes "\<not> ps_rb s" "ps_ingress s = - 1" "ps_egress s = - 1"
  shows "proc_excess x (proc_attach e s)
    = proc_excess x s - (if 0 \<le> pe_ingress e \<and> pe_egress e < 0 \<and> x = Link (pe_ingress e) then 1 else 0)"
proof (cases "0 \<le> pe_ingress e \<and> 0 \<le> pe_egress e")
  case True
  let ?s = "ps_note [Acq (Link (pe_egress e))] ((ps_note [Acq (Link (pe_ingress e))] (s\<lparr>ps_ingress := pe_ingress e\<rparr>))\<lparr>ps_egress := pe_egress e\<rparr>)"
  have "proc_attach e s = proc_watch e ?s" using True by (simp add: proc_attach_def Let_def)
  moreover have "proc_excess x ?s = proc_excess x s" using assms True by (simp add: proc_excess_def proc_held_def)
  ultimately show ?thesis using proc_watch_excess [of ?s x e] assms(1) True by simp
next
  case False
  then show ?thesis using assms by (auto simp: proc_attach_def proc_excess_def proc_held_def Let_def)
qed

lemma proc_run_excess:
  assumes "0 \<le> pe_egress e"
  shows "proc_excess x (proc_run e r (proc_start m l)) = 0"
proof -
  have start: "proc_excess x (proc_start m l) = 0" "ps_ingress (proc_start m l) = - 1" "ps_egress (proc_start m l) = - 1"
    "\<not> ps_rb (proc_start m l)"
    by (simp_all add: proc_start_def proc_excess_def proc_held_def proc_probes_def)
  obtain b1 s1 where a1: "attach_probes e proc_probes (proc_start m l) = (b1, s1)" by fastforce
  obtain b2 s2 where a2: "setup_process_rules e r s1 = (b2, s2)" by fastforce
  obtain b3 s3 where a3: "setup_local_ip_map e s2 = (b3, s3)" by fastforce
  have "set proc_probes \<inter> set (ps_links (proc_start m l)) = {}" "distinct proc_probes" by (simp_all add: proc_start_def proc_probes_def)
  then have e1: "proc_excess x s1 = 0" "ps_ingress s1 = - 1" "ps_egress s1 = - 1" "\<not> ps_rb s1"
    using attach_probes_excess [OF a1, of x] start by auto
  then have e2: "proc_excess x s2 = 0" "ps_ingress s2 = - 1" "ps_egress s2 = - 1" "\<not> ps_rb s2"
    using setup_maps_excess(1) [OF a2, of x] by auto
  then have e3: "proc_excess x s3 = 0" "ps_ingress s3 = - 1" "ps_egress s3 = - 1" "\<not> ps_rb s3"
    using setup_maps_excess(2) [OF a3, of x] by auto
  show ?thesis
    using a1 a2 a3 e1(1) e2(1) e3 proc_attach_excess [of s3 x e] assms by (auto simp: proc_run_def split: bool.splits)
qed

section \<open>Properties\<close>

text \<open>
  \<open>main\<close> gives back every probe, link, socket and buffer it acquires, unless the second link cannot be
  attached; then the first is closed twice and the status is that of a variable without a value.
\<close>

theorem proc_main_releases:
  assumes "proc_main e m l = Inr (status, s)" "0 \<le> pe_egress e"
  shows "balance x (ps_trace s) = 0"
proof -
  obtain r where "s = proc_cleanup (proc_run e r (proc_start m l))"
    using assms(1) by (auto simp: proc_main_def Let_def split: if_splits sum.splits)
  then show ?thesis using proc_cleanup_balance proc_run_excess [OF assms(2)] by simp
qed

lemma proc_main_double_close:
  assumes "proc_main e m l = Inr (status, s)" "\<forall>p. pe_attach e p" "pe_map e" "pe_update e = 0" "pe_ip_map e" "pe_update_ip e = 0"
    "0 \<le> pe_ingress e" "pe_egress e < 0"
  shows "balance (Link (pe_ingress e)) (ps_trace s) = - 1 \<and> status = None"
proof -
  obtain r where s: "s = proc_cleanup (proc_run e r (proc_start m l))" and status: "status = map_option uminus (ps_err s)"
    using assms(1) by (auto simp: proc_main_def Let_def split: if_splits sum.splits)
  show ?thesis unfolding status s using assms(2-)
    by (simp add: proc_cleanup_def proc_run_def proc_start_def proc_probes_def setup_process_rules_def setup_local_ip_map_def
        get_local_ip_address_def proc_attach_def Let_def split: option.splits prod.splits)
qed

text \<open>The address stored for the program in the kernel is the one the socket has, in network order:
  printing it and reading it back loses nothing. Without a route it is that of the loopback.\<close>

theorem local_ip_stored:
  assumes "setup_local_ip_map e s = (True, s')"
  shows "ps_local_ip s' = (ps_local_ip s)(0 \<mapsto> ntohl
     (if pe_socket e < 0 \<or> pe_connect e < 0 then 2130706433 else case pe_sockname e of Some a \<Rightarrow> a | None \<Rightarrow> 2130706433))"
proof -
  have "show_nat 127 = ''127''" "show_nat 0 = ''0''" "show_nat 1 = ''1''" by code_simp+
  then have lo: "''127.0.0.1'' = inet_ntoa 2130706433" by (simp add: inet_ntoa_def ip_octets_def)
  show ?thesis
    using assms unfolding setup_local_ip_map_def get_local_ip_address_def lo
    by (auto simp: Let_def inet_addr_ntoa split: if_splits option.splits)
qed

text \<open>The process, the rate and the time scale of an accepted rule are set.\<close>

lemma proc_parse_args_ok:
  assumes "proc_parse_args os process_rule_zero = Inr r"
  shows "proc_rule_ok r"
proof -
  obtain r0 where r0: "opt_fold proc_case os process_rule_zero = Inr r0" "proc_finish r0 = Inr r"
    using assms by (auto simp: proc_parse_args_def split: sum.splits)
  have "proc_partial_ok process_rule_zero" by (simp add: proc_partial_ok_def process_rule_zero_def)
  then show ?thesis using proc_finish_ok [OF proc_options.loop_ok [OF _ r0(1)] r0(2)] by simp
qed

definition ex_proc_env :: proc_env where
  "ex_proc_env = \<lparr>pe_uid = 0, pe_opts = [(CHR ''p'', ''42'')], pe_skel = True, pe_attach = (\<lambda>_. True), pe_map = True, pe_update = 0,
     pe_ip_map = True, pe_socket = 3, pe_connect = 0, pe_sockname = Some 3232235777, pe_update_ip = 0, pe_ingress = 5, pe_egress = 6,
     pe_rb = True, pe_polls = [1, - EINTR]\<rparr>"

theorem local_ip_stored_witness:
  "\<exists>s'. setup_local_ip_map ex_proc_env (proc_start Map.empty Map.empty) = (True, s') \<and> ps_local_ip s' 0 = Some (ntohl 3232235777)"
proof -
  obtain s' where "setup_local_ip_map ex_proc_env (proc_start Map.empty Map.empty) = (True, s')"
    by (simp add: setup_local_ip_map_def ex_proc_env_def get_local_ip_address_def Let_def)
  from this local_ip_stored [OF this] show ?thesis by (simp add: ex_proc_env_def)
qed

end
