(* ===== verification/Tc_Cgroup.thy ===== *)
theory Tc_Cgroup
  imports Tc_Common
begin

text \<open>
  \<open>filter/tc-cgroup.cpp\<close>: a limit on the traffic of a control group. The program is attached to the
  directory of the group and detached at the end. The options that \<open>getopt_long\<close> yields, libbpf and the
  system calls are parameters.
\<close>

section \<open>Rules and options\<close>

record CgroupRule =
  cr_rate_bps :: u64
  cr_gress :: u8
  cr_time_scale :: u32

text \<open>The globals that the options change: the rule and the path.\<close>

record cgroup_opts =
  co_rule :: CgroupRule
  cgroup_path :: string

definition cgroup_opts_zero :: cgroup_opts where
  "cgroup_opts_zero = \<lparr>co_rule = \<lparr>cr_rate_bps = 0, cr_gress = 0, cr_time_scale = 0\<rparr>, cgroup_path = []\<rparr>"

definition cg_rule :: "(CgroupRule \<Rightarrow> CgroupRule) \<Rightarrow> cgroup_opts \<Rightarrow> cgroup_opts" where
  "cg_rule f c = c\<lparr>co_rule := f (co_rule c)\<rparr>"

definition cgroup_opt_rate :: "string \<Rightarrow> cgroup_opts \<Rightarrow> int + cgroup_opts" where
  "cgroup_opt_rate optarg c =
     (let v = cgroup_parse_bandwidth (Some optarg)
      in if v = 0 then Inl (- 1) else Inr (cg_rule (\<lambda>r. r\<lparr>cr_rate_bps := v\<rparr>) c))"

definition cgroup_case :: "char \<Rightarrow> string \<Rightarrow> cgroup_opts \<Rightarrow> int + cgroup_opts" where
  "cgroup_case opt optarg c =
     (if opt = CHR ''c'' then Inr (c\<lparr>cgroup_path := optarg\<rparr>)
      else if opt = CHR ''r'' then cgroup_opt_rate optarg c
      else if opt = CHR ''d'' then
        opt_choice [(''egress'', cg_rule (\<lambda>r. r\<lparr>cr_gress := 1\<rparr>) c), (''ingress'', cg_rule (\<lambda>r. r\<lparr>cr_gress := 0\<rparr>) c)] optarg
      else if opt = CHR ''t'' then opt_number 3600 optarg (\<lambda>v. cg_rule (\<lambda>r. r\<lparr>cr_time_scale := ucast v\<rparr>) c)
      else if opt = CHR ''h'' then Inl 0
      else Inl (- 1))"

definition cgroup_finish :: "cgroup_opts \<Rightarrow> int + cgroup_opts" where
  "cgroup_finish c =
     (if cgroup_path c = [] then Inl (- 1)
      else Inr (cg_rule (\<lambda>r.
        let r1 = (if cr_rate_bps r = 0 then r\<lparr>cr_rate_bps := PROC_DEFAULT_RATE\<rparr> else r)
        in if cr_time_scale r1 = 0 then r1\<lparr>cr_time_scale := 1\<rparr> else r1) c))"

definition cgroup_parse_args :: "(char \<times> string) list \<Rightarrow> cgroup_opts \<Rightarrow> int + cgroup_opts" where
  "cgroup_parse_args os c = (case opt_fold cgroup_case os c of Inl x \<Rightarrow> Inl x | Inr c' \<Rightarrow> cgroup_finish c')"

section \<open>Events\<close>

record cgroup_event =
  ce_pid :: u32
  ce_bytes_sent :: u32
  ce_bytes_dropped :: u32
  ce_packets_sent :: u32
  ce_packets_dropped :: u32
  ce_timestamp :: u64

text \<open>\<open>handle_traffic_event\<close>; the structure has 32 bytes.\<close>

definition cgroup_handle_event :: "cgroup_event \<Rightarrow> nat \<Rightarrow> string" where
  "cgroup_handle_event e data_sz =
     (if data_sz \<noteq> 32 then []
      else ''Tracked process: PID '' @ show_nat (unat (ce_pid e))
        @ (if ce_bytes_dropped e > 0 then '' [DROP] '' @ show_nat (unat (ce_bytes_dropped e)) @ '' bytes''
           else if ce_bytes_sent e > 0 then '' [SEND] '' @ show_nat (unat (ce_bytes_sent e)) @ '' bytes''
           else '' [MATCH]'') @ [NL])"

section \<open>The program\<close>

text \<open>\<open>Program g\<close> is the attachment of the program for direction \<open>g\<close> to the group.\<close>

datatype cgroup_res = CgSkel | CgFd int | Program u8 | CgRing

record cgroup_env =
  ge_uid :: int
  ge_opts :: "(char \<times> string) list"
  ge_skel :: bool
  ge_map :: bool
  ge_update :: int
  ge_open :: "string \<Rightarrow> int"
  ge_attach :: int
  ge_rb :: bool
  ge_polls :: "int list"
  ge_detach :: int

record cgroup_state =
  gs_err :: "int option"
  gs_fd :: int
  gs_rb :: bool
  gs_rules :: "u32 \<rightharpoonup> CgroupRule"
  gs_trace :: "cgroup_res res_event list"

definition gs_note :: "cgroup_res res_event list \<Rightarrow> cgroup_state \<Rightarrow> cgroup_state" where
  "gs_note evs s = s\<lparr>gs_trace := gs_trace s @ evs\<rparr>"

definition setup_cgroup_rules :: "cgroup_env \<Rightarrow> CgroupRule \<Rightarrow> cgroup_state \<Rightarrow> bool \<times> cgroup_state" where
  "setup_cgroup_rules e r s =
     (if \<not> ge_map e then (False, s)
      else if ge_update e \<noteq> 0 then (False, s)
      else (True, s\<lparr>gs_rules := (gs_rules s)(0 \<mapsto> r)\<rparr>))"

text \<open>The events of the loop, and the detaching, whose result replaces that of the last poll.\<close>

definition cgroup_watch :: "cgroup_env \<Rightarrow> CgroupRule \<Rightarrow> cgroup_state \<Rightarrow> cgroup_state" where
  "cgroup_watch e r s =
     (if \<not> ge_rb e then s\<lparr>gs_err := Some (- 1)\<rparr>
      else
        let s1 = (gs_note [Acq CgRing] s)\<lparr>gs_rb := True, gs_err := poll_events (ge_polls e) (gs_err s)\<rparr>;
            s2 = s1\<lparr>gs_err := Some (ge_detach e)\<rparr>
        in if ge_detach e = 0 then gs_note [Rel (Program (cr_gress r))] s2 else s2)"

definition cgroup_run :: "cgroup_env \<Rightarrow> cgroup_opts \<Rightarrow> cgroup_state \<Rightarrow> cgroup_state" where
  "cgroup_run e c s =
     (case setup_cgroup_rules e (co_rule c) s of
        (False, s1) \<Rightarrow> s1\<lparr>gs_err := Some (- 1)\<rparr>
      | (True, s1) \<Rightarrow>
          let fd = ge_open e (cgroup_path c); s2 = s1\<lparr>gs_fd := fd\<rparr>
          in if fd < 0 then s2\<lparr>gs_err := Some (- 1)\<rparr>
             else
               let s3 = (gs_note [Acq (CgFd fd)] s2)\<lparr>gs_err := Some (ge_attach e)\<rparr>
               in if ge_attach e \<noteq> 0 then s3
                  else cgroup_watch e (co_rule c) (gs_note [Acq (Program (cr_gress (co_rule c)))] s3))"

definition cgroup_cleanup :: "cgroup_state \<Rightarrow> cgroup_state" where
  "cgroup_cleanup s =
     gs_note ((if gs_fd s \<ge> 0 then [Rel (CgFd (gs_fd s))] else []) @ (if gs_rb s then [Rel CgRing] else []) @ [Rel CgSkel]) s"

definition cgroup_start :: "(u32 \<rightharpoonup> CgroupRule) \<Rightarrow> cgroup_state" where
  "cgroup_start m = \<lparr>gs_err = None, gs_fd = - 1, gs_rb = False, gs_rules = m, gs_trace = [Acq CgSkel]\<rparr>"

definition cgroup_main :: "cgroup_env \<Rightarrow> (u32 \<rightharpoonup> CgroupRule) \<Rightarrow> int + int option \<times> cgroup_state" where
  "cgroup_main e m =
     (if ge_uid e \<noteq> 0 then Inl 1
      else case cgroup_parse_args (ge_opts e) cgroup_opts_zero of
        Inl x \<Rightarrow> Inl x
      | Inr c \<Rightarrow>
          if cgroup_path c = [] \<or> hd (cgroup_path c) \<noteq> CHR ''/'' then Inl 1
          else if \<not> ge_skel e then Inl 1
          else let s = cgroup_cleanup (cgroup_run e c (cgroup_start m))
               in Inr (map_option (\<lambda>v. if v < 0 then - v else 0) (gs_err s), s))"

section \<open>Lemmas\<close>

definition cgroup_opts_ok :: "cgroup_opts \<Rightarrow> bool" where
  "cgroup_opts_ok c \<longleftrightarrow> cr_gress (co_rule c) \<le> 1 \<and> cr_time_scale (co_rule c) \<le> 3600"

interpretation cgroup_options: option_cases cgroup_case cgroup_opts_ok
proof
  fix c opt optarg c'
  assume ok: "cgroup_opts_ok c" and h: "cgroup_case opt optarg c = Inr c'"
  have range: "g \<le> 1 \<Longrightarrow> cgroup_opts_ok (cg_rule (\<lambda>r. r\<lparr>cr_gress := g\<rparr>) c)"
    "v \<le> 3600 \<Longrightarrow> cgroup_opts_ok (cg_rule (\<lambda>r. r\<lparr>cr_time_scale := ucast v\<rparr>) c)" for g and v :: u64
    using ok by (simp_all add: cgroup_opts_ok_def cg_rule_def ucast_u64_le)
  have rest: "cgroup_opt_rate optarg c = Inr c' \<Longrightarrow> cgroup_opts_ok c'" "cgroup_opts_ok (c\<lparr>cgroup_path := optarg\<rparr>)"
    using ok by (auto simp: cgroup_opt_rate_def cgroup_opts_ok_def cg_rule_def Let_def split: if_splits)
  from h show "cgroup_opts_ok c'"
    unfolding cgroup_case_def by (auto simp: range rest split: if_split_asm dest!: opt_number_stored)
qed

text \<open>An accepted command line names a group and gives a rate, a direction and a time scale.\<close>

lemma cgroup_parse_args_ok:
  assumes "cgroup_parse_args os cgroup_opts_zero = Inr c"
  shows "cgroup_path c \<noteq> [] \<and> cr_rate_bps (co_rule c) \<noteq> 0 \<and> cr_gress (co_rule c) \<le> 1
    \<and> 1 \<le> cr_time_scale (co_rule c) \<and> cr_time_scale (co_rule c) \<le> 3600"
proof -
  obtain c0 where c0: "opt_fold cgroup_case os cgroup_opts_zero = Inr c0" "cgroup_finish c0 = Inr c"
    using assms by (auto simp: cgroup_parse_args_def split: sum.splits)
  have "cgroup_opts_ok cgroup_opts_zero" by (simp add: cgroup_opts_ok_def cgroup_opts_zero_def)
  then have "cgroup_opts_ok c0" using cgroup_options.loop_ok c0(1) by blast
  then show ?thesis
    using c0(2) by (auto simp: cgroup_finish_def cgroup_opts_ok_def cg_rule_def Let_def one_le_word [symmetric] split: if_split_asm)
qed

lemma gs_note_simps [simp]:
  "gs_trace (gs_note evs s) = gs_trace s @ evs" "gs_fd (gs_note evs s) = gs_fd s" "gs_rb (gs_note evs s) = gs_rb s"
  "gs_err (gs_note evs s) = gs_err s" "gs_rules (gs_note evs s) = gs_rules s"
  by (simp_all add: gs_note_def)

text \<open>The status always comes from a variable with a value, and everything but the attachment is given back.\<close>

lemma cgroup_main_releases:
  assumes "cgroup_main e m = Inr (status, s)" "\<forall>g. x \<noteq> Program g"
  shows "balance x (gs_trace s) = 0 \<and> status \<noteq> None"
proof -
  obtain c where c: "s = cgroup_cleanup (cgroup_run e c (cgroup_start m))" "status = map_option (\<lambda>v. if v < 0 then - v else 0) (gs_err s)"
    using assms(1) by (auto simp: cgroup_main_def Let_def split: if_splits sum.splits)
  show ?thesis unfolding c using assms(2)
    by (auto simp: cgroup_cleanup_def cgroup_run_def cgroup_start_def cgroup_watch_def setup_cgroup_rules_def Let_def)
qed

text \<open>
  The attachment outlives the program when the ring buffer cannot be created: nothing detaches it, and it
  is not bound to a descriptor.
\<close>

lemma cgroup_main_leaves_program:
  assumes "cgroup_main e m = Inr (status, s)" "cgroup_parse_args (ge_opts e) cgroup_opts_zero = Inr c"
    "ge_map e" "ge_update e = 0" "0 \<le> ge_open e (cgroup_path c)" "ge_attach e = 0" "\<not> ge_rb e"
  shows "balance (Program (cr_gress (co_rule c))) (gs_trace s) = 1"
proof -
  have "s = cgroup_cleanup (cgroup_run e c (cgroup_start m))"
    using assms(1,2) by (auto simp: cgroup_main_def Let_def split: if_splits)
  then show ?thesis using assms(3-)
    by (simp add: cgroup_cleanup_def cgroup_run_def cgroup_start_def cgroup_watch_def setup_cgroup_rules_def Let_def)
qed

text \<open>A failed poll is forgotten: after a successful detaching the status is zero.\<close>

lemma cgroup_main_forgets_poll:
  assumes "cgroup_main e m = Inr (status, s)" "cgroup_parse_args (ge_opts e) cgroup_opts_zero = Inr c"
    "ge_map e" "ge_update e = 0" "0 \<le> ge_open e (cgroup_path c)" "ge_attach e = 0" "ge_rb e" "ge_detach e = 0"
  shows "status = Some 0"
proof -
  have "s = cgroup_cleanup (cgroup_run e c (cgroup_start m))" "status = map_option (\<lambda>v. if v < 0 then - v else 0) (gs_err s)"
    using assms(1,2) by (auto simp: cgroup_main_def Let_def split: if_splits)
  then show ?thesis using assms(3-)
    by (simp add: cgroup_cleanup_def cgroup_run_def cgroup_start_def cgroup_watch_def setup_cgroup_rules_def Let_def)
qed

end
