(* ===== verification/Tc_If.thy ===== *)
theory Tc_If
  imports Tc_Common
begin

text \<open>
  \<open>filter/tc-if.cpp\<close>: a limit on the traffic of a network interface, enforced by filters on the two
  traffic control hooks of the interface. The options that \<open>getopt_long\<close> yields, \<open>if_nametoindex\<close> and
  libbpf are parameters. The display of statistics at intervals is left out.
\<close>

section \<open>Options\<close>

record if_rule =
  if_rate_bps :: u64
  if_gress :: u8
  if_time_scale :: u32

record if_opts =
  io_rule :: if_rule
  ifindex :: u32

definition if_opts_zero :: if_opts where
  "if_opts_zero = \<lparr>io_rule = \<lparr>if_rate_bps = 0, if_gress = 0, if_time_scale = 0\<rparr>, ifindex = 0\<rparr>"

definition on_rule :: "(if_rule \<Rightarrow> if_rule) \<Rightarrow> if_opts \<Rightarrow> if_opts" where
  "on_rule f c = c\<lparr>io_rule := f (io_rule c)\<rparr>"

text \<open>A case that fails throws a \<open>runtime_error\<close> with the message given.\<close>

definition throwing :: "string \<Rightarrow> int + 'r \<Rightarrow> string + 'r" where
  "throwing msg x = (case x of Inl _ \<Rightarrow> Inl msg | Inr r \<Rightarrow> Inr r)"

definition if_opt_interface :: "(string \<Rightarrow> u32) \<Rightarrow> string \<Rightarrow> if_opts \<Rightarrow> string + if_opts" where
  "if_opt_interface nametoindex optarg c =
     (if nametoindex optarg = 0 then Inl ''Invalid interface name'' else Inr (c\<lparr>ifindex := nametoindex optarg\<rparr>))"

definition if_opt_rate :: "string \<Rightarrow> if_opts \<Rightarrow> string + if_opts" where
  "if_opt_rate optarg c =
     (let v = tc_parse_bandwidth (Some optarg)
      in if v = 0 then Inl ''Invalid rate limit'' else Inr (on_rule (\<lambda>r. r\<lparr>if_rate_bps := v\<rparr>) c))"

definition if_case :: "(string \<Rightarrow> u32) \<Rightarrow> char \<Rightarrow> string \<Rightarrow> if_opts \<Rightarrow> string + if_opts" where
  "if_case nametoindex opt optarg c =
     (if opt = CHR ''I'' then if_opt_interface nametoindex optarg c
      else if opt = CHR ''r'' then if_opt_rate optarg c
      else if opt = CHR ''d'' then
        throwing ''Invalid direction''
          (opt_choice [(''egress'', on_rule (\<lambda>r. r\<lparr>if_gress := 1\<rparr>) c), (''ingress'', on_rule (\<lambda>r. r\<lparr>if_gress := 0\<rparr>) c)] optarg)
      else if opt = CHR ''t'' then
        throwing ''Invalid time scale'' (opt_unsigned 3600 optarg (\<lambda>v. on_rule (\<lambda>r. r\<lparr>if_time_scale := ucast v\<rparr>) c))
      else if opt = CHR ''h'' then Inl ''Help requested''
      else Inl ''Invalid option'')"

text \<open>The rate is required; the default that follows in the code is never used.\<close>

definition if_finish :: "if_opts \<Rightarrow> string + if_opts" where
  "if_finish c =
     (if ifindex c = 0 then Inl ''Network interface must be specified''
      else if if_rate_bps (io_rule c) = 0 then Inl ''Rate limit must be specified''
      else Inr (on_rule (\<lambda>r.
        let r1 = (if if_rate_bps r = 0 then r\<lparr>if_rate_bps := TC_DEFAULT_RATE\<rparr> else r)
        in if if_time_scale r1 = 0 then r1\<lparr>if_time_scale := 1\<rparr> else r1) c))"

definition if_parse_args :: "(string \<Rightarrow> u32) \<Rightarrow> (char \<times> string) list \<Rightarrow> if_opts \<Rightarrow> string + if_opts" where
  "if_parse_args nametoindex os c =
     (case opt_fold (if_case nametoindex) os c of Inl msg \<Rightarrow> Inl msg | Inr c' \<Rightarrow> if_finish c')"

section \<open>Events\<close>

text \<open>\<open>%02x\<close> of a byte.\<close>

definition show_hex2 :: "u8 \<Rightarrow> string" where
  "show_hex2 b = [hex_char (unat b div 16), hex_char (unat b mod 16)]"

text \<open>\<open>snprintf\<close> into eighteen bytes.\<close>

fun mac_text :: "u8 list \<Rightarrow> string" where
  "mac_text [] = []"
| "mac_text [b] = show_hex2 b"
| "mac_text (b # c # bs) = show_hex2 b @ '':'' @ mac_text (c # bs)"

definition format_mac_address :: "u8 list \<Rightarrow> string" where
  "format_mac_address mac = take 17 (mac_text mac)"

definition get_ethertype_description :: "u16 \<Rightarrow> string" where
  "get_ethertype_description t =
     (if t = 0x0800 then ''IPv4'' else if t = 0x0806 then ''ARP'' else if t = 0x86DD then ''IPv6''
      else if t = 0x8100 then ''802.1Q VLAN'' else if t = 0x8847 then ''MPLS'' else if t = 0x8864 then ''PPPoE''
      else ''Unknown'')"

definition get_packet_type_description :: "u32 \<Rightarrow> string" where
  "get_packet_type_description t =
     (if t = 1 then ''IPv4'' else if t = 2 then ''ARP'' else if t = 3 then ''IPv6'' else if t = 4 then ''802.1Q VLAN''
      else if t = 5 then ''MPLS'' else if t = 6 then ''PPPoE'' else if t = 0 then ''Unknown/Other'' else ''Unknown'')"

definition format_flow_rate :: "u64 \<Rightarrow> string" where
  "format_flow_rate r =
     (if r \<ge> 1000000000 then show_nat (unat (r div 1000000000)) @ '' Gbps''
      else if r \<ge> 1000000 then show_nat (unat (r div 1000000)) @ '' Mbps''
      else if r \<ge> 1000 then show_nat (unat (r div 1000)) @ '' Kbps''
      else show_nat (unat r) @ '' bps'')"

record if_event =
  fe_action :: u32
  fe_bytes_sent :: u32
  fe_bytes_dropped :: u32
  fe_packets_sent :: u32
  fe_packets_dropped :: u32
  fe_timestamp :: u64
  fe_eth_src :: "u8 list"
  fe_eth_dst :: "u8 list"
  fe_eth_type :: u16
  fe_packet_size :: u32
  fe_packet_type :: u32
  fe_type_rate_bps :: u64
  fe_type_smooth_rate_bps :: u64

text \<open>\<open>handle_traffic_event\<close>: the lines it prints; the structure has 72 bytes.\<close>

definition if_handle_event :: "if_event \<Rightarrow> nat \<Rightarrow> string list" where
  "if_handle_event e data_sz =
     (if data_sz \<noteq> 72 then []
      else
        [''Interface Traffic: '',
         (if fe_bytes_dropped e > 0
          then ''[DROP] '' @ show_nat (unat (fe_bytes_dropped e)) @ '' bytes, '' @ show_nat (unat (fe_packets_dropped e)) @ '' packets''
          else if fe_bytes_sent e > 0
          then ''[PASS] '' @ show_nat (unat (fe_bytes_sent e)) @ '' bytes, '' @ show_nat (unat (fe_packets_sent e)) @ '' packets''
          else ''[MATCH]''),
         ''  Ethernet Header:'',
         ''    Source MAC: '' @ format_mac_address (fe_eth_src e),
         ''    Dest MAC:   '' @ format_mac_address (fe_eth_dst e),
         ''    EtherType:  0x'' @ show_hex (unat (fe_eth_type e)) @ '' ('' @ get_ethertype_description (fe_eth_type e) @ '')'',
         ''    Packet Size: '' @ show_nat (unat (fe_packet_size e)) @ '' bytes'',
         ''  Packet Type Statistics:'',
         ''    Type: '' @ get_packet_type_description (fe_packet_type e) @ '' (ID: '' @ show_nat (unat (fe_packet_type e)) @ '')'',
         ''    Current Flow Rate: '' @ format_flow_rate (fe_type_rate_bps e),
         ''    Smooth Flow Rate: '' @ format_flow_rate (fe_type_smooth_rate_bps e) @ '' (EMA)''])"

section \<open>The program\<close>

datatype direction = Egress | Ingress

text \<open>\<open>Filter d\<close> is the filter with handle 1 and priority 1 on hook \<open>d\<close> of the interface.\<close>

datatype if_res = Text | IfSkel | Hook direction | Filter direction | IfRing

record if_env =
  fv_uid :: int
  fv_opts :: "(char \<times> string) list"
  fv_index :: "string \<Rightarrow> u32"
  fv_malloc :: bool
  fv_show :: "bool \<times> bool"
  fv_skel :: bool
  fv_map :: bool
  fv_update :: int
  fv_hook :: "direction \<Rightarrow> int"
  fv_attach :: "direction \<Rightarrow> int"
  fv_rb :: bool
  fv_polls :: "int list"
  fv_detach :: "direction \<Rightarrow> int"
  fv_strerror :: "int \<Rightarrow> string"
  fv_file :: string

record if_state =
  fs_err :: int
  fs_hook :: "direction \<Rightarrow> bool"
  fs_rb :: bool
  fs_rules :: "u32 \<rightharpoonup> if_rule"
  fs_log :: ErrorHandler
  fs_trace :: "if_res res_event list"

definition fs_note :: "if_res res_event list \<Rightarrow> if_state \<Rightarrow> if_state" where
  "fs_note evs s = s\<lparr>fs_trace := fs_trace s @ evs\<rparr>"

definition if_log :: "if_env \<Rightarrow> string \<Rightarrow> int \<Rightarrow> ErrorCode \<Rightarrow> string \<Rightarrow> if_state \<Rightarrow> if_state" where
  "if_log e func line code msg s =
     s\<lparr>fs_log := log_entry (fs_log s) (error_info_init code (Some msg) (Some func) (Some (fv_file e)) line)\<rparr>"

definition if_setup_traffic_rules :: "if_env \<Rightarrow> if_rule \<Rightarrow> if_state \<Rightarrow> bool \<times> if_state" where
  "if_setup_traffic_rules e r s =
     (let s1 = s\<lparr>fs_log := (fs_log s)\<lparr>error_count := 0\<rparr>\<rparr>
      in if \<not> fv_skel e then
           (False, if_log e ''setup_traffic_rules'' 883 NULL_POINTER ''BPF skeleton is null''
              (if_log e ''log_error'' 282 NULL_POINTER ''Null pointer detected in BPF skeleton in setup_traffic_rules'' s1))
         else if \<not> fv_map e then
           (False, if_log e ''setup_traffic_rules'' 900 BPF_OPERATION_FAILED ''Cannot find traffic_rules map'' s1)
         else if fv_update e \<noteq> 0 then
           (False, if_log e ''setup_traffic_rules'' 937 BPF_OPERATION_FAILED ''Failed to set traffic control rules'' s1)
         else (True, s1\<lparr>fs_rules := (fs_rules s1)(0 \<mapsto> r)\<rparr>))"

definition validate_configuration :: "if_env \<Rightarrow> if_opts \<Rightarrow> bool \<times> if_res res_event list" where
  "validate_configuration e c =
     (let str = safe_string_create (fv_malloc e) (Some ''interface validation'') (Some ''validate_configuration'')
      in if \<not> safe_string_is_valid str then (False, [])
         else if ifindex c = 0 then (False, [Acq Text, Rel Text])
         else if if_rate_bps (io_rule c) = 0 then (False, [Acq Text, Rel Text])
         else if if_time_scale (io_rule c) < 1 \<or> if_time_scale (io_rule c) > 3600 then (False, [Acq Text, Rel Text])
         else if if_gress (io_rule c) \<noteq> 1 \<and> if_gress (io_rule c) \<noteq> 0 then (False, [Acq Text, Rel Text])
         else (True, [Acq Text, Rel Text]))"

definition report_operation_status :: "if_env \<Rightarrow> string \<Rightarrow> bool \<Rightarrow> string \<Rightarrow> if_state \<Rightarrow> if_state" where
  "report_operation_status e operation success details s =
     (if success then s
      else if_log e ''report_operation_status'' 1029 UNKNOWN_ERROR (''Operation failed: '' @ operation @ '' - '' @ details) s)"

definition hook_name :: "direction \<Rightarrow> string" where
  "hook_name d = (case d of Egress \<Rightarrow> ''egress'' | Ingress \<Rightarrow> ''ingress'')"

text \<open>\<open>bpf_tc_hook_create\<close>: a hook that exists is used, and not destroyed at the end.\<close>

definition create_hook :: "if_env \<Rightarrow> direction \<Rightarrow> if_state \<Rightarrow> bool \<times> if_state" where
  "create_hook e d s =
     (let err = fv_hook e d; s1 = s\<lparr>fs_err := err\<rparr>
      in if err = 0 then (True, (fs_note [Acq (Hook d)] s1)\<lparr>fs_hook := (fs_hook s1)(d := True)\<rparr>)
         else if err = - EEXIST then (True, s1)
         else (False, report_operation_status e (''TC hook creation ('' @ hook_name d @ '')'') False (fv_strerror e (- err)) s1))"

definition attach_filter :: "if_env \<Rightarrow> direction \<Rightarrow> if_state \<Rightarrow> bool \<times> if_state" where
  "attach_filter e d s =
     (let err = fv_attach e d; s1 = s\<lparr>fs_err := err\<rparr>
      in if err \<noteq> 0
         then (False, report_operation_status e (''TC program attachment ('' @ hook_name d @ '')'') False (fv_strerror e (- err)) s1)
         else (True, fs_note [Acq (Filter d)] s1))"

text \<open>\<open>display_statistics\<close>: its two strings; \<open>fv_show\<close> says which of their allocations succeed.\<close>

definition if_display_statistics :: "if_env \<Rightarrow> if_res res_event list" where
  "if_display_statistics e =
     (let stats_str = safe_string_create (fst (fv_show e)) (Some ''traffic statistics'') (Some ''display_statistics'');
          interface_str = safe_string_create (snd (fv_show e)) (Some ''interface information'') (Some ''display_statistics'')
      in if \<not> safe_string_is_valid stats_str then []
         else if \<not> safe_string_is_valid interface_str then [Acq Text, Rel Text]
         else [Acq Text, Acq Text, Rel Text, Rel Text])"

definition if_watch :: "if_env \<Rightarrow> if_state \<Rightarrow> if_state" where
  "if_watch e s =
     (if \<not> fv_rb e then s\<lparr>fs_err := - 1\<rparr>
      else (fs_note (Acq IfRing # if_display_statistics e) s)\<lparr>fs_rb := True,
             fs_err := (case poll_events (fv_polls e) (Some (fs_err s)) of Some v \<Rightarrow> v | None \<Rightarrow> fs_err s)\<rparr>)"

text \<open>The steps from the setting of the rules to the loop; the first that fails jumps to \<open>cleanup\<close>.\<close>

fun if_steps :: "(if_state \<Rightarrow> bool \<times> if_state) list \<Rightarrow> if_state \<Rightarrow> bool \<times> if_state" where
  "if_steps [] s = (True, s)"
| "if_steps (f # fs) s = (case f s of (True, s') \<Rightarrow> if_steps fs s' | (False, s') \<Rightarrow> (False, s'))"

definition if_run :: "if_env \<Rightarrow> if_rule \<Rightarrow> if_state \<Rightarrow> if_state" where
  "if_run e r s =
     (case if_steps [if_setup_traffic_rules e r, create_hook e Egress, create_hook e Ingress,
                     attach_filter e Egress, attach_filter e Ingress] s of
        (True, s') \<Rightarrow> if_watch e s' | (False, s') \<Rightarrow> s')"

text \<open>\<open>cleanup\<close>: both filters are detached in any case, and \<open>err\<close> is the result of the second.\<close>

definition if_cleanup :: "if_env \<Rightarrow> if_state \<Rightarrow> if_state" where
  "if_cleanup e s =
     fs_note ((if fv_detach e Egress = 0 then [Rel (Filter Egress)] else [])
       @ (if fv_detach e Ingress = 0 then [Rel (Filter Ingress)] else [])
       @ (if fs_hook s Egress then [Rel (Hook Egress)] else []) @ (if fs_hook s Ingress then [Rel (Hook Ingress)] else [])
       @ (if fs_rb s then [Rel IfRing] else []) @ [Rel IfSkel]) (s\<lparr>fs_err := fv_detach e Ingress\<rparr>)"

definition if_start :: "ErrorHandler \<Rightarrow> (u32 \<rightharpoonup> if_rule) \<Rightarrow> if_res res_event list \<Rightarrow> if_state" where
  "if_start h m evs = \<lparr>fs_err = 0, fs_hook = (\<lambda>_. False), fs_rb = False, fs_rules = m, fs_log = h, fs_trace = evs @ [Acq IfSkel]\<rparr>"

definition if_main :: "if_env \<Rightarrow> ErrorHandler \<Rightarrow> (u32 \<rightharpoonup> if_rule) \<Rightarrow> int + int \<times> if_state" where
  "if_main e h m =
     (if fv_uid e \<noteq> 0 then Inl 1
      else case if_parse_args (fv_index e) (fv_opts e) if_opts_zero of
        Inl msg \<Rightarrow> Inl 1
      | Inr c \<Rightarrow>
          (case validate_configuration e c of
             (False, evs) \<Rightarrow> Inl 1
           | (True, evs) \<Rightarrow>
               if \<not> fv_skel e then Inl 1
               else let s = if_cleanup e (if_run e (io_rule c) (if_start h m evs)) in Inr (if fs_err s < 0 then 1 else 0, s)))"

section \<open>Lemmas\<close>

definition if_opts_ok :: "if_opts \<Rightarrow> bool" where
  "if_opts_ok c \<longleftrightarrow> if_gress (io_rule c) \<le> 1 \<and> if_time_scale (io_rule c) \<le> 3600"

lemma throwing_stored: "throwing msg x = Inr r \<longleftrightarrow> x = Inr r"
  by (auto simp: throwing_def split: sum.splits)

interpretation if_options: option_cases "if_case nametoindex" if_opts_ok for nametoindex
proof
  fix c opt optarg c'
  assume ok: "if_opts_ok c" and h: "if_case nametoindex opt optarg c = Inr c'"
  have range: "g \<le> 1 \<Longrightarrow> if_opts_ok (on_rule (\<lambda>r. r\<lparr>if_gress := g\<rparr>) c)"
    "v \<le> 3600 \<Longrightarrow> if_opts_ok (on_rule (\<lambda>r. r\<lparr>if_time_scale := ucast v\<rparr>) c)" for g and v :: u64
    using ok by (simp_all add: if_opts_ok_def on_rule_def ucast_u64_le)
  have rest: "if_opt_rate optarg c = Inr c' \<Longrightarrow> if_opts_ok c'" "if_opt_interface nametoindex optarg c = Inr c' \<Longrightarrow> if_opts_ok c'"
    using ok by (auto simp: if_opt_rate_def if_opt_interface_def if_opts_ok_def on_rule_def Let_def split: if_split_asm)
  from h show "if_opts_ok c'"
    unfolding if_case_def by (auto simp: range rest throwing_stored split: if_split_asm dest!: opt_unsigned_stored)
qed

lemma if_parse_args_ok:
  assumes "if_parse_args nametoindex os if_opts_zero = Inr c"
  shows "ifindex c \<noteq> 0 \<and> if_rate_bps (io_rule c) \<noteq> 0 \<and> if_gress (io_rule c) \<le> 1
    \<and> 1 \<le> if_time_scale (io_rule c) \<and> if_time_scale (io_rule c) \<le> 3600"
proof -
  obtain c0 where c0: "opt_fold (if_case nametoindex) os if_opts_zero = Inr c0" "if_finish c0 = Inr c"
    using assms by (auto simp: if_parse_args_def split: sum.splits)
  have "if_opts_ok if_opts_zero" by (simp add: if_opts_ok_def if_opts_zero_def)
  then have "if_opts_ok c0" using if_options.loop_ok c0(1) by blast
  then show ?thesis
    using c0(2) by (auto simp: if_finish_def if_opts_ok_def on_rule_def Let_def one_le_word [symmetric] split: if_split_asm)
qed

lemma fs_note_simps [simp]:
  "fs_trace (fs_note evs s) = fs_trace s @ evs" "fs_err (fs_note evs s) = fs_err s" "fs_hook (fs_note evs s) = fs_hook s"
  "fs_rb (fs_note evs s) = fs_rb s" "fs_rules (fs_note evs s) = fs_rules s" "fs_log (fs_note evs s) = fs_log s"
  by (simp_all add: fs_note_def)

lemma if_log_simps [simp]:
  "fs_trace (if_log e f l c m s) = fs_trace s" "fs_err (if_log e f l c m s) = fs_err s" "fs_hook (if_log e f l c m s) = fs_hook s"
  "fs_rb (if_log e f l c m s) = fs_rb s" "fs_rules (if_log e f l c m s) = fs_rules s"
  by (simp_all add: if_log_def)

text \<open>What the variables show as held besides the filters.\<close>

definition if_held :: "if_res \<Rightarrow> if_state \<Rightarrow> int" where
  "if_held x s = (case x of Hook d \<Rightarrow> if fs_hook s d then 1 else 0 | IfRing \<Rightarrow> if fs_rb s then 1 else 0 | IfSkel \<Rightarrow> 1 | _ \<Rightarrow> 0)"

definition if_excess :: "if_res \<Rightarrow> if_state \<Rightarrow> int" where
  "if_excess x s = balance x (fs_trace s) - if_held x s"

lemma setup_account: "if_setup_traffic_rules e r s = (b, s') \<Longrightarrow>
    if_excess x s' = if_excess x s \<and> fs_hook s' = fs_hook s \<and> fs_rb s' = fs_rb s"
  by (cases x) (auto simp: if_setup_traffic_rules_def if_excess_def if_held_def Let_def split: if_split_asm)

lemma hook_account: "create_hook e d s = (b, s') \<Longrightarrow> \<not> fs_hook s d \<Longrightarrow>
    if_excess x s' = if_excess x s \<and> (\<forall>d'. d' \<noteq> d \<longrightarrow> fs_hook s' d' = fs_hook s d') \<and> fs_rb s' = fs_rb s"
  by (cases x) (auto simp: create_hook_def report_operation_status_def if_excess_def if_held_def Let_def split: if_split_asm)

lemma filter_account: "attach_filter e d s = (b, s') \<Longrightarrow>
    if_excess x s' = if_excess x s + (if b \<and> x = Filter d then 1 else 0) \<and> fs_rb s' = fs_rb s"
  by (cases x) (auto simp: attach_filter_def report_operation_status_def if_excess_def if_held_def Let_def split: if_split_asm)

lemma display_balance: "balance x (if_display_statistics e) = 0"
  by (simp add: if_display_statistics_def Let_def)

lemma watch_account: "\<not> fs_rb s \<Longrightarrow> if_excess x (if_watch e s) = if_excess x s"
  by (cases x) (auto simp: if_watch_def if_excess_def if_held_def display_balance)

text \<open>Which of the filters have been attached.\<close>

definition attached :: "if_env \<Rightarrow> direction \<Rightarrow> bool" where
  "attached e d \<longleftrightarrow> fv_map e \<and> fv_update e = 0 \<and> (\<forall>d'. fv_hook e d' = 0 \<or> fv_hook e d' = - EEXIST) \<and> fv_attach e Egress = 0
     \<and> (d = Ingress \<longrightarrow> fv_attach e Ingress = 0)"

lemma setup_succeeds: "fst (if_setup_traffic_rules e r s) \<longleftrightarrow> fv_skel e \<and> fv_map e \<and> fv_update e = 0"
  by (simp add: if_setup_traffic_rules_def Let_def)

lemma hook_succeeds: "fst (create_hook e d s) \<longleftrightarrow> fv_hook e d = 0 \<or> fv_hook e d = - EEXIST"
  by (simp add: create_hook_def Let_def)

lemma filter_succeeds: "fst (attach_filter e d s) \<longleftrightarrow> fv_attach e d = 0"
  by (simp add: attach_filter_def Let_def)

lemma all_directions: "(\<forall>d. P d) \<longleftrightarrow> P Egress \<and> P Ingress"
  using direction.exhaust by metis

lemma if_run_excess:
  assumes "fv_skel e" "balance x evs = 0"
  shows "if_excess x (if_run e r (if_start h m evs)) = (if \<exists>d. x = Filter d \<and> attached e d then 1 else 0)"
proof -
  have start: "if_excess x (if_start h m evs) = 0" "fs_hook (if_start h m evs) = (\<lambda>_. False)" "\<not> fs_rb (if_start h m evs)"
    using assms(2) by (simp_all add: if_start_def if_excess_def if_held_def split: if_res.split)
  obtain b1 s1 where a1: "if_setup_traffic_rules e r (if_start h m evs) = (b1, s1)" by fastforce
  obtain b2 s2 where a2: "create_hook e Egress s1 = (b2, s2)" by fastforce
  obtain b3 s3 where a3: "create_hook e Ingress s2 = (b3, s3)" by fastforce
  obtain b4 s4 where a4: "attach_filter e Egress s3 = (b4, s4)" by fastforce
  obtain b5 s5 where a5: "attach_filter e Ingress s4 = (b5, s5)" by fastforce
  have e1: "if_excess x s1 = 0" "fs_hook s1 = (\<lambda>_. False)" "\<not> fs_rb s1" using setup_account [OF a1, of x] start by simp_all
  have e2: "if_excess x s2 = 0" "\<not> fs_hook s2 Ingress" "\<not> fs_rb s2" using hook_account [OF a2, of x] e1 by auto
  have e3: "if_excess x s3 = 0" "\<not> fs_rb s3" using hook_account [OF a3, of x] e2 by auto
  have e4: "if_excess x s4 = (if b4 \<and> x = Filter Egress then 1 else 0)" "\<not> fs_rb s4" using filter_account [OF a4, of x] e3 by auto
  have e5: "if_excess x s5 = (if b4 \<and> x = Filter Egress then 1 else 0) + (if b5 \<and> x = Filter Ingress then 1 else 0)" "\<not> fs_rb s5"
    using filter_account [OF a5, of x] e4 by auto
  have b: "b1 \<longleftrightarrow> fv_map e \<and> fv_update e = 0" "b2 \<longleftrightarrow> fv_hook e Egress = 0 \<or> fv_hook e Egress = - EEXIST"
    "b3 \<longleftrightarrow> fv_hook e Ingress = 0 \<or> fv_hook e Ingress = - EEXIST" "b4 \<longleftrightarrow> fv_attach e Egress = 0" "b5 \<longleftrightarrow> fv_attach e Ingress = 0"
    using setup_succeeds [of e r "if_start h m evs"] hook_succeeds [of e Egress s1] hook_succeeds [of e Ingress s2]
      filter_succeeds [of e Egress s3] filter_succeeds [of e Ingress s4] a1 a2 a3 a4 a5 assms(1) by auto
  have run: "if_run e r (if_start h m evs) = (if \<not> b1 then s1 else if \<not> b2 then s2 else if \<not> b3 then s3 else if \<not> b4 then s4
      else if \<not> b5 then s5 else if_watch e s5)"
    using a1 a2 a3 a4 a5 by (simp add: if_run_def)
  have att: "attached e Egress \<longleftrightarrow> b1 \<and> b2 \<and> b3 \<and> b4" "attached e Ingress \<longleftrightarrow> b1 \<and> b2 \<and> b3 \<and> b4 \<and> b5"
    unfolding b attached_def all_directions [of "\<lambda>d. fv_hook e d = 0 \<or> fv_hook e d = - EEXIST"] by auto
  have ex: "(\<exists>d. x = Filter d \<and> attached e d) \<longleftrightarrow> x = Filter Egress \<and> attached e Egress \<or> x = Filter Ingress \<and> attached e Ingress"
    using direction.exhaust by metis
  show ?thesis unfolding run ex att using e1(1) e2(1) e3(1) e4(1) e5 watch_account [of s5 x e] by auto
qed

lemma if_cleanup_balance:
  "balance x (fs_trace (if_cleanup e s)) = if_excess x s - (if \<exists>d. x = Filter d \<and> fv_detach e d = 0 then 1 else 0)"
proof (cases x)
  case (Filter d)
  then show ?thesis by (cases d) (simp_all add: if_cleanup_def if_excess_def if_held_def)
next
  case (Hook d)
  then show ?thesis by (cases d) (simp_all add: if_cleanup_def if_excess_def if_held_def)
qed (simp_all add: if_cleanup_def if_excess_def if_held_def)

lemma validate_events: "validate_configuration e c = (b, evs) \<Longrightarrow> balance x evs = 0"
  by (auto simp: validate_configuration_def Let_def split: if_split_asm)

lemma if_main_run:
  assumes "if_main e h m = Inr (status, s)"
  obtains r evs where "s = if_cleanup e (if_run e r (if_start h m evs))" "balance x evs = 0" "fv_skel e"
    "status = (if fs_err s < 0 then 1 else 0)"
  using assms validate_events by (auto simp: if_main_def Let_def split: if_split_asm sum.splits prod.splits bool.splits)

section \<open>Properties\<close>

text \<open>C23: Every resource of \<open>tc-if\<close> besides the filters is given back exactly once on every path: a hook is
  destroyed if and only if this run created it. A filter is detached whether or not this run attached
  it, so one that belongs to another run goes with it.\<close>

theorem if_main_balance:
  assumes "if_main e h m = Inr (status, s)"
  shows "balance x (fs_trace s) =
    (case x of Filter d \<Rightarrow> (if attached e d then 1 else 0) - (if fv_detach e d = 0 then 1 else 0) | _ \<Rightarrow> 0)"
proof -
  obtain r evs where s: "s = if_cleanup e (if_run e r (if_start h m evs))" and evs: "balance x evs = 0" and sk: "fv_skel e"
    using if_main_run [OF assms] by metis
  show ?thesis unfolding s if_cleanup_balance if_run_excess [OF sk evs] by (simp split: if_res.split)
qed

definition ex_if_env :: if_env where
  "ex_if_env = \<lparr>fv_uid = 0, fv_opts = [(CHR ''I'', ''eth0''), (CHR ''r'', show_nat 5)], fv_index = (\<lambda>s. if s = ''eth0'' then 2 else 0),
     fv_malloc = True, fv_show = (True, True), fv_skel = True, fv_map = True, fv_update = 0, fv_hook = (\<lambda>d. if d = Egress then 0 else - 17),
     fv_attach = (\<lambda>_. - 17), fv_rb = True, fv_polls = [], fv_detach = (\<lambda>_. 0), fv_strerror = (\<lambda>_. ''File exists''), fv_file = ''tc-if.cpp''\<rparr>"

theorem if_main_balance_witness:
  "\<exists>s. if_main ex_if_env \<lparr>error_log = [], error_count = 0\<rparr> Map.empty = Inr (0, s)
     \<and> balance (Hook Egress) (fs_trace s) = 0 \<and> balance (Filter Egress) (fs_trace s) = - 1"
proof -
  have rate: "tc_parse_bandwidth (Some (show_nat 5)) = 5"
    by (simp add: tc_parse_bandwidth_def strtoul10_show_only scale_rate_def)
  obtain s where m: "if_main ex_if_env \<lparr>error_log = [], error_count = 0\<rparr> Map.empty = Inr (0, s)"
    by (simp add: if_main_def ex_if_env_def if_parse_args_def if_case_def if_opt_interface_def if_opt_rate_def rate if_finish_def
        if_opts_zero_def on_rule_def validate_configuration_def safe_string_create_def safe_string_is_valid_def Let_def if_cleanup_def)
  have "\<not> attached ex_if_env Egress" by (simp add: attached_def ex_if_env_def)
  with if_main_balance [OF m, of "Hook Egress"] if_main_balance [OF m, of "Filter Egress"] m show ?thesis by (auto simp: ex_if_env_def)
qed

text \<open>
  The status tells only whether the last detaching worked: a rule that could not be set, a hook that could
  not be created and a failed poll end with status zero when it did.
\<close>

lemma if_main_status:
  "if_main e h m = Inr (status, s) \<Longrightarrow> status = (if fv_detach e Ingress < 0 then 1 else 0)"
  by (auto simp: if_main_def if_cleanup_def Let_def split: if_split_asm sum.splits prod.splits bool.splits)

text \<open>The second validation never refuses what the first accepted.\<close>

lemma validate_accepts:
  assumes "if_parse_args (fv_index e) os if_opts_zero = Inr c" "fv_malloc e"
  shows "fst (validate_configuration e c)"
  using if_parse_args_ok [OF assms(1)] assms(2)
  by (auto simp: u8_le_1 validate_configuration_def safe_string_create_def safe_string_is_valid_def Let_def not_less)

section \<open>Hardware addresses\<close>

lemma hex_char_inj: "m < 16 \<Longrightarrow> n < 16 \<Longrightarrow> hex_char m = hex_char n \<Longrightarrow> m = n"
proof -
  assume a: "m < 16" "n < 16" "hex_char m = hex_char n"
  have "of_char (hex_char k) = (if k < 10 then 48 + k else 87 + k)" if "k < 16" for k :: nat
    using that by (simp add: hex_char_def digit_char_def)
  then have "(if m < 10 then 48 + m else 87 + m) = (if n < 10 then 48 + n else 87 + n)" using a by metis
  then show "m = n" by presburger
qed

lemma show_hex2_inj: "show_hex2 a = show_hex2 b \<Longrightarrow> a = b"
proof -
  assume h: "show_hex2 a = show_hex2 b"
  have lt: "unat c < 256" for c :: u8 using unsigned_less [of c, where ?'a = nat] by simp
  then have "unat c div 16 < 16" for c :: u8 using less_mult_imp_div_less [of "unat c" 16 16] by simp
  then have "unat a div 16 = unat b div 16" "unat a mod 16 = unat b mod 16"
    using h hex_char_inj by (auto simp: show_hex2_def)
  then have "unat a = unat b" by (metis div_mult_mod_eq)
  then show "a = b" by (simp add: word_unat_eq_iff)
qed

lemma mac_text_length: "bs \<noteq> [] \<Longrightarrow> length (mac_text bs) = 3 * length bs - 1"
  by (induction bs rule: mac_text.induct) (auto simp: show_hex2_def)

lemma mac_text_inj: "mac_text xs = mac_text ys \<Longrightarrow> length xs = length ys \<Longrightarrow> xs = ys"
proof (induction xs arbitrary: ys rule: mac_text.induct)
  case 1
  then show ?case by simp
next
  case (2 b)
  then show ?case by (cases ys) (auto dest: show_hex2_inj)
next
  case (3 b c bs)
  obtain b' c' bs' where ys: "ys = b' # c' # bs'" using 3(3) by (metis Suc_length_conv)
  then have "show_hex2 b = show_hex2 b'" "mac_text (c # bs) = mac_text (c' # bs')" using 3(2) by (auto simp: show_hex2_def)
  then show ?case using 3 ys show_hex2_inj by auto
qed

text \<open>A hardware address fits the eighteen bytes that \<open>snprintf\<close> is given, so nothing is cut off, and two
  different addresses are printed differently.\<close>

theorem format_mac_address_exact:
  assumes "length a = 6" "length b = 6"
  shows "format_mac_address a = mac_text a \<and> (format_mac_address a = format_mac_address b \<longrightarrow> a = b)"
proof -
  have "length (mac_text a) = 17" "length (mac_text b) = 17"
    using mac_text_length [of a] mac_text_length [of b] assms by fastforce+
  then show ?thesis using assms mac_text_inj [of a b] by (simp add: format_mac_address_def)
qed

theorem format_mac_address_exact_witness:
  "format_mac_address [0, 255, 1, 2, 3, 4] \<noteq> format_mac_address [0, 255, 1, 2, 3, 5]"
  using format_mac_address_exact [of "[0, 255, 1, 2, 3, 4]" "[0, 255, 1, 2, 3, 5]"] by auto

end
