(* ===== verification/C_Format.thy ===== *)
theory C_Format
  imports C_Strings
begin

text \<open>
  What the tools need to print the events of a BPF program: the conversions of \<open>printf\<close> with their widths, and
  reading the fields of a C structure from its bytes, which are little-endian.
\<close>

section \<open>Conversions\<close>

text \<open>A character array up to its NUL.\<close>

definition c_text :: "char list \<Rightarrow> string" where
  "c_text a = takeWhile (\<lambda>c. c \<noteq> NUL) a"

text \<open>\<open>%-ns\<close> and \<open>%ns\<close>.\<close>

definition pad_right :: "nat \<Rightarrow> string \<Rightarrow> string" where
  "pad_right n s = s @ replicate (n - length s) CHR '' ''"

definition pad_left :: "nat \<Rightarrow> string \<Rightarrow> string" where
  "pad_left n s = replicate (n - length s) CHR '' '' @ s"

definition zero_pad :: "nat \<Rightarrow> string \<Rightarrow> string" where
  "zero_pad n s = replicate (n - length s) CHR ''0'' @ s"

text \<open>\<open>%0nX\<close>.\<close>

definition hex_upper :: "char \<Rightarrow> char" where
  "hex_upper c = (if 97 \<le> (of_char c :: nat) \<and> (of_char c :: nat) \<le> 102 then char_of (of_char c - 32 :: nat) else c)"

definition fmt_X :: "nat \<Rightarrow> 'a::len word \<Rightarrow> string" where
  "fmt_X n w = zero_pad n (map hex_upper (show_hex (unat w)))"

text \<open>\<open>%u\<close> and \<open>%d\<close>.\<close>

definition fmt_u :: "'a::len word \<Rightarrow> string" where
  "fmt_u w = show_nat (unat w)"

definition fmt_d :: "'a::len word \<Rightarrow> string" where
  "fmt_d w = show_int (sint w)"

section \<open>Fields of a structure\<close>

primrec le_nat :: "bytes \<Rightarrow> nat" where
  "le_nat [] = 0"
| "le_nat (b # bs) = unat b + 256 * le_nat bs"

definition bytes_at :: "bytes \<Rightarrow> nat \<Rightarrow> nat \<Rightarrow> bytes" where
  "bytes_at bs off n = take n (drop off bs)"

definition u8_at :: "bytes \<Rightarrow> nat \<Rightarrow> u8" where "u8_at bs off = of_nat (le_nat (bytes_at bs off 1))"
definition u16_at :: "bytes \<Rightarrow> nat \<Rightarrow> u16" where "u16_at bs off = of_nat (le_nat (bytes_at bs off 2))"
definition u32_at :: "bytes \<Rightarrow> nat \<Rightarrow> u32" where "u32_at bs off = of_nat (le_nat (bytes_at bs off 4))"
definition u64_at :: "bytes \<Rightarrow> nat \<Rightarrow> u64" where "u64_at bs off = of_nat (le_nat (bytes_at bs off 8))"

definition byte_char :: "u8 \<Rightarrow> char" where "byte_char b = char_of (unat b)"

text \<open>The string that starts at an offset; \<open>None\<close> if the bytes end before its NUL.\<close>

definition cstr_at :: "bytes \<Rightarrow> nat \<Rightarrow> string option" where
  "cstr_at bs off =
     (let t = drop off bs; s = takeWhile (\<lambda>b. b \<noteq> 0) t in if length s = length t then None else Some (map byte_char s))"

text \<open>The eight bytes of a number, as characters.\<close>

definition le_chars :: "u64 \<Rightarrow> string" where
  "le_chars w = map (\<lambda>i. char_of (unat w div 256 ^ i mod 256)) [0..<8]"

text \<open>Bytes behind a structure do not change its fields.\<close>

lemma bytes_at_append: "off + n \<le> length bs \<Longrightarrow> bytes_at (bs @ r) off n = bytes_at bs off n"
  by (simp add: bytes_at_def)

lemma fields_append [simp]:
  "off + 1 \<le> length bs \<Longrightarrow> u8_at (bs @ r) off = u8_at bs off"
  "off + 2 \<le> length bs \<Longrightarrow> u16_at (bs @ r) off = u16_at bs off"
  "off + 4 \<le> length bs \<Longrightarrow> u32_at (bs @ r) off = u32_at bs off"
  "off + 8 \<le> length bs \<Longrightarrow> u64_at (bs @ r) off = u64_at bs off"
  by (simp_all add: u8_at_def u16_at_def u32_at_def u64_at_def bytes_at_append)

lemma takeWhile_stops: "x \<in> set xs \<Longrightarrow> \<not> P x \<Longrightarrow> length (takeWhile P xs) < length xs"
  by (induction xs) auto

lemma cstr_at_append:
  assumes "0 \<in> set (drop off bs)"
  shows "cstr_at (bs @ r) off = cstr_at bs off"
proof -
  have "drop off bs \<noteq> []" using assms by auto
  then have "off < length bs" by simp
  then have d: "drop off (bs @ r) = drop off bs @ r" by (simp only: drop_append) simp
  have "takeWhile (\<lambda>b. b \<noteq> 0) (drop off bs @ r) = takeWhile (\<lambda>b. b \<noteq> 0) (drop off bs)"
    by (rule takeWhile_append1 [OF assms]) blast
  moreover have "length (takeWhile (\<lambda>b. b \<noteq> 0) (drop off bs)) < length (drop off bs)"
    by (rule takeWhile_stops [OF assms]) simp
  ultimately show ?thesis unfolding cstr_at_def d Let_def by simp
qed

lemma cstr_at_some: "0 \<in> set (drop off bs) \<Longrightarrow> cstr_at bs off \<noteq> None"
  using takeWhile_stops [of 0 "drop off bs" "\<lambda>b. b \<noteq> 0"] by (simp add: cstr_at_def Let_def)

lemma uint_below: "unat w < 2 ^ 63 \<Longrightarrow> uint (w :: u64) < 2 ^ 63"
  unfolding unat_eq_nat_uint by (subst (asm) nat_less_iff) simp_all

lemma sint_small:
  assumes "unat w < 2 ^ 63"
  shows "sint (w :: u64) = int (unat w)"
proof -
  have "- (2 ^ 63) \<le> uint w" by (rule order_trans [OF _ uint_ge_0]) simp
  then have "signed_take_bit 63 (uint w) = uint w"
    using uint_below [OF assms] by (subst signed_take_bit_int_eq_self_iff) blast
  then show ?thesis by (simp add: sint_uint)
qed

end
