(* ===== verification/Signal_Filter.thy ===== *)
theory Signal_Filter
  imports Frtp_Policy Tc_Common C_Format
begin

text \<open>
  \<open>filter/signal-filter.cpp\<close>: a rule on sender, receiver and kind of signal, put into a map, and the lines
  printed for traced and intercepted signals. The options that \<open>getopt_long\<close> yields, the clock and
  libbpf are parameters, and so are \<open>EVENTNUMBER\<close> and \<open>MODE_RULE_FILTER\<close>, which a header outside the
  repository defines; \<open>rule.sig\<close> is taken to be an \<open>int\<close>.
\<close>

section \<open>Signals\<close>

definition signal_map :: "(string option \<times> int) list" where
  "signal_map =
    [(None, 0), (Some ''SIGHUP'', 1), (Some ''SIGINT'', 2), (Some ''SIGQUIT'', 3), (Some ''SIGILL'', 4),
     (Some ''SIGTRAP'', 5), (Some ''SIGABRT'', 6), (Some ''SIGBUS'', 7), (Some ''SIGFPE'', 8),
     (Some ''SIGKILL'', 9), (Some ''SIGUSR1'', 10), (Some ''SIGSEGV'', 11), (Some ''SIGUSR2'', 12),
     (Some ''SIGPIPE'', 13), (Some ''SIGALRM'', 14), (Some ''SIGTERM'', 15), (Some ''SIGSTKFLT'', 16),
     (Some ''SIGCHLD'', 17), (Some ''SIGCONT'', 18), (Some ''SIGSTOP'', 19), (Some ''SIGTSTP'', 20),
     (Some ''SIGTTIN'', 21), (Some ''SIGTTOU'', 22), (Some ''SIGURG'', 23), (Some ''SIGXCPU'', 24),
     (Some ''SIGXFSZ'', 25), (Some ''SIGVTALRM'', 26), (Some ''SIGPROF'', 27), (Some ''SIGWINCH'', 28),
     (Some ''SIGIO'', 29), (Some ''SIGPWR'', 30), (Some ''SIGSYS'', 31)]"

definition get_signal_name :: "int \<Rightarrow> string" where
  "get_signal_name sig =
     (if 0 \<le> sig \<and> sig < int (length signal_map)
      then case fst (signal_map ! nat sig) of Some n \<Rightarrow> n | None \<Rightarrow> ''UNKNOWN''
      else ''UNKNOWN'')"

fun lookup_signal :: "string \<Rightarrow> (string option \<times> int) list \<Rightarrow> int" where
  "lookup_signal s [] = - 1"
| "lookup_signal s ((nm, number) # ms) = (if nm = Some s then number else lookup_signal s ms)"

definition signal_name_to_number :: "string \<Rightarrow> int" where
  "signal_name_to_number signal_name = lookup_signal signal_name signal_map"

section \<open>The rule\<close>

record sig_rule =
  sender_pid :: int
  recv_pid :: int
  sender_uid :: u32
  sig :: int

definition sig_rule_zero :: sig_rule where
  "sig_rule_zero = \<lparr>sender_pid = 0, recv_pid = 0, sender_uid = 0, sig = 0\<rparr>"

definition sig_lopts :: "(char \<times> has_arg) list" where
  "sig_lopts = [(CHR ''P'', required_argument), (CHR ''p'', required_argument), (CHR ''U'', required_argument),
     (CHR ''S'', required_argument), (CHR ''h'', no_argument)]"

definition safe_str_to_uint32 :: "string \<Rightarrow> bool \<times> u64" where
  "safe_str_to_uint32 str = str_to_unsigned 4294967295 str 0"

definition safe_str_to_pid_t :: "string \<Rightarrow> int \<Rightarrow> bool \<times> int" where
  "safe_str_to_pid_t str old = str_to_signed 1 2147483647 str old"

definition safe_str_to_uid_t :: "string \<Rightarrow> bool \<times> u64" where
  "safe_str_to_uid_t str = str_to_unsigned 4294967295 str 0"

definition sig_opt_pid :: "string \<Rightarrow> int \<Rightarrow> (int \<Rightarrow> sig_rule) \<Rightarrow> int + sig_rule" where
  "sig_opt_pid optarg old store =
     (case safe_str_to_pid_t optarg old of (ok, v) \<Rightarrow> if \<not> ok \<or> v = 0 then Inl (- 1) else Inr (store v))"

definition opt_uid :: "string \<Rightarrow> sig_rule \<Rightarrow> int + sig_rule" where
  "opt_uid optarg r =
     (case safe_str_to_uid_t optarg of (ok, v) \<Rightarrow> if \<not> ok then Inl (- 1) else Inr (r\<lparr>sender_uid := ucast v\<rparr>))"

definition opt_sig :: "string \<Rightarrow> sig_rule \<Rightarrow> int + sig_rule" where
  "opt_sig optarg r =
     (let n = signal_name_to_number optarg
      in if n = - 1 then
           (case safe_str_to_uint32 optarg of (ok, v) \<Rightarrow>
              if \<not> ok \<or> v = 0 \<or> v > 31 then Inl (- 1) else Inr (r\<lparr>sig := int (unat v)\<rparr>))
         else Inr (r\<lparr>sig := n\<rparr>))"

definition sig_case :: "char \<Rightarrow> string \<Rightarrow> sig_rule \<Rightarrow> int + sig_rule" where
  "sig_case opt optarg r =
     (if opt = CHR ''P'' then sig_opt_pid optarg (sender_pid r) (\<lambda>v. r\<lparr>sender_pid := v\<rparr>)
      else if opt = CHR ''p'' then sig_opt_pid optarg (recv_pid r) (\<lambda>v. r\<lparr>recv_pid := v\<rparr>)
      else if opt = CHR ''U'' then opt_uid optarg r
      else if opt = CHR ''S'' then opt_sig optarg r
      else if opt = CHR ''h'' then Inl 0
      else Inl (- 1))"

definition sig_parse_args :: "(char \<times> string) list \<Rightarrow> sig_rule \<Rightarrow> int + sig_rule" where
  "sig_parse_args os r = opt_fold sig_case os r"

section \<open>Events\<close>

text \<open>The two names are arrays of sixteen characters, \<open>filter_flag\<close> is a signed \<open>char\<close>.\<close>

record sig_event =
  se_sender_pid :: u32
  se_sender_comm :: "char list"
  se_target_pid :: u32
  se_target_comm :: "char list"
  se_sig :: u32
  se_result :: int
  se_generate_time :: u64
  se_deliver_time :: u64
  se_action :: u32
  se_timestamp :: u64
  se_filter_flag :: int

text \<open>
  \<open>handle_trace_event\<close>: the code and the line; \<open>now\<close> is what \<open>format_time\<close> gives and \<open>us\<close> prints
  nanoseconds as microseconds with two decimals.
\<close>

definition handle_trace_event :: "string \<Rightarrow> (u64 \<Rightarrow> string) \<Rightarrow> sig_event \<Rightarrow> nat \<Rightarrow> int \<times> string" where
  "handle_trace_event now us e data_sz =
     (if data_sz \<noteq> 88 then (- 1, [])
      else if NUL \<notin> set (se_sender_comm e) \<or> NUL \<notin> set (se_target_comm e) then (- 1, [])
      else (0, pad_right 8 now @ '' '' @ pad_left 10 (show_nat (unat (se_sender_pid e))) @ ''            ''
        @ pad_right 12 (c_text (se_sender_comm e)) @ ''  '' @ pad_left 10 (show_nat (unat (se_target_pid e))) @ ''           ''
        @ pad_right 12 (c_text (se_target_comm e)) @ ''       '' @ pad_right 12 (get_signal_name (sint (se_sig e))) @ ''   ''
        @ pad_right 12 (show_int (se_result e)) @ ''   '' @ pad_right 8 (us (se_deliver_time e - se_generate_time e)) @ '' us'' @ [NL]))"

definition handle_intercept_event :: "string \<Rightarrow> sig_event \<Rightarrow> nat \<Rightarrow> int \<times> string" where
  "handle_intercept_event now e data_sz =
     (if data_sz \<noteq> 88 then (- 1, [])
      else if NUL \<notin> set (se_target_comm e) then (- 1, [])
      else (0, ''[INTERCEPT] '' @ pad_right 8 now @ '' '' @ pad_left 10 (show_nat (unat (se_target_pid e))) @ ''            ''
        @ pad_right 12 (c_text (se_target_comm e)) @ ''         '' @ pad_right 12 (get_signal_name (sint (se_sig e))) @ ''            ''
        @ pad_right 8 (if se_action e = 1 then ''BLOCKED'' else ''ALLOWED'') @ [NL]))"

text \<open>
  \<open>handle_all_event\<close>: a flag within \<open>EVENTNUMBER\<close> picks an entry of the table, whose entries after the
  first two are null; \<open>None\<close> is a call through one of those.
\<close>

definition handle_all_event :: "int \<Rightarrow> string \<Rightarrow> (u64 \<Rightarrow> string) \<Rightarrow> sig_event \<Rightarrow> nat \<Rightarrow> (int \<times> string) option" where
  "handle_all_event eventnumber now us e data_sz =
     (if data_sz \<noteq> 88 then Some (- 1, [])
      else if se_filter_flag e < 0 \<or> se_filter_flag e \<ge> eventnumber then Some (- 1, [])
      else if se_filter_flag e = 0 then Some (handle_trace_event now us e data_sz)
      else if se_filter_flag e = 1 then Some (handle_intercept_event now e data_sz)
      else None)"

section \<open>The program\<close>

datatype sig_res = SigSkel | SigRing

record sig_env =
  sv_uid :: int
  sv_opts :: "(char \<times> string) list"
  sv_rlimit :: int
  sv_open :: bool
  sv_load :: int
  sv_attach :: int
  sv_upd_mode :: int
  sv_upd_rule :: int
  sv_rb :: bool
  sv_polls :: "int list"
  sv_mode :: u32

record sig_state =
  ss_mode :: "u32 \<rightharpoonup> u32"
  ss_rules :: "u32 \<rightharpoonup> sig_rule"
  ss_rule :: sig_rule
  ss_running :: bool
  ss_trace :: "sig_res res_event list"

definition ss_note :: "sig_res res_event list \<Rightarrow> sig_state \<Rightarrow> sig_state" where
  "ss_note evs s = s\<lparr>ss_trace := ss_trace s @ evs\<rparr>"

definition setup_bpf_maps :: "sig_env \<Rightarrow> sig_state \<Rightarrow> bool \<times> sig_state" where
  "setup_bpf_maps e s =
     (if sv_upd_mode e \<noteq> 0 then (False, s)
      else
        let s1 = s\<lparr>ss_mode := (ss_mode s)(0 \<mapsto> sv_mode e)\<rparr>
        in if sv_upd_rule e \<noteq> 0 then (False, s1) else (True, s1\<lparr>ss_rules := (ss_rules s1)(0 \<mapsto> ss_rule s1)\<rparr>))"

definition setup_bpf_program :: "sig_env \<Rightarrow> sig_state \<Rightarrow> bool \<times> sig_state" where
  "setup_bpf_program e s =
     (if \<not> sv_open e then (False, s)
      else if sv_load e \<noteq> 0 then (False, ss_note [Acq SigSkel, Rel SigSkel] s)
      else if sv_attach e \<noteq> 0 then (False, ss_note [Acq SigSkel, Rel SigSkel] s)
      else (True, ss_note [Acq SigSkel] s))"

definition setup_ring_buffer :: "sig_env \<Rightarrow> sig_state \<Rightarrow> bool \<times> sig_state" where
  "setup_ring_buffer e s = (if sv_rb e then (True, ss_note [Acq SigRing] s) else (False, s))"

definition initialize_signal_filter :: "sig_env \<Rightarrow> sig_state \<Rightarrow> bool \<times> sig_state" where
  "initialize_signal_filter e s =
     (if sv_rlimit e \<noteq> 0 then (False, s)
      else case setup_bpf_program e s of
        (False, s1) \<Rightarrow> (False, s1)
      | (True, s1) \<Rightarrow>
          (case setup_bpf_maps e s1 of
             (False, s2) \<Rightarrow> (False, ss_note [Rel SigSkel] s2)
           | (True, s2) \<Rightarrow>
               (case setup_ring_buffer e s2 of
                  (False, s3) \<Rightarrow> (False, ss_note [Rel SigSkel] s3)
                | (True, s3) \<Rightarrow> (True, s3))))"

text \<open>The loop over the results of the polls, until a signal clears \<open>running\<close>: how many were handled.\<close>

fun run_event_loop :: "int list \<Rightarrow> nat" where
  "run_event_loop [] = 0"
| "run_event_loop (err # errs) = (if err < 0 then 0 else Suc (run_event_loop errs))"

definition cleanup_resources :: "sig_state \<Rightarrow> sig_state" where
  "cleanup_resources s = ss_note [Rel SigRing, Rel SigSkel] (s\<lparr>ss_running := False, ss_rule := sig_rule_zero\<rparr>)"

definition sig_main :: "sig_env \<Rightarrow> (u32 \<rightharpoonup> u32) \<Rightarrow> (u32 \<rightharpoonup> sig_rule) \<Rightarrow> int \<times> sig_state" where
  "sig_main e m rs =
     (let s = \<lparr>ss_mode = m, ss_rules = rs, ss_rule = sig_rule_zero, ss_running = True, ss_trace = []\<rparr>
      in if sv_uid e \<noteq> 0 then (1, s)
         else case sig_parse_args (sv_opts e) sig_rule_zero of
           Inl c \<Rightarrow> (c, s)
         | Inr r \<Rightarrow>
             (case initialize_signal_filter e (s\<lparr>ss_rule := r\<rparr>) of
                (False, s1) \<Rightarrow> (1, s1)
              | (True, s1) \<Rightarrow> (0, cleanup_resources s1)))"

section \<open>Properties\<close>

lemma signal_table:
  "\<forall>n \<in> set [1..31]. signal_name_to_number (get_signal_name n) = n \<and> get_signal_name n \<noteq> ''UNKNOWN''"
  by code_simp

lemma lookup_signal_member: "lookup_signal s ms \<noteq> - 1 \<Longrightarrow> (Some s, lookup_signal s ms) \<in> set ms"
  by (induction s ms rule: lookup_signal.induct) (auto split: if_splits)

lemma signal_table_all: "\<forall>(nm, n) \<in> set signal_map. nm \<noteq> None \<longrightarrow> 1 \<le> n \<and> n \<le> 31 \<and> nm = Some (get_signal_name n)"
  by code_simp

lemma signal_table_names: "(Some s, n) \<in> set signal_map \<Longrightarrow> 1 \<le> n \<and> n \<le> 31 \<and> get_signal_name n = s"
  using signal_table_all by (auto simp del: One_nat_def)

text \<open>The table of signals is consistent: the number of the name of a signal is the signal, for all
  thirty-one, and a name that is found is the name of its number.\<close>

theorem signal_names_roundtrip:
  "(\<forall>n. 1 \<le> n \<and> n \<le> 31 \<longrightarrow> signal_name_to_number (get_signal_name n) = n)
    \<and> (\<forall>s. signal_name_to_number s \<noteq> - 1 \<longrightarrow> get_signal_name (signal_name_to_number s) = s)"
proof -
  have "signal_name_to_number (get_signal_name n) = n" if "1 \<le> n" "n \<le> 31" for n
    using signal_table that unfolding set_upto by (meson atLeastAtMost_iff)
  moreover have "get_signal_name (signal_name_to_number s) = s" if "signal_name_to_number s \<noteq> - 1" for s
  proof -
    have "(Some s, signal_name_to_number s) \<in> set signal_map"
      using lookup_signal_member [of s signal_map] that by (simp add: signal_name_to_number_def)
    then show ?thesis by (simp only: signal_table_names)
  qed
  ultimately show ?thesis by blast
qed

theorem signal_names_roundtrip_witness: "signal_name_to_number (get_signal_name 9) = 9"
  using signal_names_roundtrip by (elim conjE allE [of _ 9]) simp

text \<open>A rule that has been accepted names processes with positive identifiers and a signal up to 31, or leaves them out.\<close>

definition sig_rule_ok :: "sig_rule \<Rightarrow> bool" where
  "sig_rule_ok r \<longleftrightarrow> 0 \<le> sender_pid r \<and> 0 \<le> recv_pid r \<and> 0 \<le> sig r \<and> sig r \<le> 31"

lemma sig_opt_pid_stored: "sig_opt_pid a old store = Inr r \<Longrightarrow> \<exists>v \<ge> 1. r = store v"
  by (fastforce simp: sig_opt_pid_def safe_str_to_pid_t_def str_to_signed_def not_less split: prod.splits if_splits)

lemma opt_sig_stored:
  assumes "opt_sig a r = Inr r'"
  shows "\<exists>n. 1 \<le> n \<and> n \<le> 31 \<and> r' = r\<lparr>sig := n\<rparr>"
proof (cases "signal_name_to_number a = - 1")
  case True
  obtain ok v where sv: "safe_str_to_uint32 a = (ok, v)" by fastforce
  have v: "v \<noteq> 0" "\<not> v > 31" "r' = r\<lparr>sig := int (unat v)\<rparr>"
    using assms True sv by (auto simp: opt_sig_def split: if_split_asm)
  have "0 < unat v" "unat v \<le> 31" using v(1,2) by (simp_all add: word_less_nat_alt unat_gt_0)
  then have "1 \<le> int (unat v)" "int (unat v) \<le> 31" by linarith+
  with v(3) show ?thesis by blast
next
  case False
  then have "(Some a, signal_name_to_number a) \<in> set signal_map"
    using lookup_signal_member [of a signal_map] by (simp add: signal_name_to_number_def)
  then have "1 \<le> signal_name_to_number a" "signal_name_to_number a \<le> 31" using signal_table_names by simp_all
  then show ?thesis using assms False by (auto simp: opt_sig_def)
qed

interpretation sig_options: option_cases sig_case sig_rule_ok
proof
  fix r opt optarg r'
  assume ok: "sig_rule_ok r" and h: "sig_case opt optarg r = Inr r'"
  have stored: "1 \<le> v \<Longrightarrow> sig_rule_ok (r\<lparr>sender_pid := v\<rparr>)" "1 \<le> v \<Longrightarrow> sig_rule_ok (r\<lparr>recv_pid := v\<rparr>)"
    "1 \<le> v \<Longrightarrow> v \<le> 31 \<Longrightarrow> sig_rule_ok (r\<lparr>sig := v\<rparr>)" for v
    using ok by (simp_all add: sig_rule_ok_def)
  have uid: "opt_uid optarg r = Inr r' \<Longrightarrow> sig_rule_ok r'"
    using ok by (auto simp: opt_uid_def sig_rule_ok_def split: prod.splits if_splits)
  from h show "sig_rule_ok r'"
    unfolding sig_case_def by (auto simp: stored uid split: if_split_asm dest!: sig_opt_pid_stored opt_sig_stored)
qed

lemma sig_parse_args_ok: "sig_parse_args os sig_rule_zero = Inr r \<Longrightarrow> sig_rule_ok r"
  unfolding sig_parse_args_def by (rule sig_options.loop_ok [of sig_rule_zero]) (simp_all add: sig_rule_ok_def sig_rule_zero_def)

lemma ss_note_simps [simp]:
  "ss_trace (ss_note evs s) = ss_trace s @ evs" "ss_mode (ss_note evs s) = ss_mode s" "ss_rules (ss_note evs s) = ss_rules s"
  "ss_rule (ss_note evs s) = ss_rule s"
  by (simp_all add: ss_note_def)

text \<open>\<open>signal-filter\<close> releases everything on every path, and it reports success only if the rule it was
  given is in the map and the interception mode is set.\<close>

theorem sig_main_correct:
  assumes "sig_main e m rs = (status, s)"
  shows "balance x (ss_trace s) = 0
    \<and> (status = 0 \<longrightarrow> sv_uid e = 0 \<and> (sig_parse_args (sv_opts e) sig_rule_zero = Inl 0
        \<or> (\<exists>r. sig_parse_args (sv_opts e) sig_rule_zero = Inr r \<and> sig_rule_ok r
             \<and> ss_rules s = rs(0 \<mapsto> r) \<and> ss_mode s = m(0 \<mapsto> sv_mode e))))"
proof (cases "sv_uid e = 0")
  case False
  then show ?thesis using assms by (auto simp: sig_main_def Let_def)
next
  case True
  show ?thesis
  proof (cases "sig_parse_args (sv_opts e) sig_rule_zero")
    case (Inl c)
    then show ?thesis using assms True by (auto simp: sig_main_def Let_def)
  next
    case (Inr r)
    note ok = sig_parse_args_ok [OF Inr]
    show ?thesis using assms True Inr ok
      by (auto simp: sig_main_def initialize_signal_filter_def setup_bpf_program_def setup_bpf_maps_def setup_ring_buffer_def
          cleanup_resources_def Let_def split: if_split_asm)
  qed
qed

definition ex_sig_env :: sig_env where
  "ex_sig_env = \<lparr>sv_uid = 0, sv_opts = [(CHR ''S'', ''SIGKILL'')], sv_rlimit = 0, sv_open = True, sv_load = 0, sv_attach = 0,
     sv_upd_mode = 0, sv_upd_rule = 0, sv_rb = True, sv_polls = [0, 3, - 4], sv_mode = 2\<rparr>"

theorem sig_main_correct_witness:
  "\<exists>s. sig_main ex_sig_env Map.empty Map.empty = (0, s) \<and> balance SigSkel (ss_trace s) = 0
     \<and> ss_rules s = Map.empty(0 \<mapsto> sig_rule_zero\<lparr>sig := 9\<rparr>)"
proof -
  have "signal_name_to_number ''SIGKILL'' = 9" by code_simp
  then have a: "sig_parse_args (sv_opts ex_sig_env) sig_rule_zero = Inr (sig_rule_zero\<lparr>sig := 9\<rparr>)"
    by (simp add: ex_sig_env_def sig_parse_args_def sig_case_def opt_sig_def)
  then obtain s where s: "sig_main ex_sig_env Map.empty Map.empty = (0, s)"
    by (simp add: sig_main_def ex_sig_env_def initialize_signal_filter_def setup_bpf_program_def setup_bpf_maps_def
        setup_ring_buffer_def Let_def)
  from sig_main_correct [OF this, of SigSkel] s a show ?thesis by auto
qed

text \<open>With two kinds of events the table is never left.\<close>

lemma handle_all_event_total: "n \<le> 2 \<Longrightarrow> handle_all_event n now us e sz \<noteq> None"
  by (simp add: handle_all_event_def)

text \<open>A name of sixteen characters without a final NUL is refused, so no line reads past an array.\<close>

lemma handle_trace_event_bounded:
  "handle_trace_event now us e sz = (0, line) \<Longrightarrow> length (se_sender_comm e) = 16 \<Longrightarrow> length (c_text (se_sender_comm e)) < 16"
proof -
  assume "handle_trace_event now us e sz = (0, line)" and len: "length (se_sender_comm e) = 16"
  then have "NUL \<in> set (se_sender_comm e)" by (auto simp: handle_trace_event_def split: if_splits)
  then have "takeWhile (\<lambda>c. c \<noteq> NUL) (se_sender_comm e) \<noteq> se_sender_comm e" by (simp add: takeWhile_eq_all_conv)
  then have "length (takeWhile (\<lambda>c. c \<noteq> NUL) (se_sender_comm e)) \<noteq> length (se_sender_comm e)"
    by (metis takeWhile_eq_take take_all order_refl)
  with length_takeWhile_le [of "\<lambda>c. c \<noteq> NUL" "se_sender_comm e"] len show ?thesis by (simp add: c_text_def)
qed

end
