(* ===== verification/Rm_Forbid.thy ===== *)
theory Rm_Forbid
  imports Frtp_Policy Tc_Common
begin

text \<open>
  \<open>filter/rm-forbid.cpp\<close>: one file, named by device and inode, is protected from removal. The options
  that \<open>getopt_long\<close> yields, \<open>access\<close>, \<open>stat\<close> and libbpf are parameters.
\<close>

record rm_rule =
  rm_dev :: u64
  rm_inode :: u64

definition rm_lopts :: "(char \<times> has_arg) list" where
  "rm_lopts = [(CHR ''p'', required_argument), (CHR ''d'', required_argument), (CHR ''i'', required_argument), (CHR ''h'', no_argument)]"

text \<open>\<open>get_fs_dev\<close>: the program exits with status 1 when the file cannot be found.\<close>

definition get_fs_dev :: "(string \<Rightarrow> bool) \<Rightarrow> fsys \<Rightarrow> string \<Rightarrow> int + u64" where
  "get_fs_dev accessible fs path =
     (if \<not> accessible path then Inl 1
      else case fs_stat fs path of None \<Rightarrow> Inl 1 | Some (k, dev, ino) \<Rightarrow> Inr dev)"

text \<open>The store of \<open>atoi\<close> into the inode extends the sign.\<close>

definition rm_case :: "(string \<Rightarrow> bool) \<Rightarrow> fsys \<Rightarrow> char \<Rightarrow> string \<Rightarrow> rm_rule \<Rightarrow> int + rm_rule" where
  "rm_case accessible fs opt optarg r =
     (if opt = CHR ''p'' then (case get_fs_dev accessible fs optarg of Inl c \<Rightarrow> Inl c | Inr dev \<Rightarrow> Inr (r\<lparr>rm_dev := dev\<rparr>))
      else if opt = CHR ''d'' then (case strtoul10 optarg of (v, rest, erange) \<Rightarrow> Inr (r\<lparr>rm_dev := v\<rparr>))
      else if opt = CHR ''i'' then Inr (r\<lparr>rm_inode := of_int (atoi optarg)\<rparr>)
      else if opt = CHR ''h'' then Inl 0
      else Inl (- 1))"

definition rm_parse_args :: "(string \<Rightarrow> bool) \<Rightarrow> fsys \<Rightarrow> (char \<times> string) list \<Rightarrow> rm_rule \<Rightarrow> int + rm_rule" where
  "rm_parse_args accessible fs os r = opt_fold (rm_case accessible fs) os r"

record rm_env =
  rm_opts :: "(char \<times> string) list"
  rm_accessible :: "string \<Rightarrow> bool"
  rm_fs :: fsys
  rm_signal :: int
  rm_load :: bool
  rm_attach :: int
  rm_map_fd :: int
  rm_update :: int

datatype rm_res = RmObj | RmAttached

text \<open>\<open>main\<close>: the status, the resources and the map \<open>filter\<close>.\<close>

definition rm_main :: "rm_env \<Rightarrow> (int \<rightharpoonup> rm_rule) \<Rightarrow> int \<times> rm_res res_event list \<times> (int \<rightharpoonup> rm_rule)" where
  "rm_main e m =
     (case rm_parse_args (rm_accessible e) (rm_fs e) (rm_opts e) \<lparr>rm_dev = 0, rm_inode = 0\<rparr> of
        Inl c \<Rightarrow> (c, [], m)
      | Inr r \<Rightarrow>
          if rm_signal e = - 1 then (1, [], m)
          else if \<not> rm_load e then (- 1, [], m)
          else if rm_attach e \<noteq> 0 then (- 1, [Acq RmObj], m)
          else
            let m' = (if rm_map_fd e < 0 then m else if rm_update e \<noteq> 0 then m else m(0 \<mapsto> r))
            in (0, [Acq RmObj, Acq RmAttached, Rel RmAttached, Rel RmObj], m'))"

section \<open>What the options can say\<close>

text \<open>Naming a file by its path protects nothing by itself: \<open>-p\<close> sets the device only, so the rule
  that reaches the kernel keeps inode zero, although the help calls it the path of the file to watch.\<close>

theorem rm_path_sets_device_only:
  assumes "rm_parse_args acc fs [(CHR ''p'', path)] \<lparr>rm_dev = 0, rm_inode = 0\<rparr> = Inr r"
  shows "rm_inode r = 0 \<and> (\<exists>k i. fs_stat fs path = Some (k, rm_dev r, i))"
  using assms by (auto simp: rm_parse_args_def rm_case_def get_fs_dev_def split: if_splits option.splits sum.splits)

definition ex_rm_fs :: fsys where
  "ex_rm_fs = \<lparr>fs_access = (\<lambda>_. True), fs_stat = (\<lambda>p. if p = ''/a'' then Some (Regular, 2049, 77) else None), fs_lstat = (\<lambda>_. None), fs_list = (\<lambda>_. None)\<rparr>"

theorem rm_path_sets_device_only_witness:
  "\<exists>r. rm_parse_args (\<lambda>_. True) ex_rm_fs [(CHR ''p'', ''/a'')] \<lparr>rm_dev = 0, rm_inode = 0\<rparr> = Inr r \<and> rm_inode r = 0"
proof -
  obtain r where r: "rm_parse_args (\<lambda>_. True) ex_rm_fs [(CHR ''p'', ''/a'')] \<lparr>rm_dev = 0, rm_inode = 0\<rparr> = Inr r"
    by (simp add: rm_parse_args_def rm_case_def get_fs_dev_def ex_rm_fs_def)
  from rm_path_sets_device_only [OF this] r show ?thesis by blast
qed

text \<open>An inode below two to the 31 is stored as given; a larger one is not.\<close>

lemma atoi_show: "n < 2 ^ 31 \<Longrightarrow> atoi (show_nat n) = int n"
proof -
  assume n: "n < 2 ^ 31"
  have "scan_number (show_nat n) = Some (False, n, [])" using scan_show_nat [of "[]" n] by simp
  moreover have "signed_take_bit 31 (int n) = int n" using n by (intro signed_take_bit_int_eq_self) auto
  ultimately show ?thesis using n by (simp add: atoi_def strtol10_def)
qed

lemma rm_inode_exact:
  assumes "n < 2 ^ 31"
  shows "rm_parse_args acc fs [(CHR ''i'', show_nat n)] \<lparr>rm_dev = d, rm_inode = 0\<rparr> = Inr \<lparr>rm_dev = d, rm_inode = of_nat n\<rparr>"
  using atoi_show [OF assms] by (simp add: rm_parse_args_def rm_case_def)

lemma rm_inode_truncated: "atoi (show_nat (2 ^ 32 + 7)) = 7"
proof -
  have "scan_number (show_nat (2 ^ 32 + 7)) = Some (False, 2 ^ 32 + 7, [])" using scan_show_nat [of "[]" "2 ^ 32 + 7"] by simp
  then show ?thesis by (simp add: atoi_def strtol10_def)
qed

text \<open>
  The status is zero although the rule has not been stored; and the object is not released when it cannot
  be attached.
\<close>

lemma rm_main_silent:
  assumes "rm_parse_args (rm_accessible e) (rm_fs e) (rm_opts e) \<lparr>rm_dev = 0, rm_inode = 0\<rparr> = Inr r"
    "rm_signal e \<noteq> - 1" "rm_load e" "rm_attach e = 0" "rm_map_fd e < 0 \<or> rm_update e \<noteq> 0"
  shows "rm_main e m = (0, [Acq RmObj, Acq RmAttached, Rel RmAttached, Rel RmObj], m)"
  using assms by (auto simp: rm_main_def Let_def)

lemma rm_main_stores:
  assumes "rm_parse_args (rm_accessible e) (rm_fs e) (rm_opts e) \<lparr>rm_dev = 0, rm_inode = 0\<rparr> = Inr r"
    "rm_signal e \<noteq> - 1" "rm_load e" "rm_attach e = 0" "0 \<le> rm_map_fd e" "rm_update e = 0"
  shows "snd (snd (rm_main e m)) 0 = Some r"
  using assms by (simp add: rm_main_def Let_def)

end
