(* ===== verification/Elf_Policy.thy ===== *)
theory Elf_Policy
  imports Frtp_Policy Tc_Common
begin

text \<open>
  The user-space half of \<open>policy/elfverify.cpp\<close>, which lets only listed files and users execute: the
  policy file, the walk over directories, loading the list and reporting refusals. Both builds are
  covered; \<open>builtin\<close> is the one made with \<open>BUILTIN\<close> for tests, which goes on where the other exits. The
  file system, \<open>access\<close>, \<open>fopen\<close>, \<open>getpwnam\<close>, libbpf and \<open>getopt_long\<close> are parameters; the file system,
  the scanning functions and the conversion of device numbers are those of \<open>Frtp_Policy\<close>.
\<close>

section \<open>Rules\<close>

text \<open>The union: \<open>dev\<close> and \<open>not_uid\<close> share the first four bytes, \<open>uid\<close> has the next four, \<open>ino\<close> the last eight.\<close>

record elf_rule =
  er_dev :: u32
  er_uid :: u32
  er_ino :: u64

definition elf_rule_zero :: elf_rule where
  "elf_rule_zero = \<lparr>er_dev = 0, er_uid = 0, er_ino = 0\<rparr>"

record elf_env =
  builtin :: bool
  ee_fs :: fsys
  ee_getpwnam :: "string \<Rightarrow> u32 option"
  ee_fopen :: "string option \<Rightarrow> string option"

text \<open>An exit is \<open>Inl\<close> of its status.\<close>

type_synonym elf_result = "(int + elf_rule list) outcome"

definition elf_bind :: "elf_result \<Rightarrow> (elf_rule list \<Rightarrow> elf_result) \<Rightarrow> elf_result" where
  "elf_bind m f = bind_outcome m (\<lambda>x. case x of Inl c \<Rightarrow> Done (Inl c) | Inr rs \<Rightarrow> f rs)"

definition elf_path2target :: "elf_env \<Rightarrow> string \<Rightarrow> elf_rule \<Rightarrow> int + elf_rule" where
  "elf_path2target e path r =
     (if \<not> fs_access (ee_fs e) path
      then (if builtin e then Inr (r\<lparr>er_ino := 0, er_dev := 0\<rparr>) else Inl 1)
      else case fs_stat (ee_fs e) path of
        None \<Rightarrow> if builtin e then Inr (r\<lparr>er_ino := 0, er_dev := 0\<rparr>) else Inl 1
      | Some (k, dev, ino) \<Rightarrow> Inr (r\<lparr>er_ino := ino, er_dev := dev_old2new dev\<rparr>))"

text \<open>
  \<open>add_directories_recursively\<close> of this program: the loop over the entries, in which links are skipped by a test of their own, and
  the walk; the fuel bounds the nesting.
\<close>

fun elf_sub_dirs :: "fsys \<Rightarrow> string \<Rightarrow> string list \<Rightarrow> string list" where
  "elf_sub_dirs fs dir [] = []"
| "elf_sub_dirs fs dir (nm # ns) =
     (if nm = ''.'' \<or> nm = ''..'' then elf_sub_dirs fs dir ns
      else let full_path = take 4095 (dir @ ''/'' @ nm)
           in case fs_lstat fs full_path of
                None \<Rightarrow> elf_sub_dirs fs dir ns
              | Some k \<Rightarrow>
                  if k = SymLink then elf_sub_dirs fs dir ns
                  else if k = Directory then full_path # elf_sub_dirs fs dir ns
                  else elf_sub_dirs fs dir ns)"

fun elf_walk :: "nat \<Rightarrow> elf_env \<Rightarrow> elf_rule \<Rightarrow> string list \<Rightarrow> elf_rule list \<Rightarrow> elf_result" where
  "elf_walk n e base [] rules = Done (Inr rules)"
| "elf_walk 0 e base (d # ds) rules = Blocked"
| "elf_walk (Suc n) e base (d # ds) rules =
     (case elf_path2target e d base of
        Inl c \<Rightarrow> Done (Inl c)
      | Inr r \<Rightarrow>
          elf_bind
            (case fs_list (ee_fs e) d of
               None \<Rightarrow> Done (Inr (rules @ [r]))
             | Some es \<Rightarrow> elf_walk n e base (elf_sub_dirs (ee_fs e) d es) (rules @ [r]))
            (\<lambda>rules'. elf_walk (Suc n) e base ds rules'))"

definition user2uid :: "elf_env \<Rightarrow> string \<Rightarrow> elf_rule \<Rightarrow> int + elf_rule" where
  "user2uid e user r =
     (case ee_getpwnam e user of
        Some uid \<Rightarrow> Inr (r\<lparr>er_uid := uid\<rparr>)
      | None \<Rightarrow> if builtin e then Inr (r\<lparr>er_uid := 1000\<rparr>) else Inl 1)"

section \<open>The policy file\<close>

text \<open>\<open>sscanf(line, "%4[^=]=%4095s", type, content)\<close>; \<open>None\<close> when not both are assigned.\<close>

definition scan_elf :: "string \<Rightarrow> (string \<times> string) option" where
  "scan_elf line =
     (let type = take 4 (takeWhile (\<lambda>c. c \<noteq> CHR ''='') line); r1 = drop (length type) line
      in if type = [] \<or> r1 = [] \<or> hd r1 \<noteq> CHR ''='' then None
         else case scan_s 4095 (tl r1) of None \<Rightarrow> None | Some (content, r2) \<Rightarrow> Some (type, content))"

definition elf_policy_line :: "nat \<Rightarrow> elf_env \<Rightarrow> string \<Rightarrow> elf_rule list \<Rightarrow> elf_result" where
  "elf_policy_line n e line rules =
     (if line \<noteq> [] \<and> hd line = CHR ''#'' then Done (Inr rules)
      else case scan_elf line of
        None \<Rightarrow> Done (Inr rules)
      | Some (type, content) \<Rightarrow>
          if type = ''path'' then
            (case fs_stat (ee_fs e) content of
               None \<Rightarrow> Done (Inr rules)
             | Some (k, dev, ino) \<Rightarrow>
                 if k = Directory then elf_walk n e elf_rule_zero [content] rules
                 else case elf_path2target e content elf_rule_zero of
                   Inl c \<Rightarrow> Done (Inl c) | Inr r \<Rightarrow> Done (Inr (rules @ [r])))
          else if type = ''user'' then
            (case user2uid e content elf_rule_zero of Inl c \<Rightarrow> Done (Inl c) | Inr r \<Rightarrow> Done (Inr (rules @ [r])))
          else Done (Inr rules))"

fun elf_policy_lines :: "nat \<Rightarrow> elf_env \<Rightarrow> string list \<Rightarrow> elf_rule list \<Rightarrow> elf_result" where
  "elf_policy_lines n e [] rules = Done (Inr rules)"
| "elf_policy_lines n e (l # ls) rules = elf_bind (elf_policy_line n e l rules) (elf_policy_lines n e ls)"

definition elf_parse_policy_file :: "nat \<Rightarrow> elf_env \<Rightarrow> string option \<Rightarrow> elf_result" where
  "elf_parse_policy_file n e filename =
     (case ee_fopen e filename of
        None \<Rightarrow> if builtin e then Done (Inr []) else Done (Inl 1)
      | Some text \<Rightarrow> elf_policy_lines n e (fgets_lines text) [])"

section \<open>Loading and reporting\<close>

text \<open>\<open>load_rules\<close>; \<open>upd key\<close> is whether the update of that key succeeds.\<close>

fun elf_load_from :: "bool \<Rightarrow> (u32 \<Rightarrow> bool) \<Rightarrow> u32 \<Rightarrow> elf_rule list \<Rightarrow> (u32 \<rightharpoonup> elf_rule) \<Rightarrow> int option \<times> (u32 \<rightharpoonup> elf_rule)" where
  "elf_load_from bi upd key [] m = (None, m)"
| "elf_load_from bi upd key (r # rs) m =
     (let key' = key + 1
      in if upd key' then elf_load_from bi upd key' rs (m(key' \<mapsto> r))
         else if bi then elf_load_from bi upd key' rs m
         else (Some 1, m))"

definition elf_load_rules :: "bool \<Rightarrow> (u32 \<Rightarrow> bool) \<Rightarrow> elf_rule list \<Rightarrow> (u32 \<rightharpoonup> elf_rule) \<Rightarrow> int option \<times> (u32 \<rightharpoonup> elf_rule)" where
  "elf_load_rules bi upd rs m = elf_load_from bi upd 0 rs m"

record BpfData =
  bd_uid :: u32
  bd_pid :: int
  is_binary :: int
  bd_target :: Target

definition elf_handle_event :: "BpfData \<Rightarrow> string" where
  "elf_handle_event d =
     ''process '' @ show_int (bd_pid d) @ '' of user '' @ show_int (sint (bd_uid d)) @ '' tried to execve ''
     @ (if is_binary d \<noteq> 0 then ''binary'' else ''script'') @ '' file (dev: '' @ show_hex (unat (tgt_dev (bd_target d)))
     @ '', ino: '' @ show_nat (unat (tgt_ino (bd_target d))) @ ''), denied!''"

text \<open>\<open>ringbuf_worker\<close>: the polls until \<open>exit_flag\<close> is set, and how many failed and were followed by a pause.\<close>

fun ringbuf_worker :: "int list \<Rightarrow> nat" where
  "ringbuf_worker [] = 0"
| "ringbuf_worker (err # errs) = (if err < 0 \<and> err \<noteq> - EINTR then 1 else 0) + ringbuf_worker errs"

section \<open>The program\<close>

definition elf_lopts :: "(char \<times> has_arg) list" where
  "elf_lopts = [(CHR ''p'', required_argument), (CHR ''h'', no_argument)]"

text \<open>
  \<open>parse_args\<close>: \<open>Inl\<close> is an exit, or in the other build an error that the caller returns; help ends the
  parsing with success there, without a default for the policy file.
\<close>

fun elf_parse_args :: "bool \<Rightarrow> (char \<times> string) list \<Rightarrow> string option \<Rightarrow> int + string option" where
  "elf_parse_args bi [] policy_file =
     Inr (case policy_file of None \<Rightarrow> Some ''/etc/dkapture/policy/elfverify.pol'' | Some f \<Rightarrow> Some f)"
| "elf_parse_args bi ((opt, optarg) # os) policy_file =
     (if opt = CHR ''p'' then elf_parse_args bi os (Some optarg)
      else if opt = CHR ''h'' then (if bi then Inr policy_file else Inl 0)
      else Inl (- 1))"

datatype elf_res = ElfObj | ElfAttached | ElfThread

record elf_calls =
  el_opts :: "(char \<times> string) list"
  el_signal :: int
  el_load :: bool
  el_whitelist_fd :: int
  el_logs_fd :: int
  el_rb :: bool
  el_update :: "u32 \<Rightarrow> bool"
  el_attach :: int

text \<open>\<open>main\<close>: status, resources and the map \<open>whitelist\<close>; \<open>Blocked\<close> when the fuel is not enough.\<close>

definition elf_main :: "nat \<Rightarrow> elf_env \<Rightarrow> elf_calls \<Rightarrow> (u32 \<rightharpoonup> elf_rule) \<Rightarrow> (int \<times> elf_res res_event list \<times> (u32 \<rightharpoonup> elf_rule)) outcome" where
  "elf_main n e c m =
     (case elf_parse_args (builtin e) (el_opts c) None of
        Inl code \<Rightarrow> Done (code, [], m)
      | Inr policy_file \<Rightarrow>
          if el_signal c = - 1 then Done (1, [], m)
          else if \<not> el_load c then Done (- 1, [], m)
          else if el_whitelist_fd c < 0 \<or> el_logs_fd c < 0 \<or> \<not> el_rb c then Done (- 1, [Acq ElfObj, Rel ElfObj], m)
          else bind_outcome (elf_parse_policy_file n e policy_file) (\<lambda>x.
            case x of
              Inl code \<Rightarrow> Done (code, [Acq ElfObj], m)
            | Inr rules \<Rightarrow>
                (case elf_load_rules (builtin e) (el_update c) rules m of
                   (Some code, m') \<Rightarrow> Done (code, [Acq ElfObj], m')
                 | (None, m') \<Rightarrow>
                     if el_attach c \<noteq> 0
                     then Done (- 1, if builtin e then [Acq ElfObj, Rel ElfObj] else [Acq ElfObj], m')
                     else Done (if builtin e then 0 else - 1,
                       [Acq ElfObj, Acq ElfAttached, Acq ElfThread, Rel ElfThread, Rel ElfAttached, Rel ElfObj], m'))))"

section \<open>The walk and that of frtp\<close>

definition elf_of_target :: "Target \<Rightarrow> elf_rule" where
  "elf_of_target t = \<lparr>er_dev = tgt_dev t, er_uid = 0, er_ino = tgt_ino t\<rparr>"

lemma elf_bind_simps [simp]:
  "elf_bind (Done (Inl c)) f = Done (Inl c)" "elf_bind (Done (Inr rs)) f = f rs" "elf_bind Blocked f = Blocked"
  by (simp_all add: elf_bind_def)

text \<open>Every directory that \<open>lstat\<close> finds can be accessed.\<close>

definition dirs_accessible :: "elf_env \<Rightarrow> bool" where
  "dirs_accessible e \<longleftrightarrow> (\<forall>p. fs_lstat (ee_fs e) p = Some Directory \<longrightarrow> fs_access (ee_fs e) p \<and> fs_stat (ee_fs e) p \<noteq> None)"

definition reachable_dir :: "elf_env \<Rightarrow> string \<Rightarrow> bool" where
  "reachable_dir e p \<longleftrightarrow> fs_access (ee_fs e) p \<and> fs_stat (ee_fs e) p \<noteq> None"

text \<open>The two loops over the entries choose the same directories: the test for links is redundant after \<open>lstat\<close>.\<close>

lemma elf_sub_dirs_eq: "elf_sub_dirs fs dir ns = sub_dirs fs dir ns"
  by (induction ns) (auto simp: sub_dirs_def join_dir_def Let_def split: option.split)

lemma sub_dirs_reachable: "dirs_accessible e \<Longrightarrow> \<forall>p \<in> set (sub_dirs (ee_fs e) d es). reachable_dir e p"
  by (auto simp: sub_dirs_def dirs_accessible_def reachable_dir_def)

lemma elf_path2target_reachable:
  assumes "reachable_dir e p"
  shows "elf_path2target e p elf_rule_zero = Inr (elf_of_target (dir_target (ee_fs e) base p))"
  using assms by (auto simp: reachable_dir_def elf_path2target_def elf_rule_zero_def elf_of_target_def dir_target_def)

definition walk_agrees :: "Rule list \<Rightarrow> elf_rule list \<Rightarrow> (Rule list \<times> path_map) outcome \<Rightarrow> elf_result \<Rightarrow> bool" where
  "walk_agrees rs ers w v \<longleftrightarrow>
     (w = Blocked \<and> v = Blocked
      \<or> (\<exists>new tm'. w = Done (rs @ new, tm') \<and> v = Done (Inr (ers @ map (\<lambda>r. elf_of_target (r_target r)) new))))"

lemma elf_walk_agrees_from:
  assumes "dirs_accessible e" "\<forall>d \<in> set ds. reachable_dir e d"
  shows "walk_agrees rs ers (add_directories n (ee_fs e) base ds (rs, tm)) (elf_walk n e elf_rule_zero ds ers)"
  using assms(2)
proof (induction n arbitrary: ds rs ers tm)
  case 0
  then show ?case by (cases ds) (simp_all add: walk_agrees_def)
next
  case (Suc n)
  note outer = Suc.IH
  from Suc.prems show ?case
  proof (induction ds arbitrary: rs ers tm)
    case Nil
    then show ?case by (simp add: walk_agrees_def)
  next
    case (Cons d ds)
    have "reachable_dir e d" using Cons.prems by simp
    then obtain t where t: "elf_path2target e d elf_rule_zero = Inr (elf_of_target t)" "dir_target (ee_fs e) base d = t"
      using elf_path2target_reachable [of e d base] by blast
    obtain r where p: "path2target (ee_fs e) d (r_target base) tm = (r, t, note_dir (ee_fs e) d tm)"
      using path2target_dir [of "ee_fs e" d base tm] t(2) by auto
    let ?r = "base\<lparr>r_target := t\<rparr>" and ?tm = "note_dir (ee_fs e) d tm"
    let ?w = "case fs_list (ee_fs e) d of None \<Rightarrow> Done (rs @ [?r], ?tm)
        | Some es \<Rightarrow> add_directories n (ee_fs e) base (sub_dirs (ee_fs e) d es) (rs @ [?r], ?tm)"
    let ?v = "case fs_list (ee_fs e) d of None \<Rightarrow> Done (Inr (ers @ [elf_of_target t]))
        | Some es \<Rightarrow> elf_walk n e elf_rule_zero (elf_sub_dirs (ee_fs e) d es) (ers @ [elf_of_target t])"
    have mid: "walk_agrees (rs @ [?r]) (ers @ [elf_of_target t]) ?w ?v"
    proof (cases "fs_list (ee_fs e) d")
      case None
      then show ?thesis by (simp add: walk_agrees_def)
    next
      case (Some es)
      then show ?thesis
        using outer [OF sub_dirs_reachable [OF assms(1)], of "rs @ [?r]" "ers @ [elf_of_target t]" d es ?tm]
        by (simp only: option.case elf_sub_dirs_eq)
    qed
    have w: "add_directories (Suc n) (ee_fs e) base (d # ds) (rs, tm) = bind_outcome ?w (\<lambda>st. add_directories (Suc n) (ee_fs e) base ds st)"
      using p by (simp add: Let_def)
    have v: "elf_walk (Suc n) e elf_rule_zero (d # ds) ers = elf_bind ?v (\<lambda>rules'. elf_walk (Suc n) e elf_rule_zero ds rules')"
      using t(1) by simp
    from mid consider (blocked) "?w = Blocked" "?v = Blocked"
      | (fin) new tm' where "?w = Done ((rs @ [?r]) @ new, tm')"
          "?v = Done (Inr ((ers @ [elf_of_target t]) @ map (\<lambda>r. elf_of_target (r_target r)) new))"
      unfolding walk_agrees_def by blast
    then show ?case
    proof cases
      case blocked
      then show ?thesis unfolding w v by (simp only: bind_outcome_simps elf_bind_simps) (simp add: walk_agrees_def)
    next
      case fin
      let ?rs = "rs @ ?r # new" and ?ers = "ers @ map (\<lambda>r. elf_of_target (r_target r)) (?r # new)"
      have "walk_agrees ?rs ?ers (add_directories (Suc n) (ee_fs e) base ds (?rs, tm')) (elf_walk (Suc n) e elf_rule_zero ds ?ers)"
        using Cons by simp
      then show ?thesis unfolding w v fin bind_outcome_simps elf_bind_simps by (auto simp: walk_agrees_def)
    qed
  qed
qed

section \<open>Properties\<close>

text \<open>C26: \<open>elfverify\<close> and \<open>frtp\<close>, which have a walk over directories each (that of \<open>elfverify\<close> with a test for links of its own),
  list the same directories in the same order for the same file system, to any depth, provided that every directory that \<open>lstat\<close>
  finds can be accessed and looked up.\<close>

theorem elf_walk_agrees:
  assumes "dirs_accessible e" "fs_access (ee_fs e) dir" "fs_stat (ee_fs e) dir \<noteq> None"
    "add_directories_recursively n (ee_fs e) dir base ([], tm) = Done (rules, tm')"
  shows "elf_walk n e elf_rule_zero [dir] [] = Done (Inr (map (\<lambda>r. elf_of_target (r_target r)) rules))"
  using elf_walk_agrees_from [of e "[dir]" "[]" "[]" n base tm] assms
  by (auto simp: walk_agrees_def add_directories_recursively_def reachable_dir_def)

definition ex_elf_fs :: fsys where
  "ex_elf_fs = \<lparr>fs_access = (\<lambda>_. True), fs_stat = (\<lambda>p. if p = ''/d'' then Some (Directory, 2049, 5) else if p = ''/d/s'' then Some (Directory, 2049, 6) else None),
     fs_lstat = (\<lambda>p. if p = ''/d/s'' then Some Directory else None),
     fs_list = (\<lambda>p. if p = ''/d'' then Some [''.'', ''s''] else Some [])\<rparr>"

definition ex_elf_env :: elf_env where
  "ex_elf_env = \<lparr>builtin = False, ee_fs = ex_elf_fs, ee_getpwnam = (\<lambda>u. if u = ''root'' then Some 0 else None),
     ee_fopen = (\<lambda>_. Some ''user=root'')\<rparr>"

theorem elf_walk_agrees_witness:
  "elf_walk 3 ex_elf_env elf_rule_zero [''/d''] []
    = Done (Inr [elf_of_target (Target (dev_old2new 2049) 5), elf_of_target (Target (dev_old2new 2049) 6)])"
proof -
  have sub: "sub_dirs ex_elf_fs ''/d'' [''.'', ''s''] = [''/d/s'']" "sub_dirs ex_elf_fs ''/d/s'' [] = []"
    by (simp_all add: sub_dirs_def join_dir_def ex_elf_fs_def)
  have list: "fs_list ex_elf_fs ''/d'' = Some [''.'', ''s'']" "fs_list ex_elf_fs ''/d/s'' = Some []"
    "fs_stat ex_elf_fs ''/d'' = Some (Directory, 2049, 5)" "fs_stat ex_elf_fs ''/d/s'' = Some (Directory, 2049, 6)"
    "fs_access ex_elf_fs ''/d''" "fs_access ex_elf_fs ''/d/s''"
    by (simp_all add: ex_elf_fs_def)
  obtain tm' where run: "add_directories_recursively 3 (ee_fs ex_elf_env) ''/d'' zero_rule ([], Map.empty)
      = Done ([zero_rule\<lparr>r_target := Target (dev_old2new 2049) 5\<rparr>, zero_rule\<lparr>r_target := Target (dev_old2new 2049) 6\<rparr>], tm')"
    by (simp add: add_directories_recursively_def numeral_3_eq_3 ex_elf_env_def path2target_def list sub Let_def)
  have acc: "dirs_accessible ex_elf_env" "fs_access (ee_fs ex_elf_env) ''/d''" "fs_stat (ee_fs ex_elf_env) ''/d'' \<noteq> None"
    by (simp_all add: dirs_accessible_def ex_elf_env_def ex_elf_fs_def)
  show ?thesis using elf_walk_agrees [OF acc run] by simp
qed

text \<open>
  The kind of a rule is told from its first four bytes. A rule for a file never has a user and a rule for
  a user has neither device nor inode.
\<close>

definition elf_rule_ok :: "elf_rule \<Rightarrow> bool" where
  "elf_rule_ok r \<longleftrightarrow> er_uid r = 0 \<or> er_dev r = 0 \<and> er_ino r = 0"

definition elf_result_ok :: "elf_result \<Rightarrow> bool" where
  "elf_result_ok v \<longleftrightarrow> (\<forall>c. v = Done (Inl c) \<longrightarrow> c = 1) \<and> (\<forall>rs. v = Done (Inr rs) \<longrightarrow> (\<forall>r \<in> set rs. elf_rule_ok r))"

lemma elf_result_ok_simps [simp]:
  "elf_result_ok (Done (Inl c)) \<longleftrightarrow> c = 1" "elf_result_ok (Done (Inr rs)) \<longleftrightarrow> (\<forall>r \<in> set rs. elf_rule_ok r)"
  "elf_result_ok Blocked" "elf_result_ok Fault" "elf_result_ok Aborted"
  by (simp_all add: elf_result_ok_def)

lemma elf_bind_ok:
  assumes "elf_result_ok m" "\<And>rs. \<forall>r \<in> set rs. elf_rule_ok r \<Longrightarrow> elf_result_ok (f rs)"
  shows "elf_result_ok (elf_bind m f)"
proof (cases m)
  case (Done x)
  with assms show ?thesis by (cases x) simp_all
qed (simp_all add: elf_bind_def)

lemma elf_path2target_ok:
  "elf_path2target e p elf_rule_zero = Inr r \<Longrightarrow> elf_rule_ok r" "elf_path2target e p elf_rule_zero = Inl c \<Longrightarrow> c = 1"
  by (auto simp: elf_path2target_def elf_rule_zero_def elf_rule_ok_def split: if_splits option.splits)

lemma user2uid_ok: "user2uid e u elf_rule_zero = Inr r \<Longrightarrow> elf_rule_ok r" "user2uid e u elf_rule_zero = Inl c \<Longrightarrow> c = 1"
  by (auto simp: user2uid_def elf_rule_zero_def elf_rule_ok_def split: if_splits option.splits)

lemma elf_walk_ok: "\<forall>r \<in> set rules. elf_rule_ok r \<Longrightarrow> elf_result_ok (elf_walk n e elf_rule_zero ds rules)"
proof (induction n arbitrary: ds rules)
  case 0
  then show ?case by (cases ds) simp_all
next
  case (Suc n)
  note outer = Suc.IH
  from Suc.prems show ?case
  proof (induction ds arbitrary: rules)
    case Nil
    then show ?case by simp
  next
    case (Cons d ds)
    show ?case
    proof (cases "elf_path2target e d elf_rule_zero")
      case (Inl c)
      then show ?thesis using elf_path2target_ok(2) by simp
    next
      case (Inr r)
      then have "\<forall>r \<in> set (rules @ [r]). elf_rule_ok r" using Cons.prems elf_path2target_ok(1) by auto
      then have "elf_result_ok (case fs_list (ee_fs e) d of None \<Rightarrow> Done (Inr (rules @ [r]))
          | Some es \<Rightarrow> elf_walk n e elf_rule_zero (elf_sub_dirs (ee_fs e) d es) (rules @ [r]))"
        using outer [of "rules @ [r]"] by (cases "fs_list (ee_fs e) d") simp_all
      then show ?thesis using Inr Cons.IH by (simp add: elf_bind_ok)
    qed
  qed
qed

lemma elf_policy_line_ok:
  assumes "\<forall>r \<in> set rules. elf_rule_ok r"
  shows "elf_result_ok (elf_policy_line n e line rules)"
proof -
  have one: "elf_result_ok (case x of Inl c \<Rightarrow> Done (Inl c) | Inr r \<Rightarrow> Done (Inr (rules @ [r])))"
    if "\<And>r. x = Inr r \<Longrightarrow> elf_rule_ok r" "\<And>c. x = Inl c \<Longrightarrow> c = 1" for x :: "int + elf_rule"
    using that assms by (cases x) auto
  have "elf_result_ok (elf_walk n e elf_rule_zero ds rules)" for ds using elf_walk_ok [OF assms] .
  moreover have "elf_result_ok (case user2uid e u elf_rule_zero of Inl c \<Rightarrow> Done (Inl c) | Inr r \<Rightarrow> Done (Inr (rules @ [r])))" for u
    by (rule one) (simp_all add: user2uid_ok)
  moreover have "elf_result_ok (case elf_path2target e p elf_rule_zero of Inl c \<Rightarrow> Done (Inl c) | Inr r \<Rightarrow> Done (Inr (rules @ [r])))" for p
    by (rule one) (simp_all add: elf_path2target_ok)
  ultimately show ?thesis using assms by (simp add: elf_policy_line_def split: option.split prod.split)
qed

lemma elf_policy_lines_ok: "\<forall>r \<in> set rules. elf_rule_ok r \<Longrightarrow> elf_result_ok (elf_policy_lines n e ls rules)"
  by (induction ls arbitrary: rules) (simp_all add: elf_bind_ok elf_policy_line_ok)

lemma elf_parse_policy_file_ok: "elf_result_ok (elf_parse_policy_file n e f)"
  using elf_policy_lines_ok [of "[]" n e] by (simp add: elf_parse_policy_file_def split: option.split)

text \<open>A file whose converted device number is zero is listed as if it were the user root.\<close>

lemma elf_device_zero_is_root:
  assumes "\<not> builtin e" "fs_access (ee_fs e) p" "fs_stat (ee_fs e) p = Some (k, dev, 0)" "dev_old2new dev = 0"
  shows "elf_path2target e p elf_rule_zero = Inr elf_rule_zero" "user2uid e u elf_rule_zero = Inr elf_rule_zero \<longleftrightarrow> ee_getpwnam e u = Some 0"
  using assms by (auto simp: elf_path2target_def user2uid_def elf_rule_zero_def split: option.splits)

lemma elf_load_from_all:
  assumes "\<forall>k. upd k" "unat key + length rs < 2 ^ 32"
  shows "\<exists>m'. elf_load_from bi upd key rs m = (None, m') \<and> (\<forall>i < length rs. m' (key + 1 + of_nat i) = Some (rs ! i))
     \<and> (\<forall>k. (\<forall>i < length rs. k \<noteq> key + 1 + of_nat i) \<longrightarrow> m' k = m k)"
  using assms(2)
proof (induction rs arbitrary: key m)
  case Nil
  then show ?case by simp
next
  case (Cons r rs)
  have k: "unat (key + 1) = unat key + 1" using Cons.prems by (simp add: unat_word_ariths)
  then have "unat (key + 1) + length rs < 2 ^ 32" using Cons.prems by simp
  from Cons.IH [OF this, of "m(key + 1 \<mapsto> r)"] obtain m' where
    m': "elf_load_from bi upd (key + 1) rs (m(key + 1 \<mapsto> r)) = (None, m')"
      "\<forall>i < length rs. m' (key + 1 + 1 + of_nat i) = Some (rs ! i)"
      "\<forall>k. (\<forall>i < length rs. k \<noteq> key + 1 + 1 + of_nat i) \<longrightarrow> m' k = (m(key + 1 \<mapsto> r)) k"
    by blast
  have fresh: "key + 1 \<noteq> key + 1 + 1 + of_nat i" if "i < length rs" for i
  proof
    assume eq: "key + 1 = key + 1 + 1 + of_nat i"
    then have "(of_nat (Suc i) :: u32) = 0" by (simp add: algebra_simps)
    then have "unat (of_nat (Suc i) :: u32) = 0" by (simp only: unat_0)
    moreover have "Suc i < 2 ^ 32" using that Cons.prems by simp
    ultimately show False by (simp add: unat_of_nat take_bit_nat_eq_self del: of_nat_Suc)
  qed
  have "m' (key + 1 + of_nat i) = Some ((r # rs) ! i)" if "i < length (r # rs)" for i
  proof (cases i)
    case 0
    have "m' (key + 1) = (m(key + 1 \<mapsto> r)) (key + 1)" using m'(3) fresh by blast
    with 0 show ?thesis by simp
  next
    case (Suc j)
    then show ?thesis using m'(2) that by (simp add: algebra_simps)
  qed
  moreover have "m' k = m k" if a: "\<forall>i < length (r # rs). k \<noteq> key + 1 + of_nat i" for k
  proof -
    have "k \<noteq> key + 1" using a [rule_format, of 0] by simp
    moreover have "k \<noteq> key + 1 + 1 + of_nat i" if "i < length rs" for i
      using a [rule_format, of "Suc i"] that by (simp add: algebra_simps)
    ultimately show ?thesis using m'(3) by simp
  qed
  moreover have "elf_load_from bi upd key (r # rs) m = (None, m')" using m'(1) assms(1) unfolding elf_load_from.simps Let_def by simp
  ultimately show ?case by blast
qed

text \<open>The list that reaches the kernel is the list that was read: if every update succeeds, entry \<open>i\<close> of
  the rules is under key \<open>i + 1\<close> and every other key is as before.\<close>

theorem elf_load_rules_exact:
  assumes "\<forall>k. upd k" "length rs < 2 ^ 32"
  shows "\<exists>m'. elf_load_rules bi upd rs m = (None, m') \<and> (\<forall>i < length rs. m' (1 + of_nat i) = Some (rs ! i))
     \<and> (\<forall>k. (\<forall>i < length rs. k \<noteq> 1 + of_nat i) \<longrightarrow> m' k = m k)"
  using elf_load_from_all [of upd 0 rs bi m] assms by (simp add: elf_load_rules_def)

theorem elf_load_rules_exact_witness:
  "\<exists>m'. elf_load_rules False (\<lambda>_. True) [elf_rule_zero] Map.empty = (None, m') \<and> m' 1 = Some elf_rule_zero"
  using elf_load_rules_exact [of "\<lambda>_. True" "[elf_rule_zero]" False Map.empty] by auto

text \<open>Outside the test build the program never ends with status zero, unless it was asked for help.\<close>

lemma elf_main_never_zero:
  assumes "elf_main n e c m = Done (status, tr, m')" "\<not> builtin e" "elf_parse_args False (el_opts c) None \<noteq> Inl 0"
  shows "status \<noteq> 0"
proof (cases "elf_parse_args False (el_opts c) None")
  case (Inl code)
  then show ?thesis using assms by (simp add: elf_main_def)
next
  case (Inr f)
  have "elf_load_from False upd key rs m = (Some code, m') \<Longrightarrow> code = 1" for upd key rs m code m'
    by (induction rs arbitrary: key m) (auto simp: Let_def split: if_splits)
  then have load: "elf_load_rules False upd rs m = (Some code, m') \<Longrightarrow> code = 1" for upd rs m code m'
    by (simp add: elf_load_rules_def)
  note ok = elf_parse_policy_file_ok [of n e f]
  have nb: "builtin e = False" using assms(2) by simp
  show ?thesis
  proof (cases "el_signal c = - 1 \<or> \<not> el_load c \<or> el_whitelist_fd c < 0 \<or> el_logs_fd c < 0 \<or> \<not> el_rb c")
    case True
    then show ?thesis using assms(1,2) Inr by (auto simp: elf_main_def split: if_splits)
  next
    case False
    then obtain x where x: "elf_parse_policy_file n e f = Done x" and
      run: "(case x of Inl code \<Rightarrow> Done (code, [Acq ElfObj], m)
            | Inr rules \<Rightarrow>
                (case elf_load_rules False (el_update c) rules m of
                   (Some code, m') \<Rightarrow> Done (code, [Acq ElfObj], m')
                 | (None, m') \<Rightarrow>
                     if el_attach c \<noteq> 0 then Done (- 1, [Acq ElfObj], m')
                     else Done (- 1, [Acq ElfObj, Acq ElfAttached, Acq ElfThread, Rel ElfThread, Rel ElfAttached, Rel ElfObj], m')))
          = Done (status, tr, m')"
      using assms(1) Inr unfolding elf_main_def nb if_False by (auto simp: bind_outcome_Done_iff)
    show ?thesis
    proof (cases x)
      case (Inl code)
      then show ?thesis using ok x run by simp
    next
      case (Inr rules)
      then show ?thesis using run by (auto split: prod.splits option.splits if_splits dest: load)
    qed
  qed
qed

end
