(* ===== verification/Ksyms.thy ===== *)
theory Ksyms
  imports C_Strings Spin_Lock "HOL-Library.Multiset"
begin

text \<open>
  Kernel symbols: the table that \<open>observe/kmemleak.cpp\<close> builds from the text of \<open>/proc/kallsyms\<close>
  (\<open>ksyms_add\<close>, \<open>ksyms_load\<close>, \<open>ksyms_find\<close>) and \<open>kallsyms_lookup\<close> of \<open>include/kallsyms.h\<close>. Names lie one
  after the other, each with its NUL, in a pool that is reallocated; a symbol has the offset of its
  name. The table refines the list of names and addresses of the text, and the binary search agrees
  with a search over the text.
\<close>

section \<open>Scanning a line of the symbol file\<close>

text \<open>\<open>%lx\<close>: white space, a sign, the prefix \<open>0x\<close> and the digits; a value that is too large gives ULONG_MAX.\<close>

definition scan_lx :: "string \<Rightarrow> (u64 \<times> string) option" where
  "scan_lx s =
     (let t = dropWhile is_space s;
          neg = (t \<noteq> [] \<and> hd t = CHR ''-'');
          u = (if t \<noteq> [] \<and> (hd t = CHR ''-'' \<or> hd t = CHR ''+'') then tl t else t);
          v = (if map to_lower (take 2 u) = ''0x'' then drop 2 u else u);
          ds = takeWhile is_hex v;
          n = hexs_val 0 ds
      in if ds = [] then None
         else Some (if n > UINT64_MAX_nat then UINT64_MAX else if neg then - of_nat n else of_nat n,
                    dropWhile is_hex v))"

text \<open>
  \<open>"%lx %c %s"\<close>: the end of the input, fewer than three conversions, or the three values and what follows.
\<close>

datatype sym_scan = Scan_EOF | Scan_short | Scan_sym u64 char string string

definition scan_sym :: "string \<Rightarrow> sym_scan" where
  "scan_sym s =
     (if dropWhile is_space s = [] then Scan_EOF
      else case scan_lx s of
        None \<Rightarrow> Scan_short
      | Some (addr, r) \<Rightarrow>
          (case dropWhile is_space r of
             [] \<Rightarrow> Scan_short
           | ty # r2 \<Rightarrow> (case read_word r2 of None \<Rightarrow> Scan_short | Some (w, r3) \<Rightarrow> Scan_sym addr ty w r3)))"

text \<open>\<open>%*[^\n]\n\<close>: a rest of the line that is not empty, and then all white space.\<close>

definition skip_line :: "string \<Rightarrow> string" where
  "skip_line r =
     (if takeWhile (\<lambda>c. c \<noteq> NL) r = [] then r else dropWhile is_space (dropWhile (\<lambda>c. c \<noteq> NL) r))"

section \<open>The table\<close>

record ksym =
  k_name :: nat
  k_addr :: u64

record ksyms =
  syms :: "ksym list"
  syms_cap :: nat
  strs :: string
  strs_cap :: nat

definition ksyms_zero :: ksyms where
  "ksyms_zero = \<lparr>syms = [], syms_cap = 0, strs = [], strs_cap = 0\<rparr>"

text \<open>\<open>strs_sz\<close> and \<open>syms_sz\<close> are the lengths of what is in use.\<close>

definition sym_name :: "ksyms \<Rightarrow> ksym \<Rightarrow> string" where
  "sym_name ks s = takeWhile (\<lambda>c. c \<noteq> NUL) (drop (k_name s) (strs ks))"

text \<open>The product \<open>cap * 4\<close> is computed in \<open>int\<close>; where it does not fit the behaviour is undefined.\<close>

definition grown :: "nat \<Rightarrow> nat \<Rightarrow> nat outcome" where
  "grown cap need = (if cap * 4 > 2147483647 then Fault else Done (max (max (cap * 4 div 3) need) 1024))"

definition grow_strs :: "(nat \<Rightarrow> bool) \<Rightarrow> nat \<Rightarrow> ksyms \<Rightarrow> (bool \<times> ksyms) outcome" where
  "grow_strs mem name_len ks =
     (if length (strs ks) + name_len > strs_cap ks
      then bind_outcome (grown (strs_cap ks) (length (strs ks) + name_len)) (\<lambda>new_cap.
             Done (if mem new_cap then (True, ks\<lparr>strs_cap := new_cap\<rparr>) else (False, ks)))
      else Done (True, ks))"

definition grow_syms :: "(nat \<Rightarrow> bool) \<Rightarrow> ksyms \<Rightarrow> (bool \<times> ksyms) outcome" where
  "grow_syms mem ks =
     (if length (syms ks) + 1 > syms_cap ks
      then bind_outcome (grown (syms_cap ks) 0) (\<lambda>new_cap.
             Done (if mem (16 * new_cap) then (True, ks\<lparr>syms_cap := new_cap\<rparr>) else (False, ks)))
      else Done (True, ks))"

text \<open>\<open>ksyms_add\<close>; \<open>mem n\<close> tells whether memory of that size can be had. The result is the return value.\<close>

definition ksyms_add :: "(nat \<Rightarrow> bool) \<Rightarrow> string \<Rightarrow> u64 \<Rightarrow> ksyms \<Rightarrow> (int \<times> ksyms) outcome" where
  "ksyms_add mem name addr ks =
     bind_outcome (grow_strs mem (length name + 1) ks) (\<lambda>(ok, ks1).
       if \<not> ok then Done (-1, ks1)
       else bind_outcome (grow_syms mem ks1) (\<lambda>(ok2, ks2).
         if \<not> ok2 then Done (-1, ks2)
         else Done (0, ks2\<lparr>syms := syms ks2 @ [\<lparr>k_name = length (strs ks2), k_addr = addr\<rparr>],
                           strs := strs ks2 @ name @ [NUL]\<rparr>)))"

fun strcmp :: "string \<Rightarrow> string \<Rightarrow> int" where
  "strcmp [] [] = 0"
| "strcmp [] (y # ys) = - 1"
| "strcmp (x # xs) [] = 1"
| "strcmp (x # xs) (y # ys) =
     (if x = y then strcmp xs ys else if (of_char x :: nat) < of_char y then - 1 else 1)"

definition ksym_cmp :: "ksyms \<Rightarrow> ksym \<Rightarrow> ksym \<Rightarrow> int" where
  "ksym_cmp ks s1 s2 =
     (if k_addr s1 = k_addr s2 then strcmp (sym_name ks s1) (sym_name ks s2)
      else if k_addr s1 < k_addr s2 then - 1 else 1)"

text \<open>The reading loop of \<open>ksyms_load\<close>; a name of 256 characters overruns \<open>sym_name\<close>. \<open>None\<close> is \<open>err_out\<close>.\<close>

lemma skip_line_shorter: "length (skip_line r) \<le> length r"
  by (auto simp: skip_line_def intro: order.trans [OF length_dropWhile_le length_dropWhile_le])

lemma read_word_shorter: "read_word s = Some (w, r) \<Longrightarrow> length r < length s"
proof -
  assume "read_word s = Some (w, r)"
  then have "takeWhile (\<lambda>c. \<not> is_space c) (dropWhile is_space s) \<noteq> []"
    and "r = dropWhile (\<lambda>c. \<not> is_space c) (dropWhile is_space s)"
    by (auto simp: read_word_def Let_def split: if_splits)
  then have "length r < length (dropWhile is_space s)"
    by (cases "dropWhile is_space s") (auto simp: less_Suc_eq_le length_dropWhile_le split: if_splits)
  then show ?thesis using length_dropWhile_le [of is_space s] by linarith
qed

lemma scan_lx_shorter: "scan_lx s = Some (a, r) \<Longrightarrow> length r \<le> length s"
proof -
  assume "scan_lx s = Some (a, r)"
  then obtain u v where u: "u = (if dropWhile is_space s \<noteq> [] \<and> (hd (dropWhile is_space s) = CHR ''-'' \<or> hd (dropWhile is_space s) = CHR ''+'')
      then tl (dropWhile is_space s) else dropWhile is_space s)"
    and v: "v = (if map to_lower (take 2 u) = ''0x'' then drop 2 u else u)" and r: "r = dropWhile is_hex v"
    by (auto simp: scan_lx_def Let_def split: if_split_asm)
  have "length r \<le> length v" using r by (simp add: length_dropWhile_le)
  moreover have "length v \<le> length u" using v by simp
  moreover have "length u \<le> length (dropWhile is_space s)" using u by simp
  ultimately show ?thesis using length_dropWhile_le [of is_space s] by linarith
qed

lemma scan_sym_shorter: "scan_sym s = Scan_sym a ty w r \<Longrightarrow> length r < length s"
proof -
  assume "scan_sym s = Scan_sym a ty w r"
  then obtain r1 r2 where r: "scan_lx s = Some (a, r1)" "dropWhile is_space r1 = ty # r2" "read_word r2 = Some (w, r)"
    by (auto simp: scan_sym_def split: if_split_asm option.splits list.splits)
  have "Suc (length r2) \<le> length r1" using r(2) length_dropWhile_le [of is_space r1] by simp
  then show ?thesis using scan_lx_shorter [OF r(1)] read_word_shorter [OF r(3)] by simp
qed

function load_loop :: "(nat \<Rightarrow> bool) \<Rightarrow> string \<Rightarrow> ksyms \<Rightarrow> ksyms option outcome" where
  "load_loop mem text ks =
     (case scan_sym text of
        Scan_EOF \<Rightarrow> Done (Some ks)
      | Scan_short \<Rightarrow> Done None
      | Scan_sym addr ty name r \<Rightarrow>
          if length name > 255 then Fault
          else (case ksyms_add mem name addr ks of
                  Done (ret, ks') \<Rightarrow> if ret \<noteq> 0 then Done None else load_loop mem (skip_line r) ks'
                | Blocked \<Rightarrow> Blocked | Fault \<Rightarrow> Fault | Aborted \<Rightarrow> Aborted))"
  by pat_completeness auto

termination
  by (relation "measure (\<lambda>(mem, text, ks). length text)")
    (auto dest!: scan_sym_shorter intro: le_less_trans [OF skip_line_shorter])

declare load_loop.simps [simp del]

text \<open>
  \<open>ksyms_load\<close>: \<open>text\<close> is what \<open>/proc/kallsyms\<close> has, \<open>None\<close> if it cannot be opened; \<open>size\<close> is that of the
  structure, and \<open>q\<close> is \<open>qsort\<close>.
\<close>

definition ksyms_load ::
    "((ksym \<Rightarrow> ksym \<Rightarrow> int) \<Rightarrow> ksym list \<Rightarrow> ksym list) \<Rightarrow> (nat \<Rightarrow> bool) \<Rightarrow> string option \<Rightarrow> ksyms option outcome" where
  "ksyms_load q mem file =
     (case file of
        None \<Rightarrow> Done None
      | Some text \<Rightarrow>
          if \<not> mem 40 then Done None
          else bind_outcome (load_loop mem text ksyms_zero) (\<lambda>r.
            case r of None \<Rightarrow> Done None
            | Some ks \<Rightarrow> Done (Some (ks\<lparr>syms := q (ksym_cmp ks) (syms ks)\<rparr>))))"

text \<open>\<open>ksyms_find\<close>: the loop, then the last comparison.\<close>

function find_loop :: "ksym list \<Rightarrow> u64 \<Rightarrow> int \<Rightarrow> int \<Rightarrow> int \<times> int" where
  "find_loop ss addr start end =
     (if start < end
      then let mid = start + (end - start + 1) div 2
           in if k_addr (ss ! nat mid) \<le> addr then find_loop ss addr mid end else find_loop ss addr start (mid - 1)
      else (start, end))"
  by pat_completeness auto

termination
proof (relation "measure (\<lambda>(ss, addr, start, end). nat (end - start))", goal_cases)
  case (2 ss addr start e mid)
  then have "start < mid" "mid \<le> e" by (simp_all; presburger)+
  then show ?case by simp
next
  case (3 ss addr start e mid)
  then have "start < mid" "mid \<le> e" by (simp_all; presburger)+
  then show ?case by simp
qed simp

declare find_loop.simps [simp del]

definition ksyms_find :: "ksyms \<Rightarrow> u64 \<Rightarrow> ksym option" where
  "ksyms_find ks addr =
     (case find_loop (syms ks) addr 0 (int (length (syms ks)) - 1) of
        (start, end) \<Rightarrow>
          if start = end \<and> k_addr (syms ks ! nat start) \<le> addr then Some (syms ks ! nat start) else None)"

section \<open>Looking up one name\<close>

text \<open>\<open>kallsyms_lookup\<close>; the null pointer is 0.\<close>

fun lookup_lines :: "string \<Rightarrow> string list \<Rightarrow> u64" where
  "lookup_lines symbol_name [] = 0"
| "lookup_lines symbol_name (l # ls) =
     (case scan_sym l of
        Scan_sym address ty sy r \<Rightarrow> if sy = symbol_name then address else lookup_lines symbol_name ls
      | _ \<Rightarrow> lookup_lines symbol_name ls)"

definition kallsyms_lookup :: "string option \<Rightarrow> string \<Rightarrow> u64" where
  "kallsyms_lookup file symbol_name =
     (case file of None \<Rightarrow> 0 | Some text \<Rightarrow> lookup_lines symbol_name (fgets_chunks 255 [] text))"

section \<open>Binary search\<close>

lemma find_loop_bounds:
  assumes "0 \<le> start" "start \<le> end" "end < int (length ss)" "sorted (map k_addr ss)"
    and "\<forall>i < length ss. int i > end \<longrightarrow> a < k_addr (ss ! i)"
    and "start > 0 \<longrightarrow> k_addr (ss ! nat start) \<le> a"
  shows "\<exists>m. find_loop ss a start end = (m, m) \<and> 0 \<le> m \<and> m < int (length ss)
     \<and> (\<forall>i < length ss. int i > m \<longrightarrow> a < k_addr (ss ! i)) \<and> (m > 0 \<longrightarrow> k_addr (ss ! nat m) \<le> a)"
  using assms
proof (induction ss a start "end" rule: find_loop.induct)
  case (1 ss a start e)
  show ?case
  proof (cases "start < e")
    case False
    then show ?thesis using 1 by (intro exI [of _ start]) (auto simp: find_loop.simps)
  next
    case True
    let ?mid = "start + (e - start + 1) div 2"
    have mid: "start < ?mid" "?mid \<le> e" using True by simp_all
    show ?thesis
    proof (cases "k_addr (ss ! nat ?mid) \<le> a")
      case le: True
      then have "find_loop ss a start e = find_loop ss a ?mid e"
        using True by (simp add: find_loop.simps [of ss a start e])
      then show ?thesis using 1(1) [OF True refl le] mid 1(3-8) le by simp
    next
      case gt: False
      have "a < k_addr (ss ! i)" if "i < length ss" "int i > ?mid - 1" for i
      proof -
        have "nat ?mid \<le> i" using that(2) by linarith
        then have "k_addr (ss ! nat ?mid) \<le> k_addr (ss ! i)" using 1(6) that(1) by (simp add: sorted_iff_nth_mono)
        then show ?thesis using gt by (simp add: not_le)
      qed
      moreover have "find_loop ss a start e = find_loop ss a start (?mid - 1)"
        using True gt by (simp add: find_loop.simps [of ss a start e])
      ultimately show ?thesis using 1(2) [OF True refl gt] mid 1(3-8) by simp
    qed
  qed
qed

text \<open>The reference: the last symbol at or below the address.\<close>

definition last_below :: "ksym list \<Rightarrow> u64 \<Rightarrow> ksym option" where
  "last_below ss a = (let bs = filter (\<lambda>s. k_addr s \<le> a) ss in if bs = [] then None else Some (last bs))"

lemma filter_prefix:
  assumes "n \<le> length xs" "\<forall>i < n. P (xs ! i)" "\<forall>i < length xs. n \<le> i \<longrightarrow> \<not> P (xs ! i)"
  shows "filter P xs = take n xs"
proof -
  have "filter P (take n xs) = take n xs" using assms(1,2) by (auto simp: filter_id_conv in_set_conv_nth)
  moreover have "filter P (drop n xs) = []" using assms(1,3) by (auto simp: filter_empty_conv in_set_conv_nth)
  ultimately show ?thesis using filter_append [of P "take n xs" "drop n xs"] by simp
qed

lemma find_agrees:
  assumes "sorted (map k_addr (syms ks))"
  shows "ksyms_find ks a = last_below (syms ks) a"
proof (cases "syms ks = []")
  case True
  then show ?thesis by (simp add: ksyms_find_def last_below_def find_loop.simps)
next
  case False
  let ?ss = "syms ks"
  have "0 < length ?ss" using False by simp
  then obtain m where m: "find_loop ?ss a 0 (int (length ?ss) - 1) = (m, m)" "0 \<le> m" "m < int (length ?ss)"
    "\<forall>i < length ?ss. int i > m \<longrightarrow> a < k_addr (?ss ! i)" "m > 0 \<longrightarrow> k_addr (?ss ! nat m) \<le> a"
    using find_loop_bounds [of 0 "int (length ?ss) - 1" ?ss a] assms by auto
  show ?thesis
  proof (cases "k_addr (?ss ! nat m) \<le> a")
    case True
    have nm: "nat m < length ?ss" using m(2,3) by linarith
    have below: "k_addr (?ss ! i) \<le> a" if "i < nat m + 1" for i
    proof -
      have "k_addr (?ss ! i) \<le> k_addr (?ss ! nat m)" using assms nm that by (simp add: sorted_iff_nth_mono)
      then show ?thesis using True by simp
    qed
    have "filter (\<lambda>s. k_addr s \<le> a) ?ss = take (nat m + 1) ?ss"
      using nm below m(2,4) by (intro filter_prefix) (auto simp: not_le)
    moreover have "take (nat m + 1) ?ss \<noteq> []" "last (take (nat m + 1) ?ss) = ?ss ! nat m"
      using nm False by (auto simp: last_conv_nth)
    ultimately show ?thesis using m(1) True by (simp add: ksyms_find_def last_below_def)
  next
    case gt: False
    then have m0: "m = 0" using m(2,5) by auto
    have "a < k_addr (?ss ! i)" if "i < length ?ss" for i
      using m(4) m0 gt that by (cases "i = 0") (auto simp: not_le)
    then have "filter (\<lambda>s. k_addr s \<le> a) ?ss = []"
      by (auto simp: filter_empty_conv in_set_conv_nth not_le)
    then show ?thesis using m(1) gt by (simp add: ksyms_find_def last_below_def)
  qed
qed

lemma last_below_greatest:
  assumes "sorted (map k_addr ss)" "last_below ss a = Some s"
  shows "s \<in> set ss" "k_addr s \<le> a" "\<forall>t \<in> set ss. k_addr t \<le> a \<longrightarrow> k_addr t \<le> k_addr s"
proof -
  let ?bs = "filter (\<lambda>s. k_addr s \<le> a) ss"
  have bs: "?bs \<noteq> []" "s = last ?bs" using assms(2) by (auto simp: last_below_def Let_def split: if_split_asm)
  then have "s \<in> set ?bs" using last_in_set [OF bs(1)] by simp
  then show "s \<in> set ss" "k_addr s \<le> a" by simp_all
  have "sorted (map k_addr ?bs)" using assms(1) by (rule sorted_filter)
  moreover obtain cs where "?bs = cs @ [s]" using bs by (metis append_butlast_last_id)
  ultimately have "\<forall>t \<in> set ?bs. k_addr t \<le> k_addr s" by (auto simp: sorted_append)
  then show "\<forall>t \<in> set ss. k_addr t \<le> a \<longrightarrow> k_addr t \<le> k_addr s" by simp
qed

lemma last_below_None: "last_below ss a = None \<longleftrightarrow> (\<forall>t \<in> set ss. a < k_addr t)"
  by (auto simp: last_below_def Let_def filter_empty_conv not_le split: if_split_asm)

section \<open>The pool of names\<close>

definition table :: "ksyms \<Rightarrow> (string \<times> u64) list" where
  "table ks = map (\<lambda>s. (sym_name ks s, k_addr s)) (syms ks)"

definition pool_ok :: "ksyms \<Rightarrow> bool" where
  "pool_ok ks \<longleftrightarrow> length (syms ks) \<le> syms_cap ks \<and> length (strs ks) \<le> strs_cap ks
     \<and> (strs ks = [] \<or> last (strs ks) = NUL) \<and> (\<forall>s \<in> set (syms ks). k_name s < length (strs ks))"

lemma pool_ok_zero: "pool_ok ksyms_zero" "table ksyms_zero = []"
  by (simp_all add: pool_ok_def ksyms_zero_def table_def)

lemma takeWhile_pool:
  assumes "i < length p" "last p = NUL"
  shows "takeWhile (\<lambda>c. c \<noteq> NUL) (drop i (p @ r)) = takeWhile (\<lambda>c. c \<noteq> NUL) (drop i p)"
proof -
  have "last (drop i p) = NUL" "drop i p \<noteq> []" using assms by simp_all
  then have "NUL \<in> set (drop i p)" by (metis last_in_set)
  then show ?thesis using assms(1) by (simp add: takeWhile_append1)
qed

lemma grown_ok: "cap < need \<Longrightarrow> need \<le> 536870911 \<Longrightarrow> \<exists>c. grown cap need' = Done c \<and> need' \<le> c \<and> 1024 \<le> c \<and> cap * 4 div 3 \<le> c"
  by (auto simp: grown_def)

lemma ksyms_add_ok:
  assumes "\<forall>n. mem n" "pool_ok ks" "NUL \<notin> set name"
    and "length (strs ks) + length name + 1 \<le> 536870911" "length (syms ks) + 1 \<le> 536870911"
  shows "\<exists>ks'. ksyms_add mem name addr ks = Done (0, ks') \<and> pool_ok ks' \<and> table ks' = table ks @ [(name, addr)]
     \<and> length (strs ks') = length (strs ks) + length name + 1 \<and> length (syms ks') = length (syms ks) + 1"
proof -
  obtain c1 where c1: "grow_strs mem (length name + 1) ks = Done (True, ks\<lparr>strs_cap := c1\<rparr>)"
    "length (strs ks) + length name + 1 \<le> c1"
  proof (cases "length (strs ks) + (length name + 1) > strs_cap ks")
    case True
    then show ?thesis using that grown_ok [OF True, of "length (strs ks) + (length name + 1)"] assms(1,4)
      by (auto simp: grow_strs_def)
  next
    case False
    then show ?thesis using that [of "strs_cap ks"] by (simp add: grow_strs_def)
  qed
  let ?ks1 = "ks\<lparr>strs_cap := c1\<rparr>"
  obtain c2 where c2: "grow_syms mem ?ks1 = Done (True, ?ks1\<lparr>syms_cap := c2\<rparr>)" "length (syms ks) + 1 \<le> c2"
  proof (cases "length (syms ks) + 1 > syms_cap ks")
    case True
    have eq: "syms_cap ks = length (syms ks)" using True assms(2) by (simp add: pool_ok_def)
    obtain c where c: "grown (syms_cap ks) 0 = Done c" "1024 \<le> c" "syms_cap ks * 4 div 3 \<le> c"
      using grown_ok [OF True, of 0] assms(5) by auto
    have "length (syms ks) + 1 \<le> c" using c(2,3) eq by linarith
    then show ?thesis using that [of c] True c(1) assms(1) by (simp add: grow_syms_def)
  next
    case False
    then show ?thesis using that [of "syms_cap ks"] by (simp add: grow_syms_def)
  qed
  let ?ks' = "?ks1\<lparr>syms_cap := c2, syms := syms ks @ [\<lparr>k_name = length (strs ks), k_addr = addr\<rparr>],
      strs := strs ks @ name @ [NUL]\<rparr>"
  have names: "sym_name ?ks' s = sym_name ks s" if "s \<in> set (syms ks)" for s
  proof -
    have "k_name s < length (strs ks)" using that assms(2) by (simp add: pool_ok_def)
    moreover from this have "last (strs ks) = NUL" using assms(2) by (auto simp: pool_ok_def)
    ultimately show ?thesis using takeWhile_pool [of "k_name s" "strs ks" "name @ [NUL]"] by (simp add: sym_name_def)
  qed
  have new: "sym_name ?ks' \<lparr>k_name = length (strs ks), k_addr = addr\<rparr> = name"
    using assms(3) by (simp add: sym_name_def takeWhile_append2 takeWhile_tail) (metis append.right_neutral takeWhile_append2 takeWhile.simps)
  have "pool_ok ?ks'" using assms(2) c1(2) c2(2) by (auto simp: pool_ok_def)
  moreover have "table ?ks' = table ks @ [(name, addr)]" using names new by (simp add: table_def)
  moreover have "ksyms_add mem name addr ks = Done (0, ?ks')" using c1(1) c2(1) by (simp add: ksyms_add_def)
  ultimately show ?thesis by auto
qed

section \<open>The text of the symbol file\<close>

text \<open>
  A line has the address in sixteen digits, the type, the name, and for a symbol of a module a tab and
  its name in brackets.
\<close>

type_synonym sym_entry = "u64 \<times> char \<times> string \<times> string"

definition hex16 :: "u64 \<Rightarrow> string" where
  "hex16 a = replicate (16 - length (show_hex (unat a))) CHR ''0'' @ show_hex (unat a)"

definition sym_line :: "sym_entry \<Rightarrow> string" where
  "sym_line e = (case e of (a, ty, name, suffix) \<Rightarrow> hex16 a @ '' '' @ [ty] @ '' '' @ name @ suffix @ [NL])"

definition sym_entry_ok :: "sym_entry \<Rightarrow> bool" where
  "sym_entry_ok e \<longleftrightarrow> (case e of (a, ty, name, suffix) \<Rightarrow>
     \<not> is_space ty \<and> is_word name \<and> length name \<le> 255 \<and> NUL \<notin> set name
     \<and> (suffix = [] \<or> is_space (hd suffix)) \<and> NL \<notin> set suffix)"

lemma hexs_val_zeros: "hexs_val 0 (replicate n CHR ''0'' @ s) = hexs_val 0 s"
  by (induction n) (simp_all add: hex_val_def is_digit_def digit_val_def)

lemma hex16_props: "hex_digits (hex16 a)" "hexs_val 0 (hex16 a) = unat a"
proof -
  have "CHR ''0'' = hex_char 0" by code_simp
  then have z: "\<exists>d < 16. CHR ''0'' = hex_char d" by (intro exI [of _ 0]) simp
  show "hex_digits (hex16 a)" using show_hex_props [of "unat a"] z by (auto simp: hex16_def hex_digits_def)
  show "hexs_val 0 (hex16 a) = unat a" using show_hex_props [of "unat a"] by (simp add: hex16_def hexs_val_zeros)
qed

lemma scan_lx_digits:
  assumes "hex_digits h" "r = [] \<or> \<not> is_hex (hd r)" "map to_lower (take 2 (h @ r)) \<noteq> ''0x''"
    and "hexs_val 0 h \<le> UINT64_MAX_nat"
  shows "scan_lx (h @ r) = Some (of_nat (hexs_val 0 h), r)"
proof -
  obtain d cs where h: "h = hex_char d # cs" "d < 16" using assms(1) by (cases h) (auto simp: hex_digits_def)
  have hx: "\<forall>c \<in> set h. is_hex c" using assms(1) hex_char_simps(1) by (auto simp: hex_digits_def)
  have sp: "dropWhile is_space (h @ r) = h @ r" using h hex_char_simps(3) by simp
  have sg: "hd (h @ r) \<noteq> CHR ''-''" "hd (h @ r) \<noteq> CHR ''+''" using h hex_char_simps(5,6) by simp_all
  have tw: "takeWhile is_hex (h @ r) = h" "dropWhile is_hex (h @ r) = r"
    using hx assms(2) by (cases r; simp add: takeWhile_append2 dropWhile_append2)+
  have "h \<noteq> []" using h by simp
  then show ?thesis using sg tw assms(3,4) by (simp add: scan_lx_def Let_def sp del: take_append)
qed

lemma scan_sym_line:
  assumes "sym_entry_ok (a, ty, name, suffix)"
  shows "scan_sym (sym_line (a, ty, name, suffix) @ t) = Scan_sym a ty name (suffix @ NL # t)"
proof -
  let ?r = "'' '' @ [ty] @ '' '' @ name @ suffix @ NL # t"
  obtain d cs where h: "hex16 a = hex_char d # cs" "d < 16"
    using hex16_props(1) [of a] by (cases "hex16 a") (auto simp: hex_digits_def)
  have "to_lower (hd (tl (hex16 a @ ?r))) \<noteq> CHR ''x''"
  proof (cases cs)
    case Nil
    then show ?thesis using h by (simp add: to_lower_def)
  next
    case (Cons c cs')
    then have "\<exists>d < 16. c = hex_char d" using hex16_props(1) [of a] h by (simp add: hex_digits_def)
    then show ?thesis using h Cons hex_char_simps(4) by auto
  qed
  then have x: "map to_lower (take 2 (hex16 a @ ?r)) \<noteq> ''0x''" using h by (cases cs) auto
  have "scan_lx (hex16 a @ ?r) = Some (of_nat (hexs_val 0 (hex16 a)), ?r)"
    using x hex16_props [of a] unat_u64_less [of a]
    by (intro scan_lx_digits) (auto simp: is_hex_def is_digit_def to_lower_def)
  then have lx: "scan_lx (hex16 a @ ?r) = Some (a, ?r)" by (simp add: hex16_props(2))
  have ne: "dropWhile is_space (hex16 a @ ?r) \<noteq> []" using h hex_char_simps(3) by simp
  have "read_word ('' '' @ name @ suffix @ NL # t) = Some (name, suffix @ NL # t)"
    using assms read_word_exact [of name "suffix @ NL # t"]
    by (cases suffix) (auto simp: sym_entry_ok_def read_word_skip)
  then show ?thesis using lx ne assms by (simp add: scan_sym_def sym_line_def sym_entry_ok_def)
qed

lemma scan_sym_skip: "scan_sym (dropWhile is_space s) = scan_sym s"
proof -
  have "scan_lx (dropWhile is_space s) = scan_lx s" by (simp only: scan_lx_def dropWhile_idem)
  then show ?thesis by (simp add: scan_sym_def)
qed

lemma scan_after_line:
  assumes "NL \<notin> set suffix"
  shows "scan_sym (skip_line (suffix @ NL # t)) = scan_sym t"
proof (cases "suffix = []")
  case True
  then show ?thesis using scan_sym_skip [of "NL # t"] scan_sym_skip [of t] by (simp add: skip_line_def)
next
  case False
  have "\<forall>c \<in> set suffix. c \<noteq> NL" using assms by auto
  then have "takeWhile (\<lambda>c. c \<noteq> NL) (suffix @ NL # t) = suffix" "dropWhile (\<lambda>c. c \<noteq> NL) (suffix @ NL # t) = NL # t"
    by (simp_all add: takeWhile_append2 dropWhile_append2)
  then show ?thesis using False scan_sym_skip [of t] by (simp add: skip_line_def)
qed

definition names_size :: "sym_entry list \<Rightarrow> nat" where
  "names_size es = (\<Sum>e \<leftarrow> es. length (fst (snd (snd e))) + 1)"

definition entry_pair :: "sym_entry \<Rightarrow> string \<times> u64" where
  "entry_pair e = (fst (snd (snd e)), fst e)"

lemma load_loop_text:
  assumes "\<forall>n. mem n" "\<forall>e \<in> set es. sym_entry_ok e" "pool_ok ks"
    and "length (strs ks) + names_size es \<le> 536870911" "length (syms ks) + length es \<le> 536870911"
  shows "\<exists>ks'. load_loop mem (concat (map sym_line es)) ks = Done (Some ks') \<and> pool_ok ks'
     \<and> table ks' = table ks @ map entry_pair es"
  using assms(2-5)
proof (induction es arbitrary: ks)
  case Nil
  then show ?case by (simp add: load_loop.simps scan_sym_def)
next
  case (Cons e es)
  obtain a ty name suffix where e: "e = (a, ty, name, suffix)" by (cases e)
  have ok: "sym_entry_ok (a, ty, name, suffix)" using Cons.prems(1) e by simp
  then have nm: "length name \<le> 255" "NUL \<notin> set name" "NL \<notin> set suffix" by (simp_all add: sym_entry_ok_def)
  let ?t = "concat (map sym_line es)"
  obtain ks1 where ks1: "ksyms_add mem name a ks = Done (0, ks1)" "pool_ok ks1" "table ks1 = table ks @ [(name, a)]"
    "length (strs ks1) = length (strs ks) + length name + 1" "length (syms ks1) = length (syms ks) + 1"
    using ksyms_add_ok [OF assms(1) Cons.prems(2) nm(2), of a] Cons.prems(3,4) e by (auto simp: names_size_def)
  have "load_loop mem (skip_line (suffix @ NL # ?t)) ks1 = load_loop mem ?t ks1"
    using scan_after_line [OF nm(3), of ?t] by (simp add: load_loop.simps [of mem _ ks1])
  then have "load_loop mem (concat (map sym_line (e # es))) ks = load_loop mem ?t ks1"
    using scan_sym_line [OF ok, of ?t] ks1(1) nm(1) e by (simp add: load_loop.simps [of mem _ ks])
  moreover have "\<exists>ks'. load_loop mem ?t ks1 = Done (Some ks') \<and> pool_ok ks' \<and> table ks' = table ks1 @ map entry_pair es"
    using Cons.prems ks1(2,4,5) e by (intro Cons.IH) (simp_all add: names_size_def)
  ultimately show ?case using ks1(3) e by (auto simp: entry_pair_def)
qed

section \<open>Sorting\<close>

text \<open>What the C standard promises of \<open>qsort\<close>; the order of equal elements is not specified.\<close>

definition qsort_ok :: "(('a \<Rightarrow> 'a \<Rightarrow> int) \<Rightarrow> 'a list \<Rightarrow> 'a list) \<Rightarrow> ('a \<Rightarrow> 'a \<Rightarrow> int) \<Rightarrow> bool" where
  "qsort_ok q cmp \<longleftrightarrow> (\<forall>xs. mset (q cmp xs) = mset xs \<and> sorted_wrt (\<lambda>x y. cmp x y \<le> 0) (q cmp xs))"

text \<open>Insertion sort keeps the promise for every comparison that is total and transitive.\<close>

fun insert_cmp :: "('a \<Rightarrow> 'a \<Rightarrow> int) \<Rightarrow> 'a \<Rightarrow> 'a list \<Rightarrow> 'a list" where
  "insert_cmp cmp x [] = [x]"
| "insert_cmp cmp x (y # ys) = (if cmp x y \<le> 0 then x # y # ys else y # insert_cmp cmp x ys)"

definition isort :: "('a \<Rightarrow> 'a \<Rightarrow> int) \<Rightarrow> 'a list \<Rightarrow> 'a list" where
  "isort cmp xs = foldr (insert_cmp cmp) xs []"

definition total_cmp :: "('a \<Rightarrow> 'a \<Rightarrow> int) \<Rightarrow> bool" where
  "total_cmp cmp \<longleftrightarrow> (\<forall>x y. cmp x y \<le> 0 \<or> cmp y x \<le> 0) \<and> (\<forall>x y z. cmp x y \<le> 0 \<longrightarrow> cmp y z \<le> 0 \<longrightarrow> cmp x z \<le> 0)"

lemma mset_insert_cmp [simp]: "mset (insert_cmp cmp x xs) = add_mset x (mset xs)"
  by (induction xs) auto

lemma set_insert_cmp [simp]: "set (insert_cmp cmp x xs) = insert x (set xs)"
  using mset_insert_cmp [of cmp x xs] by (metis set_mset_mset set_mset_add_mset_insert)

lemma sorted_insert_cmp:
  assumes "total_cmp cmp"
  shows "sorted_wrt (\<lambda>x y. cmp x y \<le> 0) xs \<Longrightarrow> sorted_wrt (\<lambda>x y. cmp x y \<le> 0) (insert_cmp cmp x xs)"
proof (induction xs)
  case (Cons y ys)
  have tr: "cmp x z \<le> 0" if "cmp x y \<le> 0" "cmp y z \<le> 0" for z using assms that unfolding total_cmp_def by blast
  have "cmp y x \<le> 0" if "\<not> cmp x y \<le> 0" using assms that unfolding total_cmp_def by blast
  then show ?case using Cons tr by (cases "cmp x y \<le> 0") simp_all
qed simp

lemma isort_ok: "total_cmp cmp \<Longrightarrow> qsort_ok isort cmp"
proof -
  assume t: "total_cmp cmp"
  have "mset (isort cmp xs) = mset xs \<and> sorted_wrt (\<lambda>x y. cmp x y \<le> 0) (isort cmp xs)" for xs
    using sorted_insert_cmp [OF t] by (induction xs) (simp_all add: isort_def)
  then show ?thesis by (simp add: qsort_ok_def)
qed

lemma strcmp_total: "strcmp x y \<le> 0 \<or> strcmp y x \<le> 0"
  by (induction x y rule: strcmp.induct) auto

lemma strcmp_trans: "strcmp x y \<le> 0 \<Longrightarrow> strcmp y z \<le> 0 \<Longrightarrow> strcmp x z \<le> 0"
proof (induction x y arbitrary: z rule: strcmp.induct)
  case (1 z)
  then show ?case by simp
next
  case (2 y ys)
  then show ?case by (cases z) auto
next
  case (3 x xs)
  then show ?case by simp
next
  case (4 x xs y ys)
  then show ?case by (cases z) (auto split: if_split_asm)
qed

lemma ksym_cmp_le:
  "ksym_cmp ks s t \<le> 0 \<longleftrightarrow> k_addr s < k_addr t \<or> k_addr s = k_addr t \<and> strcmp (sym_name ks s) (sym_name ks t) \<le> 0"
  by (simp add: ksym_cmp_def)

lemma ksym_cmp_total: "total_cmp (ksym_cmp ks)"
  unfolding total_cmp_def
proof (intro conjI allI impI)
  show "ksym_cmp ks x y \<le> 0 \<or> ksym_cmp ks y x \<le> 0" for x y
    using strcmp_total [of "sym_name ks x" "sym_name ks y"] linorder_less_linear [of "k_addr x" "k_addr y"]
    by (auto simp: ksym_cmp_le)
  show "ksym_cmp ks x z \<le> 0" if "ksym_cmp ks x y \<le> 0" "ksym_cmp ks y z \<le> 0" for x y z
    using that strcmp_trans [of "sym_name ks x" "sym_name ks y" "sym_name ks z"]
    by (auto simp: ksym_cmp_le dest: less_trans)
qed

lemma ksym_cmp_addr: "ksym_cmp ks s t \<le> 0 \<Longrightarrow> k_addr s \<le> k_addr t"
  by (auto simp: ksym_cmp_le)

lemma qsort_syms:
  assumes "qsort_ok q (ksym_cmp ks)"
  shows "sorted (map k_addr (q (ksym_cmp ks) (syms ks)))" "set (q (ksym_cmp ks) (syms ks)) = set (syms ks)"
proof -
  have "sorted_wrt (\<lambda>x y. ksym_cmp ks x y \<le> 0) (q (ksym_cmp ks) (syms ks))" using assms by (simp add: qsort_ok_def)
  then have "sorted_wrt (\<lambda>x y. k_addr x \<le> k_addr y) (q (ksym_cmp ks) (syms ks))"
    by (rule sorted_wrt_mono_rel [rotated]) (simp add: ksym_cmp_addr)
  then show "sorted (map k_addr (q (ksym_cmp ks) (syms ks)))" by (simp add: sorted_map)
  show "set (q (ksym_cmp ks) (syms ks)) = set (syms ks)" using assms unfolding qsort_ok_def by (metis set_mset_mset)
qed

section \<open>Properties\<close>

text \<open>C27: The table that \<open>ksyms_load\<close> builds from a symbol file answers address queries as the file does: for
  every address \<open>ksyms_find\<close> returns a symbol of the file with the greatest address that is not above
  it, with its name, and nothing exactly if every symbol lies above. Each line of the file is an address, a
  type and a name, with perhaps a module after white space; a name has at most 255 characters, the room of
  the buffer it is scanned into, and no white space or NUL; the names fit 512 MB together, every
  allocation succeeds and \<open>qsort\<close> sorts.\<close>

theorem ksyms_load_find:
  assumes "\<forall>n. mem n" "\<forall>e \<in> set es. sym_entry_ok e" "names_size es \<le> 536870911"
    and "\<forall>ks. qsort_ok q (ksym_cmp ks)"
  shows "\<exists>ks. ksyms_load q mem (Some (concat (map sym_line es))) = Done (Some ks)
     \<and> (\<forall>a. case ksyms_find ks a of
              None \<Rightarrow> \<forall>(name, b) \<in> entry_pair ` set es. a < b
            | Some s \<Rightarrow> (sym_name ks s, k_addr s) \<in> entry_pair ` set es \<and> k_addr s \<le> a
                \<and> (\<forall>(name, b) \<in> entry_pair ` set es. b \<le> a \<longrightarrow> b \<le> k_addr s))"
proof -
  have "length es \<le> names_size es" unfolding names_size_def by (induction es) auto
  then obtain ks where ks: "load_loop mem (concat (map sym_line es)) ksyms_zero = Done (Some ks)"
    "table ks = map entry_pair es"
    using load_loop_text [OF assms(1,2) pool_ok_zero(1)] assms(3) pool_ok_zero(2) by (auto simp: ksyms_zero_def)
  let ?ks = "ks\<lparr>syms := q (ksym_cmp ks) (syms ks)\<rparr>"
  have srt: "sorted (map k_addr (syms ?ks))" using qsort_syms(1) assms(4) by simp
  have names: "(\<lambda>s. (sym_name ?ks s, k_addr s)) ` set (syms ?ks) = entry_pair ` set es"
  proof -
    have "set (table ks) = entry_pair ` set es" using ks(2) by simp
    then show ?thesis using qsort_syms(2) assms(4) by (simp add: table_def sym_name_def)
  qed
  have "case ksyms_find ?ks a of
          None \<Rightarrow> \<forall>(name, b) \<in> entry_pair ` set es. a < b
        | Some s \<Rightarrow> (sym_name ?ks s, k_addr s) \<in> entry_pair ` set es \<and> k_addr s \<le> a
            \<and> (\<forall>(name, b) \<in> entry_pair ` set es. b \<le> a \<longrightarrow> b \<le> k_addr s)" for a
  proof (cases "last_below (syms ?ks) a")
    case None
    then show ?thesis using last_below_None [of "syms ?ks" a] find_agrees [OF srt, of a] by (simp only: flip: names) auto
  next
    case (Some s)
    then show ?thesis
      using last_below_greatest [OF srt Some] find_agrees [OF srt, of a] by (simp only: flip: names) auto
  qed
  moreover have "ksyms_load q mem (Some (concat (map sym_line es))) = Done (Some ?ks)"
    using ks(1) assms(1) by (simp add: ksyms_load_def)
  ultimately show ?thesis by blast
qed

definition ex_syms :: "sym_entry list" where
  "ex_syms = [(8192, CHR ''t'', ''init'', CHR 0x09 # ''[mod]''), (4096, CHR ''T'', ''start'', [])]"

theorem ksyms_load_find_witness:
  "\<exists>ks s. ksyms_load isort (\<lambda>n. True) (Some (concat (map sym_line ex_syms))) = Done (Some ks)
     \<and> ksyms_find ks 6000 = Some s \<and> sym_name ks s = ''start'' \<and> ksyms_find ks 4095 = None"
proof -
  have ok: "\<forall>e \<in> set ex_syms. sym_entry_ok e"
    by (auto simp: ex_syms_def sym_entry_ok_def is_word_def is_space_def)
  have pairs: "entry_pair ` set ex_syms = {(''init'', 8192), (''start'', 4096)}"
    by (simp add: ex_syms_def entry_pair_def)
  obtain ks where ks: "ksyms_load isort (\<lambda>n. True) (Some (concat (map sym_line ex_syms))) = Done (Some ks)"
    and found: "\<forall>a. case ksyms_find ks a of
              None \<Rightarrow> \<forall>(name, b) \<in> entry_pair ` set ex_syms. a < b
            | Some s \<Rightarrow> (sym_name ks s, k_addr s) \<in> entry_pair ` set ex_syms \<and> k_addr s \<le> a
                \<and> (\<forall>(name, b) \<in> entry_pair ` set ex_syms. b \<le> a \<longrightarrow> b \<le> k_addr s)"
    using ksyms_load_find [of "\<lambda>n. True" ex_syms isort] ok isort_ok [OF ksym_cmp_total]
    by (auto simp: names_size_def ex_syms_def)
  obtain s where "ksyms_find ks 6000 = Some s" "sym_name ks s = ''start''"
    using found [rule_format, of 6000] pairs by (cases "ksyms_find ks 6000") auto
  moreover have "ksyms_find ks 4095 = None"
    using found [rule_format, of 4095] pairs by (cases "ksyms_find ks 4095") auto
  ultimately show ?thesis using ks by blast
qed

lemma sym_line_single:
  assumes "sym_entry_ok e"
  shows "\<exists>l. sym_line e = l @ [NL] \<and> NL \<notin> set l"
proof -
  obtain a ty name suffix where e: "e = (a, ty, name, suffix)" by (cases e)
  have "\<not> is_space c" if "c \<in> set (hex16 a)" for c
    using hex16_props(1) [of a] that hex_char_simps(3) by (auto simp: hex_digits_def)
  then have "NL \<notin> set (hex16 a)" using is_space_simps(2) by blast
  then have "NL \<notin> set (hex16 a @ '' '' @ [ty] @ '' '' @ name @ suffix)"
    using assms e by (auto simp: sym_entry_ok_def is_word_def)
  then show ?thesis using e by (intro exI [of _ "hex16 a @ '' '' @ [ty] @ '' '' @ name @ suffix"]) (simp add: sym_line_def)
qed

text \<open>\<open>kallsyms_lookup\<close> returns the address on the first line of the symbol file that has the name, and the
  null pointer if no line has it, when every line fits the buffer of 256 bytes.\<close>

theorem kallsyms_lookup_first:
  assumes "\<forall>e \<in> set es. sym_entry_ok e \<and> length (sym_line e) \<le> 255"
  shows "kallsyms_lookup (Some (concat (map sym_line es))) n
     = (case find (\<lambda>(a, ty, name, suffix). name = n) es of None \<Rightarrow> 0 | Some (a, ty, name, suffix) \<Rightarrow> a)"
  using assms
proof (induction es)
  case Nil
  then show ?case by (simp add: kallsyms_lookup_def)
next
  case (Cons e es)
  obtain a ty name suffix where e: "e = (a, ty, name, suffix)" by (cases e)
  obtain l where l: "sym_line e = l @ [NL]" "NL \<notin> set l" using sym_line_single [of e] Cons.prems by auto
  have "fgets_chunks 255 [] (sym_line e @ concat (map sym_line es)) = sym_line e # fgets_chunks 255 [] (concat (map sym_line es))"
    using fgets_line [OF l(2), of "[]" 255 "concat (map sym_line es)"] l(1) Cons.prems by simp
  moreover have "scan_sym (sym_line e) = Scan_sym a ty name (suffix @ [NL])"
    using scan_sym_line [of a ty name suffix "[]"] Cons.prems e by simp
  ultimately show ?case using Cons e by (simp add: kallsyms_lookup_def)
qed

theorem kallsyms_lookup_first_witness:
  "kallsyms_lookup (Some (concat (map sym_line ex_syms))) ''start'' = 4096"
proof -
  have "length (show_hex 4096) \<le> 16" "length (show_hex 8192) \<le> 16" by (simp_all add: show_hex.simps)
  then have "\<forall>e \<in> set ex_syms. sym_entry_ok e \<and> length (sym_line e) \<le> 255"
    by (auto simp: ex_syms_def sym_entry_ok_def is_word_def is_space_def sym_line_def hex16_def)
  from kallsyms_lookup_first [OF this, of "''start''"] show ?thesis by (simp add: ex_syms_def)
qed

text \<open>A line whose name has 256 characters or more overruns the buffer \<open>sym_name\<close> of \<open>ksyms_load\<close>.\<close>

lemma long_name_overruns:
  assumes "scan_sym inp = Scan_sym a ty name r" "length name > 255" "mem 40"
  shows "ksyms_load q mem (Some inp) = Fault"
  using assms by (simp add: ksyms_load_def load_loop.simps [of mem inp])

end
