(* ===== verification/Kmemleak.thy ===== *)
theory Kmemleak
  imports Ksyms
begin

unbundle bit_operations_syntax

text \<open>
  \<open>observe/kmemleak.cpp\<close>: outstanding kernel allocations by call stack. The options, the collection of the
  allocations that the BPF program left in its maps, the report of the largest stacks, the child process
  that is traced, and \<open>main\<close>. The walk over a kernel map runs over the list of what its calls give.
\<close>

section \<open>Options\<close>

record km_env =
  interval :: int
  nr_intervals :: int
  km_pid :: int
  trace_all :: bool
  show_allocs :: bool
  combined_only :: bool
  min_age_ns :: int
  sample_rate :: u64
  top_stacks :: int
  min_size :: u64
  max_size :: u64
  wa_missing_free :: bool
  km_verbose :: bool
  command :: string

definition km_defaults :: km_env where
  "km_defaults = \<lparr>interval = 5, nr_intervals = - 1, km_pid = 0, trace_all = False, show_allocs = False,
     combined_only = False, min_age_ns = 500, sample_rate = 1, top_stacks = 10, min_size = 0,
     max_size = UINT64_MAX, wa_missing_free = False, km_verbose = False, command = []\<rparr>"

abbreviation perf_max_stack_depth :: nat where "perf_max_stack_depth \<equiv> 127"
abbreviation ALLOCS_MAX_ENTRIES :: nat where "ALLOCS_MAX_ENTRIES \<equiv> 1000000"
abbreviation COMBINED_ALLOCS_MAX_ENTRIES :: nat where "COMBINED_ALLOCS_MAX_ENTRIES \<equiv> 10240"

text \<open>\<open>argp_parse_long\<close>; \<open>argp_usage\<close> ends the process with status 64.\<close>

definition argp_parse_long :: "string \<Rightarrow> int + int" where
  "argp_parse_long arg =
     (case strtol10 arg of (temp, r, erange) \<Rightarrow> if erange \<or> temp \<le> 0 then Inl 64 else Inr temp)"

text \<open>
  A value of type \<open>double\<close> is stored into an \<open>int\<close>; \<open>cvt\<close> is what the machine gives where it does not fit,
  which the language leaves undefined.
\<close>

definition double_to_int :: "(int \<Rightarrow> int) \<Rightarrow> int \<Rightarrow> int" where
  "double_to_int cvt v = (if - 2147483648 \<le> v \<and> v \<le> 2147483647 then v else cvt v)"

text \<open>What \<open>argp\<close> calls the parser with: an option with its argument, or a positional argument.\<close>

datatype km_key = KOpt char string | KArg string

definition km_long :: "string \<Rightarrow> (int \<Rightarrow> km_env) \<Rightarrow> nat \<Rightarrow> int + (km_env \<times> nat)" where
  "km_long arg f n = (case argp_parse_long arg of Inl c \<Rightarrow> Inl c | Inr v \<Rightarrow> Inr (f v, n))"

definition km_parse_args :: "(int \<Rightarrow> int) \<Rightarrow> km_key \<Rightarrow> km_env \<Rightarrow> nat \<Rightarrow> int + (km_env \<times> nat)" where
  "km_parse_args cvt key e pos_args =
     (case key of
        KOpt c arg \<Rightarrow>
          if c = CHR ''p'' then Inr (e\<lparr>km_pid := atoi arg\<rparr>, pos_args)
          else if c = CHR ''t'' then Inr (e\<lparr>trace_all := True\<rparr>, pos_args)
          else if c = CHR ''a'' then Inr (e\<lparr>show_allocs := True\<rparr>, pos_args)
          else if c = CHR ''o'' then Inr (e\<lparr>min_age_ns := double_to_int cvt (1000000 * atoi arg)\<rparr>, pos_args)
          else if c = CHR ''c'' then Inr (e\<lparr>command := take 31 arg\<rparr>, pos_args)
          else if c = CHR ''C'' then Inr (e\<lparr>combined_only := True\<rparr>, pos_args)
          else if c = CHR ''F'' then Inr (e\<lparr>wa_missing_free := True\<rparr>, pos_args)
          else if c = CHR ''s'' then km_long arg (\<lambda>v. e\<lparr>sample_rate := of_int v\<rparr>) pos_args
          else if c = CHR ''T'' then Inr (e\<lparr>top_stacks := atoi arg\<rparr>, pos_args)
          else if c = CHR ''z'' then km_long arg (\<lambda>v. e\<lparr>min_size := of_int v\<rparr>) pos_args
          else if c = CHR ''Z'' then km_long arg (\<lambda>v. e\<lparr>max_size := of_int v\<rparr>) pos_args
          else if c = CHR ''v'' then Inr (e\<lparr>km_verbose := True\<rparr>, pos_args)
          else Inr (e, pos_args)
      | KArg arg \<Rightarrow>
          if pos_args + 1 = 1 then km_long arg (\<lambda>v. e\<lparr>interval := to_int32 v\<rparr>) (pos_args + 1)
          else if pos_args + 1 = 2 then km_long arg (\<lambda>v. e\<lparr>nr_intervals := to_int32 v\<rparr>) (pos_args + 1)
          else Inl 64)"

fun km_argp_parse :: "(int \<Rightarrow> int) \<Rightarrow> km_key list \<Rightarrow> km_env \<Rightarrow> nat \<Rightarrow> int + km_env" where
  "km_argp_parse cvt [] e n = Inr e"
| "km_argp_parse cvt (k # ks) e n =
     (case km_parse_args cvt k e n of Inl c \<Rightarrow> Inl c | Inr (e', n') \<Rightarrow> km_argp_parse cvt ks e' n')"

section \<open>Collecting allocations\<close>

record alloc_info =
  ai_size :: u64
  ai_time :: u64
  ai_stack :: int

record allocation =
  al_stack :: u64
  al_size :: u64
  al_count :: u64
  al_nodes :: "(u64 \<times> u64) list"

text \<open>
  One turn of the walk: the error of \<open>bpf_map_get_next_key\<close>, or the key with what the lookup gives, the
  clock, and whether memory for a node is available.
\<close>

datatype km_obs = NextErr int | Entry u64 "int + alloc_info" u64 bool

definition too_young :: "km_env \<Rightarrow> u64 \<Rightarrow> alloc_info \<Rightarrow> bool" where
  "too_young e now i \<longleftrightarrow> now - of_int (min_age_ns e) < ai_time i"

text \<open>The inner loop: the entry with the same stack, if there is one, is added to.\<close>

fun bump :: "bool \<Rightarrow> u64 \<Rightarrow> alloc_info \<Rightarrow> allocation list \<Rightarrow> allocation list option" where
  "bump show key i [] = None"
| "bump show key i (a # as) =
     (if al_stack a = of_int (ai_stack i)
      then Some (a\<lparr>al_size := al_size a + ai_size i, al_count := al_count a + 1,
                   al_nodes := (if show then [(key, ai_size i)] else []) @ al_nodes a\<rparr> # as)
      else map_option (Cons a) (bump show key i as))"

definition new_allocation :: "bool \<Rightarrow> u64 \<Rightarrow> alloc_info \<Rightarrow> allocation" where
  "new_allocation show key i =
     \<lparr>al_stack = of_int (ai_stack i), al_size = ai_size i, al_count = 1,
      al_nodes = (if show then [(key, ai_size i)] else [])\<rparr>"

text \<open>
  \<open>cap\<close> is the number of entries of the array; storing past it is out of bounds. After an error the entries
  are only freed.
\<close>

fun collect :: "km_env \<Rightarrow> nat \<Rightarrow> km_obs list \<Rightarrow> allocation list \<Rightarrow> (int \<times> allocation list) outcome" where
  "collect e cap [] as = Blocked"
| "collect e cap (NextErr err # os) as = (if err = ENOENT then Done (0, as) else Done (- err, as))"
| "collect e cap (Entry key (Inl err) now m # os) as =
     (if err = ENOENT then collect e cap os as else Done (- err, as))"
| "collect e cap (Entry key (Inr i) now m # os) as =
     (if too_young e now i \<or> ai_stack i < 0 then collect e cap os as
      else case bump (show_allocs e) key i as of
        Some as' \<Rightarrow> if show_allocs e \<and> \<not> m then Done (- ENOMEM, as) else collect e cap os as'
      | None \<Rightarrow> if show_allocs e \<and> \<not> m then Done (- ENOMEM, as)
               else if length as \<ge> cap then Fault
               else collect e cap os (as @ [new_allocation (show_allocs e) key i]))"

definition alloc_size_compare :: "allocation \<Rightarrow> allocation \<Rightarrow> int" where
  "alloc_size_compare x y = (if al_size x > al_size y then - 1 else if al_size x < al_size y then 1 else 0)"

text \<open>The smaller of the two numbers; \<open>top_stacks\<close> is compared as a \<open>size_t\<close>.\<close>

definition to_show :: "km_env \<Rightarrow> nat \<Rightarrow> nat" where
  "to_show e nr = (if nr < unat (of_int (top_stacks e) :: u64) then nr else unat (of_int (top_stacks e) :: u64))"

section \<open>Printing\<close>

definition frame_line :: "ksyms \<Rightarrow> nat \<Rightarrow> u64 \<Rightarrow> string" where
  "frame_line ks i addr =
     CHR 0x09 # show_nat i @ '' [<'' @ hex16 addr @ ''>] '' @
     (case ksyms_find ks addr of
        Some s \<Rightarrow> sym_name ks s @ ''+0x'' @ show_hex (unat (addr - k_addr s))
      | None \<Rightarrow> ''<unknown>'') @ [NL]"

text \<open>
  \<open>print_stack_frames_by_ksyms\<close> from frame \<open>i\<close> on: what is written to a buffer with \<open>left\<close> bytes. \<open>snprintf\<close>
  writes at most \<open>left - 1\<close> characters and returns the length of the whole text.
\<close>

fun stack_frames_text :: "ksyms \<Rightarrow> nat \<Rightarrow> nat \<Rightarrow> u64 list \<Rightarrow> string" where
  "stack_frames_text ks i left [] = []"
| "stack_frames_text ks i left (addr # fs) =
     (if i \<ge> perf_max_stack_depth \<or> addr = 0 then []
      else let t = frame_line ks i addr
           in take (left - 1) t @ (if left \<le> length t then [] else stack_frames_text ks (i + 1) (left - length t) fs))"

definition stack_header :: "allocation \<Rightarrow> string" where
  "stack_header a =
     show_nat (unat (al_size a)) @ '' bytes in '' @ show_nat (unat (al_count a)) @ '' allocations from stack'' @ [NL]"

datatype km_out = Info string | Text string

definition node_line :: "u64 \<times> u64 \<Rightarrow> km_out" where
  "node_line n = Info (CHR 0x09 # ''addr = '' @ (if fst n = 0 then ''0'' else ''0x'' @ show_hex (unat (fst n)))
     @ '' size = '' @ show_nat (unat (snd n)) @ [NL])"

text \<open>\<open>print_stack_frames\<close>; \<open>traces\<close> looks up the frames of a stack. The return value comes with what is printed.\<close>

fun print_stacks :: "km_env \<Rightarrow> ksyms \<Rightarrow> (u64 \<Rightarrow> int + u64 list) \<Rightarrow> allocation list \<Rightarrow> int \<times> km_out list" where
  "print_stacks e ks traces [] = (0, [])"
| "print_stacks e ks traces (a # as) =
     (let infos = (if show_allocs e then map node_line (al_nodes a) else [])
      in case traces (al_stack a) of
           Inl err \<Rightarrow> if err = ENOENT then (case print_stacks e ks traces as of (r, os) \<Rightarrow> (r, infos @ os))
                     else (- err, infos)
         | Inr fs \<Rightarrow>
             let hdr = stack_header a;
                 bsz = perf_max_stack_depth * 256
             in (case print_stacks e ks traces as of (r, os) \<Rightarrow>
                   (r, infos @ Text (hdr @ stack_frames_text ks 0 (bsz - length hdr) fs) # os)))"

definition print_stack_frames ::
    "km_env \<Rightarrow> ksyms \<Rightarrow> bool \<Rightarrow> (u64 \<Rightarrow> int + u64 list) \<Rightarrow> allocation list \<Rightarrow> int \<times> km_out list" where
  "print_stack_frames e ks mem_ok traces as = (if \<not> mem_ok then (- ENOMEM, []) else print_stacks e ks traces as)"

text \<open>
  \<open>print_outstanding_allocs\<close>: the return value, the number in the headline and what is printed for the stacks.
\<close>

record km_report =
  rp_ret :: int
  rp_shown :: "allocation list option"
  rp_out :: "km_out list"

type_synonym km_qsort = "(allocation \<Rightarrow> allocation \<Rightarrow> int) \<Rightarrow> allocation list \<Rightarrow> allocation list"

definition report_of ::
    "km_qsort \<Rightarrow> km_env \<Rightarrow> ksyms \<Rightarrow> bool \<Rightarrow> (u64 \<Rightarrow> int + u64 list) \<Rightarrow> allocation list \<Rightarrow> km_report" where
  "report_of q e ks mem_ok traces as =
     (let shown = take (to_show e (length as)) (q alloc_size_compare as)
      in \<lparr>rp_ret = 0, rp_shown = Some shown, rp_out = snd (print_stack_frames e ks mem_ok traces shown)\<rparr>)"

definition print_outstanding_allocs ::
    "km_qsort \<Rightarrow> km_env \<Rightarrow> ksyms \<Rightarrow> bool \<Rightarrow> (u64 \<Rightarrow> int + u64 list) \<Rightarrow> km_obs list \<Rightarrow> km_report outcome" where
  "print_outstanding_allocs q e ks mem_ok traces os =
     bind_outcome (collect e ALLOCS_MAX_ENTRIES os []) (\<lambda>(ret, as).
       if ret \<noteq> 0 then Done \<lparr>rp_ret = ret, rp_shown = None, rp_out = []\<rparr>
       else Done (report_of q e ks mem_ok traces as))"

text \<open>The entries of the combined map: 40 bits of size, 24 bits of count.\<close>

datatype km_cobs = CNextErr int | CEntry u64 "int + u64"

definition total_size :: "u64 \<Rightarrow> u64" where "total_size bits = bits AND mask 40"
definition number_of_allocs :: "u64 \<Rightarrow> u64" where "number_of_allocs bits = drop_bit 40 bits"

fun collect_combined :: "nat \<Rightarrow> km_cobs list \<Rightarrow> allocation list \<Rightarrow> (int \<times> allocation list) outcome" where
  "collect_combined cap [] as = Blocked"
| "collect_combined cap (CNextErr err # os) as = (if err = ENOENT then Done (0, as) else Done (- err, as))"
| "collect_combined cap (CEntry key (Inl err) # os) as =
     (if err = ENOENT then collect_combined cap os as else Done (- err, as))"
| "collect_combined cap (CEntry key (Inr bits) # os) as =
     (if length as \<ge> cap then Fault
      else collect_combined cap os (as @ [\<lparr>al_stack = key, al_size = total_size bits,
             al_count = number_of_allocs bits, al_nodes = []\<rparr>]))"

definition print_outstanding_combined_allocs ::
    "km_qsort \<Rightarrow> km_env \<Rightarrow> ksyms \<Rightarrow> bool \<Rightarrow> (u64 \<Rightarrow> int + u64 list) \<Rightarrow> km_cobs list \<Rightarrow> km_report outcome" where
  "print_outstanding_combined_allocs q e ks mem_ok traces os =
     bind_outcome (collect_combined COMBINED_ALLOCS_MAX_ENTRIES os []) (\<lambda>(ret, as).
       if ret \<noteq> 0 then Done \<lparr>rp_ret = ret, rp_shown = None, rp_out = []\<rparr>
       else Done (report_of q e ks mem_ok traces as))"

section \<open>The traced child\<close>

text \<open>
  An \<open>eventfd\<close> holds back the child until the programs are attached. \<open>rd\<close> and \<open>wr\<close> are what \<open>read\<close> and \<open>write\<close>
  give: an errno, or the number of bytes and, for \<open>read\<close>, the value.
\<close>

definition event_init :: "int + int \<Rightarrow> int \<Rightarrow> int \<times> int" where
  "event_init eventfd fd = (case eventfd of Inl err \<Rightarrow> (- err, fd) | Inr tmp_fd \<Rightarrow> (0, tmp_fd))"

definition event_wait :: "int + (int \<times> u64) \<Rightarrow> u64 \<Rightarrow> int" where
  "event_wait rd expected_event =
     (case rd of
        Inl err \<Rightarrow> - err
      | Inr (bytes, event) \<Rightarrow> if bytes \<noteq> 8 then 1 else if event \<noteq> expected_event then 1 else 0)"

definition event_notify :: "int + int \<Rightarrow> int" where
  "event_notify wr = (case wr of Inl err \<Rightarrow> - err | Inr bytes \<Rightarrow> if bytes \<noteq> 8 then 1 else 0)"

text \<open>
  The branch of \<open>fork_sync_exec\<close> that the child takes. \<open>None\<close> for \<open>rd\<close> is a \<open>read\<close> that does not return. When
  \<open>execl\<close> fails the child returns -1 into its copy of \<open>main\<close>.
\<close>

datatype km_child = Waiting | Child_exit int | Child_exec string | Child_returns int

definition fork_child :: "(int + (int \<times> u64)) option \<Rightarrow> bool \<Rightarrow> string \<Rightarrow> km_child" where
  "fork_child rd exec_ok cmd =
     (case rd of
        None \<Rightarrow> Waiting
      | Some r \<Rightarrow> if event_wait r 1 \<noteq> 0 then Child_exit 1 else if exec_ok then Child_exec cmd else Child_returns (- 1))"

section \<open>The program\<close>

record km_rodata =
  ro_min_size :: u64
  ro_max_size :: u64
  ro_page_size :: u64
  ro_sample_rate :: u64
  ro_trace_all :: bool
  ro_wa_missing_free :: bool

text \<open>What the calls of \<open>main\<close> give. \<open>polls\<close> has a value of \<open>exiting\<close> and a walk for each turn of the loop.\<close>

record km_sys =
  ks_cvt :: "int \<Rightarrow> int"
  ks_keys :: "km_key list"
  ks_argp_ok :: bool
  ks_sigaction :: "int option"
  ks_page_size :: u64
  ks_eventfd :: "int + int"
  ks_fork :: "int + int"
  ks_stack_mem :: bool
  ks_allocs_mem :: bool
  ks_open :: bool
  ks_load :: int
  ks_filter :: bool
  ks_attach :: int
  ks_notify :: "int + int"
  ks_kallsyms :: "string option"
  ks_mem :: "nat \<Rightarrow> bool"
  ks_sort :: "(ksym \<Rightarrow> ksym \<Rightarrow> int) \<Rightarrow> ksym list \<Rightarrow> ksym list"
  ks_qsort :: km_qsort
  ks_buf :: bool
  ks_traces :: "u64 \<Rightarrow> int + u64 list"
  ks_polls :: "(bool \<times> km_obs list \<times> km_cobs list) list"
  ks_child_exited :: bool
  ks_kill :: "int option"
  ks_waitpid :: "int option"

datatype km_event = Spawned int | Configured km_rodata | Filtered int | Attached | Notified | Report km_report
  | Signalled int | Reaped int | Destroyed

type_synonym km_result = "(int \<times> km_event list) outcome"

definition km_rodata_of :: "km_sys \<Rightarrow> km_env \<Rightarrow> km_rodata" where
  "km_rodata_of sys e =
     \<lparr>ro_min_size = min_size e, ro_max_size = max_size e, ro_page_size = ks_page_size sys,
      ro_sample_rate = sample_rate e, ro_trace_all = trace_all e, ro_wa_missing_free = wa_missing_free e\<rparr>"

text \<open>The label \<open>cleanup\<close>: everything is destroyed and the status returned.\<close>

definition cleanup_km :: "int \<Rightarrow> km_event list \<Rightarrow> km_result" where
  "cleanup_km ret tr = Done (ret, tr @ [Destroyed])"

definition one_report :: "km_sys \<Rightarrow> km_env \<Rightarrow> ksyms \<Rightarrow> km_obs list \<Rightarrow> km_cobs list \<Rightarrow> km_report outcome" where
  "one_report sys e ks os cs =
     (if combined_only e then print_outstanding_combined_allocs (ks_qsort sys) e ks (ks_buf sys) (ks_traces sys) cs
      else print_outstanding_allocs (ks_qsort sys) e ks (ks_buf sys) (ks_traces sys) os)"

text \<open>\<open>while (!exiting && env.nr_intervals)\<close>.\<close>

fun report_loop ::
    "km_sys \<Rightarrow> km_env \<Rightarrow> ksyms \<Rightarrow> int \<Rightarrow> (bool \<times> km_obs list \<times> km_cobs list) list \<Rightarrow> km_event list \<Rightarrow> km_event list outcome" where
  "report_loop sys e ks n [] tr = (if n = 0 then Done tr else Blocked)"
| "report_loop sys e ks n ((exiting, os, cs) # ps) tr =
     (if exiting \<or> n = 0 then Done tr
      else bind_outcome (one_report sys e ks os cs) (\<lambda>r.
             report_loop sys e ks (to_int32 (n - 1)) ps (tr @ [Report r])))"

definition reap_child :: "km_sys \<Rightarrow> km_env \<Rightarrow> km_event list \<Rightarrow> km_result" where
  "reap_child sys e tr =
     (if km_pid e > 0 \<and> command e \<noteq> [] then
        (let sent = (if ks_child_exited sys then tr else tr @ [Signalled (km_pid e)])
         in case (if ks_child_exited sys then None else ks_kill sys) of
              Some err \<Rightarrow> cleanup_km (- err) tr
            | None \<Rightarrow> (case ks_waitpid sys of
                         Some err \<Rightarrow> cleanup_km (- err) sent
                       | None \<Rightarrow> cleanup_km 0 (sent @ [Reaped (km_pid e)])))
      else cleanup_km 0 tr)"

text \<open>From the loaded programs on.\<close>

definition km_observe :: "km_sys \<Rightarrow> km_env \<Rightarrow> km_event list \<Rightarrow> km_result" where
  "km_observe sys e tr =
     bind_outcome (ksyms_load (ks_sort sys) (ks_mem sys) (ks_kallsyms sys)) (\<lambda>r.
       case r of
         None \<Rightarrow> cleanup_km (- ENOMEM) tr
       | Some ks \<Rightarrow> bind_outcome (report_loop sys e ks (nr_intervals e) (ks_polls sys) tr) (reap_child sys e))"

definition km_trace :: "km_sys \<Rightarrow> km_env \<Rightarrow> km_event list \<Rightarrow> km_result" where
  "km_trace sys e tr =
     (let tr1 = (if ks_filter sys then tr @ [Filtered (km_pid e)] else tr)
      in if ks_attach sys \<noteq> 0 then cleanup_km (ks_attach sys) tr1
         else let tr2 = tr1 @ [Attached]; ret = (if command e \<noteq> [] then event_notify (ks_notify sys) else 0)
              in if ret \<noteq> 0 then cleanup_km ret tr2
                 else km_observe sys e (if command e \<noteq> [] then tr2 @ [Notified] else tr2))"

definition km_load_bpf :: "km_sys \<Rightarrow> km_env \<Rightarrow> km_event list \<Rightarrow> km_result" where
  "km_load_bpf sys e tr =
     (if \<not> ks_stack_mem sys then cleanup_km (- ENOMEM) tr
      else if \<not> ks_allocs_mem sys then cleanup_km (- ENOMEM) tr
      else if \<not> ks_open sys then cleanup_km 1 tr
      else let tr1 = tr @ [Configured (km_rodata_of sys e)]
           in if ks_load sys \<noteq> 0 then cleanup_km (ks_load sys) tr1 else km_trace sys e tr1)"

definition km_spawn :: "km_sys \<Rightarrow> km_env \<Rightarrow> km_result" where
  "km_spawn sys e =
     (if command e \<noteq> [] then
        if km_pid e > 0 then cleanup_km 1 []
        else if fst (event_init (ks_eventfd sys) (- 1)) \<noteq> 0 then cleanup_km 0 []
        else (case ks_fork sys of
                Inl err \<Rightarrow> cleanup_km (- err) []
              | Inr child_pid \<Rightarrow> km_load_bpf sys (e\<lparr>km_pid := child_pid\<rparr>) [Spawned child_pid])
      else km_load_bpf sys e [])"

definition km_main :: "km_sys \<Rightarrow> km_result" where
  "km_main sys =
     (case km_argp_parse (ks_cvt sys) (ks_keys sys) km_defaults 0 of
        Inl c \<Rightarrow> Done (c, [])
      | Inr e \<Rightarrow>
          if \<not> ks_argp_ok sys then cleanup_km 0 []
          else (case ks_sigaction sys of
                  Some err \<Rightarrow> cleanup_km (- err) []
                | None \<Rightarrow> if min_size e > max_size e then Done (1, []) else km_spawn sys e))"

section \<open>Totals per stack\<close>

type_synonym alloc_entry = "u64 \<times> alloc_info"

definition stack_of :: "alloc_entry \<Rightarrow> u64" where "stack_of x = of_int (ai_stack (snd x))"

definition of_stack :: "u64 \<Rightarrow> alloc_entry list \<Rightarrow> alloc_entry list" where
  "of_stack s es = filter (\<lambda>x. stack_of x = s) es"

definition stack_size :: "u64 \<Rightarrow> alloc_entry list \<Rightarrow> u64" where
  "stack_size s es = (\<Sum>x \<leftarrow> of_stack s es. ai_size (snd x))"

text \<open>The entries that are counted: old enough and with a valid stack.\<close>

definition eligible :: "km_env \<Rightarrow> u64 \<Rightarrow> alloc_entry list \<Rightarrow> alloc_entry list" where
  "eligible e now m = filter (\<lambda>(k, i). \<not> too_young e now i \<and> 0 \<le> ai_stack i) m"

text \<open>A walk over a map that does not change meanwhile.\<close>

definition stable_walk :: "u64 \<Rightarrow> alloc_entry list \<Rightarrow> km_obs list" where
  "stable_walk now m = map (\<lambda>(k, i). Entry k (Inr i) now True) m @ [NextErr ENOENT]"

definition add_entry :: "bool \<Rightarrow> alloc_entry \<Rightarrow> allocation list \<Rightarrow> allocation list" where
  "add_entry show x as =
     (case bump show (fst x) (snd x) as of Some as' \<Rightarrow> as' | None \<Rightarrow> as @ [new_allocation show (fst x) (snd x)])"

lemma bump_length: "bump show k i as = Some as' \<Longrightarrow> length as' = length as"
  by (induction as arbitrary: as') (auto split: if_split_asm)

lemma add_entry_length: "length (add_entry show x as) \<le> length as + 1"
  using bump_length by (auto simp: add_entry_def split: option.split)

lemma collect_stable:
  assumes "length as + length m \<le> cap"
  shows "collect e cap (stable_walk now m) as = Done (0, fold (add_entry (show_allocs e)) (eligible e now m) as)"
  using assms
proof (induction m arbitrary: as)
  case Nil
  then show ?case by (simp add: stable_walk_def eligible_def)
next
  case (Cons x m)
  obtain k i where x: "x = (k, i)" by (cases x)
  have tail: "stable_walk now (x # m) = Entry k (Inr i) now True # stable_walk now m" by (simp add: stable_walk_def x)
  show ?case
  proof (cases "too_young e now i \<or> ai_stack i < 0")
    case True
    then have "eligible e now (x # m) = eligible e now m" by (auto simp: eligible_def x)
    then show ?thesis using True Cons by (simp add: tail)
  next
    case False
    let ?as = "add_entry (show_allocs e) x as"
    have "eligible e now (x # m) = x # eligible e now m" using False by (simp add: eligible_def x)
    moreover have "collect e cap (stable_walk now (x # m)) as = collect e cap (stable_walk now m) ?as"
      using False Cons.prems unfolding tail by (simp add: add_entry_def x split: option.split)
    moreover have "length ?as + length m \<le> cap" using Cons.prems add_entry_length [of "show_allocs e" x as] by simp
    ultimately show ?thesis using Cons.IH by simp
  qed
qed

lemma bump_cases:
  assumes "distinct (map al_stack as)"
  shows "bump show k i as =
     (if of_int (ai_stack i) \<in> al_stack ` set as
      then Some (map (\<lambda>a. if al_stack a = of_int (ai_stack i)
                 then a\<lparr>al_size := al_size a + ai_size i, al_count := al_count a + 1,
                        al_nodes := (if show then [(k, ai_size i)] else []) @ al_nodes a\<rparr> else a) as)
      else None)"
  using assms
proof (induction as)
  case (Cons a as)
  show ?case
  proof (cases "al_stack a = of_int (ai_stack i)")
    case True
    then have "\<forall>b \<in> set as. al_stack b \<noteq> of_int (ai_stack i)" using Cons.prems by (auto simp: image_iff)
    then have "map (\<lambda>a. if al_stack a = of_int (ai_stack i)
                 then a\<lparr>al_size := al_size a + ai_size i, al_count := al_count a + 1,
                        al_nodes := (if show then [(k, ai_size i)] else []) @ al_nodes a\<rparr> else a) as = as"
      by (intro map_idI) auto
    then show ?thesis using True by simp
  next
    case False
    then show ?thesis using Cons by auto
  qed
qed simp

text \<open>The array refines the totals per stack.\<close>

definition total_of :: "bool \<Rightarrow> alloc_entry list \<Rightarrow> allocation \<Rightarrow> bool" where
  "total_of show es a \<longleftrightarrow> al_size a = stack_size (al_stack a) es
     \<and> al_count a = of_nat (length (of_stack (al_stack a) es))
     \<and> al_nodes a = (if show then rev (map (\<lambda>x. (fst x, ai_size (snd x))) (of_stack (al_stack a) es)) else [])"

definition totals :: "bool \<Rightarrow> alloc_entry list \<Rightarrow> allocation list \<Rightarrow> bool" where
  "totals show es as \<longleftrightarrow> distinct (map al_stack as) \<and> al_stack ` set as = stack_of ` set es
     \<and> (\<forall>a \<in> set as. total_of show es a)"

lemma of_stack_snoc: "of_stack s (es @ [x]) = of_stack s es @ (if stack_of x = s then [x] else [])"
  by (simp add: of_stack_def)

lemma total_of_other: "stack_of x \<noteq> al_stack a \<Longrightarrow> total_of show (es @ [x]) a = total_of show es a"
  by (simp add: total_of_def stack_size_def of_stack_snoc)

lemma total_of_bump:
  assumes "total_of show es a" "stack_of (k, i) = al_stack a"
  shows "total_of show (es @ [(k, i)]) (a\<lparr>al_size := al_size a + ai_size i, al_count := al_count a + 1,
           al_nodes := (if show then [(k, ai_size i)] else []) @ al_nodes a\<rparr>)"
  using assms by (simp add: total_of_def stack_size_def of_stack_snoc)

lemma totals_add:
  assumes "totals show es as"
  shows "totals show (es @ [x]) (add_entry show x as)"
proof -
  obtain k i where x: "x = (k, i)" by (cases x)
  have d: "distinct (map al_stack as)" and st: "al_stack ` set as = stack_of ` set es"
    and t: "\<forall>a \<in> set as. total_of show es a" using assms by (auto simp: totals_def)
  show ?thesis
  proof (cases "stack_of x \<in> al_stack ` set as")
    case True
    let ?f = "\<lambda>a. if al_stack a = stack_of x
                 then a\<lparr>al_size := al_size a + ai_size i, al_count := al_count a + 1,
                        al_nodes := (if show then [(k, ai_size i)] else []) @ al_nodes a\<rparr> else a"
    have eq: "add_entry show x as = map ?f as" using True bump_cases [OF d, of "show" k i] by (simp add: add_entry_def x stack_of_def)
    have keep: "al_stack (?f a) = al_stack a" for a by simp
    then have sm: "map al_stack (map ?f as) = map al_stack as" by simp
    moreover have "al_stack ` set (map ?f as) = al_stack ` set as" using arg_cong [OF sm, of set] by (simp only: set_map)
    moreover have "stack_of ` set (es @ [x]) = stack_of ` set es" using True st by auto
    moreover have "total_of show (es @ [x]) (?f a)" if "a \<in> set as" for a
      using t that total_of_other [of x a] total_of_bump [of "show" es a k i] x by auto
    ultimately show ?thesis using d st unfolding totals_def eq by (simp only: set_map ball_simps) simp
  next
    case False
    then have eq: "add_entry show x as = as @ [new_allocation show k i]"
      using bump_cases [OF d, of "show" k i] by (simp add: add_entry_def x stack_of_def)
    have none: "of_stack (stack_of x) es = []" using False st unfolding of_stack_def filter_empty_conv by (metis imageI)
    have s: "al_stack (new_allocation show k i) = stack_of x" by (simp add: new_allocation_def stack_of_def x)
    have "total_of show (es @ [x]) (new_allocation show k i)"
      using none s by (simp add: total_of_def stack_size_def of_stack_snoc) (simp add: new_allocation_def x)
    moreover have "total_of show (es @ [x]) a" if "a \<in> set as" for a
      using False that t total_of_other [of x a] by auto
    ultimately show ?thesis using d st s False unfolding totals_def eq by auto
  qed
qed

lemma totals_fold: "totals show es (fold (add_entry show) es [])"
proof (induction es rule: rev_induct)
  case Nil
  then show ?case by (simp add: totals_def)
next
  case (snoc x es)
  then show ?case using totals_add by simp
qed

section \<open>The report\<close>

lemma size_compare_le: "alloc_size_compare a b \<le> 0 \<longleftrightarrow> al_size b \<le> al_size a"
  by (auto simp: alloc_size_compare_def)

lemma size_compare_total: "total_cmp alloc_size_compare"
  unfolding total_cmp_def size_compare_le
proof (intro conjI allI impI)
  show "al_size y \<le> al_size x \<or> al_size x \<le> al_size y" for x y by (rule linear)
  show "al_size z \<le> al_size x" if "al_size y \<le> al_size x" "al_size z \<le> al_size y" for x y z
    using that by (rule order.trans [rotated])
qed

lemma qsort_sizes:
  assumes "qsort_ok q alloc_size_compare"
  shows "sorted_wrt (\<lambda>a b. al_size b \<le> al_size a) (q alloc_size_compare as)" "mset (q alloc_size_compare as) = mset as"
  using assms by (simp_all add: qsort_ok_def size_compare_le)

lemma totals_perm:
  assumes "totals show es as" "mset bs = mset as"
  shows "totals show es bs"
proof -
  have "set bs = set as" using mset_eq_setD [OF assms(2)] .
  moreover have "distinct (map al_stack bs)"
    using assms mset_eq_imp_distinct_iff [of "map al_stack bs" "map al_stack as"] by (simp add: totals_def)
  ultimately show ?thesis using assms(1) by (simp add: totals_def)
qed

lemma to_show_min:
  assumes "0 \<le> top_stacks e" "top_stacks e < 2 ^ 31"
  shows "to_show e n = min n (nat (top_stacks e))"
proof -
  have "unat (of_int (top_stacks e) :: u64) = nat (top_stacks e)"
    using assms by (simp add: unat_eq_nat_uint uint_word_of_int)
  then show ?thesis by (simp add: to_show_def min_def)
qed

text \<open>C28: A report of \<open>kmemleak\<close> over a map that does not change meanwhile shows as many stacks as there are, but
  at most \<open>top_stacks\<close>. Each stack shown is that of allocations that are old enough and have a valid stack, it
  is shown once, and its size and count are the totals of exactly these allocations (modulo \<open>2^64\<close>). The stacks
  are in descending order of size, and no stack left out has more than one that is shown. This holds for
  whatever order the map yields its keys in, and whatever order \<open>qsort\<close> gives to equal sizes.\<close>

theorem outstanding_report_correct:
  assumes "qsort_ok q alloc_size_compare" "length m \<le> 1000000" "0 \<le> top_stacks e" "top_stacks e < 2 ^ 31"
  shows "\<exists>r shown. print_outstanding_allocs q e ks mem_ok traces (stable_walk now m) = Done r
     \<and> rp_ret r = 0 \<and> rp_shown r = Some shown
     \<and> length shown = min (card (stack_of ` set (eligible e now m))) (nat (top_stacks e))
     \<and> distinct (map al_stack shown) \<and> sorted_wrt (\<lambda>a b. al_size b \<le> al_size a) shown
     \<and> (\<forall>a \<in> set shown. al_stack a \<in> stack_of ` set (eligible e now m) \<and> total_of (show_allocs e) (eligible e now m) a)
     \<and> (\<forall>s \<in> stack_of ` set (eligible e now m). s \<notin> al_stack ` set shown
          \<longrightarrow> (\<forall>a \<in> set shown. stack_size s (eligible e now m) \<le> al_size a))"
proof -
  let ?es = "eligible e now m"
  let ?as = "fold (add_entry (show_allocs e)) ?es []"
  let ?bs = "q alloc_size_compare ?as"
  let ?n = "to_show e (length ?as)"
  let ?r = "report_of q e ks mem_ok traces ?as"
  have tot: "totals (show_allocs e) ?es ?bs" using totals_perm [OF totals_fold qsort_sizes(2) [OF assms(1)]] .
  then have d: "distinct (map al_stack ?bs)" and st: "al_stack ` set ?bs = stack_of ` set ?es"
    and t: "\<forall>a \<in> set ?bs. total_of (show_allocs e) ?es a" by (auto simp: totals_def)
  have srt: "sorted_wrt (\<lambda>a b. al_size b \<le> al_size a) (take ?n ?bs @ drop ?n ?bs)"
    using qsort_sizes(1) [OF assms(1), of ?as] by simp
  have "length ?bs = length ?as" using qsort_sizes(2) [OF assms(1), of ?as] by (metis size_mset)
  moreover have "length ?bs = card (stack_of ` set ?es)" using distinct_card [OF d] st by simp
  ultimately have len: "length (take ?n ?bs) = min (card (stack_of ` set ?es)) (nat (top_stacks e))"
    using to_show_min [OF assms(3,4), of "length ?as"] by simp
  have left: "stack_size s ?es \<le> al_size a"
    if "s \<in> stack_of ` set ?es" "s \<notin> al_stack ` set (take ?n ?bs)" "a \<in> set (take ?n ?bs)" for s a
  proof -
    have "s \<in> al_stack ` set ?bs" using that(1) st by simp
    then obtain b where b: "b \<in> set ?bs" "al_stack b = s" by blast
    then have "b \<in> set (drop ?n ?bs)" using that(2) set_append [of "take ?n ?bs" "drop ?n ?bs"] by auto
    then have "al_size b \<le> al_size a" using srt that(3) unfolding sorted_wrt_append by blast
    then show ?thesis using t b by (auto simp: total_of_def)
  qed
  have each: "al_stack a \<in> stack_of ` set ?es \<and> total_of (show_allocs e) ?es a" if "a \<in> set (take ?n ?bs)" for a
    using t st in_set_takeD [OF that] by blast
  have dis: "distinct (map al_stack (take ?n ?bs))" using d by (simp add: take_map [symmetric])
  have ord: "sorted_wrt (\<lambda>a b. al_size b \<le> al_size a) (take ?n ?bs)" using srt by (simp only: sorted_wrt_append)
  have run: "print_outstanding_allocs q e ks mem_ok traces (stable_walk now m) = Done ?r"
    using collect_stable [of "[]" m ALLOCS_MAX_ENTRIES e now] assms(2) by (simp add: print_outstanding_allocs_def)
  have res: "rp_ret ?r = 0" "rp_shown ?r = Some (take ?n ?bs)" by (simp_all add: report_of_def Let_def)
  have "rp_ret ?r = 0 \<and> rp_shown ?r = Some (take ?n ?bs) \<and> length (take ?n ?bs) = min (card (stack_of ` set ?es)) (nat (top_stacks e))
     \<and> distinct (map al_stack (take ?n ?bs)) \<and> sorted_wrt (\<lambda>a b. al_size b \<le> al_size a) (take ?n ?bs)"
    by (intro conjI res len dis ord)
  moreover have "\<forall>a \<in> set (take ?n ?bs). al_stack a \<in> stack_of ` set ?es \<and> total_of (show_allocs e) ?es a"
    by (intro ballI each)
  moreover have "\<forall>s \<in> stack_of ` set ?es. s \<notin> al_stack ` set (take ?n ?bs) \<longrightarrow> (\<forall>a \<in> set (take ?n ?bs). stack_size s ?es \<le> al_size a)"
    by (intro ballI impI left)
  ultimately show ?thesis
    by (intro exI [of _ ?r] exI [of _ "take ?n ?bs"]) (elim conjE, intro conjI run, assumption+)
qed

definition ex_alloc_map :: "alloc_entry list" where
  "ex_alloc_map = [(4096, \<lparr>ai_size = 10, ai_time = 100, ai_stack = 7\<rparr>), (8192, \<lparr>ai_size = 64, ai_time = 200, ai_stack = 3\<rparr>),
     (12288, \<lparr>ai_size = 32, ai_time = 300, ai_stack = 7\<rparr>), (16384, \<lparr>ai_size = 99, ai_time = 5000, ai_stack = 7\<rparr>)]"

theorem outstanding_report_correct_witness:
  "\<exists>r shown. print_outstanding_allocs isort (km_defaults\<lparr>top_stacks := 1\<rparr>) ksyms_zero True (\<lambda>s. Inr []) (stable_walk 2000 ex_alloc_map) = Done r
     \<and> rp_shown r = Some shown \<and> length shown = 1 \<and> (\<forall>a \<in> set shown. stack_size 3 (take 3 ex_alloc_map) \<le> al_size a)"
proof -
  let ?e = "km_defaults\<lparr>top_stacks := 1\<rparr>"
  have el: "eligible ?e 2000 ex_alloc_map = take 3 ex_alloc_map"
    by (simp add: eligible_def ex_alloc_map_def too_young_def km_defaults_def)
  have stacks: "stack_of ` set (take 3 ex_alloc_map) = {7, 3}" by (auto simp: ex_alloc_map_def stack_of_def)
  have pre: "length ex_alloc_map \<le> 1000000" "0 \<le> top_stacks ?e" "top_stacks ?e < 2 ^ 31" by (simp_all add: ex_alloc_map_def)
  obtain r shown where r: "print_outstanding_allocs isort ?e ksyms_zero True (\<lambda>s. Inr []) (stable_walk 2000 ex_alloc_map) = Done r"
    "rp_shown r = Some shown" and len: "length shown = min (card (stack_of ` set (eligible ?e 2000 ex_alloc_map))) (nat (top_stacks ?e))"
    and ord: "sorted_wrt (\<lambda>a b. al_size b \<le> al_size a) shown"
    and each: "\<forall>a \<in> set shown. al_stack a \<in> stack_of ` set (eligible ?e 2000 ex_alloc_map) \<and> total_of (show_allocs ?e) (eligible ?e 2000 ex_alloc_map) a"
    and left: "\<forall>s \<in> stack_of ` set (eligible ?e 2000 ex_alloc_map). s \<notin> al_stack ` set shown
          \<longrightarrow> (\<forall>a \<in> set shown. stack_size s (eligible ?e 2000 ex_alloc_map) \<le> al_size a)"
    using outstanding_report_correct [OF isort_ok [OF size_compare_total] pre, of ksyms_zero True "\<lambda>s. Inr []" 2000] by blast
  have one: "length shown = 1" using len unfolding el stacks by simp
  then obtain a where a: "shown = [a]" by (cases shown) auto
  have "stack_size 3 (take 3 ex_alloc_map) \<le> al_size a"
    using left each unfolding el stacks a by (auto simp: total_of_def)
  then show ?thesis using r one a by auto
qed

text \<open>\<open>print_stack_frames_by_ksyms\<close> writes into a buffer with \<open>left\<close> bytes exactly the lines of the frames up to
  the first empty slot, at most 127 of them, cut to \<open>left - 1\<close> characters: the address, and the symbol and
  offset if there is one.\<close>

theorem stack_frames_exact:
  assumes "0 < left"
  shows "stack_frames_text ks i left fs
     = take (left - 1) (concat (map (\<lambda>(j, a). frame_line ks j a)
         (enumerate i (takeWhile (\<lambda>a. a \<noteq> 0) (take (127 - i) fs)))))"
  using assms
proof (induction ks i left fs rule: stack_frames_text.induct)
  case (1 ks i left)
  then show ?case by simp
next
  case (2 ks i left addr fs)
  show ?case
  proof (cases "i \<ge> 127 \<or> addr = 0")
    case True
    then show ?thesis by (cases "127 - i") auto
  next
    case False
    then obtain n where n: "127 - i = Suc n" "127 - (i + 1) = n" by (cases "127 - i") auto
    then show ?thesis using 2 False by (cases "left \<le> length (frame_line ks i addr)") (auto simp: Let_def)
  qed
qed

theorem stack_frames_exact_witness:
  "stack_frames_text ksyms_zero 0 20 [255, 0, 255] = take 19 (frame_line ksyms_zero 0 255)"
proof -
  have "stack_frames_text ksyms_zero 0 20 [255, 0, 255]
     = take (20 - 1) (concat (map (\<lambda>(j, a). frame_line ksyms_zero j a) (enumerate 0 (takeWhile (\<lambda>a. a \<noteq> 0) (take (127 - 0) [255, 0, 255])))))"
    by (rule stack_frames_exact) simp
  also have "\<dots> = take 19 (frame_line ksyms_zero 0 255)" by simp
  finally show ?thesis .
qed

section \<open>The run\<close>

lemma report_loop_trace:
  assumes "report_loop sys e ks n ps tr = Done tr'"
  shows "\<exists>rs. tr' = tr @ map Report rs"
  using assms
proof (induction sys e ks n ps tr rule: report_loop.induct)
  case (1 sys e ks n tr)
  then have "tr' = tr @ map Report []" by (simp split: if_split_asm)
  then show ?case by blast
next
  case (2 sys e ks n exiting os cs ps tr)
  show ?case
  proof (cases "exiting \<or> n = 0")
    case True
    then have "tr' = tr @ map Report []" using 2 by simp
    then show ?thesis by blast
  next
    case False
    then obtain r where r: "one_report sys e ks os cs = Done r" using 2 by (cases "one_report sys e ks os cs") auto
    then obtain rs where "tr' = (tr @ [Report r]) @ map Report rs" using 2 False by auto
    then have "tr' = tr @ map Report (r # rs)" by simp
    then show ?thesis by blast
  qed
qed

definition child_end :: "km_env \<Rightarrow> km_event list \<Rightarrow> bool" where
  "child_end e rp \<longleftrightarrow> (if km_pid e > 0 \<and> command e \<noteq> []
     then \<exists>sig. set sig \<subseteq> {Signalled (km_pid e)} \<and> rp = sig @ [Reaped (km_pid e)] else rp = [])"

lemma reap_child_ok:
  assumes "reap_child sys e tr = Done (0, tr')" "ks_kill sys \<noteq> Some 0" "ks_waitpid sys \<noteq> Some 0"
  shows "\<exists>rp. tr' = tr @ rp @ [Destroyed] \<and> child_end e rp"
proof (cases "km_pid e > 0 \<and> command e \<noteq> []")
  case True
  let ?sig = "if ks_child_exited sys then [] else [Signalled (km_pid e)]"
  have "tr' = tr @ (?sig @ [Reaped (km_pid e)]) @ [Destroyed]"
    using assms True by (auto simp: reap_child_def cleanup_km_def Let_def split: if_split_asm option.splits)
  moreover have "child_end e (?sig @ [Reaped (km_pid e)])"
  proof -
    have "\<exists>sig. set sig \<subseteq> {Signalled (km_pid e)} \<and> ?sig @ [Reaped (km_pid e)] = sig @ [Reaped (km_pid e)]"
      by (intro exI [of _ ?sig]) simp
    then show ?thesis using True by (simp only: child_end_def if_True simp_thms not_False_eq_True)
  qed
  ultimately show ?thesis by blast
next
  case False
  then show ?thesis using assms by (auto simp: reap_child_def cleanup_km_def child_end_def)
qed

lemma km_trace_ok:
  assumes "km_trace sys e tr = Done (0, tr')" "ks_kill sys \<noteq> Some 0" "ks_waitpid sys \<noteq> Some 0"
  shows "\<exists>flt rs rp. tr' = tr @ flt @ [Attached] @ (if command e \<noteq> [] then [Notified] else []) @ map Report rs @ rp @ [Destroyed]
     \<and> set flt \<subseteq> {Filtered (km_pid e)} \<and> child_end e rp"
proof -
  let ?flt = "if ks_filter sys then [Filtered (km_pid e)] else []"
  let ?tr3 = "tr @ ?flt @ [Attached] @ (if command e \<noteq> [] then [Notified] else [])"
  have att: "ks_attach sys = 0" using assms(1) by (auto simp: km_trace_def cleanup_km_def Let_def split: if_split_asm)
  moreover have "command e \<noteq> [] \<Longrightarrow> event_notify (ks_notify sys) = 0"
    using assms(1) att by (auto simp: km_trace_def cleanup_km_def Let_def split: if_split_asm)
  ultimately have run: "km_observe sys e ?tr3 = Done (0, tr')"
    using assms(1) by (auto simp: km_trace_def Let_def)
  then obtain ks where ks: "ksyms_load (ks_sort sys) (ks_mem sys) (ks_kallsyms sys) = Done (Some ks)"
    unfolding km_observe_def
    by (cases "ksyms_load (ks_sort sys) (ks_mem sys) (ks_kallsyms sys)") (auto simp: cleanup_km_def split: option.splits)
  obtain tr4 where tr4: "report_loop sys e ks (nr_intervals e) (ks_polls sys) ?tr3 = Done tr4" "reap_child sys e tr4 = Done (0, tr')"
    using run ks unfolding km_observe_def by (cases "report_loop sys e ks (nr_intervals e) (ks_polls sys) ?tr3") auto
  obtain rs where rs: "tr4 = ?tr3 @ map Report rs" using report_loop_trace [OF tr4(1)] by blast
  obtain rp where rp: "tr' = tr4 @ rp @ [Destroyed]" "child_end e rp" using reap_child_ok [OF tr4(2) assms(2,3)] by blast
  have "tr' = tr @ ?flt @ [Attached] @ (if command e \<noteq> [] then [Notified] else []) @ map Report rs @ rp @ [Destroyed]"
    using rs rp by simp
  moreover have "set ?flt \<subseteq> {Filtered (km_pid e)}" by auto
  ultimately show ?thesis using rp(2) by blast
qed

lemma km_load_ok:
  assumes "km_load_bpf sys e tr = Done (0, tr')" "ks_kill sys \<noteq> Some 0" "ks_waitpid sys \<noteq> Some 0"
  shows "\<exists>flt rs rp. tr' = tr @ [Configured (km_rodata_of sys e)] @ flt @ [Attached]
        @ (if command e \<noteq> [] then [Notified] else []) @ map Report rs @ rp @ [Destroyed]
     \<and> set flt \<subseteq> {Filtered (km_pid e)} \<and> child_end e rp"
proof -
  have "km_trace sys e (tr @ [Configured (km_rodata_of sys e)]) = Done (0, tr')"
    using assms(1) by (auto simp: km_load_bpf_def cleanup_km_def Let_def split: if_split_asm)
  from km_trace_ok [OF this assms(2,3)] show ?thesis by simp
qed

text \<open>C29: When \<open>kmemleak\<close> ends with status 0 after it has started a command, it attached the programs before it
  let the command run, wrote all reports after that, and reaped the child last.\<close>

theorem km_child_traced_and_reaped:
  assumes "km_main sys = Done (0, Spawned pid # tr)" "0 < pid" "ks_kill sys \<noteq> Some 0" "ks_waitpid sys \<noteq> Some 0"
  shows "\<exists>ro flt rs sig. tr = Configured ro # flt @ [Attached, Notified] @ map Report rs @ sig @ [Reaped pid, Destroyed]
     \<and> set flt \<subseteq> {Filtered pid} \<and> set sig \<subseteq> {Signalled pid}"
proof -
  obtain e where e: "km_spawn sys e = Done (0, Spawned pid # tr)"
    using assms(1) by (auto simp: km_main_def cleanup_km_def split: sum.splits if_split_asm option.splits)
  have "command e \<noteq> []" using e km_load_ok [OF _ assms(3,4), of e "[]"] by (auto simp: km_spawn_def)
  then obtain child where "km_load_bpf sys (e\<lparr>km_pid := child\<rparr>) [Spawned child] = Done (0, Spawned pid # tr)"
    using e by (auto simp: km_spawn_def cleanup_km_def split: if_split_asm sum.splits)
  moreover from km_load_ok [OF this assms(3,4)] have "child = pid" by auto
  ultimately have "\<exists>flt rs rp. Spawned pid # tr = [Spawned pid] @ [Configured (km_rodata_of sys (e\<lparr>km_pid := pid\<rparr>))] @ flt @ [Attached]
        @ (if command e \<noteq> [] then [Notified] else []) @ map Report rs @ rp @ [Destroyed]
     \<and> set flt \<subseteq> {Filtered pid} \<and> child_end (e\<lparr>km_pid := pid\<rparr>) rp"
    using km_load_ok [OF _ assms(3,4), of "e\<lparr>km_pid := pid\<rparr>" "[Spawned pid]"] by simp
  then show ?thesis using \<open>command e \<noteq> []\<close> assms(2) by (fastforce simp: child_end_def)
qed

definition ex_km :: km_sys where
  "ex_km = \<lparr>ks_cvt = (\<lambda>v. - 2147483648), ks_keys = [KOpt CHR ''c'' ''./allocs'', KArg ''1'', KArg ''1''], ks_argp_ok = True,
     ks_sigaction = None, ks_page_size = 4096, ks_eventfd = Inr 3, ks_fork = Inr 77, ks_stack_mem = True,
     ks_allocs_mem = True, ks_open = True, ks_load = 0, ks_filter = True, ks_attach = 0, ks_notify = Inr 8,
     ks_kallsyms = Some [], ks_mem = (\<lambda>n. True), ks_sort = isort, ks_qsort = isort, ks_buf = True,
     ks_traces = (\<lambda>s. Inr []), ks_polls = [(False, [NextErr ENOENT], [])], ks_child_exited = False,
     ks_kill = None, ks_waitpid = None\<rparr>"

lemma ex_km_run: "\<exists>tr. km_main ex_km = Done (0, Spawned 77 # tr)"
proof -
  have num: "argp_parse_long ''1'' = Inr 1"
    by (simp add: argp_parse_long_def strtol10_def scan_number_def is_space_def is_digit_def digit_val_def)
  have ks: "ksyms_load isort (\<lambda>n. True) (Some []) = Done (Some (ksyms_zero\<lparr>syms := []\<rparr>))"
    by (simp add: ksyms_load_def load_loop.simps scan_sym_def isort_def ksyms_zero_def)
  show ?thesis
    by (simp add: km_main_def ex_km_def km_parse_args_def km_long_def num km_defaults_def km_spawn_def event_init_def
        km_load_bpf_def km_trace_def km_observe_def event_notify_def ks one_report_def print_outstanding_allocs_def
        reap_child_def cleanup_km_def Let_def)
qed

theorem km_child_traced_and_reaped_witness:
  "\<exists>tr ro flt rs sig. km_main ex_km = Done (0, Spawned 77 # tr)
     \<and> tr = Configured ro # flt @ [Attached, Notified] @ map Report rs @ sig @ [Reaped 77, Destroyed]"
proof -
  obtain tr where tr: "km_main ex_km = Done (0, Spawned 77 # tr)" using ex_km_run by blast
  have "ks_kill ex_km \<noteq> Some 0" "ks_waitpid ex_km \<noteq> Some 0" by (simp_all add: ex_km_def)
  with km_child_traced_and_reaped [OF tr] show ?thesis using tr by fastforce
qed

section \<open>Behaviour worth knowing\<close>

text \<open>If the programs cannot be loaded, the child that was forked is neither let go nor signalled.\<close>

lemma load_failure_orphans_child:
  assumes "km_argp_parse (ks_cvt sys) (ks_keys sys) km_defaults 0 = Inr e" "ks_argp_ok sys" "ks_sigaction sys = None"
    and "min_size e \<le> max_size e" "command e \<noteq> []" "km_pid e \<le> 0" "ks_eventfd sys = Inr fd" "ks_fork sys = Inr pid"
    and "ks_stack_mem sys" "ks_allocs_mem sys" "ks_open sys" "ks_load sys \<noteq> 0"
  shows "\<exists>ro. km_main sys = Done (ks_load sys, [Spawned pid, Configured ro, Destroyed])"
  using assms by (simp add: km_main_def km_spawn_def event_init_def km_load_bpf_def cleanup_km_def Let_def not_less)

text \<open>An \<open>eventfd\<close> that cannot be made ends the program with status 0.\<close>

lemma event_failure_status_zero:
  assumes "km_argp_parse (ks_cvt sys) (ks_keys sys) km_defaults 0 = Inr e" "ks_argp_ok sys" "ks_sigaction sys = None"
    and "min_size e \<le> max_size e" "command e \<noteq> []" "km_pid e \<le> 0" "ks_eventfd sys = Inl err" "err \<noteq> 0"
  shows "km_main sys = Done (0, [Destroyed])"
  using assms by (simp add: km_main_def km_spawn_def event_init_def cleanup_km_def not_less)

text \<open>
  An age of 2148 ms or more does not fit \<open>min_age_ns\<close>. Where the machine then gives the smallest \<open>int\<close>, as x86
  does, an allocation made just now counts as old enough.
\<close>

lemma older_overflow:
  assumes "atoi arg > 2147" "cvt (1000000 * atoi arg) = - 2147483648"
    and "km_parse_args cvt (KOpt CHR ''o'' arg) e n = Inr (e', n')" "unat now < 2 ^ 63"
  shows "\<not> too_young e' now \<lparr>ai_size = sz, ai_time = now, ai_stack = st\<rparr>"
proof -
  have "min_age_ns e' = - 2147483648" using assms(1-3) by (auto simp: km_parse_args_def double_to_int_def)
  then have eq: "now - of_int (min_age_ns e') = now + 2147483648" by simp
  have "now \<le> now + 2147483648" 
  proof -
    have "unat (now + 2147483648) = unat now + 2147483648" using assms(4) by (subst unat_add_lem [THEN iffD1]) simp_all
    then show ?thesis by (simp add: word_le_nat_alt)
  qed
  then show ?thesis unfolding too_young_def eq by (simp add: not_less)
qed

end
