(* ===== verification/Lsns.thy ===== *)
theory Lsns
  imports C_Format Spin_Lock "HOL-Library.Product_Lexorder" "HOL-Library.Multiset"
begin

text \<open>
  \<open>observe/lsns.cpp\<close>: the namespaces of the system and the processes in them. What the BPF iterator left in
  its maps is joined with a scan of \<open>/proc\<close>; every namespace gets a representative process, the
  representatives form a forest by their parents, and the result is printed as a table with tree
  prefixes or as nested JSON objects. The files of \<open>/proc\<close> are a function from paths to contents.
\<close>

section \<open>Processes\<close>

type_synonym files = "string \<Rightarrow> string option"

definition strip_trailing :: "char \<Rightarrow> string \<Rightarrow> string" where
  "strip_trailing c s = rev (dropWhile (\<lambda>x. x = c) (rev s))"

text \<open>\<open>read_proc_cmd\<close>: the arguments with spaces between them, else the first line of \<open>comm\<close>, else the number.\<close>

definition read_proc_cmd :: "files \<Rightarrow> int \<Rightarrow> string" where
  "read_proc_cmd fl pid =
     (let fallback =
        (case fl (''/proc/'' @ show_int pid @ ''/comm'') of
           Some t \<Rightarrow> (case fgets_chunks 255 [] t of
                        l # ls \<Rightarrow> takeWhile (\<lambda>c. c \<noteq> NUL) (takeWhile (\<lambda>c. c \<noteq> NL) l)
                      | [] \<Rightarrow> ''['' @ show_int pid @ '']'')
         | None \<Rightarrow> ''['' @ show_int pid @ '']'')
      in case fl (''/proc/'' @ show_int pid @ ''/cmdline'') of
           None \<Rightarrow> fallback
         | Some t \<Rightarrow>
             (let s = strip_trailing CHR '' '' (map (\<lambda>c. if c = NUL then CHR '' '' else c) (take 4095 t))
              in if s \<noteq> [] then s else fallback))"

text \<open>\<open>sscanf(s, "%d", &x)\<close>: the value and what follows.\<close>

definition scan_d :: "string \<Rightarrow> (int \<times> string) option" where
  "scan_d s =
     (case scan_number s of
        None \<Rightarrow> None
      | Some (neg, n, r) \<Rightarrow> (case strtol10 s of (v, r', erange) \<Rightarrow> Some (to_int32 v, r)))"

record proc_status =
  st_ppid :: int
  st_uid :: u32
  st_tgid :: int

definition status_line :: "string \<Rightarrow> proc_status \<Rightarrow> proc_status" where
  "status_line l st =
     (if take 5 l = ''PPid:'' then (case scan_d (drop 5 l) of Some (p, r) \<Rightarrow> st\<lparr>st_ppid := p\<rparr> | None \<Rightarrow> st)
      else if take 4 l = ''Uid:'' then (case scan_d (drop 4 l) of Some (u, r) \<Rightarrow> st\<lparr>st_uid := of_int u\<rparr> | None \<Rightarrow> st)
      else if take 5 l = ''Tgid:'' then (case scan_d (drop 5 l) of Some (t, r) \<Rightarrow> st\<lparr>st_tgid := t\<rparr> | None \<Rightarrow> st)
      else st)"

definition read_proc_ppid_uid :: "files \<Rightarrow> int \<Rightarrow> proc_status" where
  "read_proc_ppid_uid fl pid =
     (let st = \<lparr>st_ppid = 0, st_uid = 0, st_tgid = pid\<rparr>
      in case fl (''/proc/'' @ show_int pid @ ''/status'') of
           None \<Rightarrow> st
         | Some t \<Rightarrow> fold status_line (fgets_chunks 511 [] t) st)"

record ProcInfo =
  pi_pid :: int
  pi_ppid :: int
  pi_uid :: u32
  pi_cmd :: string

type_synonym ns_key = "u32 \<times> u64"

definition key_text :: "ns_key \<Rightarrow> string" where
  "key_text k = show_nat (unat (fst k)) @ '':'' @ show_nat (unat (snd k))"

definition proc_names :: "string list" where
  "proc_names = [''unknown'', ''user'', ''ipc'', ''mnt'', ''pid'', ''net'', ''uts'', ''time'', ''cgroup'', ''pid'']"

type_synonym proc_map = "string \<rightharpoonup> ProcInfo list"

text \<open>\<open>scan_procs_by_ns\<close>; \<open>ino\<close> gives the inode of a path, \<open>names\<close> are the entries of \<open>/proc\<close> in the order of \<open>readdir\<close>.\<close>

definition scan_ns :: "files \<Rightarrow> (string \<Rightarrow> u64 option) \<Rightarrow> int \<Rightarrow> nat \<Rightarrow> proc_map \<Rightarrow> proc_map" where
  "scan_ns fl ino pid t m =
     (case ino (''/proc/'' @ show_int pid @ ''/ns/'' @ proc_names ! t) of
        None \<Rightarrow> m
      | Some inum \<Rightarrow>
          (let st = read_proc_ppid_uid fl (to_int32 pid); key = key_text (of_nat t, inum)
           in if st_tgid st \<noteq> to_int32 pid then m
              else m(key \<mapsto> (case m key of None \<Rightarrow> [] | Some ps \<Rightarrow> ps) @
                     [\<lparr>pi_pid = st_tgid st, pi_ppid = st_ppid st, pi_uid = st_uid st, pi_cmd = read_proc_cmd fl (st_tgid st)\<rparr>])))"

definition scan_entry :: "files \<Rightarrow> (string \<Rightarrow> u64 option) \<Rightarrow> string \<Rightarrow> proc_map \<Rightarrow> proc_map" where
  "scan_entry fl ino name m =
     (case strtol10 name of (pid, r, erange) \<Rightarrow> if r \<noteq> [] then m else fold (scan_ns fl ino pid) [1..<10] m)"

definition scan_procs_by_ns :: "files \<Rightarrow> (string \<Rightarrow> u64 option) \<Rightarrow> string list option \<Rightarrow> proc_map" where
  "scan_procs_by_ns fl ino names =
     (case names of
        None \<Rightarrow> Map.empty
      | Some ns \<Rightarrow> map_option (sort_key pi_pid) \<circ> fold (scan_entry fl ino) ns Map.empty)"

definition ns_display_name :: "u32 \<Rightarrow> string" where
  "ns_display_name t =
     (if t = 1 then ''user'' else if t = 2 then ''ipc'' else if t = 3 then ''mnt'' else if t = 4 then ''pid''
      else if t = 5 then ''net'' else if t = 6 then ''uts'' else if t = 7 then ''time'' else if t = 8 then ''cgroup''
      else if t = 9 then ''pid_for_children'' else ''unknown'')"

definition get_terminal_width :: "nat option \<Rightarrow> string option \<Rightarrow> int" where
  "get_terminal_width ws_col cols =
     (case ws_col of
        Some w \<Rightarrow> if w > 0 then int w else (case cols of Some c \<Rightarrow> if atoi c > 0 then atoi c else 80 | None \<Rightarrow> 80)
      | None \<Rightarrow> (case cols of Some c \<Rightarrow> if atoi c > 0 then atoi c else 80 | None \<Rightarrow> 80))"

definition truncate_cmd :: "string \<Rightarrow> int \<Rightarrow> string" where
  "truncate_cmd s max_width = (if max_width \<le> 0 \<or> int (length s) \<le> max_width then s else take (nat max_width) s)"

section \<open>Counting processors\<close>

text \<open>
  The loop over \<open>/sys/devices/system/cpu/online\<close>: a range, else a single number, then what follows the next
  comma.
\<close>

definition scan_range :: "string \<Rightarrow> (int \<times> int) option" where
  "scan_range s =
     (case scan_d s of
        None \<Rightarrow> None
      | Some (a, r) \<Rightarrow>
          (case r of
             [] \<Rightarrow> None
           | c # r' \<Rightarrow> if c = CHR ''-'' then (case scan_d r' of None \<Rightarrow> None | Some (b, r'') \<Rightarrow> Some (a, b)) else None))"

lemma after_comma_shorter: "dropWhile (\<lambda>c. c \<noteq> CHR '','') s = x # r \<Longrightarrow> length r < length s"
  using length_dropWhile_le [of "\<lambda>c. c \<noteq> CHR '',''" s] by simp

function count_cpus :: "string \<Rightarrow> int \<Rightarrow> int" where
  "count_cpus s n =
     (if s = [] then n
      else let m = (case scan_range s of
                      Some (a, b) \<Rightarrow> Some (n + (b - a + 1))
                    | None \<Rightarrow> (case scan_d s of Some (a, r) \<Rightarrow> Some (n + 1) | None \<Rightarrow> None))
           in case m of
                None \<Rightarrow> n
              | Some n' \<Rightarrow> (case dropWhile (\<lambda>c. c \<noteq> CHR '','') s of [] \<Rightarrow> n' | x # r \<Rightarrow> count_cpus r n'))"
  by pat_completeness auto

termination
  by (relation "measure (\<lambda>(s, n). length s)") (auto dest: after_comma_shorter)

declare count_cpus.simps [simp del]

definition nr_cpus :: "files \<Rightarrow> int" where
  "nr_cpus fl =
     (let n = (case fl ''/sys/devices/system/cpu/online'' of
                 None \<Rightarrow> 0
               | Some t \<Rightarrow> (case fgets_chunks 255 [] t of [] \<Rightarrow> 0 | l # ls \<Rightarrow> count_cpus l 0))
      in if n \<le> 0 then 1 else n)"

section \<open>Headers\<close>

record Entry =
  ent_type :: u32
  ent_inum :: u64
  ent_pid :: u32
  ent_uid :: u32
  ent_procs :: u32

definition ent_key :: "Entry \<Rightarrow> ns_key" where "ent_key e = (ent_type e, ent_inum e)"

text \<open>The walk over \<open>ns_map\<close>: the keys in order, each with the owner if the lookup succeeds.\<close>

definition entry_of :: "ns_key \<times> (u32 \<times> u32 \<times> u32) option \<Rightarrow> Entry" where
  "entry_of x =
     (case x of
        (k, Some (pid, uid, procs)) \<Rightarrow> \<lparr>ent_type = fst k, ent_inum = snd k, ent_pid = pid, ent_uid = uid, ent_procs = procs\<rparr>
      | (k, None) \<Rightarrow> \<lparr>ent_type = fst k, ent_inum = snd k, ent_pid = 0, ent_uid = 0, ent_procs = 0\<rparr>)"

record HeaderInfo =
  h_e :: Entry
  h_display :: string
  h_user :: string
  h_total :: u64
  h_rep :: int
  h_cmd :: string

record ls_sys =
  ls_files :: files
  ls_inode :: "string \<Rightarrow> u64 option"
  ls_proc :: "string list option"
  ls_passwd :: "u32 \<Rightarrow> string option"
  ls_entries :: "(ns_key \<times> (u32 \<times> u32 \<times> u32) option) list"
  ls_counts :: "(ns_key \<Rightarrow> u32 list option) option"

text \<open>
  The total number of processes: \<open>counts\<close> are the 32-bit words that a lookup in the map of counters stores; more
  words than the buffer has are stored out of bounds.
\<close>

definition total_procs :: "ls_sys \<Rightarrow> Entry \<Rightarrow> u64 outcome" where
  "total_procs sys e =
     (case ls_counts sys of
        None \<Rightarrow> Done (ucast (ent_procs e))
      | Some look \<Rightarrow>
          (case look (ent_key e) of
             None \<Rightarrow> Done (ucast (ent_procs e))
           | Some ws \<Rightarrow> if int (length ws) > nr_cpus (ls_files sys) then Fault else Done (\<Sum>w \<leftarrow> ws. ucast w)))"

definition user_field :: "ls_sys \<Rightarrow> Entry \<Rightarrow> string" where
  "user_field sys e =
     (if ent_pid e = 0 then ''-''
      else case ls_passwd sys (ent_uid e) of Some n \<Rightarrow> take 63 n | None \<Rightarrow> show_nat (unat (ent_uid e)))"

text \<open>The representative: the smallest process of the namespace, else the owner that the map has.\<close>

definition least_pid :: "ProcInfo list \<Rightarrow> int" where
  "least_pid ps = fold (\<lambda>p m. if pi_pid p < m then pi_pid p else m) ps (pi_pid (hd ps))"

definition representative :: "ls_sys \<Rightarrow> proc_map \<Rightarrow> Entry \<Rightarrow> int \<times> string" where
  "representative sys pm e =
     (case pm (key_text (ent_key e)) of
        Some (p # ps) \<Rightarrow>
          (let t = least_pid (p # ps)
           in (t, case find (\<lambda>q. pi_pid q = t) (p # ps) of Some q \<Rightarrow> pi_cmd q | None \<Rightarrow> ''-''))
      | _ \<Rightarrow> if ent_pid e \<noteq> 0 then (sint (ent_pid e), read_proc_cmd (ls_files sys) (sint (ent_pid e))) else (0, ''-''))"

definition header_of :: "ls_sys \<Rightarrow> proc_map \<Rightarrow> Entry \<Rightarrow> HeaderInfo outcome" where
  "header_of sys pm e =
     bind_outcome (total_procs sys e) (\<lambda>total.
       case representative sys pm e of
         (t, cmd) \<Rightarrow> Done \<lparr>h_e = e, h_display = ns_display_name (ent_type e), h_user = user_field sys e, h_total = total,
                          h_rep = t, h_cmd = cmd\<rparr>)"

fun headers_of :: "ls_sys \<Rightarrow> proc_map \<Rightarrow> Entry list \<Rightarrow> HeaderInfo list outcome" where
  "headers_of sys pm [] = Done []"
| "headers_of sys pm (e # es) =
     (if ent_type e = 9 then headers_of sys pm es
      else bind_outcome (header_of sys pm e) (\<lambda>h. bind_outcome (headers_of sys pm es) (\<lambda>hs. Done (h # hs))))"

definition all_headers :: "ls_sys \<Rightarrow> HeaderInfo list outcome" where
  "all_headers sys =
     headers_of sys (scan_procs_by_ns (ls_files sys) (ls_inode sys) (ls_proc sys))
       (sort_key ent_inum (map entry_of (ls_entries sys)))"

section \<open>The forest of representatives\<close>

text \<open>
  \<open>reps\<close>, with the header that set the entry last, and \<open>rep_to_headers\<close>. The order of an \<open>unordered_map\<close> does not
  matter: what is made from it is a set or is sorted.
\<close>

definition reps :: "HeaderInfo list \<Rightarrow> int list" where
  "reps hs = remdups (map h_rep (filter (\<lambda>h. h_rep h \<noteq> 0) hs))"

definition rep_header :: "HeaderInfo list \<Rightarrow> int \<Rightarrow> HeaderInfo option" where
  "rep_header hs t = (if t = 0 then None else find (\<lambda>h. h_rep h = t) (rev hs))"

definition rep_to_headers :: "HeaderInfo list \<Rightarrow> int \<Rightarrow> HeaderInfo list" where
  "rep_to_headers hs t = (if t = 0 then [] else filter (\<lambda>h. h_rep h = t) hs)"

definition rep_inum :: "HeaderInfo list \<Rightarrow> int \<Rightarrow> u64" where
  "rep_inum hs t = (case rep_header hs t of Some h \<Rightarrow> ent_inum (h_e h) | None \<Rightarrow> 0)"

definition rep_parent_raw :: "files \<Rightarrow> int \<Rightarrow> int" where
  "rep_parent_raw fl t =
     (let ppid = st_ppid (read_proc_ppid_uid fl t) in if ppid > 0 then st_tgid (read_proc_ppid_uid fl ppid) else 0)"

definition has_rep_parent :: "files \<Rightarrow> HeaderInfo list \<Rightarrow> int \<Rightarrow> bool" where
  "has_rep_parent fl hs t \<longleftrightarrow> rep_parent_raw fl t > 0 \<and> rep_parent_raw fl t \<in> set (reps hs)"

definition rep_children :: "files \<Rightarrow> HeaderInfo list \<Rightarrow> int \<Rightarrow> int list" where
  "rep_children fl hs p =
     sort_key (\<lambda>c. (rep_inum hs c, c)) (filter (\<lambda>c. has_rep_parent fl hs c \<and> rep_parent_raw fl c = p) (reps hs))"

definition rep_roots :: "files \<Rightarrow> HeaderInfo list \<Rightarrow> int list" where
  "rep_roots fl hs = sort_key (\<lambda>c. (rep_inum hs c, c)) (filter (\<lambda>t. \<not> has_rep_parent fl hs t) (reps hs))"

definition orphan_roots :: "files \<Rightarrow> HeaderInfo list \<Rightarrow> int list" where
  "orphan_roots fl hs = filter (\<lambda>t. rep_parent_raw fl t > 0 \<and> rep_parent_raw fl t \<notin> set (reps hs)) (reps hs)"

text \<open>
  The traversal that the recursive functions \<open>collect_orphan_subtree\<close> and \<open>build_header_json\<close> share: a node whose key
  was seen is left out; otherwise its key is noted and its children follow. The depth is bounded by fuel.
\<close>

datatype 'a forest = Node 'a "'a forest list"

fun dfs :: "nat \<Rightarrow> ('a \<Rightarrow> 'k) \<Rightarrow> ('a \<Rightarrow> 'a list) \<Rightarrow> 'a list \<Rightarrow> 'k list \<Rightarrow> ('a forest list \<times> 'k list) outcome" where
  "dfs n key ch [] seen = Done ([], seen)"
| "dfs 0 key ch (x # xs) seen = (if key x \<in> set seen then dfs 0 key ch xs seen else Blocked)"
| "dfs (Suc n) key ch (x # xs) seen =
     (if key x \<in> set seen then dfs (Suc n) key ch xs seen
      else bind_outcome (dfs n key ch (ch x) (key x # seen)) (\<lambda>(cs, seen1).
             bind_outcome (dfs (Suc n) key ch xs seen1) (\<lambda>(ts, seen2). Done (Node x cs # ts, seen2))))"

definition orphan_subtree :: "files \<Rightarrow> HeaderInfo list \<Rightarrow> int list outcome" where
  "orphan_subtree fl hs =
     bind_outcome (dfs (length (reps hs)) (\<lambda>t. t) (rep_children fl hs) (orphan_roots fl hs) []) (\<lambda>(ts, seen). Done seen)"

section \<open>The table\<close>

text \<open>The box-drawing characters, in UTF-8.\<close>

definition corner :: string where "corner = [CHR 0xE2, CHR 0x94, CHR 0x94, CHR 0xE2, CHR 0x94, CHR 0x80]"
definition tee :: string where "tee = [CHR 0xE2, CHR 0x94, CHR 0x9C, CHR 0xE2, CHR 0x94, CHR 0x80]"
definition bar :: string where "bar = [CHR 0xE2, CHR 0x94, CHR 0x82] @ ''  ''"

text \<open>
  \<open>build_prefix\<close> for the children \<open>cs\<close> of a node: the assignments to \<open>rep_prefix\<close> in order. \<open>print_orphan_node\<close> goes
  through its subtree in the same order and with the same prefixes.
\<close>

fun build_prefix :: "nat \<Rightarrow> (int \<Rightarrow> int list) \<Rightarrow> string \<Rightarrow> int list \<Rightarrow> (int \<times> string) list outcome" where
  "build_prefix n ch p [] = Done []"
| "build_prefix 0 ch p (c # cs) = Blocked"
| "build_prefix (Suc n) ch p (c # cs) =
     bind_outcome (build_prefix n ch (p @ (if cs = [] then ''   '' else bar)) (ch c)) (\<lambda>below.
       bind_outcome (build_prefix (Suc n) ch p cs) (\<lambda>rest.
         Done ((c, p @ (if cs = [] then corner else tee)) # below @ rest)))"

fun root_prefixes :: "nat \<Rightarrow> (int \<Rightarrow> int list) \<Rightarrow> int list \<Rightarrow> (int \<times> string) list outcome" where
  "root_prefixes n ch [] = Done []"
| "root_prefixes n ch (r # rs) =
     bind_outcome (build_prefix n ch [] (ch r)) (\<lambda>ps. bind_outcome (root_prefixes n ch rs) (\<lambda>qs. Done (ps @ qs)))"

abbreviation pad_width :: nat where "pad_width \<equiv> 54"

definition table_header :: string where
  "table_header = pad_right 12 ''NS'' @ pad_right 8 ''TYPE'' @ pad_right 8 ''PROCS'' @ pad_right 18 ''USER''
     @ pad_right 8 ''PID'' @ ''COMMAND'' @ [NL]"

definition header_row :: "HeaderInfo \<Rightarrow> string \<Rightarrow> string" where
  "header_row h path =
     pad_right 12 (show_nat (unat (ent_inum (h_e h)))) @ pad_right 8 (h_display h)
     @ pad_right 8 (if h_total h \<noteq> 0 then show_nat (unat (h_total h)) else ''-'')
     @ pad_right 18 (h_user h) @ pad_right 8 (if h_rep h \<noteq> 0 then show_int (h_rep h) else ''-'') @ path @ [NL]"

definition main_row :: "(int \<rightharpoonup> string) \<Rightarrow> int \<Rightarrow> HeaderInfo \<Rightarrow> string" where
  "main_row prefix width h =
     header_row h (truncate_cmd
       ((if h_rep h \<noteq> 0 then (case prefix (h_rep h) of Some p \<Rightarrow> p | None \<Rightarrow> []) else []) @ h_cmd h) width)"

text \<open>A row of \<open>print_orphan_node\<close>; every representative has a header.\<close>

definition orphan_row :: "HeaderInfo list \<Rightarrow> int \<Rightarrow> int \<times> string \<Rightarrow> string" where
  "orphan_row hs width tp =
     (case tp of (t, p) \<Rightarrow>
        (case rep_header hs t of
           Some h \<Rightarrow> header_row h (truncate_cmd (p @ h_cmd h) width)
         | None \<Rightarrow> replicate pad_width CHR '' '' @ truncate_cmd (p @ show_int t) width @ [NL]))"

fun orphan_rows ::
    "nat \<Rightarrow> files \<Rightarrow> HeaderInfo list \<Rightarrow> (int \<rightharpoonup> string) \<Rightarrow> int \<Rightarrow> HeaderInfo list \<Rightarrow> string list outcome" where
  "orphan_rows n fl hs prefix width [] = Done []"
| "orphan_rows n fl hs prefix width (h # os) =
     bind_outcome (build_prefix n (rep_children fl hs) [] (rep_children fl hs (h_rep h))) (\<lambda>nodes.
       bind_outcome (orphan_rows n fl hs prefix width os) (\<lambda>rows.
         Done (main_row prefix width h # map (orphan_row hs width) nodes @ rows)))"

definition print_table :: "files \<Rightarrow> int \<Rightarrow> HeaderInfo list \<Rightarrow> string list outcome" where
  "print_table fl width hs =
     bind_outcome (orphan_subtree fl hs) (\<lambda>orphans.
       bind_outcome (root_prefixes (length (reps hs)) (rep_children fl hs) (rep_roots fl hs)) (\<lambda>ps.
         let prefix = map_of (rev ps);
             orphan = (\<lambda>h. h_rep h \<noteq> 0 \<and> h_rep h \<in> set orphans)
         in bind_outcome (orphan_rows (length (reps hs)) fl hs prefix width
                            (sort_key (\<lambda>h. ent_inum (h_e h)) (filter orphan hs))) (\<lambda>rows.
              Done (map (main_row prefix width) (filter (\<lambda>h. \<not> orphan h) hs) @ rows))))"

section \<open>JSON\<close>

definition escape_char :: "char \<Rightarrow> string" where
  "escape_char c =
     (if c = CHR 0x22 then [CHR 0x5C, CHR 0x22]
      else if c = CHR 0x5C then [CHR 0x5C, CHR 0x5C]
      else if c = NL then CHR 0x5C # ''n''
      else if c = CHR 0x0D then CHR 0x5C # ''r''
      else if c = CHR 0x09 then CHR 0x5C # ''t''
      else if (of_char c :: nat) < 32
        then CHR 0x5C # ''u00'' @ [hex_char (of_char c div 16), hex_char (of_char c mod 16)]
      else [c])"

definition json_escape :: "string \<Rightarrow> string" where
  "json_escape s = concat (map escape_char s)"

definition spaces :: "nat \<Rightarrow> string" where "spaces n = replicate n CHR '' ''"

definition quoted :: "string \<Rightarrow> string" where "quoted s = CHR 0x22 # s @ [CHR 0x22]"

definition json_fields :: "nat \<Rightarrow> HeaderInfo \<Rightarrow> string" where
  "json_fields indent h =
     spaces (indent + 3) @ quoted ''ns'' @ '': '' @ show_nat (unat (ent_inum (h_e h))) @ '','' @ [NL]
     @ spaces (indent + 3) @ quoted ''type'' @ '': '' @ quoted (h_display h) @ '','' @ [NL]
     @ spaces (indent + 3) @ quoted ''nprocs'' @ '': '' @ show_nat (unat (h_total h)) @ '','' @ [NL]
     @ spaces (indent + 3) @ quoted ''pid'' @ '': '' @ show_int (h_rep h) @ '','' @ [NL]
     @ spaces (indent + 3) @ quoted ''user'' @ '': '' @ quoted (json_escape (h_user h)) @ '','' @ [NL]
     @ spaces (indent + 3) @ quoted ''command'' @ '': '' @ quoted (json_escape (h_cmd h))"

definition join :: "string \<Rightarrow> string list \<Rightarrow> string" where
  "join sep ss = (case ss of [] \<Rightarrow> [] | s # ss' \<Rightarrow> s @ concat (map (\<lambda>t. sep @ t) ss'))"

text \<open>The text of an object and of those nested in it.\<close>

fun json_object :: "nat \<Rightarrow> HeaderInfo forest \<Rightarrow> string" where
  "json_object indent (Node h cs) =
     spaces indent @ ''{'' @ [NL] @ json_fields indent h
     @ (if cs = [] then []
        else '','' @ [NL] @ spaces (indent + 3) @ quoted ''children'' @ '': ['' @ [NL]
             @ join ('','' @ [NL]) (map (json_object (indent + 6)) cs) @ [NL] @ spaces (indent + 3) @ '']'')
     @ [NL] @ spaces indent @ ''}''"

definition child_headers :: "files \<Rightarrow> HeaderInfo list \<Rightarrow> HeaderInfo \<Rightarrow> HeaderInfo list" where
  "child_headers fl hs h = concat (map (rep_to_headers hs) (rep_children fl hs (h_rep h)))"

definition h_key :: "HeaderInfo \<Rightarrow> ns_key" where "h_key h = ent_key (h_e h)"

definition json_forest :: "files \<Rightarrow> HeaderInfo list \<Rightarrow> (HeaderInfo forest list \<times> ns_key list) outcome" where
  "json_forest fl hs = dfs (length hs) h_key (child_headers fl hs) hs []"

definition print_json :: "files \<Rightarrow> HeaderInfo list \<Rightarrow> string outcome" where
  "print_json fl hs =
     bind_outcome (json_forest fl hs) (\<lambda>(ts, seen).
       Done (''{'' @ [NL] @ ''  '' @ quoted ''namespaces'' @ '': ['' @ [NL]
             @ join ('','' @ [NL]) (map (json_object 4) ts) @ [NL] @ ''  ]'' @ [NL] @ ''}'' @ [NL]))"

section \<open>The program\<close>

record ls_run =
  lr_rlimit :: bool
  lr_skel :: bool
  lr_opts :: "char list"
  lr_sigaction :: bool
  lr_link :: bool
  lr_iter :: bool
  lr_width :: "nat option"
  lr_columns :: "string option"

text \<open>\<open>parse_args\<close>: the options as \<open>getopt_long\<close> yields them; an exit status, or whether JSON is asked for.\<close>

fun ls_parse_args :: "char list \<Rightarrow> bool \<Rightarrow> int + bool" where
  "ls_parse_args [] json = Inr json"
| "ls_parse_args (c # cs) json =
     (if c = CHR ''J'' then ls_parse_args cs True else if c = CHR ''h'' then Inl 0 else Inl (- 1))"

definition ls_main :: "ls_run \<Rightarrow> ls_sys \<Rightarrow> (int \<times> string) outcome" where
  "ls_main r sys =
     (if \<not> lr_rlimit r \<or> \<not> lr_skel r then Done (1, [])
      else case ls_parse_args (lr_opts r) False of
        Inl c \<Rightarrow> Done (c, [])
      | Inr json \<Rightarrow>
          if \<not> lr_sigaction r \<or> \<not> lr_link r \<or> \<not> lr_iter r then Done (1, [])
          else bind_outcome (all_headers sys) (\<lambda>hs.
                 if json then bind_outcome (print_json (ls_files sys) hs) (\<lambda>s. Done (0, table_header @ s))
                 else bind_outcome (print_table (ls_files sys) (get_terminal_width (lr_width r) (lr_columns r) - int pad_width) hs)
                        (\<lambda>rows. Done (0, table_header @ concat rows))))"

section \<open>The guarded traversal\<close>

fun nodes :: "'a forest \<Rightarrow> 'a list" where
  "nodes (Node x cs) = x # concat (map nodes cs)"

abbreviation all_nodes :: "'a forest list \<Rightarrow> 'a list" where
  "all_nodes ts \<equiv> concat (map nodes ts)"

fun top :: "'a forest \<Rightarrow> 'a" where
  "top (Node x cs) = x"

text \<open>The pairs of a node and one directly below it.\<close>

fun edges :: "'a forest \<Rightarrow> ('a \<times> 'a) list" where
  "edges (Node x cs) = map (\<lambda>c. (x, top c)) cs @ concat (map edges cs)"

abbreviation all_edges :: "'a forest list \<Rightarrow> ('a \<times> 'a) list" where
  "all_edges ts \<equiv> concat (map edges ts)"

locale guarded_search =
  fixes key :: "'a \<Rightarrow> 'k" and ch :: "'a \<Rightarrow> 'a list" and H :: "'a set"
  assumes fin: "finite H"
    and closed: "x \<in> H \<Longrightarrow> set (ch x) \<subseteq> H"
begin

lemma unseen_less:
  assumes "x \<in> H" "key x \<notin> set seen"
  shows "card (key ` H - set (key x # seen)) < card (key ` H - set seen)"
  using assms fin by (intro psubset_card_mono) auto

lemma unseen_mono: "set seen \<subseteq> set seen' \<Longrightarrow> card (key ` H - set seen') \<le> card (key ` H - set seen)"
  using fin by (intro card_mono) auto

definition visits :: "nat \<Rightarrow> 'a list \<Rightarrow> 'k list \<Rightarrow> 'a forest list \<Rightarrow> 'k list \<Rightarrow> bool" where
  "visits n xs seen ts seen' \<longleftrightarrow> dfs n key ch xs seen = Done (ts, seen') \<and> set seen \<subseteq> set seen' \<and> key ` set xs \<subseteq> set seen'
     \<and> distinct (map key (all_nodes ts)) \<and> key ` set (all_nodes ts) = set seen' - set seen \<and> set (all_nodes ts) \<subseteq> H"

lemma visits_node:
  assumes "visits n (ch x) (key x # seen) cs seen1" "visits (Suc n) xs seen1 ts seen2" "key x \<notin> set seen" "x \<in> H"
  shows "visits (Suc n) (x # xs) seen (Node x cs # ts) seen2"
proof -
  have below: "key ` set (all_nodes cs) = set seen1 - set (key x # seen)" "set (key x # seen) \<subseteq> set seen1"
    using assms(1) by (simp_all add: visits_def)
  have rest: "key ` set (all_nodes ts) = set seen2 - set seen1" "set seen1 \<subseteq> set seen2" using assms(2) by (simp_all add: visits_def)
  have "key x \<notin> key ` set (all_nodes cs)" "key x \<notin> key ` set (all_nodes ts)"
    "key ` set (all_nodes cs) \<inter> key ` set (all_nodes ts) = {}"
    unfolding below(1) rest(1) using below(2) by auto
  moreover have "distinct (map key (all_nodes cs))" "distinct (map key (all_nodes ts))"
    using assms(1,2) by (simp_all add: visits_def)
  ultimately have "distinct (map key (all_nodes (Node x cs # ts)))" by simp
  moreover have "key ` set (all_nodes (Node x cs # ts)) = insert (key x) (key ` set (all_nodes cs) \<union> key ` set (all_nodes ts))" by auto
  then have "key ` set (all_nodes (Node x cs # ts)) = set seen2 - set seen"
    unfolding below(1) rest(1) using below(2) rest(2) assms(3) by auto
  ultimately show ?thesis using assms below(2) rest(2) by (auto simp: visits_def)
qed

lemma search_exact:
  assumes "set xs \<subseteq> H" "card (key ` H - set seen) \<le> n"
  shows "\<exists>ts seen'. visits n xs seen ts seen'"
  using assms
proof (induction n arbitrary: xs seen)
  case 0
  then have "key ` set xs \<subseteq> set seen" using fin by auto
  then have "dfs 0 key ch xs seen = Done ([], seen)" by (induction xs) auto
  then show ?case using \<open>key ` set xs \<subseteq> set seen\<close> by (auto simp: visits_def)
next
  case (Suc n)
  from Suc.prems show ?case
  proof (induction xs arbitrary: seen)
    case Nil
    have "visits (Suc n) [] seen [] seen" by (simp add: visits_def)
    then show ?case by blast
  next
    case (Cons x xs)
    have x: "x \<in> H" using Cons.prems by simp
    show ?case
    proof (cases "key x \<in> set seen")
      case True
      obtain ts seen' where "visits (Suc n) xs seen ts seen'" using Cons.IH [of seen] Cons.prems by force
      then have "visits (Suc n) (x # xs) seen ts seen'" using True by (auto simp: visits_def)
      then show ?thesis by blast
    next
      case False
      obtain cs seen1 where cs: "visits n (ch x) (key x # seen) cs seen1"
        using Suc.IH [OF closed [OF x], of "key x # seen"] unseen_less [OF x False] Cons.prems(2) by auto
      then have "card (key ` H - set seen1) \<le> Suc n"
        using unseen_mono [of seen seen1] Cons.prems(2) by (auto simp: visits_def)
      then obtain ts seen2 where "visits (Suc n) xs seen1 ts seen2" using Cons.IH [of seen1] Cons.prems by force
      from visits_node [OF cs this False x] show ?thesis by blast
    qed
  qed
qed

lemma search_from_start:
  assumes "set xs \<subseteq> H" "card (key ` H) \<le> n"
  shows "\<exists>ts seen. dfs n key ch xs [] = Done (ts, seen) \<and> key ` set xs \<subseteq> set seen
     \<and> distinct (map key (all_nodes ts)) \<and> key ` set (all_nodes ts) = set seen \<and> set (all_nodes ts) \<subseteq> H"
  using search_exact [of xs "[]" n] assms by (auto simp: visits_def)

end

lemma rep_children_member: "c \<in> set (rep_children fl hs p) \<longleftrightarrow> c \<in> set (reps hs) \<and> has_rep_parent fl hs c \<and> rep_parent_raw fl c = p"
  by (auto simp: rep_children_def)

interpretation json_search: guarded_search h_key "child_headers fl hs" "set hs" for fl hs
  by unfold_locales (auto simp: child_headers_def rep_to_headers_def split: if_split_asm)

interpretation orphan_search: guarded_search "\<lambda>t::int. t" "rep_children fl hs" "set (reps hs)" for fl hs
  by unfold_locales (auto simp: rep_children_member)

section \<open>The forest has no cycles below its roots\<close>

text \<open>A path from a representative up to a root.\<close>

fun up_path :: "files \<Rightarrow> HeaderInfo list \<Rightarrow> int list \<Rightarrow> bool" where
  "up_path fl hs [] = False"
| "up_path fl hs [r] = (r \<in> set (reps hs) \<and> \<not> has_rep_parent fl hs r)"
| "up_path fl hs (c # x # xs) = (c \<in> set (reps hs) \<and> has_rep_parent fl hs c \<and> rep_parent_raw fl c = x \<and> up_path fl hs (x # xs))"

lemma up_path_reps: "up_path fl hs xs \<Longrightarrow> set xs \<subseteq> set (reps hs)"
  by (induction fl hs xs rule: up_path.induct) auto

lemma up_path_fresh:
  assumes "up_path fl hs (x # xs)" "distinct (x # xs)" "has_rep_parent fl hs c" "rep_parent_raw fl c = x"
  shows "c \<notin> set (x # xs)"
proof
  assume "c \<in> set (x # xs)"
  then obtain ys zs where split: "x # xs = ys @ c # zs" by (meson split_list)
  have tail: "up_path fl hs (ys @ zs') \<Longrightarrow> zs' \<noteq> [] \<Longrightarrow> up_path fl hs zs'" for ys zs'
  proof (induction ys)
    case (Cons y ys)
    then show ?case by (cases "ys @ zs'") auto
  qed simp
  have "up_path fl hs (c # zs)" using tail [of ys "c # zs"] assms(1) split by simp
  then obtain z zs' where "zs = z # zs'" "z = x" using assms(3,4) by (cases zs) auto
  then show False using split assms(2) by (cases ys) (auto simp: distinct_append)
qed

lemma up_path_length:
  assumes "up_path fl hs xs" "distinct xs"
  shows "length xs \<le> length (reps hs)"
proof -
  have "length xs = card (set xs)" using distinct_card [OF assms(2)] by simp
  also have "\<dots> \<le> card (set (reps hs))" using up_path_reps [OF assms(1)] by (intro card_mono) auto
  also have "\<dots> = length (reps hs)" by (rule distinct_card) (simp add: reps_def)
  finally show ?thesis .
qed

lemma build_prefix_total:
  assumes "up_path fl hs (x # xs)" "distinct (x # xs)" "set cs \<subseteq> set (rep_children fl hs x)"
    and "length (reps hs) \<le> n + length (x # xs)"
  shows "\<exists>ps. build_prefix n (rep_children fl hs) p cs = Done ps"
  using assms
proof (induction n arbitrary: x xs p cs)
  case 0
  have "cs = []"
  proof (rule ccontr)
    assume "cs \<noteq> []"
    then have "hd cs \<in> set cs" by simp
    then have c: "hd cs \<in> set (reps hs)" "has_rep_parent fl hs (hd cs)" "rep_parent_raw fl (hd cs) = x"
      using 0 by (auto simp: rep_children_member)
    have "distinct (hd cs # x # xs)" using up_path_fresh [OF 0(1,2) c(2,3)] 0(2) by simp
    then show False using up_path_length [of fl hs "hd cs # x # xs"] c 0(1,4) by simp
  qed
  then show ?case by simp
next
  case (Suc n)
  from Suc.prems(3) show ?case
  proof (induction cs)
    case Nil
    then show ?case by simp
  next
    case (Cons c cs)
    have c: "c \<in> set (reps hs)" "has_rep_parent fl hs c" "rep_parent_raw fl c = x"
      using Cons.prems by (auto simp: rep_children_member)
    have "distinct (c # x # xs)" using up_path_fresh [OF Suc.prems(1,2) c(2,3)] Suc.prems(2) by simp
    then obtain below where "build_prefix n (rep_children fl hs) (p @ (if cs = [] then ''   '' else bar)) (rep_children fl hs c) = Done below"
      using Suc.IH [of c "x # xs"] c Suc.prems(1,4) by fastforce
    moreover obtain rest where "build_prefix (Suc n) (rep_children fl hs) p cs = Done rest" using Cons by auto
    ultimately show ?case by simp
  qed
qed

lemma root_prefixes_total:
  assumes "\<forall>r \<in> set rs. \<exists>xs. up_path fl hs (r # xs) \<and> distinct (r # xs)"
  shows "\<exists>ps. root_prefixes (length (reps hs)) (rep_children fl hs) rs = Done ps"
  using assms
proof (induction rs)
  case (Cons r rs)
  obtain xs where "up_path fl hs (r # xs)" "distinct (r # xs)" using Cons.prems by auto
  then obtain ps where "build_prefix (length (reps hs)) (rep_children fl hs) [] (rep_children fl hs r) = Done ps"
    using build_prefix_total [of fl hs r xs "rep_children fl hs r" "length (reps hs)" "[]"] by auto
  then show ?case using Cons by auto
qed simp

text \<open>Whatever the traversal reaches from roots has a path to a root.\<close>

lemma dfs_zero: "dfs 0 key ch xs seen = Done (ts, seen') \<Longrightarrow> ts = []"
  by (induction xs) (auto split: if_split_asm)

lemma dfs_step:
  assumes "dfs (Suc n) key ch (x # xs) seen = Done (ts, seen')" "key x \<notin> set seen"
  obtains cs seen1 us where "dfs n key ch (ch x) (key x # seen) = Done (cs, seen1)"
    "dfs (Suc n) key ch xs seen1 = Done (us, seen')" "ts = Node x cs # us"
  using assms by (cases "dfs n key ch (ch x) (key x # seen)"; cases "dfs (Suc n) key ch xs (snd (case dfs n key ch (ch x) (key x # seen) of Done r \<Rightarrow> r))")
    auto

lemma dfs_reaches:
  assumes "dfs n key ch xs seen = Done (ts, seen')" "\<forall>x \<in> set xs. P x" "\<And>x c. P x \<Longrightarrow> c \<in> set (ch x) \<Longrightarrow> P c"
  shows "\<forall>x \<in> set (all_nodes ts). P x"
  using assms(1,2)
proof (induction n arbitrary: xs seen ts seen')
  case 0
  then show ?case using dfs_zero by fastforce
next
  case (Suc n)
  from Suc.prems show ?case
  proof (induction xs arbitrary: seen ts)
    case (Cons x xs)
    show ?case
    proof (cases "key x \<in> set seen")
      case True
      then show ?thesis using Cons.IH [of seen ts] Cons.prems by simp
    next
      case False
      from dfs_step [OF Cons.prems(1) False] obtain cs seen1 us where
        r: "dfs n key ch (ch x) (key x # seen) = Done (cs, seen1)" "dfs (Suc n) key ch xs seen1 = Done (us, seen')" "ts = Node x cs # us"
        by blast
      have x: "P x" using Cons.prems(2) by simp
      then have "\<forall>y \<in> set (all_nodes cs). P y" using Suc.IH [OF r(1)] assms(3) by blast
      moreover have "\<forall>y \<in> set (all_nodes us). P y" using Cons.IH [OF r(2)] Cons.prems(2) by simp
      ultimately show ?thesis using x r(3) by auto
    qed
  qed simp
qed

lemma dfs_covers:
  assumes "dfs n key ch xs seen = Done (ts, seen')"
  shows "set seen \<subseteq> set seen' \<and> key ` set xs \<subseteq> set seen' \<and> (\<forall>x \<in> set (all_nodes ts). key ` set (ch x) \<subseteq> set seen')"
  using assms
proof (induction n arbitrary: xs seen ts seen')
  case 0
  then show ?case by (induction xs) (auto split: if_split_asm)
next
  case (Suc n)
  from Suc.prems show ?case
  proof (induction xs arbitrary: seen ts)
    case (Cons x xs)
    show ?case
    proof (cases "key x \<in> set seen")
      case True
      then show ?thesis using Cons.IH [of seen ts] Cons.prems by auto
    next
      case False
      from dfs_step [OF Cons.prems(1) False] obtain cs seen1 us where
        r: "dfs n key ch (ch x) (key x # seen) = Done (cs, seen1)" "dfs (Suc n) key ch xs seen1 = Done (us, seen')" "ts = Node x cs # us"
        by blast
      have mono: "set seen1 \<subseteq> set seen'" "set seen \<subseteq> set seen1" "key x \<in> set seen1"
        using Cons.IH [OF r(2)] Suc.IH [OF r(1)] by simp_all
      have "key ` set (ch y) \<subseteq> set seen'" if y: "y \<in> set (all_nodes ts)" for y
      proof -
        consider "y = x" | "y \<in> set (all_nodes cs)" | "y \<in> set (all_nodes us)" using y r(3) by auto
        then show ?thesis using Suc.IH [OF r(1)] Cons.IH [OF r(2)] mono(1) by cases (meson subset_trans)+
      qed
      then show ?thesis using mono Cons.IH [OF r(2)] by auto
    qed
  qed simp
qed

lemma dfs_edges:
  assumes "dfs n key ch xs seen = Done (ts, seen')"
  shows "top ` set ts \<subseteq> set xs \<and> set (all_edges ts) \<subseteq> {(x, y). y \<in> set (ch x)}"
  using assms
proof (induction n arbitrary: xs seen ts seen')
  case 0
  then show ?case using dfs_zero by fastforce
next
  case (Suc n)
  from Suc.prems show ?case
  proof (induction xs arbitrary: seen ts)
    case (Cons x xs)
    show ?case
    proof (cases "key x \<in> set seen")
      case True
      then show ?thesis using Cons.IH [of seen ts] Cons.prems by auto
    next
      case False
      from dfs_step [OF Cons.prems(1) False] obtain cs seen1 us where
        r: "dfs n key ch (ch x) (key x # seen) = Done (cs, seen1)" "dfs (Suc n) key ch xs seen1 = Done (us, seen')" "ts = Node x cs # us"
        by blast
      show ?thesis using Suc.IH [OF r(1)] Cons.IH [OF r(2)] r(3) by auto
    qed
  qed simp
qed

definition rooted :: "files \<Rightarrow> HeaderInfo list \<Rightarrow> int \<Rightarrow> bool" where
  "rooted fl hs t \<longleftrightarrow> (\<exists>xs. up_path fl hs (t # xs) \<and> distinct (t # xs))"

lemma rooted_root: "t \<in> set (reps hs) \<Longrightarrow> \<not> has_rep_parent fl hs t \<Longrightarrow> rooted fl hs t"
  unfolding rooted_def by (intro exI [of _ "[]"]) simp

lemma rooted_child:
  assumes "rooted fl hs x" "c \<in> set (rep_children fl hs x)"
  shows "rooted fl hs c"
proof -
  obtain xs where xs: "up_path fl hs (x # xs)" "distinct (x # xs)" using assms(1) by (auto simp: rooted_def)
  have c: "c \<in> set (reps hs)" "has_rep_parent fl hs c" "rep_parent_raw fl c = x" using assms(2) by (simp_all add: rep_children_member)
  have "up_path fl hs (c # x # xs)" "distinct (c # x # xs)" using c xs up_path_fresh [OF xs c(2,3)] by simp_all
  then show ?thesis unfolding rooted_def by blast
qed

section \<open>The rows of the table\<close>

text \<open>
  The specification of the tree: \<open>chain ch r ds\<close> says that \<open>ds\<close> leads from \<open>r\<close> down, each element a child of the one
  before. The prefix of its last element has a corner or a tee for that element, and for every element
  above it a bar if further siblings follow and blanks if not.
\<close>

fun chain :: "(int \<Rightarrow> int list) \<Rightarrow> int \<Rightarrow> int list \<Rightarrow> bool" where
  "chain ch r [] = True"
| "chain ch r (c # ds) = (c \<in> set (ch r) \<and> chain ch c ds)"

fun chain_prefix :: "(int \<Rightarrow> int list) \<Rightarrow> int \<Rightarrow> int list \<Rightarrow> string" where
  "chain_prefix ch r [] = []"
| "chain_prefix ch r [c] = (if c = last (ch r) then corner else tee)"
| "chain_prefix ch r (c # d # ds) = (if c = last (ch r) then ''   '' else bar) @ chain_prefix ch c (d # ds)"

definition tree_below :: "(int \<Rightarrow> int list) \<Rightarrow> int \<Rightarrow> (int \<times> string) set" where
  "tree_below ch r = {(last ds, chain_prefix ch r ds) |ds. ds \<noteq> [] \<and> chain ch r ds}"

definition root_rep :: "files \<Rightarrow> HeaderInfo list \<Rightarrow> int \<Rightarrow> bool" where
  "root_rep fl hs r \<longleftrightarrow> r \<in> set (reps hs) \<and> \<not> has_rep_parent fl hs r"

definition is_orphan :: "files \<Rightarrow> HeaderInfo list \<Rightarrow> HeaderInfo \<Rightarrow> bool" where
  "is_orphan fl hs h \<longleftrightarrow> h_rep h \<noteq> 0
     \<and> (\<exists>r ds. r \<in> set (orphan_roots fl hs) \<and> chain (rep_children fl hs) r ds \<and> last (r # ds) = h_rep h)"

lemma build_prefix_step:
  assumes "build_prefix (Suc n) ch p (c # cs) = Done ps"
  obtains below rest where "build_prefix n ch (p @ (if cs = [] then ''   '' else bar)) (ch c) = Done below"
    "build_prefix (Suc n) ch p cs = Done rest" "ps = (c, p @ (if cs = [] then corner else tee)) # below @ rest"
  using assms
  by (cases "build_prefix n ch (p @ (if cs = [] then ''   '' else bar)) (ch c)"; cases "build_prefix (Suc n) ch p cs") auto

definition down :: "(int \<Rightarrow> int list) \<Rightarrow> string \<Rightarrow> int \<Rightarrow> int list \<Rightarrow> (int \<times> string) set" where
  "down ch p r cs = {(last ds, p @ chain_prefix ch r ds) |ds. ds \<noteq> [] \<and> chain ch r ds \<and> hd ds \<in> set cs}"

lemma fst_down: "fst ` down ch p r cs = {last ds |ds. ds \<noteq> [] \<and> chain ch r ds \<and> hd ds \<in> set cs}"
  unfolding down_def by force

lemma down_Nil: "down ch p r [] = {}"
  by (simp add: down_def)

lemma down_Cons:
  assumes "c \<in> set (ch r)"
  shows "down ch p r (c # cs) = insert (c, p @ (if c = last (ch r) then corner else tee))
     (down ch (p @ (if c = last (ch r) then ''   '' else bar)) c (ch c) \<union> down ch p r cs)" (is "_ = insert ?here (?below \<union> _)")
proof (intro set_eqI iffI)
  fix x assume "x \<in> down ch p r (c # cs)"
  then obtain ds where x: "x = (last ds, p @ chain_prefix ch r ds)" "ds \<noteq> []" "chain ch r ds" "hd ds \<in> set (c # cs)"
    by (auto simp: down_def)
  show "x \<in> insert ?here (?below \<union> down ch p r cs)"
  proof (cases "hd ds \<in> set cs")
    case True
    then show ?thesis using x by (auto simp: down_def)
  next
    case False
    then obtain es where ds: "ds = c # es" using x(2,4) by (cases ds) auto
    show ?thesis
    proof (cases es)
      case Nil
      then show ?thesis using ds x(1) by simp
    next
      case (Cons d es')
      then have "x \<in> ?below" using ds x unfolding down_def by (intro CollectI exI [of _ es]) auto
      then show ?thesis by blast
    qed
  qed
next
  fix x assume "x \<in> insert ?here (?below \<union> down ch p r cs)"
  then consider "x = ?here" | "x \<in> ?below" | "x \<in> down ch p r cs" by blast
  then show "x \<in> down ch p r (c # cs)"
  proof cases
    case 1
    then show ?thesis using assms unfolding down_def by (intro CollectI exI [of _ "[c]"]) auto
  next
    case 2
    then obtain ds where ds: "x = (last ds, (p @ (if c = last (ch r) then ''   '' else bar)) @ chain_prefix ch c ds)" "ds \<noteq> []" "chain ch c ds"
      by (auto simp: down_def)
    then have "x = (last (c # ds), p @ chain_prefix ch r (c # ds))" by (cases ds) simp_all
    moreover have "chain ch r (c # ds)" using assms ds(3) by simp
    ultimately show ?thesis unfolding down_def by (intro CollectI exI [of _ "c # ds"]) simp
  next
    case 3
    then show ?thesis by (auto simp: down_def)
  qed
qed

text \<open>The assignments that \<open>build_prefix\<close> makes are those of the specification.\<close>

lemma build_prefix_set:
  assumes "build_prefix n ch p cs = Done ps" "\<And>x. distinct (ch x)" "ch r = us @ cs"
  shows "set ps = down ch p r cs"
  using assms
proof (induction n ch p cs arbitrary: r us ps rule: build_prefix.induct)
  case (3 n ch p c cs)
  obtain below rest where b: "build_prefix n ch (p @ (if cs = [] then ''   '' else bar)) (ch c) = Done below"
    "build_prefix (Suc n) ch p cs = Done rest" "ps = (c, p @ (if cs = [] then corner else tee)) # below @ rest"
    using build_prefix_step [OF 3(3)] by blast
  have c: "c \<in> set (ch r)" "c = last (ch r) \<longleftrightarrow> cs = []" using 3(4) [of r] 3(5) by (auto split: if_split_asm)
  have "set below = down ch (p @ (if cs = [] then ''   '' else bar)) c (ch c)" using 3(1) [OF b(1) 3(4), of c "[]"] by simp
  moreover have "set rest = down ch p r cs" using 3(2) [OF b(2) 3(4), of r "us @ [c]"] 3(5) by simp
  ultimately have "set ps = insert (c, p @ (if cs = [] then corner else tee))
      (down ch (p @ (if cs = [] then ''   '' else bar)) c (ch c) \<union> down ch p r cs)" using b(3) by simp
  then show ?case using down_Cons [of c ch r p cs, OF c(1)] by (simp only: c(2))
qed (auto simp: down_Nil)

lemma down_children: "down ch [] r (ch r) = tree_below ch r"
proof -
  have "chain ch r ds \<and> ds \<noteq> [] \<Longrightarrow> hd ds \<in> set (ch r)" for ds by (cases ds) auto
  then show ?thesis by (auto simp: down_def tree_below_def)
qed

text \<open>A representative has one way up, so a chain is determined by its ends.\<close>

lemma up_path_unique: "up_path fl hs (t # xs) \<Longrightarrow> up_path fl hs (t # ys) \<Longrightarrow> xs = ys"
proof (induction xs arbitrary: t ys)
  case Nil
  then show ?case by (cases ys) auto
next
  case (Cons x xs)
  then show ?case by (cases ys) auto
qed

lemma chain_up:
  "up_path fl hs (r # xs) \<Longrightarrow> chain (rep_children fl hs) r ds \<Longrightarrow> up_path fl hs (rev ds @ r # xs)"
proof (induction ds arbitrary: r xs)
  case (Cons c ds)
  then have "up_path fl hs (c # r # xs)" by (simp add: rep_children_member)
  then show ?case using Cons.IH [of c "r # xs"] Cons.prems by simp
qed simp

lemma chain_ends:
  assumes "up_path fl hs (r # xs)" "chain (rep_children fl hs) r ds"
    and "up_path fl hs (r' # xs')" "chain (rep_children fl hs) r' ds'" "last (r # ds) = last (r' # ds')"
  shows "rev ds @ r # xs = rev ds' @ r' # xs'"
proof -
  have hd_last: "\<exists>ys. rev ds @ r # xs = last (r # ds) # ys" for r xs and ds :: "int list"
    by (cases ds rule: rev_cases) auto
  obtain ys ys' where "rev ds @ r # xs = last (r # ds) # ys" "rev ds' @ r' # xs' = last (r' # ds') # ys'"
    using hd_last by meson
  then show ?thesis using chain_up [OF assms(1,2)] chain_up [OF assms(3,4)] up_path_unique assms(5) by metis
qed

definition one_way :: "(int \<Rightarrow> int list) \<Rightarrow> int \<Rightarrow> bool" where
  "one_way ch r \<longleftrightarrow> (\<forall>ds ds'. chain ch r ds \<longrightarrow> chain ch r ds' \<longrightarrow> last (r # ds) = last (r # ds') \<longrightarrow> ds = ds')"

lemma one_way_rooted: "rooted fl hs r \<Longrightarrow> one_way (rep_children fl hs) r"
  unfolding one_way_def rooted_def using chain_ends [of fl hs r] by fastforce

lemma one_way_child: 
  assumes "one_way ch r" "c \<in> set (ch r)"
  shows "one_way ch c"
  unfolding one_way_def
proof (intro allI impI)
  fix ds ds' assume "chain ch c ds" "chain ch c ds'" "last (c # ds) = last (c # ds')"
  then have "c # ds = c # ds'" using assms by (intro assms(1) [unfolded one_way_def, rule_format]) simp_all
  then show "ds = ds'" by simp
qed

lemma distinct_children: "distinct (rep_children fl hs x)"
  by (simp add: rep_children_def reps_def)

lemma build_prefix_distinct:
  assumes "build_prefix n ch p cs = Done ps" "\<And>x. distinct (ch x)" "ch r = us @ cs" "one_way ch r"
  shows "distinct (map fst ps)"
  using assms
proof (induction n ch p cs arbitrary: r us ps rule: build_prefix.induct)
  case (3 n ch p c cs)
  obtain below rest where b: "build_prefix n ch (p @ (if cs = [] then ''   '' else bar)) (ch c) = Done below"
    "build_prefix (Suc n) ch p cs = Done rest" "ps = (c, p @ (if cs = [] then corner else tee)) # below @ rest"
    using build_prefix_step [OF 3(3)] by blast
  have c: "c \<in> set (ch r)" "c \<notin> set cs" using 3(4) [of r] 3(5) by auto
  have one: "one_way ch c" using one_way_child [OF 3(6) c(1)] .
  have dist: "distinct (map fst below)" "distinct (map fst rest)"
    using 3(1) [OF b(1) 3(4), of c "[]"] 3(2) [OF b(2) 3(4), of r "us @ [c]"] 3(5,6) one by simp_all
  have sets: "fst ` set below = {last ds |ds. ds \<noteq> [] \<and> chain ch c ds \<and> hd ds \<in> set (ch c)}"
    "fst ` set rest = {last ds |ds. ds \<noteq> [] \<and> chain ch r ds \<and> hd ds \<in> set cs}"
    using build_prefix_set [OF b(1) 3(4), of c "[]"] build_prefix_set [OF b(2) 3(4), of r "us @ [c]"] 3(5)
    by (simp_all add: fst_down)
  have same: "ds = ds'" if "chain ch r ds" "chain ch r ds'" "last ds = last ds'" "ds \<noteq> []" "ds' \<noteq> []" for ds ds'
    using 3(6) [unfolded one_way_def, rule_format, OF that(1,2)] that(3-5) by simp
  have "c \<notin> fst ` set below"
    using same [of "[c]" "c # _"] c(1) unfolding sets(1) by fastforce
  moreover have "c \<notin> fst ` set rest"
  proof
    assume "c \<in> fst ` set rest"
    then obtain ds where ds: "last ds = c" "ds \<noteq> []" "chain ch r ds" "hd ds \<in> set cs" unfolding sets(2) by blast
    have "ds = [c]" by (rule same) (use ds c(1) in simp_all)
    then show False using ds(4) c(2) by simp
  qed
  moreover have "fst ` set below \<inter> fst ` set rest = {}"
    using same [of "c # _"] c unfolding sets by fastforce
  ultimately show ?case using dist b(3) by auto
qed auto

lemma build_prefix_tree:
  assumes "rooted fl hs r"
  shows "\<exists>ps. build_prefix (length (reps hs)) (rep_children fl hs) [] (rep_children fl hs r) = Done ps
     \<and> distinct ps \<and> set ps = tree_below (rep_children fl hs) r"
proof -
  obtain xs where "up_path fl hs (r # xs)" "distinct (r # xs)" using assms by (auto simp: rooted_def)
  then obtain ps where ps: "build_prefix (length (reps hs)) (rep_children fl hs) [] (rep_children fl hs r) = Done ps"
    using build_prefix_total [of fl hs r xs "rep_children fl hs r" "length (reps hs)" "[]"] by auto
  have "distinct (map fst ps)" using build_prefix_distinct [OF ps distinct_children, of r "[]"] one_way_rooted [OF assms] by simp
  moreover have "set ps = tree_below (rep_children fl hs) r"
    using build_prefix_set [OF ps distinct_children, of r "[]"] down_children by simp
  ultimately show ?thesis using ps by (simp add: distinct_map)
qed

text \<open>The roots that \<open>rep_prefix\<close> is filled from.\<close>

lemma root_prefixes_tree:
  assumes "\<forall>r \<in> set rs. root_rep fl hs r"
  shows "\<exists>ps. root_prefixes (length (reps hs)) (rep_children fl hs) rs = Done ps
     \<and> set ps = (\<Union>r \<in> set rs. tree_below (rep_children fl hs) r)"
  using assms
proof (induction rs)
  case (Cons r rs)
  have "rooted fl hs r" using Cons.prems by (auto simp: root_rep_def intro: rooted_root)
  then obtain ps where "build_prefix (length (reps hs)) (rep_children fl hs) [] (rep_children fl hs r) = Done ps"
    "set ps = tree_below (rep_children fl hs) r" using build_prefix_tree by blast
  then show ?case using Cons by auto
qed simp

lemma root_prefix_unique:
  assumes "root_rep fl hs r" "(t, p) \<in> tree_below (rep_children fl hs) r"
    and "root_rep fl hs r'" "(t, p') \<in> tree_below (rep_children fl hs) r'"
  shows "p = p'"
proof -
  obtain ds ds' where ds: "t = last ds" "p = chain_prefix (rep_children fl hs) r ds" "ds \<noteq> []" "chain (rep_children fl hs) r ds"
    "t = last ds'" "p' = chain_prefix (rep_children fl hs) r' ds'" "ds' \<noteq> []" "chain (rep_children fl hs) r' ds'"
    using assms(2,4) unfolding tree_below_def by blast
  have "up_path fl hs [r]" "up_path fl hs [r']" using assms(1,3) by (simp_all add: root_rep_def)
  then have "rev ds @ [r] = rev ds' @ [r']" using chain_ends [of fl hs r "[]" ds r' "[]" ds'] ds by simp
  then show ?thesis using ds by simp
qed

lemma map_of_functional:
  assumes "\<And>a b b'. (a, b) \<in> set ps \<Longrightarrow> (a, b') \<in> set ps \<Longrightarrow> b = b'"
  shows "map_of ps a = Some b \<longleftrightarrow> (a, b) \<in> set ps"
proof
  assume "(a, b) \<in> set ps"
  then obtain b' where "map_of ps a = Some b'" by (metis map_of_SomeD weak_map_of_SomeI)
  then show "map_of ps a = Some b" using map_of_SomeD assms \<open>(a, b) \<in> set ps\<close> by metis
qed (rule map_of_SomeD)

lemma set_rep_roots: "set (rep_roots fl hs) = {r. root_rep fl hs r}"
  by (auto simp: rep_roots_def root_rep_def)

lemma rep_prefix_exact:
  obtains ps where "root_prefixes (length (reps hs)) (rep_children fl hs) (rep_roots fl hs) = Done ps"
    "\<And>t p. map_of (rev ps) t = Some p \<longleftrightarrow> (\<exists>r. root_rep fl hs r \<and> (t, p) \<in> tree_below (rep_children fl hs) r)"
proof -
  obtain ps where ps: "root_prefixes (length (reps hs)) (rep_children fl hs) (rep_roots fl hs) = Done ps"
    "set ps = (\<Union>r \<in> set (rep_roots fl hs). tree_below (rep_children fl hs) r)"
    using root_prefixes_tree [of "rep_roots fl hs" fl hs] by (auto simp: set_rep_roots)
  have "map_of (rev ps) t = Some p \<longleftrightarrow> (t, p) \<in> set (rev ps)" for t p
    by (rule map_of_functional) (use ps(2) root_prefix_unique in \<open>auto simp: set_rep_roots\<close>)
  then show ?thesis using that [OF ps(1)] ps(2) by (auto simp: set_rep_roots)
qed

lemma chain_snoc: "chain ch r (ds @ [c]) \<longleftrightarrow> chain ch r ds \<and> c \<in> set (ch (last (r # ds)))"
  by (induction ds arbitrary: r) auto

text \<open>The set \<open>orphan_subtree\<close>: the orphan roots and all that is below them.\<close>

lemma orphan_subtree_exact:
  "\<exists>os. orphan_subtree fl hs = Done os
     \<and> set os = {last (r # ds) |r ds. r \<in> set (orphan_roots fl hs) \<and> chain (rep_children fl hs) r ds}" (is "\<exists>os. _ \<and> _ = ?below")
proof -
  have roots: "set (orphan_roots fl hs) \<subseteq> set (reps hs)" by (auto simp: orphan_roots_def)
  obtain ts seen where ts: "dfs (length (reps hs)) (\<lambda>t. t) (rep_children fl hs) (orphan_roots fl hs) [] = Done (ts, seen)"
    "set (all_nodes ts) = set seen"
    using orphan_search.search_from_start [OF roots, of "length (reps hs)" fl] card_length [of "reps hs"] by (auto simp: image_ident)
  have "\<forall>t \<in> set (all_nodes ts). t \<in> ?below"
  proof (rule dfs_reaches [OF ts(1)])
    show "\<forall>t \<in> set (orphan_roots fl hs). t \<in> ?below" by (force intro: exI [of _ "[]"])
    show "c \<in> ?below" if x: "x \<in> ?below" "c \<in> set (rep_children fl hs x)" for x c
    proof -
      obtain r ds where "x = last (r # ds)" "r \<in> set (orphan_roots fl hs)" "chain (rep_children fl hs) r ds" using x(1) by blast
      then show ?thesis using x(2) by (intro CollectI exI [of _ r] exI [of _ "ds @ [c]"]) (simp add: chain_snoc)
    qed
  qed
  moreover have "last (r # ds) \<in> set seen" if "r \<in> set (orphan_roots fl hs)" "chain (rep_children fl hs) r ds" for r ds
    using that(2)
  proof (induction ds rule: rev_induct)
    case Nil
    then show ?case using dfs_covers [OF ts(1)] that(1) by auto
  next
    case (snoc c ds)
    then have "last (r # ds) \<in> set (all_nodes ts)" "c \<in> set (rep_children fl hs (last (r # ds)))" using ts(2) by (simp_all add: chain_snoc)
    then show ?case using dfs_covers [OF ts(1)] by auto
  qed
  ultimately have "set seen = ?below" using ts(2) by blast
  then show ?thesis using ts(1) by (simp add: orphan_subtree_def)
qed

lemma orphan_rooted: "is_orphan fl hs h \<Longrightarrow> rooted fl hs (h_rep h)"
proof -
  assume "is_orphan fl hs h"
  then obtain r ds where r: "r \<in> set (orphan_roots fl hs)" "chain (rep_children fl hs) r ds" "last (r # ds) = h_rep h"
    by (auto simp: is_orphan_def)
  have "rooted fl hs r" using r(1) by (auto simp: orphan_roots_def has_rep_parent_def intro: rooted_root)
  then have "rooted fl hs (last (r # ds))" using r(2)
  proof (induction ds rule: rev_induct)
    case (snoc c ds)
    then show ?case using rooted_child [of fl hs "last (r # ds)" c] by (simp add: chain_snoc)
  qed simp
  then show ?thesis using r(3) by simp
qed

lemma orphan_rows_exact:
  assumes "\<And>h. h \<in> set os \<Longrightarrow> build_prefix n (rep_children fl hs) [] (rep_children fl hs (h_rep h)) = Done (below (h_rep h))"
  shows "orphan_rows n fl hs prefix width os
     = Done (concat (map (\<lambda>h. main_row prefix width h # map (orphan_row hs width) (below (h_rep h))) os))"
  using assms by (induction os) simp_all

text \<open>C31: The table of \<open>lsns\<close> is always completed, however the processes are related and whatever the files of
  \<open>/proc\<close> say about their parents, and its rows are determined: first a row for every header outside the
  orphan subtrees, in the order of the headers, then the orphans ordered by inode, each with its row
  and, below it, one further row for every representative in the tree under its process, with the last
  header of that representative (so that processes inside an orphan subtree are shown again under each
  of their ancestors in it). The command in the row of a header carries the tree prefix of its process
  exactly if the process lies below a root, and in a further row the prefix from the orphan down: a
  corner for a last child, a tee for another, with bars and blanks for its ancestors.\<close>

theorem lsns_table_complete:
  "\<exists>prefix below. print_table fl width hs = Done
       (map (main_row prefix width) (filter (\<lambda>h. \<not> is_orphan fl hs h) hs)
        @ concat (map (\<lambda>h. main_row prefix width h # map (orphan_row hs width) (below (h_rep h)))
                   (sort_key (\<lambda>h. ent_inum (h_e h)) (filter (is_orphan fl hs) hs))))
     \<and> (\<forall>t p. prefix t = Some p \<longleftrightarrow> (\<exists>r. root_rep fl hs r \<and> (t, p) \<in> tree_below (rep_children fl hs) r))
     \<and> (\<forall>h. is_orphan fl hs h \<longrightarrow> distinct (below (h_rep h)) \<and> set (below (h_rep h)) = tree_below (rep_children fl hs) (h_rep h))"
proof -
  obtain os where os: "orphan_subtree fl hs = Done os"
    "set os = {last (r # ds) |r ds. r \<in> set (orphan_roots fl hs) \<and> chain (rep_children fl hs) r ds}"
    using orphan_subtree_exact by blast
  have orphan: "(\<lambda>h. h_rep h \<noteq> 0 \<and> h_rep h \<in> set os) = is_orphan fl hs"
    unfolding os(2) is_orphan_def by (intro ext iffI) (auto simp del: last.simps; metis)+
  then have other: "(\<lambda>h. h_rep h = 0 \<or> h_rep h \<notin> set os) = (\<lambda>h. \<not> is_orphan fl hs h)" by (auto simp: fun_eq_iff)
  obtain ps where ps: "root_prefixes (length (reps hs)) (rep_children fl hs) (rep_roots fl hs) = Done ps"
    "\<And>t p. map_of (rev ps) t = Some p \<longleftrightarrow> (\<exists>r. root_rep fl hs r \<and> (t, p) \<in> tree_below (rep_children fl hs) r)"
    using rep_prefix_exact by blast
  let ?nodes = "\<lambda>t. build_prefix (length (reps hs)) (rep_children fl hs) [] (rep_children fl hs t)"
  define below where "below = (\<lambda>t. case ?nodes t of Done ns \<Rightarrow> ns | _ \<Rightarrow> [])"
  have nodes: "?nodes (h_rep h) = Done (below (h_rep h)) \<and> distinct (below (h_rep h))
    \<and> set (below (h_rep h)) = tree_below (rep_children fl hs) (h_rep h)" if h: "is_orphan fl hs h" for h
  proof -
    obtain ns where "?nodes (h_rep h) = Done ns" "distinct ns" "set ns = tree_below (rep_children fl hs) (h_rep h)"
      using build_prefix_tree [OF orphan_rooted [OF h]] by blast
    then show ?thesis by (simp add: below_def)
  qed
  have "orphan_rows (length (reps hs)) fl hs (map_of (rev ps)) width (sort_key (\<lambda>h. ent_inum (h_e h)) (filter (is_orphan fl hs) hs))
      = Done (concat (map (\<lambda>h. main_row (map_of (rev ps)) width h # map (orphan_row hs width) (below (h_rep h)))
                       (sort_key (\<lambda>h. ent_inum (h_e h)) (filter (is_orphan fl hs) hs))))"
    using nodes by (intro orphan_rows_exact) simp
  then have "print_table fl width hs = Done
       (map (main_row (map_of (rev ps)) width) (filter (\<lambda>h. \<not> is_orphan fl hs h) hs)
        @ concat (map (\<lambda>h. main_row (map_of (rev ps)) width h # map (orphan_row hs width) (below (h_rep h)))
                   (sort_key (\<lambda>h. ent_inum (h_e h)) (filter (is_orphan fl hs) hs))))"
    using os(1) ps(1) by (simp add: print_table_def Let_def orphan other)
  then show ?thesis using ps(2) nodes by blast
qed

text \<open>A process 7 whose parent 3 represents nothing, and its child 9: the row of 9 comes twice.\<close>

definition ex_tree :: files where
  "ex_tree p =
     (if p = ''/proc/7/status'' then Some (''Tgid: 7'' @ [NL] @ ''PPid: 3'' @ [NL])
      else if p = ''/proc/9/status'' then Some (''Tgid: 9'' @ [NL] @ ''PPid: 7'' @ [NL]) else None)"

definition ex_header :: "u64 \<Rightarrow> int \<Rightarrow> HeaderInfo" where
  "ex_header inum t = \<lparr>h_e = \<lparr>ent_type = 5, ent_inum = inum, ent_pid = of_int t, ent_uid = 0, ent_procs = 1\<rparr>,
     h_display = ''net'', h_user = ''root'', h_total = 1, h_rep = t, h_cmd = ''sh''\<rparr>"

definition ex_headers :: "HeaderInfo list" where "ex_headers = [ex_header 11 7, ex_header 12 9]"

lemma ex_tree_parents: "rep_parent_raw ex_tree 7 = 3" "rep_parent_raw ex_tree 9 = 7"
proof -
  have "read_proc_ppid_uid ex_tree 3 = \<lparr>st_ppid = 0, st_uid = 0, st_tgid = 3\<rparr>"
    "read_proc_ppid_uid ex_tree 7 = \<lparr>st_ppid = 3, st_uid = 0, st_tgid = 7\<rparr>"
    "read_proc_ppid_uid ex_tree 9 = \<lparr>st_ppid = 7, st_uid = 0, st_tgid = 9\<rparr>"
    by code_simp+
  then show "rep_parent_raw ex_tree 7 = 3" "rep_parent_raw ex_tree 9 = 7" by (simp_all add: rep_parent_raw_def)
qed

lemma ex_tree_children:
  "rep_children ex_tree ex_headers 7 = [9]" "rep_children ex_tree ex_headers 9 = []" "orphan_roots ex_tree ex_headers = [7]"
proof -
  have "reps ex_headers = [7, 9]" by (simp add: reps_def ex_headers_def ex_header_def)
  then show "rep_children ex_tree ex_headers 7 = [9]" "rep_children ex_tree ex_headers 9 = []" "orphan_roots ex_tree ex_headers = [7]"
    by (simp_all add: rep_children_def orphan_roots_def has_rep_parent_def ex_tree_parents)
qed

lemma ex_tree_below:
  "tree_below (rep_children ex_tree ex_headers) 9 = {}"
  "tree_below (rep_children ex_tree ex_headers) 7 = {(9, corner)}"
proof -
  let ?ch = "rep_children ex_tree ex_headers"
  have nine: "chain ?ch 9 ds \<longleftrightarrow> ds = []" for ds by (cases ds) (simp_all add: ex_tree_children)
  show "tree_below ?ch 9 = {}" by (simp add: tree_below_def nine)
  have "ds \<noteq> [] \<and> chain ?ch 7 ds \<longleftrightarrow> ds = [9]" for ds by (cases ds) (auto simp: ex_tree_children nine)
  then have "tree_below ?ch 7 = {(last ds, chain_prefix ?ch 7 ds) |ds. ds = [9]}" by (simp only: tree_below_def)
  then show "tree_below ?ch 7 = {(9, corner)}" by (simp add: ex_tree_children)
qed

theorem lsns_table_complete_witness: "\<exists>rows. print_table ex_tree 26 ex_headers = Done rows \<and> length rows = 3"
proof -
  let ?ch = "rep_children ex_tree ex_headers"
  obtain prefix below where t: "print_table ex_tree 26 ex_headers = Done
       (map (main_row prefix 26) (filter (\<lambda>h. \<not> is_orphan ex_tree ex_headers h) ex_headers)
        @ concat (map (\<lambda>h. main_row prefix 26 h # map (orphan_row ex_headers 26) (below (h_rep h)))
                   (sort_key (\<lambda>h. ent_inum (h_e h)) (filter (is_orphan ex_tree ex_headers) ex_headers))))"
    and b: "\<forall>h. is_orphan ex_tree ex_headers h \<longrightarrow> distinct (below (h_rep h)) \<and> set (below (h_rep h)) = tree_below ?ch (h_rep h)"
    using lsns_table_complete [of ex_tree 26 ex_headers] by blast
  have "chain ?ch 7 []" "chain ?ch 7 [9]" by (simp_all add: ex_tree_children)
  then have o: "is_orphan ex_tree ex_headers (ex_header 11 7)" "is_orphan ex_tree ex_headers (ex_header 12 9)"
    unfolding is_orphan_def ex_tree_children by (force simp: ex_header_def)+
  have "distinct (below 7)" "set (below 7) = {(9, corner)}" "below 9 = []"
    using b [rule_format, OF o(1)] b [rule_format, OF o(2)] by (simp_all add: ex_header_def ex_tree_below)
  then have "length (below 7) = 1" "below 9 = []" using distinct_card [of "below 7"] by simp_all
  then show ?thesis using t o by (simp add: ex_headers_def) (simp add: ex_header_def)
qed

section \<open>Every namespace is reported once\<close>

lemma headers_of_keys:
  assumes "headers_of sys pm es = Done hs"
  shows "map h_key hs = map ent_key (filter (\<lambda>e. ent_type e \<noteq> 9) es)"
  using assms
proof (induction es arbitrary: hs)
  case (Cons e es)
  show ?case
  proof (cases "ent_type e = 9")
    case False
    then obtain h hs' where "header_of sys pm e = Done h" "headers_of sys pm es = Done hs'" "hs = h # hs'"
      using Cons.prems by (cases "header_of sys pm e"; cases "headers_of sys pm es") auto
    moreover from this have "h_e h = e"
      by (cases "total_procs sys e") (auto simp: header_of_def split: prod.splits)
    ultimately show ?thesis using Cons.IH False by (simp add: h_key_def)
  qed (use Cons in auto)
qed simp

text \<open>What the lookup of the counters of a namespace does to the buffer.\<close>

definition overruns :: "ls_sys \<Rightarrow> ns_key \<Rightarrow> bool" where
  "overruns sys k \<longleftrightarrow>
     (case ls_counts sys of
        None \<Rightarrow> False
      | Some look \<Rightarrow> (case look k of None \<Rightarrow> False | Some ws \<Rightarrow> int (length ws) > nr_cpus (ls_files sys)))"

lemma header_of_total: "if overruns sys (ent_key e) then header_of sys pm e = Fault else (\<exists>h. header_of sys pm e = Done h)"
  by (auto simp: header_of_def total_procs_def overruns_def split: option.splits prod.splits)

lemma headers_total:
  "if \<exists>e \<in> set es. ent_type e \<noteq> 9 \<and> overruns sys (ent_key e) then headers_of sys pm es = Fault
   else (\<exists>hs. headers_of sys pm es = Done hs)"
proof (induction es)
  case (Cons e es)
  show ?case using Cons header_of_total [of sys e pm] by (auto split: if_split_asm)
qed simp

definition reported :: "ls_sys \<Rightarrow> ns_key list" where
  "reported sys = filter (\<lambda>k. fst k \<noteq> 9) (map fst (ls_entries sys))"

lemma entry_of_key: "ent_key (entry_of x) = fst x" "ent_type (entry_of x) = fst (fst x)"
  by (cases x; auto simp: entry_of_def ent_key_def split: option.splits)+

lemma all_headers_keys:
  assumes "all_headers sys = Done hs"
  shows "mset (map h_key hs) = mset (reported sys)"
proof -
  let ?es = "map entry_of (ls_entries sys)"
  have "map h_key hs = map ent_key (filter (\<lambda>e. ent_type e \<noteq> 9) (sort_key ent_inum ?es))"
    using headers_of_keys assms unfolding all_headers_def by blast
  then have "mset (map h_key hs) = image_mset ent_key (filter_mset (\<lambda>e. ent_type e \<noteq> 9) (mset ?es))" by simp
  also have "\<dots> = mset (map ent_key (filter (\<lambda>e. ent_type e \<noteq> 9) ?es))" by simp
  also have "map ent_key (filter (\<lambda>e. ent_type e \<noteq> 9) ?es) = reported sys"
    by (simp add: reported_def filter_map o_def entry_of_key)
  finally show ?thesis .
qed

lemma json_forest_exact:
  assumes "distinct (map h_key hs)"
  shows "\<exists>ts seen. json_forest fl hs = Done (ts, seen) \<and> mset (all_nodes ts) = mset hs
     \<and> set (all_edges ts) \<subseteq> {(p, c). rep_parent_raw fl (h_rep c) = h_rep p}"
proof -
  have "card (h_key ` set hs) \<le> length hs" using card_image_le [of "set hs" h_key] card_length [of hs] by simp
  then obtain ts seen where ts: "dfs (length hs) h_key (child_headers fl hs) hs [] = Done (ts, seen)"
    "h_key ` set hs \<subseteq> set seen" "distinct (map h_key (all_nodes ts))" "h_key ` set (all_nodes ts) = set seen" "set (all_nodes ts) \<subseteq> set hs"
    using json_search.search_from_start [of hs hs "length hs" fl] by auto
  have inj: "inj_on h_key (set hs)" using assms by (simp add: distinct_map)
  have "set hs \<subseteq> set (all_nodes ts)"
  proof
    fix h assume h: "h \<in> set hs"
    then have "h_key h \<in> h_key ` set (all_nodes ts)" using ts(2,4) by blast
    then obtain h' where "h' \<in> set (all_nodes ts)" "h_key h' = h_key h" by (metis imageE)
    then show "h \<in> set (all_nodes ts)" using inj_onD [OF inj] h ts(5) by blast
  qed
  then have "set (all_nodes ts) = set hs" using ts(5) by blast
  moreover have "distinct (all_nodes ts)" "distinct hs" using ts(3) assms by (simp_all only: distinct_map)
  ultimately have "mset (all_nodes ts) = mset hs" using set_eq_iff_mset_eq_distinct by blast
  moreover have "set (child_headers fl hs p) \<subseteq> {c. rep_parent_raw fl (h_rep c) = h_rep p}" for p
    by (auto simp: child_headers_def rep_to_headers_def rep_children_member split: if_split_asm)
  then have "set (all_edges ts) \<subseteq> {(p, c). rep_parent_raw fl (h_rep c) = h_rep p}"
    using dfs_edges [OF ts(1)] by blast
  ultimately show ?thesis using ts(1) by (auto simp: json_forest_def)
qed

text \<open>C30: With JSON output \<open>lsns\<close> reports every namespace that the kernel map has, other than \<open>pid_for_children\<close>,
  in exactly one object, and an object that is nested in another is of a process whose parent is the
  process of the outer one; this holds whatever the parents that \<open>/proc\<close> shows, also if they form a
  cycle. The only case in which the listing is not built is that the lookup of the counters of a
  reported namespace stores more than the buffer for them has room for, which is undefined
  behaviour; a lookup that fails, or a missing map of counters, does no harm. The keys of the kernel map
  are taken to be distinct.\<close>

theorem lsns_json_exactly_once:
  assumes "distinct (map fst (ls_entries sys))"
  shows "case all_headers sys of
       Done hs \<Rightarrow> \<exists>ts seen. json_forest (ls_files sys) hs = Done (ts, seen) \<and> mset (all_nodes ts) = mset hs
         \<and> mset (map h_key (all_nodes ts)) = mset (reported sys)
         \<and> set (all_edges ts) \<subseteq> {(p, c). rep_parent_raw (ls_files sys) (h_rep c) = h_rep p}
     | Fault \<Rightarrow> list_ex (overruns sys) (reported sys)
     | _ \<Rightarrow> False"
proof (cases "list_ex (overruns sys) (reported sys)")
  case True
  then obtain x where "x \<in> set (ls_entries sys)" "fst (fst x) \<noteq> 9" "overruns sys (fst x)"
    by (auto simp: list_ex_iff reported_def)
  then have "\<exists>e \<in> set (sort_key ent_inum (map entry_of (ls_entries sys))). ent_type e \<noteq> 9 \<and> overruns sys (ent_key e)"
    by (auto simp: entry_of_key)
  then show ?thesis using True headers_total by (simp only: all_headers_def if_True outcome.case)
next
  case False
  then have "\<not> (\<exists>e \<in> set (sort_key ent_inum (map entry_of (ls_entries sys))). ent_type e \<noteq> 9 \<and> overruns sys (ent_key e))"
    by (auto simp: list_ex_iff reported_def entry_of_key)
  then obtain hs where hs: "all_headers sys = Done hs" using headers_total unfolding all_headers_def by (metis (no_types, lifting))
  have keys: "mset (map h_key hs) = mset (reported sys)" using all_headers_keys [OF hs] .
  have "distinct (reported sys)" using assms(1) by (simp add: reported_def)
  then have "distinct (map h_key hs)" using mset_eq_imp_distinct_iff [OF keys] by simp
  then obtain ts seen where ts: "json_forest (ls_files sys) hs = Done (ts, seen)" "mset (all_nodes ts) = mset hs"
    "set (all_edges ts) \<subseteq> {(p, c). rep_parent_raw (ls_files sys) (h_rep c) = h_rep p}" using json_forest_exact by blast
  have "mset (map h_key (all_nodes ts)) = mset (reported sys)" using ts(2) keys by (simp only: mset_map)
  then show ?thesis using hs ts by auto
qed

definition ex_files :: files where
  "ex_files p =
     (if p = ''/proc/1/status'' then Some (''Tgid: 1'' @ [NL] @ ''PPid: 0'' @ [NL])
      else if p = ''/proc/7/status'' then Some (''Tgid: 7'' @ [NL] @ ''PPid: 1'' @ [NL]) else None)"

definition ex_lsns :: ls_sys where
  "ex_lsns = \<lparr>ls_files = ex_files, ls_inode = (\<lambda>p. None), ls_proc = None, ls_passwd = (\<lambda>u. Some ''root''),
     ls_entries = [((5, 4026532000), Some (7, 0, 2)), ((5, 4026531840), Some (1, 0, 90)), ((9, 4026531836), None)],
     ls_counts = Some (\<lambda>k. None)\<rparr>"

theorem lsns_json_exactly_once_witness:
  "\<exists>hs ts seen. all_headers ex_lsns = Done hs \<and> json_forest (ls_files ex_lsns) hs = Done (ts, seen)
     \<and> mset (map h_key (all_nodes ts)) = mset [(5, 4026532000), (5, 4026531840)]"
proof -
  have "distinct (map fst (ls_entries ex_lsns))" by (simp add: ex_lsns_def)
  note listed = lsns_json_exactly_once [OF this]
  have r: "reported ex_lsns = [(5, 4026532000), (5, 4026531840)]" by (simp add: reported_def ex_lsns_def)
  moreover have "\<not> list_ex (overruns ex_lsns) (reported ex_lsns)" unfolding r by (simp add: overruns_def ex_lsns_def)
  ultimately show ?thesis using listed by (cases "all_headers ex_lsns") auto
qed

section \<open>JSON strings\<close>

text \<open>A reader of JSON strings: the text up to the closing quote, and what follows.\<close>

definition unescape :: "char \<Rightarrow> char option" where
  "unescape d =
     (if d = CHR 0x22 then Some (CHR 0x22) else if d = CHR 0x5C then Some (CHR 0x5C)
      else if d = CHR ''n'' then Some NL else if d = CHR ''r'' then Some (CHR 0x0D)
      else if d = CHR ''t'' then Some (CHR 0x09) else None)"

definition put_char :: "char \<Rightarrow> (string \<times> string) option \<Rightarrow> (string \<times> string) option" where
  "put_char c r = map_option (\<lambda>(s, t). (c # s, t)) r"

function json_read :: "string \<Rightarrow> (string \<times> string) option" where
  "json_read [] = None"
| "json_read (c # s) =
     (if c = CHR 0x22 then Some ([], s)
      else if c = CHR 0x5C then
        (case s of
           [] \<Rightarrow> None
         | d # r \<Rightarrow>
             if d = CHR ''u'' then
               (if length r < 4 \<or> \<not> list_all is_hex (take 4 r) \<or> hexs_val 0 (take 4 r) \<ge> 256 then None
                else put_char (char_of (hexs_val 0 (take 4 r))) (json_read (drop 4 r)))
             else (case unescape d of None \<Rightarrow> None | Some x \<Rightarrow> put_char x (json_read r)))
      else if (of_char c :: nat) < 32 then None
      else put_char c (json_read s))"
  by pat_completeness auto

termination
  by (relation "measure length") auto

lemma json_read_escape: "json_read (escape_char c @ s) = put_char c (json_read s)"
proof -
  consider "c \<in> {CHR 0x22, CHR 0x5C, NL, CHR 0x0D, CHR 0x09}"
    | (ctl) "c \<notin> {CHR 0x22, CHR 0x5C, NL, CHR 0x0D, CHR 0x09}" "(of_char c :: nat) < 32"
    | (plain) "c \<notin> {CHR 0x22, CHR 0x5C, NL, CHR 0x0D, CHR 0x09}" "\<not> (of_char c :: nat) < 32" by blast
  then show ?thesis
  proof cases
    case 1
    then show ?thesis by (auto simp: escape_char_def unescape_def)
  next
    case ctl
    let ?n = "of_char c :: nat"
    let ?h = "''00'' @ [hex_char (?n div 16), hex_char (?n mod 16)]"
    have d: "?n div 16 < 16" "?n mod 16 < 16" using ctl(2) by auto
    have z: "is_hex CHR ''0''" "hex_val CHR ''0'' = 0" by (simp_all add: is_hex_def hex_val_def is_digit_def digit_val_def)
    have "hexs_val 0 ?h = ?n" using d z by (simp add: hex_char_simps)
    moreover have "list_all is_hex ?h" using d z by (simp add: hex_char_simps)
    moreover have "escape_char c @ s = CHR 0x5C # CHR ''u'' # ?h @ s" using ctl by (simp add: escape_char_def)
    ultimately show ?thesis using ctl(2) by simp
  next
    case plain
    then show ?thesis by (simp add: escape_char_def)
  qed
qed

text \<open>What \<open>json_escape\<close> gives for a command or user name, put between quotes, is one JSON string that reads back
  as the original, whatever characters it has.\<close>

theorem json_escape_roundtrip: "json_read (json_escape s @ CHR 0x22 # r) = Some (s, r)"
proof (induction s)
  case Nil
  then show ?case by (simp add: json_escape_def)
next
  case (Cons c s)
  have "json_escape (c # s) @ CHR 0x22 # r = escape_char c @ json_escape s @ CHR 0x22 # r" by (simp add: json_escape_def)
  then show ?case using Cons json_read_escape by (simp add: put_char_def)
qed

section \<open>Counting processors\<close>

definition range_text_cpu :: "nat \<times> nat \<Rightarrow> string" where
  "range_text_cpu ab = (case ab of (a, b) \<Rightarrow> if a = b then show_nat a else show_nat a @ ''-'' @ show_nat b)"

lemma scan_d_show:
  assumes "n < 2 ^ 31" "r = [] \<or> \<not> is_digit (hd r)"
  shows "scan_d (show_nat n @ r) = Some (int n, r)"
  using assms scan_show_nat [OF assms(2), of n] by (simp add: scan_d_def strtol10_def signed_take_bit_int_eq_self)

lemma show_nat_no_comma: "dropWhile (\<lambda>c. c \<noteq> CHR '','') (show_nat n @ r) = dropWhile (\<lambda>c. c \<noteq> CHR '','') r"
proof -
  have "\<forall>c \<in> set (show_nat n). c \<noteq> CHR '',''" using show_nat_props [of n] by (auto simp: is_digit_def)
  then show ?thesis by (simp add: dropWhile_append2)
qed

lemma count_step:
  assumes "s \<noteq> []" "scan_range s = Some (a, b) \<and> k = b - a + 1 \<or> scan_range s = None \<and> scan_d s \<noteq> None \<and> k = 1"
  shows "count_cpus s n = (case dropWhile (\<lambda>c. c \<noteq> CHR '','') s of [] \<Rightarrow> n + k | x # r \<Rightarrow> count_cpus r (n + k))"
  using assms by (subst count_cpus.simps) (auto simp: Let_def)

lemma scan_range_text:
  fixes r :: string
  assumes "a \<le> b" "b < 2 ^ 31" "c \<in> {CHR '','', NL}"
  defines "s \<equiv> range_text_cpu (a, b) @ c # r"
  shows "scan_range s = Some (int a, int b) \<and> int (b - a + 1) = int b - int a + 1
     \<or> scan_range s = None \<and> scan_d s \<noteq> None \<and> int (b - a + 1) = 1"
proof -
  have nd: "\<not> is_digit c" "c \<noteq> CHR ''-''" using assms(3) by (auto simp: is_digit_def)
  show ?thesis
  proof (cases "a = b")
    case True
    have "scan_d s = Some (int a, c # r)"
      using scan_d_show [of a "c # r"] assms(1,2) nd(1) True by (simp add: range_text_cpu_def s_def)
    then show ?thesis using nd(2) True by (simp add: scan_range_def)
  next
    case False
    have dash: "\<not> is_digit CHR ''-''" by (simp add: is_digit_def)
    have "scan_d (show_nat a @ ''-'' @ show_nat b @ c # r) = Some (int a, ''-'' @ show_nat b @ c # r)"
      using scan_d_show [of a "''-'' @ show_nat b @ c # r"] assms(1,2) dash by simp
    moreover have "scan_d (show_nat b @ c # r) = Some (int b, c # r)" using scan_d_show [of b "c # r"] assms(2) nd(1) by simp
    ultimately have "scan_range s = Some (int a, int b)"
      using False by (simp add: range_text_cpu_def scan_range_def s_def)
    then show ?thesis using assms(1) by (simp add: of_nat_diff)
  qed
qed

lemma count_one:
  assumes "a \<le> b" "b < 2 ^ 31" "c \<in> {CHR '','', NL}"
  shows "count_cpus (range_text_cpu (a, b) @ c # r) n
     = (case dropWhile (\<lambda>c. c \<noteq> CHR '','') (c # r) of [] \<Rightarrow> n + int (b - a + 1) | x # r' \<Rightarrow> count_cpus r' (n + int (b - a + 1)))"
proof -
  have dw: "dropWhile (\<lambda>c. c \<noteq> CHR '','') (range_text_cpu (a, b) @ c # r) = dropWhile (\<lambda>c. c \<noteq> CHR '','') (c # r)"
    by (simp add: range_text_cpu_def show_nat_no_comma)
  show ?thesis
    using count_step [OF _ scan_range_text [OF assms, of r], of n] unfolding dw by simp
qed

text \<open>The text of the kernel for a list of ranges: commas between them and a newline at the end.\<close>

fun cpu_list :: "(nat \<times> nat) list \<Rightarrow> string" where
  "cpu_list [] = [NL]"
| "cpu_list [x] = range_text_cpu x @ [NL]"
| "cpu_list (x # y # xs) = range_text_cpu x @ CHR '','' # cpu_list (y # xs)"

lemma count_list:
  assumes "xs \<noteq> []" "\<forall>(a, b) \<in> set xs. a \<le> b \<and> b < 2 ^ 31"
  shows "count_cpus (cpu_list xs) n = n + int (\<Sum>(a, b) \<leftarrow> xs. b - a + 1)"
  using assms
proof (induction xs arbitrary: n rule: cpu_list.induct)
  case (2 x)
  obtain a b where "x = (a, b)" by (cases x)
  then show ?case using 2 count_one [of a b NL "[]"] by simp
next
  case (3 x y xs)
  obtain a b where x: "x = (a, b)" by (cases x)
  then have "count_cpus (cpu_list (x # y # xs)) n = count_cpus (cpu_list (y # xs)) (n + int (b - a + 1))"
    using 3 count_one [of a b "CHR '',''" "cpu_list (y # xs)" n] by simp
  then show ?case using 3 x by simp
qed simp

lemma show_nat_line: "NL \<notin> set (show_nat n)"
proof
  assume "NL \<in> set (show_nat n)"
  then have "is_digit NL" using show_nat_props [of n] by blast
  then show False by (simp add: is_digit_def)
qed

lemma range_text_line: "NL \<notin> set (range_text_cpu x)"
  using show_nat_line by (auto simp: range_text_cpu_def split: prod.splits)

lemma cpu_list_line: "xs \<noteq> [] \<Longrightarrow> \<exists>l. cpu_list xs = l @ [NL] \<and> NL \<notin> set l"
proof (induction xs rule: cpu_list.induct)
  case (2 x)
  then show ?case using range_text_line [of x] by auto
next
  case (3 x y xs)
  have "NL \<notin> set (range_text_cpu x)" by (rule range_text_line)
  moreover obtain l where "cpu_list (y # xs) = l @ [NL]" "NL \<notin> set l" using 3 by auto
  ultimately have "cpu_list (x # y # xs) = (range_text_cpu x @ CHR '','' # l) @ [NL] \<and> NL \<notin> set (range_text_cpu x @ CHR '','' # l)" by simp
  then show ?case by blast
qed simp

text \<open>The number of processors that \<open>lsns\<close> reads from a list of ranges, as the kernel prints it, is the number of
  processors in the ranges, when the line fits the buffer of 256 bytes.\<close>

theorem nr_cpus_correct:
  assumes "xs \<noteq> []" "\<forall>(a, b) \<in> set xs. a \<le> b \<and> b < 2 ^ 31" "length (cpu_list xs) \<le> 255"
    and "fl ''/sys/devices/system/cpu/online'' = Some (cpu_list xs)"
  shows "nr_cpus fl = int (\<Sum>(a, b) \<leftarrow> xs. b - a + 1)"
proof -
  obtain l where l: "cpu_list xs = l @ [NL]" "NL \<notin> set l" using cpu_list_line [OF assms(1)] by blast
  have "fgets_chunks 255 [] (cpu_list xs) = [cpu_list xs]"
    using fgets_line [OF l(2), of "[]" 255 "[]"] l(1) assms(3) by simp
  moreover have "0 < (\<Sum>(a, b) \<leftarrow> xs. b - a + 1)" using assms(1) by (cases xs) (auto split: prod.splits)
  then have "\<not> int (\<Sum>(a, b) \<leftarrow> xs. b - a + 1) \<le> 0" by linarith
  ultimately show ?thesis using count_list [OF assms(1,2), of 0] assms(4)
    by (simp only: nr_cpus_def Let_def option.case list.case add_0 if_False)
qed

theorem nr_cpus_correct_witness:
  "nr_cpus (\<lambda>p. if p = ''/sys/devices/system/cpu/online'' then Some (cpu_list [(0, 3), (8, 8)]) else None) = 5"
proof -
  have "length (cpu_list [(0, 3), (8, 8)]) \<le> 255" by (simp add: range_text_cpu_def show_nat.simps)
  then show ?thesis
    using nr_cpus_correct [of "[(0, 3), (8, 8)]" "\<lambda>p. if p = ''/sys/devices/system/cpu/online'' then Some (cpu_list [(0, 3), (8, 8)]) else None"]
    by simp
qed

section \<open>Behaviour worth knowing\<close>

text \<open>
  A lookup in a per-CPU map stores eight bytes for every possible processor. The buffer has four bytes for every
  processor that is online, so the store is out of bounds even if all possible processors are online.
\<close>

definition per_cpu_words :: "u32 list \<Rightarrow> u32 list" where
  "per_cpu_words vs = concat (map (\<lambda>v. [v, 0]) vs)"

lemma per_cpu_overrun:
  assumes "ls_counts sys = Some look" "look (ent_key e) = Some (per_cpu_words vs)" "nr_cpus (ls_files sys) \<le> int (length vs)" "vs \<noteq> []"
  shows "total_procs sys e = Fault"
proof -
  have "length (per_cpu_words vs) = 2 * length vs" by (induction vs) (simp_all add: per_cpu_words_def)
  then show ?thesis using assms by (cases vs) (simp_all add: total_procs_def)
qed

text \<open>The heading of the table comes before the JSON text as well.\<close>

lemma json_after_heading:
  assumes "ls_main r sys = Done (0, out)" "ls_parse_args (lr_opts r) False = Inr True" "lr_rlimit r" "lr_skel r"
    and "lr_sigaction r" "lr_link r" "lr_iter r"
  shows "\<exists>s. out = table_header @ s"
  using assms by (cases "all_headers sys"; cases "print_json (ls_files sys) (case all_headers sys of Done hs \<Rightarrow> hs)") (auto simp: ls_main_def)

end
