(* ===== verification/Lsock.thy ===== *)
theory Lsock
  imports C_Format Inet_Text Spin_Lock
begin

unbundle bit_operations_syntax

text \<open>
  \<open>observe/lsock.cpp\<close>: the sockets of the system. The options and the filter rule, the records that the BPF
  iterators write, their text in the format of \<open>/proc/net\<close>, the buffer that puts together records which are
  split between two reads, the sockets of tasks, and \<open>main\<close>. Structures are read from their bytes at the
  offsets that the layout rules of the ABI give.
\<close>

section \<open>The rule\<close>

abbreviation SWITCH_TCP :: u32 where "SWITCH_TCP \<equiv> 0x1"
abbreviation SWITCH_UDP :: u32 where "SWITCH_UDP \<equiv> 0x2"
abbreviation SWITCH_UNX :: u32 where "SWITCH_UNX \<equiv> 0x4"
abbreviation SWITCH_IPV4 :: u32 where "SWITCH_IPV4 \<equiv> 0x100"
abbreviation SWITCH_IPV6 :: u32 where "SWITCH_IPV6 \<equiv> 0x200"
abbreviation SWITCH_ALL :: u32 where "SWITCH_ALL \<equiv> 0xFFFFFFFF"

text \<open>An IPv6 address is the list of its four words.\<close>

type_synonym in6_addr = "u32 list"

record ip_range =
  ir_start :: u32
  ir_end :: u32
  ir_start6 :: in6_addr
  ir_end6 :: in6_addr

record sock_rule =
  bit_switch :: u32
  sr_lip :: ip_range
  sr_rip :: ip_range
  sr_lport :: "u16 \<times> u16"
  sr_rport :: "u16 \<times> u16"
  sr_uid :: u32

definition in6_zero :: in6_addr where "in6_zero = [0, 0, 0, 0]"

definition ip_range_zero :: ip_range where
  "ip_range_zero = \<lparr>ir_start = 0, ir_end = 0, ir_start6 = in6_zero, ir_end6 = in6_zero\<rparr>"

definition rule_init :: sock_rule where
  "rule_init = \<lparr>bit_switch = SWITCH_ALL, sr_lip = ip_range_zero, sr_rip = ip_range_zero, sr_lport = (0, 0),
     sr_rport = (0, 0), sr_uid = 0xFFFFFFFF\<rparr>"

text \<open>\<open>inet_pton(AF_INET, ...)\<close> stores the four bytes in network order.\<close>

definition net_ip :: "nat list \<Rightarrow> u32" where
  "net_ip ds = of_nat (ds ! 0 + ds ! 1 * 2 ^ 8 + ds ! 2 * 2 ^ 16 + ds ! 3 * 2 ^ 24)"

text \<open>\<open>parse_ip_range\<close>; \<open>None\<close> is the exception. \<open>pton6\<close> is \<open>inet_pton(AF_INET6, ...)\<close>.\<close>

definition parse_ip_range :: "(string \<Rightarrow> in6_addr option) \<Rightarrow> string \<Rightarrow> (u32 \<times> ip_range) option" where
  "parse_ip_range pton6 arg =
     (if CHR ''-'' \<notin> set arg then
        (case inet_pton4 arg of
           Some ds \<Rightarrow> Some (SWITCH_IPV4, ip_range_zero\<lparr>ir_start := net_ip ds, ir_end := net_ip ds\<rparr>)
         | None \<Rightarrow>
             (case pton6 arg of
                Some a \<Rightarrow> Some (SWITCH_IPV6, ip_range_zero\<lparr>ir_start6 := a, ir_end6 := a\<rparr>)
              | None \<Rightarrow> None))
      else
        (let start_ip = takeWhile (\<lambda>c. c \<noteq> CHR ''-'') arg;
             end_ip = tl (dropWhile (\<lambda>c. c \<noteq> CHR ''-'') arg);
             r = ip_range_zero\<lparr>ir_start := (case inet_pton4 start_ip of Some ds \<Rightarrow> net_ip ds | None \<Rightarrow> 0)\<rparr>
         in case (inet_pton4 start_ip, inet_pton4 end_ip) of
              (Some ds, Some es) \<Rightarrow> Some (SWITCH_IPV4, r\<lparr>ir_end := net_ip es\<rparr>)
            | _ \<Rightarrow> (case (pton6 start_ip, pton6 end_ip) of
                      (Some a, Some b) \<Rightarrow> Some (SWITCH_IPV6, r\<lparr>ir_start6 := a, ir_end6 := b\<rparr>)
                    | _ \<Rightarrow> None)))"

text \<open>\<open>std::stoi\<close>: \<open>None\<close> if there is no number or it does not fit an \<open>int\<close>; what follows the number is ignored.\<close>

definition stoi :: "string \<Rightarrow> int option" where
  "stoi s =
     (case scan_number s of
        None \<Rightarrow> None
      | Some (neg, n, r) \<Rightarrow>
          (let v = (if neg then - int n else int n)
           in if v < - 2147483648 \<or> v > 2147483647 then None else Some v))"

definition parse_port_range :: "string \<Rightarrow> (u16 \<times> u16) option" where
  "parse_port_range arg =
     (if CHR ''-'' \<notin> set arg then (case stoi arg of Some v \<Rightarrow> Some (of_int v, of_int v) | None \<Rightarrow> None)
      else case (stoi (takeWhile (\<lambda>c. c \<noteq> CHR ''-'') arg), stoi (tl (dropWhile (\<lambda>c. c \<noteq> CHR ''-'') arg))) of
             (Some v, Some w) \<Rightarrow> Some (of_int v, of_int w)
           | _ \<Rightarrow> None)"

text \<open>The options one after the other: the rule, \<open>bit_switch\<close> and \<open>has_ip\<close>, or the exit status.\<close>

type_synonym sk_opts = "sock_rule \<times> u32 \<times> bool"

definition sk_case :: "(string \<Rightarrow> in6_addr option) \<Rightarrow> char \<Rightarrow> string \<Rightarrow> sk_opts \<Rightarrow> int + sk_opts" where
  "sk_case pton6 opt optarg st =
     (case st of (r, sw, has_ip) \<Rightarrow>
        if opt = CHR ''i'' then
          (case parse_ip_range pton6 optarg of Some (b, ir) \<Rightarrow> Inr (r\<lparr>sr_lip := ir\<rparr>, sw OR b, True) | None \<Rightarrow> Inl (- 1))
        else if opt = CHR ''I'' then
          (case parse_ip_range pton6 optarg of Some (b, ir) \<Rightarrow> Inr (r\<lparr>sr_rip := ir\<rparr>, sw OR b, True) | None \<Rightarrow> Inl (- 1))
        else if opt = CHR ''p'' then
          (case parse_port_range optarg of Some ps \<Rightarrow> Inr (r\<lparr>sr_lport := ps\<rparr>, sw, has_ip) | None \<Rightarrow> Inl (- 1))
        else if opt = CHR ''P'' then
          (case parse_port_range optarg of Some ps \<Rightarrow> Inr (r\<lparr>sr_rport := ps\<rparr>, sw, has_ip) | None \<Rightarrow> Inl (- 1))
        else if opt = CHR ''t'' then Inr (r, sw OR SWITCH_TCP, has_ip)
        else if opt = CHR ''u'' then Inr (r, sw OR SWITCH_UDP, has_ip)
        else if opt = CHR ''x'' then Inr (r, sw OR SWITCH_UNX, has_ip)
        else if opt = CHR ''4'' then Inr (r, sw OR SWITCH_IPV4, has_ip)
        else if opt = CHR ''6'' then Inr (r, sw OR SWITCH_IPV6, has_ip)
        else if opt = CHR ''l'' then Inr (r, sw, has_ip)
        else if opt = CHR ''h'' then Inl 0
        else Inl (- 1))"

fun sk_options :: "(string \<Rightarrow> in6_addr option) \<Rightarrow> (char \<times> string) list \<Rightarrow> sk_opts \<Rightarrow> int + sk_opts" where
  "sk_options pton6 [] st = Inr st"
| "sk_options pton6 ((opt, optarg) # os) st =
     (case sk_case pton6 opt optarg st of Inl c \<Rightarrow> Inl c | Inr st' \<Rightarrow> sk_options pton6 os st')"

definition sk_switches :: "u32 \<Rightarrow> u32" where
  "sk_switches b =
     (let b1 = (if b AND (SWITCH_IPV4 OR SWITCH_IPV6) = 0 then b OR (SWITCH_IPV4 OR SWITCH_IPV6) else b)
      in if b1 AND (SWITCH_IPV4 OR SWITCH_IPV6) \<noteq> 0 \<and> b1 AND (SWITCH_TCP OR SWITCH_UDP) = 0
         then b1 OR (SWITCH_TCP OR SWITCH_UDP) else b1)"

definition sk_parse_args :: "(string \<Rightarrow> in6_addr option) \<Rightarrow> (char \<times> string) list \<Rightarrow> int + sock_rule" where
  "sk_parse_args pton6 os =
     (case sk_options pton6 os (rule_init, 0, False) of
        Inl c \<Rightarrow> Inl c
      | Inr (r, sw, has_ip) \<Rightarrow>
          if sw \<noteq> 0 \<and> has_ip \<and> sw AND SWITCH_IPV4 \<noteq> 0 \<and> sw AND SWITCH_IPV6 \<noteq> 0 then Inl (- 1)
          else let r1 = (if sw \<noteq> 0 then r\<lparr>bit_switch := sw\<rparr> else r)
               in Inr (r1\<lparr>bit_switch := sk_switches (bit_switch r1)\<rparr>))"

section \<open>Records\<close>

text \<open>\<open>sizeof(BpfData)\<close> and the offsets of its fields.\<close>

abbreviation BPF_DATA_SZ :: nat where "BPF_DATA_SZ \<equiv> 136"

datatype log_type = LOG_UNIX | LOG_UDP_IPV4 | LOG_UDP_IPV6 | LOG_TCP_IPV4 | LOG_TCP_IPV6

definition log_type_of :: "bytes \<Rightarrow> log_type option" where
  "log_type_of b =
     (let t = u32_at b 52
      in if t = 0 then Some LOG_UNIX else if t = 1 then Some LOG_UDP_IPV4 else if t = 2 then Some LOG_UDP_IPV6
         else if t = 3 then Some LOG_TCP_IPV4 else if t = 4 then Some LOG_TCP_IPV6 else None)"

definition titles :: "log_type \<Rightarrow> string" where
  "titles t =
     (case t of
        LOG_UNIX \<Rightarrow> ''Num               RefCount Protocol Flags    Type St    Inode Path''
      | LOG_TCP_IPV4 \<Rightarrow> ''  sl  local_address rem_address   st tx_queue rx_queue tr tm->when retrnsmt   uid  timeout inode''
      | LOG_TCP_IPV6 \<Rightarrow> ''  sl  local_address                         remote_address                        '' @
          ''st tx_queue rx_queue tr tm->when retrnsmt   uid  timeout inode''
      | LOG_UDP_IPV4 \<Rightarrow> ''   sl  local_address rem_address   st tx_queue rx_queue tr tm->when retrnsmt   uid  '' @
          ''timeout inode ref pointer drops''
      | LOG_UDP_IPV6 \<Rightarrow> ''  sl  local_address                         remote_address                        '' @
          ''st tx_queue rx_queue tr tm->when retrnsmt   uid  timeout inode ref pointer drops'')"

text \<open>
  \<open>print_log_titles\<close>: \<open>prev\<close> stands for \<open>last_log_titles\<close>. For an unknown type the null pointer is printed, unless no
  titles were printed before.
\<close>

definition print_log_titles :: "log_type option \<Rightarrow> log_type option \<Rightarrow> (string list \<times> log_type option) outcome" where
  "print_log_titles ty prev =
     (if ty = prev then Done ([], prev)
      else case ty of Some t \<Rightarrow> Done ([titles t @ [NL]], ty) | None \<Rightarrow> Fault)"

definition addr4_text :: "bytes \<Rightarrow> string" where
  "addr4_text b =
     fmt_X 8 (u32_at b 0) @ '':'' @ fmt_X 4 (u16_at b 32) @ '' '' @ fmt_X 8 (u32_at b 16) @ '':'' @ fmt_X 4 (u16_at b 34) @ '' ''"

definition addr6_text :: "bytes \<Rightarrow> string" where
  "addr6_text b =
     concat (map (\<lambda>i. fmt_X 8 (u32_at b (4 * i))) [0, 1, 2, 3]) @ '':'' @ fmt_X 4 (u16_at b 32) @ '' '' @
     concat (map (\<lambda>i. fmt_X 8 (u32_at b (16 + 4 * i))) [0, 1, 2, 3]) @ '':'' @ fmt_X 4 (u16_at b 34) @ '' ''"

definition tcp_text :: "string \<Rightarrow> bytes \<Rightarrow> string" where
  "tcp_text sk_addr b =
     fmt_X 2 (u32_at b 36) @ '' '' @ fmt_X 8 (u32_at b 40) @ '':'' @ fmt_X 8 (u32_at b 44) @ '' ''
     @ fmt_X 2 (u32_at b 48) @ '':'' @ fmt_X 8 (u64_at b 88) @ '' '' @ fmt_X 8 (u8_at b 56) @ '' ''
     @ pad_left 5 (fmt_u (u32_at b 60)) @ '' '' @ pad_left 8 (fmt_u (u8_at b 57)) @ '' '' @ fmt_u (u64_at b 96) @ '' ''
     @ fmt_d (u32_at b 128) @ '' '' @ sk_addr @ '' '' @ fmt_u (u64_at b 104) @ '' '' @ fmt_u (u64_at b 112) @ '' ''
     @ fmt_u (u32_at b 120) @ '' '' @ fmt_u (u32_at b 124) @ '' '' @ fmt_d (u32_at b 132) @ [NL]"

definition udp_text :: "string \<Rightarrow> bytes \<Rightarrow> string" where
  "udp_text sk_addr b =
     fmt_X 2 (u32_at b 36) @ '' '' @ fmt_X 8 (u32_at b 40) @ '':'' @ fmt_X 8 (u32_at b 44) @ '' 00:00000000 00000000 ''
     @ pad_left 5 (fmt_u (u32_at b 60)) @ '' '' @ pad_left 8 ''0'' @ '' '' @ fmt_u (u64_at b 96) @ '' ''
     @ fmt_d (u32_at b 128) @ '' '' @ sk_addr @ '' '' @ fmt_u (u64_at b 104) @ [NL]"

text \<open>The path of a Unix socket: every NUL but the last byte is shown as \<open>@\<close>.\<close>

definition unix_path :: "nat \<Rightarrow> bytes \<Rightarrow> string option" where
  "unix_path plen b =
     (if plen = 0 then Some []
      else cstr_at (map (\<lambda>x. if x = 0 then 64 else x) (bytes_at b BPF_DATA_SZ (plen - 1)) @ drop (BPF_DATA_SZ + (plen - 1)) b) 0)"

definition unix_text :: "string \<Rightarrow> string \<Rightarrow> bytes \<Rightarrow> string" where
  "unix_text sk_addr path b =
     sk_addr @ '': '' @ fmt_X 8 (u32_at b 128) @ '' 00000000 '' @ fmt_X 8 (u32_at b 120) @ '' '' @ fmt_X 4 (u16_at b 48) @ '' ''
     @ fmt_X 2 (u32_at b 36) @ '' '' @ pad_left 8 (fmt_u (u64_at b 96)) @ '' '' @ path @ [NL]"

text \<open>
  \<open>dump_log\<close>: \<open>b\<close> are the bytes that are left, from the record on. The size of the record and its line, if any.
  Reading a string past the bytes, and a negative length of a path, are faults.
\<close>

definition dump_record :: "log_type option \<Rightarrow> bytes \<Rightarrow> (nat \<times> string list) outcome" where
  "dump_record ty b =
     (case ty of
        None \<Rightarrow> Done (0, [])
      | Some t \<Rightarrow>
          (case (t, cstr_at b 64) of
             (LOG_UNIX, s) \<Rightarrow>
               (let plen = sint (u32_at b 132)
                in if plen < - int BPF_DATA_SZ then Done (0, [])
                   else if plen < 0 then Fault
                   else if BPF_DATA_SZ + nat plen > length b then Done (0, [])
                   else case (s, unix_path (nat plen) b) of
                          (Some sk, Some path) \<Rightarrow> Done (BPF_DATA_SZ + nat plen, [unix_text sk path b])
                        | _ \<Rightarrow> Fault)
           | (_, None) \<Rightarrow> Fault
           | (LOG_TCP_IPV4, Some sk) \<Rightarrow> Done (BPF_DATA_SZ, [''   0: '' @ addr4_text b @ tcp_text sk b])
           | (LOG_TCP_IPV6, Some sk) \<Rightarrow> Done (BPF_DATA_SZ, [''   0: '' @ addr6_text b @ tcp_text sk b])
           | (LOG_UDP_IPV4, Some sk) \<Rightarrow> Done (BPF_DATA_SZ, [''    0: '' @ addr4_text b @ udp_text sk b])
           | (LOG_UDP_IPV6, Some sk) \<Rightarrow> Done (BPF_DATA_SZ, [''    0: '' @ addr6_text b @ udp_text sk b])))"

definition dump_log :: "bytes \<Rightarrow> log_type option \<Rightarrow> (nat \<times> string list \<times> log_type option) outcome" where
  "dump_log b prev =
     bind_outcome (print_log_titles (log_type_of b) prev) (\<lambda>(ts, prev').
       bind_outcome (dump_record (log_type_of b) b) (\<lambda>(n, ls). Done (n, ts @ ls, prev')))"

definition align8 :: "nat \<Rightarrow> nat" where
  "align8 n = (if n mod 8 \<noteq> 0 then n + (8 - n mod 8) else n)"

text \<open>
  \<open>process_ring_buf\<close>: how many bytes are left, the lines, and the titles printed last. A record whose padding is
  not in the buffer makes \<open>bsz\<close> wrap and the loop run out of the buffer.
\<close>

function process_ring_buf :: "bytes \<Rightarrow> log_type option \<Rightarrow> (nat \<times> string list \<times> log_type option) outcome" where
  "process_ring_buf b prev =
     (if length b < BPF_DATA_SZ then Done (length b, [], prev)
      else case dump_log b prev of
        Done (llen, ls, prev') \<Rightarrow>
          if llen = 0 then Done (length b, ls, prev')
          else if align8 llen > length b then Fault
          else bind_outcome (process_ring_buf (drop (align8 llen) b) prev') (\<lambda>(left, ls', prev'').
                 Done (left, ls @ ls', prev''))
      | Blocked \<Rightarrow> Blocked | Fault \<Rightarrow> Fault | Aborted \<Rightarrow> Aborted)"
  by pat_completeness auto

termination
  by (relation "measure (\<lambda>(b, prev). length b)") (auto simp: align8_def)

declare process_ring_buf.simps [simp del]

section \<open>The buffer\<close>

text \<open>
  \<open>CircleBuf\<close>. The memory is a segment mapped twice in a row; \<open>bsz\<close> has no value until the end of the constructor.
\<close>

record circle_buf =
  cb_mem :: bytes
  cb_rdi :: nat
  cb_wri :: nat
  cb_bsz :: nat
  cb_usz :: nat

record cb_sys =
  cs_mmap :: bool
  cs_shmget :: bool
  cs_shmat1 :: bool
  cs_shmat2 :: bool
  cs_aliased :: bool

text \<open>What the destructor gives back; the size of \<open>munmap\<close> is \<open>None\<close> where it has no value.\<close>

datatype cb_call = Munmap bool "nat option" | Rmid

definition circle_delete :: "bool \<Rightarrow> nat option \<Rightarrow> bool \<Rightarrow> cb_call list" where
  "circle_delete mapped bsz has_shm = [Munmap mapped (map_option (\<lambda>n. n * 2) bsz)] @ (if has_shm then [Rmid] else [])"

definition circle_new :: "cb_sys \<Rightarrow> nat \<Rightarrow> nat \<Rightarrow> cb_call list + circle_buf" where
  "circle_new sys page_size bsz =
     (if bsz mod page_size \<noteq> 0 then Inl []
      else if \<not> cs_mmap sys then Inl (circle_delete False None False)
      else if \<not> cs_shmget sys then Inl (circle_delete True None False)
      else if \<not> cs_shmat1 sys \<or> \<not> cs_shmat2 sys \<or> \<not> cs_aliased sys then Inl (circle_delete True None True)
      else Inr \<lparr>cb_mem = replicate bsz 0, cb_rdi = 0, cb_wri = 0, cb_bsz = bsz, cb_usz = 0\<rparr>)"

definition circle_write :: "bytes \<Rightarrow> circle_buf \<Rightarrow> nat \<times> circle_buf" where
  "circle_write data cb =
     (let dsz = (if length data > cb_bsz cb \<or> cb_usz cb + length data > cb_bsz cb then cb_bsz cb - cb_usz cb else length data)
      in (dsz, cb\<lparr>cb_mem := take dsz data @ drop dsz (cb_mem cb), cb_wri := (cb_wri cb + dsz) mod cb_bsz cb, cb_usz := cb_usz cb + dsz\<rparr>))"

definition circle_read :: "nat \<Rightarrow> circle_buf \<Rightarrow> bytes \<times> circle_buf" where
  "circle_read n cb =
     (let dsz = (if cb_usz cb < n then cb_usz cb else n)
      in (take dsz (cb_mem cb), cb\<lparr>cb_rdi := (cb_rdi cb + dsz) mod cb_bsz cb, cb_usz := cb_usz cb - dsz\<rparr>))"

text \<open>
  The loop of \<open>main\<close> that reads an iterator. Data go to the start of the buffer; the records are taken from
  \<open>left\<close> bytes before its end, where the second mapping makes them continue at the start. The
  model keeps the bytes as they were read: \<open>@\<close> is put into a record that is printed, whose bytes are looked at
  again only by the wrong view that \<open>split_twice_stale\<close> describes.
\<close>

definition store_start :: "bytes \<Rightarrow> bytes \<Rightarrow> bytes" where
  "store_start d mem = d @ drop (length d) mem"

definition view :: "nat \<Rightarrow> bytes \<Rightarrow> bytes \<Rightarrow> bytes" where
  "view left mem d = drop (length mem - left) mem @ d"

fun read_iter ::
    "(int + bytes) list \<Rightarrow> bytes \<Rightarrow> nat \<Rightarrow> log_type option \<Rightarrow> (bytes \<times> string list \<times> log_type option) outcome" where
  "read_iter [] mem left prev = Blocked"
| "read_iter (Inl err # rs) mem left prev = Done (mem, [], prev)"
| "read_iter (Inr d # rs) mem left prev =
     (if d = [] then Done (mem, [], prev)
      else let mem' = store_start d mem
           in bind_outcome (process_ring_buf (view left mem' d) prev) (\<lambda>(left', ls, prev').
                bind_outcome (read_iter rs mem' left' prev') (\<lambda>(mem'', ls', prev'').
                  Done (mem'', ls @ ls', prev''))))"

section \<open>Sockets of tasks\<close>

record TaskSock =
  ts_pid :: int
  ts_fd :: u32
  ts_comm :: string
  ts_ino :: u64
  ts_family :: u32
  ts_type :: u32
  ts_protocol :: u32
  ts_state :: u32
  ts_lip :: in6_addr
  ts_rip :: in6_addr
  ts_lport :: u16
  ts_rport :: u16

abbreviation TASK_SOCK_SZ :: nat where "TASK_SOCK_SZ \<equiv> 88"

definition task_sock_of :: "bytes \<Rightarrow> TaskSock" where
  "task_sock_of b =
     \<lparr>ts_pid = sint (u32_at b 0), ts_fd = u32_at b 4, ts_comm = map byte_char (bytes_at b 8 16), ts_ino = u64_at b 24,
      ts_family = u32_at b 32, ts_type = u32_at b 36, ts_protocol = u32_at b 40, ts_state = u32_at b 44,
      ts_lip = map (\<lambda>i. u32_at b (48 + 4 * i)) [0, 1, 2, 3], ts_rip = map (\<lambda>i. u32_at b (64 + 4 * i)) [0, 1, 2, 3],
      ts_lport = u16_at b 80, ts_rport = u16_at b 82\<rparr>"

text \<open>The inner loop of \<open>get_task_sock\<close>: a rest that is shorter than a record is dropped.\<close>

function task_socks :: "bytes \<Rightarrow> TaskSock list" where
  "task_socks b = (if length b < TASK_SOCK_SZ then [] else task_sock_of b # task_socks (drop TASK_SOCK_SZ b))"
  by pat_completeness auto

termination
  by (relation "measure length") auto

declare task_socks.simps [simp del]

text \<open>The reading loop; it ends at the end of the data, at an error, or when nothing is left to read.\<close>

fun read_tasks :: "(int + bytes) list \<Rightarrow> TaskSock list outcome" where
  "read_tasks [] = Blocked"
| "read_tasks (Inl err # rs) = Done []"
| "read_tasks (Inr d # rs) =
     (if d = [] then Done [] else bind_outcome (read_tasks rs) (\<lambda>ts. Done (task_socks d @ ts)))"

text \<open>The two maps that are filled, by process and by inode.\<close>

definition task_sock_map :: "TaskSock list \<Rightarrow> int \<Rightarrow> TaskSock list" where
  "task_sock_map ts pid = filter (\<lambda>t. ts_pid t = pid) ts"

definition sock_task_map :: "TaskSock list \<Rightarrow> u64 \<Rightarrow> TaskSock list" where
  "sock_task_map ts ino = filter (\<lambda>t. ts_ino t = ino) ts"

text \<open>
  The built-in variant: each record is passed to the callback, and a value other than 0 ends the loops. The
  message has the name cut to 15 characters.
\<close>

record proc_sock_msg =
  pm_pid :: int
  pm_tgid :: int
  pm_comm :: string
  pm_sock :: TaskSock

definition parse_task_sock :: "TaskSock \<Rightarrow> proc_sock_msg" where
  "parse_task_sock t = \<lparr>pm_pid = ts_pid t, pm_tgid = ts_pid t, pm_comm = take 15 (c_text (ts_comm t)), pm_sock = t\<rparr>"

text \<open>The messages that were delivered: up to and with the first that the callback refuses.\<close>

fun deliver_tasks :: "(proc_sock_msg \<Rightarrow> int) \<Rightarrow> TaskSock list \<Rightarrow> bool \<times> proc_sock_msg list" where
  "deliver_tasks cb [] = (False, [])"
| "deliver_tasks cb (t # ts) =
     (let m = parse_task_sock t
      in if cb m \<noteq> 0 then (True, [m]) else (case deliver_tasks cb ts of (stop, ms) \<Rightarrow> (stop, m # ms)))"

fun query_tasks :: "(proc_sock_msg \<Rightarrow> int) \<Rightarrow> (int + bytes) list \<Rightarrow> proc_sock_msg list outcome" where
  "query_tasks cb [] = Blocked"
| "query_tasks cb (Inl err # rs) = Done []"
| "query_tasks cb (Inr d # rs) =
     (if d = [] then Done []
      else case deliver_tasks cb (task_socks d) of
             (True, ms) \<Rightarrow> Done ms
           | (False, ms) \<Rightarrow> bind_outcome (query_tasks cb rs) (\<lambda>ms'. Done (ms @ ms')))"

text \<open>\<open>lsock_query\<close>: the return value and the messages.\<close>

record lq_sys =
  lq_open :: bool
  lq_load :: bool
  lq_attach :: bool
  lq_iter :: bool
  lq_reads :: "(int + bytes) list"

definition lsock_query :: "lq_sys \<Rightarrow> (proc_sock_msg \<Rightarrow> int) \<Rightarrow> (int \<times> proc_sock_msg list) outcome" where
  "lsock_query sys cb =
     (if \<not> lq_open sys \<or> \<not> lq_load sys \<or> \<not> lq_attach sys then Done (- 1, [])
      else if \<not> lq_iter sys then Done (0, [])
      else bind_outcome (query_tasks cb (lq_reads sys)) (\<lambda>ms. Done (0, ms)))"

section \<open>The program\<close>

text \<open>What the calls of \<open>main\<close> give; \<open>None\<close> for an iterator that cannot be created.\<close>

record lk_sys =
  lk_pton6 :: "string \<Rightarrow> in6_addr option"
  lk_opts :: "(char \<times> string) list"
  lk_page_size :: nat
  lk_sigaction :: bool
  lk_cb :: cb_sys
  lk_open :: bool
  lk_load :: bool
  lk_attach :: bool
  lk_tasks :: "(int + bytes) list option"
  lk_filter :: bool
  lk_tcp :: "(int + bytes) list option"
  lk_udp :: "(int + bytes) list option"
  lk_unix :: "(int + bytes) list option"

text \<open>The iterators that the switches ask for, in order; \<open>None\<close> if one cannot be created.\<close>

definition sk_iters :: "lk_sys \<Rightarrow> u32 \<Rightarrow> (int + bytes) list option list" where
  "sk_iters sys sw =
     (if sw AND SWITCH_TCP \<noteq> 0 then [lk_tcp sys] else []) @ (if sw AND SWITCH_UDP \<noteq> 0 then [lk_udp sys] else [])
     @ (if sw AND SWITCH_UNX \<noteq> 0 then [lk_unix sys] else [])"

fun read_iters :: "(int + bytes) list list \<Rightarrow> bytes \<Rightarrow> log_type option \<Rightarrow> string list outcome" where
  "read_iters [] mem prev = Done []"
| "read_iters (rs # rss) mem prev =
     bind_outcome (read_iter rs mem 0 prev) (\<lambda>(mem', ls, prev').
       bind_outcome (read_iters rss mem' prev') (\<lambda>ls'. Done (ls @ ls')))"

text \<open>The exit status, the rule that the BPF programs got, and the lines.\<close>

definition lsock_main :: "lk_sys \<Rightarrow> (int \<times> sock_rule option \<times> string list) outcome" where
  "lsock_main sys =
     (case sk_parse_args (lk_pton6 sys) (lk_opts sys) of
        Inl c \<Rightarrow> Done (c, None, [])
      | Inr r \<Rightarrow>
          if \<not> lk_sigaction sys then Done (1, None, [])
          else (case circle_new (lk_cb sys) (lk_page_size sys) (lk_page_size sys * 2) of
             Inl calls \<Rightarrow> Aborted
           | Inr cb \<Rightarrow>
               if \<not> lk_open sys \<or> \<not> lk_load sys \<or> \<not> lk_attach sys then Done (- 1, None, [])
               else bind_outcome (case lk_tasks sys of None \<Rightarrow> Done [] | Some rs \<Rightarrow> read_tasks rs) (\<lambda>ts.
                 if \<not> lk_filter sys then Done (- 1, None, [])
                 else let its = sk_iters sys (bit_switch r)
                      in if None \<in> set its then Done (- 1, Some r, [])
                         else bind_outcome (read_iters (map the its) (cb_mem cb) None) (\<lambda>ls. Done (0, Some r, ls)))))"

section \<open>Reading a stream of records\<close>

text \<open>A record as the kernel writes it: a known type, terminated strings, padded to eight bytes.\<close>

definition plen_of :: "bytes \<Rightarrow> nat" where
  "plen_of b = nat (sint (u32_at b 132))"

definition sock_rec_ok :: "bytes \<Rightarrow> bool" where
  "sock_rec_ok b \<longleftrightarrow> BPF_DATA_SZ \<le> length b \<and> 0 \<in> set (bytes_at b 64 18) \<and>
     (case log_type_of b of
        None \<Rightarrow> False
      | Some LOG_UNIX \<Rightarrow> 0 \<le> sint (u32_at b 132) \<and> length b = align8 (BPF_DATA_SZ + plen_of b)
          \<and> (plen_of b > 0 \<longrightarrow> b ! (BPF_DATA_SZ + (plen_of b - 1)) = 0)
      | Some _ \<Rightarrow> length b = BPF_DATA_SZ)"

definition rec_size :: "bytes \<Rightarrow> nat" where
  "rec_size b = (if log_type_of b = Some LOG_UNIX then BPF_DATA_SZ + plen_of b else BPF_DATA_SZ)"

definition rec_line :: "bytes \<Rightarrow> string" where
  "rec_line b = (case dump_record (log_type_of b) b of Done (n, l # ls) \<Rightarrow> l | _ \<Rightarrow> [])"

text \<open>The lines of records: each one, with the titles before it when the type changes.\<close>

fun lines_of :: "bytes list \<Rightarrow> log_type option \<Rightarrow> string list" where
  "lines_of [] prev = []"
| "lines_of (b # bs) prev =
     (if log_type_of b = prev then [] else [titles (the (log_type_of b)) @ [NL]]) @ [rec_line b] @ lines_of bs (log_type_of b)"

fun type_after :: "bytes list \<Rightarrow> log_type option \<Rightarrow> log_type option" where
  "type_after [] prev = prev"
| "type_after (b # bs) prev = type_after bs (log_type_of b)"

lemma lines_of_append: "lines_of (bs @ cs) prev = lines_of bs prev @ lines_of cs (type_after bs prev)"
  by (induction bs arbitrary: prev) simp_all

lemma type_after_append: "type_after (bs @ cs) prev = type_after cs (type_after bs prev)"
  by (induction bs arbitrary: prev) simp_all

lemma align8_simps: "align8 n mod 8 = 0" "n \<le> align8 n" "align8 n < n + 8" "n mod 8 = 0 \<Longrightarrow> align8 n = n"
  unfolding align8_def by (auto simp: mod_simps) presburger+

lemma log_type_append: "56 \<le> length b \<Longrightarrow> log_type_of (b @ r) = log_type_of b"
  by (simp add: log_type_of_def)

lemma plen_append: "136 \<le> length b \<Longrightarrow> u32_at (b @ r) 132 = u32_at b 132"
  by simp

lemma unix_path_append:
  assumes "BPF_DATA_SZ + n \<le> length b" "n > 0 \<longrightarrow> b ! (BPF_DATA_SZ + (n - 1)) = 0"
  shows "unix_path n (b @ r) = unix_path n b" "unix_path n b \<noteq> None"
proof -
  let ?f = "\<lambda>b. map (\<lambda>x. if x = 0 then 64 else x) (bytes_at b BPF_DATA_SZ (n - 1)) @ drop (BPF_DATA_SZ + (n - 1)) b"
  have "unix_path n (b @ r) = unix_path n b \<and> unix_path n b \<noteq> None"
  proof (cases "n = 0")
    case True
    then show ?thesis by (simp add: unix_path_def)
  next
    case False
    have len: "BPF_DATA_SZ + (n - 1) < length b" using assms(1) False by simp
    then have "drop (BPF_DATA_SZ + (n - 1)) b = b ! (BPF_DATA_SZ + (n - 1)) # drop (Suc (BPF_DATA_SZ + (n - 1))) b"
      by (rule Cons_nth_drop_Suc [symmetric])
    then have z: "0 \<in> set (drop 0 (?f b))" using assms(2) False by simp
    have "?f (b @ r) = ?f b @ r" using len by (simp add: bytes_at_append)
    then show ?thesis using cstr_at_append [OF z, of r] cstr_at_some [OF z] False unfolding unix_path_def by simp
  qed
  then show "unix_path n (b @ r) = unix_path n b" "unix_path n b \<noteq> None" by simp_all
qed

text \<open>A whole record at the front is printed as it is alone, and its space is taken off.\<close>

lemma sk_addr_append:
  assumes "0 \<in> set (bytes_at b 64 18)"
  shows "cstr_at (b @ r) 64 = cstr_at b 64" "cstr_at b 64 \<noteq> None"
proof -
  have "0 \<in> set (drop 64 b)" using assms by (auto simp: bytes_at_def dest: in_set_takeD)
  then show "cstr_at (b @ r) 64 = cstr_at b 64" "cstr_at b 64 \<noteq> None" using cstr_at_append cstr_at_some by blast+
qed

lemma text_append:
  assumes "BPF_DATA_SZ \<le> length b"
  shows "addr4_text (b @ r) = addr4_text b" "addr6_text (b @ r) = addr6_text b" "tcp_text sk (b @ r) = tcp_text sk b"
    "udp_text sk (b @ r) = udp_text sk b" "unix_text sk path (b @ r) = unix_text sk path b"
  using assms by (simp_all add: addr4_text_def addr6_text_def tcp_text_def udp_text_def unix_text_def)

lemma dump_record_append:
  assumes "sock_rec_ok b"
  shows "dump_record (log_type_of (b @ r)) (b @ r) = Done (rec_size b, [rec_line b])" "align8 (rec_size b) = length b"
    "log_type_of (b @ r) = log_type_of b"
proof -
  have len: "BPF_DATA_SZ \<le> length b" and z: "0 \<in> set (bytes_at b 64 18)" using assms by (simp_all add: sock_rec_ok_def)
  show ty: "log_type_of (b @ r) = log_type_of b" using len by (simp add: log_type_append)
  obtain t where t: "log_type_of b = Some t" using assms by (auto simp: sock_rec_ok_def split: option.splits)
  obtain sk where sk: "cstr_at b 64 = Some sk" "cstr_at (b @ r) 64 = Some sk" using sk_addr_append(1) [OF z, of r] sk_addr_append(2) [OF z] by auto
  have "dump_record (Some t) (b @ r) = Done (rec_size b, [rec_line b]) \<and> align8 (rec_size b) = length b"
  proof (cases "t = LOG_UNIX")
    case True
    then have u: "0 \<le> sint (u32_at b 132)" "length b = align8 (BPF_DATA_SZ + plen_of b)"
      "plen_of b > 0 \<longrightarrow> b ! (BPF_DATA_SZ + (plen_of b - 1)) = 0"
      using assms t by (simp_all add: sock_rec_ok_def)
    have fits: "BPF_DATA_SZ + plen_of b \<le> length b" using u(2) align8_simps(2) by simp
    obtain path where path: "unix_path (plen_of b) b = Some path" "unix_path (plen_of b) (b @ r) = Some path"
      using unix_path_append(1) [OF fits u(3), of r] unix_path_append(2) [OF fits u(3)] by auto
    have pl: "u32_at (b @ r) 132 = u32_at b 132" using len by simp
    have "dump_record (Some LOG_UNIX) (b @ x) = Done (BPF_DATA_SZ + plen_of b, [unix_text sk path b])"
      if "cstr_at (b @ x) 64 = Some sk" "unix_path (plen_of b) (b @ x) = Some path" "u32_at (b @ x) 132 = u32_at b 132" for x
      using that u(1) fits text_append(5) [OF len]
      by (simp add: dump_record_def Let_def plen_of_def not_less)
    from this [of r] this [of "[]"] show ?thesis
      using sk path pl t True u(2) by (simp add: rec_line_def rec_size_def)
  next
    case False
    then have "length b = BPF_DATA_SZ" using assms t by (auto simp: sock_rec_ok_def split: log_type.splits)
    then show ?thesis using False sk t text_append(1-4) [OF len]
      by (cases t) (simp_all add: dump_record_def rec_line_def rec_size_def align8_def)
  qed
  then show "dump_record (log_type_of (b @ r)) (b @ r) = Done (rec_size b, [rec_line b])" "align8 (rec_size b) = length b"
    using ty t by simp_all
qed

lemma process_record:
  assumes "sock_rec_ok b"
  shows "process_ring_buf (b @ r) prev
     = bind_outcome (process_ring_buf r (log_type_of b)) (\<lambda>(left, ls, prev'). Done (left, lines_of [b] prev @ ls, prev'))"
proof -
  have len: "BPF_DATA_SZ \<le> length b" using assms by (simp add: sock_rec_ok_def)
  obtain t where t: "log_type_of b = Some t" using assms by (auto simp: sock_rec_ok_def split: option.splits)
  have "dump_log (b @ r) prev = Done (rec_size b, lines_of [b] prev, log_type_of b)"
    using dump_record_append(1,3) [OF assms, of r] t by (simp add: dump_log_def print_log_titles_def)
  moreover have "rec_size b \<noteq> 0" by (simp add: rec_size_def)
  ultimately show ?thesis using len dump_record_append(2) [OF assms]
    by (subst process_ring_buf.simps) (simp split: prod.split)
qed

text \<open>The part of a record at the end of the data is left, and only its titles may be printed already.\<close>

definition early :: "bytes \<Rightarrow> log_type option \<Rightarrow> string list" where
  "early p prev = (if length p \<ge> BPF_DATA_SZ \<and> log_type_of p \<noteq> prev then [titles (the (log_type_of p)) @ [NL]] else [])"

definition early_type :: "bytes \<Rightarrow> log_type option \<Rightarrow> log_type option" where
  "early_type p prev = (if length p \<ge> BPF_DATA_SZ then log_type_of p else prev)"

definition partial_rec :: "bytes \<Rightarrow> bool" where
  "partial_rec p \<longleftrightarrow> length p mod 8 = 0 \<and> (\<exists>s. s \<noteq> [] \<and> sock_rec_ok (p @ s))"

lemma process_partial:
  assumes "partial_rec p \<or> p = []"
  shows "process_ring_buf p prev = Done (length p, early p prev, early_type p prev)"
proof (cases "length p < BPF_DATA_SZ")
  case True
  then show ?thesis by (simp add: process_ring_buf.simps early_def early_type_def)
next
  case False
  then obtain s where s: "s \<noteq> []" "sock_rec_ok (p @ s)" "length p mod 8 = 0" using assms by (auto simp: partial_rec_def)
  have len: "BPF_DATA_SZ \<le> length p" using False by simp
  have ty: "log_type_of (p @ s) = log_type_of p" using len by (simp add: log_type_append)
  have pl: "u32_at (p @ s) 132 = u32_at p 132" using len by simp
  have ux: "log_type_of p = Some LOG_UNIX"
  proof (rule ccontr)
    assume "log_type_of p \<noteq> Some LOG_UNIX"
    then have "length (p @ s) = BPF_DATA_SZ" using s(2) ty by (auto simp: sock_rec_ok_def split: option.splits log_type.splits)
    then show False using len s(1) by (cases s) simp_all
  qed
  have u: "0 \<le> sint (u32_at p 132)" "length (p @ s) = align8 (BPF_DATA_SZ + plen_of p)"
    using s(2) ux ty pl by (simp_all add: sock_rec_ok_def plen_of_def)
  have "length p < length (p @ s)" using s(1) by simp
  moreover have "length (p @ s) mod 8 = 0" using u(2) align8_simps(1) by simp
  ultimately have "length p + 8 \<le> length (p @ s)" using s(3) by presburger
  then have "BPF_DATA_SZ + plen_of p > length p" using u(2) align8_simps(3) [of "BPF_DATA_SZ + plen_of p"] by simp
  then have "dump_record (Some LOG_UNIX) p = Done (0, [])" using u(1) by (simp add: dump_record_def Let_def plen_of_def not_less)
  then have "dump_log p prev = Done (0, early p prev, early_type p prev)"
    using ux len by (simp add: dump_log_def print_log_titles_def early_def early_type_def)
  then show ?thesis using False by (simp add: process_ring_buf.simps [of p])
qed

lemma process_records:
  assumes "\<forall>b \<in> set bs. sock_rec_ok b" "partial_rec p \<or> p = []"
  shows "process_ring_buf (concat bs @ p) prev
     = Done (length p, lines_of bs prev @ early p (type_after bs prev), early_type p (type_after bs prev))"
  using assms(1)
proof (induction bs arbitrary: prev)
  case Nil
  then show ?case using process_partial [OF assms(2)] by simp
next
  case (Cons b bs)
  then show ?case using process_record [of b "concat bs @ p" prev] by simp
qed

section \<open>Records that are split between two reads\<close>

text \<open>How many bytes of an unfinished record a prefix of length \<open>n\<close> ends with.\<close>

fun unfinished :: "bytes list \<Rightarrow> nat \<Rightarrow> nat" where
  "unfinished [] n = 0"
| "unfinished (b # bs) n = (if n < length b then n else unfinished bs (n - length b))"

lemma split_stream:
  assumes "n \<le> length (concat bs)"
  shows "\<exists>as p cs. bs = as @ cs \<and> take n (concat bs) = concat as @ p \<and> length p = unfinished bs n
     \<and> (p = [] \<or> (\<exists>c cs' s. cs = c # cs' \<and> c = p @ s \<and> s \<noteq> []))"
  using assms
proof (induction bs arbitrary: n)
  case Nil
  then show ?case by simp
next
  case (Cons b bs)
  show ?case
  proof (cases "n < length b")
    case True
    then have "take n (concat (b # bs)) = concat [] @ take n b" by simp
    moreover have "b = take n b @ drop n b" "drop n b \<noteq> []" using True by simp_all
    moreover have "length (take n b) = unfinished (b # bs) n" using True by simp
    ultimately show ?thesis by (metis append_Nil)
  next
    case False
    have "n - length b \<le> length (concat bs)" using Cons.prems by simp
    from Cons.IH [OF this] obtain as p cs where h: "bs = as @ cs" "take (n - length b) (concat bs) = concat as @ p"
      "length p = unfinished bs (n - length b)" "p = [] \<or> (\<exists>c cs' s. cs = c # cs' \<and> c = p @ s \<and> s \<noteq> [])"
      by blast
    have "take n (concat (b # bs)) = concat (b # as) @ p" using False h(2) by simp
    moreover have "b # bs = (b # as) @ cs" using h(1) by simp
    moreover have "length p = unfinished (b # bs) n" using False h(3) by simp
    ultimately show ?thesis using h(4) by blast
  qed
qed

lemma rec_length_mod: "sock_rec_ok b \<Longrightarrow> length b mod 8 = 0"
  using dump_record_append(2) [of b] align8_simps(1) by metis

lemma concat_length_mod: "\<forall>b \<in> set bs. sock_rec_ok b \<Longrightarrow> length (concat bs) mod 8 = 0"
proof (induction bs)
  case (Cons b bs)
  then have "length b mod 8 = 0" "length (concat bs) mod 8 = 0" using rec_length_mod by simp_all
  then show ?case by (simp add: mod_add_eq [symmetric])
qed simp

lemma early_lines:
  assumes "p = [] \<or> (\<exists>c cs' s. cs = c # cs' \<and> c = p @ s \<and> s \<noteq> [])"
  shows "early p prev @ lines_of cs (early_type p prev) = lines_of cs prev"
proof (cases "length p < BPF_DATA_SZ")
  case True
  then show ?thesis by (simp add: early_def early_type_def)
next
  case False
  then obtain c cs' s where "cs = c # cs'" "c = p @ s" using assms by auto
  moreover have "log_type_of (p @ s) = log_type_of p" using False by (simp add: log_type_append)
  ultimately show ?thesis using False by (simp add: early_def early_type_def)
qed

lemma type_after_early:
  assumes "p \<noteq> []" "\<exists>c cs' s. cs = c # cs' \<and> c = p @ s \<and> s \<noteq> []"
  shows "type_after cs x = type_after cs y"
  using assms by auto

text \<open>
  A round of reads that starts with nothing left: one read that ends with a record, or a read that fills the whole
  buffer and a second one that ends with a record.
\<close>

fun round_ok :: "nat \<Rightarrow> bytes list \<times> bytes list \<Rightarrow> bool" where
  "round_ok C (bs, [d]) = ((\<forall>b \<in> set bs. sock_rec_ok b) \<and> d = concat bs \<and> d \<noteq> [] \<and> length d \<le> C)"
| "round_ok C (bs, [d, d']) =
     ((\<forall>b \<in> set bs. sock_rec_ok b) \<and> d @ d' = concat bs \<and> d \<noteq> [] \<and> length d = C \<and> d' \<noteq> [] \<and> length d' \<le> C - unfinished bs C)"
| "round_ok C (bs, ds) = False"

lemma one_read:
  assumes "\<forall>b \<in> set bs. sock_rec_ok b" "concat bs \<noteq> []" "length (concat bs) \<le> length mem"
  shows "\<exists>mem'. length mem' = length mem \<and> read_iter (Inr (concat bs) # rs) mem 0 prev
     = bind_outcome (read_iter rs mem' 0 (type_after bs prev)) (\<lambda>(mem'', ls, t). Done (mem'', lines_of bs prev @ ls, t))"
proof -
  let ?mem = "store_start (concat bs) mem"
  have "length ?mem = length mem" using assms(3) by (simp add: store_start_def)
  moreover have "process_ring_buf (concat bs) prev = Done (0, lines_of bs prev, type_after bs prev)"
    using process_records [OF assms(1), of "[]" prev] by (simp add: early_def early_type_def)
  moreover have "view 0 ?mem (concat bs) = concat bs" by (simp add: view_def)
  ultimately show ?thesis using assms(2) by (intro exI [of _ ?mem]) (simp del: concat_eq_Nil_conv add: Let_def)
qed

lemma two_reads:
  assumes "\<forall>b \<in> set bs. sock_rec_ok b" "d @ d' = concat bs" "d \<noteq> []" "length d = length mem" "d' \<noteq> []"
    and "length d' \<le> length mem - unfinished bs (length mem)" "length mem mod 8 = 0"
  shows "\<exists>mem'. length mem' = length mem \<and> read_iter (Inr d # Inr d' # rs) mem 0 prev
     = bind_outcome (read_iter rs mem' 0 (type_after bs prev)) (\<lambda>(mem'', ls, t). Done (mem'', lines_of bs prev @ ls, t))"
proof -
  let ?C = "length mem"
  have "take ?C (concat bs) = d" using assms(2,4) by (metis append_eq_conv_conj)
  moreover have "?C \<le> length (concat bs)" using assms(2,4) by (metis length_append le_add1)
  ultimately obtain as p cs where sp: "bs = as @ cs" "d = concat as @ p" "length p = unfinished bs ?C"
    "p = [] \<or> (\<exists>c cs' s. cs = c # cs' \<and> c = p @ s \<and> s \<noteq> [])" using split_stream [of ?C bs] by auto
  have ok: "\<forall>b \<in> set as. sock_rec_ok b" "\<forall>b \<in> set cs. sock_rec_ok b" using assms(1) sp(1) by auto
  have "length (concat as) mod 8 = 0" "length d mod 8 = 0" using concat_length_mod [OF ok(1)] assms(4,7) by simp_all
  then have "length p mod 8 = 0" using sp(2) by (metis add.commute add_0 length_append mod_add_right_eq)
  then have part: "partial_rec p \<or> p = []" using sp(4) ok(2) by (auto simp: partial_rec_def)
  let ?T = "type_after as prev"
  have first: "process_ring_buf d prev = Done (length p, lines_of as prev @ early p ?T, early_type p ?T)"
    using process_records [OF ok(1) part, of prev] sp(2) by simp
  have m1: "store_start d mem = d" using assms(4) by (simp add: store_start_def)
  have le: "length d' \<le> length d - length p" using assms(4,6) sp(3) by simp
  have "drop (length d - length p) d = p" using sp(2) by simp
  moreover have "length d' + (length d - (length d' + length p)) = length d - length p" using le by simp
  ultimately have v: "view (length p) (store_start d' d) d' = p @ d'"
    using le by (simp add: view_def store_start_def add.commute)
  have "p @ d' = concat cs" using assms(2) sp(1,2) by simp
  then have second: "process_ring_buf (p @ d') (early_type p ?T) = Done (0, lines_of cs (early_type p ?T), type_after cs (early_type p ?T))"
    using process_records [OF ok(2), of "[]" "early_type p ?T"] by (simp add: early_def early_type_def)
  have lines: "lines_of as prev @ early p ?T @ lines_of cs (early_type p ?T) = lines_of bs prev"
    using early_lines [OF sp(4), of ?T] sp(1) by (simp add: lines_of_append)
  have ty: "type_after cs (early_type p ?T) = type_after bs prev"
    using sp(1,4) type_after_early [of p cs "early_type p ?T" ?T] by (cases "p = []") (auto simp: type_after_append early_type_def)
  have "read_iter (Inr d # Inr d' # rs) mem 0 prev
     = bind_outcome (read_iter rs (store_start d' d) 0 (type_after bs prev)) (\<lambda>(mem'', ls, t). Done (mem'', lines_of bs prev @ ls, t))"
    using assms(3,5) first second v m1 lines ty
    by (cases "read_iter rs (store_start d' d) 0 (type_after bs prev)") (auto simp: view_def Let_def)
  moreover have "length (store_start d' d) = ?C" using le assms(4) by (simp add: store_start_def)
  ultimately show ?thesis by blast
qed

text \<open>The bytes that were left by two reads in a row are looked for in the first one.\<close>

lemma split_twice_stale:
  assumes "length d1 = C" "length d2 = C - l1" "length d3 \<le> C - l2" "l2 \<le> l1" "l1 \<le> C"
  shows "view l2 (store_start d3 (store_start d2 d1)) d3 = drop (C - l2) d1 @ d3"
proof -
  have "length (store_start d2 d1) = C" using assms(1,2) by (simp add: store_start_def)
  moreover have "drop (C - l2) (store_start d2 d1) = drop (C - l2) d1" using assms(1,2,4,5) by (simp add: store_start_def)
  moreover have "length d3 + (C - (length d3 + l2)) = C - l2" using assms(3-5) by simp
  ultimately show ?thesis using assms(3-5)
    by (simp add: view_def store_start_def [of d3] add.commute [of l2])
qed

lemma one_round:
  assumes "round_ok (length mem) (bs, ds)" "length mem mod 8 = 0"
  shows "\<exists>mem'. length mem' = length mem \<and> read_iter (map Inr ds @ rs) mem 0 prev
     = bind_outcome (read_iter rs mem' 0 (type_after bs prev)) (\<lambda>(mem'', ls, t). Done (mem'', lines_of bs prev @ ls, t))"
  using assms(1)
proof (cases "(length mem, bs, ds)" rule: round_ok.cases)
  case (1 C bs' d)
  then have "\<forall>b \<in> set bs. sock_rec_ok b" "ds = [concat bs]" "concat bs \<noteq> []" "length (concat bs) \<le> length mem"
    using assms(1) by auto
  then show ?thesis using one_read [of bs mem rs prev] by (simp del: read_iter.simps concat_eq_Nil_conv)
next
  case (2 C bs' d d')
  then show ?thesis using assms two_reads [of bs d d' mem rs prev] by (simp del: read_iter.simps)
qed (use assms(1) in simp_all)

text \<open>C40: reading an iterator prints every record once and in order, each with the titles of its kind when the kind
  changes, also when a record is split between two reads: for every sequence of rounds, each of them one read that
  ends with a record or a read that fills the buffer followed by one that ends with a record.\<close>

theorem read_iter_prints_all:
  assumes "\<forall>r \<in> set rounds. round_ok (length mem) r" "length mem mod 8 = 0"
  shows "\<exists>mem'. length mem' = length mem \<and> read_iter (map Inr (concat (map snd rounds)) @ [Inr []]) mem 0 prev
     = Done (mem', lines_of (concat (map fst rounds)) prev, type_after (concat (map fst rounds)) prev)"
  using assms
proof (induction rounds arbitrary: mem prev)
  case Nil
  then show ?case by simp
next
  case (Cons r rounds)
  obtain bs ds where r: "r = (bs, ds)" by (cases r)
  let ?rest = "map Inr (concat (map snd rounds)) @ [Inr []]"
  have "round_ok (length mem) (bs, ds)" using Cons.prems(1) r by simp
  from one_round [OF this Cons.prems(2), of ?rest prev]
  obtain mem1 where m1: "length mem1 = length mem" "read_iter (map Inr ds @ ?rest) mem 0 prev
     = bind_outcome (read_iter ?rest mem1 0 (type_after bs prev)) (\<lambda>(mem'', ls, t). Done (mem'', lines_of bs prev @ ls, t))"
    by blast
  have "\<forall>r \<in> set rounds. round_ok (length mem1) r" "length mem1 mod 8 = 0" using Cons.prems m1(1) by simp_all
  from Cons.IH [OF this, of "type_after bs prev"] obtain mem2 where "length mem2 = length mem1"
    "read_iter ?rest mem1 0 (type_after bs prev) = Done (mem2, lines_of (concat (map fst rounds)) (type_after bs prev),
       type_after (concat (map fst rounds)) (type_after bs prev))"
    by blast
  with m1 show ?case by (intro exI [of _ mem2]) (simp add: r lines_of_append type_after_append)
qed

text \<open>Two Unix records of 152 bytes; the first read ends inside the second.\<close>

definition ex_unix :: bytes where
  "ex_unix = replicate 132 0 @ [10, 0, 0, 0, 47, 116, 109, 112, 47, 115, 111, 99, 107, 0, 0, 0, 0, 0, 0, 0]"

lemma ex_unix_ok: "sock_rec_ok ex_unix" "length ex_unix = 152" "ex_unix \<noteq> []"
  by code_simp+

theorem read_iter_prints_all_witness:
  "\<exists>mem'. length mem' = 160 \<and> read_iter [Inr (ex_unix @ take 8 ex_unix), Inr (drop 8 ex_unix), Inr []] (replicate 160 0) 0 None
     = Done (mem', lines_of [ex_unix, ex_unix] None, Some LOG_UNIX)"
proof -
  let ?rounds = "[([ex_unix, ex_unix], [ex_unix @ take 8 ex_unix, drop 8 ex_unix])]"
  have "\<forall>r \<in> set ?rounds. round_ok (length (replicate 160 (0::u8))) r" using ex_unix_ok by simp
  moreover have "log_type_of ex_unix = Some LOG_UNIX" by code_simp
  ultimately show ?thesis using read_iter_prints_all [of ?rounds "replicate 160 0" None] ex_unix_ok(2)
    by (simp del: read_iter.simps lines_of.simps)
qed

section \<open>The switches\<close>

text \<open>an accepted command line asks for at least one address family and one of the two Internet protocols.\<close>

theorem sk_parse_args_switches:
  assumes "sk_parse_args pton6 os = Inr r"
  shows "bit_switch r AND (SWITCH_IPV4 OR SWITCH_IPV6) \<noteq> 0 \<and> bit_switch r AND (SWITCH_TCP OR SWITCH_UDP) \<noteq> 0"
proof -
  obtain b where "bit_switch r = sk_switches b"
    using assms by (auto simp: sk_parse_args_def Let_def split: sum.splits if_splits)
  moreover have "sk_switches b AND (SWITCH_IPV4 OR SWITCH_IPV6) \<noteq> 0 \<and> sk_switches b AND (SWITCH_TCP OR SWITCH_UDP) \<noteq> 0"
    by (auto simp: sk_switches_def Let_def bit.conj_disj_distrib2)
  ultimately show ?thesis by simp
qed

theorem sk_parse_args_switches_witness:
  "\<exists>r. sk_parse_args (\<lambda>s. None) [(CHR ''6'', [])] = Inr r
     \<and> bit_switch r AND (SWITCH_IPV4 OR SWITCH_IPV6) \<noteq> 0 \<and> bit_switch r AND (SWITCH_TCP OR SWITCH_UDP) \<noteq> 0"
proof -
  have "sk_parse_args (\<lambda>s. None) [(CHR ''6'', [])] = Inr (rule_init\<lparr>bit_switch := 0x203\<rparr>)"
    by (simp add: sk_parse_args_def sk_case_def sk_switches_def)
  from sk_parse_args_switches [OF this] this show ?thesis by blast
qed

text \<open>So \<open>-x\<close>, which asks for Unix sockets, lists the TCP and UDP sockets as well.\<close>

lemma unix_only_lists_all:
  "sk_parse_args pton6 [(CHR ''x'', [])] = Inr (rule_init\<lparr>bit_switch := SWITCH_UNX OR 0x303\<rparr>)"
  "sk_iters sys (SWITCH_UNX OR 0x303) = [lk_tcp sys, lk_udp sys, lk_unix sys]"
  by (simp_all add: sk_parse_args_def sk_case_def sk_switches_def sk_iters_def)

text \<open>\<open>-l\<close>, which the help describes as a filter, has no effect.\<close>

lemma listen_ignored: "sk_options pton6 ((CHR ''l'', a) # os) st = sk_options pton6 os st"
  by (cases st) (simp add: sk_case_def)

text \<open>Ports are cut to 16 bits without a check.\<close>

lemma port_wraps:
  assumes "n \<le> 2147483647"
  shows "parse_port_range (show_nat n) = Some (of_nat n, of_nat n)"
proof -
  have "CHR ''-'' \<notin> set (show_nat n)" using show_nat_props [of n] by (auto simp: is_digit_def)
  then show ?thesis using assms scan_show_nat [of "[]" n] by (simp add: parse_port_range_def stoi_def)
qed

section \<open>The sockets of tasks\<close>

lemma task_sock_of_append: "TASK_SOCK_SZ \<le> length b \<Longrightarrow> task_sock_of (b @ r) = task_sock_of b"
  by (simp add: task_sock_of_def bytes_at_append)

lemma task_socks_records:
  assumes "\<forall>b \<in> set bs. length b = TASK_SOCK_SZ" "length r < TASK_SOCK_SZ"
  shows "task_socks (concat bs @ r) = map task_sock_of bs"
  using assms(1)
proof (induction bs)
  case Nil
  then show ?case using assms(2) by (simp add: task_socks.simps)
next
  case (Cons b bs)
  then show ?case using task_sock_of_append [of b "concat bs @ r"] by (simp add: task_socks.simps [of "b @ _"])
qed

text \<open>Reads that end with a record give every record, in order.\<close>

lemma read_tasks_all:
  assumes "\<forall>bs \<in> set bss. bs \<noteq> [] \<and> (\<forall>b \<in> set bs. length b = TASK_SOCK_SZ)"
  shows "read_tasks (map (Inr \<circ> concat) bss @ [Inr []]) = Done (map task_sock_of (concat bss))"
  using assms
proof (induction bss)
  case (Cons bs bss)
  then have "concat bs \<noteq> []" by (cases bs) auto
  moreover have "task_socks (concat bs) = map task_sock_of bs" using Cons.prems task_socks_records [of bs "[]"] by simp
  ultimately show ?case using Cons by (simp del: concat_eq_Nil_conv)
qed simp

text \<open>
  But the reads have 256 bytes and a record has 88: a third record is split, its first 80 bytes are dropped with
  the first read, and the rest is not long enough for a record.
\<close>

lemma read_tasks_loses_third:
  assumes "length a = TASK_SOCK_SZ" "length b = TASK_SOCK_SZ" "length c = TASK_SOCK_SZ"
  shows "read_tasks [Inr (take 256 (a @ b @ c)), Inr (drop 256 (a @ b @ c)), Inr []] = Done [task_sock_of a, task_sock_of b]"
proof -
  have "take 256 (a @ b @ c) = concat [a, b] @ take 80 c" using assms by simp
  moreover have "task_socks (concat [a, b] @ take 80 c) = [task_sock_of a, task_sock_of b]"
    using assms task_socks_records [of "[a, b]" "take 80 c"] by simp
  moreover have "drop 256 (a @ b @ c) = drop 80 c" using assms by simp
  moreover have "task_socks (drop 80 c) = []" using assms by (simp add: task_socks.simps)
  moreover have "a \<noteq> []" "drop 80 c \<noteq> []" using assms by auto
  ultimately show ?thesis by simp
qed

text \<open>
  The query of the library: the callback gets the messages in order up to the first that it refuses, and the
  result is 0 although the iterator could not be created.
\<close>

lemma deliver_tasks_spec:
  "deliver_tasks cb ts =
     (let ms = map parse_task_sock ts; k = length (takeWhile (\<lambda>m. cb m = 0) ms) in (k < length ms, take (Suc k) ms))"
  by (induction ts) (auto simp: Let_def)

lemma query_whole_stream:
  assumes "\<forall>b \<in> set bs. length b = TASK_SOCK_SZ" "bs \<noteq> []" "lq_open sys" "lq_load sys" "lq_attach sys" "lq_iter sys"
    and "lq_reads sys = [Inr (concat bs), Inr []]"
  shows "lsock_query sys cb = Done (0, (let ms = map parse_task_sock (map task_sock_of bs)
     in take (Suc (length (takeWhile (\<lambda>m. cb m = 0) ms))) ms))"
proof -
  have "concat bs \<noteq> []" using assms(1,2) by (cases bs) auto
  moreover have "task_socks (concat bs) = map task_sock_of bs" using task_socks_records [OF assms(1), of "[]"] by simp
  ultimately show ?thesis using assms(3-7)
    by (simp add: lsock_query_def deliver_tasks_spec Let_def del: concat_eq_Nil_conv split: bool.split)
qed

lemma query_no_iterator: "lq_open sys \<Longrightarrow> lq_load sys \<Longrightarrow> lq_attach sys \<Longrightarrow> \<not> lq_iter sys \<Longrightarrow> lsock_query sys cb = Done (0, [])"
  by (simp add: lsock_query_def)

section \<open>The buffer's own operations\<close>

text \<open>A failed construction gives back a mapping whose size has no value.\<close>

lemma circle_new_failure:
  "page \<noteq> 0 \<Longrightarrow> \<not> cs_mmap sys \<Longrightarrow> circle_new sys page (page * 2) = Inl [Munmap False None]"
  "page \<noteq> 0 \<Longrightarrow> cs_mmap sys \<Longrightarrow> cs_shmget sys \<Longrightarrow> \<not> cs_shmat1 sys \<Longrightarrow> circle_new sys page (page * 2) = Inl [Munmap True None, Rmid]"
  by (simp_all add: circle_new_def circle_delete_def)

text \<open>Every operation keeps the number of used bytes within the buffer and the indices inside it.\<close>

definition circle_ok :: "circle_buf \<Rightarrow> bool" where
  "circle_ok cb \<longleftrightarrow> length (cb_mem cb) = cb_bsz cb \<and> cb_bsz cb > 0 \<and> cb_usz cb \<le> cb_bsz cb \<and> cb_rdi cb < cb_bsz cb \<and> cb_wri cb < cb_bsz cb"

lemma circle_ok_kept:
  "circle_new sys page n = Inr cb \<Longrightarrow> n > 0 \<Longrightarrow> circle_ok cb"
  "circle_ok cb \<Longrightarrow> circle_ok (snd (circle_write data cb))"
  "circle_ok cb \<Longrightarrow> circle_ok (snd (circle_read n cb))"
  by (auto simp: circle_ok_def circle_new_def circle_write_def circle_read_def Let_def split: if_splits)

text \<open>The indices are not used: a second write overwrites the first, and a second read gives the same bytes again.\<close>

lemma circle_overwrites:
  assumes "length a = n" "length b = n" "2 * n \<le> cb_bsz cb" "cb_usz cb = 0"
  shows "fst (circle_read n (snd (circle_write b (snd (circle_write a cb))))) = b"
  using assms by (simp add: circle_write_def circle_read_def)

end
