(* ===== verification/Watch_Tool.thy ===== *)
theory Watch_Tool
  imports C_Format Tc_Common Spin_Lock
begin

text \<open>
  What the observers that the library starts and stops have in common (\<open>observe/mountsnoop.cpp\<close>,
  \<open>observe/trace-file.cpp\<close>, \<open>observe/irqsnoop.cpp\<close>): a BPF object, a ring buffer on one of its maps and a thread
  that polls it, in static pointers; a function that sets them up and one that takes them down. The locale
  \<open>watch_tool\<close> states what a client relies on.
\<close>

section \<open>State\<close>

datatype watch_res = SkelObj | Ring | Worker

text \<open>The static pointers (not null?), the flag that ends the thread, and what was taken and given back.\<close>

record watch_state =
  w_obj :: bool
  w_rb :: bool
  w_thread :: bool
  w_exit :: bool
  w_log :: "watch_res res_event list"

definition watch_start :: watch_state where
  "watch_start = \<lparr>w_obj = False, w_rb = False, w_thread = False, w_exit = False, w_log = []\<rparr>"

text \<open>How a call ends: it returns, the process ends, or an exception leaves it in the state that was reached.\<close>

datatype 's watch_result = Returns int 's | Exits int | Throws 's

text \<open>
  \<open>new (std::nothrow) std::thread(f)\<close>: a null pointer if there is no memory for the object, but an exception if the
  thread cannot be started, since the constructor of \<open>std::thread\<close> throws \<open>std::system_error\<close>.
\<close>

datatype thread_try = ThreadRuns | NoMemory | ThreadThrows

text \<open>An exception that \<open>main\<close> does not catch ends the process with \<open>std::terminate\<close>.\<close>

definition uncaught :: "'s watch_result outcome \<Rightarrow> 's watch_result outcome" where
  "uncaught r = bind_outcome r (\<lambda>x. case x of Throws st \<Rightarrow> Aborted | Returns v st \<Rightarrow> Done x | Exits c \<Rightarrow> Done x)"

definition set_obj :: "bool \<Rightarrow> watch_state \<Rightarrow> watch_state" where
  "set_obj ok st = (if ok then st\<lparr>w_obj := True, w_log := w_log st @ [Acq SkelObj]\<rparr> else st\<lparr>w_obj := False\<rparr>)"

definition set_rb :: "bool \<Rightarrow> watch_state \<Rightarrow> watch_state" where
  "set_rb ok st = (if ok then st\<lparr>w_rb := True, w_log := w_log st @ [Acq Ring]\<rparr> else st\<lparr>w_rb := False\<rparr>)"

definition set_thread :: "bool \<Rightarrow> watch_state \<Rightarrow> watch_state" where
  "set_thread ok st = (if ok then st\<lparr>w_thread := True, w_log := w_log st @ [Acq Worker]\<rparr> else st\<lparr>w_thread := False\<rparr>)"

text \<open>\<open>rb_thread->join()\<close> waits for ever while the flag of the thread is not set.\<close>

definition join_worker :: "watch_state \<Rightarrow> watch_state outcome" where
  "join_worker st =
     (if \<not> w_thread st then Done st
      else if \<not> w_exit st then Blocked
      else Done (st\<lparr>w_thread := False, w_log := w_log st @ [Rel Worker]\<rparr>))"

definition free_ring :: "watch_state \<Rightarrow> watch_state" where
  "free_ring st = (if w_rb st then st\<lparr>w_rb := False, w_log := w_log st @ [Rel Ring]\<rparr> else st)"

definition destroy_obj :: "watch_state \<Rightarrow> watch_state" where
  "destroy_obj st = (if w_obj st then st\<lparr>w_obj := False, w_log := w_log st @ [Rel SkelObj]\<rparr> else st)"

text \<open>
  \<open>ringbuf_worker\<close>: before each turn the flag is looked at, then the ring is polled; an error other than an
  interrupt is followed by a pause. The list holds what is seen; the value is the number of pauses.
\<close>

fun poll_worker :: "(bool \<times> int) list \<Rightarrow> nat outcome" where
  "poll_worker [] = Blocked"
| "poll_worker ((exit_flag, err) # rest) =
     (if exit_flag then Done 0
      else bind_outcome (poll_worker rest) (\<lambda>n. Done (if err < 0 \<and> err \<noteq> - EINTR then n + 1 else n)))"

text \<open>The thread ends at the first turn that sees the flag, whatever the polls gave.\<close>

lemma poll_worker_ends:
  assumes "\<forall>x \<in> set before. \<not> fst x"
  shows "poll_worker (before @ (True, e) # rest) = Done (length (filter (\<lambda>(f, err). err < 0 \<and> err \<noteq> - EINTR) before))"
  using assms by (induction before) (auto split: if_splits)

section \<open>Correct use\<close>

text \<open>
  What is held after a sequence of events; \<open>None\<close> if something is taken twice, given back without being held,
  or given back while something that works on it is held: the thread uses the ring, the ring a map of the object.
\<close>

fun users_of :: "watch_res \<Rightarrow> watch_res set" where
  "users_of SkelObj = {Ring, Worker}"
| "users_of Ring = {Worker}"
| "users_of Worker = {}"

fun held_after :: "watch_res res_event list \<Rightarrow> watch_res set \<Rightarrow> watch_res set option" where
  "held_after [] H = Some H"
| "held_after (Acq r # es) H = (if r \<in> H then None else held_after es (insert r H))"
| "held_after (Rel r # es) H = (if r \<notin> H \<or> users_of r \<inter> H \<noteq> {} then None else held_after es (H - {r}))"

definition held :: "watch_state \<Rightarrow> watch_res set" where
  "held st = (if w_obj st then {SkelObj} else {}) \<union> (if w_rb st then {Ring} else {}) \<union> (if w_thread st then {Worker} else {})"

definition watch_inv :: "watch_state \<Rightarrow> bool" where
  "watch_inv st \<longleftrightarrow> held_after (w_log st) {} = Some (held st)"

definition idle :: "watch_state \<Rightarrow> bool" where
  "idle st \<longleftrightarrow> \<not> w_obj st \<and> \<not> w_rb st \<and> \<not> w_thread st"

definition watching :: "watch_state \<Rightarrow> bool" where
  "watching st \<longleftrightarrow> w_obj st \<and> w_rb st \<and> w_thread st \<and> \<not> w_exit st"

lemma held_after_append:
  "held_after (es @ fs) H = (case held_after es H of None \<Rightarrow> None | Some H' \<Rightarrow> held_after fs H')"
  by (induction es H rule: held_after.induct) auto

lemmas watch_defs = set_obj_def set_rb_def set_thread_def join_worker_def free_ring_def destroy_obj_def
  watch_inv_def held_def idle_def watching_def held_after_append

lemma taken_inv:
  "watch_inv w \<Longrightarrow> \<not> w_obj w \<Longrightarrow> watch_inv (set_obj ok w)"
  "watch_inv w \<Longrightarrow> \<not> w_rb w \<Longrightarrow> watch_inv (set_rb ok w)"
  "watch_inv w \<Longrightarrow> \<not> w_thread w \<Longrightarrow> watch_inv (set_thread ok w)"
  by (auto simp: watch_defs)

lemma taken_flags [simp]:
  "w_obj (set_obj ok w) = ok" "w_rb (set_obj ok w) = w_rb w" "w_thread (set_obj ok w) = w_thread w" "w_exit (set_obj ok w) = w_exit w"
  "w_obj (set_rb ok w) = w_obj w" "w_rb (set_rb ok w) = ok" "w_thread (set_rb ok w) = w_thread w" "w_exit (set_rb ok w) = w_exit w"
  "w_obj (set_thread ok w) = w_obj w" "w_rb (set_thread ok w) = w_rb w" "w_thread (set_thread ok w) = ok" "w_exit (set_thread ok w) = w_exit w"
  by (simp_all add: watch_defs)

lemma exit_inv [simp]: "watch_inv (w\<lparr>w_exit := x\<rparr>) = watch_inv w"
  by (simp add: watch_defs)

text \<open>Ending the thread, freeing the ring and destroying the object, in this order, is always possible.\<close>

lemma take_down_ok:
  assumes "watch_inv w"
  shows "\<exists>w'. join_worker (w\<lparr>w_exit := True\<rparr>) = Done w' \<and> watch_inv (destroy_obj (free_ring w')) \<and> idle (destroy_obj (free_ring w'))"
  using assms by (cases "w_obj w"; cases "w_rb w"; cases "w_thread w"; simp add: watch_defs)

section \<open>What a client relies on\<close>

datatype 'e watch_cmd = Start 'e | Stop

text \<open>No second start before a stop.\<close>

fun alternates :: "bool \<Rightarrow> 'e watch_cmd list \<Rightarrow> bool" where
  "alternates on [] = True"
| "alternates on (Start e # cs) = (\<not> on \<and> alternates True cs)"
| "alternates on (Stop # cs) = alternates False cs"

text \<open>
  The commands one after the other; an \<open>exit\<close> ends the process, and a client that gets an exception from a call
  catches it and goes on.
\<close>

fun run_watch ::
    "('e \<Rightarrow> 's \<Rightarrow> 's watch_result outcome) \<Rightarrow> ('s \<Rightarrow> 's watch_result outcome) \<Rightarrow> 'e watch_cmd list \<Rightarrow> 's \<Rightarrow> 's watch_result outcome" where
  "run_watch init deinit [] st = Done (Returns 0 st)"
| "run_watch init deinit (c # cs) st =
     bind_outcome (case c of Start e \<Rightarrow> init e st | Stop \<Rightarrow> deinit st) (\<lambda>r.
       case r of Exits code \<Rightarrow> Done (Exits code) | Returns v st' \<Rightarrow> run_watch init deinit cs st' | Throws st' \<Rightarrow> run_watch init deinit cs st')"

locale watch_tool =
  fixes init :: "'e \<Rightarrow> 's \<Rightarrow> 's watch_result outcome"
    and deinit :: "'s \<Rightarrow> 's watch_result outcome"
    and base :: "'s \<Rightarrow> watch_state"
    and args_ok :: "'e \<Rightarrow> bool"
  assumes init_ok: "args_ok e \<Longrightarrow> watch_inv (base st) \<Longrightarrow> idle (base st) \<Longrightarrow>
      (\<exists>code. init e st = Done (Exits code)) \<or>
      (\<exists>v st'. init e st = Done (Returns v st') \<and> watch_inv (base st') \<and> (idle (base st') \<or> v = 0 \<and> watching (base st'))) \<or>
      (\<exists>st'. init e st = Done (Throws st') \<and> watch_inv (base st'))"
    and deinit_ok: "watch_inv (base st) \<Longrightarrow> \<exists>st'. deinit st = Done (Returns 0 st') \<and> watch_inv (base st') \<and> idle (base st')"
begin

text \<open>
  Whatever fails on the way: nothing is leaked, nothing is given back twice or too early, no call hangs, and after a
  stop nothing is held.
\<close>

lemma session_from:
  assumes "alternates on cs" "\<forall>e. Start e \<in> set cs \<longrightarrow> args_ok e" "watch_inv (base st)" "\<not> on \<longrightarrow> idle (base st)"
  shows "(\<exists>code. run_watch init deinit cs st = Done (Exits code)) \<or>
     (\<exists>st'. run_watch init deinit cs st = Done (Returns 0 st') \<and> watch_inv (base st') \<and> (cs \<noteq> [] \<and> last cs = Stop \<longrightarrow> idle (base st')))"
  using assms
proof (induction cs arbitrary: on st)
  case Nil
  then show ?case by simp
next
  case (Cons c cs)
  show ?case
  proof (cases c)
    case (Start e)
    then have "\<not> on" "alternates True cs" "args_ok e" "idle (base st)" using Cons.prems by auto
    from init_ok [OF \<open>args_ok e\<close> Cons.prems(3) \<open>idle (base st)\<close>]
    consider (exits) code where "init e st = Done (Exits code)"
      | (returns) v st' where "init e st = Done (Returns v st') \<or> init e st = Done (Throws st')" "watch_inv (base st')" by blast
    then show ?thesis
    proof cases
      case exits
      then show ?thesis using Start by simp
    next
      case returns
      then show ?thesis using Cons.IH [of True st'] \<open>alternates True cs\<close> Cons.prems(2) Start by (cases cs) auto
    qed
  next
    case Stop
    from deinit_ok [OF Cons.prems(3)] obtain st' where
      "deinit st = Done (Returns 0 st')" "watch_inv (base st')" "idle (base st')" by blast
    then show ?thesis using Cons.IH [of False st'] Cons.prems(1,2) Stop by (cases cs) auto
  qed
qed

lemmas session = session_from [of False, simplified]

end

end
