(* ===== verification/Mountsnoop.thy ===== *)
theory Mountsnoop
  imports Watch_Tool
begin

unbundle bit_operations_syntax

text \<open>
  \<open>observe/mountsnoop.cpp\<close>: mount and umount calls. The names of flags and errors, the text of each call, the events
  by their size, and setting up and taking down. The structures of the events are declared in a submodule: their
  sizes and how their fields are read are parameters.
\<close>

section \<open>Flags and errors\<close>

definition flag_names :: "string list" where
  "flag_names =
     [''MS_RDONLY'', ''MS_NOSUID'', ''MS_NODEV'', ''MS_NOEXEC'', ''MS_SYNCHRONOUS'', ''MS_REMOUNT'', ''MS_MANDLOCK'', ''MS_DIRSYNC'',
      ''MS_NOSYMFOLLOW'', ''MS_NOATIME'', ''MS_NODIRATIME'', ''MS_BIND'', ''MS_MOVE'', ''MS_REC'', ''MS_VERBOSE'', ''MS_SILENT'',
      ''MS_POSIXACL'', ''MS_UNBINDABLE'', ''MS_PRIVATE'', ''MS_SLAVE'', ''MS_SHARED'', ''MS_RELATIME'', ''MS_KERNMOUNT'', ''MS_I_VERSION'',
      ''MS_STRICTATIME'', ''MS_LAZYTIME'', ''MS_SUBMOUNT'', ''MS_NOREMOTELOCK'', ''MS_NOSEC'', ''MS_BORN'', ''MS_ACTIVE'', ''MS_NOUSER'']"

text \<open>\<open>1 << i\<close> is an \<open>int\<close> and is widened with its sign before the bits are compared.\<close>

definition flag_bit :: "nat \<Rightarrow> u64" where
  "flag_bit i = scast (push_bit i (1 :: u32))"

text \<open>The loop; the buffer has 512 bytes, and a longer text overruns it.\<close>

fun strflags_loop :: "u64 \<Rightarrow> nat list \<Rightarrow> string \<Rightarrow> string outcome" where
  "strflags_loop flags [] str = Done str"
| "strflags_loop flags (i # is) str =
     (if flag_bit i AND flags = 0 then strflags_loop flags is str
      else let str' = (if str \<noteq> [] then str @ '' | '' else str) @ flag_names ! i
           in if length str' \<ge> 512 then Fault else strflags_loop flags is str')"

definition strflags :: "u64 \<Rightarrow> string outcome" where
  "strflags flags = (if flags = 0 then Done ''0x0'' else strflags_loop flags [0..<length flag_names] [])"

definition strerrno :: "(int \<Rightarrow> string option) \<Rightarrow> int \<Rightarrow> string" where
  "strerrno strerrorname_np errnum =
     (if errnum = 0 then ''0''
      else case strerrorname_np (to_int32 (- errnum)) of
        None \<Rightarrow> take 31 (show_int errnum)
      | Some errstr \<Rightarrow> take 31 (''-'' @ errstr))"

section \<open>Calls\<close>

datatype mnt_call =
    Mount (mc_source: string) (mc_target: string) (mc_type: string) (mc_flags: u64) (mc_data: string) (mc_ret: int)
  | Umount string u64 int
  | Fsopen string u32 int
  | Fsconfig int u32 string string int int
  | Fsmount int u32 u32 int
  | MoveMount int string int string u32 int
  | Fspick int string u32 int
  | MountSetattr int string u32 u64 u64 u64 u64 u64 int
  | OpenTree int string u32 int

definition in_quotes :: "string \<Rightarrow> string" where
  "in_quotes s = ''\"'' @ s @ ''\"''"

definition call_buf :: "string \<Rightarrow> string" where
  "call_buf s = take 40959 s"

definition gen_mount_call :: "(int \<Rightarrow> string option) \<Rightarrow> string \<Rightarrow> string \<Rightarrow> string \<Rightarrow> u64 \<Rightarrow> string \<Rightarrow> int \<Rightarrow> string outcome" where
  "gen_mount_call sen source target ty flags data ret =
     bind_outcome (strflags flags) (\<lambda>f.
       Done (call_buf (''mount('' @ in_quotes source @ '', '' @ in_quotes target @ '', '' @ in_quotes ty @ '', '' @ f @ '', '' @ in_quotes data @ '') = `'' @ strerrno sen ret)))"

definition gen_umount_call :: "(int \<Rightarrow> string option) \<Rightarrow> string \<Rightarrow> u64 \<Rightarrow> int \<Rightarrow> string outcome" where
  "gen_umount_call sen target flags ret =
     bind_outcome (strflags flags) (\<lambda>f. Done (call_buf (''umount('' @ in_quotes target @ '', '' @ f @ '') = '' @ strerrno sen ret)))"

definition gen_fsopen_call :: "string \<Rightarrow> u32 \<Rightarrow> int \<Rightarrow> string" where
  "gen_fsopen_call fsname flags ret = call_buf (''fsopen('' @ in_quotes fsname @ '', '' @ fmt_u flags @ '') = '' @ show_int ret)"

definition gen_fsconfig_call :: "int \<Rightarrow> u32 \<Rightarrow> string \<Rightarrow> string \<Rightarrow> int \<Rightarrow> int \<Rightarrow> string" where
  "gen_fsconfig_call fd cmd key value aux ret =
     call_buf (''fsconfig('' @ show_int fd @ '', '' @ fmt_u cmd @ '', '' @ in_quotes key @ '', '' @ in_quotes value @ '', '' @ show_int aux @ '') = '' @ show_int ret)"

definition gen_fsmount_call :: "int \<Rightarrow> u32 \<Rightarrow> u32 \<Rightarrow> int \<Rightarrow> string" where
  "gen_fsmount_call fs_fd flags attr_flags ret =
     call_buf (''fsmount('' @ show_int fs_fd @ '', '' @ fmt_u flags @ '', '' @ fmt_u attr_flags @ '') = '' @ show_int ret)"

definition gen_fsmovemount_call :: "int \<Rightarrow> string \<Rightarrow> int \<Rightarrow> string \<Rightarrow> u32 \<Rightarrow> int \<Rightarrow> string" where
  "gen_fsmovemount_call from_dfd from_pathname to_dfd to_pathname flags ret =
     call_buf (''move_mount('' @ show_int from_dfd @ '', '' @ in_quotes from_pathname @ '', '' @ show_int to_dfd @ '', '' @ in_quotes to_pathname @ '', ''
       @ fmt_u flags @ '') = '' @ show_int ret)"

definition gen_fspick_call :: "int \<Rightarrow> string \<Rightarrow> u32 \<Rightarrow> int \<Rightarrow> string" where
  "gen_fspick_call dfd path flags ret =
     call_buf (''fspick('' @ show_int dfd @ '', '' @ in_quotes path @ '', '' @ fmt_u flags @ '') = '' @ show_int ret)"

definition gen_mount_setattr_call :: "int \<Rightarrow> string \<Rightarrow> u32 \<Rightarrow> u64 \<Rightarrow> u64 \<Rightarrow> u64 \<Rightarrow> u64 \<Rightarrow> u64 \<Rightarrow> int \<Rightarrow> string" where
  "gen_mount_setattr_call dfd path flags attr_set attr_clr propagation userns_fd usize ret =
     call_buf (''mount_setattr('' @ show_int dfd @ '', '' @ in_quotes path @ '', '' @ fmt_u flags @ '', {attr_set=0x'' @ show_hex (unat attr_set)
       @ '', attr_clr=0x'' @ show_hex (unat attr_clr) @ '', propagation=0x'' @ show_hex (unat propagation) @ '', userns_fd=''
       @ fmt_u userns_fd @ ''}, '' @ fmt_u usize @ '') = '' @ show_int ret)"

definition gen_open_tree_call :: "int \<Rightarrow> string \<Rightarrow> u32 \<Rightarrow> int \<Rightarrow> string" where
  "gen_open_tree_call dfd filename flags ret =
     call_buf (''open_tree('' @ show_int dfd @ '', '' @ in_quotes filename @ '', '' @ fmt_u flags @ '') = '' @ show_int ret)"

definition gen_call :: "(int \<Rightarrow> string option) \<Rightarrow> mnt_call \<Rightarrow> string outcome" where
  "gen_call sen c =
     (case c of
        Mount s t y f d r \<Rightarrow> gen_mount_call sen s t y f d r
      | Umount t f r \<Rightarrow> gen_umount_call sen t f r
      | Fsopen n f r \<Rightarrow> Done (gen_fsopen_call n f r)
      | Fsconfig fd cmd k v a r \<Rightarrow> Done (gen_fsconfig_call fd cmd k v a r)
      | Fsmount fd f af r \<Rightarrow> Done (gen_fsmount_call fd f af r)
      | MoveMount fd p td tp f r \<Rightarrow> Done (gen_fsmovemount_call fd p td tp f r)
      | Fspick d p f r \<Rightarrow> Done (gen_fspick_call d p f r)
      | MountSetattr d p f s cl pr u n r \<Rightarrow> Done (gen_mount_setattr_call d p f s cl pr u n r)
      | OpenTree d p f r \<Rightarrow> Done (gen_open_tree_call d p f r))"

section \<open>Events\<close>

datatype mnt_kind = KMount | KUmount | KFsopen | KFsconfig | KFsmount | KMoveMount | KFspick | KMountSetattr | KOpenTree

record mnt_event =
  me_comm :: string
  me_pid :: int
  me_tid :: int
  me_mnt_ns :: u32
  me_call :: mnt_call

text \<open>The size of each structure and its contents.\<close>

record mnt_abi =
  ma_size :: "mnt_kind \<Rightarrow> nat"
  ma_read :: "mnt_kind \<Rightarrow> bytes \<Rightarrow> mnt_event"
  ma_errname :: "int \<Rightarrow> string option"

definition mnt_kinds :: "mnt_kind list" where
  "mnt_kinds = [KMount, KUmount, KFsopen, KFsconfig, KFsmount, KMoveMount, KFspick, KMountSetattr, KOpenTree]"

definition event_line :: "mnt_abi \<Rightarrow> mnt_event \<Rightarrow> string outcome" where
  "event_line abi e =
     bind_outcome (gen_call (ma_errname abi) (me_call e)) (\<lambda>c.
       Done (pad_right 16 (me_comm e) @ '' '' @ pad_right 7 (show_int (me_pid e)) @ '' '' @ pad_right 7 (show_int (me_tid e)) @ '' ''
         @ pad_right 11 (fmt_u (me_mnt_ns e)) @ '' '' @ c @ [NL]))"

text \<open>\<open>handle_event\<close>: the size says which structure it is.\<close>

definition mnt_handle_event :: "mnt_abi \<Rightarrow> bytes \<Rightarrow> string outcome" where
  "mnt_handle_event abi data =
     (case filter (\<lambda>k. ma_size abi k = length data) mnt_kinds of
        [] \<Rightarrow> Done (''Unknown event size: '' @ show_nat (length data) @ [NL])
      | k # ks \<Rightarrow> event_line abi (ma_read abi k data))"

section \<open>Setting up and taking down\<close>

record ms_state =
  ms_filter_path :: string
  ms_verbose :: bool
  ms_watch :: watch_state

definition ms_start :: ms_state where
  "ms_start = \<lparr>ms_filter_path = [], ms_verbose = False, ms_watch = watch_start\<rparr>"

record ms_sys =
  mi_keys :: "(char \<times> string) list"
  mi_open :: bool
  mi_load :: int
  mi_attach :: int
  mi_events :: bool
  mi_filter :: bool
  mi_ring :: bool
  mi_thread :: thread_try
  mi_signal :: bool

text \<open>The options; \<open>Inl\<close> if \<open>argp_parse\<close> returns an error or \<open>argp\<close> ends the process.\<close>

fun ms_argp_parse :: "(char \<times> string) list \<Rightarrow> ms_state \<Rightarrow> ms_state watch_result + ms_state" where
  "ms_argp_parse [] st = Inr st"
| "ms_argp_parse ((key, arg) # ks) st =
     (if key = CHR ''p'' then
        (if length arg \<ge> 4096 then Inl (Returns (- 1) (st\<lparr>ms_filter_path := []\<rparr>))
         else ms_argp_parse ks (st\<lparr>ms_filter_path := arg\<rparr>))
      else if key = CHR ''v'' then ms_argp_parse ks (st\<lparr>ms_verbose := True\<rparr>)
      else if key = CHR ''h'' then Inl (Exits 0)
      else Inl (Exits 64))"

definition mountsnoop_deinit :: "ms_state \<Rightarrow> ms_state watch_result outcome" where
  "mountsnoop_deinit st =
     bind_outcome (join_worker ((ms_watch st)\<lparr>w_exit := True\<rparr>)) (\<lambda>w.
       Done (Returns 0 (st\<lparr>ms_watch := destroy_obj (free_ring w)\<rparr>)))"

text \<open>The label \<open>err_out\<close>: the status is \<open>err != 0\<close>.\<close>

definition ms_err_out :: "int \<Rightarrow> ms_state \<Rightarrow> ms_state watch_result outcome" where
  "ms_err_out err st =
     bind_outcome (mountsnoop_deinit st) (\<lambda>r.
       case r of Returns _ st' \<Rightarrow> Done (Returns (if err \<noteq> 0 then 1 else 0) st') | Exits c \<Rightarrow> Done (Exits c)
         | Throws st' \<Rightarrow> Done (Throws st'))"

definition ms_setup :: "ms_sys \<Rightarrow> (ms_state \<Rightarrow> ms_state watch_result outcome) \<Rightarrow> ms_state \<Rightarrow> ms_state watch_result outcome" where
  "ms_setup sys follow st =
     (let st1 = st\<lparr>ms_watch := set_obj (mi_open sys) (ms_watch st)\<rparr>
      in if \<not> mi_open sys then Done (Returns 1 st1)
         else if mi_load sys \<noteq> 0 then ms_err_out (mi_load sys) st1
         else if mi_attach sys \<noteq> 0 then ms_err_out (mi_attach sys) st1
         else if \<not> mi_events sys \<or> \<not> mi_filter sys then ms_err_out 0 st1
         else let st2 = st1\<lparr>ms_watch := set_rb (mi_ring sys) (ms_watch st1)\<rparr>
              in if \<not> mi_ring sys then ms_err_out 0 st2
                 else case mi_thread sys of
                     ThreadThrows \<Rightarrow> Done (Throws st2)
                   | NoMemory \<Rightarrow> ms_err_out 0 (st2\<lparr>ms_watch := set_thread False (ms_watch st2)\<rparr>)
                   | ThreadRuns \<Rightarrow> follow (st2\<lparr>ms_watch := set_thread True (ms_watch st2)\<rparr>))"

definition mountsnoop_init :: "ms_sys \<Rightarrow> ms_state \<Rightarrow> ms_state watch_result outcome" where
  "mountsnoop_init sys st =
     (case ms_argp_parse (mi_keys sys) (st\<lparr>ms_watch := (ms_watch st)\<lparr>w_exit := False\<rparr>\<rparr>) of
        Inl r \<Rightarrow> Done r
      | Inr st1 \<Rightarrow> ms_setup sys (\<lambda>st'. Done (Returns 0 st')) st1)"

text \<open>\<open>main\<close>: after a signal it falls into \<open>err_out\<close>.\<close>

definition mountsnoop_main :: "ms_sys \<Rightarrow> ms_state watch_result outcome" where
  "mountsnoop_main sys =
     (case ms_argp_parse (mi_keys sys) ms_start of
        Inl r \<Rightarrow> Done r
      | Inr st1 \<Rightarrow> if \<not> mi_signal sys then ms_err_out 1 st1 else uncaught (ms_setup sys (ms_err_out 0) st1))"

section \<open>The text of flags\<close>

fun bars :: "string list \<Rightarrow> string" where
  "bars [] = []"
| "bars [n] = n"
| "bars (n # ns) = n @ '' | '' @ bars ns"

lemma bars_snoc: "ns \<noteq> [] \<Longrightarrow> bars (ns @ [n]) = bars ns @ '' | '' @ n"
  by (induction ns rule: bars.induct) simp_all

lemma bars_empty: "\<forall>n \<in> set ns. n \<noteq> [] \<Longrightarrow> bars ns = [] \<longleftrightarrow> ns = []"
  by (cases ns rule: bars.cases) auto

definition flag_space :: "nat list \<Rightarrow> nat" where
  "flag_space is = sum_list (map (\<lambda>i. length (flag_names ! i) + 3) is)"

lemma strflags_loop_lists:
  assumes "\<forall>n \<in> set ns. n \<noteq> []" "\<forall>i \<in> set is. flag_names ! i \<noteq> []" "length (bars ns) + flag_space is < 512"
  shows "strflags_loop flags is (bars ns) = Done (bars (ns @ map ((!) flag_names) (filter (\<lambda>i. flag_bit i AND flags \<noteq> 0) is)))"
  using assms
proof (induction "is" arbitrary: ns)
  case Nil
  then show ?case by simp
next
  case (Cons i "is")
  have sp: "flag_space (i # is) = length (flag_names ! i) + 3 + flag_space is" by (simp add: flag_space_def)
  show ?case
  proof (cases "flag_bit i AND flags = 0")
    case True
    then show ?thesis using Cons sp by simp
  next
    case False
    have s: "(if bars ns \<noteq> [] then bars ns @ '' | '' else bars ns) @ flag_names ! i = bars (ns @ [flag_names ! i])"
      using bars_snoc [of ns] bars_empty [OF Cons.prems(1)] by (cases "ns = []") simp_all
    have len: "length (bars (ns @ [flag_names ! i])) \<le> length (bars ns) + length (flag_names ! i) + 3"
      by (cases "ns = []") (simp_all add: bars_snoc)
    have "length (bars (ns @ [flag_names ! i])) + flag_space is < 512" using len Cons.prems(3) sp by linarith
    moreover have "\<forall>n \<in> set (ns @ [flag_names ! i]). n \<noteq> []" using Cons.prems(1,2) by auto
    ultimately have "strflags_loop flags is (bars (ns @ [flag_names ! i]))
        = Done (bars ((ns @ [flag_names ! i]) @ map ((!) flag_names) (filter (\<lambda>i. flag_bit i AND flags \<noteq> 0) is)))"
      using Cons.prems(2) by (intro Cons.IH) simp_all
    moreover have "length (bars (ns @ [flag_names ! i])) < 512" using len Cons.prems(3) sp by linarith
    ultimately show ?thesis using False by (simp add: s Let_def)
  qed
qed

lemma flag_names_fit: "flag_space [0..<length flag_names] < 512" "\<forall>i \<in> set [0..<length flag_names]. flag_names ! i \<noteq> []"
  "length flag_names = 32"
  by code_simp+

lemma flag_bit_low: "\<forall>i \<in> set [0..<31]. flag_bit i = 2 ^ i"
  by code_simp

lemma flag_bit_top: "flag_bit 31 = NOT (mask 31)"
  by code_simp

lemma flag_bit_set:
  assumes "i < 32"
  shows "flag_bit i AND flags \<noteq> 0 \<longleftrightarrow> (if i < 31 then bit flags i else flags \<ge> 2 ^ 31)"
proof (cases "i < 31")
  case True
  then have "flag_bit i = 2 ^ i" using flag_bit_low by simp
  then show ?thesis using True and_exp_eq_0_iff_not_bit [of flags i] by (simp add: and.commute)
next
  case False
  then have i: "i = 31" using assms by simp
  have "NOT (mask 31) AND flags = 0 \<longleftrightarrow> take_bit 31 flags = flags"
    by (auto simp: bit_eq_iff bit_simps not_less)
  moreover have "take_bit 31 flags = flags \<longleftrightarrow> flags < 2 ^ 31"
  proof -
    have "take_bit 31 flags = flags \<longleftrightarrow> take_bit 31 (unat flags) = unat flags" by (simp add: word_unat_eq_iff unsigned_take_bit_eq)
    also have "\<dots> \<longleftrightarrow> unat flags < 2 ^ 31" by (rule take_bit_nat_eq_self_iff)
    finally show ?thesis by (simp add: word_less_nat_alt)
  qed
  ultimately show ?thesis using i by (simp add: flag_bit_top not_less)
qed

text \<open>C36: the text of mount flags always fits its buffer and lists, in the order of the bits, the name of every flag that
  is set; the last name also stands for all higher bits.\<close>

theorem strflags_lists:
  assumes "flags \<noteq> 0"
  shows "strflags flags = Done (bars (map ((!) flag_names) (filter (\<lambda>i. if i < 31 then bit flags i else flags \<ge> 2 ^ 31) [0..<32])))"
proof -
  have "filter (\<lambda>i. flag_bit i AND flags \<noteq> 0) [0..<32] = filter (\<lambda>i. if i < 31 then bit flags i else flags \<ge> 2 ^ 31) [0..<32]"
    by (rule filter_cong) (simp_all add: flag_bit_set)
  then show ?thesis using strflags_loop_lists [of "[]" "[0..<32]" flags] flag_names_fit assms by (simp add: strflags_def)
qed

theorem strflags_lists_witness: "strflags 0x21 = Done ''MS_RDONLY | MS_REMOUNT''"
proof -
  have "strflags 0x21 = Done (bars (map ((!) flag_names) (filter (\<lambda>i. if i < 31 then bit (0x21 :: u64) i else (0x21 :: u64) \<ge> 2 ^ 31) [0..<32])))"
    by (rule strflags_lists) simp
  also have "\<dots> = Done ''MS_RDONLY | MS_REMOUNT''" by code_simp
  finally show ?thesis .
qed

lemma strflags_total: "\<exists>s. strflags flags = Done s"
proof (cases "flags = 0")
  case False
  then show ?thesis using strflags_loop_lists [of "[]" "[0..<32]" flags] flag_names_fit by (simp add: strflags_def)
qed (simp add: strflags_def)

text \<open>Every event is printed as the call it is, provided that the sizes of the structures differ.\<close>

lemma event_by_size:
  assumes "inj (ma_size abi)" "length data = ma_size abi k"
  shows "mnt_handle_event abi data = event_line abi (ma_read abi k data)" "\<exists>s. mnt_handle_event abi data = Done s"
proof -
  have "filter (\<lambda>k'. ma_size abi k' = length data) mnt_kinds = filter (\<lambda>k'. k' = k) mnt_kinds"
    using assms by (intro filter_cong) (auto dest: injD)
  also have "\<dots> = [k]" by (cases k) (simp_all add: mnt_kinds_def)
  finally show e: "mnt_handle_event abi data = event_line abi (ma_read abi k data)" by (simp add: mnt_handle_event_def)
  have "\<exists>s. gen_call sen c = Done s" for sen c
    using strflags_total by (cases c) (auto simp: gen_call_def gen_mount_call_def gen_umount_call_def bind_outcome_Done_iff)
  then show "\<exists>s. mnt_handle_event abi data = Done s" unfolding e event_line_def by (metis bind_outcome_simps(1))
qed

section \<open>Starting and stopping\<close>

lemma mountsnoop_deinit_ok:
  assumes "watch_inv (ms_watch st)"
  shows "\<exists>w. mountsnoop_deinit st = Done (Returns 0 (st\<lparr>ms_watch := w\<rparr>)) \<and> watch_inv w \<and> idle w"
  using take_down_ok [OF assms] by (auto simp: mountsnoop_deinit_def)

lemma ms_err_out_ok:
  assumes "watch_inv (ms_watch st)"
  shows "\<exists>w. ms_err_out err st = Done (Returns (if err \<noteq> 0 then 1 else 0) (st\<lparr>ms_watch := w\<rparr>)) \<and> watch_inv w \<and> idle w"
  using mountsnoop_deinit_ok [OF assms] by (auto simp: ms_err_out_def)

lemma ms_setup_ok:
  assumes "watch_inv (ms_watch st)" "idle (ms_watch st)" "\<not> w_exit (ms_watch st)"
  shows "(\<exists>v st'. ms_setup sys (\<lambda>st'. Done (Returns 0 st')) st = Done (Returns v st') \<and> watch_inv (ms_watch st')
       \<and> (idle (ms_watch st') \<or> v = 0 \<and> watching (ms_watch st')))
     \<or> (\<exists>st'. ms_setup sys (\<lambda>st'. Done (Returns 0 st')) st = Done (Throws st') \<and> watch_inv (ms_watch st'))"
proof -
  have w: "\<not> w_obj (ms_watch st)" "\<not> w_rb (ms_watch st)" "\<not> w_thread (ms_watch st)" using assms(2) by (simp_all add: idle_def)
  define st1 where "st1 = st\<lparr>ms_watch := set_obj (mi_open sys) (ms_watch st)\<rparr>"
  define st2 where "st2 = st1\<lparr>ms_watch := set_rb (mi_ring sys) (ms_watch st1)\<rparr>"
  define st3 where "st3 = st2\<lparr>ms_watch := set_thread (mi_thread sys = ThreadRuns) (ms_watch st2)\<rparr>"
  have i1: "watch_inv (ms_watch st1)" using taken_inv(1) [OF assms(1) w(1)] by (simp add: st1_def)
  have i2: "watch_inv (ms_watch st2)" using taken_inv(2) [OF i1] w by (simp add: st2_def st1_def)
  have i3: "watch_inv (ms_watch st3)" using taken_inv(3) [OF i2] w by (simp add: st3_def st2_def st1_def)
  have on: "mi_open sys \<Longrightarrow> mi_ring sys \<Longrightarrow> mi_thread sys = ThreadRuns \<Longrightarrow> watching (ms_watch st3)"
    using assms(3) by (simp add: st3_def st2_def st1_def watching_def)
  have off: "\<not> mi_open sys \<Longrightarrow> idle (ms_watch st1)" using w by (simp add: st1_def idle_def)
  have eq: "ms_setup sys f st =
      (if \<not> mi_open sys then Done (Returns 1 st1)
       else if mi_load sys \<noteq> 0 then ms_err_out (mi_load sys) st1 else if mi_attach sys \<noteq> 0 then ms_err_out (mi_attach sys) st1
       else if \<not> mi_events sys \<or> \<not> mi_filter sys then ms_err_out 0 st1
       else if \<not> mi_ring sys then ms_err_out 0 st2
       else if mi_thread sys = ThreadThrows then Done (Throws st2)
       else if mi_thread sys = NoMemory then ms_err_out 0 st3 else f st3)" for f
    unfolding st3_def st2_def by (cases "mi_thread sys") (simp_all add: ms_setup_def st1_def [symmetric] Let_def)
  have down: "\<exists>v st'. ms_err_out err x = Done (Returns v st') \<and> watch_inv (ms_watch st') \<and> idle (ms_watch st')"
    if "watch_inv (ms_watch x)" for err x
    using ms_err_out_ok [OF that, of err] by (metis (no_types, lifting) ms_state.select_convs(3) ms_state.surjective ms_state.update_convs(3))
  show ?thesis unfolding eq using down [OF i1] down [OF i2] down [OF i3] i1 i2 i3 on off by (cases "mi_thread sys"; simp; blast)
qed

lemma ms_argp_watch:
  "ms_argp_parse ks st = Inr st' \<Longrightarrow> ms_watch st' = ms_watch st"
  "ms_argp_parse ks st = Inl r \<Longrightarrow> (\<exists>c. r = Exits c) \<or> (\<exists>st'. r = Returns (- 1) st' \<and> ms_watch st' = ms_watch st)"
  by (induction ks st rule: ms_argp_parse.induct) (auto split: if_splits)

lemma mountsnoop_init_ok:
  assumes "watch_inv (ms_watch st)" "idle (ms_watch st)"
  shows "(\<exists>c. mountsnoop_init sys st = Done (Exits c)) \<or>
     (\<exists>v st'. mountsnoop_init sys st = Done (Returns v st') \<and> watch_inv (ms_watch st')
        \<and> (idle (ms_watch st') \<or> v = 0 \<and> watching (ms_watch st'))) \<or>
     (\<exists>st'. mountsnoop_init sys st = Done (Throws st') \<and> watch_inv (ms_watch st'))"
proof -
  let ?st = "st\<lparr>ms_watch := (ms_watch st)\<lparr>w_exit := False\<rparr>\<rparr>"
  have w: "watch_inv (ms_watch ?st)" "idle (ms_watch ?st)" "\<not> w_exit (ms_watch ?st)" using assms by (simp_all add: idle_def)
  show ?thesis
  proof (cases "ms_argp_parse (mi_keys sys) ?st")
    case (Inl r)
    then have "mountsnoop_init sys st = Done r" by (simp add: mountsnoop_init_def)
    then show ?thesis using ms_argp_watch(2) [OF Inl] w by (elim disjE exE conjE) simp_all
  next
    case (Inr st1)
    then have "mountsnoop_init sys st = ms_setup sys (\<lambda>st'. Done (Returns 0 st')) st1" by (simp add: mountsnoop_init_def)
    then show ?thesis using ms_setup_ok [of st1 sys] ms_argp_watch(1) [OF Inr] w by (simp only: simp_thms)
  qed
qed

interpretation mountsnoop: watch_tool mountsnoop_init mountsnoop_deinit ms_watch "\<lambda>sys. True"
proof unfold_locales
  fix e :: ms_sys and st :: ms_state
  assume a: "watch_inv (ms_watch st)" "idle (ms_watch st)"
  from mountsnoop_init_ok [OF a] show "(\<exists>code. mountsnoop_init e st = Done (Exits code)) \<or>
      (\<exists>v st'. mountsnoop_init e st = Done (Returns v st') \<and> watch_inv (ms_watch st') \<and> (idle (ms_watch st') \<or> v = 0 \<and> watching (ms_watch st'))) \<or>
      (\<exists>st'. mountsnoop_init e st = Done (Throws st') \<and> watch_inv (ms_watch st'))" by blast
next
  fix st :: ms_state
  assume "watch_inv (ms_watch st)"
  from mountsnoop_deinit_ok [OF this] show "\<exists>st'. mountsnoop_deinit st = Done (Returns 0 st') \<and> watch_inv (ms_watch st') \<and> idle (ms_watch st')"
    by force
qed

lemma mountsnoop_sessions:
  assumes "alternates False cs"
  shows "(\<exists>code. run_watch mountsnoop_init mountsnoop_deinit cs ms_start = Done (Exits code)) \<or>
     (\<exists>st. run_watch mountsnoop_init mountsnoop_deinit cs ms_start = Done (Returns 0 st) \<and> watch_inv (ms_watch st)
        \<and> (cs \<noteq> [] \<and> last cs = Stop \<longrightarrow> idle (ms_watch st)))"
  by (rule mountsnoop.session_from [OF assms]) (simp_all add: ms_start_def watch_start_def watch_defs)

text \<open>A missing map or ring is reported as success although nothing is watched.\<close>

lemma silent_failure:
  assumes "mi_keys sys = []" "mi_open sys" "mi_load sys = 0" "mi_attach sys = 0" "\<not> mi_events sys \<or> \<not> mi_filter sys \<or> \<not> mi_ring sys"
  shows "\<exists>st. mountsnoop_init sys ms_start = Done (Returns 0 st) \<and> idle (ms_watch st)"
  using assms by (auto simp: mountsnoop_init_def ms_setup_def ms_err_out_def mountsnoop_deinit_def Let_def ms_start_def watch_start_def watch_defs)

end
