(* ===== verification/Usr_Grp.thy ===== *)
theory Usr_Grp
  imports C_Format Spin_Lock
begin

unbundle bit_operations_syntax

text \<open>
  \<open>include/usr-grp.h\<close>: names of users and groups, and the text of three permission bits. The databases are parameters.
\<close>

abbreviation ACL_READ :: u16 where "ACL_READ \<equiv> 4"
abbreviation ACL_WRITE :: u16 where "ACL_WRITE \<equiv> 2"
abbreviation ACL_EXECUTE :: u16 where "ACL_EXECUTE \<equiv> 1"

definition id_text :: "u32 \<Rightarrow> string" where
  "id_text i = (let s = show_nat (unat i) in if length s < 1 \<or> length s \<ge> 22 then ''?'' else s)"

definition user_name :: "(u32 \<Rightarrow> string option) \<Rightarrow> u32 \<Rightarrow> string" where
  "user_name getpwuid uid = (case getpwuid uid of Some n \<Rightarrow> n | None \<Rightarrow> id_text uid)"

definition group_name :: "(u32 \<Rightarrow> string option) \<Rightarrow> u32 \<Rightarrow> string" where
  "group_name getgrgid gid = (case getgrgid gid of Some n \<Rightarrow> n | None \<Rightarrow> id_text gid)"

definition mode_str :: "u16 \<Rightarrow> string" where
  "mode_str mode =
     [if mode AND ACL_READ \<noteq> 0 then CHR ''r'' else CHR ''-'', if mode AND ACL_WRITE \<noteq> 0 then CHR ''w'' else CHR ''-'',
      if mode AND ACL_EXECUTE \<noteq> 0 then CHR ''x'' else CHR ''-'']"

text \<open>A number of 32 bits always fits the buffer, so \<open>?\<close> is never shown.\<close>

lemma show_nat_short: "n < 10 ^ k \<Longrightarrow> 0 < k \<Longrightarrow> length (show_nat n) \<le> k"
proof (induction k arbitrary: n)
  case (Suc k)
  show ?case
  proof (cases "n < 10")
    case True
    then show ?thesis by (simp add: show_nat.simps [of n])
  next
    case False
    then have "n div 10 < 10 ^ k" "0 < k" using Suc.prems by (auto intro: Nat.gr0I)
    then show ?thesis using Suc.IH [of "n div 10"] False by (simp add: show_nat.simps [of n])
  qed
qed simp

lemma id_text_number: "id_text i = show_nat (unat i)"
proof -
  have "unat i < 10 ^ 10" using unsigned_less [of i, where ?'a = nat] by simp
  then have "length (show_nat (unat i)) \<le> 10" by (rule show_nat_short) simp
  then show ?thesis using show_nat_props [of "unat i"] by (auto simp: id_text_def Let_def Suc_le_eq)
qed

text \<open>The text determines the bits.\<close>

lemma mode_str_bits:
  "mode_str m ! 0 = CHR ''r'' \<longleftrightarrow> bit m 2" "mode_str m ! 1 = CHR ''w'' \<longleftrightarrow> bit m 1" "mode_str m ! 2 = CHR ''x'' \<longleftrightarrow> bit m 0"
proof -
  have "m AND 4 \<noteq> 0 \<longleftrightarrow> bit m 2" "m AND 2 \<noteq> 0 \<longleftrightarrow> bit m 1" "m AND 1 \<noteq> 0 \<longleftrightarrow> bit m 0"
    using and_exp_eq_0_iff_not_bit [of m 2] and_exp_eq_0_iff_not_bit [of m 1] and_exp_eq_0_iff_not_bit [of m 0] by simp_all
  then show "mode_str m ! 0 = CHR ''r'' \<longleftrightarrow> bit m 2" "mode_str m ! 1 = CHR ''w'' \<longleftrightarrow> bit m 1" "mode_str m ! 2 = CHR ''x'' \<longleftrightarrow> bit m 0"
    by (simp_all add: mode_str_def numeral_2_eq_2)
qed

end
