(* ===== verification/Trace_File.thy ===== *)
theory Trace_File
  imports Watch_Tool Usr_Grp
begin

unbundle bit_operations_syntax

text \<open>
  \<open>observe/trace-file.cpp\<close>: what is done to a file and by whom. The text of every kind of event, the options and the
  rule, finding the inode, and setting up and taking down. The structures are packed: the fields of an event follow
  the 28 bytes of \<open>BpfData\<close> without gaps.
\<close>

section \<open>Text of an event\<close>

text \<open>
  What the text depends on: \<open>strerror\<close>, the user and group databases, and \<open>te_last\<close>, the shift of the \<open>mode_str\<close>
  call that a list of arguments evaluates last (C++ leaves the order open).
\<close>

record tf_env =
  te_strerror :: "int \<Rightarrow> string"
  te_user :: "u32 \<Rightarrow> string option"
  te_group :: "u32 \<Rightarrow> string option"
  te_last :: nat

text \<open>\<open>%.*s\<close>: at most \<open>n\<close> characters; \<open>None\<close> if the bytes end before a NUL or the \<open>n\<close>-th character.\<close>

definition prec_at :: "nat \<Rightarrow> bytes \<Rightarrow> nat \<Rightarrow> string option" where
  "prec_at n b off =
     (let t = take n (drop off b); s = takeWhile (\<lambda>x. x \<noteq> 0) t
      in if length s = length t \<and> length t < n then None else Some (map byte_char s))"

text \<open>The parts of a line; a string that runs out of the event is a fault.\<close>

definition line :: "string option list \<Rightarrow> string outcome" where
  "line parts = (if None \<in> set parts then Fault else Done (concat (map the parts)))"

definition lx :: "'a::len word \<Rightarrow> string" where
  "lx w = show_hex (unat w)"

definition err_text :: "tf_env \<Rightarrow> u64 \<Rightarrow> string" where
  "err_text env ret = te_strerror env (to_int32 (- sint ret))"

definition ret_text :: "tf_env \<Rightarrow> u64 \<Rightarrow> string option" where
  "ret_text env ret = Some (''ret: '' @ fmt_d ret @ ''('' @ err_text env ret @ '')'' @ [NL])"

definition bytes_text :: "tf_env \<Rightarrow> u64 \<Rightarrow> string option" where
  "bytes_text env ret = Some (''ret: '' @ fmt_d ret @ ''('' @ (if sint ret < 0 then err_text env ret else ''bytes'') @ '')'' @ [NL])"

text \<open>\<open>BpfData::dump\<close>.\<close>

definition dump_head :: "bytes \<Rightarrow> string option" where
  "dump_head b = map_option (\<lambda>comm. ''uid:'' @ fmt_u (u32_at b 0) @ '' '' @ comm @ ''['' @ fmt_d (u32_at b 4) @ '']: '') (cstr_at b 8)"

definition ino_text :: "bytes \<Rightarrow> string option" where
  "ino_text b = Some (''ino: '' @ fmt_u (u64_at b 28) @ '', '')"

definition dump_OpenLog :: "tf_env \<Rightarrow> bytes \<Rightarrow> string outcome" where
  "dump_OpenLog env b =
     line [dump_head b, Some ''event: open, '', ino_text b, Some (''fmode: '' @ lx (u32_at b 44) @ '', ''), ret_text env (u64_at b 36)]"

definition dump_CloseLog :: "bytes \<Rightarrow> string outcome" where
  "dump_CloseLog b = line [dump_head b, Some (''event: close, ino: '' @ fmt_u (u64_at b 28) @ [NL])]"

text \<open>
  The names of \<open>listxattr\<close>, one after the other with their NULs. A name that does not fit the size that was
  returned ends the process.
\<close>

function list_names :: "bytes \<Rightarrow> nat \<Rightarrow> nat \<Rightarrow> string outcome" where
  "list_names b off sz =
     (if sz = 0 then Done []
      else case cstr_at b off of
        None \<Rightarrow> Fault
      | Some s \<Rightarrow>
          (let slen = length s + 1
           in if sz < slen then Aborted
              else bind_outcome (list_names b (off + slen) (sz - slen)) (\<lambda>t.
                     Done (s @ (if sz - slen \<noteq> 0 then '','' else []) @ t))))"
  by pat_completeness auto

termination
  by (relation "measure (\<lambda>(b, off, sz). sz)") auto

declare list_names.simps [simp del]

definition dump_names :: "bytes \<Rightarrow> string outcome" where
  "dump_names b =
     (let off = 60 + unat (u32_at b 36)
      in if sint (u64_at b 52) > 0 then
           (if u64_at b 44 = 0 then (case cstr_at b off of Some s \<Rightarrow> Done s | None \<Rightarrow> Fault)
            else list_names b off (unat (u64_at b 52)))
         else Done [])"

definition dump_XattrLog :: "tf_env \<Rightarrow> bytes \<Rightarrow> string outcome" where
  "dump_XattrLog env b =
     (let ty = u32_at b 24; act = prec_at 16 b 60; ret = ret_text env (u64_at b 52)
      in if ty = 5 then
           bind_outcome (dump_names b) (\<lambda>names.
             line [dump_head b, Some ''event: '', act, Some ('', names: '' @ names @ ''(sz:'' @ fmt_u (u64_at b 44) @ ''), ''), ino_text b, ret])
         else if ty = 6 then
           line [dump_head b, Some ''event: '', act, Some '', name: '', prec_at 256 b (60 + unat (u32_at b 36)), Some '', '', ino_text b, ret]
         else
           line [dump_head b, Some ''event: '', act, Some '', name: '', prec_at 256 b (60 + unat (u32_at b 36)),
             Some '', value: '', prec_at 1024 b (60 + unat (u32_at b 40)), Some (''(sz:'' @ fmt_u (u64_at b 44) @ ''), ''), ino_text b, ret])"

text \<open>An ACL entry has eight bytes; an unknown tag ends the process.\<close>

definition acl_entry_text :: "tf_env \<Rightarrow> bytes \<Rightarrow> nat \<Rightarrow> string outcome" where
  "acl_entry_text env b off =
     (let tag = u16_at b off; perm = mode_str (u16_at b (off + 2)) @ ''|''; i = u32_at b (off + 4)
      in if tag = 1 then Done (''user::'' @ perm) else if tag = 4 then Done (''group::'' @ perm)
         else if tag = 0x10 then Done (''mask::'' @ perm) else if tag = 0x20 then Done (''other::'' @ perm)
         else if tag = 2 then Done (''user:'' @ user_name (te_user env) i @ '':'' @ perm)
         else if tag = 8 then Done (''group:'' @ group_name (te_group env) i @ '':'' @ perm)
         else Aborted)"

fun acl_text :: "tf_env \<Rightarrow> bytes \<Rightarrow> nat \<Rightarrow> nat \<Rightarrow> string outcome" where
  "acl_text env b off 0 = Done []"
| "acl_text env b off (Suc n) =
     (if off + 8 > length b then Fault
      else bind_outcome (acl_entry_text env b off) (\<lambda>s. bind_outcome (acl_text env b (off + 8) n) (\<lambda>t. Done (s @ t))))"

definition dump_AclLog :: "tf_env \<Rightarrow> bytes \<Rightarrow> string outcome" where
  "dump_AclLog env b =
     bind_outcome (acl_text env b (60 + unat (u32_at b 40)) (unat (u64_at b 44))) (\<lambda>acl.
       line [dump_head b, Some ''event: '', prec_at 16 b 60, Some '', name: '', prec_at 256 b (60 + unat (u32_at b 36)),
         Some ('', acl: '' @ acl @ '', ''), ino_text b, ret_text env (u64_at b 52)])"

definition dump_ChownLog :: "tf_env \<Rightarrow> bytes \<Rightarrow> string outcome" where
  "dump_ChownLog env b =
     line [dump_head b, Some ''event: '', prec_at 16 b 52,
       Some ('', onwer: '' @ user_name (te_user env) (u32_at b 36) @ ''('' @ fmt_d (u32_at b 36) @ ''):''
         @ group_name (te_group env) (u32_at b 40) @ ''('' @ fmt_d (u32_at b 40) @ ''), ''), ino_text b, ret_text env (u64_at b 44)]"

text \<open>The three calls of \<open>mode_str\<close> return the same buffer, which holds what the last one wrote.\<close>

definition mode3_text :: "tf_env \<Rightarrow> u16 \<Rightarrow> string" where
  "mode3_text env m = (let s = mode_str (drop_bit (te_last env) m) in s @ s @ s)"

definition dump_ChmodLog :: "tf_env \<Rightarrow> bytes \<Rightarrow> string outcome" where
  "dump_ChmodLog env b =
     line [dump_head b, Some ''event: '', prec_at 16 b 46, Some ('', mode: '' @ mode3_text env (u16_at b 36) @ '', ''), ino_text b,
       ret_text env (u64_at b 38)]"

definition dump_StatLog :: "tf_env \<Rightarrow> bytes \<Rightarrow> string outcome" where
  "dump_StatLog env b =
     line [dump_head b, Some ''event: '', prec_at 16 b 52,
       Some ('', request_mask: '' @ fmt_u (u32_at b 36) @ '', query_flags: '' @ fmt_u (u32_at b 40) @ '', ''), ino_text b, ret_text env (u64_at b 44)]"

definition dump_MmapLog :: "tf_env \<Rightarrow> bytes \<Rightarrow> string outcome" where
  "dump_MmapLog env b =
     (let ret = u64_at b 76
      in line [dump_head b, Some ''event: '', prec_at 16 b 84,
           Some ('', addr(bpf): 0x'' @ lx (u64_at b 36) @ '', len: '' @ fmt_u (u64_at b 44) @ '', prot: '' @ fmt_u (u64_at b 52) @ '', flag: ''
             @ fmt_u (u64_at b 60) @ '', pgoff: '' @ fmt_u (u64_at b 68) @ '', ''), ino_text b,
           Some (''ret: '' @ fmt_d ret @ ''('' @ (if sint ret > 0 then ''addr'' else err_text env ret) @ '')'' @ [NL])])"

text \<open>An unknown lock leaves a null pointer, which glibc prints as \<open>(null)\<close>.\<close>

definition lock_text :: "u64 \<Rightarrow> string" where
  "lock_text arg = (if arg = 0 then ''F_RDLCK'' else if arg = 1 then ''F_WRLCK'' else if arg = 2 then ''F_UNLCK'' else ''(null)'')"

definition dump_FlckLog :: "tf_env \<Rightarrow> bytes \<Rightarrow> string outcome" where
  "dump_FlckLog env b =
     line [dump_head b, Some ''event: '', prec_at 16 b 52,
       Some ('', arg: 0x'' @ lx (u64_at b 36) @ ''('' @ lock_text (u64_at b 36) @ ''), ''), ino_text b, ret_text env (u64_at b 44)]"

definition dump_FcntlLog :: "tf_env \<Rightarrow> bytes \<Rightarrow> string outcome" where
  "dump_FcntlLog env b =
     line [dump_head b, Some ''event: '', prec_at 16 b 56,
       Some ('', cmd: '' @ fmt_d (u32_at b 36) @ '', arg: '' @ lx (u64_at b 40) @ '', ''), ino_text b, ret_text env (u64_at b 48)]"

definition dump_LinkLog :: "tf_env \<Rightarrow> bytes \<Rightarrow> string outcome" where
  "dump_LinkLog env b =
     (if u32_at b 24 = 15 then
        line [dump_head b, Some ''event: '', prec_at 16 b 60,
          Some ('', old inode: '' @ fmt_u (u64_at b 28) @ '', new inode: '' @ fmt_u (u64_at b 36) @ '', dir inode: '' @ fmt_u (u64_at b 44) @ '', ''),
          ino_text b, ret_text env (u64_at b 52)]
      else if u32_at b 24 = 16 then
        line [dump_head b, Some ''event: '', prec_at 16 b 60,
          Some ('', inode: '' @ fmt_u (u64_at b 28) @ '', dir inode: '' @ fmt_u (u64_at b 44) @ '', ''), ret_text env (u64_at b 52)]
      else line [dump_head b])"

definition dump_TruncateLog :: "tf_env \<Rightarrow> bytes \<Rightarrow> string outcome" where
  "dump_TruncateLog env b =
     line [dump_head b, Some ''event: '', prec_at 16 b 52, Some ('', length: '' @ fmt_u (u64_at b 36) @ '', ''), ino_text b, ret_text env (u64_at b 44)]"

definition dump_IoctlLog :: "tf_env \<Rightarrow> bytes \<Rightarrow> string outcome" where
  "dump_IoctlLog env b =
     line [dump_head b, Some ''event: '', prec_at 16 b 56,
       Some ('', cmd: '' @ fmt_d (u32_at b 36) @ '', arg: '' @ lx (u64_at b 40) @ '', ''), ino_text b,
       Some (''ret('' @ fmt_d (u64_at b 48) @ ''): '' @ err_text env (u64_at b 48) @ [NL])]"

definition dump_RenameLog :: "tf_env \<Rightarrow> bytes \<Rightarrow> string outcome" where
  "dump_RenameLog env b =
     line [dump_head b, Some ''event: '', prec_at 16 b 52, Some '', old name: '', cstr_at b (52 + unat (u32_at b 36)), Some '', new name: '',
       cstr_at b (52 + unat (u32_at b 40)), Some '', '', ino_text b, ret_text env (u64_at b 44)]"

definition dump_FallocateLog :: "tf_env \<Rightarrow> bytes \<Rightarrow> string outcome" where
  "dump_FallocateLog env b =
     line [dump_head b, Some ''event: '', prec_at 16 b 64,
       Some ('', mode: '' @ fmt_d (u32_at b 36) @ '', offset: '' @ fmt_u (u64_at b 40) @ '', len: '' @ fmt_u (u64_at b 48) @ '', ''), ino_text b,
       ret_text env (u64_at b 56)]"

definition rw_text :: "string \<Rightarrow> tf_env \<Rightarrow> bytes \<Rightarrow> string outcome" where
  "rw_text name env b =
     line [dump_head b, Some (''event: '' @ name @ '', count: '' @ fmt_u (u64_at b 36) @ '', pos: '' @ fmt_u (u64_at b 44) @ '', ''), ino_text b,
       bytes_text env (u64_at b 52)]"

definition dump_RwLog :: "tf_env \<Rightarrow> bytes \<Rightarrow> string outcome" where
  "dump_RwLog env b =
     (if u32_at b 24 = 21 then rw_text ''read'' env b else if u32_at b 24 = 22 then rw_text ''write'' env b else line [dump_head b])"

text \<open>The sizes of a vector; \<open>pop_back\<close> of an empty string has no defined result.\<close>

definition sizes_text :: "bytes \<Rightarrow> string outcome" where
  "sizes_text b =
     (let off = 60 + unat (u32_at b 36); n = unat (u32_at b 40)
      in if n = 0 \<or> off + 8 * n > length b then Fault
         else Done (butlast (concat (map (\<lambda>i. fmt_u (u64_at b (off + 8 * i)) @ ''|'') [0..<n]))))"

definition rwv_text :: "string \<Rightarrow> tf_env \<Rightarrow> bytes \<Rightarrow> string \<Rightarrow> string outcome" where
  "rwv_text name env b szs =
     line [dump_head b, Some (''event: '' @ name @ '', count: '' @ fmt_u (u32_at b 40) @ '', each size: '' @ szs @ '', pos: '' @ fmt_u (u64_at b 44) @ '', ''),
       ino_text b, bytes_text env (u64_at b 52)]"

definition dump_RwvLog :: "tf_env \<Rightarrow> bytes \<Rightarrow> string outcome" where
  "dump_RwvLog env b =
     bind_outcome (sizes_text b) (\<lambda>szs.
       if u32_at b 24 = 23 then rwv_text ''readv'' env b szs else if u32_at b 24 = 24 then rwv_text ''writev'' env b szs else line [dump_head b])"

definition copy_text :: "string \<Rightarrow> tf_env \<Rightarrow> bytes \<Rightarrow> string outcome" where
  "copy_text name env b =
     line [dump_head b, Some (''event: '' @ name @ '', from_ino: '' @ fmt_u (u64_at b 28) @ '', to_ino: '' @ fmt_u (u64_at b 36) @ '', from_pos: ''
       @ fmt_u (u64_at b 44) @ '', to_pos: '' @ fmt_u (u64_at b 52) @ '', size: '' @ fmt_u (u64_at b 60) @ '', ''), bytes_text env (u64_at b 68)]"

definition dump_CopyLog :: "tf_env \<Rightarrow> bytes \<Rightarrow> string outcome" where
  "dump_CopyLog env b =
     (if u32_at b 24 = 25 then copy_text ''copy_file_range'' env b else if u32_at b 24 = 26 then copy_text ''sendfile'' env b
      else if u32_at b 24 = 27 then copy_text ''splice'' env b else line [dump_head b])"

definition dump_DirLog :: "tf_env \<Rightarrow> bytes \<Rightarrow> string outcome" where
  "dump_DirLog env b =
     (let inos = ''dir_ino: '' @ fmt_u (u64_at b 28) @ '', ino: '' @ fmt_u (u64_at b 36) @ '', ''; mode = mode3_text env (u16_at b 44);
          ret = ret_text env (u64_at b 50)
      in if u32_at b 24 = 28 then line [dump_head b, Some (''event: mknod, mode: '' @ mode @ '', dev: '' @ fmt_u (u32_at b 46) @ '', '' @ inos), ret]
         else if u32_at b 24 = 29 then line [dump_head b, Some (''event: mkdir, mode: '' @ mode @ '', '' @ inos), ret]
         else if u32_at b 24 = 30 then line [dump_head b, Some (''event: rmdir, '' @ inos), ret]
         else line [dump_head b])"

definition dump_SymLinkLog :: "tf_env \<Rightarrow> bytes \<Rightarrow> string outcome" where
  "dump_SymLinkLog env b =
     line [dump_head b, Some ''event: '', prec_at 16 b 56, Some '', old name: '', cstr_at b (56 + unat (u32_at b 44)),
       Some ('', dir inode: '' @ fmt_u (u64_at b 28) @ '', ino: '' @ fmt_u (u64_at b 36) @ '', ''), ret_text env (u64_at b 48)]"

definition dump_SeekLog :: "tf_env \<Rightarrow> bytes \<Rightarrow> string outcome" where
  "dump_SeekLog env b =
     line [dump_head b, Some ''event: '', prec_at 16 b 56, Some ('', offset: '' @ fmt_d (u64_at b 36) @ '', whence: '' @ fmt_d (u32_at b 44) @ '', ''),
       ino_text b, ret_text env (u64_at b 48)]"

text \<open>\<open>handle_event\<close>, by the number of the kind; an event of kind \<open>LOG_NONE\<close> ends the process.\<close>

definition tf_handle_event :: "tf_env \<Rightarrow> bytes \<Rightarrow> string outcome" where
  "tf_handle_event env b =
     (let t = unat (u32_at b 24)
      in if t = 0 then Aborted else if t = 1 then dump_OpenLog env b else if t = 2 then dump_CloseLog b
         else if t \<le> 6 then dump_XattrLog env b else if t \<le> 8 then dump_AclLog env b
         else if t = 9 then dump_ChownLog env b else if t = 10 then dump_ChmodLog env b
         else if t = 11 then dump_StatLog env b else if t = 12 then dump_MmapLog env b
         else if t = 13 then dump_FlckLog env b else if t = 14 then dump_FcntlLog env b
         else if t \<le> 16 then dump_LinkLog env b else if t = 17 then dump_TruncateLog env b
         else if t = 18 then dump_IoctlLog env b else if t = 19 then dump_RenameLog env b
         else if t = 20 then dump_FallocateLog env b else if t \<le> 22 then dump_RwLog env b
         else if t \<le> 24 then dump_RwvLog env b else if t \<le> 27 then dump_CopyLog env b
         else if t \<le> 30 then dump_DirLog env b else if t = 31 then dump_SymLinkLog env b
         else if t = 32 then dump_SeekLog env b else Done [])"

section \<open>Options and rule\<close>

text \<open>
  The union \<open>Rule\<close> is its 4096 bytes: a path, or eight zero bytes, an inode and a device. The static variables keep
  their values from one call of the library to the next.
\<close>

abbreviation PATH_MAX :: nat where "PATH_MAX \<equiv> 4096"

record tf_state =
  tf_rule :: string
  tf_use_inode :: bool
  tf_dev :: u64
  tf_watch :: watch_state

definition tf_start :: tf_state where
  "tf_start = \<lparr>tf_rule = replicate PATH_MAX NUL, tf_use_inode = False, tf_dev = 0, tf_watch = watch_start\<rparr>"

text \<open>\<open>makedev\<close> and \<open>sscanf(s, "%u:%u", ...)\<close>.\<close>

definition makedev :: "u32 \<Rightarrow> u32 \<Rightarrow> u64" where
  "makedev major minor =
     push_bit 8 (ucast major AND 0xfff) OR push_bit 32 (ucast major AND 0xfffff000) OR (ucast minor AND 0xff)
     OR push_bit 12 (ucast minor AND 0xffffff00)"

definition scan_dev :: "string \<Rightarrow> (u32 \<times> u32) option" where
  "scan_dev s =
     (case scan_number s of
        None \<Rightarrow> None
      | Some (neg, n, r) \<Rightarrow>
          (if r = [] \<or> hd r \<noteq> CHR '':'' \<or> scan_number (tl r) = None then None
           else Some (ucast (fst (strtoul10 s)), ucast (fst (strtoul10 (tl r))))))"

text \<open>\<open>strncpy(rule.path, arg, PATH_MAX)\<close> with a NUL at the end, less one slash at the end. An empty path makes the
  test look at the byte before the array.\<close>

definition set_path :: "string \<Rightarrow> string outcome" where
  "set_path arg =
     (let s = take (PATH_MAX - 1) (c_text arg); t = (if s \<noteq> [] \<and> last s = CHR ''/'' then butlast s else s)
      in if s = [] then Fault else Done (t @ replicate (PATH_MAX - length t) NUL))"

text \<open>One option; \<open>Inl\<close> is the status of \<open>exit\<close>.\<close>

definition tf_case :: "char \<Rightarrow> string \<Rightarrow> tf_state \<Rightarrow> (int + tf_state) outcome" where
  "tf_case opt optarg st =
     (if opt = CHR ''p'' then
        (if tf_use_inode st then Done (Inl (- 1)) else bind_outcome (set_path optarg) (\<lambda>p. Done (Inr (st\<lparr>tf_rule := p\<rparr>))))
      else if opt = CHR ''d'' then
        (case scan_dev optarg of
           None \<Rightarrow> Done (Inl (- 1))
         | Some (major, minor) \<Rightarrow>
             Done (Inr (st\<lparr>tf_dev := makedev major minor, tf_rule := replicate 8 NUL @ drop 8 (tf_rule st)\<rparr>)))
      else if opt = CHR ''i'' then
        (if hd (tf_rule st) \<noteq> NUL then Done (Inl (- 1)) else Done (Inr (st\<lparr>tf_use_inode := True\<rparr>)))
      else if opt = CHR ''h'' then Done (Inl 0)
      else Done (Inl (- 1)))"

fun tf_options :: "(char \<times> string) list \<Rightarrow> tf_state \<Rightarrow> (int + tf_state) outcome" where
  "tf_options [] st = Done (Inr st)"
| "tf_options ((opt, optarg) # os) st =
     bind_outcome (tf_case opt optarg st) (\<lambda>r. case r of Inl c \<Rightarrow> Done (Inl c) | Inr st' \<Rightarrow> tf_options os st')"

definition tf_parse_args :: "(char \<times> string) list \<Rightarrow> tf_state \<Rightarrow> (int + tf_state) outcome" where
  "tf_parse_args os st =
     bind_outcome (tf_options os st) (\<lambda>r. case r of Inl c \<Rightarrow> Done (Inl c) | Inr st' \<Rightarrow>
       if tf_use_inode st' then (if tf_dev st' = 0 then Done (Inl (- 1)) else Done (Inr st'))
       else if tf_dev st' \<noteq> 0 then Done (Inl (- 1))
       else if hd (tf_rule st') = NUL then Done (Inl 0)
       else Done (Inr st'))"

section \<open>Setting up and taking down\<close>

text \<open>
  What the calls give: \<open>ti_open\<close> is \<open>open\<close> on a path (\<open>Inl\<close> the errno), \<open>ti_fstat\<close> the inode of the file, and
  \<open>ti_reads\<close> what the reads of the iterator return.
\<close>

record tf_sys =
  ti_opts :: "(char \<times> string) list"
  ti_load :: bool
  ti_attach :: bool
  ti_filter :: bool
  ti_update :: bool
  ti_iter :: bool
  ti_open :: "string \<Rightarrow> int + unit"
  ti_fstat :: "int + u64"
  ti_malloc :: bool
  ti_reads :: "int list"
  ti_logs :: bool
  ti_ring :: bool
  ti_thread :: thread_try
  ti_sigaction :: bool

fun drain_iter :: "int list \<Rightarrow> unit outcome" where
  "drain_iter [] = Blocked"
| "drain_iter (n # ns) = (if n > 0 then drain_iter ns else Done ())"

text \<open>\<open>update_filter\<close>; the path is the rule up to its first NUL.\<close>

definition update_filter :: "tf_sys \<Rightarrow> tf_state \<Rightarrow> (int \<times> tf_state) outcome" where
  "update_filter sys st =
     (if \<not> ti_iter sys then Done (- 1, st)
      else case ti_open sys (c_text (tf_rule st)) of
        Inl e \<Rightarrow> Done (e, st)
      | Inr _ \<Rightarrow>
          (case (tf_use_inode st, ti_fstat sys) of
             (True, Inl e) \<Rightarrow> Done (e, st)
           | (ui, stat) \<Rightarrow>
               (let st1 = (if ui then st\<lparr>tf_rule := replicate 8 NUL @ le_chars (projr stat) @ le_chars (tf_dev st) @ drop 24 (tf_rule st)\<rparr> else st)
                in if \<not> ti_malloc sys then Done (- ENOMEM, st1)
                   else bind_outcome (drain_iter (ti_reads sys)) (\<lambda>_. Done (0, st1)))))"

definition trace_file_deinit :: "tf_state \<Rightarrow> tf_state watch_result outcome" where
  "trace_file_deinit st =
     bind_outcome (join_worker ((tf_watch st)\<lparr>w_exit := True\<rparr>)) (\<lambda>w.
       Done (Returns 0 (st\<lparr>tf_watch := destroy_obj (free_ring w)\<rparr>)))"

text \<open>The label \<open>err_out\<close>.\<close>

definition tf_err_out :: "tf_state \<Rightarrow> tf_state watch_result outcome" where
  "tf_err_out st =
     bind_outcome (trace_file_deinit st) (\<lambda>r. case r of Returns _ st' \<Rightarrow> Done (Returns (- 1) st') | Exits c \<Rightarrow> Done (Exits c) | Throws st' \<Rightarrow> Done (Throws st'))"

text \<open>
  From loading the object to the thread, and then what follows. An exception of the thread leaves the function
  at once, with the object and the ring in their pointers.
\<close>

definition tf_setup :: "tf_sys \<Rightarrow> (tf_state \<Rightarrow> tf_state watch_result outcome) \<Rightarrow> tf_state \<Rightarrow> tf_state watch_result outcome" where
  "tf_setup sys follow st =
     (let st1 = st\<lparr>tf_watch := set_obj (ti_load sys) (tf_watch st)\<rparr>
      in if \<not> ti_load sys then Done (Returns (- 1) st1)
         else if \<not> ti_attach sys \<or> \<not> ti_filter sys \<or> \<not> ti_update sys then tf_err_out st1
         else bind_outcome (update_filter sys st1) (\<lambda>(err, st2).
           if err \<noteq> 0 \<or> \<not> ti_logs sys then tf_err_out st2
           else let st3 = st2\<lparr>tf_watch := set_rb (ti_ring sys) (tf_watch st2)\<rparr>
                in if \<not> ti_ring sys then tf_err_out st3
                   else case ti_thread sys of
                     ThreadThrows \<Rightarrow> Done (Throws st3)
                   | NoMemory \<Rightarrow> tf_err_out (st3\<lparr>tf_watch := set_thread False (tf_watch st3)\<rparr>)
                   | ThreadRuns \<Rightarrow> follow (st3\<lparr>tf_watch := set_thread True (tf_watch st3)\<rparr>)))"

definition trace_file_init :: "tf_sys \<Rightarrow> tf_state \<Rightarrow> tf_state watch_result outcome" where
  "trace_file_init sys st =
     bind_outcome (tf_parse_args (ti_opts sys) st) (\<lambda>r. case r of Inl c \<Rightarrow> Done (Exits c) | Inr st1 \<Rightarrow>
       tf_setup sys (\<lambda>st'. Done (Returns 0 st')) (st1\<lparr>tf_watch := (tf_watch st1)\<lparr>w_exit := False\<rparr>\<rparr>))"

text \<open>\<open>main\<close> of the program: after the trace pipe ends it falls into \<open>err_out\<close>.\<close>

definition trace_file_main :: "tf_sys \<Rightarrow> tf_state watch_result outcome" where
  "trace_file_main sys =
     bind_outcome (tf_parse_args (ti_opts sys) tf_start) (\<lambda>r. case r of Inl c \<Rightarrow> Done (Exits c) | Inr st1 \<Rightarrow>
       if \<not> ti_sigaction sys then Done (Exits 1) else uncaught (tf_setup sys tf_err_out st1))"

section \<open>Names of extended attributes\<close>

fun commas :: "string list \<Rightarrow> string" where
  "commas [] = []"
| "commas [n] = n"
| "commas (n # ns) = n @ '','' @ commas ns"

lemma list_names_prints:
  assumes "drop off b = concat (map (\<lambda>n. n @ [0]) ns) @ post" "\<forall>n \<in> set ns. 0 \<notin> set n"
  shows "list_names b off (length (concat (map (\<lambda>n. n @ [0]) ns))) = Done (commas (map (map byte_char) ns))"
  using assms
proof (induction ns arbitrary: off)
  case Nil
  then show ?case by (simp add: list_names.simps)
next
  case (Cons n ns)
  let ?rest = "concat (map (\<lambda>n. n @ [0]) ns)"
  have d: "drop off b = n @ 0 # (?rest @ post)" using Cons.prems(1) by simp
  have "takeWhile (\<lambda>x. x \<noteq> 0) (n @ 0 # (?rest @ post)) = n" using Cons.prems(2) by (subst takeWhile_append2) auto
  then have s: "cstr_at b off = Some (map byte_char n)" by (simp add: cstr_at_def d)
  have "drop (off + (length n + 1)) b = drop (length n + 1) (drop off b)" by (simp add: add.commute)
  also have "\<dots> = ?rest @ post" unfolding d by simp
  finally have "drop (off + (length n + 1)) b = ?rest @ post" .
  from Cons.IH [OF this] Cons.prems(2) have ih: "list_names b (off + (length n + 1)) (length ?rest) = Done (commas (map (map byte_char) ns))" by simp
  have "ns = [] \<longleftrightarrow> length ?rest = 0" by (cases ns) simp_all
  then show ?case using s ih by (subst list_names.simps) (cases ns, simp_all)
qed

text \<open>an event of \<open>listxattr\<close> whose result is the list of names, each with its NUL, is printed with exactly
  these names in order, separated by commas.\<close>

theorem listxattr_prints_names:
  assumes "drop (60 + unat (u32_at b 36)) b = concat (map (\<lambda>n. n @ [0]) ns) @ post" "\<forall>n \<in> set ns. 0 \<notin> set n"
    and "unat (u64_at b 52) = length (concat (map (\<lambda>n. n @ [0]) ns))" "unat (u64_at b 52) < 2 ^ 63" "u64_at b 44 \<noteq> 0"
    and "u32_at b 24 = 5" "dump_head b = Some h" "prec_at 16 b 60 = Some act"
  shows "tf_handle_event env b = Done (h @ ''event: '' @ act @ '', names: '' @ commas (map (map byte_char) ns)
     @ ''(sz:'' @ fmt_u (u64_at b 44) @ ''), ino: '' @ fmt_u (u64_at b 28) @ '', '' @ the (ret_text env (u64_at b 52)))"
proof -
  have pos: "sint (u64_at b 52) = int (unat (u64_at b 52))" by (rule sint_small [OF assms(4)])
  have names: "dump_names b = Done (commas (map (map byte_char) ns))"
  proof (cases ns)
    case Nil
    then show ?thesis using assms(3) pos by (simp add: dump_names_def Let_def)
  next
    case (Cons n ns')
    then have "0 < sint (u64_at b 52)" using assms(3) pos by simp
    then show ?thesis using list_names_prints [OF assms(1,2)] assms(3,5) by (simp add: dump_names_def Let_def)
  qed
  show ?thesis using assms(6-8) names
    by (simp add: tf_handle_event_def dump_XattrLog_def line_def ino_text_def ret_text_def)
qed

text \<open>An event with two names.\<close>

definition ex_list :: bytes where
  "ex_list = [0, 0, 0, 0, 7, 0, 0, 0, 108, 115, 0, 0, 0, 0, 0, 0, 0, 0, 0, 0, 0, 0, 0, 0, 5, 0, 0, 0, 9, 0, 0, 0, 0, 0, 0, 0,
     5, 0, 0, 0, 0, 0, 0, 0, 64, 0, 0, 0, 0, 0, 0, 0, 5, 0, 0, 0, 0, 0, 0, 0, 108, 105, 115, 116, 0, 97, 0, 98, 99, 0]"

theorem listxattr_prints_names_witness:
  "tf_handle_event \<lparr>te_strerror = (\<lambda>e. ''?''), te_user = (\<lambda>u. None), te_group = (\<lambda>g. None), te_last = 6\<rparr> ex_list
     = Done (''uid:0 ls[7]: event: list, names: a,bc(sz:64), ino: 9, ret: 5(?)'' @ [NL])"
proof -
  have f: "u32_at ex_list 36 = 5" "u64_at ex_list 52 = 5" "u64_at ex_list 44 = 64" "u32_at ex_list 24 = 5" "u64_at ex_list 28 = 9"
    "u32_at ex_list 0 = 0" "u32_at ex_list 4 = 7"
    by (simp_all add: u32_at_def u64_at_def bytes_at_def ex_list_def)
  have h: "dump_head ex_list = Some ''uid:0 ls[7]: ''" by code_simp
  have a: "prec_at 16 ex_list 60 = Some ''list''" by code_simp
  have t: "fmt_u (64 :: u64) = ''64''" "fmt_u (9 :: u64) = ''9''" "fmt_d (5 :: u64) = ''5''" "map byte_char [97] = ''a''"
    "map byte_char [98, 99] = ''bc''" by code_simp+
  have d: "drop (60 + unat (u32_at ex_list 36)) ex_list = concat (map (\<lambda>n. n @ [0]) [[97], [98, 99]]) @ []"
    unfolding f(1) by (simp add: ex_list_def)
  show ?thesis
    using listxattr_prints_names [OF d _ _ _ _ f(4) h a] f t by (simp add: ret_text_def err_text_def)
qed

section \<open>Options\<close>

text \<open>Whenever the filter by inode is on, the rule holds no path.\<close>

definition tf_inv :: "tf_state \<Rightarrow> bool" where
  "tf_inv st \<longleftrightarrow> length (tf_rule st) = PATH_MAX \<and> (tf_use_inode st \<longrightarrow> hd (tf_rule st) = NUL)"

lemma set_path_length: "set_path arg = Done p \<Longrightarrow> length p = PATH_MAX"
  by (auto simp: set_path_def Let_def split: if_splits)

lemma tf_case_inv:
  assumes "tf_case opt optarg st = Done (Inr st')" "tf_inv st"
  shows "tf_inv st'" "tf_watch st' = tf_watch st"
  using assms by (auto simp: tf_case_def tf_inv_def bind_outcome_Done_iff set_path_length split: if_splits option.splits)

lemma tf_options_inv:
  assumes "tf_options os st = Done (Inr st')" "tf_inv st"
  shows "tf_inv st' \<and> tf_watch st' = tf_watch st"
  using assms
proof (induction os st rule: tf_options.induct)
  case (2 opt optarg os st)
  then obtain st1 where "tf_case opt optarg st = Done (Inr st1)" "tf_options os st1 = Done (Inr st')"
    by (cases "tf_case opt optarg st") (auto split: sum.splits)
  with 2 tf_case_inv [of opt optarg st st1] show ?case by auto
qed simp

lemma tf_parse_options:
  assumes "tf_parse_args os st = Done (Inr st')"
  shows "tf_options os st = Done (Inr st')" "tf_use_inode st' \<or> hd (tf_rule st') \<noteq> NUL"
  using assms by (cases "tf_options os st"; auto simp: tf_parse_args_def split: sum.splits if_splits)+

lemmas tf_parse_inv = tf_options_inv [OF tf_parse_options(1)]

section \<open>Starting and stopping\<close>

lemma trace_file_deinit_ok:
  assumes "watch_inv (tf_watch st)"
  shows "\<exists>w. trace_file_deinit st = Done (Returns 0 (st\<lparr>tf_watch := w\<rparr>)) \<and> watch_inv w \<and> idle w"
  using take_down_ok [OF assms] by (auto simp: trace_file_deinit_def)

lemma tf_err_out_ok:
  assumes "watch_inv (tf_watch st)"
  shows "\<exists>w. tf_err_out st = Done (Returns (- 1) (st\<lparr>tf_watch := w\<rparr>)) \<and> watch_inv w \<and> idle w"
  using trace_file_deinit_ok [OF assms] by (auto simp: tf_err_out_def)

lemma drain_iter_ends: "n \<in> set ns \<Longrightarrow> n \<le> 0 \<Longrightarrow> drain_iter ns = Done ()"
  by (induction ns) auto

lemma update_filter_returns:
  assumes "\<exists>n \<in> set (ti_reads sys). n \<le> 0"
  shows "\<exists>err st'. update_filter sys st = Done (err, st') \<and> tf_watch st' = tf_watch st"
proof -
  have "drain_iter (ti_reads sys) = Done ()" using assms drain_iter_ends by blast
  then show ?thesis by (auto simp: update_filter_def Let_def split: sum.splits bool.splits)
qed

lemma tf_setup_ok:
  assumes "watch_inv (tf_watch st)" "idle (tf_watch st)" "\<not> w_exit (tf_watch st)" "\<exists>n \<in> set (ti_reads sys). n \<le> 0"
  shows "(\<exists>v st'. tf_setup sys (\<lambda>st'. Done (Returns 0 st')) st = Done (Returns v st') \<and> watch_inv (tf_watch st')
       \<and> (v = - 1 \<and> idle (tf_watch st') \<or> v = 0 \<and> watching (tf_watch st')))
     \<or> (\<exists>st'. tf_setup sys (\<lambda>st'. Done (Returns 0 st')) st = Done (Throws st') \<and> watch_inv (tf_watch st'))"
proof -
  define st1 where "st1 = st\<lparr>tf_watch := set_obj (ti_load sys) (tf_watch st)\<rparr>"
  have w: "\<not> w_obj (tf_watch st)" "\<not> w_rb (tf_watch st)" "\<not> w_thread (tf_watch st)" using assms(2) by (simp_all add: idle_def)
  have i1: "watch_inv (tf_watch st1)" using taken_inv(1) [OF assms(1) w(1)] by (simp add: st1_def)
  obtain err st2 where u: "update_filter sys st1 = Done (err, st2)" "tf_watch st2 = tf_watch st1"
    using update_filter_returns [OF assms(4)] by blast
  define st3 where "st3 = st2\<lparr>tf_watch := set_rb (ti_ring sys) (tf_watch st2)\<rparr>"
  have i3: "watch_inv (tf_watch st3)" using taken_inv(2) [OF i1] u(2) w by (simp add: st3_def st1_def)
  define st4 where "st4 = st3\<lparr>tf_watch := set_thread (ti_thread sys = ThreadRuns) (tf_watch st3)\<rparr>"
  have i4: "watch_inv (tf_watch st4)" using taken_inv(3) [OF i3] u(2) w by (simp add: st4_def st3_def st1_def)
  have i2: "watch_inv (tf_watch st2)" using i1 u(2) by simp
  have on: "ti_load sys \<Longrightarrow> ti_ring sys \<Longrightarrow> ti_thread sys = ThreadRuns \<Longrightarrow> watching (tf_watch st4)"
    using u(2) assms(3) by (simp add: st4_def st3_def st1_def watching_def)
  have off: "\<not> ti_load sys \<Longrightarrow> idle (tf_watch st1)" using w by (simp add: st1_def idle_def)
  have eq: "tf_setup sys f st =
      (if \<not> ti_load sys then Done (Returns (- 1) st1)
       else if \<not> ti_attach sys \<or> \<not> ti_filter sys \<or> \<not> ti_update sys then tf_err_out st1
       else if err \<noteq> 0 \<or> \<not> ti_logs sys then tf_err_out st2
       else if \<not> ti_ring sys then tf_err_out st3
       else if ti_thread sys = ThreadThrows then Done (Throws st3)
       else if ti_thread sys = NoMemory then tf_err_out st4 else f st4)" for f
    using u(1) unfolding st4_def st3_def by (cases "ti_thread sys") (simp_all add: tf_setup_def st1_def [symmetric] Let_def)
  obtain w1 w2 w3 w4 where down: "tf_err_out st1 = Done (Returns (- 1) (st1\<lparr>tf_watch := w1\<rparr>))"
    "tf_err_out st2 = Done (Returns (- 1) (st2\<lparr>tf_watch := w2\<rparr>))" "tf_err_out st3 = Done (Returns (- 1) (st3\<lparr>tf_watch := w3\<rparr>))"
    "tf_err_out st4 = Done (Returns (- 1) (st4\<lparr>tf_watch := w4\<rparr>))" "watch_inv w1" "idle w1" "watch_inv w2" "idle w2"
    "watch_inv w3" "idle w3" "watch_inv w4" "idle w4"
    using tf_err_out_ok [OF i1] tf_err_out_ok [OF i2] tf_err_out_ok [OF i3] tf_err_out_ok [OF i4] by blast
  show ?thesis unfolding eq using down i1 i3 i4 on off by (cases "ti_thread sys") simp_all
qed

lemma tf_options_watch: "tf_options os st = Done (Inr st') \<Longrightarrow> tf_watch st' = tf_watch st"
proof (induction os st rule: tf_options.induct)
  case (2 opt optarg os st)
  then obtain st1 where st1: "tf_case opt optarg st = Done (Inr st1)" "tf_options os st1 = Done (Inr st')"
    by (cases "tf_case opt optarg st") (auto split: sum.splits)
  then have "tf_watch st1 = tf_watch st" by (auto simp: tf_case_def bind_outcome_Done_iff split: if_splits option.splits)
  with 2 st1 show ?case by auto
qed simp

definition tf_args_ok :: "tf_sys \<Rightarrow> bool" where
  "tf_args_ok sys \<longleftrightarrow> (\<forall>(c, a) \<in> set (ti_opts sys). c = CHR ''p'' \<longrightarrow> c_text a \<noteq> []) \<and> (\<exists>n \<in> set (ti_reads sys). n \<le> 0)"

lemma tf_options_total: "\<forall>(c, a) \<in> set os. c = CHR ''p'' \<longrightarrow> c_text a \<noteq> [] \<Longrightarrow> \<exists>r. tf_options os st = Done r"
proof (induction os st rule: tf_options.induct)
  case (2 opt optarg os st)
  have "\<exists>r. tf_case opt optarg st = Done r"
    using 2(2) by (auto simp: tf_case_def set_path_def Let_def split: option.split)
  then obtain r where "tf_case opt optarg st = Done r" ..
  with 2 show ?case by (cases r) auto
qed simp

lemma trace_file_init_ok:
  assumes "tf_args_ok sys" "watch_inv (tf_watch st)" "idle (tf_watch st)"
  shows "(\<exists>c. trace_file_init sys st = Done (Exits c)) \<or>
     (\<exists>v st'. trace_file_init sys st = Done (Returns v st') \<and> watch_inv (tf_watch st')
        \<and> (v = - 1 \<and> idle (tf_watch st') \<or> v = 0 \<and> watching (tf_watch st'))) \<or>
     (\<exists>st'. trace_file_init sys st = Done (Throws st') \<and> watch_inv (tf_watch st'))"
proof -
  have "\<forall>(c, a) \<in> set (ti_opts sys). c = CHR ''p'' \<longrightarrow> c_text a \<noteq> []" using assms(1) by (simp add: tf_args_ok_def)
  from tf_options_total [OF this] obtain r where "tf_options (ti_opts sys) st = Done r" ..
  then have "\<exists>r'. tf_parse_args (ti_opts sys) st = Done r'" by (cases r) (simp_all add: tf_parse_args_def)
  then obtain r' where r': "tf_parse_args (ti_opts sys) st = Done r'" ..
  show ?thesis
  proof (cases r')
    case (Inr st1)
    let ?st = "st1\<lparr>tf_watch := (tf_watch st1)\<lparr>w_exit := False\<rparr>\<rparr>"
    have w: "tf_watch st1 = tf_watch st" using r' unfolding Inr by (rule tf_options_watch [OF tf_parse_options(1)])
    have "watch_inv (tf_watch ?st)" "idle (tf_watch ?st)" "\<not> w_exit (tf_watch ?st)" using assms(2,3) w by (simp_all add: idle_def)
    moreover have "\<exists>n \<in> set (ti_reads sys). n \<le> 0" using assms(1) by (simp add: tf_args_ok_def)
    ultimately have "watch_inv (tf_watch ?st)" "idle (tf_watch ?st)" "\<not> w_exit (tf_watch ?st)" "\<exists>n \<in> set (ti_reads sys). n \<le> 0"
      by blast+
    note set_up = tf_setup_ok [OF this]
    have "trace_file_init sys st = tf_setup sys (\<lambda>st'. Done (Returns 0 st')) ?st" using r' Inr by (simp add: trace_file_init_def)
    then show ?thesis using set_up by (simp only: simp_thms)
  qed (use r' in \<open>simp add: trace_file_init_def\<close>)
qed

interpretation trace_file: watch_tool trace_file_init trace_file_deinit tf_watch tf_args_ok
proof unfold_locales
  fix e :: tf_sys and st :: tf_state
  assume "tf_args_ok e" "watch_inv (tf_watch st)" "idle (tf_watch st)"
  from trace_file_init_ok [OF this] show "(\<exists>code. trace_file_init e st = Done (Exits code)) \<or>
      (\<exists>v st'. trace_file_init e st = Done (Returns v st') \<and> watch_inv (tf_watch st') \<and> (idle (tf_watch st') \<or> v = 0 \<and> watching (tf_watch st'))) \<or>
      (\<exists>st'. trace_file_init e st = Done (Throws st') \<and> watch_inv (tf_watch st'))" by blast
next
  fix st :: tf_state
  assume "watch_inv (tf_watch st)"
  from trace_file_deinit_ok [OF this] show "\<exists>st'. trace_file_deinit st = Done (Returns 0 st') \<and> watch_inv (tf_watch st') \<and> idle (tf_watch st')"
    by force
qed

text \<open>C33: whichever calls of the system fail, a client that does not start twice without a stop neither leaks the
  object, the ring or the thread of the file trace, nor gives one back twice or while another uses it, nor hangs, and
  after a stop nothing is held, unless the options end the process. This includes a start that the exception
  of a thread which cannot be created leaves half done, where the client catches it: object and ring stay
  held (\<open>thread_failure_keeps\<close>) and the stop gives them back. It is taken for granted that the reads of the
  iterator come to an end, and that the option \<open>-p\<close> does not get an empty path, for which the code reads
  before its array (\<open>empty_path_faults\<close>).\<close>

theorem trace_file_sessions:
  assumes "alternates False cs" "\<forall>sys. Start sys \<in> set cs \<longrightarrow> tf_args_ok sys"
  shows "(\<exists>code. run_watch trace_file_init trace_file_deinit cs tf_start = Done (Exits code)) \<or>
     (\<exists>st. run_watch trace_file_init trace_file_deinit cs tf_start = Done (Returns 0 st) \<and> watch_inv (tf_watch st)
        \<and> (cs \<noteq> [] \<and> last cs = Stop \<longrightarrow> idle (tf_watch st)))"
  by (rule trace_file.session_from [OF assms]) (simp_all add: tf_start_def watch_start_def watch_defs)

definition ex_tf :: tf_sys where
  "ex_tf = \<lparr>ti_opts = [(CHR ''p'', ''/etc/'')], ti_load = True, ti_attach = True, ti_filter = True, ti_update = True, ti_iter = True,
     ti_open = (\<lambda>p. if p = [] then Inl 2 else Inr ()), ti_fstat = Inr 7, ti_malloc = True, ti_reads = [0], ti_logs = True, ti_ring = True,
     ti_thread = ThreadRuns, ti_sigaction = True\<rparr>"

theorem trace_file_sessions_witness:
  "\<exists>st. run_watch trace_file_init trace_file_deinit [Start ex_tf, Stop] tf_start = Done (Returns 0 st) \<and> idle (tf_watch st)"
proof -
  have "tf_args_ok ex_tf" by (simp add: tf_args_ok_def ex_tf_def c_text_def)
  moreover have "\<not> (\<exists>code. run_watch trace_file_init trace_file_deinit [Start ex_tf, Stop] tf_start = Done (Exits code))"
    by (simp add: trace_file_init_def tf_parse_args_def tf_case_def set_path_def c_text_def ex_tf_def tf_start_def tf_setup_def
        update_filter_def watch_defs trace_file_deinit_def watch_start_def)
  ultimately show ?thesis using trace_file_sessions [of "[Start ex_tf, Stop]"] by (simp del: run_watch.simps) blast
qed

text \<open>the filter by inode cannot be used. Options that turn it on leave no path in the rule, the set-up opens
  the empty path, which does not exist, and ends with an error and nothing held.\<close>

theorem inode_filter_never_starts:
  assumes "tf_inv st" "tf_parse_args (ti_opts sys) st = Done (Inr st1)" "tf_use_inode st1"
    and "watch_inv (tf_watch st)" "idle (tf_watch st)" "ti_open sys [] = Inl e" "e \<noteq> 0"
  shows "\<exists>st'. trace_file_init sys st = Done (Returns (- 1) st') \<and> watch_inv (tf_watch st') \<and> idle (tf_watch st')"
proof -
  have inv: "tf_inv st1" "tf_watch st1 = tf_watch st" using tf_parse_inv [OF assms(2,1)] by simp_all
  obtain r where "tf_rule st1 = NUL # r" using inv(1) assms(3) by (cases "tf_rule st1") (auto simp: tf_inv_def)
  then have path: "c_text (tf_rule st1) = []" by (simp add: c_text_def)
  define st2 where "st2 = st1\<lparr>tf_watch := set_obj (ti_load sys) ((tf_watch st1)\<lparr>w_exit := False\<rparr>)\<rparr>"
  have "watch_inv (tf_watch st2)" using assms(4,5) inv(2) by (simp add: st2_def taken_inv idle_def)
  from tf_err_out_ok [OF this] obtain w where down: "tf_err_out st2 = Done (Returns (- 1) (st2\<lparr>tf_watch := w\<rparr>))" "watch_inv w" "idle w"
    by blast
  have "\<exists>err. update_filter sys st2 = Done (err, st2) \<and> err \<noteq> 0"
    using path assms(6,7) by (simp add: update_filter_def st2_def)
  then obtain err where "update_filter sys st2 = Done (err, st2)" "err \<noteq> 0" by blast
  then have "trace_file_init sys st = (if ti_load sys then tf_err_out st2 else Done (Returns (- 1) st2))"
    using assms(2) unfolding st2_def by (cases "ti_load sys") (simp_all add: trace_file_init_def tf_setup_def Let_def)
  moreover have "\<not> ti_load sys \<Longrightarrow> watch_inv (tf_watch st2) \<and> idle (tf_watch st2)"
    using assms(4,5) inv(2) by (simp add: st2_def taken_inv idle_def)
  ultimately show ?thesis using down by (cases "ti_load sys") auto
qed

theorem inode_filter_never_starts_witness:
  "\<exists>st'. trace_file_init (ex_tf\<lparr>ti_opts := [(CHR ''d'', ''8:1''), (CHR ''i'', [])]\<rparr>) tf_start = Done (Returns (- 1) st') \<and> idle (tf_watch st')"
proof -
  let ?st = "tf_start\<lparr>tf_dev := makedev 8 1, tf_rule := replicate 8 NUL @ drop 8 (tf_rule tf_start), tf_use_inode := True\<rparr>"
  have dev: "scan_dev ''8:1'' = Some (8, 1)"
    by (simp add: scan_dev_def scan_number_def strtoul10_def is_space_def is_digit_def digit_val_def)
  have "makedev 8 1 \<noteq> 0" by (simp add: makedev_def)
  then have "tf_parse_args [(CHR ''d'', ''8:1''), (CHR ''i'', [])] tf_start = Done (Inr ?st)"
    using dev by (simp add: tf_parse_args_def tf_case_def)
  moreover have "tf_inv tf_start" "watch_inv (tf_watch tf_start)" "idle (tf_watch tf_start)"
    by (simp_all add: tf_start_def tf_inv_def watch_start_def watch_defs)
  ultimately show ?thesis
    using inode_filter_never_starts [of tf_start "ex_tf\<lparr>ti_opts := [(CHR ''d'', ''8:1''), (CHR ''i'', [])]\<rparr>" ?st 2]
    by (auto simp: ex_tf_def)
qed

text \<open>A path is stored without one slash at its end; \<open>/\<close> itself becomes the empty path, and the process ends.\<close>

lemma path_stored:
  assumes "NUL \<notin> set p" "length p < PATH_MAX" "p \<noteq> []"
  shows "set_path p = Done (let t = (if last p = CHR ''/'' then butlast p else p) in t @ replicate (PATH_MAX - length t) NUL)"
proof -
  have "c_text p = p" using assms(1) by (auto simp: c_text_def takeWhile_eq_all_conv)
  then show ?thesis using assms(2,3) by (simp add: set_path_def Let_def)
qed

lemma root_exits: "tf_parse_args [(CHR ''p'', ''/'')] tf_start = Done (Inl 0)"
  using path_stored [of "''/''"] by (simp add: tf_parse_args_def tf_case_def tf_start_def)

lemma no_path_exits: "tf_parse_args [] tf_start = Done (Inl 0)"
  by (simp add: tf_parse_args_def tf_start_def)

text \<open>The exception of a thread that cannot be started leaves the object and the ring in use.\<close>

lemma thread_failure_keeps:
  "\<exists>st. trace_file_init (ex_tf\<lparr>ti_thread := ThreadThrows\<rparr>) tf_start = Done (Throws st)
     \<and> held (tf_watch st) = {SkelObj, Ring} \<and> watch_inv (tf_watch st)"
  by (simp add: trace_file_init_def tf_parse_args_def tf_case_def set_path_def c_text_def ex_tf_def tf_start_def tf_setup_def
      update_filter_def watch_defs watch_start_def insert_commute)

lemma empty_path_faults: "tf_parse_args [(CHR ''p'', [])] tf_start = Fault"
  by (simp add: tf_parse_args_def tf_case_def set_path_def c_text_def tf_start_def)

text \<open>A second start without a stop overwrites the pointers to the first object, ring and thread.\<close>

lemma second_start_leaks:
  "\<exists>st. run_watch trace_file_init trace_file_deinit [Start ex_tf, Start ex_tf, Stop] tf_start = Done (Returns 0 st)
     \<and> idle (tf_watch st) \<and> balance SkelObj (w_log (tf_watch st)) = 1 \<and> balance Worker (w_log (tf_watch st)) = 1"
  by (simp add: trace_file_init_def tf_parse_args_def tf_case_def set_path_def c_text_def ex_tf_def tf_start_def tf_setup_def
      update_filter_def watch_defs trace_file_deinit_def watch_start_def balance_def)

text \<open>The program never ends with success.\<close>

definition not_success :: "'s watch_result \<Rightarrow> bool" where
  "not_success r \<longleftrightarrow> (case r of Exits c \<Rightarrow> True | Returns v st \<Rightarrow> v = - 1 | Throws st \<Rightarrow> True)"

lemma not_success_simps: "not_success (Exits c)" "not_success (Returns v st) \<longleftrightarrow> v = - 1" "not_success (Throws st)"
  by (simp_all add: not_success_def)

lemma tf_err_out_status: "tf_err_out st = Done x \<Longrightarrow> not_success x"
  by (cases "trace_file_deinit st") (auto simp: tf_err_out_def not_success_def split: watch_result.splits)

lemma trace_file_main_status: "trace_file_main sys = Done r \<Longrightarrow> not_success r"
proof -
  have "tf_setup sys tf_err_out st = Done x \<Longrightarrow> not_success x" for st x
    by (cases "update_filter sys (st\<lparr>tf_watch := set_obj (ti_load sys) (tf_watch st)\<rparr>)")
       (auto simp: tf_setup_def Let_def not_success_simps split: if_splits thread_try.splits intro: tf_err_out_status)
  then have "uncaught (tf_setup sys tf_err_out st) = Done x \<Longrightarrow> not_success x" for st x
    by (cases "tf_setup sys tf_err_out st") (auto simp: uncaught_def split: watch_result.splits)
  moreover assume "trace_file_main sys = Done r"
  ultimately show ?thesis
    by (cases "tf_parse_args (ti_opts sys) tf_start")
       (auto simp: trace_file_main_def not_success_simps split: sum.splits if_splits)
qed

text \<open>The text of a mode shows one of the three groups of bits three times.\<close>

lemma mode3_repeats: "mode3_text env m = concat (replicate 3 (mode_str (drop_bit (te_last env) m)))"
  by (simp add: mode3_text_def Let_def numeral_3_eq_3)

text \<open>If the first call is evaluated last, 0644 and 0600 look the same.\<close>

lemma chmod_same_text: "te_last env = 6 \<Longrightarrow> mode3_text env 420 = mode3_text env 384"
  by (simp add: mode3_text_def)

text \<open>A vector without elements is a fault.\<close>

lemma empty_vector_faults: "u32_at b 40 = 0 \<Longrightarrow> dump_RwvLog env b = Fault"
  by (simp add: dump_RwvLog_def sizes_text_def)

end
