(* ===== verification/Irqsnoop.thy ===== *)
theory Irqsnoop
  imports Watch_Tool
begin

text \<open>
  \<open>observe/irqsnoop.cpp\<close>: the time of interrupts. The options, the text of an event, the loop that polls a given number
  of turns_left, and setting up and taking down. The structure of an event is declared in a submodule; the record has the
  fields that are printed.
\<close>

section \<open>Options\<close>

record irq_opts =
  io_distributed :: bool
  io_nanoseconds :: bool
  io_count :: bool
  io_interval :: int
  io_times :: int
  io_timestamp :: bool
  io_verbose :: bool

definition irq_defaults :: irq_opts where
  "irq_defaults = \<lparr>io_distributed = False, io_nanoseconds = False, io_count = False, io_interval = 99999999, io_times = 99999999,
     io_timestamp = False, io_verbose = False\<rparr>"

datatype irq_key = IOpt char | IArg string

text \<open>One call of \<open>parse_arg\<close>; \<open>Inl\<close> is the status with which \<open>argp\<close> ends the process. \<open>pos_args\<close> counts the positional
  arguments and is never reset.\<close>

definition irq_parse_arg :: "irq_key \<Rightarrow> irq_opts \<times> nat \<Rightarrow> int + irq_opts \<times> nat" where
  "irq_parse_arg key st =
     (case st of (o1, pos_args) \<Rightarrow>
        (case key of
           IOpt c \<Rightarrow>
             (if c = CHR ''h'' then Inl 0
              else if c = CHR ''v'' then Inr (o1\<lparr>io_verbose := True\<rparr>, pos_args)
              else if c = CHR ''d'' then Inr (o1\<lparr>io_distributed := True\<rparr>, pos_args)
              else if c = CHR ''N'' then Inr (o1\<lparr>io_nanoseconds := True\<rparr>, pos_args)
              else if c = CHR ''T'' then Inr (o1\<lparr>io_timestamp := True\<rparr>, pos_args)
              else if c = CHR ''C'' then Inr (o1\<lparr>io_count := True\<rparr>, pos_args)
              else Inl 64)
         | IArg arg \<Rightarrow>
             (case strtol10 arg of (v, r, erange) \<Rightarrow>
                if pos_args = 0 then (if erange then Inl 64 else Inr (o1\<lparr>io_interval := v\<rparr>, pos_args + 1))
                else if pos_args = 1 then (if erange then Inl 64 else Inr (o1\<lparr>io_times := to_int32 v\<rparr>, pos_args + 1))
                else Inl 64)))"

fun irq_argp_parse :: "irq_key list \<Rightarrow> irq_opts \<times> nat \<Rightarrow> int + irq_opts \<times> nat" where
  "irq_argp_parse [] st = Inr st"
| "irq_argp_parse (k # ks) st = (case irq_parse_arg k st of Inl c \<Rightarrow> Inl c | Inr st' \<Rightarrow> irq_argp_parse ks st')"

section \<open>Events\<close>

definition vec_names :: "string list" where
  "vec_names = [''hi'', ''timer'', ''net_tx'', ''net_rx'', ''block'', ''irq_poll'', ''tasklet'', ''sched'', ''hrtimer'', ''rcu'']"

datatype irq_type = IRQ | SOFT_IRQ | OtherIrq

record irq_event_t =
  ie_type :: irq_type
  ie_pid :: int
  ie_tid :: int
  ie_comm :: string
  ie_vec_nr :: int
  ie_name :: string
  ie_delta :: u64
  ie_ret :: int

definition irq_handle_event :: "irq_event_t \<Rightarrow> string outcome" where
  "irq_handle_event e =
     (let who = ''pid='' @ show_int (ie_pid e) @ '' tid='' @ show_int (ie_tid e) @ '' comm='' @ ie_comm e;
          cost = '' delta='' @ fmt_u (ie_delta e) @ ''ns ret='' @ show_int (ie_ret e) @ [NL]
      in if ie_pid e = 0 then Done []
         else case ie_type e of
           IRQ \<Rightarrow> Done (''[IRQ] '' @ who @ '' irq='' @ show_int (ie_vec_nr e) @ '' name='' @ ie_name e @ cost)
         | SOFT_IRQ \<Rightarrow>
             (if ie_vec_nr e < 0 \<or> ie_vec_nr e \<ge> int (length vec_names) then Fault
              else Done (''[SOFTIRQ] '' @ who @ '' vec='' @ vec_names ! nat (ie_vec_nr e) @ cost))
         | OtherIrq \<Rightarrow> Done [])"

section \<open>Polling\<close>

text \<open>
  \<open>ringbuffer_worker\<close>: the flag is looked at, the number of turns is counted down and the ring is polled. The value
  is how often it was polled and the counter that is left, which the static options keep.
\<close>

fun irq_worker :: "(bool \<times> int) list \<Rightarrow> int \<Rightarrow> (nat \<times> int) outcome" where
  "irq_worker [] turns_left = Blocked"
| "irq_worker ((exiting, err) # rest) turns_left =
     (if exiting then Done (0, turns_left)
      else let t = to_int32 (turns_left - 1)
           in if t = 0 then Done (0, t)
              else if err < 0 \<and> err \<noteq> - EINTR then Done (1, t)
              else bind_outcome (irq_worker rest t) (\<lambda>(n, t'). Done (n + 1, t')))"

section \<open>Setting up and taking down\<close>

record irq_state =
  iq_opts :: irq_opts
  iq_pos :: nat
  iq_watch :: watch_state

definition irq_start :: irq_state where
  "irq_start = \<lparr>iq_opts = irq_defaults, iq_pos = 0, iq_watch = watch_start\<rparr>"

record irq_sys =
  ii_keys :: "irq_key list"
  ii_open :: bool
  ii_load :: int
  ii_bss :: bool
  ii_attach :: int
  ii_ring :: bool
  ii_thread :: bool

definition irqsnoop_deinit :: "irq_state \<Rightarrow> irq_state watch_result outcome" where
  "irqsnoop_deinit st =
     bind_outcome (join_worker ((iq_watch st)\<lparr>w_exit := True\<rparr>)) (\<lambda>w.
       Done (Returns 0 (st\<lparr>iq_watch := destroy_obj (free_ring w)\<rparr>)))"

text \<open>The label \<open>cleanup\<close> gives back the ring and the object but leaves the pointers as they are.\<close>

definition irq_cleanup :: "int \<Rightarrow> irq_state \<Rightarrow> irq_state watch_result" where
  "irq_cleanup err st =
     (let w = iq_watch st
      in Returns (if err \<noteq> 0 then 1 else 0)
           (st\<lparr>iq_watch := w\<lparr>w_log := w_log w @ (if w_rb w then [Rel Ring] else []) @ [Rel SkelObj]\<rparr>\<rparr>))"

definition irq_setup :: "irq_sys \<Rightarrow> (irq_state \<Rightarrow> irq_state watch_result outcome) \<Rightarrow> irq_state \<Rightarrow> irq_state watch_result outcome" where
  "irq_setup sys follow st =
     (let st1 = st\<lparr>iq_watch := set_obj (ii_open sys) (iq_watch st)\<rparr>
      in if \<not> ii_open sys then Done (Returns 1 st1)
         else if ii_load sys \<noteq> 0 then Done (irq_cleanup (ii_load sys) st1)
         else if \<not> ii_bss sys then Done (irq_cleanup 0 st1)
         else if ii_attach sys \<noteq> 0 then Done (irq_cleanup (ii_attach sys) st1)
         else let st2 = st1\<lparr>iq_watch := set_rb (ii_ring sys) (iq_watch st1)\<rparr>
              in if \<not> ii_ring sys then Done (irq_cleanup 0 st2) else follow st2)"

definition irq_args :: "irq_sys \<Rightarrow> irq_state \<Rightarrow> int + irq_state" where
  "irq_args sys st =
     (case irq_argp_parse (ii_keys sys) (iq_opts st, iq_pos st) of
        Inl c \<Rightarrow> Inl c
      | Inr (o1, n) \<Rightarrow> Inr (st\<lparr>iq_opts := o1, iq_pos := n, iq_watch := (iq_watch st)\<lparr>w_exit := False\<rparr>\<rparr>))"

definition irqsnoop_init :: "irq_sys \<Rightarrow> irq_state \<Rightarrow> irq_state watch_result outcome" where
  "irqsnoop_init sys st =
     (case irq_args sys st of
        Inl c \<Rightarrow> Done (Exits c)
      | Inr st1 \<Rightarrow> irq_setup sys (\<lambda>st'.
          if ii_thread sys then Done (Returns 0 (st'\<lparr>iq_watch := set_thread True (iq_watch st')\<rparr>)) else Done (Throws st')) st1)"

text \<open>\<open>main\<close> polls itself and falls into \<open>cleanup\<close>; \<open>polls\<close> is what the loop sees.\<close>

definition irqsnoop_main :: "irq_sys \<Rightarrow> (bool \<times> int) list \<Rightarrow> irq_state watch_result outcome" where
  "irqsnoop_main sys polls =
     (case irq_args sys irq_start of
        Inl c \<Rightarrow> Done (Exits c)
      | Inr st1 \<Rightarrow>
          irq_setup sys (\<lambda>st'. bind_outcome (irq_worker polls (io_times (iq_opts st'))) (\<lambda>r. Done (irq_cleanup 0 st'))) st1)"

section \<open>What holds\<close>

text \<open>
  The loop polls once less than the number that was given, unless it is stopped or a poll fails.
\<close>

lemma irq_worker_polls:
  assumes "1 \<le> turns_left" "turns_left \<le> 2147483647" "nat turns_left \<le> length turns" "\<forall>(exiting, err) \<in> set turns. \<not> exiting \<and> (err \<ge> 0 \<or> err = - EINTR)"
  shows "irq_worker turns turns_left = Done (nat turns_left - 1, 0)"
  using assms
proof (induction turns turns_left rule: irq_worker.induct)
  case (2 exiting err rest turns_left)
  have t: "to_int32 (turns_left - 1) = turns_left - 1" using 2(2,3) by (intro to_int32_id) simp_all
  have e: "\<not> exiting" "err \<ge> 0 \<or> err = - EINTR" using 2(5) by auto
  show ?case
  proof (cases "turns_left = 1")
    case True
    then show ?thesis using t e by simp
  next
    case False
    have "irq_worker rest (turns_left - 1) = Done (nat (turns_left - 1) - 1, 0)"
      using 2(1) [OF e(1) refl] 2(2-5) False t e(2) by auto
    then show ?thesis using t e False 2(2) by (auto simp: nat_diff_distrib)
  qed
qed simp

text \<open>A successful start and a stop use everything correctly.\<close>

lemma irq_start_stop:
  assumes "watch_inv (iq_watch st)" "idle (iq_watch st)" "irq_args sys st = Inr st1"
    and "ii_open sys" "ii_load sys = 0" "ii_bss sys" "ii_attach sys = 0" "ii_ring sys" "ii_thread sys"
  shows "\<exists>st2 st3. irqsnoop_init sys st = Done (Returns 0 st2) \<and> watch_inv (iq_watch st2) \<and> watching (iq_watch st2)
     \<and> irqsnoop_deinit st2 = Done (Returns 0 st3) \<and> watch_inv (iq_watch st3) \<and> idle (iq_watch st3)"
proof -
  let ?w = "set_thread True (set_rb True (set_obj True ((iq_watch st)\<lparr>w_exit := False\<rparr>)))"
  let ?st2 = "st1\<lparr>iq_watch := ?w\<rparr>"
  have w1: "iq_watch st1 = (iq_watch st)\<lparr>w_exit := False\<rparr>"
    using assms(3) by (auto simp: irq_args_def split: sum.splits)
  have "irqsnoop_init sys st = Done (Returns 0 ?st2)"
    using assms(3-9) w1 by (simp add: irqsnoop_init_def irq_setup_def)
  moreover have inv: "watch_inv ?w" using assms(1,2) by (simp add: taken_inv idle_def)
  moreover have "watching ?w" by (simp add: watching_def)
  moreover obtain w' where "join_worker (?w\<lparr>w_exit := True\<rparr>) = Done w'" "watch_inv (destroy_obj (free_ring w'))" "idle (destroy_obj (free_ring w'))"
    using take_down_ok [OF inv] by blast
  ultimately show ?thesis by (intro exI [of _ ?st2] exI [of _ "st1\<lparr>iq_watch := destroy_obj (free_ring w')\<rparr>"]) (simp add: irqsnoop_deinit_def)
qed

text \<open>
  After a failed start the pointer to the object is left: a stop destroys it a second time. If the ring could not be
  created, the failed start even reports success.
\<close>

lemma failed_start_destroys_twice:
  assumes "ii_keys sys = []" "ii_open sys" "ii_load sys = 0" "ii_bss sys" "ii_attach sys = 0" "\<not> ii_ring sys"
  shows "\<exists>st. run_watch irqsnoop_init irqsnoop_deinit [Start sys, Stop] irq_start = Done (Returns 0 st)
     \<and> w_log (iq_watch st) = [Acq SkelObj, Rel SkelObj, Rel SkelObj] \<and> held_after (w_log (iq_watch st)) {} = None"
  using assms by (simp add: irqsnoop_init_def irq_args_def irq_setup_def irq_cleanup_def Let_def irq_start_def watch_start_def watch_defs irqsnoop_deinit_def)

text \<open>So the contract holds only as long as no call fails after the object was opened.\<close>

definition irq_calls_ok :: "irq_sys \<Rightarrow> bool" where
  "irq_calls_ok sys \<longleftrightarrow> ii_load sys = 0 \<and> ii_bss sys \<and> ii_attach sys = 0 \<and> ii_ring sys"

lemma irqsnoop_deinit_ok:
  assumes "watch_inv (iq_watch st)"
  shows "\<exists>st'. irqsnoop_deinit st = Done (Returns 0 st') \<and> watch_inv (iq_watch st') \<and> idle (iq_watch st')"
  using take_down_ok [OF assms] by (auto simp: irqsnoop_deinit_def)

lemma irqsnoop_init_ok:
  assumes "irq_calls_ok sys" "watch_inv (iq_watch st)" "idle (iq_watch st)"
  shows "(\<exists>c. irqsnoop_init sys st = Done (Exits c)) \<or>
     (\<exists>v st'. irqsnoop_init sys st = Done (Returns v st') \<and> watch_inv (iq_watch st')
        \<and> (idle (iq_watch st') \<or> v = 0 \<and> watching (iq_watch st'))) \<or>
     (\<exists>st'. irqsnoop_init sys st = Done (Throws st') \<and> watch_inv (iq_watch st'))"
proof (cases "irq_args sys st")
  case (Inl c)
  then show ?thesis by (simp add: irqsnoop_init_def)
next
  case (Inr st1)
  have w1: "iq_watch st1 = (iq_watch st)\<lparr>w_exit := False\<rparr>" using Inr by (auto simp: irq_args_def split: sum.splits)
  show ?thesis
  proof (cases "ii_open sys")
    case True
    show ?thesis
    proof (cases "ii_thread sys")
      case True
      then show ?thesis using irq_start_stop [OF assms(2,3) Inr] \<open>ii_open sys\<close> assms(1) by (auto simp: irq_calls_ok_def)
    next
      case False
      let ?st = "st1\<lparr>iq_watch := set_rb True (set_obj True (iq_watch st1))\<rparr>"
      have "irqsnoop_init sys st = Done (Throws ?st)"
        using Inr False True assms(1) by (simp add: irqsnoop_init_def irq_setup_def irq_calls_ok_def Let_def)
      moreover have "watch_inv (iq_watch ?st)" using assms(2,3) w1 by (simp add: taken_inv idle_def)
      ultimately show ?thesis by blast
    qed
  next
    case False
    let ?st = "st1\<lparr>iq_watch := set_obj False (iq_watch st1)\<rparr>"
    have "irqsnoop_init sys st = Done (Returns 1 ?st)" using Inr False by (simp add: irqsnoop_init_def irq_setup_def)
    moreover have "watch_inv (iq_watch ?st)" "idle (iq_watch ?st)" using assms(2,3) w1 by (simp_all add: taken_inv idle_def)
    ultimately show ?thesis by blast
  qed
qed

interpretation irqsnoop: watch_tool irqsnoop_init irqsnoop_deinit iq_watch irq_calls_ok
proof unfold_locales
  fix e :: irq_sys and st :: irq_state
  assume a: "irq_calls_ok e" "watch_inv (iq_watch st)" "idle (iq_watch st)"
  from irqsnoop_init_ok [OF a] show "(\<exists>code. irqsnoop_init e st = Done (Exits code)) \<or>
      (\<exists>v st'. irqsnoop_init e st = Done (Returns v st') \<and> watch_inv (iq_watch st') \<and> (idle (iq_watch st') \<or> v = 0 \<and> watching (iq_watch st'))) \<or>
      (\<exists>st'. irqsnoop_init e st = Done (Throws st') \<and> watch_inv (iq_watch st'))" by blast
next
  fix st :: irq_state
  assume "watch_inv (iq_watch st)"
  from irqsnoop_deinit_ok [OF this] show "\<exists>st'. irqsnoop_deinit st = Done (Returns 0 st') \<and> watch_inv (iq_watch st') \<and> idle (iq_watch st')"
    by force
qed

end
