(* ===== verification/Watch_Api.thy ===== *)
theory Watch_Api
  imports Dkapture_Api Mountsnoop Trace_File Irqsnoop
begin

text \<open>
  The watch functions of the library (\<open>so/dkapture.cpp\<close>) on the observers that they start and stop: what \<open>Dkapture_Api\<close>
  computes as the call is run on the state of the three tools.
\<close>

record dk_watch =
  dw_mount :: ms_state
  dw_trace :: tf_state
  dw_irq :: irq_state

definition dk_watch_start :: dk_watch where
  "dk_watch_start = \<lparr>dw_mount = ms_start, dw_trace = tf_start, dw_irq = irq_start\<rparr>"

text \<open>
  What the calls of the tools give, how \<open>getopt_long\<close> and \<open>argp\<close> take a command line apart, and the result of the
  calls to \<open>kmemleak\<close>, which keeps its own state.
\<close>

record dk_watch_env =
  de_mount :: ms_sys
  de_trace :: tf_sys
  de_irq :: irq_sys
  de_opts :: "string list \<Rightarrow> (char \<times> string) list"
  de_kmemleak :: "watch_call \<Rightarrow> int"

definition on_part :: "('p \<Rightarrow> 's) \<Rightarrow> 'p watch_result outcome \<Rightarrow> 's watch_result outcome" where
  "on_part put r = bind_outcome r (\<lambda>x. case x of Returns v p \<Rightarrow> Done (Returns v (put p)) | Exits c \<Rightarrow> Done (Exits c) | Throws p \<Rightarrow> Done (Throws (put p)))"

definition do_watch :: "dk_watch_env \<Rightarrow> watch_call \<Rightarrow> dk_watch \<Rightarrow> dk_watch watch_result outcome" where
  "do_watch env call dw =
     (case call of
        TraceFileInit argv \<Rightarrow>
          on_part (\<lambda>t. dw\<lparr>dw_trace := t\<rparr>) (trace_file_init ((de_trace env)\<lparr>ti_opts := de_opts env argv\<rparr>) (dw_trace dw))
      | TraceFileDeinit \<Rightarrow> on_part (\<lambda>t. dw\<lparr>dw_trace := t\<rparr>) (trace_file_deinit (dw_trace dw))
      | MountsnoopInit argv \<Rightarrow>
          on_part (\<lambda>m. dw\<lparr>dw_mount := m\<rparr>) (mountsnoop_init ((de_mount env)\<lparr>mi_keys := de_opts env argv\<rparr>) (dw_mount dw))
      | MountsnoopDeinit \<Rightarrow> on_part (\<lambda>m. dw\<lparr>dw_mount := m\<rparr>) (mountsnoop_deinit (dw_mount dw))
      | IrqsnoopInit argv \<Rightarrow>
          on_part (\<lambda>q. dw\<lparr>dw_irq := q\<rparr>) (irqsnoop_init ((de_irq env)\<lparr>ii_keys := map (IOpt \<circ> fst) (de_opts env argv)\<rparr>) (dw_irq dw))
      | IrqsnoopDeinit \<Rightarrow> on_part (\<lambda>q. dw\<lparr>dw_irq := q\<rparr>) (irqsnoop_deinit (dw_irq dw))
      | _ \<Rightarrow> Done (Returns (de_kmemleak env call) dw))"

text \<open>What is documented of \<open>getopt_long\<close> and used here.\<close>

definition opts_documented :: "dk_watch_env \<Rightarrow> bool" where
  "opts_documented env \<longleftrightarrow> de_opts env [''dkapture''] = [] \<and> (\<forall>p. de_opts env [''dkapture'', ''-p'', p] = [(CHR ''p'', p)])"

lemma watch_path_call:
  assumes "p \<noteq> []"
  shows "file_watch (Some p) True = TraceFileInit [''dkapture'', ''-p'', p]" "fs_watch (Some p) True = TraceFileInit [''dkapture'', ''-p'', p]"
  using assms by (simp_all add: file_watch_def fs_watch_def)

lemma start_trace:
  assumes "opts_documented env" "c_text p \<noteq> []" "\<exists>n \<in> set (ti_reads (de_trace env)). n \<le> 0"
    and "watch_inv (tf_watch (dw_trace dw))" "idle (tf_watch (dw_trace dw))"
    and "do_watch env (TraceFileInit [''dkapture'', ''-p'', p]) dw = Done (Returns v dw')"
  shows "\<exists>t. dw' = dw\<lparr>dw_trace := t\<rparr> \<and> watch_inv (tf_watch t) \<and> (v = - 1 \<and> idle (tf_watch t) \<or> v = 0 \<and> watching (tf_watch t))"
proof -
  let ?sys = "(de_trace env)\<lparr>ti_opts := [(CHR ''p'', p)]\<rparr>"
  have call: "do_watch env (TraceFileInit [''dkapture'', ''-p'', p]) dw = on_part (\<lambda>t. dw\<lparr>dw_trace := t\<rparr>) (trace_file_init ?sys (dw_trace dw))"
    using assms(1) by (simp add: do_watch_def opts_documented_def)
  have "tf_args_ok ?sys" using assms(2,3) by (simp add: tf_args_ok_def)
  from trace_file_init_ok [OF this assms(4,5)] show ?thesis
  proof (elim disjE exE)
    fix c
    assume "trace_file_init ?sys (dw_trace dw) = Done (Exits c)"
    then show ?thesis using assms(6) call by (simp add: on_part_def)
  next
    fix u t
    assume h: "trace_file_init ?sys (dw_trace dw) = Done (Returns u t) \<and> watch_inv (tf_watch t) \<and> (u = - 1 \<and> idle (tf_watch t) \<or> u = 0 \<and> watching (tf_watch t))"
    then have "u = v" "dw' = dw\<lparr>dw_trace := t\<rparr>" using assms(6) call by (simp_all add: on_part_def)
    then show ?thesis using h by (intro exI [of _ t]) blast
  next
    fix t
    assume "trace_file_init ?sys (dw_trace dw) = Done (Throws t) \<and> watch_inv (tf_watch t)"
    then show ?thesis using assms(6) call by (simp add: on_part_def)
  qed
qed

text \<open>C32: a watch of one file is released by its own stop, and by no other: \<open>fs_watch\<close> with a path starts the file trace,
  but its stop ends the trace of mounts and returns success while the object, the ring and the thread of the file trace
  stay; only the stop of \<open>file_watch\<close> gives them back.\<close>

theorem fs_watch_stop_misses:
  assumes "opts_documented env" "c_text p \<noteq> []" "\<exists>n \<in> set (ti_reads (de_trace env)). n \<le> 0"
    and "do_watch env (fs_watch (Some p) True) dk_watch_start = Done (Returns 0 dw)"
  shows "\<exists>dw1 dw2. do_watch env (fs_watch q False) dw = Done (Returns 0 dw1) \<and> watching (tf_watch (dw_trace dw1))
     \<and> do_watch env (file_watch q False) dw1 = Done (Returns 0 dw2) \<and> idle (tf_watch (dw_trace dw2)) \<and> watch_inv (tf_watch (dw_trace dw2))"
proof -
  have "p \<noteq> []" using assms(2) by (auto simp: c_text_def)
  then have start: "do_watch env (TraceFileInit [''dkapture'', ''-p'', p]) dk_watch_start = Done (Returns 0 dw)"
    using assms(4) watch_path_call(2) by simp
  have inv0: "watch_inv (tf_watch (dw_trace dk_watch_start))" "idle (tf_watch (dw_trace dk_watch_start))" "watch_inv (ms_watch (dw_mount dk_watch_start))"
    by (simp_all add: dk_watch_start_def tf_start_def ms_start_def watch_start_def watch_defs)
  from start_trace [OF assms(1-3) inv0(1,2) start] obtain t where t: "dw = dk_watch_start\<lparr>dw_trace := t\<rparr>" "watch_inv (tf_watch t)" "watching (tf_watch t)"
    by auto
  obtain w where m: "mountsnoop_deinit (dw_mount dw) = Done (Returns 0 ((dw_mount dw)\<lparr>ms_watch := w\<rparr>))"
    using mountsnoop_deinit_ok inv0(3) t(1) by fastforce
  obtain w' where d: "trace_file_deinit t = Done (Returns 0 (t\<lparr>tf_watch := w'\<rparr>))" "watch_inv w'" "idle w'"
    using trace_file_deinit_ok [OF t(2)] by blast
  let ?dw1 = "dw\<lparr>dw_mount := (dw_mount dw)\<lparr>ms_watch := w\<rparr>\<rparr>"
  have "do_watch env (fs_watch q False) dw = Done (Returns 0 ?dw1)" using m by (simp add: do_watch_def fs_watch_def on_part_def)
  moreover have "do_watch env (file_watch q False) ?dw1 = Done (Returns 0 (?dw1\<lparr>dw_trace := t\<lparr>tf_watch := w'\<rparr>\<rparr>))"
    using d(1) t(1) by (simp add: do_watch_def file_watch_def on_part_def)
  ultimately show ?thesis using t d by (intro exI [of _ ?dw1] exI [of _ "?dw1\<lparr>dw_trace := t\<lparr>tf_watch := w'\<rparr>\<rparr>"]) simp
qed

text \<open>A first \<open>file_watch\<close> without a path ends the process of the client.\<close>

lemma file_watch_all_exits:
  assumes "opts_documented env"
  shows "do_watch env (file_watch None True) dk_watch_start = Done (Exits 0)" "do_watch env (file_watch (Some []) True) dk_watch_start = Done (Exits 0)"
  using assms no_path_exits by (simp_all add: do_watch_def file_watch_def on_part_def opts_documented_def trace_file_init_def dk_watch_start_def)

text \<open>A failing \<open>irq_watch\<close> followed by its stop destroys the object twice.\<close>

lemma irq_watch_destroys_twice:
  assumes "opts_documented env" "ii_open (de_irq env)" "ii_load (de_irq env) = e" "e \<noteq> 0"
  shows "\<exists>dw1 dw2. do_watch env (irq_watch True) dk_watch_start = Done (Returns 1 dw1) \<and> do_watch env (irq_watch False) dw1 = Done (Returns 0 dw2)
     \<and> w_log (iq_watch (dw_irq dw2)) = [Acq SkelObj, Rel SkelObj, Rel SkelObj]"
  using assms by (simp add: do_watch_def irq_watch_def on_part_def opts_documented_def dk_watch_start_def irqsnoop_init_def irq_args_def
      irq_setup_def irq_cleanup_def Let_def irq_start_def watch_start_def watch_defs irqsnoop_deinit_def)

text \<open>An environment in which everything succeeds.\<close>

definition ex_watch_env :: dk_watch_env where
  "ex_watch_env = \<lparr>de_mount = \<lparr>mi_keys = [], mi_open = True, mi_load = 0, mi_attach = 0, mi_events = True, mi_filter = True, mi_ring = True,
       mi_thread = ThreadRuns, mi_signal = True\<rparr>,
     de_trace = ex_tf, de_irq = \<lparr>ii_keys = [], ii_open = True, ii_load = 0, ii_bss = True, ii_attach = 0, ii_ring = True, ii_thread = True\<rparr>,
     de_opts = (\<lambda>argv. if length argv = 3 then [(CHR ''p'', argv ! 2)] else []), de_kmemleak = (\<lambda>c. 0)\<rparr>"

theorem fs_watch_stop_misses_witness:
  "\<exists>dw dw1 dw2. do_watch ex_watch_env (fs_watch (Some ''/etc'') True) dk_watch_start = Done (Returns 0 dw)
     \<and> do_watch ex_watch_env (fs_watch None False) dw = Done (Returns 0 dw1) \<and> watching (tf_watch (dw_trace dw1))
     \<and> do_watch ex_watch_env (file_watch None False) dw1 = Done (Returns 0 dw2) \<and> idle (tf_watch (dw_trace dw2))"
proof -
  have "opts_documented ex_watch_env" by (simp add: opts_documented_def ex_watch_env_def)
  moreover have "c_text ''/etc'' \<noteq> []" by (simp add: c_text_def)
  moreover have "\<exists>n \<in> set (ti_reads (de_trace ex_watch_env)). n \<le> 0" by (simp add: ex_watch_env_def ex_tf_def)
  moreover have "\<exists>dw. do_watch ex_watch_env (fs_watch (Some ''/etc'') True) dk_watch_start = Done (Returns 0 dw)"
    by (simp add: do_watch_def fs_watch_def on_part_def ex_watch_env_def dk_watch_start_def trace_file_init_def tf_parse_args_def tf_case_def
        set_path_def c_text_def ex_tf_def tf_start_def tf_setup_def update_filter_def Let_def)
  ultimately show ?thesis using fs_watch_stop_misses [of ex_watch_env "''/etc''" _ None] by blast
qed

end
