(* ===== verification/Lscgroup.thy ===== *)
theory Lscgroup
  imports C_Format Ksyms
begin

text \<open>
  \<open>observe/lscgroup.cpp\<close>: the control groups of the system. The filter rule, the kernel symbols it needs, reading the
  iterator into a buffer that is doubled until everything fits, and the listing.
\<close>

section \<open>The rule\<close>

record lscg_rule =
  cr_dfl_root :: u64
  cr_implicit_mask :: u64
  cr_threaded_mask :: u64
  cr_inhibit_mask :: u64
  cr_id :: u64
  cr_parent_id :: u64
  cr_level :: int
  cr_name :: string

definition lscg_rule_zero :: lscg_rule where
  "lscg_rule_zero = \<lparr>cr_dfl_root = 0, cr_implicit_mask = 0, cr_threaded_mask = 0, cr_inhibit_mask = 0, cr_id = 0, cr_parent_id = 0,
     cr_level = 0, cr_name = []\<rparr>"

definition strtol_value :: "string \<Rightarrow> int" where
  "strtol_value s = fst (strtol10 s)"

fun cgl_parse_args :: "(char \<times> string) list \<Rightarrow> lscg_rule \<Rightarrow> int + lscg_rule" where
  "cgl_parse_args [] r = Inr r"
| "cgl_parse_args ((opt, arg) # os) r =
     (if opt = CHR ''i'' then cgl_parse_args os (r\<lparr>cr_id := of_int (strtol_value arg)\<rparr>)
      else if opt = CHR ''p'' then cgl_parse_args os (r\<lparr>cr_parent_id := of_int (strtol_value arg)\<rparr>)
      else if opt = CHR ''l'' then cgl_parse_args os (r\<lparr>cr_level := to_int32 (strtol_value arg)\<rparr>)
      else if opt = CHR ''n'' then (if length arg \<ge> 4096 then Inl (- 1) else cgl_parse_args os (r\<lparr>cr_name := arg\<rparr>))
      else if opt = CHR ''h'' then Inl 0
      else Inl (- 1))"

text \<open>\<open>lookup_ksyms\<close>; \<open>kallsyms\<close> is the file of symbols.\<close>

definition lookup_ksyms :: "string option \<Rightarrow> lscg_rule \<Rightarrow> lscg_rule" where
  "lookup_ksyms kallsyms r =
     (let root = kallsyms_lookup kallsyms ''cgrp_dfl_root''
      in if root = 0 then r
         else r\<lparr>cr_dfl_root := root, cr_implicit_mask := kallsyms_lookup kallsyms ''cgrp_dfl_implicit_ss_mask'',
                cr_threaded_mask := kallsyms_lookup kallsyms ''cgrp_dfl_threaded_ss_mask'',
                cr_inhibit_mask := kallsyms_lookup kallsyms ''cgrp_dfl_inhibit_ss_mask''\<rparr>)"

section \<open>The listing\<close>

text \<open>\<open>sizeof(struct BpfData)\<close>; the name follows.\<close>

abbreviation CG_SZ :: nat where "CG_SZ \<equiv> 64"

definition cg_row :: "bytes \<Rightarrow> string \<Rightarrow> string" where
  "cg_row b name =
     pad_left 6 (fmt_u (u64_at b 0)) @ '' '' @ pad_left 6 (fmt_u (u64_at b 8)) @ '' '' @ pad_left 4 (fmt_d (u32_at b 16)) @ '' ''
     @ pad_left 10 (fmt_d (u32_at b 20)) @ '' '' @ pad_left 6 (fmt_d (u32_at b 24)) @ '' '' @ pad_left 10 (fmt_d (u32_at b 28)) @ '' ''
     @ pad_left 10 (fmt_d (u32_at b 32)) @ '' '' @ pad_left 6 (fmt_d (u32_at b 36)) @ '' '' @ pad_left 6 (fmt_d (u32_at b 40)) @ '' ''
     @ pad_left 6 (fmt_d (u32_at b 44)) @ '' '' @ pad_left 6 (fmt_d (u32_at b 48)) @ ''     '' @ zero_pad 4 (show_hex (unat (u16_at b 54))) @ '' ''
     @ zero_pad 4 (show_hex (unat (u16_at b 52))) @ '' '' @ pad_left 8 (show_hex (unat (u64_at b 56))) @ '' '' @ name @ [NL]"

text \<open>The records one after the other; the loop ends at a name without its NUL.\<close>

function cg_rows :: "bytes \<Rightarrow> string list" where
  "cg_rows b =
     (if length b < CG_SZ then []
      else let name = takeWhile (\<lambda>x. x \<noteq> 0) (drop CG_SZ b); slen = length name
           in if slen = length b - CG_SZ then []
              else cg_row b (map byte_char name) # cg_rows (drop (CG_SZ + slen + 1) b))"
  by pat_completeness auto

termination
  by (relation "measure length") auto

declare cg_rows.simps [simp del]

definition css_line :: "bytes \<Rightarrow> nat \<Rightarrow> string outcome" where
  "css_line css i =
     (if css ! (12 * i) = 0 then Done (CHR 0x09 # ''bit '' @ pad_left 2 (show_nat i) @ '': nop'' @ [NL])
      else case cstr_at css (12 * i) of
        Some s \<Rightarrow> Done (CHR 0x09 # ''bit '' @ pad_left 2 (show_nat i) @ '': '' @ s @ [NL])
      | None \<Rightarrow> Fault)"

fun css_lines :: "bytes \<Rightarrow> nat list \<Rightarrow> string list outcome" where
  "css_lines css [] = Done []"
| "css_lines css (i # is) = bind_outcome (css_line css i) (\<lambda>l. bind_outcome (css_lines css is) (\<lambda>ls. Done (l # ls)))"

definition cg_heading :: string where
  "cg_heading = ''    ID parent  LVL  max-depth    DDT  dying-DDT    max-DDT   CSet D-kids t-kids T-kids  sub-ctl ctlr    flags name'' @ [NL]"

definition process_log :: "bytes \<Rightarrow> bytes \<Rightarrow> string list outcome" where
  "process_log css b =
     bind_outcome (css_lines css [0..<16]) (\<lambda>ls.
       Done ([''ctlr-bit-meaning:'' @ [NL]] @ ls @ [[NL], cg_heading, replicate (length cg_heading) CHR ''-'' @ [NL]] @ cg_rows b))"

section \<open>Reading\<close>

text \<open>
  The loop at \<open>repeat\<close>: a buffer that was filled completely is doubled and everything is read again. Each turn sees the
  iterator (\<open>None\<close> if it cannot be created) and what one read of a given size gives.
\<close>

datatype cg_read = IterFails | ReadFails | Whole bytes

fun read_cgroups :: "nat \<Rightarrow> (nat \<Rightarrow> int + bytes) option list \<Rightarrow> cg_read outcome" where
  "read_cgroups bsz [] = Blocked"
| "read_cgroups bsz (None # rs) = Done IterFails"
| "read_cgroups bsz (Some rd # rs) =
     (case rd bsz of
        Inl e \<Rightarrow> Done ReadFails
      | Inr d \<Rightarrow> if length d = bsz then read_cgroups (bsz * 2) rs else Done (Whole d))"

section \<open>The program\<close>

record lc_sys =
  lc_opts :: "(char \<times> string) list"
  lc_sigaction :: bool
  lc_kallsyms :: "string option"
  lc_load :: bool
  lc_link :: bool
  lc_attach :: bool
  lc_filter :: bool
  lc_css_map :: bool
  lc_update :: bool
  lc_turns :: "(nat \<Rightarrow> int + bytes) option list"
  lc_css :: "bytes option"

definition css_ids_of :: "lc_sys \<Rightarrow> bytes" where
  "css_ids_of sys = (case lc_css sys of Some b \<Rightarrow> b | None \<Rightarrow> replicate 192 0)"

text \<open>The exit status, the rule in the map, and the lines. \<open>err_out\<close> returns 0.\<close>

definition lscgroup_main :: "lc_sys \<Rightarrow> (int \<times> lscg_rule option \<times> string list) outcome" where
  "lscgroup_main sys =
     (case cgl_parse_args (lc_opts sys) lscg_rule_zero of
        Inl c \<Rightarrow> Done (c, None, [])
      | Inr r0 \<Rightarrow>
          (let r = lookup_ksyms (lc_kallsyms sys) r0
           in if \<not> lc_sigaction sys then Done (1, None, [])
              else if \<not> lc_load sys \<or> \<not> lc_link sys \<or> \<not> lc_attach sys then Done (- 1, None, [])
              else if \<not> lc_filter sys \<or> \<not> lc_css_map sys \<or> \<not> lc_update sys then Done (0, None, [])
              else bind_outcome (read_cgroups 8192 (lc_turns sys)) (\<lambda>rd.
                case rd of
                  Whole d \<Rightarrow> bind_outcome (process_log (css_ids_of sys) d) (\<lambda>ls. Done (0, Some r, ls))
                | _ \<Rightarrow> Done (0, Some r, []))))"

section \<open>What holds\<close>

text \<open>A record: its 64 bytes and the name with its NUL.\<close>

definition cg_rec_ok :: "bytes \<times> bytes \<Rightarrow> bool" where
  "cg_rec_ok r \<longleftrightarrow> length (fst r) = CG_SZ \<and> 0 \<notin> set (snd r)"

definition cg_bytes :: "bytes \<times> bytes \<Rightarrow> bytes" where
  "cg_bytes r = fst r @ snd r @ [0]"

lemma cg_row_append: "length h = CG_SZ \<Longrightarrow> cg_row (h @ r) n = cg_row h n"
  by (simp add: cg_row_def)

lemma cg_rows_records:
  assumes "\<forall>r \<in> set rs. cg_rec_ok r" "cg_rows rest = []"
  shows "cg_rows (concat (map cg_bytes rs) @ rest) = map (\<lambda>(h, n). cg_row h (map byte_char n)) rs"
  using assms(1)
proof (induction rs)
  case Nil
  then show ?case using assms(2) by simp
next
  case (Cons r rs)
  obtain h n where r: "r = (h, n)" by (cases r)
  have ok: "length h = CG_SZ" "0 \<notin> set n" using Cons.prems by (simp_all add: r cg_rec_ok_def)
  let ?t = "concat (map cg_bytes rs) @ rest"
  have name: "takeWhile (\<lambda>x. x \<noteq> 0) (n @ 0 # ?t) = n" using ok(2) by (subst takeWhile_append2) auto
  have "cg_rows (h @ n @ 0 # ?t) = cg_row h (map byte_char n) # cg_rows ?t"
    using ok name by (subst cg_rows.simps) (simp add: cg_row_append)
  then show ?case using Cons by (simp add: r cg_bytes_def [of "(h, n)"])
qed

text \<open>
  What one read delivers: the start of the stream, as many bytes as were asked for and as the kernel's buffer for the
  iterator holds, \<open>room\<close> (eight pages for a BPF iterator).
\<close>

lemma read_cgroups_first:
  assumes "\<forall>t \<in> set turns. \<exists>rd. t = Some rd \<and> (\<forall>n. rd n = Inr (take (min n room) s))" "0 < bsz"
    and "min room (length s) < bsz * 2 ^ k" "k < length turns"
  shows "read_cgroups bsz turns = Done (Whole (take room s))"
  using assms
proof (induction k arbitrary: bsz turns)
  case 0
  then obtain t ts where "turns = t # ts" by (cases turns) auto
  then obtain rd where "turns = Some rd # ts" "rd bsz = Inr (take (min bsz room) s)" using "0.prems"(1) by auto
  then show ?case using "0.prems"(3) by (cases "room \<le> bsz") (auto simp: min_def split: if_split_asm)
next
  case (Suc k)
  then obtain t ts where "turns = t # ts" by (cases turns) auto
  then obtain rd where t: "turns = Some rd # ts" "rd bsz = Inr (take (min bsz room) s)" using Suc.prems(1) by auto
  show ?case
  proof (cases "min room (length s) < bsz")
    case True
    then show ?thesis using t by (cases "room \<le> bsz") (auto simp: min_def split: if_split_asm)
  next
    case False
    have "read_cgroups (bsz * 2) ts = Done (Whole (take room s))"
      using Suc.prems t(1) by (intro Suc.IH) (simp_all add: mult.assoc)
    then show ?thesis using t False by (simp add: min_def split: if_split_asm)
  qed
qed

text \<open>A record that is cut is left out.\<close>

lemma cut_record_dropped:
  assumes "length p < CG_SZ \<or> 0 \<notin> set (drop CG_SZ p)"
  shows "cg_rows p = []"
proof (cases "length p < CG_SZ")
  case False
  then have "takeWhile (\<lambda>x. x \<noteq> 0) (drop CG_SZ p) = drop CG_SZ p" using assms by (metis (mono_tags, lifting) takeWhile_eq_all_conv)
  then have "length (takeWhile (\<lambda>x. x \<noteq> 0) (drop CG_SZ p)) = length p - CG_SZ" by (simp only: length_drop)
  then show ?thesis by (subst cg_rows.simps) (simp only: Let_def if_True simp_thms if_cancel)
qed (simp add: cg_rows.simps)

text \<open>The records that fit a number of bytes completely.\<close>

fun fitting :: "nat \<Rightarrow> (bytes \<times> bytes) list \<Rightarrow> (bytes \<times> bytes) list" where
  "fitting room [] = []"
| "fitting room (r # rs) = (if length (cg_bytes r) \<le> room then r # fitting (room - length (cg_bytes r)) rs else [])"

lemma cg_rows_start:
  assumes "\<forall>r \<in> set rs. cg_rec_ok r"
  shows "cg_rows (take room (concat (map cg_bytes rs))) = map (\<lambda>(h, n). cg_row h (map byte_char n)) (fitting room rs)"
  using assms
proof (induction rs arbitrary: room)
  case (Cons r rs)
  obtain h n where r: "r = (h, n)" by (cases r)
  have ok: "length h = CG_SZ" "0 \<notin> set n" using Cons.prems by (simp_all add: r cg_rec_ok_def)
  show ?case
  proof (cases "length (cg_bytes r) \<le> room")
    case True
    let ?t = "take (room - length (cg_bytes r)) (concat (map cg_bytes rs))"
    have name: "takeWhile (\<lambda>x. x \<noteq> 0) (n @ 0 # ?t) = n" using ok(2) by (subst takeWhile_append2) auto
    have row: "cg_rows (h @ n @ 0 # ?t) = cg_row h (map byte_char n) # cg_rows ?t"
      using ok name by (subst cg_rows.simps) (simp add: cg_row_append)
    have start: "take room (concat (map cg_bytes (r # rs))) = h @ n @ 0 # ?t"
      using True by (simp add: r cg_bytes_def [of "(h, n)"] take_Cons')
    have "cg_rows ?t = map (\<lambda>(h, n). cg_row h (map byte_char n)) (fitting (room - length (cg_bytes r)) rs)"
      using Cons by simp
    then show ?thesis unfolding start row using True by (simp add: r)
  next
    case False
    then have "take room (concat (map cg_bytes (r # rs))) = take room (h @ n)" by (simp add: r cg_bytes_def [of "(h, n)"])
    moreover have "cg_rows (take room (h @ n)) = []"
      by (rule cut_record_dropped) (use ok in \<open>auto simp: drop_take dest: in_set_takeD\<close>)
    ultimately show ?thesis using False by simp
  qed
qed (simp add: cg_rows.simps)

lemma fitting_all: "length (concat (map cg_bytes rs)) \<le> room \<Longrightarrow> fitting room rs = rs"
  by (induction rs arbitrary: room) auto

lemma fitting_iff: "fitting room rs = rs \<longleftrightarrow> length (concat (map cg_bytes rs)) \<le> room"
proof
  assume "fitting room rs = rs"
  then show "length (concat (map cg_bytes rs)) \<le> room"
    by (induction rs arbitrary: room) (fastforce split: if_split_asm)+
qed (rule fitting_all)

text \<open>C37: the control groups that are listed are those whose records fit completely into what one read of the iterator
  delivers, each with one line and in order; so the listing is complete exactly when the kernel's buffer
  holds all records, and otherwise the rest is lost without an error, since a read that does not fill
  the doubled buffer is taken for the end. The kernel is taken to give in each read the start of the same
  stream, up to the size that was asked for and up to the room of its buffer, and the program to read
  once more than the doublings that this needs.\<close>

theorem cgroup_listing_complete:
  assumes "\<forall>t \<in> set turns. \<exists>rd. t = Some rd \<and> (\<forall>n. rd n = Inr (take (min n room) (concat (map cg_bytes rs))))"
    and "min room (length (concat (map cg_bytes rs))) < 8192 * 2 ^ k" "k < length turns" "\<forall>r \<in> set rs. cg_rec_ok r"
  shows "\<exists>d. read_cgroups 8192 turns = Done (Whole d) \<and> cg_rows d = map (\<lambda>(h, n). cg_row h (map byte_char n)) (fitting room rs)
     \<and> (fitting room rs = rs \<longleftrightarrow> length (concat (map cg_bytes rs)) \<le> room)"
  using read_cgroups_first [OF assms(1) _ assms(2,3)] cg_rows_start [OF assms(4), of room] fitting_iff by simp

text \<open>Two groups of which the second does not fit.\<close>

theorem cgroup_listing_complete_witness:
  "\<exists>d. read_cgroups 8192 [Some (\<lambda>n. Inr (take (min n 100) (replicate 64 1 @ [97, 0] @ replicate 64 2 @ [98, 0])))] = Done (Whole d)
     \<and> cg_rows d = [cg_row (replicate 64 1) ''a'']"
proof -
  have "map byte_char [97] = ''a''" by code_simp
  then show ?thesis
    using cgroup_listing_complete [of "[Some (\<lambda>n. Inr (take (min n 100) (replicate 64 1 @ [97, 0] @ replicate 64 2 @ [98, 0])))]" 100
        "[(replicate 64 1, [97]), (replicate 64 2, [98])]" 0]
    by (simp add: cg_bytes_def cg_rec_ok_def)
qed

text \<open>The status is 0 although a map is missing or the rule could not be stored.\<close>

lemma lscgroup_silent:
  assumes "cgl_parse_args (lc_opts sys) lscg_rule_zero = Inr r" "lc_sigaction sys" "lc_load sys" "lc_link sys" "lc_attach sys" "\<not> lc_update sys"
  shows "lscgroup_main sys = Done (0, None, [])"
  using assms by (simp add: lscgroup_main_def)

text \<open>Without the root symbol no symbol is stored, and with it all four.\<close>

lemma lookup_ksyms_all:
  "lookup_ksyms None r = r"
  "kallsyms_lookup f ''cgrp_dfl_root'' \<noteq> 0 \<Longrightarrow> cr_inhibit_mask (lookup_ksyms f r) = kallsyms_lookup f ''cgrp_dfl_inhibit_ss_mask''"
  by (simp_all add: lookup_ksyms_def kallsyms_lookup_def)

end
