(* ===== verification/Std_Map.thy ===== *)
theory Std_Map
  imports Spin_Lock "HOL-Library.Char_ord" "HOL-Library.List_Lexorder"
begin

text \<open>
  \<open>std::map\<close> as the observation tools use it: they add one event after the other to the entry of its key and then go
  over the entries in the order of the keys. The map is the list of its entries. Strings are compared byte by byte.
\<close>

text \<open>\<open>v = m[k]; m[k] = f(v)\<close>, where a missing entry has the value \<open>v0\<close>.\<close>

fun sm_update :: "'k::linorder \<Rightarrow> 'v \<Rightarrow> ('v \<Rightarrow> 'v) \<Rightarrow> ('k \<times> 'v) list \<Rightarrow> ('k \<times> 'v) list" where
  "sm_update k v0 f [] = [(k, f v0)]"
| "sm_update k v0 f ((k', v) # m) =
     (if k < k' then (k, f v0) # (k', v) # m else if k = k' then (k', f v) # m else (k', v) # sm_update k v0 f m)"

definition sm_ok :: "('k::linorder \<times> 'v) list \<Rightarrow> bool" where
  "sm_ok m \<longleftrightarrow> sorted_wrt (<) (map fst m)"

lemma sm_ok_Nil [simp]: "sm_ok []"
  by (simp add: sm_ok_def)

lemma sm_update_keys: "fst ` set (sm_update k v0 f m) = insert k (fst ` set m)"
  by (induction k v0 f m rule: sm_update.induct) auto

lemma sm_update_ok: "sm_ok m \<Longrightarrow> sm_ok (sm_update k v0 f m)"
proof (induction k v0 f m rule: sm_update.induct)
  case (2 k v0 f k' v m)
  have "fst ` set (sm_update k v0 f m) = insert k (fst ` set m)" by (rule sm_update_keys)
  with 2 show ?case by (auto simp: sm_ok_def)
qed (simp add: sm_ok_def)

lemma sm_update_lookup:
  "sm_ok m \<Longrightarrow> map_of (sm_update k v0 f m) = (map_of m)(k \<mapsto> f (case map_of m k of None \<Rightarrow> v0 | Some v \<Rightarrow> v))"
proof (induction k v0 f m rule: sm_update.induct)
  case (2 k v0 f k' v m)
  have "map_of m k = None" if "k < k'"
  proof -
    have "k \<notin> fst ` set m" using 2(2) that by (auto simp: sm_ok_def)
    then show ?thesis by (simp add: map_of_eq_None_iff)
  qed
  moreover have "sm_ok m" using 2(2) by (simp add: sm_ok_def)
  ultimately show ?case using 2(1) by (auto simp: fun_eq_iff)
qed auto

text \<open>The entries are determined by what they map to.\<close>

lemma entries_of_map:
  assumes "sm_ok m"
  shows "map (\<lambda>k. (k, the (map_of m k))) (map fst m) = m"
proof -
  have "distinct (map fst m)" using assms by (simp add: sm_ok_def strict_sorted_iff)
  then have "(fst e, the (map_of m (fst e))) = e" if "e \<in> set m" for e
    using map_of_is_SomeI [of m "fst e" "snd e"] that by (cases e) simp
  then show ?thesis by (simp add: map_idI comp_def)
qed

lemma sm_unique:
  assumes "sm_ok m" "sm_ok m'" "map_of m = map_of m'"
  shows "m = m'"
proof -
  have "set (map fst m) = set (map fst m')" using assms(3) by (metis dom_map_of_conv_image_fst list.set_map)
  then have "map fst m = map fst m'" using assms(1,2) unfolding sm_ok_def by (metis strict_sorted_equal)
  then show ?thesis using entries_of_map [OF assms(1)] entries_of_map [OF assms(2)] assms(3) by metis
qed

section \<open>Adding events\<close>

definition sm_add :: "('e \<Rightarrow> 'k::linorder) \<Rightarrow> 'v \<Rightarrow> ('e \<Rightarrow> 'v \<Rightarrow> 'v) \<Rightarrow> 'e \<Rightarrow> ('k \<times> 'v) list \<Rightarrow> ('k \<times> 'v) list" where
  "sm_add key v0 step e m = sm_update (key e) v0 (step e) m"

text \<open>What the map holds after events: every key once, in order, with its own events.\<close>

definition sm_of :: "('e \<Rightarrow> 'k::linorder) \<Rightarrow> 'v \<Rightarrow> ('e \<Rightarrow> 'v \<Rightarrow> 'v) \<Rightarrow> 'e list \<Rightarrow> ('k \<times> 'v) list" where
  "sm_of key v0 step es = map (\<lambda>k. (k, fold step (filter (\<lambda>e. key e = k) es) v0)) (sorted_list_of_set (key ` set es))"

lemma sm_of_ok: "sm_ok (sm_of key v0 step es)"
  by (simp add: sm_ok_def sm_of_def comp_def)

lemma sm_of_Nil [simp]: "sm_of key v0 step [] = []"
  by (simp add: sm_of_def)

lemma sm_of_lookup:
  "map_of (sm_of key v0 step es) k = (if k \<in> key ` set es then Some (fold step (filter (\<lambda>e. key e = k) es) v0) else None)"
  by (simp add: sm_of_def map_of_map_restrict restrict_map_def)

lemma sm_of_add: "sm_add key v0 step e (sm_of key v0 step es) = sm_of key v0 step (es @ [e])"
proof (rule sm_unique)
  show "sm_ok (sm_add key v0 step e (sm_of key v0 step es))" "sm_ok (sm_of key v0 step (es @ [e]))"
    by (simp_all add: sm_add_def sm_update_ok sm_of_ok)
  have none: "fold step (filter (\<lambda>e'. key e' = key e) es) v0 = v0" if "key e \<notin> key ` set es"
  proof -
    have "filter (\<lambda>e'. key e' = key e) es = []" using that by (auto simp: filter_empty_conv dest: sym)
    then show ?thesis by simp
  qed
  show "map_of (sm_add key v0 step e (sm_of key v0 step es)) = map_of (sm_of key v0 step (es @ [e]))"
    unfolding sm_add_def sm_update_lookup [OF sm_of_ok] using none by (intro ext) (auto simp: sm_of_lookup)
qed

lemma sm_of_fold: "fold (sm_add key v0 step) fs (sm_of key v0 step es) = sm_of key v0 step (es @ fs)"
  by (induction fs arbitrary: es) (simp_all add: sm_of_add)

text \<open>Collecting and summing.\<close>

lemma fold_collect: "fold (\<lambda>e vs. vs @ [e]) es vs = vs @ es"
  by (induction es arbitrary: vs) simp_all

lemma fold_sum: "fold (\<lambda>e n. n + w e) es (n :: 'n::comm_monoid_add) = n + sum_list (map w es)"
  by (induction es arbitrary: n) (simp_all add: add.assoc)

section \<open>Collecting until nothing is left\<close>

text \<open>
  The thread of \<open>lsof\<close> and \<open>run-queue\<close>, which starts after the iterators are closed: each turn sees the flag, the result
  of a poll and the records that it handed over; an empty poll ends it.
\<close>

fun drain_worker :: "('e \<Rightarrow> 'm \<Rightarrow> 'm) \<Rightarrow> (bool \<times> int \<times> 'e list) list \<Rightarrow> 'm \<Rightarrow> 'm outcome" where
  "drain_worker push [] m = Blocked"
| "drain_worker push ((exit_flag, err, es) # rest) m =
     (if exit_flag then Done m
      else let m' = fold push es m in if err = 0 then Done m' else drain_worker push rest m')"

text \<open>Reading an iterator to its end.\<close>

fun read_out :: "int list \<Rightarrow> unit outcome" where
  "read_out [] = Blocked"
| "read_out (n # ns) = (if n > 0 then read_out ns else Done ())"

lemma read_out_ends: "\<exists>n \<in> set ns. n \<le> 0 \<Longrightarrow> read_out ns = Done ()"
  by (induction ns) auto

lemma drain_worker_all:
  assumes "\<forall>(exit_flag, err, es) \<in> set turns. \<not> exit_flag \<and> err \<noteq> 0"
  shows "drain_worker push (turns @ [(False, 0, [])]) m = Done (fold push (concat (map (snd \<circ> snd) turns)) m)"
  using assms
proof (induction turns arbitrary: m)
  case (Cons t turns)
  obtain f e es where t: "t = (f, e, es)" by (cases t)
  show ?case using Cons.IH [of "fold push es m"] Cons.prems by (simp add: t)
qed simp

end
