(* ===== verification/Lsof.thy ===== *)
theory Lsof
  imports C_Format Spin_Lock Std_Map
begin

text \<open>
  \<open>observe/lsof.cpp\<close>: who uses a file. The rule in its union, the records that the two iterators put into the ring,
  their grouping by process in a \<open>std::map\<close>, and the summary.
\<close>

section \<open>The rule\<close>

text \<open>\<open>parse_args\<close>: the 4096 bytes of the union and the bits of the options seen; \<open>Inl\<close> is the exit status.\<close>

definition put_at :: "nat \<Rightarrow> string \<Rightarrow> string \<Rightarrow> string" where
  "put_at off s r = take off r @ s @ drop (off + length s) r"

definition not_inode :: string where
  "not_inode = replicate 8 NUL"

fun lo_options :: "(char \<times> string) list \<Rightarrow> string \<times> bool \<times> bool \<times> bool \<Rightarrow> int + string \<times> bool \<times> bool \<times> bool" where
  "lo_options [] st = Inr st"
| "lo_options ((opt, arg) # os) (r, p, d, i) =
     (if opt = CHR ''p'' then
        (let s = take 4095 (c_text arg) in lo_options os (s @ replicate (4096 - length s) NUL, True, d, i))
      else if opt = CHR ''d'' then
        lo_options os (put_at 0 not_inode (put_at 16 (le_chars (fst (strtoul10 arg))) r), p, True, i)
      else if opt = CHR ''i'' then
        lo_options os (put_at 0 not_inode (put_at 8 (le_chars (of_int (atoi arg))) r), p, d, True)
      else if opt = CHR ''h'' then Inl 0
      else Inl (- 1))"

definition lo_parse_args :: "(char \<times> string) list \<Rightarrow> int + string" where
  "lo_parse_args os =
     (case lo_options os (replicate 4096 NUL, False, False, False) of
        Inl c \<Rightarrow> Inl c
      | Inr (r, p, d, i) \<Rightarrow> if p \<and> i then Inl (- 1) else if d \<noteq> i then Inl (- 1) else Inr r)"

section \<open>Records\<close>

record lo_log =
  lg_uid :: u32
  lg_pid :: int
  lg_fd :: int
  lg_comm :: string

definition lo_log_of :: "bytes \<Rightarrow> lo_log" where
  "lo_log_of b = \<lparr>lg_uid = u32_at b 0, lg_pid = sint (u32_at b 4), lg_fd = sint (u32_at b 8), lg_comm = c_text (map byte_char (bytes_at b 12 16))\<rparr>"

text \<open>\<open>log_stat\<close>: the entries of the map in the order of their keys, and \<open>log_stat[key].push_back(...)\<close>.\<close>

type_synonym log_stat = "(int \<times> lo_log list) list"

definition stat_push :: "lo_log \<Rightarrow> log_stat \<Rightarrow> log_stat" where
  "stat_push = sm_add lg_pid [] (\<lambda>l ls. ls @ [l])"

text \<open>\<open>summary_print\<close>.\<close>

definition lo_summary_row :: "int \<times> lo_log list \<Rightarrow> string" where
  "lo_summary_row e =
     (case e of (pid, logs) \<Rightarrow>
        pad_left 16 (lg_comm (hd logs)) @ '' '' @ pad_left 6 (fmt_d (lg_uid (hd logs))) @ '' '' @ pad_left 8 (show_int pid) @ ''   ''
        @ concat (map (\<lambda>l. if lg_fd l = - 1 then [] else show_int (lg_fd l) @ '' '') logs)
        @ (let vma_cnt = length (filter (\<lambda>l. lg_fd l = - 1) logs)
           in if vma_cnt \<noteq> 0 then ''vma('' @ show_nat vma_cnt @ '')'' else [])
        @ [NL])"

definition lo_summary_print :: "log_stat \<Rightarrow> string list" where
  "lo_summary_print m =
     [''            COMM    UID      PID   FD'' @ [NL], ''--------------------------------------------'' @ [NL]] @ map lo_summary_row m @ [[NL]]"

definition lo_worker :: "(bool \<times> int \<times> lo_log list) list \<Rightarrow> log_stat \<Rightarrow> log_stat outcome" where
  "lo_worker = drain_worker stat_push"

section \<open>The program\<close>

record lo_sys =
  ls_opts :: "(char \<times> string) list"
  ls_sigaction :: bool
  ls_load :: bool
  ls_attach :: bool
  ls_filter :: bool
  ls_update :: bool
  ls_logs :: bool
  ls_ring :: bool
  ls_files :: "int list option"
  ls_vmas :: "int list option"
  ls_turns :: "(bool \<times> int \<times> lo_log list) list"

definition lo_scan :: "lo_sys \<Rightarrow> string \<Rightarrow> string list outcome" where
  "lo_scan sys r =
     (case ls_files sys of
        None \<Rightarrow> Done []
      | Some fs \<Rightarrow> bind_outcome (read_out fs) (\<lambda>_.
          case ls_vmas sys of
            None \<Rightarrow> Done []
          | Some vs \<Rightarrow> bind_outcome (read_out vs) (\<lambda>_.
              bind_outcome (lo_worker (ls_turns sys) []) (\<lambda>m.
                Done ([''Scanning for file '' @ c_text r @ ''...'' @ [NL]] @ lo_summary_print m)))))"

definition lsof_main :: "lo_sys \<Rightarrow> (int \<times> string list) outcome" where
  "lsof_main sys =
     (case lo_parse_args (ls_opts sys) of
        Inl c \<Rightarrow> Done (c, [])
      | Inr r \<Rightarrow>
          if \<not> ls_sigaction sys then Done (1, [])
          else if \<not> ls_load sys \<or> \<not> ls_attach sys then Done (- 1, [])
          else if \<not> ls_filter sys \<or> \<not> ls_update sys \<or> \<not> ls_logs sys \<or> \<not> ls_ring sys then Done (0, [])
          else bind_outcome (lo_scan sys r) (\<lambda>out. Done (0, out)))"

section \<open>The grouping\<close>

definition grouped :: "lo_log list \<Rightarrow> log_stat" where
  "grouped ls = map (\<lambda>k. (k, filter (\<lambda>l. lg_pid l = k) ls)) (sorted_list_of_set (lg_pid ` set ls))"

lemma grouped_fold: "fold stat_push ls (grouped es) = grouped (es @ ls)"
proof -
  have g: "grouped xs = sm_of lg_pid [] (\<lambda>l ls. ls @ [l]) xs" for xs by (simp add: grouped_def sm_of_def fold_collect)
  show ?thesis unfolding g stat_push_def by (rule sm_of_fold)
qed

lemma grouped_Nil: "grouped [] = []"
  by (simp add: grouped_def)

text \<open>when the scan ends with an empty poll, the summary has one row for every process that uses the file, in
  increasing order, with its descriptors in the order of arrival and the number of its mappings; no record is lost or
  counted twice.\<close>

theorem lsof_summary_correct:
  assumes "lo_parse_args (ls_opts sys) = Inr r" "ls_sigaction sys" "ls_load sys" "ls_attach sys" "ls_filter sys" "ls_update sys"
    and "ls_logs sys" "ls_ring sys" "ls_files sys = Some fs" "ls_vmas sys = Some vs" "\<exists>n \<in> set fs. n \<le> 0" "\<exists>n \<in> set vs. n \<le> 0"
    and "ls_turns sys = turns @ [(False, 0, [])]" "\<forall>(exit_flag, err, ls) \<in> set turns. \<not> exit_flag \<and> err \<noteq> 0"
  shows "lsof_main sys = Done (0, [''Scanning for file '' @ c_text r @ ''...'' @ [NL]] @ lo_summary_print
     (let ls = concat (map (snd \<circ> snd) turns) in map (\<lambda>pid. (pid, filter (\<lambda>l. lg_pid l = pid) ls)) (sorted_list_of_set (lg_pid ` set ls))))"
proof -
  have "lo_worker (ls_turns sys) [] = Done (grouped (concat (map (snd \<circ> snd) turns)))"
    using drain_worker_all [OF assms(14), of stat_push "[]"] grouped_fold [of _ "[]"] assms(13) by (simp add: lo_worker_def grouped_Nil)
  then show ?thesis using assms(1-10) read_out_ends [OF assms(11)] read_out_ends [OF assms(12)]
    by (simp add: lsof_main_def lo_scan_def grouped_def Let_def)
qed

definition ex_lsof :: lo_sys where
  "ex_lsof = \<lparr>ls_opts = [(CHR ''p'', ''/tmp/x'')], ls_sigaction = True, ls_load = True, ls_attach = True, ls_filter = True, ls_update = True,
     ls_logs = True, ls_ring = True, ls_files = Some [0], ls_vmas = Some [0],
     ls_turns = [(False, 2, [\<lparr>lg_uid = 0, lg_pid = 9, lg_fd = 3, lg_comm = ''b''\<rparr>, \<lparr>lg_uid = 0, lg_pid = 4, lg_fd = - 1, lg_comm = ''a''\<rparr>]), (False, 0, [])]\<rparr>"

theorem lsof_summary_correct_witness:
  "lsof_main ex_lsof = Done (0, [''Scanning for file /tmp/x...'' @ [NL]] @ lo_summary_print
     [(4, [\<lparr>lg_uid = 0, lg_pid = 4, lg_fd = - 1, lg_comm = ''a''\<rparr>]), (9, [\<lparr>lg_uid = 0, lg_pid = 9, lg_fd = 3, lg_comm = ''b''\<rparr>])])"
proof -
  let ?r = "''/tmp/x'' @ replicate 4090 NUL"
  have r: "lo_parse_args (ls_opts ex_lsof) = Inr ?r" by (simp add: ex_lsof_def lo_parse_args_def c_text_def)
  have c: "c_text ?r = ''/tmp/x''" by (simp add: c_text_def)
  let ?turns = "[(False, 2, [\<lparr>lg_uid = 0, lg_pid = 9, lg_fd = 3, lg_comm = ''b''\<rparr>, \<lparr>lg_uid = 0, lg_pid = 4, lg_fd = - 1, lg_comm = ''a''\<rparr>])]"
  show ?thesis using lsof_summary_correct [OF r, of "[0]" "[0]" ?turns] c by (simp add: ex_lsof_def)
qed

text \<open>The rule that is stored is a path, or an inode with its device, or empty.\<close>

lemma lo_rule_inode:
  "lo_parse_args [(CHR ''d'', d), (CHR ''i'', i)]
     = Inr (not_inode @ le_chars (of_int (atoi i)) @ le_chars (fst (strtoul10 d)) @ replicate 4072 NUL)"
  by (simp add: lo_parse_args_def put_at_def not_inode_def le_chars_def)

text \<open>The inode, a number of 64 bits, is cut to 32.\<close>

lemma lo_inode_truncated: "lo_parse_args [(CHR ''d'', d), (CHR ''i'', ''4294967303'')] = lo_parse_args [(CHR ''d'', d), (CHR ''i'', ''7'')]"
proof -
  have "atoi ''4294967303'' = atoi ''7''" by (simp add: atoi_def strtol10_def scan_number_def is_space_def is_digit_def digit_val_def)
  then show ?thesis by (simp only: lo_rule_inode)
qed

text \<open>Errors after the object was attached are not reported.\<close>

lemma lsof_silent:
  "lo_parse_args (ls_opts sys) = Inr r \<Longrightarrow> ls_sigaction sys \<Longrightarrow> ls_load sys \<Longrightarrow> ls_attach sys \<Longrightarrow> \<not> ls_update sys \<Longrightarrow> lsof_main sys = Done (0, [])"
  by (simp add: lsof_main_def)

end
