(* ===== verification/Run_Queue.thy ===== *)
theory Run_Queue
  imports C_Format Std_Map
begin

text \<open>
  \<open>observe/run-queue.cpp\<close>: the tasks on the run queue of each processor. The filter rule and its ranges, the records,
  their grouping by processor, and the summary.
\<close>

section \<open>The rule\<close>

record rq_rule =
  rq_pid :: "int \<times> int"
  rq_tgid :: "int \<times> int"
  rq_on_rq :: nat
  rq_on_cpu :: nat
  rq_utime :: "u64 \<times> u64"
  rq_stime :: "u64 \<times> u64"
  rq_start_time :: "u64 \<times> u64"
  rq_priority :: "int \<times> int"
  rq_comm :: string

definition rq_rule_default :: rq_rule where
  "rq_rule_default = \<lparr>rq_pid = (0, 2147483647), rq_tgid = (0, 2147483647), rq_on_rq = 1, rq_on_cpu = 1, rq_utime = (0, UINT64_MAX),
     rq_stime = (0, UINT64_MAX), rq_start_time = (0, UINT64_MAX), rq_priority = (0, 2147483647), rq_comm = []\<rparr>"

text \<open>\<open>std::stoull\<close>; \<open>None\<close> is an exception.\<close>

definition stoull :: "string \<Rightarrow> u64 option" where
  "stoull s =
     (case scan_number s of
        None \<Rightarrow> None
      | Some (neg, n, r) \<Rightarrow> if n > UINT64_MAX_nat then None else Some (if neg then - of_nat n else of_nat n))"

definition parse_range :: "string \<Rightarrow> (u64 \<times> u64) option" where
  "parse_range s =
     (if CHR ''-'' \<notin> set s then map_option (\<lambda>v. (v, v)) (stoull s)
      else case (stoull (takeWhile (\<lambda>c. c \<noteq> CHR ''-'') s), stoull (tl (dropWhile (\<lambda>c. c \<noteq> CHR ''-'') s))) of
             (Some a, Some b) \<Rightarrow> Some (a, b)
           | _ \<Rightarrow> None)"

text \<open>The overload for 32 bits, into two fields of type \<open>int\<close>.\<close>

definition parse_range32 :: "string \<Rightarrow> (int \<times> int) option" where
  "parse_range32 s = map_option (\<lambda>(a, b). (sint (ucast a :: u32), sint (ucast b :: u32))) (parse_range s)"

text \<open>One option. \<open>None\<close> is an exception, which nobody catches; \<open>Inl\<close> the status of \<open>exit\<close>.\<close>

definition rq_case :: "char \<Rightarrow> string \<Rightarrow> rq_rule \<Rightarrow> (int + rq_rule) option" where
  "rq_case opt arg r =
     (if opt = CHR ''P'' then map_option (\<lambda>x. Inr (r\<lparr>rq_pid := x\<rparr>)) (parse_range32 arg)
      else if opt = CHR ''p'' then map_option (\<lambda>x. Inr (r\<lparr>rq_tgid := (fst x, atoi arg)\<rparr>)) (parse_range32 arg)
      else if opt = CHR ''r'' then Some (Inr (r\<lparr>rq_on_cpu := 1\<rparr>))
      else if opt = CHR ''c'' then Some (Inr (r\<lparr>rq_on_cpu := 1\<rparr>))
      else if opt = CHR ''u'' then map_option (\<lambda>x. Inr (r\<lparr>rq_utime := x\<rparr>)) (parse_range arg)
      else if opt = CHR ''s'' then map_option (\<lambda>x. Inr (r\<lparr>rq_stime := x\<rparr>)) (parse_range arg)
      else if opt = CHR ''S'' then map_option (\<lambda>x. Inr (r\<lparr>rq_start_time := x\<rparr>)) (parse_range arg)
      else if opt = CHR ''d'' then map_option (\<lambda>x. Inr (r\<lparr>rq_priority := x\<rparr>)) (parse_range32 arg)
      else if opt = CHR ''C'' then Some (Inr (r\<lparr>rq_comm := take 15 arg\<rparr>))
      else if opt = CHR ''h'' then Some (Inl 0)
      else Some (Inl (- 1)))"

fun rq_parse_args :: "(char \<times> string) list \<Rightarrow> rq_rule \<Rightarrow> (int + rq_rule) outcome" where
  "rq_parse_args [] r = Done (Inr r)"
| "rq_parse_args ((opt, arg) # os) r =
     (case rq_case opt arg r of
        None \<Rightarrow> Aborted
      | Some (Inl c) \<Rightarrow> Done (Inl c)
      | Some (Inr r') \<Rightarrow> rq_parse_args os r')"

section \<open>Records\<close>

record rq_log =
  rl_pid :: int
  rl_tgid :: int
  rl_cpu :: u32
  rl_on_rq :: bool
  rl_on_cpu :: bool
  rl_utime :: u64
  rl_stime :: u64
  rl_start_time :: u64
  rl_priority :: int
  rl_comm :: string

definition rq_log_of :: "bytes \<Rightarrow> rq_log" where
  "rq_log_of b =
     \<lparr>rl_pid = sint (u32_at b 0), rl_tgid = sint (u32_at b 4), rl_cpu = u32_at b 8, rl_on_rq = bit (u32_at b 12) 0,
      rl_on_cpu = bit (u32_at b 12) 1, rl_utime = u64_at b 16, rl_stime = u64_at b 24, rl_start_time = u64_at b 32,
      rl_priority = sint (u32_at b 40), rl_comm = c_text (map byte_char (bytes_at b 44 16))\<rparr>"

type_synonym runqueues = "(u32 \<times> rq_log list) list"

text \<open>\<open>handle_event\<close>.\<close>

definition rq_push :: "rq_log \<Rightarrow> runqueues \<Rightarrow> runqueues" where
  "rq_push = sm_add rl_cpu [] (\<lambda>l ls. ls @ [l])"

definition rq_worker :: "(bool \<times> int \<times> rq_log list) list \<Rightarrow> runqueues \<Rightarrow> runqueues outcome" where
  "rq_worker = drain_worker rq_push"

definition flag_text :: "bool \<Rightarrow> string" where
  "flag_text b = (if b then ''1'' else ''0'')"

definition rq_row :: "rq_log \<Rightarrow> string" where
  "rq_row l =
     CHR 0x09 # rl_comm l @ '' '' @ show_int (rl_pid l) @ '' '' @ show_int (rl_tgid l) @ '' '' @ flag_text (rl_on_cpu l) @ '' ''
     @ flag_text (rl_on_rq l) @ '' '' @ fmt_u (rl_start_time l) @ '' '' @ fmt_u (rl_stime l) @ '' '' @ fmt_u (rl_utime l) @ '' ''
     @ fmt_u (rl_cpu l) @ '' '' @ show_int (rl_priority l) @ [NL]"

definition rq_summary_print :: "runqueues \<Rightarrow> string list" where
  "rq_summary_print m =
     concat (map (\<lambda>(cpu, logs). [NL # ''on run queue of cpu'' @ fmt_d cpu @ '':'' @ [NL]] @ map rq_row logs) m) @ [[NL]]"

section \<open>The program\<close>

record rq_sys =
  qs_calloc :: bool
  qs_opts :: "(char \<times> string) list"
  qs_sigaction :: bool
  qs_load :: bool
  qs_attach :: bool
  qs_filter :: bool
  qs_update :: bool
  qs_logs :: bool
  qs_ring :: bool
  qs_iter :: "int list option"
  qs_turns :: "(bool \<times> int \<times> rq_log list) list"

text \<open>
  \<open>main\<close>. If the object cannot be loaded, \<open>cleanup\<close> passes a null pointer to \<open>detach\<close>, which reads through it.
\<close>

definition run_queue_main :: "rq_sys \<Rightarrow> (int \<times> rq_rule option \<times> string list) outcome" where
  "run_queue_main sys =
     (if \<not> qs_calloc sys then Done (1, None, [])
      else bind_outcome (rq_parse_args (qs_opts sys) rq_rule_default) (\<lambda>a. case a of
        Inl c \<Rightarrow> Done (c, None, [])
      | Inr r \<Rightarrow>
          if \<not> qs_sigaction sys then Done (1, None, [])
          else if \<not> qs_load sys then Fault
          else if \<not> qs_attach sys \<or> \<not> qs_filter sys \<or> \<not> qs_update sys then Done (0, None, [])
          else if \<not> qs_logs sys \<or> \<not> qs_ring sys then Done (0, Some r, [])
          else (case qs_iter sys of
                  None \<Rightarrow> Done (0, Some r, [])
                | Some ns \<Rightarrow> bind_outcome (read_out ns) (\<lambda>_.
                    bind_outcome (rq_worker (qs_turns sys) []) (\<lambda>m. Done (0, Some r, rq_summary_print m))))))"

section \<open>What holds\<close>

lemma stoull_show:
  assumes "n < 2 ^ 64" "r = [] \<or> \<not> is_digit (hd r)"
  shows "stoull (show_nat n @ r) = Some (of_nat n)"
  using assms scan_show_nat [of r n] by (cases r) (auto simp: stoull_def)

text \<open>A number stands for the range of itself, and two numbers with a dash for the range between them.\<close>

lemma parse_range_text:
  assumes "a < 2 ^ 64" "b < 2 ^ 64"
  shows "parse_range (show_nat a) = Some (of_nat a, of_nat a)"
    and "parse_range (show_nat a @ ''-'' @ show_nat b) = Some (of_nat a, of_nat b)"
proof -
  have no: "CHR ''-'' \<notin> set (show_nat n)" for n using show_nat_props [of n] by (auto simp: is_digit_def)
  show "parse_range (show_nat a) = Some (of_nat a, of_nat a)"
    using no [of a] stoull_show [OF assms(1), of "[]"] by (simp add: parse_range_def)
  have t: "takeWhile (\<lambda>c. c \<noteq> CHR ''-'') (show_nat a @ CHR ''-'' # show_nat b) = show_nat a" using no [of a] by (subst takeWhile_append2) auto
  have d: "dropWhile (\<lambda>c. c \<noteq> CHR ''-'') (show_nat a @ CHR ''-'' # show_nat b) = CHR ''-'' # show_nat b" using no [of a] by (subst dropWhile_append2) auto
  show "parse_range (show_nat a @ ''-'' @ show_nat b) = Some (of_nat a, of_nat b)"
    using t d stoull_show [OF assms(1), of "[]"] stoull_show [OF assms(2), of "[]"] by (simp add: parse_range_def)
qed

text \<open>But the range of \<open>-p\<close> ends where it begins, since its end is then read with \<open>atoi\<close>.\<close>

lemma tid_range_collapses:
  assumes "a < 2 ^ 31" "b < 2 ^ 31"
  shows "rq_parse_args [(CHR ''p'', show_nat a @ ''-'' @ show_nat b)] r = Done (Inr (r\<lparr>rq_tgid := (int a, int a)\<rparr>))"
proof -
  have s: "sint (ucast (of_nat n :: u64) :: u32) = int n" if "n < 2 ^ 31" for n
    using that by (simp add: ucast_eq unsigned_of_nat signed_of_nat take_bit_nat_eq_self signed_take_bit_int_eq_self)
  have "a < 2 ^ 64" "b < 2 ^ 64" using assms by simp_all
  then have p: "parse_range32 (show_nat a @ ''-'' @ show_nat b) = Some (int a, int b)"
    using parse_range_text(2) [of a b] s [OF assms(1)] s [OF assms(2)] by (simp add: parse_range32_def)
  have "scan_number (show_nat a @ ''-'' @ show_nat b) = Some (False, a, ''-'' @ show_nat b)"
    using scan_show_nat [of "''-'' @ show_nat b" a] by (simp add: is_digit_def)
  then have "atoi (show_nat a @ ''-'' @ show_nat b) = int a" using assms(1) by (simp add: atoi_def strtol10_def to_int32_id)
  then show ?thesis using p by (simp add: rq_case_def)
qed

text \<open>\<open>-r\<close> is the same as \<open>-c\<close>, and neither changes the rule; a malformed range ends the program with an exception.\<close>

lemma rq_flags_idle: "rq_parse_args [(CHR ''r'', []), (CHR ''c'', [])] rq_rule_default = Done (Inr rq_rule_default)"
  by (simp add: rq_case_def rq_rule_default_def)

lemma rq_bad_range: "rq_parse_args ((CHR ''u'', ''x'') # os) r = Aborted"
  by (simp add: rq_case_def parse_range_def stoull_def scan_number_def is_space_def is_digit_def)

lemma rq_load_failure_faults: "qs_calloc sys \<Longrightarrow> qs_opts sys = [] \<Longrightarrow> qs_sigaction sys \<Longrightarrow> \<not> qs_load sys \<Longrightarrow> run_queue_main sys = Fault"
  by (simp add: run_queue_main_def)

text \<open>when the scan ends with an empty poll, the summary lists every processor that has tasks once, in increasing order,
  with all its tasks in the order of arrival.\<close>

theorem run_queue_summary_correct:
  assumes "qs_calloc sys" "rq_parse_args (qs_opts sys) rq_rule_default = Done (Inr r)" "qs_sigaction sys" "qs_load sys" "qs_attach sys"
    and "qs_filter sys" "qs_update sys" "qs_logs sys" "qs_ring sys" "qs_iter sys = Some ns" "\<exists>n \<in> set ns. n \<le> 0"
    and "qs_turns sys = turns @ [(False, 0, [])]" "\<forall>(exit_flag, err, ls) \<in> set turns. \<not> exit_flag \<and> err \<noteq> 0"
  shows "run_queue_main sys = Done (0, Some r, rq_summary_print
     (let ls = concat (map (snd \<circ> snd) turns) in map (\<lambda>cpu. (cpu, filter (\<lambda>l. rl_cpu l = cpu) ls)) (sorted_list_of_set (rl_cpu ` set ls))))"
proof -
  let ?ls = "concat (map (snd \<circ> snd) turns)"
  have "fold rq_push ?ls [] = sm_of rl_cpu [] (\<lambda>l ls. ls @ [l]) ?ls"
    using sm_of_fold [of rl_cpu "[]" "\<lambda>l ls. ls @ [l]" ?ls "[]"] by (simp add: rq_push_def)
  then have "rq_worker (qs_turns sys) [] = Done (map (\<lambda>cpu. (cpu, filter (\<lambda>l. rl_cpu l = cpu) ?ls)) (sorted_list_of_set (rl_cpu ` set ?ls)))"
    using drain_worker_all [OF assms(13), of rq_push "[]"] assms(12) by (simp add: rq_worker_def sm_of_def fold_collect)
  then show ?thesis using assms(1-10) read_out_ends [OF assms(11)] by (simp add: run_queue_main_def Let_def)
qed

definition ex_rq_log :: rq_log where
  "ex_rq_log = \<lparr>rl_pid = 7, rl_tgid = 7, rl_cpu = 1, rl_on_rq = True, rl_on_cpu = False, rl_utime = 0, rl_stime = 0, rl_start_time = 0,
     rl_priority = 120, rl_comm = ''sh''\<rparr>"

theorem run_queue_summary_correct_witness:
  "run_queue_main \<lparr>qs_calloc = True, qs_opts = [], qs_sigaction = True, qs_load = True, qs_attach = True, qs_filter = True, qs_update = True,
       qs_logs = True, qs_ring = True, qs_iter = Some [0], qs_turns = [(False, 2, [ex_rq_log, ex_rq_log\<lparr>rl_cpu := 0\<rparr>]), (False, 0, [])]\<rparr>
     = Done (0, Some rq_rule_default, rq_summary_print [(0, [ex_rq_log\<lparr>rl_cpu := 0\<rparr>]), (1, [ex_rq_log])])"
  using run_queue_summary_correct [where r = rq_rule_default and ns = "[0]" and turns = "[(False, 2, [ex_rq_log, ex_rq_log\<lparr>rl_cpu := 0\<rparr>])]"
    and sys = "\<lparr>qs_calloc = True, qs_opts = [], qs_sigaction = True, qs_load = True, qs_attach = True, qs_filter = True, qs_update = True,
       qs_logs = True, qs_ring = True, qs_iter = Some [0], qs_turns = [(False, 2, [ex_rq_log, ex_rq_log\<lparr>rl_cpu := 0\<rparr>]), (False, 0, [])]\<rparr>"]
  by (simp add: ex_rq_log_def)

end
