(* ===== verification/Net_Traffic.thy ===== *)
theory Net_Traffic
  imports C_Format Std_Map
begin

text \<open>
  \<open>observe/net-traffic.cpp\<close>: network traffic by process and by remote address. The options, the records, the two maps of
  totals, which programs are loaded, and \<open>main\<close>.
\<close>

section \<open>Options\<close>

text \<open>The name and the process id share 16 bytes: \<open>pid\<close> lies at the bytes 4 to 8 of the name.\<close>

record nt_rule =
  nr_remote_ip :: u32
  nr_remote_port :: u16
  nr_dir :: u16
  nr_comm :: string

definition nt_rule_zero :: nt_rule where
  "nt_rule_zero = \<lparr>nr_remote_ip = 0, nr_remote_port = 0, nr_dir = 0, nr_comm = replicate 16 NUL\<rparr>"

definition le_chars4 :: "u32 \<Rightarrow> string" where
  "le_chars4 w = map (\<lambda>i. char_of (unat w div 256 ^ i mod 256)) [0..<4]"

fun nt_parse_args :: "(string \<Rightarrow> u32) \<Rightarrow> (char \<times> string) list \<Rightarrow> nt_rule \<Rightarrow> int + nt_rule" where
  "nt_parse_args inet_addr [] r = Inr r"
| "nt_parse_args inet_addr ((opt, arg) # os) r =
     (if opt = CHR ''c'' then
        (let s = take 15 (c_text arg) in nt_parse_args inet_addr os (r\<lparr>nr_comm := s @ replicate (16 - length s) NUL\<rparr>))
      else if opt = CHR ''p'' then
        nt_parse_args inet_addr os (r\<lparr>nr_comm := take 4 (nr_comm r) @ le_chars4 (of_int (atoi arg)) @ drop 8 (nr_comm r)\<rparr>)
      else if opt = CHR ''r'' then nt_parse_args inet_addr os (r\<lparr>nr_remote_ip := inet_addr arg\<rparr>)
      else if opt = CHR ''P'' then nt_parse_args inet_addr os (r\<lparr>nr_remote_port := of_int (atoi arg)\<rparr>)
      else if opt = CHR ''d'' then nt_parse_args inet_addr os (r\<lparr>nr_dir := of_int (atoi arg)\<rparr>)
      else if opt = CHR ''h'' then Inl 0
      else Inl (- 1))"

section \<open>Records\<close>

record nt_log =
  nl_pid :: int
  nl_traffic :: u32
  nl_remote_ip :: u32
  nl_remote_port :: u16
  nl_dir :: int
  nl_comm :: string

definition nt_log_of :: "bytes \<Rightarrow> nt_log option" where
  "nt_log_of b =
     map_option (\<lambda>comm. \<lparr>nl_pid = sint (u32_at b 0), nl_traffic = u32_at b 4, nl_remote_ip = u32_at b 8, nl_remote_port = u16_at b 12,
       nl_dir = sint (u16_at b 14), nl_comm = comm\<rparr>) (cstr_at b 16)"

definition slice_ip :: "u32 \<Rightarrow> string" where
  "slice_ip x =
     (let n = unat x
      in show_nat (n div 2 ^ 24 mod 256) @ ''.'' @ show_nat (n div 2 ^ 16 mod 256) @ ''.'' @ show_nat (n div 2 ^ 8 mod 256) @ ''.'' @ show_nat (n mod 256))"

record nt_stat =
  stat_proc :: "(string \<times> u64) list"
  stat_ip :: "(u32 \<times> u64) list"

definition nt_line :: "string \<Rightarrow> nt_log \<Rightarrow> string" where
  "nt_line now l =
     ''['' @ now @ ''] '' @ nl_comm l @ ''['' @ show_int (nl_pid l) @ ''] '' @ (if nl_dir l = - 1 then ''from'' else ''to'') @ '' ''
     @ slice_ip (nl_remote_ip l) @ '':'' @ fmt_u (nl_remote_port l) @ '', traffic: '' @ fmt_u (nl_traffic l) @ [NL]"

text \<open>\<open>handle_event\<close>; \<open>now\<close> is the time as text.\<close>

definition nt_handle_event :: "string \<Rightarrow> nt_log \<Rightarrow> nt_stat \<Rightarrow> string \<times> nt_stat" where
  "nt_handle_event now l st =
     (nt_line now l,
      st\<lparr>stat_proc := sm_add nl_comm 0 (\<lambda>l n. n + ucast (nl_traffic l)) l (stat_proc st),
         stat_ip := sm_add nl_remote_ip 0 (\<lambda>l n. n + ucast (nl_traffic l)) l (stat_ip st)\<rparr>)"

section \<open>The program\<close>

definition bpf_attachable :: "(string \<Rightarrow> int) option \<Rightarrow> string \<Rightarrow> bool" where
  "bpf_attachable btf name = (case btf of None \<Rightarrow> False | Some id_of \<Rightarrow> id_of name > 0)"

text \<open>The programs that \<open>fix_attach_point\<close> takes out.\<close>

definition fix_attach_point :: "(string \<Rightarrow> int) option \<Rightarrow> string list" where
  "fix_attach_point btf =
     (if \<not> bpf_attachable btf ''__sock_sendmsg'' then [''__sock_sendmsg'']
      else [''sock_sendmsg'', ''sock_write_iter'', ''__sys_sendto_entry'', ''socket_sendmsg'', ''__sys_sendto_exit'', ''____sys_sendmsg''])"

record nt_sys =
  nt_inet_addr :: "string \<Rightarrow> u32"
  nt_opts :: "(char \<times> string) list"
  nt_sigaction :: bool
  nt_open :: bool
  nt_btf :: "(string \<Rightarrow> int) option"
  nt_load :: bool
  nt_attach :: bool
  nt_filter :: bool
  nt_logs :: bool
  nt_ring :: bool
  nt_events :: "(string \<times> nt_log) list"

text \<open>The events that the polling thread hands over, one after the other.\<close>

fun nt_events_run :: "(string \<times> nt_log) list \<Rightarrow> nt_stat \<Rightarrow> string list \<times> nt_stat" where
  "nt_events_run [] st = ([], st)"
| "nt_events_run ((now, l) # es) st =
     (case nt_handle_event now l st of (line, st') \<Rightarrow> (case nt_events_run es st' of (ls, st'') \<Rightarrow> (line # ls, st'')))"

text \<open>The status, the programs taken out, the lines and the totals. The rule is not stored anywhere.\<close>

definition net_traffic_main :: "nt_sys \<Rightarrow> int \<times> string list \<times> string list \<times> nt_stat" where
  "net_traffic_main sys =
     (let nothing = \<lparr>stat_proc = [], stat_ip = []\<rparr>
      in case nt_parse_args (nt_inet_addr sys) (nt_opts sys) nt_rule_zero of
           Inl c \<Rightarrow> (c, [], [], nothing)
         | Inr r \<Rightarrow>
             if \<not> nt_sigaction sys then (1, [], [], nothing)
             else if \<not> nt_open sys then (- 1, [], [], nothing)
             else if \<not> nt_load sys \<or> \<not> nt_attach sys \<or> \<not> nt_filter sys \<or> \<not> nt_logs sys \<or> \<not> nt_ring sys
               then (- 1, fix_attach_point (nt_btf sys), [], nothing)
             else (case nt_events_run (nt_events sys) nothing of (ls, st) \<Rightarrow> (- 1, fix_attach_point (nt_btf sys), ls, st)))"

section \<open>What holds\<close>

text \<open>The totals of a list of records.\<close>

definition traffic_by :: "(nt_log \<Rightarrow> 'k::linorder) \<Rightarrow> nt_log list \<Rightarrow> ('k \<times> u64) list" where
  "traffic_by key ls = map (\<lambda>k. (k, \<Sum>l\<leftarrow>filter (\<lambda>l. key l = k) ls. ucast (nl_traffic l))) (sorted_list_of_set (key ` set ls))"

lemma traffic_by_sm: "traffic_by key ls = sm_of key 0 (\<lambda>l n. n + ucast (nl_traffic l)) ls"
  unfolding traffic_by_def sm_of_def fold_sum by simp

lemma nt_events_totals:
  "nt_events_run es \<lparr>stat_proc = traffic_by nl_comm ls, stat_ip = traffic_by nl_remote_ip ls\<rparr>
     = (map (\<lambda>(now, l). nt_line now l) es,
        \<lparr>stat_proc = traffic_by nl_comm (ls @ map snd es), stat_ip = traffic_by nl_remote_ip (ls @ map snd es)\<rparr>)"
proof (induction es arbitrary: ls)
  case (Cons e es)
  obtain now l where e: "e = (now, l)" by (cases e)
  show ?case using Cons.IH [of "ls @ [l]"] by (simp add: e nt_handle_event_def traffic_by_sm sm_of_add)
qed simp

text \<open>C39: after any events the totals hold, for every process name and for every remote address that occurred, exactly the
  sum of the traffic of its records, modulo two to the power of 64.\<close>

theorem net_traffic_totals:
  "nt_events_run es \<lparr>stat_proc = [], stat_ip = []\<rparr>
     = (map (\<lambda>(now, l). nt_line now l) es,
        \<lparr>stat_proc = map (\<lambda>c. (c, \<Sum>l\<leftarrow>filter (\<lambda>l. nl_comm l = c) (map snd es). ucast (nl_traffic l))) (sorted_list_of_set (nl_comm ` snd ` set es)),
         stat_ip = map (\<lambda>a. (a, \<Sum>l\<leftarrow>filter (\<lambda>l. nl_remote_ip l = a) (map snd es). ucast (nl_traffic l))) (sorted_list_of_set (nl_remote_ip ` snd ` set es))\<rparr>)"
  using nt_events_totals [of es "[]"] by (simp add: traffic_by_def image_image)

text \<open>The options do not change anything but a wrong one, and the status is never 0.\<close>

lemma options_without_effect:
  assumes "nt_parse_args (nt_inet_addr sys) (nt_opts sys) nt_rule_zero = Inr r"
  shows "net_traffic_main sys = net_traffic_main (sys\<lparr>nt_opts := []\<rparr>)" "nt_sigaction sys \<Longrightarrow> fst (net_traffic_main sys) = - 1"
  using assms by (simp_all add: net_traffic_main_def Let_def split: prod.split)

text \<open>A name and a process id exclude each other: the one overwrites the other.\<close>

lemma name_overwrites_pid:
  "nt_parse_args ia [(CHR ''p'', a), (CHR ''c'', ''sh'')] nt_rule_zero = nt_parse_args ia [(CHR ''c'', ''sh'')] nt_rule_zero"
  by (simp add: nt_rule_zero_def)

end
