(* ===== verification/Syscall_Stat.thy ===== *)
theory Syscall_Stat
  imports C_Format Spin_Lock "HOL-Library.Multiset"
begin

text \<open>
  \<open>observe/syscall-stat.cpp\<close> and \<open>include/syscall-tbl.h\<close>: how often a process makes which system calls. The options, the
  table of names, one round of the timer (walking the kernel's map, resetting it, sorting, printing) and \<open>main\<close>. The hash of
  a path, \<open>std::sort\<close> and the text of a floating-point number are parameters.
\<close>

section \<open>Names\<close>

definition sys_tbl :: "string list" where
  "sys_tbl =
     [''read'', ''write'', ''open'', ''close'', ''newstat'', ''newfstat'', ''newlstat'', ''poll'', ''lseek'', ''mmap'', ''mprotect'',
      ''munmap'', ''brk'', ''rt_sigaction'', ''rt_sigprocmask'', ''rt_sigreturn'', ''ioctl'', ''pread64'', ''pwrite64'', ''readv'',
      ''writev'', ''access'', ''pipe'', ''select'', ''sched_yield'', ''mremap'', ''msync'', ''mincore'', ''madvise'', ''shmget'',
      ''shmat'', ''shmctl'', ''dup'', ''dup2'', ''pause'', ''nanosleep'', ''getitimer'', ''alarm'', ''setitimer'', ''getpid'',
      ''sendfile64'', ''socket'', ''connect'', ''accept'', ''sendto'', ''recvfrom'', ''sendmsg'', ''recvmsg'', ''shutdown'', ''bind'',
      ''listen'', ''getsockname'', ''getpeername'', ''socketpair'', ''setsockopt'', ''getsockopt'', ''clone'', ''fork'', ''vfork'',
      ''execve'', ''exit'', ''wait4'', ''kill'', ''newuname'', ''semget'', ''semop'', ''semctl'', ''shmdt'', ''msgget'', ''msgsnd'',
      ''msgrcv'', ''msgctl'', ''fcntl'', ''flock'', ''fsync'', ''fdatasync'', ''truncate'', ''ftruncate'', ''getdents'', ''getcwd'',
      ''chdir'', ''fchdir'', ''rename'', ''mkdir'', ''rmdir'', ''creat'', ''link'', ''unlink'', ''symlink'', ''readlink'', ''chmod'',
      ''fchmod'', ''chown'', ''fchown'', ''lchown'', ''umask'', ''gettimeofday'', ''getrlimit'', ''getrusage'', ''sysinfo'', ''times'',
      ''ptrace'', ''getuid'', ''syslog'', ''getgid'', ''setuid'', ''setgid'', ''geteuid'', ''getegid'', ''setpgid'', ''getppid'',
      ''getpgrp'', ''setsid'', ''setreuid'', ''setregid'', ''getgroups'', ''setgroups'', ''setresuid'', ''getresuid'', ''setresgid'',
      ''getresgid'', ''getpgid'', ''setfsuid'', ''setfsgid'', ''getsid'', ''capget'', ''capset'', ''rt_sigpending'',
      ''rt_sigtimedwait'', ''rt_sigqueueinfo'', ''rt_sigsuspend'', ''sigaltstack'', ''utime'', ''mknod'', ''ni_syscall'',
      ''personality'', ''ustat'', ''statfs'', ''fstatfs'', ''sysfs'', ''getpriority'', ''setpriority'', ''sched_setparam'',
      ''sched_getparam'', ''sched_setscheduler'', ''sched_getscheduler'', ''sched_get_priority_max'', ''sched_get_priority_min'',
      ''sched_rr_get_interval'', ''mlock'', ''munlock'', ''mlockall'', ''munlockall'', ''vhangup'', ''modify_ldt'', ''pivot_root'',
      ''ni_syscall'', ''prctl'', ''arch_prctl'', ''adjtimex'', ''setrlimit'', ''chroot'', ''sync'', ''acct'', ''settimeofday'',
      ''mount'', ''umount'', ''swapon'', ''swapoff'', ''reboot'', ''sethostname'', ''setdomainname'', ''iopl'', ''ioperm'',
      ''ni_syscall'', ''init_module'', ''delete_module'', ''ni_syscall'', ''ni_syscall'', ''quotactl'', ''ni_syscall'', ''ni_syscall'',
      ''ni_syscall'', ''ni_syscall'', ''ni_syscall'', ''ni_syscall'', ''gettid'', ''readahead'', ''setxattr'', ''lsetxattr'',
      ''fsetxattr'', ''getxattr'', ''lgetxattr'', ''fgetxattr'', ''listxattr'', ''llistxattr'', ''flistxattr'', ''removexattr'',
      ''lremovexattr'', ''fremovexattr'', ''tkill'', ''time'', ''futex'', ''sched_setaffinity'', ''sched_getaffinity'', ''ni_syscall'',
      ''io_setup'', ''io_destroy'', ''io_getevents'', ''io_submit'', ''io_cancel'', ''ni_syscall'', ''lookup_dcookie'',
      ''epoll_create'', ''ni_syscall'', ''ni_syscall'', ''remap_file_pages'', ''getdents64'', ''set_tid_address'', ''restart_syscall'',
      ''semtimedop'', ''fadvise64'', ''timer_create'', ''timer_settime'', ''timer_gettime'', ''timer_getoverrun'', ''timer_delete'',
      ''clock_settime'', ''clock_gettime'', ''clock_getres'', ''clock_nanosleep'', ''exit_group'', ''epoll_wait'', ''epoll_ctl'',
      ''tgkill'', ''utimes'', ''ni_syscall'', ''mbind'', ''set_mempolicy'', ''get_mempolicy'', ''mq_open'', ''mq_unlink'',
      ''mq_timedsend'', ''mq_timedreceive'', ''mq_notify'', ''mq_getsetattr'', ''kexec_load'', ''waitid'', ''add_key'',
      ''request_key'', ''keyctl'', ''ioprio_set'', ''ioprio_get'', ''inotify_init'', ''inotify_add_watch'', ''inotify_rm_watch'',
      ''migrate_pages'', ''openat'', ''mkdirat'', ''mknodat'', ''fchownat'', ''futimesat'', ''newfstatat'', ''unlinkat'', ''renameat'',
      ''linkat'', ''symlinkat'', ''readlinkat'', ''fchmodat'', ''faccessat'', ''pselect6'', ''ppoll'', ''unshare'',
      ''set_robust_list'', ''get_robust_list'', ''splice'', ''tee'', ''sync_file_range'', ''vmsplice'', ''move_pages'', ''utimensat'',
      ''epoll_pwait'', ''signalfd'', ''timerfd_create'', ''eventfd'', ''fallocate'', ''timerfd_settime'', ''timerfd_gettime'',
      ''accept4'', ''signalfd4'', ''eventfd2'', ''epoll_create1'', ''dup3'', ''pipe2'', ''inotify_init1'', ''preadv'', ''pwritev'',
      ''rt_tgsigqueueinfo'', ''perf_event_open'', ''recvmmsg'', ''fanotify_init'', ''fanotify_mark'', ''prlimit64'',
      ''name_to_handle_at'', ''open_by_handle_at'', ''clock_adjtime'', ''syncfs'', ''sendmmsg'', ''setns'', ''getcpu'',
      ''process_vm_readv'', ''process_vm_writev'', ''kcmp'', ''finit_module'', ''sched_setattr'', ''sched_getattr'', ''renameat2'',
      ''seccomp'', ''getrandom'', ''memfd_create'', ''kexec_file_load'', ''bpf'', ''execveat'', ''userfaultfd'', ''membarrier'',
      ''mlock2'', ''copy_file_range'', ''preadv2'', ''pwritev2'', ''pkey_mprotect'', ''pkey_alloc'', ''pkey_free'', ''statx'',
      ''io_pgetevents'', ''rseq'', ''ni_syscall'', ''ni_syscall'', ''ni_syscall'', ''ni_syscall'', ''ni_syscall'', ''ni_syscall'',
      ''ni_syscall'', ''ni_syscall'', ''ni_syscall'', ''ni_syscall'', ''ni_syscall'', ''ni_syscall'', ''ni_syscall'', ''ni_syscall'',
      ''ni_syscall'', ''ni_syscall'', ''ni_syscall'', ''ni_syscall'', ''ni_syscall'', ''ni_syscall'', ''ni_syscall'', ''ni_syscall'',
      ''ni_syscall'', ''ni_syscall'', ''ni_syscall'', ''ni_syscall'', ''ni_syscall'', ''ni_syscall'', ''ni_syscall'', ''ni_syscall'',
      ''ni_syscall'', ''ni_syscall'', ''ni_syscall'', ''ni_syscall'', ''ni_syscall'', ''ni_syscall'', ''ni_syscall'', ''ni_syscall'',
      ''ni_syscall'', ''ni_syscall'', ''ni_syscall'', ''ni_syscall'', ''ni_syscall'', ''ni_syscall'', ''ni_syscall'', ''ni_syscall'',
      ''ni_syscall'', ''ni_syscall'', ''ni_syscall'', ''ni_syscall'', ''ni_syscall'', ''ni_syscall'', ''ni_syscall'', ''ni_syscall'',
      ''ni_syscall'', ''ni_syscall'', ''ni_syscall'', ''ni_syscall'', ''ni_syscall'', ''ni_syscall'', ''ni_syscall'', ''ni_syscall'',
      ''ni_syscall'', ''ni_syscall'', ''ni_syscall'', ''ni_syscall'', ''ni_syscall'', ''ni_syscall'', ''ni_syscall'', ''ni_syscall'',
      ''ni_syscall'', ''ni_syscall'', ''ni_syscall'', ''ni_syscall'', ''ni_syscall'', ''ni_syscall'', ''ni_syscall'', ''ni_syscall'',
      ''ni_syscall'', ''ni_syscall'', ''ni_syscall'', ''ni_syscall'', ''ni_syscall'', ''ni_syscall'', ''ni_syscall'', ''ni_syscall'',
      ''ni_syscall'', ''ni_syscall'', ''ni_syscall'', ''pidfd_send_signal'', ''io_uring_setup'', ''io_uring_enter'',
      ''io_uring_register'', ''open_tree'', ''move_mount'', ''fsopen'', ''fsconfig'', ''fsmount'', ''fspick'', ''pidfd_open'',
      ''clone3'', ''close_range'', ''openat2'', ''pidfd_getfd'', ''faccessat2'', ''process_madvise'', ''epoll_pwait2'',
      ''mount_setattr'', ''quotactl_fd'', ''landlock_create_ruleset'', ''landlock_add_rule'', ''landlock_restrict_self'',
      ''memfd_secret'', ''process_mrelease'', ''futex_waitv'', ''set_mempolicy_home_node'', ''cachestat'', ''fchmodat2'',
      ''map_shadow_stack'']"

definition name_width :: nat where
  "name_width = foldl (\<lambda>m s. if m < length s then length s else m) 0 sys_tbl"

section \<open>Options\<close>

record sc_rule =
  sc_pid :: int
  sc_pathhash :: u32
  sc_comm :: string

definition sc_rule_default :: sc_rule where
  "sc_rule_default = \<lparr>sc_pid = - 1, sc_pathhash = 0, sc_comm = []\<rparr>"

text \<open>The rule and the interval; \<open>Inl\<close> is the exit status. There is no case for \<open>-t\<close>.\<close>

fun sc_options :: "(string \<Rightarrow> u32) \<Rightarrow> (char \<times> string) list \<Rightarrow> sc_rule \<times> int \<Rightarrow> int + sc_rule \<times> int" where
  "sc_options jhash [] st = Inr st"
| "sc_options jhash ((opt, arg) # os) (r, interval) =
     (if opt = CHR ''p'' then sc_options jhash os (r\<lparr>sc_pid := atoi arg\<rparr>, interval)
      else if opt = CHR ''f'' then
        (let s = take 4095 (c_text arg) in sc_options jhash os (r\<lparr>sc_pathhash := jhash (s @ replicate (4096 - length s) NUL)\<rparr>, interval))
      else if opt = CHR ''c'' then sc_options jhash os (r\<lparr>sc_comm := take 15 (c_text arg)\<rparr>, interval)
      else if opt = CHR ''i'' then
        (let v = atoi arg in if v \<le> 0 then Inl (- 1) else sc_options jhash os (r, v))
      else if opt = CHR ''h'' then Inl 0
      else Inl (- 1))"

section \<open>One round\<close>

record sc_info =
  si_cnt :: u64
  si_time :: u64
  si_ret :: int

definition sc_info_zero :: sc_info where
  "sc_info_zero = \<lparr>si_cnt = 0, si_time = 0, si_ret = 0\<rparr>"

type_synonym sc_map = "u32 \<Rightarrow> sc_info option"

text \<open>
  The kernel goes on counting while the program walks over the map. \<open>sb_before k\<close> is what happens to the counters until key
  \<open>k\<close> is looked up, and \<open>sb_after k\<close> what happens from the lookup until the reset of \<open>k\<close>, or the time that passes instead of
  it: for each key, how its counter changes.
\<close>

record sc_busy =
  sb_before :: "u32 \<Rightarrow> u32 \<Rightarrow> sc_info \<Rightarrow> sc_info"
  sb_after :: "u32 \<Rightarrow> u32 \<Rightarrow> sc_info \<Rightarrow> sc_info"

definition tick :: "(u32 \<Rightarrow> sc_info \<Rightarrow> sc_info) \<Rightarrow> sc_map \<Rightarrow> sc_map" where
  "tick f m k = map_option (f k) (m k)"

text \<open>
  The walk from key 0; \<open>nk\<close> is \<open>bpf_map_get_next_key\<close>. The lookup and the reset are two calls. A key that is reported is
  reset. The bound is that of the number of keys.
\<close>

fun sc_collect :: "nat \<Rightarrow> (u32 \<Rightarrow> u32 option) \<Rightarrow> sc_busy \<Rightarrow> u32 \<Rightarrow> sc_map \<Rightarrow> ((u32 \<times> sc_info) list \<times> u32 \<times> sc_map) outcome" where
  "sc_collect 0 nk busy key m = Blocked"
| "sc_collect (Suc n) nk busy key m =
     (case nk key of
        None \<Rightarrow> Done ([], 0, m)
      | Some k \<Rightarrow>
          (let m1 = tick (sb_before busy k) m; m2 = tick (sb_after busy k) m1
           in if unat k \<ge> length sys_tbl then sc_collect n nk busy k m2
              else case m1 k of
                None \<Rightarrow> Fault
              | Some i \<Rightarrow>
                  if si_cnt i = 0 then sc_collect n nk busy k m2
                  else bind_outcome (sc_collect n nk busy k (m2(k \<mapsto> sc_info_zero))) (\<lambda>(st, total, m').
                         Done ((k, i) # st, total + ucast (si_cnt i), m'))))"

text \<open>\<open>secs\<close> is the text of the mean time in seconds.\<close>

definition sc_row :: "(u64 \<Rightarrow> string) \<Rightarrow> u32 \<times> sc_info \<Rightarrow> string" where
  "sc_row secs e =
     (case e of (k, i) \<Rightarrow>
        pad_right name_width (sys_tbl ! unat k) @ '' '' @ pad_right 10 (fmt_u (si_cnt i)) @ '' '' @ pad_right 10 (show_int (si_ret i)) @ '' ''
        @ secs (si_time i div si_cnt i) @ [NL])"

definition print_title :: "int \<Rightarrow> string list" where
  "print_title interval =
     [''Syscall stats in '' @ show_int interval @ '' second:'' @ [NL, NL],
      pad_right name_width ''SYSCALL'' @ '' '' @ pad_right 10 ''CALL-CNT'' @ '' '' @ pad_right 10 ''ERROR'' @ '' '' @ pad_right 10 ''SECONDS'' @ [NL],
      take name_width (replicate 40 CHR ''-'') @ '' ---------- ---------- ----------'' @ [NL]]"

record sc_env =
  se_next :: "u32 \<Rightarrow> u32 option"
  se_keys :: nat
  se_sort :: "(u32 \<times> sc_info) list \<Rightarrow> (u32 \<times> sc_info) list"
  se_secs :: "u64 \<Rightarrow> string"

definition sc_round :: "sc_env \<Rightarrow> sc_busy \<Rightarrow> sc_map \<Rightarrow> (string list \<times> sc_map) outcome" where
  "sc_round env busy m =
     bind_outcome (sc_collect (se_keys env) (se_next env) busy 0 m) (\<lambda>(st, total, m').
       Done (map (sc_row (se_secs env)) (se_sort env st)
         @ (if total \<noteq> 0 then [NL # ''total: '' @ fmt_d total @ [NL]] else []), m'))"

text \<open>\<open>timer_task\<close>: each turn sees the flag and what the kernel counts meanwhile; the map goes from one round to the next.\<close>

fun timer_loop :: "sc_env \<Rightarrow> (bool \<times> sc_busy) list \<Rightarrow> sc_map \<Rightarrow> string list outcome" where
  "timer_loop env [] m = Blocked"
| "timer_loop env ((exit_flag, busy) # rest) m =
     (if exit_flag then Done []
      else bind_outcome (sc_round env busy m) (\<lambda>(ls, m'). bind_outcome (timer_loop env rest m') (\<lambda>ls'. Done (ls @ ls'))))"

definition timer_task :: "sc_env \<Rightarrow> int \<Rightarrow> (bool \<times> sc_busy) list \<Rightarrow> sc_map \<Rightarrow> string list outcome" where
  "timer_task env interval turns m = bind_outcome (timer_loop env turns m) (\<lambda>ls. Done (print_title interval @ ls))"

section \<open>The program\<close>

record sc_sys =
  sy_calloc :: bool
  sy_jhash :: "string \<Rightarrow> u32"
  sy_opts :: "(char \<times> string) list"
  sy_sigaction :: bool
  sy_load :: bool
  sy_attach :: bool
  sy_filter :: bool
  sy_stats :: bool
  sy_update :: bool
  sy_logs :: bool
  sy_ring :: bool
  sy_env :: sc_env
  sy_map :: sc_map
  sy_turns :: "(bool \<times> sc_busy) list"

definition syscall_stat_main :: "sc_sys \<Rightarrow> (int \<times> sc_rule option \<times> string list) outcome" where
  "syscall_stat_main sys =
     (if \<not> sy_calloc sys then Done (1, None, [])
      else case sc_options (sy_jhash sys) (sy_opts sys) (sc_rule_default, 1) of
        Inl c \<Rightarrow> Done (c, None, [])
      | Inr (r, interval) \<Rightarrow>
          (let head = [''filter: '' @ [NL], CHR 0x09 # ''pid: '' @ show_int (sc_pid r) @ '', pathhash: '' @ fmt_d (sc_pathhash r) @ '', comm: '' @ sc_comm r @ [NL, NL]]
           in if \<not> sy_sigaction sys then Done (1, None, head)
              else if \<not> sy_load sys \<or> \<not> sy_attach sys then Done (- 1, None, head)
              else if \<not> sy_filter sys \<or> \<not> sy_stats sys \<or> \<not> sy_update sys then Done (0, None, head)
              else if \<not> sy_logs sys \<or> \<not> sy_ring sys then Done (0, Some r, head)
              else bind_outcome (timer_task (sy_env sys) interval (sy_turns sys) (sy_map sys)) (\<lambda>ls. Done (0, Some r, head @ ls))))"

section \<open>What holds\<close>

text \<open>\<open>bpf_map_get_next_key\<close> of an array with \<open>n\<close> entries, and what \<open>std::sort\<close> promises.\<close>

definition array_next :: "nat \<Rightarrow> u32 \<Rightarrow> u32 option" where
  "array_next n k = (if unat k + 1 < n then Some (k + 1) else if unat k + 1 = n then None else Some 0)"

definition sorts_by_count :: "((u32 \<times> sc_info) list \<Rightarrow> (u32 \<times> sc_info) list) \<Rightarrow> bool" where
  "sorts_by_count f \<longleftrightarrow> (\<forall>xs. mset (f xs) = mset xs \<and> sorted_wrt (\<lambda>a b. si_cnt (snd b) \<le> si_cnt (snd a)) (f xs))"

text \<open>
  The counters over time, independently of the walk: \<open>passing\<close> lists what happens while the keys of a list are visited, and
  \<open>evolve\<close> applies it to one counter. \<open>seen busy m lo i\<close> is the counter of key \<open>i\<close> when it is looked up in a walk that begins
  with the map \<open>m\<close> at key \<open>lo\<close>.
\<close>

definition passing :: "sc_busy \<Rightarrow> nat list \<Rightarrow> (u32 \<Rightarrow> sc_info \<Rightarrow> sc_info) list" where
  "passing busy ks = concat (map (\<lambda>i. [sb_before busy (of_nat i), sb_after busy (of_nat i)]) ks)"

definition evolve :: "u32 \<Rightarrow> (u32 \<Rightarrow> sc_info \<Rightarrow> sc_info) list \<Rightarrow> sc_info \<Rightarrow> sc_info" where
  "evolve k fs x = fold (\<lambda>f. f k) fs x"

definition seen :: "sc_busy \<Rightarrow> sc_map \<Rightarrow> nat \<Rightarrow> nat \<Rightarrow> sc_info option" where
  "seen busy m lo i = map_option (evolve (of_nat i) (passing busy [lo..<i] @ [sb_before busy (of_nat i)])) (m (of_nat i))"

definition called :: "sc_busy \<Rightarrow> sc_map \<Rightarrow> nat \<Rightarrow> nat \<Rightarrow> (u32 \<times> sc_info) list" where
  "called busy m lo hi =
     concat (map (\<lambda>i. case seen busy m lo i of Some x \<Rightarrow> if si_cnt x \<noteq> 0 then [(of_nat i, x)] else [] | None \<Rightarrow> []) [lo..<hi])"

text \<open>What the map holds afterwards: a reported counter starts from zero at its reset, any other one has gone on.\<close>

definition counters_left :: "sc_busy \<Rightarrow> sc_map \<Rightarrow> nat \<Rightarrow> nat \<Rightarrow> sc_map" where
  "counters_left busy m lo hi k =
     (if k \<in> fst ` set (called busy m lo hi) then Some (evolve k (passing busy [Suc (unat k)..<hi]) sc_info_zero)
      else map_option (evolve k (passing busy [lo..<hi])) (m k))"

lemma sys_tbl_length: "length sys_tbl = 454"
  by (simp add: sys_tbl_def)

lemma name_width_value: "name_width = 23"
  by (simp add: name_width_def sys_tbl_def)

lemma key_value: "i < 454 \<Longrightarrow> unat (of_nat i :: u32) = i"
  by (simp add: unat_of_nat)

lemma passing_Cons: "passing busy (i # ks) = sb_before busy (of_nat i) # sb_after busy (of_nat i) # passing busy ks"
  by (simp add: passing_def)

lemma evolve_Nil: "evolve k [] = (\<lambda>x. x)"
  by (simp add: evolve_def fun_eq_iff)

lemma evolve_simps [simp]: "evolve k [] x = x" "evolve k (f # fs) x = evolve k fs (f k x)"
  by (simp_all add: evolve_def)

text \<open>One step of the walk, for the keys that follow.\<close>

abbreviation stepped :: "sc_busy \<Rightarrow> nat \<Rightarrow> sc_map \<Rightarrow> sc_map" where
  "stepped busy lo m \<equiv> tick (sb_after busy (of_nat lo)) (tick (sb_before busy (of_nat lo)) m)"

lemma evolve_step:
  assumes "lo < hi"
  shows "map_option (evolve k (passing busy [Suc lo..<hi])) (stepped busy lo m k) = map_option (evolve k (passing busy [lo..<hi])) (m k)"
  using assms by (cases "m k") (simp_all add: upt_conv_Cons passing_Cons tick_def)

lemma seen_step:
  assumes "lo < i"
  shows "seen busy (stepped busy lo m) (Suc lo) i = seen busy m lo i"
  using assms by (cases "m (of_nat i)") (simp_all add: seen_def upt_conv_Cons passing_Cons tick_def)

lemma seen_cong: "m (of_nat i) = m' (of_nat i) \<Longrightarrow> seen busy m lo i = seen busy m' lo i"
  by (simp add: seen_def)

lemma key_differs: "lo < i \<Longrightarrow> i < 454 \<Longrightarrow> (of_nat i :: u32) \<noteq> of_nat lo"
  using key_value [of i] key_value [of lo] by (metis less_trans less_irrefl)

lemma called_step:
  assumes "lo < hi" "hi \<le> 454" "\<forall>k. k \<noteq> of_nat lo \<longrightarrow> m' k = stepped busy lo m k"
  shows "called busy m lo hi = (case seen busy m lo lo of Some x \<Rightarrow> if si_cnt x \<noteq> 0 then [(of_nat lo, x)] else [] | None \<Rightarrow> [])
     @ called busy m' (Suc lo) hi"
proof -
  have "seen busy m' (Suc lo) i = seen busy m lo i" if i: "i \<in> set [Suc lo..<hi]" for i
  proof -
    have "(of_nat i :: u32) \<noteq> of_nat lo" using i assms(2) by (intro key_differs) auto
    then have "seen busy m' (Suc lo) i = seen busy (stepped busy lo m) (Suc lo) i" using assms(3) by (intro seen_cong) simp
    then show ?thesis using seen_step i by simp
  qed
  then have "called busy m' (Suc lo) hi
      = concat (map (\<lambda>i. case seen busy m lo i of Some x \<Rightarrow> if si_cnt x \<noteq> 0 then [(of_nat i, x)] else [] | None \<Rightarrow> []) [Suc lo..<hi])"
    unfolding called_def by (intro arg_cong [of _ _ concat] map_cong refl) simp
  then show ?thesis using assms(1) by (simp add: called_def upt_conv_Cons)
qed

lemma called_keys: "k \<in> fst ` set (called busy m lo hi) \<Longrightarrow> \<exists>j. lo \<le> j \<and> j < hi \<and> k = of_nat j"
  by (auto simp: called_def split: option.splits if_splits)

lemma left_step:
  assumes "lo < hi" "hi \<le> 454" "seen busy m lo lo = Some x"
    and "m' = (if si_cnt x = 0 then stepped busy lo m else (stepped busy lo m)(of_nat lo \<mapsto> sc_info_zero))"
  shows "counters_left busy m' (Suc lo) hi = counters_left busy m lo hi"
proof
  fix k
  have others: "\<forall>k. k \<noteq> of_nat lo \<longrightarrow> m' k = stepped busy lo m k" using assms(4) by simp
  have c: "called busy m lo hi = (if si_cnt x \<noteq> 0 then [(of_nat lo, x)] else []) @ called busy m' (Suc lo) hi"
    using called_step [OF assms(1,2) others] assms(3) by simp
  show "counters_left busy m' (Suc lo) hi k = counters_left busy m lo hi k"
  proof (cases "k = of_nat lo")
    case True
    have "k \<notin> fst ` set (called busy m' (Suc lo) hi)"
    proof
      assume "k \<in> fst ` set (called busy m' (Suc lo) hi)"
      from called_keys [OF this] obtain j where "lo < j" "j < hi" "k = of_nat j" unfolding Suc_le_eq by blast
      then show False using key_differs [of lo j] True assms(2) by simp
    qed
    moreover have "unat k = lo" unfolding True using assms(1,2) by (intro key_value) simp
    moreover have "m' k = (if si_cnt x = 0 then stepped busy lo m k else Some sc_info_zero)" using assms(4) True by simp
    ultimately show ?thesis using True evolve_step [OF assms(1), of k busy m] by (simp add: counters_left_def c)
  next
    case False
    then have "m' k = stepped busy lo m k" using others by blast
    then show ?thesis using False evolve_step [OF assms(1), of k busy m] by (auto simp: counters_left_def c)
  qed
qed

text \<open>What a walk from one key finds, sums up and leaves.\<close>

lemma sc_collect_array:
  assumes "N \<le> 454" "\<forall>j < N. m (of_nat j) \<noteq> None" "i < N" "N - i \<le> f"
  shows "sc_collect f (array_next N) busy (of_nat i) m
     = Done (called busy m (Suc i) N, \<Sum>(k, x)\<leftarrow>called busy m (Suc i) N. ucast (si_cnt x), counters_left busy m (Suc i) N)"
  using assms
proof (induction f arbitrary: i m)
  case 0
  then show ?case by simp
next
  case (Suc f)
  have ui: "unat (of_nat i :: u32) = i" using Suc.prems by (intro key_value) simp
  show ?case
  proof (cases "Suc i = N")
    case True
    then have "array_next N (of_nat i) = None" using ui by (simp add: array_next_def)
    then show ?thesis using True by (simp add: called_def counters_left_def passing_def fun_eq_iff evolve_Nil option.map_ident)
  next
    case False
    let ?k = "of_nat (Suc i) :: u32" and ?m2 = "stepped busy (Suc i) m"
    have lt: "Suc i < N" using False Suc.prems(3) by simp
    then have nx: "array_next N (of_nat i) = Some ?k" using ui by (simp add: array_next_def add.commute)
    have uk: "unat ?k = Suc i" using lt Suc.prems(1) by (intro key_value) simp
    have room: "\<not> unat ?k \<ge> length sys_tbl" using uk lt Suc.prems(1) by (simp add: sys_tbl_length)
    obtain x where x: "tick (sb_before busy ?k) m ?k = Some x" using Suc.prems(2) lt by (fastforce simp: tick_def)
    then have sn: "seen busy m (Suc i) (Suc i) = Some x" by (simp add: seen_def passing_def tick_def)
    define m' where "m' = (if si_cnt x = 0 then ?m2 else ?m2(?k \<mapsto> sc_info_zero))"
    have others: "\<forall>k. k \<noteq> ?k \<longrightarrow> m' k = ?m2 k" by (simp add: m'_def)
    have c: "called busy m (Suc i) N = (if si_cnt x \<noteq> 0 then [(?k, x)] else []) @ called busy m' (Suc (Suc i)) N"
      using called_step [OF lt Suc.prems(1) others] sn by simp
    have l: "counters_left busy m' (Suc (Suc i)) N = counters_left busy m (Suc i) N"
      by (rule left_step [OF lt Suc.prems(1) sn m'_def])
    have "\<forall>j < N. m' (of_nat j) \<noteq> None" using Suc.prems(2) by (auto simp: m'_def tick_def)
    then have ih: "sc_collect f (array_next N) busy ?k m' = Done (called busy m' (Suc (Suc i)) N,
        \<Sum>(k, x)\<leftarrow>called busy m' (Suc (Suc i)) N. ucast (si_cnt x), counters_left busy m' (Suc (Suc i)) N)"
      using Suc.prems lt by (intro Suc.IH) simp_all
    have run: "sc_collect (Suc f) (array_next N) busy (of_nat i) m =
        (if si_cnt x = 0 then sc_collect f (array_next N) busy ?k m'
         else bind_outcome (sc_collect f (array_next N) busy ?k m') (\<lambda>(st, total, m'). Done ((?k, x) # st, total + ucast (si_cnt x), m')))"
      using nx x room by (simp add: m'_def Let_def del: of_nat_Suc)
    show ?thesis unfolding run ih c l by (simp add: add.commute)
  qed
qed

text \<open>C38: while the kernel goes on counting, one round on an array of counters for at most as many calls as have a name reports
  every system call but number 0 whose counter is not 0 when it is looked up, exactly once and with the counter of
  that moment, sorted by count. A line with the total follows: the sum of the counts in 32 bits, printed as a signed number
  and left out if it is 0. Afterwards each reported counter holds exactly what was counted after its reset, so that the calls
  counted between its lookup and its reset are lost, and every other counter has just gone on. The array has an entry for
  every key and \<open>std::sort\<close> sorts.\<close>

theorem syscall_round_exact:
  assumes "N \<le> 454" "0 < N" "\<forall>j < N. m (of_nat j) \<noteq> None" "se_next env = array_next N" "se_keys env = N" "sorts_by_count (se_sort env)"
  shows "\<exists>rows. sc_round env busy m = Done (map (sc_row (se_secs env)) rows
        @ (let total = \<Sum>(k, x)\<leftarrow>rows. ucast (si_cnt x) :: u32 in if total \<noteq> 0 then [NL # ''total: '' @ fmt_d total @ [NL]] else []),
        counters_left busy m 1 N)
     \<and> mset rows = mset (called busy m 1 N) \<and> sorted_wrt (\<lambda>a b. si_cnt (snd b) \<le> si_cnt (snd a)) rows"
proof -
  let ?c = "called busy m 1 N" and ?rows = "se_sort env (called busy m 1 N)"
  have s: "mset ?rows = mset ?c" "sorted_wrt (\<lambda>a b. si_cnt (snd b) \<le> si_cnt (snd a)) ?rows"
    using assms(6) unfolding sorts_by_count_def by blast+
  have sum: "(\<Sum>(k, x)\<leftarrow>?c. ucast (si_cnt x) :: u32) = (\<Sum>(k, x)\<leftarrow>?rows. ucast (si_cnt x))"
    using s(1) by (metis (no_types, lifting) mset_map sum_mset_sum_list)
  have "sc_collect N (array_next N) busy 0 m = Done (?c, \<Sum>(k, x)\<leftarrow>?c. ucast (si_cnt x), counters_left busy m 1 N)"
    using sc_collect_array [OF assms(1,3,2), of N busy] by simp
  then show ?thesis using assms(4,5) s sum by (intro exI [of _ ?rows]) (simp add: sc_round_def Let_def)
qed

text \<open>A concrete sort, and three counters.\<close>

definition ex_sort :: "(u32 \<times> sc_info) list \<Rightarrow> (u32 \<times> sc_info) list" where
  "ex_sort xs = rev (sort_key (\<lambda>e. si_cnt (snd e)) xs)"

lemma ex_sort_sorts: "sorts_by_count ex_sort"
proof -
  have "sorted_wrt (\<lambda>a b. si_cnt (snd b) \<le> si_cnt (snd a)) (ex_sort xs)" for xs
    using sorted_sort_key [of "\<lambda>e. si_cnt (snd e)" xs] by (simp add: ex_sort_def sorted_wrt_rev sorted_map)
  then show ?thesis by (simp add: sorts_by_count_def ex_sort_def)
qed

definition ex_counts :: sc_map where
  "ex_counts k = (if k < 3 then Some \<lparr>si_cnt = 5, si_time = 0, si_ret = 0\<rparr> else None)"

definition ex_sc_env :: sc_env where
  "ex_sc_env = \<lparr>se_next = array_next 3, se_keys = 3, se_sort = ex_sort, se_secs = (\<lambda>t. ''0'')\<rparr>"

text \<open>A kernel that counts one call of number 1 between the lookup and the reset of each key.\<close>

definition ex_busy :: sc_busy where
  "ex_busy = \<lparr>sb_before = (\<lambda>k j x. x), sb_after = (\<lambda>k j x. if j = 1 then x\<lparr>si_cnt := si_cnt x + 1\<rparr> else x)\<rparr>"

lemma ex_counts_called:
  "called ex_busy ex_counts 1 3 = [(1, \<lparr>si_cnt = 5, si_time = 0, si_ret = 0\<rparr>), (2, \<lparr>si_cnt = 5, si_time = 0, si_ret = 0\<rparr>)]"
  by code_simp

text \<open>Of the seven calls of number 1, five are reported, one is left for the next round and one is lost.\<close>

theorem syscall_round_exact_witness:
  "\<exists>out m'. sc_round ex_sc_env ex_busy ex_counts = Done (out, m') \<and> map_option si_cnt (m' 1) = Some 1"
proof -
  have pre: "(3 :: nat) \<le> 454" "0 < (3 :: nat)" by simp_all
  have all: "\<forall>j < 3. ex_counts (of_nat j) \<noteq> None" by (auto simp: ex_counts_def less_Suc_eq numeral_3_eq_3)
  have env: "se_next ex_sc_env = array_next 3" "se_keys ex_sc_env = 3" "sorts_by_count (se_sort ex_sc_env)"
    by (simp_all add: ex_sc_env_def ex_sort_sorts)
  have "map_option si_cnt (counters_left ex_busy ex_counts 1 3 1) = Some 1"
    unfolding counters_left_def ex_counts_called by (simp add: upt_conv_Cons passing_def ex_busy_def sc_info_zero_def)
  then show ?thesis using syscall_round_exact [OF pre all env, of ex_busy] by blast
qed

text \<open>The documented option \<open>-t\<close> ends the program.\<close>

lemma top_not_accepted: "sc_options jhash ((CHR ''t'', []) # os) st = Inl (- 1)"
  by (cases st) simp

lemma syscall_stat_silent:
  "sy_calloc sys \<Longrightarrow> sy_opts sys = [] \<Longrightarrow> sy_sigaction sys \<Longrightarrow> sy_load sys \<Longrightarrow> sy_attach sys \<Longrightarrow> \<not> sy_update sys \<Longrightarrow>
     \<exists>out. syscall_stat_main sys = Done (0, None, out)"
  by (simp add: syscall_stat_main_def)

end
