(* ===== verification/Usage_Text.thy ===== *)
theory Usage_Text
  imports Frtp_Policy
begin

text \<open>
  The tables of options and of help texts, and the usage messages, of the tools that share this form. The two tables are
  read in parallel: an option without a help text would make the message read past the end of the second one.
\<close>

type_synonym opt_entry = "string \<times> has_arg \<times> char"
type_synonym help_entry = "string \<times> string"

text \<open>The loop of \<open>Usage\<close>.\<close>

definition usage_entry :: "help_entry list \<Rightarrow> nat \<times> opt_entry \<Rightarrow> string outcome" where
  "usage_entry help e =
     (case e of (i, name, arg, val) \<Rightarrow>
        if i < length help
        then Done (''  -'' @ [val] @ '', --'' @ name @ '' '' @ fst (help ! i) @ [NL, CHR 0x09] @ snd (help ! i) @ [NL])
        else Fault)"

fun usage_entries :: "help_entry list \<Rightarrow> (nat \<times> opt_entry) list \<Rightarrow> string outcome" where
  "usage_entries help [] = Done []"
| "usage_entries help (e # es) =
     bind_outcome (usage_entry help e) (\<lambda>s. bind_outcome (usage_entries help es) (\<lambda>t. Done (s @ t)))"

definition usage_text :: "string \<Rightarrow> opt_entry list \<Rightarrow> help_entry list \<Rightarrow> string outcome" where
  "usage_text intro opts help = bind_outcome (usage_entries help (enumerate 0 opts)) (\<lambda>t. Done (intro @ t))"

text \<open>The argument of \<open>getopt_long\<close>.\<close>

definition short_opts :: "opt_entry list \<Rightarrow> string outcome" where
  "short_opts opts = long_opt2short_opt (map (\<lambda>(name, arg, val). (val, arg)) opts)"

section \<open>The tables\<close>

definition lsock_opts :: "opt_entry list" where
  "lsock_opts =
     [(''sip'', required_argument, CHR ''i''),
      (''dip'', required_argument, CHR ''I''),
      (''sport'', required_argument, CHR ''p''),
      (''dport'', required_argument, CHR ''P''),
      (''tcp'', no_argument, CHR ''t''),
      (''udp'', no_argument, CHR ''u''),
      (''unix'', no_argument, CHR ''x''),
      (''ipv4'', no_argument, CHR ''4''),
      (''ipv6'', no_argument, CHR ''6''),
      (''listen'', no_argument, CHR ''l''),
      (''help'', no_argument, CHR ''h'')]"

definition lsock_help :: "help_entry list" where
  "lsock_help =
     [(''<source ip>'', ''process name to filter'' @ [NL]),
      (''<dest ip>'', ''process id to filter'' @ [NL]),
      (''<source port>'', ''remote ip to filter'' @ [NL]),
      (''<dest port>'', ''remote port to filter'' @ [NL]),
      ([], ''filter tcp socket'' @ [NL]),
      ([], ''filter udp socket'' @ [NL]),
      ([], ''filter unix socket'' @ [NL]),
      ([], ''filter ipv4 socket'' @ [NL]),
      ([], ''filter ipv6 socket'' @ [NL]),
      ([], ''filter socket in state LISTENING'' @ [NL]),
      ([], ''print this help message'' @ [NL])]"

definition lsock_usage :: "string \<Rightarrow> string outcome" where
  "lsock_usage arg0 = usage_text (''Usage: '' @ arg0 @ '' [option]'' @ [NL] @ ''  list the sockets that the system is using'' @ [NL] @ [NL] @ ''Options:'' @ [NL]) lsock_opts lsock_help"

definition trace_file_opts :: "opt_entry list" where
  "trace_file_opts =
     [(''path'', required_argument, CHR ''p''),
      (''dev'', required_argument, CHR ''d''),
      (''inode'', no_argument, CHR ''i''),
      (''help'', no_argument, CHR ''h'')]"

definition trace_file_help :: "help_entry list" where
  "trace_file_help =
     [(''<path>'', ''file path to trace'' @ [NL]),
      (''[dev]'', ''when using the inode number of <path> as the filter,'' @ [NL] @ [CHR 0x09] @ ''this option specify the device number of filesystem to which'' @ [NL] @ [CHR 0x09] @ ''the inode belong.'' @ [NL] @ [CHR 0x09] @ ''you can get the dev by running command '' @ [CHR 0x27] @ ''stat -c %d <file>'' @ [CHR 0x27] @ [NL]),
      (''<ino>'', ''use file inode as filter'' @ [NL]),
      ([], ''print this help message'' @ [NL])]"

definition trace_file_usage :: "string \<Rightarrow> string outcome" where
  "trace_file_usage arg0 = usage_text (''Usage: '' @ arg0 @ '' [option]'' @ [NL] @ ''  Trace all the events happening to a specified file, and print out the event details'' @ [NL] @ [NL] @ ''Options:'' @ [NL]) trace_file_opts trace_file_help"

definition lscgroup_opts :: "opt_entry list" where
  "lscgroup_opts =
     [(''name'', required_argument, CHR ''n''),
      (''id'', required_argument, CHR ''i''),
      (''parent_id'', required_argument, CHR ''p''),
      (''level'', required_argument, CHR ''l''),
      (''help'', no_argument, CHR ''h'')]"

definition lscgroup_help :: "help_entry list" where
  "lscgroup_help =
     [(''[cgroup name]'', ''the directory name you use to create a new cgroup by calling '' @ [CHR 0x27] @ ''mkdir'' @ [CHR 0x27] @ ''.'' @ [NL]),
      (''[cgroup id]'', ''the cgroup inode number, you can check this by call '' @ [CHR 0x27] @ ''stat'' @ [CHR 0x27] @ '' syscall on a cgroup directory.'' @ [NL]),
      (''[parent id]'', ''similar to id, but of parent.'' @ [NL]),
      (''[cgroup level]'', ''the cgroup rank level in the whole cgroup hierarchy tree. the level of root cgroup is 0, and it increases while going down through the tree'' @ [NL]),
      ([], ''print this help message'' @ [NL])]"

definition lscgroup_usage :: "string \<Rightarrow> string outcome" where
  "lscgroup_usage arg0 = usage_text (''Usage: '' @ arg0 @ '' [option]'' @ [NL] @ ''  To query who are occupying the specified file.'' @ [NL] @ [NL] @ ''Options:'' @ [NL]) lscgroup_opts lscgroup_help"

definition lsof_opts :: "opt_entry list" where
  "lsof_opts =
     [(''path'', required_argument, CHR ''p''),
      (''dev'', required_argument, CHR ''d''),
      (''inode'', required_argument, CHR ''i''),
      (''help'', no_argument, CHR ''h'')]"

definition lsof_help :: "help_entry list" where
  "lsof_help =
     [(''[path]'', ''path of the file to watch on'' @ [NL]),
      (''[dev]'', ''the device number of filesystem to which the inode belong.'' @ [NL] @ [CHR 0x09] @ ''you can get the dev by running command '' @ [CHR 0x27] @ ''stat -c %d <file>'' @ [CHR 0x27] @ [NL]),
      (''[inode]'', ''inode of the file to watch on'' @ [NL]),
      ([], ''print this help message'' @ [NL])]"

definition lsof_usage :: "string \<Rightarrow> string outcome" where
  "lsof_usage arg0 = usage_text (''Usage: '' @ arg0 @ '' [option]'' @ [NL] @ ''  To query who are occupying the specified file.'' @ [NL] @ [NL] @ ''Options:'' @ [NL]) lsof_opts lsof_help"

definition run_queue_opts :: "opt_entry list" where
  "run_queue_opts =
     [(''tgid'', required_argument, CHR ''P''),
      (''tid'', required_argument, CHR ''p''),
      (''on-rq'', no_argument, CHR ''r''),
      (''on-cpu'', no_argument, CHR ''c''),
      (''utime'', required_argument, CHR ''u''),
      (''stime'', required_argument, CHR ''s''),
      (''start_time'', required_argument, CHR ''S''),
      (''priority'', required_argument, CHR ''d''),
      (''comm'', required_argument, CHR ''C''),
      (''help'', no_argument, CHR ''h'')]"

definition run_queue_help :: "help_entry list" where
  "run_queue_help =
     [(''<tgid>'', ''process pid to filter'' @ [NL]),
      (''<tid>'', ''process tid to filter'' @ [NL]),
      ([], ''whether process is on run queue currently'' @ [NL]),
      ([], ''whether process is running on cpu currently'' @ [NL]),
      (''<utime>'', ''process user time to filter'' @ [NL]),
      (''<stime>'', ''process system time to filter'' @ [NL]),
      (''<start_time>'', ''process start time to filter'' @ [NL]),
      (''<priority>'', ''process priority to filter'' @ [NL]),
      (''<comm>'', ''process command line to filter'' @ [NL]),
      ([], ''print this help message'' @ [NL])]"

definition run_queue_usage :: "string \<Rightarrow> string outcome" where
  "run_queue_usage arg0 = usage_text (''Usage: '' @ arg0 @ '' [option]'' @ [NL] @ ''  print each task on each percpu run queue'' @ [NL] @ [NL] @ ''Options:'' @ [NL]) run_queue_opts run_queue_help"

definition net_traffic_opts :: "opt_entry list" where
  "net_traffic_opts =
     [(''comm'', required_argument, CHR ''c''),
      (''pid'', required_argument, CHR ''p''),
      (''remote'', required_argument, CHR ''r''),
      (''port'', required_argument, CHR ''P''),
      (''dir'', required_argument, CHR ''d''),
      (''help'', no_argument, CHR ''h'')]"

definition net_traffic_help :: "help_entry list" where
  "net_traffic_help =
     [(''<process name>'', ''process name to filter'' @ [NL]),
      (''<process id>'', ''process id to filter'' @ [NL]),
      (''<remote ip>'', ''remote ip to filter'' @ [NL]),
      (''<remote port>'', ''remote port to filter'' @ [NL]),
      (''<direction>'', ''traffic direction to filter'' @ [NL]),
      ([], ''print this help message'' @ [NL])]"

definition net_traffic_usage :: "string \<Rightarrow> string outcome" where
  "net_traffic_usage arg0 = usage_text (''Usage: '' @ arg0 @ '' [option]'' @ [NL] @ ''  statistic network traffic per process, per ip, per port or per interface'' @ [NL] @ [NL] @ ''Options:'' @ [NL]) net_traffic_opts net_traffic_help"

definition syscall_stat_opts :: "opt_entry list" where
  "syscall_stat_opts =
     [(''pid'', required_argument, CHR ''p''),
      (''file'', required_argument, CHR ''f''),
      (''comm'', required_argument, CHR ''c''),
      (''interval'', required_argument, CHR ''i''),
      (''top'', no_argument, CHR ''t''),
      (''help'', no_argument, CHR ''h'')]"

definition syscall_stat_help :: "help_entry list" where
  "syscall_stat_help =
     [(''[pid]'', ''stat the syscalls of process of [pid]'' @ [NL]),
      (''[file]'', ''stat syscalls of process whose filepath is [file]'' @ [NL]),
      (''[comm]'', ''stat syscalls of process whose name is [comm]'' @ [NL]),
      (''[interval]'', ''the interval to stat syscalls'' @ [NL]),
      (''[top]'', ''output information in top way'' @ [NL]),
      ([], ''print this help message'' @ [NL])]"

definition syscall_stat_usage :: "string \<Rightarrow> string outcome" where
  "syscall_stat_usage arg0 = usage_text (''Usage: '' @ arg0 @ '' [option]'' @ [NL] @ ''  statistic the frequency of syscall calling of a specific process.'' @ [NL] @ ''the process can be specified by pid, filepath or comm.'' @ [NL] @ ''if more than one option is specified, the priority is pid > filepath > comm.'' @ [NL] @ [NL] @ ''Options:'' @ [NL]) syscall_stat_opts syscall_stat_help"

definition lsns_opts :: "opt_entry list" where
  "lsns_opts =
     [(''json'', no_argument, CHR ''J''),
      (''help'', no_argument, CHR ''h'')]"

definition lsns_help :: "help_entry list" where
  "lsns_help =
     [([], ''use JSON output format''),
      ([], ''print this help message'' @ [NL])]"

definition lsns_usage :: "string \<Rightarrow> string outcome" where
  "lsns_usage arg0 = usage_text (''Usage:'' @ [NL] @ ''  '' @ arg0 @ '' [option] [<namespace>]'' @ [NL] @ ''list the Linux namespaces that the system is using'' @ [NL] @ [NL] @ ''Options:'' @ [NL]) lsns_opts lsns_help"

definition frtp_opts :: "opt_entry list" where
  "frtp_opts =
     [(''policy-file'', required_argument, CHR ''p''),
      (''help'', no_argument, CHR ''h'')]"

definition frtp_help :: "help_entry list" where
  "frtp_help =
     [(''<policy-file>'', ''specify the policy file to load policy'' @ [NL]),
      ([], ''print this help message'' @ [NL])]"

definition frtp_usage :: "string \<Rightarrow> string outcome" where
  "frtp_usage arg0 = usage_text (''Usage: '' @ arg0 @ '' [option]'' @ [NL] @ ''  protect system files from malicious opening according to the policy file'' @ [NL] @ [NL] @ ''Options:'' @ [NL]) frtp_opts frtp_help"

definition elfverify_opts :: "opt_entry list" where
  "elfverify_opts =
     [(''policy-file'', required_argument, CHR ''p''),
      (''help'', no_argument, CHR ''h'')]"

definition elfverify_help :: "help_entry list" where
  "elfverify_help =
     [(''<policy-file>'', ''specify the policy file to load policy'' @ [NL]),
      ([], ''print this help message'' @ [NL])]"

definition elfverify_usage :: "string \<Rightarrow> string outcome" where
  "elfverify_usage arg0 = usage_text (''Usage: '' @ arg0 @ '' [option]'' @ [NL] @ ''  prevent the execution of applications from untrusted sources according to the policy file'' @ [NL] @ [NL] @ ''Options:'' @ [NL]) elfverify_opts elfverify_help"

definition rm_forbid_opts :: "opt_entry list" where
  "rm_forbid_opts =
     [(''path'', required_argument, CHR ''p''),
      (''dev'', required_argument, CHR ''d''),
      (''inode'', required_argument, CHR ''i''),
      (''help'', no_argument, CHR ''h'')]"

definition rm_forbid_help :: "help_entry list" where
  "rm_forbid_help =
     [(''[path]'', ''path of the file to watch on'' @ [NL]),
      (''[dev]'', ''the device number of filesystem to which the inode belong.'' @ [NL] @ [CHR 0x09] @ ''you can get the dev by running command '' @ [CHR 0x27] @ ''stat -c %d <file>'' @ [CHR 0x27] @ [NL]),
      (''[inode]'', ''inode of the file to watch on'' @ [NL]),
      ([], ''print this help message'' @ [NL])]"

definition rm_forbid_usage :: "string \<Rightarrow> string outcome" where
  "rm_forbid_usage arg0 = usage_text (''Usage: '' @ arg0 @ '' [option]'' @ [NL] @ ''  To query who are occupying the specified file.'' @ [NL] @ [NL] @ ''Options:'' @ [NL]) rm_forbid_opts rm_forbid_help"

definition bio_stat_opts :: "opt_entry list" where
  "bio_stat_opts =
     [(''pid'', required_argument, CHR ''p''),
      (''comm'', required_argument, CHR ''c''),
      (''dev'', required_argument, CHR ''d''),
      (''duration'', required_argument, CHR ''D''),
      (''interval'', required_argument, CHR ''i''),
      (''top'', no_argument, CHR ''t''),
      (''help'', no_argument, CHR ''h'')]"

definition bio_stat_help :: "help_entry list" where
  "bio_stat_help =
     [(''[pid]'', ''filter output by the pid'' @ [NL]),
      (''[comm]'', ''filter output by the process comm.'' @ [NL]),
      (''[dev]'', ''filter output by device number, format val=(major << 8 | minor)'' @ [NL]),
      (''[duration]'', ''set the duration time when to exit'' @ [NL]),
      (''[interval]'', ''statistic interval'' @ [NL]),
      (''[top]'', ''output infomation in a top way'' @ [NL]),
      ([], ''print this help message'' @ [NL])]"

definition bio_stat_usage :: "string \<Rightarrow> string outcome" where
  "bio_stat_usage arg0 = usage_text (''Usage: '' @ arg0 @ '' [option]'' @ [NL] @ ''  To monitor the block io speed per process per disk.'' @ [NL] @ [NL] @ ''Options:'' @ [NL]) bio_stat_opts bio_stat_help"

definition trace_exec_opts :: "opt_entry list" where
  "trace_exec_opts =
     [(''uid'', required_argument, CHR ''u''),
      (''depth'', required_argument, CHR ''d''),
      (''target'', required_argument, CHR ''t''),
      (''help'', no_argument, CHR ''h'')]"

definition trace_exec_help :: "help_entry list" where
  "trace_exec_help =
     [(''<uid>'', ''filter with uid'' @ [NL]),
      (''<depth>'', ''set the printed task chain length'' @ [NL]),
      (''[target]'', ''filter with process file path'' @ [NL]),
      ([], ''print this help message'' @ [NL])]"

definition trace_exec_usage :: "string \<Rightarrow> string outcome" where
  "trace_exec_usage arg0 = usage_text (''Usage: '' @ arg0 @ '' [option]'' @ [NL] @ ''  trace exec event on the system, support filter with process image file name and uid.'' @ [NL] @ ''  This tool is useful for tracing processes that run and exit fast, traditional methods, like traversing through the proc dir, cannot catch such events in time.'' @ [NL] @ [NL] @ ''options:'' @ [NL]) trace_exec_opts trace_exec_help"

definition trace_signal_opts :: "opt_entry list" where
  "trace_signal_opts =
     [(''sender-pid'', required_argument, CHR ''P''),
      (''recv-pid'', required_argument, CHR ''p''),
      (''sender-prog'', required_argument, CHR ''s''),
      (''recv-prog'', required_argument, CHR ''r''),
      (''sig'', required_argument, CHR ''S''),
      (''res'', required_argument, CHR ''R''),
      (''help'', no_argument, CHR ''h'')]"

definition trace_signal_help :: "help_entry list" where
  "trace_signal_help =
     [(''<sender-pid>'', ''Sender process ID to filter'' @ [NL]),
      (''<recv-pid>'', ''Receiver process ID to filter'' @ [NL]),
      (''<sender-prog>'', ''Filter by sender program'' @ [NL]),
      (''<recv-prog>'', ''Filter by receiver program'' @ [NL]),
      (''<sig>'', ''Signal number to filter'' @ [NL]),
      (''<res>'', ''Signal number to filter'' @ [NL]),
      ([], ''print this help message'' @ [NL])]"

definition trace_signal_usage :: "string \<Rightarrow> string outcome" where
  "trace_signal_usage arg0 = usage_text (''Usage: '' @ arg0 @ '' [option]'' @ [NL] @ ''  Trace signal communication between processes.'' @ [NL] @ [NL] @ ''Options:'' @ [NL]) trace_signal_opts trace_signal_help"

definition peek_fd_opts :: "opt_entry list" where
  "peek_fd_opts =
     [(''pid'', required_argument, CHR ''p''),
      (''fd'', required_argument, CHR ''f''),
      (''read'', no_argument, CHR ''r''),
      (''write'', no_argument, CHR ''w''),
      (''outfile'', required_argument, CHR ''o''),
      (''sock'', no_argument, CHR ''s''),
      (''help'', no_argument, CHR ''h'')]"

definition peek_fd_help :: "help_entry list" where
  "peek_fd_help =
     [(''<pid>'', ''filter with pid'' @ [NL]),
      (''<fd>'', ''watch the specific fd in the process of pid'' @ [NL]),
      (''[read]'', ''watch read data'' @ [NL]),
      (''[write]'', ''watch write data'' @ [NL]),
      (''[outfile]'', ''write data to a file'' @ [NL]),
      (''[sock]'', ''output include fd of sockect type'' @ [NL]),
      ([], ''print this help message'' @ [NL])]"

definition peek_fd_usage :: "string \<Rightarrow> string outcome" where
  "peek_fd_usage arg0 = usage_text (''Usage: '' @ arg0 @ '' [option]'' @ [NL] @ ''  Trace file descriptor IO data of a specific process on the system. Supports filtering by PID and FD.'' @ [NL] @ [NL] @ ''Options:'' @ [NL]) peek_fd_opts peek_fd_help"

section \<open>What holds\<close>

definition opt_tables :: "(opt_entry list \<times> help_entry list) list" where
  "opt_tables = [(lsock_opts, lsock_help), (trace_file_opts, trace_file_help), (lscgroup_opts, lscgroup_help), (lsof_opts, lsof_help), (run_queue_opts, run_queue_help), (net_traffic_opts, net_traffic_help), (syscall_stat_opts, syscall_stat_help), (lsns_opts, lsns_help), (frtp_opts, frtp_help), (elfverify_opts, elfverify_help), (rm_forbid_opts, rm_forbid_help), (bio_stat_opts, bio_stat_help), (trace_exec_opts, trace_exec_help), (trace_signal_opts, trace_signal_help), (peek_fd_opts, peek_fd_help)]"

text \<open>The tables fit together: a help text for every option, and no option or letter twice.\<close>

definition tables_ok :: "opt_entry list \<times> help_entry list \<Rightarrow> bool" where
  "tables_ok t \<longleftrightarrow> length (snd t) = length (fst t) \<and> distinct (map fst (fst t)) \<and> distinct (map (snd \<circ> snd) (fst t))
     \<and> list_all (\<lambda>(name, arg, val). arg \<noteq> bad_argument \<and> val \<noteq> CHR '':'') (fst t)"

lemma all_tables_ok: "list_all tables_ok opt_tables"
  by code_simp

lemma usage_entries_total:
  assumes "\<forall>(i, e) \<in> set es. i < length help"
  shows "\<exists>s. usage_entries help es = Done s"
  using assms
proof (induction es)
  case (Cons e es)
  obtain i name arg val where e: "e = (i, name, arg, val)" by (cases e) auto
  have "i < length help" using Cons.prems by (simp add: e)
  then show ?case using Cons by (auto simp: e usage_entry_def)
qed simp

lemma short_opts_total:
  assumes "list_all (\<lambda>(name, arg, val). arg \<noteq> bad_argument) opts"
  shows "\<exists>s. short_opts opts = Done s"
  using assms unfolding short_opts_def
proof (induction opts)
  case (Cons e opts)
  obtain name arg val where e: "e = (name, arg, val)" by (cases e)
  show ?case using Cons by (cases arg) (auto simp: e)
qed simp

text \<open>How \<open>getopt_long\<close> reads a list of short options: a letter and the number of colons behind it.\<close>

function read_short :: "string \<Rightarrow> (char \<times> nat) list" where
  "read_short [] = []"
| "read_short (c # s) = (let cs = takeWhile (\<lambda>x. x = CHR '':'') s in (c, length cs) # read_short (dropWhile (\<lambda>x. x = CHR '':'') s))"
  by pat_completeness auto

termination
  by (relation "measure length") (simp_all add: less_Suc_eq_le length_dropWhile_le)

fun colons :: "has_arg \<Rightarrow> nat" where
  "colons no_argument = 0"
| "colons required_argument = 1"
| "colons optional_argument = 2"
| "colons bad_argument = 0"

lemma colon_run:
  assumes "s = [] \<or> hd s \<noteq> CHR '':''"
  shows "takeWhile (\<lambda>x. x = CHR '':'') s = []" "dropWhile (\<lambda>x. x = CHR '':'') s = s"
  using assms by (cases s; simp)+

text \<open>The short options mean what the table says.\<close>

lemma short_opts_read:
  assumes "list_all (\<lambda>(name, arg, val). arg \<noteq> bad_argument \<and> val \<noteq> CHR '':'') opts" "short_opts opts = Done s"
  shows "read_short s = map (\<lambda>(name, arg, val). (val, colons arg)) opts \<and> (s = [] \<or> hd s \<noteq> CHR '':'')"
  using assms
proof (induction opts arbitrary: s)
  case Nil
  then show ?case by (simp add: short_opts_def)
next
  case (Cons e opts)
  obtain name arg val where e: "e = (name, arg, val)" by (cases e)
  have "list_all (\<lambda>(name, arg, val). arg \<noteq> bad_argument) opts" using Cons.prems(1) by (auto simp: list_all_iff)
  from short_opts_total [OF this] obtain t where t: "short_opts opts = Done t" ..
  have ih: "read_short t = map (\<lambda>(name, arg, val). (val, colons arg)) opts" "t = [] \<or> hd t \<noteq> CHR '':''"
    using Cons.IH [OF _ t] Cons.prems(1) by simp_all
  have "s = val # replicate (colons arg) CHR '':'' @ t"
    using Cons.prems t by (cases arg) (simp_all add: e short_opts_def numeral_2_eq_2)
  moreover have "takeWhile (\<lambda>x. x = CHR '':'') (replicate (colons arg) CHR '':'' @ t) = replicate (colons arg) CHR '':''"
    "dropWhile (\<lambda>x. x = CHR '':'') (replicate (colons arg) CHR '':'' @ t) = t"
    using colon_run [OF ih(2)] by (cases arg; simp add: numeral_2_eq_2)+
  ultimately show ?case using ih Cons.prems(1) by (simp add: e)
qed

text \<open>for every tool with such tables, the usage message is printed without reading past the help texts, and the
  string that is given to \<open>getopt_long\<close> has exactly the letters of the table, each with an argument where the table says so.\<close>

theorem option_tables_consistent:
  assumes "(opts, help) \<in> set opt_tables"
  shows "(\<exists>s. usage_text intro opts help = Done s)
     \<and> (\<exists>s. short_opts opts = Done s \<and> read_short s = map (\<lambda>(name, arg, val). (val, colons arg)) opts)"
proof -
  have ok: "tables_ok (opts, help)" using assms all_tables_ok by (simp add: list_all_iff)
  have "\<forall>(i, e) \<in> set (enumerate 0 opts). i < length help" using ok by (auto simp: tables_ok_def in_set_enumerate_eq)
  from usage_entries_total [OF this] have u: "\<exists>s. usage_text intro opts help = Done s" by (auto simp: usage_text_def)
  have l: "list_all (\<lambda>(name, arg, val). arg \<noteq> bad_argument \<and> val \<noteq> CHR '':'') opts" using ok by (simp add: tables_ok_def)
  then have "list_all (\<lambda>(name, arg, val). arg \<noteq> bad_argument) opts" by (auto simp: list_all_iff)
  from short_opts_total [OF this] obtain s where "short_opts opts = Done s" ..
  then show ?thesis using u short_opts_read [OF l] by blast
qed

theorem option_tables_consistent_witness:
  "\<exists>s. short_opts lsns_opts = Done s \<and> read_short s = [(CHR ''J'', 0), (CHR ''h'', 0)]"
proof -
  have "(lsns_opts, lsns_help) \<in> set opt_tables" by (simp add: opt_tables_def)
  from option_tables_consistent [OF this, of "[]"] show ?thesis by (simp add: lsns_opts_def)
qed

end
