(* ===== verification/Com_Trace.thy ===== *)
theory Com_Trace
  imports C_Format Spin_Lock
begin

unbundle bit_operations_syntax

text \<open>
  The functions of \<open>include/com.h\<close>: reversing a long, writing a control file, and following the kernel's trace, once as
  functions and once as the class \<open>Trace\<close>. The macros around libbpf are modelled where they are used.
\<close>

section \<open>Reversing\<close>

text \<open>\<open>reverse_long\<close> with eight bytes.\<close>

definition reverse_long :: "u64 \<Rightarrow> u64" where
  "reverse_long v =
     push_bit 56 (v AND 0xff) OR push_bit 48 (v AND 0xff00) OR push_bit 40 (v AND 0xff0000) OR push_bit 32 (v AND 0xff000000)
     OR push_bit 24 (v AND 0xff00000000) OR push_bit 16 (v AND 0xff0000000000) OR push_bit 8 (v AND 0xff000000000000)
     OR push_bit 0 (v AND 0xff00000000000000)"

section \<open>Files\<close>

text \<open>\<open>write_file\<close>: the result, and what the file holds then. \<open>None\<close> if it cannot be opened; \<open>Some n\<close> is what \<open>write\<close> gives.\<close>

definition write_file :: "string \<Rightarrow> int option \<Rightarrow> int \<times> string option" where
  "write_file str res =
     (case res of
        None \<Rightarrow> (- 1, None)
      | Some n \<Rightarrow> if n < 0 then (- 1, Some []) else (n, Some (take (nat n) (str @ [NUL]))))"

section \<open>The trace\<close>

text \<open>The loop over the pipe: nothing but an error ends it.\<close>

fun follow_reads :: "(int + bytes) list \<Rightarrow> bytes outcome" where
  "follow_reads [] = Blocked"
| "follow_reads (Inl e # rs) = Done []"
| "follow_reads (Inr d # rs) = bind_outcome (follow_reads rs) (\<lambda>out. Done (d @ out))"

text \<open>\<open>follow_trace_pipe\<close>: opening is tried again every hour. The value is the number of failures and the output.\<close>

fun follow_trace_pipe :: "bool list \<Rightarrow> (int + bytes) list \<Rightarrow> (nat \<times> bytes) outcome" where
  "follow_trace_pipe [] reads = Blocked"
| "follow_trace_pipe (ok # opens) reads =
     (if ok then bind_outcome (follow_reads reads) (\<lambda>out. Done (0, out))
      else bind_outcome (follow_trace_pipe opens reads) (\<lambda>(n, out). Done (n + 1, out)))"

text \<open>\<open>read_trace\<close> and \<open>Trace::print\<close>: what a read gives is dropped if it starts with a comment.\<close>

fun print_reads :: "(int + bytes) list \<Rightarrow> bytes outcome" where
  "print_reads [] = Blocked"
| "print_reads (Inl e # rs) = Done []"
| "print_reads (Inr d # rs) =
     (if d = [] then Done []
      else bind_outcome (print_reads rs) (\<lambda>out. Done ((if hd d \<noteq> 35 then d else []) @ out)))"

definition read_trace :: "bool \<Rightarrow> (int + bytes) list \<Rightarrow> bytes outcome" where
  "read_trace opened reads = (if opened then print_reads reads else Aborted)"

section \<open>The class\<close>

datatype trace_event = WriteCtl string string | CancelFollower | ClosePipe

record trace_obj =
  to_pipe :: bool
  to_thread :: bool
  to_log :: "trace_event list"

definition trace_new :: trace_obj where
  "trace_new = \<lparr>to_pipe = False, to_thread = False, to_log = []\<rparr>"

definition TRACING_ON :: string where "TRACING_ON = ''/sys/kernel/debug/tracing/tracing_on''"

definition trace_start :: "trace_obj \<Rightarrow> trace_obj" where
  "trace_start t = t\<lparr>to_log := to_log t @ [WriteCtl TRACING_ON ''1'', WriteCtl ''/sys/kernel/debug/tracing/trace'' []]\<rparr>"

text \<open>\<open>async_follow\<close>: the thread opens the pipe (if it can) and reads.\<close>

definition trace_async_follow :: "bool \<Rightarrow> bool \<Rightarrow> trace_obj \<Rightarrow> trace_obj" where
  "trace_async_follow created opened t = (if created then t\<lparr>to_thread := True, to_pipe := opened\<rparr> else t)"

definition trace_stop :: "trace_obj \<Rightarrow> trace_obj" where
  "trace_stop t =
     (let t1 = (if to_thread t then t\<lparr>to_thread := False, to_log := to_log t @ [CancelFollower]\<rparr> else t);
          t2 = (if to_pipe t1 then t1\<lparr>to_pipe := False, to_log := to_log t1 @ [ClosePipe]\<rparr> else t1)
      in t2\<lparr>to_log := to_log t2 @ [WriteCtl TRACING_ON ''0'']\<rparr>)"

section \<open>What holds\<close>

text \<open>All bytes end up in the highest one.\<close>

lemma reverse_long_collapses: "take_bit 56 (reverse_long v) = 0"
  by (rule bit_eqI) (auto simp: reverse_long_def bit_simps)

lemma reverse_long_wrong: "reverse_long 0x0102 = 0x0300000000000000" "reverse_long 0x0201 = reverse_long 0x0102"
  by code_simp+

text \<open>Everything that is read is written out, in order, until the first error; reads of nothing do not end the loop.\<close>

lemma follow_reads_all: "follow_reads (map Inr ds @ Inl e # rs) = Done (concat ds)"
  by (induction ds) simp_all

lemma follow_trace_pipe_all:
  "follow_trace_pipe (replicate n False @ True # opens) (map Inr ds @ Inl e # rs) = Done (n, concat ds)"
  by (induction n) (simp_all add: follow_reads_all)

lemma no_pipe_blocks: "follow_trace_pipe (replicate n False) reads = Blocked"
  by (induction n) simp_all

lemma follow_end_blocks: "follow_reads (replicate n (Inr [])) = Blocked"
  by (induction n) simp_all

text \<open>The whole first read is lost if the trace starts with its usual comment.\<close>

lemma read_trace_drops: "d \<noteq> [] \<Longrightarrow> hd d = 35 \<Longrightarrow> read_trace True [Inr d, Inr []] = Done []"
  by (simp add: read_trace_def)

text \<open>A stop ends the thread before it closes the pipe, leaves nothing open and turns tracing off; it can be repeated.\<close>

lemma trace_stop_ok:
  "\<not> to_thread (trace_stop t)" "\<not> to_pipe (trace_stop t)" "last (to_log (trace_stop t)) = WriteCtl TRACING_ON ''0''"
  "to_log (trace_stop (trace_stop t)) = to_log (trace_stop t) @ [WriteCtl TRACING_ON ''0'']"
  by (simp_all add: trace_stop_def Let_def)

lemma trace_session:
  "to_log (trace_stop (trace_async_follow True True (trace_start trace_new)))
     = [WriteCtl TRACING_ON ''1'', WriteCtl ''/sys/kernel/debug/tracing/trace'' [], CancelFollower, ClosePipe, WriteCtl TRACING_ON ''0'']"
  by (simp add: trace_stop_def trace_async_follow_def trace_start_def trace_new_def Let_def)

text \<open>A file that is written gets a NUL at its end.\<close>

lemma write_file_nul: "fst (write_file str (Some (int (length str) + 1))) = int (length str) + 1" "snd (write_file str (Some (int (length str) + 1))) = Some (str @ [NUL])"
  by (simp_all add: write_file_def)

end
