(* ===== verification/Bio_Stat.thy ===== *)
theory Bio_Stat
  imports Com_Trace Tc_Common
begin

unbundle bit_operations_syntax

text \<open>
  \<open>observe/bio-stat.cpp\<close>: block I/O, either every request as it completes or a table by process and disk. The options, the
  names of disks, the text of an event, both loops and \<open>main\<close>. The numbers of request operations and flags come from a
  header of the kernel and are parameters, as are the clock and the text of floating-point numbers.
\<close>

section \<open>Options\<close>

record bs_rule =
  br_pid :: int
  br_dev :: u64
  br_comm :: string
  br_duration :: u32

record bs_conf =
  bc_rule :: bs_rule
  bc_interval :: int
  bc_top :: bool

definition bs_conf0 :: bs_conf where
  "bs_conf0 = \<lparr>bc_rule = \<lparr>br_pid = 0, br_dev = 0, br_comm = [], br_duration = 0\<rparr>, bc_interval = 1, bc_top = False\<rparr>"

definition bs_case :: "char \<Rightarrow> string \<Rightarrow> bs_conf \<Rightarrow> int + bs_conf" where
  "bs_case opt optarg c =
     (if opt = CHR ''p'' then Inr (c\<lparr>bc_rule := (bc_rule c)\<lparr>br_pid := atoi optarg\<rparr>\<rparr>)
      else if opt = CHR ''c'' then Inr (c\<lparr>bc_rule := (bc_rule c)\<lparr>br_comm := take 15 (c_text optarg)\<rparr>\<rparr>)
      else if opt = CHR ''d'' then Inr (c\<lparr>bc_rule := (bc_rule c)\<lparr>br_dev := of_int (atoi optarg)\<rparr>\<rparr>)
      else if opt = CHR ''D'' then Inr (c\<lparr>bc_rule := (bc_rule c)\<lparr>br_duration := of_int (atoi optarg)\<rparr>\<rparr>)
      else if opt = CHR ''i'' then Inr (c\<lparr>bc_interval := atoi optarg\<rparr>)
      else if opt = CHR ''t'' then Inr (c\<lparr>bc_top := True\<rparr>)
      else if opt = CHR ''h'' then Inl 0
      else Inl (- 1))"

definition bs_parse_args :: "(char \<times> string) list \<Rightarrow> int + bs_conf" where
  "bs_parse_args os = opt_fold bs_case os bs_conf0"

section \<open>Disks\<close>

definition MKDEV :: "u32 \<Rightarrow> u32 \<Rightarrow> u32" where
  "MKDEV ma mi = push_bit 8 ma OR mi"

text \<open>\<open>operator>>\<close> into a 32-bit number: the value, and the rest unless it fails.\<close>

definition read_u32 :: "string \<Rightarrow> u32 \<times> string option" where
  "read_u32 s =
     (case scan_number s of
        None \<Rightarrow> (0, None)
      | Some (neg, n, rest) \<Rightarrow>
          if n \<ge> 2 ^ 32 then (- 1, None) else (if neg then - of_nat n else of_nat n, Some rest))"

text \<open>
  One line of \<open>/proc/diskstats\<close>. A variable that is not read keeps what it held before, \<open>junk\<close> for the minor number.
\<close>

definition disk_line :: "u32 \<Rightarrow> string \<Rightarrow> u32 \<times> string" where
  "disk_line junk line =
     (case read_u32 line of
        (major, None) \<Rightarrow> (MKDEV major junk, [])
      | (major, Some rest) \<Rightarrow>
          (case read_u32 rest of
             (minor, None) \<Rightarrow> (MKDEV major minor, [])
           | (minor, Some rest') \<Rightarrow> (MKDEV major minor, case read_word rest' of None \<Rightarrow> [] | Some (w, r) \<Rightarrow> w)))"

type_synonym disk_map = "u32 \<Rightarrow> string option"

definition read_disk_names :: "u32 \<Rightarrow> string \<Rightarrow> disk_map" where
  "read_disk_names junk stats = fold (\<lambda>line m. case disk_line junk line of (dev, name) \<Rightarrow> m(dev \<mapsto> name)) (getlines stats) Map.empty"

definition disk_name :: "disk_map \<Rightarrow> u32 \<Rightarrow> string" where
  "disk_name disks dev = (case disks dev of Some n \<Rightarrow> n | None \<Rightarrow> ''?'')"

section \<open>Events\<close>

record req_consts =
  REQ_OP_MASK :: u32
  REQ_PREFLUSH :: u32
  REQ_FUA :: u32
  REQ_RAHEAD :: u32
  REQ_SYNC :: u32
  REQ_META :: u32
  REQ_OP_READ :: u32
  REQ_OP_WRITE :: u32
  REQ_OP_FLUSH :: u32
  REQ_OP_DISCARD :: u32
  REQ_OP_SECURE_ERASE :: u32
  REQ_OP_WRITE_SAME :: u32

definition rwbs_op :: "req_consts \<Rightarrow> u32 \<Rightarrow> string" where
  "rwbs_op q op =
     (let o' = op AND REQ_OP_MASK q
      in if o' = REQ_OP_WRITE q \<or> o' = REQ_OP_WRITE_SAME q then ''W''
         else if o' = REQ_OP_DISCARD q then ''D''
         else if o' = REQ_OP_SECURE_ERASE q then ''DE''
         else if o' = REQ_OP_FLUSH q then ''F''
         else if o' = REQ_OP_READ q then ''R''
         else ''N'')"

text \<open>The characters before the NUL that \<open>blk_fill_rwbs\<close> stores.\<close>

definition blk_fill_rwbs :: "req_consts \<Rightarrow> u32 \<Rightarrow> string" where
  "blk_fill_rwbs q op =
     (let flag = (\<lambda>f c. if op AND f \<noteq> 0 then [c] else [])
      in flag (REQ_PREFLUSH q) CHR ''F'' @ rwbs_op q op @ flag (REQ_FUA q) CHR ''F'' @ flag (REQ_RAHEAD q) CHR ''A''
         @ flag (REQ_SYNC q) CHR ''S'' @ flag (REQ_META q) CHR ''M'')"

record bs_event =
  be_comm :: bytes
  be_delta :: u64
  be_qdelta :: u64
  be_sector :: u64
  be_len :: u32
  be_pid :: u32
  be_cmd_flags :: u32
  be_dev :: u32

definition bs_event_of :: "bytes \<Rightarrow> bs_event" where
  "bs_event_of b =
     \<lparr>be_comm = bytes_at b 0 16, be_delta = u64_at b 16, be_qdelta = u64_at b 24, be_sector = u64_at b 40, be_len = u32_at b 48,
      be_pid = u32_at b 52, be_cmd_flags = u32_at b 56, be_dev = u32_at b 60\<rparr>"

text \<open>What does not depend on the program: request numbers, the clock as text and milliseconds, \<open>%7.3f\<close> of nanoseconds in
  milliseconds, \<open>%6.2f\<close> of the mean.\<close>

record bs_env =
  en_req :: req_consts
  en_ms :: "u64 \<Rightarrow> string"
  en_avg :: "u64 \<Rightarrow> u32 \<Rightarrow> string"

definition bs_event_line :: "bs_env \<Rightarrow> disk_map \<Rightarrow> string \<Rightarrow> nat \<Rightarrow> bs_event \<Rightarrow> string" where
  "bs_event_line env disks ts nsec e =
     pad_right 8 ts @ ''.'' @ zero_pad 3 (show_nat (nsec div 1000000)) @ '' ''
     @ pad_right 14 (take 14 (c_text (map byte_char (be_comm e)))) @ '' '' @ pad_right 7 (fmt_d (be_pid e)) @ '' ''
     @ pad_right 7 (disk_name disks (be_dev e)) @ '' '' @ pad_right 4 (blk_fill_rwbs (en_req env) (be_cmd_flags e)) @ '' ''
     @ pad_right 10 (fmt_d (be_sector e)) @ '' '' @ pad_right 7 (fmt_d (be_len e)) @ '' ''
     @ (if be_qdelta e \<noteq> - 1 then en_ms env (be_qdelta e) else '' -1.000'') @ '' '' @ en_ms env (be_delta e) @ [NL]"

definition bs_handle_event :: "bs_env \<Rightarrow> disk_map \<Rightarrow> string \<times> nat \<times> bytes \<Rightarrow> string" where
  "bs_handle_event env disks ev =
     (case ev of (ts, nsec, data) \<Rightarrow>
        if length data < 64 then ''Error: packet too small'' @ [NL] else bs_event_line env disks ts nsec (bs_event_of data))"

section \<open>The loops\<close>

text \<open>
  One turn of the loop of \<open>snoop\<close>: the flag, what \<open>perf_buffer__poll\<close> returns, the events it hands over and the time
  afterwards. \<open>time_end\<close> is used only when a duration was given.
\<close>

fun bs_snoop_loop :: "bs_env \<Rightarrow> disk_map \<Rightarrow> u32 \<Rightarrow> int \<Rightarrow> (bool \<times> int \<times> (string \<times> nat \<times> bytes) list \<times> int) list \<Rightarrow> string list outcome" where
  "bs_snoop_loop env disks duration time_end [] = Blocked"
| "bs_snoop_loop env disks duration time_end ((exit_flag, err, evs, now) # turns) =
     (if exit_flag then Done []
      else let out = map (bs_handle_event env disks) evs
           in if err < 0 \<and> err \<noteq> - EINTR then Done out
              else if duration \<noteq> 0 \<and> now > time_end then Done out
              else bind_outcome (bs_snoop_loop env disks duration time_end turns) (\<lambda>out'. Done (out @ out')))"

definition bs_snoop_title :: string where
  "bs_snoop_title =
     pad_right 12 ''TIMESTAMP'' @ '' '' @ pad_right 14 ''COMM'' @ '' '' @ pad_right 7 ''PID'' @ '' '' @ pad_right 7 ''DISK'' @ '' '' @ pad_right 4 ''T'' @ '' ''
     @ pad_right 10 ''SECTOR'' @ '' '' @ pad_right 7 ''BYTES'' @ '' '' @ pad_left 7 ''QUE(ms)'' @ '' '' @ pad_left 7 ''LAT(ms)'' @ [NL]"

definition bs_snoop :: "bs_env \<Rightarrow> disk_map \<Rightarrow> u32 \<Rightarrow> int \<Rightarrow> bool \<Rightarrow> (bool \<times> int \<times> (string \<times> nat \<times> bytes) list \<times> int) list \<Rightarrow> string list outcome" where
  "bs_snoop env disks duration start pb turns =
     (if \<not> pb then Done []
      else bind_outcome (bs_snoop_loop env disks duration (start + int (unat duration)) turns) (\<lambda>out. Done (bs_snoop_title # out)))"

abbreviation EFAULT :: int where "EFAULT \<equiv> 14"

definition MAP_MAX_ENTRY :: nat where "MAP_MAX_ENTRY = 10000"

text \<open>\<open>lookup_keys\<close> counts the keys and stores each in the array; \<open>nk\<close> is \<open>bpf_map_get_next_key\<close>.\<close>

fun bs_lookup_keys :: "nat \<Rightarrow> ('k \<Rightarrow> 'k option) \<Rightarrow> 'k \<Rightarrow> nat \<Rightarrow> nat outcome" where
  "bs_lookup_keys 0 nk key i = Blocked"
| "bs_lookup_keys (Suc n) nk key i =
     (case nk key of
        None \<Rightarrow> Done i
      | Some k \<Rightarrow> if i < MAP_MAX_ENTRY then bs_lookup_keys n nk k (i + 1) else Fault)"

record bs_info =
  bi_pid :: u32
  bi_rwflag :: int
  bi_major :: u32
  bi_minor :: u32
  bi_name :: string

record bs_val =
  bv_bytes :: u64
  bv_us :: u64
  bv_io :: u32

definition bs_top_row :: "bs_env \<Rightarrow> disk_map \<Rightarrow> bs_info \<times> bs_val \<Rightarrow> string" where
  "bs_top_row env disks kv =
     (case kv of (k, v) \<Rightarrow>
        pad_right 7 (fmt_d (bi_pid k)) @ '' '' @ pad_right 16 (c_text (bi_name k)) @ '' '' @ (if bi_rwflag k \<noteq> 0 then ''W'' else ''R'') @ '' ''
        @ pad_left 3 (fmt_d (bi_major k)) @ '':'' @ pad_right 3 (fmt_d (bi_minor k)) @ '' ''
        @ pad_right 8 (disk_name disks (MKDEV (bi_major k) (bi_minor k))) @ '' ''
        @ pad_left 5 (fmt_u (bv_io v)) @ '' '' @ pad_left 7 (fmt_u (bv_bytes v div 1024)) @ '' '' @ en_avg env (bv_us v) (bv_io v) @ [NL])"

definition bs_top_title :: "int \<Rightarrow> string list" where
  "bs_top_title interval =
     [CHR 0x1b # ''[H'' @ CHR 0x1b # ''[2J'' @ CHR 0x1b # ''[3J'',
      ''Tracing... Output every '' @ show_int interval @ '' secs. Hit Ctrl-C to end'' @ [NL, NL],
      pad_right 7 ''PID'' @ '' '' @ pad_right 16 ''COMM'' @ '' D '' @ pad_left 7 ''DEV  '' @ '' '' @ pad_right 8 ''DISK'' @ '' '' @ pad_left 5 ''I/O'' @ '' ''
      @ pad_left 7 ''Kbytes'' @ '' '' @ pad_left 6 ''AVGms'' @ [NL]]"

definition bs_info_zero :: bs_info where
  "bs_info_zero = \<lparr>bi_pid = 0, bi_rwflag = 0, bi_major = 0, bi_minor = 0, bi_name = replicate 16 NUL\<rparr>"

text \<open>
  One turn of the loop of \<open>top\<close>: the flag, how the kernel walks its keys (with a bound on the steps), what the batch call
  returns and has stored, and the time after the pause.
\<close>

record bs_turn =
  bt_exit :: bool
  bt_next :: "bs_info \<Rightarrow> bs_info option"
  bt_steps :: nat
  bt_ret :: int
  bt_batch :: "(bs_info \<times> bs_val) list"
  bt_now :: int

fun bs_top_loop :: "bs_env \<Rightarrow> disk_map \<Rightarrow> int \<Rightarrow> u32 \<Rightarrow> int \<Rightarrow> bs_turn list \<Rightarrow> string list outcome" where
  "bs_top_loop env disks interval duration time_end [] = Blocked"
| "bs_top_loop env disks interval duration time_end (t # ts) =
     (if bt_exit t then Done []
      else bind_outcome (bs_lookup_keys (bt_steps t) (bt_next t) bs_info_zero 0) (\<lambda>count.
        if bt_ret t = - EFAULT
        then bind_outcome (bs_top_loop env disks interval duration time_end ts) (\<lambda>out. Done (bs_top_title interval @ out))
        else let rows = bs_top_title interval @ map (bs_top_row env disks) (bt_batch t)
             in if duration \<noteq> 0 \<and> bt_now t > time_end then Done rows
                else bind_outcome (bs_top_loop env disks interval duration time_end ts) (\<lambda>out. Done (rows @ out))))"

section \<open>The program\<close>

definition top_mode_bpf_progs :: "string list" where
  "top_mode_bpf_progs = [''trace_req_start'', ''trace_pid_start_tp'', ''trace_req_completion_tp'']"

definition tailing_mode_bpf_progs :: "string list" where
  "tailing_mode_bpf_progs = [''block_rq_complete'', ''block_rq_issue'', ''block_rq_insert'', ''blk_account_io_merge_bio'', ''block_io_start'']"

text \<open>The programs of an object, each with whether it is loaded.\<close>

definition bs_disable_autoload :: "(string \<times> bool) list \<Rightarrow> (string \<times> bool) list" where
  "bs_disable_autoload progs = map (\<lambda>(name, on). (name, False)) progs"

definition bs_enable_autoload :: "string list \<Rightarrow> (string \<times> bool) list \<Rightarrow> (string \<times> bool) list" where
  "bs_enable_autoload names progs = fold (\<lambda>t ps. map (\<lambda>(name, on). (name, if name = t then True else on)) ps) names progs"

record bs_sys =
  by_opts :: "(char \<times> string) list"
  by_sigaction :: bool
  by_junk :: u32
  by_diskstats :: string
  by_progs :: "(string \<times> bool) list option"
  by_load :: bool
  by_attach :: bool
  by_filter :: bool
  by_update :: bool
  by_counts :: bool
  by_thread :: bool
  by_start :: int
  by_perf :: bool
  by_env :: bs_env
  by_snoop :: "(bool \<times> int \<times> (string \<times> nat \<times> bytes) list \<times> int) list"
  by_top :: "bs_turn list"
  by_opens :: "bool list"
  by_reads :: "(int + bytes) list"

text \<open>The status, the programs that are loaded and the lines. The thread that copies the trace pipe is joined at the end.\<close>

definition bio_stat_main :: "bs_sys \<Rightarrow> (int \<times> string list \<times> string list) outcome" where
  "bio_stat_main sys =
     (case bs_parse_args (by_opts sys) of
        Inl c \<Rightarrow> Done (c, [], [])
      | Inr c \<Rightarrow>
          if \<not> by_sigaction sys then Done (1, [], [])
          else case by_progs sys of
            None \<Rightarrow> Done (- 1, [], [])
          | Some progs \<Rightarrow>
              (let disks = read_disk_names (by_junk sys) (by_diskstats sys);
                   ps = bs_enable_autoload (if bc_top c then top_mode_bpf_progs else tailing_mode_bpf_progs) (bs_disable_autoload progs);
                   loaded = map fst (filter snd ps);
                   d = br_duration (bc_rule c)
               in if \<not> by_load sys \<or> \<not> by_attach sys then Done (- 1, loaded, [])
                  else if \<not> by_filter sys \<or> \<not> by_update sys \<or> \<not> by_counts sys \<or> \<not> by_thread sys then Done (0, loaded, [])
                  else bind_outcome
                    (if bc_top c then bs_top_loop (by_env sys) disks (bc_interval c) d (by_start sys + int (unat d)) (by_top sys)
                     else bs_snoop (by_env sys) disks d (by_start sys) (by_perf sys) (by_snoop sys)) (\<lambda>out.
                    bind_outcome (follow_trace_pipe (by_opens sys) (by_reads sys)) (\<lambda>joined.
                      Done (0, loaded, out @ [''main routine done!'' @ [NL]])))))"

section \<open>What holds\<close>

text \<open>Whatever the numbers of the kernel are, the letters and their NUL fit into the eight bytes of the caller.\<close>

lemma rwbs_fits: "length (blk_fill_rwbs q op) + 1 \<le> 8" "1 \<le> length (blk_fill_rwbs q op)"
  by (simp_all add: blk_fill_rwbs_def rwbs_op_def Let_def)

text \<open>A line of the kernel's file.\<close>

definition diskstats_line :: "nat \<times> nat \<times> string \<Rightarrow> string \<Rightarrow> string" where
  "diskstats_line d rest =
     (case d of (major, minor, name) \<Rightarrow>
        pad_left 4 (show_nat major) @ '' '' @ pad_left 7 (show_nat minor) @ '' '' @ name @ '' '' @ rest)"

lemma scan_pad: "r = [] \<or> \<not> is_digit (hd r) \<Longrightarrow> scan_number (pad_left k (show_nat n) @ r) = Some (False, n, r)"
proof -
  assume r: "r = [] \<or> \<not> is_digit (hd r)"
  have "dropWhile is_space (replicate j CHR '' '' @ x) = dropWhile is_space x" for j x by (induction j) simp_all
  then have "scan_number (pad_left k (show_nat n) @ r) = scan_number (show_nat n @ r)" by (simp add: scan_number_def pad_left_def)
  then show ?thesis using scan_show_nat [OF r] by simp
qed

lemma scan_skip: "scan_number (CHR '' '' # s) = scan_number s"
  by (simp add: scan_number_def)

lemma disk_line_ok:
  assumes "ma < 2 ^ 32" "mi < 2 ^ 32" "is_word name"
  shows "disk_line junk (diskstats_line (ma, mi, name) rest) = (MKDEV (of_nat ma) (of_nat mi), name)"
proof -
  let ?b = "'' '' @ name @ '' '' @ rest"
  have "scan_number (pad_left 4 (show_nat ma) @ '' '' @ pad_left 7 (show_nat mi) @ ?b) = Some (False, ma, '' '' @ pad_left 7 (show_nat mi) @ ?b)"
    by (rule scan_pad) (simp add: is_digit_def)
  moreover have "scan_number ('' '' @ pad_left 7 (show_nat mi) @ ?b) = Some (False, mi, ?b)"
    using scan_pad [of ?b 7 mi] by (simp add: scan_skip is_digit_def)
  moreover have "read_word ?b = Some (name, '' '' @ rest)"
    using assms(3) by (simp add: read_word_skip read_word_exact)
  ultimately show ?thesis using assms by (simp add: disk_line_def diskstats_line_def read_u32_def)
qed


lemma fold_updates: "fold (\<lambda>x m. m(key x \<mapsto> val x)) xs m0 = m0 ++ map_of (rev (map (\<lambda>x. (key x, val x)) xs))"
  by (induction xs arbitrary: m0) (simp_all add: map_add_def fun_eq_iff split: option.split)

definition disk_ok :: "(nat \<times> nat \<times> string) \<times> string \<Rightarrow> bool" where
  "disk_ok e = (case e of ((ma, mi, name), rest) \<Rightarrow> ma < 2 ^ 32 \<and> mi < 2 ^ 32 \<and> is_word name \<and> NL \<notin> set rest)"

definition disk_entry :: "(nat \<times> nat \<times> string) \<times> string \<Rightarrow> u32 \<times> string" where
  "disk_entry e = (case e of ((ma, mi, name), rest) \<Rightarrow> (MKDEV (of_nat ma) (of_nat mi), name))"

definition diskstats :: "((nat \<times> nat \<times> string) \<times> string) list \<Rightarrow> string" where
  "diskstats es = concat (map (\<lambda>(d, rest). diskstats_line d rest @ [NL]) es)"

lemma digits_no_NL: "NL \<notin> set (show_nat n)"
  using show_nat_props [of n] by (auto simp: is_digit_def)

lemma diskstats_lines:
  assumes "list_all disk_ok es"
  shows "getlines (diskstats es) = map (\<lambda>(d, rest). diskstats_line d rest) es"
  using assms
proof (induction es)
  case Nil
  then show ?case by (simp add: diskstats_def)
next
  case (Cons e es)
  obtain ma mi name rest where e: "e = ((ma, mi, name), rest)" by (cases e) auto
  have "NL \<notin> set name" using Cons.prems by (auto simp: e disk_ok_def is_word_def)
  then have "NL \<notin> set (diskstats_line (ma, mi, name) rest)"
    using Cons.prems by (auto simp: e disk_ok_def diskstats_line_def pad_left_def digits_no_NL)
  then show ?case using Cons by (simp add: e diskstats_def getlines_line)
qed

text \<open>Every disk of the kernel's list is found under its number, the last one if two have the same.\<close>

lemma disk_names_read:
  assumes "list_all disk_ok es"
  shows "read_disk_names junk (diskstats es) = map_of (rev (map disk_entry es))"
proof -
  have "disk_line junk (diskstats_line d rest) = disk_entry (d, rest)" if "(d, rest) \<in> set es" for d rest
    using assms that disk_line_ok [of "fst d" "fst (snd d)" "snd (snd d)" junk rest]
    by (cases d) (auto simp: list_all_iff disk_ok_def disk_entry_def)
  then have "map (disk_line junk) (map (\<lambda>(d, rest). diskstats_line d rest) es) = map disk_entry es" by auto
  then have "rev (map (disk_line junk) (getlines (diskstats es))) = rev (map disk_entry es)"
    unfolding diskstats_lines [OF assms] by simp
  then show ?thesis using fold_updates [of "\<lambda>l. fst (disk_line junk l)" "\<lambda>l. snd (disk_line junk l)" "getlines (diskstats es)" Map.empty]
    by (simp add: read_disk_names_def case_prod_beta)
qed

text \<open>Minor numbers above 255 run into the major number.\<close>

lemma mkdev_collides: "MKDEV 259 300 = MKDEV 259 44"
  by code_simp

text \<open>Below that bound the numbers can be read back.\<close>

lemma mkdev_parts:
  assumes "mi < 256" "ma < 2 ^ 24"
  shows "take_bit 8 (MKDEV ma mi) = mi" "drop_bit 8 (MKDEV ma mi) = ma"
proof -
  have mi: "take_bit 8 mi = mi" using assms(1) by (simp add: take_bit_eq_mod mod_word_less)
  have ma: "take_bit 24 ma = ma" using assms(2) by (simp add: take_bit_eq_mod mod_word_less)
  have "take_bit 8 (MKDEV ma mi) = take_bit 8 mi" unfolding MKDEV_def by (rule bit_eqI) (auto simp: bit_simps)
  then show "take_bit 8 (MKDEV ma mi) = mi" using mi by simp
  have "drop_bit 8 (MKDEV ma (take_bit 8 mi)) = take_bit 24 ma" unfolding MKDEV_def by (rule bit_eqI) (auto simp: bit_simps)
  then show "drop_bit 8 (MKDEV ma mi) = ma" using mi ma by simp
qed

text \<open>The keys of a map fit exactly if there are at most 10000.\<close>

fun walks :: "('k \<Rightarrow> 'k option) \<Rightarrow> 'k \<Rightarrow> 'k list \<Rightarrow> bool" where
  "walks nk k [] \<longleftrightarrow> nk k = None"
| "walks nk k (x # xs) \<longleftrightarrow> nk k = Some x \<and> walks nk x xs"

lemma bs_lookup_keys_walk:
  assumes "walks nk k ks" "length ks < n" "i \<le> MAP_MAX_ENTRY"
  shows "bs_lookup_keys n nk k i = (if i + length ks \<le> MAP_MAX_ENTRY then Done (i + length ks) else Fault)"
  using assms
proof (induction ks arbitrary: k n i)
  case Nil
  then show ?case by (cases n) simp_all
next
  case (Cons x ks)
  then obtain n' where n: "n = Suc n'" by (cases n) simp_all
  show ?case using Cons by (auto simp: n)
qed

text \<open>Until the time is over every event is printed, in order; the turn that ends is printed as well.\<close>

lemma bs_snoop_ends:
  assumes "\<forall>(exit_flag, err, evs, now) \<in> set turns. \<not> exit_flag \<and> (err \<ge> 0 \<or> err = - EINTR) \<and> (d = 0 \<or> now \<le> time_end)"
    and "d \<noteq> 0" "now' > time_end" "err' \<ge> 0 \<or> err' = - EINTR"
  shows "bs_snoop_loop env disks d time_end (turns @ (False, err', evs', now') # rest)
     = Done (map (bs_handle_event env disks) (concat (map (\<lambda>(x, e, evs, n). evs) turns) @ evs'))"
  using assms(1)
proof (induction turns)
  case Nil
  then show ?case using assms(2-4) by (auto simp: Let_def)
next
  case (Cons t ts)
  obtain x e evs n where t: "t = (x, e, evs, n)" by (cases t)
  show ?case using Cons by (auto simp: t Let_def)
qed

text \<open>Only the programs of the chosen mode are loaded.\<close>

lemma autoload_exact:
  "map fst (filter snd (bs_enable_autoload names (bs_disable_autoload progs))) = filter (\<lambda>p. p \<in> set names) (map fst progs)"
proof -
  have "bs_enable_autoload names ps = map (\<lambda>(name, on). (name, on \<or> name \<in> set names)) ps" for ps
    unfolding bs_enable_autoload_def by (induction names arbitrary: ps) (auto simp: comp_def split: if_splits)
  then show ?thesis by (induction progs) (auto simp: bs_disable_autoload_def)
qed

text \<open>A failing batch call keeps the table running after its time, and a pipe that cannot be opened keeps the program from
  ending.\<close>

lemma top_ignores_duration:
  assumes "\<forall>t \<in> set ts. \<not> bt_exit t \<and> bt_ret t = - EFAULT \<and> (\<exists>ks. walks (bt_next t) bs_info_zero ks \<and> length ks < bt_steps t \<and> length ks \<le> MAP_MAX_ENTRY)"
  shows "bs_top_loop env disks interval d time_end ts = Blocked"
  using assms
proof (induction ts)
  case (Cons t ts)
  then obtain ks where "walks (bt_next t) bs_info_zero ks" "length ks < bt_steps t" "length ks \<le> MAP_MAX_ENTRY" by auto
  then have "bs_lookup_keys (bt_steps t) (bt_next t) bs_info_zero 0 = Done (length ks)" by (simp add: bs_lookup_keys_walk)
  then show ?case using Cons by simp
qed simp

lemma bio_stat_never_joins:
  assumes "bs_parse_args (by_opts sys) = Inr c" "\<not> bc_top c" "by_sigaction sys" "by_progs sys = Some progs" "by_load sys" "by_attach sys"
    "by_filter sys" "by_update sys" "by_counts sys" "by_thread sys" "\<not> by_perf sys" "by_opens sys = replicate n False"
  shows "bio_stat_main sys = Blocked"
  using assms by (simp add: bio_stat_main_def Let_def bs_snoop_def no_pipe_blocks)

text \<open>A rule that cannot be stored ends the program with status 0.\<close>

lemma bio_stat_silent:
  assumes "bs_parse_args (by_opts sys) = Inr c" "by_sigaction sys" "by_progs sys = Some progs" "by_load sys" "by_attach sys" "\<not> by_update sys"
  shows "\<exists>ps. bio_stat_main sys = Done (0, ps, [])"
  using assms by (simp add: bio_stat_main_def Let_def)

end
