(* ===== verification/Ring_Worker.thy ===== *)
theory Ring_Worker
  imports Com_Trace Tc_Common
begin

text \<open>
  The polling thread that \<open>trace-exec\<close>, \<open>trace-signal\<close> and \<open>peek-fd\<close> repeat, and how their main threads end: they copy the
  trace pipe and then wait for that thread. The locale \<open>event_printer\<close> is the contract of a handler that prints one record.
\<close>

text \<open>The records that one call of \<open>ring_buffer__poll\<close> hands over.\<close>

fun handle_all :: "('e \<Rightarrow> string outcome) \<Rightarrow> 'e list \<Rightarrow> string list outcome" where
  "handle_all handle [] = Done []"
| "handle_all handle (e # es) =
     bind_outcome (handle e) (\<lambda>s. bind_outcome (handle_all handle es) (\<lambda>out. Done (s # out)))"

text \<open>
  \<open>ringbuf_worker\<close>: every turn sees the flag, then what the poll returns and hands over. An error only delays the next turn.
\<close>

fun ring_worker :: "('e \<Rightarrow> string outcome) \<Rightarrow> (bool \<times> int \<times> 'e list) list \<Rightarrow> string list outcome" where
  "ring_worker handle [] = Blocked"
| "ring_worker handle ((exit_flag, err, es) # turns) =
     (if exit_flag then Done []
      else bind_outcome (handle_all handle es) (\<lambda>out. bind_outcome (ring_worker handle turns) (\<lambda>out'. Done (out @ out'))))"

text \<open>The end of the main threads: \<open>follow_trace_pipe\<close>, then the thread is joined.\<close>

definition follow_and_join ::
  "('e \<Rightarrow> string outcome) \<Rightarrow> bool list \<Rightarrow> (int + bytes) list \<Rightarrow> (bool \<times> int \<times> 'e list) list \<Rightarrow> (bytes \<times> string list) outcome" where
  "follow_and_join handle opens reads turns =
     bind_outcome (follow_trace_pipe opens reads) (\<lambda>(n, out). bind_outcome (ring_worker handle turns) (\<lambda>lines. Done (out, lines)))"

text \<open>What these programs meet: the options and the result of every call.\<close>

record 'e tracer_sys =
  ts_opts :: "(char \<times> string) list"
  ts_sigaction :: bool
  ts_load :: bool
  ts_attach :: bool
  ts_filter :: bool
  ts_update :: bool
  ts_logs :: bool
  ts_ring :: bool
  ts_opens :: "bool list"
  ts_reads :: "(int + bytes) list"
  ts_turns :: "(bool \<times> int \<times> 'e list) list"

lemma handle_all_append:
  "handle_all h (xs @ ys) = bind_outcome (handle_all h xs) (\<lambda>a. bind_outcome (handle_all h ys) (\<lambda>b. Done (a @ b)))"
proof (induction xs)
  case Nil
  show ?case by (cases "handle_all h ys") simp_all
next
  case (Cons x xs)
  show ?case by (cases "h x"; cases "handle_all h xs"; cases "handle_all h ys") (simp_all add: Cons)
qed

lemma ring_worker_forever: "\<forall>(x, err, es) \<in> set turns. \<not> x \<and> es = [] \<Longrightarrow> ring_worker h turns = Blocked"
  by (induction h turns rule: ring_worker.induct) auto

text \<open>A handler that prints every proper record in a fixed way.\<close>

locale event_printer =
  fixes handle :: "'e \<Rightarrow> string outcome"
    and proper :: "'e \<Rightarrow> bool"
    and shown :: "'e \<Rightarrow> string"
  assumes handle_proper: "proper e \<Longrightarrow> handle e = Done (shown e)"
begin

lemma handle_all_proper: "\<forall>e \<in> set es. proper e \<Longrightarrow> handle_all handle es = Done (map shown es)"
  by (induction es) (simp_all add: handle_proper)

lemma worker_prints:
  assumes "\<forall>(x, err, es) \<in> set turns. \<not> x \<and> (\<forall>e \<in> set es. proper e)"
  shows "ring_worker handle (turns @ (True, r) # rest) = Done (map shown (concat (map (snd \<circ> snd) turns)))"
  using assms
proof (induction turns)
  case Nil
  then show ?case by (cases r) simp
next
  case (Cons t ts)
  obtain x err es where t: "t = (x, err, es)" by (cases t)
  show ?case using Cons by (simp add: t handle_all_proper)
qed

text \<open>The trace and the records, each complete and in order, whatever the polls returned.\<close>

lemma follow_and_join_prints:
  assumes "\<forall>(x, err, es) \<in> set turns. \<not> x \<and> (\<forall>e \<in> set es. proper e)"
  shows "follow_and_join handle (replicate n False @ True # opens) (map Inr ds @ Inl e # rs) (turns @ (True, r) # rest)
     = Done (concat ds, map shown (concat (map (snd \<circ> snd) turns)))"
  unfolding follow_and_join_def follow_trace_pipe_all by (simp add: worker_prints [OF assms])

end

end
