(* ===== verification/Trace_Exec.thy ===== *)
theory Trace_Exec
  imports Ring_Worker
begin

text \<open>\<open>observe/trace-exec.cpp\<close>: programs that are started. Options, the text of a record and \<open>main\<close>.\<close>

section \<open>Options\<close>

record te_rule =
  te_target_path :: string
  te_depth :: u32
  te_uid :: u32

definition te_rule_default :: te_rule where
  "te_rule_default = \<lparr>te_target_path = [], te_depth = 50, te_uid = - 1\<rparr>"

definition te_case :: "char \<Rightarrow> string \<Rightarrow> te_rule \<Rightarrow> int + te_rule" where
  "te_case opt optarg r =
     (if opt = CHR ''u'' then Inr (r\<lparr>te_uid := of_int (fst (strtol10 optarg))\<rparr>)
      else if opt = CHR ''d'' then Inr (r\<lparr>te_depth := of_int (fst (strtol10 optarg))\<rparr>)
      else if opt = CHR ''h'' then Inl 0
      else if opt = CHR ''t'' then Inr (r\<lparr>te_target_path := take 4095 (c_text optarg)\<rparr>)
      else Inl (- 1))"

section \<open>Records\<close>

text \<open>\<open>%.*s\<close> stops at the size of the record or at a NUL.\<close>

definition te_handle_event :: "bytes \<Rightarrow> string outcome" where
  "te_handle_event data = Done (c_text (map byte_char data) @ [NL])"

section \<open>The program\<close>

text \<open>The status, the rule that was stored, the copied trace and the lines.\<close>

definition trace_exec_main :: "bytes tracer_sys \<Rightarrow> (int \<times> te_rule option \<times> bytes \<times> string list) outcome" where
  "trace_exec_main sys =
     (case opt_fold te_case (ts_opts sys) te_rule_default of
        Inl c \<Rightarrow> Done (c, None, [], [])
      | Inr r \<Rightarrow>
          if \<not> ts_sigaction sys then Done (1, None, [], [])
          else if \<not> ts_load sys \<or> \<not> ts_attach sys then Done (- 1, None, [], [])
          else if \<not> ts_filter sys \<or> \<not> ts_update sys then Done (0, None, [], [])
          else if \<not> ts_logs sys \<or> \<not> ts_ring sys then Done (0, Some r, [], [])
          else bind_outcome (follow_and_join te_handle_event (ts_opens sys) (ts_reads sys) (ts_turns sys))
                 (\<lambda>(out, ls). Done (0, Some r, out, ls)))"

section \<open>What holds\<close>

interpretation te: event_printer te_handle_event "\<lambda>data. True" "\<lambda>data. c_text (map byte_char data) @ [NL]"
  by unfold_locales (simp add: te_handle_event_def)

definition te_rule_ok :: "te_rule \<Rightarrow> bool" where
  "te_rule_ok r \<longleftrightarrow> length (te_target_path r) < 4096 \<and> NUL \<notin> set (te_target_path r)"

interpretation te_opts: option_cases te_case te_rule_ok
proof
  fix r opt optarg r'
  assume r: "te_rule_ok r" and c: "te_case opt optarg r = Inr r'"
  have "NUL \<notin> set (take 4095 (c_text optarg))"
    by (auto simp: c_text_def dest: in_set_takeD set_takeWhileD)
  then show "te_rule_ok r'" using r c by (auto simp: te_case_def te_rule_ok_def split: if_splits)
qed

text \<open>A run prints every record that arrives before the end, in order, and stores a path that fits into its field.\<close>

lemma trace_exec_prints:
  assumes "opt_fold te_case (ts_opts sys) te_rule_default = Inr r" "ts_sigaction sys" "ts_load sys" "ts_attach sys" "ts_filter sys"
    "ts_update sys" "ts_logs sys" "ts_ring sys" "ts_opens sys = replicate n False @ True # opens" "ts_reads sys = map Inr ds @ Inl e # rs"
    "ts_turns sys = turns @ (True, q) # rest" "\<forall>(x, err, es) \<in> set turns. \<not> x"
  shows "trace_exec_main sys = Done (0, Some r, concat ds, map (\<lambda>data. c_text (map byte_char data) @ [NL]) (concat (map (snd \<circ> snd) turns)))
     \<and> te_rule_ok r"
proof -
  have "te_rule_ok te_rule_default" by (simp add: te_rule_ok_def te_rule_default_def)
  then have "te_rule_ok r" using assms(1) by (rule te_opts.loop_ok)
  moreover have "follow_and_join te_handle_event (ts_opens sys) (ts_reads sys) (ts_turns sys)
      = Done (concat ds, map (\<lambda>data. c_text (map byte_char data) @ [NL]) (concat (map (snd \<circ> snd) turns)))"
    unfolding assms(9-11) using assms(12) by (intro te.follow_and_join_prints) auto
  ultimately show ?thesis using assms(1-8) by (simp add: trace_exec_main_def)
qed

text \<open>A failure after the programs are attached is not visible in the status; a pipe that is occupied keeps the program alive.\<close>

lemma trace_exec_silent:
  "opt_fold te_case (ts_opts sys) te_rule_default = Inr r \<Longrightarrow> ts_sigaction sys \<Longrightarrow> ts_load sys \<Longrightarrow> ts_attach sys \<Longrightarrow> \<not> ts_update sys \<Longrightarrow>
     trace_exec_main sys = Done (0, None, [], [])"
  by (simp add: trace_exec_main_def)

end
