(* ===== verification/Trace_Signal.thy ===== *)
theory Trace_Signal
  imports Ring_Worker Std_Map
begin

text \<open>
  \<open>observe/trace-signal.cpp\<close>: signals between processes. Options, the text of a record and \<open>main\<close>. The hash of a path and the
  names of signals are parameters.
\<close>

section \<open>Options\<close>

record sg_rule =
  sg_sender_pid :: int
  sg_sender_phash :: u32
  sg_recv_pid :: int
  sg_recv_phash :: u32
  sg_sig :: int
  sg_res :: int

definition sg_rule_zero :: sg_rule where
  "sg_rule_zero = \<lparr>sg_sender_pid = 0, sg_sender_phash = 0, sg_recv_pid = 0, sg_recv_phash = 0, sg_sig = 0, sg_res = 0\<rparr>"

text \<open>The path fills 4096 bytes, the rest of which is zero.\<close>

definition path_hash :: "(string \<Rightarrow> u32) \<Rightarrow> string \<Rightarrow> u32" where
  "path_hash jhash2 arg = (let s = take 4095 (c_text arg) in jhash2 (s @ replicate (4096 - length s) NUL))"

definition sg_case :: "(string \<Rightarrow> u32) \<Rightarrow> char \<Rightarrow> string \<Rightarrow> sg_rule \<Rightarrow> int + sg_rule" where
  "sg_case jhash2 opt optarg r =
     (if opt = CHR ''P'' then Inr (r\<lparr>sg_sender_pid := atoi optarg\<rparr>)
      else if opt = CHR ''p'' then Inr (r\<lparr>sg_recv_pid := atoi optarg\<rparr>)
      else if opt = CHR ''s'' then Inr (r\<lparr>sg_sender_phash := path_hash jhash2 optarg\<rparr>)
      else if opt = CHR ''r'' then Inr (r\<lparr>sg_recv_phash := path_hash jhash2 optarg\<rparr>)
      else if opt = CHR ''S'' then Inr (r\<lparr>sg_sig := atoi optarg\<rparr>)
      else if opt = CHR ''R'' then Inr (r\<lparr>sg_res := atoi optarg\<rparr>)
      else if opt = CHR ''h'' then Inl 0
      else Inl (- 1))"

text \<open>What \<open>parse_args\<close> prints; \<open>%u\<close> of a number that may be negative.\<close>

definition sg_filter_text :: "sg_rule \<Rightarrow> string list" where
  "sg_filter_text r =
     (let u = (\<lambda>i :: int. fmt_u (of_int i :: u32)); tab = [CHR 0x09]
      in [NL # ''=============== filter ================='' @ [NL, NL],
          tab @ ''sender_pid = '' @ u (sg_sender_pid r) @ [NL] @ tab @ ''sender_phash = '' @ fmt_u (sg_sender_phash r) @ [NL]
          @ tab @ ''recv_pid = '' @ u (sg_recv_pid r) @ [NL] @ tab @ ''recv_phash = '' @ fmt_u (sg_recv_phash r) @ [NL]
          @ tab @ ''signal = '' @ u (sg_sig r) @ [NL] @ tab @ ''return = '' @ u (sg_res r) @ [NL],
          NL # ''========================================'' @ [NL, NL]])"

section \<open>Records\<close>

record sg_data =
  sd_sender_pid :: u32
  sd_sender_comm :: string
  sd_recv_pid :: u32
  sd_recv_comm :: string
  sd_sig :: u32
  sd_res :: u32

text \<open>The fields of the structure; \<open>None\<close> if a name does not end.\<close>

definition sg_data_of :: "bytes \<Rightarrow> sg_data option" where
  "sg_data_of b =
     (case (cstr_at b 4, cstr_at b 24) of
        (Some s, Some r) \<Rightarrow>
          Some \<lparr>sd_sender_pid = u32_at b 0, sd_sender_comm = s, sd_recv_pid = u32_at b 20, sd_recv_comm = r, sd_sig = u32_at b 40, sd_res = u32_at b 44\<rparr>
      | _ \<Rightarrow> None)"

definition sg_line :: "(int \<Rightarrow> string) \<Rightarrow> sg_data \<Rightarrow> string" where
  "sg_line strsignal d =
     pad_left 10 (fmt_d (sd_sender_pid d)) @ '' '' @ pad_left 15 (sd_sender_comm d) @ '' '' @ pad_left 10 (fmt_d (sd_recv_pid d)) @ '' ''
     @ pad_left 15 (sd_recv_comm d) @ '' '' @ pad_left 12 (if sd_sig d \<noteq> 0 then strsignal (sint (sd_sig d)) else ''0'') @ '' ''
     @ pad_left 8 (fmt_d (sd_res d)) @ [NL]"

definition sg_handle_event :: "(int \<Rightarrow> string) \<Rightarrow> bytes \<Rightarrow> string outcome" where
  "sg_handle_event strsignal data = (case sg_data_of data of None \<Rightarrow> Fault | Some d \<Rightarrow> Done (sg_line strsignal d))"

section \<open>The program\<close>

record sg_sys = "bytes tracer_sys" +
  gs_calloc :: bool
  gs_calloc_args :: bool
  gs_jhash2 :: "string \<Rightarrow> u32"
  gs_strsignal :: "int \<Rightarrow> string"
  gs_iter :: "int list option"

definition sg_title :: string where
  "sg_title =
     pad_left 10 ''SENDER'' @ '' '' @ pad_left 15 ''S-COMM'' @ '' '' @ pad_left 10 ''RCVER'' @ '' '' @ pad_left 15 ''R-COMM'' @ '' ''
     @ pad_left 12 ''SIGNAL'' @ '' '' @ pad_left 8 ''RESULT'' @ [NL]"

text \<open>
  The status, the rule that was stored, the copied trace and the lines. When the object is missing the code at \<open>cleanup\<close>
  reads through a null pointer.
\<close>

definition trace_signal_main :: "sg_sys \<Rightarrow> (int \<times> sg_rule option \<times> bytes \<times> string list) outcome" where
  "trace_signal_main sys =
     (if \<not> gs_calloc sys \<or> \<not> gs_calloc_args sys then Done (1, None, [], [])
      else case opt_fold (sg_case (gs_jhash2 sys)) (ts_opts sys) sg_rule_zero of
        Inl c \<Rightarrow> Done (c, None, [], [])
      | Inr r \<Rightarrow>
          (let head = sg_filter_text r
           in if \<not> ts_sigaction sys then Done (1, None, [], head)
              else if \<not> ts_load sys then Fault
              else if \<not> ts_attach sys \<or> \<not> ts_filter sys \<or> \<not> ts_update sys then Done (0, None, [], head)
              else if \<not> ts_logs sys \<or> \<not> ts_ring sys then Done (0, Some r, [], head)
              else case gs_iter sys of
                None \<Rightarrow> Done (0, Some r, [], head)
              | Some ns \<Rightarrow>
                  bind_outcome (read_out ns) (\<lambda>u.
                    bind_outcome (follow_and_join (sg_handle_event (gs_strsignal sys)) (ts_opens sys) (ts_reads sys) (ts_turns sys))
                      (\<lambda>(out, ls). Done (0, Some r, out, head @ [sg_title] @ ls)))))"

section \<open>What holds\<close>

interpretation sg: event_printer "sg_handle_event strsignal" "\<lambda>b. sg_data_of b \<noteq> None" "\<lambda>b. sg_line strsignal (the (sg_data_of b))" for strsignal
  by unfold_locales (auto simp: sg_handle_event_def)

text \<open>The names are read within the record as soon as its second name ends.\<close>

lemma sg_data_of_some: "0 \<in> set (drop 24 b) \<Longrightarrow> sg_data_of b \<noteq> None"
proof -
  assume z: "0 \<in> set (drop 24 b)"
  have "drop 24 b = drop 20 (drop 4 b)" by simp
  then have "0 \<in> set (drop 4 b)" using z set_drop_subset [of 20 "drop 4 b"] by auto
  then show ?thesis using z cstr_at_some [of 4 b] cstr_at_some [of 24 b] by (auto simp: sg_data_of_def)
qed

lemma trace_signal_prints:
  assumes "gs_calloc sys" "gs_calloc_args sys" "opt_fold (sg_case (gs_jhash2 sys)) (ts_opts sys) sg_rule_zero = Inr r" "ts_sigaction sys"
    "ts_load sys" "ts_attach sys" "ts_filter sys" "ts_update sys" "ts_logs sys" "ts_ring sys" "gs_iter sys = Some ns" "\<exists>n \<in> set ns. n \<le> 0"
    "ts_opens sys = replicate n False @ True # opens" "ts_reads sys = map Inr ds @ Inl e # rs" "ts_turns sys = turns @ (True, q) # rest"
    "\<forall>(x, err, es) \<in> set turns. \<not> x \<and> (\<forall>b \<in> set es. 0 \<in> set (drop 24 b))"
  shows "trace_signal_main sys = Done (0, Some r, concat ds,
     sg_filter_text r @ [sg_title] @ map (\<lambda>b. sg_line (gs_strsignal sys) (the (sg_data_of b))) (concat (map (snd \<circ> snd) turns)))"
proof -
  have "\<forall>(x, err, es) \<in> set turns. \<not> x \<and> (\<forall>b \<in> set es. sg_data_of b \<noteq> None)"
    using assms(16) sg_data_of_some by fastforce
  then have "follow_and_join (sg_handle_event (gs_strsignal sys)) (ts_opens sys) (ts_reads sys) (ts_turns sys)
      = Done (concat ds, map (\<lambda>b. sg_line (gs_strsignal sys) (the (sg_data_of b))) (concat (map (snd \<circ> snd) turns)))"
    unfolding assms(13-15) by (rule sg.follow_and_join_prints)
  then show ?thesis using assms(1-12) by (simp add: trace_signal_main_def Let_def read_out_ends)
qed

text \<open>Without the object the program crashes; after an error of the pipe it waits for a thread that nobody ends.\<close>

lemma signal_load_failure_faults:
  "gs_calloc sys \<Longrightarrow> gs_calloc_args sys \<Longrightarrow> opt_fold (sg_case (gs_jhash2 sys)) (ts_opts sys) sg_rule_zero = Inr r \<Longrightarrow> ts_sigaction sys
     \<Longrightarrow> \<not> ts_load sys \<Longrightarrow> trace_signal_main sys = Fault"
  by (simp add: trace_signal_main_def)

lemma pipe_error_waits:
  "\<forall>(x, err, es) \<in> set turns. \<not> x \<and> es = [] \<Longrightarrow> follow_and_join h [True] (Inl e # rs) turns = Blocked"
  by (simp add: follow_and_join_def ring_worker_forever)

end
