(* ===== verification/Peek_Fd.thy ===== *)
theory Peek_Fd
  imports Ring_Worker
begin

unbundle bit_operations_syntax

text \<open>
  \<open>observe/peek-fd.cpp\<close>: the data that a process reads and writes through one descriptor. Options and their tests, the choice
  of programs, the copying of records and \<open>main\<close>.
\<close>

section \<open>Options\<close>

record pk_conf =
  pk_pid :: int
  pk_fd :: int
  pk_rw :: u32
  pk_sock :: bool
  pk_outfile :: "string option"

definition pk_conf0 :: pk_conf where
  "pk_conf0 = \<lparr>pk_pid = - 1, pk_fd = - 1, pk_rw = 0, pk_sock = False, pk_outfile = None\<rparr>"

abbreviation FD_READ :: u32 where "FD_READ \<equiv> 1"
abbreviation FD_WRITE :: u32 where "FD_WRITE \<equiv> 2"

definition pk_case :: "char \<Rightarrow> string \<Rightarrow> pk_conf \<Rightarrow> int + pk_conf" where
  "pk_case opt optarg c =
     (if opt = CHR ''p'' then Inr (c\<lparr>pk_pid := to_int32 (fst (strtol10 optarg))\<rparr>)
      else if opt = CHR ''f'' then Inr (c\<lparr>pk_fd := to_int32 (fst (strtol10 optarg))\<rparr>)
      else if opt = CHR ''h'' then Inl 0
      else if opt = CHR ''r'' then Inr (c\<lparr>pk_rw := pk_rw c OR FD_READ\<rparr>)
      else if opt = CHR ''w'' then Inr (c\<lparr>pk_rw := pk_rw c OR FD_WRITE\<rparr>)
      else if opt = CHR ''o'' then Inr (c\<lparr>pk_outfile := Some optarg\<rparr>)
      else if opt = CHR ''s'' then Inr (c\<lparr>pk_sock := True\<rparr>)
      else Inl (- 1))"

definition pk_parse_args :: "(char \<times> string) list \<Rightarrow> int + pk_conf" where
  "pk_parse_args os =
     (case opt_fold pk_case os pk_conf0 of
        Inl c \<Rightarrow> Inl c
      | Inr c \<Rightarrow> if pk_fd c = - 1 \<or> pk_pid c = - 1 then Inl (- 1) else if pk_rw c = 0 then Inl (- 1) else Inr c)"

section \<open>Programs\<close>

definition enable_read_trace :: "pk_conf \<Rightarrow> string list" where
  "enable_read_trace c =
     (if pk_rw c AND FD_READ = 0 then []
      else [''trace_sys_enter_read'', ''trace_sys_enter_readv'', ''trace_sys_enter_preadv'', ''trace_sys_enter_preadv2'',
            ''trace_sys_exit_read'', ''trace_sys_exit_readv'', ''trace_sys_exit_preadv'', ''trace_sys_exit_preadv2'']
           @ (if \<not> pk_sock c then []
              else [''trace_sys_enter_recvfrom'', ''trace_sys_enter_recvmsg'', ''trace_sys_enter_recvmmsg'',
                    ''trace_sys_exit_recvfrom'', ''trace_sys_exit_recvmsg'', ''trace_sys_exit_recvmmsg'']))"

definition enable_write_trace :: "pk_conf \<Rightarrow> string list" where
  "enable_write_trace c =
     (if pk_rw c AND FD_WRITE = 0 then []
      else [''trace_sys_enter_write'', ''trace_sys_enter_writev'', ''trace_sys_enter_pwritev'', ''trace_sys_enter_pwritev2'',
            ''trace_sys_exit_write'', ''trace_sys_exit_writev'', ''trace_sys_exit_pwritev'', ''trace_sys_exit_pwritev2'']
           @ (if \<not> pk_sock c then []
              else [''trace_sys_enter_sendto'', ''trace_sys_enter_sendmsg'', ''trace_sys_enter_sendmmsg'',
                    ''trace_sys_exit_sendto'', ''trace_sys_exit_sendmsg'', ''trace_sys_exit_sendmmsg'']))"

section \<open>Records\<close>

text \<open>The size comes from the record, not from its length.\<close>

definition pk_handle_event :: "bytes \<Rightarrow> string outcome" where
  "pk_handle_event data =
     (let sz = unat (u64_at data 0)
      in if 8 + sz \<le> length data then Done (map byte_char (take sz (drop 8 data))) else Fault)"

section \<open>The program\<close>

text \<open>The status, the programs that are switched on, the copied trace and what goes to the standard output.\<close>

definition peek_fd_main :: "bytes tracer_sys \<Rightarrow> (int \<times> string list \<times> bytes \<times> string list) outcome" where
  "peek_fd_main sys =
     (case pk_parse_args (ts_opts sys) of
        Inl c \<Rightarrow> Done (c, [], [], [])
      | Inr c \<Rightarrow>
          (let on = enable_read_trace c @ enable_write_trace c
           in if \<not> ts_sigaction sys then Done (1, [], [], [])
              else if \<not> ts_load sys \<or> \<not> ts_attach sys then Done (- 1, on, [], [])
              else if \<not> ts_filter sys then Done (0, on, [], [])
              else if \<not> ts_update sys then Done (0, on, [], [''Error: bpf_map_update_elem''])
              else if \<not> ts_logs sys \<or> \<not> ts_ring sys then Done (0, on, [], [])
              else bind_outcome (follow_and_join pk_handle_event (ts_opens sys) (ts_reads sys) (ts_turns sys))
                     (\<lambda>(out, ls). Done (0, on, out, [''start peeking'' @ [NL]] @ ls @ [''normally exit'' @ [NL]]))))"

section \<open>What holds\<close>

interpretation pk: event_printer pk_handle_event "\<lambda>b. 8 + unat (u64_at b 0) \<le> length b" "\<lambda>b. map byte_char (take (unat (u64_at b 0)) (drop 8 b))"
  by unfold_locales (simp add: pk_handle_event_def)

definition pk_rw_ok :: "pk_conf \<Rightarrow> bool" where
  "pk_rw_ok c \<longleftrightarrow> pk_rw c \<in> {0, 1, 2, 3}"

interpretation pk_opts: option_cases pk_case pk_rw_ok
proof
  fix c opt optarg c'
  assume "pk_rw_ok c" "pk_case opt optarg c = Inr c'"
  then show "pk_rw_ok c'" by (auto simp: pk_case_def pk_rw_ok_def split: if_splits)
qed

text \<open>What passes the tests names a process, a descriptor and a direction, and switches on at least one program.\<close>

lemma pk_parse_args_complete:
  assumes "pk_parse_args os = Inr c"
  shows "pk_pid c \<noteq> - 1" "pk_fd c \<noteq> - 1" "pk_rw c \<in> {FD_READ, FD_WRITE, FD_READ OR FD_WRITE}" "enable_read_trace c @ enable_write_trace c \<noteq> []"
proof -
  have f: "opt_fold pk_case os pk_conf0 = Inr c" and ne: "pk_fd c \<noteq> - 1" "pk_pid c \<noteq> - 1" "pk_rw c \<noteq> 0"
    using assms by (auto simp: pk_parse_args_def split: sum.splits if_splits)
  show "pk_pid c \<noteq> - 1" "pk_fd c \<noteq> - 1" using ne by simp_all
  have "pk_rw_ok pk_conf0" by (simp add: pk_rw_ok_def pk_conf0_def)
  then have "pk_rw c \<in> {0, 1, 2, 3}" using f pk_opts.loop_ok unfolding pk_rw_ok_def by blast
  then show rw: "pk_rw c \<in> {FD_READ, FD_WRITE, FD_READ OR FD_WRITE}" using ne(3) by auto
  then show "enable_read_trace c @ enable_write_trace c \<noteq> []" by (auto simp: enable_read_trace_def enable_write_trace_def)
qed

text \<open>What goes to the output is the data, in order, between two lines of the program itself: a file that is given with \<open>-o\<close>
  is not a copy of the data.\<close>

lemma peek_copies:
  assumes "pk_parse_args (ts_opts sys) = Inr c" "ts_sigaction sys" "ts_load sys" "ts_attach sys" "ts_filter sys"
    "ts_update sys" "ts_logs sys" "ts_ring sys" "ts_opens sys = replicate n False @ True # opens" "ts_reads sys = map Inr ds @ Inl e # rs"
    "ts_turns sys = turns @ (True, q) # rest" "\<forall>(x, err, es) \<in> set turns. \<not> x \<and> (\<forall>b \<in> set es. 8 + unat (u64_at b 0) \<le> length b)"
  shows "\<exists>on. peek_fd_main sys = Done (0, on, concat ds,
     [''start peeking'' @ [NL]] @ map (\<lambda>b. map byte_char (take (unat (u64_at b 0)) (drop 8 b))) (concat (map (snd \<circ> snd) turns)) @ [''normally exit'' @ [NL]])"
proof -
  have "follow_and_join pk_handle_event (ts_opens sys) (ts_reads sys) (ts_turns sys)
      = Done (concat ds, map (\<lambda>b. map byte_char (take (unat (u64_at b 0)) (drop 8 b))) (concat (map (snd \<circ> snd) turns)))"
    unfolding assms(9-11) by (rule pk.follow_and_join_prints [OF assms(12)])
  then show ?thesis using assms(1-8) by (simp add: peek_fd_main_def Let_def)
qed

text \<open>A record whose size field is larger than the record, for instance negative, is read past its end.\<close>

lemma peek_overruns: "length data < 8 + unat (u64_at data 0) \<Longrightarrow> pk_handle_event data = Fault"
  by (simp add: pk_handle_event_def Let_def)

end
