(* ===== verification/Ps.thy ===== *)
theory Ps
  imports Ring_Worker Std_Map
begin

unbundle bit_operations_syntax

text \<open>
  \<open>observe/ps.cpp\<close>: the processes that an iterator of the kernel finds. Options, the text of a record with its static state,
  the polling loop, and the objects that \<open>main\<close> takes and gives back.
\<close>

section \<open>Options\<close>

record ps_env =
  pe_verbose :: bool
  pe_show_header :: bool
  pe_wide_output :: bool
  pe_show_threads :: bool

definition ps_env0 :: ps_env where
  "ps_env0 = \<lparr>pe_verbose = False, pe_show_header = True, pe_wide_output = False, pe_show_threads = False\<rparr>"

text \<open>\<open>None\<close> is \<open>ARGP_ERR_UNKNOWN\<close>.\<close>

definition ps_parse_arg :: "char \<Rightarrow> ps_env \<Rightarrow> ps_env option" where
  "ps_parse_arg key env =
     (if key = CHR ''v'' then Some (env\<lparr>pe_verbose := True\<rparr>)
      else if key = CHR ''H'' then Some (env\<lparr>pe_show_header := False\<rparr>)
      else if key = CHR ''w'' then Some (env\<lparr>pe_wide_output := True\<rparr>)
      else if key = CHR ''T'' then Some (env\<lparr>pe_show_threads := True\<rparr>)
      else None)"

section \<open>Records\<close>

definition ps_format_time :: "u64 \<Rightarrow> u64 \<Rightarrow> string" where
  "ps_format_time tck time =
     (let minutes = time div (60 * tck); seconds = time div tck mod 60
      in fmt_u minutes @ '':'' @ zero_pad 2 (fmt_u seconds))"

definition get_state_char :: "u32 \<Rightarrow> char" where
  "get_state_char state =
     (if state = 0 then CHR ''R''
      else if state AND 1 \<noteq> 0 then CHR ''S''
      else if state AND 2 \<noteq> 0 then CHR ''D''
      else if state AND 4 \<noteq> 0 then CHR ''T''
      else if state AND 16 \<noteq> 0 then CHR ''Z''
      else if state AND 32 \<noteq> 0 then CHR ''X''
      else CHR ''?'')"

text \<open>The fields of \<open>dcapture_task\<close> that are printed.\<close>

record ps_task =
  pt_pid :: int
  pt_comm :: string
  pt_state :: u32
  pt_ppid :: int
  pt_pgid :: int
  pt_tty_nr :: int
  pt_utime :: u64
  pt_stime :: u64
  pt_nice :: int
  pt_num_threads :: int
  pt_vsize :: u64

text \<open>The static variables of \<open>handle_event\<close>, and what has been written to the two outputs.\<close>

record ps_out =
  po_header_printed :: bool
  po_event_count :: nat
  po_cerr :: "string list"
  po_cout :: "string list"

definition ps_out0 :: ps_out where
  "ps_out0 = \<lparr>po_header_printed = False, po_event_count = 0, po_cerr = [], po_cout = []\<rparr>"

definition ps_header :: "bool \<Rightarrow> string" where
  "ps_header verbose =
     pad_left 5 ''PID'' @ '' '' @ pad_left 5 ''PPID'' @ '' '' @ pad_left 5 ''PGID'' @ '' ''
     @ (if verbose then pad_left 5 ''TTY'' @ '' '' @ pad_left 3 ''NI'' @ '' '' @ pad_left 6 ''THCNT'' @ '' '' @ pad_left 8 ''VSIZE'' @ '' '' else [])
     @ ''S '' @ pad_left 8 ''%CPU'' @ '' '' @ pad_left 8 ''TIME'' @ '' COMMAND'' @ [NL]"

definition ps_row :: "u64 \<Rightarrow> bool \<Rightarrow> ps_task \<Rightarrow> string" where
  "ps_row tck verbose t =
     pad_left 5 (show_int (pt_pid t)) @ '' '' @ pad_left 5 (show_int (pt_ppid t)) @ '' '' @ pad_left 5 (show_int (pt_pgid t)) @ '' ''
     @ (if verbose
        then pad_left 5 (show_int (pt_tty_nr t)) @ '' '' @ pad_left 3 (show_int (pt_nice t)) @ '' '' @ pad_left 6 (show_int (pt_num_threads t)) @ '' ''
          @ pad_left 8 (fmt_u (pt_vsize t div 1024)) @ '' ''
        else [])
     @ [get_state_char (pt_state t)] @ '' '' @ pad_left 8 ''0.0'' @ '' '' @ pad_left 8 (ps_format_time tck (pt_utime t + pt_stime t)) @ '' '' @ c_text (pt_comm t) @ [NL]"

definition ps_handle_event :: "u64 \<Rightarrow> ps_env \<Rightarrow> ps_task \<times> nat \<Rightarrow> ps_out \<Rightarrow> ps_out" where
  "ps_handle_event tck env ev st =
     (case ev of (task, data_sz) \<Rightarrow>
        let st1 = (if pe_verbose env
                   then st\<lparr>po_event_count := po_event_count st + 1,
                           po_cerr := po_cerr st @ [''Received event #'' @ show_nat (po_event_count st + 1) @ '', size: '' @ show_nat data_sz @ '' bytes'' @ [NL]]\<rparr>
                   else st);
            st2 = (if pe_show_header env \<and> \<not> po_header_printed st1
                   then st1\<lparr>po_cout := po_cout st1 @ [ps_header (pe_verbose env)], po_header_printed := True\<rparr>
                   else st1)
        in st2\<lparr>po_cout := po_cout st2 @ [ps_row tck (pe_verbose env) task]\<rparr>)"

section \<open>The program\<close>

text \<open>The loop: the flag is tested before every poll; a poll without events ends it.\<close>

fun ps_poll :: "u64 \<Rightarrow> ps_env \<Rightarrow> (bool \<times> int \<times> (ps_task \<times> nat) list) list \<Rightarrow> ps_out \<Rightarrow> ps_out outcome" where
  "ps_poll tck env [] st = Blocked"
| "ps_poll tck env ((exit_flag, err, evs) # turns) st =
     (if exit_flag then Done st
      else let st' = fold (ps_handle_event tck env) evs st
           in if err < 0 \<and> err \<noteq> - EINTR then Done st' else if err = 0 then Done st' else ps_poll tck env turns st')"

datatype ps_res = PsObject | PsLinks | PsRing | PsIter

record ps_sys =
  pp_args :: "ps_env option"
  pp_argp_err :: int
  pp_sigaction :: bool
  pp_open :: bool
  pp_load :: bool
  pp_attach :: bool
  pp_ring :: bool
  pp_iter :: bool
  pp_buf :: bool
  pp_tck :: u64
  pp_reads :: "int list"
  pp_turns :: "(bool \<times> int \<times> (ps_task \<times> nat) list) list"

text \<open>The status, what is taken and given back, and the output. The thread reads the iterator to its end.\<close>

definition ps_main :: "ps_sys \<Rightarrow> (int \<times> ps_res res_event list \<times> ps_out) outcome" where
  "ps_main sys =
     (case pp_args sys of
        None \<Rightarrow> Done (pp_argp_err sys, [], ps_out0)
      | Some env \<Rightarrow>
          if \<not> pp_sigaction sys then Done (1, [], ps_out0)
          else if \<not> pp_open sys then Done (1, [], ps_out0)
          else if \<not> pp_load sys \<or> \<not> pp_attach sys then Done (1, [Acq PsObject, Rel PsObject], ps_out0)
          else if \<not> pp_ring sys then Done (1, [Acq PsObject, Acq PsLinks, Rel PsLinks, Rel PsObject], ps_out0)
          else if \<not> pp_iter sys then Done (1, [Acq PsObject, Acq PsLinks, Acq PsRing], ps_out0)
          else if \<not> pp_buf sys then Done (1, [Acq PsObject, Acq PsLinks, Acq PsRing, Acq PsIter, Rel PsIter], ps_out0)
          else bind_outcome (ps_poll (pp_tck sys) env (pp_turns sys) ps_out0) (\<lambda>out.
            bind_outcome (read_out (pp_reads sys)) (\<lambda>u.
              Done (0, [Acq PsObject, Acq PsLinks, Acq PsRing, Acq PsIter, Rel PsIter, Rel PsRing, Rel PsLinks, Rel PsObject], out))))"

section \<open>What holds\<close>

text \<open>The two parts of a time give the whole seconds back.\<close>

lemma ps_time_parts:
  assumes "tck \<noteq> 0" "unat tck < 2 ^ 58"
  shows "unat (time div (60 * tck)) * 60 + unat (time div tck mod 60 :: u64) = unat time div unat tck" "unat (time div tck mod 60 :: u64) < 60"
proof -
  have "unat (60 * tck) = 60 * unat tck" using assms(2) by (simp add: unat_mult_lem [THEN iffD1])
  then have "unat (time div (60 * tck)) = unat time div unat tck div 60" by (simp add: unat_div_distrib div_mult2_eq mult.commute)
  moreover have "unat (time div tck mod 60 :: u64) = unat time div unat tck mod 60" by (simp add: unat_div_distrib unat_mod_distrib)
  ultimately show "unat (time div (60 * tck)) * 60 + unat (time div tck mod 60 :: u64) = unat time div unat tck" "unat (time div tck mod 60 :: u64) < 60"
    by simp_all
qed

text \<open>The heading comes once, before the first row, and every event gives one row.\<close>

lemma ps_events:
  "po_cout (fold (ps_handle_event tck env) evs st)
     = po_cout st @ (if evs \<noteq> [] \<and> pe_show_header env \<and> \<not> po_header_printed st then [ps_header (pe_verbose env)] else [])
       @ map (\<lambda>(t, n). ps_row tck (pe_verbose env) t) evs"
proof (induction evs arbitrary: st)
  case (Cons e evs)
  obtain t n where e: "e = (t, n)" by (cases e)
  show ?case unfolding fold.simps comp_def Cons.IH by (simp add: e ps_handle_event_def Let_def)
qed simp

lemma ps_poll_all:
  assumes "\<forall>(x, err, evs) \<in> set turns. \<not> x \<and> (err > 0 \<or> err = - EINTR)"
  shows "ps_poll tck env (turns @ (True, q) # rest) st = Done (fold (ps_handle_event tck env) (concat (map (snd \<circ> snd) turns)) st)"
  using assms
proof (induction turns arbitrary: st)
  case Nil
  then show ?case by (cases q) simp
next
  case (Cons t ts)
  obtain x err evs where t: "t = (x, err, evs)" by (cases t)
  show ?case using Cons by (auto simp: t Let_def)
qed

text \<open>What is still in the ring when the thread has set the flag is not printed.\<close>

lemma ps_loses_pending: "ps_poll tck env ((True, n, pending) # turns) st = Done st"
  by simp

text \<open>The options \<open>-w\<close> and \<open>-T\<close> do nothing.\<close>

lemma ps_options_without_effect:
  "ps_handle_event tck (env\<lparr>pe_wide_output := w, pe_show_threads := t\<rparr>) = ps_handle_event tck env"
  by (intro ext) (simp add: ps_handle_event_def Let_def split: prod.split)

text \<open>Every exit but one gives back what was taken.\<close>

lemma ps_balance:
  assumes "ps_main sys = Done (c, tr, out)" "pp_iter sys" "pp_buf sys"
  shows "balance r tr = 0"
  using assms by (auto simp: ps_main_def bind_outcome_def split: option.splits if_splits outcome.splits)

lemma ps_iterator_failure_leaks:
  assumes "pp_args sys = Some env" "pp_sigaction sys" "pp_open sys" "pp_load sys" "pp_attach sys" "pp_ring sys" "\<not> pp_iter sys"
  shows "\<exists>tr out. ps_main sys = Done (1, tr, out) \<and> balance PsRing tr = 1 \<and> balance PsObject tr = 1"
  using assms by (simp add: ps_main_def)

end
