(* ===== verification/Arp_Observe.thy ===== *)
theory Arp_Observe
  imports Ring_Worker Inet_Text
begin

text \<open>
  \<open>observe/arp-observe.cpp\<close>: ARP packets on one interface. Formats, the filter by address, the handler of records, options and
  \<open>main\<close>.
\<close>

section \<open>Formats\<close>

record arp_event =
  ae_src_mac :: bytes
  ae_dst_mac :: bytes
  ae_src_ip :: u32
  ae_dst_ip :: u32
  ae_opcode :: u16

definition arp_event_of :: "bytes \<Rightarrow> arp_event" where
  "arp_event_of b =
     \<lparr>ae_src_mac = bytes_at b 0 6, ae_dst_mac = bytes_at b 6 6, ae_src_ip = u32_at b 12, ae_dst_ip = u32_at b 16, ae_opcode = u16_at b 20\<rparr>"

fun join_colon :: "string list \<Rightarrow> string" where
  "join_colon [] = []"
| "join_colon [s] = s"
| "join_colon (s # ss) = s @ '':'' @ join_colon ss"

definition arp_format_mac :: "bytes \<Rightarrow> string" where
  "arp_format_mac mac = join_colon (map (\<lambda>b. zero_pad 2 (show_hex (unat b))) mac)"

text \<open>\<open>htonl\<close> and \<open>inet_ntoa\<close> of an address in host order.\<close>

definition arp_format_ip :: "u32 \<Rightarrow> string" where
  "arp_format_ip ip = inet_ntoa ip"

definition arp_parse_ip :: "string \<Rightarrow> u32 option" where
  "arp_parse_ip str = map_option ip_of_octets (inet_pton4 str)"

definition get_arp_opcode_desc :: "u16 \<Rightarrow> string" where
  "get_arp_opcode_desc opcode =
     (if opcode = 1 then ''ARP_REQUEST'' else if opcode = 2 then ''ARP_REPLY'' else if opcode = 3 then ''RARP_REQUEST''
      else if opcode = 4 then ''RARP_REPLY'' else ''UNKNOWN'')"

section \<open>Events\<close>

definition should_display_arp_event :: "u32 \<Rightarrow> arp_event \<Rightarrow> bool" where
  "should_display_arp_event target_ip e = (if target_ip = 0 then True else ae_src_ip e = target_ip \<or> ae_dst_ip e = target_ip)"

definition arp_line :: "string \<Rightarrow> arp_event \<Rightarrow> string" where
  "arp_line time_str e =
     ''['' @ pad_right 8 time_str @ ''] '' @ pad_right 15 (arp_format_ip (ae_src_ip e)) @ '' -> '' @ pad_right 15 (arp_format_ip (ae_dst_ip e)) @ '' ''
     @ pad_right 17 (arp_format_mac (ae_src_mac e)) @ '' -> '' @ pad_right 17 (arp_format_mac (ae_dst_mac e)) @ '' '' @ get_arp_opcode_desc (ae_opcode e) @ [NL]"

text \<open>\<open>handle_arp_event\<close>: what it writes to the standard output; the time is that of the call.\<close>

definition handle_arp_event :: "u32 \<Rightarrow> string \<times> bytes \<Rightarrow> string list" where
  "handle_arp_event target_ip ev =
     (case ev of (time_str, data) \<Rightarrow>
        if length data \<noteq> 32 then []
        else let e = arp_event_of data in if should_display_arp_event target_ip e then [arp_line time_str e] else [])"

section \<open>The program\<close>

definition arp_case :: "char \<Rightarrow> string \<Rightarrow> u32 \<Rightarrow> int + u32" where
  "arp_case opt optarg target_ip =
     (if opt = CHR ''i'' then (case arp_parse_ip optarg of None \<Rightarrow> Inl (- 1) | Some ip \<Rightarrow> Inr ip)
      else if opt = CHR ''h'' then Inl 0
      else Inl (- 1))"

definition arp_startup_info :: "u32 \<Rightarrow> string list" where
  "arp_startup_info target_ip =
     [''=== eBPF XDP ARP Monitor Started ==='' @ [NL], ''Press Ctrl+C to stop monitoring'' @ [NL], [NL],
      (if target_ip \<noteq> 0 then ''Filtering: Show only ARP packets involving '' @ arp_format_ip target_ip else ''Filtering: Show all ARP packets'') @ [NL], [NL],
      ''ARP Events:'' @ [NL], ''Time      Source IP       Dest IP         Source MAC        Dest MAC         Opcode'' @ [NL], [NL]]"

text \<open>The polling loop: the flag \<open>running\<close> before each turn.\<close>

fun arp_poll :: "u32 \<Rightarrow> (bool \<times> int \<times> (string \<times> bytes) list) list \<Rightarrow> string list outcome" where
  "arp_poll target_ip [] = Blocked"
| "arp_poll target_ip ((running, err, evs) # turns) =
     (if \<not> running then Done []
      else let out = concat (map (handle_arp_event target_ip) evs)
           in if err = - EINTR then bind_outcome (arp_poll target_ip turns) (\<lambda>out'. Done (out @ out'))
              else if err < 0 then Done out
              else bind_outcome (arp_poll target_ip turns) (\<lambda>out'. Done (out @ out')))"

datatype arp_res = ArpRing | ArpSkel

record arp_sys =
  as_ifname :: "string option"
  as_root :: bool
  as_ifindex :: "string \<Rightarrow> nat"
  as_opts :: "(char \<times> string) list"
  as_rlimit :: bool
  as_open :: bool
  as_load :: bool
  as_attach :: bool
  as_xdp :: bool
  as_ring :: bool
  as_turns :: "(bool \<times> int \<times> (string \<times> bytes) list) list"

text \<open>\<open>cleanup_resources\<close>: what is given back.\<close>

definition arp_cleanup :: "bool \<Rightarrow> bool \<Rightarrow> arp_res res_event list" where
  "arp_cleanup rb skel = (if rb then [Rel ArpRing] else []) @ (if skel then [Rel ArpSkel] else [])"

definition arp_main :: "arp_sys \<Rightarrow> (int \<times> arp_res res_event list \<times> string list) outcome" where
  "arp_main sys =
     (case as_ifname sys of
        None \<Rightarrow> Done (1, [], [])
      | Some ifname \<Rightarrow>
          if \<not> as_root sys then Done (1, [], [])
          else if as_ifindex sys ifname = 0 then Done (1, [], [])
          else case opt_fold arp_case (as_opts sys) 0 of
            Inl c \<Rightarrow> Done (c, [], [])
          | Inr target_ip \<Rightarrow>
              if \<not> as_rlimit sys then Done (1, [], [])
              else if \<not> as_open sys then Done (1, [], [])
              else if \<not> as_load sys \<or> \<not> as_attach sys \<or> \<not> as_xdp sys \<or> \<not> as_ring sys
                then Done (0, Acq ArpSkel # arp_cleanup False True, [])
              else bind_outcome (arp_poll target_ip (as_turns sys)) (\<lambda>out.
                Done (0, [Acq ArpSkel, Acq ArpRing] @ arp_cleanup True True, arp_startup_info target_ip @ out)))"

section \<open>What holds\<close>

text \<open>An address that is printed can be given as the filter.\<close>

lemma arp_ip_roundtrip: "arp_parse_ip (arp_format_ip w) = Some w"
  by (simp add: arp_parse_ip_def arp_format_ip_def pton4_ntoa ip_of_octets_inverse)

text \<open>Exactly the packets of proper size that involve the address are printed, in order.\<close>

definition arp_selected :: "u32 \<Rightarrow> (string \<times> bytes) list \<Rightarrow> string list" where
  "arp_selected target_ip evs =
     map (\<lambda>(time_str, data). arp_line time_str (arp_event_of data))
       (filter (\<lambda>(time_str, data). length data = 32
          \<and> (target_ip = 0 \<or> u32_at data 12 = target_ip \<or> u32_at data 16 = target_ip)) evs)"

lemma arp_selected_append: "arp_selected ip (xs @ ys) = arp_selected ip xs @ arp_selected ip ys"
  by (simp add: arp_selected_def)

lemma arp_handled_one: "handle_arp_event ip ev = arp_selected ip [ev]"
  by (cases ev) (simp add: handle_arp_event_def arp_selected_def should_display_arp_event_def arp_event_of_def Let_def)

lemma arp_handled: "concat (map (handle_arp_event ip) evs) = arp_selected ip evs"
proof (induction evs)
  case (Cons ev evs)
  then show ?case using arp_selected_append [of ip "[ev]" evs] by (simp add: arp_handled_one)
qed (simp add: arp_selected_def)

lemma arp_poll_selects:
  assumes "\<forall>(running, err, evs) \<in> set turns. running \<and> (err \<ge> 0 \<or> err = - EINTR)"
  shows "arp_poll ip (turns @ (False, q) # rest) = Done (arp_selected ip (concat (map (snd \<circ> snd) turns)))"
  using assms
proof (induction turns)
  case Nil
  then show ?case by (cases q) (simp add: arp_selected_def)
next
  case (Cons t ts)
  obtain running err evs where t: "t = (running, err, evs)" by (cases t)
  show ?case using Cons by (auto simp: t Let_def arp_handled arp_selected_append)
qed

text \<open>The columns of addresses are never wider than their field.\<close>

lemma arp_columns: "length (pad_right 15 (arp_format_ip ip)) = 15"
  using inet_ntoa_length [of ip] by (simp add: pad_right_def arp_format_ip_def)

lemma arp_balance: "arp_main sys = Done (c, tr, out) \<Longrightarrow> balance r tr = 0"
  by (auto simp: arp_main_def arp_cleanup_def bind_outcome_def split: option.splits if_splits sum.splits outcome.splits)

text \<open>The filter 0.0.0.0 selects everything; the help is shown only after the name of an interface; no failure to load or attach is
  visible in the status.\<close>

lemma arp_zero_is_all: "arp_case CHR ''i'' ''0.0.0.0'' t = Inr 0"
proof -
  have z: "show_nat 0 = ''0''" by (subst show_nat.simps) (simp add: digit_char_def char_of_def bit_0)
  have "arp_parse_ip ''0.0.0.0'' = Some 0" using pton4_dotted [of 0 0 0 0] by (simp add: z arp_parse_ip_def ip_of_octets_def)
  then show ?thesis by (simp add: arp_case_def)
qed

lemma arp_help_needs_interface: "as_ifname sys = Some ''-h'' \<Longrightarrow> as_ifindex sys ''-h'' = 0 \<Longrightarrow> arp_main sys = Done (1, [], [])"
  by (simp add: arp_main_def)

lemma arp_silent_failure:
  "as_ifname sys = Some n \<Longrightarrow> as_root sys \<Longrightarrow> as_ifindex sys n \<noteq> 0 \<Longrightarrow> as_opts sys = [] \<Longrightarrow> as_rlimit sys \<Longrightarrow> as_open sys \<Longrightarrow> \<not> as_load sys \<Longrightarrow>
     \<exists>tr. arp_main sys = Done (0, tr, [])"
  by (simp add: arp_main_def)

end
