(* ===== verification/Workqueue_Snoop.thy ===== *)
theory Workqueue_Snoop
  imports Ksyms Ring_Worker
begin

text \<open>
  \<open>observe/workqueue-snoop.cpp\<close>: work items of the kernel. Names of functions, the text of times and events, the statistics,
  options and filter, the loop over \<open>epoll\<close>, and \<open>main\<close>. The local time and the text of floating-point numbers are parameters.
\<close>

section \<open>Names and times\<close>

text \<open>The scan of \<open>/proc/kallsyms\<close>: the nearest symbol so far.\<close>

definition wq_nearer :: "u64 \<Rightarrow> string \<Rightarrow> u64 \<times> string option \<Rightarrow> u64 \<times> string option" where
  "wq_nearer addr line best =
     (case scan_sym line of
        Scan_sym a ty name r \<Rightarrow> if a \<le> addr \<and> a > fst best then (a, Some (take 255 name)) else best
      | _ \<Rightarrow> best)"

definition hex0x :: "'a::len word \<Rightarrow> string" where
  "hex0x w = ''0x'' @ show_hex (unat w)"

definition resolve_kernel_symbol :: "string option \<Rightarrow> u64 \<Rightarrow> string" where
  "resolve_kernel_symbol kallsyms addr =
     (case kallsyms of
        None \<Rightarrow> hex0x addr
      | Some text \<Rightarrow>
          (case fold (wq_nearer addr) (fgets_chunks 511 [] text) (0, None) of
             (a, Some name) \<Rightarrow> take 255 (if a = addr then name else name @ ''+'' @ hex0x (addr - a))
           | (a, None) \<Rightarrow> hex0x addr))"

text \<open>\<open>hms\<close> is \<open>%02d:%02d:%02d\<close> of the local time, \<open>div2\<close> is \<open>%.2f\<close> of a quotient, \<open>div1\<close> is \<open>%.1f\<close>.\<close>

record wq_texts =
  wx_hms :: "u64 \<Rightarrow> string"
  wx_div2 :: "u64 \<Rightarrow> u64 \<Rightarrow> string"
  wx_elapsed :: "int \<Rightarrow> string"
  wx_rate :: "u64 \<Rightarrow> int \<Rightarrow> string"
  wx_kallsyms :: "string option"

definition wq_format_timestamp :: "wq_texts \<Rightarrow> bool \<Rightarrow> u64 \<Rightarrow> string" where
  "wq_format_timestamp x timestamp ns =
     (let sec = ns div 1000000000; nsec = ns mod 1000000000
      in (if timestamp then wx_hms x sec else fmt_d sec) @ ''.'' @ zero_pad 6 (fmt_u (nsec div 1000)))"

definition wq_format_duration :: "wq_texts \<Rightarrow> u64 \<Rightarrow> string" where
  "wq_format_duration x ns =
     (if ns < 1000 then fmt_u ns @ ''ns''
      else if ns < 1000000 then wx_div2 x ns 1000 @ ''us''
      else if ns < 1000000000 then wx_div2 x ns 1000000 @ ''ms''
      else wx_div2 x ns 1000000000 @ ''s'')"

section \<open>Statistics\<close>

record wq_event =
  we_timestamp :: u64
  we_pid :: u32
  we_cpu :: u32
  we_work_ptr :: u64
  we_function_ptr :: u64
  we_workqueue_name :: string
  we_comm :: string
  we_event_type :: u8
  we_req_cpu :: u32
  we_delay_ns :: u64

definition wq_event_of :: "bytes \<Rightarrow> wq_event" where
  "wq_event_of b =
     \<lparr>we_timestamp = u64_at b 0, we_pid = u32_at b 8, we_cpu = u32_at b 12, we_work_ptr = u64_at b 16, we_function_ptr = u64_at b 24,
      we_workqueue_name = c_text (map byte_char (bytes_at b 32 32)), we_comm = c_text (map byte_char (bytes_at b 64 16)),
      we_event_type = u8_at b 80, we_req_cpu = u32_at b 84, we_delay_ns = u64_at b 88\<rparr>"

abbreviation WQ_EVENT_QUEUE :: u8 where "WQ_EVENT_QUEUE \<equiv> 0"
abbreviation WQ_EVENT_ACTIVATE :: u8 where "WQ_EVENT_ACTIVATE \<equiv> 1"
abbreviation WQ_EVENT_START :: u8 where "WQ_EVENT_START \<equiv> 2"
abbreviation WQ_EVENT_END :: u8 where "WQ_EVENT_END \<equiv> 3"

record work_stats =
  ws_count :: u64
  ws_total_delay :: u64
  ws_total_exec_time :: u64
  ws_min_delay :: u64
  ws_max_delay :: u64
  ws_min_exec_time :: u64
  ws_max_exec_time :: u64

definition work_stats0 :: work_stats where
  "work_stats0 = \<lparr>ws_count = 0, ws_total_delay = 0, ws_total_exec_time = 0, ws_min_delay = 0, ws_max_delay = 0, ws_min_exec_time = 0, ws_max_exec_time = 0\<rparr>"

record wq_stats =
  wq_queue :: work_stats
  wq_activate :: work_stats
  wq_execute :: work_stats
  wq_total_events :: u64

definition wq_stats0 :: wq_stats where
  "wq_stats0 = \<lparr>wq_queue = work_stats0, wq_activate = work_stats0, wq_execute = work_stats0, wq_total_events = 0\<rparr>"

definition add_delay :: "u64 \<Rightarrow> work_stats \<Rightarrow> work_stats" where
  "add_delay d s =
     s\<lparr>ws_total_delay := ws_total_delay s + d,
       ws_min_delay := if ws_min_delay s = 0 \<or> d < ws_min_delay s then d else ws_min_delay s,
       ws_max_delay := if d > ws_max_delay s then d else ws_max_delay s\<rparr>"

definition add_exec :: "u64 \<Rightarrow> work_stats \<Rightarrow> work_stats" where
  "add_exec d s =
     s\<lparr>ws_total_exec_time := ws_total_exec_time s + d,
       ws_min_exec_time := if ws_min_exec_time s = 0 \<or> d < ws_min_exec_time s then d else ws_min_exec_time s,
       ws_max_exec_time := if d > ws_max_exec_time s then d else ws_max_exec_time s\<rparr>"

definition counted :: "work_stats \<Rightarrow> work_stats" where
  "counted s = s\<lparr>ws_count := ws_count s + 1\<rparr>"

definition update_stats :: "wq_event \<Rightarrow> wq_stats \<Rightarrow> wq_stats" where
  "update_stats e st0 =
     (let st = st0\<lparr>wq_total_events := wq_total_events st0 + 1\<rparr>; d = we_delay_ns e
      in if we_event_type e = WQ_EVENT_QUEUE then st\<lparr>wq_queue := counted (wq_queue st)\<rparr>
         else if we_event_type e = WQ_EVENT_ACTIVATE then st\<lparr>wq_activate := counted (wq_activate st)\<rparr>
         else if we_event_type e = WQ_EVENT_START
           then st\<lparr>wq_execute := counted (wq_execute st), wq_queue := if d > 0 then add_delay d (wq_queue st) else wq_queue st\<rparr>
         else if we_event_type e = WQ_EVENT_END
           then st\<lparr>wq_execute := if d > 0 then add_exec d (wq_execute st) else wq_execute st\<rparr>
         else st)"

text \<open>\<open>print_statistics\<close>; the averages divide by the number of started items.\<close>

definition print_statistics :: "wq_texts \<Rightarrow> int \<Rightarrow> wq_stats \<Rightarrow> string list outcome" where
  "print_statistics x elapsed st =
     (let q = wq_queue st; e = wq_execute st; dur = wq_format_duration x;
          three = (\<lambda>a mi ma. [''  Average: '' @ dur a @ [NL], ''  Minimum: '' @ dur mi @ [NL], ''  Maximum: '' @ dur ma @ [NL]])
      in if (ws_total_delay q > 0 \<or> ws_total_exec_time e > 0) \<and> ws_count e = 0 then Fault
         else Done ([NL # ''=== Workqueue Statistics Summary ==='' @ [NL], ''Duration: '' @ wx_elapsed x elapsed @ '' seconds'' @ [NL],
           ''Total Events: '' @ fmt_u (wq_total_events st) @ [NL], NL # ''Event Counts:'' @ [NL],
           ''  QUEUE:    '' @ pad_left 8 (fmt_u (ws_count q)) @ [NL], ''  ACTIVATE: '' @ pad_left 8 (fmt_u (ws_count (wq_activate st))) @ [NL],
           ''  START:    '' @ pad_left 8 (fmt_u (ws_count e)) @ [NL]]
           @ (if ws_total_delay q > 0
              then (NL # ''Queue Delays:'' @ [NL]) # three (ws_total_delay q div ws_count e) (ws_min_delay q) (ws_max_delay q) else [])
           @ (if ws_total_exec_time e > 0
              then (NL # ''Execution Times:'' @ [NL]) # three (ws_total_exec_time e div ws_count e) (ws_min_exec_time e) (ws_max_exec_time e) else [])
           @ [NL # ''Event Rate: '' @ wx_rate x (wq_total_events st) elapsed @ '' events/sec'' @ [NL]]))"

section \<open>Options\<close>

record wq_env =
  wv_target_pid :: int
  wv_target_cpu :: int
  wv_target_workqueue :: "string option"
  wv_target_function :: "string option"
  wv_duration :: int
  wv_statistics_mode :: bool
  wv_timestamp :: bool
  wv_verbose :: bool
  wv_json_output :: bool

definition wq_env0 :: wq_env where
  "wq_env0 = \<lparr>wv_target_pid = 0, wv_target_cpu = - 1, wv_target_workqueue = None, wv_target_function = None, wv_duration = 0,
     wv_statistics_mode = False, wv_timestamp = False, wv_verbose = False, wv_json_output = False\<rparr>"

text \<open>\<open>parse_args\<close>; a result of -1 makes the status 1.\<close>

definition wq_case :: "char \<Rightarrow> string \<Rightarrow> wq_env \<Rightarrow> int + wq_env" where
  "wq_case opt optarg v =
     (if opt = CHR ''p'' then (let n = atoi optarg in if n \<le> 0 then Inl 1 else Inr (v\<lparr>wv_target_pid := n\<rparr>))
      else if opt = CHR ''c'' then (let n = atoi optarg in if n < 0 then Inl 1 else Inr (v\<lparr>wv_target_cpu := n\<rparr>))
      else if opt = CHR ''w'' then Inr (v\<lparr>wv_target_workqueue := Some optarg\<rparr>)
      else if opt = CHR ''f'' then Inr (v\<lparr>wv_target_function := Some optarg\<rparr>)
      else if opt = CHR ''d'' then (let n = atoi optarg in if n \<le> 0 then Inl 1 else Inr (v\<lparr>wv_duration := n\<rparr>))
      else if opt = CHR ''s'' then Inr (v\<lparr>wv_statistics_mode := True\<rparr>)
      else if opt = CHR ''t'' then Inr (v\<lparr>wv_timestamp := True\<rparr>)
      else if opt = CHR ''j'' then Inr (v\<lparr>wv_json_output := True\<rparr>)
      else if opt = CHR ''v'' then Inr (v\<lparr>wv_verbose := True\<rparr>)
      else if opt = CHR ''h'' then Inl 0
      else Inl 1)"

record wq_filter =
  wf_target_pid :: u32
  wf_target_cpu :: u32
  wf_target_workqueue :: string
  wf_target_function :: string
  wf_filter_pid :: bool
  wf_filter_cpu :: bool
  wf_filter_workqueue :: bool
  wf_filter_function :: bool

definition wq_setup_filters :: "wq_env \<Rightarrow> wq_filter" where
  "wq_setup_filters v =
     \<lparr>wf_target_pid = (if wv_target_pid v > 0 then of_int (wv_target_pid v) else 0),
      wf_target_cpu = (if wv_target_cpu v \<ge> 0 then of_int (wv_target_cpu v) else 0),
      wf_target_workqueue = (case wv_target_workqueue v of None \<Rightarrow> [] | Some s \<Rightarrow> take 31 (c_text s)),
      wf_target_function = (case wv_target_function v of None \<Rightarrow> [] | Some s \<Rightarrow> take 63 (c_text s)),
      wf_filter_pid = (wv_target_pid v > 0), wf_filter_cpu = (wv_target_cpu v \<ge> 0),
      wf_filter_workqueue = (wv_target_workqueue v \<noteq> None), wf_filter_function = (wv_target_function v \<noteq> None)\<rparr>"

section \<open>Events\<close>

definition event_names :: "string list" where
  "event_names = [''QUEUE'', ''ACTIVATE'', ''START'', ''END'']"

definition dash :: string where "dash = ''-''"

definition wq_line :: "wq_texts \<Rightarrow> wq_env \<Rightarrow> string option \<Rightarrow> wq_event \<Rightarrow> string" where
  "wq_line x v fn e =
     pad_right 18 (wq_format_timestamp x (wv_timestamp v) (we_timestamp e)) @ '' '' @ pad_right 6 (fmt_u (we_pid e)) @ '' '' @ pad_right 3 (fmt_u (we_cpu e)) @ '' ''
     @ pad_right 16 (we_comm e) @ '' '' @ pad_right 8 (event_names ! unat (we_event_type e)) @ '' 0x'' @ pad_right 12 (show_hex (unat (we_work_ptr e)))
     @ '' '' @ pad_right 30 (case fn of Some f \<Rightarrow> f | None \<Rightarrow> dash)
     @ '' '' @ pad_right 20 (if we_workqueue_name e \<noteq> [] then we_workqueue_name e else dash)
     @ '' '' @ pad_left 3 (if sint (we_req_cpu e) \<ge> 0 then fmt_d (we_req_cpu e) else dash)
     @ '' '' @ pad_left 12 (if we_delay_ns e > 0 \<and> (we_event_type e = WQ_EVENT_START \<or> we_event_type e = WQ_EVENT_END)
                            then wq_format_duration x (we_delay_ns e) else dash)
     @ [NL]"

abbreviation QT :: char where "QT \<equiv> CHR 0x22"

definition json_str :: "string \<Rightarrow> string \<Rightarrow> string" where
  "json_str name val = [QT] @ name @ [QT] @ '':'' @ [QT] @ val @ [QT]"

definition json_num :: "string \<Rightarrow> string \<Rightarrow> string" where
  "json_num name val = [QT] @ name @ [QT] @ '':'' @ val"

definition wq_json :: "wq_texts \<Rightarrow> wq_env \<Rightarrow> string option \<Rightarrow> wq_event \<Rightarrow> string" where
  "wq_json x v fn e =
     ''{'' @ json_str ''timestamp'' (wq_format_timestamp x (wv_timestamp v) (we_timestamp e)) @ '','' @ json_num ''pid'' (fmt_u (we_pid e)) @ '',''
     @ json_num ''cpu'' (fmt_u (we_cpu e)) @ '','' @ json_str ''comm'' (we_comm e) @ '','' @ json_str ''event'' (event_names ! unat (we_event_type e)) @ '',''
     @ json_str ''work'' (hex0x (we_work_ptr e))
     @ (case fn of Some f \<Rightarrow> '','' @ json_str ''function'' f | None \<Rightarrow> [])
     @ (if we_workqueue_name e \<noteq> [] then '','' @ json_str ''workqueue'' (we_workqueue_name e) else [])
     @ (if sint (we_req_cpu e) \<ge> 0 then '','' @ json_num ''req_cpu'' (fmt_d (we_req_cpu e)) else [])
     @ (if we_delay_ns e > 0
        then (if we_event_type e = WQ_EVENT_START then '','' @ json_num ''queue_delay_ns'' (fmt_u (we_delay_ns e))
              else if we_event_type e = WQ_EVENT_END then '','' @ json_num ''exec_time_ns'' (fmt_u (we_delay_ns e)) else [])
        else [])
     @ ''}'' @ [NL]"

text \<open>The process, its start and its options.\<close>

record wq_ctx =
  wc_texts :: wq_texts
  wc_env :: wq_env
  wc_self :: u32
  wc_start :: int

text \<open>The time is over: the process kills itself, without any clean-up.\<close>

definition wq_expired :: "wq_ctx \<Rightarrow> int \<Rightarrow> bool" where
  "wq_expired c now \<longleftrightarrow> wv_duration (wc_env c) > 0 \<and> now - wc_start c \<ge> wv_duration (wc_env c)"

definition wq_handle_event :: "wq_ctx \<Rightarrow> int \<times> bytes \<Rightarrow> wq_stats \<Rightarrow> (string \<times> wq_stats) outcome" where
  "wq_handle_event c ev st =
     (case ev of (now, data) \<Rightarrow>
        if wq_expired c now then Aborted
        else if length data < 96 then Done ([], st)
        else let e = wq_event_of data; v = wc_env c; x = wc_texts c
             in if we_pid e = wc_self c then Done ([], st)
                else let st' = update_stats e st
                     in if wv_statistics_mode v then Done ([], st')
                        else let fn = (if we_function_ptr e \<noteq> 0 then Some (resolve_kernel_symbol (wx_kallsyms x) (we_function_ptr e)) else None)
                             in if unat (we_event_type e) \<ge> length event_names then Fault
                                else Done (if wv_json_output v then wq_json x v fn e else wq_line x v fn e, st'))"

fun wq_handle_all :: "wq_ctx \<Rightarrow> (int \<times> bytes) list \<Rightarrow> wq_stats \<Rightarrow> (string list \<times> wq_stats) outcome" where
  "wq_handle_all c [] st = Done ([], st)"
| "wq_handle_all c (ev # evs) st =
     bind_outcome (wq_handle_event c ev st) (\<lambda>(s, st1).
       bind_outcome (wq_handle_all c evs st1) (\<lambda>(out, st2). Done ((if s = [] then out else s # out), st2)))"

section \<open>The loop\<close>

text \<open>
  What \<open>epoll_wait\<close> reports: the ring, with the calls of \<open>ring_buffer__consume\<close> (the flag before each, its result and its
  events), or the pipe to which the signal handler writes.
\<close>

datatype wq_ready = RingReady "(bool \<times> int \<times> (int \<times> bytes) list) list" | SignalReady

text \<open>At most ten calls; \<open>err\<close> keeps the result of the last one.\<close>

fun wq_consume :: "nat \<Rightarrow> wq_ctx \<Rightarrow> (bool \<times> int \<times> (int \<times> bytes) list) list \<Rightarrow> int \<Rightarrow> wq_stats \<Rightarrow> (string list \<times> int \<times> wq_stats) outcome" where
  "wq_consume 0 c calls err st = Done ([], err, st)"
| "wq_consume (Suc n) c [] err st = Blocked"
| "wq_consume (Suc n) c ((exiting, res, evs) # calls) err st =
     (if exiting then Done ([], err, st)
      else bind_outcome (wq_handle_all c evs st) (\<lambda>(out, st1).
        if res \<le> 0 then Done (out, res, st1)
        else bind_outcome (wq_consume n c calls res st1) (\<lambda>(out', err', st2). Done (out @ out', err', st2))))"

text \<open>The descriptors of one wait; the flag is tested before each. The result says how the loop goes on.\<close>

datatype wq_next = LoopOn | LoopSignalled | LoopExit

fun wq_ready_all :: "wq_ctx \<Rightarrow> (bool \<times> wq_ready) list \<Rightarrow> int \<Rightarrow> wq_stats \<Rightarrow> (wq_next \<times> string list \<times> int \<times> wq_stats) outcome" where
  "wq_ready_all c [] err st = Done (LoopOn, [], err, st)"
| "wq_ready_all c ((exiting, SignalReady) # rs) err st =
     (if exiting then Done (LoopOn, [], err, st) else Done (LoopSignalled, [NL # ''Signal received, exiting gracefully...'' @ [NL]], err, st))"
| "wq_ready_all c ((exiting, RingReady calls) # rs) err st =
     (if exiting then Done (LoopOn, [], err, st)
      else bind_outcome (wq_consume 10 c calls err st) (\<lambda>(out, err1, st1).
        if err1 < 0 then Done (LoopExit, out, err1, st1)
        else bind_outcome (wq_ready_all c rs err1 st1) (\<lambda>(nx, out', err2, st2). Done (nx, out @ out', err2, st2))))"

text \<open>One turn: the flag, the time, what the wait gives (\<open>Inl\<close> is an errno), the flag afterwards.\<close>

record wq_turn =
  wt_exiting :: bool
  wt_now :: int
  wt_wait :: "int + (bool \<times> wq_ready) list"
  wt_exiting_after :: bool

fun wq_loop :: "wq_ctx \<Rightarrow> wq_turn list \<Rightarrow> int \<Rightarrow> wq_stats \<Rightarrow> (string list \<times> int \<times> wq_stats) outcome" where
  "wq_loop c [] err st = Blocked"
| "wq_loop c (t # ts) err st =
     (if wt_exiting t then Done ([], err, st)
      else if wq_expired c (wt_now t) then Aborted
      else case wt_wait t of
        Inl e \<Rightarrow> if e = EINTR then Done ([], err, st) else Done ([], - 1, st)
      | Inr rs \<Rightarrow>
          if wt_exiting_after t then Done ([], 0, st)
          else bind_outcome (wq_ready_all c rs err st) (\<lambda>(nx, out, err1, st1).
            if nx = LoopOn then bind_outcome (wq_loop c ts err1 st1) (\<lambda>(out', err2, st2). Done (out @ out', err2, st2))
            else Done (out, err1, st1)))"

section \<open>The program\<close>

record wq_sys =
  wy_opts :: "(char \<times> string) list"
  wy_root :: bool
  wy_open :: bool
  wy_load :: int
  wy_attach :: int
  wy_map :: bool
  wy_update :: bool
  wy_ring :: bool
  wy_pipe :: "(int \<times> int) option"
  wy_epoll :: bool
  wy_ring_fd :: bool
  wy_ctl_ring :: bool
  wy_ctl_pipe :: bool
  wy_texts :: wq_texts
  wy_self :: u32
  wy_start :: int
  wy_turns :: "wq_turn list"
  wy_elapsed :: int

definition wq_header :: string where
  "wq_header =
     pad_right 18 ''TIME'' @ '' '' @ pad_right 6 ''PID'' @ '' '' @ pad_right 3 ''CPU'' @ '' '' @ pad_right 16 ''COMM'' @ '' '' @ pad_right 8 ''EVENT'' @ '' ''
     @ pad_right 14 ''WORK'' @ '' '' @ pad_right 30 ''FUNCTION'' @ '' '' @ pad_right 20 ''WORKQUEUE'' @ '' '' @ pad_right 3 ''REQ'' @ '' '' @ pad_left 12 ''DELAY/EXEC'' @ [NL]"

definition wq_verbose_text :: "u32 \<Rightarrow> wq_env \<Rightarrow> string list" where
  "wq_verbose_text self v =
     [''Starting workqueue tracing...'' @ [NL], ''Self PID: '' @ fmt_d self @ '' (events from this process will be filtered)'' @ [NL]]
     @ (if wv_target_pid v > 0 then [''Filtering PID: '' @ show_int (wv_target_pid v) @ [NL]] else [])
     @ (if wv_target_cpu v \<ge> 0 then [''Filtering CPU: '' @ show_int (wv_target_cpu v) @ [NL]] else [])
     @ (case wv_target_workqueue v of Some w \<Rightarrow> [''Filtering workqueue: '' @ w @ [NL]] | None \<Rightarrow> [])
     @ (case wv_target_function v of Some f \<Rightarrow> [''Filtering function: '' @ f @ [NL]] | None \<Rightarrow> [])
     @ (if wv_duration v > 0 then [''Duration: '' @ show_int (wv_duration v) @ '' seconds'' @ [NL]] else [])"

text \<open>
  The status, the descriptors that the code at \<open>cleanup\<close> closes (the two entries of the static \<open>signal_pipe\<close>, zero unless the
  pipe exists), the filter that was stored, and the output.
\<close>

type_synonym wq_result = "int \<times> int list \<times> wq_filter option \<times> string list"

definition wq_main :: "wq_sys \<Rightarrow> wq_result outcome" where
  "wq_main sys =
     (case opt_fold wq_case (wy_opts sys) wq_env0 of
        Inl c \<Rightarrow> Done (c, [], None, [])
      | Inr v \<Rightarrow>
          (let f = wq_setup_filters v; status = (\<lambda>err :: int. if err \<noteq> 0 then 1 else 0 :: int)
           in if \<not> wy_root sys \<or> \<not> wy_open sys then Done (1, [], None, [])
              else if wy_load sys \<noteq> 0 then Done (status (wy_load sys), [0, 0], None, [])
              else if wy_attach sys \<noteq> 0 then Done (status (wy_attach sys), [0, 0], None, [])
              else if \<not> wy_map sys \<or> \<not> wy_update sys then Done (status 0, [0, 0], None, [])
              else if \<not> wy_ring sys then Done (status (- 1), [0, 0], Some f, [])
              else case wy_pipe sys of
                None \<Rightarrow> Done (status (- 1), [0, 0], Some f, [])
              | Some (rd, wr) \<Rightarrow>
                  (let head = (if \<not> wv_json_output v \<and> \<not> wv_statistics_mode v then [wq_header] else [])
                        @ (if wv_verbose v then wq_verbose_text (wy_self sys) v else [])
                   in if \<not> wy_epoll sys \<or> \<not> wy_ring_fd sys \<or> \<not> wy_ctl_ring sys \<or> \<not> wy_ctl_pipe sys
                        then Done (status (- 1), [rd, wr], Some f, head)
                      else bind_outcome
                        (wq_loop \<lparr>wc_texts = wy_texts sys, wc_env = v, wc_self = wy_self sys, wc_start = wy_start sys\<rparr> (wy_turns sys) 0 wq_stats0) (\<lambda>(out, err, st).
                        bind_outcome (if wv_statistics_mode v \<or> wv_verbose v then print_statistics (wy_texts sys) (wy_elapsed sys) st else Done []) (\<lambda>summary.
                          Done (status err, [rd, wr], Some f, head @ out @ summary))))))"

section \<open>What holds\<close>

subsection \<open>The nearest symbol\<close>

text \<open>The symbols of a file, and the nearest one at or below an address: the first of those with the greatest address.\<close>

definition symbols_of :: "string list \<Rightarrow> (u64 \<times> string) list" where
  "symbols_of lines = concat (map (\<lambda>l. case scan_sym l of Scan_sym a ty name r \<Rightarrow> [(a, take 255 name)] | _ \<Rightarrow> []) lines)"

definition below :: "u64 \<Rightarrow> (u64 \<times> string) list \<Rightarrow> (u64 \<times> string) list" where
  "below addr ss = filter (\<lambda>(a, n). 0 < a \<and> a \<le> addr) ss"

definition nearest :: "u64 \<Rightarrow> (u64 \<times> string) list \<Rightarrow> u64 \<times> string option" where
  "nearest addr ss =
     (let cs = below addr ss; m = Max (fst ` set cs)
      in if cs = [] then (0, None) else (m, map_of cs m))"

lemma below_snoc: "below addr (xs @ [(a, n)]) = below addr xs @ (if 0 < a \<and> a \<le> addr then [(a, n)] else [])"
  by (simp add: below_def)

lemma nearest_snoc:
  "nearest addr (xs @ [(a, n)]) = (if a \<le> addr \<and> a > fst (nearest addr xs) then (a, Some n) else nearest addr xs)"
proof (cases "0 < a \<and> a \<le> addr")
  case False
  then have "\<not> (a \<le> addr \<and> a > fst (nearest addr xs))" by (metis le_less_trans word_coorder.extremum)
  moreover have "below addr (xs @ [(a, n)]) = below addr xs" using False by (auto simp: below_snoc)
  then have "nearest addr (xs @ [(a, n)]) = nearest addr xs" by (simp only: nearest_def)
  ultimately show ?thesis by (simp only: if_False)
next
  case True
  let ?cs = "below addr xs"
  show ?thesis
  proof (cases "?cs = []")
    case True
    then show ?thesis using \<open>0 < a \<and> a \<le> addr\<close> by (simp add: nearest_def below_snoc Let_def)
  next
    case False
    let ?m = "Max (fst ` set ?cs)"
    have m: "Max (fst ` set (?cs @ [(a, n)])) = max a ?m" using False by (simp add: Max_insert)
    have f: "fst (nearest addr xs) = ?m" using False by (simp add: nearest_def Let_def)
    have b: "below addr (xs @ [(a, n)]) = ?cs @ [(a, n)]" using \<open>0 < a \<and> a \<le> addr\<close> by (simp add: below_snoc)
    have v: "nearest addr (xs @ [(a, n)]) = (max a ?m, map_of (?cs @ [(a, n)]) (max a ?m))" unfolding nearest_def Let_def b m by simp
    have mem: "?m \<in> fst ` set ?cs" using False by (intro Max_in) simp_all
    show ?thesis
    proof (cases "a > ?m")
      case True
      then have "a \<notin> fst ` set ?cs" using Max_ge [of "fst ` set ?cs" a] by fastforce
      then have "map_of ?cs a = None" by (simp add: map_of_eq_None_iff)
      then have "map_of (?cs @ [(a, n)]) a = Some n" by (simp add: map_add_def)
      moreover have "max a ?m = a" using True by simp
      ultimately show ?thesis using v f True \<open>0 < a \<and> a \<le> addr\<close> by simp
    next
      case F: False
      have "map_of ?cs ?m \<noteq> None" using mem by (simp add: map_of_eq_None_iff)
      then have "map_of (?cs @ [(a, n)]) ?m = map_of ?cs ?m" by (auto simp: map_add_def)
      moreover have "max a ?m = ?m" using F by (meson linorder_not_less max.absorb2)
      moreover have "nearest addr xs = (?m, map_of ?cs ?m)" using False by (simp add: nearest_def Let_def)
      ultimately show ?thesis using v F by simp
    qed
  qed
qed

lemma nearest_found: "fold (wq_nearer addr) lines (0, None) = nearest addr (symbols_of lines)"
proof (induction lines rule: rev_induct)
  case Nil
  show ?case by (simp add: nearest_def symbols_of_def below_def)
next
  case (snoc l ls)
  show ?case using snoc
    by (cases "scan_sym l") (simp_all add: wq_nearer_def symbols_of_def nearest_snoc)
qed

subsection \<open>The statistics\<close>

text \<open>The positive delays of the events of one type; their least and greatest value, 0 if there are none.\<close>

definition delays :: "u8 \<Rightarrow> wq_event list \<Rightarrow> u64 list" where
  "delays ty es = map we_delay_ns (filter (\<lambda>e. we_event_type e = ty \<and> we_delay_ns e > 0) es)"

definition least_of :: "u64 list \<Rightarrow> u64" where
  "least_of ds = (if ds = [] then 0 else Min (set ds))"

definition greatest_of :: "u64 list \<Rightarrow> u64" where
  "greatest_of ds = Max (insert 0 (set ds))"

definition number :: "u8 \<Rightarrow> wq_event list \<Rightarrow> u64" where
  "number ty es = of_nat (length (filter (\<lambda>e. we_event_type e = ty) es))"

definition stats_of :: "wq_event list \<Rightarrow> wq_stats" where
  "stats_of es =
     \<lparr>wq_queue = \<lparr>ws_count = number WQ_EVENT_QUEUE es, ws_total_delay = sum_list (delays WQ_EVENT_START es), ws_total_exec_time = 0,
        ws_min_delay = least_of (delays WQ_EVENT_START es), ws_max_delay = greatest_of (delays WQ_EVENT_START es), ws_min_exec_time = 0, ws_max_exec_time = 0\<rparr>,
      wq_activate = work_stats0\<lparr>ws_count := number WQ_EVENT_ACTIVATE es\<rparr>,
      wq_execute = \<lparr>ws_count = number WQ_EVENT_START es, ws_total_delay = 0, ws_total_exec_time = sum_list (delays WQ_EVENT_END es),
        ws_min_delay = 0, ws_max_delay = 0, ws_min_exec_time = least_of (delays WQ_EVENT_END es), ws_max_exec_time = greatest_of (delays WQ_EVENT_END es)\<rparr>,
      wq_total_events = of_nat (length es)\<rparr>"

lemma delays_positive: "d \<in> set (delays ty es) \<Longrightarrow> d > 0"
  by (auto simp: delays_def)

lemma least_of_snoc:
  assumes "\<forall>x \<in> set ds. x > 0"
  shows "least_of (ds @ [d]) = (if least_of ds = 0 \<or> d < least_of ds then d else least_of ds)"
proof (cases "ds = []")
  case False
  then have "Min (set ds) \<in> set ds" by simp
  then have "Min (set ds) \<noteq> 0" using assms by force
  moreover obtain m where m: "Min (set ds) = m" by simp
  ultimately have "least_of (ds @ [d]) = min d m" "least_of ds = m" "m \<noteq> 0" using False by (simp_all add: least_of_def)
  then show ?thesis by (auto simp: min_def)
qed (simp add: least_of_def)

lemma greatest_of_snoc: "greatest_of (ds @ [d]) = (if d > greatest_of ds then d else greatest_of ds)"
proof -
  obtain m where m: "Max (insert 0 (set ds)) = m" by simp
  have "insert 0 (set (ds @ [d])) = insert d (insert 0 (set ds))" by auto
  moreover have "Max (insert d (insert 0 (set ds))) = max d m" unfolding m [symmetric] by (rule Max_insert) simp_all
  ultimately have "greatest_of (ds @ [d]) = max d m" "greatest_of ds = m" using m by (simp_all only: greatest_of_def)
  then show ?thesis by (auto simp: max_def)
qed

lemma delays_snoc: "delays ty (es @ [e]) = delays ty es @ (if we_event_type e = ty \<and> we_delay_ns e > 0 then [we_delay_ns e] else [])"
  by (simp add: delays_def)

lemma number_snoc: "number ty (es @ [e]) = number ty es + (if we_event_type e = ty then 1 else 0)"
  by (simp add: number_def)

lemma stats_of_snoc: "update_stats e (stats_of es) = stats_of (es @ [e])"
proof -
  have p: "\<forall>x \<in> set (delays ty es). x > 0" for ty by (simp add: delays_positive)
  note defs = update_stats_def stats_of_def counted_def add_delay_def add_exec_def delays_snoc number_snoc least_of_snoc [OF p] greatest_of_snoc work_stats0_def
  consider "we_event_type e = WQ_EVENT_QUEUE" | "we_event_type e = WQ_EVENT_ACTIVATE" | "we_event_type e = WQ_EVENT_START"
    | "we_event_type e = WQ_EVENT_END" | "we_event_type e \<notin> {0, 1, 2, 3}" by blast
  then show ?thesis by cases (simp_all add: defs Let_def)
qed

lemma stats_of_fold: "fold update_stats es wq_stats0 = stats_of es"
proof (induction es rule: rev_induct)
  case Nil
  show ?case by (simp add: stats_of_def wq_stats0_def work_stats0_def number_def delays_def least_of_def greatest_of_def)
next
  case (snoc e es)
  then show ?case by (simp add: stats_of_snoc)
qed

text \<open>The events that count: whole records that do not come from the program itself.\<close>

definition wq_seen :: "wq_ctx \<Rightarrow> (int \<times> bytes) list \<Rightarrow> wq_event list" where
  "wq_seen c evs = filter (\<lambda>e. we_pid e \<noteq> wc_self c) (map (wq_event_of \<circ> snd) (filter (\<lambda>x. 96 \<le> length (snd x)) evs))"

lemma wq_handle_all_stats:
  assumes "wv_statistics_mode (wc_env c)" "\<forall>(now, data) \<in> set evs. \<not> wq_expired c now"
  shows "wq_handle_all c evs st = Done ([], fold update_stats (wq_seen c evs) st)"
  using assms(2)
proof (induction evs arbitrary: st)
  case Nil
  show ?case by (simp add: wq_seen_def)
next
  case (Cons ev evs)
  obtain now data where ev: "ev = (now, data)" by (cases ev)
  show ?case using Cons assms(1) by (simp add: ev wq_handle_event_def wq_seen_def Let_def)
qed

text \<open>C34: in statistics mode, until the time is over, nothing is printed for any events, and the statistics then hold exactly the numbers
  of whole events of other processes by type, the sum of their positive queue delays and execution times modulo two to the power
  of 64, and the least and the greatest of them.\<close>

theorem workqueue_stats_exact:
  assumes "wv_statistics_mode (wc_env c)" "\<forall>(now, data) \<in> set evs. \<not> wq_expired c now"
  shows "wq_handle_all c evs wq_stats0 = Done ([], stats_of (wq_seen c evs))"
  using wq_handle_all_stats [OF assms] by (simp add: stats_of_fold)

definition ex_wq_ctx :: wq_ctx where
  "ex_wq_ctx = \<lparr>wc_texts = \<lparr>wx_hms = (\<lambda>s. []), wx_div2 = (\<lambda>a b. []), wx_elapsed = (\<lambda>e. []), wx_rate = (\<lambda>n e. []), wx_kallsyms = None\<rparr>,
     wc_env = wq_env0\<lparr>wv_statistics_mode := True\<rparr>, wc_self = 7, wc_start = 0\<rparr>"

theorem workqueue_stats_exact_witness:
  "\<exists>st. wq_handle_all ex_wq_ctx [(5, replicate 96 0), (6, [])] wq_stats0 = Done ([], st) \<and> wq_total_events st = 1 \<and> ws_count (wq_queue st) = 1"
proof -
  have mode: "wv_statistics_mode (wc_env ex_wq_ctx)" by (simp add: ex_wq_ctx_def)
  have time: "\<forall>(now, data) \<in> set [(5, replicate 96 0), (6, [])]. \<not> wq_expired ex_wq_ctx now"
    by (simp add: wq_expired_def ex_wq_ctx_def wq_env0_def)
  have zero: "le_nat (replicate n 0) = 0" for n by (induction n) simp_all
  have "wq_seen ex_wq_ctx [(5, replicate 96 0), (6, [])] = [wq_event_of (replicate 96 0)]"
    by (simp add: wq_seen_def wq_event_of_def ex_wq_ctx_def u32_at_def bytes_at_def zero min_def)
  moreover have "we_event_type (wq_event_of (replicate 96 0)) = 0" by (simp add: wq_event_of_def u8_at_def bytes_at_def zero)
  ultimately show ?thesis using workqueue_stats_exact [OF mode time] by (simp add: stats_of_def number_def)
qed

subsection \<open>The end of a run\<close>

text \<open>A run with a duration is killed when its time is over: the summary that \<open>-s -d 10\<close> promises is never printed.\<close>

lemma wq_loop_killed:
  assumes "\<forall>t \<in> set ts. \<not> wt_exiting t \<and> wt_wait t = Inr [] \<and> \<not> wt_exiting_after t" "\<not> wt_exiting t" "wq_expired c (wt_now t)"
  shows "wq_loop c (ts @ t # rest) err st = Aborted"
  using assms(1)
proof (induction ts)
  case Nil
  then show ?case using assms(2,3) by simp
next
  case (Cons u us)
  then show ?case by (cases "wq_expired c (wt_now u)") simp_all
qed

text \<open>An item that ends without having started makes the summary divide by zero.\<close>

lemma end_without_start_faults:
  assumes "we_event_type e = WQ_EVENT_END" "we_delay_ns e > 0"
  shows "print_statistics x elapsed (fold update_stats [e] wq_stats0) = Fault"
  using assms unfolding stats_of_fold
  by (simp add: print_statistics_def stats_of_def delays_def number_def Let_def)

text \<open>When the filter cannot be stored the standard input is closed twice and the status is 0.\<close>

lemma wq_filter_failure:
  assumes "opt_fold wq_case (wy_opts sys) wq_env0 = Inr v" "wy_root sys" "wy_open sys" "wy_load sys = 0" "wy_attach sys = 0" "\<not> wy_update sys"
  shows "wq_main sys = Done (0, [0, 0], None, [])"
  using assms by (simp add: wq_main_def Let_def)

text \<open>Events of the tool itself change nothing, and a record of another type is looked up past the end of the names.\<close>

lemma wq_ignores_itself:
  "\<not> wq_expired c now \<Longrightarrow> 96 \<le> length data \<Longrightarrow> we_pid (wq_event_of data) = wc_self c \<Longrightarrow> wq_handle_event c (now, data) st = Done ([], st)"
  by (simp add: wq_handle_event_def Let_def)

lemma wq_unknown_type_faults:
  "\<not> wq_expired c now \<Longrightarrow> 96 \<le> length data \<Longrightarrow> we_pid (wq_event_of data) \<noteq> wc_self c \<Longrightarrow> \<not> wv_statistics_mode (wc_env c) \<Longrightarrow>
     4 \<le> unat (we_event_type (wq_event_of data)) \<Longrightarrow> wq_handle_event c (now, data) st = Fault"
  by (simp add: wq_handle_event_def event_names_def Let_def)

text \<open>The filter holds what the options say, with names that fit their fields.\<close>

lemma wq_filter_names: "length (wf_target_workqueue (wq_setup_filters v)) \<le> 31" "length (wf_target_function (wq_setup_filters v)) \<le> 63"
  by (simp_all add: wq_setup_filters_def split: option.split)

text \<open>A signal that arrives after ten full reads ends the program with status 1.\<close>

lemma wq_full_read_status:
  assumes "\<not> wt_exiting t" "\<not> wq_expired c (wt_now t)" "wt_wait t = Inr [(False, RingReady (replicate 10 (False, 1, [])))]" "\<not> wt_exiting_after t" "wt_exiting u"
  shows "wq_loop c [t, u] err st = Done ([], 1, st)"
  using assms by (simp add: numeral_eq_Suc)

end
