(* ===== verification/Poll_Loop.thy ===== *)
theory Poll_Loop
  imports C_Format Tc_Common
begin

text \<open>
  The loop over \<open>ring_buffer__poll\<close> in the main thread of several tools, with a handler that changes some state. A turn is the
  flag, the result of the poll and the events it hands over.
\<close>

text \<open>Texts with commas between them.\<close>

fun join_comma :: "string list \<Rightarrow> string" where
  "join_comma [] = []"
| "join_comma [s] = s"
| "join_comma (s # ss) = s @ '','' @ join_comma ss"

type_synonym 'e poll_turn = "bool \<times> int \<times> 'e list"

text \<open>
  The loop ends when the flag is set or a poll fails, and gives the last result. Whether an interrupted poll counts as a failure
  is left to the caller.
\<close>

fun poll_run :: "('e \<Rightarrow> 's \<Rightarrow> 's) \<Rightarrow> 'e poll_turn list \<Rightarrow> int \<Rightarrow> 's \<Rightarrow> (int \<times> 's) outcome" where
  "poll_run h [] err s = Blocked"
| "poll_run h ((exiting, res, evs) # turns) err s =
     (if exiting then Done (err, s)
      else let s' = fold h evs s in if res < 0 then Done (res, s') else poll_run h turns res s')"

text \<open>The events of some turns.\<close>

definition polled :: "'e poll_turn list \<Rightarrow> 'e list" where
  "polled turns = concat (map (\<lambda>(x, res, evs). evs) turns)"

definition going_on :: "'e poll_turn list \<Rightarrow> bool" where
  "going_on turns \<longleftrightarrow> (\<forall>(x, res, evs) \<in> set turns. \<not> x \<and> 0 \<le> res)"

lemma polled_simps [simp]: "polled [] = []" "polled ((x, res, evs) # turns) = evs @ polled turns"
  by (simp_all add: polled_def)

lemma going_on_simps [simp]: "going_on []" "going_on ((x, res, evs) # turns) \<longleftrightarrow> \<not> x \<and> 0 \<le> res \<and> going_on turns"
  by (auto simp: going_on_def)

text \<open>A handler that only prints.\<close>

lemma fold_append: "fold (\<lambda>e out. out @ f e) es out = out @ concat (map f es)"
  by (induction es arbitrary: out) simp_all

text \<open>An interrupted or failed poll: its events are handled as well.\<close>

lemma poll_run_failed:
  assumes "going_on turns" "res < 0"
  shows "poll_run h (turns @ (False, res, evs) # rest) err s = Done (res, fold h (polled turns @ evs) s)"
  using assms(1)
proof (induction turns arbitrary: err s)
  case Nil
  then show ?case using assms(2) by (simp add: Let_def)
next
  case (Cons t ts)
  obtain x r es where t: "t = (x, r, es)" by (cases t)
  show ?case using Cons by (simp add: t Let_def)
qed

text \<open>The flag: what was polled before it is handled, and the last result stays.\<close>

lemma poll_run_flagged:
  assumes "going_on turns"
  shows "poll_run h (turns @ (True, q) # rest) err s = Done (if turns = [] then err else fst (snd (last turns)), fold h (polled turns) s)"
  using assms
proof (induction turns arbitrary: err s)
  case Nil
  then show ?case by (cases q) simp
next
  case (Cons t ts)
  obtain x r es where t: "t = (x, r, es)" by (cases t)
  show ?case using Cons by (simp add: t Let_def)
qed

section \<open>With a limit\<close>

text \<open>
  The loop that looks at the time after every poll: a turn also has the seconds since the start. An interrupted poll is a regular
  end.
\<close>

fun poll_for :: "int option \<Rightarrow> ('e \<Rightarrow> 's \<Rightarrow> 's) \<Rightarrow> (bool \<times> int \<times> 'e list \<times> int) list \<Rightarrow> int \<Rightarrow> 's \<Rightarrow> (int \<times> 's) outcome" where
  "poll_for limit h [] err s = Blocked"
| "poll_for limit h ((exiting, res, evs, elapsed) # turns) err s =
     (if exiting then Done (err, s)
      else let s' = fold h evs s
           in if res = - EINTR then Done (0, s')
              else if res < 0 then Done (res, s')
              else if (case limit of None \<Rightarrow> False | Some d \<Rightarrow> elapsed \<ge> d) then Done (res, s')
              else poll_for limit h turns res s')"

definition polled_for :: "(bool \<times> int \<times> 'e list \<times> int) list \<Rightarrow> 'e list" where
  "polled_for turns = concat (map (\<lambda>(x, res, evs, el). evs) turns)"

text \<open>With a limit the loop ends with the first poll at or after it, with all events of the polls up to then.\<close>

lemma poll_for_limit:
  assumes "\<forall>(x, res, evs, el) \<in> set turns. \<not> x \<and> 0 \<le> res \<and> el < d" "0 \<le> res'" "d \<le> el'"
  shows "poll_for (Some d) h (turns @ (False, res', evs', el') # rest) err s = Done (res', fold h (polled_for turns @ evs') s)"
  using assms(1)
proof (induction turns arbitrary: err s)
  case Nil
  then show ?case using assms(2,3) by (simp add: Let_def polled_for_def)
next
  case (Cons t ts)
  obtain x r evs el where t: "t = (x, r, evs, el)" by (cases t)
  show ?case using Cons by (simp add: t Let_def polled_for_def)
qed

text \<open>An interrupt ends it with result 0.\<close>

lemma poll_for_interrupt:
  assumes "\<forall>(x, res, evs, el) \<in> set turns. \<not> x \<and> 0 \<le> res \<and> (\<forall>d. limit = Some d \<longrightarrow> el < d)"
  shows "poll_for limit h (turns @ (False, - EINTR, evs', el') # rest) err s = Done (0, fold h (polled_for turns @ evs') s)"
  using assms
proof (induction turns arbitrary: err s)
  case Nil
  then show ?case by (simp add: Let_def polled_for_def)
next
  case (Cons t ts)
  obtain x r evs el where t: "t = (x, r, evs, el)" by (cases t)
  show ?case using Cons by (cases limit) (simp_all add: t Let_def polled_for_def)
qed

section \<open>Parts of texts\<close>

text \<open>\<open>strstr\<close> finds a text wherever it is.\<close>

fun str_in :: "string \<Rightarrow> string \<Rightarrow> bool" where
  "str_in n [] = (n = [])"
| "str_in n (c # h) = (take (length n) (c # h) = n \<or> str_in n h)"

lemma str_in_iff: "str_in n h \<longleftrightarrow> (\<exists>a b. h = a @ n @ b)"
proof (induction h)
  case Nil
  show ?case by auto
next
  case (Cons c h)
  have "take (length n) (c # h) = n \<longleftrightarrow> (\<exists>b. c # h = n @ b)" by (metis append_take_drop_id append_eq_conv_conj)
  moreover have "(\<exists>a b. c # h = a @ n @ b) \<longleftrightarrow> (\<exists>b. c # h = n @ b) \<or> (\<exists>a b. h = a @ n @ b)"
    by (metis append_Cons append_Nil list.sel(3) neq_Nil_conv)
  ultimately show ?case using Cons by simp
qed

end
