(* ===== verification/Pagefault.thy ===== *)
theory Pagefault
  imports Poll_Loop
begin

text \<open>\<open>observe/pagefault.cpp\<close>: page faults. Options, the text of a fault and of its stack, and \<open>main\<close>.\<close>

record pf_env =
  pf_pid :: int
  pf_user :: bool
  pf_kernel :: bool
  pf_show_stack :: bool
  pf_show_ts :: bool

definition pf_env0 :: pf_env where
  "pf_env0 = \<lparr>pf_pid = 0, pf_user = False, pf_kernel = False, pf_show_stack = False, pf_show_ts = False\<rparr>"

definition pf_case :: "char \<Rightarrow> string \<Rightarrow> pf_env \<Rightarrow> int + pf_env" where
  "pf_case opt optarg v =
     (if opt = CHR ''p'' then Inr (v\<lparr>pf_pid := atoi optarg\<rparr>)
      else if opt = CHR ''u'' then Inr (v\<lparr>pf_user := True\<rparr>)
      else if opt = CHR ''k'' then Inr (v\<lparr>pf_kernel := True\<rparr>)
      else if opt = CHR ''s'' then Inr (v\<lparr>pf_show_stack := True\<rparr>)
      else if opt = CHR ''t'' then Inr (v\<lparr>pf_show_ts := True\<rparr>)
      else Inl 0)"

record page_fault =
  fa_pid :: int
  fa_tid :: int
  fa_comm :: string
  fa_stack_id :: int
  fa_timestamp :: u64
  fa_address :: u64
  fa_ip :: u64
  fa_error_code :: u64

definition page_fault_of :: "bytes \<Rightarrow> page_fault" where
  "page_fault_of b =
     \<lparr>fa_pid = sint (u32_at b 0), fa_tid = sint (u32_at b 4), fa_comm = c_text (map byte_char (bytes_at b 8 16)), fa_stack_id = sint (u32_at b 24),
      fa_timestamp = u64_at b 32, fa_address = u64_at b 40, fa_ip = u64_at b 48, fa_error_code = u64_at b 56\<rparr>"

text \<open>\<open>print_stack\<close>: \<open>stacks\<close> is the map of the kernel, whose entries have 128 addresses.\<close>

definition pf_print_stack :: "(int \<Rightarrow> u64 list option) \<Rightarrow> int \<Rightarrow> string list" where
  "pf_print_stack stacks stack_id =
     (if stack_id < 0 then []
      else case stacks stack_id of
        None \<Rightarrow> [''    [Failed to get stack trace]'' @ [NL]]
      | Some ips \<Rightarrow> (''    User stack:'' @ [NL]) # map (\<lambda>ip. ''        0x'' @ show_hex (unat ip) @ [NL]) (takeWhile (\<lambda>ip. ip \<noteq> 0) (take 128 ips)))"

definition pf_line :: "bool \<Rightarrow> page_fault \<Rightarrow> string" where
  "pf_line show_ts e =
     ''PID:'' @ show_int (fa_pid e) @ '' TID:'' @ show_int (fa_tid e) @ '' COMM:'' @ fa_comm e @ '' ADDR:0x'' @ show_hex (unat (fa_address e))
     @ '' IP:0x'' @ show_hex (unat (fa_ip e)) @ '' ERR:0x'' @ show_hex (unat (fa_error_code e))
     @ (if show_ts then '' TS:'' @ fmt_u (fa_timestamp e) else []) @ [NL]"

definition pf_handle_event :: "(int \<Rightarrow> u64 list option) \<Rightarrow> pf_env \<Rightarrow> page_fault \<Rightarrow> string list" where
  "pf_handle_event stacks v e =
     (if pf_pid v \<noteq> 0 \<and> fa_pid e \<noteq> pf_pid v then []
      else pf_line (pf_show_ts v) e # (if pf_show_stack v then pf_print_stack stacks (fa_stack_id e) else []))"

record pf_sys =
  pu_opts :: "(char \<times> string) list"
  pu_open :: bool
  pu_load :: int
  pu_attach :: int
  pu_ring :: bool
  pu_stacks :: "int \<Rightarrow> u64 list option"
  pu_turns :: "page_fault poll_turn list"

text \<open>
  The rule is stored before the maps exist, and the links are cleared before they are made: neither has an effect, so they do not
  occur here. The status and the output.
\<close>

definition pagefault_main :: "pf_sys \<Rightarrow> (int \<times> string list) outcome" where
  "pagefault_main sys =
     (case opt_fold pf_case (pu_opts sys) pf_env0 of
        Inl c \<Rightarrow> Done (c, [])
      | Inr v0 \<Rightarrow>
          (let v = (if \<not> pf_user v0 \<and> \<not> pf_kernel v0 then v0\<lparr>pf_user := True, pf_kernel := True\<rparr> else v0);
               status = (\<lambda>err :: int. if err < 0 then 1 else 0 :: int)
           in if \<not> pu_open sys then Done (1, [])
              else if pu_load sys \<noteq> 0 then Done (status (pu_load sys), [])
              else if pu_attach sys \<noteq> 0 then Done (status (pu_attach sys), [])
              else if \<not> pu_ring sys then Done (status 0, [])
              else bind_outcome (poll_run (\<lambda>e out. out @ pf_handle_event (pu_stacks sys) v e) (pu_turns sys) 0 []) (\<lambda>(err, out).
                Done (status err, [''Tracing page faults... Hit Ctrl-C to exit.'' @ [NL]] @ out))))"

section \<open>What holds\<close>

text \<open>With a process id, exactly the faults of that process are printed, in order.\<close>

definition pf_selected :: "pf_env \<Rightarrow> page_fault list \<Rightarrow> page_fault list" where
  "pf_selected v es = filter (\<lambda>e. pf_pid v = 0 \<or> fa_pid e = pf_pid v) es"

lemma pf_handled: "\<not> pf_show_stack v \<Longrightarrow> concat (map (pf_handle_event stacks v) es) = map (pf_line (pf_show_ts v)) (pf_selected v es)"
  by (induction es) (simp_all add: pf_handle_event_def pf_selected_def)

text \<open>An interrupt ends the program with status 1 after all faults were printed.\<close>

lemma pagefault_interrupted:
  assumes "opt_fold pf_case (pu_opts sys) pf_env0 = Inr v" "pu_open sys" "pu_load sys = 0" "pu_attach sys = 0" "pu_ring sys" "\<not> pf_show_stack v"
    "pu_turns sys = turns @ (False, - EINTR, evs) # rest" "going_on turns"
  shows "pagefault_main sys = Done (1, (''Tracing page faults... Hit Ctrl-C to exit.'' @ [NL]) # map (pf_line (pf_show_ts v)) (pf_selected v (polled turns @ evs)))"
proof -
  obtain w where w: "w = (if \<not> pf_user v \<and> \<not> pf_kernel v then v\<lparr>pf_user := True, pf_kernel := True\<rparr> else v)" by simp
  have same: "pf_show_ts w = pf_show_ts v" "\<not> pf_show_stack w" "pf_selected w = pf_selected v" using assms(6) by (auto simp: w pf_selected_def)
  have "poll_run (\<lambda>e out. out @ pf_handle_event (pu_stacks sys) w e) (pu_turns sys) 0 []
      = Done (- EINTR, concat (map (pf_handle_event (pu_stacks sys) w) (polled turns @ evs)))"
    unfolding assms(7) by (simp add: poll_run_failed [OF assms(8)] fold_append)
  then have "poll_run (\<lambda>e out. out @ pf_handle_event (pu_stacks sys) w e) (pu_turns sys) 0 []
      = Done (- EINTR, map (pf_line (pf_show_ts v)) (pf_selected v (polled turns @ evs)))"
    by (simp only: pf_handled [OF same(2)] same)
  then show ?thesis using assms(1-5) by (simp add: pagefault_main_def Let_def w [symmetric])
qed

text \<open>The choice between user and kernel faults changes nothing.\<close>

lemma pf_sides_without_effect: "pf_handle_event stacks (v\<lparr>pf_user := a, pf_kernel := b\<rparr>) = pf_handle_event stacks v"
  by (intro ext) (simp add: pf_handle_event_def)

lemma pf_no_ring_status: "pu_opts sys = [] \<Longrightarrow> pu_open sys \<Longrightarrow> pu_load sys = 0 \<Longrightarrow> pu_attach sys = 0 \<Longrightarrow> \<not> pu_ring sys \<Longrightarrow> pagefault_main sys = Done (0, [])"
  by (simp add: pagefault_main_def Let_def)

end
