(* ===== verification/Hrtimer.thy ===== *)
theory Hrtimer
  imports Poll_Loop
begin

text \<open>
  \<open>observe/hrtimer.cpp\<close>: changes the time of sleeping calls. Options, the settings handed to the BPF program, and \<open>main\<close> with its
  descriptor.
\<close>

record hr_env =
  hv_pid :: int
  hv_relative_time :: bool
  hv_milliseconds :: bool
  hv_targ_time :: int
  hv_verbose :: bool
  hv_cgroupspath :: "string option"

definition hr_env0 :: hr_env where
  "hr_env0 = \<lparr>hv_pid = 0, hv_relative_time = False, hv_milliseconds = False, hv_targ_time = 0, hv_verbose = False, hv_cgroupspath = None\<rparr>"

datatype hr_key = HrOpt char string | HrArg string

text \<open>
  \<open>parse_arg\<close>. A number out of range, \<open>-h\<close> and an unknown key end the program with a status of argp, here \<open>Inl\<close>: 0 for the help, 64
  (\<open>EX_USAGE\<close>) otherwise.
\<close>

definition hr_case :: "hr_key \<Rightarrow> hr_env \<Rightarrow> int + hr_env" where
  "hr_case k v =
     (case k of
        HrArg arg \<Rightarrow> (case strtol10 arg of (n, r, erange) \<Rightarrow> if erange then Inl 64 else Inr (v\<lparr>hv_targ_time := to_int32 n\<rparr>))
      | HrOpt key arg \<Rightarrow>
          if key = CHR ''h'' then Inl 0
          else if key = CHR ''v'' then Inr (v\<lparr>hv_verbose := True\<rparr>)
          else if key = CHR ''m'' then Inr (v\<lparr>hv_milliseconds := True\<rparr>)
          else if key = CHR ''r'' then Inr (v\<lparr>hv_relative_time := True\<rparr>)
          else if key = CHR ''p'' then (case strtol10 arg of (n, r, erange) \<Rightarrow> if erange then Inl 64 else Inr (v\<lparr>hv_pid := to_int32 n\<rparr>))
          else if key = CHR ''c'' then Inr (v\<lparr>hv_cgroupspath := Some arg\<rparr>)
          else Inl 64)"

fun hr_parse :: "hr_key list \<Rightarrow> hr_env \<Rightarrow> int + hr_env" where
  "hr_parse [] v = Inr v"
| "hr_parse (k # ks) v = (case hr_case k v of Inl c \<Rightarrow> Inl c | Inr v' \<Rightarrow> hr_parse ks v')"

text \<open>What is written to the read-only data of the program.\<close>

record hr_rodata =
  ro_targ_unit_ms :: bool
  ro_targ_relative_time :: bool
  ro_targ_tgid :: int
  ro_filter_cg :: bool
  ro_targ_time :: int

definition hr_rodata_of :: "hr_env \<Rightarrow> hr_rodata" where
  "hr_rodata_of v = \<lparr>ro_targ_unit_ms = hv_milliseconds v, ro_targ_relative_time = hv_relative_time v, ro_targ_tgid = hv_pid v,
     ro_filter_cg = (hv_cgroupspath v \<noteq> None), ro_targ_time = hv_targ_time v\<rparr>"

datatype hr_res = HrSkel | HrRing | HrCgroup

record hr_sys =
  hy_args :: "hr_key list"
  hy_open :: bool
  hy_load :: int
  hy_cgroup :: "string \<Rightarrow> bool"
  hy_update :: bool
  hy_attach :: int
  hy_signal :: bool
  hy_ring :: bool
  hy_turns :: "unit poll_turn list"

text \<open>The status, what is taken and given back, and the settings. The descriptor of the cgroup is never closed.\<close>

definition hrtimer_main :: "hr_sys \<Rightarrow> (int \<times> hr_res res_event list \<times> hr_rodata option) outcome" where
  "hrtimer_main sys =
     (if hy_args sys = [] then Done (1, [], None)
      else case hr_parse (hy_args sys) hr_env0 of
        Inl c \<Rightarrow> Done (c, [], None)
      | Inr v \<Rightarrow>
          if \<not> hy_open sys then Done (1, [], None)
          else
            (let ro = Some (hr_rodata_of v);
                 cg = (case hv_cgroupspath v of None \<Rightarrow> [] | Some p \<Rightarrow> if hy_cgroup sys p then [Acq HrCgroup] else [])
             in if hy_load sys \<noteq> 0 then Done (- hy_load sys, [Acq HrSkel, Rel HrSkel], ro)
                else if (case hv_cgroupspath v of None \<Rightarrow> False | Some p \<Rightarrow> \<not> hy_cgroup sys p \<or> \<not> hy_update sys)
                  then Done (0, Acq HrSkel # cg @ [Rel HrSkel], ro)
                else if hy_attach sys \<noteq> 0 then Done (- hy_attach sys, Acq HrSkel # cg @ [Rel HrSkel], ro)
                else if \<not> hy_signal sys then Done (0, Acq HrSkel # cg @ [Rel HrSkel], ro)
                else if \<not> hy_ring sys then Done (1, Acq HrSkel # cg @ [Rel HrSkel], ro)
                else bind_outcome (poll_run (\<lambda>e. Suc) (hy_turns sys) 0 (0 :: nat)) (\<lambda>(err, n).
                  Done (if err = - EINTR then 0 else - err, Acq HrSkel # cg @ [Acq HrRing, Rel HrRing, Rel HrSkel], ro))))"

section \<open>What holds\<close>

text \<open>The program and the ring are given back on every path; the cgroup is not.\<close>

lemma hrtimer_balance:
  assumes "hrtimer_main sys = Done (c, tr, ro)"
  shows "balance HrSkel tr = 0" "balance HrRing tr = 0"
  using assms by (auto simp: hrtimer_main_def bind_outcome_def Let_def split: if_splits sum.splits option.splits outcome.splits)

lemma hrtimer_leaks_cgroup:
  assumes "hrtimer_main sys = Done (c, tr, Some ro)" "ro_filter_cg ro" "\<And>p. hy_cgroup sys p" "hy_load sys = 0"
  shows "balance HrCgroup tr = 1"
  using assms by (auto simp: hrtimer_main_def hr_rodata_of_def bind_outcome_def Let_def split: if_splits sum.splits option.splits outcome.splits)

text \<open>An interrupted poll gives status 0; the flag after a poll with events gives the negative number of events.\<close>

lemma hrtimer_status:
  assumes "hr_parse (hy_args sys) hr_env0 = Inr v" "hy_args sys \<noteq> []" "hy_open sys" "hy_load sys = 0" "hv_cgroupspath v = None" "hy_attach sys = 0" "hy_signal sys" "hy_ring sys"
  shows "going_on turns \<Longrightarrow> hy_turns sys = turns @ (False, - EINTR, evs) # rest \<Longrightarrow> \<exists>tr ro. hrtimer_main sys = Done (0, tr, ro)"
    and "0 \<le> n \<Longrightarrow> hy_turns sys = [(False, n, evs), (True, q)] \<Longrightarrow> \<exists>tr ro. hrtimer_main sys = Done (- n, tr, ro)"
proof -
  show "\<exists>tr ro. hrtimer_main sys = Done (0, tr, ro)" if "going_on turns" "hy_turns sys = turns @ (False, - EINTR, evs) # rest"
    using assms poll_run_failed [OF that(1), of "- EINTR" "\<lambda>e. Suc" evs rest 0 0] that(2) by (simp add: hrtimer_main_def Let_def)
  show "\<exists>tr ro. hrtimer_main sys = Done (- n, tr, ro)" if "0 \<le> n" "hy_turns sys = [(False, n, evs), (True, q)]"
    using assms that by (cases q) (simp add: hrtimer_main_def Let_def)
qed

text \<open>A cgroup that cannot be opened or stored ends the program with status 0.\<close>

lemma hrtimer_cgroup_silent:
  "hr_parse (hy_args sys) hr_env0 = Inr v \<Longrightarrow> hy_args sys \<noteq> [] \<Longrightarrow> hy_open sys \<Longrightarrow> hy_load sys = 0 \<Longrightarrow> hv_cgroupspath v = Some p \<Longrightarrow> \<not> hy_cgroup sys p
     \<Longrightarrow> \<exists>tr ro. hrtimer_main sys = Done (0, tr, ro)"
  by (simp add: hrtimer_main_def Let_def)

end
