(* ===== verification/Rcu_Insight.thy ===== *)
theory Rcu_Insight
  imports Poll_Loop
begin

text \<open>
  \<open>observe/rcu-insight.cpp\<close>: events of read-copy-update. Options and filter, the text of events and their counts, the loop with a
  time limit, and \<open>main\<close>. The local time and the text of the rate are parameters.
\<close>

record rc_env =
  rv_verbose :: bool
  rv_interval :: int
  rv_times :: int
  rv_timestamp :: bool
  rv_pid :: int
  rv_cpu :: int
  rv_utilization_only :: bool
  rv_stall_only :: bool

abbreviation NO_LIMIT :: int where "NO_LIMIT \<equiv> 99999999"

definition rc_env0 :: rc_env where
  "rc_env0 = \<lparr>rv_verbose = False, rv_interval = 1, rv_times = NO_LIMIT, rv_timestamp = False, rv_pid = 0, rv_cpu = - 1,
     rv_utilization_only = False, rv_stall_only = False\<rparr>"

text \<open>\<open>parse_opt\<close>; an unknown key is reported by argp with \<open>EX_USAGE\<close>.\<close>

definition rc_case :: "char \<Rightarrow> string \<Rightarrow> rc_env \<Rightarrow> int + rc_env" where
  "rc_case key arg v =
     (let n = fst (strtol10 arg)
      in if key = CHR ''v'' then Inr (v\<lparr>rv_verbose := True\<rparr>)
         else if key = CHR ''i'' then Inr (v\<lparr>rv_interval := n\<rparr>)
         else if key = CHR ''d'' then Inr (v\<lparr>rv_times := to_int32 n\<rparr>)
         else if key = CHR ''T'' then Inr (v\<lparr>rv_timestamp := True\<rparr>)
         else if key = CHR ''p'' then Inr (v\<lparr>rv_pid := to_int32 n\<rparr>)
         else if key = CHR ''c'' then Inr (v\<lparr>rv_cpu := to_int32 n\<rparr>)
         else if key = CHR ''u'' then Inr (v\<lparr>rv_utilization_only := True\<rparr>)
         else if key = CHR ''s'' then Inr (v\<lparr>rv_stall_only := True\<rparr>)
         else Inl 64)"

record rc_filter =
  rf_enabled :: bool
  rf_target_pid :: u32
  rf_target_cpu :: u32
  rf_monitor_utilization :: bool
  rf_monitor_stall :: bool

definition rc_filter_of :: "rc_env \<Rightarrow> rc_filter" where
  "rc_filter_of v =
     \<lparr>rf_enabled = (rv_pid v \<noteq> 0 \<or> rv_cpu v \<noteq> - 1 \<or> rv_utilization_only v \<or> rv_stall_only v), rf_target_pid = of_int (rv_pid v),
      rf_target_cpu = of_int (rv_cpu v), rf_monitor_utilization = (\<not> rv_stall_only v), rf_monitor_stall = (\<not> rv_utilization_only v)\<rparr>"

section \<open>Events\<close>

record rc_event =
  rc_timestamp :: u64
  rc_pid :: u32
  rc_cpu :: u32
  rc_type :: u8
  rc_name :: string
  rc_msg :: string

text \<open>The name of both kinds of event lies at the same place.\<close>

definition rc_event_of :: "bytes \<Rightarrow> rc_event" where
  "rc_event_of b =
     \<lparr>rc_timestamp = u64_at b 0, rc_pid = u32_at b 8, rc_cpu = u32_at b 12, rc_type = u8_at b 16,
      rc_name = c_text (map byte_char (bytes_at b 17 16)), rc_msg = c_text (map byte_char (bytes_at b 33 64))\<rparr>"

record rc_stats =
  rs_total_events :: u64
  rs_utilization_events :: u64
  rs_stall_events :: u64

definition rc_stats0 :: rc_stats where
  "rc_stats0 = \<lparr>rs_total_events = 0, rs_utilization_events = 0, rs_stall_events = 0\<rparr>"

text \<open>\<open>print_timestamp\<close>; \<open>hms\<close> is the local time of some seconds.\<close>

definition rc_print_timestamp :: "(u64 \<Rightarrow> string) \<Rightarrow> u64 \<Rightarrow> string" where
  "rc_print_timestamp hms ns = hms (ns div 1000000000) @ ''.'' @ zero_pad 3 (fmt_u (ns mod 1000000000 div 1000000))"

definition rc_line :: "(u64 \<Rightarrow> string) \<Rightarrow> rc_env \<Rightarrow> rc_event \<Rightarrow> string" where
  "rc_line hms v e =
     (if rv_timestamp v then pad_right 12 (rc_print_timestamp hms (rc_timestamp e)) @ '' '' else [])
     @ pad_right 8 (fmt_u (rc_pid e)) @ '' '' @ pad_right 4 (fmt_u (rc_cpu e)) @ '' ''
     @ (if rc_type e = 0 then pad_right 13 ''UTILIZATION'' @ '' '' @ rc_name e @ [NL]
        else if rc_type e = 1 then pad_right 13 ''STALL_WARNING'' @ '' rcuname='' @ rc_name e @ '' msg='' @ rc_msg e @ [NL]
        else [])"

definition rc_count :: "rc_event \<Rightarrow> rc_stats \<Rightarrow> rc_stats" where
  "rc_count e st =
     (let st1 = st\<lparr>rs_total_events := rs_total_events st + 1\<rparr>
      in if rc_type e = 0 then st1\<lparr>rs_utilization_events := rs_utilization_events st1 + 1\<rparr>
         else if rc_type e = 1 then st1\<lparr>rs_stall_events := rs_stall_events st1 + 1\<rparr>
         else st1)"

definition rc_handle_event :: "(u64 \<Rightarrow> string) \<Rightarrow> rc_env \<Rightarrow> rc_event \<Rightarrow> string list \<times> rc_stats \<Rightarrow> string list \<times> rc_stats" where
  "rc_handle_event hms v e s = (fst s @ [rc_line hms v e], rc_count e (snd s))"

text \<open>\<open>rate\<close> is \<open>%.2f\<close> of a quotient.\<close>

definition rc_print_stats :: "(u64 \<Rightarrow> u64 \<Rightarrow> string) \<Rightarrow> u64 \<Rightarrow> rc_stats \<Rightarrow> string list" where
  "rc_print_stats rate elapsed st =
     (let d = (if elapsed = 0 then 1 else elapsed)
      in [NL # ''=== RCU Monitoring Statistics ==='' @ [NL], ''Total events: '' @ fmt_u (rs_total_events st) @ [NL],
          ''Utilization events: '' @ fmt_u (rs_utilization_events st) @ [NL], ''Stall warning events: '' @ fmt_u (rs_stall_events st) @ [NL],
          ''Duration: '' @ fmt_u d @ '' seconds'' @ [NL], ''Event rate: '' @ rate (rs_total_events st) d @ '' events/second'' @ [NL]])"

definition rc_header :: "bool \<Rightarrow> string" where
  "rc_header timestamp =
     (if timestamp then pad_right 12 ''TIME'' @ '' '' else [])
     @ pad_right 8 ''PID'' @ '' '' @ pad_right 4 ''CPU'' @ '' '' @ pad_right 13 ''EVENT_TYPE'' @ '' DETAILS'' @ [NL]"

section \<open>The program\<close>

text \<open>The loop, with \<open>env.times\<close> as its limit.\<close>

definition rc_limit :: "rc_env \<Rightarrow> int option" where
  "rc_limit v = (if rv_times v \<noteq> NO_LIMIT then Some (rv_times v) else None)"

record rc_sys =
  ry_opts :: "(char \<times> string) list"
  ry_open :: bool
  ry_load :: int
  ry_attach :: int
  ry_update :: int
  ry_ring :: bool
  ry_hms :: "u64 \<Rightarrow> string"
  ry_rate :: "u64 \<Rightarrow> u64 \<Rightarrow> string"
  ry_turns :: "(bool \<times> int \<times> rc_event list \<times> int) list"
  ry_elapsed :: u64

definition rcu_insight_main :: "rc_sys \<Rightarrow> (int \<times> rc_filter option \<times> string list) outcome" where
  "rcu_insight_main sys =
     (case opt_fold rc_case (ry_opts sys) rc_env0 of
        Inl c \<Rightarrow> Done (c, None, [])
      | Inr v \<Rightarrow>
          (let status = (\<lambda>err :: int. if err < 0 then - err else 0)
           in if rv_utilization_only v \<and> rv_stall_only v then Done (1, None, [])
              else if \<not> ry_open sys then Done (1, None, [])
              else if ry_load sys \<noteq> 0 then Done (status (ry_load sys), None, [])
              else if ry_attach sys \<noteq> 0 then Done (status (ry_attach sys), None, [])
              else if ry_update sys \<noteq> 0 then Done (status (ry_update sys), None, [])
              else if \<not> ry_ring sys then Done (1, Some (rc_filter_of v), [])
              else bind_outcome (poll_for (rc_limit v) (rc_handle_event (ry_hms sys) v) (ry_turns sys) 0 ([], rc_stats0)) (\<lambda>(err, out, st).
                Done (status err, Some (rc_filter_of v), [rc_header (rv_timestamp v)] @ out
                  @ (if rv_verbose v \<or> rs_total_events st > 0 then rc_print_stats (ry_rate sys) (ry_elapsed sys) st else [])))))"

section \<open>What holds\<close>

definition rc_number :: "(rc_event \<Rightarrow> bool) \<Rightarrow> rc_event list \<Rightarrow> u64" where
  "rc_number P es = of_nat (length (filter P es))"

definition rc_stats_of :: "rc_event list \<Rightarrow> rc_stats" where
  "rc_stats_of es = \<lparr>rs_total_events = of_nat (length es), rs_utilization_events = rc_number (\<lambda>e. rc_type e = 0) es,
     rs_stall_events = rc_number (\<lambda>e. rc_type e = 1) es\<rparr>"

lemma rc_counted: "rc_count e (rc_stats_of es) = rc_stats_of (es @ [e])"
  by (simp add: rc_count_def rc_stats_of_def rc_number_def Let_def)

text \<open>Every event gives one line, and the counts are exact.\<close>

lemma rc_events: "fold (rc_handle_event hms v) es (out, rc_stats_of pre) = (out @ map (rc_line hms v) es, rc_stats_of (pre @ es))"
proof (induction es arbitrary: out pre)
  case (Cons e es)
  show ?case using Cons.IH [of "out @ [rc_line hms v e]" "pre @ [e]"] by (simp add: rc_handle_event_def rc_counted)
qed simp

lemma rc_stats0_of: "rc_stats0 = rc_stats_of []"
  by (simp add: rc_stats0_def rc_stats_of_def rc_number_def)

text \<open>With a limit the loop ends with the first poll at or after it, with all events of the polls up to then.\<close>

lemma rc_loop_ends:
  assumes "\<forall>(x, res, evs, el) \<in> set turns. \<not> x \<and> 0 \<le> res \<and> el < rv_times v" "rv_times v \<noteq> NO_LIMIT" "0 \<le> res'" "rv_times v \<le> el'"
  shows "poll_for (rc_limit v) (rc_handle_event hms v) (turns @ (False, res', evs', el') # rest) err ([], rc_stats0)
     = Done (res', map (rc_line hms v) (polled_for turns @ evs'), rc_stats_of (polled_for turns @ evs'))"
  using poll_for_limit [OF assms(1,3,4), of "rc_handle_event hms v"] assms(2) rc_events [of hms v "polled_for turns @ evs'" "[]" "[]"]
  by (simp add: rc_limit_def rc_stats0_of)

text \<open>One kind of event is always monitored; a limit of 99999999 seconds is no limit; the interval has no effect.\<close>

lemma rc_filter_monitors: "\<not> (rv_utilization_only v \<and> rv_stall_only v) \<Longrightarrow> rf_monitor_utilization (rc_filter_of v) \<or> rf_monitor_stall (rc_filter_of v)"
  by (auto simp: rc_filter_of_def)

lemma rc_interval_without_effect:
  "rc_handle_event hms (v\<lparr>rv_interval := i\<rparr>) = rc_handle_event hms v" "rc_limit (v\<lparr>rv_interval := i\<rparr>) = rc_limit v"
  "rc_filter_of (v\<lparr>rv_interval := i\<rparr>) = rc_filter_of v"
  by (intro ext, simp add: rc_handle_event_def rc_line_def) (simp_all add: rc_limit_def rc_filter_of_def)

text \<open>An event of another type leaves its line open.\<close>

lemma rc_unknown_type: "2 \<le> unat (rc_type e) \<Longrightarrow> \<not> rv_timestamp v \<Longrightarrow>
    rc_line hms v e = pad_right 8 (fmt_u (rc_pid e)) @ '' '' @ pad_right 4 (fmt_u (rc_cpu e)) @ '' ''"
  by (auto simp: rc_line_def)

end
