(* ===== verification/Sched_Snoop.thy ===== *)
theory Sched_Snoop
  imports Poll_Loop Ps
begin

unbundle bit_operations_syntax

text \<open>
  \<open>observe/sched-snoop.cpp\<close>: events of the scheduler. The names of events and states, the filter by name, the text of every kind
  of event, the list of events on the command line, and \<open>main\<close>.
\<close>

section \<open>Names\<close>

definition sched_events :: "(nat \<times> string \<times> string) list" where
  "sched_events =
     [(1, ''SWITCH'', ''switch''), (2, ''WAKEUP'', ''wakeup''), (12, ''WAKEUP_NEW'', ''wakeup_new''), (3, ''MIGRATE'', ''migrate''), (4, ''FORK'', ''fork''),
      (5, ''EXIT'', ''exit''), (6, ''EXEC'', ''exec''), (7, ''STAT_RT'', ''stat_runtime''), (8, ''STAT_WAIT'', ''stat_wait''), (9, ''STAT_SLEEP'', ''stat_sleep''),
      (10, ''STAT_BLOCK'', ''stat_blocked''), (11, ''STAT_IOWAIT'', ''stat_iowait'')]"

definition event_type_str :: "u32 \<Rightarrow> string" where
  "event_type_str ty = (case map_of (map (\<lambda>(n, s, o'). (n, s)) sched_events) (unat ty) of Some s \<Rightarrow> s | None \<Rightarrow> ''UNKNOWN'')"

definition state_to_str :: "u64 \<Rightarrow> string" where
  "state_to_str state =
     (if state = 0x0000 then ''R'' else if state = 0x0001 then ''S'' else if state = 0x0002 then ''D'' else if state = 0x0004 then ''T''
      else if state = 0x0008 then ''t'' else if state = 0x0010 then ''X'' else if state = 0x0020 then ''Z'' else if state = 0x0040 then ''P''
      else if state = 0x0080 then ''I'' else ''?'')"

section \<open>Options\<close>

record ss_rule =
  sr_target_pid :: u32
  sr_target_cpu :: int
  sr_target_comm :: string
  sr_event_mask :: u32

definition ss_rule_default :: ss_rule where
  "ss_rule_default = \<lparr>sr_target_pid = 0, sr_target_cpu = - 1, sr_target_comm = [], sr_event_mask = 0x3F\<rparr>"

text \<open>\<open>strtok\<close> with a comma: the pieces that are not empty.\<close>

fun strtok_from :: "string \<Rightarrow> string \<Rightarrow> string list" where
  "strtok_from cur [] = (if cur = [] then [] else [cur])"
| "strtok_from cur (c # s) =
     (if c = CHR '','' then (if cur = [] then strtok_from [] s else cur # strtok_from [] s) else strtok_from (cur @ [c]) s)"

fun parse_events_from :: "string list \<Rightarrow> u32 \<Rightarrow> u32" where
  "parse_events_from [] m = m"
| "parse_events_from (token # ts) m =
     (case map_of (map (\<lambda>(n, s, o'). (o', n)) sched_events) token of
        Some n \<Rightarrow> parse_events_from ts (m OR push_bit n 1)
      | None \<Rightarrow> if token = ''all'' then parse_events_from ts 0xFFFF else 0)"

definition parse_events :: "string \<Rightarrow> u32" where
  "parse_events events_str = parse_events_from (strtok_from [] events_str) 0"

definition ss_case :: "char \<Rightarrow> string \<Rightarrow> ss_rule \<Rightarrow> int + ss_rule" where
  "ss_case opt optarg r =
     (if opt = CHR ''p'' then Inr (r\<lparr>sr_target_pid := of_int (atoi optarg)\<rparr>)
      else if opt = CHR ''c'' then Inr (r\<lparr>sr_target_cpu := atoi optarg\<rparr>)
      else if opt = CHR ''C'' then Inr (r\<lparr>sr_target_comm := take 15 (c_text optarg)\<rparr>)
      else if opt = CHR ''e'' then (let m = parse_events (c_text optarg) in if m = 0 then Inl 1 else Inr (r\<lparr>sr_event_mask := m\<rparr>))
      else if opt = CHR ''h'' then Inl 0
      else Inl 1)"

section \<open>Events\<close>

text \<open>The part of the record that depends on its type is a union; each kind reads its own fields.\<close>

definition name_at :: "bytes \<Rightarrow> nat \<Rightarrow> string" where
  "name_at b off = c_text (map byte_char (bytes_at b off 16))"

definition comm_matches :: "string \<Rightarrow> bytes \<Rightarrow> bool" where
  "comm_matches target b =
     (let ty = u32_at b 12
      in str_in target (name_at b 16)
         \<or> ty = 1 \<and> (str_in target (name_at b 40) \<or> str_in target (name_at b 72))
         \<or> ty = 4 \<and> (str_in target (name_at b 40) \<or> str_in target (name_at b 60)))"

text \<open>\<open>%03d\<close>.\<close>

definition fmt_03d :: "u32 \<Rightarrow> string" where
  "fmt_03d w = (if sint w < 0 then CHR ''-'' # zero_pad 2 (show_nat (nat (- sint w))) else zero_pad 3 (fmt_d w))"

definition ss_task :: "string \<Rightarrow> u32 \<Rightarrow> u32 \<Rightarrow> string" where
  "ss_task comm pid prio = pad_left 16 comm @ '':'' @ pad_right 7 (fmt_d pid) @ '' ['' @ pad_left 3 (fmt_d prio) @ '']''"

definition ss_detail :: "bytes \<Rightarrow> string" where
  "ss_detail b =
     (let ty = u32_at b 12; comm = name_at b 16; self = ss_task comm (u32_at b 32) (u32_at b 36); ns = (\<lambda>t off. '' '' @ t @ fmt_u (u64_at b off) @ '' ns'')
      in if ty = 1 then ss_task (name_at b 40) (u32_at b 56) (u32_at b 60) @ '' '' @ state_to_str (u64_at b 64) @ '' ==> '' @ ss_task (name_at b 72) (u32_at b 88) (u32_at b 92)
         else if ty = 2 then self @ '' target_cpu='' @ fmt_d (u32_at b 40)
         else if ty = 12 then self @ '' target_cpu='' @ fmt_d (u32_at b 40) @ '' (new)''
         else if ty = 3 then self @ '' '' @ fmt_d (u32_at b 40) @ '' => '' @ fmt_d (u32_at b 44)
         else if ty = 4 then pad_left 16 (name_at b 40) @ '':'' @ pad_right 7 (fmt_d (u32_at b 56)) @ '' => '' @ pad_left 16 (name_at b 60) @ '':'' @ pad_right 7 (fmt_d (u32_at b 76))
         else if ty = 5 then self @ '' exited''
         else if ty = 6 then self @ '' exec: '' @ comm
         else if ty = 7 then self @ ns ''runtime='' 48
         else if ty = 8 then self @ ns ''wait_delay='' 40
         else if ty = 9 then self @ ns ''sleep_delay='' 40
         else if ty = 10 then self @ ns ''blocked_delay='' 40
         else if ty = 11 then self @ ns ''iowait_delay='' 40
         else self @ '' unknown event'')"

definition ss_handle_event :: "ss_rule \<Rightarrow> string \<times> bytes \<Rightarrow> string list" where
  "ss_handle_event r ev =
     (case ev of (ts, b) \<Rightarrow>
        if sr_target_comm r \<noteq> [] \<and> \<not> comm_matches (sr_target_comm r) b then []
        else [pad_right 8 ts @ '' ['' @ fmt_03d (u32_at b 8) @ ''] '' @ pad_right 7 (event_type_str (u32_at b 12)) @ '' '' @ ss_detail b @ [NL]])"

section \<open>The program\<close>

record ss_sys =
  su_opts :: "(char \<times> string) list"
  su_open :: bool
  su_load :: bool
  su_attach :: bool
  su_update :: bool
  su_ring :: bool
  su_polls :: "(int \<times> (string \<times> bytes) list) list"

definition ss_titles :: "string list" where
  "ss_titles =
     [''Tracing scheduler events... Hit Ctrl-C to end.'' @ [NL],
      pad_right 8 ''TIME'' @ '' '' @ pad_right 5 ''CPU'' @ '' '' @ pad_right 7 ''EVENT'' @ '' DETAILS'' @ [NL],
      pad_right 8 ''--------'' @ '' '' @ pad_right 5 ''-----'' @ '' '' @ pad_right 7 ''-------'' @ '' -------'' @ [NL]]"

text \<open>The status, the rule that was stored and the output. Only a failed or interrupted poll ends the loop.\<close>

definition sched_snoop_main :: "ss_sys \<Rightarrow> (int \<times> ss_rule option \<times> string list) outcome" where
  "sched_snoop_main sys =
     (case opt_fold ss_case (su_opts sys) ss_rule_default of
        Inl c \<Rightarrow> Done (c, None, [])
      | Inr r \<Rightarrow>
          if \<not> su_open sys \<or> \<not> su_load sys \<or> \<not> su_attach sys \<or> \<not> su_update sys then Done (1, None, [])
          else if \<not> su_ring sys then Done (1, Some r, [])
          else bind_outcome (poll_run (\<lambda>e out. out @ ss_handle_event r e) (map (Pair False) (su_polls sys)) 0 []) (\<lambda>(err, out).
            Done (0, Some r, ss_titles @ out)))"

section \<open>What holds\<close>

text \<open>The number of an event by its option name.\<close>

definition event_no :: "string \<Rightarrow> nat option" where
  "event_no token = map_of (map (\<lambda>(n, s, o'). (o', n)) sched_events) token"

lemma strtok_piece: "CHR '','' \<notin> set p \<Longrightarrow> cur @ p \<noteq> [] \<Longrightarrow> strtok_from cur (p @ CHR '','' # s) = (cur @ p) # strtok_from [] s"
  by (induction p arbitrary: cur) auto

lemma strtok_last: "CHR '','' \<notin> set p \<Longrightarrow> strtok_from cur p = (if cur @ p = [] then [] else [cur @ p])"
  by (induction p arbitrary: cur) auto

lemma strtok_join:
  assumes "\<forall>s \<in> set ss. s \<noteq> [] \<and> CHR '','' \<notin> set s"
  shows "strtok_from [] (join_comma ss) = ss"
  using assms
proof (induction ss rule: join_comma.induct)
  case (2 s)
  then show ?case by (simp add: strtok_last)
next
  case (3 s t ts)
  then show ?case using strtok_piece [of s "[]" "join_comma (t # ts)"] by simp
qed simp

lemma event_no_names:
  assumes "event_no s = Some n"
  shows "s \<noteq> []" "CHR '','' \<notin> set s" "n < 32"
proof -
  have "(n, s) \<in> (\<lambda>(n, t, o'). (n, o')) ` set sched_events" using map_of_SomeD [OF assms [unfolded event_no_def]] by force
  then show "s \<noteq> []" "CHR '','' \<notin> set s" "n < 32" by (auto simp: sched_events_def)
qed

lemma parse_events_bits:
  assumes "\<forall>s \<in> set ss. event_no s \<noteq> None"
  shows "bit (parse_events_from ss m) i \<longleftrightarrow> bit m i \<or> (\<exists>s \<in> set ss. event_no s = Some i)"
  using assms
proof (induction ss arbitrary: m)
  case (Cons s ss)
  then obtain n where n: "event_no s = Some n" by auto
  have "n < 32" using n by (rule event_no_names)
  then have "bit (push_bit n 1 :: u32) i \<longleftrightarrow> i = n" by (auto simp: bit_simps)
  then show ?case using Cons n by (auto simp: event_no_def bit_or_iff)
qed simp

text \<open>a list of event names, separated by commas, selects exactly the events that it names.\<close>

theorem sched_events_selected:
  assumes "\<forall>s \<in> set ss. event_no s \<noteq> None"
  shows "bit (parse_events (join_comma ss)) i \<longleftrightarrow> (\<exists>s \<in> set ss. event_no s = Some i)"
proof -
  have "\<forall>s \<in> set ss. s \<noteq> [] \<and> CHR '','' \<notin> set s" using assms event_no_names by blast
  then show ?thesis using parse_events_bits [OF assms, of 0] by (simp add: parse_events_def strtok_join)
qed

theorem sched_events_selected_witness:
  "bit (parse_events ''exec,stat_wait'') 8 \<and> bit (parse_events ''exec,stat_wait'') 6 \<and> \<not> bit (parse_events ''exec,stat_wait'') 1"
proof -
  have n: "event_no ''exec'' = Some 6" "event_no ''stat_wait'' = Some 8" by (simp_all add: event_no_def sched_events_def)
  have "\<forall>s \<in> set [''exec'', ''stat_wait'']. event_no s \<noteq> None" by (simp add: n)
  from sched_events_selected [OF this] show ?thesis by (simp add: n)
qed

text \<open>The default does not select \<open>exec\<close>, which the usage text lists among the defaults.\<close>

lemma default_omits_exec:
  "\<not> bit (sr_event_mask ss_rule_default) 6"
  "parse_events ''switch,wakeup,migrate,fork,exit,exec'' \<noteq> sr_event_mask ss_rule_default"
proof -
  show no: "\<not> bit (sr_event_mask ss_rule_default) 6" by (simp add: ss_rule_default_def)
  have "event_no ''exec'' = Some 6" by (simp add: event_no_def sched_events_def)
  moreover have "\<forall>s \<in> set [''switch'', ''wakeup'', ''migrate'', ''fork'', ''exit'', ''exec'']. event_no s \<noteq> None"
    by (simp add: event_no_def sched_events_def)
  then have "bit (parse_events_from [''switch'', ''wakeup'', ''migrate'', ''fork'', ''exit'', ''exec''] 0) 6 \<longleftrightarrow>
      (\<exists>s \<in> set [''switch'', ''wakeup'', ''migrate'', ''fork'', ''exit'', ''exec'']. event_no s = Some 6)"
    by (subst parse_events_bits) simp_all
  ultimately have "bit (parse_events ''switch,wakeup,migrate,fork,exit,exec'') 6" by (simp add: parse_events_def)
  then show "parse_events ''switch,wakeup,migrate,fork,exit,exec'' \<noteq> sr_event_mask ss_rule_default" using no by metis
qed

text \<open>The two tools that print states disagree on the dead and the zombies.\<close>

lemma states_swapped: "get_state_char 16 = CHR ''Z''" "state_to_str 16 = ''X''" "get_state_char 32 = CHR ''X''" "state_to_str 32 = ''Z''"
  by (simp_all add: get_state_char_def state_to_str_def)

text \<open>A run prints what the filter lets through, in order, and its status is 0 even after an error.\<close>

lemma sched_snoop_prints:
  assumes "opt_fold ss_case (su_opts sys) ss_rule_default = Inr r" "su_open sys" "su_load sys" "su_attach sys" "su_update sys" "su_ring sys"
    "su_polls sys = ps @ (res, evs) # rest" "\<forall>(n, es) \<in> set ps. 0 \<le> n" "res < 0"
  shows "sched_snoop_main sys = Done (0, Some r, ss_titles @ concat (map (ss_handle_event r) (concat (map snd ps) @ evs)))"
proof -
  have g: "going_on (map (Pair False) ps)" using assms(8) by (auto simp: going_on_def)
  have p: "polled (map (Pair False) ps) = concat (map snd ps)" by (induction ps) auto
  show ?thesis using assms(1-7) poll_run_failed [OF g assms(9), of "\<lambda>e out. out @ ss_handle_event r e" evs "map (Pair False) rest" 0 "[]"] by (simp add: sched_snoop_main_def fold_append p)
qed

end
