(* ===== verification/Net_Snoop.thy ===== *)
theory Net_Snoop
  imports Poll_Loop Inet_Text
begin

unbundle bit_operations_syntax

text \<open>
  \<open>observe/net-snoop.cpp\<close>: packets on their way through the kernel. Options, the filter in user space, the text of the layers of
  a packet, the polling loop and \<open>main\<close>. The local time and \<open>inet_addr\<close> are parameters.
\<close>

section \<open>Options\<close>

record ns_rule =
  nq_target_pid :: int
  nq_target_dev :: string
  nq_target_comm :: string
  nq_min_len :: u32
  nq_max_len :: u32
  nq_target_protocol :: u16
  nq_event_mask :: u8
  nq_l4_filter :: u8
  nq_port_filter :: u16
  nq_ip_filter :: u32
  nq_show_details :: bool
  nq_show_stats :: bool

definition ns_rule0 :: ns_rule where
  "ns_rule0 = \<lparr>nq_target_pid = 0, nq_target_dev = [], nq_target_comm = [], nq_min_len = 0, nq_max_len = 0, nq_target_protocol = 0, nq_event_mask = 15,
     nq_l4_filter = 0, nq_port_filter = 0, nq_ip_filter = 0, nq_show_details = False, nq_show_stats = False\<rparr>"

text \<open>\<open>strtol\<close> with base 0: hexadecimal after 0x, octal after 0, otherwise decimal; the value is limited to 64 bits.\<close>

definition is_octal :: "char \<Rightarrow> bool" where
  "is_octal c \<longleftrightarrow> is_digit c \<and> digit_val c < 8"

definition strtol0 :: "string \<Rightarrow> int" where
  "strtol0 s =
     (let t = dropWhile is_space s;
          neg = (t \<noteq> [] \<and> hd t = CHR ''-'');
          u = (if t \<noteq> [] \<and> (hd t = CHR ''-'' \<or> hd t = CHR ''+'') then tl t else t);
          n = (if map to_lower (take 2 u) = ''0x'' \<and> drop 2 u \<noteq> [] \<and> is_hex (hd (drop 2 u)) then hexs_val 0 (takeWhile is_hex (drop 2 u))
               else if u \<noteq> [] \<and> hd u = CHR ''0'' then fold (\<lambda>c v. v * 8 + digit_val c) (takeWhile is_octal u) 0
               else digits_val 0 (takeWhile is_digit u));
          i = (if neg then - int n else int n)
      in max (- (2 ^ 63)) (min (2 ^ 63 - 1) i))"

definition l4_filter_of :: "string \<Rightarrow> u8 option" where
  "l4_filter_of arg = (if arg = ''tcp'' then Some 1 else if arg = ''udp'' then Some 2 else if arg = ''icmp'' then Some 3 else None)"

text \<open>The rule and the interval.\<close>

definition ns_case :: "(string \<Rightarrow> u32) \<Rightarrow> char \<Rightarrow> string \<Rightarrow> ns_rule \<times> int \<Rightarrow> int + ns_rule \<times> int" where
  "ns_case inet_addr opt optarg c =
     (case c of (r, interval) \<Rightarrow>
        if opt = CHR ''p'' then Inr (r\<lparr>nq_target_pid := atoi optarg\<rparr>, interval)
        else if opt = CHR ''c'' then Inr (r\<lparr>nq_target_comm := take 15 (c_text optarg)\<rparr>, interval)
        else if opt = CHR ''d'' then Inr (r\<lparr>nq_target_dev := take 15 (c_text optarg)\<rparr>, interval)
        else if opt = CHR ''m'' then Inr (r\<lparr>nq_min_len := of_int (atoi optarg)\<rparr>, interval)
        else if opt = CHR ''M'' then Inr (r\<lparr>nq_max_len := of_int (atoi optarg)\<rparr>, interval)
        else if opt = CHR ''P'' then Inr (r\<lparr>nq_target_protocol := of_int (strtol0 optarg)\<rparr>, interval)
        else if opt = CHR ''e'' then Inr (r\<lparr>nq_event_mask := of_int (atoi optarg) AND 15\<rparr>, interval)
        else if opt = CHR ''i'' then Inr (r, atoi optarg)
        else if opt = CHR ''f'' then (case l4_filter_of (c_text optarg) of Some f \<Rightarrow> Inr (r\<lparr>nq_l4_filter := f\<rparr>, interval) | None \<Rightarrow> Inl (- 1))
        else if opt = CHR ''o'' then
          (let port = fst (strtol10 optarg) in if port \<le> 0 \<or> port > 65535 then Inl (- 1) else Inr (r\<lparr>nq_port_filter := of_int port\<rparr>, interval))
        else if opt = CHR ''a'' then
          (let ip = inet_addr optarg in if ip = - 1 then Inl (- 1) else Inr (r\<lparr>nq_ip_filter := ip\<rparr>, interval))
        else if opt = CHR ''s'' then Inr (r\<lparr>nq_show_details := True\<rparr>, interval)
        else if opt = CHR ''t'' then Inr (r\<lparr>nq_show_stats := True\<rparr>, interval)
        else if opt = CHR ''h'' then Inl 0
        else Inl (- 1))"

section \<open>Packets\<close>

record net_event =
  ne_pid :: u32
  ne_tid :: u32
  ne_comm :: string
  ne_dev_name :: string
  ne_skb_addr :: u64
  ne_len :: u32
  ne_protocol :: u16
  ne_event_type :: u8
  ne_return_code :: u32
  ne_queue_id :: u16
  ne_vlan_tagged :: bool
  ne_vlan_proto :: u16
  ne_gso_size :: u16
  ne_flags :: u32
  ne_ip_version :: u8
  ne_src_ip :: u32
  ne_dst_ip :: u32
  ne_ip_protocol :: u8
  ne_tos :: u8
  ne_ttl :: u8
  ne_src_port :: u16
  ne_dst_port :: u16
  ne_tcp_flags :: u16
  ne_seq_num :: u32
  ne_ack_num :: u32
  ne_window_size :: u16

definition net_event_of :: "bytes \<Rightarrow> net_event" where
  "net_event_of b =
     \<lparr>ne_pid = u32_at b 8, ne_tid = u32_at b 12, ne_comm = c_text (map byte_char (bytes_at b 16 16)), ne_dev_name = c_text (map byte_char (bytes_at b 32 16)),
      ne_skb_addr = u64_at b 48, ne_len = u32_at b 56, ne_protocol = u16_at b 64, ne_event_type = u8_at b 66, ne_return_code = u32_at b 68,
      ne_queue_id = u16_at b 72, ne_vlan_tagged = (u8_at b 74 \<noteq> 0), ne_vlan_proto = u16_at b 76, ne_gso_size = u16_at b 80, ne_flags = u32_at b 84,
      ne_ip_version = u8_at b 88, ne_src_ip = u32_at b 92, ne_dst_ip = u32_at b 96, ne_ip_protocol = u8_at b 100, ne_tos = u8_at b 101, ne_ttl = u8_at b 102,
      ne_src_port = u16_at b 104, ne_dst_port = u16_at b 106, ne_tcp_flags = u16_at b 108, ne_seq_num = u32_at b 112, ne_ack_num = u32_at b 116,
      ne_window_size = u16_at b 120\<rparr>"

definition net_event_name :: "u8 \<Rightarrow> string" where
  "net_event_name ty = (if ty = 0 then ''QUEUE'' else if ty = 1 then ''START_XMIT'' else if ty = 2 then ''XMIT'' else if ty = 3 then ''RECEIVE'' else ''UNKNOWN'')"

definition protocol_str :: "u16 \<Rightarrow> string" where
  "protocol_str p = (if p = 0x0800 then ''IPv4'' else if p = 0x0806 then ''ARP'' else if p = 0x86DD then ''IPv6'' else if p = 0x8100 then ''VLAN'' else ''OTHER'')"

text \<open>\<open>inet_ntoa\<close> of an address as it lies in memory: the lowest byte comes first.\<close>

definition ntoa_stored :: "u32 \<Rightarrow> string" where
  "ntoa_stored w =
     (let n = unat w in show_nat (n mod 256) @ ''.'' @ show_nat (n div 2 ^ 8 mod 256) @ ''.'' @ show_nat (n div 2 ^ 16 mod 256) @ ''.'' @ show_nat (n div 2 ^ 24))"

abbreviation PROTO_TCP :: u8 where "PROTO_TCP \<equiv> 6"
abbreviation PROTO_UDP :: u8 where "PROTO_UDP \<equiv> 17"
abbreviation PROTO_ICMP :: u8 where "PROTO_ICMP \<equiv> 1"

definition format_ip_info :: "net_event \<Rightarrow> string" where
  "format_ip_info e =
     (if ne_ip_version e = 0 then ''IP: N/A''
      else if ne_ip_version e = 4 then
        (if ne_src_ip e = 0 \<and> ne_dst_ip e = 0 then ''IP: Invalid addresses''
         else ''IP: '' @ ntoa_stored (ne_src_ip e) @ '' -> '' @ ntoa_stored (ne_dst_ip e)
           @ (if ne_ip_protocol e = PROTO_TCP then '' (TCP)'' else if ne_ip_protocol e = PROTO_UDP then '' (UDP)'' else if ne_ip_protocol e = PROTO_ICMP then '' (ICMP)''
              else if ne_ip_protocol e > 0 then '' (Proto:'' @ fmt_u (ne_ip_protocol e) @ '')'' else '' (Proto:INVALID)'')
           @ (if ne_tos e \<noteq> 0 then '' TOS:'' @ fmt_u (ne_tos e) else [])
           @ (if ne_ttl e \<noteq> 0 then '' TTL:'' @ fmt_u (ne_ttl e) else []))
      else if ne_ip_version e = 6 then ''IP: IPv6 (not supported)''
      else ''IP: Invalid IP version ('' @ fmt_u (ne_ip_version e) @ '')'')"

definition TCP_FLAGS :: "(u16 \<times> string) list" where
  "TCP_FLAGS = [(0x02, ''SYN''), (0x10, ''ACK''), (0x01, ''FIN''), (0x04, ''RST'')]"

definition tcp_flags_text :: "u16 \<Rightarrow> string" where
  "tcp_flags_text fl =
     (if fl = 0 then []
      else '' ['' @ (if fl AND NOT 0x17 \<noteq> 0 then ''INVALID_FLAGS'' else join_comma (map snd (filter (\<lambda>(b, n). fl AND b \<noteq> 0) TCP_FLAGS))) @ '']'')"

definition format_tcp_info :: "net_event \<Rightarrow> string" where
  "format_tcp_info e =
     (if ne_ip_protocol e \<noteq> PROTO_TCP \<or> ne_src_port e = 0 then ''TCP: N/A''
      else ''TCP: '' @ fmt_u (ne_src_port e) @ '' -> '' @ fmt_u (ne_dst_port e) @ tcp_flags_text (ne_tcp_flags e)
        @ (if ne_seq_num e \<noteq> 0 then '' Seq:'' @ fmt_u (ne_seq_num e) else [])
        @ (if ne_ack_num e \<noteq> 0 \<and> ne_tcp_flags e AND 0x10 \<noteq> 0 then '' Ack:'' @ fmt_u (ne_ack_num e) else [])
        @ (if ne_window_size e \<noteq> 0 then '' Win:'' @ fmt_u (ne_window_size e) else []))"

definition has_port :: "net_event \<Rightarrow> u16 \<Rightarrow> bool" where
  "has_port e p \<longleftrightarrow> ne_src_port e = p \<or> ne_dst_port e = p"

definition format_udp_info :: "net_event \<Rightarrow> string" where
  "format_udp_info e =
     (if ne_ip_protocol e \<noteq> PROTO_UDP \<or> ne_src_port e = 0 then ''UDP: N/A''
      else ''UDP: '' @ fmt_u (ne_src_port e) @ '' -> '' @ fmt_u (ne_dst_port e)
        @ (if has_port e 53 then '' (DNS)'' else if has_port e 67 \<or> has_port e 68 then '' (DHCP)'' else if has_port e 123 then '' (NTP)''
           else if has_port e 161 then '' (SNMP)'' else []))"

datatype app_protocol = APP_UNKNOWN | APP_HTTP | APP_DNS | APP_SSH

definition identify_application_protocol :: "net_event \<Rightarrow> app_protocol" where
  "identify_application_protocol e =
     (if ne_ip_protocol e = PROTO_TCP then
        (if has_port e 80 \<or> has_port e 8080 then APP_HTTP else if has_port e 22 then APP_SSH else if has_port e 443 then APP_HTTP else APP_UNKNOWN)
      else if ne_ip_protocol e = PROTO_UDP then (if has_port e 53 then APP_DNS else APP_UNKNOWN)
      else APP_UNKNOWN)"

definition is_http_traffic :: "net_event \<Rightarrow> bool" where
  "is_http_traffic e \<longleftrightarrow> ne_ip_protocol e = PROTO_TCP \<and> (has_port e 80 \<or> has_port e 8080 \<or> has_port e 443)"

definition is_dns_traffic :: "net_event \<Rightarrow> bool" where
  "is_dns_traffic e \<longleftrightarrow> ne_ip_protocol e = PROTO_UDP \<and> has_port e 53"

definition is_ssh_traffic :: "net_event \<Rightarrow> bool" where
  "is_ssh_traffic e \<longleftrightarrow> ne_ip_protocol e = PROTO_TCP \<and> has_port e 22"

fun app_protocol_name :: "app_protocol \<Rightarrow> string" where
  "app_protocol_name APP_HTTP = ''HTTP''"
| "app_protocol_name APP_DNS = ''DNS''"
| "app_protocol_name APP_SSH = ''SSH''"
| "app_protocol_name APP_UNKNOWN = ''UNKNOWN''"

text \<open>\<open>%p\<close>.\<close>

definition fmt_p :: "u64 \<Rightarrow> string" where
  "fmt_p w = (if w = 0 then ''(nil)'' else ''0x'' @ show_hex (unat w))"

definition ns_line :: "ns_rule \<Rightarrow> string \<Rightarrow> net_event \<Rightarrow> string" where
  "ns_line r time_buf e =
     pad_right 8 time_buf @ '' '' @ pad_right 16 (ne_comm e) @ '' '' @ pad_right 6 (fmt_d (ne_pid e)) @ '' '' @ pad_right 6 (fmt_d (ne_tid e)) @ '' ''
     @ pad_right 10 (net_event_name (ne_event_type e)) @ '' '' @ pad_right 8 (ne_dev_name e) @ '' '' @ pad_right 6 (fmt_u (ne_len e))
     @ (if ne_event_type e = 1 then
          '' '' @ pad_right 8 (protocol_str (ne_protocol e)) @ '' Q:'' @ pad_right 3 (fmt_u (ne_queue_id e)) @ '' GSO:'' @ pad_right 4 (fmt_u (ne_gso_size e))
          @ (if ne_vlan_tagged e then '' VLAN:'' @ zero_pad 4 (show_hex (unat (ne_vlan_proto e))) else [])
        else if ne_event_type e = 2 then
          '' RC:'' @ pad_right 2 (fmt_d (ne_return_code e)) @ (if ne_flags e > 0 then '' LAT:'' @ fmt_u (ne_flags e) @ '' us'' else [])
        else [])
     @ (if nq_show_details r then
          [NL] @ ''  '' @ format_ip_info e
          @ (if ne_ip_protocol e = PROTO_TCP then [NL] @ ''  '' @ format_tcp_info e else if ne_ip_protocol e = PROTO_UDP then [NL] @ ''  '' @ format_udp_info e else [])
          @ (let a = identify_application_protocol e in if a \<noteq> APP_UNKNOWN then [NL] @ ''  APP: '' @ app_protocol_name a else [])
        else [])
     @ '' SKB:'' @ fmt_p (ne_skb_addr e) @ [NL]"

text \<open>The result of the handler, which ends the poll if it is negative, and what it prints.\<close>

definition ns_handle_event :: "ns_rule \<Rightarrow> string \<times> bytes \<Rightarrow> int \<times> string list" where
  "ns_handle_event r ev =
     (case ev of (time_buf, data) \<Rightarrow>
        if length data < 128 then (- 1, [])
        else let e = net_event_of data
             in if ne_len e = 0 \<or> ne_len e > 65535 then (0, [])
                else if ne_event_type e > 3 then (- 1, [])
                else if nq_l4_filter r = 1 \<and> ne_ip_protocol e \<noteq> PROTO_TCP then (0, [])
                else if nq_l4_filter r = 2 \<and> ne_ip_protocol e \<noteq> PROTO_UDP then (0, [])
                else if nq_l4_filter r = 3 \<and> ne_ip_protocol e \<noteq> PROTO_ICMP then (0, [])
                else if nq_port_filter r \<noteq> 0 \<and> \<not> has_port e (nq_port_filter r) then (0, [])
                else if nq_ip_filter r \<noteq> 0 \<and> ne_src_ip e \<noteq> nq_ip_filter r \<and> ne_dst_ip e \<noteq> nq_ip_filter r then (0, [])
                else (0, [ns_line r time_buf e]))"

section \<open>The program\<close>

text \<open>\<open>ring_buffer__poll\<close> stops at the first event whose handler fails and returns its result, otherwise \<open>res\<close>.\<close>

fun ns_poll :: "ns_rule \<Rightarrow> int \<Rightarrow> (string \<times> bytes) list \<Rightarrow> int \<times> string list" where
  "ns_poll r res [] = (res, [])"
| "ns_poll r res (ev # evs) =
     (case ns_handle_event r ev of (ret, out) \<Rightarrow>
        if ret < 0 then (ret, out) else (case ns_poll r res evs of (res', out') \<Rightarrow> (res', out @ out')))"

fun ns_loop :: "ns_rule \<Rightarrow> (string \<times> bytes) poll_turn list \<Rightarrow> int \<Rightarrow> (int \<times> string list) outcome" where
  "ns_loop r [] err = Blocked"
| "ns_loop r ((exit_flag, res, evs) # turns) err =
     (if exit_flag then Done (err, [])
      else case ns_poll r res evs of (err', out) \<Rightarrow>
        if err' = - EINTR then Done (0, out)
        else if err' < 0 then Done (err', out)
        else bind_outcome (ns_loop r turns err') (\<lambda>(err2, out2). Done (err2, out @ out2)))"

record ns_sys =
  nx_inet_addr :: "string \<Rightarrow> u32"
  nx_opts :: "(char \<times> string) list"
  nx_sigaction :: bool
  nx_open :: bool
  nx_load :: int
  nx_attach :: int
  nx_update :: int
  nx_ring :: bool
  nx_turns :: "(string \<times> bytes) poll_turn list"

definition ns_header :: string where
  "ns_header =
     pad_right 8 ''TIME'' @ '' '' @ pad_right 16 ''COMM'' @ '' '' @ pad_right 6 ''PID'' @ '' '' @ pad_right 6 ''TID'' @ '' '' @ pad_right 10 ''EVENT'' @ '' ''
     @ pad_right 8 ''DEV'' @ '' '' @ pad_right 6 ''LEN'' @ '' '' @ pad_right 20 ''DETAILS'' @ '' '' @ pad_right 12 ''SKB'' @ [NL]"

definition net_snoop_main :: "ns_sys \<Rightarrow> (int \<times> ns_rule option \<times> string list) outcome" where
  "net_snoop_main sys =
     (case opt_fold (ns_case (nx_inet_addr sys)) (nx_opts sys) (ns_rule0, 1) of
        Inl c \<Rightarrow> Done (c, None, [])
      | Inr (r, interval) \<Rightarrow>
          (let status = (\<lambda>err :: int. if err < 0 then - err else 0)
           in if \<not> nx_sigaction sys then Done (1, None, [])
              else if \<not> nx_open sys then Done (1, None, [])
              else if nx_load sys \<noteq> 0 then Done (status (nx_load sys), None, [])
              else if nx_attach sys \<noteq> 0 then Done (status (nx_attach sys), None, [])
              else if nx_update sys \<noteq> 0 then Done (status (nx_update sys), None, [])
              else if \<not> nx_ring sys then Done (1, Some r, [])
              else bind_outcome (ns_loop r (nx_turns sys) 0) (\<lambda>(err, out). Done (status err, Some r, ns_header # out))))"

section \<open>What holds\<close>

text \<open>Every accepted command line gives a rule whose fields are in range.\<close>

definition ns_rule_ok :: "ns_rule \<times> int \<Rightarrow> bool" where
  "ns_rule_ok c \<longleftrightarrow> (case c of (r, i) \<Rightarrow> nq_event_mask r \<le> 15 \<and> nq_l4_filter r \<le> 3 \<and> length (nq_target_comm r) \<le> 15 \<and> length (nq_target_dev r) \<le> 15)"

interpretation ns_opts: option_cases "ns_case inet_addr" ns_rule_ok for inet_addr
proof
  fix c opt optarg c'
  assume ok: "ns_rule_ok c" and s: "ns_case inet_addr opt optarg c = Inr c'"
  obtain r i where c: "c = (r, i)" by (cases c)
  have "of_int (atoi optarg) AND (15 :: u8) \<le> 15" by (metis and.commute word_and_le1)
  moreover have "l4_filter_of a = Some f \<Longrightarrow> f \<le> 3" for a f by (auto simp: l4_filter_of_def split: if_splits)
  ultimately show "ns_rule_ok c'" using ok s by (auto simp: c ns_rule_ok_def ns_case_def Let_def split: if_splits option.splits)
qed

lemma ns_options_ok: "opt_fold (ns_case ia) os (ns_rule0, 1) = Inr c \<Longrightarrow> ns_rule_ok c"
  using ns_opts.loop_ok [of "(ns_rule0, 1)"] by (simp add: ns_rule_ok_def ns_rule0_def)

text \<open>The packets that the options ask for.\<close>

definition ns_wanted :: "ns_rule \<Rightarrow> net_event \<Rightarrow> bool" where
  "ns_wanted r e \<longleftrightarrow> 0 < ne_len e \<and> ne_len e \<le> 65535
     \<and> (nq_l4_filter r = 1 \<longrightarrow> ne_ip_protocol e = PROTO_TCP) \<and> (nq_l4_filter r = 2 \<longrightarrow> ne_ip_protocol e = PROTO_UDP)
     \<and> (nq_l4_filter r = 3 \<longrightarrow> ne_ip_protocol e = PROTO_ICMP)
     \<and> (nq_port_filter r = 0 \<or> nq_port_filter r \<in> {ne_src_port e, ne_dst_port e})
     \<and> (nq_ip_filter r = 0 \<or> nq_ip_filter r \<in> {ne_src_ip e, ne_dst_ip e})"

definition ns_proper :: "string \<times> bytes \<Rightarrow> bool" where
  "ns_proper ev \<longleftrightarrow> 128 \<le> length (snd ev) \<and> (ne_event_type (net_event_of (snd ev)) \<le> 3 \<or> ne_len (net_event_of (snd ev)) = 0 \<or> ne_len (net_event_of (snd ev)) > 65535)"

definition ns_shown :: "ns_rule \<Rightarrow> (string \<times> bytes) list \<Rightarrow> string list" where
  "ns_shown r evs = map (\<lambda>(t, b). ns_line r t (net_event_of b)) (filter (\<lambda>(t, b). ns_wanted r (net_event_of b)) evs)"

lemma ns_handled:
  assumes "ns_proper ev"
  shows "ns_handle_event r ev = (0, ns_shown r [ev])"
proof -
  obtain t b where ev: "ev = (t, b)" by (cases ev)
  have l: "128 \<le> length b" using assms by (simp add: ev ns_proper_def)
  let ?e = "net_event_of b"
  show ?thesis
  proof (cases "ne_len ?e = 0 \<or> ne_len ?e > 65535")
    case True
    then have "\<not> ns_wanted r ?e" by (auto simp: ns_wanted_def)
    then show ?thesis using l True by (simp add: ev ns_handle_event_def ns_shown_def Let_def)
  next
    case False
    then have "0 < ne_len ?e" "ne_len ?e \<le> 65535" by (auto simp: word_neq_0_conv)
    moreover have "\<not> ne_event_type ?e > 3" using assms False by (auto simp: ev ns_proper_def)
    ultimately show ?thesis using l by (auto simp: ev ns_handle_event_def ns_shown_def ns_wanted_def has_port_def Let_def)
  qed
qed

lemma ns_poll_shown:
  assumes "\<forall>ev \<in> set evs. ns_proper ev"
  shows "ns_poll r res evs = (res, ns_shown r evs)"
  using assms
proof (induction evs)
  case (Cons ev evs)
  have "ns_shown r (ev # evs) = ns_shown r [ev] @ ns_shown r evs" by (simp add: ns_shown_def split: prod.split)
  then show ?case using Cons ns_handled [of ev r] by simp
qed (simp add: ns_shown_def)

text \<open>C35: from the records that the kernel side hands over, a run prints exactly the packets whose length is from 1 to
  65535 and which match the layer 4 protocol, the port and the address of the command line, each once and in
  order, until it is interrupted, and then its status is 0. A packet of length 0 or above 65535 is left out
  whatever it matches (\<open>odd_length_hidden\<close>). Every record is taken to have the size of an event, and a known
  type unless its length is one of those.\<close>

theorem net_snoop_selects:
  assumes "going_on turns" "\<forall>ev \<in> set (polled turns @ evs). ns_proper ev"
  shows "ns_loop r (turns @ (False, - EINTR, evs) # rest) err = Done (0, ns_shown r (polled turns @ evs))"
  using assms
proof (induction turns arbitrary: err)
  case Nil
  then show ?case by (simp add: ns_poll_shown)
next
  case (Cons t ts)
  obtain x res es where t: "t = (x, res, es)" by (cases t)
  have "ns_poll r res es = (res, ns_shown r es)" using Cons.prems by (intro ns_poll_shown) (auto simp: t)
  then show ?case using Cons by (simp add: t) (simp add: ns_shown_def)
qed

definition ex_packet :: bytes where
  "ex_packet = replicate 56 0 @ [60] @ replicate 31 0 @ [4] @ replicate 11 0 @ [6] @ replicate 3 0 @ [80] @ replicate 23 0"

theorem net_snoop_selects_witness:
  "\<exists>out. ns_loop (ns_rule0\<lparr>nq_port_filter := 80\<rparr>) [(False, - EINTR, [(''t'', ex_packet)])] 0 = Done (0, [out])"
proof -
  have l: "length ex_packet = 128" by (simp add: ex_packet_def)
  have f: "ne_len (net_event_of ex_packet) = 60" "ne_event_type (net_event_of ex_packet) = 0" "ne_src_port (net_event_of ex_packet) = 80" by code_simp+
  have p: "\<forall>ev \<in> set (polled [] @ [(''t'', ex_packet)]). ns_proper ev" by (simp add: ns_proper_def l f)
  have w: "ns_wanted (ns_rule0\<lparr>nq_port_filter := 80\<rparr>) (net_event_of ex_packet)" by (simp add: ns_wanted_def ns_rule0_def f)
  from net_snoop_selects [OF _ p, of "ns_rule0\<lparr>nq_port_filter := 80\<rparr>" "[]" 0] show ?thesis using w by (simp add: ns_shown_def)
qed

text \<open>A packet of length 0 is not shown, although no option asks for that.\<close>

lemma odd_length_hidden:
  assumes "128 \<le> length b" "ne_len (net_event_of b) = 0 \<or> ne_len (net_event_of b) > 65535"
  shows "ns_handle_event r (t, b) = (0, [])"
  using assms by (simp add: ns_handle_event_def Let_def)

text \<open>One record with an unknown type ends the program with status 1.\<close>

lemma ns_bad_event_ends:
  assumes "128 \<le> length b" "ne_event_type (net_event_of b) > 3" "0 < ne_len (net_event_of b)" "ne_len (net_event_of b) \<le> 65535"
  shows "ns_loop r ((False, n, (t, b) # evs) # turns) err = Done (- 1, [])"
proof -
  have "ns_handle_event r (t, b) = (- 1, [])" using assms by (auto simp: ns_handle_event_def Let_def)
  then show ?thesis by simp
qed

text \<open>The push flag, which nearly every segment with data has, is reported as invalid.\<close>

lemma push_flag_invalid: "tcp_flags_text 0x18 = '' [INVALID_FLAGS]''" "tcp_flags_text 0x10 = '' [ACK]''" "tcp_flags_text 0x12 = '' [SYN,ACK]''"
  by code_simp+

text \<open>The classification agrees with the three tests, except that a connection between the ports 22 and 443 counts as SSH.\<close>

lemma identify_agrees:
  "identify_application_protocol e = APP_DNS \<longleftrightarrow> is_dns_traffic e"
  "identify_application_protocol e = APP_HTTP \<longleftrightarrow> is_http_traffic e \<and> (is_ssh_traffic e \<longrightarrow> has_port e 80 \<or> has_port e 8080)"
  "identify_application_protocol e = APP_SSH \<longleftrightarrow> is_ssh_traffic e \<and> \<not> has_port e 80 \<and> \<not> has_port e 8080"
  by (auto simp: identify_application_protocol_def is_dns_traffic_def is_http_traffic_def is_ssh_traffic_def)

text \<open>The statistics that \<open>-t\<close> promises do not exist.\<close>

lemma ns_stats_without_effect: "ns_handle_event (r\<lparr>nq_show_stats := b\<rparr>) = ns_handle_event r"
  by (intro ext) (simp add: ns_handle_event_def ns_line_def Let_def split: prod.split)

text \<open>The text of a stored address can be read back, byte by byte.\<close>

lemma ntoa_stored_pton: "inet_pton4 (ntoa_stored w) = Some (rev (ip_octets w))"
proof -
  have "unat w div 2 ^ 24 \<in> set (ip_octets w)" by (simp add: ip_octets_def)
  then have "unat w div 2 ^ 24 < 256" by (rule ip_octets_range)
  then show ?thesis using pton4_dotted [of "unat w mod 256" "unat w div 2 ^ 8 mod 256" "unat w div 2 ^ 16 mod 256" "unat w div 2 ^ 24"]
    by (simp add: ntoa_stored_def ip_octets_def Let_def)
qed

end
