(* ===== verification/Xhci_Snoop.thy ===== *)
theory Xhci_Snoop
  imports Poll_Loop
begin

text \<open>
  \<open>observe/xhci-snoop.cpp\<close>: events of USB host controllers. The kinds of event and their structures, the filter, the line of every
  kind, the dispatch of \<open>handle_event\<close>, the options and \<open>main\<close> with its time limit. The text of the time is a parameter.
\<close>

section \<open>Kinds of event\<close>

datatype xhci_event_type =
    XHCI_ALLOC_DEV | XHCI_FREE_DEV | XHCI_URB_ENQUEUE | XHCI_URB_GIVEBACK | XHCI_HANDLE_EVENT | XHCI_HANDLE_TRANSFER |
    XHCI_QUEUE_TRB | XHCI_SETUP_DEVICE | XHCI_RING_ALLOC | XHCI_ADD_ENDPOINT | XHCI_ADDRESS_CTRL_CTX | XHCI_ADDRESS_CTX |
    XHCI_ALLOC_VIRT_DEVICE | XHCI_CONFIGURE_ENDPOINT | XHCI_CONFIGURE_ENDPOINT_CTRL_CTX | XHCI_DBC_ALLOC_REQUEST |
    XHCI_DBC_FREE_REQUEST | XHCI_DBC_GADGET_EP_QUEUE | XHCI_DBC_GIVEBACK_REQUEST | XHCI_DBC_HANDLE_EVENT |
    XHCI_DBC_HANDLE_TRANSFER | XHCI_DBC_QUEUE_REQUEST | XHCI_DBG_ADDRESS | XHCI_DBG_CANCEL_URB | XHCI_DBG_CONTEXT_CHANGE |
    XHCI_DBG_INIT | XHCI_DBG_QUIRKS | XHCI_DBG_RESET_EP | XHCI_DBG_RING_EXPANSION | XHCI_DISCOVER_OR_RESET_DEVICE |
    XHCI_FREE_VIRT_DEVICE | XHCI_GET_PORT_STATUS | XHCI_HANDLE_CMD_ADDR_DEV | XHCI_HANDLE_CMD_CONFIG_EP |
    XHCI_HANDLE_CMD_DISABLE_SLOT | XHCI_HANDLE_CMD_RESET_DEV | XHCI_HANDLE_CMD_RESET_EP | XHCI_HANDLE_CMD_SET_DEQ |
    XHCI_HANDLE_CMD_SET_DEQ_EP | XHCI_HANDLE_CMD_STOP_EP | XHCI_HANDLE_COMMAND | XHCI_HANDLE_PORT_STATUS | XHCI_HUB_STATUS_DATA |
    XHCI_INC_DEQ | XHCI_INC_ENQ | XHCI_RING_EP_DOORBELL | XHCI_RING_EXPANSION | XHCI_RING_FREE | XHCI_RING_HOST_DOORBELL |
    XHCI_SETUP_ADDRESSABLE_VIRT_DEVICE | XHCI_SETUP_DEVICE_SLOT | XHCI_STOP_DEVICE | XHCI_URB_DEQUEUE

text \<open>In the order of the enumeration, so that the place in the list is the number.\<close>

definition xhci_event_types :: "xhci_event_type list" where
  "xhci_event_types =
     [XHCI_ALLOC_DEV, XHCI_FREE_DEV, XHCI_URB_ENQUEUE, XHCI_URB_GIVEBACK, XHCI_HANDLE_EVENT, XHCI_HANDLE_TRANSFER,
      XHCI_QUEUE_TRB, XHCI_SETUP_DEVICE, XHCI_RING_ALLOC, XHCI_ADD_ENDPOINT, XHCI_ADDRESS_CTRL_CTX, XHCI_ADDRESS_CTX,
      XHCI_ALLOC_VIRT_DEVICE, XHCI_CONFIGURE_ENDPOINT, XHCI_CONFIGURE_ENDPOINT_CTRL_CTX, XHCI_DBC_ALLOC_REQUEST,
      XHCI_DBC_FREE_REQUEST, XHCI_DBC_GADGET_EP_QUEUE, XHCI_DBC_GIVEBACK_REQUEST, XHCI_DBC_HANDLE_EVENT,
      XHCI_DBC_HANDLE_TRANSFER, XHCI_DBC_QUEUE_REQUEST, XHCI_DBG_ADDRESS, XHCI_DBG_CANCEL_URB, XHCI_DBG_CONTEXT_CHANGE,
      XHCI_DBG_INIT, XHCI_DBG_QUIRKS, XHCI_DBG_RESET_EP, XHCI_DBG_RING_EXPANSION, XHCI_DISCOVER_OR_RESET_DEVICE,
      XHCI_FREE_VIRT_DEVICE, XHCI_GET_PORT_STATUS, XHCI_HANDLE_CMD_ADDR_DEV, XHCI_HANDLE_CMD_CONFIG_EP,
      XHCI_HANDLE_CMD_DISABLE_SLOT, XHCI_HANDLE_CMD_RESET_DEV, XHCI_HANDLE_CMD_RESET_EP, XHCI_HANDLE_CMD_SET_DEQ,
      XHCI_HANDLE_CMD_SET_DEQ_EP, XHCI_HANDLE_CMD_STOP_EP, XHCI_HANDLE_COMMAND, XHCI_HANDLE_PORT_STATUS,
      XHCI_HUB_STATUS_DATA, XHCI_INC_DEQ, XHCI_INC_ENQ, XHCI_RING_EP_DOORBELL, XHCI_RING_EXPANSION, XHCI_RING_FREE,
      XHCI_RING_HOST_DOORBELL, XHCI_SETUP_ADDRESSABLE_VIRT_DEVICE, XHCI_SETUP_DEVICE_SLOT, XHCI_STOP_DEVICE, XHCI_URB_DEQUEUE]"

definition xhci_event_type_of :: "u32 \<Rightarrow> xhci_event_type option" where
  "xhci_event_type_of n = (if unat n < length xhci_event_types then Some (xhci_event_types ! unat n) else None)"

section \<open>Structures\<close>

text \<open>All structures begin alike.\<close>

record xh_head =
  xh_event_type :: u32
  xh_pid :: u32
  xh_tid :: u32
  xh_comm :: string
  xh_timestamp :: u64

definition xh_head_of :: "bytes \<Rightarrow> xh_head" where
  "xh_head_of b = \<lparr>xh_event_type = u32_at b 0, xh_pid = u32_at b 4, xh_tid = u32_at b 8, xh_comm = c_text (map byte_char (bytes_at b 12 16)),
     xh_timestamp = u64_at b 32\<rparr>"

text \<open>The structure of the context of a slot.\<close>

record xh_slot_ctx = xh_head +
  xc_info :: u32
  xc_info2 :: u32
  xc_tt_info :: u32
  xc_state :: u32

definition xh_slot_ctx_of :: "bytes \<Rightarrow> xh_slot_ctx" where
  "xh_slot_ctx_of b = xh_head.extend (xh_head_of b) (xh_slot_ctx.fields (u32_at b 40) (u32_at b 44) (u32_at b 48) (u32_at b 52))"

text \<open>The structure of a request.\<close>

record xh_urb = xh_head +
  xu_urb :: u64
  xu_pipe :: u32
  xu_stream :: u32
  xu_status :: u32
  xu_flags :: u32
  xu_num_mapped_sgs :: u32
  xu_num_sgs :: u32
  xu_length :: u32
  xu_actual :: u32
  xu_epnum :: u32
  xu_dir_in :: u32
  xu_type :: u32
  xu_slot_id :: u32

definition xh_urb_of :: "bytes \<Rightarrow> xh_urb" where
  "xh_urb_of b = xh_head.extend (xh_head_of b) (xh_urb.fields (u64_at b 40) (u32_at b 48) (u32_at b 52) (u32_at b 56) (u32_at b 60) (u32_at b 64) (u32_at b 68) (u32_at b 72) (u32_at b 76) (u32_at b 80) (u32_at b 84) (u32_at b 88) (u32_at b 92))"

text \<open>The structure of a transfer request block.\<close>

record xh_trb = xh_head +
  xt_type :: u32
  xt_field0 :: u32
  xt_field1 :: u32
  xt_field2 :: u32
  xt_field3 :: u32

definition xh_trb_of :: "bytes \<Rightarrow> xh_trb" where
  "xh_trb_of b = xh_head.extend (xh_head_of b) (xh_trb.fields (u32_at b 40) (u32_at b 44) (u32_at b 48) (u32_at b 52) (u32_at b 56))"

text \<open>The structure of a virtual device.\<close>

record xh_vdev = xh_head +
  xv_vdev :: u64
  xv_out_ctx :: u64
  xv_in_ctx :: u64
  xv_devnum :: u32
  xv_state :: u32
  xv_speed :: u32
  xv_portnum :: u8
  xv_level :: u8
  xv_slot_id :: u32

definition xh_vdev_of :: "bytes \<Rightarrow> xh_vdev" where
  "xh_vdev_of b = xh_head.extend (xh_head_of b) (xh_vdev.fields (u64_at b 40) (u64_at b 48) (u64_at b 56) (u32_at b 64) (u32_at b 68) (u32_at b 72) (u8_at b 76) (u8_at b 77) (u32_at b 80))"

text \<open>The structure of a ring.\<close>

record xh_ring = xh_head +
  xr_type :: u32
  xr_ring :: u64
  xr_enq :: u64
  xr_deq :: u64
  xr_enq_seg :: u64
  xr_deq_seg :: u64
  xr_num_segs :: u32
  xr_stream_id :: u32
  xr_cycle_state :: u32
  xr_bounce_buf_len :: u32

definition xh_ring_of :: "bytes \<Rightarrow> xh_ring" where
  "xh_ring_of b = xh_head.extend (xh_head_of b) (xh_ring.fields (u32_at b 40) (u64_at b 48) (u64_at b 56) (u64_at b 64) (u64_at b 72) (u64_at b 80) (u32_at b 88) (u32_at b 92) (u32_at b 96) (u32_at b 100))"

text \<open>The structure of an endpoint.\<close>

record xh_add_endpoint = xh_head +
  xe_info :: u32
  xe_info2 :: u32
  xe_deq :: u64
  xe_tx_info :: u32

definition xh_add_endpoint_of :: "bytes \<Rightarrow> xh_add_endpoint" where
  "xh_add_endpoint_of b = xh_head.extend (xh_head_of b) (xh_add_endpoint.fields (u32_at b 40) (u32_at b 44) (u64_at b 48) (u32_at b 56))"

text \<open>The structure of an address context.\<close>

record xh_address_ctx = xh_head +
  xa_ctx_64 :: u32
  xa_ctx_type :: u32
  xa_ctx_dma :: u64
  xa_ctx_va :: u64
  xa_ctx_ep_num :: u32
  xa_ctx_data :: u32

definition xh_address_ctx_of :: "bytes \<Rightarrow> xh_address_ctx" where
  "xh_address_ctx_of b = xh_head.extend (xh_head_of b) (xh_address_ctx.fields (u32_at b 40) (u32_at b 44) (u64_at b 48) (u64_at b 56) (u32_at b 64) (u32_at b 68))"

text \<open>The structure of a doorbell.\<close>

record xh_doorbell = xh_head +
  xd_slot :: u32
  xd_doorbell :: u32

definition xh_doorbell_of :: "bytes \<Rightarrow> xh_doorbell" where
  "xh_doorbell_of b = xh_head.extend (xh_head_of b) (xh_doorbell.fields (u32_at b 40) (u32_at b 44))"

text \<open>The structure of a message.\<close>

record xh_dbg = xh_head +
  xm_msg :: string

definition xh_dbg_of :: "bytes \<Rightarrow> xh_dbg" where
  "xh_dbg_of b = xh_head.extend (xh_head_of b) (xh_dbg.fields (c_text (map byte_char (bytes_at b 40 256))))"

text \<open>The structures of the source; several have the same fields.\<close>

type_synonym xhci_alloc_dev_event_t = xh_slot_ctx

type_synonym xhci_free_dev_event_t = xh_slot_ctx

type_synonym xhci_slot_ctx_event_t = xh_slot_ctx

type_synonym xhci_urb_enqueue_event_t = xh_urb

type_synonym xhci_urb_giveback_event_t = xh_urb

type_synonym xhci_urb_dequeue_event_t = xh_urb

type_synonym xhci_handle_event_event_t = xh_trb

type_synonym xhci_handle_transfer_event_t = xh_trb

type_synonym xhci_queue_trb_event_t = xh_trb

type_synonym xhci_setup_device_event_t = xh_vdev

type_synonym xhci_alloc_virt_device_event_t = xh_vdev

type_synonym xhci_ring_alloc_event_t = xh_ring

type_synonym xhci_ring_free_event_t = xh_ring

type_synonym xhci_inc_deq_event_t = xh_ring

type_synonym xhci_inc_enq_event_t = xh_ring

type_synonym xhci_add_endpoint_event_t = xh_add_endpoint

type_synonym xhci_address_ctx_event_t = xh_address_ctx

type_synonym xhci_ring_ep_doorbell_event_t = xh_doorbell

type_synonym xhci_dbg_address_event_t = xh_dbg

section \<open>Options and filter\<close>

record xh_env =
  xo_verbose :: bool
  xo_timestamp :: bool
  xo_target_pid :: int
  xo_target_tid :: int
  xo_target_comm :: "string option"
  xo_duration :: u64

definition xh_env0 :: xh_env where
  "xh_env0 = \<lparr>xo_verbose = False, xo_timestamp = False, xo_target_pid = 0, xo_target_tid = 0, xo_target_comm = None, xo_duration = 0\<rparr>"

text \<open>\<open>parse_arg\<close>: \<open>-h\<close> ends the program with 0, a number out of range or an unknown key with 64 (\<open>EX_USAGE\<close>).\<close>

definition xh_case :: "char \<Rightarrow> string \<Rightarrow> xh_env \<Rightarrow> int + xh_env" where
  "xh_case key arg v =
     (if key = CHR ''h'' then Inl 0
      else if key = CHR ''v'' then Inr (v\<lparr>xo_verbose := True\<rparr>)
      else if key = CHR ''t'' then Inr (v\<lparr>xo_timestamp := True\<rparr>)
      else if key = CHR ''p'' then (case strtol10 arg of (n, r, erange) \<Rightarrow> if erange then Inl 64 else Inr (v\<lparr>xo_target_pid := to_int32 n\<rparr>))
      else if key = CHR ''T'' then (case strtol10 arg of (n, r, erange) \<Rightarrow> if erange then Inl 64 else Inr (v\<lparr>xo_target_tid := to_int32 n\<rparr>))
      else if key = CHR ''c'' then Inr (v\<lparr>xo_target_comm := Some arg\<rparr>)
      else if key = CHR ''D'' then (case strtoul10 arg of (n, r, erange) \<Rightarrow> if erange then Inl 64 else Inr (v\<lparr>xo_duration := n\<rparr>))
      else Inl 64)"

text \<open>\<open>libbpf_print_fn\<close>: whether a message is shown.\<close>

definition xh_shows :: "xh_env \<Rightarrow> bool \<Rightarrow> bool" where
  "xh_shows v debug \<longleftrightarrow> \<not> (debug \<and> \<not> xo_verbose v)"

definition should_filter_event :: "xh_env \<Rightarrow> u32 \<Rightarrow> u32 \<Rightarrow> string \<Rightarrow> bool" where
  "should_filter_event v pid tid comm =
     (if xo_target_pid v \<noteq> 0 \<and> sint pid \<noteq> xo_target_pid v then True
      else if xo_target_tid v \<noteq> 0 \<and> sint tid \<noteq> xo_target_tid v then True
      else case xo_target_comm v of Some t \<Rightarrow> \<not> str_in t comm | None \<Rightarrow> False)"

section \<open>Lines\<close>

definition xh_header :: "xh_env \<Rightarrow> string" where
  "xh_header v =
     (if xo_timestamp v then pad_right 14 ''TIME(s)'' @ '' '' else [])
     @ pad_right 16 ''COMM'' @ '' '' @ pad_right 7 ''PID'' @ '' '' @ pad_right 7 ''TID'' @ '' '' @ pad_right 20 ''EVENT'' @ '' '' @ ''DETAILS'' @ [NL]"

definition get_usb_type_string :: "u32 \<Rightarrow> string" where
  "get_usb_type_string type =
     (if type = 0 then ''control'' else if type = 1 then ''isoc'' else if type = 2 then ''bulk'' else if type = 3 then ''intr'' else ''unknown'')"

text \<open>\<open>print_timestamp\<close>; \<open>now\<close> is the text of the time.\<close>

definition xh_print_timestamp :: "xh_env \<Rightarrow> string \<Rightarrow> string" where
  "xh_print_timestamp v now = (if xo_timestamp v then pad_right 14 now @ '' '' else [])"

text \<open>What all \<open>print_event_...\<close> functions share: the filter, the time and the first columns.\<close>

definition xh_line :: "xh_env \<Rightarrow> string \<Rightarrow> 'z xh_head_scheme \<Rightarrow> string \<Rightarrow> string \<Rightarrow> string" where
  "xh_line v now e name detail =
     xh_print_timestamp v now @ pad_right 16 (xh_comm e) @ '' '' @ pad_right 7 (fmt_d (xh_pid e)) @ '' '' @ pad_right 7 (fmt_d (xh_tid e)) @ '' ''
     @ pad_right 20 name @ '' '' @ detail @ [NL]"

definition xh_print :: "xh_env \<Rightarrow> string \<Rightarrow> 'z xh_head_scheme \<Rightarrow> string \<Rightarrow> string \<Rightarrow> string list" where
  "xh_print v now e name detail =
     (if should_filter_event v (xh_pid e) (xh_tid e) (xh_comm e) then [] else [xh_line v now e name detail])"

text \<open>\<open>0x%x\<close>.\<close>

definition fmt_0x :: "'a::len word \<Rightarrow> string" where
  "fmt_0x w = ''0x'' @ show_hex (unat w)"

definition xh_slot_ctx_text :: "xh_slot_ctx \<Rightarrow> string" where
  "xh_slot_ctx_text e =
     ''info='' @ fmt_0x (xc_info e) @ '' info2='' @ fmt_0x (xc_info2 e) @ '' tt_info='' @ fmt_0x (xc_tt_info e) @ '' state='' @
     fmt_0x (xc_state e)"

definition xh_trb_text :: "xh_trb \<Rightarrow> string" where
  "xh_trb_text e =
     ''type='' @ fmt_u (xt_type e) @ '' trb='' @ fmt_0x (xt_field0 e) @ '','' @ fmt_0x (xt_field1 e) @ '','' @ fmt_0x (xt_field2 e) @
     '','' @ fmt_0x (xt_field3 e)"

definition xh_vdev_text :: "xh_vdev \<Rightarrow> string" where
  "xh_vdev_text e =
     ''vdev='' @ fmt_0x (xv_vdev e) @ '' devnum='' @ fmt_d (xv_devnum e) @ '' state='' @ fmt_d (xv_state e) @ '' speed='' @
     fmt_d (xv_speed e) @ '' port='' @ fmt_u (xv_portnum e) @ '' level='' @ fmt_u (xv_level e) @ '' slot='' @ fmt_d (xv_slot_id e)"

definition xh_ring_text :: "xh_ring \<Rightarrow> string" where
  "xh_ring_text e =
     ''type='' @ fmt_u (xr_type e) @ '' ring='' @ fmt_0x (xr_ring e) @ '' segs='' @ fmt_u (xr_num_segs e) @ '' stream='' @
     fmt_u (xr_stream_id e) @ '' cycle='' @ fmt_u (xr_cycle_state e) @ '' bounce='' @ fmt_u (xr_bounce_buf_len e)"

definition xh_ring_pointers_text :: "xh_ring \<Rightarrow> string" where
  "xh_ring_pointers_text e =
     ''type='' @ fmt_u (xr_type e) @ '' ring='' @ fmt_0x (xr_ring e) @ '' enq='' @ fmt_0x (xr_enq e) @ '' deq='' @ fmt_0x (xr_deq e) @
     '' segs='' @ fmt_u (xr_num_segs e) @ '' stream='' @ fmt_u (xr_stream_id e)"

text \<open>The \<open>print_event_...\<close> functions.\<close>

definition print_event_alloc_dev :: "xh_env \<Rightarrow> string \<Rightarrow> xhci_alloc_dev_event_t \<Rightarrow> string list" where
  "print_event_alloc_dev v now e = xh_print v now e ''xhci_alloc_dev'' (xh_slot_ctx_text e)"

definition print_event_free_dev :: "xh_env \<Rightarrow> string \<Rightarrow> xhci_free_dev_event_t \<Rightarrow> string list" where
  "print_event_free_dev v now e = xh_print v now e ''xhci_free_dev'' (xh_slot_ctx_text e)"

definition print_event_urb_enqueue :: "xh_env \<Rightarrow> string \<Rightarrow> xhci_urb_enqueue_event_t \<Rightarrow> string list" where
  "print_event_urb_enqueue v now e =
     xh_print v now e ''xhci_urb_enqueue''
       (''urb='' @ fmt_0x (xu_urb e) @ '' ep'' @ fmt_d (xu_epnum e) @ (if xu_dir_in e \<noteq> 0 then ''in'' else ''out'') @ ''-'' @
        get_usb_type_string (xu_type e) @ '' slot='' @ fmt_d (xu_slot_id e) @ '' len='' @ fmt_d (xu_actual e) @ ''/'' @
        fmt_d (xu_length e) @ '' stream='' @ fmt_u (xu_stream e))"

definition print_event_urb_giveback :: "xh_env \<Rightarrow> string \<Rightarrow> xhci_urb_giveback_event_t \<Rightarrow> string list" where
  "print_event_urb_giveback v now e =
     xh_print v now e ''xhci_urb_giveback''
       (''urb='' @ fmt_0x (xu_urb e) @ '' ep'' @ fmt_d (xu_epnum e) @ (if xu_dir_in e \<noteq> 0 then ''in'' else ''out'') @ ''-'' @
        get_usb_type_string (xu_type e) @ '' slot='' @ fmt_d (xu_slot_id e) @ '' len='' @ fmt_d (xu_actual e) @ ''/'' @
        fmt_d (xu_length e) @ '' status='' @ fmt_d (xu_status e))"

definition print_event_handle_event :: "xh_env \<Rightarrow> string \<Rightarrow> xhci_handle_event_event_t \<Rightarrow> string list" where
  "print_event_handle_event v now e = xh_print v now e ''xhci_handle_event'' (xh_trb_text e)"

definition print_event_handle_transfer :: "xh_env \<Rightarrow> string \<Rightarrow> xhci_handle_transfer_event_t \<Rightarrow> string list" where
  "print_event_handle_transfer v now e = xh_print v now e ''xhci_handle_transfer'' (xh_trb_text e)"

definition print_event_queue_trb :: "xh_env \<Rightarrow> string \<Rightarrow> xhci_queue_trb_event_t \<Rightarrow> string list" where
  "print_event_queue_trb v now e = xh_print v now e ''xhci_queue_trb'' (xh_trb_text e)"

definition print_event_setup_device :: "xh_env \<Rightarrow> string \<Rightarrow> xhci_setup_device_event_t \<Rightarrow> string list" where
  "print_event_setup_device v now e = xh_print v now e ''xhci_setup_device'' (xh_vdev_text e)"

definition print_event_ring_alloc :: "xh_env \<Rightarrow> string \<Rightarrow> xhci_ring_alloc_event_t \<Rightarrow> string list" where
  "print_event_ring_alloc v now e = xh_print v now e ''xhci_ring_alloc'' (xh_ring_text e)"

definition print_event_add_endpoint :: "xh_env \<Rightarrow> string \<Rightarrow> xhci_add_endpoint_event_t \<Rightarrow> string list" where
  "print_event_add_endpoint v now e =
     xh_print v now e ''xhci_add_endpoint''
       (''info='' @ fmt_0x (xe_info e) @ '' info2='' @ fmt_0x (xe_info2 e) @ '' deq='' @ fmt_0x (xe_deq e) @ '' tx_info='' @
        fmt_0x (xe_tx_info e))"

definition print_event_address_ctx :: "xh_env \<Rightarrow> string \<Rightarrow> xhci_address_ctx_event_t \<Rightarrow> string list" where
  "print_event_address_ctx v now e =
     xh_print v now e ''xhci_address_ctx''
       (''ctx_64='' @ fmt_d (xa_ctx_64 e) @ '' type='' @ fmt_u (xa_ctx_type e) @ '' dma='' @ fmt_0x (xa_ctx_dma e) @ '' va='' @
        fmt_0x (xa_ctx_va e) @ '' ep_num='' @ fmt_u (xa_ctx_ep_num e))"

definition print_event_alloc_virt_device :: "xh_env \<Rightarrow> string \<Rightarrow> xhci_alloc_virt_device_event_t \<Rightarrow> string list" where
  "print_event_alloc_virt_device v now e = xh_print v now e ''xhci_alloc_virt_device'' (xh_vdev_text e)"

definition print_event_configure_endpoint :: "xh_env \<Rightarrow> string \<Rightarrow> xhci_slot_ctx_event_t \<Rightarrow> string list" where
  "print_event_configure_endpoint v now e = xh_print v now e ''xhci_configure_endpoint'' (xh_slot_ctx_text e)"

definition print_event_ring_free :: "xh_env \<Rightarrow> string \<Rightarrow> xhci_ring_free_event_t \<Rightarrow> string list" where
  "print_event_ring_free v now e = xh_print v now e ''xhci_ring_free'' (xh_ring_text e)"

definition print_event_inc_deq :: "xh_env \<Rightarrow> string \<Rightarrow> xhci_inc_deq_event_t \<Rightarrow> string list" where
  "print_event_inc_deq v now e = xh_print v now e ''xhci_inc_deq'' (xh_ring_pointers_text e)"

definition print_event_inc_enq :: "xh_env \<Rightarrow> string \<Rightarrow> xhci_inc_enq_event_t \<Rightarrow> string list" where
  "print_event_inc_enq v now e = xh_print v now e ''xhci_inc_enq'' (xh_ring_pointers_text e)"

definition print_event_ring_ep_doorbell :: "xh_env \<Rightarrow> string \<Rightarrow> xhci_ring_ep_doorbell_event_t \<Rightarrow> string list" where
  "print_event_ring_ep_doorbell v now e =
     xh_print v now e ''xhci_ring_ep_doorbell''
       (''slot='' @ fmt_u (xd_slot e) @ '' doorbell='' @ fmt_0x (xd_doorbell e))"

definition print_event_urb_dequeue :: "xh_env \<Rightarrow> string \<Rightarrow> xhci_urb_dequeue_event_t \<Rightarrow> string list" where
  "print_event_urb_dequeue v now e =
     xh_print v now e ''xhci_urb_dequeue''
       (''urb='' @ fmt_0x (xu_urb e) @ '' ep'' @ fmt_d (xu_epnum e) @ (if xu_dir_in e \<noteq> 0 then ''in'' else ''out'') @ ''-'' @
        get_usb_type_string (xu_type e) @ '' slot='' @ fmt_d (xu_slot_id e) @ '' len='' @ fmt_d (xu_actual e) @ ''/'' @
        fmt_d (xu_length e) @ '' status='' @ fmt_d (xu_status e) @ '' stream='' @ fmt_u (xu_stream e))"

definition print_event_dbg_address :: "xh_env \<Rightarrow> string \<Rightarrow> xhci_dbg_address_event_t \<Rightarrow> string list" where
  "print_event_dbg_address v now e =
     xh_print v now e ''xhci_dbg_address''
       (''msg='' @ [CHR 0x22] @ xm_msg e @ [CHR 0x22])"

definition print_event_slot_ctx :: "xh_env \<Rightarrow> string \<Rightarrow> xhci_slot_ctx_event_t \<Rightarrow> string \<Rightarrow> string list" where
  "print_event_slot_ctx v now e event_name = xh_print v now e event_name (xh_slot_ctx_text e)"

text \<open>The \<open>switch\<close> of \<open>handle_event\<close> on a known type.\<close>

fun xh_dispatch :: "xhci_event_type \<Rightarrow> xh_env \<Rightarrow> string \<Rightarrow> bytes \<Rightarrow> string list" where
  "xh_dispatch XHCI_ALLOC_DEV v now b = print_event_alloc_dev v now (xh_slot_ctx_of b)"
| "xh_dispatch XHCI_FREE_DEV v now b = print_event_free_dev v now (xh_slot_ctx_of b)"
| "xh_dispatch XHCI_URB_ENQUEUE v now b = print_event_urb_enqueue v now (xh_urb_of b)"
| "xh_dispatch XHCI_URB_GIVEBACK v now b = print_event_urb_giveback v now (xh_urb_of b)"
| "xh_dispatch XHCI_HANDLE_EVENT v now b = print_event_handle_event v now (xh_trb_of b)"
| "xh_dispatch XHCI_HANDLE_TRANSFER v now b = print_event_handle_transfer v now (xh_trb_of b)"
| "xh_dispatch XHCI_QUEUE_TRB v now b = print_event_queue_trb v now (xh_trb_of b)"
| "xh_dispatch XHCI_SETUP_DEVICE v now b = print_event_setup_device v now (xh_vdev_of b)"
| "xh_dispatch XHCI_RING_ALLOC v now b = print_event_ring_alloc v now (xh_ring_of b)"
| "xh_dispatch XHCI_ADD_ENDPOINT v now b = print_event_add_endpoint v now (xh_add_endpoint_of b)"
| "xh_dispatch XHCI_ADDRESS_CTX v now b = print_event_address_ctx v now (xh_address_ctx_of b)"
| "xh_dispatch XHCI_ALLOC_VIRT_DEVICE v now b = print_event_alloc_virt_device v now (xh_vdev_of b)"
| "xh_dispatch XHCI_CONFIGURE_ENDPOINT v now b = print_event_configure_endpoint v now (xh_slot_ctx_of b)"
| "xh_dispatch XHCI_RING_FREE v now b = print_event_ring_free v now (xh_ring_of b)"
| "xh_dispatch XHCI_INC_DEQ v now b = print_event_inc_deq v now (xh_ring_of b)"
| "xh_dispatch XHCI_INC_ENQ v now b = print_event_inc_enq v now (xh_ring_of b)"
| "xh_dispatch XHCI_RING_EP_DOORBELL v now b = print_event_ring_ep_doorbell v now (xh_doorbell_of b)"
| "xh_dispatch XHCI_URB_DEQUEUE v now b = print_event_urb_dequeue v now (xh_urb_of b)"
| "xh_dispatch XHCI_DBG_ADDRESS v now b = print_event_dbg_address v now (xh_dbg_of b)"
| "xh_dispatch XHCI_SETUP_ADDRESSABLE_VIRT_DEVICE v now b = print_event_alloc_virt_device v now (xh_vdev_of b)"
| "xh_dispatch XHCI_FREE_VIRT_DEVICE v now b = print_event_alloc_virt_device v now (xh_vdev_of b)"
| "xh_dispatch XHCI_SETUP_DEVICE_SLOT v now b = print_event_slot_ctx v now (xh_slot_ctx_of b) ''xhci_setup_device_slot''"
| "xh_dispatch XHCI_HANDLE_CMD_ADDR_DEV v now b = print_event_slot_ctx v now (xh_slot_ctx_of b) ''xhci_handle_cmd_addr_dev''"
| "xh_dispatch XHCI_HANDLE_CMD_CONFIG_EP v now b = print_event_slot_ctx v now (xh_slot_ctx_of b) ''xhci_handle_cmd_config_ep''"
| "xh_dispatch XHCI_HANDLE_CMD_DISABLE_SLOT v now b = print_event_slot_ctx v now (xh_slot_ctx_of b) ''xhci_handle_cmd_disable_slot''"
| "xh_dispatch XHCI_HANDLE_CMD_RESET_DEV v now b = print_event_slot_ctx v now (xh_slot_ctx_of b) ''xhci_handle_cmd_reset_dev''"
| "xh_dispatch XHCI_HANDLE_CMD_RESET_EP v now b = print_event_slot_ctx v now (xh_slot_ctx_of b) ''xhci_handle_cmd_reset_ep''"
| "xh_dispatch XHCI_HANDLE_CMD_SET_DEQ v now b = print_event_slot_ctx v now (xh_slot_ctx_of b) ''xhci_handle_cmd_set_deq''"
| "xh_dispatch XHCI_HANDLE_CMD_SET_DEQ_EP v now b = print_event_slot_ctx v now (xh_slot_ctx_of b) ''xhci_handle_cmd_set_deq_ep''"
| "xh_dispatch XHCI_HANDLE_CMD_STOP_EP v now b = print_event_slot_ctx v now (xh_slot_ctx_of b) ''xhci_handle_cmd_stop_ep''"
| "xh_dispatch XHCI_CONFIGURE_ENDPOINT_CTRL_CTX v now b = print_event_slot_ctx v now (xh_slot_ctx_of b) ''xhci_configure_endpoint_ctrl_ctx''"
| "xh_dispatch XHCI_ADDRESS_CTRL_CTX v now b = print_event_slot_ctx v now (xh_slot_ctx_of b) ''xhci_address_ctrl_ctx''"
| "xh_dispatch XHCI_DISCOVER_OR_RESET_DEVICE v now b = print_event_slot_ctx v now (xh_slot_ctx_of b) ''xhci_discover_or_reset_device''"
| "xh_dispatch XHCI_STOP_DEVICE v now b = print_event_slot_ctx v now (xh_slot_ctx_of b) ''xhci_stop_device''"
| "xh_dispatch XHCI_RING_EXPANSION v now b = print_event_ring_free v now (xh_ring_of b)"
| "xh_dispatch XHCI_RING_HOST_DOORBELL v now b = print_event_ring_ep_doorbell v now (xh_doorbell_of b)"
| "xh_dispatch XHCI_DBG_CANCEL_URB v now b = print_event_dbg_address v now (xh_dbg_of b)"
| "xh_dispatch XHCI_DBG_CONTEXT_CHANGE v now b = print_event_dbg_address v now (xh_dbg_of b)"
| "xh_dispatch XHCI_DBG_INIT v now b = print_event_dbg_address v now (xh_dbg_of b)"
| "xh_dispatch XHCI_DBG_QUIRKS v now b = print_event_dbg_address v now (xh_dbg_of b)"
| "xh_dispatch XHCI_DBG_RESET_EP v now b = print_event_dbg_address v now (xh_dbg_of b)"
| "xh_dispatch XHCI_DBG_RING_EXPANSION v now b = print_event_dbg_address v now (xh_dbg_of b)"
| "xh_dispatch XHCI_HANDLE_COMMAND v now b = print_event_handle_event v now (xh_trb_of b)"
| "xh_dispatch XHCI_HANDLE_PORT_STATUS v now b = print_event_handle_event v now (xh_trb_of b)"
| "xh_dispatch XHCI_HUB_STATUS_DATA v now b = print_event_handle_event v now (xh_trb_of b)"
| "xh_dispatch XHCI_GET_PORT_STATUS v now b = print_event_handle_event v now (xh_trb_of b)"
| "xh_dispatch XHCI_DBC_ALLOC_REQUEST v now b = print_event_handle_event v now (xh_trb_of b)"
| "xh_dispatch XHCI_DBC_FREE_REQUEST v now b = print_event_handle_event v now (xh_trb_of b)"
| "xh_dispatch XHCI_DBC_GADGET_EP_QUEUE v now b = print_event_handle_event v now (xh_trb_of b)"
| "xh_dispatch XHCI_DBC_GIVEBACK_REQUEST v now b = print_event_handle_event v now (xh_trb_of b)"
| "xh_dispatch XHCI_DBC_HANDLE_EVENT v now b = print_event_handle_event v now (xh_trb_of b)"
| "xh_dispatch XHCI_DBC_HANDLE_TRANSFER v now b = print_event_handle_event v now (xh_trb_of b)"
| "xh_dispatch XHCI_DBC_QUEUE_REQUEST v now b = print_event_handle_event v now (xh_trb_of b)"

text \<open>An event is the text of the time, its bytes and their number.\<close>

definition xh_handle_event :: "xh_env \<Rightarrow> string \<times> bytes \<times> u64 \<Rightarrow> string list" where
  "xh_handle_event v ev =
     (case ev of (now, b, data_sz) \<Rightarrow>
        (case xhci_event_type_of (u32_at b 0) of
           Some t \<Rightarrow> xh_dispatch t v now b
         | None \<Rightarrow> [''Unknown event type='' @ fmt_u (u32_at b 0) @ '' size='' @ fmt_u data_sz @ [NL]]))"

section \<open>The program\<close>

text \<open>The seconds since the start are compared with the limit as unsigned numbers.\<close>

definition xh_limit :: "xh_env \<Rightarrow> int option" where
  "xh_limit v = (if xo_duration v \<noteq> 0 then Some (uint (xo_duration v)) else None)"

record xh_sys =
  xy_opts :: "(char \<times> string) list"
  xy_open :: bool
  xy_load :: int
  xy_attach :: int
  xy_ring :: bool
  xy_turns :: "(bool \<times> int \<times> (string \<times> bytes \<times> u64) list \<times> int) list"

definition xhci_snoop_main :: "xh_sys \<Rightarrow> (int \<times> string list) outcome" where
  "xhci_snoop_main sys =
     (case opt_fold xh_case (xy_opts sys) xh_env0 of
        Inl c \<Rightarrow> Done (c, [])
      | Inr v \<Rightarrow>
          (let status = (\<lambda>err :: int. if err < 0 then - err else 0)
           in if \<not> xy_open sys then Done (1, [])
              else if xy_load sys \<noteq> 0 then Done (status (xy_load sys), [])
              else if xy_attach sys \<noteq> 0 then Done (status (xy_attach sys), [])
              else if \<not> xy_ring sys then Done (1, [])
              else bind_outcome
                (poll_for (xh_limit v) (\<lambda>e out. out @ xh_handle_event v e)
                  (map (\<lambda>(x, res, evs, t). (x, res, evs, uint (of_int t :: u64))) (xy_turns sys)) 0 [])
                (\<lambda>(err, out). Done
                  (status err,
                   [xh_header v] @ out @ (if err < 0 then [''Error polling ring buffer: '' @ show_int err @ [NL]] else [])))))"

section \<open>What holds\<close>

text \<open>The number of a type is its place in the enumeration.\<close>

lemma xhci_event_types_distinct: "distinct xhci_event_types" "length xhci_event_types = 53"
  by (simp_all add: xhci_event_types_def)

lemma xhci_event_type_known: "xhci_event_type_of n = None \<longleftrightarrow> 53 \<le> unat n"
  by (simp add: xhci_event_type_of_def xhci_event_types_distinct)

lemma xhci_event_type_inj: "xhci_event_type_of m = Some t \<Longrightarrow> xhci_event_type_of n = Some t \<Longrightarrow> m = n"
  using nth_eq_iff_index_eq [OF xhci_event_types_distinct(1)] by (auto simp: xhci_event_type_of_def word_unat_eq_iff split: if_splits)

text \<open>Whatever structure is read, its first fields are the same, and so are the filter and the first columns.\<close>

lemmas xh_decoders = xh_slot_ctx_of_def xh_urb_of_def xh_trb_of_def xh_vdev_of_def xh_ring_of_def xh_add_endpoint_of_def xh_address_ctx_of_def
  xh_doorbell_of_def xh_dbg_of_def

lemmas xh_printers = print_event_alloc_dev_def print_event_free_dev_def print_event_urb_enqueue_def print_event_urb_giveback_def
  print_event_handle_event_def print_event_handle_transfer_def print_event_queue_trb_def print_event_setup_device_def print_event_ring_alloc_def
  print_event_add_endpoint_def print_event_address_ctx_def print_event_alloc_virt_device_def print_event_configure_endpoint_def
  print_event_ring_free_def print_event_inc_deq_def print_event_inc_enq_def print_event_ring_ep_doorbell_def print_event_urb_dequeue_def
  print_event_dbg_address_def print_event_slot_ctx_def

lemma xh_print_decoded:
  "xh_print v now (xh_slot_ctx_of b) name detail = xh_print v now (xh_head_of b) name detail"
  "xh_print v now (xh_urb_of b) name detail = xh_print v now (xh_head_of b) name detail"
  "xh_print v now (xh_trb_of b) name detail = xh_print v now (xh_head_of b) name detail"
  "xh_print v now (xh_vdev_of b) name detail = xh_print v now (xh_head_of b) name detail"
  "xh_print v now (xh_ring_of b) name detail = xh_print v now (xh_head_of b) name detail"
  "xh_print v now (xh_add_endpoint_of b) name detail = xh_print v now (xh_head_of b) name detail"
  "xh_print v now (xh_address_ctx_of b) name detail = xh_print v now (xh_head_of b) name detail"
  "xh_print v now (xh_doorbell_of b) name detail = xh_print v now (xh_head_of b) name detail"
  "xh_print v now (xh_dbg_of b) name detail = xh_print v now (xh_head_of b) name detail"
  by (simp_all add: xh_decoders xh_print_def xh_line_def xh_head.defs)

lemma xh_dispatch_prints: "\<exists>name detail. xh_dispatch t v now b = xh_print v now (xh_head_of b) name detail"
  by (cases t; simp only: xh_dispatch.simps xh_printers xh_print_decoded; blast)

definition xh_filtered :: "xh_env \<Rightarrow> bytes \<Rightarrow> bool" where
  "xh_filtered v b = should_filter_event v (xh_pid (xh_head_of b)) (xh_tid (xh_head_of b)) (xh_comm (xh_head_of b))"

text \<open>An event of a known type gives one line if the filter lets it through, and nothing otherwise.\<close>

theorem xh_one_line:
  assumes "unat (u32_at b 0) < 53"
  shows "\<exists>name detail. xh_handle_event v (now, b, sz) = (if xh_filtered v b then [] else [xh_line v now (xh_head_of b) name detail])"
proof -
  obtain t where t: "xhci_event_type_of (u32_at b 0) = Some t" using assms xhci_event_type_known [of "u32_at b 0"] by fastforce
  obtain name detail where "xh_dispatch t v now b = xh_print v now (xh_head_of b) name detail" using xh_dispatch_prints by blast
  then show ?thesis using t by (auto simp: xh_handle_event_def xh_print_def xh_filtered_def)
qed

text \<open>The filter, as a condition: the process, the thread and a part of the name.\<close>

lemma xh_filtered_iff:
  "\<not> xh_filtered v b \<longleftrightarrow>
     (xo_target_pid v = 0 \<or> sint (u32_at b 4) = xo_target_pid v) \<and> (xo_target_tid v = 0 \<or> sint (u32_at b 8) = xo_target_tid v)
     \<and> (\<forall>t. xo_target_comm v = Some t \<longrightarrow> (\<exists>p q. xh_comm (xh_head_of b) = p @ t @ q))"
  by (auto simp: xh_filtered_def should_filter_event_def xh_head_of_def str_in_iff split: option.splits)

text \<open>An event of an unknown type is printed whatever the filter is.\<close>

lemma xh_unknown_not_filtered:
  "53 \<le> unat (u32_at b 0) \<Longrightarrow> xh_handle_event v (now, b, sz) = [''Unknown event type='' @ fmt_u (u32_at b 0) @ '' size='' @ fmt_u sz @ [NL]]"
  by (simp add: xh_handle_event_def xhci_event_type_known [symmetric])

text \<open>Several types are printed under the name of another type, so that their lines cannot be told apart.\<close>

lemma xh_same_lines:
  "xh_dispatch XHCI_FREE_VIRT_DEVICE v now b = xh_dispatch XHCI_ALLOC_VIRT_DEVICE v now b"
  "xh_dispatch XHCI_SETUP_ADDRESSABLE_VIRT_DEVICE v now b = xh_dispatch XHCI_ALLOC_VIRT_DEVICE v now b"
  "xh_dispatch XHCI_RING_EXPANSION v now b = xh_dispatch XHCI_RING_FREE v now b"
  "xh_dispatch XHCI_RING_HOST_DOORBELL v now b = xh_dispatch XHCI_RING_EP_DOORBELL v now b"
  "t \<in> {XHCI_DBG_CANCEL_URB, XHCI_DBG_CONTEXT_CHANGE, XHCI_DBG_INIT, XHCI_DBG_QUIRKS, XHCI_DBG_RESET_EP, XHCI_DBG_RING_EXPANSION} \<Longrightarrow>
     xh_dispatch t v now b = xh_dispatch XHCI_DBG_ADDRESS v now b"
  "t \<in> {XHCI_HANDLE_COMMAND, XHCI_HANDLE_PORT_STATUS, XHCI_HUB_STATUS_DATA, XHCI_GET_PORT_STATUS, XHCI_DBC_ALLOC_REQUEST, XHCI_DBC_FREE_REQUEST,
       XHCI_DBC_GADGET_EP_QUEUE, XHCI_DBC_GIVEBACK_REQUEST, XHCI_DBC_HANDLE_EVENT, XHCI_DBC_HANDLE_TRANSFER, XHCI_DBC_QUEUE_REQUEST} \<Longrightarrow>
     xh_dispatch t v now b = xh_dispatch XHCI_HANDLE_EVENT v now b"
  by auto

text \<open>An argument of \<open>-p\<close> that is not a number traces every process.\<close>

lemma xh_pid_not_a_number: "scan_number arg = None \<Longrightarrow> xh_case (CHR ''p'') arg v = Inr (v\<lparr>xo_target_pid := 0\<rparr>)"
  by (simp add: xh_case_def strtol10_def)

lemma xh_pid_wraps: "xh_case (CHR ''p'') ''4294967296'' v = Inr (v\<lparr>xo_target_pid := 0\<rparr>)"
  by (simp add: xh_case_def strtol10_def scan_number_def is_space_def is_digit_def digits_val.simps digit_val_def)

text \<open>With a limit a run prints every event polled up to the first poll at or after it, in order, and its status is 0.\<close>

lemma xh_limited_run:
  assumes "opt_fold xh_case (xy_opts sys) xh_env0 = Inr v" "xy_open sys" "xy_load sys = 0" "xy_attach sys = 0" "xy_ring sys" "xo_duration v \<noteq> 0"
    "xy_turns sys = turns @ (False, res', evs', t') # rest"
    "\<forall>(x, res, evs, t) \<in> set turns. \<not> x \<and> 0 \<le> res \<and> (of_int t :: u64) < xo_duration v" "0 \<le> res'" "xo_duration v \<le> of_int t'"
  shows "xhci_snoop_main sys = Done (0, [xh_header v] @ concat (map (xh_handle_event v) (polled_for turns @ evs')))"
proof -
  let ?u = "\<lambda>(x, res, evs, t). (x, res, evs, uint (of_int t :: u64))"
  have ok: "\<forall>(x, res, evs, el) \<in> set (map ?u turns). \<not> x \<and> 0 \<le> res \<and> el < uint (xo_duration v)"
    using assms(8) by (auto simp: word_less_def)
  have pol: "polled_for (map ?u turns) = polled_for turns" by (induction turns) (auto simp: polled_for_def)
  have "uint (xo_duration v) \<le> uint (of_int t' :: u64)" using assms(10) by (simp add: word_le_def)
  from poll_for_limit [OF ok assms(9) this, of "\<lambda>e out. out @ xh_handle_event v e" evs' "map ?u rest" 0 "[]"]
  show ?thesis using assms by (simp add: xhci_snoop_main_def xh_limit_def pol fold_append)
qed

end
