(* ===== verification/Proc_Info.thy ===== *)
theory Proc_Info
  imports Ps
begin

text \<open>
  \<open>observe/proc-info.cpp\<close>: what an iterator of the kernel reports of every process. Options, the line of every kind of record with
  the static state of \<open>handle_event\<close>, the polling loop, and the objects that \<open>main\<close> takes and gives back. A record is given by the
  fields that are printed; the times and states are those of \<open>Ps\<close>.
\<close>

section \<open>Options\<close>

record pi_env =
  pn_verbose :: bool
  pn_show_header :: bool
  pn_wide_output :: bool
  pn_show_threads :: bool
  pn_show_io :: bool
  pn_show_traffic :: bool
  pn_show_statm :: bool
  pn_show_status :: bool
  pn_show_schedstat :: bool
  pn_show_ns :: bool
  pn_show_loginuid :: bool

definition pi_env0 :: pi_env where
  "pi_env0 = \<lparr>pn_verbose = False, pn_show_header = True, pn_wide_output = False, pn_show_threads = False, pn_show_io = True,
     pn_show_traffic = True, pn_show_statm = True, pn_show_status = True, pn_show_schedstat = True, pn_show_ns = True, pn_show_loginuid = True\<rparr>"

text \<open>An unknown key is \<open>ARGP_ERR_UNKNOWN\<close>, which argp reports with 64 (\<open>EX_USAGE\<close>).\<close>

definition pi_case :: "char \<Rightarrow> string \<Rightarrow> pi_env \<Rightarrow> int + pi_env" where
  "pi_case key arg v =
     (if key = CHR ''v'' then Inr (v\<lparr>pn_verbose := True\<rparr>)
      else if key = CHR ''H'' then Inr (v\<lparr>pn_show_header := False\<rparr>)
      else if key = CHR ''w'' then Inr (v\<lparr>pn_wide_output := True\<rparr>)
      else if key = CHR ''T'' then Inr (v\<lparr>pn_show_threads := True\<rparr>)
      else if key = CHR ''I'' then Inr (v\<lparr>pn_show_io := False\<rparr>)
      else if key = CHR ''t'' then Inr (v\<lparr>pn_show_traffic := False\<rparr>)
      else if key = CHR ''m'' then Inr (v\<lparr>pn_show_statm := False\<rparr>)
      else if key = CHR ''s'' then Inr (v\<lparr>pn_show_status := False\<rparr>)
      else if key = CHR ''S'' then Inr (v\<lparr>pn_show_schedstat := False\<rparr>)
      else if key = CHR ''n'' then Inr (v\<lparr>pn_show_ns := False\<rparr>)
      else if key = CHR ''l'' then Inr (v\<lparr>pn_show_loginuid := False\<rparr>)
      else Inl 64)"

section \<open>Records\<close>

record pi_stat =
  pq_state :: u32
  pq_vsize :: u64
  pq_rss :: u64
  pq_utime :: u64
  pq_stime :: u64
  pq_ppid :: int
  pq_pgid :: int
  pq_sid :: int
  pq_nice :: int

record pi_ns =
  pm_cgroup :: u32
  pm_ipc :: u32
  pm_mnt :: u32
  pm_net :: u32
  pm_pid :: u32
  pm_pid_for_children :: u32
  pm_time :: u32
  pm_time_for_children :: u32
  pm_user :: u32
  pm_uts :: u32

text \<open>
  The data behind a header, by its type: \<open>PROC_PID_IO\<close> has \<open>rchar\<close>, \<open>wchar\<close>, \<open>read_bytes\<close>, \<open>write_bytes\<close>; \<open>PROC_PID_traffic\<close> \<open>rbytes\<close>,
  \<open>wbytes\<close>; \<open>PROC_PID_STATM\<close> \<open>size\<close>, \<open>resident\<close>, \<open>shared\<close>, \<open>text\<close>, \<open>data\<close>; \<open>PROC_PID_STATUS\<close> \<open>state\<close>, two \<open>uid\<close>s, two \<open>gid\<close>s, \<open>tracer_pid\<close>;
  \<open>PROC_PID_SCHEDSTAT\<close> \<open>cpu_time\<close>, \<open>rq_wait_time\<close>, \<open>timeslices\<close>; \<open>PROC_PID_FD\<close> \<open>fd\<close>, \<open>inode\<close>, \<open>dev\<close>, \<open>i_mode\<close>.
\<close>

datatype pi_data =
    PROC_PID_STAT pi_stat
  | PROC_PID_IO u64 u64 u64 u64
  | PROC_PID_traffic u64 u64
  | PROC_PID_STATM u64 u64 u64 u64 u64
  | PROC_PID_STATUS u32 u32 u32 u32 u32 int
  | PROC_PID_SCHEDSTAT u64 u64 u64
  | PROC_PID_FD int u64 u64 u32
  | PROC_PID_NS pi_ns
  | PROC_PID_LOGINUID u32
  | PROC_PID_OTHER

record pi_hdr =
  ph_type :: int
  ph_pid :: int
  ph_tgid :: int
  ph_comm :: string
  ph_data :: pi_data

text \<open>\<open>std::oct\<close>.\<close>

fun show_oct :: "nat \<Rightarrow> string" where
  "show_oct n = (if n < 8 then [digit_char n] else show_oct (n div 8) @ [digit_char (n mod 8)])"

declare show_oct.simps [simp del]

definition pi_header :: "bool \<Rightarrow> string" where
  "pi_header verbose =
     pad_left 5 ''PID'' @ '' '' @ pad_left 5 ''TGID'' @ '' '' @ pad_left 16 ''COMM'' @ '' '' @ pad_left 5 ''STATE'' @ '' '' @ pad_left 8 ''TYPE'' @ '' ''
     @ (if verbose then pad_left 8 ''VSIZE'' @ '' '' @ pad_left 8 ''RSS'' @ '' '' @ pad_left 8 ''UTIME'' @ '' '' @ pad_left 8 ''STIME'' @ '' '' else [])
     @ ''INFO'' @ [NL]"

text \<open>The first columns, and the four that are only shown in verbose mode.\<close>

definition pi_columns :: "pi_hdr \<Rightarrow> string \<Rightarrow> string \<Rightarrow> string" where
  "pi_columns h state label =
     pad_left 5 (show_int (ph_pid h)) @ '' '' @ pad_left 5 (show_int (ph_tgid h)) @ '' '' @ pad_left 16 (c_text (ph_comm h)) @ '' ''
     @ pad_left 5 state @ '' '' @ pad_left 8 label @ '' ''"

definition pi_cells :: "bool \<Rightarrow> string list \<Rightarrow> string" where
  "pi_cells verbose cs = (if verbose then concat (map (\<lambda>c. pad_left 8 c @ '' '') cs) else [])"

abbreviation blanks :: "string list" where
  "blanks \<equiv> ['' '', '' '', '' '', '' '']"

text \<open>A number of bytes in kilobytes, and a number of pages in kilobytes.\<close>

definition kb :: "u64 \<Rightarrow> string" where
  "kb n = fmt_u (n div 1024) @ ''KB''"

definition pages_kb :: "u64 \<Rightarrow> string" where
  "pages_kb n = fmt_u (n * 4) @ ''KB''"

text \<open>The line of a record, if its kind is shown. \<open>PROC_PID_STAT\<close> has no option of its own and depends on the one for the heading.\<close>

definition pi_row :: "u64 \<Rightarrow> pi_env \<Rightarrow> pi_hdr \<Rightarrow> string option" where
  "pi_row tck v h =
     (let line = (\<lambda>state label cells info. Some (pi_columns h state label @ pi_cells (pn_verbose v) cells @ info @ [NL]))
      in case ph_data h of
           PROC_PID_STAT s \<Rightarrow>
             if \<not> pn_show_header v then None
             else line [get_state_char (pq_state s)] ''STAT''
               [fmt_u (pq_vsize s div 1024), fmt_u (pq_rss s div 1024), ps_format_time tck (pq_utime s), ps_format_time tck (pq_stime s)]
               (''PPID:'' @ show_int (pq_ppid s) @ '' PGID:'' @ show_int (pq_pgid s) @ '' SID:'' @ show_int (pq_sid s) @ '' NICE:'' @ show_int (pq_nice s))
         | PROC_PID_IO r w rb wb \<Rightarrow>
             if \<not> pn_show_io v then None
             else line '' '' ''IO'' blanks (''R:'' @ kb r @ '' W:'' @ kb w @ '' RB:'' @ kb rb @ '' WB:'' @ kb wb)
         | PROC_PID_traffic r w \<Rightarrow>
             if \<not> pn_show_traffic v then None else line '' '' ''NET'' blanks (''IN:'' @ kb r @ '' OUT:'' @ kb w)
         | PROC_PID_STATM sz res sh tx dt \<Rightarrow>
             if \<not> pn_show_statm v then None
             else line '' '' ''MEM'' [fmt_u (sz * 4), fmt_u (res * 4), '' '', '' '']
               (''SIZE:'' @ pages_kb sz @ '' RES:'' @ pages_kb res @ '' SHARED:'' @ pages_kb sh @ '' TEXT:'' @ pages_kb tx @ '' DATA:'' @ pages_kb dt)
         | PROC_PID_STATUS st u0 u1 g0 g1 tracer \<Rightarrow>
             if \<not> pn_show_status v then None
             else line [get_state_char st] ''STATUS'' blanks
               (''UID:'' @ fmt_u u0 @ '' EUID:'' @ fmt_u u1 @ '' GID:'' @ fmt_u g0 @ '' EGID:'' @ fmt_u g1 @ '' TRACER:'' @ show_int tracer)
         | PROC_PID_SCHEDSTAT cpu wait slices \<Rightarrow>
             if \<not> pn_show_schedstat v then None
             else line '' '' ''SCHED'' blanks
               (''CPU:'' @ fmt_u (cpu div 1000000) @ ''ms'' @ '' WAIT:'' @ fmt_u (wait div 1000000) @ ''ms'' @ '' SLICES:'' @ fmt_u slices)
         | PROC_PID_FD fd inode dev mode \<Rightarrow>
             line '' '' ''FD'' blanks
               (''FD:'' @ show_int fd @ '' INODE:'' @ fmt_u inode @ '' DEV:'' @ show_hex (unat dev) @ '' MODE:'' @ show_oct (unat mode))
         | PROC_PID_NS n \<Rightarrow>
             if \<not> pn_show_ns v then None
             else line '' '' ''NS'' blanks
               (''CGROUP:['' @ fmt_u (pm_cgroup n) @ ''] IPC:['' @ fmt_u (pm_ipc n) @ ''] MNT:['' @ fmt_u (pm_mnt n) @ ''] NET:['' @ fmt_u (pm_net n)
                @ ''] PID:['' @ fmt_u (pm_pid n) @ ''] PID_FOR_CHILDREN:['' @ fmt_u (pm_pid_for_children n) @ ''] TIME:['' @ fmt_u (pm_time n)
                @ ''] TIME_FOR_CHILDREN:['' @ fmt_u (pm_time_for_children n) @ ''] USER:['' @ fmt_u (pm_user n) @ ''] UTS:['' @ fmt_u (pm_uts n) @ '']'')
         | PROC_PID_LOGINUID u \<Rightarrow>
             if \<not> pn_show_loginuid v then None else line '' '' ''LOGINUID'' blanks (fmt_u u)
         | PROC_PID_OTHER \<Rightarrow>
             if \<not> pn_verbose v then None
             else Some (pi_columns h '' '' ''UNKNOWN'' @ ''Type:'' @ show_int (ph_type h) @ [NL]))"

text \<open>What verbose mode reports of every event.\<close>

definition pi_received :: "nat \<Rightarrow> pi_hdr \<Rightarrow> nat \<Rightarrow> string" where
  "pi_received n h data_sz =
     ''Received event #'' @ show_nat n @ '', type: '' @ show_int (ph_type h) @ '', size: '' @ show_nat data_sz
     @ '' bytes, pid: '' @ show_int (ph_pid h) @ '', comm: '' @ c_text (ph_comm h) @ [NL]"

text \<open>\<open>handle_event\<close>; the outputs and the static variables are those of \<open>Ps\<close>.\<close>

definition pi_handle_event :: "u64 \<Rightarrow> pi_env \<Rightarrow> pi_hdr \<times> nat \<Rightarrow> ps_out \<Rightarrow> ps_out" where
  "pi_handle_event tck v ev st =
     (case ev of (h, data_sz) \<Rightarrow>
        let st1 = (if pn_verbose v
                   then st\<lparr>po_event_count := po_event_count st + 1,
                           po_cerr := po_cerr st @ [pi_received (po_event_count st + 1) h data_sz]\<rparr>
                   else st)
        in if \<not> pn_show_threads v \<and> ph_pid h \<noteq> ph_tgid h then st1
           else let st2 = (if pn_show_header v \<and> \<not> po_header_printed st1
                           then st1\<lparr>po_cout := po_cout st1 @ [pi_header (pn_verbose v)], po_header_printed := True\<rparr>
                           else st1)
                in case pi_row tck v h of None \<Rightarrow> st2 | Some l \<Rightarrow> st2\<lparr>po_cout := po_cout st2 @ [l]\<rparr>)"

section \<open>The program\<close>

text \<open>The loop goes on until a poll gives nothing or fails; an interrupted poll is repeated.\<close>

fun pi_poll :: "u64 \<Rightarrow> pi_env \<Rightarrow> (int \<times> (pi_hdr \<times> nat) list) list \<Rightarrow> ps_out \<Rightarrow> ps_out outcome" where
  "pi_poll tck v [] st = Blocked"
| "pi_poll tck v ((err, evs) # turns) st =
     (let st' = fold (pi_handle_event tck v) evs st
      in if err < 0 \<and> err \<noteq> - EINTR then Done (st'\<lparr>po_cerr := po_cerr st' @ [''Error polling ring buffer: '' @ show_int err @ [NL]]\<rparr>)
         else if err = 0 then Done st'
         else pi_poll tck v turns st')"

record pi_sys =
  py_opts :: "(char \<times> string) list"
  py_sigaction :: bool
  py_open :: bool
  py_load :: bool
  py_attach :: bool
  py_ring :: bool
  py_iter :: bool
  py_tck :: u64
  py_reads :: "int list"
  py_turns :: "(int \<times> (pi_hdr \<times> nat) list) list"

text \<open>
  The status, what is taken and given back, and what the records print. The result of the program \<open>proc_info_init\<close>, run once
  before the others are attached, is ignored.
\<close>

definition proc_info_main :: "pi_sys \<Rightarrow> (int \<times> ps_res res_event list \<times> ps_out) outcome" where
  "proc_info_main sys =
     (case opt_fold pi_case (py_opts sys) pi_env0 of
        Inl c \<Rightarrow> Done (c, [], ps_out0)
      | Inr v \<Rightarrow>
          if \<not> py_sigaction sys then Done (1, [], ps_out0)
          else if \<not> py_open sys then Done (1, [], ps_out0)
          else if \<not> py_load sys \<or> \<not> py_attach sys then Done (1, [Acq PsObject, Rel PsObject], ps_out0)
          else if \<not> py_ring sys then Done (1, [Acq PsObject, Acq PsLinks, Rel PsLinks, Rel PsObject], ps_out0)
          else if \<not> py_iter sys then Done (1, [Acq PsObject, Acq PsLinks, Acq PsRing], ps_out0)
          else bind_outcome (read_out (py_reads sys)) (\<lambda>u.
            bind_outcome (pi_poll (py_tck sys) v (py_turns sys) ps_out0) (\<lambda>out.
              Done (0, [Acq PsObject, Acq PsLinks, Acq PsRing, Acq PsIter, Rel PsIter, Rel PsRing, Rel PsLinks, Rel PsObject],
                    out\<lparr>po_cerr := po_cerr out @ [''Cleaning up resources...'' @ [NL]]\<rparr>))))"

section \<open>What holds\<close>

text \<open>Records of threads are left out unless they are asked for.\<close>

definition pi_selected :: "pi_env \<Rightarrow> pi_hdr \<times> nat \<Rightarrow> bool" where
  "pi_selected v ev \<longleftrightarrow> pn_show_threads v \<or> ph_pid (fst ev) = ph_tgid (fst ev)"

definition pi_rows :: "u64 \<Rightarrow> pi_env \<Rightarrow> (pi_hdr \<times> nat) list \<Rightarrow> string list" where
  "pi_rows tck v evs = List.map_filter (\<lambda>ev. pi_row tck v (fst ev)) (filter (pi_selected v) evs)"

lemma pi_event:
  "po_cout (pi_handle_event tck v (h, n) st) = po_cout st
     @ (if pi_selected v (h, n)
        then (if pn_show_header v \<and> \<not> po_header_printed st then [pi_header (pn_verbose v)] else []) @ (case pi_row tck v h of None \<Rightarrow> [] | Some l \<Rightarrow> [l])
        else [])"
  "po_header_printed (pi_handle_event tck v (h, n) st) \<longleftrightarrow> po_header_printed st \<or> pi_selected v (h, n) \<and> pn_show_header v"
  subgoal by (cases "pi_row tck v h") (auto simp: pi_handle_event_def pi_selected_def Let_def)
  subgoal by (cases "pi_row tck v h") (auto simp: pi_handle_event_def pi_selected_def Let_def)
  done

lemma pi_rows_Cons:
  "pi_rows tck v ((h, n) # evs) = (if pi_selected v (h, n) then (case pi_row tck v h of None \<Rightarrow> [] | Some l \<Rightarrow> [l]) else []) @ pi_rows tck v evs"
  by (cases "pi_row tck v h") (simp_all add: pi_rows_def List.map_filter_simps)

text \<open>The heading comes once, before the first selected record, and the records whose kind is shown follow in order.\<close>

lemma pi_events:
  "po_cout (fold (pi_handle_event tck v) evs st)
     = po_cout st @ (if filter (pi_selected v) evs \<noteq> [] \<and> pn_show_header v \<and> \<not> po_header_printed st then [pi_header (pn_verbose v)] else [])
       @ pi_rows tck v evs"
proof (induction evs arbitrary: st)
  case Nil
  show ?case by (simp add: pi_rows_def List.map_filter_simps)
next
  case (Cons e evs)
  obtain h n where e: "e = (h, n)" by (cases e)
  show ?case unfolding fold.simps comp_def Cons.IH e pi_event pi_rows_Cons by auto
qed

lemma pi_poll_all:
  assumes "\<forall>(err, evs) \<in> set turns. err > 0 \<or> err = - EINTR"
  shows "pi_poll tck v (turns @ (0, evs') # rest) st = Done (fold (pi_handle_event tck v) (concat (map snd turns) @ evs') st)"
  using assms
proof (induction turns arbitrary: st)
  case (Cons t ts)
  obtain err evs where t: "t = (err, evs)" by (cases t)
  show ?case using Cons by (auto simp: t Let_def)
qed simp

text \<open>A run prints the heading and the shown lines of everything that the iterator put into the ring.\<close>

theorem proc_info_prints:
  assumes "opt_fold pi_case (py_opts sys) pi_env0 = Inr v" "py_sigaction sys" "py_open sys" "py_load sys" "py_attach sys" "py_ring sys" "py_iter sys"
    "\<exists>n \<in> set (py_reads sys). n \<le> 0" "py_turns sys = turns @ (0, evs') # rest" "\<forall>(err, evs) \<in> set turns. err > 0 \<or> err = - EINTR"
  shows "\<exists>tr out. proc_info_main sys = Done (0, tr, out) \<and> (\<forall>r. balance r tr = 0)
     \<and> po_cout out = (if filter (pi_selected v) (concat (map snd turns) @ evs') \<noteq> [] \<and> pn_show_header v then [pi_header (pn_verbose v)] else [])
          @ pi_rows (py_tck sys) v (concat (map snd turns) @ evs')"
  using assms pi_poll_all [OF assms(10), of "py_tck sys" v evs' rest ps_out0] read_out_ends [OF assms(8)]
    pi_events [of "py_tck sys" v "concat (map snd turns) @ evs'" ps_out0]
  by (simp add: proc_info_main_def ps_out0_def)

text \<open>Without the heading there are no \<open>PROC_PID_STAT\<close> lines at all; descriptors are always shown; \<open>-w\<close> does nothing.\<close>

lemma no_header_hides_stat: "ph_data h = PROC_PID_STAT s \<Longrightarrow> pi_row tck v h = None \<longleftrightarrow> \<not> pn_show_header v"
  by (simp add: pi_row_def Let_def)

lemma pi_fd_always_shown: "ph_data h = PROC_PID_FD fd inode dev mode \<Longrightarrow> pi_row tck v h \<noteq> None"
  by (simp add: pi_row_def Let_def)

lemma pi_wide_without_effect: "pi_row tck (v\<lparr>pn_wide_output := w\<rparr>) h = pi_row tck v h"
  by (cases "ph_data h") (simp_all add: pi_row_def)

text \<open>When the iterator cannot be made, the ring and the program stay; a failed poll still gives status 0.\<close>

lemma proc_info_iterator_failure_leaks:
  assumes "opt_fold pi_case (py_opts sys) pi_env0 = Inr v" "py_sigaction sys" "py_open sys" "py_load sys" "py_attach sys" "py_ring sys" "\<not> py_iter sys"
  shows "\<exists>tr out. proc_info_main sys = Done (1, tr, out) \<and> balance PsRing tr = 1 \<and> balance PsObject tr = 1"
  using assms by (simp add: proc_info_main_def)

lemma proc_info_poll_failure_status:
  assumes "opt_fold pi_case (py_opts sys) pi_env0 = Inr v" "py_sigaction sys" "py_open sys" "py_load sys" "py_attach sys" "py_ring sys" "py_iter sys"
    "\<exists>n \<in> set (py_reads sys). n \<le> 0" "py_turns sys = (err, evs) # rest" "err < 0" "err \<noteq> - EINTR"
  shows "\<exists>tr out. proc_info_main sys = Done (0, tr, out)"
  using assms read_out_ends [OF assms(8)] by (simp add: proc_info_main_def Let_def)

end
