(* ===== verification/Task_Counts.thy ===== *)
theory Task_Counts
  imports Key_Walk Hrtimer
begin

text \<open>
  \<open>observe/switch_count.c\<close> and \<open>observe/wakeup_count.c\<close>: switches and wake-ups of tasks. Options, the bar of stars, the three walks
  over the map of counts, and \<open>main\<close>. The structure of a key is in a header that is absent: \<open>mk\<close> makes a key from a process number,
  with every other byte 0, and \<open>pid_of\<close> reads the number.
\<close>

section \<open>Options\<close>

record tc_env =
  tv_interval :: int
  tv_pid :: int
  tv_verbose :: bool
  tv_cgroupspath :: "string option"

definition tc_env0 :: tc_env where
  "tc_env0 = \<lparr>tv_interval = 99999999, tv_pid = 0, tv_verbose = False, tv_cgroupspath = None\<rparr>"

text \<open>\<open>parse_arg\<close>: \<open>-h\<close> ends the program with 0, a number out of range or an unknown key with 64 (\<open>EX_USAGE\<close>).\<close>

definition tc_case :: "char \<Rightarrow> string \<Rightarrow> tc_env \<Rightarrow> int + tc_env" where
  "tc_case key arg v =
     (if key = CHR ''h'' then Inl 0
      else if key = CHR ''v'' then Inr (v\<lparr>tv_verbose := True\<rparr>)
      else if key = CHR ''p'' then (case strtol10 arg of (n, r, erange) \<Rightarrow> if erange then Inl 64 else Inr (v\<lparr>tv_pid := to_int32 n\<rparr>))
      else if key = CHR ''c'' then Inr (v\<lparr>tv_cgroupspath := Some arg\<rparr>)
      else Inl 64)"

section \<open>The bar\<close>

text \<open>\<open>print_stars\<close>: the product wraps at 32 bits, and a maximum of 0 is a division by zero.\<close>

definition num_stars :: "u32 \<Rightarrow> u32 \<Rightarrow> u32 \<Rightarrow> nat" where
  "num_stars val val_max width = unat (min val val_max * width div val_max)"

definition print_stars :: "u32 \<Rightarrow> u32 \<Rightarrow> u32 \<Rightarrow> string outcome" where
  "print_stars val val_max width =
     (if val_max = 0 then Fault
      else Done (replicate (num_stars val val_max width) CHR ''*'' @ replicate (unat width - num_stars val val_max width) CHR '' ''
        @ (if val > val_max then ''+'' else [])))"

section \<open>The walks\<close>

record hist =
  hc_count :: u64
  hc_comm :: string

text \<open>
  A walk that looks up every entry: the entries seen and 0, or those before the first lookup that fails and -1. \<open>lk\<close> gives the
  result of a lookup; the first argument is fuel.
\<close>

fun hist_walk :: "nat \<Rightarrow> ('k \<Rightarrow> int) \<Rightarrow> ('k \<times> hist) list \<Rightarrow> 'k \<Rightarrow> (('k \<times> hist) list \<times> int) outcome" where
  "hist_walk 0 lk m key = Blocked"
| "hist_walk (Suc n) lk m key =
     (case next_key (map fst m) key of
        None \<Rightarrow> Done ([], 0)
      | Some nxt \<Rightarrow>
          if lk nxt < 0 then Done ([], - 1)
          else bind_outcome (hist_walk n lk m nxt) (\<lambda>(hs, err). Done ((nxt, the (map_of m nxt)) # hs, err)))"

definition max_of :: "('k \<times> hist) list \<Rightarrow> u64" where
  "max_of hs = fold (\<lambda>(k, h) mx. if hc_count h > mx then hc_count h else mx) hs 0"

text \<open>The third walk removes the entries; each turn removes one, so it ends.\<close>

function hist_clear :: "('k \<Rightarrow> int) \<Rightarrow> 'k \<Rightarrow> ('k \<times> hist) list \<Rightarrow> int \<times> ('k \<times> hist) list" where
  "hist_clear del key m =
     (case next_key (map fst m) key of
        None \<Rightarrow> (0, m)
      | Some nxt \<Rightarrow> if del nxt < 0 then (- 1, m) else hist_clear del nxt (delete_key nxt m))"
  by pat_completeness auto

termination
  by (relation "measure (\<lambda>(del, key, m). length m)") (auto dest!: next_key_member intro: delete_key_shorter simp: image_iff)

declare hist_clear.simps [simp del]

text \<open>What differs between the two programs: the key from which a walk starts, the title and the width of a name.\<close>

record 'k counter =
  ct_start :: 'k
  ct_title :: string
  ct_width :: nat

definition switch_count :: "(int \<Rightarrow> 'k) \<Rightarrow> 'k counter" where
  "switch_count mk = \<lparr>ct_start = mk (- 2), ct_title = ''max_count = '', ct_width = 15\<rparr>"

definition wakeup_count :: "(int \<Rightarrow> 'k) \<Rightarrow> 'k counter" where
  "wakeup_count mk = \<lparr>ct_start = mk 0, ct_title = ''max_wakeup_count = '', ct_width = 20\<rparr>"

fun hist_lines :: "('k \<Rightarrow> int) \<Rightarrow> nat \<Rightarrow> u64 \<Rightarrow> ('k \<times> hist) list \<Rightarrow> string list outcome" where
  "hist_lines pid_of w mx [] = Done []"
| "hist_lines pid_of w mx ((k, h) # hs) =
     bind_outcome (print_stars (ucast (hc_count h)) (ucast mx) 40) (\<lambda>bar.
       bind_outcome (hist_lines pid_of w mx hs) (\<lambda>ls.
         Done ((pad_right 8 (show_int (pid_of k)) @ ''  '' @ pad_right w (c_text (hc_comm h)) @ ''  '' @ pad_right 10 (fmt_u (hc_count h)) @ '' |'' @ bar @ ''|'' @ [NL]) # ls)))"

text \<open>
  \<open>print_log2_hists\<close>. The kernel goes on counting, so that each walk has a map of its own. The result is the value returned, what
  is printed, and what the third walk leaves.
\<close>

record 'k hist_round =
  hd_max :: "('k \<times> hist) list"
  hd_print :: "('k \<times> hist) list"
  hd_clear :: "('k \<times> hist) list"
  hd_lookup :: "'k \<Rightarrow> int"
  hd_delete :: "'k \<Rightarrow> int"

definition hist_titles :: "'k counter \<Rightarrow> u64 \<Rightarrow> string list" where
  "hist_titles c mx =
     [ct_title c @ fmt_u mx @ [NL], pad_right 8 ''pid'' @ ''  '' @ pad_right 20 ''comm'' @ ''  '' @ pad_right 10 ''count'' @ [NL]]"

definition print_log2_hists :: "('k \<Rightarrow> int) \<Rightarrow> 'k counter \<Rightarrow> 'k hist_round \<Rightarrow> (int \<times> string list \<times> ('k \<times> hist) list) outcome" where
  "print_log2_hists pid_of c r =
     bind_outcome (hist_walk (length (hd_max r) + 1) (hd_lookup r) (hd_max r) (ct_start c)) (\<lambda>(hs1, err1).
       if err1 < 0 then Done (- 1, [], hd_clear r)
       else bind_outcome (hist_walk (length (hd_print r) + 1) (hd_lookup r) (hd_print r) (ct_start c)) (\<lambda>(hs2, err2).
         bind_outcome (hist_lines pid_of (ct_width c) (max_of hs1) hs2) (\<lambda>ls.
           if err2 < 0 then Done (- 1, hist_titles c (max_of hs1) @ ls, hd_clear r)
           else case hist_clear (hd_delete r) (ct_start c) (hd_clear r) of (err3, rest) \<Rightarrow> Done (err3, hist_titles c (max_of hs1) @ ls, rest))))"

section \<open>The program\<close>

text \<open>The loop: the result of a round is not looked at.\<close>

fun hist_loop :: "('k \<Rightarrow> int) \<Rightarrow> 'k counter \<Rightarrow> (bool \<times> 'k hist_round) list \<Rightarrow> string list outcome" where
  "hist_loop pid_of c [] = Blocked"
| "hist_loop pid_of c ((stop, r) # turns) =
     (if stop then Done []
      else bind_outcome (print_log2_hists pid_of c r) (\<lambda>(err, out, rest).
        bind_outcome (hist_loop pid_of c turns) (\<lambda>outs. Done ([[NL]] @ out @ outs))))"

record 'k tc_sys =
  tt_opts :: "(char \<times> string) list"
  tt_open :: bool
  tt_load :: int
  tt_cgroup :: "string \<Rightarrow> bool"
  tt_update :: bool
  tt_attach :: int
  tt_signal :: bool
  tt_turns :: "(bool \<times> 'k hist_round) list"

definition count_titles :: "string list" where
  "count_titles =
     [''Successfully started! Please run `sudo cat /sys/kernel/debug/tracing/trace_pipe` to see output of the BPF programs.'' @ [NL],
      ''Tracing wakeup count... Hit Ctrl-C to end.'' @ [NL]]"

text \<open>The status, what is taken and given back, the settings \<open>targ_tgid\<close> and \<open>filter_cg\<close>, and the output.\<close>

definition task_count_main :: "('k \<Rightarrow> int) \<Rightarrow> 'k counter \<Rightarrow> 'k tc_sys \<Rightarrow> (int \<times> hr_res res_event list \<times> (int \<times> bool) option \<times> string list) outcome" where
  "task_count_main pid_of c sys =
     (case opt_fold tc_case (tt_opts sys) tc_env0 of
        Inl e \<Rightarrow> Done (e, [], None, [])
      | Inr v \<Rightarrow>
          if \<not> tt_open sys then Done (1, [], None, [])
          else
            (let ro = Some (tv_pid v, tv_cgroupspath v \<noteq> None);
                 cg = (case tv_cgroupspath v of None \<Rightarrow> [] | Some p \<Rightarrow> if tt_cgroup sys p then [Acq HrCgroup] else []);
                 tr = Acq HrSkel # cg @ [Rel HrSkel]
             in if tt_load sys \<noteq> 0 then Done (- tt_load sys, [Acq HrSkel, Rel HrSkel], ro, [])
                else if (case tv_cgroupspath v of None \<Rightarrow> False | Some p \<Rightarrow> \<not> tt_cgroup sys p \<or> \<not> tt_update sys) then Done (0, tr, ro, [])
                else if tt_attach sys \<noteq> 0 then Done (- tt_attach sys, tr, ro, [])
                else if \<not> tt_signal sys then Done (0, tr, ro, [])
                else bind_outcome (hist_loop pid_of c (tt_turns sys)) (\<lambda>out. Done (0, tr, ro, count_titles @ out))))"

text \<open>The two programs.\<close>

definition switch_count_main :: "(int \<Rightarrow> 'k) \<Rightarrow> ('k \<Rightarrow> int) \<Rightarrow> 'k tc_sys \<Rightarrow> (int \<times> hr_res res_event list \<times> (int \<times> bool) option \<times> string list) outcome" where
  "switch_count_main mk pid_of = task_count_main pid_of (switch_count mk)"

definition wakeup_print_log2_hists :: "(int \<Rightarrow> 'k) \<Rightarrow> ('k \<Rightarrow> int) \<Rightarrow> 'k hist_round \<Rightarrow> (int \<times> string list \<times> ('k \<times> hist) list) outcome" where
  "wakeup_print_log2_hists mk pid_of = print_log2_hists pid_of (wakeup_count mk)"

definition wakeup_count_main :: "(int \<Rightarrow> 'k) \<Rightarrow> ('k \<Rightarrow> int) \<Rightarrow> 'k tc_sys \<Rightarrow> (int \<times> hr_res res_event list \<times> (int \<times> bool) option \<times> string list) outcome" where
  "wakeup_count_main mk pid_of = task_count_main pid_of (wakeup_count mk)"

section \<open>What holds\<close>

text \<open>A walk visits exactly the entries behind its start.\<close>

lemma hist_walk_split:
  assumes "distinct (map fst m)" "m = pre @ (key, h) # post" "length post < n" "\<forall>k \<in> fst ` set m. 0 \<le> lk k"
  shows "hist_walk n lk m key = Done (post, 0)"
  using assms(2,3)
proof (induction post arbitrary: pre key h n)
  case Nil
  then obtain n' where "n = Suc n'" by (cases n) auto
  then show ?case using Nil assms(1) by (auto simp: next_key_split)
next
  case (Cons e post)
  obtain k h' where e: "e = (k, h')" by (cases e)
  obtain n' where n: "n = Suc n'" "length post < n'" using Cons.prems(2) by (cases n) auto
  have nxt: "next_key (map fst m) key = Some k" using Cons.prems(1) e assms(1) by (simp add: next_key_split)
  have "m = (pre @ [(key, h)]) @ (k, h') # post" using Cons.prems(1) e by simp
  then have "hist_walk n' lk m k = Done (post, 0)" using Cons.IH n(2) by blast
  moreover have "map_of m k = Some h'" using assms(1) Cons.prems(1) e by (intro map_of_is_SomeI) auto
  moreover have "\<not> lk k < 0" using assms(4) Cons.prems(1) e by (auto simp: not_less)
  ultimately show ?case using nxt n(1) e by simp
qed

lemma hist_walk_exact:
  assumes "distinct (map fst m)" "\<forall>k \<in> fst ` set m. 0 \<le> lk k"
  shows "hist_walk (length m + 1) lk m key = Done (behind key m, 0)"
proof (cases "key \<in> fst ` set m")
  case True
  then obtain h where "(key, h) \<in> set m" by auto
  then obtain pre post where m: "m = pre @ (key, h) # post" by (meson split_list)
  then have "length post < length m + 1" "key \<notin> fst ` set pre" using assms(1) by auto
  then show ?thesis using hist_walk_split [OF assms(1) m _ assms(2), of "length m + 1"] behind_split [of key pre h post] m by simp
next
  case False
  show ?thesis
  proof (cases m)
    case (Cons e es)
    obtain k h where e: "e = (k, h)" by (cases e)
    have nxt: "next_key (map fst m) key = Some k" using False Cons e by (simp add: next_key_absent)
    have "hist_walk (length m) lk m k = Done (es, 0)" using hist_walk_split [OF assms(1) _ _ assms(2), of "[]" k h es "length m"] Cons e
      by (simp del: hist_walk.simps)
    moreover have "\<not> lk k < 0" "map_of m k = Some h" using assms(2) Cons e by auto
    ultimately show ?thesis using False nxt Cons e by simp
  qed (simp add: next_key_def)
qed

lemma hist_clear_absent:
  assumes "key \<notin> fst ` set m" "\<And>k. 0 \<le> del k"
  shows "hist_clear del key m = (0, [])"
  using assms(1)
proof (induction "length m" arbitrary: key m rule: less_induct)
  case less
  show ?case
  proof (cases m)
    case Nil
    then show ?thesis by (simp add: hist_clear.simps next_key_def)
  next
    case (Cons e es)
    have nxt: "next_key (map fst m) key = Some (fst e)" using less.prems Cons by (simp add: next_key_absent)
    have "length (delete_key (fst e) m) < length m" using Cons by (intro delete_key_shorter) simp
    then have "hist_clear del (fst e) (delete_key (fst e) m) = (0, [])" using less.hyps delete_key_gone by metis
    then show ?thesis using nxt assms(2) by (simp add: hist_clear.simps [of del key] not_less)
  qed
qed

text \<open>The maximum is one of the counts and none is above it.\<close>

lemma max_of_Max: "max_of hs = Max (insert 0 (hc_count ` snd ` set hs))"
proof -
  have "fold (\<lambda>(k, h) mx. if hc_count h > mx then hc_count h else mx) hs (m0 :: u64) = fold max (map (hc_count \<circ> snd) hs) m0" for m0
    by (induction hs arbitrary: m0) (auto simp: max_def)
  then show ?thesis using Max.set_eq_fold [of 0 "map (hc_count \<circ> snd) hs", symmetric] by (simp add: max_of_def image_comp)
qed

lemma max_of_bound: "(k, h) \<in> set hs \<Longrightarrow> hc_count h \<le> max_of hs"
  unfolding max_of_Max by (rule Max_ge) force+

text \<open>A bar has forty columns, and a count that is not above the maximum gets its share of stars.\<close>

lemma num_stars_exact:
  assumes "unat val_max * 40 < 2 ^ 32" "val \<le> val_max"
  shows "num_stars val val_max 40 = unat val * 40 div unat val_max"
proof -
  have "unat val * 40 < 2 ^ 32" using assms by (auto simp: word_le_nat_alt)
  then have "unat (val * 40) = unat val * 40" by (simp add: unat_mult_lem [THEN iffD1])
  then show ?thesis using assms(2) by (simp add: num_stars_def min_def unat_div_distrib)
qed

lemma print_stars_width:
  assumes "val_max \<noteq> 0" "unat val_max * 40 < 2 ^ 32" "val \<le> val_max"
  shows "\<exists>bar. print_stars val val_max 40 = Done bar \<and> length bar = 40"
proof -
  have "unat val * 40 div unat val_max \<le> 40"
    using assms(3) by (metis div_le_mono div_mult_self1_is_m mult_le_mono1 nat_neq_iff unat_eq_0 word_le_nat_alt assms(1) div_mult_self_is_m mult.commute neq0_conv)
  then show ?thesis using assms by (auto simp: print_stars_def num_stars_exact)
qed

text \<open>Lines are printed if the maximum is not 0 in 32 bits, one for every entry.\<close>

definition hist_line :: "('k \<Rightarrow> int) \<Rightarrow> nat \<Rightarrow> u64 \<Rightarrow> 'k \<times> hist \<Rightarrow> string \<Rightarrow> string" where
  "hist_line pid_of w mx e bar =
     pad_right 8 (show_int (pid_of (fst e))) @ ''  '' @ pad_right w (c_text (hc_comm (snd e))) @ ''  '' @ pad_right 10 (fmt_u (hc_count (snd e))) @ '' |'' @ bar @ ''|'' @ [NL]"

lemma hist_lines_done:
  assumes "(ucast mx :: u32) \<noteq> 0"
  shows "\<exists>ls. hist_lines pid_of w mx hs = Done ls \<and> list_all2 (\<lambda>e l. \<exists>bar. l = hist_line pid_of w mx e bar) hs ls"
proof (induction hs)
  case (Cons e hs)
  obtain k h where e: "e = (k, h)" by (cases e)
  obtain bar where "print_stars (ucast (hc_count h)) (ucast mx) 40 = Done bar" using assms by (simp add: print_stars_def)
  then show ?case using Cons by (auto simp: e hist_line_def)
qed simp

text \<open>
  A round over a map that does not change: what is listed are the entries behind the start of the walk, and if the start is not a
  key, these are all entries, and all of them are removed.
\<close>

theorem hist_round_exact:
  assumes "distinct (map fst m)" "\<And>k. 0 \<le> hd_lookup r k" "\<And>k. 0 \<le> hd_delete r k" "hd_max r = m" "hd_print r = m" "hd_clear r = m"
    "(ucast (max_of (behind (ct_start c) m)) :: u32) \<noteq> 0"
  shows "\<exists>err ls rest. print_log2_hists pid_of c r = Done (err, hist_titles c (max_of (behind (ct_start c) m)) @ ls, rest)
     \<and> list_all2 (\<lambda>e l. \<exists>bar. l = hist_line pid_of (ct_width c) (max_of (behind (ct_start c) m)) e bar) (behind (ct_start c) m) ls
     \<and> (ct_start c \<notin> fst ` set m \<longrightarrow> err = 0 \<and> rest = [] \<and> behind (ct_start c) m = m)"
proof -
  have w: "hist_walk (length m + 1) (hd_lookup r) m (ct_start c) = Done (behind (ct_start c) m, 0)"
    using assms(1,2) by (intro hist_walk_exact) auto
  obtain ls where ls: "hist_lines pid_of (ct_width c) (max_of (behind (ct_start c) m)) (behind (ct_start c) m) = Done ls"
    "list_all2 (\<lambda>e l. \<exists>bar. l = hist_line pid_of (ct_width c) (max_of (behind (ct_start c) m)) e bar) (behind (ct_start c) m) ls"
    using hist_lines_done [OF assms(7)] by blast
  obtain err rest where cl: "hist_clear (hd_delete r) (ct_start c) m = (err, rest)" by fastforce
  have "ct_start c \<notin> fst ` set m \<Longrightarrow> err = 0 \<and> rest = []" using hist_clear_absent [of "ct_start c" m "hd_delete r"] assms(3) cl by auto
  then show ?thesis using ls cl w assms(4-6) by (simp add: print_log2_hists_def del: hist_walk.simps)
qed

text \<open>
  The number -2 is no process, so \<open>switch_count\<close> lists everything. \<open>wakeup_count\<close> starts from process 0: where this is a key, the
  entries up to it are not listed, and where it is the last key, nothing is listed or removed.
\<close>

lemma switch_count_complete: "mk (- 2) \<notin> fst ` set m \<Longrightarrow> behind (ct_start (switch_count mk)) m = m"
  by (simp add: switch_count_def)

lemma wakeup_count_skips: "mk 0 \<notin> fst ` set pre \<Longrightarrow> behind (ct_start (wakeup_count mk)) (pre @ (mk 0, h) # post) = post"
  by (simp add: wakeup_count_def behind_split)

lemma wakeup_count_lists_nothing:
  assumes "hd_max r = pre @ [(mk 0, h)]" "hd_print r = hd_max r" "hd_clear r = hd_max r" "distinct (map fst (hd_max r))" "\<And>k. 0 \<le> hd_lookup r k"
  shows "wakeup_print_log2_hists mk pid_of r = Done (0, hist_titles (wakeup_count mk) 0, hd_max r)"
proof -
  have b: "behind (mk 0) (hd_max r) = []" using assms(1,4) behind_split [of "mk 0" pre h "[]"] by simp
  have "hist_walk (length (hd_max r) + 1) (hd_lookup r) (hd_max r) (mk 0) = Done ([], 0)"
    using hist_walk_exact [OF assms(4), of "hd_lookup r" "mk 0"] assms(5) b by simp
  moreover have "hist_clear (hd_delete r) (mk 0) (hd_max r) = (0, hd_max r)"
    using assms(1,4) next_key_split [of "mk 0" "map fst pre" "[]"] by (simp add: hist_clear.simps)
  ultimately show ?thesis using assms(2,3)
    by (simp add: wakeup_print_log2_hists_def print_log2_hists_def wakeup_count_def max_of_def del: hist_walk.simps)
qed

text \<open>If the map is empty during the first walk and not during the second, the program divides by zero.\<close>

lemma hist_round_faults:
  assumes "hd_max r = []" "hd_print r = (k, h) # m" "distinct (map fst (hd_print r))" "\<And>k. 0 \<le> hd_lookup r k" "ct_start c \<notin> fst ` set (hd_print r)"
  shows "print_log2_hists pid_of c r = Fault"
proof -
  have w: "hist_walk (length (hd_print r) + 1) (hd_lookup r) (hd_print r) (ct_start c) = Done ((k, h) # m, 0)"
    using hist_walk_exact [OF assms(3), of "hd_lookup r" "ct_start c"] assms(2,4,5) by simp
  have "hist_walk (length (hd_max r) + 1) (hd_lookup r) (hd_max r) (ct_start c) = Done ([], 0)" by (simp add: assms(1) next_key_def)
  then show ?thesis using w by (simp add: print_log2_hists_def max_of_def print_stars_def del: hist_walk.simps)
qed

text \<open>The bar is wrong where the product wraps: the largest count gets two stars instead of forty.\<close>

lemma stars_wrap: "num_stars 115000000 115000000 40 = 2"
  by (simp add: num_stars_def)

text \<open>A descriptor of a cgroup is never closed, and a cgroup that cannot be opened ends the program with status 0.\<close>

lemma task_count_balance:
  assumes "task_count_main pid_of c sys = Done (e, tr, ro, out)"
  shows "balance HrSkel tr = 0"
  using assms by (auto simp: task_count_main_def bind_outcome_def Let_def split: if_splits sum.splits option.splits outcome.splits)

lemma task_count_cgroup_silent:
  assumes "opt_fold tc_case (tt_opts sys) tc_env0 = Inr v" "tt_open sys" "tt_load sys = 0" "tv_cgroupspath v = Some p" "\<not> tt_cgroup sys p"
  shows "\<exists>tr ro. task_count_main pid_of c sys = Done (0, tr, ro, [])"
  using assms by (simp add: task_count_main_def Let_def)

lemma task_count_leaks_cgroup:
  assumes "opt_fold tc_case (tt_opts sys) tc_env0 = Inr v" "tt_open sys" "tt_load sys = 0" "tv_cgroupspath v = Some p" "tt_cgroup sys p"
    "task_count_main pid_of c sys = Done (e, tr, ro, out)"
  shows "balance HrCgroup tr = 1"
  using assms by (auto simp: task_count_main_def bind_outcome_def Let_def split: if_splits outcome.splits)

end
