(* ===== verification/Spec2Isabelle.thy ===== *)
theory Spec2Isabelle
  imports Data_Update Shared_Memory Mirror_Memory Ring_Setup Bpf_Manager Bpf_Linker Dkapture_Api
    Frtp_Policy Net_Limit Net_Filter Tc_Ip Tc_Process Tc_Cgroup Tc_If Signal_Filter Rm_Forbid Elf_Policy
    Kmemleak Lsns Lsock Watch_Api Lscgroup Lsof Run_Queue Net_Traffic Syscall_Stat
    Usage_Text Com_Trace Bio_Stat Trace_Exec Trace_Signal Peek_Fd Ps Arp_Observe
    Workqueue_Snoop Pagefault Hrtimer Rcu_Insight Sched_Snoop Net_Snoop Xhci_Snoop Proc_Info Task_Counts
begin

text \<open>
  Verification of libdkapture, a library and a set of tools that collect process, file and network
  data with BPF programs.

  \<^bold>\<open>The parts of the program.\<close> The library (\<open>src/so\<close>) is used by several processes at once. They share a
  control block in System V shared memory (\<open>shm.cpp\<close>) that holds locks, user counts and indices. The
  locks are one-word spin locks (\<open>spinlock.h\<close>). A byte ring (\<open>ring-buffer.cpp\<close>) lies in a segment
  that is attached twice, back to back (\<open>MirrorMemory\<close>); the same class also consumes the BPF ring
  that the kernel fills. The data map (\<open>data-map.cpp\<close>) is a shared table of what was captured: a
  query searches it, and on a miss runs the kernel's task iterator, polls the BPF ring into the table
  and searches again. The BPF manager (\<open>bpf-manager.cpp\<close>) loads and pins the programs once for all
  processes. The API class (\<open>dkapture.cpp\<close>) puts these together behind \<open>open\<close>, \<open>read\<close> and the
  watch functions. Tools share BPF maps through a registry file (\<open>pin-registry.cpp\<close>) and a linker
  (\<open>bpf-linker.cpp\<close>). The policy and filter tools turn options and rule text into fixed-size rules, put
  them into the maps of a BPF program, attach it and report its events: file protection
  (\<open>policy/frtp.cpp\<close>), verification of executables (\<open>policy/elfverify.cpp\<close>), traffic limits
  (\<open>filter/net-limit.cpp\<close>), the packet filter (\<open>filter/net-filter.cpp\<close>), traffic control by address,
  process, cgroup and interface (\<open>filter/tc-*.cpp\<close>), signals (\<open>filter/signal-filter.cpp\<close>) and removal of
  files (\<open>filter/rm-forbid.cpp\<close>). The observation tools (\<open>observe\<close>) read what a BPF program collected and print
  it; those with a state or a structure of their own are modelled.

  \<^bold>\<open>Theories.\<close>

  \<^item> \<open>Dk_Prelude\<close>: C integer types as words, errno values, power-of-two masks.
  \<^item> \<open>C_Strings\<close>: \<open>isspace\<close>, \<open>tolower\<close>, \<open>getline\<close>, \<open>operator>>\<close>, \<open>strtol\<close>, \<open>strtoul\<close>, \<open>%u\<close>.
  \<^item> \<open>C_Format\<close>: padding and hexadecimal formats of \<open>printf\<close>, and fields read from the bytes of a structure.
  \<^item> \<open>Spin_Lock\<close>: \<open>SpinLock\<close> and \<open>SpinLockGuard\<close>. The word operations satisfy the locale
    \<open>lock_contract\<close>; mutual exclusion is an invariant of the step relation \<open>lock_step\<close> over all
    interleavings of threads; \<open>lock()\<close> returns exactly when the word was seen free.
  \<^item> \<open>Mirror_Memory\<close>: the constructor with every failure path, and that both halves alias.
  \<^item> \<open>Shared_Memory\<close>: \<open>operator new\<close> and \<open>delete\<close> of the control block: the race to create it, waiting
    for the creator, repair of locks of dead processes, the count of users.
  \<^item> \<open>Ring_Buffer\<close>: \<open>write\<close> and \<open>read\<close> of the byte ring; the locale \<open>bounded_fifo\<close> is the abstract queue,
    and its interpretation is the refinement, with 64-bit indices that wrap.
  \<^item> \<open>Bpf_Ring\<close>: \<open>roundup_len\<close>, \<open>buf\<close> and \<open>poll\<close>, against the kernel's documented record layout.
  \<^item> \<open>Ring_Setup\<close>: both constructors and the destructor of \<open>RingBuffer\<close>, and that mappings are released.
  \<^item> \<open>Data_Map\<close>: sizes, keys, \<open>push\<close>, \<open>sub_iterator\<close>, \<open>unsafe_find\<close>; the table is related by
    \<open>table_repr\<close> to the log of everything pushed, and searching refines \<open>search\<close> on that log.
  \<^item> \<open>Data_Update\<close>: \<open>handle_event\<close>, \<open>update\<close>, \<open>find\<close>: a query after a refresh returns exactly the bytes
    of the requested type that the kernel delivered; a fresh table answers without a refresh; binary
    search by ring offset; \<open>list_all_entrys\<close>.
  \<^item> \<open>Pin_Registry\<close> and \<open>Bpf_Linker\<close>: the registry file is a finite map (locale \<open>name_table\<close>), and what
    one tool pins the next one binds.
  \<^item> \<open>Bpf_Manager\<close>: looking up maps, pinning with rollback, counting users.
  \<^item> \<open>Dkapture_Api\<close>: every public operation, over the locale \<open>data_source\<close>, which the data map
    implements; parsing of \<open>/proc\<close> paths; log levels.
  \<^item> \<open>Frtp_Policy\<close>: policy text to rules, expansion of directory rules against a file tree that is defined
    independently of the walk (\<open>answers_as\<close>), loading into the kernel.
  \<^item> \<open>Net_Cgroup\<close> and \<open>Net_Limit\<close>: finding and creating cgroups, options, rules and statistics in pinned
    maps, the \<open>tc\<close> commands and their quoting, and the commands of the tool.
  \<^item> \<open>Inet_Text\<close>: addresses and their text (\<open>inet_pton\<close>, \<open>inet_ntop\<close>, MAC addresses), byte order.
  \<^item> \<open>Net_Filter_Parse\<close> and \<open>Net_Filter\<close>: the rule language of the packet filter, its printer, a round
    trip between them, and the life of the filter: loading rules, clearing, dumping, events, teardown.
  \<^item> \<open>Tc_Common\<close>: what the four traffic control tools repeat: bandwidths, the error log, retrying, option
    switches (locale \<open>option_cases\<close>), and the trace of resources taken and given back.
  \<^item> \<open>Tc_Ip\<close>, \<open>Tc_Process\<close>, \<open>Tc_Cgroup\<close>, \<open>Tc_If\<close>: options to rules, events, set-up and clean-up of each tool.
  \<^item> \<open>Signal_Filter\<close> and \<open>Rm_Forbid\<close>: options to rules, their maps and events.
  \<^item> \<open>Elf_Policy\<close>: policy text to rules, the walk over directories with its own loop over the entries, compared
    with that of \<open>frtp\<close> on the same file tree, loading.
  \<^item> \<open>Ksyms\<close>: the kernel's symbol table: reading \<open>/proc/kallsyms\<close>, the pool of names, binary search.
  \<^item> \<open>Kmemleak\<close>: outstanding allocations by stack: options, totals, reports, the traced child.
  \<^item> \<open>Lsns\<close>: namespaces: the scan of \<open>/proc\<close>, the forest of representatives and the guarded traversal of it
    (locale \<open>guarded_search\<close>); the rows of the table with their tree prefixes against chains of children, and
    JSON objects against the list of headers.
  \<^item> \<open>Lsock\<close>: sockets: the filter rule, the records of the iterators and their text, the buffer that joins records
    split between two reads, the sockets of tasks.
  \<^item> \<open>Usr_Grp\<close>: names of users and groups, permission bits as text.
  \<^item> \<open>Watch_Tool\<close>: what the observers behind the watch functions share: object, ring and polling thread in static
    pointers. The locale \<open>watch_tool\<close> says what a start and a stop promise, and shows that sessions of them
    use everything correctly, also after the exception of a thread that could not be started.
  \<^item> \<open>Trace_File\<close>, \<open>Mountsnoop\<close>, \<open>Irqsnoop\<close>: the three observers: options, the text of their events, set-up and
    clean-up, as interpretations of \<open>watch_tool\<close> (for \<open>irqsnoop\<close> only while no call fails).
  \<^item> \<open>Watch_Api\<close>: the watch functions of the library run on the state of the observers.
  \<^item> \<open>Std_Map\<close>: maps with ordered keys to which events are added one by one, and what they hold afterwards.
  \<^item> \<open>Lscgroup\<close>, \<open>Lsof\<close>, \<open>Run_Queue\<close>, \<open>Net_Traffic\<close>, \<open>Syscall_Stat\<close>: control groups, users of a file, run queues,
    traffic and system calls: options, what is collected, and what is printed. The counters of \<open>Syscall_Stat\<close> change
    while they are read, and the iterator of \<open>Lscgroup\<close> delivers no more than its buffer holds.
  \<^item> \<open>Usage_Text\<close>: the tables of options and help texts of fifteen tools, and the messages printed from them.
  \<^item> \<open>Com_Trace\<close>: the functions and the class \<open>Trace\<close> of \<open>include/com.h\<close>.
  \<^item> \<open>Bio_Stat\<close>: block I/O: names of disks, the text of requests, both loops.
  \<^item> \<open>Ring_Worker\<close>: the polling thread that several tools repeat, with the locale \<open>event_printer\<close> for their handlers;
    \<open>Trace_Exec\<close>, \<open>Trace_Signal\<close> and \<open>Peek_Fd\<close> interpret it.
  \<^item> \<open>Ps\<close>, \<open>Proc_Info\<close>, \<open>Arp_Observe\<close>: the list of processes, all records of processes, and ARP packets with their filter.
  \<^item> \<open>Workqueue_Snoop\<close>: work items of the kernel: the nearest symbol of an address, statistics against their definition
    on the list of events, the loop over \<open>epoll\<close>.
  \<^item> \<open>Poll_Loop\<close>: the polling loop in a main thread; \<open>Pagefault\<close>, \<open>Hrtimer\<close>, \<open>Rcu_Insight\<close>, \<open>Sched_Snoop\<close>,
    \<open>Net_Snoop\<close> and \<open>Xhci_Snoop\<close> use it: options to filters, the text of events, what is selected, and how a run ends.

  \<^item> \<open>Key_Walk\<close>: walking over a map of the kernel from a key, shared by \<open>Net_Filter\<close> and \<open>Task_Counts\<close>, which models the counters of
    switches and wake-ups: what is listed and removed, and the bar of stars.

  This theory adds what spans components: the maps that one tool loads and pins are bound by the next.

  \<^bold>\<open>Conventions.\<close> State is a record that is passed and returned. A call that may not return, fault or
  fail an assertion has the type \<open>outcome\<close>, where a loop that is still waiting is \<open>Blocked\<close> and undefined
  behaviour, such as the overflow of a signed index, is \<open>Fault\<close>; an errno is a negative \<open>int\<close> as in the sources. Machine
  integers are words wherever they can wrap, and \<open>to_int32\<close> marks a store into an \<open>int\<close>. The kernel,
  libbpf, the file system, \<open>getopt_long\<close>, \<open>system\<close> and floating point are parameters (records such as
  \<open>mm_sys\<close>, \<open>shm_env\<close>, \<open>reg_sys\<close>, \<open>link_sys\<close>, \<open>cg_sys\<close>, \<open>nl_sys\<close>), and what is relied on is a named
  hypothesis: \<open>sys_ok\<close>, \<open>link_ok\<close>, \<open>laid_out\<close> and \<open>rounds_ok\<close> for the BPF ring, \<open>iterates\<close> for walking a
  kernel map. A map of the kernel is represented by its contents. The tools that take and release kernel
  objects return a trace of \<open>res_event\<close>; \<open>balance\<close> counts what is taken and not given back. A local
  variable that has no value on some path, such as \<open>err\<close> in the traffic control tools, is an \<open>option\<close>.

  \<^bold>\<open>Loops and fuel.\<close> The loops of \<open>lock\<close>, \<open>poll\<close> and the waiting loop of \<open>shm.cpp\<close> run over the list of
  what they observe; an exhausted list is \<open>Blocked\<close>, and the theorems give the length that is enough
  (for \<open>poll\<close>, one more than the records). \<open>grow_pow2\<close> has fuel 64, enough for every shift of a 64-bit
  word (\<open>table_size_correct\<close>). The directory walk of \<open>frtp\<close> has the nesting depth as fuel, and
  \<open>directory_rule_covers_tree\<close> shows that the depth of the tree is enough. The walks over kernel maps are
  \<open>partial_function\<close>s, shown to end. \<open>clear_from\<close> ends since each turn deletes a rule; \<open>dump_from\<close> has the
  number of rules plus one as fuel, which \<open>clear_and_dump_exact\<close> shows to be enough. The walk of
  \<open>elfverify\<close> has the nesting depth as fuel, and \<open>elf_walk_agrees\<close> shows that the depth of the tree is
  enough. The loop of \<open>lscgroup\<close> that doubles its buffer runs over the reads it makes, and
  \<open>cgroup_listing_complete\<close> gives their number; the walk of \<open>syscall-stat\<close> has the number of keys as fuel
  (\<open>syscall_round_exact\<close>). \<open>retry_operation\<close> runs over the list of what its calls give. The walks of
  \<open>switch_count\<close> have the number of entries plus one as fuel (\<open>hist_walk_exact\<close>).

  \<^bold>\<open>Behaviour worth knowing.\<close> Lemmas outside the main properties record where the code surprises:
  \<open>unlock_counts_waiting\<close>, \<open>normal_ring_unmaps_garbage\<close>, \<open>attached_dump_fails\<close>, \<open>missing_map_exit_status\<close>,
  \<open>root_pattern_empty\<close>, \<open>do_add_after_usage\<close>, \<open>load_failure_exit_zero\<close>, \<open>class_of_cgroup_shared\<close>,
  \<open>parse_bandwidth_wraps\<close>, \<open>parse_port_truncates\<close>, \<open>parse_port_loose\<close>, \<open>parse_ip_open_range\<close>,
  \<open>enable_sets_debug\<close>, \<open>print_rule_v6_ports\<close>, \<open>deinit_twice\<close>, \<open>first_rule_zero_stays\<close>,
  \<open>ip_main_double_close\<close>, \<open>proc_main_double_close\<close>, \<open>if_main_status\<close>, \<open>cgroup_main_leaves_program\<close>,
  \<open>cgroup_main_forgets_poll\<close>, \<open>rm_inode_truncated\<close>, \<open>rm_main_silent\<close>, \<open>elf_main_never_zero\<close>,
  \<open>elf_device_zero_is_root\<close>, \<open>older_overflow\<close>, \<open>load_failure_orphans_child\<close>, \<open>event_failure_status_zero\<close>,
  \<open>long_name_overruns\<close>, \<open>per_cpu_overrun\<close>, \<open>json_after_heading\<close>, \<open>split_twice_stale\<close>, \<open>read_tasks_loses_third\<close>,
  \<open>unix_only_lists_all\<close>, \<open>listen_ignored\<close>, \<open>port_wraps\<close>, \<open>circle_new_failure\<close>, \<open>circle_overwrites\<close>,
  \<open>inode_filter_never_starts\<close>, \<open>chmod_same_text\<close>, \<open>empty_path_faults\<close>, \<open>empty_vector_faults\<close>, \<open>trace_file_main_status\<close>,
  \<open>second_start_leaks\<close>, \<open>fs_watch_stop_misses\<close>, \<open>file_watch_all_exits\<close>, \<open>silent_failure\<close>, \<open>failed_start_destroys_twice\<close>,
  \<open>tid_range_collapses\<close>, \<open>rq_flags_idle\<close>, \<open>rq_bad_range\<close>, \<open>rq_load_failure_faults\<close>, \<open>options_without_effect\<close>,
  \<open>name_overwrites_pid\<close>, \<open>top_not_accepted\<close>, \<open>lo_inode_truncated\<close>, \<open>lscgroup_silent\<close>, \<open>reverse_long_collapses\<close>,
  \<open>read_trace_drops\<close>, \<open>mkdev_collides\<close>, \<open>top_ignores_duration\<close>, \<open>bio_stat_never_joins\<close>, \<open>bio_stat_silent\<close>,
  \<open>signal_load_failure_faults\<close>, \<open>pipe_error_waits\<close>, \<open>peek_overruns\<close>, \<open>ps_loses_pending\<close>, \<open>ps_options_without_effect\<close>,
  \<open>ps_iterator_failure_leaks\<close>, \<open>arp_help_needs_interface\<close>, \<open>arp_silent_failure\<close>,
  \<open>wq_loop_killed\<close>, \<open>end_without_start_faults\<close>, \<open>wq_filter_failure\<close>, \<open>wq_full_read_status\<close>, \<open>pagefault_interrupted\<close>,
  \<open>pf_sides_without_effect\<close>, \<open>hrtimer_leaks_cgroup\<close>, \<open>rc_interval_without_effect\<close>, \<open>default_omits_exec\<close>, \<open>states_swapped\<close>,
  \<open>push_flag_invalid\<close>, \<open>ns_bad_event_ends\<close>, \<open>ns_stats_without_effect\<close>, \<open>xh_same_lines\<close>, \<open>xh_unknown_not_filtered\<close>,
  \<open>xh_pid_not_a_number\<close>, \<open>no_header_hides_stat\<close>, \<open>proc_info_iterator_failure_leaks\<close>,
  \<open>wakeup_count_lists_nothing\<close>, \<open>hist_round_faults\<close>, \<open>stars_wrap\<close>, \<open>task_count_cgroup_silent\<close>, \<open>registry_blank_lost\<close>,
  \<open>del_egress_keeps_counters\<close>, \<open>rule_name_cut\<close>, \<open>thread_failure_keeps\<close>, \<open>odd_length_hidden\<close>.

  \<^bold>\<open>Not modelled.\<close> The BPF programs (they are in a submodule), the text of messages, signal handlers, usage texts of
  other forms and logging threads, tests, load generators, demos and scripts. Memory ordering is sequentially consistent, and
  processes that die while they hold a lock appear only in the lock's step relation and in the repair of the control block.
  The remaining tools under \<open>observe\<close> (\<open>ext4snoop\<close>, \<open>tcp-insight\<close>, \<open>thermal-snoop\<close>, \<open>btrfs-snoop\<close>, \<open>power-snoop\<close>,
  \<open>graphics-snoop\<close>, \<open>spinlock_ob\<close>, \<open>urblat\<close> and \<open>usb_ob\<close>) include a header of that
  submodule with the structures and numbers of their events: without it neither the dispatch nor the text of an event can be
  read from the sources.

  \<^bold>\<open>Next steps.\<close> These tools, once the headers are at hand; they have the shape of \<open>Poll_Loop\<close>.
\<close>

section \<open>From one tool to the next\<close>

lemma resolve_binds_all:
  assumes "sys_ok rs" "link_ok ls"
    and "\<forall>n \<in> S. live ls (PIN_DIR @ n) \<and> reg_look (file_text st) n = Some (PIN_DIR @ n)"
  shows "\<exists>st' bound. bpf_linker_resolve_extern rs ls ms st = (0, st', bound)
     \<and> (\<forall>n \<in> S. Some n \<in> set ms \<longrightarrow> (n, PIN_DIR @ n) \<in> set bound)"
proof -
  obtain st' where "resolve_maps rs ls ms st [] = (0, st', [] @ to_bind ls (reg_look (file_text st)) ms)"
    using resolve_maps_ok [OF assms(1,2), of ms st "[]"] by blast
  then show ?thesis
    using assms(3) to_bind_member [of ls _ "reg_look (file_text st)"]
    by (simp only: bpf_linker_resolve_extern_def append_Nil) blast
qed

text \<open>C12: When \<open>net-limit load --egress\<close> finds its device, its \<open>tc\<close> commands succeed and the kernel accepts
  the object and the hook, it ends with success, and any other tool that then resolves its external
  maps is bound to the pinned rules, buckets, statistics and shape rules by name.\<close>

theorem egress_load_shares_maps:
  assumes "top_has_flag argv ''--egress''" "getopt_long sys ''d:eh'' 3 (shape_argv argv) = [(CHR ''d'', dev), (CHR ''e'', [])]"
    and "uid_root sys" "if_nametoindex sys dev \<noteq> 0" "\<forall>c. cmd_exit sys c = Some 0"
    and "skel_open sys" "skel_load sys = 0" "hook_create sys \<in> {0, - EEXIST}" "tc_attach sys \<in> {0, - EEXIST}"
    and "sys_ok (regs sys)" "link_ok (links sys)" "mkdir_err (links sys) \<in> {None, Some EEXIST}"
    and "\<forall>n \<in> set shared_maps. (path_exists (regs sys) (PIN_DIR @ n) \<or> map_pin (regs sys) (PIN_DIR @ n) = 0)
           \<and> live (links sys) (PIN_DIR @ n)"
  shows "\<exists>st' r bound. do_load sys argv st = (0, st')
     \<and> bpf_linker_resolve_extern (regs sys) (links sys) ms (registry st') = (0, r, bound)
     \<and> (\<forall>n \<in> set shared_maps. Some n \<in> set ms \<longrightarrow> (n, PIN_DIR @ n) \<in> set bound)"
proof -
  obtain st1 where s1: "shape_setup_htb sys dev st = (True, st1)"
    using assms(5) by (simp add: shape_setup_htb_def run_cmd_def)
  obtain r1 b where r1: "bpf_linker_resolve_extern (regs sys) (links sys) (skel_maps sys) (registry st1) = (0, r1, b)"
    using resolve_binds_all [OF assms(10,11), of "{}"] by blast
  have "\<forall>n \<in> set shared_maps. is_word n" by (simp add: is_word_def is_space_def)
  with assms(13) obtain st2 where st2: "pin_maps sys shared_maps (hold Skeleton (st1\<lparr>registry := r1\<rparr>)) = (0, st2)"
    "\<forall>n \<in> set shared_maps. reg_look (file_text (registry st2)) n = Some (PIN_DIR @ n)"
    using pin_maps_ok [OF assms(10,12), of shared_maps "hold Skeleton (st1\<lparr>registry := r1\<rparr>)"] by metis
  let ?st = "snd (shape_load_out 0 True (hold EgressHook st2))"
  have "do_load sys argv st = (0, ?st)"
    using assms(1-9) s1 r1 st2(1)
    by (auto simp: do_load_def do_shape_load_def dev_case_def no_opts_def shape_load_out_def Let_def)
  moreover have "registry ?st = registry st2" by (simp add: shape_load_out_def drop_held_def hold_def Let_def)
  ultimately show ?thesis
    using resolve_binds_all [OF assms(10,11), of "set shared_maps" "registry st2" ms] assms(13) st2(2) by auto
qed

definition ex_loader :: nl_sys where
  "ex_loader = ex_nl\<lparr>getopt_long := (\<lambda>os i argv. [(CHR ''d'', ''eth0''), (CHR ''e'', [])]), skel_load := 0\<rparr>"

theorem egress_load_shares_maps_witness:
  "\<exists>st' r bound. do_load ex_loader [''net-limit'', ''load'', ''--egress'', ''--dev'', ''eth0''] ex_nl_state = (0, st')
     \<and> bpf_linker_resolve_extern ex_sys ex_links [Some ''stats''] (registry st') = (0, r, bound)
     \<and> (''stats'', PIN_DIR @ ''stats'') \<in> set bound"
proof -
  have "\<exists>st' r bound. do_load ex_loader [''net-limit'', ''load'', ''--egress'', ''--dev'', ''eth0''] ex_nl_state = (0, st')
     \<and> bpf_linker_resolve_extern (regs ex_loader) (links ex_loader) [Some ''stats''] (registry st') = (0, r, bound)
     \<and> (\<forall>n \<in> set shared_maps. Some n \<in> set [Some ''stats''] \<longrightarrow> (n, PIN_DIR @ n) \<in> set bound)"
    by (rule egress_load_shares_maps [where dev = "''eth0''"])
      (simp_all add: ex_loader_def ex_nl_def top_has_flag_def sys_ok_def ex_sys_def link_ok_def ex_links_def live_def)
  then show ?thesis by (simp add: ex_loader_def ex_nl_def)
qed

end
